(* ===== verification/Prelude.thy ===== *)
theory Prelude
  imports Main "HOL-Library.Word" "HOL-Library.Monad_Syntax"
begin

unbundle bit_operations_syntax

text \<open>
  Shared vocabulary of the development: the C integer types of the 32-bit ARM target as words,
  byte buffers as lists of bytes with bounds-checked stores, the host's little-endian layout of
  16 and 32 bit values, and the list and word lemmas that several components use.  A store that
  would leave its buffer is \<^term>\<open>None\<close>: the C code has no check there, so the model shows the
  memory error instead of hiding it.
\<close>

type_synonym u8 = "8 word"
type_synonym u16 = "16 word"
type_synonym u32 = "32 word"
type_synonym bytes = "u8 list"

named_theorems layout "unfolding rules of the byte layouts"
named_theorems buffer_simps "lengths and contents of buffers after stores"

subsection \<open>Byte layouts of the little-endian host\<close>

definition lo8 :: "u16 \<Rightarrow> u8" where
  [layout]: "lo8 w = ucast w"

definition hi8 :: "u16 \<Rightarrow> u8" where
  [layout]: "hi8 w = ucast (drop_bit 8 w)"

definition le16 :: "u16 \<Rightarrow> bytes" where
  [layout]: "le16 w = [lo8 w, hi8 w]"

definition be16 :: "u16 \<Rightarrow> bytes" where
  [layout]: "be16 w = [hi8 w, lo8 w]"

definition mk16 :: "u8 \<Rightarrow> u8 \<Rightarrow> u16" where
  [layout]: "mk16 hi lo = push_bit 8 (ucast hi) OR ucast lo"

definition byte_of :: "nat \<Rightarrow> u32 \<Rightarrow> u8" where
  [layout]: "byte_of k w = ucast (drop_bit (8 * k) w)"

definition le32 :: "u32 \<Rightarrow> bytes" where
  [layout]: "le32 w = [byte_of 0 w, byte_of 1 w, byte_of 2 w, byte_of 3 w]"

definition be32 :: "u32 \<Rightarrow> bytes" where
  [layout]: "be32 w = [byte_of 3 w, byte_of 2 w, byte_of 1 w, byte_of 0 w]"

lemma length_layouts [simp]:
  "length (le16 w) = 2" "length (be16 w) = 2" "length (le32 v) = 4" "length (be32 v) = 4"
  by (simp_all add: layout)

lemma bit_lo8: "bit (lo8 w) n \<longleftrightarrow> n < 8 \<and> bit w n"
  by (auto simp: lo8_def bit_simps)

lemma bit_hi8: "bit (hi8 w) n \<longleftrightarrow> n < 8 \<and> bit w (n + 8)"
  by (auto simp: hi8_def bit_simps add.commute)

lemma bit_mk16: "bit (mk16 hi lo) n \<longleftrightarrow> n < 16 \<and> (if n < 8 then bit lo n else bit hi (n - 8))"
  by (auto simp: mk16_def bit_simps dest: bit_imp_le_length)

lemma mk16_hi8_lo8 [simp]: "mk16 (hi8 w) (lo8 w) = w"
  by (rule bit_eqI) (auto simp: bit_mk16 bit_hi8 bit_lo8)

lemma hi8_mk16 [simp]: "hi8 (mk16 h l) = h"
  by (rule bit_eqI) (auto simp: bit_mk16 bit_hi8)

lemma lo8_mk16 [simp]: "lo8 (mk16 h l) = l"
  by (rule bit_eqI) (auto simp: bit_mk16 bit_lo8)

lemma unat_u8_less [simp]: "unat (b :: u8) < 256"
  by (rule order_less_le_trans [OF unsigned_less]) simp

lemma unat_u16_less [simp]: "unat (w :: u16) < 65536"
  by (rule order_less_le_trans [OF unsigned_less]) simp

lemma unat_u8_le [simp]: "unat (b :: u8) \<le> 255"
  using unat_u8_less [of b] by linarith

lemma unat_u16_le [simp]: "unat (w :: u16) \<le> 65535"
  using unat_u16_less [of w] by linarith

subsection \<open>Stores into byte buffers\<close>

definition store :: "nat \<Rightarrow> bytes \<Rightarrow> bytes \<Rightarrow> bytes option" where
  "store off src buf =
     (if off + length src \<le> length buf
      then Some (take off buf @ src @ drop (off + length src) buf) else None)"

abbreviation store16 :: "nat \<Rightarrow> u16 \<Rightarrow> bytes \<Rightarrow> bytes option" where
  "store16 off w \<equiv> store off (le16 w)"

abbreviation store32 :: "nat \<Rightarrow> u32 \<Rightarrow> bytes \<Rightarrow> bytes option" where
  "store32 off w \<equiv> store off (le32 w)"

definition chunk :: "nat \<Rightarrow> nat \<Rightarrow> 'a list \<Rightarrow> 'a list" where
  "chunk off n buf = take n (drop off buf)"

text \<open>A checked load: reading past the end of the buffer is \<^term>\<open>None\<close>.\<close>

definition load :: "nat \<Rightarrow> nat \<Rightarrow> 'a list \<Rightarrow> 'a list option" where
  "load off n buf = (if off + n \<le> length buf then Some (chunk off n buf) else None)"

lemma load_Some: "load off n buf = Some xs \<longleftrightarrow> off + n \<le> length buf \<and> xs = chunk off n buf"
  by (auto simp: load_def)

lemma store_fits [simp]: "store off src buf = None \<longleftrightarrow> length buf < off + length src"
  by (auto simp: store_def)

lemma store_total:
  "off + length src \<le> length buf \<Longrightarrow> \<exists>buf'. store off src buf = Some buf' \<and> length buf' = length buf"
  by (simp add: store_def)

lemma length_store [buffer_simps]: "store off src buf = Some buf' \<Longrightarrow> length buf' = length buf"
  by (auto simp: store_def split: if_splits)

lemma chunk_store_same [buffer_simps]:
  "store off src buf = Some buf' \<Longrightarrow> chunk off (length src) buf' = src"
  by (auto simp: store_def chunk_def split: if_splits)

lemma chunk_store_before:
  "store off src buf = Some buf' \<Longrightarrow> o' + n \<le> off \<Longrightarrow> chunk o' n buf' = chunk o' n buf"
  by (auto simp: store_def chunk_def min_def drop_take split: if_splits)

lemma chunk_store_after:
  "store off src buf = Some buf' \<Longrightarrow> off + length src \<le> o' \<Longrightarrow> chunk o' n buf' = chunk o' n buf"
  by (auto simp: store_def chunk_def min_def split: if_splits)

lemmas chunk_store_other = chunk_store_before chunk_store_after

lemma length_chunk: "length (chunk off n buf) = min n (length buf - off)"
  by (simp add: chunk_def)

lemma chunk_append: "chunk off (m + n) buf = chunk off m buf @ chunk (off + m) n buf"
  by (simp add: chunk_def take_add add.commute)

lemma chunk_0 [simp]: "chunk 0 n buf = take n buf" "chunk off 0 buf = []"
  by (simp_all add: chunk_def)

end
