(* ===== verification/Checksum.thy ===== *)
theory Checksum
  imports Prelude
begin

unbundle bit_operations_syntax

text \<open>
  The integrity checks of the boot and NV code: the bit-serial CRC-CCITT, the table-driven
  CRC-16 and the two 16-bit one's-complement sums of \<open>modem_control/crc16.c\<close>, and the unrolled
  table-driven CRC-32 of \<open>nvm_daemon/crc32b.c\<close>.  A pointer/length pair is the list of the
  bytes it spans.  The locale \<open>crc_register\<close> states what makes a byte update a CRC; its
  interpretations show that each of the three updates of the code is one.
\<close>

subsection \<open>crc16.c: the bit-serial CRC of the download frames\<close>

definition CRC_16_POLYNOMIAL :: u16 where "CRC_16_POLYNOMIAL = 0x1021"
definition CRC_16_L_POLYNOMIAL :: u16 where "CRC_16_L_POLYNOMIAL = 0x8000"
definition CRC_16_L_SEED :: u32 where "CRC_16_L_SEED = 0x80"
definition CRC_16_L_OK :: u16 where "CRC_16_L_OK = 0"

text \<open>One round of the inner loop, for the mask \<open>i\<close>.\<close>

definition crc_16_l_step :: "u16 \<Rightarrow> u8 \<Rightarrow> u32 \<Rightarrow> u16" where
  "crc_16_l_step crc b i =
     (let crc = (if crc AND CRC_16_L_POLYNOMIAL \<noteq> 0
                 then push_bit 1 crc XOR CRC_16_POLYNOMIAL
                 else push_bit 1 crc)
      in if ucast b AND i \<noteq> 0 then crc XOR CRC_16_POLYNOMIAL else crc)"

function crc_16_l_byte :: "u16 \<Rightarrow> u8 \<Rightarrow> u32 \<Rightarrow> u16" where
  "crc_16_l_byte crc b i =
     (if i = 0 then crc else crc_16_l_byte (crc_16_l_step crc b i) b (drop_bit 1 i))"
  by pat_completeness auto
termination
proof (relation "measure (\<lambda>(_, _, i). unat i)")
  fix i :: u32
  assume "i \<noteq> 0"
  then have "0 < unat i" by (simp add: unat_gt_0)
  then show "((c, b, drop_bit 1 i), crc, b, i) \<in> measure (\<lambda>(_, _, i). unat i)" for c crc b
    by (simp add: drop_bit_eq_div unat_div)
qed simp

declare crc_16_l_byte.simps [simp del]

definition crc_16_l_calc :: "bytes \<Rightarrow> u16" where
  "crc_16_l_calc buf = foldl (\<lambda>crc b. crc_16_l_byte crc b CRC_16_L_SEED) 0 buf"

subsection \<open>crc16.c: the one's-complement sums\<close>

text \<open>The end-around folding that both sums share, on the 32-bit accumulator.\<close>

definition fold_sum :: "u32 \<Rightarrow> u16" where
  "fold_sum s =
     (let s = drop_bit 16 s + (s AND 0xFFFF);
          s = s + drop_bit 16 s
      in ucast (NOT s))"

text \<open>\<open>frm_chk\<close>: two words per round, then the switch on the bytes that are left.\<close>

fun frm_chk_sum :: "u32 \<Rightarrow> bytes \<Rightarrow> u32" where
  "frm_chk_sum acc (a # b # c # d # src) =
     frm_chk_sum (acc + ucast (mk16 b a) + ucast (mk16 d c)) src"
| "frm_chk_sum acc [a, b] = acc + ucast (mk16 b a)"
| "frm_chk_sum acc [a, b, c] = acc + ucast (mk16 b a) + ucast c"
| "frm_chk_sum acc [a] = acc + ucast a"
| "frm_chk_sum acc [] = acc"

definition frm_chk :: "bytes \<Rightarrow> u16" where
  "frm_chk src = fold_sum (frm_chk_sum 0 src)"

fun boot_checksum_words :: "nat \<Rightarrow> u32 \<Rightarrow> bytes \<Rightarrow> u32" where
  "boot_checksum_words (Suc size1) acc (a # b # data) =
     boot_checksum_words size1 (acc + ucast (mk16 b a)) data"
| "boot_checksum_words size1 acc data = acc"

definition boot_checksum :: "bytes \<Rightarrow> u16" where
  "boot_checksum src =
     (let len = length src; size1 = len div 2; size2 = len mod 2;
          acc = (if len \<noteq> 0
                 then let acc = boot_checksum_words size1 0 src
                      in if size2 \<noteq> 0 then acc + ucast (src ! (len - 1)) else acc
                 else 0)
      in fold_sum acc)"

subsection \<open>crc16.c: the table-driven CRC-16\<close>

definition crc16_table :: "u16 list" where
  "crc16_table = [
   0x0000, 0xC0C1, 0xC181, 0x0140, 0xC301, 0x03C0, 0x0280, 0xC241,
   0xC601, 0x06C0, 0x0780, 0xC741, 0x0500, 0xC5C1, 0xC481, 0x0440,
   0xCC01, 0x0CC0, 0x0D80, 0xCD41, 0x0F00, 0xCFC1, 0xCE81, 0x0E40,
   0x0A00, 0xCAC1, 0xCB81, 0x0B40, 0xC901, 0x09C0, 0x0880, 0xC841,
   0xD801, 0x18C0, 0x1980, 0xD941, 0x1B00, 0xDBC1, 0xDA81, 0x1A40,
   0x1E00, 0xDEC1, 0xDF81, 0x1F40, 0xDD01, 0x1DC0, 0x1C80, 0xDC41,
   0x1400, 0xD4C1, 0xD581, 0x1540, 0xD701, 0x17C0, 0x1680, 0xD641,
   0xD201, 0x12C0, 0x1380, 0xD341, 0x1100, 0xD1C1, 0xD081, 0x1040,
   0xF001, 0x30C0, 0x3180, 0xF141, 0x3300, 0xF3C1, 0xF281, 0x3240,
   0x3600, 0xF6C1, 0xF781, 0x3740, 0xF501, 0x35C0, 0x3480, 0xF441,
   0x3C00, 0xFCC1, 0xFD81, 0x3D40, 0xFF01, 0x3FC0, 0x3E80, 0xFE41,
   0xFA01, 0x3AC0, 0x3B80, 0xFB41, 0x3900, 0xF9C1, 0xF881, 0x3840,
   0x2800, 0xE8C1, 0xE981, 0x2940, 0xEB01, 0x2BC0, 0x2A80, 0xEA41,
   0xEE01, 0x2EC0, 0x2F80, 0xEF41, 0x2D00, 0xEDC1, 0xEC81, 0x2C40,
   0xE401, 0x24C0, 0x2580, 0xE541, 0x2700, 0xE7C1, 0xE681, 0x2640,
   0x2200, 0xE2C1, 0xE381, 0x2340, 0xE101, 0x21C0, 0x2080, 0xE041,
   0xA001, 0x60C0, 0x6180, 0xA141, 0x6300, 0xA3C1, 0xA281, 0x6240,
   0x6600, 0xA6C1, 0xA781, 0x6740, 0xA501, 0x65C0, 0x6480, 0xA441,
   0x6C00, 0xACC1, 0xAD81, 0x6D40, 0xAF01, 0x6FC0, 0x6E80, 0xAE41,
   0xAA01, 0x6AC0, 0x6B80, 0xAB41, 0x6900, 0xA9C1, 0xA881, 0x6840,
   0x7800, 0xB8C1, 0xB981, 0x7940, 0xBB01, 0x7BC0, 0x7A80, 0xBA41,
   0xBE01, 0x7EC0, 0x7F80, 0xBF41, 0x7D00, 0xBDC1, 0xBC81, 0x7C40,
   0xB401, 0x74C0, 0x7580, 0xB541, 0x7700, 0xB7C1, 0xB681, 0x7640,
   0x7200, 0xB2C1, 0xB381, 0x7340, 0xB101, 0x71C0, 0x7080, 0xB041,
   0x5000, 0x90C1, 0x9181, 0x5140, 0x9301, 0x53C0, 0x5280, 0x9241,
   0x9601, 0x56C0, 0x5780, 0x9741, 0x5500, 0x95C1, 0x9481, 0x5440,
   0x9C01, 0x5CC0, 0x5D80, 0x9D41, 0x5F00, 0x9FC1, 0x9E81, 0x5E40,
   0x5A00, 0x9AC1, 0x9B81, 0x5B40, 0x9901, 0x59C0, 0x5880, 0x9841,
   0x8801, 0x48C0, 0x4980, 0x8941, 0x4B00, 0x8BC1, 0x8A81, 0x4A40,
   0x4E00, 0x8EC1, 0x8F81, 0x4F40, 0x8D01, 0x4DC0, 0x4C80, 0x8C41,
   0x4400, 0x84C1, 0x8581, 0x4540, 0x8701, 0x47C0, 0x4680, 0x8641,
   0x8201, 0x42C0, 0x4380, 0x8341, 0x4100, 0x81C1, 0x8081, 0x4040]"

definition calculate_crc_step :: "u16 \<Rightarrow> u8 \<Rightarrow> u16" where
  "calculate_crc_step crc b =
     drop_bit 8 crc XOR crc16_table ! unat ((crc XOR ucast b) AND 0xFF)"

definition calculate_crc :: "u16 \<Rightarrow> bytes \<Rightarrow> u16" where
  "calculate_crc crc buffer = foldl calculate_crc_step crc buffer"

subsection \<open>crc32b.c\<close>

definition crc_table :: "u32 list" where
  "crc_table = [
   0x00000000, 0x04c11db7, 0x09823b6e, 0x0d4326d9, 0x130476dc, 0x17c56b6b,
   0x1a864db2, 0x1e475005, 0x2608edb8, 0x22c9f00f, 0x2f8ad6d6, 0x2b4bcb61,
   0x350c9b64, 0x31cd86d3, 0x3c8ea00a, 0x384fbdbd, 0x4c11db70, 0x48d0c6c7,
   0x4593e01e, 0x4152fda9, 0x5f15adac, 0x5bd4b01b, 0x569796c2, 0x52568b75,
   0x6a1936c8, 0x6ed82b7f, 0x639b0da6, 0x675a1011, 0x791d4014, 0x7ddc5da3,
   0x709f7b7a, 0x745e66cd, 0x9823b6e0, 0x9ce2ab57, 0x91a18d8e, 0x95609039,
   0x8b27c03c, 0x8fe6dd8b, 0x82a5fb52, 0x8664e6e5, 0xbe2b5b58, 0xbaea46ef,
   0xb7a96036, 0xb3687d81, 0xad2f2d84, 0xa9ee3033, 0xa4ad16ea, 0xa06c0b5d,
   0xd4326d90, 0xd0f37027, 0xddb056fe, 0xd9714b49, 0xc7361b4c, 0xc3f706fb,
   0xceb42022, 0xca753d95, 0xf23a8028, 0xf6fb9d9f, 0xfbb8bb46, 0xff79a6f1,
   0xe13ef6f4, 0xe5ffeb43, 0xe8bccd9a, 0xec7dd02d, 0x34867077, 0x30476dc0,
   0x3d044b19, 0x39c556ae, 0x278206ab, 0x23431b1c, 0x2e003dc5, 0x2ac12072,
   0x128e9dcf, 0x164f8078, 0x1b0ca6a1, 0x1fcdbb16, 0x018aeb13, 0x054bf6a4,
   0x0808d07d, 0x0cc9cdca, 0x7897ab07, 0x7c56b6b0, 0x71159069, 0x75d48dde,
   0x6b93dddb, 0x6f52c06c, 0x6211e6b5, 0x66d0fb02, 0x5e9f46bf, 0x5a5e5b08,
   0x571d7dd1, 0x53dc6066, 0x4d9b3063, 0x495a2dd4, 0x44190b0d, 0x40d816ba,
   0xaca5c697, 0xa864db20, 0xa527fdf9, 0xa1e6e04e, 0xbfa1b04b, 0xbb60adfc,
   0xb6238b25, 0xb2e29692, 0x8aad2b2f, 0x8e6c3698, 0x832f1041, 0x87ee0df6,
   0x99a95df3, 0x9d684044, 0x902b669d, 0x94ea7b2a, 0xe0b41de7, 0xe4750050,
   0xe9362689, 0xedf73b3e, 0xf3b06b3b, 0xf771768c, 0xfa325055, 0xfef34de2,
   0xc6bcf05f, 0xc27dede8, 0xcf3ecb31, 0xcbffd686, 0xd5b88683, 0xd1799b34,
   0xdc3abded, 0xd8fba05a, 0x690ce0ee, 0x6dcdfd59, 0x608edb80, 0x644fc637,
   0x7a089632, 0x7ec98b85, 0x738aad5c, 0x774bb0eb, 0x4f040d56, 0x4bc510e1,
   0x46863638, 0x42472b8f, 0x5c007b8a, 0x58c1663d, 0x558240e4, 0x51435d53,
   0x251d3b9e, 0x21dc2629, 0x2c9f00f0, 0x285e1d47, 0x36194d42, 0x32d850f5,
   0x3f9b762c, 0x3b5a6b9b, 0x0315d626, 0x07d4cb91, 0x0a97ed48, 0x0e56f0ff,
   0x1011a0fa, 0x14d0bd4d, 0x19939b94, 0x1d528623, 0xf12f560e, 0xf5ee4bb9,
   0xf8ad6d60, 0xfc6c70d7, 0xe22b20d2, 0xe6ea3d65, 0xeba91bbc, 0xef68060b,
   0xd727bbb6, 0xd3e6a601, 0xdea580d8, 0xda649d6f, 0xc423cd6a, 0xc0e2d0dd,
   0xcda1f604, 0xc960ebb3, 0xbd3e8d7e, 0xb9ff90c9, 0xb4bcb610, 0xb07daba7,
   0xae3afba2, 0xaafbe615, 0xa7b8c0cc, 0xa379dd7b, 0x9b3660c6, 0x9ff77d71,
   0x92b45ba8, 0x9675461f, 0x8832161a, 0x8cf30bad, 0x81b02d74, 0x857130c3,
   0x5d8a9099, 0x594b8d2e, 0x5408abf7, 0x50c9b640, 0x4e8ee645, 0x4a4ffbf2,
   0x470cdd2b, 0x43cdc09c, 0x7b827d21, 0x7f436096, 0x7200464f, 0x76c15bf8,
   0x68860bfd, 0x6c47164a, 0x61043093, 0x65c52d24, 0x119b4be9, 0x155a565e,
   0x18197087, 0x1cd86d30, 0x029f3d35, 0x065e2082, 0x0b1d065b, 0x0fdc1bec,
   0x3793a651, 0x3352bbe6, 0x3e119d3f, 0x3ad08088, 0x2497d08d, 0x2056cd3a,
   0x2d15ebe3, 0x29d4f654, 0xc5a92679, 0xc1683bce, 0xcc2b1d17, 0xc8ea00a0,
   0xd6ad50a5, 0xd26c4d12, 0xdf2f6bcb, 0xdbee767c, 0xe3a1cbc1, 0xe760d676,
   0xea23f0af, 0xeee2ed18, 0xf0a5bd1d, 0xf464a0aa, 0xf9278673, 0xfde69bc4,
   0x89b8fd09, 0x8d79e0be, 0x803ac667, 0x84fbdbd0, 0x9abc8bd5, 0x9e7d9662,
   0x933eb0bb, 0x97ffad0c, 0xafb010b1, 0xab710d06, 0xa6322bdf, 0xa2f33668,
   0xbcb4666d, 0xb8757bda, 0xb5365d03, 0xb1f740b4]"

definition DO1 :: "u32 \<Rightarrow> u8 \<Rightarrow> u32" where
  "DO1 crc b = crc_table ! unat ((drop_bit 24 crc XOR ucast b) AND 0xFF) XOR push_bit 8 crc"

text \<open>
  \<open>crc32b\<close>: the main loop consumes eight bytes per round (\<open>DO8\<close> is \<open>DO1\<close> eight times), the
  second loop the rest one by one.  A null \<open>buf\<close> is \<^term>\<open>None\<close>.
\<close>

fun crc32b_tail :: "u32 \<Rightarrow> bytes \<Rightarrow> u32" where
  "crc32b_tail crc (b # buf) = crc32b_tail (DO1 crc b) buf"
| "crc32b_tail crc [] = crc"

fun crc32b_loop :: "u32 \<Rightarrow> bytes \<Rightarrow> u32" where
  "crc32b_loop crc (a # b # c # d # e # f # g # h # buf) =
     crc32b_loop (DO1 (DO1 (DO1 (DO1 (DO1 (DO1 (DO1 (DO1 crc a) b) c) d) e) f) g) h) buf"
| "crc32b_loop crc buf = crc32b_tail crc buf"

definition crc32b :: "u32 \<Rightarrow> bytes option \<Rightarrow> u32" where
  "crc32b crc buf = (case buf of None \<Rightarrow> 0 | Some bs \<Rightarrow> crc32b_loop crc bs)"

subsection \<open>Exclusive or on words\<close>

lemma word_xor_eq_0: "(x::'a::len word) XOR y = 0 \<longleftrightarrow> x = y"
  by (auto simp: bit_eq_iff bit_simps)

lemma word_xor_cancel: "(x::'a::len word) XOR (x XOR y) = y"
  by (simp add: xor.assoc [symmetric])

lemma word_xor_right_cancel: "(x::'a::len word) XOR z = y XOR z \<longleftrightarrow> x = y"
  by (auto simp: bit_eq_iff bit_simps)

subsection \<open>What makes a byte update a CRC\<close>

text \<open>
  A register that is shifted bit by bit: \<open>step0\<close> is the shift with a zero input bit, \<open>inj_bit k\<close>
  is the register value of an input bit that enters \<open>k\<close> steps from now, \<open>bits\<close> is the order in
  which the bits of a byte enter.  \<open>update\<close> is the provider's byte update.
\<close>

definition crc_shift :: "('a::len word \<Rightarrow> 'a word) \<Rightarrow> 'a word \<Rightarrow> 'a word \<Rightarrow> bool \<Rightarrow> 'a word" where
  "crc_shift step0 entry c d = step0 (c XOR (if d then entry else 0))"

primrec crc_pack :: "(nat \<Rightarrow> 'a::len word) \<Rightarrow> nat \<Rightarrow> bool list \<Rightarrow> 'a word" where
  "crc_pack inj_bit k [] = 0"
| "crc_pack inj_bit k (d # ds) = (if d then inj_bit k else 0) XOR crc_pack inj_bit (Suc k) ds"

locale crc_register =
  fixes step0 :: "'a::len word \<Rightarrow> 'a word"
    and inj_bit :: "nat \<Rightarrow> 'a word"
    and bits :: "u8 \<Rightarrow> bool list"
    and place :: "u8 \<Rightarrow> 'a word"
  assumes step0_xor: "step0 (x XOR y) = step0 x XOR step0 y"
    and step0_inj: "step0 x = step0 y \<Longrightarrow> x = y"
    and step0_inj_bit: "k < 7 \<Longrightarrow> step0 (inj_bit (Suc k)) = inj_bit k"
    and length_bits: "length (bits b) = 8"
    and pack_bits: "crc_pack inj_bit 0 (bits b) = place b"
    and place_inj: "place b = place b' \<Longrightarrow> b = b'"
begin

lemma step0_0: "step0 0 = 0"
  using step0_xor [of 0 0] by simp

lemma step0_pack:
  "Suc k + length ds \<le> 8 \<Longrightarrow> step0 (crc_pack inj_bit (Suc k) ds) = crc_pack inj_bit k ds"
  by (induction ds arbitrary: k) (auto simp: step0_0 step0_xor step0_inj_bit)

lemma foldl_shift:
  "length ds \<le> 8 \<Longrightarrow>
     foldl (crc_shift step0 (inj_bit 0)) c ds = (step0 ^^ length ds) (c XOR crc_pack inj_bit 0 ds)"
proof (induction ds arbitrary: c)
  case Nil
  then show ?case by simp
next
  case (Cons d ds)
  let ?t = "if d then inj_bit 0 else 0"
  from Cons have "foldl (crc_shift step0 (inj_bit 0)) c (d # ds) =
      (step0 ^^ length ds) (step0 (c XOR ?t) XOR crc_pack inj_bit 0 ds)"
    by (simp add: crc_shift_def [of step0 _ c d])
  also have "step0 (c XOR ?t) XOR crc_pack inj_bit 0 ds =
      step0 ((c XOR ?t) XOR crc_pack inj_bit (Suc 0) ds)"
    using Cons.prems by (simp only: step0_xor step0_pack length_Cons add_Suc add_0)
  finally show ?case
    by (simp add: funpow_swap1 xor.assoc)
qed

lemma shift_byte: "foldl (crc_shift step0 (inj_bit 0)) c (bits b) = (step0 ^^ 8) (c XOR place b)"
  by (simp add: foldl_shift length_bits pack_bits)

lemma funpow_step0_inj: "(step0 ^^ n) x = (step0 ^^ n) y \<Longrightarrow> x = y"
  by (induction n) (auto dest: step0_inj)

lemma funpow_step0_xor: "(step0 ^^ n) (x XOR y) = (step0 ^^ n) x XOR (step0 ^^ n) y"
  by (induction n) (auto simp: step0_xor)

end

text \<open>A byte update that implements the register: what it promises to the users of the CRC.\<close>

locale crc_update = crc_register step0 inj_bit bits place
  for step0 :: "'a::len word \<Rightarrow> 'a word" and inj_bit bits place +
  fixes update :: "'a word \<Rightarrow> u8 \<Rightarrow> 'a word"
  assumes update_shift: "update c b = foldl (crc_shift step0 (inj_bit 0)) c (bits b)"
begin

lemma update_eq: "update c b = (step0 ^^ 8) (c XOR place b)"
  by (simp add: update_shift shift_byte)

lemma foldl_update_bits:
  "foldl update c bs = foldl (crc_shift step0 (inj_bit 0)) c (concat (map bits bs))"
  by (induction bs arbitrary: c) (simp_all add: update_shift)

lemma update_inj_crc: "update c b = update c' b \<Longrightarrow> c = c'"
  by (auto simp: update_eq word_xor_right_cancel dest!: funpow_step0_inj)

lemma update_inj_byte:
  assumes "update c b = update c b'"
  shows "b = b'"
proof -
  from assms have "c XOR place b = c XOR place b'"
    unfolding update_eq by (rule funpow_step0_inj)
  then have "place b = place b'"
    using word_xor_right_cancel [of "place b" c "place b'"] by (simp add: xor.commute)
  then show ?thesis by (rule place_inj)
qed

lemma foldl_update_inj: "foldl update c bs = foldl update c' bs \<Longrightarrow> c = c'"
  by (induction bs arbitrary: c c') (auto dest: update_inj_crc)

text \<open>A message with one corrupted byte never keeps its CRC.\<close>

lemma detects_byte_error:
  assumes "b \<noteq> b'"
  shows "foldl update c (xs @ b # ys) \<noteq> foldl update c (xs @ b' # ys)"
proof
  assume "foldl update c (xs @ b # ys) = foldl update c (xs @ b' # ys)"
  then have "update (foldl update c xs) b = update (foldl update c xs) b'"
    by (auto dest: foldl_update_inj)
  with assms show False
    by (auto dest: update_inj_byte)
qed

end

subsection \<open>The bit-serial update is the CRC of the polynomial 0x1021\<close>

definition msb_bits :: "u8 \<Rightarrow> bool list" where
  "msb_bits b = map (bit b) [7, 6, 5, 4, 3, 2, 1, 0]"

definition lsb_bits :: "u8 \<Rightarrow> bool list" where
  "lsb_bits b = map (bit b) [0, 1, 2, 3, 4, 5, 6, 7]"

definition msb_step0 :: "'a::len word \<Rightarrow> 'a word \<Rightarrow> 'a word" where
  "msb_step0 poly c =
     (if bit c (LENGTH('a) - 1) then push_bit 1 c XOR poly else push_bit 1 c)"

definition lsb_step0 :: "'a::len word \<Rightarrow> 'a word \<Rightarrow> 'a word" where
  "lsb_step0 poly c = (if bit c 0 then drop_bit 1 c XOR poly else drop_bit 1 c)"

lemma msb_step0_xor: "msb_step0 poly (x XOR y) = msb_step0 poly x XOR msb_step0 poly (y :: 'a::len word)"
  by (rule bit_eqI) (auto simp: msb_step0_def bit_simps)

lemma msb_step0_0 [simp]: "msb_step0 poly 0 = 0"
  by (simp add: msb_step0_def)

lemma lsb_step0_0 [simp]: "lsb_step0 poly 0 = 0"
  by (simp add: lsb_step0_def)

lemma lsb_step0_xor: "lsb_step0 poly (x XOR y) = lsb_step0 poly x XOR lsb_step0 poly (y :: 'a::len word)"
  by (rule bit_eqI) (auto simp: lsb_step0_def bit_simps)

lemma linear_inj:
  fixes f :: "'a::len word \<Rightarrow> 'a word"
  assumes "\<And>x y. f (x XOR y) = f x XOR f y" and "\<And>x. f x = 0 \<Longrightarrow> x = 0" and "f x = f y"
  shows "x = y"
proof -
  from assms(1,3) have "f (x XOR y) = 0" by (simp add: word_xor_eq_0)
  then have "x XOR y = 0" by (rule assms(2))
  then show ?thesis by (simp add: word_xor_eq_0)
qed

lemma msb_step0_eq_0:
  fixes c :: "'a::len word"
  assumes "bit poly 0" and "msb_step0 poly c = 0"
  shows "c = 0"
proof -
  have nt: "\<not> bit c (LENGTH('a) - 1)"
  proof
    assume "bit c (LENGTH('a) - 1)"
    with assms(2) have "push_bit 1 c = poly" by (simp add: msb_step0_def word_xor_eq_0)
    with assms(1) have "bit (push_bit 1 c) 0" by simp
    then show False by (simp only: bit_push_bit_iff) simp
  qed
  with assms(2) have "push_bit 1 c = 0" by (simp add: msb_step0_def)
  then have *: "\<not> bit (push_bit 1 c) (Suc n)" for n by (simp only: bit_0_eq) simp
  show ?thesis
  proof (rule bit_eqI)
    fix n assume n: "possible_bit TYPE('a word) n"
    show "bit c n \<longleftrightarrow> bit (0 :: 'a word) n"
    proof (cases "Suc n < LENGTH('a)")
      case True
      then show ?thesis using * [of n] by (simp only: bit_push_bit_iff) simp
    next
      case False
      with n have "n = LENGTH('a) - 1" by simp
      with nt show ?thesis by simp
    qed
  qed
qed

lemma lsb_step0_eq_0:
  fixes c :: "'a::len word"
  assumes "bit poly (LENGTH('a) - 1)" and "lsb_step0 poly c = 0"
  shows "c = 0"
proof -
  have nt: "\<not> bit c 0"
  proof
    assume "bit c 0"
    with assms(2) have "drop_bit 1 c = poly" by (simp add: lsb_step0_def word_xor_eq_0)
    with assms(1) have "bit (drop_bit 1 c) (LENGTH('a) - 1)" by simp
    then show False by (auto simp: bit_simps dest: bit_imp_le_length)
  qed
  with assms(2) have "drop_bit 1 c = 0" by (simp add: lsb_step0_def)
  then have "\<not> bit (drop_bit 1 c) n" for n by simp
  then have "\<not> bit c (Suc n)" for n by (simp add: bit_simps)
  with nt have "\<not> bit c n" for n by (cases n) auto
  then show ?thesis by (auto intro: bit_eqI)
qed

lemma msb_step0_inj: "bit poly 0 \<Longrightarrow> msb_step0 poly x = msb_step0 poly y \<Longrightarrow> x = y"
  by (rule linear_inj [of "msb_step0 poly"]) (auto simp: msb_step0_xor dest: msb_step0_eq_0)

lemma lsb_step0_inj:
  fixes poly :: "'a::len word"
  shows "bit poly (LENGTH('a) - 1) \<Longrightarrow> lsb_step0 poly x = lsb_step0 poly y \<Longrightarrow> x = y"
  by (rule linear_inj [of "lsb_step0 poly"])
    (simp_all add: lsb_step0_xor lsb_step0_eq_0 del: One_nat_def)

text \<open>The byte update of \<open>crc_16_l_calc\<close> unrolled: one shift per mask bit, most significant first.\<close>

abbreviation crc16_l_reg :: "u16 \<Rightarrow> u16" where
  "crc16_l_reg \<equiv> msb_step0 CRC_16_POLYNOMIAL"

lemma and_top_bit: "(c :: u16) AND 0x8000 = 0 \<longleftrightarrow> \<not> bit c 15"
  using and_exp_eq_0_iff_not_bit [of c 15] by simp

lemma crc_16_l_step_shift:
  assumes "k < 8"
  shows "crc_16_l_step c b (2 ^ k) = crc_shift crc16_l_reg 0x8000 c (bit b k)"
proof -
  have mask: "(ucast b :: u32) AND 2 ^ k = 0 \<longleftrightarrow> \<not> bit b k"
    using assms by (simp add: and_exp_eq_0_iff_not_bit bit_simps)
  have "crc16_l_reg 0x8000 = CRC_16_POLYNOMIAL"
    by (simp add: msb_step0_def CRC_16_POLYNOMIAL_def)
  then have "crc_shift crc16_l_reg 0x8000 c d =
      (if d then crc16_l_reg c XOR CRC_16_POLYNOMIAL else crc16_l_reg c)" for d
    by (simp add: crc_shift_def msb_step0_xor)
  then show ?thesis
    by (simp add: crc_16_l_step_def msb_step0_def CRC_16_L_POLYNOMIAL_def mask and_top_bit
        del: push_bit_of_1 push_bit_Suc)
qed

lemma crc_16_l_byte_shift:
  "crc_16_l_byte c b CRC_16_L_SEED = foldl (crc_shift crc16_l_reg 0x8000) c (msb_bits b)"
proof -
  have s: "crc_16_l_step c b i = crc_shift crc16_l_reg 0x8000 c (bit b k)"
    if "i = 2 ^ k" "k < 8" for c i k
    using crc_16_l_step_shift [OF that(2)] that(1) by simp
  have steps:
    "crc_16_l_step c b 0x80 = crc_shift crc16_l_reg 0x8000 c (bit b 7)"
    "crc_16_l_step c b 0x40 = crc_shift crc16_l_reg 0x8000 c (bit b 6)"
    "crc_16_l_step c b 0x20 = crc_shift crc16_l_reg 0x8000 c (bit b 5)"
    "crc_16_l_step c b 0x10 = crc_shift crc16_l_reg 0x8000 c (bit b 4)"
    "crc_16_l_step c b 0x08 = crc_shift crc16_l_reg 0x8000 c (bit b 3)"
    "crc_16_l_step c b 0x04 = crc_shift crc16_l_reg 0x8000 c (bit b 2)"
    "crc_16_l_step c b 0x02 = crc_shift crc16_l_reg 0x8000 c (bit b 1)"
    "crc_16_l_step c b 0x01 = crc_shift crc16_l_reg 0x8000 c (bit b 0)" for c
    by (rule s; simp)+
  show ?thesis
    by (simp add: crc_16_l_byte.simps CRC_16_L_SEED_def steps msb_bits_def)
qed

definition step_8 :: "('a \<Rightarrow> 'a) \<Rightarrow> 'a \<Rightarrow> 'a" where
  "step_8 f x = f (f (f (f (f (f (f (f x)))))))"

lemma funpow_8: "(f ^^ 8) x = step_8 f x"
  by (simp add: step_8_def numeral_eq_Suc)

text \<open>
  A linear map is determined by its values on the single bits.  \<open>lin_tab\<close> lists its values on
  \<open>0, 1, 2, \<dots>\<close> given those on \<open>2 ^ (n - 1), \<dots>, 2, 1\<close>.
\<close>

primrec lin_tab :: "'a::len word list \<Rightarrow> 'a word list" where
  "lin_tab [] = [0]"
| "lin_tab (v # vs) = lin_tab vs @ map (\<lambda>x. v XOR x) (lin_tab vs)"

lemma length_lin_tab: "length (lin_tab vs) = 2 ^ length vs"
  by (induction vs) auto

lemma of_nat_add_exp_xor:
  assumes "i < 2 ^ n"
  shows "(of_nat (2 ^ n + i) :: 'a::len word) = 2 ^ n XOR of_nat i"
proof -
  have "bit i k \<Longrightarrow> k \<noteq> n" for k
    using assms take_bit_nat_eq_self [OF assms] bit_take_bit_iff [of n i k] by auto
  then have "(2 :: nat) ^ n AND i = 0"
    by (auto simp: bit_eq_iff bit_simps)
  then have "(2 :: nat) ^ n + i = 2 ^ n XOR i"
    by (rule disjunctive_add_eq_xor)
  moreover have "(of_nat (2 ^ n XOR i) :: 'a word) = 2 ^ n XOR of_nat i"
    by (rule bit_word_eqI) (auto simp: bit_simps bit_of_nat_iff)
  ultimately show ?thesis by simp
qed

lemma nth_lin_tab:
  fixes f :: "'a::len word \<Rightarrow> 'b::len word"
  assumes lin: "\<And>x y. f (x XOR y) = f x XOR f y"
  shows "i < 2 ^ n \<Longrightarrow> lin_tab (map (\<lambda>k. f (2 ^ k)) (rev [0..<n])) ! i = f (of_nat i)"
proof (induction n arbitrary: i)
  case 0
  have "f 0 = 0" using lin [of 0 0] by simp
  with 0 show ?case by simp
next
  case (Suc n)
  let ?t = "lin_tab (map (\<lambda>k. f (2 ^ k)) (rev [0..<n]))"
  have len: "length ?t = 2 ^ n" by (simp add: length_lin_tab)
  show ?case
  proof (cases "i < 2 ^ n")
    case True
    with Suc.IH show ?thesis by (simp add: nth_append len)
  next
    case False
    with Suc.prems obtain j where j: "i = 2 ^ n + j" "j < 2 ^ n"
      by (metis add_diff_inverse_nat mult_2 nat_add_left_cancel_less power_Suc)
    with Suc.IH have "?t ! j = f (of_nat j)" by simp
    moreover have "f (of_nat i) = f (2 ^ n) XOR f (of_nat j)"
      by (simp only: j(1) of_nat_add_exp_xor [OF j(2)] lin)
    ultimately show ?thesis
      using j by (simp add: nth_append len)
  qed
qed

lemma crc16_table_lin: "crc16_table = lin_tab
    (map (\<lambda>k. step_8 (lsb_step0 0xA001) (2 ^ k)) (rev [0..<8]))"
  by (simp add: step_8_def lsb_step0_def crc16_table_def upt_rec)

lemma crc_table_lin: "crc_table = lin_tab
    (map (\<lambda>k. step_8 (msb_step0 0x04C11DB7) (push_bit 24 (2 ^ k))) (rev [0..<8]))"
  by (simp add: step_8_def msb_step0_def crc_table_def upt_rec)

lemma step_8_linear:
  "(\<And>x y. f (x XOR y) = f x XOR f y) \<Longrightarrow> step_8 f (x XOR y) = step_8 f x XOR step_8 f y"
  by (simp add: step_8_def)

lemma crc16_table_nth: "i < 256 \<Longrightarrow> crc16_table ! i = step_8 (lsb_step0 0xA001) (of_nat i)"
  using nth_lin_tab [of "step_8 (lsb_step0 0xA001)" i 8]
  by (simp add: crc16_table_lin step_8_linear lsb_step0_xor)

lemma crc_table_nth: "i < 256 \<Longrightarrow> crc_table ! i = step_8 (msb_step0 0x04C11DB7) (push_bit 24 (of_nat i))"
  using nth_lin_tab [of "\<lambda>x. step_8 (msb_step0 0x04C11DB7) (push_bit 24 x)" i 8]
  by (simp add: crc_table_lin step_8_linear msb_step0_xor push_bit_xor)

text \<open>Shifting out eight zero bits only moves the register.\<close>

lemma msb_step0_shift:
  fixes c :: "'a::len word"
  shows "\<not> bit c (LENGTH('a) - 1) \<Longrightarrow> msb_step0 poly c = push_bit 1 c"
  by (simp add: msb_step0_def)

lemma funpow_msb_shift:
  fixes c :: "'a::len word"
  assumes "\<And>k. k < n \<Longrightarrow> \<not> bit c (LENGTH('a) - 1 - k)" and "n < LENGTH('a)"
  shows "(msb_step0 poly ^^ n) c = push_bit n c"
  using assms
proof (induction n)
  case 0
  then show ?case by simp
next
  case (Suc n)
  then have "\<not> bit c (LENGTH('a) - 1 - n)" by auto
  then have "\<not> bit (push_bit n c) (LENGTH('a) - 1)"
    by (auto simp: bit_push_bit_iff)
  then have "msb_step0 poly (push_bit n c) = push_bit 1 (push_bit n c)"
    by (rule msb_step0_shift)
  with Suc show ?case by (simp add: push_bit_push_bit del: push_bit_of_1)
qed

lemma funpow_lsb_shift:
  assumes "\<And>k. k < n \<Longrightarrow> \<not> bit c k"
  shows "(lsb_step0 poly ^^ n) c = drop_bit n c"
  using assms
proof (induction n)
  case 0
  then show ?case by simp
next
  case (Suc n)
  then have "\<not> bit (drop_bit n c) 0" by (simp add: bit_drop_bit_eq)
  then have "lsb_step0 poly (drop_bit n c) = drop_bit 1 (drop_bit n c)"
    by (simp add: lsb_step0_def)
  with Suc show ?case by (simp add: drop_bit_drop_bit)
qed

subsection \<open>Registers that shift left and registers that shift right\<close>

abbreviation msb_inj :: "nat \<Rightarrow> 'a::len word" where
  "msb_inj k \<equiv> 2 ^ (LENGTH('a) - Suc k)"

abbreviation msb_place :: "u8 \<Rightarrow> 'a::len word" where
  "msb_place b \<equiv> push_bit (LENGTH('a) - 8) (ucast b)"

lemma length_msb_bits [simp]: "length (msb_bits b) = 8" "length (lsb_bits b) = 8"
  by (simp_all add: msb_bits_def lsb_bits_def)

lemma nth_msb_bits: "j < 8 \<Longrightarrow> msb_bits b ! j = bit b (7 - j)"
  by (auto simp: msb_bits_def numeral_eq_Suc less_Suc_eq)

lemma nth_lsb_bits: "j < 8 \<Longrightarrow> lsb_bits b ! j = bit b j"
  by (auto simp: lsb_bits_def numeral_eq_Suc less_Suc_eq)

lemma bit_msb_pack:
  "k + length ds \<le> LENGTH('a) \<Longrightarrow>
     bit (crc_pack msb_inj k ds :: 'a::len word) n \<longleftrightarrow>
       n < LENGTH('a) - k \<and> LENGTH('a) - Suc (k + n) < length ds \<and> ds ! (LENGTH('a) - Suc (k + n))"
proof (induction ds arbitrary: k)
  case Nil
  then show ?case by simp
next
  case (Cons d ds)
  show ?case
  proof (cases "n = LENGTH('a) - Suc k")
    case True
    with Cons show ?thesis by (auto simp: bit_simps)
  next
    case False
    define j where "j = LENGTH('a) - Suc (Suc (k + n))"
    from False Cons.prems have "n < LENGTH('a) - k \<Longrightarrow> LENGTH('a) - Suc (k + n) = Suc j"
      by (auto simp: j_def)
    with False Cons show ?thesis
      by (cases "n < LENGTH('a) - k") (auto simp: bit_simps j_def [symmetric])
  qed
qed

lemma bit_lsb_pack:
  "k + length ds \<le> LENGTH('a) \<Longrightarrow>
     bit (crc_pack ((^) 2) k ds :: 'a::len word) n \<longleftrightarrow> k \<le> n \<and> n - k < length ds \<and> ds ! (n - k)"
proof (induction ds arbitrary: k)
  case Nil
  then show ?case by simp
next
  case (Cons d ds)
  show ?case
  proof (cases "n = k")
    case True
    with Cons show ?thesis by (auto simp: bit_simps)
  next
    case False
    define j where "j = n - Suc k"
    from False have "k \<le> n \<Longrightarrow> n - k = Suc j" by (auto simp: j_def)
    with False Cons show ?thesis
      by (cases "k \<le> n") (auto simp: bit_simps j_def [symmetric])
  qed
qed

lemma msb_pack_place:
  assumes "8 \<le> LENGTH('a)"
  shows "crc_pack msb_inj 0 (msb_bits b) = (msb_place b :: 'a::len word)"
proof (rule bit_word_eqI)
  fix n assume n: "n < LENGTH('a)"
  show "bit (crc_pack msb_inj 0 (msb_bits b) :: 'a word) n = bit (msb_place b :: 'a word) n"
  proof (cases "LENGTH('a) - Suc n < 8")
    case True
    with n assms have "7 - (LENGTH('a) - Suc n) = n - (LENGTH('a) - 8)" by auto
    with True n assms show ?thesis by (simp add: bit_msb_pack nth_msb_bits bit_simps) auto
  next
    case False
    with n assms show ?thesis by (simp add: bit_msb_pack bit_simps) auto
  qed
qed

lemma lsb_pack_place:
  assumes "8 \<le> LENGTH('a)"
  shows "crc_pack ((^) 2) 0 (lsb_bits b) = (ucast b :: 'a::len word)"
proof (rule bit_word_eqI)
  fix n assume n: "n < LENGTH('a)"
  show "bit (crc_pack ((^) 2) 0 (lsb_bits b) :: 'a word) n = bit (ucast b :: 'a word) n"
  proof (cases "n < 8")
    case True
    with n assms show ?thesis by (simp add: bit_lsb_pack nth_lsb_bits bit_simps)
  next
    case False
    with n assms show ?thesis
      by (auto simp: bit_lsb_pack bit_simps dest: bit_imp_le_length)
  qed
qed

lemma msb_place_inj:
  assumes "msb_place b = (msb_place b' :: 'a::len word)" and "8 \<le> LENGTH('a)"
  shows "b = b'"
proof (rule bit_word_eqI)
  fix k :: nat assume "k < LENGTH(8)"
  moreover have "bit (msb_place b :: 'a word) (LENGTH('a) - 8 + k) =
      bit (msb_place b' :: 'a word) (LENGTH('a) - 8 + k)"
    by (simp only: assms(1))
  moreover have "LENGTH('a) - 8 + k < LENGTH('a)" "LENGTH('a) - 8 + k - (LENGTH('a) - 8) = k"
    using assms(2) \<open>k < LENGTH(8)\<close> by auto
  ultimately show "bit b k = bit b' k"
    by (simp only: bit_push_bit_iff bit_ucast_iff) (simp add: bit_simps)
qed

lemma msb_register:
  fixes poly :: "'a::len word"
  assumes "bit poly 0" and "8 \<le> LENGTH('a)"
  shows "crc_register (msb_step0 poly) msb_inj msb_bits msb_place"
proof
  show "msb_step0 poly (msb_inj (Suc k)) = msb_inj k" if "k < 7" for k
  proof -
    from that assms(2) have "LENGTH('a) - Suc k = Suc (LENGTH('a) - Suc (Suc k))"
      "LENGTH('a) - 1 \<noteq> LENGTH('a) - Suc (Suc k)" by auto
    then show ?thesis by (simp add: msb_step0_def bit_simps)
  qed
qed (use assms in \<open>auto simp: msb_step0_xor msb_pack_place intro: msb_place_inj msb_step0_inj\<close>)

lemma lsb_register:
  fixes poly :: "'a::len word"
  assumes "bit poly (LENGTH('a) - 1)" and "8 \<le> LENGTH('a)"
  shows "crc_register (lsb_step0 poly) ((^) 2) lsb_bits ucast"
proof
  show "lsb_step0 poly (2 ^ Suc k) = 2 ^ k" if "k < 7" for k
  proof (rule bit_word_eqI)
    fix n assume "n < LENGTH('a)"
    then show "bit (lsb_step0 poly (2 ^ Suc k)) n = bit (2 ^ k :: 'a word) n"
      using that assms(2) by (auto simp: lsb_step0_def bit_simps simp del: power_Suc)
  qed
  show "b = b'" if "(ucast b :: 'a word) = ucast b'" for b b' :: u8
  proof (rule bit_word_eqI)
    fix k :: nat assume "k < LENGTH(8)"
    moreover have "bit (ucast b :: 'a word) k = bit (ucast b' :: 'a word) k" by (simp only: that)
    ultimately show "bit b k = bit b' k" using assms(2) by (simp add: bit_simps)
  qed
qed (use assms in \<open>auto simp: lsb_step0_xor lsb_pack_place intro: lsb_step0_inj\<close>)

subsection \<open>The three byte updates of the code are CRCs\<close>

interpretation crc16_l_reg: crc_register crc16_l_reg msb_inj msb_bits msb_place
  by (rule msb_register) (simp_all add: CRC_16_POLYNOMIAL_def)

interpretation crc32_reg: crc_register "msb_step0 (0x04C11DB7 :: u32)" msb_inj msb_bits msb_place
  by (rule msb_register) simp_all

interpretation crc16_reg: crc_register "lsb_step0 (0xA001 :: u16)" "(^) 2" lsb_bits ucast
  by (rule lsb_register) simp_all

interpretation crc16_l: crc_update crc16_l_reg msb_inj msb_bits msb_place
  "\<lambda>crc b. crc_16_l_byte crc b CRC_16_L_SEED"
  by unfold_locales (simp add: crc_16_l_byte_shift)

lemma and_FF: "(x :: 'a::len word) AND 0xFF = take_bit 8 x"
  by (simp add: take_bit_eq_mask mask_eq_exp_minus_1)

lemma unat_low_byte_less: "unat (take_bit 8 (x :: 'a::len word)) < 256"
proof -
  have "unat (take_bit 8 x) = take_bit 8 (unat x)" by (rule unsigned_take_bit_eq)
  then show ?thesis using take_bit_nat_less_exp [of 8 "unat x"] by simp
qed

lemma DO1_eq: "DO1 c b = (msb_step0 0x04C11DB7 ^^ 8) (c XOR msb_place b)"
proof -
  let ?s = "msb_step0 (0x04C11DB7 :: u32)" and ?hi = "take_bit 8 (drop_bit 24 c XOR ucast b)"
  have "DO1 c b = (?s ^^ 8) (push_bit 24 ?hi) XOR push_bit 8 c"
    by (simp add: DO1_def and_FF crc_table_nth unat_low_byte_less funpow_8 del: take_bit_xor)
  also have "push_bit 8 c = (?s ^^ 8) (take_bit 24 c)"
  proof -
    have "push_bit 8 c = push_bit 8 (take_bit 24 c)"
      by (rule bit_word_eqI) (auto simp: bit_simps)
    also have "\<dots> = (?s ^^ 8) (take_bit 24 c)"
      by (rule funpow_msb_shift [symmetric]) (auto simp: bit_simps)
    finally show ?thesis .
  qed
  also have "(?s ^^ 8) (push_bit 24 ?hi) XOR (?s ^^ 8) (take_bit 24 c) =
      (?s ^^ 8) (push_bit 24 ?hi XOR take_bit 24 c)"
    by (rule crc32_reg.funpow_step0_xor [symmetric])
  also have "push_bit 24 ?hi XOR take_bit 24 c = c XOR msb_place b"
    by (rule bit_word_eqI) (auto simp: bit_simps)
  finally show ?thesis .
qed

lemma calculate_crc_step_eq: "calculate_crc_step c b = (lsb_step0 0xA001 ^^ 8) (c XOR ucast b)"
proof -
  let ?s = "lsb_step0 (0xA001 :: u16)" and ?lo = "take_bit 8 (c XOR ucast b)"
    and ?hi = "push_bit 8 (drop_bit 8 c)"
  have "calculate_crc_step c b = drop_bit 8 c XOR (?s ^^ 8) ?lo"
    by (simp add: calculate_crc_step_def and_FF crc16_table_nth unat_low_byte_less funpow_8
        del: take_bit_xor)
  also have "drop_bit 8 c = (?s ^^ 8) ?hi"
  proof -
    have "drop_bit 8 c = drop_bit 8 ?hi"
      by (rule bit_word_eqI) (auto simp: bit_simps dest: bit_imp_le_length)
    also have "\<dots> = (?s ^^ 8) ?hi"
      by (rule funpow_lsb_shift [symmetric]) (auto simp: bit_simps)
    finally show ?thesis .
  qed
  also have "(?s ^^ 8) ?hi XOR (?s ^^ 8) ?lo = (?s ^^ 8) (?hi XOR ?lo)"
    by (rule crc16_reg.funpow_step0_xor [symmetric])
  also have "?hi XOR ?lo = c XOR ucast b"
    by (rule bit_word_eqI) (auto simp: bit_simps dest: bit_imp_le_length)
  finally show ?thesis .
qed

interpretation crc32: crc_update "msb_step0 (0x04C11DB7 :: u32)" msb_inj msb_bits msb_place DO1
  by unfold_locales (simp add: DO1_eq crc32_reg.shift_byte [simplified])

interpretation crc16: crc_update "lsb_step0 (0xA001 :: u16)" "(^) 2" lsb_bits ucast calculate_crc_step
  by unfold_locales (simp add: calculate_crc_step_eq crc16_reg.shift_byte [simplified])

subsection \<open>Properties of the CRCs\<close>

lemma crc32b_tail_foldl: "crc32b_tail crc bs = foldl DO1 crc bs"
  by (induction crc bs rule: crc32b_tail.induct) simp_all

lemma crc32b_loop_foldl: "crc32b_loop crc bs = foldl DO1 crc bs"
  by (induction crc bs rule: crc32b_loop.induct) (simp_all add: crc32b_tail_foldl)

text \<open>
  The unrolled, table-driven \<open>crc32b\<close> computes the bit-serial CRC of the polynomial
  \<open>0x04C11DB7\<close>: every bit of the message, most significant first, enters the top of the register.
\<close>

theorem crc32b_bit_serial:
  "crc32b crc (Some bs) =
     foldl (crc_shift (msb_step0 0x04C11DB7) 0x80000000) crc (concat (map msb_bits bs))"
  using crc32.foldl_update_bits [of crc bs]
  by (simp add: crc32b_def crc32b_loop_foldl)

text \<open>
  The table-driven \<open>calculate_crc\<close> computes the reflected bit-serial CRC of the polynomial
  \<open>0x8005\<close> (\<open>0xA001\<close> reflected), least significant bit first, as the comment on its table says.
\<close>

theorem calculate_crc_bit_serial:
  "calculate_crc crc bs = foldl (crc_shift (lsb_step0 0xA001) 1) crc (concat (map lsb_bits bs))"
  using crc16.foldl_update_bits [of crc bs] by (simp add: calculate_crc_def)

lemma crc_16_l_calc_snoc:
  "crc_16_l_calc (bs @ [b]) = crc_16_l_byte (crc_16_l_calc bs) b CRC_16_L_SEED"
  by (simp add: crc_16_l_calc_def)

lemma crc_16_l_own_byte: "crc_16_l_byte c (hi8 c) CRC_16_L_SEED = push_bit 8 c"
proof -
  have "crc_16_l_byte c (hi8 c) CRC_16_L_SEED = (crc16_l_reg ^^ 8) (c XOR msb_place (hi8 c))"
    by (rule crc16_l.update_eq)
  also have "c XOR msb_place (hi8 c) = take_bit 8 c"
    by (rule bit_word_eqI) (auto simp: bit_simps bit_hi8)
  also have "(crc16_l_reg ^^ 8) (take_bit 8 c) = push_bit 8 (take_bit 8 c)"
    by (rule funpow_msb_shift) (auto simp: bit_simps)
  also have "\<dots> = push_bit 8 c"
    by (rule bit_word_eqI) (auto simp: bit_simps)
  finally show ?thesis .
qed

lemma crc_16_l_own_crc: "crc_16_l_calc (bs @ be16 (crc_16_l_calc bs)) = CRC_16_L_OK"
proof -
  let ?c = "crc_16_l_calc bs"
  have "crc_16_l_calc (bs @ be16 ?c) = crc_16_l_byte (push_bit 8 ?c) (lo8 ?c) CRC_16_L_SEED"
    using crc_16_l_calc_snoc [of "bs @ [hi8 ?c]" "lo8 ?c"]
    by (simp add: be16_def crc_16_l_calc_snoc crc_16_l_own_byte)
  also have "lo8 ?c = hi8 (push_bit 8 ?c)"
    by (rule bit_word_eqI) (auto simp: bit_lo8 bit_hi8 bit_simps)
  also have "crc_16_l_byte (push_bit 8 ?c) (hi8 (push_bit 8 ?c)) CRC_16_L_SEED = push_bit 8 (push_bit 8 ?c)"
    by (rule crc_16_l_own_byte)
  also have "\<dots> = CRC_16_L_OK"
    by (rule bit_word_eqI) (auto simp: bit_simps CRC_16_L_OK_def)
  finally show ?thesis .
qed

text \<open>
  A frame followed by its own CRC, high byte first, has the CRC \<open>CRC_16_L_OK\<close>: the check a
  receiver makes on the whole frame.
\<close>

theorem crc_16_l_residue: "crc_16_l_calc (bs @ be16 (crc_16_l_calc bs)) = CRC_16_L_OK"
  by (rule crc_16_l_own_crc)

text \<open>
  C29: The frame CRC and the CRC-32 detect every corruption of a single byte, wherever it is in the
  message and whatever bits of the byte it changes.
\<close>

theorem crcs_detect_byte_error:
  assumes "b \<noteq> b'"
  shows "crc_16_l_calc (xs @ b # ys) \<noteq> crc_16_l_calc (xs @ b' # ys) \<and>
    crc32b crc (Some (xs @ b # ys)) \<noteq> crc32b crc (Some (xs @ b' # ys))"
  using crc16_l.detects_byte_error [OF assms] crc32.detects_byte_error [OF assms]
  by (simp_all add: crc_16_l_calc_def crc32b_def crc32b_loop_foldl)

theorem crcs_detect_byte_error_witness:
  "crc_16_l_calc ([1, 2] @ 3 # [4]) \<noteq> crc_16_l_calc ([1, 2] @ 7 # [4]) \<and>
   crc32b 0xFFFFFFFF (Some ([1, 2] @ 3 # [4])) \<noteq> crc32b 0xFFFFFFFF (Some ([1, 2] @ 7 # [4]))"
  by (rule crcs_detect_byte_error) simp

subsection \<open>Properties of the one's-complement sums\<close>

text \<open>The sum of the little-endian 16-bit words of a message, with a last odd byte as it is.\<close>

fun word_sum :: "bytes \<Rightarrow> nat" where
  "word_sum (a # b # bs) = unat (mk16 b a) + word_sum bs"
| "word_sum [a] = unat a"
| "word_sum [] = 0"

lemma word_sum_bound: "word_sum bs \<le> 65535 * ((length bs + 1) div 2)"
proof (induction bs rule: word_sum.induct)
  case (1 a b bs)
  from add_mono [OF unat_u16_le [of "mk16 b a"] 1] show ?case by simp
next
  case (2 a)
  show ?case using unat_u8_less [of a] by (simp del: unat_u8_less)
qed simp

lemma frm_chk_sum_words: "frm_chk_sum acc bs = acc + of_nat (word_sum bs)"
  by (induction acc bs rule: frm_chk_sum.induct) (simp_all add: algebra_simps)

lemma boot_checksum_words_sum:
  "boot_checksum_words (length bs div 2) acc bs =
     acc + of_nat (word_sum (take (2 * (length bs div 2)) bs))"
proof (induction bs arbitrary: acc rule: word_sum.induct)
  case (1 a b bs)
  then show ?case by (simp add: algebra_simps)
qed simp_all

lemma word_sum_odd:
  "odd (length bs) \<Longrightarrow> word_sum bs = word_sum (take (length bs - 1) bs) + unat (last bs)"
proof (induction bs rule: word_sum.induct)
  case (1 a b bs)
  then show ?case by (cases "length bs") auto
qed simp_all

lemma boot_checksum_sum: "boot_checksum bs = fold_sum (of_nat (word_sum bs))"
proof (cases "odd (length bs)")
  case True
  then have "bs \<noteq> []" by auto
  with True show ?thesis
    by (simp add: boot_checksum_def Let_def boot_checksum_words_sum word_sum_odd last_conv_nth
        odd_iff_mod_2_eq_one)
next
  case False
  then show ?thesis
    by (auto simp: boot_checksum_def Let_def boot_checksum_words_sum even_two_times_div_two
        even_iff_mod_2_eq_zero)
qed

text \<open>
  The two checksums of \<open>crc16.c\<close> agree: the loop of \<open>frm_chk\<close> over four bytes at a time and the
  loop of \<open>boot_checksum\<close> over words with its odd-byte case give the same value on every message.
\<close>

theorem frm_chk_eq_boot_checksum: "frm_chk bs = boot_checksum bs"
  by (simp add: frm_chk_def boot_checksum_sum frm_chk_sum_words)

text \<open>The folded value: \<open>0\<close> only for the sum \<open>0\<close>, otherwise the residue modulo 65535 in \<open>1..65535\<close>.\<close>

definition fold_nat :: "nat \<Rightarrow> nat" where
  "fold_nat s = (let t = s div 65536 + s mod 65536 in (t + t div 65536) mod 65536)"

lemma fold_sum_nat:
  assumes "s < 2 ^ 32"
  shows "unat (fold_sum (of_nat s)) = 65535 - fold_nat s"
proof -
  let ?t = "s div 65536 + s mod 65536"
  have t: "?t < 2 ^ 17" using assms by auto
  define w where "w = drop_bit 16 (of_nat s :: u32) + (of_nat s AND 0xFFFF)"
  have mask: "(x :: u32) AND 0xFFFF = take_bit 16 x" for x
    by (simp add: take_bit_eq_mask mask_eq_exp_minus_1)
  have us: "unat (of_nat s :: u32) = s"
    using assms by (simp add: unat_of_nat)
  have "unat (drop_bit 16 (of_nat s :: u32)) = s div 65536"
    by (simp add: unat_drop_bit_eq us drop_bit_eq_div unat_div)
  moreover have "unat ((of_nat s :: u32) AND 0xFFFF) = s mod 65536"
    by (simp add: mask unsigned_take_bit_eq us take_bit_eq_mod unat_mod)
  ultimately have w: "unat w = ?t"
    using t by (simp add: unat_word_ariths w_def)
  have w2: "unat (w + drop_bit 16 w) = ?t + ?t div 65536"
    using t by (simp add: unat_word_ariths unat_drop_bit_eq w drop_bit_eq_div)
  have "fold_sum (of_nat s) = NOT (ucast (w + drop_bit 16 w))"
    by (simp add: fold_sum_def Let_def w_def [symmetric]) (rule bit_word_eqI, auto simp: bit_simps)
  moreover have "unat (ucast (w + drop_bit 16 w) :: u16) = fold_nat s"
    by (simp add: unsigned_ucast_eq w2 fold_nat_def Let_def take_bit_eq_mod)
  moreover have "unat (NOT (x :: u16)) = 65535 - unat x" for x
  proof -
    have "NOT x = 65535 - x" by (simp add: not_eq_complement)
    moreover have "x \<le> 65535" by (simp add: word_le_nat_alt)
    ultimately show ?thesis by (simp add: unat_sub)
  qed
  ultimately show ?thesis by simp
qed

lemma fold_nat_le: "fold_nat s \<le> 65535"
  by (simp add: fold_nat_def Let_def mod_less_divisor less_Suc_eq_le [symmetric])

lemma fold_nat_mod:
  assumes "s < 2 ^ 32"
  shows "fold_nat s mod 65535 = s mod 65535 \<and> (fold_nat s = 0 \<longleftrightarrow> s = 0)"
proof -
  let ?t = "s div 65536 + s mod 65536"
  have st: "s = 65535 * (s div 65536) + ?t" by simp
  then have mt: "?t mod 65535 = s mod 65535" by (metis mod_mult_self4)
  have t: "?t < 131072" using assms by auto
  have z: "?t = 0 \<longleftrightarrow> s = 0" using st by auto
  show ?thesis
  proof (cases "?t < 65536")
    case True
    with mt z show ?thesis by (simp add: fold_nat_def Let_def)
  next
    case False
    define r where "r = ?t - 65535"
    from assms have "s div 65536 \<le> 65535" by auto
    then have "?t \<le> 131070" using mod_less_divisor [of 65536 s] by linarith
    with False have r: "?t = 65535 + r" "0 < r" "r < 65536" by (auto simp: r_def)
    then have "?t div 65536 = 1" by simp
    then have "fold_nat s = r"
      using r by (simp add: fold_nat_def Let_def)
    moreover have "r mod 65535 = s mod 65535" using mt r(1) by simp
    ultimately show ?thesis using r z False by auto
  qed
qed

lemma word_sum_append: "even (length bs) \<Longrightarrow> word_sum (bs @ cs) = word_sum bs + word_sum cs"
  by (induction bs rule: word_sum.induct) simp_all

lemma boot_checksum_own_checksum:
  assumes "even (length bs)" and "length bs < 131070"
  shows "boot_checksum (bs @ le16 (boot_checksum bs)) = 0"
proof -
  define s where "s = word_sum bs"
  have "(length bs + 1) div 2 \<le> 65535" using assms(2) by auto
  then have "65535 * ((length bs + 1) div 2) \<le> 65535 * 65535" by (rule mult_le_mono2)
  with word_sum_bound [of bs] have s: "s \<le> 65535 * 65535" by (simp add: s_def)
  let ?c = "boot_checksum bs"
  have c: "unat ?c = 65535 - fold_nat s"
    using fold_sum_nat [of s] s by (simp add: boot_checksum_sum s_def)
  let ?s' = "s + unat ?c"
  have sum': "word_sum (bs @ le16 ?c) = ?s'"
    using assms(1) by (simp add: word_sum_append s_def le16_def)
  have s': "?s' < 2 ^ 32" using s unat_u16_less [of ?c] by (simp del: unat_u16_less)
  have m: "fold_nat s mod 65535 = s mod 65535" "fold_nat s = 0 \<longleftrightarrow> s = 0"
    using fold_nat_mod [of s] s by auto
  have "?s' mod 65535 = (fold_nat s + unat ?c) mod 65535"
    by (metis m(1) mod_add_left_eq)
  also have "fold_nat s + unat ?c = 65535" using c fold_nat_le [of s] by simp
  finally have "?s' mod 65535 = 0" by simp
  moreover have "?s' \<noteq> 0" using c m(2) fold_nat_le [of s] by auto
  ultimately have "fold_nat ?s' = 65535"
    using fold_nat_mod [OF s'] fold_nat_le [of ?s'] by (metis le_neq_implies_less mod_less)
  then have "unat (fold_sum (of_nat ?s')) = 0"
    using fold_sum_nat [OF s'] by (simp only: diff_self_eq_0)
  moreover have "boot_checksum (bs @ le16 ?c) = fold_sum (of_nat ?s')"
    by (simp only: boot_checksum_sum [of "bs @ le16 ?c"] sum')
  ultimately show ?thesis by (simp only: unat_eq_0)
qed

text \<open>
  A header of even length followed by its checksum (low byte first, as the host stores it) has
  the checksum \<open>0\<close>: the receiver's check of a download packet.  The bound on the length is the one
  under which the 32-bit accumulator cannot wrap.
\<close>

theorem boot_checksum_verifies:
  assumes "even (length bs)" and "length bs < 131070"
  shows "boot_checksum (bs @ le16 (boot_checksum bs)) = 0"
  using assms by (rule boot_checksum_own_checksum)

theorem boot_checksum_verifies_witness:
  "boot_checksum ([1, 0, 2, 0, 0xFF, 0xFF] @ le16 (boot_checksum [1, 0, 2, 0, 0xFF, 0xFF])) = 0"
  by (rule boot_checksum_verifies) simp_all

end
