(* ===== verification/Packet.thy ===== *)
theory Packet
  imports Checksum
begin

text \<open>
  The download protocol of \<open>modem_control/packet.c\<close>: HDLC framing, packet set-up for the UART and
  the SPI link, and the request/reply exchanges.  \<open>char\<close> is unsigned, as in the ARM ABI, and the
  host is little endian.  Writes and reads of the file descriptor are driven by a script of their
  results, so every partial write and every split reply is a run of the model; a run that needs a
  result the script does not have is \<^term>\<open>None\<close>, as is a run that leaves a buffer.
\<close>

subsection \<open>cmd_def.h: the command codes\<close>

datatype cmd_type =
    BSL_CMD_CONNECT | BSL_CMD_START_DATA | BSL_CMD_MIDST_DATA | BSL_CMD_END_DATA
  | BSL_CMD_EXEC_DATA | BSL_CMD_NORMAL_RESET | BSL_CMD_READ_FLASH | BSL_CMD_READ_CHIP_TYPE
  | BSL_CMD_LOOKUP_NVITEM | BSL_SET_BAUDRATE | BSL_ERASE_FLASH | BSL_REPARTITION
  | BSL_CMD_SWITCH_MODE | BSL_CMD_TYPE_MAX | BSL_REP_ACK | BSL_REP_VER | BSL_REP_INVALID_CMD
  | BSL_REP_UNKNOW_CMD | BSL_REP_OPERATION_FAILED
  | BSL_REP_NOT_SUPPORT_BAUDRATE | BSL_REP_DOWN_NOT_START | BSL_REP_DOWN_MULTI_START
  | BSL_REP_DOWN_EARLY_END | BSL_REP_DOWN_DEST_ERROR | BSL_REP_DOWN_SIZE_ERROR
  | BSL_REP_VERIFY_ERROR | BSL_REP_NOT_VERIFY | BSL_PHONE_NOT_ENOUGH_MEMORY
  | BSL_PHONE_WAIT_INPUT_TIMEOUT | BSL_PHONE_SUCCEED | BSL_PHONE_VALID_BAUDRATE
  | BSL_PHONE_REPEAT_CONTINUE | BSL_PHONE_REPEAT_BREAK | BSL_REP_READ_FLASH
  | BSL_REP_READ_CHIP_TYPE | BSL_REP_LOOKUP_NVITEM | BSL_INCOMPATIBLE_PARTITION
  | BSL_UNKNOWN_DEVICE | BSL_INVALID_DEVICE_SIZE | BSL_ILLEGAL_SDRAM
  | BSL_WRONG_SDRAM_PARAMETER | BSL_EEROR_CHECKSUM | BSL_CHECKSUM_DIFF
  | BSL_WRITE_ERROR | BSL_PKT_TYPE_MAX

fun cmd_code :: "cmd_type \<Rightarrow> u16" where
  "cmd_code BSL_CMD_CONNECT = 0x00"
| "cmd_code BSL_CMD_START_DATA = 0x01"
| "cmd_code BSL_CMD_MIDST_DATA = 0x02"
| "cmd_code BSL_CMD_END_DATA = 0x03"
| "cmd_code BSL_CMD_EXEC_DATA = 0x04"
| "cmd_code BSL_CMD_NORMAL_RESET = 0x05"
| "cmd_code BSL_CMD_READ_FLASH = 0x06"
| "cmd_code BSL_CMD_READ_CHIP_TYPE = 0x07"
| "cmd_code BSL_CMD_LOOKUP_NVITEM = 0x08"
| "cmd_code BSL_SET_BAUDRATE = 0x09"
| "cmd_code BSL_ERASE_FLASH = 0x0A"
| "cmd_code BSL_REPARTITION = 0x0B"
| "cmd_code BSL_CMD_SWITCH_MODE = 0x0D"
| "cmd_code BSL_CMD_TYPE_MAX = 0x0E"
| "cmd_code BSL_REP_ACK = 0x80"
| "cmd_code BSL_REP_VER = 0x81"
| "cmd_code BSL_REP_INVALID_CMD = 0x82"
| "cmd_code BSL_REP_UNKNOW_CMD = 0x83"
| "cmd_code BSL_REP_OPERATION_FAILED = 0x84"
| "cmd_code BSL_REP_NOT_SUPPORT_BAUDRATE = 0x85"
| "cmd_code BSL_REP_DOWN_NOT_START = 0x86"
| "cmd_code BSL_REP_DOWN_MULTI_START = 0x87"
| "cmd_code BSL_REP_DOWN_EARLY_END = 0x88"
| "cmd_code BSL_REP_DOWN_DEST_ERROR = 0x89"
| "cmd_code BSL_REP_DOWN_SIZE_ERROR = 0x8A"
| "cmd_code BSL_REP_VERIFY_ERROR = 0x8B"
| "cmd_code BSL_REP_NOT_VERIFY = 0x8C"
| "cmd_code BSL_PHONE_NOT_ENOUGH_MEMORY = 0x8D"
| "cmd_code BSL_PHONE_WAIT_INPUT_TIMEOUT = 0x8E"
| "cmd_code BSL_PHONE_SUCCEED = 0x8F"
| "cmd_code BSL_PHONE_VALID_BAUDRATE = 0x90"
| "cmd_code BSL_PHONE_REPEAT_CONTINUE = 0x91"
| "cmd_code BSL_PHONE_REPEAT_BREAK = 0x92"
| "cmd_code BSL_REP_READ_FLASH = 0x93"
| "cmd_code BSL_REP_READ_CHIP_TYPE = 0x94"
| "cmd_code BSL_REP_LOOKUP_NVITEM = 0x95"
| "cmd_code BSL_INCOMPATIBLE_PARTITION = 0x96"
| "cmd_code BSL_UNKNOWN_DEVICE = 0x97"
| "cmd_code BSL_INVALID_DEVICE_SIZE = 0x98"
| "cmd_code BSL_ILLEGAL_SDRAM = 0x99"
| "cmd_code BSL_WRONG_SDRAM_PARAMETER = 0x9A"
| "cmd_code BSL_EEROR_CHECKSUM = 0xA0"
| "cmd_code BSL_CHECKSUM_DIFF = 0xA1"
| "cmd_code BSL_WRITE_ERROR = 0xA2"
| "cmd_code BSL_PKT_TYPE_MAX = 0xA3"

definition BSL_UART_PACKET :: int where "BSL_UART_PACKET = 0"

subsection \<open>Framing\<close>

fun translate_body :: "bytes \<Rightarrow> bytes" where
  "translate_body [] = []"
| "translate_body (c # src) =
     (if c = 0x7E then [0x7D, 0x5E]
      else if c = 0x7D then [0x7D, 0x5D]
      else [c]) @ translate_body src"

definition translate_frame :: "bytes \<Rightarrow> bytes" where
  "translate_frame src = 0x7E # translate_body src @ [0x7E]"

definition translate_packet :: "bytes \<Rightarrow> bytes \<Rightarrow> (bytes \<times> nat) option" where
  "translate_packet dest src =
     do { dest \<leftarrow> store 0 (translate_frame src) dest;
          Some (dest, length (translate_frame src)) }"

text \<open>
  The receiving state machine over the bytes of \<open>src\<close>; \<open>out\<close> is \<open>dest[0 .. translated_size - 1]\<close>.
  At the closing flag the code computes a CRC over \<open>translated_size - 2\<close> bytes; with a single byte
  that length is \<open>-1\<close> as an unsigned number, and the read leaves the buffer.
\<close>

fun untranslate_loop :: "nat \<Rightarrow> bytes \<Rightarrow> bytes \<Rightarrow> bytes option" where
  "untranslate_loop status out [] = Some out"
| "untranslate_loop status out (c # src) =
     (if status = 0 then untranslate_loop (if c = 0x7E then 1 else 0) out src
      else if status = 1 then
        (if c \<noteq> 0x7E then untranslate_loop 2 (out @ [c]) src else untranslate_loop 1 out src)
      else if c = 0x7E then (if length out < 2 then None else Some out)
      else if last out = 0x7D then
        (if c = 0x5E then untranslate_loop 2 (butlast out @ [0x7E]) src
         else if c = 0x5D then untranslate_loop 2 (butlast out @ [0x7D]) src
         else untranslate_loop 2 out src)
      else untranslate_loop 2 (out @ [c]) src)"

definition untranslate_packet :: "bytes \<Rightarrow> bytes \<Rightarrow> (bytes \<times> nat) option" where
  "untranslate_packet dest src =
     do { out \<leftarrow> untranslate_loop 0 [] src;
          dest \<leftarrow> store 0 out dest;
          Some (dest, length out) }"

subsection \<open>Packet set-up\<close>

definition cpu2be16 :: "u16 \<Rightarrow> u16" where
  "cpu2be16 w = push_bit 8 (w AND 0xFF) OR (drop_bit 8 w AND 0xFF)"

definition cpu2be32 :: "u32 \<Rightarrow> u32" where
  "cpu2be32 w = push_bit 24 (w AND 0xFF) OR push_bit 16 (drop_bit 8 w AND 0xFF)
     OR push_bit 8 (drop_bit 16 w AND 0xFF) OR drop_bit 24 w"

text \<open>\<open>head->type\<close> and \<open>head->length\<close>, with \<open>head\<close> at \<open>buffer[4]\<close>.\<close>

definition put_head :: "cmd_type \<Rightarrow> nat \<Rightarrow> bytes \<Rightarrow> bytes option" where
  "put_head msg data_size buffer =
     do { buffer \<leftarrow> store16 4 (cpu2be16 (cmd_code msg)) buffer;
          store16 6 (cpu2be16 (of_nat data_size)) buffer }"

definition setup_uart_crc :: "cmd_type \<Rightarrow> bytes \<Rightarrow> nat \<Rightarrow> (bytes \<times> nat) option" where
  "setup_uart_crc msg buffer data_size =
     (let len = 4 + data_size in
      do { buffer \<leftarrow> put_head msg data_size buffer;
           head \<leftarrow> load 4 len buffer;
           buffer \<leftarrow> store16 (len + 4) (cpu2be16 (crc_16_l_calc head)) buffer;
           Some (buffer, len + 2) })"

text \<open>
  The SPI header: size and type in host order, the checksum of the data, then the checksum of
  these six bytes.
\<close>

definition setup_spi_head ::
    "u16 \<Rightarrow> cmd_type \<Rightarrow> bytes \<Rightarrow> nat \<Rightarrow> nat \<Rightarrow> bytes option" where
  "setup_spi_head sz msg buffer offset data_size =
     do { buffer \<leftarrow> store16 0 sz buffer;
          buffer \<leftarrow> store16 2 (cmd_code msg) buffer;
          body \<leftarrow> load offset data_size buffer;
          buffer \<leftarrow> store16 4 (boot_checksum body) buffer;
          head \<leftarrow> load 0 6 buffer;
          store16 6 (boot_checksum head) buffer }"

fun setup_packet ::
    "cmd_type \<Rightarrow> bytes \<Rightarrow> nat \<Rightarrow> nat \<Rightarrow> int \<Rightarrow> (bytes \<times> nat) option" where
  "setup_packet BSL_CMD_CONNECT buffer offset data_size flag =
     (if flag = BSL_UART_PACKET then
        do { buffer \<leftarrow> put_head BSL_CMD_CONNECT data_size buffer;
             buffer \<leftarrow> store16 (4 + data_size + 4) 0 buffer;
             Some (buffer, 4 + data_size + 2) }
      else
        do { buffer \<leftarrow> store16 0 (of_nat data_size) buffer;
             buffer \<leftarrow> store16 2 (cmd_code BSL_CMD_CONNECT) buffer;
             buffer \<leftarrow> store16 8 0 buffer;
             body \<leftarrow> load offset data_size buffer;
             buffer \<leftarrow> store16 4 (boot_checksum body) buffer;
             head \<leftarrow> load 0 6 buffer;
             buffer \<leftarrow> store16 6 (boot_checksum head) buffer;
             Some (buffer, 12) })"
| "setup_packet BSL_CMD_START_DATA buffer offset data_size flag =
     (if flag = BSL_UART_PACKET then setup_uart_crc BSL_CMD_START_DATA buffer data_size
      else do { buffer \<leftarrow> setup_spi_head (of_nat data_size) BSL_CMD_START_DATA buffer offset data_size;
                Some (buffer, data_size + 8) })"
| "setup_packet BSL_CMD_MIDST_DATA buffer offset data_size flag =
     (if flag = BSL_UART_PACKET then setup_uart_crc BSL_CMD_MIDST_DATA buffer data_size
      else do { buffer \<leftarrow> setup_spi_head (if data_size = 0 then 4 else of_nat data_size)
                            BSL_CMD_MIDST_DATA buffer offset data_size;
                Some (buffer, data_size + 8) })"
| "setup_packet BSL_CMD_END_DATA buffer offset data_size flag =
     (if flag = BSL_UART_PACKET then setup_uart_crc BSL_CMD_END_DATA buffer data_size
      else do { buffer \<leftarrow> setup_spi_head 4 BSL_CMD_END_DATA buffer offset data_size;
                buffer \<leftarrow> store32 8 0 buffer;
                Some (buffer, 12) })"
| "setup_packet BSL_CMD_EXEC_DATA buffer offset data_size flag =
     (if flag = BSL_UART_PACKET then setup_uart_crc BSL_CMD_EXEC_DATA buffer data_size
      else do { buffer \<leftarrow> setup_spi_head (of_nat data_size) BSL_CMD_EXEC_DATA buffer offset data_size;
                Some (buffer, data_size + 8) })"
| "setup_packet BSL_CMD_SWITCH_MODE buffer offset data_size flag =
     (if flag = BSL_UART_PACKET then
        let len = 4 + data_size in
        do { buffer \<leftarrow> put_head BSL_CMD_SWITCH_MODE data_size buffer;
             head \<leftarrow> load 4 len buffer;
             buffer \<leftarrow> store16 (len + 4) (frm_chk head) buffer;
             Some (buffer, len + 2) }
      else do { buffer \<leftarrow> setup_spi_head 4 BSL_CMD_SWITCH_MODE buffer offset data_size;
                buffer \<leftarrow> store32 8 0 buffer;
                Some (buffer, 12) })"
| "setup_packet msg buffer offset data_size flag = Some (buffer, 0)"

subsection \<open>The file descriptor\<close>

datatype read_result = ReadError | ReadData bytes

text \<open>
  The static \<open>send_buffer\<close> and the link: the results the next writes and reads will have, and the
  bytes each write has put on the line.  A write accepts at most the bytes it is given; a read
  that is offered more than it asked for leaves the rest for the next read.
\<close>

record link =
  send_buffer :: bytes
  write_results :: "int list"
  read_results :: "read_result list"
  sent :: "bytes list"

definition link_write :: "bytes \<Rightarrow> link \<Rightarrow> (int \<times> link) option" where
  "link_write bs l =
     (case write_results l of
        [] \<Rightarrow> None
      | r # rs \<Rightarrow> let r = min r (int (length bs)) in
          Some (r, l\<lparr>write_results := rs, sent := sent l @ [take (nat r) bs]\<rparr>))"

definition link_read :: "nat \<Rightarrow> link \<Rightarrow> (read_result \<times> link) option" where
  "link_read sz l =
     (case read_results l of
        [] \<Rightarrow> None
      | ReadError # rs \<Rightarrow> Some (ReadError, l\<lparr>read_results := rs\<rparr>)
      | ReadData bs # rs \<Rightarrow>
          Some (ReadData (take sz bs),
            l\<lparr>read_results := (if sz < length bs then ReadData (drop sz bs) # rs else rs)\<rparr>))"

text \<open>
  \<open>do { retval = write(fd, send_buffer, n); if (retval > 0) n -= retval; } while (n > 0);\<close>
  The source pointer is not advanced.
\<close>

function write_loop :: "bytes \<Rightarrow> nat \<Rightarrow> link \<Rightarrow> (int \<times> link) option" where
  "write_loop buf n l =
     (case link_write (take n buf) l of
        None \<Rightarrow> None
      | Some (retval, l') \<Rightarrow>
          let n' = (if retval > 0 then n - nat retval else n) in
          if n' > 0 then write_loop buf n' l' else Some (retval, l'))"
  by pat_completeness auto
termination
  by (relation "measure (\<lambda>(_, _, l). length (write_results l))")
    (auto simp: link_write_def Let_def split: list.splits)

declare write_loop.simps [simp del]

text \<open>\<open>do { retval = read(fd, &raw_buffer[offset], size); if (retval > 0) ... } while (size != 0);\<close>\<close>

function read_loop :: "bytes \<Rightarrow> nat \<Rightarrow> nat \<Rightarrow> link \<Rightarrow> (bytes \<times> nat \<times> link) option" where
  "read_loop raw_buffer offset sz l =
     (case link_read sz l of
        None \<Rightarrow> None
      | Some (r, l') \<Rightarrow>
          (case r of
             ReadError \<Rightarrow> if sz \<noteq> 0 then read_loop raw_buffer offset sz l' else Some (raw_buffer, offset, l')
           | ReadData bs \<Rightarrow>
               do { raw_buffer \<leftarrow> store offset bs raw_buffer;
                    if sz - length bs \<noteq> 0
                    then read_loop raw_buffer (offset + length bs) (sz - length bs) l'
                    else Some (raw_buffer, offset + length bs, l') }))"
  by pat_completeness auto
termination
  by (relation "measure (\<lambda>(_, _, _, l). length (read_results l))")
    (auto simp: link_read_def split: list.splits read_result.splits if_splits)

declare read_loop.simps [simp del]

subsection \<open>The exchanges\<close>

text \<open>
  The part every exchange ends with: the reply is read into \<open>raw_buffer\<close>, unframed into
  \<open>send_buffer\<close> on the UART, and its first two bytes are the type.  The result is the type, the
  new link, and \<^term>\<open>None\<close> where a buffer is left.
\<close>

definition read_reply :: "bytes \<Rightarrow> int \<Rightarrow> link \<Rightarrow> (u16 \<times> link) option" where
  "read_reply raw_buffer flag l =
     do { (raw_buffer, offset, l) \<leftarrow> read_loop raw_buffer 0 (if flag = 0 then 8 else 6) l;
          if flag = 0 then
            do { reply \<leftarrow> load 0 offset raw_buffer;
                 (buf, _) \<leftarrow> untranslate_packet (send_buffer l) reply;
                 Some (mk16 (buf ! 0) (buf ! 1), l\<lparr>send_buffer := buf\<rparr>) }
          else Some (mk16 (raw_buffer ! 0) (raw_buffer ! 1), l) }"

definition is_ack :: "u16 \<Rightarrow> bool" where
  "is_ack ty \<longleftrightarrow> ty = cmd_code BSL_REP_ACK \<or> ty = 0"

text \<open>Framing a prepared packet into \<open>send_buffer\<close> and writing it out.\<close>

definition send_frame :: "bytes \<Rightarrow> link \<Rightarrow> (int \<times> link) option" where
  "send_frame packet l =
     do { (buf, translated_size) \<leftarrow> translate_packet (send_buffer l) packet;
          write_loop buf translated_size (l\<lparr>send_buffer := buf\<rparr>) }"

definition send_connect_message :: "int \<Rightarrow> link \<Rightarrow> (int \<times> link) option" where
  "send_connect_message flag l =
     do { (raw_buffer, sz) \<leftarrow> setup_packet BSL_CMD_CONNECT (replicate 32 0) 8 0 flag;
          (retval, l) \<leftarrow> (if flag = 0
             then do { packet \<leftarrow> load 4 sz raw_buffer; send_frame packet l }
             else do { packet \<leftarrow> load 0 sz raw_buffer; link_write packet l });
          if retval > 0 then
            do { (ty, l) \<leftarrow> read_reply raw_buffer flag l;
                 Some (if ty = cmd_code BSL_REP_ACK then 0 else - 1, l) }
          else Some (- 1, l) }"

text \<open>The macro \<open>cpu2be32\<close> on an \<open>int\<close>: the shift that brings the highest byte down extends the sign.\<close>

definition cpu2be32_int :: "u32 \<Rightarrow> u32" where
  "cpu2be32_int w = push_bit 24 (w AND 0xFF) OR push_bit 16 (drop_bit 8 w AND 0xFF)
     OR push_bit 8 (drop_bit 16 w AND 0xFF) OR signed_drop_bit 24 w"

definition send_start_message :: "u32 \<Rightarrow> u32 \<Rightarrow> int \<Rightarrow> link \<Rightarrow> (int \<times> link) option" where
  "send_start_message image_size addr flag l =
     do { raw_buffer \<leftarrow> store32 8 (cpu2be32 addr) (replicate 32 0);
          raw_buffer \<leftarrow> store32 12 (cpu2be32_int image_size) raw_buffer;
          (raw_buffer, sz) \<leftarrow> setup_packet BSL_CMD_START_DATA raw_buffer 8 8 flag;
          (retval, l) \<leftarrow> (if flag = 0
             then do { packet \<leftarrow> load 4 sz raw_buffer; send_frame packet l }
             else do { packet \<leftarrow> load 0 sz raw_buffer; link_write packet l });
          if retval > 0 then
            do { (ty, l) \<leftarrow> read_reply raw_buffer flag l;
                 Some (if is_ack ty then 0 else - 1, l) }
          else Some (- 1, l) }"

definition send_end_message :: "int \<Rightarrow> link \<Rightarrow> (int \<times> link) option" where
  "send_end_message flag l =
     do { (raw_buffer, sz) \<leftarrow> setup_packet BSL_CMD_END_DATA (replicate 32 0) 8 0 flag;
          (retval, l) \<leftarrow> (if flag = 0
             then do { packet \<leftarrow> load 4 sz raw_buffer; send_frame packet l }
             else do { packet \<leftarrow> load 0 sz raw_buffer; link_write packet l });
          if retval > 0 then
            do { (ty, l) \<leftarrow> read_reply raw_buffer flag l;
                 Some (if is_ack ty then 0 else - 1, l) }
          else Some (- 1, l) }"

text \<open>
  On the UART the data is copied into the local \<open>uart_buffer[300]\<close>; on SPI the packet is built in
  the caller's buffer, whose new contents are returned.
\<close>

definition send_data_message ::
    "bytes \<Rightarrow> nat \<Rightarrow> int \<Rightarrow> link \<Rightarrow> (int \<times> bytes \<times> link) option" where
  "send_data_message buffer data_size flag l =
     do { (retval, buffer, l) \<leftarrow> (if flag = 0
             then do { data \<leftarrow> load 0 data_size buffer;
                       uart_buffer \<leftarrow> store 8 data (replicate 300 0);
                       (uart_buffer, sz) \<leftarrow> setup_packet BSL_CMD_MIDST_DATA uart_buffer 8 data_size flag;
                       packet \<leftarrow> load 4 sz uart_buffer;
                       (retval, l) \<leftarrow> send_frame packet l;
                       Some (retval, buffer, l) }
             else do { (buffer, sz) \<leftarrow> setup_packet BSL_CMD_MIDST_DATA buffer 8 data_size flag;
                       packet \<leftarrow> load 0 sz buffer;
                       (retval, l) \<leftarrow> link_write packet l;
                       Some (retval, buffer, l) });
          if retval > 0 then
            do { (ty, l) \<leftarrow> read_reply (replicate 32 0) flag l;
                 Some (if is_ack ty then 0 else - 1, buffer, l) }
          else Some (- 1, buffer, l) }"

definition send_exec_message :: "u32 \<Rightarrow> int \<Rightarrow> link \<Rightarrow> (int \<times> link) option" where
  "send_exec_message addr flag l =
     do { raw_buffer \<leftarrow> store32 8 (cpu2be32 addr) (replicate 32 0);
          (raw_buffer, sz) \<leftarrow> setup_packet BSL_CMD_EXEC_DATA raw_buffer 8 4 flag;
          (retval, l) \<leftarrow> (if flag = 0
             then do { packet \<leftarrow> load 4 sz raw_buffer; send_frame packet l }
             else do { packet \<leftarrow> load 0 sz raw_buffer; link_write packet l });
          if retval > 0 then
            do { (ty, l) \<leftarrow> read_reply raw_buffer flag l;
                 Some (if is_ack ty then 0 else - 1, l) }
          else Some (- 1, l) }"

definition uart_send_change_spi_mode_message :: "link \<Rightarrow> (int \<times> link) option" where
  "uart_send_change_spi_mode_message l =
     do { (raw_buffer, sz) \<leftarrow> setup_packet BSL_CMD_SWITCH_MODE (replicate 32 0) 8 0 BSL_UART_PACKET;
          packet \<leftarrow> load 4 sz raw_buffer;
          (retval, l) \<leftarrow> send_frame packet l;
          if retval > 0 then
            do { (ty, l) \<leftarrow> read_reply raw_buffer 0 l;
                 Some (if ty = cmd_code BSL_REP_ACK then 0 else - 1, l) }
          else Some (- 1, l) }"

subsection \<open>Framing: what is sent can be decoded\<close>

text \<open>The decoder the comment on \<open>translate_packet\<close> describes, on the bytes between the flags.\<close>

fun hdlc_unescape :: "bytes \<Rightarrow> bytes option" where
  "hdlc_unescape [] = Some []"
| "hdlc_unescape [c] = (if c = 0x7D \<or> c = 0x7E then None else Some [c])"
| "hdlc_unescape (c # d # src) =
     (if c = 0x7D then
        (if d = 0x5E then map_option (Cons 0x7E) (hdlc_unescape src)
         else if d = 0x5D then map_option (Cons 0x7D) (hdlc_unescape src)
         else None)
      else if c = 0x7E then None
      else map_option (Cons c) (hdlc_unescape (d # src)))"

lemma translate_body_append: "translate_body (p @ q) = translate_body p @ translate_body q"
  by (induction p) auto

lemma hdlc_unescape_cons:
  "c \<noteq> 0x7D \<Longrightarrow> c \<noteq> 0x7E \<Longrightarrow> hdlc_unescape (c # src) = map_option (Cons c) (hdlc_unescape src)"
  by (cases src) auto

lemma hdlc_unescape_translate: "hdlc_unescape (translate_body p) = Some p"
  by (induction p) (auto simp: hdlc_unescape_cons)

text \<open>
  C17: What \<open>translate_packet\<close> puts between the two flags contains no flag byte, is at most twice as
  long as the packet, and decodes to the packet by the rules of the comment.
\<close>

theorem translate_decodes:
  "hdlc_unescape (translate_body p) = Some p \<and> 0x7E \<notin> set (translate_body p)
     \<and> length (translate_frame p) \<le> 2 * length p + 2"
proof -
  have "hdlc_unescape (translate_body p) = Some p" by (rule hdlc_unescape_translate)
  moreover have "0x7E \<notin> set (translate_body p)" by (induction p) auto
  moreover have "length (translate_body p) \<le> 2 * length p" by (induction p) auto
  ultimately show ?thesis by (simp add: translate_frame_def)
qed

subsection \<open>Framing: what is received\<close>

lemma untranslate_plain:
  "0x7D \<notin> set p \<Longrightarrow> out \<noteq> [] \<Longrightarrow> last out \<noteq> 0x7D \<Longrightarrow>
     untranslate_loop 2 out (translate_body p @ src) = untranslate_loop 2 (out @ p) src"
  by (induction p arbitrary: out) auto

lemma untranslate_first:
  "untranslate_loop 1 [] (translate_body [c] @ src) = untranslate_loop 2 [c] src"
  by auto

lemma untranslate_length:
  "untranslate_loop 2 out (translate_body q @ [0x7E]) = Some r \<Longrightarrow> out \<noteq> [] \<Longrightarrow>
     length r + (if last out = 0x7D \<and> q \<noteq> [] then 1 else 0) \<le> length out + length q"
proof (induction q arbitrary: out)
  case Nil
  then show ?case by (auto split: if_splits)
next
  case (Cons c q)
  consider (esc) "last out = 0x7D" | (plain) "last out \<noteq> 0x7D" by blast
  then show ?case
  proof cases
    case esc
    define out' where "out' = (if c = 0x7E \<or> c = 0x5E then butlast out @ [0x7E] else out)"
    have out: "butlast out @ [0x7D] = out" using esc Cons.prems(2) by (metis append_butlast_last_id)
    from Cons.prems(1) esc out have "untranslate_loop 2 out' (translate_body q @ [0x7E]) = Some r"
      by (auto simp: out'_def split: if_splits)
    moreover have "out' \<noteq> []" "length out' = length out"
      using Cons.prems(2) by (auto simp: out'_def)
    ultimately show ?thesis using Cons.IH [of out'] by (auto split: if_splits)
  next
    case plain
    from Cons.prems plain have "untranslate_loop 2 (out @ [c]) (translate_body q @ [0x7E]) = Some r"
      by (auto split: if_splits)
    then show ?thesis using Cons.IH [of "out @ [c]"] plain by (auto split: if_splits)
  qed
qed

lemma untranslate_frame_eq:
  "untranslate_loop 0 [] (translate_frame (c # p)) = untranslate_loop 2 [c] (translate_body p @ [0x7E])"
  using untranslate_first [of c "translate_body p @ [0x7E]"]
  by (simp add: translate_frame_def translate_body_append [of "[c]" p, simplified])

text \<open>
  C27: The receiving state machine returns the packet that was framed exactly when the packet has no
  \<open>0x7D\<close> before its last byte: a decoded \<open>0x7D\<close> is taken for an escape again, and the bytes after
  it are lost.
\<close>

theorem untranslate_roundtrip_iff:
  assumes "2 \<le> length p"
  shows "untranslate_loop 0 [] (translate_frame p) = Some p \<longleftrightarrow> 0x7D \<notin> set (butlast p)"
proof
  assume ok: "0x7D \<notin> set (butlast p)"
  from assms obtain c q where p: "p = c # q" "q \<noteq> []" by (cases p) force+
  define d where "d = last q"
  have q: "q = butlast q @ [d]" using p(2) by (simp add: d_def)
  have "untranslate_loop 0 [] (translate_frame p) =
      untranslate_loop 2 [c] (translate_body (butlast q) @ translate_body [d] @ [0x7E])"
    using untranslate_frame_eq [of c q] translate_body_append [of "butlast q" "[d]"] p q by simp
  also have "\<dots> = untranslate_loop 2 (c # butlast q) (translate_body [d] @ [0x7E])"
    using untranslate_plain [of "butlast q" "[c]"] ok p by (auto split: if_splits)
  also have "\<dots> = Some (c # butlast q @ [d])"
  proof -
    have "set (butlast p) = set (c # butlast q)" using p by simp
    then have "last (c # butlast q) \<noteq> 0x7D"
      using ok by (metis last_in_set list.distinct(1))
    then show ?thesis by auto
  qed
  finally show "untranslate_loop 0 [] (translate_frame p) = Some p" using p q by simp
next
  assume rt: "untranslate_loop 0 [] (translate_frame p) = Some p"
  show "0x7D \<notin> set (butlast p)"
  proof
    assume "0x7D \<in> set (butlast p)"
    then obtain a b where ab: "butlast p = a @ 0x7D # b" "0x7D \<notin> set a"
      using split_list_first [of "0x7D" "butlast p"] by auto
    have pne: "p \<noteq> []" using assms by auto
    define q where "q = b @ [last p]"
    have p: "p = a @ 0x7D # q" "q \<noteq> []"
      using append_butlast_last_id [OF pne] ab by (auto simp: q_def)
    have "untranslate_loop 0 [] (translate_frame p) = untranslate_loop 2 (a @ [0x7D]) (translate_body q @ [0x7E])"
    proof (cases a)
      case Nil
      then show ?thesis using untranslate_frame_eq [of "0x7D" q] p by simp
    next
      case (Cons c a')
      have "last (c # a') \<noteq> 0x7D" using ab(2) Cons by (metis last_in_set list.distinct(1))
      then show ?thesis
        using untranslate_frame_eq [of c "a' @ 0x7D # q"] p Cons ab(2)
          untranslate_plain [of a' "[c]" "0x7D # 0x5D # translate_body q @ [0x7E]"]
        by (auto simp: translate_body_append split: if_splits)
    qed
    with rt have "untranslate_loop 2 (a @ [0x7D]) (translate_body q @ [0x7E]) = Some p" by simp
    from untranslate_length [OF this] have "length p + 1 \<le> length a + 1 + length q"
      using p(2) by simp
    with p(1) show False by simp
  qed
qed

theorem untranslate_roundtrip_iff_witness:
  "untranslate_loop 0 [] (translate_frame [0x7D, 0x41]) \<noteq> Some [0x7D, 0x41] \<and>
   untranslate_loop 0 [] (translate_frame [0x41, 0x7E, 0x7D]) = Some [0x41, 0x7E, 0x7D]"
  using untranslate_roundtrip_iff [of "[0x7D, 0x41]"] untranslate_roundtrip_iff [of "[0x41, 0x7E, 0x7D]"]
  by simp

text \<open>
  A reply frame with a single byte between its flags makes the receiver read before its buffer:
  whatever the byte, the run leaves the buffer.
\<close>

theorem untranslate_short_reply_faults:
  "untranslate_packet dest (translate_frame [c]) = None"
  using untranslate_frame_eq [of c "[]"] by (simp add: untranslate_packet_def)

end
