(* ===== verification/PacketLink.thy ===== *)
theory PacketLink
  imports Packet
begin

text \<open>
  What the packets and exchanges of \<open>Packet\<close> achieve on the link: the packets \<open>setup_packet\<close>
  builds pass the checks of the receiver, the write and read loops move the bytes they must
  (or, for a partial write, do not), and a whole exchange over the UART delivers the packet and
  reports what the reply says.
\<close>

subsection \<open>The packets are valid\<close>

lemma le16_cpu2be16: "le16 (cpu2be16 w) = be16 w"
proof -
  have "lo8 (cpu2be16 w) = hi8 w"
    unfolding cpu2be16_def and_FF
    by (rule bit_word_eqI) (auto simp: bit_lo8 bit_hi8 bit_simps add.commute)
  moreover have "hi8 (cpu2be16 w) = lo8 w"
    unfolding cpu2be16_def and_FF
    by (rule bit_word_eqI) (auto simp: bit_lo8 bit_hi8 bit_simps)
  ultimately show ?thesis by (simp add: le16_def be16_def)
qed

lemma bit_byte_of: "bit (byte_of k w) n \<longleftrightarrow> n < 8 \<and> bit w (n + 8 * k)"
  by (auto simp: byte_of_def bit_simps add.commute)

lemma bit_cpu2be32:
  "n < 8 \<Longrightarrow> bit (cpu2be32 w) n = bit w (n + 24)"
  "n < 8 \<Longrightarrow> bit (cpu2be32 w) (n + 8) = bit w (n + 16)"
  "n < 8 \<Longrightarrow> bit (cpu2be32 w) (n + 16) = bit w (n + 8)"
  "n < 8 \<Longrightarrow> bit (cpu2be32 w) (n + 24) = bit w n"
  unfolding cpu2be32_def and_FF
  by (auto simp: bit_or_iff bit_push_bit_iff bit_drop_bit_eq bit_take_bit_iff add.commute
      dest: bit_imp_le_length)

lemma bit_imp_le_unat: "bit w n \<Longrightarrow> 2 ^ n \<le> unat w"
proof -
  assume "bit w n"
  then have "odd (unat w div 2 ^ n)" by (simp add: bit_unsigned_iff flip: bit_iff_odd)
  then show ?thesis by (metis div_less even_zero not_le)
qed

text \<open>A size that is not negative has no sign to extend.\<close>

lemma cpu2be32_int_nonneg:
  assumes "w < 2 ^ 31"
  shows "cpu2be32_int w = cpu2be32 w"
proof -
  have "\<not> bit w 31"
  proof
    assume "bit w 31"
    then have "2 ^ 31 \<le> unat w" using bit_imp_le_unat by blast
    with assms show False by (simp add: word_less_nat_alt)
  qed
  then have "bit (signed_drop_bit 24 w) i = bit (drop_bit 24 w) i" for i
    using bit_imp_le_length [of w "24 + i"] by (cases "24 + i < 32") (auto simp: bit_signed_drop_bit_iff bit_drop_bit_eq)
  then have "signed_drop_bit 24 w = drop_bit 24 w" by (simp add: bit_eq_iff)
  then show ?thesis by (simp add: cpu2be32_int_def cpu2be32_def)
qed

lemma le32_cpu2be32: "le32 (cpu2be32 w) = be32 w"
proof -
  have "byte_of 0 (cpu2be32 w) = byte_of 3 w" "byte_of 1 (cpu2be32 w) = byte_of 2 w"
    "byte_of 2 (cpu2be32 w) = byte_of 1 w" "byte_of 3 (cpu2be32 w) = byte_of 0 w"
    by (rule bit_word_eqI, simp add: bit_byte_of bit_cpu2be32)+
  then show ?thesis by (simp add: le32_def be32_def)
qed

definition packet_head :: "cmd_type \<Rightarrow> nat \<Rightarrow> bytes" where
  "packet_head msg n = be16 (cmd_code msg) @ be16 (of_nat n)"

lemma length_packet_head [simp]: "length (packet_head msg n) = 4"
  by (simp add: packet_head_def)

lemma put_head_frame:
  assumes "8 \<le> length buf"
  obtains buf' where "put_head msg n buf = Some buf'" "length buf' = length buf"
    "chunk 4 4 buf' = packet_head msg n" "\<And>o' k. 8 \<le> o' \<Longrightarrow> chunk o' k buf' = chunk o' k buf"
proof -
  obtain b1 where b1: "store 4 (be16 (cmd_code msg)) buf = Some b1" "length b1 = length buf"
    using store_total [of 4 "be16 (cmd_code msg)" buf] assms by auto
  obtain b2 where b2: "store 6 (be16 (of_nat n)) b1 = Some b2" "length b2 = length buf"
    using store_total [of 6 "be16 (of_nat n)" b1] assms b1 by auto
  have "chunk 4 (2 + 2) b2 = be16 (cmd_code msg) @ be16 (of_nat n)"
    using chunk_store_same [OF b1(1)] chunk_store_same [OF b2(1)] chunk_store_before [OF b2(1), of 4 2]
    unfolding chunk_append by simp
  moreover have "chunk o' k b2 = chunk o' k buf" if "8 \<le> o'" for o' k
    using that chunk_store_after [OF b2(1), of o' k] chunk_store_after [OF b1(1), of o' k] by simp
  ultimately show ?thesis
    using that [of b2] b1 b2 by (simp add: put_head_def le16_cpu2be16 packet_head_def)
qed

text \<open>The frame a UART packet carries: header, payload, CRC.\<close>

definition uart_frame :: "cmd_type \<Rightarrow> bytes \<Rightarrow> bytes" where
  "uart_frame msg data =
     (let f = packet_head msg (length data) @ data in f @ be16 (crc_16_l_calc f))"

lemma length_uart_frame [simp]: "length (uart_frame msg data) = length data + 6"
  by (simp add: uart_frame_def Let_def)

lemma setup_uart_crc_frame:
  assumes "n + 10 \<le> length buf"
  obtains buf' where "setup_uart_crc msg buf n = Some (buf', n + 6)" "length buf' = length buf"
    "chunk 4 (n + 6) buf' = uart_frame msg (chunk 8 n buf)"
proof -
  from assms have "8 \<le> length buf" by simp
  then obtain b1 where b1: "put_head msg n buf = Some b1" "length b1 = length buf"
      "chunk 4 4 b1 = packet_head msg n" "chunk 8 n b1 = chunk 8 n buf"
    using put_head_frame [of buf msg n] by (metis le_refl)
  define f where "f = packet_head msg n @ chunk 8 n buf"
  have f: "chunk 4 (4 + n) b1 = f" using b1 by (simp add: chunk_append f_def)
  obtain b2 where b2: "store (8 + n) (be16 (crc_16_l_calc f)) b1 = Some b2" "length b2 = length buf"
    using store_total [of "8 + n" "be16 (crc_16_l_calc f)" b1] b1 assms by auto
  have "chunk 4 ((4 + n) + 2) b2 = f @ be16 (crc_16_l_calc f)"
    using chunk_store_same [OF b2(1)] chunk_store_before [OF b2(1), of 4 "4 + n"] f
    unfolding chunk_append [of 4 "4 + n"] by simp
  moreover have "n = length (chunk 8 n buf)" using assms by (simp add: length_chunk)
  ultimately show ?thesis
    using that [of b2] b1 b2 f assms
    by (simp add: setup_uart_crc_def Let_def load_def le16_cpu2be16 uart_frame_def f_def add.commute
        del: chunk_append)
qed

lemma uart_frame_crc: "crc_16_l_calc (uart_frame msg data) = CRC_16_L_OK"
  unfolding uart_frame_def Let_def by (rule crc_16_l_own_crc)

text \<open>
  For the four download messages the UART packet at \<open>buffer[4]\<close> is the type and the payload
  length in network order, the payload, and a CRC under which the whole frame checks.
\<close>

theorem setup_packet_uart_valid:
  assumes "msg \<in> {BSL_CMD_START_DATA, BSL_CMD_MIDST_DATA, BSL_CMD_END_DATA, BSL_CMD_EXEC_DATA}"
    and "n + 10 \<le> length buf"
  shows "\<exists>buf'. setup_packet msg buf off n BSL_UART_PACKET = Some (buf', n + 6)
    \<and> chunk 4 4 buf' = be16 (cmd_code msg) @ be16 (of_nat n)
    \<and> chunk 8 n buf' = chunk 8 n buf
    \<and> crc_16_l_calc (chunk 4 (n + 6) buf') = CRC_16_L_OK"
proof -
  obtain buf' where buf': "setup_uart_crc msg buf n = Some (buf', n + 6)"
      "chunk 4 (n + 6) buf' = uart_frame msg (chunk 8 n buf)"
    using setup_uart_crc_frame [OF assms(2)] by metis
  have n: "length (chunk 8 n buf) = n" using assms(2) by (simp add: length_chunk)
  have "chunk 4 (4 + (n + 2)) buf' = uart_frame msg (chunk 8 n buf)"
    using buf'(2) by (simp add: add.commute)
  then have split: "chunk 4 4 buf' @ chunk 8 n buf' @ chunk (8 + n) 2 buf' =
      packet_head msg n @ chunk 8 n buf @ be16 (crc_16_l_calc (packet_head msg n @ chunk 8 n buf))"
    unfolding chunk_append uart_frame_def Let_def n by (simp add: chunk_append add.commute)
  have "length (chunk 4 (n + 6) buf') = n + 6" using buf'(2) n by simp
  then have l: "length (chunk 4 4 buf') = 4" "length (chunk 8 n buf') = n"
    by (auto simp: length_chunk min_def split: if_splits)
  from split l n have "chunk 4 4 buf' = packet_head msg n" "chunk 8 n buf' = chunk 8 n buf"
    by (auto simp: append_eq_append_conv)
  moreover have "crc_16_l_calc (chunk 4 (n + 6) buf') = CRC_16_L_OK"
    using buf'(2) uart_frame_crc by simp
  moreover have "setup_packet msg buf off n BSL_UART_PACKET = setup_uart_crc msg buf n"
    using assms(1) by (auto simp: BSL_UART_PACKET_def)
  ultimately show ?thesis using buf'(1) by (simp add: packet_head_def)
qed

theorem setup_packet_uart_valid_witness:
  "\<exists>buf'. setup_packet BSL_CMD_MIDST_DATA (replicate 20 7) 8 10 BSL_UART_PACKET = Some (buf', 16)
    \<and> crc_16_l_calc (chunk 4 16 buf') = CRC_16_L_OK"
  using setup_packet_uart_valid [of BSL_CMD_MIDST_DATA 10 "replicate 20 7" 8] by auto

text \<open>
  The SPI header: four bytes of size and type, the checksum of the payload, the header's checksum.
\<close>

lemma setup_spi_head_frame:
  assumes "8 \<le> off" and "off + n \<le> length buf"
  obtains buf' where "setup_spi_head sz msg buf off n = Some buf'" "length buf' = length buf"
    "boot_checksum (take 8 buf') = 0" "chunk 4 2 buf' = le16 (boot_checksum (chunk off n buf))"
    "\<And>o' k. 8 \<le> o' \<Longrightarrow> chunk o' k buf' = chunk o' k buf"
proof -
  have l: "8 \<le> length buf" using assms by simp
  obtain b1 where b1: "store 0 (le16 sz) buf = Some b1" "length b1 = length buf"
    using store_total [of 0 "le16 sz" buf] l by auto
  obtain b2 where b2: "store 2 (le16 (cmd_code msg)) b1 = Some b2" "length b2 = length buf"
    using store_total [of 2 "le16 (cmd_code msg)" b1] b1 l by auto
  obtain b3 where b3: "store 4 (le16 (boot_checksum (chunk off n b2))) b2 = Some b3" "length b3 = length buf"
    using store_total [of 4 "le16 (boot_checksum (chunk off n b2))" b2] b2 l by auto
  obtain b4 where b4: "store 6 (le16 (boot_checksum (chunk 0 6 b3))) b3 = Some b4" "length b4 = length buf"
    using store_total [of 6 "le16 (boot_checksum (chunk 0 6 b3))" b3] b3 l by auto
  have rest: "chunk o' k b4 = chunk o' k buf" if "8 \<le> o'" for o' k
    using that chunk_store_after [OF b1(1), of o' k] chunk_store_after [OF b2(1), of o' k]
      chunk_store_after [OF b3(1), of o' k] chunk_store_after [OF b4(1), of o' k] by simp
  have data: "chunk off n b2 = chunk off n buf"
    using chunk_store_after [OF b1(1), of off n] chunk_store_after [OF b2(1), of off n] assms(1) by simp
  have "chunk 0 (6 + 2) b4 = chunk 0 6 b3 @ le16 (boot_checksum (chunk 0 6 b3))"
    unfolding chunk_append using chunk_store_before [OF b4(1), of 0 6] chunk_store_same [OF b4(1)] by simp
  moreover have "length (chunk 0 6 b3) = 6" using l b3 by (simp add: length_chunk)
  ultimately have "boot_checksum (take 8 b4) = 0"
    using boot_checksum_own_checksum [of "chunk 0 6 b3"] by simp
  moreover have "chunk 4 2 b4 = le16 (boot_checksum (chunk off n buf))"
    using chunk_store_before [OF b4(1), of 4 2] chunk_store_same [OF b3(1)] data by simp
  moreover have "setup_spi_head sz msg buf off n = Some b4"
    using b1 b2 b3 b4 assms by (simp add: setup_spi_head_def load_def del: chunk_0)
  ultimately show ?thesis using that b4 rest by metis
qed

text \<open>
  For the download messages with a payload the SPI packet starts with a header whose own
  checksum verifies and which holds the checksum of the payload that follows it.
\<close>

theorem setup_packet_spi_valid:
  assumes "msg \<in> {BSL_CMD_START_DATA, BSL_CMD_MIDST_DATA, BSL_CMD_EXEC_DATA}"
    and "8 + n \<le> length buf" and "flag \<noteq> BSL_UART_PACKET"
  shows "\<exists>buf'. setup_packet msg buf 8 n flag = Some (buf', n + 8)
    \<and> boot_checksum (take 8 buf') = 0
    \<and> chunk 4 2 buf' = le16 (boot_checksum (chunk 8 n buf'))
    \<and> chunk 8 n buf' = chunk 8 n buf"
proof -
  define sz :: u16 where
    "sz = (if msg = BSL_CMD_MIDST_DATA \<and> n = 0 then 4 else of_nat n)"
  have "setup_packet msg buf 8 n flag = do { b \<leftarrow> setup_spi_head sz msg buf 8 n; Some (b, n + 8) }"
    using assms(1,3) by (auto simp: sz_def)
  moreover obtain buf' where "setup_spi_head sz msg buf 8 n = Some buf'" "boot_checksum (take 8 buf') = 0"
    "chunk 4 2 buf' = le16 (boot_checksum (chunk 8 n buf))" "chunk 8 n buf' = chunk 8 n buf"
    using setup_spi_head_frame [of 8 n buf sz msg] assms(2) by (metis le_refl)
  ultimately show ?thesis by simp
qed

theorem setup_packet_spi_valid_witness:
  "\<exists>buf'. setup_packet BSL_CMD_EXEC_DATA (replicate 12 9) 8 4 1 = Some (buf', 12)
    \<and> boot_checksum (take 8 buf') = 0"
  using setup_packet_spi_valid [of BSL_CMD_EXEC_DATA 4 "replicate 12 9" 1]
  by (auto simp: BSL_UART_PACKET_def)

subsection \<open>The write loop\<close>

lemma link_write_Cons:
  "write_results l = r # rs \<Longrightarrow> link_write bs l =
     Some (min r (int (length bs)),
       l\<lparr>write_results := rs, sent := sent l @ [take (nat (min r (int (length bs)))) bs]\<rparr>)"
  by (simp add: link_write_def Let_def)

lemma write_loop_all:
  assumes "write_results l = int n # rs" and "0 < n" and "n \<le> length buf"
  shows "write_loop buf n l = Some (int n, l\<lparr>write_results := rs, sent := sent l @ [take n buf]\<rparr>)"
  using assms by (simp add: write_loop.simps [of buf n l] link_write_Cons)

definition moved :: "int list \<Rightarrow> nat" where
  "moved rs = sum_list (List.map nat rs)"

text \<open>
  C34: When the descriptor takes as many bytes in all as the packet has, in whatever pieces, with
  whatever failed and empty writes between, the write loop ends with a positive result and exactly
  that number of bytes is on the line.  But every piece is a prefix of the buffer: the pointer is
  not advanced, so after a partial write the beginning is sent again in place of the rest.
\<close>

theorem write_loop_sends_prefixes:
  assumes "0 < n" and "n \<le> length buf" and "n \<le> moved (write_results l)"
  shows "\<exists>rv ws ps. write_loop buf n l = Some (rv, l\<lparr>write_results := ws, sent := sent l @ ps\<rparr>)
    \<and> 0 < rv \<and> length (concat ps) = n \<and> (\<forall>p \<in> set ps. p = take (length p) buf)"
  using assms
proof (induction "write_results l" arbitrary: n l)
  case Nil
  then show ?case by (simp add: moved_def)
next
  case (Cons r rs)
  define w where "w = min r (int n)"
  define l' where "l' = l\<lparr>write_results := rs, sent := sent l @ [take (nat w) buf]\<rparr>"
  have lw: "link_write (take n buf) l = Some (w, l')"
    using link_write_Cons [OF Cons.hyps(2) [symmetric], of "take n buf"] Cons.prems(2)
    by (simp add: w_def l'_def min_def nat_le_iff)
  have wn: "nat w \<le> n" and w: "w \<le> int n" by (simp_all add: w_def)
  have len: "length (take (nat w) buf) = nat w" using wn Cons.prems(2) by simp
  show ?case
  proof (cases "nat w = n")
    case True
    then have "0 < w" using Cons.prems(1) by simp
    then have "write_loop buf n l = Some (w, l')"
      using lw True by (simp add: write_loop.simps [of buf n l])
    then have "write_loop buf n l = Some (w, l\<lparr>write_results := rs, sent := sent l @ [take (nat w) buf]\<rparr>)
      \<and> 0 < w \<and> length (concat [take (nat w) buf]) = n
      \<and> (\<forall>p \<in> set [take (nat w) buf]. p = take (length p) buf)"
      using True Cons.prems len by (auto simp: l'_def)
    then show ?thesis by blast
  next
    case False
    with wn have lt: "nat w < n" by simp
    then have "w = r" by (auto simp: w_def min_def split: if_splits)
    have step: "write_loop buf n l = write_loop buf (n - nat w) l'"
      using lw lt by (simp add: write_loop.simps [of buf n l] Let_def)
    have "moved (write_results l) = nat w + moved rs"
      using Cons.hyps(2) \<open>w = r\<close> by (metis moved_def list.simps(9) sum_list.Cons)
    then have "\<exists>rv ws ps. write_loop buf (n - nat w) l' =
        Some (rv, l'\<lparr>write_results := ws, sent := sent l' @ ps\<rparr>)
      \<and> 0 < rv \<and> length (concat ps) = n - nat w \<and> (\<forall>p \<in> set ps. p = take (length p) buf)"
      using Cons.hyps(1) [of l' "n - nat w"] Cons.prems lt by (simp add: l'_def)
    then obtain rv ws ps where IH: "write_loop buf (n - nat w) l' =
        Some (rv, l'\<lparr>write_results := ws, sent := sent l' @ ps\<rparr>)"
      "0 < rv" "length (concat ps) = n - nat w" "\<forall>p \<in> set ps. p = take (length p) buf"
      by blast
    have "write_loop buf n l =
        Some (rv, l\<lparr>write_results := ws, sent := sent l @ (take (nat w) buf # ps)\<rparr>)"
      using step IH(1) by (simp add: l'_def)
    moreover have "length (concat (take (nat w) buf # ps)) = n" using IH(3) lt len by simp
    moreover have "\<forall>p \<in> set (take (nat w) buf # ps). p = take (length p) buf"
      using IH(4) len by (auto simp del: length_take)
    ultimately show ?thesis using IH(2) by blast
  qed
qed

theorem write_loop_sends_prefixes_witness:
  "\<exists>rv ws ps. write_loop [1, 2, 3, 4] 4 (\<lparr>send_buffer = [], write_results = [-1, 3, 5],
      read_results = [], sent = []\<rparr>)
    = Some (rv, \<lparr>send_buffer = [], write_results = ws, read_results = [], sent = ps\<rparr>)
    \<and> length (concat ps) = 4"
  using write_loop_sends_prefixes [of 4 "[1, 2, 3, 4]" "\<lparr>send_buffer = [], write_results = [-1, 3, 5],
      read_results = [], sent = []\<rparr>"]
  by (auto simp: moved_def)

subsection \<open>The read loop\<close>

fun incoming :: "read_result list \<Rightarrow> bytes" where
  "incoming [] = []"
| "incoming (ReadError # rs) = incoming rs"
| "incoming (ReadData bs # rs) = bs @ incoming rs"

lemma store_store_append:
  assumes "store off a buf = Some buf1"
  shows "store (off + length a) b buf1 = store off (a @ b) buf"
proof -
  from assms have le: "off + length a \<le> length buf"
    and buf1: "buf1 = take off buf @ a @ drop (off + length a) buf"
    by (auto simp: store_def split: if_splits)
  have "length (take off buf) = off" using le by simp
  then show ?thesis
    using le by (simp add: store_def buf1 add.assoc add.left_commute add.commute)
qed

lemma read_loop_incoming:
  assumes "0 < sz" and "sz \<le> length (incoming (read_results l))" and "off + sz \<le> length raw"
  shows "\<exists>raw' rs. read_loop raw off sz l = Some (raw', off + sz, l\<lparr>read_results := rs\<rparr>)
    \<and> store off (take sz (incoming (read_results l))) raw = Some raw'
    \<and> incoming rs = drop sz (incoming (read_results l))"
  using assms
proof (induction "read_results l" arbitrary: raw off sz l)
  case Nil
  then show ?case by simp
next
  case (Cons r rs)
  define l' where "l' = l\<lparr>read_results := rs\<rparr>"
  show ?case
  proof (cases r)
    case ReadError
    have inc: "incoming (read_results l) = incoming rs"
      using Cons.hyps(2) ReadError by (metis incoming.simps(2))
    have "read_loop raw off sz l = read_loop raw off sz l'"
      using Cons.hyps(2) [symmetric] Cons.prems(1) ReadError
      by (simp add: read_loop.simps [of raw off sz l] link_read_def l'_def)
    then show ?thesis
      using Cons.hyps(1) [of l' sz off raw] Cons.prems inc by (simp add: l'_def)
  next
    case (ReadData bs)
    have inc: "incoming (read_results l) = bs @ incoming rs"
      using Cons.hyps(2) ReadData by (metis incoming.simps(3))
    show ?thesis
    proof (cases "sz \<le> length bs")
      case True
      obtain raw' where raw': "store off (take sz bs) raw = Some raw'"
        using store_total [of off "take sz bs" raw] Cons.prems(3) True by (metis length_take min.absorb2)
      define rs' where "rs' = (if sz < length bs then ReadData (drop sz bs) # rs else rs)"
      have "read_loop raw off sz l = Some (raw', off + sz, l\<lparr>read_results := rs'\<rparr>)"
        using Cons.hyps(2) [symmetric] ReadData raw' True
        by (simp add: read_loop.simps [of raw off sz l] link_read_def rs'_def)
      moreover have "incoming rs' = drop sz (incoming (read_results l))"
        using True by (auto simp: inc rs'_def)
      moreover have "store off (take sz (incoming (read_results l))) raw = Some raw'"
        using raw' True inc by simp
      ultimately show ?thesis by blast
    next
      case False
      obtain raw1 where raw1: "store off bs raw = Some raw1"
        using store_total [of off bs raw] Cons.prems(3) False by auto
      have step: "read_loop raw off sz l = read_loop raw1 (off + length bs) (sz - length bs) l'"
        using Cons.hyps(2) [symmetric] ReadData raw1 False
        by (simp add: read_loop.simps [of raw off sz l] link_read_def l'_def)
      have "\<exists>raw' rs'. read_loop raw1 (off + length bs) (sz - length bs) l' =
            Some (raw', off + length bs + (sz - length bs), l'\<lparr>read_results := rs'\<rparr>)
          \<and> store (off + length bs) (take (sz - length bs) (incoming rs)) raw1 = Some raw'
          \<and> incoming rs' = drop (sz - length bs) (incoming rs)"
        using Cons.hyps(1) [of l' "sz - length bs" "off + length bs" raw1] Cons.prems False inc
          length_store [OF raw1] by (simp add: l'_def)
      then show ?thesis
        using step store_store_append [OF raw1, of "take (sz - length bs) (incoming rs)"] False
        by (auto simp: inc l'_def)
    qed
  qed
qed

text \<open>
  Whatever pieces the reply arrives in, with whatever failed or empty reads between, the read
  loop stores exactly its first \<open>size\<close> bytes, in order, and leaves the rest for the next reply.
\<close>

theorem read_loop_reassembles:
  assumes "0 < sz" and "sz \<le> length (incoming (read_results l))" and "off + sz \<le> length raw"
  shows "\<exists>raw' rs. read_loop raw off sz l = Some (raw', off + sz, l\<lparr>read_results := rs\<rparr>)
    \<and> store off (take sz (incoming (read_results l))) raw = Some raw'
    \<and> incoming rs = drop sz (incoming (read_results l))"
  using assms by (rule read_loop_incoming)

theorem read_loop_reassembles_witness:
  "\<exists>rs. read_loop [0, 0, 0, 0] 1 3 (\<lparr>send_buffer = [], write_results = [],
      read_results = [ReadData [5], ReadError, ReadData [6, 7, 8]], sent = []\<rparr>)
    = Some ([0, 5, 6, 7], 4, \<lparr>send_buffer = [], write_results = [], read_results = rs, sent = []\<rparr>)
    \<and> incoming rs = [8]"
  using read_loop_reassembles [of 3 "\<lparr>send_buffer = [], write_results = [],
      read_results = [ReadData [5], ReadError, ReadData [6, 7, 8]], sent = []\<rparr>" 1 "[0, 0, 0, 0]"]
  by (auto simp: store_def)

text \<open>What a run of reads can still consume: every read of at least one byte makes it smaller.\<close>

fun pending :: "read_result list \<Rightarrow> nat" where
  "pending [] = 0"
| "pending (ReadError # rs) = Suc (pending rs)"
| "pending (ReadData bs # rs) = Suc (length bs + pending rs)"

lemma link_read_pending:
  "link_read sz l = Some (r, l') \<Longrightarrow> 0 < sz \<Longrightarrow> pending (read_results l') < pending (read_results l)"
  by (auto simp: link_read_def split: list.splits read_result.splits if_splits)

lemma link_read_pending_1:
  "link_read (Suc 0) l = Some (r, l') \<Longrightarrow> pending (read_results l') < pending (read_results l)"
  using link_read_pending [of "Suc 0" l r l'] by simp

lemma link_write_reads: "link_write bs l = Some (r, l') \<Longrightarrow> read_results l' = read_results l"
  by (auto simp: link_write_def Let_def split: list.splits)

lemma link_read_incoming:
  assumes "link_read sz l = Some (r, l')"
  shows "incoming (read_results l) = (case r of ReadError \<Rightarrow> [] | ReadData bs \<Rightarrow> bs) @ incoming (read_results l')"
  using assms
  by (cases "read_results l" rule: incoming.cases) (auto simp: link_read_def split: if_splits)

subsection \<open>An exchange over the UART\<close>

lemma length_translate_frame: "length p + 2 \<le> length (translate_frame p)"
    "length (translate_frame p) \<le> 2 * length p + 2"
proof -
  have "length p \<le> length (translate_body p)" by (induction p) auto
  moreover have "length (translate_body p) \<le> 2 * length p" by (induction p) auto
  ultimately show "length p + 2 \<le> length (translate_frame p)"
    "length (translate_frame p) \<le> 2 * length p + 2" by (simp_all add: translate_frame_def)
qed

lemma untranslate_plain_frame:
  assumes "0x7D \<notin> set p" and "2 \<le> length p"
  shows "untranslate_loop 0 [] (translate_frame p) = Some p"
proof -
  from assms(2) obtain c q where p: "p = c # q" by (cases p) auto
  then show ?thesis
    using untranslate_frame_eq [of c q] untranslate_plain [of q "[c]" "[0x7E]"] assms
    by (auto split: if_splits dest: last_in_set)
qed

lemma send_frame_all:
  assumes "length (translate_frame packet) \<le> length (send_buffer l)"
    and "write_results l = int (length (translate_frame packet)) # ws"
  obtains l' where "send_frame packet l = Some (int (length (translate_frame packet)), l')"
    "sent l' = sent l @ [translate_frame packet]" "read_results l' = read_results l"
    "length (send_buffer l') = length (send_buffer l)"
proof -
  let ?f = "translate_frame packet"
  obtain buf where buf: "store 0 ?f (send_buffer l) = Some buf" "length buf = length (send_buffer l)"
    using store_total [of 0 ?f "send_buffer l"] assms(1) by auto
  have pre: "take (length ?f) buf = ?f" using chunk_store_same [OF buf(1)] by simp
  have "0 < length ?f" by (simp add: translate_frame_def)
  then have "write_loop buf (length ?f) (l\<lparr>send_buffer := buf\<rparr>) =
      Some (int (length ?f), l\<lparr>send_buffer := buf, write_results := ws, sent := sent l @ [?f]\<rparr>)"
    using write_loop_all [of "l\<lparr>send_buffer := buf\<rparr>" "length ?f" ws buf] assms pre buf(2) by simp
  then show ?thesis
    using that buf by (simp add: send_frame_def translate_packet_def)
qed

lemma read_reply_frame:
  assumes "incoming (read_results l) = translate_frame p @ rest" and "length (translate_frame p) = 8"
    and "0x7D \<notin> set p" and "2 \<le> length p" and "8 \<le> length raw" and "8 \<le> length (send_buffer l)"
  obtains l' where "read_reply raw 0 l = Some (mk16 (p ! 0) (p ! 1), l')" "sent l' = sent l"
    "incoming (read_results l') = rest"
proof -
  obtain raw' rs where r: "read_loop raw 0 8 l = Some (raw', 8, l\<lparr>read_results := rs\<rparr>)"
      "store 0 (translate_frame p) raw = Some raw'" "incoming rs = rest"
    using read_loop_incoming [of 8 l 0 raw] assms by auto
  have raw': "take 8 raw' = translate_frame p" "8 \<le> length raw'"
    using chunk_store_same [OF r(2)] length_store [OF r(2)] assms by simp_all
  have lp: "length p \<le> length (send_buffer l)" using length_translate_frame(1) [of p] assms by simp
  obtain buf where buf: "store 0 p (send_buffer l) = Some buf"
    using store_total [of 0 p "send_buffer l"] lp by auto
  have "p = take (length p) buf" using chunk_store_same [OF buf] by simp
  then have "buf ! 0 = p ! 0" "buf ! 1 = p ! 1" using assms(4)
    by (metis nth_take zero_less_numeral order_less_le_trans,
        metis nth_take one_less_numeral_iff semiring_norm(76) order_less_le_trans)
  then show ?thesis
    using that r raw' buf untranslate_plain_frame [OF assms(3,4)]
    by (simp add: read_reply_def load_def untranslate_packet_def)
qed

lemma load_chunk: "off + n \<le> length buf \<Longrightarrow> load off n buf = Some (chunk off n buf)"
  by (simp add: load_def)

text \<open>
  A data message over the UART whose frame the descriptor takes at once, and whose reply is
  any frame of eight bytes, in any pieces: the line carries one HDLC frame that decodes to the
  packet with the data and its CRC, and the result is \<open>0\<close> exactly when the reply's type is ACK (or
  \<open>0\<close>).  The bound is that of the local \<open>uart_buffer\<close>.
\<close>

theorem send_data_message_uart:
  assumes "n \<le> 290" and "n \<le> length buffer"
    and "packet = uart_frame BSL_CMD_MIDST_DATA (take n buffer)"
    and "length (translate_frame packet) \<le> length (send_buffer l)"
    and "write_results l = int (length (translate_frame packet)) # ws"
    and "incoming (read_results l) = translate_frame p @ rest"
    and "length (translate_frame p) = 8" and "0x7D \<notin> set p" and "2 \<le> length p"
  shows "\<exists>l'. send_data_message buffer n 0 l =
      Some (if is_ack (mk16 (p ! 0) (p ! 1)) then 0 else - 1, buffer, l')
    \<and> sent l' = sent l @ [translate_frame packet]
    \<and> hdlc_unescape (translate_body packet) = Some packet
    \<and> incoming (read_results l') = rest"
proof -
  have len_data: "length (take n buffer) = n" using assms(2) by simp
  then obtain u1 where u1: "store 8 (take n buffer) (replicate 300 0) = Some u1" "length u1 = 300"
    using store_total [of 8 "take n buffer" "replicate 300 0"] assms(1) by auto
  have c1: "chunk 8 n u1 = take n buffer"
    using chunk_store_same [OF u1(1)] len_data by metis
  have fits: "n + 10 \<le> length u1" using u1(2) assms(1) by simp
  obtain u2 where u2: "setup_uart_crc BSL_CMD_MIDST_DATA u1 n = Some (u2, n + 6)" "length u2 = 300"
      "chunk 4 (n + 6) u2 = packet"
    using setup_uart_crc_frame [OF fits, of BSL_CMD_MIDST_DATA] c1 u1(2) assms(3) by metis
  obtain l1 where l1: "send_frame packet l = Some (int (length (translate_frame packet)), l1)"
    "sent l1 = sent l @ [translate_frame packet]" "read_results l1 = read_results l"
    "length (send_buffer l1) = length (send_buffer l)"
    using send_frame_all [OF assms(4,5)] by metis
  have "length packet + 2 \<le> length (translate_frame packet)" by (rule length_translate_frame)
  then have len: "8 \<le> length (send_buffer l1)" "0 < length (translate_frame packet)"
    using l1(4) assms(3,4) by auto
  obtain l2 where l2: "read_reply (replicate 32 0) 0 l1 = Some (mk16 (p ! 0) (p ! 1), l2)"
    "sent l2 = sent l1" "incoming (read_results l2) = rest"
    using read_reply_frame [of l1 p rest "replicate 32 0"] assms(6-9) l1(3) len(1) by auto
  have "hdlc_unescape (translate_body packet) = Some packet"
    by (rule hdlc_unescape_translate)
  moreover have "send_data_message buffer n 0 l =
      Some (if is_ack (mk16 (p ! 0) (p ! 1)) then 0 else - 1, buffer, l2)"
    using u1 u2 l1(1) l2(1) len(2) assms(1,2)
    by (simp add: send_data_message_def load_def BSL_UART_PACKET_def)
  ultimately show ?thesis using l1(2) l2 by simp
qed

theorem send_data_message_uart_witness:
  "\<exists>l'. send_data_message [1, 2, 3] 2 0 (\<lparr>send_buffer = replicate 4000 0,
      write_results = [int (length (translate_frame (uart_frame BSL_CMD_MIDST_DATA [1, 2])))],
      read_results = [ReadData [0x7E, 0, 0x80], ReadData [0, 0, 0, 0x80, 0x7E]], sent = []\<rparr>)
    = Some (0, [1, 2, 3], l')
    \<and> sent l' = [translate_frame (uart_frame BSL_CMD_MIDST_DATA [1, 2])]"
proof -
  have "length (translate_frame (uart_frame BSL_CMD_MIDST_DATA [1, 2])) \<le> 4000"
    by (rule order_trans [OF length_translate_frame(2)]) simp
  then show ?thesis
    using send_data_message_uart [of 2 "[1, 2, 3]" "uart_frame BSL_CMD_MIDST_DATA [1, 2]"
        "\<lparr>send_buffer = replicate 4000 0,
          write_results = [int (length (translate_frame (uart_frame BSL_CMD_MIDST_DATA [1, 2])))],
          read_results = [ReadData [0x7E, 0, 0x80], ReadData [0, 0, 0, 0x80, 0x7E]], sent = []\<rparr>"
        "[]" "[0, 0x80, 0, 0, 0, 0x80]" "[]"]
    by (auto simp: translate_frame_def is_ack_def mk16_def)
qed

end
