(* ===== verification/ModemImages.thy ===== *)
theory ModemImages
  imports Prelude
begin

text \<open>
  The image table of \<open>modem_control/modem_boot.c\<close>: \<open>get_modem_images_info\<close> reads
  \<open>/modem_images.info\<close> line by line into the static \<open>line[256]\<close> and fills
  \<open>download_image_info\<close>.  The line is modelled as the array it is, because \<open>strtok_r\<close> writes into it
  and \<open>&length_ptr[2]\<close> may point behind the token; an access outside it is \<^term>\<open>None\<close>.
\<close>

subsection \<open>C strings in an array\<close>

definition c_string :: "bytes \<Rightarrow> nat \<Rightarrow> bytes option" where
  "c_string buf p = (if 0 \<in> set (drop p buf) then Some (takeWhile (\<lambda>c. c \<noteq> 0) (drop p buf)) else None)"

text \<open>\<open>strtok_r\<close>: the new array, the position of the token if there is one, the position to go on at.\<close>

definition strtok_r :: "bytes \<Rightarrow> bytes \<Rightarrow> nat \<Rightarrow> (bytes \<times> nat option \<times> nat) option" where
  "strtok_r buf delim p =
     do { s \<leftarrow> c_string buf p;
          let t = p + length (takeWhile (\<lambda>c. c \<in> set delim) s);
          s \<leftarrow> c_string buf t;
          if s = [] then Some (buf, None, t)
          else let e = t + length (takeWhile (\<lambda>c. c \<notin> set delim) s) in
               if buf ! e = 0 then Some (buf, Some t, e)
               else Some (buf[e := 0], Some t, e + 1) }"

fun hex_digit :: "u8 \<Rightarrow> nat option" where
  "hex_digit c =
     (if 48 \<le> c \<and> c \<le> 57 then Some (unat c - 48)
      else if 97 \<le> c \<and> c \<le> 102 then Some (unat c - 87)
      else if 65 \<le> c \<and> c \<le> 70 then Some (unat c - 55)
      else None)"

fun hex_value :: "nat \<Rightarrow> bytes \<Rightarrow> nat" where
  "hex_value acc [] = acc"
| "hex_value acc (c # s) =
     (case hex_digit c of None \<Rightarrow> acc | Some d \<Rightarrow> hex_value (16 * acc + d) s)"

text \<open>\<open>strtol(s, &end, 16)\<close> on the 32-bit \<open>long\<close>: white space, a sign, an optional \<open>0x\<close>, digits, clamped.\<close>

definition is_space :: "u8 \<Rightarrow> bool" where
  "is_space c \<longleftrightarrow> c = 32 \<or> (9 \<le> c \<and> c \<le> 13)"

definition strip_0x :: "bytes \<Rightarrow> bytes" where
  "strip_0x s =
     (case s of
        z # x # d # _ \<Rightarrow> if z = 48 \<and> (x = 120 \<or> x = 88) \<and> hex_digit d \<noteq> None then drop 2 s else s
      | _ \<Rightarrow> s)"

definition strtol16 :: "bytes \<Rightarrow> int" where
  "strtol16 s =
     (let s = dropWhile is_space s in
      case s of
        [] \<Rightarrow> 0
      | c # s' \<Rightarrow>
          if c = 45 then max (- (2 ^ 31)) (- int (hex_value 0 (strip_0x s')))
          else min (2 ^ 31 - 1) (int (hex_value 0 (strip_0x (if c = 43 then s' else s)))))"

subsection \<open>The table\<close>

record image_info =
  image_path :: "bytes option"
  image_size :: int
  address :: u32

text \<open>The paths are \<open>/dev/mtd/mtd3\<close>, \<open>/fixnv/fixnv.bin\<close>, \<open>/dev/mtd/mtd7\<close>, \<open>/dev/mtd/mtd19\<close> and
  \<open>/runtimenv/runtimenv.bin\<close>.\<close>

definition ascii :: "string \<Rightarrow> bytes" where
  "ascii s = List.map (\<lambda>c. of_nat (of_char c)) s"

definition download_image_info :: "image_info list" where
  "download_image_info =
     [\<lparr>image_path = Some (ascii ''/dev/mtd/mtd3''), image_size = 0x3000, address = 0x40000000\<rparr>,
      \<lparr>image_path = Some (ascii ''/fixnv/fixnv.bin''), image_size = 0x1E000, address = 0x400\<rparr>,
      \<lparr>image_path = Some (ascii ''/fixnv/fixnv.bin''), image_size = 0x1E000, address = 0x02100000\<rparr>,
      \<lparr>image_path = Some (ascii ''/dev/mtd/mtd7''), image_size = 0x200000, address = 0x00020000\<rparr>,
      \<lparr>image_path = Some (ascii ''/dev/mtd/mtd19''), image_size = 0x009F8000, address = 0x00400000\<rparr>,
      \<lparr>image_path = Some (ascii ''/runtimenv/runtimenv.bin''), image_size = 0x20000, address = 0x02120000\<rparr>,
      \<lparr>image_path = None, image_size = 0, address = 0\<rparr>]"

record image_table =
  images :: "image_info list"
  modem_images_count :: nat
  uart_dev :: "bytes option"

definition initial_table :: image_table where
  "initial_table = \<lparr>images = download_image_info, modem_images_count = 6,
     uart_dev = Some (ascii ''/dev/ttyS1'')\<rparr>"

subsection \<open>\<open>get_modem_images_info\<close>\<close>

datatype line_result = LineSkip | LineStop | LineImage bytes int u32

text \<open>
  One line: \<open>fgets\<close> has stored the text and its NUL; the last character is cut, comments and empty
  lines are skipped, three tokens are taken, and the first two characters of the numbers skipped.
\<close>

definition parse_line :: "bytes \<Rightarrow> bytes \<Rightarrow> (bytes \<times> line_result) option" where
  "parse_line line text =
     do { line \<leftarrow> store 0 (text @ [0]) line;
          s \<leftarrow> c_string line 0;
          line \<leftarrow> (if s = [] then None else Some (line[length s - 1 := 0]));
          if line ! 0 = 35 \<or> line ! 0 = 0 then Some (line, LineSkip)
          else do {
            (line, filename, p) \<leftarrow> strtok_r line [32, 9] 0;
            case filename of None \<Rightarrow> Some (line, LineStop) | Some filename \<Rightarrow> do {
              (line, length_ptr, p) \<leftarrow> strtok_r line [32, 9] p;
              case length_ptr of None \<Rightarrow> Some (line, LineStop) | Some length_ptr \<Rightarrow> do {
                (line, address_ptr, p) \<leftarrow> strtok_r line [32, 9] p;
                case address_ptr of None \<Rightarrow> Some (line, LineStop) | Some address_ptr \<Rightarrow> do {
                  path \<leftarrow> c_string line filename;
                  len \<leftarrow> c_string line (length_ptr + 2);
                  addr \<leftarrow> c_string line (address_ptr + 2);
                  Some (line, LineImage path (strtol16 len) (of_int (strtol16 addr))) }}}}}"

fun get_images_loop ::
    "bytes list \<Rightarrow> bytes \<Rightarrow> nat \<Rightarrow> image_table \<Rightarrow> (nat \<times> image_table) option" where
  "get_images_loop [] line images_count t = Some (images_count, t)"
| "get_images_loop (text # file) line images_count t =
     do { (line, r) \<leftarrow> parse_line line text;
          case r of
            LineSkip \<Rightarrow> get_images_loop file line images_count t
          | LineStop \<Rightarrow> Some (images_count, t)
          | LineImage path sz addr \<Rightarrow>
              let t = t\<lparr>images := (images t)[images_count :=
                \<lparr>image_path = Some path, image_size = sz, address = addr\<rparr>]\<rparr>;
                t' = (if addr = 0 \<or> sz = 0 then t\<lparr>uart_dev := Some path\<rparr> else t);
                n' = (if addr = 0 \<or> sz = 0 then images_count else images_count + 1) in
              if n' \<ge> length download_image_info then Some (n', t')
              else get_images_loop file line n' t' }"

text \<open>The lines are what \<open>fgets\<close> delivers; \<^term>\<open>None\<close> is a file that cannot be opened.\<close>

definition get_modem_images_info :: "bytes list option \<Rightarrow> image_table \<Rightarrow> (nat \<times> image_table) option" where
  "get_modem_images_info file t =
     (case file of
        None \<Rightarrow> Some (0, t)
      | Some lines \<Rightarrow>
          do { (n, t) \<leftarrow> get_images_loop lines (replicate 256 0) 0 t;
               Some (n, t\<lparr>modem_images_count := n\<rparr>) })"

subsection \<open>Strings and tokens\<close>

lemma c_string_at:
  "0 \<notin> set s \<Longrightarrow> p = length pre \<Longrightarrow> c_string (pre @ s @ 0 # post) p = Some s"
  by (induction s) (auto simp: c_string_def)

lemma takeWhile_run:
  "\<forall>c \<in> set xs. P c \<Longrightarrow> \<not> P y \<Longrightarrow> takeWhile P (xs @ y # zs) = xs"
  by (induction xs) auto

lemma strtok_r_token:
  assumes "set ds \<subseteq> set delim" and "set tok \<inter> set delim = {}" and "tok \<noteq> []" and "d \<in> set delim"
    and "0 \<notin> set (ds @ tok @ d # s)" and "p = length pre"
  shows "strtok_r (pre @ ds @ tok @ d # s @ 0 # post) delim p =
    Some (pre @ ds @ tok @ 0 # s @ 0 # post, Some (p + length ds), p + length ds + length tok + 1)"
proof -
  let ?b = "pre @ ds @ tok @ d # s @ 0 # post"
  obtain c tok' where tok: "tok = c # tok'" using assms(3) by (cases tok) auto
  have "c_string ?b p = Some (ds @ tok @ d # s)"
    using c_string_at [of "ds @ tok @ d # s" p pre post] assms(5,6) by simp
  moreover have "takeWhile (\<lambda>c. c \<in> set delim) (ds @ tok @ d # s) = ds"
    using assms(1,2) tok by (auto intro!: takeWhile_run)
  moreover have "c_string ?b (p + length ds) = Some (tok @ d # s)"
    using c_string_at [of "tok @ d # s" "p + length ds" "pre @ ds" post] assms(5,6) by simp
  moreover have "takeWhile (\<lambda>c. c \<notin> set delim) (tok @ d # s) = tok"
    using assms(2,4) by (auto intro!: takeWhile_run)
  moreover have "?b ! (p + length ds + length tok) = d"
    using assms(6) nth_append_length [of "pre @ ds @ tok" d "s @ 0 # post"] by (simp add: add.assoc)
  moreover have "?b[p + length ds + length tok := 0] = pre @ ds @ tok @ 0 # s @ 0 # post"
    using assms(6) list_update_length [of "pre @ ds @ tok" d "s @ 0 # post" 0] by (simp add: add.assoc)
  moreover have "d \<noteq> 0" using assms(5) by auto
  ultimately show ?thesis using assms(3) by (simp add: strtok_r_def Let_def del: append_assoc)
qed

lemma strtok_r_last:
  assumes "set ds \<subseteq> set delim" and "set tok \<inter> set delim = {}" and "tok \<noteq> []" and "0 \<notin> set delim"
    and "0 \<notin> set (ds @ tok)" and "p = length pre"
  shows "strtok_r (pre @ ds @ tok @ 0 # post) delim p =
    Some (pre @ ds @ tok @ 0 # post, Some (p + length ds), p + length ds + length tok)"
proof -
  let ?b = "pre @ ds @ tok @ 0 # post"
  obtain c tok' where tok: "tok = c # tok'" using assms(3) by (cases tok) auto
  have "c_string ?b p = Some (ds @ tok)"
    using c_string_at [of "ds @ tok" p pre post] assms(5,6) by simp
  moreover have "takeWhile (\<lambda>c. c \<in> set delim) (ds @ tok) = ds"
    using assms(1,2) tok by (auto intro!: takeWhile_run)
  moreover have "c_string ?b (p + length ds) = Some tok"
    using c_string_at [of tok "p + length ds" "pre @ ds" post] assms(5,6) by simp
  moreover have "takeWhile (\<lambda>c. c \<notin> set delim) tok = tok"
    using assms(2) by (auto simp: takeWhile_eq_all_conv)
  moreover have "?b ! (p + length ds + length tok) = 0"
    using assms(6) nth_append_length [of "pre @ ds @ tok" 0 post] by (simp add: add.assoc)
  ultimately show ?thesis using assms(3) by (simp add: strtok_r_def Let_def del: append_assoc takeWhile_eq_all_conv)
qed

subsection \<open>Numbers\<close>

definition hex_char :: "nat \<Rightarrow> u8" where
  "hex_char d = (if d < 10 then of_nat (48 + d) else of_nat (87 + d))"

fun hex_text :: "nat \<Rightarrow> bytes" where
  "hex_text n = (if n < 16 then [hex_char n] else hex_text (n div 16) @ [hex_char (n mod 16)])"

declare hex_text.simps [simp del]

lemma hex_char_cases:
  assumes "d < 16"
  shows "hex_digit (hex_char d) = Some d" "hex_char d \<notin> {0, 9, 10, 32, 43, 45, 120, 88}"
    "\<not> is_space (hex_char d)"
proof -
  have *: "d = 0 \<or> d = 1 \<or> d = 2 \<or> d = 3 \<or> d = 4 \<or> d = 5 \<or> d = 6 \<or> d = 7 \<or> d = 8 \<or> d = 9
    \<or> d = 10 \<or> d = 11 \<or> d = 12 \<or> d = 13 \<or> d = 14 \<or> d = 15"
    using assms by presburger
  then show "hex_digit (hex_char d) = Some d"
    by (elim disjE) (simp_all add: hex_char_def)
  from * show "hex_char d \<notin> {0, 9, 10, 32, 43, 45, 120, 88}"
    by (elim disjE) (simp_all add: hex_char_def)
  from * show "\<not> is_space (hex_char d)"
    by (elim disjE) (simp_all add: hex_char_def is_space_def)
qed

lemma hex_value_append:
  "\<forall>c \<in> set s. hex_digit c \<noteq> None \<Longrightarrow> hex_value acc (s @ t) = hex_value (hex_value acc s) t"
  by (induction s arbitrary: acc) (auto simp del: hex_digit.simps)

lemma hex_text_chars: "\<exists>ds. hex_text n = List.map hex_char ds \<and> ds \<noteq> [] \<and> (\<forall>d \<in> set ds. d < 16)"
proof (induction n rule: hex_text.induct)
  case (1 n)
  show ?case
  proof (cases "n < 16")
    case True
    then show ?thesis by (intro exI [of _ "[n]"]) (simp add: hex_text.simps)
  next
    case False
    then obtain ds where "hex_text (n div 16) = List.map hex_char ds" "ds \<noteq> []" "\<forall>d \<in> set ds. d < 16"
      using 1 by blast
    with False show ?thesis
      by (intro exI [of _ "ds @ [n mod 16]"]) (auto simp: hex_text.simps [of n])
  qed
qed

lemma hex_text_set: "c \<in> set (hex_text n) \<Longrightarrow> hex_digit c \<noteq> None \<and> c \<notin> {0, 9, 10, 32, 43, 45, 120, 88} \<and> \<not> is_space c"
  using hex_text_chars [of n] hex_char_cases by (auto simp del: hex_digit.simps)

lemma hex_text_ne: "hex_text n \<noteq> []"
  using hex_text_chars [of n] by auto

lemma hex_value_text: "hex_value 0 (hex_text n) = n"
proof (induction n rule: hex_text.induct)
  case (1 n)
  show ?case
  proof (cases "n < 16")
    case True
    then show ?thesis by (simp add: hex_text.simps hex_char_cases del: hex_digit.simps)
  next
    case False
    then have "hex_value 0 (hex_text (n div 16)) = n div 16" using 1 by blast
    with False show ?thesis
      using hex_value_append [of "hex_text (n div 16)" 0] hex_text_set
      by (simp add: hex_text.simps [of n] hex_char_cases del: hex_digit.simps)
  qed
qed

lemma strip_0x_text: "strip_0x (hex_text n) = hex_text n"
proof -
  have "x \<noteq> 120 \<and> x \<noteq> 88" if "hex_text n = z # x # r" for z x r
    using hex_text_set [of x n] that by auto
  then show ?thesis by (auto simp: strip_0x_def split: list.split simp del: hex_digit.simps)
qed

lemma strtol16_text: "n < 2 ^ 31 \<Longrightarrow> strtol16 (hex_text n) = int n"
proof -
  assume n: "n < 2 ^ 31"
  obtain c s where cs: "hex_text n = c # s" using hex_text_ne [of n] by (cases "hex_text n") auto
  then have c: "\<not> is_space c" "c \<noteq> 45" "c \<noteq> 43" using hex_text_set [of c n] by auto
  then have "dropWhile is_space (hex_text n) = hex_text n" by (simp add: cs)
  then have "strtol16 (hex_text n) = min (2 ^ 31 - 1) (int (hex_value 0 (strip_0x (hex_text n))))"
    using c by (simp add: strtol16_def cs)
  then show ?thesis using n by (simp add: strip_0x_text hex_value_text)
qed

subsection \<open>The format of the file\<close>

text \<open>A line of \<open>modem_images.info\<close>: path, length and address in hexadecimal.\<close>

definition image_line :: "bytes \<Rightarrow> nat \<Rightarrow> nat \<Rightarrow> bytes" where
  "image_line path len addr =
     path @ 32 # (48 # 120 # hex_text len) @ 32 # (48 # 120 # hex_text addr) @ [10]"

text \<open>
  A well-formed line that fits the buffer is read back: the parser returns its path and its two
  numbers, whatever an earlier line has left in the buffer.  The numbers must be below \<open>2^31\<close>:
  \<open>strtol\<close> clamps the others.
\<close>

theorem parse_line_image_line:
  assumes "path \<noteq> []" and "set path \<inter> {0, 9, 32} = {}" and "hd path \<noteq> 35"
    and "len < 2 ^ 31" and "addr < 2 ^ 31"
    and "length (image_line path len addr) < length line"
  shows "\<exists>line'. parse_line line (image_line path len addr) =
    Some (line', LineImage path (int len) (of_nat addr))"
proof -
  let ?L = "48 # 120 # hex_text len" and ?A = "48 # 120 # hex_text addr"
  let ?text = "image_line path len addr"
  define post where "post = drop (length ?text + 1) line"
  define b3 where "b3 = path @ 0 # ?L @ 0 # ?A @ 0 # 0 # post"
  have hex: "0 \<notin> set (hex_text n)" "32 \<notin> set (hex_text n)" "9 \<notin> set (hex_text n)" for n
    using hex_text_set [of _ n] by blast+
  have np: "0 \<notin> set path" "32 \<notin> set path" "9 \<notin> set path" using assms(2) by auto
  have tx: "?text = (path @ 32 # ?L @ 32 # ?A) @ [10]" by (simp add: image_line_def)
  have st: "store 0 (?text @ [0]) line = Some (?text @ 0 # post)"
    using assms(6) by (simp add: store_def post_def)
  have nul: "0 \<notin> set ?text" using np hex by (simp add: image_line_def)
  have cut: "(?text @ 0 # post)[length ?text - 1 := 0] = path @ 32 # ?L @ 32 # ?A @ 0 # 0 # post"
    unfolding tx using list_update_length [of "path @ 32 # ?L @ 32 # ?A" 10 "0 # post" 0] by simp
  obtain c path' where path: "path = c # path'" using assms(1) by (cases path) auto
  have hd: "(path @ zs) ! 0 \<noteq> 35" "(path @ zs) ! 0 \<noteq> 0" for zs
    using assms(3) np path by auto
  have t1: "strtok_r (path @ 32 # ?L @ 32 # ?A @ 0 # 0 # post) [32, 9] 0 =
      Some (path @ 0 # ?L @ 32 # ?A @ 0 # 0 # post, Some 0, length path + 1)"
    using strtok_r_token [of "[]" "[32, 9]" path 32 "?L @ 32 # ?A" 0 "[]" "0 # post"] assms(1) np hex
    by simp
  have t2: "strtok_r (path @ 0 # ?L @ 32 # ?A @ 0 # 0 # post) [32, 9] (length path + 1) =
      Some (b3, Some (length path + 1), length path + 1 + length ?L + 1)"
    using strtok_r_token [of "[]" "[32, 9]" ?L 32 ?A "length path + 1" "path @ [0]" "0 # post"] hex
    by (simp add: b3_def)
  have t3: "strtok_r b3 [32, 9] (length path + 1 + length ?L + 1) =
      Some (b3, Some (length path + 1 + length ?L + 1), length path + 1 + length ?L + 1 + length ?A)"
    using strtok_r_last [of "[]" "[32, 9]" ?A "length path + 1 + length ?L + 1" "path @ 0 # ?L @ [0]"
        "0 # post"] hex
    by (simp add: b3_def)
  have p1: "c_string b3 0 = Some path"
    using c_string_at [of path 0 "[]"] np by (simp add: b3_def)
  have p2: "c_string b3 (length path + 1 + 2) = Some (hex_text len)"
    using c_string_at [of "hex_text len" "length path + 1 + 2" "path @ [0, 48, 120]"] hex
    by (simp add: b3_def)
  have p3: "c_string b3 (length path + 1 + length ?L + 1 + 2) = Some (hex_text addr)"
    using c_string_at [of "hex_text addr" "length path + 1 + length ?L + 1 + 2"
        "path @ 0 # ?L @ [0, 48, 120]" "0 # post"] hex
    by (simp add: b3_def)
  have "c_string (?text @ 0 # post) 0 = Some ?text"
    using c_string_at [of ?text 0 "[]" post] nul by simp
  moreover have "?text \<noteq> []" by (simp add: image_line_def)
  ultimately have "parse_line line ?text =
      Some (b3, LineImage path (strtol16 (hex_text len)) (of_int (strtol16 (hex_text addr))))"
    unfolding parse_line_def st bind.bind_lunit cut
    by (simp only: cut t1 t2 t3 p1 p2 p3 hd bind.bind_lunit prod.case option.case simp_thms if_False)
  then show ?thesis using assms(4,5) by (simp add: strtol16_text)
qed

theorem parse_line_image_line_witness:
  "\<exists>line'. parse_line (replicate 256 7) (image_line [47, 97] 0x3000 0x40000000) =
    Some (line', LineImage [47, 97] 0x3000 0x40000000)"
  using parse_line_image_line [of "[47, 97]" "0x3000" "0x40000000" "replicate 256 7"]
  by (simp add: image_line_def hex_text.simps)

subsection \<open>The table\<close>

definition table_ok :: "nat \<Rightarrow> image_table \<Rightarrow> bool" where
  "table_ok n t \<longleftrightarrow> length (images t) = 7 \<and> n \<le> 7
     \<and> (\<forall>i < n. image_size (images t ! i) \<noteq> 0 \<and> address (images t ! i) \<noteq> 0 \<and> image_path (images t ! i) \<noteq> None)"

lemma get_images_loop_ok:
  assumes "get_images_loop file line n t = Some (n', t')" and "table_ok n t" and "n < 7"
  shows "table_ok n' t'"
  using assms
proof (induction "file" arbitrary: "line" n t)
  case Nil
  then show ?case by simp
next
  case (Cons ln fl)
  then obtain line' r where r: "parse_line line ln = Some (line', r)"
    by (auto split: Option.bind_splits)
  show ?case
  proof (cases r)
    case (LineImage path sz addr)
    define t1 where "t1 = t\<lparr>images := (images t)[n := \<lparr>image_path = Some path, image_size = sz, address = addr\<rparr>]\<rparr>"
    define t2 where "t2 = (if addr = 0 \<or> sz = 0 then t1\<lparr>uart_dev := Some path\<rparr> else t1)"
    define n2 where "n2 = (if addr = 0 \<or> sz = 0 then n else n + 1)"
    have ok: "table_ok n2 t2"
      using Cons.prems(2,3) by (auto simp: table_ok_def t1_def t2_def n2_def nth_list_update less_Suc_eq)
    have seven: "length download_image_info = 7" by (simp add: download_image_info_def)
    have "get_images_loop (ln # fl) line n t =
        (if n2 \<ge> 7 then Some (n2, t2) else get_images_loop fl line' n2 t2)"
      using r LineImage by (simp add: seven Let_def t1_def t2_def n2_def)
    then show ?thesis using Cons.IH Cons.prems(1) ok by (auto split: if_splits)
  qed (use Cons r in auto)
qed

text \<open>
  Whatever the file holds, when it has been read the table still has its seven entries, the
  count is at most seven, and every entry below the count has a path, a size and an address that
  are not zero.
\<close>

theorem get_modem_images_info_table:
  assumes "get_modem_images_info (Some file) initial_table = Some (n, t)"
  shows "length (images t) = 7 \<and> n \<le> 7 \<and> modem_images_count t = n
    \<and> (\<forall>i < n. image_size (images t ! i) \<noteq> 0 \<and> address (images t ! i) \<noteq> 0
        \<and> image_path (images t ! i) \<noteq> None)"
proof -
  from assms obtain t0 where l: "get_images_loop file (replicate 256 0) 0 initial_table = Some (n, t0)"
    and t: "t = t0\<lparr>modem_images_count := n\<rparr>"
    by (auto simp: get_modem_images_info_def split: Option.bind_splits)
  have "table_ok 0 initial_table"
    by (simp add: table_ok_def initial_table_def download_image_info_def)
  then have "table_ok n t0" using get_images_loop_ok [OF l] by simp
  then show ?thesis by (simp add: table_ok_def t)
qed

theorem get_modem_images_info_table_witness:
  "\<exists>t. get_modem_images_info (Some [[35, 10]]) initial_table = Some (0, t) \<and> length (images t) = 7"
proof -
  have r: "get_modem_images_info (Some [[35, 10]]) initial_table =
      Some (0, initial_table\<lparr>modem_images_count := 0\<rparr>)"
    by (simp add: get_modem_images_info_def parse_line_def store_def c_string_def)
  show ?thesis using get_modem_images_info_table [OF r] r by blast
qed

end
