(* ===== verification/ModemBoot.thy ===== *)
theory ModemBoot
  imports PacketLink ModemImages "HOL-Library.Signed_Division"
begin

text \<open>
  The boot sequence of \<open>modem_control/modem_boot.c\<close>: the handshake on the UART, the download of the
  boot loader over the UART and of the images over SPI.  Delays, termios settings and console output
  are left out.  An open image file is the list of results its reads will have, after which it is at
  its end; \<open>files\<close> maps the path of every file that can be opened to that list.
\<close>

definition FDL_PACKET_SIZE :: nat where "FDL_PACKET_SIZE = 256"
definition HS_PACKET_SIZE :: nat where "HS_PACKET_SIZE = 60 * 1024"
definition DL_FAILURE :: int where "DL_FAILURE = - 1"
definition DL_SUCCESS :: int where "DL_SUCCESS = 0"
definition UART_TIMEOUT :: int where "UART_TIMEOUT = 200"

type_synonym files = "bytes \<Rightarrow> read_result list option"

text \<open>\<open>read(fd, buffer, sz)\<close> on a file.\<close>

fun file_read :: "nat \<Rightarrow> read_result list \<Rightarrow> read_result \<times> read_result list" where
  "file_read sz [] = (ReadData [], [])"
| "file_read sz (ReadError # f) = (ReadError, f)"
| "file_read sz (ReadData bs # f) =
     (ReadData (take sz bs), if sz < length bs then ReadData (drop sz bs) # f else f)"

subsection \<open>The state\<close>

record boot =
  table :: image_table
  test_buffer :: bytes
  boot_status :: int
  need_shutdown :: int
  modem_power :: "bytes list"
  uart :: link
  spi :: link
  uart_opens :: "int list"
  dloader_opens :: "int list"

text \<open>\<open>has_power\<close>: whether the power file can be opened.  Each write is two bytes, digit and NUL.\<close>

definition reset_modem :: "bool \<Rightarrow> boot \<Rightarrow> boot" where
  "reset_modem has_power s =
     (if \<not> has_power then s
      else s\<lparr>modem_power := modem_power s @ (if need_shutdown s = 1 then [[48, 0]] else []) @ [[49, 0]],
             need_shutdown := 1\<rparr>)"

subsection \<open>The handshake\<close>

text \<open>
  The wait for the first \<open>0x55\<close>: at most two million one-byte reads, three flag bytes written after
  every thousand.  The result is \<open>i\<close>.
\<close>

function wait_sync :: "nat \<Rightarrow> link \<Rightarrow> (nat \<times> link) option" where
  "wait_sync i l =
     (case link_read (Suc 0) l of
        None \<Rightarrow> None
      | Some (r, l) \<Rightarrow>
          let i = i + 1 in
          if r = ReadData [0x55] then Some (i, l)
          else case (if i mod 1000 = 0 then map_option snd (link_write [0x7E, 0x7E, 0x7E] l) else Some l) of
                 None \<Rightarrow> None
               | Some l \<Rightarrow> if i < 2000000 then wait_sync i l else Some (i, l))"
  by pat_completeness auto
termination
  by (relation "measure (\<lambda>(i, l). pending (read_results l))")
    (auto dest!: link_read_pending_1 link_write_reads split: if_splits)

declare wait_sync.simps [simp del]

text \<open>
  The version string, read to its closing flag.  \<open>data\<close> is an index of the 64 bytes of
  \<open>int buffer[16]\<close>; the code does not check it.
\<close>

function read_version :: "nat \<Rightarrow> int \<Rightarrow> link \<Rightarrow> (int \<times> link) option" where
  "read_version data modem_connect l =
     (if 64 \<le> data then None else
      case link_read (Suc 0) l of
        None \<Rightarrow> None
      | Some (ReadData [c], l) \<Rightarrow>
          if c = 0x7E then Some (1, l)
          else if modem_connect < UART_TIMEOUT then read_version (data + 1) modem_connect l
          else Some (modem_connect, l)
      | Some (_, l) \<Rightarrow>
          let modem_connect = modem_connect + 2 in
          if modem_connect < UART_TIMEOUT then read_version data modem_connect l
          else Some (modem_connect, l))"
  by pat_completeness auto
termination
  by (relation "measure (\<lambda>(d, m, l). pending (read_results l))") (auto dest!: link_read_pending_1)

declare read_version.simps [simp del]

text \<open>One round of the loop after the wait: the flag is sent and the answer, if there is one, examined.\<close>

definition hand_shake :: "int \<Rightarrow> link \<Rightarrow> (int \<times> link) option" where
  "hand_shake modem_connect l =
     (case link_write [0x7E] l of
        None \<Rightarrow> None
      | Some (_, l) \<Rightarrow>
          (case link_read (Suc 0) l of
             None \<Rightarrow> None
           | Some (ReadData [c], l) \<Rightarrow>
               if c = 0x7E then read_version 1 0 l
               else if c = 0x55 then
                 map_option (\<lambda>(_, l). (modem_connect + 42, l)) (link_write [0x7E, 0x7E, 0x7E] l)
               else Some (modem_connect + 2, l)
           | Some (_, l) \<Rightarrow> Some (modem_connect, l)))"

lemma wait_sync_pending:
  "wait_sync i l = Some (i', l') \<Longrightarrow> pending (read_results l') < pending (read_results l)"
proof (induction i l rule: wait_sync.induct)
  case (1 i l)
  from "1.prems" obtain r l1 where r: "link_read (Suc 0) l = Some (r, l1)"
    by (auto simp: wait_sync.simps [of i l] split: option.splits)
  note less = link_read_pending_1 [OF r]
  show ?case
  proof (cases "r = ReadData [0x55]")
    case True
    then show ?thesis using "1.prems" r less by (simp add: wait_sync.simps [of i l])
  next
    case False
    define w where "w = (if Suc i mod 1000 = 0 then map_option snd (link_write [0x7E, 0x7E, 0x7E] l1) else Some l1)"
    from "1.prems" r False obtain l2 where l2: "w = Some l2"
      and rest: "(if Suc i < 2000000 then wait_sync (Suc i) l2 else Some (Suc i, l2)) = Some (i', l')"
      by (simp add: wait_sync.simps [of i l] w_def Let_def split: option.splits)
    have "read_results l2 = read_results l1"
      using l2 by (auto simp: w_def dest: link_write_reads split: if_splits)
    with less have "pending (read_results l2) < pending (read_results l)" by simp
    moreover have "Suc i < 2000000 \<Longrightarrow> pending (read_results l') < pending (read_results l2)"
      using "1.IH" [OF r refl refl False, of l2, simplified] rest l2 by (simp add: w_def)
    ultimately show ?thesis using rest by (auto split: if_splits)
  qed
qed

lemma read_version_pending:
  "read_version d m l = Some (m', l') \<Longrightarrow> pending (read_results l') < pending (read_results l)"
proof (induction d m l rule: read_version.induct)
  case (1 d m l)
  from "1.prems" obtain r l1 where r: "link_read (Suc 0) l = Some (r, l1)" and d: "\<not> 64 \<le> d"
    by (auto simp: read_version.simps [of d m l] split: option.splits if_splits)
  note less = link_read_pending_1 [OF r]
  show ?case
    using "1.prems" r d less "1.IH" [OF d r refl]
    by (auto simp: read_version.simps [of d m l] Let_def split: if_splits read_result.splits list.splits)
      (meson order_less_trans)+
qed

lemma hand_shake_pending:
  "hand_shake m l = Some (m', l') \<Longrightarrow> pending (read_results l') < pending (read_results l)"
  by (auto simp: hand_shake_def split: option.splits if_splits read_result.splits list.splits
      dest!: link_read_pending_1 link_write_reads read_version_pending)

text \<open>\<open>try_to_connect_modem\<close>: the endless loop, left when a version string has been received.\<close>

function try_to_connect_loop :: "bool \<Rightarrow> int \<Rightarrow> boot \<Rightarrow> boot option" where
  "try_to_connect_loop has_power modem_connect s =
     (let fresh = (boot_status s = 0 \<and> modem_connect \<ge> UART_TIMEOUT);
          s = (if fresh then reset_modem has_power s else s) in
      case (if fresh then wait_sync 0 (uart s) else Some (0, uart s)) of
        None \<Rightarrow> None
      | Some (i, l) \<Rightarrow>
          if fresh \<and> i \<ge> 2000000 then try_to_connect_loop has_power modem_connect (s\<lparr>uart := l\<rparr>)
          else (case hand_shake (if fresh then 0 else modem_connect) l of
                  None \<Rightarrow> None
                | Some (modem_connect, l) \<Rightarrow>
                    if modem_connect = 1 then Some (s\<lparr>uart := l\<rparr>)
                    else try_to_connect_loop has_power (modem_connect + 2) (s\<lparr>uart := l\<rparr>)))"
  by pat_completeness auto
termination
  by (relation "measure (\<lambda>(_, _, s). pending (read_results (uart s)))")
    (auto simp: reset_modem_def dest!: wait_sync_pending hand_shake_pending split: if_splits)

declare try_to_connect_loop.simps [simp del]

definition try_to_connect_modem :: "bool \<Rightarrow> boot \<Rightarrow> boot option" where
  "try_to_connect_modem has_power s = try_to_connect_loop has_power UART_TIMEOUT s"

subsection \<open>An image over SPI\<close>

text \<open>The inner read loop of \<open>download_image\<close>: it ends early at the end of the file and on an error.\<close>

function read_packet :: "nat \<Rightarrow> nat \<Rightarrow> bytes \<Rightarrow> read_result list \<Rightarrow> (bytes \<times> read_result list) option" where
  "read_packet off packet_size buf f =
     (case file_read packet_size f of
        (ReadData bs, f) \<Rightarrow>
          if bs = [] then Some (buf, f)
          else (case store off bs buf of
                  None \<Rightarrow> None
                | Some buf \<Rightarrow>
                    if packet_size - length bs > 0
                    then read_packet (off + length bs) (packet_size - length bs) buf f
                    else Some (buf, f))
      | (ReadError, f) \<Rightarrow> Some (buf, f))"
  by pat_completeness auto
termination
  by (relation "measure (\<lambda>(_, n, _, _). n)") auto

declare read_packet.simps [simp del]

lemma read_loop_writes:
  "read_loop raw off n l = Some (raw', off', l') \<Longrightarrow> write_results l' = write_results l \<and> sent l' = sent l"
proof (induction raw off n l rule: read_loop.induct)
  case (1 raw off n l)
  from "1.prems" obtain r l1 where r: "link_read n l = Some (r, l1)"
    by (auto simp: read_loop.simps [of raw off n l] split: option.splits)
  have l1: "write_results l1 = write_results l \<and> sent l1 = sent l"
    using r by (auto simp: link_read_def split: list.splits read_result.splits)
  show ?case
  proof (cases r)
    case ReadError
    then show ?thesis
      using "1.prems" r l1 "1.IH"(1) [OF r refl ReadError]
      by (auto simp: read_loop.simps [of raw off n l] split: if_splits)
  next
    case (ReadData bs)
    from "1.prems" r ReadData obtain raw1 where "store off bs raw = Some raw1"
      by (auto simp: read_loop.simps [of raw off n l] split: Option.bind_splits)
    then show ?thesis
      using "1.prems" r l1 ReadData "1.IH"(2) [OF r refl ReadData, of raw1]
      by (auto simp: read_loop.simps [of raw off n l] split: if_splits)
  qed
qed

lemma read_reply_writes: "read_reply raw flag l = Some (ty, l') \<Longrightarrow> write_results l' = write_results l"
  by (auto simp: read_reply_def dest!: read_loop_writes split: if_splits Option.bind_splits)

lemma link_write_fewer: "link_write bs l = Some (r, l') \<Longrightarrow> length (write_results l') < length (write_results l)"
  by (auto simp: link_write_def Let_def split: list.splits)

lemma send_data_message_fewer:
  assumes "send_data_message buf n 1 l = Some (ret, buf', l')"
  shows "length (write_results l') < length (write_results l)"
  using assms by (auto simp: send_data_message_def dest!: read_reply_writes link_write_fewer
      split: if_splits Option.bind_splits)

text \<open>
  The packets of an image.  The padding loop uses the packet counter \<open>i\<close> again, so after a padded
  packet the counter is \<^const>\<open>HS_PACKET_SIZE\<close>.
\<close>

function image_loop ::
    "nat \<Rightarrow> nat \<Rightarrow> nat \<Rightarrow> read_result list \<Rightarrow> bytes \<Rightarrow> link \<Rightarrow> (int \<times> bytes \<times> link) option" where
  "image_loop i count img_size f buf l =
     (if i < count then
        (case read_packet 8 HS_PACKET_SIZE buf f of
           None \<Rightarrow> None
         | Some (buf, f) \<Rightarrow>
        (case (if img_size < HS_PACKET_SIZE
               then store (8 + img_size) (replicate (HS_PACKET_SIZE - img_size) 0xFF) buf
               else Some buf) of
           None \<Rightarrow> None
         | Some buf \<Rightarrow>
             let i = (if img_size < HS_PACKET_SIZE then HS_PACKET_SIZE else i);
                 img_size = (if img_size < HS_PACKET_SIZE then 0 else img_size - HS_PACKET_SIZE) in
        (case send_data_message buf HS_PACKET_SIZE 1 l of
           None \<Rightarrow> None
         | Some (ret, buf, l) \<Rightarrow>
             if ret \<noteq> DL_SUCCESS then Some (DL_FAILURE, buf, l)
             else image_loop (i + 1) count img_size f buf l)))
      else Some (DL_SUCCESS, buf, l))"
  by pat_completeness auto
termination
  by (relation "measure (\<lambda>(_, _, _, _, _, l). length (write_results l))")
    (auto dest: send_data_message_fewer split: if_splits)

declare image_loop.simps [simp del]

text \<open>The number of packets is computed with \<open>int\<close>: a size near the end of the type overflows, which is undefined.\<close>

definition download_image :: "files \<Rightarrow> image_info \<Rightarrow> boot \<Rightarrow> (int \<times> boot) option" where
  "download_image files info s =
     (case image_path info of
        None \<Rightarrow> Some (DL_SUCCESS, s)
      | Some path \<Rightarrow>
     (case files path of
        None \<Rightarrow> Some (DL_SUCCESS, s)
      | Some f \<Rightarrow>
          let count = (image_size info + int HS_PACKET_SIZE - 1) sdiv int HS_PACKET_SIZE in
          if 2 ^ 31 \<le> image_size info + int HS_PACKET_SIZE - 1 then None
          else do { (ret, l) \<leftarrow> send_start_message (of_int (count * int HS_PACKET_SIZE)) (address info) 1 (spi s);
               if ret \<noteq> DL_SUCCESS then Some (DL_FAILURE, s\<lparr>spi := l\<rparr>)
               else do {
                 (ret, buf, l) \<leftarrow> image_loop 0 (nat count) (nat (image_size info)) f (test_buffer s) l;
                 if ret \<noteq> DL_SUCCESS then Some (DL_FAILURE, s\<lparr>test_buffer := buf, spi := l\<rparr>)
                 else do {
                   (ret, l) \<leftarrow> send_end_message 1 l;
                   Some (ret, s\<lparr>test_buffer := buf, spi := l\<rparr>) }}}))"

text \<open>\<open>ret\<close> is not initialised in \<open>download_images\<close>: its value is the argument \<open>ret\<close>.\<close>

fun download_list :: "files \<Rightarrow> image_info list \<Rightarrow> int \<Rightarrow> boot \<Rightarrow> (int \<times> boot) option" where
  "download_list files [] ret s = Some (ret, s)"
| "download_list files (info # rest) ret s =
     do { (ret, s) \<leftarrow> download_image files info s;
          if ret \<noteq> DL_SUCCESS then Some (ret, s) else download_list files rest ret s }"

definition download_images :: "files \<Rightarrow> int \<Rightarrow> boot \<Rightarrow> (int \<times> boot) option" where
  "download_images files ret s =
     do { (ret, s) \<leftarrow> download_list files
            (take (modem_images_count (table s) - 1) (drop 1 (images (table s)))) ret s;
          (_, l) \<leftarrow> send_exec_message 0x400000 1 (spi s);
          Some (ret, s\<lparr>spi := l\<rparr>) }"

subsection \<open>The boot loader over the UART\<close>

lemma file_read_pending:
  "file_read n f = (r, f') \<Longrightarrow> f \<noteq> [] \<Longrightarrow> 0 < n \<Longrightarrow> pending f' < pending f"
  by (induction n f rule: file_read.induct) (auto split: if_splits)

text \<open>The reads of \<open>load_fdl2memory\<close>: at the end of the file the loop does not end.\<close>

function load_fdl_loop :: "nat \<Rightarrow> nat \<Rightarrow> bytes \<Rightarrow> read_result list \<Rightarrow> bytes option" where
  "load_fdl_loop off n buf f =
     (if f = [] then (if n > 0 then None else Some buf)
      else (case file_read n f of
              (ReadError, f) \<Rightarrow> if n > 0 then load_fdl_loop off n buf f else Some buf
            | (ReadData bs, f) \<Rightarrow>
                (case store off bs buf of
                   None \<Rightarrow> None
                 | Some buf \<Rightarrow>
                     if n - length bs > 0 then load_fdl_loop (off + length bs) (n - length bs) buf f
                     else Some buf)))"
  by pat_completeness auto
termination
  by (relation "measure (\<lambda>(_, _, _, f). pending f)") (auto dest!: file_read_pending [OF sym] dest: order_less_trans)

declare load_fdl_loop.simps [simp del]

text \<open>\<open>malloc\<close> returns memory of the size asked for with any contents, or \<^term>\<open>None\<close>.\<close>

definition load_fdl2memory :: "(nat \<Rightarrow> bytes option) \<Rightarrow> files \<Rightarrow> image_info \<Rightarrow> bytes option option" where
  "load_fdl2memory malloc files info =
     (case Option.bind (image_path info) files of
        None \<Rightarrow> Some None
      | Some f \<Rightarrow>
          (case malloc (nat (image_size info + 4)) of
             None \<Rightarrow> Some None
           | Some buf \<Rightarrow> map_option Some (load_fdl_loop 0 (nat (image_size info)) buf f)))"

text \<open>\<open>while (size)\<close>: packets of 256 bytes until the size is exactly \<open>0\<close>.\<close>

function fdl_loop :: "nat \<Rightarrow> int \<Rightarrow> bytes \<Rightarrow> link \<Rightarrow> (int \<times> link) option" where
  "fdl_loop off sz buf l =
     (if sz = 0 then Some (DL_SUCCESS, l)
      else if length buf < off + FDL_PACKET_SIZE then None
      else (case send_data_message (chunk off FDL_PACKET_SIZE buf) FDL_PACKET_SIZE 0 l of
              None \<Rightarrow> None
            | Some (ret, _, l) \<Rightarrow>
                if ret = DL_FAILURE then Some (ret, l)
                else fdl_loop (off + FDL_PACKET_SIZE) (sz - int FDL_PACKET_SIZE) buf l))"
  by pat_completeness auto
termination
  by (relation "measure (\<lambda>(off, _, buf, _). length buf - off)") (auto simp: FDL_PACKET_SIZE_def)

declare fdl_loop.simps [simp del]

definition download_fdl :: "(nat \<Rightarrow> bytes option) \<Rightarrow> files \<Rightarrow> boot \<Rightarrow> (int \<times> boot) option" where
  "download_fdl malloc files s =
     (let info = images (table s) ! 0 in
      do { mem \<leftarrow> load_fdl2memory malloc files info;
           case mem of None \<Rightarrow> Some (DL_FAILURE, s) | Some buf \<Rightarrow> do {
             (ret, l) \<leftarrow> send_start_message (of_int (image_size info)) (address info) 0 (uart s);
             if ret = DL_FAILURE then Some (ret, s\<lparr>uart := l\<rparr>) else do {
               (ret, l) \<leftarrow> fdl_loop 0 (image_size info) buf l;
               if ret = DL_FAILURE then Some (ret, s\<lparr>uart := l\<rparr>) else do {
                 (ret, l) \<leftarrow> send_end_message 0 l;
                 if ret = DL_FAILURE then Some (ret, s\<lparr>uart := l\<rparr>) else do {
                   (ret, l) \<leftarrow> send_exec_message (address info) 0 l;
                   Some (ret, s\<lparr>uart := l\<rparr>) }}}}})"

subsection \<open>The boot sequence\<close>

definition open_uart_device :: "boot \<Rightarrow> (int \<times> boot) option" where
  "open_uart_device s =
     (case uart_opens s of [] \<Rightarrow> None | fd # rest \<Rightarrow> Some (fd, s\<lparr>uart_opens := rest\<rparr>))"

text \<open>After a failed first \<open>open\<close> the loader device is opened until the descriptor is \<open>0\<close>.\<close>

fun open_dloader_retry :: "int list \<Rightarrow> int list option" where
  "open_dloader_retry [] = None"
| "open_dloader_retry (fd # rest) = (if fd = 0 then Some rest else open_dloader_retry rest)"

definition open_dloader :: "boot \<Rightarrow> boot option" where
  "open_dloader s =
     (case dloader_opens s of
        [] \<Rightarrow> None
      | fd # rest \<Rightarrow>
          if fd < 0 then map_option (\<lambda>r. s\<lparr>dloader_opens := r\<rparr>) (open_dloader_retry rest)
          else Some (s\<lparr>dloader_opens := rest\<rparr>))"

partial_function (option) connect_loop :: "bool \<Rightarrow> boot \<Rightarrow> boot option" where
  "connect_loop has_power s =
     do { s \<leftarrow> try_to_connect_modem has_power (s\<lparr>boot_status := 0\<rparr>);
          (ret, l) \<leftarrow> send_connect_message 0 (uart s);
          let s = s\<lparr>boot_status := 1, uart := l\<rparr> in
          if ret < 0 then connect_loop has_power s else Some s }"

partial_function (option) modem_boot ::
    "(nat \<Rightarrow> bytes option) \<Rightarrow> files \<Rightarrow> bool \<Rightarrow> int \<Rightarrow> boot \<Rightarrow> (int \<times> boot) option" where
  "modem_boot malloc files has_power undef s =
     do { (fd, s) \<leftarrow> open_uart_device s;
          if fd < 0 then Some (- 1, s) else do {
            s \<leftarrow> connect_loop has_power s;
            (ret, s) \<leftarrow> download_fdl malloc files s;
            if ret = DL_FAILURE then modem_boot malloc files has_power undef s else do {
              s \<leftarrow> try_to_connect_modem has_power s;
              (fd, s) \<leftarrow> open_uart_device s;
              if fd < 0 then Some (- 1, s) else do {
                (_, l) \<leftarrow> uart_send_change_spi_mode_message (uart s);
                s \<leftarrow> open_dloader (s\<lparr>uart := l\<rparr>);
                (ret, s) \<leftarrow> download_images files undef s;
                if ret = DL_FAILURE then modem_boot malloc files has_power undef s
                else Some (0, s) }}}}"

end
