(* ===== verification/ModemDownload.thy ===== *)
theory ModemDownload
  imports ModemBoot
begin

text \<open>
  What a download of \<open>ModemBoot\<close> delivers: the packets of an image over SPI carry the image, padded
  with \<open>0xFF\<close>, each with a header that verifies; and the handshake ends only after a complete version
  string.
\<close>

subsection \<open>Reading an image file\<close>

definition readable :: "read_result list \<Rightarrow> bool" where
  "readable f \<longleftrightarrow> (\<forall>r \<in> set f. \<exists>c bs. r = ReadData (c # bs))"


lemma incoming_Nil: "readable f \<Longrightarrow> incoming f = [] \<longleftrightarrow> f = []"
  by (cases f rule: incoming.cases) (auto simp: readable_def)


subsection \<open>An exchange over SPI\<close>







subsection \<open>The packets of an image\<close>





subsection \<open>A whole image\<close>












subsection \<open>The handshake\<close>

lemma link_read_one:
  assumes "link_read (Suc 0) l = Some (r, l')"
  shows "incoming (read_results l) = (case r of ReadError \<Rightarrow> [] | ReadData bs \<Rightarrow> bs) @ incoming (read_results l')"
  using assms
  by (cases "read_results l" rule: incoming.cases)
    (auto simp: link_read_def take_Suc split: if_splits list.splits)

lemma wait_sync_incoming:
  "wait_sync i l = Some (i', l') \<Longrightarrow> \<exists>pre. incoming (read_results l) = pre @ incoming (read_results l')"
proof (induction i l rule: wait_sync.induct)
  case (1 i l)
  from "1.prems" obtain r l1 where r: "link_read (Suc 0) l = Some (r, l1)"
    by (auto simp: wait_sync.simps [of i l] split: option.splits)
  note inc = link_read_one [OF r]
  show ?case
  proof (cases "r = ReadData [0x55]")
    case True
    then show ?thesis using "1.prems" r inc by (simp add: wait_sync.simps [of i l])
  next
    case False
    define w where "w = (if Suc i mod 1000 = 0 then map_option snd (link_write [0x7E, 0x7E, 0x7E] l1) else Some l1)"
    from "1.prems" r False obtain l2 where l2: "w = Some l2"
      and rest: "(if Suc i < 2000000 then wait_sync (Suc i) l2 else Some (Suc i, l2)) = Some (i', l')"
      by (simp add: wait_sync.simps [of i l] w_def Let_def split: option.splits)
    have "read_results l2 = read_results l1"
      using l2 by (auto simp: w_def dest: link_write_reads split: if_splits)
    moreover have "\<exists>pre. incoming (read_results l2) = pre @ incoming (read_results l')"
      using "1.IH" [OF r refl refl False, of l2, simplified] rest l2 by (auto simp: w_def split: if_splits)
    ultimately show ?thesis using inc by (metis append.assoc)
  qed
qed

lemma read_version_step:
  assumes "link_read (Suc 0) l = Some (r, l1)" and "d < 64"
  shows "read_version d m l =
    (if r = ReadData [0x7E] then Some (1, l1)
     else if \<exists>c. r = ReadData [c] then
       (if m < UART_TIMEOUT then read_version (d + 1) m l1 else Some (m, l1))
     else if m + 2 < UART_TIMEOUT then read_version d (m + 2) l1 else Some (m + 2, l1))"
  using assms by (auto simp: read_version.simps [of d m l] Let_def split: read_result.splits list.splits)

text \<open>The version string ends with a flag exactly if the result is \<open>1\<close>; else the result stays even.\<close>

definition version_at :: "nat \<Rightarrow> bytes \<Rightarrow> bytes \<Rightarrow> bool" where
  "version_at d inp rest \<longleftrightarrow> (\<exists>v. inp = v @ 0x7E # rest \<and> 0x7E \<notin> set v \<and> d + length v < 64)"

definition suffix_of :: "bytes \<Rightarrow> bytes \<Rightarrow> bool" where
  "suffix_of rest inp \<longleftrightarrow> (\<exists>pre. inp = pre @ rest)"

lemma suffix_of_refl: "suffix_of r r" by (simp add: suffix_of_def)

lemma suffix_of_pre: "suffix_of rest inp \<Longrightarrow> suffix_of rest (pre @ inp)"
  by (auto simp: suffix_of_def)

lemma suffix_of_Cons: "suffix_of rest inp \<Longrightarrow> suffix_of rest (c # inp)"
  using suffix_of_pre [of rest inp "[c]"] by simp

lemma version_at_Cons: "version_at (Suc d) inp rest \<Longrightarrow> c \<noteq> 0x7E \<Longrightarrow> version_at d (c # inp) rest"
  by (auto simp: version_at_def intro: exI [of _ "c # _"])

lemma read_version_incoming:
  assumes "read_version d m l = Some (m', l')" and "even m"
  shows "(m' = 1 \<and> version_at d (incoming (read_results l)) (incoming (read_results l')))
    \<or> (even m' \<and> suffix_of (incoming (read_results l')) (incoming (read_results l)))"
  using assms
proof (induction "pending (read_results l)" arbitrary: d m l rule: less_induct)
  case less
  from less.prems obtain r l1 where r: "link_read (Suc 0) l = Some (r, l1)" and d: "d < 64"
    by (auto simp: read_version.simps [of d m l] split: option.splits if_splits)
  note inc = link_read_one [OF r] and step = read_version_step [OF r d, of m]
  note IH = less.hyps [OF link_read_pending_1 [OF r]]
  consider (flag) "r = ReadData [0x7E]" | (char) c where "r = ReadData [c]" "c \<noteq> 0x7E"
    | (none) "\<nexists>c. r = ReadData [c]" by metis
  then show ?case
  proof cases
    case flag
    then have "m' = 1 \<and> l' = l1" using less.prems(1) step by simp
    then show ?thesis using inc flag d by (auto simp: version_at_def)
  next
    case char
    then show ?thesis
      using less.prems step IH [of "d + 1" m] inc
      by (auto simp: version_at_Cons suffix_of_Cons suffix_of_refl split: if_splits)
  next
    case none
    then have "incoming (read_results l) = incoming (read_results l1)"
      if "length (case r of ReadError \<Rightarrow> [] | ReadData bs \<Rightarrow> bs) \<le> 1"
      using inc that by (cases r) (auto simp: le_Suc_eq length_Suc_conv)
    moreover have "length (case r of ReadError \<Rightarrow> [] | ReadData bs \<Rightarrow> bs) \<le> 1"
      using r by (auto simp: link_read_def split: list.splits read_result.splits)
    ultimately have same: "incoming (read_results l) = incoming (read_results l1)" by blast
    have "r \<noteq> ReadData [0x7E]" using none by blast
    then have "(if m + 2 < UART_TIMEOUT then read_version d (m + 2) l1 else Some (m + 2, l1)) = Some (m', l')"
      using less.prems(1) step none by simp
    then show ?thesis
      using IH [of d "m + 2"] less.prems(2) same by (auto simp: suffix_of_refl split: if_splits)
  qed
qed

text \<open>What the loop has seen when it ends: a flag, a string without flags, a flag.\<close>

definition version_seen :: "bytes \<Rightarrow> bytes \<Rightarrow> bool" where
  "version_seen inp rest \<longleftrightarrow> (\<exists>pre v. inp = pre @ 0x7E # v @ 0x7E # rest \<and> 0x7E \<notin> set v \<and> length v < 63)"

lemma hand_shake_incoming:
  assumes "hand_shake m l = Some (m', l')" and "even m"
  shows "(m' = 1 \<and> version_seen (incoming (read_results l)) (incoming (read_results l')))
    \<or> (even m' \<and> suffix_of (incoming (read_results l')) (incoming (read_results l)))"
proof -
  from assms obtain rv l0 r l1 where w: "link_write [0x7E] l = Some (rv, l0)"
    and r: "link_read (Suc 0) l0 = Some (r, l1)"
    by (auto simp: hand_shake_def split: option.splits)
  have inc: "incoming (read_results l) =
      (case r of ReadError \<Rightarrow> [] | ReadData bs \<Rightarrow> bs) @ incoming (read_results l1)"
    using link_read_one [OF r] link_write_reads [OF w] by simp
  consider (flag) "r = ReadData [0x7E]" | (char) c where "r = ReadData [c]" "c \<noteq> 0x7E"
    | (none) "\<nexists>c. r = ReadData [c]" by metis
  then show ?thesis
  proof cases
    case flag
    then have "read_version 1 0 l1 = Some (m', l')" using assms w r by (simp add: hand_shake_def)
    moreover have "version_seen (0x7E # inp) rest" if "version_at 1 inp rest" for inp rest
    proof -
      from that obtain v where "inp = v @ 0x7E # rest" "0x7E \<notin> set v" "1 + length v < 64"
        by (auto simp: version_at_def)
      then show ?thesis unfolding version_seen_def by (intro exI [of _ "[]"] exI [of _ v]) simp
    qed
    ultimately show ?thesis
      using read_version_incoming [of 1 0 l1 m' l'] inc flag by (auto simp: suffix_of_Cons)
  next
    case char
    then have "even m' \<and> read_results l' = read_results l1"
      using assms w r by (auto simp: hand_shake_def dest: link_write_reads split: if_splits)
    then show ?thesis using inc char by (simp add: suffix_of_Cons suffix_of_refl)
  next
    case none
    then have "m' = m \<and> l' = l1"
      using assms w r by (auto simp: hand_shake_def split: read_result.splits list.splits)
    then show ?thesis using inc assms(2) by (simp add: suffix_of_pre suffix_of_refl)
  qed
qed

lemma version_seen_suffix: "version_seen b rest \<Longrightarrow> suffix_of b a \<Longrightarrow> version_seen a rest"
  by (auto simp: version_seen_def suffix_of_def) (metis append.assoc)

lemma try_to_connect_loop_version:
  assumes "try_to_connect_loop has_power m s = Some s'" and "even m"
  shows "version_seen (incoming (read_results (uart s))) (incoming (read_results (uart s')))"
  using assms
proof (induction "pending (read_results (uart s))" arbitrary: m s rule: less_induct)
  case less
  define fresh where "fresh = (boot_status s = 0 \<and> m \<ge> UART_TIMEOUT)"
  define s1 where "s1 = (if fresh then reset_modem has_power s else s)"
  have u1: "uart s1 = uart s" by (simp add: s1_def reset_modem_def)
  from less.prems obtain i l where w: "(if fresh then wait_sync 0 (uart s1) else Some (0, uart s1)) = Some (i, l)"
    unfolding try_to_connect_loop.simps [of has_power m s] Let_def fresh_def [symmetric] s1_def [symmetric]
    by (cases "if fresh then wait_sync 0 (uart s1) else Some (0, uart s1)") auto
  have suf: "suffix_of (incoming (read_results l)) (incoming (read_results (uart s)))"
    using w wait_sync_incoming [of 0 "uart s" i l] u1
    by (auto simp: suffix_of_def split: if_splits)
  have step: "try_to_connect_loop has_power m s =
      (if fresh \<and> i \<ge> 2000000 then try_to_connect_loop has_power m (s1\<lparr>uart := l\<rparr>)
       else (case hand_shake (if fresh then 0 else m) l of
               None \<Rightarrow> None
             | Some (m, l) \<Rightarrow> if m = 1 then Some (s1\<lparr>uart := l\<rparr>)
                 else try_to_connect_loop has_power (m + 2) (s1\<lparr>uart := l\<rparr>)))"
    using w unfolding try_to_connect_loop.simps [of has_power m s] Let_def fresh_def [symmetric] s1_def [symmetric]
    by simp
  have le: "pending (read_results l) \<le> pending (read_results (uart s))"
    using w wait_sync_pending [of 0 "uart s" i l] u1 by (auto split: if_splits)
  show ?case
  proof (cases "fresh \<and> i \<ge> 2000000")
    case True
    have "pending (read_results l) < pending (read_results (uart s))"
      using w True wait_sync_pending [of 0 "uart s" i l] u1 by auto
    then have "version_seen (incoming (read_results l)) (incoming (read_results (uart s')))"
      using less.hyps [of "s1\<lparr>uart := l\<rparr>" m] less.prems step True by simp
    then show ?thesis using version_seen_suffix suf by blast
  next
    case False
    obtain m2 l2 where h: "hand_shake (if fresh then 0 else m) l = Some (m2, l2)"
      using less.prems(1) unfolding step using False by (cases "hand_shake (if fresh then 0 else m) l") auto
    have ev: "even (if fresh then 0 else m)" using less.prems(2) by simp
    note hs = hand_shake_incoming [OF h ev]
    show ?thesis
    proof (cases "m2 = 1")
      case True
      then have "s' = s1\<lparr>uart := l2\<rparr>" using less.prems(1) step False h by auto
      then show ?thesis using hs True version_seen_suffix suf by auto
    next
      case m2: False
      have r: "try_to_connect_loop has_power (m2 + 2) (s1\<lparr>uart := l2\<rparr>) = Some s'"
        using less.prems(1) step False h m2 by auto
      have "pending (read_results l2) < pending (read_results (uart s))"
        using hand_shake_pending [OF h] le by simp
      then have "version_seen (incoming (read_results l2)) (incoming (read_results (uart s')))"
        using less.hyps [of "s1\<lparr>uart := l2\<rparr>" "m2 + 2"] r hs m2 by simp
      then show ?thesis using hs m2 version_seen_suffix suf by blast
    qed
  qed
qed

text \<open>
  \<open>try_to_connect_modem\<close> returns only after the modem has sent a complete version string: a flag,
  fewer than 63 bytes that are not flags (so they fit the 64 bytes of the buffer), and a flag, which
  are the last bytes consumed.  A longer string is a run that leaves the buffer.
\<close>

theorem try_to_connect_modem_version:
  assumes "try_to_connect_modem has_power s = Some s'"
  shows "\<exists>pre v. incoming (read_results (uart s)) = pre @ 0x7E # v @ 0x7E # incoming (read_results (uart s'))
    \<and> 0x7E \<notin> set v \<and> length v < 63"
  using try_to_connect_loop_version [of has_power UART_TIMEOUT s s'] assms
  by (simp add: try_to_connect_modem_def version_seen_def UART_TIMEOUT_def)

theorem try_to_connect_modem_version_witness:
  "\<exists>s s'. try_to_connect_modem True s = Some s' \<and> incoming (read_results (uart s')) = [5]
    \<and> (\<exists>pre v. incoming (read_results (uart s)) = pre @ 0x7E # v @ [0x7E, 5])"
proof -
  define s where "s = \<lparr>table = initial_table, test_buffer = [], boot_status = 1,
        need_shutdown = 0, modem_power = [],
        uart = \<lparr>send_buffer = [], write_results = [1], read_results = [ReadData [0x7E, 0x53, 0x7E, 5]], sent = []\<rparr>,
        spi = \<lparr>send_buffer = [], write_results = [], read_results = [], sent = []\<rparr>,
        uart_opens = [], dloader_opens = []\<rparr>"
  define s' where "s' = s\<lparr>uart := \<lparr>send_buffer = [], write_results = [], read_results = [ReadData [5]], sent = [[0x7E]]\<rparr>\<rparr>"
  have run: "try_to_connect_modem True s = Some s'"
    by (simp add: try_to_connect_modem_def try_to_connect_loop.simps s_def s'_def hand_shake_def
        link_write_def link_read_def read_version.simps UART_TIMEOUT_def)
  show ?thesis
    using try_to_connect_modem_version [OF run] run
    by (intro exI [of _ s] exI [of _ s']) (auto simp: s'_def)
qed

subsection \<open>The boot loader\<close>

lemma fdl_loop_multiple:
  "fdl_loop off sz buf l = Some (DL_SUCCESS, l') \<Longrightarrow> 256 dvd sz"
proof (induction off sz buf l rule: fdl_loop.induct)
  case (1 off sz buf l)
  show ?case
  proof (cases "sz = 0")
    case False
    then obtain ret b l1 where s: "\<not> length buf < off + FDL_PACKET_SIZE"
      "send_data_message (chunk off FDL_PACKET_SIZE buf) FDL_PACKET_SIZE 0 l = Some (ret, b, l1)"
      using "1.prems" by (auto simp: fdl_loop.simps [of off sz buf l] split: if_splits option.splits)
    have ret: "ret \<noteq> DL_FAILURE"
      using "1.prems" False s by (auto simp: fdl_loop.simps [of off sz buf l] DL_FAILURE_def DL_SUCCESS_def)
    then have "fdl_loop (off + FDL_PACKET_SIZE) (sz - int FDL_PACKET_SIZE) buf l1 = Some (DL_SUCCESS, l')"
      using "1.prems" False s by (simp add: fdl_loop.simps [of off sz buf l])
    then have "256 dvd sz - int FDL_PACKET_SIZE" using "1.IH" [OF False s refl refl ret] by blast
    then show ?thesis unfolding FDL_PACKET_SIZE_def by presburger
  qed simp
qed

text \<open>
  The loop that sends the boot loader in packets of 256 bytes subtracts 256 until the size is
  exactly zero: with a size that is no multiple of 256 it never ends well, whatever the modem replies.
\<close>

theorem fdl_loop_needs_multiple:
  assumes "\<not> 256 dvd sz"
  shows "fdl_loop 0 sz buf l \<noteq> Some (DL_SUCCESS, l')"
  using fdl_loop_multiple assms by blast

theorem fdl_loop_needs_multiple_witness:
  "\<forall>l l'. fdl_loop 0 300 (replicate 304 0) l \<noteq> Some (DL_SUCCESS, l')"
  by (intro allI fdl_loop_needs_multiple) simp

end
