(* ===== verification/ModemState.thy ===== *)
theory ModemState
  imports ModemImages PacketLink
begin

text \<open>
  The modem manager of \<open>modem_control/main.c\<close>: the state it follows from the kernel's state file, the
  clients of its socket, and what it tells them.  \<open>modem_boot\<close> (theory \<open>ModemBoot\<close>) appears here as
  the event of its call; process ids, the state file's contents and the modem's answers are inputs.
\<close>

datatype modem_sta =
    MODEM_STA_SHUTDOWN | MODEM_STA_BOOT | MODEM_STA_INIT | MODEM_STA_ALIVE | MODEM_STA_ASSERT
  | MODEM_STA_BOOTCOMP

datatype signal = SIGUSR1 | SIGUSR2

datatype event = Broadcast bytes "int list" | Kill int signal | Booted

record modemd =
  modem_state :: modem_sta
  flash_less_flag :: int
  client_fd :: "int list"
  events :: "event list"

definition MAX_CLIENT_NUM :: nat where "MAX_CLIENT_NUM = 10"

definition emit :: "event \<Rightarrow> modemd \<Rightarrow> modemd" where
  "emit e s = s\<lparr>events := events s @ [e]\<rparr>"

subsection \<open>Clients\<close>

text \<open>\<open>modemd_listenaccept_thread\<close>: the slots are cleared once, then every connection takes the first free one.\<close>

definition init_clients :: "modemd \<Rightarrow> modemd" where
  "init_clients s = s\<lparr>client_fd := replicate MAX_CLIENT_NUM (- 1)\<rparr>"

fun fill_slot :: "int \<Rightarrow> int list \<Rightarrow> int list" where
  "fill_slot n [] = []"
| "fill_slot n (fd # fds) = (if fd = - 1 then n # fds else fd # fill_slot n fds)"

definition accept_client :: "int \<Rightarrow> modemd \<Rightarrow> modemd" where
  "accept_client n s = (if n = - 1 then s else s\<lparr>client_fd := fill_slot n (client_fd s)\<rparr>)"

definition broadcast_modem_state :: "bytes \<Rightarrow> modemd \<Rightarrow> modemd" where
  "broadcast_modem_state message s = emit (Broadcast message (filter (\<lambda>fd. fd > 0) (client_fd s))) s"

subsection \<open>The messages\<close>

fun dec_value :: "int \<Rightarrow> bytes \<Rightarrow> int" where
  "dec_value acc [] = acc"
| "dec_value acc (c # s) =
     (if 48 \<le> c \<and> c \<le> 57 then dec_value (10 * acc + (int (unat c) - 48)) s else acc)"

text \<open>\<open>sscanf(message, "%d", &mask)\<close>: without a number the local keeps its uninitialised value \<open>junk\<close>.\<close>

definition translate_modem_state_message :: "int \<Rightarrow> bytes \<Rightarrow> int" where
  "translate_modem_state_message junk message =
     (let s = dropWhile is_space (takeWhile (\<lambda>c. c \<noteq> 0) message);
          neg = (s \<noteq> [] \<and> hd s = 45);
          d = (if s \<noteq> [] \<and> (hd s = 45 \<or> hd s = 43) then tl s else s) in
      if d \<noteq> [] \<and> 48 \<le> hd d \<and> hd d \<le> 57 then (if neg then - dec_value 0 d else dec_value 0 d)
      else junk)"

text \<open>
  \<open>get_modem_assert_information(test_buffer, 256)\<close>: \<open>P\<close> is written, at most 100001 reads are made,
  \<open>O\<close> is written.  \<open>opened\<close> tells whether the UART could be opened.
\<close>

function assert_reads :: "nat \<Rightarrow> nat \<Rightarrow> bytes \<Rightarrow> link \<Rightarrow> (bytes \<times> link) option" where
  "assert_reads timeout sz got l =
     (case link_read sz l of
        None \<Rightarrow> None
      | Some (r, l) \<Rightarrow>
          let bs = (case r of ReadError \<Rightarrow> [] | ReadData bs \<Rightarrow> bs); timeout = timeout + 1 in
          if timeout > 100000 then Some (got @ bs, l)
          else if sz - length bs > 0 then assert_reads timeout (sz - length bs) (got @ bs) l
          else Some (got @ bs, l))"
  by pat_completeness auto
termination
  by (relation "measure (\<lambda>(t, _, _, _). 100001 - t)") auto

declare assert_reads.simps [simp del]

definition get_modem_assert_information :: "bool \<Rightarrow> nat \<Rightarrow> link \<Rightarrow> (bytes \<times> link) option" where
  "get_modem_assert_information opened sz l =
     (if sz = 0 \<or> \<not> opened then Some ([], l)
      else do { (_, l) \<leftarrow> link_write [80] l;
                (got, l) \<leftarrow> assert_reads 0 sz [] l;
                (_, l) \<leftarrow> link_write [79] l;
                Some (got, l) })"

definition modem_alive :: bytes where "modem_alive = ascii ''Modem Alive''"
definition modem_assert :: bytes where "modem_assert = ascii ''Modem Assert'' @ [10]"

subsection \<open>The state machine\<close>

text \<open>The bookkeeping before the switch: the flag, and whether this is the first sign of life.\<close>

definition note_alive :: "int \<Rightarrow> modemd \<Rightarrow> bool \<times> modemd" where
  "note_alive alive_status s =
     (if flash_less_flag s = 0xFF then
        (if alive_status = 1 then (True, s\<lparr>flash_less_flag := 0\<rparr>) else (False, s\<lparr>flash_less_flag := 1\<rparr>))
      else if flash_less_flag s = 1 then
        (if alive_status = 1 then (True, s\<lparr>flash_less_flag := 2\<rparr>) else (False, s))
      else (False, s))"

definition signal_monitor :: "int \<Rightarrow> signal \<Rightarrow> modemd \<Rightarrow> modemd" where
  "signal_monitor pid sig s = (if pid > 0 then emit (Kill pid sig) s else s)"

text \<open>\<open>info\<close> is what \<open>get_modem_assert_information\<close> has read into \<open>test_buffer\<close>.\<close>

definition process_mask :: "int \<Rightarrow> int \<Rightarrow> bytes \<Rightarrow> modemd \<Rightarrow> modemd" where
  "process_mask pid ret info s =
     (if ret < 0 then s else
      let alive_status = ret AND 1; reset_status = drop_bit 1 ret;
          (first_alive, s) = note_alive alive_status s in
      case modem_state s of
        MODEM_STA_SHUTDOWN \<Rightarrow> s
      | MODEM_STA_INIT \<Rightarrow>
          if reset_status = 0 then
            if alive_status = 1 then
              (let s = s\<lparr>modem_state := MODEM_STA_ALIVE\<rparr> in
               if first_alive then s else signal_monitor pid SIGUSR2 s)
            else s\<lparr>modem_state := MODEM_STA_BOOT\<rparr>
          else s
      | MODEM_STA_ASSERT \<Rightarrow>
          if reset_status = 1 then (signal_monitor pid SIGUSR1 s)\<lparr>modem_state := MODEM_STA_BOOT\<rparr> else s
      | MODEM_STA_BOOTCOMP \<Rightarrow>
          if reset_status = 0 \<and> alive_status = 1 then
            (let s = broadcast_modem_state modem_alive (s\<lparr>modem_state := MODEM_STA_ALIVE\<rparr>) in
             if first_alive then s else signal_monitor pid SIGUSR2 s)
          else s
      | MODEM_STA_ALIVE \<Rightarrow>
          let s = (if alive_status = 0
                   then broadcast_modem_state
                     (if info \<noteq> [] then takeWhile (\<lambda>c. c \<noteq> 0) info else modem_assert)
                     (s\<lparr>modem_state := MODEM_STA_ASSERT\<rparr>)
                   else s) in
          if reset_status = 1 then s\<lparr>modem_state := MODEM_STA_BOOT\<rparr> else s
      | _ \<Rightarrow> s)"

definition process_modem_state_message :: "int \<Rightarrow> int \<Rightarrow> bytes \<Rightarrow> bytes \<Rightarrow> modemd \<Rightarrow> modemd" where
  "process_modem_state_message pid junk info message s =
     process_mask pid (translate_modem_state_message junk message) info s"

text \<open>One round of the loop of \<open>main\<close>; an empty message is a state file that could not be read.\<close>

definition main_round :: "int \<Rightarrow> int \<Rightarrow> bytes \<Rightarrow> bytes \<Rightarrow> modemd \<Rightarrow> modemd" where
  "main_round pid junk info message s =
     (let s = (if message \<noteq> [] then process_modem_state_message pid junk info message s else s) in
      if modem_state s = MODEM_STA_BOOT then (emit Booted s)\<lparr>modem_state := MODEM_STA_BOOTCOMP\<rparr>
      else s)"

definition main_start :: modemd where
  "main_start = init_clients \<lparr>modem_state = MODEM_STA_INIT, flash_less_flag = 0xFF, client_fd = [], events = []\<rparr>"

text \<open>The two threads interleave; a round and an accept are atomic.\<close>

inductive modemd_step :: "modemd \<Rightarrow> modemd \<Rightarrow> bool" where
  accept: "modemd_step s (accept_client n s)"
| round: "modemd_step s (main_round pid junk info message s)"

inductive reachable :: "modemd \<Rightarrow> bool" where
  start: "reachable main_start"
| step: "reachable s \<Longrightarrow> modemd_step s s' \<Longrightarrow> reachable s'"

inductive_cases modemd_stepE: "modemd_step s s'"

subsection \<open>Invariants\<close>

definition boots :: "event list \<Rightarrow> nat" where
  "boots es = length (filter (\<lambda>e. e = Booted) es)"

definition alive_calls :: "event list \<Rightarrow> nat" where
  "alive_calls es = length (filter (\<lambda>e. \<exists>fds. e = Broadcast modem_alive fds) es)"

lemma counts [simp]:
  "boots [] = 0" "alive_calls [] = 0"
  "boots (es @ fs) = boots es + boots fs" "alive_calls (es @ fs) = alive_calls es + alive_calls fs"
  "boots (e # es) = (if e = Booted then 1 else 0) + boots es"
  "alive_calls (e # es) = (if \<exists>fds. e = Broadcast modem_alive fds then 1 else 0) + alive_calls es"
  by (simp_all add: boots_def alive_calls_def)

definition settled :: "modem_sta \<Rightarrow> bool" where
  "settled st \<longleftrightarrow> st \<noteq> MODEM_STA_BOOT \<and> st \<noteq> MODEM_STA_SHUTDOWN"

definition modemd_inv :: "modemd \<Rightarrow> bool" where
  "modemd_inv s \<longleftrightarrow> settled (modem_state s) \<and> length (client_fd s) = MAX_CLIENT_NUM
     \<and> boots (events s) \<le> alive_calls (events s) + (if modem_state s = MODEM_STA_BOOTCOMP then 1 else 0)"

lemma note_alive_same [simp]:
  "modem_state (snd (note_alive a s)) = modem_state s"
  "client_fd (snd (note_alive a s)) = client_fd s" "events (snd (note_alive a s)) = events s"
  by (simp_all add: note_alive_def)

lemma length_fill_slot [simp]: "length (fill_slot n fds) = length fds"
  by (induction fds) auto

text \<open>What a message does: the counts with the state before and after.\<close>

lemma process_mask_effect:
  assumes "settled (modem_state s)"
  shows "client_fd (process_mask pid ret info s) = client_fd s
    \<and> modem_state (process_mask pid ret info s) \<noteq> MODEM_STA_SHUTDOWN
    \<and> boots (events (process_mask pid ret info s)) = boots (events s)
    \<and> alive_calls (events s) \<le> alive_calls (events (process_mask pid ret info s))
    \<and> (modem_state s = MODEM_STA_BOOTCOMP \<longrightarrow> modem_state (process_mask pid ret info s) = MODEM_STA_BOOTCOMP
        \<or> alive_calls (events (process_mask pid ret info s)) = Suc (alive_calls (events s)))
    \<and> (modem_state (process_mask pid ret info s) = MODEM_STA_BOOTCOMP \<longrightarrow> modem_state s = MODEM_STA_BOOTCOMP)"
  using assms
  by (cases "modem_state s"; cases "note_alive (ret AND 1) s")
    (use note_alive_same [of "ret AND 1" s] in
      \<open>auto simp: process_mask_def settled_def Let_def emit_def signal_monitor_def broadcast_modem_state_def\<close>)

lemma main_round_inv: "modemd_inv s \<Longrightarrow> modemd_inv (main_round pid junk info message s)"
  using process_mask_effect [of s pid "translate_modem_state_message junk message" info]
  by (auto simp: modemd_inv_def main_round_def process_modem_state_message_def settled_def emit_def Let_def
      split: if_splits)

lemma reachable_inv: "reachable s \<Longrightarrow> modemd_inv s"
proof (induction rule: reachable.induct)
  case start
  then show ?case
    by (simp add: modemd_inv_def main_start_def init_clients_def settled_def)
next
  case (step s s')
  from step.hyps(2) show ?case
    by (rule modemd_stepE)
      (use step.IH main_round_inv in \<open>auto simp: modemd_inv_def accept_client_def\<close>)
qed

text \<open>
  C30: In every reachable state of the manager the modem is neither in the transient state BOOT nor
  in SHUTDOWN, the client table has its ten slots, and boots and announcements keep step: at most one
  boot is not yet announced to the clients, and that only while the state is BOOTCOMP.
\<close>

theorem reachable_boots_announced:
  assumes "reachable s"
  shows "modem_state s \<notin> {MODEM_STA_BOOT, MODEM_STA_SHUTDOWN} \<and> length (client_fd s) = 10
    \<and> boots (events s) \<le> alive_calls (events s) + (if modem_state s = MODEM_STA_BOOTCOMP then 1 else 0)"
  using reachable_inv [OF assms] by (simp add: modemd_inv_def settled_def MAX_CLIENT_NUM_def)

theorem reachable_boots_announced_witness:
  "boots (events (main_round 1 0 [] [48, 10] main_start)) \<le>
    alive_calls (events (main_round 1 0 [] [48, 10] main_start)) + 1"
proof -
  have "reachable (main_round 1 0 [] [48, 10] main_start)"
    by (rule reachable.step [OF reachable.start modemd_step.round])
  then show ?thesis
    using reachable_boots_announced [of "main_round 1 0 [] [48, 10] main_start"] by (auto split: if_splits)
qed

subsection \<open>Who is told\<close>

definition told :: "int \<Rightarrow> event list \<Rightarrow> bool" where
  "told n es \<longleftrightarrow> (\<forall>m fds. Broadcast m fds \<in> set es \<longrightarrow> n \<in> set fds)"

lemma told_simps [simp]: "told n []" "told n (es @ fs) \<longleftrightarrow> told n es \<and> told n fs"
    "told n (Kill p sg # es) = told n es" "told n (Booted # es) = told n es"
    "told n (Broadcast m fds # es) \<longleftrightarrow> n \<in> set fds \<and> told n es"
  by (auto simp: told_def)

lemma fill_slot_keeps: "n \<in> set fds \<Longrightarrow> n \<noteq> - 1 \<Longrightarrow> n \<in> set (fill_slot k fds)"
  by (induction fds) auto

lemma fill_slot_adds: "- 1 \<in> set fds \<Longrightarrow> n \<in> set (fill_slot n fds)"
  by (induction fds) auto

lemma process_mask_told:
  assumes "0 < n" and "n \<in> set (client_fd s)"
  shows "client_fd (process_mask pid ret info s) = client_fd s
    \<and> (\<exists>es. events (process_mask pid ret info s) = events s @ es \<and> told n es)"
  using assms
  by (cases "modem_state s"; cases "note_alive (ret AND 1) s")
    (use note_alive_same [of "ret AND 1" s] in
      \<open>auto simp: process_mask_def Let_def emit_def signal_monitor_def broadcast_modem_state_def\<close>)

lemma modemd_step_told:
  assumes "modemd_step s s'" and "0 < n" and "n \<in> set (client_fd s)"
  shows "n \<in> set (client_fd s') \<and> (\<exists>es. events s' = events s @ es \<and> told n es)"
  using assms(1)
proof (rule modemd_stepE)
  fix k assume "s' = accept_client k s"
  then show ?thesis using assms(2,3) by (auto simp: accept_client_def intro!: fill_slot_keeps)
next
  fix pid junk info message assume s': "s' = main_round pid junk info message s"
  show ?thesis
    using process_mask_told [OF assms(2,3), of pid "translate_modem_state_message junk message" info] assms
    by (auto simp: s' main_round_def process_modem_state_message_def Let_def emit_def)
qed

text \<open>
  C35: A client that connects while a slot is free is told every later state change: it stays in the
  table through every further step, and each broadcast from then on goes to it.
\<close>

theorem accepted_client_told:
  assumes "- 1 \<in> set (client_fd s)" and "0 < n" and "modemd_step\<^sup>*\<^sup>* (accept_client n s) s'"
  shows "n \<in> set (client_fd s') \<and> (\<exists>es. events s' = events s @ es
    \<and> (\<forall>m fds. Broadcast m fds \<in> set es \<longrightarrow> n \<in> set fds))"
proof -
  have "n \<in> set (client_fd s') \<and> (\<exists>es. events s' = events s @ es \<and> told n es)"
    using assms(3)
  proof (induction rule: rtranclp_induct)
    case base
    then show ?case using assms(1,2) by (auto simp: accept_client_def fill_slot_adds)
  next
    case (step y z)
    then show ?case using modemd_step_told [OF step.hyps(2) assms(2)] by auto
  qed
  then show ?thesis by (simp add: told_def)
qed

theorem accepted_client_told_witness:
  "\<exists>es. events (main_round 1 0 [] [48, 10] (accept_client 7 main_start)) = es
    \<and> (\<forall>m fds. Broadcast m fds \<in> set es \<longrightarrow> 7 \<in> set fds)"
proof -
  have "modemd_step\<^sup>*\<^sup>* (accept_client 7 main_start) (main_round 1 0 [] [48, 10] (accept_client 7 main_start))"
    by (rule r_into_rtranclp) (rule modemd_step.round)
  then show ?thesis
    using accepted_client_told [of main_start 7]
    by (auto simp: main_start_def init_clients_def MAX_CLIENT_NUM_def)
qed

text \<open>
  The information the modem gives after an assert is read up to its 256 bytes however it is
  split: when that much arrives within the bound on the number of reads, the first \<open>sz\<close> bytes are
  returned.
\<close>

theorem assert_reads_all:
  assumes "0 < sz" and "sz \<le> length (incoming (read_results l))"
    and "timeout + length (read_results l) \<le> 100000"
  shows "\<exists>l'. assert_reads timeout sz got l = Some (got @ take sz (incoming (read_results l)), l')"
  using assms
proof (induction "read_results l" arbitrary: timeout sz got l)
  case Nil
  then show ?case by simp
next
  case (Cons r rs)
  define bs where "bs = (case r of ReadError \<Rightarrow> [] | ReadData bs \<Rightarrow> bs)"
  have inc: "incoming (read_results l) = bs @ incoming rs"
    using Cons.hyps(2) by (cases r) (auto simp: bs_def dest: arg_cong [of _ _ incoming])
  obtain r' l1 where r: "link_read sz l = Some (r', l1)"
      "(case r' of ReadError \<Rightarrow> [] | ReadData bs \<Rightarrow> bs) = take sz bs"
      "length bs \<le> sz \<longrightarrow> read_results l1 = rs"
    using Cons.hyps(2) [symmetric] by (cases r) (auto simp: link_read_def bs_def)
  have t: "Suc timeout \<le> 100000" using Cons.prems(3) Cons.hyps(2) [symmetric] by simp
  show ?case
  proof (cases "sz \<le> length bs")
    case True
    then show ?thesis using r t inc by (simp add: assert_reads.simps [of timeout sz] Let_def)
  next
    case False
    then have l1: "read_results l1 = rs" "take sz bs = bs" using r(3) by simp_all
    have "\<exists>l'. assert_reads (timeout + 1) (sz - length bs) (got @ bs) l1 =
        Some ((got @ bs) @ take (sz - length bs) (incoming (read_results l1)), l')"
      using Cons.hyps(1) [of l1 "sz - length bs" "timeout + 1" "got @ bs"] Cons.prems False inc l1
        Cons.hyps(2) [symmetric] by simp
    then show ?thesis
      using r t False inc l1 by (simp add: assert_reads.simps [of timeout sz] Let_def)
  qed
qed

theorem assert_reads_all_witness:
  "\<exists>l'. assert_reads 0 3 [] \<lparr>send_buffer = [], write_results = [],
      read_results = [ReadData [65], ReadError, ReadData [66, 67, 68]], sent = []\<rparr>
    = Some ([65, 66, 67], l')"
  using assert_reads_all [of 3 "\<lparr>send_buffer = [], write_results = [],
      read_results = [ReadData [65], ReadError, ReadData [66, 67, 68]], sent = []\<rparr>" 0 "[]"]
  by simp

end
