(* ===== verification/NvFiles.thy ===== *)
theory NvFiles
  imports Prelude
begin

text \<open>
  The file helpers of \<open>nvm_daemon/nvitem.c\<close>: loading of the modem and DSP images into the guest's
  banks, the \<open>/proc\<close> files, and the search of the partition table.  The file system maps a path to its
  contents; \<open>openable\<close> and \<open>writable\<close> say for which paths opening and writing works, a write storing
  all its bytes or none.  A pointer that leaves its string or array is \<^term>\<open>None\<close>.  The log file is
  left out.
\<close>

type_synonym fs = "string \<Rightarrow> bytes option"

record access =
  openable :: "string \<Rightarrow> bool"
  writable :: "string \<Rightarrow> bool"

definition str :: "string \<Rightarrow> bytes" where
  "str s = List.map (\<lambda>c. of_nat (of_char c)) s"

definition fs_open :: "access \<Rightarrow> string \<Rightarrow> fs \<Rightarrow> bytes option" where
  "fs_open acc path fs = (if openable acc path then fs path else None)"

definition patch :: "nat \<Rightarrow> bytes \<Rightarrow> bytes \<Rightarrow> bytes" where
  "patch pos bs c = take pos c @ replicate (pos - length c) 0 @ bs @ drop (pos + length bs) c"

definition fs_write :: "access \<Rightarrow> string \<Rightarrow> nat \<Rightarrow> bytes \<Rightarrow> fs \<Rightarrow> int \<times> fs" where
  "fs_write acc path pos bs fs =
     (case fs path of
        None \<Rightarrow> (- 1, fs)
      | Some c \<Rightarrow> if writable acc path then (int (length bs), fs(path \<mapsto> patch pos bs c)) else (- 1, fs))"

subsection \<open>Strings\<close>

text \<open>\<open>strstr\<close>: the position of the first occurrence.\<close>

fun strstr_from :: "nat \<Rightarrow> bytes \<Rightarrow> bytes \<Rightarrow> nat option" where
  "strstr_from p [] pat = (if pat = [] then Some p else None)"
| "strstr_from p (c # s) pat =
     (if take (length pat) (c # s) = pat then Some p else strstr_from (p + 1) s pat)"

definition strstr :: "bytes \<Rightarrow> bytes \<Rightarrow> nat option" where
  "strstr s pat = strstr_from 0 s pat"

text \<open>\<open>while (*pos != c) pos--;\<close>\<close>

fun back_to :: "u8 \<Rightarrow> bytes \<Rightarrow> nat \<Rightarrow> nat option" where
  "back_to c s 0 = (if s ! 0 = c then Some 0 else None)"
| "back_to c s (Suc p) = (if s ! Suc p = c then Some (Suc p) else back_to c s p)"

fun atoi_digits :: "int \<Rightarrow> bytes \<Rightarrow> int" where
  "atoi_digits acc [] = acc"
| "atoi_digits acc (c # s) =
     (if 48 \<le> c \<and> c \<le> 57 then atoi_digits (10 * acc + (int (unat c) - 48)) s else acc)"

text \<open>
  \<open>atoi\<close> of the copied text, which has no white space or sign to skip: it starts behind a blank.
  \<open>number[8]\<close> must keep a NUL.
\<close>

definition get_mcp_size :: "bytes option \<Rightarrow> int option" where
  "get_mcp_size buf =
     (case buf of
        None \<Rightarrow> Some 0
      | Some buf \<Rightarrow>
          (case strstr buf (str ''MiB'') of
             None \<Rightarrow> Some 0
           | Some pos \<Rightarrow>
               (case back_to 32 buf pos of
                  None \<Rightarrow> None
                | Some b \<Rightarrow>
                    let pos_len = pos - b - 1 in
                    if pos_len \<ge> 8 then None else Some (atoi_digits 0 (chunk (b + 1) pos_len buf)))))"

definition get_mtd_partition :: "bytes option \<Rightarrow> bytes \<Rightarrow> bytes option" where
  "get_mtd_partition buf name =
     do { buf \<leftarrow> buf;
          pos \<leftarrow> strstr buf name;
          colon \<leftarrow> back_to 58 buf pos;
          m \<leftarrow> back_to 109 buf colon;
          if 9 + (colon - m) < 256 then Some (str ''/dev/mtd/'' @ chunk m (colon - m) buf) else None }"

definition F2R1_MODEM_SIZE :: nat where "F2R1_MODEM_SIZE = 3500 * 1024"
definition F4R2_MODEM_SIZE :: nat where "F4R2_MODEM_SIZE = 8 * 1024 * 1024"

definition modem_image_len :: "bool \<Rightarrow> int \<Rightarrow> nat" where
  "modem_image_len emmc mcp_size =
     (if emmc then 8 * 1024 * 1024 else if mcp_size \<ge> 512 then F4R2_MODEM_SIZE else F2R1_MODEM_SIZE)"

subsection \<open>Files\<close>

definition DATA_BUF_LEN :: nat where "DATA_BUF_LEN = 2048 * 10"

text \<open>\<open>copyfile\<close> of a file that \<open>stat\<close> finds; it is read into \<open>data[DATA_BUF_LEN]\<close>.\<close>

definition copyfile :: "access \<Rightarrow> string \<Rightarrow> string \<Rightarrow> fs \<Rightarrow> (int \<times> fs) option" where
  "copyfile acc src dst fs =
     (if src = dst then Some (- 1, fs) else
      let len = (if src = ''/proc/mtd'' then 800 else case fs src of None \<Rightarrow> 0 | Some c \<Rightarrow> length c) in
      if len = 0 then Some (- 1, fs) else
      case fs_open acc src fs of
        None \<Rightarrow> Some (- 1, fs)
      | Some c \<Rightarrow>
          if DATA_BUF_LEN < min len (length c) then None
          else if min len (length c) \<noteq> len then Some (- 1, fs)
          else if \<not> openable acc dst then Some (- 1, fs(dst := None))
          else let (ret, fs) = fs_write acc dst 0 (take len c) (fs(dst \<mapsto> [])) in
            Some (if ret \<noteq> int len then - 1 else int len, fs))"

definition loadFile :: "access \<Rightarrow> string \<Rightarrow> fs \<Rightarrow> bytes option" where
  "loadFile acc path fs = fs_open acc path fs"

definition check_proc_file :: "access \<Rightarrow> string \<Rightarrow> bytes \<Rightarrow> fs \<Rightarrow> int" where
  "check_proc_file acc path pat fs =
     (case loadFile acc path fs of
        None \<Rightarrow> - 1
      | Some buf \<Rightarrow> if strstr (takeWhile (\<lambda>c. c \<noteq> 0) buf) pat \<noteq> None then 0 else 1)"

definition write_proc_file :: "access \<Rightarrow> string \<Rightarrow> nat \<Rightarrow> bytes \<Rightarrow> fs \<Rightarrow> int \<times> fs" where
  "write_proc_file acc path offset s fs =
     (case fs_open acc path fs of
        None \<Rightarrow> (0, fs)
      | Some _ \<Rightarrow>
          let (ret, fs) = fs_write acc path offset s fs in
          (if ret \<noteq> int (length s) then - 1 else 0, fs))"

text \<open>The copy loop of \<open>loadimage\<close>, through \<open>buf[8192]\<close>.\<close>

function loadimage_loop :: "access \<Rightarrow> string \<Rightarrow> nat \<Rightarrow> string \<Rightarrow> nat \<Rightarrow> nat \<Rightarrow> fs \<Rightarrow> int \<times> fs" where
  "loadimage_loop acc fin rpos fout wpos sz fs =
     (if sz = 0 then (0, fs) else
      let rsize = min sz 8192;
          bs = (case fs fin of None \<Rightarrow> [] | Some c \<Rightarrow> chunk rpos rsize c) in
      if length bs \<noteq> rsize then (- 1, fs)
      else let (wsize, fs) = fs_write acc fout wpos bs fs in
        if wsize \<noteq> int rsize then (- 1, fs)
        else loadimage_loop acc fin (rpos + rsize) fout (wpos + rsize) (sz - rsize) fs)"
  by pat_completeness auto
termination
  by (relation "measure (\<lambda>(_, _, _, _, _, n, _). n)") auto

declare loadimage_loop.simps [simp del]

definition loadimage :: "access \<Rightarrow> string \<Rightarrow> nat \<Rightarrow> string \<Rightarrow> nat \<Rightarrow> nat \<Rightarrow> fs \<Rightarrow> int \<times> fs" where
  "loadimage acc fin offsetin fout offsetout sz fs =
     (if fs_open acc fin fs = None then (- 1, fs)
      else if fs_open acc fout fs = None then (- 1, fs)
      else loadimage_loop acc fin offsetin fout offsetout sz fs)"

datatype nv_signal = NV_SIGUSR1 | NV_SIGUSR2

text \<open>\<open>sprintf("/proc/nk/guest-%02d", guestID)\<close>.\<close>

definition digit_char :: "nat \<Rightarrow> char" where "digit_char d = char_of (48 + d :: nat)"

definition guest_dir :: "nat \<Rightarrow> string" where
  "guest_dir guestID = ''/proc/nk/guest-'' @ [digit_char (guestID div 10 mod 10), digit_char (guestID mod 10)]"

text \<open>\<open>pid\<close> is the monitor's, if it runs; the signals sent to it are returned.\<close>

definition check_reboot ::
    "access \<Rightarrow> int \<Rightarrow> string \<Rightarrow> string \<Rightarrow> nat \<Rightarrow> nat \<Rightarrow> fs \<Rightarrow> int \<times> nv_signal list \<times> fs" where
  "check_reboot acc pid modem_mtd dsp_mtd image_len guestID fs =
     (let dir = guest_dir guestID in
      if check_proc_file acc (dir @ ''/status'') (str ''not started'') fs = 0 then
        (let (_, fs) = loadimage acc modem_mtd 0 (dir @ ''/guestOS_2_bank'') 0x1000 image_len fs;
             (_, fs) = loadimage acc dsp_mtd 0 (dir @ ''/dsp_bank'') 0x20000 (3968 * 1024) fs;
             (_, fs) = write_proc_file acc ''/proc/nk/restart'' 0 (str ''2'') fs;
             (_, fs) = write_proc_file acc ''/proc/nk/resume'' 0 (str ''2'') fs in
         (1, if pid > 0 then [NV_SIGUSR1, NV_SIGUSR2] else [], fs))
      else (0, [], fs))"

definition check_mocor_reboot ::
    "access \<Rightarrow> int \<Rightarrow> string \<Rightarrow> string \<Rightarrow> nat \<Rightarrow> fs \<Rightarrow> int \<times> nv_signal list \<times> fs" where
  "check_mocor_reboot acc pid modem_mtd dsp_mtd image_len fs =
     check_reboot acc pid modem_mtd dsp_mtd image_len 2 fs"

subsection \<open>Patching files\<close>

lemma length_patch: "length (patch pos bs c) = max (length c) (pos + length bs)"
  by (auto simp: patch_def)

lemma patch_inside: "pos + length bs \<le> length c \<Longrightarrow> patch pos bs c = take pos c @ bs @ drop (pos + length bs) c"
  by (simp add: patch_def)

lemma patch_append: "patch (pos + length a) b (patch pos a c) = patch pos (a @ b) c"
proof -
  define pre where "pre = take pos c @ replicate (pos - length c) 0"
  have pre: "length pre = pos" by (simp add: pre_def)
  have p: "patch pos bs c = pre @ bs @ drop (pos + length bs) c" for bs
    by (simp add: patch_def pre_def)
  have "patch (pos + length a) b (pre @ a @ r) = pre @ a @ b @ drop (length b) r" for r
    by (simp add: patch_def pre)
  then show ?thesis by (simp add: p add.commute add.left_commute)
qed

lemma loadimage_loop_copies:
  assumes "fs fin = Some c" and "rpos + sz \<le> length c" and "fs fout = Some d" and "fin \<noteq> fout"
    and "writable acc fout"
  shows "loadimage_loop acc fin rpos fout wpos sz fs =
    (0, if sz = 0 then fs else fs(fout \<mapsto> patch wpos (chunk rpos sz c) d))"
  using assms
proof (induction sz arbitrary: rpos wpos fs d rule: less_induct)
  case (less sz)
  show ?case
  proof (cases "sz = 0")
    case True
    then show ?thesis by (simp add: loadimage_loop.simps)
  next
    case False
    define n where "n = min sz 8192"
    have n: "0 < n" "n \<le> sz" using False by (auto simp: n_def)
    have len: "length (chunk rpos n c) = n" using less.prems(2) n by (simp add: length_chunk)
    define fs1 where "fs1 = fs(fout \<mapsto> patch wpos (chunk rpos n c) d)"
    have step: "loadimage_loop acc fin rpos fout wpos sz fs =
        loadimage_loop acc fin (rpos + n) fout (wpos + n) (sz - n) fs1"
      using False less.prems len
      by (simp add: loadimage_loop.simps [of acc fin rpos fout wpos sz] Let_def n_def [symmetric] fs_write_def fs1_def)
    also have "\<dots> = (0, if sz - n = 0 then fs1
        else fs1(fout \<mapsto> patch (wpos + n) (chunk (rpos + n) (sz - n) c) (patch wpos (chunk rpos n c) d)))"
      by (rule less.IH) (use n less.prems in \<open>auto simp: fs1_def\<close>)
    also have "patch (wpos + n) (chunk (rpos + n) (sz - n) c) (patch wpos (chunk rpos n c) d) =
        patch wpos (chunk rpos sz c) d"
      using patch_append [of wpos "chunk rpos n c" "chunk (rpos + n) (sz - n) c" d] len n
        chunk_append [of rpos n "sz - n" c] by simp
    finally show ?thesis using False n by (auto simp: fs1_def)
  qed
qed

text \<open>
  \<open>loadimage\<close> copies exactly the \<open>size\<close> bytes from the offset in the input to the offset in the
  output, whatever the size is relative to its buffer, leaves the rest of the output alone and reports
  success, when the input is long enough and the output can be written.
\<close>

theorem loadimage_copies:
  assumes "fs fin = Some c" and "fs fout = Some d" and "fin \<noteq> fout" and "offsetin + sz \<le> length c"
    and "openable acc fin" and "openable acc fout" and "writable acc fout" and "0 < sz"
  shows "loadimage acc fin offsetin fout offsetout sz fs =
    (0, fs(fout \<mapsto> patch offsetout (chunk offsetin sz c) d))"
  using assms loadimage_loop_copies [of fs fin c offsetin sz fout d acc offsetout]
  by (simp add: loadimage_def fs_open_def)

theorem loadimage_copies_witness:
  "loadimage \<lparr>openable = \<lambda>_. True, writable = \<lambda>_. True\<rparr> ''a'' 1 ''b'' 2 2 [''a'' \<mapsto> [1, 2, 3, 4], ''b'' \<mapsto> [9, 9, 9]] =
    (0, [''a'' \<mapsto> [1, 2, 3, 4], ''b'' \<mapsto> [9, 9, 2, 3]])"
  using loadimage_copies [of "[''a'' \<mapsto> [1, 2, 3, 4], ''b'' \<mapsto> [9, 9, 9]]" "''a''" "[1, 2, 3, 4]" "''b''" "[9, 9, 9]"
      1 2 "\<lparr>openable = \<lambda>_. True, writable = \<lambda>_. True\<rparr>" 2]
  by (simp add: patch_def chunk_def fun_upd_twist)

end
