(* ===== verification/NvItem.thy ===== *)
theory NvItem
  imports NvFiles PacketLink
begin

text \<open>
  The non-volatile item daemon, \<open>nvm_daemon/nvitem.c\<close>: requests of the modem on the pipe, the images
  of the fixed and product data in memory with their checksums, the files they are kept in, and the
  wake lock.  \<open>emmc\<close> is the build with \<open>CONFIG_EMMC\<close>.  A store that leaves its buffer is
  \<^term>\<open>None\<close>.  The log is left out.
\<close>

definition FIXNV_SIZE :: nat where "FIXNV_SIZE = 64 * 1024"
definition RUNTIMENV_SIZE :: nat where "RUNTIMENV_SIZE = 256 * 1024"
definition PRODUCTINFO_SIZE :: nat where "PRODUCTINFO_SIZE = 3 * 1024"

record nv_cfg =
  emmc :: bool
  acc :: access
  monitor_pid :: int
  modem_mtd :: string
  dsp_mtd :: string
  image_len :: nat
  odd_address :: bool

record nv =
  fixnv_buffer :: bytes
  fixnv_buffer_offset :: u32
  phasecheck_buffer :: bytes
  phasecheck_buffer_offset :: u32
  indexvalue :: u16
  update_finxn_flag :: bool
  req_header :: bytes
  pipe :: link
  disk :: fs
  wake_lock :: bool

text \<open>The paths: the partition or the file, and its copy.\<close>

definition fixnv_path :: "nv_cfg \<Rightarrow> string" where
  "fixnv_path c = (if emmc c then ''/dev/block/mmcblk0p4'' else ''/fixnv/fixnv.bin'')"
definition fixnv_bk_path :: "nv_cfg \<Rightarrow> string" where
  "fixnv_bk_path c = (if emmc c then ''/dev/block/mmcblk0p5'' else ''/backupfixnv/fixnv.bin'')"
definition runtime_path :: "nv_cfg \<Rightarrow> string" where
  "runtime_path c = (if emmc c then ''/dev/block/mmcblk0p6'' else ''/runtimenv/runtimenv.bin'')"
definition runtime_bk_path :: "nv_cfg \<Rightarrow> string" where
  "runtime_bk_path c = (if emmc c then ''/dev/block/mmcblk0p7'' else ''/runtimenv/runtimenvbkup.bin'')"
definition product_path :: "nv_cfg \<Rightarrow> string" where
  "product_path c = (if emmc c then ''/dev/block/mmcblk0p8'' else ''/productinfo/productinfo.bin'')"
definition product_bk_path :: "nv_cfg \<Rightarrow> string" where
  "product_bk_path c = (if emmc c then ''/dev/block/mmcblk0p9'' else ''/productinfo/productinfobkup.bin'')"

subsection \<open>The checksum\<close>

fun checksum_words :: "u32 \<Rightarrow> bytes \<Rightarrow> u32" where
  "checksum_words checksum (a # b # dat) = checksum_words (checksum + ucast (mk16 b a)) dat"
| "checksum_words checksum [a] = checksum + ucast a"
| "checksum_words checksum [] = checksum"

text \<open>
  The branch for an odd address.  \<open>pstart\<close> is a pointer to 16-bit values there too, so every round
  reads four bytes and steps over four, for two bytes of \<open>len\<close>.
\<close>

fun checksum_odd :: "u32 \<Rightarrow> nat \<Rightarrow> bytes \<Rightarrow> u32 option" where
  "checksum_odd checksum len dat =
     (if len > 1 then
        (case dat of
           a # b # c # d # dat \<Rightarrow>
             checksum_odd (checksum + (ucast (mk16 b a) OR push_bit 8 (ucast (mk16 d c)))) (len - 2) dat
         | _ \<Rightarrow> None)
      else if len = 1 then (case dat of a # b # _ \<Rightarrow> Some (checksum + ucast (mk16 b a)) | _ \<Rightarrow> None)
      else Some checksum)"

text \<open>\<open>dat\<close> is the memory from the pointer to the end of the array.\<close>

definition calc_checksum :: "bool \<Rightarrow> bytes \<Rightarrow> nat \<Rightarrow> u16 option" where
  "calc_checksum odd_addr dat len =
     map_option fold_sum
       (if odd_addr then checksum_odd 0 len dat
        else map_option (checksum_words 0) (load 0 len dat))"

subsection \<open>Writing the images\<close>

definition open_nv :: "nv_cfg \<Rightarrow> string \<Rightarrow> fs \<Rightarrow> fs option" where
  "open_nv c path d =
     (if \<not> openable (acc c) path then None
      else case d path of
        Some _ \<Rightarrow> Some d
      | None \<Rightarrow> if emmc c then None else Some (d(path \<mapsto> [])))"

definition update_fixnvfile :: "nv_cfg \<Rightarrow> string \<Rightarrow> nat \<Rightarrow> nv \<Rightarrow> (int \<times> nv) option" where
  "update_fixnvfile c src sz s =
     do { sm \<leftarrow> calc_checksum (odd_address c) (fixnv_buffer s) (sz - 4);
          buf \<leftarrow> store16 (sz - 4) sm (fixnv_buffer s);
          buf \<leftarrow> store16 (sz - 2) (of_nat ((unat (indexvalue s) + 1) mod 100)) buf;
          buf \<leftarrow> store sz [0x5A, 0x5A, 0x5A, 0x5A] buf;
          let s = s\<lparr>fixnv_buffer := buf\<rparr> in
          case open_nv c src (disk s) of
            None \<Rightarrow> Some (- 1, s)
          | Some d \<Rightarrow> Some (1, s\<lparr>disk := snd (fs_write (acc c) src 0 (take (sz + 4) buf) d)\<rparr>) }"

definition update_backupfile :: "nv_cfg \<Rightarrow> string \<Rightarrow> nat \<Rightarrow> nv \<Rightarrow> int \<times> nv" where
  "update_backupfile c dst sz s =
     (case open_nv c dst (disk s) of
        None \<Rightarrow> (- 1, s)
      | Some d \<Rightarrow> (1, s\<lparr>disk := snd (fs_write (acc c) dst 0 (take (sz + 4) (fixnv_buffer s)) d)\<rparr>))"

text \<open>Both product files are written with the same \<open>n\<close> bytes.\<close>

definition write_product :: "nv_cfg \<Rightarrow> string \<Rightarrow> string \<Rightarrow> nat \<Rightarrow> nv \<Rightarrow> int \<times> nv" where
  "write_product c src dst n s =
     (case open_nv c src (disk s) of
        None \<Rightarrow> (- 1, s)
      | Some d \<Rightarrow>
          let d = snd (fs_write (acc c) src 0 (take n (phasecheck_buffer s)) d) in
          (case open_nv c dst d of
             None \<Rightarrow> (- 1, s\<lparr>disk := d\<rparr>)
           | Some d \<Rightarrow> (1, s\<lparr>disk := snd (fs_write (acc c) dst 0 (take n (phasecheck_buffer s)) d)\<rparr>)))"

definition update_productinfofile_emmc :: "nv_cfg \<Rightarrow> string \<Rightarrow> string \<Rightarrow> nat \<Rightarrow> nv \<Rightarrow> (int \<times> nv) option" where
  "update_productinfofile_emmc c src dst sz s =
     (if src = dst then Some (- 1, s) else
      do { buf \<leftarrow> store sz [0x5A, 0x5A, 0x5A, 0x5A] (phasecheck_buffer s);
           body \<leftarrow> load 0 (sz + 4) buf;
           buf \<leftarrow> store (sz + 4) (be32 (crc32b 0xFFFFFFFF (Some body))) buf;
           Some (write_product c src dst (sz + 8) (s\<lparr>phasecheck_buffer := buf\<rparr>)) })"

definition update_productinfofile :: "nv_cfg \<Rightarrow> string \<Rightarrow> string \<Rightarrow> nat \<Rightarrow> nv \<Rightarrow> (int \<times> nv) option" where
  "update_productinfofile c src dst sz s =
     (if src = dst then Some (- 1, s) else
      do { sm \<leftarrow> calc_checksum (odd_address c) (phasecheck_buffer s) sz;
           buf \<leftarrow> store16 sz sm (phasecheck_buffer s);
           buf \<leftarrow> store16 (sz + 2) (of_nat ((unat (indexvalue s) + 1) mod 100)) buf;
           Some (write_product c src dst (sz + 4) (s\<lparr>phasecheck_buffer := buf\<rparr>)) })"

subsection \<open>The request header\<close>

definition get16 :: "nat \<Rightarrow> bytes \<Rightarrow> u16" where
  "get16 p h = mk16 (h ! (p + 1)) (h ! p)"

definition get32 :: "nat \<Rightarrow> bytes \<Rightarrow> u32" where
  "get32 p h = push_bit 16 (ucast (get16 (p + 2) h)) OR ucast (get16 p h)"

definition header_type :: "bytes \<Rightarrow> u16" where "header_type h = get16 0 h"
definition header_req_type :: "bytes \<Rightarrow> u16" where "header_req_type h = get16 2 h"
definition header_offset :: "bytes \<Rightarrow> u32" where "header_offset h = get32 4 h"
definition header_size :: "bytes \<Rightarrow> u32" where "header_size h = get32 8 h"

subsection \<open>The payload\<close>

datatype nv_kind = FixNv | RuntimeNv nat nat | ProductInfo

text \<open>
  The loop over the payload.  The kind is what the code recognises by \<open>length\<close>; for the runtime data
  it holds the positions of the two descriptors.  The flag of the result tells that the pipe was at
  its end.
\<close>

function data_loop :: "nv_cfg \<Rightarrow> nv_kind \<Rightarrow> int \<Rightarrow> nv \<Rightarrow> (bool \<times> nv) option" where
  "data_loop c kind todo s =
     (if todo \<le> 0 then Some (False, s) else
      case link_read (nat (min todo (int DATA_BUF_LEN))) (pipe s) of
        None \<Rightarrow> None
      | Some (ReadError, l) \<Rightarrow> data_loop c kind todo (s\<lparr>pipe := l\<rparr>)
      | Some (ReadData bs, l) \<Rightarrow>
          let s = s\<lparr>pipe := l\<rparr>; n = length bs in
          if bs = [] then Some (True, s) else
          (case kind of
             RuntimeNv pos bkpos \<Rightarrow>
               let (w_cnt, d) = fs_write (acc c) (runtime_path c) pos bs (disk s); s = s\<lparr>disk := d\<rparr> in
               if w_cnt < 0 then data_loop c kind todo s
               else let (w_cnt, d) = fs_write (acc c) (runtime_bk_path c) bkpos bs (disk s); s = s\<lparr>disk := d\<rparr> in
                 if w_cnt < 0 then data_loop c (RuntimeNv (pos + n) bkpos) todo s
                 else data_loop c (RuntimeNv (pos + n) (bkpos + n)) (todo - int n) s
           | FixNv \<Rightarrow>
               (case store (unat (fixnv_buffer_offset s)) bs (fixnv_buffer s) of
                  None \<Rightarrow> None
                | Some buf \<Rightarrow>
                    data_loop c kind (todo - int n)
                      (s\<lparr>fixnv_buffer := buf, fixnv_buffer_offset := fixnv_buffer_offset s + of_nat n\<rparr>))
           | ProductInfo \<Rightarrow>
               (case store (unat (phasecheck_buffer_offset s)) bs (phasecheck_buffer s) of
                  None \<Rightarrow> None
                | Some buf \<Rightarrow>
                    data_loop c kind (todo - int n)
                      (s\<lparr>phasecheck_buffer := buf,
                         phasecheck_buffer_offset := phasecheck_buffer_offset s + of_nat n\<rparr>))))"
  by pat_completeness auto
termination
  by (relation "measure (\<lambda>(_, _, _, s). pending (read_results (pipe s)))")
    (auto dest!: link_read_pending simp: DATA_BUF_LEN_def)

declare data_loop.simps [simp del]

subsection \<open>The requests\<close>

datatype nv_next = Continue | Reopen | Exit

definition nv_reboot :: "nv_cfg \<Rightarrow> nv \<Rightarrow> nv" where
  "nv_reboot c s = s\<lparr>disk := snd (snd (check_mocor_reboot (acc c) (monitor_pid c) (modem_mtd c) (dsp_mtd c)
     (image_len c) (disk s)))\<rparr>"

definition nv_sync :: "nv_cfg \<Rightarrow> nv \<Rightarrow> (nv_next \<times> nv) option" where
  "nv_sync c s =
     do { let s = (if update_finxn_flag s then snd (update_backupfile c (fixnv_bk_path c) FIXNV_SIZE s) else s);
          let s = s\<lparr>update_finxn_flag := False\<rparr>;
          h \<leftarrow> store16 0 0 (req_header s);
          (_, l) \<leftarrow> link_write h (pipe s);
          Some (Continue, s\<lparr>req_header := h, pipe := l, wake_lock := False\<rparr>) }"

text \<open>What precedes the payload loop: \<^term>\<open>Inl\<close> is the end of the round.\<close>

definition nv_begin_fixnv :: "nv_cfg \<Rightarrow> nv \<Rightarrow> ((nv_next \<times> nv) + (nv_kind \<times> nv)) option" where
  "nv_begin_fixnv c s =
     (let s = s\<lparr>fixnv_buffer := replicate (FIXNV_SIZE + 4) 0xFF\<rparr> in
      case open_nv c (fixnv_path c) (disk s) of
        None \<Rightarrow> Some (Inl (Exit, s\<lparr>wake_lock := False\<rparr>))
      | Some d \<Rightarrow>
          do { content \<leftarrow> d (fixnv_path c);
               buf \<leftarrow> store 0 (take (FIXNV_SIZE + 4) content) (fixnv_buffer s);
               Some (Inr (FixNv, s\<lparr>disk := d, fixnv_buffer := buf,
                 indexvalue := get16 (FIXNV_SIZE - 2) buf,
                 fixnv_buffer_offset := header_offset (req_header s)\<rparr>)) })"

definition nv_begin_runtime :: "nv_cfg \<Rightarrow> nv \<Rightarrow> ((nv_next \<times> nv) + (nv_kind \<times> nv)) option" where
  "nv_begin_runtime c s =
     (let off = header_offset (req_header s); pos = (if unat off < 2 ^ 31 then unat off else 0) in
      case open_nv c (runtime_path c) (disk s) of
        None \<Rightarrow> Some (Inl (Exit, s\<lparr>wake_lock := False\<rparr>))
      | Some d \<Rightarrow>
          (case open_nv c (runtime_bk_path c) d of
             None \<Rightarrow> Some (Inl (Exit, s\<lparr>disk := d, wake_lock := False\<rparr>))
           | Some d \<Rightarrow> Some (Inr (RuntimeNv pos pos, s\<lparr>disk := d\<rparr>))))"

definition nv_begin_product :: "nv_cfg \<Rightarrow> nv \<Rightarrow> ((nv_next \<times> nv) + (nv_kind \<times> nv)) option" where
  "nv_begin_product c s =
     (let s = s\<lparr>phasecheck_buffer := replicate (PRODUCTINFO_SIZE + 8) 0xFF\<rparr> in
      case open_nv c (product_path c) (disk s) of
        None \<Rightarrow> Some (Inl (Exit, s\<lparr>wake_lock := False\<rparr>))
      | Some d \<Rightarrow>
          do { content \<leftarrow> d (product_path c);
               buf \<leftarrow> store 0 (take (PRODUCTINFO_SIZE + (if emmc c then 8 else 4)) content) (phasecheck_buffer s);
               Some (Inr (ProductInfo, s\<lparr>disk := d, phasecheck_buffer := buf,
                 indexvalue := (if emmc c then indexvalue s else get16 (PRODUCTINFO_SIZE + 2) buf),
                 phasecheck_buffer_offset := header_offset (req_header s)\<rparr>)) })"

text \<open>What follows it.\<close>

definition nv_finish :: "nv_cfg \<Rightarrow> nv_kind \<Rightarrow> nv \<Rightarrow> nv option" where
  "nv_finish c kind s =
     (case kind of
        RuntimeNv _ _ \<Rightarrow> Some s
      | ProductInfo \<Rightarrow>
          map_option snd ((if emmc c then update_productinfofile_emmc else update_productinfofile)
            c (product_path c) (product_bk_path c) PRODUCTINFO_SIZE s)
      | FixNv \<Rightarrow>
          map_option snd (update_fixnvfile c (fixnv_path c) FIXNV_SIZE (s\<lparr>update_finxn_flag := True\<rparr>)))"

definition nv_data :: "nv_cfg \<Rightarrow> nv \<Rightarrow> (nv_next \<times> nv) option" where
  "nv_data c s =
     (let ty = header_type (req_header s) in
      if ty \<noteq> 0 \<and> ty \<noteq> 1 \<and> ty \<noteq> 2 then Some (Continue, s\<lparr>wake_lock := False\<rparr>) else
      case (if ty = 0 then nv_begin_fixnv c s else if ty = 1 then nv_begin_runtime c s else nv_begin_product c s) of
        None \<Rightarrow> None
      | Some (Inl r) \<Rightarrow> Some r
      | Some (Inr (kind, s)) \<Rightarrow>
          do { (eof, s) \<leftarrow> data_loop c kind (sint (header_size (req_header s))) s;
               if eof then Some (Reopen, (nv_reboot c s)\<lparr>wake_lock := False\<rparr>)
               else do { s \<leftarrow> nv_finish c kind s; Some (Continue, s\<lparr>wake_lock := False\<rparr>) } })"

text \<open>One round of \<open>while (1)\<close>.\<close>

definition nv_round :: "nv_cfg \<Rightarrow> nv \<Rightarrow> (nv_next \<times> nv) option" where
  "nv_round c s =
     do { (r, l) \<leftarrow> link_read 12 (pipe s);
          let s = s\<lparr>pipe := l, wake_lock := True\<rparr>;
          case r of
            ReadError \<Rightarrow> Some (Continue, s\<lparr>wake_lock := False\<rparr>)
          | ReadData bs \<Rightarrow>
              if bs = [] then Some (Reopen, nv_reboot c s)
              else do { h \<leftarrow> store 0 bs (req_header s);
                        let s = s\<lparr>req_header := h\<rparr>;
                        if header_req_type h = 1 then nv_sync c s else nv_data c s } }"

end
