(* ===== verification/NvRequests.thy ===== *)
theory NvRequests
  imports NvItem
begin

text \<open>
  What a request of the modem does to the files of \<open>NvItem\<close>: the fixed data is patched, its checksum,
  index and magic renewed; the sync command copies it to the backup; the runtime data goes to both
  files; requests that do not fit leave the buffer; and the wake lock is released, but for one path.
\<close>

subsection \<open>The checksum\<close>

lemma checksum_words_sum: "checksum_words c bs = c + of_nat (word_sum bs)"
proof (induction c bs rule: checksum_words.induct)
  case (1 c a b bs)
  then show ?case by (simp add: algebra_simps)
next
  case (2 c a)
  then show ?case by simp
qed simp

lemma calc_checksum_even: "len \<le> length dat \<Longrightarrow> calc_checksum False dat len = Some (boot_checksum (take len dat))"
  by (simp add: calc_checksum_def load_def checksum_words_sum boot_checksum_sum)

text \<open>
  On an even address \<open>calc_checksum\<close> is the checksum of the download protocol over the same bytes.
\<close>

theorem calc_checksum_is_boot_checksum:
  assumes "len \<le> length dat"
  shows "calc_checksum False dat len = Some (boot_checksum (take len dat))"
  using assms by (rule calc_checksum_even)

theorem calc_checksum_is_boot_checksum_witness:
  "calc_checksum False [1, 2, 3, 4] 3 = Some (boot_checksum [1, 2, 3])"
  using calc_checksum_is_boot_checksum [of 3 "[1, 2, 3, 4]"] by simp

lemma checksum_odd_needs:
  "checksum_odd c len dat = Some r \<Longrightarrow> 2 \<le> len \<Longrightarrow> 2 * len \<le> length dat + 2"
proof (induction len arbitrary: c dat rule: less_induct)
  case (less len)
  then obtain a b d e r' where dat: "dat = a # b # d # e # r'"
    by (subst (asm) checksum_odd.simps) (auto split: list.splits if_splits)
  obtain c' where c': "checksum_odd c' (len - 2) r' = Some r"
    using less.prems unfolding dat by (subst (asm) checksum_odd.simps) (auto split: if_splits)
  show ?case
  proof (cases "2 \<le> len - 2")
    case True
    then have "2 * (len - 2) \<le> length r' + 2" using less.IH [OF _ c'] by simp
    then show ?thesis using dat by simp
  next
    case False
    then show ?thesis using less.prems dat by simp
  qed
qed

text \<open>
  On an odd address the same function steps four bytes for every two it counts, so with the sizes
  the daemon uses it reads behind its buffer: the checksum of the fixed data cannot be computed there.
\<close>

theorem calc_checksum_odd_overruns:
  assumes "length buf = FIXNV_SIZE + 4"
  shows "calc_checksum True buf (FIXNV_SIZE - 4) = None"
  using checksum_odd_needs [of 0 "FIXNV_SIZE - 4" buf] assms
  by (cases "checksum_odd 0 (FIXNV_SIZE - 4) buf") (auto simp: calc_checksum_def FIXNV_SIZE_def)

theorem calc_checksum_odd_overruns_witness:
  "calc_checksum True (replicate (FIXNV_SIZE + 4) 0) (FIXNV_SIZE - 4) = None"
  by (rule calc_checksum_odd_overruns) simp

subsection \<open>The payload\<close>

text \<open>The pipe stays open: no read will return nothing.\<close>

definition alive :: "link \<Rightarrow> bool" where
  "alive l \<longleftrightarrow> ReadData [] \<notin> set (read_results l)"

lemma link_read_alive:
  assumes "link_read n l = Some (r, l')" and "alive l" and "0 < n"
  shows "alive l' \<and> r \<noteq> ReadData [] \<and> (\<forall>bs. r = ReadData bs \<longrightarrow> length bs \<le> n)"
proof -
  have "drop n bs \<noteq> []" if "n < length bs" for bs :: bytes using that by simp
  moreover have "take n bs \<noteq> []" if "bs \<noteq> []" for bs :: bytes using that assms(3) by simp
  ultimately show ?thesis
    using assms by (cases "read_results l" rule: incoming.cases) (auto simp: link_read_def alive_def split: if_splits)
qed

lemma link_read_some:
  "incoming (read_results l) \<noteq> [] \<Longrightarrow> \<exists>r l'. link_read n l = Some (r, l')"
  by (cases "read_results l" rule: incoming.cases) (auto simp: link_read_def)

text \<open>One read of the payload loop: it makes progress or is repeated.\<close>

lemma payload_read:
  assumes "alive (pipe s)" and "0 < n" and "n \<le> length (incoming (read_results (pipe s)))"
  obtains r l where "link_read (nat (min (int n) (int DATA_BUF_LEN))) (pipe s) = Some (r, l)" "alive l"
    "pending (read_results l) < pending (read_results (pipe s))"
    "r = ReadError \<and> incoming (read_results l) = incoming (read_results (pipe s)) \<or>
     (\<exists>bs. r = ReadData bs \<and> bs \<noteq> [] \<and> length bs \<le> n
        \<and> incoming (read_results (pipe s)) = bs @ incoming (read_results l))"
proof -
  let ?m = "nat (min (int n) (int DATA_BUF_LEN))"
  have m: "0 < ?m" "?m \<le> n" using assms(2) by (auto simp: DATA_BUF_LEN_def)
  have "incoming (read_results (pipe s)) \<noteq> []" using assms(2,3) by auto
  then obtain r l where r: "link_read ?m (pipe s) = Some (r, l)"
    using link_read_some [of "pipe s" ?m] by blast
  note al = link_read_alive [OF r assms(1) m(1)] and inc = link_read_incoming [OF r]
  have "r = ReadError \<and> incoming (read_results l) = incoming (read_results (pipe s)) \<or>
     (\<exists>bs. r = ReadData bs \<and> bs \<noteq> [] \<and> length bs \<le> n
        \<and> incoming (read_results (pipe s)) = bs @ incoming (read_results l))"
    using al inc m(2) by (cases r) auto
  then show ?thesis using that r al link_read_pending [OF r m(1)] by blast
qed

lemma unat_add_of_nat: "unat (w :: u32) + k < 2 ^ 32 \<Longrightarrow> unat (w + of_nat k) = unat w + k"
proof -
  assume le: "unat w + k < 2 ^ 32"
  have "w + of_nat k = of_nat (unat w + k)" by simp
  then show ?thesis using le by (simp only: unat_of_nat) simp
qed

lemma data_loop_fixnv:
  assumes "alive (pipe s)" and "n \<le> length (incoming (read_results (pipe s)))"
    and "unat (fixnv_buffer_offset s) + n \<le> length (fixnv_buffer s)" and "length (fixnv_buffer s) < 2 ^ 32"
  shows "\<exists>l buf. data_loop c FixNv (int n) s = Some (False, s\<lparr>pipe := l, fixnv_buffer := buf,
      fixnv_buffer_offset := fixnv_buffer_offset s + of_nat n\<rparr>)
    \<and> store (unat (fixnv_buffer_offset s)) (take n (incoming (read_results (pipe s)))) (fixnv_buffer s) = Some buf"
  using assms
proof (induction "pending (read_results (pipe s))" arbitrary: n s rule: less_induct)
  case less
  show ?case
  proof (cases "n = 0")
    case True
    then show ?thesis using less.prems(3)
      by (auto simp: data_loop.simps store_def intro!: exI [of _ "pipe s"])
  next
    case False
    then have npos: "0 < n" by simp
    obtain r l where r: "link_read (nat (min (int n) (int DATA_BUF_LEN))) (pipe s) = Some (r, l)" "alive l"
      "pending (read_results l) < pending (read_results (pipe s))"
      and cases: "r = ReadError \<and> incoming (read_results l) = incoming (read_results (pipe s)) \<or>
       (\<exists>bs. r = ReadData bs \<and> bs \<noteq> [] \<and> length bs \<le> n
          \<and> incoming (read_results (pipe s)) = bs @ incoming (read_results l))"
      using payload_read [OF less.prems(1) npos less.prems(2)] by blast
    from cases show ?thesis
    proof (elim disjE exE conjE)
      assume e: "r = ReadError" "incoming (read_results l) = incoming (read_results (pipe s))"
      have "data_loop c FixNv (int n) s = data_loop c FixNv (int n) (s\<lparr>pipe := l\<rparr>)"
        using r(1) npos e(1) by (simp add: data_loop.simps [of c FixNv "int n" s])
      then show ?thesis
        using less.hyps [of "s\<lparr>pipe := l\<rparr>" n] r(2,3) e(2) less.prems by simp
    next
      fix bs assume d: "r = ReadData bs" "bs \<noteq> []" "length bs \<le> n"
        and inc: "incoming (read_results (pipe s)) = bs @ incoming (read_results l)"
      obtain buf1 where b1: "store (unat (fixnv_buffer_offset s)) bs (fixnv_buffer s) = Some buf1"
        "length buf1 = length (fixnv_buffer s)"
        using store_total [of "unat (fixnv_buffer_offset s)" bs "fixnv_buffer s"] less.prems(3) d(3) by auto
      define s1 where "s1 = s\<lparr>pipe := l, fixnv_buffer := buf1,
          fixnv_buffer_offset := fixnv_buffer_offset s + of_nat (length bs)\<rparr>"
      have off: "unat (fixnv_buffer_offset s1) = unat (fixnv_buffer_offset s) + length bs"
      proof -
        have "unat (fixnv_buffer_offset s) + length bs < 2 ^ 32" using less.prems(3,4) d(3) by linarith
        then show ?thesis by (simp add: s1_def unat_add_of_nat)
      qed
      have step: "data_loop c FixNv (int n) s = data_loop c FixNv (int (n - length bs)) s1"
        using r(1) npos d b1(1) by (simp add: data_loop.simps [of c FixNv "int n" s] s1_def Let_def)
      have "\<exists>l' buf. data_loop c FixNv (int (n - length bs)) s1 = Some (False, s1\<lparr>pipe := l', fixnv_buffer := buf,
            fixnv_buffer_offset := fixnv_buffer_offset s1 + of_nat (n - length bs)\<rparr>)
          \<and> store (unat (fixnv_buffer_offset s1)) (take (n - length bs) (incoming (read_results (pipe s1))))
              (fixnv_buffer s1) = Some buf"
        using less.hyps [of s1 "n - length bs"] r(2,3) inc less.prems d(3) off b1(2)
        by (simp add: s1_def)
      then obtain l' buf where IH: "data_loop c FixNv (int (n - length bs)) s1 =
          Some (False, s1\<lparr>pipe := l', fixnv_buffer := buf,
            fixnv_buffer_offset := fixnv_buffer_offset s1 + of_nat (n - length bs)\<rparr>)"
        "store (unat (fixnv_buffer_offset s1)) (take (n - length bs) (incoming (read_results l))) buf1 = Some buf"
        by (auto simp: s1_def)
      have "of_nat (length bs) + of_nat (n - length bs) = (of_nat n :: u32)"
        using d(3) by (metis le_add_diff_inverse of_nat_add)
      moreover have "store (unat (fixnv_buffer_offset s)) (take n (incoming (read_results (pipe s)))) (fixnv_buffer s) = Some buf"
        using IH(2) store_store_append [OF b1(1)] d(3) by (simp add: off inc)
      ultimately show ?thesis
        using step IH(1) by (intro exI [of _ l'] exI [of _ buf]) (simp add: s1_def add.assoc)
    qed
  qed
qed

subsection \<open>The fixed data\<close>

lemma take_chunk: "take (a + b) xs = take a xs @ chunk a b xs"
  by (simp add: chunk_def take_add)

text \<open>The image \<open>update_fixnvfile\<close> writes: data, checksum, next index, magic.\<close>

definition fixnv_image :: "nat \<Rightarrow> u16 \<Rightarrow> bytes \<Rightarrow> bytes" where
  "fixnv_image n idx body =
     body @ le16 (boot_checksum body) @ le16 (of_nat ((unat idx + 1) mod 100)) @ [0x5A, 0x5A, 0x5A, 0x5A]"

lemma update_fixnvfile_image:
  assumes "\<not> odd_address c" and "length (fixnv_buffer s) = n + 8"
    and "open_nv c path (disk s) = Some d" and "d path = Some old" and "writable (acc c) path"
  shows "update_fixnvfile c path (n + 4) s = Some (1, s\<lparr>
      fixnv_buffer := fixnv_image n (indexvalue s) (take n (fixnv_buffer s)),
      disk := d(path \<mapsto> patch 0 (fixnv_image n (indexvalue s) (take n (fixnv_buffer s))) old)\<rparr>)"
proof -
  let ?b = "fixnv_buffer s"
  define sm where "sm = boot_checksum (take n ?b)"
  define ix where "ix = (of_nat (Suc (unat (indexvalue s)) mod 100) :: u16)"
  define img where "img = fixnv_image n (indexvalue s) (take n ?b)"
  have cs: "calc_checksum (odd_address c) ?b n = Some sm"
    using assms(1,2) calc_checksum_even [of n ?b] by (simp add: sm_def)
  have b1: "store n (le16 sm) ?b = Some (take n ?b @ le16 sm @ drop (n + 2) ?b)"
    using assms(2) by (simp add: store_def)
  have b2: "store (n + 2) (le16 ix) (take n ?b @ le16 sm @ drop (n + 2) ?b) =
      Some (take n ?b @ le16 sm @ le16 ix @ drop (n + 4) ?b)"
    using assms(2) by (simp add: store_def add.commute eval_nat_numeral)
  have b3: "store (n + 4) [0x5A, 0x5A, 0x5A, 0x5A] (take n ?b @ le16 sm @ le16 ix @ drop (n + 4) ?b) = Some img"
    using assms(2) by (simp add: store_def img_def fixnv_image_def sm_def ix_def add.commute)
  have len: "length img = n + 8" using assms(2) by (simp add: img_def fixnv_image_def)
  have all: "take (8 + n) img = img" using len by simp
  show ?thesis
    using cs b1 b2 b3 assms(3-5) all
    by (simp add: update_fixnvfile_def Let_def fs_write_def img_def [symmetric] ix_def [symmetric])
qed

lemma fixnv_image_checks:
  assumes "even n" and "n < 131070" and "length body = n"
  shows "boot_checksum (take (n + 2) (fixnv_image n idx body)) = 0"
  using boot_checksum_own_checksum [of body] assms by (simp add: fixnv_image_def)

text \<open>What the daemon has in memory of a file: its first bytes, \<open>0xFF\<close> behind its end.\<close>

definition loaded :: "nat \<Rightarrow> bytes \<Rightarrow> bytes" where
  "loaded n content = take n content @ replicate (n - length content) 0xFF"

lemma store_loaded: "store 0 (take n content) (replicate n 0xFF) = Some (loaded n content)"
  by (auto simp: store_def loaded_def)

lemma length_loaded [simp]: "length (loaded n content) = n"
  by (simp add: loaded_def)

lemma take_store:
  assumes "store off p b = Some b'" and "off + length p \<le> n" and "n \<le> length b"
  shows "take n b' = patch off p (take n b)"
proof -
  have b': "b' = take off b @ p @ drop (off + length p) b"
    using assms(1) by (auto simp: store_def split: if_splits)
  have "length (take off b) = off" using assms by simp
  then have "take n b' = take off b @ p @ take (n - off - length p) (drop (off + length p) b)"
    using assms(2) by (simp add: b')
  moreover have "patch off p (take n b) = take off b @ p @ drop (off + length p) (take n b)"
    using assms by (simp add: patch_def min.absorb1)
  ultimately show ?thesis by (simp add: drop_take)
qed

text \<open>
  C18: A request for the fixed data that fits before the trailer, in whatever pieces its payload
  arrives: the file then starts with the old data patched by the payload, a checksum that verifies,
  the old index plus one modulo 100 and the magic; the daemon is ready for the next request, has noted
  that the backup is due and holds no wake lock.
\<close>

theorem nv_round_fixnv:
  assumes "link_read 12 (pipe s) = Some (ReadData h, l)" and "length h = 12" and "length (req_header s) = 12"
    and "header_type h = 0" and "header_req_type h \<noteq> 1"
    and "alive l" and "header_size h = of_nat n" and "n < 2 ^ 31" and "n \<le> length (incoming (read_results l))"
    and "unat (header_offset h) + n \<le> FIXNV_SIZE - 4"
    and "open_nv c (fixnv_path c) (disk s) = Some d" and "d (fixnv_path c) = Some old"
    and "writable (acc c) (fixnv_path c)" and "\<not> odd_address c"
  shows "\<exists>s' img. nv_round c s = Some (Continue, s') \<and> disk s' = d(fixnv_path c \<mapsto> patch 0 img old)
    \<and> img = fixnv_image (FIXNV_SIZE - 4) (get16 (FIXNV_SIZE - 2) (loaded (FIXNV_SIZE + 4) old))
        (patch (unat (header_offset h)) (take n (incoming (read_results l))) (loaded (FIXNV_SIZE - 4) old))
    \<and> boot_checksum (take (FIXNV_SIZE - 2) img) = 0
    \<and> fixnv_buffer s' = img \<and> update_finxn_flag s' \<and> \<not> wake_lock s'"
proof -
  define N where "N = FIXNV_SIZE - 4"
  have N: "FIXNV_SIZE = N + 4" "even N" "N < 131070" "N + 8 < 2 ^ 32" by (simp_all add: N_def FIXNV_SIZE_def)
  let ?P = "fixnv_path c" and ?pay = "take n (incoming (read_results l))"
  have hd: "store 0 h (req_header s) = Some h" using assms(2,3) by (simp add: store_def)
  have hne: "h \<noteq> []" using assms(2) by auto
  define B where "B = loaded (N + 8) old"
  define s1 where "s1 = s\<lparr>pipe := l, wake_lock := True, req_header := h, disk := d, fixnv_buffer := B,
      indexvalue := get16 (N + 2) B, fixnv_buffer_offset := header_offset h\<rparr>"
  have sz: "sint (header_size h) = int n"
    using assms(7,8) by (simp add: signed_of_nat signed_take_bit_int_eq_self)
  have bgn: "nv_begin_fixnv c (s\<lparr>pipe := l, wake_lock := True, req_header := h\<rparr>) = Some (Inr (FixNv, s1))"
    using assms(11,12) store_loaded [of "N + 8" old] by (simp add: nv_begin_fixnv_def Let_def N(1) B_def s1_def add.commute [of 8 N])
  have lp: "length ?pay = n" using assms(9) by simp
  have fit: "unat (header_offset h) + n \<le> N" using assms(10) by (simp add: N_def)
  obtain l2 buf where loop: "data_loop c FixNv (int n) s1 = Some (False, s1\<lparr>pipe := l2, fixnv_buffer := buf,
      fixnv_buffer_offset := fixnv_buffer_offset s1 + of_nat n\<rparr>)"
    "store (unat (header_offset h)) ?pay B = Some buf"
    using data_loop_fixnv [of s1 n c] assms(6,9) fit N(4) by (auto simp: s1_def B_def)
  have "take N B = loaded N old" by (simp add: B_def loaded_def min_def)
  then have take_buf: "take N buf = patch (unat (header_offset h)) ?pay (loaded N old)"
    using take_store [OF loop(2), of N] lp fit by (simp add: B_def)
  have lb: "length buf = N + 8" using length_store [OF loop(2)] by (simp add: B_def)
  define img where "img = fixnv_image N (get16 (N + 2) B) (take N buf)"
  define s2 where "s2 = s1\<lparr>pipe := l2, fixnv_buffer := buf,
      fixnv_buffer_offset := fixnv_buffer_offset s1 + of_nat n, update_finxn_flag := True\<rparr>"
  have op: "open_nv c ?P (disk s2) = Some d"
    using assms(11,12) by (auto simp: open_nv_def s2_def s1_def split: if_splits option.splits)
  have up: "update_fixnvfile c ?P (N + 4) s2 = Some (1, s2\<lparr>fixnv_buffer := img, disk := d(?P \<mapsto> patch 0 img old)\<rparr>)"
    using update_fixnvfile_image [of c s2 N ?P d old] assms(12-14) op lb
    by (simp add: s2_def s1_def img_def)
  have hs: "req_header s1 = h" by (simp add: s1_def)
  have "nv_round c s = Some (Continue, s2\<lparr>fixnv_buffer := img, disk := d(?P \<mapsto> patch 0 img old), wake_lock := False\<rparr>)"
    using assms(1,4,5) hd hne bgn sz loop(1) up
    by (simp add: nv_round_def nv_data_def Let_def nv_finish_def N(1) s2_def hs)
  moreover have "boot_checksum (take (N + 2) img) = 0"
    unfolding img_def by (rule fixnv_image_checks) (use N lb in auto)
  moreover have "img = fixnv_image N (get16 (N + 2) B) (patch (unat (header_offset h)) ?pay (loaded N old))"
    by (simp add: img_def take_buf)
  ultimately show ?thesis by (simp add: N(1) B_def s2_def add.commute [of 8 N])
qed

definition test_cfg :: nv_cfg where
  "test_cfg = \<lparr>emmc = False, acc = \<lparr>openable = \<lambda>_. True, writable = \<lambda>_. True\<rparr>, monitor_pid = 0,
     modem_mtd = [], dsp_mtd = [], image_len = 0, odd_address = False\<rparr>"

definition test_nv :: "read_result list \<Rightarrow> fs \<Rightarrow> nv" where
  "test_nv rs d = \<lparr>fixnv_buffer = [], fixnv_buffer_offset = 0, phasecheck_buffer = [],
     phasecheck_buffer_offset = 0, indexvalue = 0, update_finxn_flag = False, req_header = replicate 12 0,
     pipe = \<lparr>send_buffer = [], write_results = [12], read_results = rs, sent = []\<rparr>, disk = d, wake_lock = False\<rparr>"

lemmas header_simps = header_type_def header_req_type_def header_offset_def header_size_def get32_def get16_def
  mk16_def

theorem nv_round_fixnv_witness:
  "\<exists>s' img. nv_round test_cfg (test_nv [ReadData [0, 0, 0, 0, 10, 0, 0, 0, 2, 0, 0, 0], ReadData [7], ReadError,
        ReadData [8]] Map.empty) = Some (Continue, s')
    \<and> boot_checksum (take (FIXNV_SIZE - 2) img) = 0 \<and> fixnv_buffer s' = img \<and> \<not> wake_lock s'"
proof -
  let ?h = "[0, 0, 0, 0, 10, 0, 0, 0, 2, 0, 0, 0]"
  let ?s = "test_nv [ReadData ?h, ReadData [7], ReadError, ReadData [8]] Map.empty"
  define l where "l = \<lparr>send_buffer = [], write_results = [12], read_results = [ReadData [7], ReadError, ReadData [8]],
      sent = []\<rparr>"
  have r: "link_read 12 (pipe ?s) = Some (ReadData ?h, l)" by (simp add: test_nv_def link_read_def l_def)
  have h: "header_type ?h = 0" "header_req_type ?h \<noteq> 1" "header_size ?h = of_nat 2" "unat (header_offset ?h) = 10"
    by (simp_all add: header_simps)
  have l: "alive l" "2 \<le> length (incoming (read_results l))" by (simp_all add: l_def alive_def)
  have fit: "unat (header_offset ?h) + 2 \<le> FIXNV_SIZE - 4" using h(4) by (simp add: FIXNV_SIZE_def)
  have op: "open_nv test_cfg (fixnv_path test_cfg) (disk ?s) = Some [''/fixnv/fixnv.bin'' \<mapsto> []]"
    "[''/fixnv/fixnv.bin'' \<mapsto> []] (fixnv_path test_cfg) = Some []" "writable (acc test_cfg) (fixnv_path test_cfg)"
    "\<not> odd_address test_cfg" "length (req_header ?s) = 12"
    by (simp_all add: test_nv_def test_cfg_def open_nv_def fixnv_path_def)
  show ?thesis
    using nv_round_fixnv [OF r _ op(5) h(1,2) l(1) h(3) _ l(2) fit op(1-4)] by auto
qed

subsection \<open>The backup\<close>

text \<open>
  The sync command after an update of the fixed data leaves the backup with the image that was
  written to the file, answers on the pipe with the header whose type is \<open>0\<close>, and releases the wake
  lock; without an update it leaves the files alone.
\<close>

theorem nv_round_sync:
  assumes "link_read 12 (pipe s) = Some (ReadData h, l)" and "length h = 12" and "length (req_header s) = 12"
    and "header_req_type h = 1" and "write_results l = int 12 # ws"
    and "length (fixnv_buffer s) = FIXNV_SIZE + 4"
    and "open_nv c (fixnv_bk_path c) (disk s) = Some d" and "d (fixnv_bk_path c) = Some old"
    and "writable (acc c) (fixnv_bk_path c)"
  shows "\<exists>s'. nv_round c s = Some (Continue, s') \<and> \<not> wake_lock s' \<and> \<not> update_finxn_flag s'
    \<and> sent (pipe s') = sent l @ [[0, 0] @ drop 2 h]
    \<and> disk s' = (if update_finxn_flag s then d(fixnv_bk_path c \<mapsto> patch 0 (fixnv_buffer s) old) else disk s)"
proof -
  have hd: "store 0 h (req_header s) = Some h" using assms(2,3) by (simp add: store_def)
  have hne: "h \<noteq> []" using assms(2) by auto
  have h0: "store 0 (le16 0) h = Some ([0, 0] @ drop 2 h)"
    using assms(2) by (simp add: store_def le16_def lo8_def hi8_def numeral_2_eq_2)
  define s1 where "s1 = s\<lparr>pipe := l, wake_lock := True, req_header := h\<rparr>"
  define s2 where "s2 = (if update_finxn_flag s then snd (update_backupfile c (fixnv_bk_path c) FIXNV_SIZE s1) else s1)"
  have s2: "pipe s2 = l" "req_header s2 = h"
    "disk s2 = (if update_finxn_flag s then d(fixnv_bk_path c \<mapsto> patch 0 (fixnv_buffer s) old) else disk s)"
    using assms(6-9) by (auto simp: s2_def s1_def update_backupfile_def fs_write_def)
  have lw: "link_write ([0, 0] @ drop 2 h) l =
      Some (12, l\<lparr>write_results := ws, sent := sent l @ [[0, 0] @ drop 2 h]\<rparr>)"
    using assms(2,5) by (simp add: link_write_Cons)
  have "nv_round c s = nv_sync c s1"
    using assms(1,4) hd hne by (simp add: nv_round_def s1_def)
  also have "\<dots> = Some (Continue, s2\<lparr>update_finxn_flag := False, req_header := [0, 0] @ drop 2 h,
      pipe := l\<lparr>write_results := ws, sent := sent l @ [[0, 0] @ drop 2 h]\<rparr>, wake_lock := False\<rparr>)"
  proof -
    have "update_finxn_flag s1 = update_finxn_flag s" by (simp add: s1_def)
    then show ?thesis
      unfolding nv_sync_def Let_def using h0 lw s2(1,2) by (simp add: s2_def [symmetric])
  qed
  finally show ?thesis using s2(3) by simp
qed

theorem nv_round_sync_witness:
  "\<exists>s'. nv_round test_cfg ((test_nv [ReadData [5, 0, 1, 0, 0, 0, 0, 0, 0, 0, 0, 0]] Map.empty)
      \<lparr>fixnv_buffer := replicate (FIXNV_SIZE + 4) 9, update_finxn_flag := True\<rparr>) = Some (Continue, s')
    \<and> sent (pipe s') = [[0, 0, 1, 0, 0, 0, 0, 0, 0, 0, 0, 0]]"
proof -
  let ?l = "\<lparr>send_buffer = [], write_results = [12], read_results = [], sent = []\<rparr>"
  show ?thesis
    using nv_round_sync [of "(test_nv [ReadData [5, 0, 1, 0, 0, 0, 0, 0, 0, 0, 0, 0]] Map.empty)
        \<lparr>fixnv_buffer := replicate (FIXNV_SIZE + 4) 9, update_finxn_flag := True\<rparr>"
        "[5, 0, 1, 0, 0, 0, 0, 0, 0, 0, 0, 0]" ?l "[]" test_cfg "[''/backupfixnv/fixnv.bin'' \<mapsto> []]" "[]"]
    by (simp add: test_nv_def test_cfg_def link_read_def header_simps open_nv_def fixnv_bk_path_def) blast
qed

subsection \<open>Requests that do not fit, and the wake lock\<close>

text \<open>
  The test that a request fits its image has no effect: when the first piece of the payload of a
  request for the fixed data ends behind the buffer, the round writes outside it.
\<close>

theorem nv_round_oversized_overruns:
  assumes "link_read 12 (pipe s) = Some (ReadData h, l)" and "length h = 12" and "length (req_header s) = 12"
    and "header_type h = 0" and "header_req_type h \<noteq> 1" and "0 < sint (header_size h)"
    and "link_read (nat (min (sint (header_size h)) (int DATA_BUF_LEN))) l = Some (ReadData bs, l')"
    and "bs \<noteq> []" and "FIXNV_SIZE + 4 < unat (header_offset h) + length bs"
    and "open_nv c (fixnv_path c) (disk s) = Some d" and "d (fixnv_path c) = Some old"
  shows "nv_round c s = None"
proof -
  have hd: "store 0 h (req_header s) = Some h" using assms(2,3) by (simp add: store_def)
  have hne: "h \<noteq> []" using assms(2) by auto
  define B where "B = loaded (FIXNV_SIZE + 4) old"
  define s1 where "s1 = s\<lparr>pipe := l, wake_lock := True, req_header := h, disk := d, fixnv_buffer := B,
      indexvalue := get16 (FIXNV_SIZE - 2) B, fixnv_buffer_offset := header_offset h\<rparr>"
  have bgn: "nv_begin_fixnv c (s\<lparr>pipe := l, wake_lock := True, req_header := h\<rparr>) = Some (Inr (FixNv, s1))"
    using assms(10,11) store_loaded [of "FIXNV_SIZE + 4" old] by (simp add: nv_begin_fixnv_def Let_def B_def s1_def)
  have "store (unat (header_offset h)) bs B = None"
    using assms(9) by (simp add: B_def)
  then have loop: "data_loop c FixNv (sint (header_size h)) s1 = None"
    using assms(6-8) by (subst data_loop.simps) (simp add: s1_def Let_def del: store_fits)
  have hs: "req_header s1 = h" by (simp add: s1_def)
  show ?thesis
    using assms(1,4,5) hd hne bgn loop by (simp add: nv_round_def nv_data_def Let_def hs)
qed

theorem nv_round_oversized_overruns_witness:
  "nv_round test_cfg (test_nv [ReadData [0, 0, 0, 0, 3, 0, 1, 0, 2, 0, 0, 0], ReadData [7, 8]] Map.empty) = None"
proof -
  let ?l = "\<lparr>send_buffer = [], write_results = [12], read_results = [ReadData [7, 8]], sent = []\<rparr>"
  show ?thesis
    using nv_round_oversized_overruns [of "test_nv [ReadData [0, 0, 0, 0, 3, 0, 1, 0, 2, 0, 0, 0], ReadData [7, 8]] Map.empty"
        "[0, 0, 0, 0, 3, 0, 1, 0, 2, 0, 0, 0]" ?l "[7, 8]"
        "\<lparr>send_buffer = [], write_results = [12], read_results = [], sent = []\<rparr>"
        test_cfg "[''/fixnv/fixnv.bin'' \<mapsto> []]" "[]"]
    by (simp add: test_nv_def test_cfg_def link_read_def header_simps FIXNV_SIZE_def DATA_BUF_LEN_def open_nv_def
        fixnv_path_def)
qed

text \<open>
  Whatever the request and whatever fails, a round that ends has released the wake lock, except
  when the header could not be read because the pipe was at its end: then it is kept.
\<close>

theorem nv_round_wake_lock:
  assumes "nv_round c s = Some (next, s')"
  shows "wake_lock s' \<longleftrightarrow> (\<exists>l. link_read 12 (pipe s) = Some (ReadData [], l))"
proof -
  from assms obtain r l where r: "link_read 12 (pipe s) = Some (r, l)"
    by (cases "link_read 12 (pipe s)") (auto simp: nv_round_def)
  have keep: "\<not> wake_lock s'" if "nv_sync c s1 = Some (next, s') \<or> nv_data c s1 = Some (next, s')" for s1
    using that
    by (auto simp: nv_sync_def nv_data_def nv_begin_fixnv_def nv_begin_runtime_def nv_begin_product_def Let_def
        split: if_splits Option.bind_splits option.splits sum.splits prod.splits)
  show ?thesis
  proof (cases "r = ReadData []")
    case True
    then show ?thesis using assms r by (auto simp: nv_round_def nv_reboot_def)
  next
    case False
    then have "\<not> wake_lock s'"
      using assms r keep
      by (cases r) (auto simp: nv_round_def Let_def split: if_splits Option.bind_splits)
    then show ?thesis using False r by auto
  qed
qed

theorem nv_round_wake_lock_witness:
  "\<exists>s'. nv_round test_cfg (test_nv [ReadData []] Map.empty) = Some (Reopen, s') \<and> wake_lock s'"
proof -
  have r: "\<exists>s'. nv_round test_cfg (test_nv [ReadData []] Map.empty) = Some (Reopen, s')"
    by (simp add: nv_round_def test_nv_def link_read_def)
  then obtain s' where r: "nv_round test_cfg (test_nv [ReadData []] Map.empty) = Some (Reopen, s')" by blast
  have "\<exists>l. link_read 12 (pipe (test_nv [ReadData []] Map.empty)) = Some (ReadData [], l)"
    by (simp add: test_nv_def link_read_def)
  then show ?thesis using nv_round_wake_lock [OF r] r by blast
qed

subsection \<open>The runtime data\<close>

lemma data_loop_runtime:
  assumes "alive (pipe s)" and "0 < n" and "n \<le> length (incoming (read_results (pipe s)))"
    and "disk s P = Some a" and "disk s Q = Some b" and "P = runtime_path c" and "Q = runtime_bk_path c"
    and "writable (acc c) P" and "writable (acc c) Q"
  shows "\<exists>l. data_loop c (RuntimeNv p q) (int n) s = Some (False, s\<lparr>pipe := l,
      disk := (disk s)(P \<mapsto> patch p (take n (incoming (read_results (pipe s)))) a,
                       Q \<mapsto> patch q (take n (incoming (read_results (pipe s)))) b)\<rparr>)"
  using assms
proof (induction "pending (read_results (pipe s))" arbitrary: n s p q a b rule: less_induct)
  case less
  have PQ: "P \<noteq> Q" using less.prems(6,7) by (simp add: runtime_path_def runtime_bk_path_def)
  obtain r l where r: "link_read (nat (min (int n) (int DATA_BUF_LEN))) (pipe s) = Some (r, l)" "alive l"
    "pending (read_results l) < pending (read_results (pipe s))"
    and cases: "r = ReadError \<and> incoming (read_results l) = incoming (read_results (pipe s)) \<or>
     (\<exists>bs. r = ReadData bs \<and> bs \<noteq> [] \<and> length bs \<le> n
        \<and> incoming (read_results (pipe s)) = bs @ incoming (read_results l))"
    using payload_read [OF less.prems(1-3)] by blast
  from cases show ?case
  proof (elim disjE exE conjE)
    assume e: "r = ReadError" "incoming (read_results l) = incoming (read_results (pipe s))"
    have "data_loop c (RuntimeNv p q) (int n) s = data_loop c (RuntimeNv p q) (int n) (s\<lparr>pipe := l\<rparr>)"
      using r(1) less.prems(2) e(1) by (simp add: data_loop.simps [of c "RuntimeNv p q" "int n" s])
    then show ?thesis
      using less.hyps [of "s\<lparr>pipe := l\<rparr>" n a b p q] r(2,3) e(2) less.prems by simp
  next
    fix bs assume d: "r = ReadData bs" "bs \<noteq> []" "length bs \<le> n"
      and inc: "incoming (read_results (pipe s)) = bs @ incoming (read_results l)"
    define s1 where "s1 = s\<lparr>pipe := l, disk := (disk s)(P \<mapsto> patch p bs a, Q \<mapsto> patch q bs b)\<rparr>"
    have step: "data_loop c (RuntimeNv p q) (int n) s =
        data_loop c (RuntimeNv (p + length bs) (q + length bs)) (int (n - length bs)) s1"
      using r(1) d less.prems PQ
      by (subst data_loop.simps) (simp add: s1_def Let_def fs_write_def)
    show ?thesis
    proof (cases "length bs = n")
      case True
      then show ?thesis using step inc
        by (simp add: data_loop.simps [of _ _ 0] s1_def) (rule exI [of _ l], simp)
    next
      case False
      have "\<exists>l'. data_loop c (RuntimeNv (p + length bs) (q + length bs)) (int (n - length bs)) s1 =
          Some (False, s1\<lparr>pipe := l', disk := (disk s1)
            (P \<mapsto> patch (p + length bs) (take (n - length bs) (incoming (read_results (pipe s1)))) (patch p bs a),
             Q \<mapsto> patch (q + length bs) (take (n - length bs) (incoming (read_results (pipe s1)))) (patch q bs b))\<rparr>)"
        by (rule less.hyps) (use r(2,3) inc less.prems d(3) False PQ in \<open>auto simp: s1_def\<close>)
      then obtain l' where "data_loop c (RuntimeNv p q) (int n) s =
          Some (False, s1\<lparr>pipe := l', disk := (disk s1)
            (P \<mapsto> patch p (bs @ take (n - length bs) (incoming (read_results l))) a,
             Q \<mapsto> patch q (bs @ take (n - length bs) (incoming (read_results l))) b)\<rparr>)"
        using step by (auto simp: s1_def patch_append)
      then show ?thesis using d(3) PQ
        by (intro exI [of _ l']) (simp add: inc s1_def fun_upd_twist)
    qed
  qed
qed

text \<open>
  A request for the runtime data writes its payload, in whatever pieces it arrives, at the offset
  of the request in the file and in its copy, and touches no other file.
\<close>

theorem nv_round_runtime:
  assumes "link_read 12 (pipe s) = Some (ReadData h, l)" and "length h = 12" and "length (req_header s) = 12"
    and "header_type h = 1" and "header_req_type h \<noteq> 1" and "alive l" and "header_size h = of_nat n"
    and "0 < n" and "n < 2 ^ 31" and "n \<le> length (incoming (read_results l))" and "unat (header_offset h) < 2 ^ 31"
    and "openable (acc c) (runtime_path c)" and "openable (acc c) (runtime_bk_path c)"
    and "writable (acc c) (runtime_path c)" and "writable (acc c) (runtime_bk_path c)"
    and "disk s (runtime_path c) = Some a" and "disk s (runtime_bk_path c) = Some b"
  shows "\<exists>s'. nv_round c s = Some (Continue, s')
    \<and> disk s' = (disk s)
        (runtime_path c \<mapsto> patch (unat (header_offset h)) (take n (incoming (read_results l))) a,
         runtime_bk_path c \<mapsto> patch (unat (header_offset h)) (take n (incoming (read_results l))) b)"
proof -
  have hd: "store 0 h (req_header s) = Some h" using assms(2,3) by (simp add: store_def)
  have hne: "h \<noteq> []" using assms(2) by auto
  let ?off = "unat (header_offset h)"
  define s1 where "s1 = s\<lparr>pipe := l, wake_lock := True, req_header := h\<rparr>"
  have sz: "sint (header_size h) = int n"
    using assms(7,9) by (simp add: signed_of_nat signed_take_bit_int_eq_self)
  have bgn: "nv_begin_runtime c s1 = Some (Inr (RuntimeNv ?off ?off, s1))"
    using assms(11-13,16,17) by (simp add: nv_begin_runtime_def Let_def open_nv_def s1_def)
  obtain l2 where loop: "data_loop c (RuntimeNv ?off ?off) (int n) s1 = Some (False, s1\<lparr>pipe := l2,
      disk := (disk s1)(runtime_path c \<mapsto> patch ?off (take n (incoming (read_results (pipe s1)))) a,
                        runtime_bk_path c \<mapsto> patch ?off (take n (incoming (read_results (pipe s1)))) b)\<rparr>)"
    using data_loop_runtime [of s1 n "runtime_path c" a "runtime_bk_path c" b c ?off ?off] assms(6,8,10,14-17)
    by (auto simp: s1_def)
  have hs: "req_header s1 = h" by (simp add: s1_def)
  have "nv_round c s = nv_data c s1"
    using assms(1,5) hd hne by (simp add: nv_round_def s1_def)
  also have "\<dots> = Some (Continue, s1\<lparr>pipe := l2,
      disk := (disk s1)(runtime_path c \<mapsto> patch ?off (take n (incoming (read_results (pipe s1)))) a,
                        runtime_bk_path c \<mapsto> patch ?off (take n (incoming (read_results (pipe s1)))) b),
      wake_lock := False\<rparr>)"
    using assms(4) bgn loop sz hs by (simp add: nv_data_def Let_def nv_finish_def)
  finally show ?thesis by (simp add: s1_def)
qed

theorem nv_round_runtime_witness:
  "\<exists>s'. nv_round test_cfg (test_nv [ReadData [1, 0, 0, 0, 1, 0, 0, 0, 2, 0, 0, 0], ReadData [7], ReadData [8, 9]]
      [''/runtimenv/runtimenv.bin'' \<mapsto> [1, 2, 3, 4], ''/runtimenv/runtimenvbkup.bin'' \<mapsto> []]) = Some (Continue, s')
    \<and> disk s' = [''/runtimenv/runtimenv.bin'' \<mapsto> [1, 7, 8, 4], ''/runtimenv/runtimenvbkup.bin'' \<mapsto> [0, 7, 8]]"
proof -
  let ?h = "[1, 0, 0, 0, 1, 0, 0, 0, 2, 0, 0, 0]"
  let ?s = "test_nv [ReadData ?h, ReadData [7], ReadData [8, 9]]
      [''/runtimenv/runtimenv.bin'' \<mapsto> [1, 2, 3, 4], ''/runtimenv/runtimenvbkup.bin'' \<mapsto> []]"
  define l where "l = \<lparr>send_buffer = [], write_results = [12], read_results = [ReadData [7], ReadData [8, 9]], sent = []\<rparr>"
  have r: "link_read 12 (pipe ?s) = Some (ReadData ?h, l)" by (simp add: test_nv_def link_read_def l_def)
  have h: "header_type ?h = 1" "header_req_type ?h \<noteq> 1" "header_size ?h = of_nat 2" "unat (header_offset ?h) = 1"
    by (simp_all add: header_simps)
  have l: "alive l" "2 \<le> length (incoming (read_results l))" "take 2 (incoming (read_results l)) = [7, 8]"
    by (simp_all add: l_def alive_def)
  have p: "runtime_path test_cfg = ''/runtimenv/runtimenv.bin''" "runtime_bk_path test_cfg = ''/runtimenv/runtimenvbkup.bin''"
    by (simp_all add: test_cfg_def runtime_path_def runtime_bk_path_def)
  have q: "openable (acc test_cfg) x" "writable (acc test_cfg) x"
    "disk ?s = [''/runtimenv/runtimenv.bin'' \<mapsto> [1, 2, 3, 4], ''/runtimenv/runtimenvbkup.bin'' \<mapsto> []]"
    "length (req_header ?s) = 12" for x
    by (simp_all add: test_nv_def test_cfg_def)
  show ?thesis
    using nv_round_runtime [OF r _ q(4) h(1,2) l(1) h(3) _ _ l(2), of test_cfg "[1, 2, 3, 4]" "[]"] l(3)
    by (simp add: h(4) p q patch_def fun_upd_twist)
qed

end
