(* ===== verification/CmrMsg.thy ===== *)
theory CmrMsg
  imports Prelude
begin

text \<open>
  The camera's message queues, \<open>libcamera/sc8825/src/cmr_msg.c\<close>: a ring of messages with a counting
  semaphore and a mutex.  The memory maps every handle that is a live queue to its context; the ring
  is the list of its nodes and the node pointers are indices.  A call returns a code and the message
  buffer, blocks, or, as \<^term>\<open>None\<close>, accesses memory it does not own.
\<close>

subsection \<open>cmr_msg.h\<close>

definition CMR_MSG_MAGIC_CODE :: u32 where "CMR_MSG_MAGIC_CODE = 0xEFFEA55A"

datatype cmr_code =
    CMR_MSG_SUCCESS | CMR_MSG_PARAM_ERR | CMR_MSG_INVALID_HANDLE | CMR_MSG_NO_OTHER_MSG
  | CMR_MSG_NO_MEM | CMR_MSG_OVERFLOW | CMR_MSG_UNDERFLOW

fun code_val :: "cmr_code \<Rightarrow> int" where
  "code_val CMR_MSG_SUCCESS = 0"
| "code_val CMR_MSG_PARAM_ERR = 1"
| "code_val CMR_MSG_INVALID_HANDLE = 2"
| "code_val CMR_MSG_NO_OTHER_MSG = 3"
| "code_val CMR_MSG_NO_MEM = 4"
| "code_val CMR_MSG_OVERFLOW = 5"
| "code_val CMR_MSG_UNDERFLOW = 6"

record cmr_msg =
  msg_type :: u32
  sub_msg_type :: u32
  data :: u32
  alloc_flag :: u32

record cmr_msg_cxt =
  mutex :: bool
  msg_sem :: nat
  msg_count :: u32
  msg_number :: u32
  msg_magic :: u32
  msg_head :: "cmr_msg list"
  msg_write :: nat
  msg_read :: nat

type_synonym memory = "u32 \<Rightarrow> cmr_msg_cxt option"

datatype 'a outcome = Ret int 'a | Blocks

subsection \<open>The operations\<close>

text \<open>
  \<open>cmr_msg_queue_create\<close>: \<open>cxt_addr\<close> is the block \<open>malloc\<close> gives for the context, \<open>malloc\<close> the array
  of nodes it gives for a number of bytes.
\<close>

definition cmr_msg_queue_create ::
    "u32 option \<Rightarrow> (u32 \<Rightarrow> cmr_msg list option) \<Rightarrow> u32 \<Rightarrow> memory \<Rightarrow> int \<times> u32 option \<times> memory" where
  "cmr_msg_queue_create cxt_addr malloc count mem =
     (if count = 0 then (- code_val CMR_MSG_PARAM_ERR, None, mem)
      else case cxt_addr of
        None \<Rightarrow> (- code_val CMR_MSG_NO_MEM, None, mem)
      | Some h \<Rightarrow>
          (case malloc (count * 16) of
             None \<Rightarrow> (- code_val CMR_MSG_NO_MEM, None, mem)
           | Some nodes \<Rightarrow>
               (code_val CMR_MSG_SUCCESS, Some h,
                mem(h \<mapsto> \<lparr>mutex = False, msg_sem = 0, msg_count = count, msg_number = 0,
                  msg_magic = CMR_MSG_MAGIC_CODE, msg_head = nodes, msg_write = 0, msg_read = 0\<rparr>))))"

text \<open>Moving a pointer on: back to the head behind node \<open>msg_count - 1\<close>.\<close>

definition next_node :: "cmr_msg_cxt \<Rightarrow> nat \<Rightarrow> nat" where
  "next_node q p = (if p + 1 > unat (msg_count q) - 1 then 0 else p + 1)"

text \<open>The part of \<open>cmr_msg_get\<close> under the mutex.\<close>

definition get_locked :: "cmr_msg \<Rightarrow> cmr_msg_cxt \<Rightarrow> (int \<times> cmr_msg \<times> cmr_msg_cxt) option" where
  "get_locked message q =
     (if msg_number q = 0 then Some (code_val CMR_MSG_UNDERFLOW, message, q)
      else if msg_read q \<noteq> msg_write q then
        (if msg_read q < length (msg_head q)
         then Some (code_val CMR_MSG_SUCCESS, msg_head q ! msg_read q,
                q\<lparr>msg_read := next_node q (msg_read q), msg_number := msg_number q - 1\<rparr>)
         else None)
      else Some (code_val CMR_MSG_SUCCESS, message, q\<lparr>msg_number := msg_number q - 1\<rparr>))"

definition cmr_msg_get :: "u32 \<Rightarrow> cmr_msg option \<Rightarrow> memory \<Rightarrow> (cmr_msg option \<times> memory) outcome option" where
  "cmr_msg_get queue_handle message mem =
     (case message of
        None \<Rightarrow> Some (Ret (- code_val CMR_MSG_PARAM_ERR) (message, mem))
      | Some m \<Rightarrow>
          if queue_handle = 0 then Some (Ret (- code_val CMR_MSG_PARAM_ERR) (message, mem))
          else do {
            q \<leftarrow> mem queue_handle;
            if msg_magic q \<noteq> CMR_MSG_MAGIC_CODE then Some (Ret (code_val CMR_MSG_INVALID_HANDLE) (message, mem))
            else if msg_sem q = 0 then Some Blocks
            else let q = q\<lparr>msg_sem := msg_sem q - 1\<rparr> in
              if mutex q then Some Blocks
              else do {
                (rtn, m, q) \<leftarrow> get_locked m q;
                Some (Ret rtn (Some m, mem(queue_handle \<mapsto> q))) }})"

text \<open>The part of \<open>cmr_msg_post\<close> under the mutex; \<open>ori_node\<close> was read before the mutex was taken.\<close>

definition post_locked :: "nat \<Rightarrow> cmr_msg \<Rightarrow> cmr_msg_cxt \<Rightarrow> (int \<times> cmr_msg_cxt) option" where
  "post_locked ori_node message q =
     (if msg_number q \<ge> msg_count q then Some (code_val CMR_MSG_OVERFLOW, q)
      else if msg_write q < length (msg_head q) then
        (let w = next_node q (msg_write q) in
         Some (code_val CMR_MSG_SUCCESS,
           q\<lparr>msg_head := (msg_head q)[msg_write q := message],
             msg_write := (if w = msg_read q then ori_node else w),
             msg_number := msg_number q + 1\<rparr>))
      else None)"

text \<open>The context is read before the handle is tested.\<close>

definition cmr_msg_post :: "u32 \<Rightarrow> cmr_msg option \<Rightarrow> memory \<Rightarrow> memory outcome option" where
  "cmr_msg_post queue_handle message mem =
     do { q \<leftarrow> mem queue_handle;
          let ori_node = msg_write q in
          case message of
            None \<Rightarrow> Some (Ret (- code_val CMR_MSG_PARAM_ERR) mem)
          | Some m \<Rightarrow>
              if queue_handle = 0 then Some (Ret (- code_val CMR_MSG_PARAM_ERR) mem)
              else if msg_magic q \<noteq> CMR_MSG_MAGIC_CODE then Some (Ret (code_val CMR_MSG_INVALID_HANDLE) mem)
              else if mutex q then Some Blocks
              else do {
                (rtn, q) \<leftarrow> post_locked ori_node m q;
                Some (Ret rtn (mem(queue_handle \<mapsto>
                  (if rtn = code_val CMR_MSG_SUCCESS then q\<lparr>msg_sem := msg_sem q + 1\<rparr> else q)))) }}"

text \<open>\<open>cmr_msg_peak\<close>: on the path without a message the mutex is not released.\<close>

definition cmr_msg_peak :: "u32 \<Rightarrow> cmr_msg option \<Rightarrow> memory \<Rightarrow> (cmr_msg option \<times> memory) outcome option" where
  "cmr_msg_peak queue_handle message mem =
     (if queue_handle = 0 \<or> message = None then Some (Ret (- code_val CMR_MSG_PARAM_ERR) (message, mem))
      else do {
        q \<leftarrow> mem queue_handle;
        if msg_magic q \<noteq> CMR_MSG_MAGIC_CODE then Some (Ret (code_val CMR_MSG_INVALID_HANDLE) (message, mem))
        else if msg_sem q = 0 then Some (Ret (- code_val CMR_MSG_NO_OTHER_MSG) (message, mem))
        else let q = q\<lparr>msg_sem := msg_sem q - 1\<rparr> in
          if mutex q then Some Blocks
          else if msg_read q \<noteq> msg_write q then
            (if msg_read q < length (msg_head q)
             then Some (Ret (code_val CMR_MSG_SUCCESS) (Some (msg_head q ! msg_read q),
                    mem(queue_handle \<mapsto> q\<lparr>msg_read := next_node q (msg_read q),
                      msg_number := msg_number q - 1\<rparr>)))
             else None)
          else Some (Ret (- code_val CMR_MSG_NO_OTHER_MSG) (message, mem(queue_handle \<mapsto> q\<lparr>mutex := True\<rparr>))) })"

definition cmr_msg_queue_destroy :: "u32 \<Rightarrow> memory \<Rightarrow> (int \<times> memory) option" where
  "cmr_msg_queue_destroy queue_handle mem =
     (if queue_handle = 0 then Some (- code_val CMR_MSG_PARAM_ERR, mem)
      else do {
        q \<leftarrow> mem queue_handle;
        if msg_magic q \<noteq> CMR_MSG_MAGIC_CODE then Some (code_val CMR_MSG_INVALID_HANDLE, mem)
        else Some (code_val CMR_MSG_SUCCESS, mem(queue_handle := None)) })"

subsection \<open>The contract of a bounded queue\<close>

text \<open>
  What the users of a message queue rely on: below its capacity a post succeeds and appends, and a get
  of a queue with messages takes the oldest.
\<close>

locale bounded_queue =
  fixes abs :: "'s \<Rightarrow> 'a list"
    and inv :: "'s \<Rightarrow> bool"
    and cap :: "'s \<Rightarrow> nat"
    and post :: "'a \<Rightarrow> 's \<Rightarrow> 's option"
    and get :: "'s \<Rightarrow> ('a \<times> 's) option"
  assumes post_appends: "inv s \<Longrightarrow> length (abs s) < cap s \<Longrightarrow>
      \<exists>s'. post a s = Some s' \<and> inv s' \<and> abs s' = abs s @ [a] \<and> cap s' = cap s"
    and get_takes: "inv s \<Longrightarrow> abs s = a # as \<Longrightarrow>
      \<exists>s'. get s = Some (a, s') \<and> inv s' \<and> abs s' = as \<and> cap s' = cap s"

datatype 'a queue_op = Post 'a | Take

fun posted :: "'a queue_op list \<Rightarrow> 'a list" where
  "posted [] = []"
| "posted (Post a # ops) = a # posted ops"
| "posted (Take # ops) = posted ops"

text \<open>A schedule that keeps between \<open>0\<close> and \<open>c\<close> messages in the queue, from \<open>n\<close> on.\<close>

fun within :: "nat \<Rightarrow> nat \<Rightarrow> 'a queue_op list \<Rightarrow> bool" where
  "within c n [] = True"
| "within c n (Post a # ops) = (n < c \<and> within c (Suc n) ops)"
| "within c n (Take # ops) = (0 < n \<and> within c (n - 1) ops)"

fun run_ops ::
    "('a \<Rightarrow> 's \<Rightarrow> 's option) \<Rightarrow> ('s \<Rightarrow> ('a \<times> 's) option) \<Rightarrow> 'a queue_op list \<Rightarrow> 's \<Rightarrow> ('a list \<times> 's) option" where
  "run_ops post get [] s = Some ([], s)"
| "run_ops post get (Post a # ops) s = do { s \<leftarrow> post a s; run_ops post get ops s }"
| "run_ops post get (Take # ops) s =
     do { (a, s) \<leftarrow> get s; (got, s) \<leftarrow> run_ops post get ops s; Some (a # got, s) }"

context bounded_queue
begin

lemma run_fifo:
  "inv s \<Longrightarrow> within (cap s) (length (abs s)) ops \<Longrightarrow>
     \<exists>got s'. run_ops post get ops s = Some (got, s') \<and> inv s' \<and> got @ abs s' = abs s @ posted ops"
proof (induction ops arbitrary: s)
  case Nil
  then show ?case by simp
next
  case (Cons op ops)
  show ?case
  proof (cases op)
    case (Post a)
    then obtain s1 where "post a s = Some s1" "inv s1" "abs s1 = abs s @ [a]" "cap s1 = cap s"
      using post_appends [OF Cons.prems(1), of a] Cons.prems(2) by auto
    then show ?thesis using Cons.IH [of s1] Cons.prems(2) Post by auto
  next
    case Take
    then obtain a as where as: "abs s = a # as" using Cons.prems(2) by (cases "abs s") auto
    then obtain s1 where "get s = Some (a, s1)" "inv s1" "abs s1 = as" "cap s1 = cap s"
      using get_takes [OF Cons.prems(1)] by blast
    then show ?thesis using Cons.IH [of s1] Cons.prems(2) Take as by auto
  qed
qed

end

subsection \<open>The ring as a list\<close>

text \<open>The number of nodes from the read to the write pointer, and the \<open>i\<close>-th node from the read pointer.\<close>

definition ring_dist :: "nat \<Rightarrow> nat \<Rightarrow> nat \<Rightarrow> nat" where
  "ring_dist c r w = (if r \<le> w then w - r else w + c - r)"

definition ring_idx :: "nat \<Rightarrow> nat \<Rightarrow> nat \<Rightarrow> nat" where
  "ring_idx c r i = (if r + i < c then r + i else r + i - c)"

definition ring :: "cmr_msg_cxt \<Rightarrow> cmr_msg list" where
  "ring q = List.map (\<lambda>i. msg_head q ! ring_idx (unat (msg_count q)) (msg_read q) i)
     [0 ..< ring_dist (unat (msg_count q)) (msg_read q) (msg_write q)]"

lemma length_ring: "length (ring q) = ring_dist (unat (msg_count q)) (msg_read q) (msg_write q)"
  by (simp add: ring_def)

lemma ring_counts [simp]:
  "ring (q\<lparr>msg_number := j\<rparr>) = ring q" "ring (q\<lparr>msg_sem := k\<rparr>) = ring q"
  "ring (q\<lparr>msg_head := ms, msg_write := msg_write q\<rparr>) = ring (q\<lparr>msg_head := ms\<rparr>)"
  by (simp_all add: ring_def)

definition queue_ok :: "cmr_msg_cxt \<Rightarrow> bool" where
  "queue_ok q \<longleftrightarrow> msg_magic q = CMR_MSG_MAGIC_CODE \<and> \<not> mutex q \<and> msg_count q \<noteq> 0
     \<and> length (msg_head q) = unat (msg_count q)
     \<and> msg_read q < unat (msg_count q) \<and> msg_write q < unat (msg_count q)"

text \<open>Every message counted is in the ring: the state of a queue that has never been filled.\<close>

definition queue_exact :: "cmr_msg_cxt \<Rightarrow> bool" where
  "queue_exact q \<longleftrightarrow> queue_ok q \<and> unat (msg_number q) = length (ring q) \<and> msg_sem q = length (ring q)"

lemma next_node_less: "queue_ok q \<Longrightarrow> p < unat (msg_count q) \<Longrightarrow> next_node q p < unat (msg_count q)"
  by (auto simp: next_node_def queue_ok_def)

lemma ring_dist_less: "r < c \<Longrightarrow> w < c \<Longrightarrow> ring_dist c r w < c"
  by (auto simp: ring_dist_def)

lemma length_ring_less: "queue_ok q \<Longrightarrow> length (ring q) < unat (msg_count q)"
  by (simp add: length_ring ring_dist_less queue_ok_def)

lemma ring_empty: "queue_ok q \<Longrightarrow> ring q = [] \<longleftrightarrow> msg_read q = msg_write q"
  by (auto simp: ring_def ring_dist_def queue_ok_def)

lemma ring_Cons:
  assumes "queue_ok q" and "msg_read q \<noteq> msg_write q"
  shows "ring q = msg_head q ! msg_read q # ring (q\<lparr>msg_read := next_node q (msg_read q)\<rparr>)"
proof -
  let ?c = "unat (msg_count q)" and ?r = "msg_read q" and ?w = "msg_write q"
  have lt: "?r < ?c" "?w < ?c" using assms(1) by (auto simp: queue_ok_def)
  have d: "ring_dist ?c ?r ?w = Suc (ring_dist ?c (next_node q ?r) ?w)"
    using lt assms(2) by (auto simp: ring_dist_def next_node_def)
  have i: "ring_idx ?c ?r (Suc i) = ring_idx ?c (next_node q ?r) i" if "i < ring_dist ?c (next_node q ?r) ?w" for i
    using lt that by (auto simp: ring_idx_def next_node_def ring_dist_def split: if_splits)
  have "ring q = msg_head q ! ring_idx ?c ?r 0
      # List.map (\<lambda>i. msg_head q ! ring_idx ?c ?r (Suc i)) [0 ..< ring_dist ?c (next_node q ?r) ?w]"
    unfolding ring_def d by (simp add: map_upt_Suc del: upt_Suc)
  also have "ring_idx ?c ?r 0 = ?r" using lt by (simp add: ring_idx_def)
  also have "List.map (\<lambda>i. msg_head q ! ring_idx ?c ?r (Suc i)) [0 ..< ring_dist ?c (next_node q ?r) ?w] =
      ring (q\<lparr>msg_read := next_node q ?r\<rparr>)"
    by (simp add: ring_def next_node_def) (auto simp: i [unfolded next_node_def])
  finally show ?thesis .
qed

lemma ring_snoc:
  assumes "queue_ok q" and "Suc (length (ring q)) < unat (msg_count q)"
  shows "next_node q (msg_write q) \<noteq> msg_read q"
    and "ring (q\<lparr>msg_head := (msg_head q)[msg_write q := m], msg_write := next_node q (msg_write q)\<rparr>) = ring q @ [m]"
proof -
  let ?c = "unat (msg_count q)" and ?r = "msg_read q" and ?w = "msg_write q"
  have lt: "?r < ?c" "?w < ?c" "length (msg_head q) = ?c" using assms(1) by (auto simp: queue_ok_def)
  have room: "Suc (ring_dist ?c ?r ?w) < ?c" using assms(2) by (simp add: length_ring)
  show "next_node q ?w \<noteq> ?r" using lt room by (auto simp: ring_dist_def next_node_def split: if_splits)
  have d: "ring_dist ?c ?r (next_node q ?w) = Suc (ring_dist ?c ?r ?w)"
    using lt room by (auto simp: ring_dist_def next_node_def split: if_splits)
  have last: "ring_idx ?c ?r (ring_dist ?c ?r ?w) = ?w"
    using lt by (auto simp: ring_dist_def ring_idx_def)
  have i: "?w \<noteq> ring_idx ?c ?r i" if "i < ring_dist ?c ?r ?w" for i
    using lt that by (auto simp: ring_idx_def ring_dist_def split: if_splits)
  show "ring (q\<lparr>msg_head := (msg_head q)[?w := m], msg_write := next_node q ?w\<rparr>) = ring q @ [m]"
    using d last i lt by (auto simp: ring_def)
qed

subsection \<open>A queue that is not filled is a bounded queue\<close>

definition q_abs :: "u32 \<Rightarrow> memory \<Rightarrow> cmr_msg list" where
  "q_abs h mem = (case mem h of None \<Rightarrow> [] | Some q \<Rightarrow> ring q)"

definition q_inv :: "u32 \<Rightarrow> memory \<Rightarrow> bool" where
  "q_inv h mem \<longleftrightarrow> h \<noteq> 0 \<and> (case mem h of None \<Rightarrow> False | Some q \<Rightarrow> queue_exact q)"

definition q_cap :: "u32 \<Rightarrow> memory \<Rightarrow> nat" where
  "q_cap h mem = (case mem h of None \<Rightarrow> 0 | Some q \<Rightarrow> unat (msg_count q) - 1)"

definition q_post :: "u32 \<Rightarrow> cmr_msg \<Rightarrow> memory \<Rightarrow> memory option" where
  "q_post h m mem =
     (case cmr_msg_post h (Some m) mem of
        Some (Ret rtn mem) \<Rightarrow> if rtn = code_val CMR_MSG_SUCCESS then Some mem else None
      | _ \<Rightarrow> None)"

definition blank :: cmr_msg where
  "blank = \<lparr>msg_type = 0, sub_msg_type = 0, data = 0, alloc_flag = 0\<rparr>"

definition q_get :: "u32 \<Rightarrow> memory \<Rightarrow> (cmr_msg \<times> memory) option" where
  "q_get h mem =
     (case cmr_msg_get h (Some blank) mem of
        Some (Ret rtn (Some m, mem)) \<Rightarrow> if rtn = code_val CMR_MSG_SUCCESS then Some (m, mem) else None
      | _ \<Rightarrow> None)"

lemma post_exact:
  assumes "queue_exact q" and "Suc (length (ring q)) < unat (msg_count q)"
  obtains q' where "post_locked (msg_write q) m q = Some (code_val CMR_MSG_SUCCESS, q')"
    "queue_exact (q'\<lparr>msg_sem := msg_sem q' + 1\<rparr>)" "ring (q'\<lparr>msg_sem := msg_sem q' + 1\<rparr>) = ring q @ [m]"
    "msg_count q' = msg_count q"
proof -
  have ok: "queue_ok q" using assms(1) by (simp add: queue_exact_def)
  define q' where "q' = q\<lparr>msg_head := (msg_head q)[msg_write q := m],
      msg_write := next_node q (msg_write q), msg_number := msg_number q + 1\<rparr>"
  have n: "unat (msg_number q) = length (ring q)" "msg_sem q = length (ring q)"
    using assms(1) by (auto simp: queue_exact_def)
  have n': "unat (msg_number q + 1) = Suc (length (ring q))"
  proof -
    have "unat (msg_count q) < 2 ^ LENGTH(32)" by (rule unsigned_less)
    then have "unat (msg_number q) + 1 < 2 ^ 32" using n assms(2) by simp
    then show ?thesis using n by (simp add: unat_word_ariths)
  qed
  have lt: "\<not> msg_number q \<ge> msg_count q" using n assms(2) by (simp add: word_le_nat_alt)
  have "post_locked (msg_write q) m q = Some (code_val CMR_MSG_SUCCESS, q')"
    using lt ok ring_snoc(1) [OF ok assms(2)]
    by (simp add: post_locked_def Let_def q'_def queue_ok_def)
  moreover have r: "ring (q'\<lparr>msg_sem := msg_sem q' + 1\<rparr>) = ring q @ [m]"
    using ring_snoc(2) [OF ok assms(2), of m] by (simp add: ring_def q'_def)
  moreover have "queue_exact (q'\<lparr>msg_sem := msg_sem q' + 1\<rparr>)"
    using ok next_node_less [OF ok, of "msg_write q"] n n' r
    by (simp add: queue_exact_def queue_ok_def q'_def)
  ultimately show ?thesis using that by (simp add: q'_def)
qed

lemma get_exact:
  assumes "queue_exact q" and "ring q = m # ms"
  obtains q' where "get_locked x (q\<lparr>msg_sem := msg_sem q - 1\<rparr>) = Some (code_val CMR_MSG_SUCCESS, m, q')"
    "queue_exact q'" "ring q' = ms" "msg_count q' = msg_count q"
proof -
  have ok: "queue_ok q" using assms(1) by (simp add: queue_exact_def)
  have ne: "msg_read q \<noteq> msg_write q" using ring_empty [OF ok] assms(2) by simp
  define q' where "q' = q\<lparr>msg_sem := msg_sem q - 1, msg_read := next_node q (msg_read q),
      msg_number := msg_number q - 1\<rparr>"
  have n: "unat (msg_number q) = Suc (length ms)" "msg_sem q = Suc (length ms)"
    using assms by (auto simp: queue_exact_def)
  then have n0: "msg_number q \<noteq> 0" by auto
  then have n1: "unat (msg_number q - 1) = length ms" using n by (simp add: unat_minus_one)
  have c: "msg_head q ! msg_read q = m" "ring (q\<lparr>msg_read := next_node q (msg_read q)\<rparr>) = ms"
    using ring_Cons [OF ok ne] assms(2) by simp_all
  have r: "ring q' = ms" using c(2) by (simp add: ring_def q'_def)
  have nn: "next_node (q\<lparr>msg_sem := k\<rparr>) p = next_node q p" for k p by (simp add: next_node_def)
  have "get_locked x (q\<lparr>msg_sem := msg_sem q - 1\<rparr>) = Some (code_val CMR_MSG_SUCCESS, m, q')"
    using n0 ne ok c(1) by (simp add: get_locked_def q'_def queue_ok_def nn)
  moreover have "queue_exact q'"
    using ok next_node_less [OF ok, of "msg_read q"] n n1 r
    by (simp add: queue_exact_def queue_ok_def q'_def)
  ultimately show ?thesis using that r by (simp add: q'_def)
qed

interpretation cmr: bounded_queue "q_abs h" "q_inv h" "q_cap h" "q_post h" "q_get h" for h
proof unfold_locales
  fix mem and a :: cmr_msg
  assume inv: "q_inv h mem" and room: "length (q_abs h mem) < q_cap h mem"
  then obtain q where q: "mem h = Some q" "queue_exact q" "h \<noteq> 0" "Suc (length (ring q)) < unat (msg_count q)"
    by (auto simp: q_inv_def q_abs_def q_cap_def split: option.splits)
  obtain q' where q': "post_locked (msg_write q) a q = Some (code_val CMR_MSG_SUCCESS, q')"
    "queue_exact (q'\<lparr>msg_sem := msg_sem q' + 1\<rparr>)" "ring (q'\<lparr>msg_sem := msg_sem q' + 1\<rparr>) = ring q @ [a]"
    "msg_count q' = msg_count q"
    using post_exact [OF q(2,4)] by metis
  then show "\<exists>s'. q_post h a mem = Some s' \<and> q_inv h s' \<and> q_abs h s' = q_abs h mem @ [a] \<and> q_cap h s' = q_cap h mem"
    using q by (simp add: q_post_def cmr_msg_post_def Let_def q_inv_def q_abs_def q_cap_def queue_exact_def queue_ok_def)
next
  fix mem and a :: cmr_msg and as
  assume inv: "q_inv h mem" and abs: "q_abs h mem = a # as"
  then obtain q where q: "mem h = Some q" "queue_exact q" "h \<noteq> 0" "ring q = a # as"
    by (auto simp: q_inv_def q_abs_def split: option.splits)
  obtain q' where q': "get_locked blank (q\<lparr>msg_sem := msg_sem q - 1\<rparr>) = Some (code_val CMR_MSG_SUCCESS, a, q')"
    "queue_exact q'" "ring q' = as" "msg_count q' = msg_count q"
    using get_exact [OF q(2,4)] by metis
  have "msg_sem q \<noteq> 0" "msg_magic q = CMR_MSG_MAGIC_CODE" "\<not> mutex q"
    using q(2,4) by (auto simp: queue_exact_def queue_ok_def)
  then show "\<exists>s'. q_get h mem = Some (a, s') \<and> q_inv h s' \<and> q_abs h s' = as \<and> q_cap h s' = q_cap h mem"
    using q q' by (simp add: q_get_def cmr_msg_get_def Let_def q_inv_def q_abs_def q_cap_def)
qed

lemma create_exact:
  assumes "count \<noteq> 0" and "malloc (count * 16) = Some nodes" and "length nodes = unat count" and "h \<noteq> 0"
  shows "\<exists>mem'. cmr_msg_queue_create (Some h) malloc count mem = (0, Some h, mem')
    \<and> q_inv h mem' \<and> q_abs h mem' = [] \<and> q_cap h mem' = unat count - 1"
  using assms
  by (auto simp: cmr_msg_queue_create_def q_inv_def q_abs_def q_cap_def queue_exact_def queue_ok_def ring_def
      ring_dist_def unat_gt_0)

text \<open>
  C19: A fresh queue of \<open>count\<close> nodes is a FIFO as long as its users keep at most \<open>count - 1\<close> messages
  in it: every post and get of such a schedule succeeds, and what is taken, followed by what is left in
  the ring, is exactly what was posted, in order.
\<close>

theorem cmr_queue_fifo:
  assumes "count \<noteq> 0" and "malloc (count * 16) = Some nodes" and "length nodes = unat count" and "h \<noteq> 0"
    and "within (unat count - 1) 0 ops"
  shows "\<exists>mem' got mem''. cmr_msg_queue_create (Some h) malloc count mem = (0, Some h, mem')
    \<and> run_ops (q_post h) (q_get h) ops mem' = Some (got, mem'')
    \<and> got @ q_abs h mem'' = posted ops"
proof -
  obtain mem' where m: "cmr_msg_queue_create (Some h) malloc count mem = (0, Some h, mem')"
    "q_inv h mem'" "q_abs h mem' = []" "q_cap h mem' = unat count - 1"
    using create_exact [of count malloc nodes h] assms(1-4) by blast
  then show ?thesis using cmr.run_fifo [OF m(2), of ops] assms(5) by auto
qed

theorem cmr_queue_fifo_witness:
  "\<exists>mem' got mem''. cmr_msg_queue_create (Some 4096) (\<lambda>_. Some [blank, blank, blank]) 3 Map.empty = (0, Some 4096, mem')
    \<and> run_ops (q_post 4096) (q_get 4096)
        [Post (blank\<lparr>msg_type := 1\<rparr>), Post (blank\<lparr>msg_type := 2\<rparr>), Take, Post (blank\<lparr>msg_type := 3\<rparr>)] mem'
      = Some (got, mem'')
    \<and> got @ q_abs 4096 mem'' = [blank\<lparr>msg_type := 1\<rparr>, blank\<lparr>msg_type := 2\<rparr>, blank\<lparr>msg_type := 3\<rparr>]"
  using cmr_queue_fifo [of 3 "\<lambda>_. Some [blank, blank, blank]" "[blank, blank, blank]" 4096
      "[Post (blank\<lparr>msg_type := 1\<rparr>), Post (blank\<lparr>msg_type := 2\<rparr>), Take, Post (blank\<lparr>msg_type := 3\<rparr>)]" Map.empty]
  by simp

subsection \<open>A queue that is filled\<close>

lemma post_full:
  assumes "queue_ok q" and "Suc (length (ring q)) = unat (msg_count q)"
  shows "next_node q (msg_write q) = msg_read q"
    and "ring (q\<lparr>msg_head := (msg_head q)[msg_write q := m]\<rparr>) = ring q"
proof -
  let ?c = "unat (msg_count q)" and ?r = "msg_read q" and ?w = "msg_write q"
  have lt: "?r < ?c" "?w < ?c" "length (msg_head q) = ?c" using assms(1) by (auto simp: queue_ok_def)
  have full: "Suc (ring_dist ?c ?r ?w) = ?c" using assms(2) by (simp add: length_ring)
  show "next_node q ?w = ?r" using lt full by (auto simp: ring_dist_def next_node_def split: if_splits)
  have i: "?w \<noteq> ring_idx ?c ?r i" if "i < ring_dist ?c ?r ?w" for i
    using lt that by (auto simp: ring_idx_def ring_dist_def split: if_splits)
  show "ring (q\<lparr>msg_head := (msg_head q)[?w := m]\<rparr>) = ring q"
    using i lt by (auto simp: ring_def)
qed

text \<open>
  A post to a queue whose ring already holds \<open>count - 1\<close> messages reports success and counts the
  message, but the ring is as before: the write pointer is moved back, so the message is lost, and one
  get more than there are messages will be let through.
\<close>

theorem cmr_msg_post_full_loses_message:
  assumes "mem h = Some q" and "h \<noteq> 0" and "queue_exact q" and "Suc (length (ring q)) = unat (msg_count q)"
  shows "\<exists>mem' q'. cmr_msg_post h (Some m) mem = Some (Ret 0 mem') \<and> mem' h = Some q'
    \<and> ring q' = ring q \<and> unat (msg_number q') = Suc (length (ring q')) \<and> msg_sem q' = Suc (length (ring q'))"
proof -
  have ok: "queue_ok q" and n: "unat (msg_number q) = length (ring q)" "msg_sem q = length (ring q)"
    using assms(3) by (auto simp: queue_exact_def)
  have "unat (msg_count q) < 2 ^ LENGTH(32)" by (rule unsigned_less)
  then have n': "unat (msg_number q + 1) = Suc (length (ring q))"
    using n assms(4) by (simp add: unat_word_ariths)
  have lt: "\<not> msg_number q \<ge> msg_count q" using n assms(4) by (simp add: word_le_nat_alt)
  define q' where "q' = q\<lparr>msg_head := (msg_head q)[msg_write q := m], msg_number := msg_number q + 1,
      msg_sem := msg_sem q + 1\<rparr>"
  have "ring q' = ring q" using post_full(2) [OF ok assms(4), of m] by (simp add: ring_def q'_def)
  moreover have "cmr_msg_post h (Some m) mem = Some (Ret 0 (mem(h \<mapsto> q')))"
    using assms(1,2) ok lt post_full(1) [OF ok assms(4)]
    by (simp add: cmr_msg_post_def post_locked_def Let_def queue_ok_def q'_def)
  ultimately show ?thesis using n n' by (simp add: q'_def)
qed

definition small_queue :: cmr_msg_cxt where
  "small_queue = \<lparr>mutex = False, msg_sem = 1, msg_count = 2, msg_number = 1, msg_magic = CMR_MSG_MAGIC_CODE,
     msg_head = [blank\<lparr>msg_type := 7\<rparr>, blank], msg_write = 1, msg_read = 0\<rparr>"

lemma small_queue_exact: "queue_exact small_queue" "ring small_queue = [blank\<lparr>msg_type := 7\<rparr>]"
  by (simp_all add: small_queue_def queue_exact_def queue_ok_def ring_def ring_dist_def ring_idx_def)

theorem cmr_msg_post_full_loses_message_witness:
  "\<exists>mem' q'. cmr_msg_post 16 (Some (blank\<lparr>msg_type := 8\<rparr>)) [16 \<mapsto> small_queue] = Some (Ret 0 mem')
    \<and> mem' 16 = Some q' \<and> ring q' = [blank\<lparr>msg_type := 7\<rparr>] \<and> msg_sem q' = 2"
  using cmr_msg_post_full_loses_message [of "[16 \<mapsto> small_queue]" 16 small_queue "blank\<lparr>msg_type := 8\<rparr>"]
    small_queue_exact by (force simp: small_queue_def)

text \<open>
  \<open>cmr_msg_peak\<close> on a queue whose semaphore promises a message that the ring does not have
  (the state a filled queue is left in) returns with the mutex taken: from then on every post to the
  queue blocks, and so does every get once a message is counted.
\<close>

theorem cmr_msg_peak_leaves_mutex:
  assumes "mem h = Some q" and "h \<noteq> 0" and "queue_ok q" and "ring q = []" and "0 < msg_sem q"
  shows "\<exists>mem'. cmr_msg_peak h (Some x) mem = Some (Ret (- 3) (Some x, mem'))
    \<and> cmr_msg_post h (Some m) mem' = Some Blocks \<and> cmr_msg_get h (Some y) mem' = Some Blocks"
  using assms ring_empty [OF assms(3)]
  by (auto simp: cmr_msg_peak_def cmr_msg_post_def cmr_msg_get_def Let_def queue_ok_def)

theorem cmr_msg_peak_leaves_mutex_witness:
  "\<exists>mem'. cmr_msg_peak 16 (Some blank) [16 \<mapsto> small_queue\<lparr>msg_read := 1\<rparr>] = Some (Ret (- 3) (Some blank, mem'))
    \<and> cmr_msg_post 16 (Some blank) mem' = Some Blocks"
  using cmr_msg_peak_leaves_mutex [of "[16 \<mapsto> small_queue\<lparr>msg_read := 1\<rparr>]" 16 "small_queue\<lparr>msg_read := 1\<rparr>"
      blank blank blank]
  by (auto simp: small_queue_def queue_ok_def ring_def ring_dist_def)

subsection \<open>Memory safety\<close>

text \<open>
  What holds of every queue that is not destroyed and whose mutex is free, filled or not: the ring
  never has more messages than are counted.
\<close>

definition queue_sound :: "cmr_msg_cxt \<Rightarrow> bool" where
  "queue_sound q \<longleftrightarrow> queue_ok q \<and> length (ring q) \<le> unat (msg_number q)
     \<and> msg_number q \<le> msg_count q \<and> msg_sem q = unat (msg_number q)"

lemma post_sound:
  assumes "queue_sound q"
  shows "\<exists>rtn q'. post_locked (msg_write q) m q = Some (rtn, q')
    \<and> (if rtn = 0 then queue_sound (q'\<lparr>msg_sem := msg_sem q' + 1\<rparr>) else q' = q)"
proof (cases "msg_number q \<ge> msg_count q")
  case True
  then show ?thesis by (simp add: post_locked_def)
next
  case False
  have ok: "queue_ok q" and le: "length (ring q) \<le> unat (msg_number q)" "msg_sem q = unat (msg_number q)"
    using assms by (auto simp: queue_sound_def)
  have lt: "unat (msg_number q) < unat (msg_count q)" using False by (simp add: word_le_nat_alt)
  have "unat (msg_count q) < 2 ^ LENGTH(32)" by (rule unsigned_less)
  then have n': "unat (msg_number q + 1) = Suc (unat (msg_number q))"
    using lt by (simp add: unat_word_ariths)
  have cnt: "msg_number q + 1 \<le> msg_count q" using lt n' by (simp add: word_le_nat_alt)
  have w: "msg_write q < length (msg_head q)" using ok by (simp add: queue_ok_def)
  show ?thesis
  proof (cases "Suc (length (ring q)) < unat (msg_count q)")
    case True
    note r = ring_snoc [OF ok True]
    show ?thesis
      using False w r ok next_node_less [OF ok, of "msg_write q"] le n' cnt
      by (simp add: post_locked_def Let_def queue_sound_def queue_ok_def)
  next
    case full: False
    then have full: "Suc (length (ring q)) = unat (msg_count q)" using length_ring_less [OF ok] by simp
    note r = post_full [OF ok full]
    show ?thesis
      using False w r ok le n' cnt by (simp add: post_locked_def Let_def queue_sound_def queue_ok_def)
  qed
qed

lemma get_sound:
  assumes "queue_sound q" and "msg_sem q \<noteq> 0"
  shows "\<exists>m' q'. get_locked m (q\<lparr>msg_sem := msg_sem q - 1\<rparr>) = Some (0, m', q') \<and> queue_sound q'"
proof -
  have ok: "queue_ok q" and le: "length (ring q) \<le> unat (msg_number q)" "msg_sem q = unat (msg_number q)"
    "msg_number q \<le> msg_count q"
    using assms by (auto simp: queue_sound_def)
  have n0: "msg_number q \<noteq> 0" using assms(2) le by auto
  then have n1: "unat (msg_number q - 1) = unat (msg_number q) - 1" by (simp add: unat_minus_one)
  have cnt: "msg_number q - 1 \<le> msg_count q" using le(3) n1 by (simp add: word_le_nat_alt)
  have nn: "next_node (q\<lparr>msg_sem := k\<rparr>) p = next_node q p" for k p by (simp add: next_node_def)
  show ?thesis
  proof (cases "msg_read q = msg_write q")
    case True
    show ?thesis
      using True n0 ok le n1 cnt ring_empty [OF ok]
      by (simp add: get_locked_def queue_sound_def queue_ok_def)
  next
    case False
    have r: "length (ring (q\<lparr>msg_sem := k, msg_read := next_node q (msg_read q), msg_number := j\<rparr>)) =
        length (ring q) - 1" for j k
      using ring_Cons [OF ok False] by (simp add: ring_def)
    show ?thesis
      using False n0 ok le n1 cnt r next_node_less [OF ok, of "msg_read q"]
      by (simp add: get_locked_def queue_sound_def queue_ok_def nn)
  qed
qed

text \<open>
  A post and a get on a sound queue never access a node outside the ring's memory and leave the
  queue sound, filled or not; a post returns success or overflow, a get success or it waits; other
  queues are not touched.
\<close>

theorem cmr_msg_ops_safe:
  assumes "mem h = Some q" and "h \<noteq> 0" and "queue_sound q"
  shows "(\<exists>rtn mem' q'. cmr_msg_post h (Some m) mem = Some (Ret rtn mem') \<and> rtn \<in> {0, 5}
      \<and> mem' h = Some q' \<and> queue_sound q' \<and> mem'(h := None) = mem(h := None))
    \<and> (cmr_msg_get h (Some x) mem = Some Blocks \<or>
      (\<exists>m' mem' q'. cmr_msg_get h (Some x) mem = Some (Ret 0 (Some m', mem'))
        \<and> mem' h = Some q' \<and> queue_sound q' \<and> mem'(h := None) = mem(h := None)))"
proof -
  have q: "msg_magic q = CMR_MSG_MAGIC_CODE" "\<not> mutex q" using assms(3) by (auto simp: queue_sound_def queue_ok_def)
  obtain rtn q' where p: "post_locked (msg_write q) m q = Some (rtn, q')"
    "if rtn = 0 then queue_sound (q'\<lparr>msg_sem := msg_sem q' + 1\<rparr>) else q' = q"
    using post_sound [OF assms(3)] by blast
  moreover have "rtn = 0 \<or> rtn = 5"
    using p(1) by (auto simp: post_locked_def Let_def split: if_splits)
  ultimately have "\<exists>rtn mem' q'. cmr_msg_post h (Some m) mem = Some (Ret rtn mem') \<and> rtn \<in> {0, 5}
      \<and> mem' h = Some q' \<and> queue_sound q' \<and> mem'(h := None) = mem(h := None)"
    using assms q by (auto simp: cmr_msg_post_def Let_def)
  moreover have "cmr_msg_get h (Some x) mem = Some Blocks \<or>
      (\<exists>m' mem' q'. cmr_msg_get h (Some x) mem = Some (Ret 0 (Some m', mem'))
        \<and> mem' h = Some q' \<and> queue_sound q' \<and> mem'(h := None) = mem(h := None))"
    using get_sound [OF assms(3), of x] assms q by (cases "msg_sem q = 0") (auto simp: cmr_msg_get_def Let_def)
  ultimately show ?thesis by blast
qed

theorem cmr_msg_ops_safe_witness:
  "\<exists>rtn mem' q'. cmr_msg_post 16 (Some blank) [16 \<mapsto> small_queue\<lparr>msg_number := 2, msg_sem := 2\<rparr>] = Some (Ret rtn mem')
    \<and> mem' 16 = Some q' \<and> queue_sound q'"
proof -
  have "queue_sound (small_queue\<lparr>msg_number := 2, msg_sem := 2\<rparr>)"
    by (simp add: small_queue_def queue_sound_def queue_ok_def ring_def ring_dist_def)
  then show ?thesis
    using cmr_msg_ops_safe [of "[16 \<mapsto> small_queue\<lparr>msg_number := 2, msg_sem := 2\<rparr>]" 16
        "small_queue\<lparr>msg_number := 2, msg_sem := 2\<rparr>" blank blank] by auto
qed

end
