(* ===== verification/JpegTables.thy ===== *)
theory JpegTables
  imports Prelude
begin

text \<open>
  The constant tables of the JPEG firmware that the header writer and the header parser share: the
  marker codes of \<^verbatim>\<open>jpeg_jfif.h\<close>, the sample formats, the zigzag order and the default Huffman
  tables of \<^verbatim>\<open>jpegcodec_table.c\<close>, with the facts about their lengths and entries that the
  proofs use.
\<close>

named_theorems marker_codes "the marker bytes as numerals"
named_theorems format_codes "the sample formats as numerals"

subsection \<open>Markers and sample formats\<close>

definition M_SOF0 :: u8 where
  [marker_codes]: "M_SOF0 = 0xC0"

definition M_SOF1 :: u8 where
  [marker_codes]: "M_SOF1 = 0xC1"

definition M_SOF2 :: u8 where
  [marker_codes]: "M_SOF2 = 0xC2"

definition M_SOF3 :: u8 where
  [marker_codes]: "M_SOF3 = 0xC3"

definition M_SOF5 :: u8 where
  [marker_codes]: "M_SOF5 = 0xC5"

definition M_SOF6 :: u8 where
  [marker_codes]: "M_SOF6 = 0xC6"

definition M_SOF7 :: u8 where
  [marker_codes]: "M_SOF7 = 0xC7"

definition M_JPG :: u8 where
  [marker_codes]: "M_JPG = 0xC8"

definition M_SOF9 :: u8 where
  [marker_codes]: "M_SOF9 = 0xC9"

definition M_SOF10 :: u8 where
  [marker_codes]: "M_SOF10 = 0xCA"

definition M_SOF11 :: u8 where
  [marker_codes]: "M_SOF11 = 0xCB"

definition M_SOF13 :: u8 where
  [marker_codes]: "M_SOF13 = 0xCD"

definition M_SOF14 :: u8 where
  [marker_codes]: "M_SOF14 = 0xCE"

definition M_SOF15 :: u8 where
  [marker_codes]: "M_SOF15 = 0xCF"

definition M_DHT :: u8 where
  [marker_codes]: "M_DHT = 0xC4"

definition M_DAC :: u8 where
  [marker_codes]: "M_DAC = 0xCC"

definition M_RST0 :: u8 where
  [marker_codes]: "M_RST0 = 0xD0"

definition M_RST7 :: u8 where
  [marker_codes]: "M_RST7 = 0xD7"

definition M_SOI :: u8 where
  [marker_codes]: "M_SOI = 0xD8"

definition M_EOI :: u8 where
  [marker_codes]: "M_EOI = 0xD9"

definition M_SOS :: u8 where
  [marker_codes]: "M_SOS = 0xDA"

definition M_DQT :: u8 where
  [marker_codes]: "M_DQT = 0xDB"

definition M_DRI :: u8 where
  [marker_codes]: "M_DRI = 0xDD"

definition M_APP0 :: u8 where
  [marker_codes]: "M_APP0 = 0xE0"

definition M_TEM :: u8 where
  [marker_codes]: "M_TEM = 0x01"

definition JPEG_FW_YUV420 :: u32 where
  [format_codes]: "JPEG_FW_YUV420 = 0"

definition JPEG_FW_YUV411 :: u32 where
  [format_codes]: "JPEG_FW_YUV411 = 1"

definition JPEG_FW_YUV444 :: u32 where
  [format_codes]: "JPEG_FW_YUV444 = 2"

definition JPEG_FW_YUV422 :: u32 where
  [format_codes]: "JPEG_FW_YUV422 = 3"

definition JPEG_FW_YUV400 :: u32 where
  [format_codes]: "JPEG_FW_YUV400 = 4"

definition JPEG_FW_YUV422_R :: u32 where
  [format_codes]: "JPEG_FW_YUV422_R = 5"

definition JPEG_FW_YUV411_R :: u32 where
  [format_codes]: "JPEG_FW_YUV411_R = 6"

subsection \<open>Tables\<close>

definition jpeg_fw_zigzag_order :: "nat list" where
  "jpeg_fw_zigzag_order =
    [0, 1, 8, 16, 9, 2, 3, 10, 17, 24, 32, 25, 18, 11, 4, 5,
     12, 19, 26, 33, 40, 48, 41, 34, 27, 20, 13, 6, 7, 14, 21, 28,
     35, 42, 49, 56, 57, 50, 43, 36, 29, 22, 15, 23, 30, 37, 44, 51,
     58, 59, 52, 45, 38, 31, 39, 46, 53, 60, 61, 54, 47, 55, 62, 63,
     63, 63, 63, 63, 63, 63, 63, 63, 63, 63, 63, 63, 63, 63, 63, 63]"

definition jpeg_fw_lum_dc_bits_default :: bytes where
  "jpeg_fw_lum_dc_bits_default =
    [0, 0, 1, 5, 1, 1, 1, 1, 1, 1, 0, 0, 0, 0, 0, 0,
     0]"

definition jpeg_fw_lum_dc_huffvalue_default :: bytes where
  "jpeg_fw_lum_dc_huffvalue_default =
    [0, 1, 2, 3, 4, 5, 6, 7, 8, 9, 10, 11]"

definition jpeg_fw_lum_ac_bits_default :: bytes where
  "jpeg_fw_lum_ac_bits_default =
    [0, 0, 2, 1, 3, 3, 2, 4, 3, 5, 5, 4, 4, 0, 0, 1,
     125]"

definition jpeg_fw_lum_ac_huffvalue_default :: bytes where
  "jpeg_fw_lum_ac_huffvalue_default =
    [1, 2, 3, 0, 4, 17, 5, 18, 33, 49, 65, 6, 19, 81, 97, 7,
     34, 113, 20, 50, 129, 145, 161, 8, 35, 66, 177, 193, 21, 82, 209, 240,
     36, 51, 98, 114, 130, 9, 10, 22, 23, 24, 25, 26, 37, 38, 39, 40,
     41, 42, 52, 53, 54, 55, 56, 57, 58, 67, 68, 69, 70, 71, 72, 73,
     74, 83, 84, 85, 86, 87, 88, 89, 90, 99, 100, 101, 102, 103, 104, 105,
     106, 115, 116, 117, 118, 119, 120, 121, 122, 131, 132, 133, 134, 135, 136, 137,
     138, 146, 147, 148, 149, 150, 151, 152, 153, 154, 162, 163, 164, 165, 166, 167,
     168, 169, 170, 178, 179, 180, 181, 182, 183, 184, 185, 186, 194, 195, 196, 197,
     198, 199, 200, 201, 202, 210, 211, 212, 213, 214, 215, 216, 217, 218, 225, 226,
     227, 228, 229, 230, 231, 232, 233, 234, 241, 242, 243, 244, 245, 246, 247, 248,
     249, 250, 0, 0, 0, 0, 0, 0, 0, 0, 0, 0, 0, 0, 0, 0,
     0, 0, 0, 0, 0, 0, 0, 0, 0, 0, 0, 0, 0, 0, 0, 0,
     0, 0, 0, 0, 0, 0, 0, 0, 0, 0, 0, 0, 0, 0, 0, 0,
     0, 0, 0, 0, 0, 0, 0, 0, 0, 0, 0, 0, 0, 0, 0, 0,
     0, 0, 0, 0, 0, 0, 0, 0, 0, 0, 0, 0, 0, 0, 0, 0,
     0, 0, 0, 0, 0, 0, 0, 0, 0, 0, 0, 0, 0, 0, 0, 0]"

definition jpeg_fw_chr_dc_bits_default :: bytes where
  "jpeg_fw_chr_dc_bits_default =
    [0, 0, 3, 1, 1, 1, 1, 1, 1, 1, 1, 1, 0, 0, 0, 0,
     0]"

definition jpeg_fw_chr_dc_huffvalue_default :: bytes where
  "jpeg_fw_chr_dc_huffvalue_default =
    [0, 1, 2, 3, 4, 5, 6, 7, 8, 9, 10, 11]"

definition jpeg_fw_chr_ac_bits_default :: bytes where
  "jpeg_fw_chr_ac_bits_default =
    [0, 0, 2, 1, 2, 4, 4, 3, 4, 7, 5, 4, 4, 0, 1, 2,
     119]"

definition jpeg_fw_chr_ac_huffvalue_default :: bytes where
  "jpeg_fw_chr_ac_huffvalue_default =
    [0, 1, 2, 3, 17, 4, 5, 33, 49, 6, 18, 65, 81, 7, 97, 113,
     19, 34, 50, 129, 8, 20, 66, 145, 161, 177, 193, 9, 35, 51, 82, 240,
     21, 98, 114, 209, 10, 22, 36, 52, 225, 37, 241, 23, 24, 25, 26, 38,
     39, 40, 41, 42, 53, 54, 55, 56, 57, 58, 67, 68, 69, 70, 71, 72,
     73, 74, 83, 84, 85, 86, 87, 88, 89, 90, 99, 100, 101, 102, 103, 104,
     105, 106, 115, 116, 117, 118, 119, 120, 121, 122, 130, 131, 132, 133, 134, 135,
     136, 137, 138, 146, 147, 148, 149, 150, 151, 152, 153, 154, 162, 163, 164, 165,
     166, 167, 168, 169, 170, 178, 179, 180, 181, 182, 183, 184, 185, 186, 194, 195,
     196, 197, 198, 199, 200, 201, 202, 210, 211, 212, 213, 214, 215, 216, 217, 218,
     226, 227, 228, 229, 230, 231, 232, 233, 234, 242, 243, 244, 245, 246, 247, 248,
     249, 250, 0, 0, 0, 0, 0, 0, 0, 0, 0, 0, 0, 0, 0, 0,
     0, 0, 0, 0, 0, 0, 0, 0, 0, 0, 0, 0, 0, 0, 0, 0,
     0, 0, 0, 0, 0, 0, 0, 0, 0, 0, 0, 0, 0, 0, 0, 0,
     0, 0, 0, 0, 0, 0, 0, 0, 0, 0, 0, 0, 0, 0, 0, 0,
     0, 0, 0, 0, 0, 0, 0, 0, 0, 0, 0, 0, 0, 0, 0, 0,
     0, 0, 0, 0, 0, 0, 0, 0, 0, 0, 0, 0, 0, 0, 0, 0]"

text \<open>The zigzag order visits every coefficient of a block once; the sixteen entries behind
  the block repeat the last one.\<close>

definition zigzag :: "nat list" where
  "zigzag = take 64 jpeg_fw_zigzag_order"

lemma length_zigzag [simp]: "length zigzag = 64"
  by (simp add: zigzag_def jpeg_fw_zigzag_order_def)

lemma distinct_zigzag [simp]: "distinct zigzag"
  by (simp add: zigzag_def jpeg_fw_zigzag_order_def)

lemma set_zigzag: "set zigzag = {..<64}"
proof (rule card_subset_eq)
  show "set zigzag \<subseteq> {..<64}" by (simp add: zigzag_def jpeg_fw_zigzag_order_def)
  show "card (set zigzag) = card {..<64::nat}" by (simp add: distinct_card)
qed simp

lemma zigzag_nth: "k < 64 \<Longrightarrow> jpeg_fw_zigzag_order ! k = zigzag ! k"
  by (simp add: zigzag_def)

lemma zigzag_less [simp]: "k < 64 \<Longrightarrow> zigzag ! k < 64"
  using set_zigzag nth_mem [of k zigzag] by auto

lemma length_default_bits [simp]:
  "length jpeg_fw_lum_dc_bits_default = 17" "length jpeg_fw_lum_ac_bits_default = 17"
  "length jpeg_fw_chr_dc_bits_default = 17" "length jpeg_fw_chr_ac_bits_default = 17"
  by (simp_all add: jpeg_fw_lum_dc_bits_default_def jpeg_fw_lum_ac_bits_default_def
      jpeg_fw_chr_dc_bits_default_def jpeg_fw_chr_ac_bits_default_def)

lemma length_default_huffvalues [simp]:
  "length jpeg_fw_lum_dc_huffvalue_default = 12" "length jpeg_fw_chr_dc_huffvalue_default = 12"
  "length jpeg_fw_lum_ac_huffvalue_default = 256" "length jpeg_fw_chr_ac_huffvalue_default = 256"
  by (simp_all add: jpeg_fw_lum_dc_huffvalue_default_def jpeg_fw_lum_ac_huffvalue_default_def
      jpeg_fw_chr_dc_huffvalue_default_def jpeg_fw_chr_ac_huffvalue_default_def)

end
