(* ===== verification/JpegCodec.thy ===== *)
theory JpegCodec
  imports JpegTables
begin

text \<open>
  The codec record that the JPEG encoder and decoder share (\<^verbatim>\<open>JPEG_CODEC_T\<close> of
  \<^verbatim>\<open>jpegcodec_def.h\<close>, the fields that the modelled functions touch) and the way their
  code runs: a statement takes the state and either goes on with a value (\<^verbatim>\<open>TRUE\<close>,
  \<^verbatim>\<open>JPEG_SUCCESS\<close>), returns early with \<^verbatim>\<open>FALSE\<close> or \<^verbatim>\<open>JPEG_FAILED\<close> in the state reached, or
  accesses memory outside an object, which C leaves undefined.
\<close>

subsection \<open>The codec record\<close>

record sample_ratio =
  h_ratio :: u8
  v_ratio :: u8

record tbl_map_entry =
  dc_huff_tbl_id :: u8
  ac_huff_tbl_id :: u8
  quant_tbl_id :: u16

text \<open>A null table pointer is a table without an accessible byte.\<close>

record huff_tbl =
  hbits :: bytes
  huffval :: bytes

record component =
  component_id :: u8
  component_index :: u8
  h_samp_factor :: u8
  v_samp_factor :: u8
  MCU_width :: u32
  MCU_height :: u32

record jpeg_codec =
  restart_interval :: u32
  restart_to_go :: u32
  next_restart_num :: u32
  dc_pred_y :: u32
  dc_pred_uv :: u32
  restart_mcu_cnt :: u32
  bitstream_offset :: u32
  width :: u16
  height :: u16
  c_width :: u16
  c_height :: u16
  out_width :: u16
  out_height :: u16
  ratio :: "sample_ratio list"
  input_mcu_info :: u8
  compress_level :: u32
  RST_Count :: u8
  tbl_map :: "tbl_map_entry list"
  mcu_num_x :: u16
  mcu_num_y :: u16
  mcu_height :: u16
  mcu_width :: u16
  progressive_mode :: bool
  num_components :: u8
  scale_factor :: u8
  dc_huff_tbl :: "huff_tbl list"
  ac_huff_tbl :: "huff_tbl list"
  quant_tbl :: "bytes list"
  using_default_huff_tab :: bool
  using_default_quant_tab :: bool
  comp_id_map :: bytes
  comp_info :: "component list"
  comps_in_scan :: u8
  Ss :: u16
  Se :: u16
  Ah :: u16
  Al :: u16
  input_scan_number :: u8
  is_res_file :: bool

definition null_huff_tbl :: huff_tbl where
  "null_huff_tbl = \<lparr>hbits = [], huffval = []\<rparr>"

definition zero_component :: component where
  "zero_component = \<lparr>component_id = 0, component_index = 0, h_samp_factor = 0, v_samp_factor = 0,
     MCU_width = 0, MCU_height = 0\<rparr>"

definition zero_map_entry :: tbl_map_entry where
  "zero_map_entry = \<lparr>dc_huff_tbl_id = 0, ac_huff_tbl_id = 0, quant_tbl_id = 0\<rparr>"

text \<open>The record after \<^verbatim>\<open>SCI_MEMSET(jpeg_fw_codec, 0, sizeof(JPEG_CODEC_T))\<close>.\<close>

definition zero_codec :: jpeg_codec where
  "zero_codec = \<lparr>restart_interval = 0, restart_to_go = 0, next_restart_num = 0, dc_pred_y = 0,
     dc_pred_uv = 0, restart_mcu_cnt = 0, bitstream_offset = 0, width = 0, height = 0, c_width = 0,
     c_height = 0, out_width = 0, out_height = 0,
     ratio = replicate 3 \<lparr>h_ratio = 0, v_ratio = 0\<rparr>, input_mcu_info = 0, compress_level = 0,
     RST_Count = 0, tbl_map = replicate 3 zero_map_entry, mcu_num_x = 0, mcu_num_y = 0,
     mcu_height = 0, mcu_width = 0, progressive_mode = False, num_components = 0, scale_factor = 0,
     dc_huff_tbl = replicate 4 null_huff_tbl, ac_huff_tbl = replicate 4 null_huff_tbl,
     quant_tbl = replicate 3 [], using_default_huff_tab = False, using_default_quant_tab = False,
     comp_id_map = replicate 3 0, comp_info = [], comps_in_scan = 0, Ss = 0, Se = 0, Ah = 0, Al = 0,
     input_scan_number = 0, is_res_file = False\<rparr>"

subsection \<open>Statements\<close>

datatype ('a, 's) jres = JOk 'a 's | JFail 's | JFault

type_synonym ('a, 's) jm = "'s \<Rightarrow> ('a, 's) jres"

named_theorems jstmt "unfolding rules of the statement combinators"

definition jbind :: "('a, 's) jm \<Rightarrow> ('a \<Rightarrow> ('b, 's) jm) \<Rightarrow> ('b, 's) jm" where
  [jstmt]: "jbind m k s = (case m s of JOk a s' \<Rightarrow> k a s' | JFail s' \<Rightarrow> JFail s' | JFault \<Rightarrow> JFault)"

definition jthen :: "('a, 's) jm \<Rightarrow> ('b, 's) jm \<Rightarrow> ('b, 's) jm" where
  [jstmt]: "jthen m n = jbind m (\<lambda>_. n)"

definition jret :: "'a \<Rightarrow> ('a, 's) jm" where
  [jstmt]: "jret a s = JOk a s"

definition jfail :: "('a, 's) jm" where
  [jstmt]: "jfail s = JFail s"

definition jget :: "('s \<Rightarrow> 'a) \<Rightarrow> ('a, 's) jm" where
  [jstmt]: "jget f s = JOk (f s) s"

definition jmod :: "('s \<Rightarrow> 's) \<Rightarrow> (unit, 's) jm" where
  [jstmt]: "jmod f s = JOk () (f s)"

text \<open>A statement that is undefined unless the access it makes is inside its object.\<close>

definition jcheck :: "('s \<Rightarrow> bool) \<Rightarrow> (unit, 's) jm" where
  [jstmt]: "jcheck P s = (if P s then JOk () s else JFault)"

definition jguard :: "bool \<Rightarrow> (unit, 's) jm" where
  [jstmt]: "jguard b s = (if b then JOk () s else JFail s)"

primrec jseq :: "(unit, 's) jm list \<Rightarrow> (unit, 's) jm" where
  "jseq [] = jret ()"
| "jseq (m # ms) = jthen m (jseq ms)"

abbreviation jfor :: "'a list \<Rightarrow> ('a \<Rightarrow> (unit, 's) jm) \<Rightarrow> (unit, 's) jm" where
  "jfor xs body \<equiv> jseq (map body xs)"

lemma jbind_cases:
  "m s = JOk a s' \<Longrightarrow> jbind m k s = k a s'"
  "m s = JFail s' \<Longrightarrow> jbind m k s = JFail s'"
  "m s = JFault \<Longrightarrow> jbind m k s = JFault"
  by (simp_all add: jstmt)

lemma jthen_cases:
  "m s = JOk a s' \<Longrightarrow> jthen m n s = n s'"
  "m s = JFail s' \<Longrightarrow> jthen m n s = JFail s'"
  "m s = JFault \<Longrightarrow> jthen m n s = JFault"
  by (simp_all add: jstmt)

lemma jseq_append: "jseq (ms @ ns) s = jthen (jseq ms) (jseq ns) s"
  by (induction ms arbitrary: s) (simp_all add: jstmt split: jres.split)

end
