(* ===== verification/JpegEnc.thy ===== *)
theory JpegEnc
  imports JpegCodec
begin

text \<open>
  The JPEG header writer: \<^verbatim>\<open>jpegenc_bitstream.c\<close> and the header functions of
  \<^verbatim>\<open>jpegenc_header.c\<close>.  The writer feeds a hardware bitstream module; its state here is the
  codec record, the bytes given to the module, and the script of the results of the status polls
  (\<^term>\<open>True\<close> is a timeout; a script that has run out stands for a module that is ready).  The
  polls of the byte writers ignore their result and are left out.
\<close>

record jenc =
  codec :: jpeg_codec
  out :: bytes
  polls :: "bool list"

type_synonym jwriter = "(unit, jenc) jm"

subsection \<open>\<^verbatim>\<open>jpegenc_bitstream.c\<close>\<close>

definition JPEGFW_PutC :: "u8 \<Rightarrow> jwriter" where
  "JPEGFW_PutC ch = jmod (\<lambda>e. e\<lparr>out := out e @ [ch]\<rparr>)"

definition JPEGFW_PutW :: "u16 \<Rightarrow> jwriter" where
  "JPEGFW_PutW w = jmod (\<lambda>e. e\<lparr>out := out e @ be16 w\<rparr>)"

definition JPEGFW_PutW_II :: "u16 \<Rightarrow> jwriter" where
  "JPEGFW_PutW_II w =
     (let tmp = push_bit 8 (w AND 0xFF) OR (drop_bit 8 w AND 0xFF) in JPEGFW_PutW tmp)"

text \<open>\<^verbatim>\<open>JPEGFW_PutBits\<close> with 32 bits; the second argument of its caller is not used.\<close>

definition JPEGFW_PutBits32 :: "u32 \<Rightarrow> jwriter" where
  "JPEGFW_PutBits32 val = jmod (\<lambda>e. e\<lparr>out := out e @ be32 val\<rparr>)"

definition JPEGFW_PutBits32_II :: "u32 \<Rightarrow> u32 \<Rightarrow> jwriter" where
  "JPEGFW_PutBits32_II val nbits =
     (let tmp = push_bit 24 (val AND 0xFF) OR push_bit 16 (drop_bit 8 val AND 0xFF)
                OR push_bit 8 (drop_bit 16 val AND 0xFF) OR (drop_bit 24 val AND 0xFF)
      in JPEGFW_PutBits32 tmp)"

subsection \<open>\<^verbatim>\<open>jpegenc_header.c\<close>\<close>

text \<open>A status poll whose timeout makes the function return \<^verbatim>\<open>JPEG_FAILED\<close>.\<close>

definition poll_ready :: jwriter where
  "poll_ready e = (case polls e of [] \<Rightarrow> JOk () e
     | b # bs \<Rightarrow> (if b then JFail (e\<lparr>polls := bs\<rparr>) else JOk () (e\<lparr>polls := bs\<rparr>)))"

definition PutMarker :: "u8 \<Rightarrow> jwriter" where
  "PutMarker mark = jseq [JPEGFW_PutC 0xFF, JPEGFW_PutC mark]"

definition OutPutRstMarker :: jwriter where
  "OutPutRstMarker = jseq
     [jmod (\<lambda>e. if RST_Count (codec e) > M_RST7
                then e\<lparr>codec := (codec e)\<lparr>RST_Count := M_RST0\<rparr>\<rparr> else e),
      JPEGFW_PutC 0xFF,
      jbind (jget (\<lambda>e. RST_Count (codec e))) JPEGFW_PutC,
      jmod (\<lambda>e. e\<lparr>codec := (codec e)\<lparr>RST_Count := RST_Count (codec e) + 1\<rparr>\<rparr>)]"

definition PutAPP0 :: jwriter where
  "PutAPP0 = jseq
     [poll_ready,
      PutMarker M_APP0,
      JPEGFW_PutW (2+4+1+2+1+2+2+1+1),
      JPEGFW_PutC 0x4A, JPEGFW_PutC 0x46, JPEGFW_PutC 0x49, JPEGFW_PutC 0x46,
      JPEGFW_PutC 0,
      JPEGFW_PutC 1,
      JPEGFW_PutC 1,
      JPEGFW_PutC 0,
      JPEGFW_PutW 1,
      JPEGFW_PutW 1,
      JPEGFW_PutC 0,
      JPEGFW_PutC 0]"

definition PutSOF0 :: jwriter where
  "PutSOF0 = jbind (jget codec) (\<lambda>c. jseq
     [poll_ready,
      PutMarker M_SOF0,
      JPEGFW_PutW (3*3+2+5+1),
      JPEGFW_PutC 8,
      JPEGFW_PutW (height c),
      JPEGFW_PutW (width c),
      JPEGFW_PutC 3,
      jfor [0..<3] (\<lambda>i. jseq
        [JPEGFW_PutC (of_nat (i + 1)),
         JPEGFW_PutC (push_bit 4 (h_ratio (ratio c ! i)) OR v_ratio (ratio c ! i)),
         JPEGFW_PutC (ucast (quant_tbl_id (tbl_map c ! i)))])])"

definition PutSOS :: jwriter where
  "PutSOS = jbind (jget codec) (\<lambda>c. jseq
     [poll_ready,
      PutMarker M_SOS,
      JPEGFW_PutW (2*3+2+1+3),
      JPEGFW_PutC 3,
      jfor [0..<3] (\<lambda>i. jseq
        [JPEGFW_PutC (of_nat (i + 1)),
         JPEGFW_PutC (push_bit 4 (dc_huff_tbl_id (tbl_map c ! i))
                      OR ac_huff_tbl_id (tbl_map c ! i))]),
      JPEGFW_PutC 0,
      JPEGFW_PutC 63,
      JPEGFW_PutC 0])"

text \<open>Writing an entry of a table: an index behind the end of the table is undefined.\<close>

definition put_entry :: "bytes \<Rightarrow> nat \<Rightarrow> jwriter" where
  "put_entry tbl k = jthen (jcheck (\<lambda>_. k < length tbl)) (JPEGFW_PutC (tbl ! k))"

definition PutQuantTbl :: jwriter where
  "PutQuantTbl = jbind (jget codec) (\<lambda>c. jfor [0..<2] (\<lambda>i.
     let quant = quant_tbl c ! i in jseq
     [poll_ready,
      PutMarker M_DQT,
      JPEGFW_PutW (64 + 1 + 2),
      JPEGFW_PutC (of_nat i),
      poll_ready,
      jfor [0..<32] (\<lambda>k. put_entry quant (jpeg_fw_zigzag_order ! k)),
      poll_ready,
      jfor [32..<64] (\<lambda>k. put_entry quant (jpeg_fw_zigzag_order ! k))]))"

definition symbol_count :: "bytes \<Rightarrow> u16" where
  "symbol_count bits = fold (\<lambda>i count. count + ucast (bits ! i)) [1..<17] 0"

definition PutOneHuffTbl :: "u8 \<Rightarrow> huff_tbl \<Rightarrow> jwriter" where
  "PutOneHuffTbl index tbl =
     jthen (jcheck (\<lambda>_. 16 < length (hbits tbl)))
       (let count = symbol_count (hbits tbl);
            length = 2 + 1 + 16 + count;
            int_count = unat (count div 32);
            left_count = unat (count mod 32)
        in jseq
        [poll_ready,
         PutMarker M_DHT,
         JPEGFW_PutW length,
         JPEGFW_PutC index,
         jfor [1..<17] (\<lambda>i. JPEGFW_PutC (hbits tbl ! i)),
         jfor [0..<int_count] (\<lambda>q.
           jthen poll_ready (jfor [32 * q..<32 * q + 32] (put_entry (huffval tbl)))),
         poll_ready,
         jfor [32 * int_count..<32 * int_count + left_count] (put_entry (huffval tbl))])"

definition PutHuffTbl :: jwriter where
  "PutHuffTbl = jbind (jget codec) (\<lambda>c. jseq
     [PutOneHuffTbl 0x00 (dc_huff_tbl c ! 0),
      PutOneHuffTbl 0x10 (ac_huff_tbl c ! 0),
      PutOneHuffTbl 0x01 (dc_huff_tbl c ! 1),
      PutOneHuffTbl 0x11 (ac_huff_tbl c ! 1)])"

definition WriteDRI :: jwriter where
  "WriteDRI = jbind (jget codec) (\<lambda>c. jthen poll_ready
     (if restart_interval c \<noteq> 0
      then jseq [PutMarker M_DRI, JPEGFW_PutW 4, JPEGFW_PutW (ucast (restart_interval c))]
      else jret ()))"

definition JPEG_HWWriteHeadForThumbnail :: jwriter where
  "JPEG_HWWriteHeadForThumbnail = jseq
     [poll_ready,
      PutMarker M_SOI,
      PutAPP0,
      PutQuantTbl,
      PutSOF0,
      PutHuffTbl,
      WriteDRI,
      PutSOS]"

definition JPEG_HWWriteTailForThumbnail :: jwriter where
  "JPEG_HWWriteTailForThumbnail = jseq [poll_ready, PutMarker M_EOI]"

subsection \<open>What a statement writes\<close>

text \<open>
  The contract of the writer: with the codec record \<^term>\<open>c\<close> a statement \<^term>\<open>m\<close> writes the
  bytes \<^term>\<open>xs\<close>.  When it ends normally all of them are on the line; when a status poll times
  out it returns early and a prefix of them is; it touches nothing else and never leaves a table.
\<close>

definition writes :: "jpeg_codec \<Rightarrow> jwriter \<Rightarrow> bytes \<Rightarrow> bool" where
  "writes c m xs \<longleftrightarrow> (\<forall>e. codec e = c \<longrightarrow>
     (case m e of
        JOk _ e' \<Rightarrow> codec e' = c \<and> out e' = out e @ xs \<and> set (polls e') \<subseteq> set (polls e)
      | JFail e' \<Rightarrow> codec e' = c \<and> True \<in> set (polls e)
                   \<and> (\<exists>p q. xs = p @ q \<and> out e' = out e @ p)
      | JFault \<Rightarrow> False))"

named_theorems writes_rules "what the statements of the header writer write"

lemma writes_jret [writes_rules]: "writes c (jret ()) []"
  by (simp add: writes_def jstmt)

lemma writes_PutC [writes_rules]: "writes c (JPEGFW_PutC b) [b]"
  by (simp add: writes_def JPEGFW_PutC_def jstmt)

lemma writes_PutW [writes_rules]: "writes c (JPEGFW_PutW w) (be16 w)"
  by (simp add: writes_def JPEGFW_PutW_def jstmt)

lemma writes_poll [writes_rules]: "writes c poll_ready []"
  by (auto simp: writes_def poll_ready_def split: list.split)

lemma writes_jcheck [writes_rules]: "(\<And>e. codec e = c \<Longrightarrow> P e) \<Longrightarrow> writes c (jcheck P) []"
  by (simp add: writes_def jstmt)

lemma writes_JOk:
  "writes c m xs \<Longrightarrow> codec e = c \<Longrightarrow> m e = JOk u e' \<Longrightarrow>
   codec e' = c \<and> out e' = out e @ xs \<and> set (polls e') \<subseteq> set (polls e)"
  unfolding writes_def by (drule spec [of _ e]) simp

lemma writes_JFail:
  "writes c m xs \<Longrightarrow> codec e = c \<Longrightarrow> m e = JFail e' \<Longrightarrow>
   codec e' = c \<and> True \<in> set (polls e) \<and> (\<exists>p q. xs = p @ q \<and> out e' = out e @ p)"
  unfolding writes_def by (drule spec [of _ e]) simp

lemma writes_no_fault: "writes c m xs \<Longrightarrow> codec e = c \<Longrightarrow> m e \<noteq> JFault"
  unfolding writes_def by (drule spec [of _ e]) auto

lemma writes_ready:
  assumes w: "writes c m xs" and c: "codec e = c" and r: "True \<notin> set (polls e)"
  shows "\<exists>e'. m e = JOk () e'"
proof (cases "m e")
  case (JFail e')
  from writes_JFail [OF w c this] r show ?thesis by simp
next
  case JFault
  with writes_no_fault [OF w c] show ?thesis by simp
qed simp

lemma writesI:
  assumes "\<And>e u e'. codec e = c \<Longrightarrow> m e = JOk u e' \<Longrightarrow>
      codec e' = c \<and> out e' = out e @ xs \<and> set (polls e') \<subseteq> set (polls e)"
    and "\<And>e e'. codec e = c \<Longrightarrow> m e = JFail e' \<Longrightarrow>
      codec e' = c \<and> True \<in> set (polls e) \<and> (\<exists>p q. xs = p @ q \<and> out e' = out e @ p)"
    and "\<And>e. codec e = c \<Longrightarrow> m e \<noteq> JFault"
  shows "writes c m xs"
  unfolding writes_def
proof (intro allI impI)
  fix e :: jenc assume c: "codec e = c"
  show "case m e of
        JOk _ e' \<Rightarrow> codec e' = c \<and> out e' = out e @ xs \<and> set (polls e') \<subseteq> set (polls e)
      | JFail e' \<Rightarrow> codec e' = c \<and> True \<in> set (polls e)
                   \<and> (\<exists>p q. xs = p @ q \<and> out e' = out e @ p)
      | JFault \<Rightarrow> False"
  proof (cases "m e")
    case (JOk u e') from assms(1) [OF c this] show ?thesis by (simp add: JOk)
  next
    case (JFail e') from assms(2) [OF c this] show ?thesis by (simp add: JFail)
  next
    case JFault with assms(3) [OF c] show ?thesis by simp
  qed
qed

lemma writes_jthen:
  assumes m: "writes c m xs" and n: "writes c n ys"
  shows "writes c (jthen m n) (xs @ ys)"
proof (rule writesI)
  fix e :: jenc and u e'
  assume c: "codec e = c" and run: "jthen m n e = JOk u e'"
  then obtain v e1 where 1: "m e = JOk v e1" "n e1 = JOk u e'"
    by (auto simp: jstmt split: jres.splits)
  from writes_JOk [OF m c 1(1)] writes_JOk [OF n _ 1(2)]
  show "codec e' = c \<and> out e' = out e @ xs @ ys \<and> set (polls e') \<subseteq> set (polls e)" by auto
next
  fix e :: jenc and e'
  assume c: "codec e = c" and run: "jthen m n e = JFail e'"
  then consider "m e = JFail e'" | v e1 where "m e = JOk v e1" "n e1 = JFail e'"
    by (auto simp: jstmt split: jres.splits)
  then show "codec e' = c \<and> True \<in> set (polls e) \<and> (\<exists>p q. xs @ ys = p @ q \<and> out e' = out e @ p)"
  proof cases
    case 1
    from writes_JFail [OF m c this] show ?thesis by auto
  next
    case 2
    from writes_JOk [OF m c 2(1)] writes_JFail [OF n _ 2(2)]
    obtain p q where "codec e' = c" "True \<in> set (polls e)" "ys = p @ q" "out e' = out e @ (xs @ p)"
      by auto
    then show ?thesis by (metis append.assoc)
  qed
next
  fix e :: jenc
  assume c: "codec e = c"
  show "jthen m n e \<noteq> JFault"
    using writes_no_fault [OF m c] writes_JOk [OF m c] writes_no_fault [OF n]
    by (auto simp: jstmt split: jres.splits)
qed

lemma writes_jseq_Nil [writes_rules]: "writes c (jseq []) []"
  by (simp add: writes_jret)

lemma writes_jseq_Cons [writes_rules]:
  "writes c m xs \<Longrightarrow> writes c (jseq ms) ys \<Longrightarrow> writes c (jseq (m # ms)) (xs @ ys)"
  by (simp add: writes_jthen)

lemma writes_jget [writes_rules]: "writes c (k c) xs \<Longrightarrow> writes c (jbind (jget codec) k) xs"
  by (simp add: writes_def jstmt)

lemma writes_jfor:
  assumes "\<And>x. x \<in> set xs \<Longrightarrow> writes c (body x) (f x)"
  shows "writes c (jfor xs body) (concat (map f xs))"
  using assms by (induction xs) (auto intro: writes_rules writes_jthen)

lemma writes_eq: "writes c m xs \<Longrightarrow> xs = ys \<Longrightarrow> writes c m ys"
  by simp

lemma writes_entry: "k < length tbl \<Longrightarrow> writes c (put_entry tbl k) [tbl ! k]"
  unfolding put_entry_def by (rule writes_eq, rule writes_jthen) (auto intro: writes_rules)

lemma writes_entries:
  assumes "\<forall>k \<in> set ks. k < length tbl"
  shows "writes c (jfor ks (put_entry tbl)) (map ((!) tbl) ks)"
  using writes_jfor [of ks c "put_entry tbl" "\<lambda>k. [tbl ! k]"] assms
  by (simp add: writes_entry)

lemma writes_marker [writes_rules]: "writes c (PutMarker m) [0xFF, m]"
  unfolding PutMarker_def by (rule writes_eq, (rule writes_rules)+) simp

subsection \<open>The segments\<close>

definition app0_segment :: bytes where
  "app0_segment = [0xFF, M_APP0] @ be16 16 @ [0x4A, 0x46, 0x49, 0x46, 0, 1, 1, 0, 0, 1, 0, 1, 0, 0]"

lemma writes_APP0 [writes_rules]: "writes c PutAPP0 app0_segment"
  unfolding PutAPP0_def
  by (rule writes_eq, (rule writes_rules)+) (simp add: app0_segment_def layout)

definition sof0_component :: "jpeg_codec \<Rightarrow> nat \<Rightarrow> bytes" where
  "sof0_component c i =
     [of_nat (i + 1), push_bit 4 (h_ratio (ratio c ! i)) OR v_ratio (ratio c ! i),
      ucast (quant_tbl_id (tbl_map c ! i))]"

definition sof0_segment :: "jpeg_codec \<Rightarrow> bytes" where
  "sof0_segment c = [0xFF, M_SOF0] @ be16 17 @ [8] @ be16 (height c) @ be16 (width c) @ [3]
     @ concat (map (sof0_component c) [0..<3])"

lemma writes_SOF0 [writes_rules]: "writes c PutSOF0 (sof0_segment c)"
proof -
  have "writes c (jfor [0..<3] (\<lambda>i. jseq
        [JPEGFW_PutC (of_nat (i + 1)),
         JPEGFW_PutC (push_bit 4 (h_ratio (ratio c ! i)) OR v_ratio (ratio c ! i)),
         JPEGFW_PutC (ucast (quant_tbl_id (tbl_map c ! i)))])) (concat (map (sof0_component c) [0..<3]))"
    by (rule writes_jfor, rule writes_eq, (rule writes_rules)+) (simp add: sof0_component_def)
  note loop = this
  show ?thesis unfolding PutSOF0_def
    by (rule writes_eq, (rule writes_rules loop)+) (simp add: sof0_segment_def)
qed

definition sos_component :: "jpeg_codec \<Rightarrow> nat \<Rightarrow> bytes" where
  "sos_component c i =
     [of_nat (i + 1), push_bit 4 (dc_huff_tbl_id (tbl_map c ! i)) OR ac_huff_tbl_id (tbl_map c ! i)]"

definition sos_segment :: "jpeg_codec \<Rightarrow> bytes" where
  "sos_segment c = [0xFF, M_SOS] @ be16 12 @ [3] @ concat (map (sos_component c) [0..<3]) @ [0, 63, 0]"

lemma writes_SOS [writes_rules]: "writes c PutSOS (sos_segment c)"
proof -
  have "writes c (jfor [0..<3] (\<lambda>i. jseq
        [JPEGFW_PutC (of_nat (i + 1)),
         JPEGFW_PutC (push_bit 4 (dc_huff_tbl_id (tbl_map c ! i))
                      OR ac_huff_tbl_id (tbl_map c ! i))])) (concat (map (sos_component c) [0..<3]))"
    by (rule writes_jfor, rule writes_eq, (rule writes_rules)+) (simp add: sos_component_def)
  note loop = this
  show ?thesis unfolding PutSOS_def
    by (rule writes_eq, (rule writes_rules loop)+) (simp add: sos_segment_def)
qed

definition dri_segment :: "jpeg_codec \<Rightarrow> bytes" where
  "dri_segment c = (if restart_interval c \<noteq> 0
     then [0xFF, M_DRI] @ be16 4 @ be16 (ucast (restart_interval c)) else [])"

lemma writes_DRI [writes_rules]: "writes c WriteDRI (dri_segment c)"
proof -
  have "writes c (if restart_interval c \<noteq> 0
      then jseq [PutMarker M_DRI, JPEGFW_PutW 4, JPEGFW_PutW (ucast (restart_interval c))]
      else jret ()) (dri_segment c)"
    by (auto simp: dri_segment_def intro: writes_rules)
      (rule writes_eq, (rule writes_rules writes_jthen)+, simp)
  from writes_jthen [OF writes_poll this] show ?thesis
    unfolding WriteDRI_def by (intro writes_rules) simp
qed

subsection \<open>Tables\<close>

text \<open>A quantization table holds a block; a Huffman table as many symbols as its counts say, at
  most 256, the capacity of the parser's tables.\<close>

definition quant_ok :: "bytes \<Rightarrow> bool" where
  "quant_ok q \<longleftrightarrow> length q = 64"

definition symbols :: "huff_tbl \<Rightarrow> nat" where
  "symbols t = (\<Sum>i = 1..<17. unat (hbits t ! i))"

definition huff_ok :: "huff_tbl \<Rightarrow> bool" where
  "huff_ok t \<longleftrightarrow> length (hbits t) = 17 \<and> symbols t \<le> 256 \<and> symbols t \<le> length (huffval t)"

definition tables_ok :: "jpeg_codec \<Rightarrow> bool" where
  "tables_ok c \<longleftrightarrow> quant_ok (quant_tbl c ! 0) \<and> quant_ok (quant_tbl c ! 1)
     \<and> huff_ok (dc_huff_tbl c ! 0) \<and> huff_ok (ac_huff_tbl c ! 0)
     \<and> huff_ok (dc_huff_tbl c ! 1) \<and> huff_ok (ac_huff_tbl c ! 1)"

lemma fold_count:
  "fold (\<lambda>i (count :: u16). count + ucast (bits ! i)) xs n = n + of_nat (\<Sum>i\<leftarrow>xs. unat ((bits :: bytes) ! i))"
  by (induction xs arbitrary: n) (simp_all add: algebra_simps unsigned_ucast_eq)

lemma symbol_count_symbols: "symbol_count (hbits t) = of_nat (symbols t)"
  unfolding symbol_count_def symbols_def fold_count
  by (simp add: sum_list_distinct_conv_sum_set del: upt.simps)

lemma unat_symbol_count:
  assumes "huff_ok t"
  shows "unat (symbol_count (hbits t)) = symbols t"
proof -
  have "symbols t < 2 ^ LENGTH(16)" using assms by (simp add: huff_ok_def)
  then show ?thesis by (simp add: symbol_count_symbols unsigned_of_nat take_bit_nat_eq_self)
qed

definition dqt_segment :: "jpeg_codec \<Rightarrow> nat \<Rightarrow> bytes" where
  "dqt_segment c i = [0xFF, M_DQT] @ be16 67 @ [of_nat i] @ map ((!) (quant_tbl c ! i)) zigzag"

lemma map_zigzag: "map ((!) q) zigzag = map (\<lambda>k. q ! (jpeg_fw_zigzag_order ! k)) ([0..<32] @ [32..<64])"
proof -
  have "map ((!) q) zigzag = map (\<lambda>k. q ! (zigzag ! k)) [0..<64]"
    by (rule nth_equalityI) (simp_all del: upt.simps)
  also have "\<dots> = map (\<lambda>k. q ! (jpeg_fw_zigzag_order ! k)) [0..<64]"
    by (rule map_cong) (simp_all add: zigzag_nth)
  finally show ?thesis
    using upt_add_eq_append [of 0 32 32] by simp
qed

lemma writes_quant_half:
  assumes "quant_ok q" "j \<le> 64"
  shows "writes c (jfor [i..<j] (\<lambda>k. put_entry q (jpeg_fw_zigzag_order ! k)))
           (map (\<lambda>k. q ! (jpeg_fw_zigzag_order ! k)) [i..<j])"
proof -
  have "writes c (jfor [i..<j] (\<lambda>k. put_entry q (jpeg_fw_zigzag_order ! k)))
          (concat (map (\<lambda>k. [q ! (jpeg_fw_zigzag_order ! k)]) [i..<j]))"
    using assms by (intro writes_jfor writes_entry) (simp add: quant_ok_def zigzag_nth)
  then show ?thesis by simp
qed

lemma writes_DQT:
  assumes "quant_ok (quant_tbl c ! 0)" "quant_ok (quant_tbl c ! 1)"
  shows "writes c PutQuantTbl (dqt_segment c 0 @ dqt_segment c 1)"
proof -
  have one: "writes c (let quant = quant_tbl c ! i in jseq
     [poll_ready, PutMarker M_DQT, JPEGFW_PutW (64 + 1 + 2), JPEGFW_PutC (of_nat i), poll_ready,
      jfor [0..<32] (\<lambda>k. put_entry quant (jpeg_fw_zigzag_order ! k)), poll_ready,
      jfor [32..<64] (\<lambda>k. put_entry quant (jpeg_fw_zigzag_order ! k))]) (dqt_segment c i)"
    if "i < 2" for i
  proof -
    from that assms have q: "quant_ok (quant_tbl c ! i)" by (auto simp: less_2_cases_iff)
    show ?thesis unfolding Let_def
      by (rule writes_eq, (rule writes_rules writes_quant_half q)+, simp, (rule writes_rules)+,
          rule writes_quant_half, rule q, simp, rule writes_rules)
        (simp add: dqt_segment_def map_zigzag del: upt.simps)
  qed
  have "writes c (jfor [0..<2] (\<lambda>i. let quant = quant_tbl c ! i in jseq
     [poll_ready, PutMarker M_DQT, JPEGFW_PutW (64 + 1 + 2), JPEGFW_PutC (of_nat i), poll_ready,
      jfor [0..<32] (\<lambda>k. put_entry quant (jpeg_fw_zigzag_order ! k)), poll_ready,
      jfor [32..<64] (\<lambda>k. put_entry quant (jpeg_fw_zigzag_order ! k))]))
    (concat (map (dqt_segment c) [0..<2]))"
    by (rule writes_jfor, rule one) simp
  moreover have "[0..<2] = [0, 1::nat]" by (simp add: upt_rec)
  ultimately show ?thesis
    unfolding PutQuantTbl_def by (intro writes_jget) simp
qed

definition dht_segment :: "u8 \<Rightarrow> huff_tbl \<Rightarrow> bytes" where
  "dht_segment index t = [0xFF, M_DHT] @ be16 (19 + symbol_count (hbits t)) @ [index]
     @ map ((!) (hbits t)) [1..<17] @ take (symbols t) (huffval t)"

lemma take_entries: "n \<le> length xs \<Longrightarrow> take n xs = map ((!) xs) [0..<n]"
  by (rule nth_equalityI) simp_all

lemma concat_blocks:
  "concat (map (\<lambda>q. map f [k * q..<k * q + k]) [0..<n]) = map f [0..<k * n]"
proof (induction n)
  case (Suc n)
  have "[0..<k * n + k] = [0..<k * n] @ [k * n..<k * n + k]" by (rule upt_add_eq_append) simp
  then have "map f [0..<k * Suc n] = map f [0..<k * n] @ map f [k * n..<k * n + k]"
    by (simp add: add.commute)
  then show ?case by (simp add: Suc)
qed simp

lemma writes_DHT:
  assumes "huff_ok t"
  shows "writes c (PutOneHuffTbl index t) (dht_segment index t)"
proof -
  define k r where "k = unat (symbol_count (hbits t) div 32)" and "r = unat (symbol_count (hbits t) mod 32)"
  have n: "symbols t = 32 * k + r"
    using unat_symbol_count [OF assms] by (simp add: k_def r_def unat_div unat_mod)
  have len: "symbols t \<le> length (huffval t)" "length (hbits t) = 17"
    using assms by (simp_all add: huff_ok_def)
  have bits: "writes c (jfor [1..<17] (\<lambda>i. JPEGFW_PutC (hbits t ! i))) (map ((!) (hbits t)) [1..<17])"
    by (rule writes_eq, rule writes_jfor [where f = "\<lambda>i. [hbits t ! i]"], rule writes_PutC) simp
  have block: "writes c (jthen poll_ready (jfor [32 * q..<32 * q + 32] (put_entry (huffval t))))
      ([] @ map ((!) (huffval t)) [32 * q..<32 * q + 32])" if "q < k" for q
    using that n len by (intro writes_jthen writes_poll writes_entries) auto
  have blocks: "writes c (jfor [0..<k] (\<lambda>q. jthen poll_ready
      (jfor [32 * q..<32 * q + 32] (put_entry (huffval t))))) (map ((!) (huffval t)) [0..<32 * k])"
    by (rule writes_eq, rule writes_jfor, rule block) (simp_all add: concat_blocks)
  have rest: "writes c (jfor [32 * k..<32 * k + r] (put_entry (huffval t)))
      (map ((!) (huffval t)) [32 * k..<32 * k + r])"
    using n len by (intro writes_entries) auto
  have "[0..<32 * k + r] = [0..<32 * k] @ [32 * k..<32 * k + r]"
    by (rule upt_add_eq_append) simp
  then have vals: "take (symbols t) (huffval t)
      = map ((!) (huffval t)) [0..<32 * k] @ map ((!) (huffval t)) [32 * k..<32 * k + r]"
    using take_entries [OF len(1)] by (simp add: n)
  show ?thesis
    unfolding PutOneHuffTbl_def Let_def k_def [symmetric] r_def [symmetric]
    by (rule writes_eq, rule writes_jthen, rule writes_jcheck, simp add: len,
        (rule writes_jseq_Cons writes_jseq_Nil writes_poll writes_marker writes_PutW writes_PutC
           bits blocks rest)+)
      (simp add: dht_segment_def vals add.commute del: upt.simps)
qed

definition dht_segments :: "jpeg_codec \<Rightarrow> bytes" where
  "dht_segments c = dht_segment 0x00 (dc_huff_tbl c ! 0) @ dht_segment 0x10 (ac_huff_tbl c ! 0)
     @ dht_segment 0x01 (dc_huff_tbl c ! 1) @ dht_segment 0x11 (ac_huff_tbl c ! 1)"

lemma writes_HuffTbl:
  assumes "tables_ok c"
  shows "writes c PutHuffTbl (dht_segments c)"
proof -
  have ok: "huff_ok (dc_huff_tbl c ! 0)" "huff_ok (ac_huff_tbl c ! 0)"
    "huff_ok (dc_huff_tbl c ! 1)" "huff_ok (ac_huff_tbl c ! 1)"
    using assms by (simp_all only: tables_ok_def)
  show ?thesis
    unfolding PutHuffTbl_def dht_segments_def
    by (rule writes_jget, rule writes_eq, (rule writes_jseq_Cons writes_jseq_Nil ok [THEN writes_DHT])+)
      simp
qed

definition header_bytes :: "jpeg_codec \<Rightarrow> bytes" where
  "header_bytes c = [0xFF, M_SOI] @ app0_segment @ dqt_segment c 0 @ dqt_segment c 1
     @ sof0_segment c @ dht_segments c @ dri_segment c @ sos_segment c"

lemma writes_header:
  assumes "tables_ok c"
  shows "writes c JPEG_HWWriteHeadForThumbnail (header_bytes c)"
proof -
  have "writes c PutQuantTbl (dqt_segment c 0 @ dqt_segment c 1)"
    using assms unfolding tables_ok_def by (blast intro: writes_DQT)
  note segments = this writes_HuffTbl [OF assms]
  show ?thesis
    unfolding JPEG_HWWriteHeadForThumbnail_def
    by (rule writes_eq, (rule writes_rules segments)+) (simp add: header_bytes_def)
qed

end
