(* ===== verification/JpegStream.thy ===== *)
theory JpegStream
  imports JpegCodec
begin

text \<open>
  The input side of the JPEG decoder: the arena allocator of \<^verbatim>\<open>jpegdec_malloc.c\<close> and the byte
  reader of \<^verbatim>\<open>jpegdec_bitstream.c\<close>.  The reader works on a buffer that is either the whole
  stream or is refilled by a callback; the callback is a script of the pieces that its calls
  deliver (a script that has run out delivers nothing).  \<^verbatim>\<open>SCI_ASSERT\<close> is defined as nothing in
  \<^verbatim>\<open>vsp_drv_sc8810.h\<close>, so the checks of the allocator have no effect: a block that lies behind the
  end of the arena has no accessible byte.
\<close>

record jdec =
  dcodec :: jpeg_codec
  s_inter_buf_bitstream :: bytes
  s_inter_buf_pos :: nat
  s_jremain_byte_num :: nat
  s_header_len :: u32
  s_file_offset :: u32
  read_script :: "bytes list option"
  s_extra_mem_bfr :: u32
  s_extra_mem_size :: u32
  s_used_extra_mem :: u32
  g_huff_tbl_malloced :: bool
  input_width :: u32
  input_height :: u32
  mcu_info :: u32
  quant_level :: u32
  input_progressive :: bool

type_synonym 'a jreader = "('a, jdec) jm"

definition set_codec :: "(jpeg_codec \<Rightarrow> jpeg_codec) \<Rightarrow> unit jreader" where
  [jstmt]: "set_codec f = jmod (\<lambda>d. d\<lparr>dcodec := f (dcodec d)\<rparr>)"

subsection \<open>\<^verbatim>\<open>jpegdec_malloc.c\<close>\<close>

text \<open>The accessible bytes of the block, cleared as \<^verbatim>\<open>JpegDec_InitMem\<close> left them.\<close>

definition JpegDec_ExtraMemAlloc :: "u32 \<Rightarrow> bytes jreader" where
  "JpegDec_ExtraMemAlloc mem_size d =
     (let rounded = (mem_size + 3) AND NOT 3;
          room = unat (s_extra_mem_size d) - unat (s_used_extra_mem d)
      in JOk (replicate (min (unat mem_size) room) 0)
           (d\<lparr>s_used_extra_mem := s_used_extra_mem d + rounded\<rparr>))"

definition JpegDec_FreeNBytes :: "u32 \<Rightarrow> unit jreader" where
  "JpegDec_FreeNBytes mem_size = jmod (\<lambda>d. d\<lparr>s_used_extra_mem := s_used_extra_mem d - mem_size\<rparr>)"

definition JpegDec_FreeMem :: "unit jreader" where
  "JpegDec_FreeMem = jmod (\<lambda>d. d\<lparr>s_used_extra_mem := 0\<rparr>)"

definition JpegDec_InitMem :: "u32 \<Rightarrow> u32 \<Rightarrow> unit jreader" where
  "JpegDec_InitMem buf_ptr buf_size =
     (if buf_ptr = 0 \<or> buf_size < 4 then jret ()
      else let addr = push_bit 2 (drop_bit 2 (buf_ptr + 3));
               diff = addr - buf_ptr;
               actual_size = buf_size - diff
           in jmod (\<lambda>d. d\<lparr>s_extra_mem_bfr := addr, s_extra_mem_size := actual_size,
                         s_used_extra_mem := 0\<rparr>))"

subsection \<open>\<^verbatim>\<open>jpegdec_bitstream.c\<close>\<close>

text \<open>A call of the read callback for the whole buffer.  A piece longer than the buffer would be
  an overrun.\<close>

definition read_piece :: "jdec \<Rightarrow> jdec option" where
  "read_piece d = (case read_script d of
       None \<Rightarrow> Some d
     | Some [] \<Rightarrow> Some (d\<lparr>s_inter_buf_pos := 0, s_jremain_byte_num := 0\<rparr>)
     | Some (c # cs) \<Rightarrow> do {
         buf \<leftarrow> store 0 c (s_inter_buf_bitstream d);
         Some (d\<lparr>s_inter_buf_bitstream := buf, s_inter_buf_pos := 0,
                 s_jremain_byte_num := length c,
                 s_file_offset := s_file_offset d + of_nat (length c), read_script := Some cs\<rparr>)})"

definition get_char :: "u8 jreader" where
  "get_char d =
     (case if s_jremain_byte_num d = 0 then read_piece d else Some d of
        None \<Rightarrow> JFault
      | Some d' \<Rightarrow>
          if s_jremain_byte_num d' = 0 then JFail d'
          else if s_inter_buf_pos d' < length (s_inter_buf_bitstream d')
          then JOk (s_inter_buf_bitstream d' ! s_inter_buf_pos d')
                 (d'\<lparr>s_inter_buf_pos := s_inter_buf_pos d' + 1,
                     s_jremain_byte_num := s_jremain_byte_num d' - 1,
                     s_header_len := s_header_len d' + 1\<rparr>)
          else JFault)"

definition get_short_word :: "u16 jreader" where
  "get_short_word = jbind get_char (\<lambda>value0. jbind get_char (\<lambda>value1. jret (mk16 value0 value1)))"

definition get_word :: "u32 jreader" where
  "get_word = jbind get_short_word (\<lambda>value0. jbind get_short_word (\<lambda>value1.
     jret (push_bit 16 (ucast value0) OR ucast value1)))"

definition skip_n_byte :: "nat \<Rightarrow> unit jreader" where
  "skip_n_byte n d = (if s_jremain_byte_num d \<ge> n
     then JOk () (d\<lparr>s_inter_buf_pos := s_inter_buf_pos d + n,
                   s_jremain_byte_num := s_jremain_byte_num d - n\<rparr>)
     else JFail d)"

text \<open>The buffer is the caller's stream, or a block of the arena filled by the first call of the
  callback.\<close>

definition JpegDec_InitBitream :: "bytes \<Rightarrow> bytes list option \<Rightarrow> unit jreader" where
  "JpegDec_InitBitream bitstream reads = (case reads of
       None \<Rightarrow> jmod (\<lambda>d. d\<lparr>s_inter_buf_bitstream := bitstream, s_inter_buf_pos := 0,
                 s_jremain_byte_num := length bitstream, s_header_len := 0, s_file_offset := 0,
                 read_script := None\<rparr>)
     | Some rs \<Rightarrow> jbind (JpegDec_ExtraMemAlloc (3 * 1024)) (\<lambda>buf d.
         case read_piece (d\<lparr>s_inter_buf_bitstream := buf, s_inter_buf_pos := 0,
                 s_jremain_byte_num := 3 * 1024, s_header_len := 0, s_file_offset := 0,
                 read_script := Some rs\<rparr>) of
           None \<Rightarrow> JFault
         | Some d' \<Rightarrow> JOk () d'))"

text \<open>A byte relative to the read position, looked at without being consumed.\<close>

definition peek :: "int \<Rightarrow> u8 jreader" where
  "peek off d = (let k = int (s_inter_buf_pos d) + off in
     if 0 \<le> k \<and> k < int (length (s_inter_buf_bitstream d))
     then JOk (s_inter_buf_bitstream d ! nat k) d else JFault)"

definition get_header_len :: "u32 jreader" where
  "get_header_len = jbind (jget s_header_len) (\<lambda>len.
     let wordAlign_len = push_bit 2 (drop_bit 2 len);
         unligned_byte = unat (len - wordAlign_len)
     in jthen
       (if unligned_byte > 1
        then jfor [0..<unligned_byte] (\<lambda>i.
          jbind (peek (int i - int unligned_byte)) (\<lambda>b0.
            if b0 = 0xFF
            then jbind (peek (int i + 1 - int unligned_byte)) (\<lambda>b1.
              if b1 = 0 then jmod (\<lambda>d. d\<lparr>s_header_len := s_header_len d - 1\<rparr>) else jret ())
            else jret ()))
        else jret ())
       (jget s_header_len))"

fun match_id :: "int \<Rightarrow> bytes \<Rightarrow> bool jreader" where
  "match_id k [] = jret True"
| "match_id k (c # cs) = jbind (peek k) (\<lambda>b. if b = c then match_id (k + 1) cs else jret False)"

definition is_res_jpg_file :: "bool jreader" where
  "is_res_jpg_file = match_id 0 [0x53, 0x4A, 0x50, 0x47]"

subsection \<open>Bytes that are left\<close>

text \<open>The bytes that the reader can still deliver; every byte read takes one away, which is what
  bounds the loops of the parser.\<close>

definition avail :: "jdec \<Rightarrow> nat" where
  "avail d = s_jremain_byte_num d
     + (case read_script d of None \<Rightarrow> 0 | Some rs \<Rightarrow> sum_list (map length rs))"

definition shrinks :: "'a jreader \<Rightarrow> bool" where
  "shrinks m \<longleftrightarrow> (\<forall>d a d'. m d = JOk a d' \<longrightarrow> avail d' \<le> avail d)"

named_theorems shrinks_rules "statements that do not add bytes to the stream"

lemma shrinksI: "(\<And>d a d'. m d = JOk a d' \<Longrightarrow> avail d' \<le> avail d) \<Longrightarrow> shrinks m"
  by (simp add: shrinks_def)

lemma shrinksD: "shrinks m \<Longrightarrow> m d = JOk a d' \<Longrightarrow> avail d' \<le> avail d"
  by (simp add: shrinks_def)

lemma shrinks_jbind [shrinks_rules]:
  assumes "shrinks m" "\<And>a. shrinks (k a)"
  shows "shrinks (jbind m k)"
proof (rule shrinksI)
  fix d a d' assume "jbind m k d = JOk a d'"
  then obtain b d1 where "m d = JOk b d1" "k b d1 = JOk a d'"
    by (auto simp: jstmt split: jres.splits)
  with assms show "avail d' \<le> avail d" by (meson shrinksD le_trans)
qed

lemma shrinks_jthen [shrinks_rules]: "shrinks m \<Longrightarrow> shrinks n \<Longrightarrow> shrinks (jthen m n)"
  unfolding jthen_def by (rule shrinks_jbind)

lemma shrinks_simple [shrinks_rules]:
  "shrinks (jret a)" "shrinks jfail" "shrinks (jget g)" "shrinks (jcheck P)" "shrinks (jguard b)"
  by (auto simp: shrinks_def jstmt split: if_splits)

lemma shrinks_jmod [shrinks_rules]: "(\<And>d. avail (f d) \<le> avail d) \<Longrightarrow> shrinks (jmod f)"
  by (auto simp: shrinks_def jstmt)

lemma avail_update [simp]:
  "avail (d\<lparr>dcodec := c\<rparr>) = avail d" "avail (d\<lparr>s_used_extra_mem := u\<rparr>) = avail d"
  "avail (d\<lparr>g_huff_tbl_malloced := b\<rparr>) = avail d" "avail (d\<lparr>input_width := w\<rparr>) = avail d"
  "avail (d\<lparr>input_height := h\<rparr>) = avail d" "avail (d\<lparr>mcu_info := i\<rparr>) = avail d"
  "avail (d\<lparr>quant_level := q\<rparr>) = avail d" "avail (d\<lparr>input_progressive := b\<rparr>) = avail d"
  "avail (d\<lparr>s_header_len := n\<rparr>) = avail d"
  by (simp_all add: avail_def)

lemma shrinks_set_codec [shrinks_rules]: "shrinks (set_codec f)"
  unfolding set_codec_def by (rule shrinks_rules) simp

lemma shrinks_alloc [shrinks_rules]: "shrinks (JpegDec_ExtraMemAlloc n)"
  by (auto simp: shrinks_def JpegDec_ExtraMemAlloc_def Let_def)

lemma shrinks_jseq [shrinks_rules]: "(\<And>m. m \<in> set ms \<Longrightarrow> shrinks m) \<Longrightarrow> shrinks (jseq ms)"
  by (induction ms) (simp_all add: shrinks_rules)

lemma shrinks_if [shrinks_rules]: "shrinks m \<Longrightarrow> shrinks n \<Longrightarrow> shrinks (if b then m else n)"
  by simp

lemma avail_read_piece: "read_piece d = Some d' \<Longrightarrow> s_jremain_byte_num d = 0 \<Longrightarrow> avail d' = avail d"
  by (auto simp: read_piece_def avail_def split: option.splits list.splits Option.bind_splits)

lemma get_char_consumes: "get_char d = JOk c d' \<Longrightarrow> avail d' < avail d"
  using avail_read_piece [of d]
  by (auto simp: get_char_def avail_def split: if_splits option.splits)

lemma shrinks_get_char [shrinks_rules]: "shrinks get_char"
  by (rule shrinksI) (auto dest: get_char_consumes)

lemma shrinks_get_short_word [shrinks_rules]: "shrinks get_short_word"
  unfolding get_short_word_def by (intro shrinks_rules)

end
