(* ===== verification/JpegParse.thy ===== *)
theory JpegParse
  imports JpegStream
begin

text \<open>
  The JPEG header parser, \<^verbatim>\<open>jpegdec_parse.c\<close>, and its entry \<^verbatim>\<open>JPEG_FWParseHead\<close> of
  \<^verbatim>\<open>jpegdec_interface.c\<close>.  Every function is a statement over the decoder state; a read that
  fails ends the whole parse, as every caller returns at once.  An index outside a table of the
  codec record or outside a block of the arena is undefined.
\<close>

subsection \<open>Markers\<close>

function skip_non_ff :: "unit jreader" where
  "skip_non_ff d = (case get_char d of
       JOk c d' \<Rightarrow> if c \<noteq> 0xFF then skip_non_ff d' else JOk () d'
     | JFail d' \<Rightarrow> JFail d' | JFault \<Rightarrow> JFault)"
  by auto
termination by (relation "measure avail") (auto dest: get_char_consumes)

function skip_ff :: "u8 jreader" where
  "skip_ff d = (case get_char d of
       JOk c d' \<Rightarrow> if c = 0xFF then skip_ff d' else JOk c d'
     | JFail d' \<Rightarrow> JFail d' | JFault \<Rightarrow> JFault)"
  by auto
termination by (relation "measure avail") (auto dest: get_char_consumes)

declare skip_non_ff.simps [simp del] skip_ff.simps [simp del]

lemma skip_non_ff_consumes: "skip_non_ff d = JOk u d' \<Longrightarrow> avail d' < avail d"
proof (induction d rule: skip_non_ff.induct)
  case (1 d)
  obtain c d1 where c: "get_char d = JOk c d1"
    using "1.prems" by (cases "get_char d") (simp_all add: skip_non_ff.simps [of d])
  with "1.prems" "1.IH" [OF c] get_char_consumes [OF c] show ?case
    by (auto simp: skip_non_ff.simps [of d] split: if_splits)
qed

lemma skip_ff_consumes: "skip_ff d = JOk c d' \<Longrightarrow> avail d' < avail d"
proof (induction d rule: skip_ff.induct)
  case (1 d)
  obtain c d1 where c: "get_char d = JOk c d1"
    using "1.prems" by (cases "get_char d") (simp_all add: skip_ff.simps [of d])
  with "1.prems" "1.IH" [OF c] get_char_consumes [OF c] show ?case
    by (auto simp: skip_ff.simps [of d] split: if_splits)
qed

function GetNextMarker :: "u8 jreader" where
  "GetNextMarker d = (case jbind skip_non_ff (\<lambda>_. skip_ff) d of
       JOk c d' \<Rightarrow> if c = 0 then GetNextMarker d' else JOk c d'
     | JFail d' \<Rightarrow> JFail d' | JFault \<Rightarrow> JFault)"
  by auto
termination
  by (relation "measure avail")
    (auto simp: jstmt split: jres.splits dest!: skip_non_ff_consumes skip_ff_consumes)

declare GetNextMarker.simps [simp del]

lemma GetNextMarker_consumes: "GetNextMarker d = JOk c d' \<Longrightarrow> avail d' < avail d"
proof (induction d rule: GetNextMarker.induct)
  case (1 d)
  obtain u d1 b d2 where 2: "skip_non_ff d = JOk u d1" "skip_ff d1 = JOk b d2"
    using "1.prems" by (auto simp: GetNextMarker.simps [of d] jstmt split: jres.splits)
  then have "jbind skip_non_ff (\<lambda>_. skip_ff) d = JOk b d2" by (simp add: jstmt)
  with "1.prems" "1.IH" [OF this] skip_non_ff_consumes [OF 2(1)] skip_ff_consumes [OF 2(2)]
  show ?case by (auto simp: GetNextMarker.simps [of d] split: if_splits)
qed

lemma shrinks_GetNextMarker [shrinks_rules]: "shrinks GetNextMarker"
  by (rule shrinksI) (auto dest: GetNextMarker_consumes)

subsection \<open>Frame header\<close>

text \<open>Length, precision, size and number of components, then the component array.\<close>

definition GetSOF_head :: "bool \<Rightarrow> u8 jreader" where
  "GetSOF_head isProgressive =
     jthen (jmod (\<lambda>d. d\<lparr>input_progressive := isProgressive\<rparr>))
     (jbind get_short_word (\<lambda>length. jthen (jguard (\<not> length < 8))
     (jbind get_char (\<lambda>c. jthen (jguard (c = 8))
     (jbind get_short_word (\<lambda>height. jbind get_short_word (\<lambda>width.
      jthen (jmod (\<lambda>d. d\<lparr>input_height := ucast height, input_width := ucast width\<rparr>))
     (jbind get_char (\<lambda>component_num.
      jthen (jguard (unat length = unat component_num * 3 + 8))
     (jthen (set_codec (\<lambda>k. k\<lparr>num_components := component_num\<rparr>))
     (jbind (JpegDec_ExtraMemAlloc (ucast component_num * 16)) (\<lambda>block.
      jthen (set_codec (\<lambda>k. k\<lparr>comp_info := replicate (List.length block div 16) zero_component\<rparr>))
        (jret component_num)))))))))))))"

definition set_component :: "u8 \<Rightarrow> (component \<Rightarrow> component) \<Rightarrow> unit jreader" where
  "set_component ci f =
     jthen (jcheck (\<lambda>d. unat ci < length (comp_info (dcodec d))))
       (set_codec (\<lambda>k. k\<lparr>comp_info := (comp_info k)[unat ci := f (comp_info k ! unat ci)]\<rparr>))"

definition get_component :: "u8 \<Rightarrow> component jreader" where
  "get_component ci =
     jthen (jcheck (\<lambda>d. unat ci < length (comp_info (dcodec d))))
       (jget (\<lambda>d. comp_info (dcodec d) ! unat ci))"

definition set_tbl_map :: "nat \<Rightarrow> (tbl_map_entry \<Rightarrow> tbl_map_entry) \<Rightarrow> unit jreader" where
  "set_tbl_map i f =
     jthen (jcheck (\<lambda>d. i < length (tbl_map (dcodec d))))
       (set_codec (\<lambda>k. k\<lparr>tbl_map := (tbl_map k)[i := f (tbl_map k ! i)]\<rparr>))"

definition GetSOF_component :: "u8 \<Rightarrow> unit jreader" where
  "GetSOF_component ci = jbind get_char (\<lambda>yuv. let yuv_id = yuv - 1 in
     jseq
      [set_component ci (\<lambda>p. p\<lparr>component_index := ci, component_id := yuv\<rparr>),
       jguard (\<not> (sint yuv_id < 0 \<or> sint yuv_id > 2)),
       jbind get_char (\<lambda>c. set_component ci (\<lambda>p.
         p\<lparr>h_samp_factor := drop_bit 4 c AND 0x0F, v_samp_factor := c AND 0x0F,
           MCU_width := if ci = 0 then ucast (drop_bit 4 c AND 0x0F) else 1,
           MCU_height := if ci = 0 then ucast (c AND 0x0F) else 1\<rparr>)),
       jbind get_char (\<lambda>c. jthen (jguard (\<not> c > 2))
         (set_tbl_map (unat yuv_id) (\<lambda>t. t\<lparr>quant_tbl_id := ucast c\<rparr>)))])"

definition sampling :: "u8 \<Rightarrow> u8 jreader" where
  "sampling ci = jbind (get_component ci) (\<lambda>p.
     jret (push_bit 4 (h_samp_factor p) OR v_samp_factor p))"

definition GetSOF_format :: "u8 \<Rightarrow> unit jreader" where
  "GetSOF_format component_num = jbind (sampling 0) (\<lambda>c.
     let set_format = (\<lambda>i. jmod (\<lambda>d. d\<lparr>mcu_info := i\<rparr>)) in
     if component_num = 1 then set_format JPEG_FW_YUV400
     else jseq
       [if c = 0x11 then set_format JPEG_FW_YUV444
        else if c = 0x21 then set_format JPEG_FW_YUV422
        else if c = 0x41 then set_format JPEG_FW_YUV411
        else if c = 0x14 then set_format JPEG_FW_YUV411_R
        else if c = 0x22 then set_format JPEG_FW_YUV420
        else if c = 0x12 then set_format JPEG_FW_YUV422_R
        else jfail,
        jbind (sampling 1) (\<lambda>c. jguard (c = 0x11)),
        if component_num > 2 then jbind (sampling 2) (\<lambda>c. jguard (c = 0x11)) else jret ()])"

definition GetSOF :: "bool \<Rightarrow> unit jreader" where
  "GetSOF isProgressive = jbind (GetSOF_head isProgressive) (\<lambda>component_num. jseq
     [jfor [0..<unat component_num] (\<lambda>ci. GetSOF_component (of_nat ci)),
      GetSOF_format component_num])"

subsection \<open>Scan header\<close>

text \<open>The component with the identifier of the scan is looked up among those of the frame.\<close>

fun find_component :: "u8 \<Rightarrow> nat \<Rightarrow> nat list \<Rightarrow> unit jreader" where
  "find_component cc i [] = jret ()"
| "find_component cc i (ci # cis) = jbind (get_component (of_nat ci)) (\<lambda>p.
     if cc = component_id p
     then jthen (jcheck (\<lambda>d. i < length (comp_id_map (dcodec d))))
            (set_codec (\<lambda>k. k\<lparr>comp_id_map := (comp_id_map k)[i := cc]\<rparr>))
     else find_component cc i cis)"

definition GetSOS_component :: "nat \<Rightarrow> unit jreader" where
  "GetSOS_component i = jbind get_char (\<lambda>cc. jbind get_char (\<lambda>c. jseq
     [jguard (cc = of_nat (i + 1)),
      set_tbl_map i (\<lambda>t. t\<lparr>dc_huff_tbl_id := drop_bit 4 c AND 0x0F, ac_huff_tbl_id := c AND 0x0F\<rparr>),
      jbind (jget (\<lambda>d. num_components (dcodec d))) (\<lambda>n. find_component cc i [0..<unat n])]))"

definition GetSOS :: "unit jreader" where
  "GetSOS = jbind get_short_word (\<lambda>length. jthen (jguard (\<not> length < 3))
     (jbind get_char (\<lambda>n. jseq
      [jguard (unat (length - 3) = unat n * 2 + 3),
       set_codec (\<lambda>k. k\<lparr>comps_in_scan := n\<rparr>),
       jfor [0..<unat n] GetSOS_component,
       jbind get_char (\<lambda>c. jbind get_char (\<lambda>cc.
         set_codec (\<lambda>k. k\<lparr>Ss := ucast c, Se := ucast cc\<rparr>))),
       jbind get_char (\<lambda>c. set_codec (\<lambda>k.
         k\<lparr>Ah := ucast (drop_bit 4 c AND 15), Al := ucast (c AND 15)\<rparr>)),
       set_codec (\<lambda>k. k\<lparr>next_restart_num := 0, input_scan_number := input_scan_number k + 1\<rparr>)])))"

subsection \<open>Segments without tables\<close>

definition skip_chars :: "nat \<Rightarrow> unit jreader" where
  "skip_chars n = jfor [0..<n] (\<lambda>_. jbind get_char (\<lambda>_. jret ()))"

definition SkipVariable :: "unit jreader" where
  "SkipVariable = jbind get_short_word (\<lambda>length. jthen (jguard (\<not> length < 2))
     (skip_chars (unat (length - 2))))"

definition GetDRI :: "unit jreader" where
  "GetDRI = jbind get_short_word (\<lambda>length. jthen (jguard (length = 4))
     (jbind get_short_word (\<lambda>interval. set_codec (\<lambda>k.
        k\<lparr>restart_interval := ucast interval, restart_to_go := ucast interval,
          next_restart_num := 0\<rparr>))))"

definition JFIF_LEN :: u16 where
  "JFIF_LEN = 14"

definition GetAPP0 :: "unit jreader" where
  "GetAPP0 = jbind get_short_word (\<lambda>length. jthen (jguard (\<not> length < 2))
     (if length - 2 \<ge> JFIF_LEN
      then jthen (skip_chars (unat JFIF_LEN)) (skip_chars (unat (length - 2 - JFIF_LEN)))
      else jret ()))"

subsection \<open>Huffman tables\<close>

text \<open>The tables of a class: AC or DC.\<close>

definition huff_tbls :: "bool \<Rightarrow> jpeg_codec \<Rightarrow> huff_tbl list" where
  "huff_tbls ac k = (if ac then ac_huff_tbl k else dc_huff_tbl k)"

definition set_huff :: "bool \<Rightarrow> nat \<Rightarrow> (huff_tbl \<Rightarrow> huff_tbl) \<Rightarrow> unit jreader" where
  "set_huff ac n f = jthen (jcheck (\<lambda>d. n < length (huff_tbls ac (dcodec d))))
     (set_codec (\<lambda>k. if ac then k\<lparr>ac_huff_tbl := (ac_huff_tbl k)[n := f (ac_huff_tbl k ! n)]\<rparr>
                    else k\<lparr>dc_huff_tbl := (dc_huff_tbl k)[n := f (dc_huff_tbl k ! n)]\<rparr>))"

definition huff_malloc :: "unit jreader" where
  "huff_malloc = jbind (jget g_huff_tbl_malloced) (\<lambda>malloced. if malloced then jret () else jseq
     [jfor [0..<4] (\<lambda>i. jseq
       [jbind (JpegDec_ExtraMemAlloc 17) (\<lambda>b. set_huff False i (\<lambda>t. t\<lparr>hbits := b\<rparr>)),
        jbind (JpegDec_ExtraMemAlloc 257) (\<lambda>b. set_huff False i (\<lambda>t. t\<lparr>huffval := b\<rparr>)),
        jbind (JpegDec_ExtraMemAlloc 17) (\<lambda>b. set_huff True i (\<lambda>t. t\<lparr>hbits := b\<rparr>)),
        jbind (JpegDec_ExtraMemAlloc 257) (\<lambda>b. set_huff True i (\<lambda>t. t\<lparr>huffval := b\<rparr>))]),
      jmod (\<lambda>d. d\<lparr>g_huff_tbl_malloced := True\<rparr>)])"

definition default_bits :: "bool \<Rightarrow> nat \<Rightarrow> bytes" where
  "default_bits ac n =
     (if ac then (if n = 0 then jpeg_fw_lum_ac_bits_default else jpeg_fw_chr_ac_bits_default)
      else (if n = 0 then jpeg_fw_lum_dc_bits_default else jpeg_fw_chr_dc_bits_default))"

definition default_huffval :: "bool \<Rightarrow> nat \<Rightarrow> bytes" where
  "default_huffval ac n =
     (if ac then (if n = 0 then jpeg_fw_lum_ac_huffvalue_default
                  else jpeg_fw_chr_ac_huffvalue_default)
      else (if n = 0 then jpeg_fw_lum_dc_huffvalue_default
            else jpeg_fw_chr_dc_huffvalue_default))"

text \<open>A byte that differs from the default table: the default tables are not in use.  The
  comparison reads the default table.\<close>

definition compare_default :: "bytes \<Rightarrow> nat \<Rightarrow> u8 \<Rightarrow> unit jreader" where
  "compare_default tbl i c = jthen (jcheck (\<lambda>_. i < length tbl))
     (if c \<noteq> tbl ! i then set_codec (\<lambda>k. k\<lparr>using_default_huff_tab := False\<rparr>) else jret ())"

definition store_bits :: "bool \<Rightarrow> nat \<Rightarrow> nat \<Rightarrow> u8 \<Rightarrow> unit jreader" where
  "store_bits ac n i c = jthen
     (jcheck (\<lambda>d. i < length (hbits (huff_tbls ac (dcodec d) ! n))))
     (set_huff ac n (\<lambda>t. t\<lparr>hbits := (hbits t)[i := c]\<rparr>))"

definition store_huffval :: "bool \<Rightarrow> nat \<Rightarrow> nat \<Rightarrow> u8 \<Rightarrow> unit jreader" where
  "store_huffval ac n i c = jthen
     (jcheck (\<lambda>d. i < length (huffval (huff_tbls ac (dcodec d) ! n))))
     (set_huff ac n (\<lambda>t. t\<lparr>huffval := (huffval t)[i := c]\<rparr>))"

fun read_bits :: "bool \<Rightarrow> nat \<Rightarrow> nat list \<Rightarrow> u16 \<Rightarrow> u16 jreader" where
  "read_bits ac n [] count = jret count"
| "read_bits ac n (i # is) count = jbind get_char (\<lambda>c. jthen (store_bits ac n i c)
     (jthen (compare_default (default_bits ac n) i c) (read_bits ac n is (count + ucast c))))"

definition read_huffval :: "bool \<Rightarrow> nat \<Rightarrow> nat \<Rightarrow> unit jreader" where
  "read_huffval ac n count = jfor [0..<count] (\<lambda>i. jbind get_char (\<lambda>c.
     jthen (store_huffval ac n i c) (compare_default (default_huffval ac n) i c)))"

text \<open>One table of the segment; the value is its number of symbols.\<close>

definition read_huff_tbl :: "u16 jreader" where
  "read_huff_tbl = jbind get_char (\<lambda>c.
     let index = c AND 0x13;
         ac = (index AND 0x10 \<noteq> 0);
         n = unat (if ac then index - 0x10 else index)
     in jthen (store_bits ac n 0 0)
       (jbind (read_bits ac n [1..<17] 0) (\<lambda>count.
         jthen (jguard (\<not> count > 256))
        (jthen (read_huffval ac n (unat count)) (jret count)))))"

lemma shrinks_huff [shrinks_rules]:
  "shrinks (set_huff ac n f)" "shrinks (compare_default tbl i c)" "shrinks (store_bits ac n i c)"
  "shrinks (store_huffval ac n i c)"
  unfolding store_bits_def store_huffval_def compare_default_def set_huff_def
  by (intro shrinks_rules)+

lemma shrinks_read_bits [shrinks_rules]: "shrinks (read_bits ac n is count)"
  by (induction ac n "is" count rule: read_bits.induct) (auto intro!: shrinks_rules)

lemma shrinks_read_huff_tbl [shrinks_rules]: "shrinks read_huff_tbl"
  unfolding read_huff_tbl_def read_huffval_def Let_def by (intro shrinks_rules) (auto intro!: shrinks_rules)

text \<open>The length of a table is checked against the rest of the segment after it has been
  read.\<close>

lemma table_length_less:
  assumes "\<not> unat (len :: u16) < n" "0 < n" "unat m = n"
  shows "unat (len - m) < unat len"
  using assms by (simp add: unat_sub word_le_nat_alt)

lemma unat_of_nat_u16: "n < 65536 \<Longrightarrow> unat (of_nat n :: u16) = n"
  by (simp add: unsigned_of_nat take_bit_nat_eq_self)

lemma unat_17_plus:
  assumes "\<not> unat (len :: u16) < 1 + 16 + unat (count :: u16)"
  shows "unat (1 + 16 + count) = 1 + 16 + unat count"
proof -
  from assms unat_u16_less [of len] have "17 + unat count < 65536" by linarith
  then show ?thesis by (simp add: unat_word_ariths)
qed

function huff_tables :: "u16 \<Rightarrow> unit jreader" where
  "huff_tables len d = (if len > 0 then
     (case read_huff_tbl d of
        JOk count d' \<Rightarrow> if unat len < 1 + 16 + unat count then JFail d'
                        else huff_tables (len - (1 + 16 + count)) d'
      | JFail d' \<Rightarrow> JFail d' | JFault \<Rightarrow> JFault)
     else JOk () d)"
  by auto
termination
  by (relation "measure (unat \<circ> fst)")
    (simp_all only: wf_measure in_measure comp_def fst_conv table_length_less unat_17_plus zero_less_Suc add_Suc add_gr_0 zero_less_one simp_thms)

declare huff_tables.simps [simp del]

definition GetHuffTbl :: "unit jreader" where
  "GetHuffTbl = jthen huff_malloc
     (jbind get_short_word (\<lambda>length. jthen (jguard (\<not> length < 2)) (huff_tables (length - 2))))"

subsection \<open>Quantization tables\<close>

definition set_quant :: "nat \<Rightarrow> bytes \<Rightarrow> unit jreader" where
  "set_quant n b = jthen (jcheck (\<lambda>d. n < length (quant_tbl (dcodec d))))
     (set_codec (\<lambda>k. k\<lparr>quant_tbl := (quant_tbl k)[n := b]\<rparr>))"

definition store_quant :: "nat \<Rightarrow> nat \<Rightarrow> u8 \<Rightarrow> unit jreader" where
  "store_quant n j c = jthen (jcheck (\<lambda>d. j < length (quant_tbl (dcodec d) ! n)))
     (set_codec (\<lambda>k. k\<lparr>quant_tbl := (quant_tbl k)[n := (quant_tbl k ! n)[j := c]]\<rparr>))"

text \<open>The entries of a table, which the code reads in groups of four.\<close>

definition read_quant8 :: "nat \<Rightarrow> unit jreader" where
  "read_quant8 n = jfor [0..<64] (\<lambda>j. jbind get_char (store_quant n (jpeg_fw_zigzag_order ! j)))"

definition read_quant16 :: "nat \<Rightarrow> unit jreader" where
  "read_quant16 n = jfor [0..<64] (\<lambda>j. jbind get_short_word (\<lambda>c.
     store_quant n (jpeg_fw_zigzag_order ! j) (ucast c)))"

text \<open>One table; the value is its precision and its number.\<close>

definition read_quant_tbl :: "(u8 \<times> u8) jreader" where
  "read_quant_tbl = jbind get_char (\<lambda>b.
     let prec = drop_bit 4 b; n = b AND 0x0F
     in jthen (jguard (\<not> n > 2))
       (jbind (JpegDec_ExtraMemAlloc 64) (\<lambda>block.
         jthen (set_quant (unat n) block)
        (jthen (if prec = 0 then read_quant8 (unat n) else read_quant16 (unat n))
          (jret (prec, n))))))"

lemma shrinks_quant [shrinks_rules]: "shrinks (set_quant n b)" "shrinks (store_quant n j c)"
  unfolding set_quant_def store_quant_def by (intro shrinks_rules)+

lemma shrinks_read_quant_tbl [shrinks_rules]: "shrinks read_quant_tbl"
  unfolding read_quant_tbl_def read_quant8_def read_quant16_def Let_def
  by (intro shrinks_rules) (auto intro!: shrinks_rules)

text \<open>The rest of a table segment; the value says whether it has a second chroma table.\<close>

function quant_tables :: "u16 \<Rightarrow> bool \<Rightarrow> bool jreader" where
  "quant_tables len two d = (if len > 0 then
     (case read_quant_tbl d of
        JOk (prec, n) d' \<Rightarrow> if unat len < 64 + 1 + 64 * unat prec then JFail d'
                            else quant_tables (len - of_nat (64 + 1 + 64 * unat prec)) (two \<or> n > 1) d'
      | JFail d' \<Rightarrow> JFail d' | JFault \<Rightarrow> JFault)
     else JOk two d)"
  by auto
termination
proof (relation "measure (unat \<circ> fst)", goal_cases)
  case (2 len two d p d' prec n)
  then have l: "\<not> unat len < 64 + 1 + 64 * unat prec" by simp
  have "unat (of_nat (64 + 1 + 64 * unat prec) :: u16) = 64 + 1 + 64 * unat prec"
    using unat_u8_le [of prec] by (intro unat_of_nat_u16) linarith
  from table_length_less [OF l _ this] show ?case by simp
qed simp

declare quant_tables.simps [simp del]

definition same_tables :: "unit jreader" where
  "same_tables = jbind (jget (\<lambda>d. quant_tbl (dcodec d))) (\<lambda>q. jfor [0..<64] (\<lambda>j.
     jthen (jcheck (\<lambda>_. j < length (q ! 1) \<and> j < length (q ! 2))) (jguard (q ! 1 ! j = q ! 2 ! j))))"

definition GetQuantTbl :: "unit jreader" where
  "GetQuantTbl = jthen (set_codec (\<lambda>k. k\<lparr>using_default_quant_tab := False\<rparr>))
     (jbind get_short_word (\<lambda>length. jthen (jguard (\<not> length < 2))
     (jbind (quant_tables (length - 2) False) (\<lambda>has_two_chroma_quant_tbl.
        if has_two_chroma_quant_tbl then same_tables else jret ()))))"

subsection \<open>The marker loop\<close>

text \<open>Markers that end the parse: frames that the decoder does not do, and markers that have no
  place in a header.\<close>

definition unexpected_markers :: "u8 list" where
  "unexpected_markers = [M_SOF3, M_SOF5, M_SOF6, M_SOF7, M_JPG, M_SOF9, M_SOF10, M_SOF11, M_SOF13,
     M_SOF14, M_SOF15, M_DAC, M_RST0, M_RST0 + 1, M_RST0 + 2, M_RST0 + 3, M_RST0 + 4, M_RST0 + 5,
     M_RST0 + 6, M_RST7, M_TEM]"

definition process_marker :: "u8 \<Rightarrow> unit jreader" where
  "process_marker c =
     (if c = M_SOF0 \<or> c = M_SOF1 then GetSOF False
      else if c = M_SOF2 then GetSOF True
      else if c = M_DHT then GetHuffTbl
      else if c = M_DQT then GetQuantTbl
      else if c = M_APP0 then GetAPP0
      else if c = M_DRI then GetDRI
      else if c \<in> set unexpected_markers then jfail
      else SkipVariable)"

lemma shrinks_quant_tables [shrinks_rules]: "shrinks (quant_tables len two)"
proof (rule shrinksI)
  fix d a d' assume "quant_tables len two d = JOk a d'"
  then show "avail d' \<le> avail d"
  proof (induction len two d rule: quant_tables.induct)
    case (1 len two d)
    show ?case
    proof (cases "len > 0")
      case True
      with "1.prems" obtain prec n d1 where t: "read_quant_tbl d = JOk (prec, n) d1"
        by (cases "read_quant_tbl d") (auto simp: quant_tables.simps [of len two d])
      with "1.prems" "1.IH" [OF True t] shrinksD [OF shrinks_read_quant_tbl t] True show ?thesis
        by (auto simp: quant_tables.simps [of len two d] split: if_splits)
    next
      case False
      with "1.prems" show ?thesis by (simp add: quant_tables.simps [of len two d])
    qed
  qed
qed

lemma shrinks_huff_tables [shrinks_rules]: "shrinks (huff_tables len)"
proof (rule shrinksI)
  fix d a d' assume "huff_tables len d = JOk a d'"
  then show "avail d' \<le> avail d"
  proof (induction len d rule: huff_tables.induct)
    case (1 len d)
    show ?case
    proof (cases "len > 0")
      case True
      with "1.prems" obtain count d1 where t: "read_huff_tbl d = JOk count d1"
        by (cases "read_huff_tbl d") (auto simp: huff_tables.simps [of len d])
      with "1.prems" "1.IH" [OF True t] shrinksD [OF shrinks_read_huff_tbl t] True show ?thesis
        by (auto simp: huff_tables.simps [of len d] split: if_splits)
    next
      case False
      with "1.prems" show ?thesis by (simp add: huff_tables.simps [of len d])
    qed
  qed
qed

lemma shrinks_segments [shrinks_rules]:
  "shrinks GetDRI" "shrinks GetAPP0" "shrinks SkipVariable" "shrinks GetHuffTbl" "shrinks GetQuantTbl"
  unfolding GetDRI_def GetAPP0_def SkipVariable_def skip_chars_def GetHuffTbl_def huff_malloc_def
    GetQuantTbl_def same_tables_def
  by (auto intro!: shrinks_rules simp del: jseq.simps)

lemma shrinks_component [shrinks_rules]:
  "shrinks (set_component ci f)" "shrinks (get_component ci)" "shrinks (set_tbl_map i g)"
  unfolding set_component_def get_component_def set_tbl_map_def by (intro shrinks_rules)+

lemma shrinks_GetSOF_head [shrinks_rules]: "shrinks (GetSOF_head p)"
  unfolding GetSOF_head_def by (intro shrinks_rules) simp_all

lemma shrinks_GetSOF_component [shrinks_rules]: "shrinks (GetSOF_component ci)"
  unfolding GetSOF_component_def Let_def by (auto intro!: shrinks_rules simp del: jseq.simps)

lemma shrinks_GetSOF_format [shrinks_rules]: "shrinks (GetSOF_format n)"
  unfolding GetSOF_format_def sampling_def Let_def
  by (auto intro!: shrinks_rules simp del: jseq.simps)

lemma shrinks_GetSOF [shrinks_rules]: "shrinks (GetSOF p)"
  unfolding GetSOF_def by (auto intro!: shrinks_rules simp del: jseq.simps)

lemma shrinks_process_marker [shrinks_rules]: "shrinks (process_marker c)"
  unfolding process_marker_def by (auto intro: shrinks_rules)

function ProcessTables :: "u8 jreader" where
  "ProcessTables d = (case GetNextMarker d of
       JOk c d' \<Rightarrow>
         if c = M_SOI \<or> c = M_EOI \<or> c = M_SOS then JOk c d'
         else (case process_marker c d' of
             JOk _ d'' \<Rightarrow> ProcessTables d''
           | JFail d'' \<Rightarrow> JFail d'' | JFault \<Rightarrow> JFault)
     | JFail d' \<Rightarrow> JFail d' | JFault \<Rightarrow> JFault)"
  by auto
termination
proof (relation "measure avail", goal_cases)
  case (2 d c d' u d'')
  with GetNextMarker_consumes [OF 2(1)] shrinksD [OF shrinks_process_marker 2(3)]
  show ?case by simp
qed simp

declare ProcessTables.simps [simp del]

function find_SOI :: "unit jreader" where
  "find_SOI d = (case GetNextMarker d of
       JOk c d' \<Rightarrow> if c = M_EOI then JFail d' else if c = M_SOI then JOk () d' else find_SOI d'
     | JFail d' \<Rightarrow> JFail d' | JFault \<Rightarrow> JFault)"
  by auto
termination by (relation "measure avail") (auto dest: GetNextMarker_consumes)

declare find_SOI.simps [simp del]

definition ParseHead :: "unit jreader" where
  "ParseHead = jthen find_SOI (jbind ProcessTables (\<lambda>c. if c = M_SOS then GetSOS else jfail))"

subsection \<open>Resource files and the entry of the parser\<close>

definition ParseHead_Res :: "unit jreader" where
  "ParseHead_Res = jthen (skip_n_byte 4)
     (jbind get_short_word (\<lambda>h. jbind get_short_word (\<lambda>w. jseq
       [jmod (\<lambda>d. d\<lparr>input_height := ucast h, input_width := ucast w\<rparr>),
        set_codec (\<lambda>k. k\<lparr>num_components := 3\<rparr>),
        jbind get_short_word (\<lambda>format.
          if format = 0 then jmod (\<lambda>d. d\<lparr>mcu_info := JPEG_FW_YUV420\<rparr>)
          else if format = 1 then jmod (\<lambda>d. d\<lparr>mcu_info := JPEG_FW_YUV411\<rparr>)
          else if format = 2 then jmod (\<lambda>d. d\<lparr>mcu_info := JPEG_FW_YUV444\<rparr>)
          else if format = 3 then jmod (\<lambda>d. d\<lparr>mcu_info := JPEG_FW_YUV422\<rparr>)
          else if format = 4
          then jthen (jmod (\<lambda>d. d\<lparr>mcu_info := JPEG_FW_YUV400\<rparr>)) (set_codec (\<lambda>k. k\<lparr>num_components := 1\<rparr>))
          else jfail),
        jbind get_short_word (\<lambda>level.
          if level \<le> 4 then jmod (\<lambda>d. d\<lparr>quant_level := ucast level\<rparr>) else jfail)])))"

text \<open>The parse of a header from a cleared codec record.  The value is the result of the parse and
  the header length that is reported.\<close>

definition JPEG_FWParseHead :: "u32 \<Rightarrow> u32 \<Rightarrow> bytes \<Rightarrow> bytes list option \<Rightarrow> (bool \<times> u32) jreader" where
  "JPEG_FWParseHead buf_ptr buf_size bitstream reads = jthen (jseq
     [jmod (\<lambda>d. d\<lparr>dcodec := zero_codec, g_huff_tbl_malloced := False\<rparr>),
      JpegDec_InitMem buf_ptr buf_size,
      set_codec (\<lambda>k. k\<lparr>using_default_huff_tab := True, using_default_quant_tab := True,
        restart_interval := 0x3FFFF, restart_to_go := 0x3FFFF\<rparr>),
      JpegDec_InitBitream bitstream reads])
     (jbind is_res_jpg_file (\<lambda>res.
       jthen (set_codec (\<lambda>k. k\<lparr>is_res_file := res\<rparr>))
         (\<lambda>d. case (if res then ParseHead_Res else ParseHead) d of
            JOk _ d' \<Rightarrow> jbind (if res then jret 12 else get_header_len) (\<lambda>n. jret (True, n)) d'
          | JFail d' \<Rightarrow> jbind (if res then jret 12 else get_header_len) (\<lambda>n. jret (False, n)) d'
          | JFault \<Rightarrow> JFault)))"

end
