(* ===== verification/JpegContract.thy ===== *)
theory JpegContract
  imports JpegParse
begin

text \<open>
  The contract of the header parser: which bytes of the stream a statement consumes and how it
  changes the rest of the decoder state, with one rule for each way a statement begins.  The
  bytes may cross the buffer boundaries of the read callback anywhere.
\<close>

subsection \<open>What a statement consumes\<close>

text \<open>
  The contract of the parser.  The reader is well-formed when the bytes it counts lie in its buffer
  and the callback delivers pieces that fit and are not empty; then the bytes it will deliver are
  those that are left in the buffer and those of the pieces.  From a state whose other fields are
  \<^term>\<open>v\<close> a statement consumes the bytes \<^term>\<open>xs\<close> of the stream, whatever buffer boundaries they
  cross, returns \<^term>\<open>a\<close> and leaves the other fields \<^term>\<open>w\<close>.
\<close>

definition stream_ok :: "jdec \<Rightarrow> bool" where
  "stream_ok d \<longleftrightarrow> s_inter_buf_pos d + s_jremain_byte_num d \<le> length (s_inter_buf_bitstream d)
     \<and> (case read_script d of None \<Rightarrow> True
        | Some rs \<Rightarrow> \<forall>r \<in> set rs. r \<noteq> [] \<and> length r \<le> length (s_inter_buf_bitstream d))"

definition jstream :: "jdec \<Rightarrow> bytes" where
  "jstream d = chunk (s_inter_buf_pos d) (s_jremain_byte_num d) (s_inter_buf_bitstream d)
     @ (case read_script d of None \<Rightarrow> [] | Some rs \<Rightarrow> concat rs)"

definition view :: "jdec \<Rightarrow> jdec" where
  "view d = d\<lparr>s_inter_buf_bitstream := [], s_inter_buf_pos := 0, s_jremain_byte_num := 0,
     s_header_len := 0, s_file_offset := 0, read_script := None\<rparr>"

definition consumes :: "jdec \<Rightarrow> 'a jreader \<Rightarrow> bytes \<Rightarrow> 'a \<Rightarrow> jdec \<Rightarrow> bool" where
  "consumes v m xs a w \<longleftrightarrow> (\<forall>d rest. stream_ok d \<and> view d = v \<and> jstream d = xs @ rest \<longrightarrow>
     (\<exists>d'. m d = JOk a d' \<and> stream_ok d' \<and> view d' = w \<and> jstream d' = rest))"

named_theorems consumes_rules "what the statements of the header parser consume"

lemma view_fields [simp]:
  "dcodec (view d) = dcodec d" "s_extra_mem_size (view d) = s_extra_mem_size d"
  "s_used_extra_mem (view d) = s_used_extra_mem d" "g_huff_tbl_malloced (view d) = g_huff_tbl_malloced d"
  by (simp_all add: view_def)

lemma consumesD:
  assumes "consumes v m xs a w" "stream_ok d" "view d = v" "jstream d = xs @ rest"
  obtains d' where "m d = JOk a d'" "stream_ok d'" "view d' = w" "jstream d' = rest"
  using assms unfolding consumes_def by blast

lemma consumes_jbind:
  assumes m: "consumes v m xs a w" and k: "consumes w (k a) ys b u"
  shows "consumes v (jbind m k) (xs @ ys) b u"
  unfolding consumes_def
proof (intro allI impI, elim conjE)
  fix d rest assume d: "stream_ok d" "view d = v" "jstream d = (xs @ ys) @ rest"
  then obtain d1 where d1: "m d = JOk a d1" "stream_ok d1" "view d1 = w" "jstream d1 = ys @ rest"
    using consumesD [OF m d(1,2), of "ys @ rest"] by auto
  from k d1(2-4) obtain d2 where "k a d1 = JOk b d2" "stream_ok d2" "view d2 = u" "jstream d2 = rest"
    by (rule consumesD)
  with d1(1) show "\<exists>d'. jbind m k d = JOk b d' \<and> stream_ok d' \<and> view d' = u \<and> jstream d' = rest"
    by (auto simp: jbind_cases)
qed

lemma consumes_jthen:
  "consumes v m xs a w \<Longrightarrow> consumes w n ys b u \<Longrightarrow> consumes v (jthen m n) (xs @ ys) b u"
  unfolding jthen_def by (rule consumes_jbind)

lemma consumes_jret [consumes_rules]: "consumes v (jret a) [] a v"
  by (simp add: consumes_def jstmt)

lemma consumes_eq: "consumes v m xs a w \<Longrightarrow> xs = ys \<Longrightarrow> w = u \<Longrightarrow> consumes v m ys a u"
  by simp

lemma chunk_Cons:
  assumes "0 < n" "off < length buf"
  shows "chunk off n buf = buf ! off # chunk (Suc off) (n - 1) buf"
  using assms by (cases n) (simp_all add: chunk_def Cons_nth_drop_Suc [symmetric])

lemma consumes_get_char [consumes_rules]: "consumes v get_char [c] c v"
  unfolding consumes_def
proof (intro allI impI, elim conjE)
  fix d rest assume d: "stream_ok d" "view d = v" "jstream d = [c] @ rest"
  show "\<exists>d'. get_char d = JOk c d' \<and> stream_ok d' \<and> view d' = v \<and> jstream d' = rest"
  proof (cases "s_jremain_byte_num d = 0")
    case False
    with d(1) have pos: "s_inter_buf_pos d < length (s_inter_buf_bitstream d)"
      by (simp add: stream_ok_def)
    with False d show ?thesis
      by (auto simp: get_char_def stream_ok_def jstream_def view_def chunk_Cons split: option.splits)
  next
    case True
    with d obtain p rs where p: "read_script d = Some (p # rs)" "p \<noteq> []"
      "length p \<le> length (s_inter_buf_bitstream d)" "p @ concat rs = c # rest"
      by (auto simp: stream_ok_def jstream_def chunk_def split: option.splits list.splits)
        (metis concat.simps(2) list.exhaust concat.simps(1) list.distinct(1) list.set_intros)
    then show ?thesis using True d
      by (cases p)
        (auto simp: get_char_def read_piece_def store_def stream_ok_def jstream_def view_def chunk_def)
  qed
qed

subsection \<open>Rules\<close>

text \<open>One rule for each way a statement begins; the stream is taken apart from the left.\<close>

lemma view_view [simp]: "view (view d) = view d"
  by (simp add: view_def)

lemma consumes_local:
  assumes "\<And>d. view d = v \<Longrightarrow> \<exists>d'. m d = JOk a d' \<and> view d' = w \<and> stream_ok d' = stream_ok d
    \<and> jstream d' = jstream d"
  shows "consumes v m [] a w"
  unfolding consumes_def using assms by fastforce

lemma consumes_jguard: "b \<Longrightarrow> consumes v (jguard b) [] () v"
  by (rule consumes_local) (simp add: jstmt)

lemma consumes_jcheck: "(\<And>d. view d = v \<Longrightarrow> P d) \<Longrightarrow> consumes v (jcheck P) [] () v"
  by (rule consumes_local) (simp add: jstmt)

lemma consumes_jget: "(\<And>d. view d = v \<Longrightarrow> f d = a) \<Longrightarrow> consumes v (jget f) [] a v"
  by (rule consumes_local) (simp add: jstmt)

lemma stream_dcodec [simp]:
  "stream_ok (d\<lparr>dcodec := c\<rparr>) = stream_ok d" "jstream (d\<lparr>dcodec := c\<rparr>) = jstream d"
  "view (d\<lparr>dcodec := c\<rparr>) = (view d)\<lparr>dcodec := c\<rparr>"
  by (simp_all add: stream_ok_def jstream_def view_def cong: option.case_cong)

lemma stream_used [simp]:
  "stream_ok (d\<lparr>s_used_extra_mem := u\<rparr>) = stream_ok d"
  "jstream (d\<lparr>s_used_extra_mem := u\<rparr>) = jstream d"
  "view (d\<lparr>s_used_extra_mem := u\<rparr>) = (view d)\<lparr>s_used_extra_mem := u\<rparr>"
  by (simp_all add: stream_ok_def jstream_def view_def cong: option.case_cong)

lemma stream_malloced [simp]:
  "stream_ok (d\<lparr>g_huff_tbl_malloced := b\<rparr>) = stream_ok d"
  "jstream (d\<lparr>g_huff_tbl_malloced := b\<rparr>) = jstream d"
  "view (d\<lparr>g_huff_tbl_malloced := b\<rparr>) = (view d)\<lparr>g_huff_tbl_malloced := b\<rparr>"
  by (simp_all add: stream_ok_def jstream_def view_def cong: option.case_cong)

lemma stream_params [simp]:
  "stream_ok (d\<lparr>input_progressive := b\<rparr>) = stream_ok d"
  "jstream (d\<lparr>input_progressive := b\<rparr>) = jstream d"
  "view (d\<lparr>input_progressive := b\<rparr>) = (view d)\<lparr>input_progressive := b\<rparr>"
  "stream_ok (d\<lparr>mcu_info := m\<rparr>) = stream_ok d"
  "jstream (d\<lparr>mcu_info := m\<rparr>) = jstream d"
  "view (d\<lparr>mcu_info := m\<rparr>) = (view d)\<lparr>mcu_info := m\<rparr>"
  "stream_ok (d\<lparr>input_width := x\<rparr>) = stream_ok d"
  "jstream (d\<lparr>input_width := x\<rparr>) = jstream d"
  "view (d\<lparr>input_width := x\<rparr>) = (view d)\<lparr>input_width := x\<rparr>"
  "stream_ok (d\<lparr>input_height := x\<rparr>) = stream_ok d"
  "jstream (d\<lparr>input_height := x\<rparr>) = jstream d"
  "view (d\<lparr>input_height := x\<rparr>) = (view d)\<lparr>input_height := x\<rparr>"
  by (simp_all add: stream_ok_def jstream_def view_def cong: option.case_cong)

lemma consumes_set_codec: "consumes v (set_codec f) [] () (v\<lparr>dcodec := f (dcodec v)\<rparr>)"
  by (rule consumes_local) (auto simp: jstmt)

lemma consumes_jmod:
  assumes "\<And>d. view (f d) = f (view d) \<and> stream_ok (f d) = stream_ok d \<and> jstream (f d) = jstream d"
  shows "consumes v (jmod f) [] () (f v)"
  by (rule consumes_local) (use assms in \<open>auto simp: jstmt\<close>)

lemma check_codec: "P (dcodec v) \<Longrightarrow> consumes v (jcheck (\<lambda>d. P (dcodec d))) [] () v"
  by (rule consumes_jcheck) auto

lemma get_codec: "consumes v (jget (\<lambda>d. f (dcodec d))) [] (f (dcodec v)) v"
  by (rule consumes_jget) auto

lemma set_codec_to: "w = v\<lparr>dcodec := f (dcodec v)\<rparr> \<Longrightarrow> consumes v (set_codec f) [] () w"
  using consumes_set_codec by simp

text \<open>The bytes of the arena that are free.\<close>

definition room :: "jdec \<Rightarrow> nat" where
  "room d = unat (s_extra_mem_size d) - unat (s_used_extra_mem d)"

lemma consumes_alloc:
  assumes "unat n \<le> room v"
  shows "consumes v (JpegDec_ExtraMemAlloc n) [] (replicate (unat n) 0)
    (v\<lparr>s_used_extra_mem := s_used_extra_mem v + ((n + 3) AND NOT 3)\<rparr>)"
  by (rule consumes_local)
    (use assms in \<open>auto simp: JpegDec_ExtraMemAlloc_def Let_def room_def min_absorb1\<close>)

lemma room_alloc:
  assumes "unat k \<le> room v"
  shows "room (v\<lparr>s_used_extra_mem := s_used_extra_mem v + k\<rparr>) = room v - unat k"
proof (cases "k = 0")
  case False
  then have "0 < unat k" by (simp add: unat_gt_0)
  moreover have "unat (s_extra_mem_size v) < 2 ^ LENGTH(32)" by (rule unsigned_less)
  ultimately have "unat (s_used_extra_mem v) + unat k < 2 ^ 32"
    using assms unfolding room_def by simp
  then have "unat (s_used_extra_mem v + k) = unat (s_used_extra_mem v) + unat k"
    by (simp add: unat_word_ariths)
  then show ?thesis by (simp add: room_def)
qed simp

lemma room_codec [simp]: "room (d\<lparr>dcodec := c\<rparr>) = room d"
  "room (d\<lparr>g_huff_tbl_malloced := b\<rparr>) = room d"
  by (simp_all add: room_def)

text \<open>The same rules in front of the rest of a statement.\<close>

lemma jbind_get_char:
  "consumes v (k c) xs b w \<Longrightarrow> consumes v (jbind get_char k) (c # xs) b w"
  using consumes_jbind [OF consumes_get_char] by fastforce

lemma consumes_get_short_word: "consumes v get_short_word (be16 x) x v"
proof -
  have "consumes v get_short_word [hi8 x, lo8 x] (mk16 (hi8 x) (lo8 x)) v"
    unfolding get_short_word_def by (intro jbind_get_char consumes_jret)
  then show ?thesis by (simp add: be16_def)
qed

lemma jbind_get_short_word:
  "consumes v (k x) xs b w \<Longrightarrow> consumes v (jbind get_short_word k) (be16 x @ xs) b w"
  by (rule consumes_jbind [OF consumes_get_short_word])

lemma jbind_nothing:
  "consumes v m [] a w \<Longrightarrow> consumes w (k a) xs b u \<Longrightarrow> consumes v (jbind m k) xs b u"
  using consumes_jbind [of v m "[]"] by fastforce

lemma jthen_nothing:
  "consumes v m [] a w \<Longrightarrow> consumes w n xs b u \<Longrightarrow> consumes v (jthen m n) xs b u"
  unfolding jthen_def by (rule jbind_nothing)

lemma jthen_jguard:
  "b \<Longrightarrow> consumes v n xs a w \<Longrightarrow> consumes v (jthen (jguard b) n) xs a w"
  by (rule jthen_nothing) (rule consumes_jguard)

lemma jseq_Nil: "consumes v (jseq []) [] () v"
  by (simp add: consumes_jret)

lemma jseq_Cons:
  "consumes v m xs a w \<Longrightarrow> consumes w (jseq ms) ys () u \<Longrightarrow> consumes v (jseq (m # ms)) (xs @ ys) () u"
  unfolding jseq.simps by (rule consumes_jthen)

lemma jseq_Cons_nothing:
  "consumes v m [] a w \<Longrightarrow> consumes w (jseq ms) ys () u \<Longrightarrow> consumes v (jseq (m # ms)) ys () u"
  unfolding jseq.simps by (rule jthen_nothing)

subsection \<open>What makes a statement undefined\<close>

text \<open>The same kind of contract for an input on which a statement accesses memory outside an
  object.\<close>

definition faults :: "jdec \<Rightarrow> 'a jreader \<Rightarrow> bytes \<Rightarrow> bool" where
  "faults v m xs \<longleftrightarrow> (\<forall>d rest. stream_ok d \<and> view d = v \<and> jstream d = xs @ rest \<longrightarrow> m d = JFault)"

lemma faultsD: "faults v m xs \<Longrightarrow> stream_ok d \<Longrightarrow> view d = v \<Longrightarrow> jstream d = xs @ rest \<Longrightarrow> m d = JFault"
  by (simp add: faults_def)

lemma faults_here: "faults v m xs \<Longrightarrow> faults v (jbind m k) (xs @ ys)"
  by (simp add: faults_def jbind_cases)

lemma faults_later:
  assumes "consumes v m xs a w" "faults w (k a) ys"
  shows "faults v (jbind m k) (xs @ ys)"
  unfolding faults_def
proof (intro allI impI, elim conjE)
  fix d rest assume "stream_ok d" "view d = v" "jstream d = (xs @ ys) @ rest"
  then obtain d1 where d1: "m d = JOk a d1" "stream_ok d1" "view d1 = w" "jstream d1 = ys @ rest"
    using consumesD [OF assms(1), of d "ys @ rest"] by auto
  with faultsD [OF assms(2) d1(2-4)] show "jbind m k d = JFault" by (simp add: jbind_cases)
qed

lemma faults_nothing: "consumes v m [] a w \<Longrightarrow> faults w (k a) ys \<Longrightarrow> faults v (jbind m k) ys"
  using faults_later [of v m "[]"] by fastforce

lemma faults_get_char: "faults v (k c) ys \<Longrightarrow> faults v (jbind get_char k) (c # ys)"
  using faults_later [OF consumes_get_char] by fastforce

lemma faults_get_short_word: "faults v (k x) ys \<Longrightarrow> faults v (jbind get_short_word k) (be16 x @ ys)"
  by (rule faults_later [OF consumes_get_short_word])

lemma faults_then:
  "faults v m xs \<Longrightarrow> faults v (jthen m n) (xs @ ys)"
  "consumes v m xs a w \<Longrightarrow> faults w n ys \<Longrightarrow> faults v (jthen m n) (xs @ ys)"
  "consumes v m [] a w \<Longrightarrow> faults w n ys \<Longrightarrow> faults v (jthen m n) ys"
  unfolding jthen_def by (rule faults_here faults_later faults_nothing; assumption)+

lemma faults_jcheck: "\<not> P (dcodec v) \<Longrightarrow> faults v (jcheck (\<lambda>d. P (dcodec d))) xs"
  by (auto simp: faults_def jstmt)

lemma faults_jguard: "b \<Longrightarrow> faults v n xs \<Longrightarrow> faults v (jthen (jguard b) n) xs"
  by (rule faults_then(3) [OF consumes_jguard])

lemma faults_jseq:
  "faults v m xs \<Longrightarrow> faults v (jseq (m # ms)) (xs @ ys)"
  "consumes v m xs a w \<Longrightarrow> faults w (jseq ms) ys \<Longrightarrow> faults v (jseq (m # ms)) (xs @ ys)"
  "consumes v m [] a w \<Longrightarrow> faults w (jseq ms) ys \<Longrightarrow> faults v (jseq (m # ms)) ys"
  unfolding jseq.simps by (rule faults_then; assumption)+

lemma faults_weaken: "faults v m xs \<Longrightarrow> faults v m (xs @ ys)"
  by (simp add: faults_def)

lemma faults_now:
  "faults v m [] \<Longrightarrow> faults v (jseq (m # ms)) ys" "faults v m [] \<Longrightarrow> faults v (jthen m n) ys"
  using faults_jseq(1) [of v m "[]" ms ys] faults_then(1) [of v m "[]" n ys] by (simp_all del: jseq.simps)

end
