(* ===== verification/JpegSegments.thy ===== *)
theory JpegSegments
  imports JpegEnc JpegContract
begin

text \<open>
  The segments of a header in the parser: for each kind of segment that the writer emits, what the
  parser makes of its bytes, as a change of the decoder state apart from the stream.
\<close>

subsection \<open>Markers\<close>

lemma consumes_skip_ff:
  assumes "m \<noteq> 0xFF"
  shows "consumes v skip_ff [m] m v"
  unfolding consumes_def
proof (intro allI impI, elim conjE)
  fix d rest assume "stream_ok d" "view d = v" "jstream d = [m] @ rest"
  then obtain d1 where "get_char d = JOk m d1" "stream_ok d1" "view d1 = v" "jstream d1 = rest"
    by (rule consumesD [OF consumes_get_char])
  with assms show "\<exists>d'. skip_ff d = JOk m d' \<and> stream_ok d' \<and> view d' = v \<and> jstream d' = rest"
    by (simp add: skip_ff.simps [of d])
qed

lemma consumes_skip_non_ff: "consumes v skip_non_ff [0xFF] () v"
  unfolding consumes_def
proof (intro allI impI, elim conjE)
  fix d rest assume "stream_ok d" "view d = v" "jstream d = [0xFF] @ rest"
  then obtain d1 where "get_char d = JOk 0xFF d1" "stream_ok d1" "view d1 = v" "jstream d1 = rest"
    by (rule consumesD [OF consumes_get_char])
  then show "\<exists>d'. skip_non_ff d = JOk () d' \<and> stream_ok d' \<and> view d' = v \<and> jstream d' = rest"
    by (simp add: skip_non_ff.simps [of d])
qed

lemma consumes_marker:
  assumes "m \<noteq> 0xFF" "m \<noteq> 0"
  shows "consumes v GetNextMarker [0xFF, m] m v"
  unfolding consumes_def
proof (intro allI impI, elim conjE)
  fix d rest assume "stream_ok d" "view d = v" "jstream d = [0xFF, m] @ rest"
  then obtain d1 where "jbind skip_non_ff (\<lambda>_. skip_ff) d = JOk m d1" "stream_ok d1" "view d1 = v"
    "jstream d1 = rest"
    using consumesD [OF consumes_jbind [OF consumes_skip_non_ff consumes_skip_ff [OF assms(1)]]]
    by (metis append.assoc append_Cons append_Nil)
  with assms show "\<exists>d'. GetNextMarker d = JOk m d' \<and> stream_ok d' \<and> view d' = v \<and> jstream d' = rest"
    by (simp add: GetNextMarker.simps [of d])
qed

lemma markers_found:
  "consumes v GetNextMarker [0xFF, M_SOS] M_SOS v" "consumes v GetNextMarker [0xFF, M_SOI] M_SOI v"
  by (rule consumes_marker; simp add: marker_codes)+

text \<open>A segment in front of the marker loop, and the marker that ends it.\<close>

lemma ProcessTables_segment:
  assumes "m \<noteq> 0xFF" "m \<noteq> 0" "m \<noteq> M_SOI" "m \<noteq> M_EOI" "m \<noteq> M_SOS"
    and seg: "consumes v (process_marker m) xs () w"
    and rest: "consumes w ProcessTables ys c u"
  shows "consumes v ProcessTables ([0xFF, m] @ xs @ ys) c u"
  unfolding consumes_def
proof (intro allI impI, elim conjE)
  fix d rest assume d: "stream_ok d" "view d = v" "jstream d = ([0xFF, m] @ xs @ ys) @ rest"
  then obtain d1 where 1: "GetNextMarker d = JOk m d1" "stream_ok d1" "view d1 = v"
    "jstream d1 = xs @ ys @ rest"
    using consumesD [OF consumes_marker [OF assms(1,2)] d(1,2), of "xs @ ys @ rest"] by auto
  from 1(2-4) obtain d2 where 2: "process_marker m d1 = JOk () d2" "stream_ok d2" "view d2 = w"
    "jstream d2 = ys @ rest" by (rule consumesD [OF seg])
  then obtain d3 where "ProcessTables d2 = JOk c d3" "stream_ok d3" "view d3 = u" "jstream d3 = rest"
    using consumesD [OF rest] by blast
  with 1(1) 2(1) assms(3-5)
  show "\<exists>d'. ProcessTables d = JOk c d' \<and> stream_ok d' \<and> view d' = u \<and> jstream d' = rest"
    by (simp add: ProcessTables.simps [of d])
qed

lemma ProcessTables_SOS: "consumes v ProcessTables [0xFF, M_SOS] M_SOS v"
  unfolding consumes_def
proof (intro allI impI, elim conjE)
  fix d rest assume "stream_ok d" "view d = v" "jstream d = [0xFF, M_SOS] @ rest"
  then obtain d1 where "GetNextMarker d = JOk M_SOS d1" "stream_ok d1" "view d1 = v" "jstream d1 = rest"
    by (rule consumesD [OF markers_found(1)])
  then show "\<exists>d'. ProcessTables d = JOk M_SOS d' \<and> stream_ok d' \<and> view d' = v \<and> jstream d' = rest"
    by (simp add: ProcessTables.simps [of d])
qed

lemma consumes_find_SOI: "consumes v find_SOI [0xFF, M_SOI] () v"
  unfolding consumes_def
proof (intro allI impI, elim conjE)
  fix d rest assume "stream_ok d" "view d = v" "jstream d = [0xFF, M_SOI] @ rest"
  then obtain d1 where "GetNextMarker d = JOk M_SOI d1" "stream_ok d1" "view d1 = v" "jstream d1 = rest"
    by (rule consumesD [OF markers_found(2)])
  then show "\<exists>d'. find_SOI d = JOk () d' \<and> stream_ok d' \<and> view d' = v \<and> jstream d' = rest"
    by (simp add: find_SOI.simps [of d] marker_codes)
qed

subsection \<open>The application segment and the restart interval\<close>

lemma consumes_skip: "consumes v (skip_chars (length xs)) xs () v"
proof -
  have "consumes v (jseq (map (\<lambda>_. jbind get_char (\<lambda>_. jret ())) ks)) xs () v"
    if "length ks = length xs" for ks :: "nat list"
    using that
  proof (induction ks xs rule: list_induct2)
    case Nil
    show ?case by (simp add: consumes_jret)
  next
    case (Cons k ks x xs)
    have "consumes v (jbind get_char (\<lambda>_. jret ())) [x] () v"
      by (intro jbind_get_char consumes_jret)
    from consumes_jthen [OF this Cons.IH] show ?case by simp
  qed
  then show ?thesis unfolding skip_chars_def by simp
qed

lemma consumes_skip': "length xs = n \<Longrightarrow> consumes v (skip_chars n) xs () v"
  using consumes_skip by blast

lemma parse_APP0:
  "consumes v (process_marker M_APP0)
     (be16 16 @ [0x4A, 0x46, 0x49, 0x46, 0, 1, 1, 0, 0, 1, 0, 1, 0, 0]) () v"
proof -
  have "consumes v (jthen (skip_chars 14) (skip_chars 0))
      ([0x4A, 0x46, 0x49, 0x46, 0, 1, 1, 0, 0, 1, 0, 1, 0, 0] @ []) () v"
    by (rule consumes_jthen [where w = v]; rule consumes_skip') simp_all
  then have "consumes v GetAPP0 (be16 16 @ [0x4A, 0x46, 0x49, 0x46, 0, 1, 1, 0, 0, 1, 0, 1, 0, 0]) () v"
    unfolding GetAPP0_def
    by (intro jbind_get_short_word jthen_jguard) (simp_all add: JFIF_LEN_def)
  then show ?thesis by (simp add: process_marker_def marker_codes)
qed

definition dri_view :: "u16 \<Rightarrow> jdec \<Rightarrow> jdec" where
  "dri_view interval v = v\<lparr>dcodec := (dcodec v)\<lparr>restart_interval := ucast interval,
     restart_to_go := ucast interval, next_restart_num := 0\<rparr>\<rparr>"

lemma parse_DRI: "consumes v (process_marker M_DRI) (be16 4 @ be16 interval) () (dri_view interval v)"
proof -
  have "consumes v GetDRI (be16 4 @ be16 interval @ []) () (dri_view interval v)"
    unfolding GetDRI_def
    by (rule jbind_get_short_word, rule jthen_jguard, simp, rule jbind_get_short_word,
        rule consumes_eq, rule consumes_set_codec) (simp_all add: dri_view_def)
  then show ?thesis by (simp add: process_marker_def marker_codes)
qed

subsection \<open>Quantization tables\<close>

lemma consumes_jfor:
  assumes "\<And>k. k < n \<Longrightarrow> consumes (V k) (body k) (f k) () (V (Suc k))"
  shows "consumes (V 0) (jfor [0..<n] body) (concat (map f [0..<n])) () (V n)"
  using assms
proof (induction n arbitrary: V body f)
  case 0
  show ?case by (simp add: consumes_jret)
next
  case (Suc n)
  have up: "[0..<Suc n] = 0 # map Suc [0..<n]" by (simp add: map_Suc_upt upt_conv_Cons del: upt_Suc)
  from Suc.IH [of "\<lambda>k. V (Suc k)" "\<lambda>k. body (Suc k)" "\<lambda>k. f (Suc k)"] Suc.prems
  have "consumes (V (Suc 0)) (jfor [0..<n] (\<lambda>k. body (Suc k))) (concat (map (\<lambda>k. f (Suc k)) [0..<n])) ()
      (V (Suc n))" by simp
  from consumes_jthen [OF Suc.prems [of 0] this] show ?case
    by (simp add: up o_def del: upt.simps)
qed

text \<open>A block after its first \<^term>\<open>k\<close> coefficients in zigzag order have been stored.\<close>

definition partial_block :: "bytes \<Rightarrow> bytes \<Rightarrow> nat \<Rightarrow> bytes" where
  "partial_block b q k = map (\<lambda>j. if j \<in> set (take k zigzag) then q ! j else b ! j) [0..<64]"

lemma partial_block_0: "length b = 64 \<Longrightarrow> partial_block b q 0 = b"
  by (rule nth_equalityI) (simp_all add: partial_block_def del: upt.simps)

lemma partial_block_64: "length q = 64 \<Longrightarrow> partial_block b q 64 = q"
  by (rule nth_equalityI) (simp_all add: partial_block_def set_zigzag del: upt.simps)

lemma partial_block_Suc:
  assumes "k < 64"
  shows "(partial_block b q k)[zigzag ! k := q ! (zigzag ! k)] = partial_block b q (Suc k)"
proof (rule nth_equalityI)
  fix j assume "j < length ((partial_block b q k)[zigzag ! k := q ! (zigzag ! k)])"
  then have "j < 64" by (simp add: partial_block_def)
  with assms show "(partial_block b q k)[zigzag ! k := q ! (zigzag ! k)] ! j = partial_block b q (Suc k) ! j"
    by (auto simp: partial_block_def nth_list_update take_Suc_conv_app_nth simp del: upt.simps)
qed (simp add: partial_block_def)

lemma length_partial_block [simp]: "length (partial_block b q k) = 64"
  by (simp add: partial_block_def)

definition quant_view :: "nat \<Rightarrow> bytes \<Rightarrow> jdec \<Rightarrow> jdec" where
  "quant_view n q v = v\<lparr>dcodec := (dcodec v)\<lparr>quant_tbl := (quant_tbl (dcodec v))[n := q]\<rparr>\<rparr>"

lemma dcodec_quant_view [simp]:
  "dcodec (quant_view n q v) = (dcodec v)\<lparr>quant_tbl := (quant_tbl (dcodec v))[n := q]\<rparr>"
  by (simp add: quant_view_def)

lemma consumes_store_quant:
  assumes "n < length (quant_tbl (dcodec v))" "j < length b"
  shows "consumes (quant_view n b v) (store_quant n j c) [] () (quant_view n (b[j := c]) v)"
  unfolding store_quant_def
  by (rule jthen_nothing, rule check_codec, use assms in simp, rule set_codec_to)
    (use assms in \<open>simp add: quant_view_def\<close>)

lemma consumes_read_quant8:
  assumes n: "n < length (quant_tbl (dcodec v))" and b: "length b = 64" and q: "length q = 64"
  shows "consumes (quant_view n b v) (read_quant8 n) (map ((!) q) zigzag) () (quant_view n q v)"
proof -
  have step: "consumes (quant_view n (partial_block b q k) v)
      (jbind get_char (store_quant n (jpeg_fw_zigzag_order ! k))) [q ! (zigzag ! k)] ()
      (quant_view n (partial_block b q (Suc k)) v)" if "k < 64" for k
    using that consumes_store_quant [OF n, of "zigzag ! k" "partial_block b q k" "q ! (zigzag ! k)"]
    by (intro jbind_get_char) (simp add: zigzag_nth partial_block_Suc)
  have "map ((!) q) zigzag = concat (map (\<lambda>k. [q ! (zigzag ! k)]) [0..<64])"
    by (rule nth_equalityI) (simp_all del: upt.simps)
  with consumes_jfor [where V = "\<lambda>k. quant_view n (partial_block b q k) v" and n = 64, OF step] b q
  show ?thesis by (simp add: read_quant8_def partial_block_0 partial_block_64 del: upt.simps)
qed

definition dqt_view :: "nat \<Rightarrow> bytes \<Rightarrow> jdec \<Rightarrow> jdec" where
  "dqt_view n q v = v\<lparr>s_used_extra_mem := s_used_extra_mem v + 64,
     dcodec := (dcodec v)\<lparr>using_default_quant_tab := False,
       quant_tbl := (quant_tbl (dcodec v))[n := q]\<rparr>\<rparr>"

lemma less_3: "i < 3 \<longleftrightarrow> i = 0 \<or> i = 1 \<or> i = (2 :: nat)"
  by auto

lemma small_table_number:
  assumes "n < 3"
  shows "drop_bit 4 (of_nat n :: u8) = 0" "(of_nat n :: u8) AND 0x0F = of_nat n"
    "\<not> (of_nat n :: u8) > 2" "unat (of_nat n :: u8) = n"
  using assms unfolding less_3 by (elim disjE; simp)+

lemma consumes_read_quant_tbl:
  assumes n: "n < 3" "n < length (quant_tbl (dcodec v))" and q: "length q = 64" and r: "64 \<le> room v"
  shows "consumes v read_quant_tbl (of_nat n # map ((!) q) zigzag) (0, of_nat n)
    (quant_view n q (v\<lparr>s_used_extra_mem := s_used_extra_mem v + 64\<rparr>))"
proof -
  let ?v = "v\<lparr>s_used_extra_mem := s_used_extra_mem v + 64\<rparr>"
  note byte = small_table_number [OF n(1)]
  have block: "consumes v (JpegDec_ExtraMemAlloc 64) [] (replicate 64 0) ?v"
    using consumes_alloc [of 64 v] r by simp
  have "consumes ?v (set_quant n (replicate 64 0)) [] () (quant_view n (replicate 64 0) ?v)"
    unfolding set_quant_def
    by (rule jthen_nothing, rule check_codec, use n in simp, rule set_codec_to)
      (simp add: quant_view_def)
  moreover have "consumes (quant_view n (replicate 64 0) ?v)
      (jthen (read_quant8 n) (jret (0, of_nat n))) (map ((!) q) zigzag @ []) (0, of_nat n) (quant_view n q ?v)"
    by (rule consumes_jthen, rule consumes_read_quant8) (use n q in \<open>simp_all add: consumes_jret\<close>)
  ultimately show ?thesis
    unfolding read_quant_tbl_def
    by (intro jbind_get_char)
      (simp add: byte Let_def, rule jthen_jguard, simp add: byte, rule jbind_nothing [OF block],
        rule jthen_nothing, simp_all)
qed

lemma consumes_quant_tables_end: "consumes v (quant_tables 0 two) [] two v"
  by (rule consumes_local) (simp add: quant_tables.simps)

lemma consumes_quant_tables_one:
  assumes one: "consumes v read_quant_tbl xs (0, n) w"
  shows "consumes v (quant_tables 65 two) xs (two \<or> n > 1) w"
  unfolding consumes_def
proof (intro allI impI, elim conjE)
  fix d rest assume "stream_ok d" "view d = v" "jstream d = xs @ rest"
  then obtain d1 where 1: "read_quant_tbl d = JOk (0, n) d1" "stream_ok d1" "view d1 = w" "jstream d1 = rest"
    by (rule consumesD [OF one])
  have "quant_tables 65 two d = quant_tables 0 (two \<or> n > 1) d1"
    by (subst quant_tables.simps) (simp add: 1(1))
  also have "\<dots> = JOk (two \<or> n > 1) d1" by (subst quant_tables.simps) simp
  finally show "\<exists>d'. quant_tables 65 two d = JOk (two \<or> n > 1) d' \<and> stream_ok d' \<and> view d' = w
      \<and> jstream d' = rest" using 1 by simp
qed

lemma parse_DQT:
  assumes n: "n < 2" "n < length (quant_tbl (dcodec v))" and q: "length q = 64" and r: "64 \<le> room v"
  shows "consumes v (process_marker M_DQT) (be16 67 @ [of_nat n] @ map ((!) q) zigzag) () (dqt_view n q v)"
proof -
  let ?v = "v\<lparr>dcodec := (dcodec v)\<lparr>using_default_quant_tab := False\<rparr>\<rparr>"
  have "consumes ?v read_quant_tbl (of_nat n # map ((!) q) zigzag) (0, of_nat n)
    (quant_view n q (?v\<lparr>s_used_extra_mem := s_used_extra_mem ?v + 64\<rparr>))"
    by (rule consumes_read_quant_tbl) (use assms in simp_all)
  from consumes_quant_tables_one [OF this, of False]
  have "consumes ?v (quant_tables 65 False) (of_nat n # map ((!) q) zigzag) False (dqt_view n q v)"
    using n(1) by (auto simp: less_2_cases_iff quant_view_def dqt_view_def)
  from consumes_jbind [OF this, of "\<lambda>two. if two then same_tables else jret ()" "[]"]
  have "consumes ?v (jbind (quant_tables 65 False) (\<lambda>two. if two then same_tables else jret ()))
      (of_nat n # map ((!) q) zigzag) () (dqt_view n q v)"
    by (simp add: consumes_jret)
  then have "consumes v GetQuantTbl (be16 67 @ of_nat n # map ((!) q) zigzag) () (dqt_view n q v)"
    unfolding GetQuantTbl_def
    by (intro jthen_nothing [OF consumes_set_codec] jbind_get_short_word jthen_jguard) simp_all
  then show ?thesis by (simp add: process_marker_def marker_codes)
qed

subsection \<open>Huffman tables\<close>

text \<open>The decoder state with a given table at a place and a given default flag.\<close>

definition huff_put :: "bool \<Rightarrow> nat \<Rightarrow> huff_tbl \<Rightarrow> bool \<Rightarrow> jpeg_codec \<Rightarrow> jpeg_codec" where
  "huff_put ac n t b k =
     (if ac then k\<lparr>ac_huff_tbl := (ac_huff_tbl k)[n := t], using_default_huff_tab := b\<rparr>
      else k\<lparr>dc_huff_tbl := (dc_huff_tbl k)[n := t], using_default_huff_tab := b\<rparr>)"

definition huff_view :: "bool \<Rightarrow> nat \<Rightarrow> huff_tbl \<Rightarrow> bool \<Rightarrow> jdec \<Rightarrow> jdec" where
  "huff_view ac n t b v = v\<lparr>dcodec := huff_put ac n t b (dcodec v)\<rparr>"

abbreviation has_huff :: "bool \<Rightarrow> nat \<Rightarrow> jdec \<Rightarrow> bool" where
  "has_huff ac n v \<equiv> n < length (huff_tbls ac (dcodec v))"

lemma huff_view_table [simp]:
  "has_huff ac n v \<Longrightarrow> huff_tbls ac (dcodec (huff_view ac n t b v)) ! n = t"
  "length (huff_tbls ac (dcodec (huff_view ac n t b v))) = length (huff_tbls ac (dcodec v))"
  by (simp_all add: huff_view_def huff_put_def huff_tbls_def split: if_splits)

lemma huff_view_same:
  "huff_view ac n (huff_tbls ac (dcodec v) ! n) (using_default_huff_tab (dcodec v)) v = v"
  by (cases ac) (simp_all add: huff_view_def huff_put_def huff_tbls_def)

lemma consumes_set_huff:
  assumes "has_huff ac n v"
  shows "consumes (huff_view ac n t b v) (set_huff ac n f) [] () (huff_view ac n (f t) b v)"
  unfolding set_huff_def
  by (rule jthen_nothing, rule check_codec, use assms in simp, rule set_codec_to)
    (use assms in \<open>cases ac; simp add: huff_view_def huff_put_def huff_tbls_def\<close>)

lemma consumes_store_bits:
  assumes "has_huff ac n v" "i < length (hbits t)"
  shows "consumes (huff_view ac n t b v) (store_bits ac n i c) []
    () (huff_view ac n (t\<lparr>hbits := (hbits t)[i := c]\<rparr>) b v)"
  unfolding store_bits_def
  by (rule jthen_nothing, rule check_codec [where P = "\<lambda>k. i < length (hbits (huff_tbls ac k ! n))"])
    (use assms consumes_set_huff [OF assms(1), of t b "\<lambda>t. t\<lparr>hbits := (hbits t)[i := c]\<rparr>"] in simp_all)

lemma consumes_store_huffval:
  assumes "has_huff ac n v" "i < length (huffval t)"
  shows "consumes (huff_view ac n t b v) (store_huffval ac n i c) []
    () (huff_view ac n (t\<lparr>huffval := (huffval t)[i := c]\<rparr>) b v)"
  unfolding store_huffval_def
  by (rule jthen_nothing, rule check_codec [where P = "\<lambda>k. i < length (huffval (huff_tbls ac k ! n))"])
    (use assms consumes_set_huff [OF assms(1), of t b "\<lambda>t. t\<lparr>huffval := (huffval t)[i := c]\<rparr>"] in simp_all)

lemma consumes_compare:
  assumes "i < length tbl"
  shows "consumes (huff_view ac n t b v) (compare_default tbl i c) []
    () (huff_view ac n t (b \<and> c = tbl ! i) v)"
proof -
  have "consumes (huff_view ac n t b v)
      (set_codec (\<lambda>k. k\<lparr>using_default_huff_tab := False\<rparr>)) [] () (huff_view ac n t False v)"
    by (rule set_codec_to) (cases ac; simp add: huff_view_def huff_put_def)
  then show ?thesis
    unfolding compare_default_def
    by (intro jthen_nothing [OF consumes_jcheck]) (use assms in \<open>auto simp: consumes_jret\<close>)
qed

text \<open>A list whose first \<^term>\<open>i\<close> entries have been replaced.\<close>

definition mix :: "(nat \<Rightarrow> 'a) \<Rightarrow> 'a list \<Rightarrow> nat \<Rightarrow> 'a list" where
  "mix g old i = map (\<lambda>j. if j < i then g j else old ! j) [0..<length old]"

lemma mix_0 [simp]: "mix g old 0 = old"
  by (rule nth_equalityI) (simp_all add: mix_def del: upt.simps)

lemma length_mix [simp]: "length (mix g old i) = length old"
  by (simp add: mix_def)

lemma nth_mix: "j < length old \<Longrightarrow> mix g old i ! j = (if j < i then g j else old ! j)"
  by (simp add: mix_def del: upt.simps)

lemma mix_Suc: "i < length old \<Longrightarrow> (mix g old i)[i := g i] = mix g old (Suc i)"
  by (rule nth_equalityI) (auto simp: nth_mix nth_list_update)

lemma take_mix: "n \<le> length xs \<Longrightarrow> n \<le> length old \<Longrightarrow> take n (mix ((!) xs) old n) = take n xs"
  by (rule nth_equalityI) (simp_all add: nth_mix)

text \<open>The state after the counts below \<^term>\<open>i\<close>, and after the first \<^term>\<open>i\<close> symbols.\<close>

definition bits_view :: "bool \<Rightarrow> nat \<Rightarrow> huff_tbl \<Rightarrow> bool \<Rightarrow> bytes \<Rightarrow> nat \<Rightarrow> jdec \<Rightarrow> jdec" where
  "bits_view ac n t b bits i = huff_view ac n
     (t\<lparr>hbits := mix (\<lambda>j. if j = 0 then 0 else bits ! j) (hbits t) i\<rparr>)
     (b \<and> (\<forall>j \<in> {1..<i}. bits ! j = default_bits ac n ! j))"

definition values_view :: "bool \<Rightarrow> nat \<Rightarrow> huff_tbl \<Rightarrow> bool \<Rightarrow> bytes \<Rightarrow> nat \<Rightarrow> jdec \<Rightarrow> jdec" where
  "values_view ac n t b vals i = huff_view ac n
     (t\<lparr>huffval := mix ((!) vals) (huffval t) i\<rparr>)
     (b \<and> (\<forall>j < i. vals ! j = default_huffval ac n ! j))"

lemma length_default [simp]: "length (default_bits ac n) = 17"
  by (simp add: default_bits_def)

lemma all_less_Suc_from: "Suc 0 \<le> i \<Longrightarrow> (\<forall>j \<in> {Suc 0..<Suc i}. P j) \<longleftrightarrow> (\<forall>j \<in> {Suc 0..<i}. P j) \<and> P i"
  by (auto simp: less_Suc_eq)

lemma consumes_bits_step:
  assumes "has_huff ac n v" "length (hbits t) = 17" "1 \<le> i" "i < 17"
    and rest: "consumes (bits_view ac n t b bits (Suc i) v) m xs a w"
  shows "consumes (bits_view ac n t b bits i v) (jthen (store_bits ac n i (bits ! i))
    (jthen (compare_default (default_bits ac n) i (bits ! i)) m)) xs a w"
proof -
  let ?g = "\<lambda>j. if j = 0 then 0 else bits ! j"
  let ?flag = "b \<and> (\<forall>j \<in> {1..<i}. bits ! j = default_bits ac n ! j)"
  have upd: "(mix ?g (hbits t) i)[i := bits ! i] = mix ?g (hbits t) (Suc i)"
    using mix_Suc [of i "hbits t" ?g] assms(2-4) by simp
  have "consumes (bits_view ac n t b bits i v) (store_bits ac n i (bits ! i)) [] ()
      (huff_view ac n (t\<lparr>hbits := mix ?g (hbits t) (Suc i)\<rparr>) ?flag v)"
    using consumes_store_bits [OF assms(1), of i "t\<lparr>hbits := mix ?g (hbits t) i\<rparr>" ?flag "bits ! i"] assms(2,4)
    by (simp add: bits_view_def upd)
  moreover have "consumes (huff_view ac n (t\<lparr>hbits := mix ?g (hbits t) (Suc i)\<rparr>) ?flag v)
      (compare_default (default_bits ac n) i (bits ! i)) [] () (bits_view ac n t b bits (Suc i) v)"
    using consumes_compare [of i "default_bits ac n" ac n "t\<lparr>hbits := mix ?g (hbits t) (Suc i)\<rparr>" ?flag v "bits ! i"]
      assms(3,4)
    by (simp add: bits_view_def all_less_Suc_from conj_assoc)
  ultimately show ?thesis using rest by (blast intro: jthen_nothing)
qed

lemma consumes_read_bits:
  assumes "has_huff ac n v" "length (hbits t) = 17" and i: "1 \<le> i" "i \<le> 17"
  shows "consumes (bits_view ac n t b bits i v) (read_bits ac n [i..<17] count)
    (map ((!) bits) [i..<17]) (fold (\<lambda>i count. count + ucast (bits ! i)) [i..<17] count)
    (bits_view ac n t b bits 17 v)"
  using i(2,1)
proof (induction i arbitrary: count rule: inc_induct)
  case base
  show ?case by (simp add: consumes_jret)
next
  case (step i)
  have up: "[i..<17] = i # [Suc i..<17]" using step.hyps by (simp add: upt_conv_Cons)
  have IH: "consumes (bits_view ac n t b bits (Suc i) v) (read_bits ac n [Suc i..<17] (count + ucast (bits ! i)))
    (map ((!) bits) [Suc i..<17])
    (fold (\<lambda>i count. count + ucast (bits ! i)) [Suc i..<17] (count + ucast (bits ! i)))
    (bits_view ac n t b bits 17 v)" using step.IH step.prems by simp
  show ?case
    unfolding up read_bits.simps list.map fold_simps
    by (intro jbind_get_char consumes_bits_step assms IH step.prems step.hyps)
qed

lemma consumes_values_step:
  assumes "has_huff ac n v" "i < length (huffval t)" "i < length (default_huffval ac n)"
  shows "consumes (values_view ac n t b vals i v) (jbind get_char (\<lambda>c.
     jthen (store_huffval ac n i c) (compare_default (default_huffval ac n) i c))) [vals ! i] ()
    (values_view ac n t b vals (Suc i) v)"
proof -
  let ?flag = "b \<and> (\<forall>j < i. vals ! j = default_huffval ac n ! j)"
  have "consumes (values_view ac n t b vals i v) (store_huffval ac n i (vals ! i)) [] ()
      (huff_view ac n (t\<lparr>huffval := mix ((!) vals) (huffval t) (Suc i)\<rparr>) ?flag v)"
    using consumes_store_huffval [OF assms(1), of i "t\<lparr>huffval := mix ((!) vals) (huffval t) i\<rparr>" ?flag "vals ! i"]
      assms(2)
    by (simp add: values_view_def mix_Suc [of i _ "(!) vals"])
  moreover have "consumes (huff_view ac n (t\<lparr>huffval := mix ((!) vals) (huffval t) (Suc i)\<rparr>) ?flag v)
      (compare_default (default_huffval ac n) i (vals ! i)) [] () (values_view ac n t b vals (Suc i) v)"
    using consumes_compare [OF assms(3), of ac n "t\<lparr>huffval := mix ((!) vals) (huffval t) (Suc i)\<rparr>" ?flag v "vals ! i"]
    by (simp add: values_view_def All_less_Suc conj_ac)
  ultimately show ?thesis by (intro jbind_get_char jthen_nothing)
qed

lemma consumes_read_huffval:
  assumes "has_huff ac n v" "count \<le> length (huffval t)" "count \<le> length (default_huffval ac n)"
    "count \<le> length vals"
  shows "consumes (values_view ac n t b vals 0 v) (read_huffval ac n count) (take count vals) ()
    (values_view ac n t b vals count v)"
proof -
  have "consumes (values_view ac n t b vals 0 v) (read_huffval ac n count)
      (concat (map (\<lambda>k. [vals ! k]) [0..<count])) () (values_view ac n t b vals count v)"
    unfolding read_huffval_def by (rule consumes_jfor, rule consumes_values_step) (use assms in auto)
  then show ?thesis using take_entries [OF assms(4)] by simp
qed

text \<open>The table that the parser holds after it has read \<^term>\<open>t\<close> over the table \<^term>\<open>old\<close>, and
  whether \<^term>\<open>t\<close> is the default table of its place.\<close>

definition parsed_huff :: "huff_tbl \<Rightarrow> huff_tbl \<Rightarrow> huff_tbl" where
  "parsed_huff old t = old\<lparr>hbits := 0 # map ((!) (hbits t)) [1..<17],
     huffval := take (symbols t) (huffval t) @ drop (symbols t) (huffval old)\<rparr>"

definition is_default :: "bool \<Rightarrow> nat \<Rightarrow> huff_tbl \<Rightarrow> bool" where
  "is_default ac n t \<longleftrightarrow> (\<forall>j \<in> {1..<17}. hbits t ! j = default_bits ac n ! j)
     \<and> (\<forall>j < symbols t. huffval t ! j = default_huffval ac n ! j)"

lemma mix_bits:
  assumes "length old = 17"
  shows "mix (\<lambda>j. if j = 0 then 0 else bits ! j) old 17 = 0 # map ((!) bits) [1..<17]"
proof (rule nth_equalityI)
  fix j assume "j < length (mix (\<lambda>j. if j = 0 then 0 else bits ! j) old 17)"
  with assms show "mix (\<lambda>j. if j = 0 then 0 else bits ! j) old 17 ! j = (0 # map ((!) bits) [1..<17]) ! j"
    by (cases j) (simp_all add: nth_mix del: upt.simps)
qed (use assms in simp)

lemma mix_values:
  assumes "n \<le> length vals" "n \<le> length old"
  shows "mix ((!) vals) old n = take n vals @ drop n old"
  using assms by (intro nth_equalityI) (auto simp: nth_mix nth_append)

lemma consumes_read_huff_tbl:
  assumes index: "(idx AND 0x13) AND 0x10 \<noteq> 0 \<longleftrightarrow> ac"
      "unat (if ac then (idx AND 0x13) - 0x10 else idx AND 0x13) = n"
    and place: "has_huff ac n v" "huff_tbls ac (dcodec v) ! n = old"
      "length (hbits old) = 17" "length (huffval old) = 257"
    and t: "huff_ok t" "symbols t \<le> length (default_huffval ac n)"
  shows "consumes v read_huff_tbl
     (idx # map ((!) (hbits t)) [1..<17] @ take (symbols t) (huffval t)) (symbol_count (hbits t))
     (huff_view ac n (parsed_huff old t) (using_default_huff_tab (dcodec v) \<and> is_default ac n t) v)"
proof -
  let ?b = "using_default_huff_tab (dcodec v)"
  let ?old = "old\<lparr>hbits := 0 # map ((!) (hbits t)) [1..<17]\<rparr>"
  let ?flag = "?b \<and> (\<forall>j \<in> {1..<17}. hbits t ! j = default_bits ac n ! j)"
  have n: "symbols t \<le> length (huffval t)" "symbols t \<le> 256" using t by (simp_all add: huff_ok_def)
  have count: "unat (symbol_count (hbits t)) = symbols t" "\<not> symbol_count (hbits t) > 256"
    using unat_symbol_count [OF t(1)] n by (simp_all add: word_less_nat_alt)
  have v: "v = huff_view ac n old ?b v" using huff_view_same [of ac n v] place by simp
  have first: "consumes v (store_bits ac n 0 0) [] () (bits_view ac n old ?b (hbits t) 1 v)"
    using consumes_store_bits [OF place(1), of 0 old ?b 0] place(3) mix_Suc [of 0 "hbits old" "\<lambda>j. if j = 0 then 0 else hbits t ! j"]
    by (subst v) (simp add: bits_view_def)
  have bits: "consumes (bits_view ac n old ?b (hbits t) 1 v) (read_bits ac n [1..<17] 0)
      (map ((!) (hbits t)) [1..<17]) (symbol_count (hbits t)) (huff_view ac n ?old ?flag v)"
    using consumes_read_bits [OF place(1,3), of 1 ?b "hbits t" 0] place(3)
    by (simp add: symbol_count_def bits_view_def mix_bits del: upt.simps)
  have vals: "consumes (huff_view ac n ?old ?flag v) (read_huffval ac n (symbols t))
      (take (symbols t) (huffval t)) () (huff_view ac n (parsed_huff old t) (?b \<and> is_default ac n t) v)"
    using consumes_read_huffval [OF place(1), of "symbols t" ?old "huffval t" ?flag] n t(2) place(4)
    by (simp add: values_view_def mix_values parsed_huff_def is_default_def conj_ac del: upt.simps)
  have "consumes (bits_view ac n old ?b (hbits t) 1 v) (jbind (read_bits ac n [1..<17] 0) (\<lambda>count.
      jthen (jguard (\<not> count > 256)) (jthen (read_huffval ac n (unat count)) (jret count))))
      (map ((!) (hbits t)) [1..<17] @ take (symbols t) (huffval t) @ []) (symbol_count (hbits t))
      (huff_view ac n (parsed_huff old t) (?b \<and> is_default ac n t) v)"
    by (rule consumes_jbind [OF bits], rule jthen_jguard [OF count(2)], unfold count(1),
        rule consumes_jthen [OF vals consumes_jret])
  with first show ?thesis
    unfolding read_huff_tbl_def Let_def
    by (intro jbind_get_char jthen_nothing) (simp_all only: index append_Nil2)
qed

text \<open>The blocks of the eight tables: 20 and 260 bytes each, four tables of each class.\<close>

definition fresh_huff :: huff_tbl where
  "fresh_huff = \<lparr>hbits = replicate 17 0, huffval = replicate 257 0\<rparr>"

lemma fresh_huff_fields: "t\<lparr>hbits := replicate 17 0, huffval := replicate 257 0\<rparr> = fresh_huff"
  by (cases t) (simp add: fresh_huff_def)

definition put_tables :: "huff_tbl list \<Rightarrow> huff_tbl list \<Rightarrow> u32 \<Rightarrow> jdec \<Rightarrow> jdec" where
  "put_tables dcs acs used v = v\<lparr>s_used_extra_mem := s_used_extra_mem v + used,
     dcodec := (dcodec v)\<lparr>dc_huff_tbl := dcs, ac_huff_tbl := acs\<rparr>\<rparr>"

lemma put_tables_fields [simp]:
  "huff_tbls ac (dcodec (put_tables dcs acs used v)) = (if ac then acs else dcs)"
  "dc_huff_tbl (dcodec (put_tables dcs acs used v)) = dcs"
  "ac_huff_tbl (dcodec (put_tables dcs acs used v)) = acs"
  by (simp_all add: put_tables_def huff_tbls_def)

lemma room_put_tables: "unat used \<le> room v \<Longrightarrow> room (put_tables dcs acs used v) = room v - unat used"
  by (simp add: put_tables_def room_alloc)

lemma put_tables_same: "v = put_tables (dc_huff_tbl (dcodec v)) (ac_huff_tbl (dcodec v)) 0 v"
  by (simp add: put_tables_def)

lemma alloc_table:
  assumes "unat used + unat n \<le> room v" "k < length dcs" "k < length acs" "unat used + unat n < 2 ^ 32"
  shows "consumes (put_tables dcs acs used v)
      (jbind (JpegDec_ExtraMemAlloc n) (\<lambda>b. set_huff ac k (F b))) []
      () (put_tables (if ac then dcs else dcs[k := F (replicate (unat n) 0) (dcs ! k)])
            (if ac then acs[k := F (replicate (unat n) 0) (acs ! k)] else acs)
            (used + ((n + 3) AND NOT 3)) v)"
proof (rule jbind_nothing)
  have "unat n \<le> room (put_tables dcs acs used v)"
    using assms(1) room_put_tables [of used v dcs acs] by linarith
  then show "consumes (put_tables dcs acs used v) (JpegDec_ExtraMemAlloc n) [] (replicate (unat n) 0)
      (put_tables dcs acs (used + ((n + 3) AND NOT 3)) v)"
    by (rule consumes_eq [OF consumes_alloc]) (simp_all add: put_tables_def add.assoc)
next
  show "consumes (put_tables dcs acs (used + ((n + 3) AND NOT 3)) v) (set_huff ac k (F (replicate (unat n) 0)))
      [] () (put_tables (if ac then dcs else dcs[k := F (replicate (unat n) 0) (dcs ! k)])
            (if ac then acs[k := F (replicate (unat n) 0) (acs ! k)] else acs)
            (used + ((n + 3) AND NOT 3)) v)"
    unfolding set_huff_def
    by (rule jthen_nothing, rule check_codec, use assms in simp, rule set_codec_to)
      (cases ac; simp add: put_tables_def)
qed

definition malloc_view :: "jdec \<Rightarrow> jdec" where
  "malloc_view v = (if g_huff_tbl_malloced v then v
     else (put_tables (replicate 4 fresh_huff) (replicate 4 fresh_huff) 2240 v)\<lparr>g_huff_tbl_malloced := True\<rparr>)"

lemma four_tables:
  assumes "length ts = 4"
  obtains a b c d where "ts = [a, b, c, d]"
  using assms by (auto simp: eval_nat_numeral length_Suc_conv)

lemma consumes_huff_malloc:
  assumes "\<not> g_huff_tbl_malloced v \<longrightarrow> 2240 \<le> room v"
    and len: "length (dc_huff_tbl (dcodec v)) = 4" "length (ac_huff_tbl (dcodec v)) = 4"
  shows "consumes v huff_malloc [] () (malloc_view v)"
proof (cases "g_huff_tbl_malloced v")
  case True
  then show ?thesis
    unfolding huff_malloc_def malloc_view_def
    by (intro jbind_nothing [OF consumes_jget]) (auto simp: consumes_jret)
next
  case False
  with assms(1) have r: "2240 \<le> room v" by simp
  define body :: "nat \<Rightarrow> (unit, jdec) jm" where "body = (\<lambda>i. jseq
       [jbind (JpegDec_ExtraMemAlloc 17) (\<lambda>b. set_huff False i (\<lambda>t. t\<lparr>hbits := b\<rparr>)),
        jbind (JpegDec_ExtraMemAlloc 257) (\<lambda>b. set_huff False i (\<lambda>t. t\<lparr>huffval := b\<rparr>)),
        jbind (JpegDec_ExtraMemAlloc 17) (\<lambda>b. set_huff True i (\<lambda>t. t\<lparr>hbits := b\<rparr>)),
        jbind (JpegDec_ExtraMemAlloc 257) (\<lambda>b. set_huff True i (\<lambda>t. t\<lparr>huffval := b\<rparr>))])"
  have step: "consumes (put_tables dcs acs used v) (body i) [] ()
      (put_tables (dcs[i := fresh_huff]) (acs[i := fresh_huff]) (used + 560) v)"
    if "unat used \<le> 1680" "length dcs = 4" "length acs = 4" "i < 4" for dcs acs used i
  proof -
    have u: "unat (used + 20) = unat used + 20" "unat (used + 280) = unat used + 280"
      "unat (used + 300) = unat used + 300"
      using that(1) by (simp_all add: unat_word_ariths)
    note comm = add.commute [of used 280] add.commute [of used 300] add.commute [of used 560]
    let ?t1 = "dcs[i := (dcs ! i)\<lparr>hbits := replicate 17 0\<rparr>]"
    let ?t2 = "dcs[i := fresh_huff]"
    let ?t3 = "acs[i := (acs ! i)\<lparr>hbits := replicate 17 0\<rparr>]"
    have "consumes (put_tables dcs acs used v)
        (jbind (JpegDec_ExtraMemAlloc 17) (\<lambda>b. set_huff False i (\<lambda>t. t\<lparr>hbits := b\<rparr>))) [] ()
        (put_tables ?t1 acs (used + 20) v)"
      using alloc_table [of used 17 v i dcs acs False "\<lambda>b t. t\<lparr>hbits := b\<rparr>"] that r by simp
    moreover have "consumes (put_tables ?t1 acs (used + 20) v)
        (jbind (JpegDec_ExtraMemAlloc 257) (\<lambda>b. set_huff False i (\<lambda>t. t\<lparr>huffval := b\<rparr>))) [] ()
        (put_tables ?t2 acs (used + 280) v)"
      using alloc_table [of "used + 20" 257 v i ?t1 acs False "\<lambda>b t. t\<lparr>huffval := b\<rparr>"] that r u
      by (simp add: fresh_huff_fields comm)
    moreover have "consumes (put_tables ?t2 acs (used + 280) v)
        (jbind (JpegDec_ExtraMemAlloc 17) (\<lambda>b. set_huff True i (\<lambda>t. t\<lparr>hbits := b\<rparr>))) [] ()
        (put_tables ?t2 ?t3 (used + 300) v)"
      using alloc_table [of "used + 280" 17 v i ?t2 acs True "\<lambda>b t. t\<lparr>hbits := b\<rparr>"] that r u by (simp add: comm)
    moreover have "consumes (put_tables ?t2 ?t3 (used + 300) v)
        (jbind (JpegDec_ExtraMemAlloc 257) (\<lambda>b. set_huff True i (\<lambda>t. t\<lparr>huffval := b\<rparr>))) [] ()
        (put_tables ?t2 (acs[i := fresh_huff]) (used + 560) v)"
      using alloc_table [of "used + 300" 257 v i ?t2 ?t3 True "\<lambda>b t. t\<lparr>huffval := b\<rparr>"] that r u
      by (simp add: fresh_huff_fields comm)
    ultimately show ?thesis
      unfolding body_def by (blast intro: jseq_Cons_nothing jseq_Nil)
  qed
  obtain d0 d1 d2 d3 where d: "dc_huff_tbl (dcodec v) = [d0, d1, d2, d3]"
    using len(1) by (rule four_tables)
  obtain a0 a1 a2 a3 where a: "ac_huff_tbl (dcodec v) = [a0, a1, a2, a3]"
    using len(2) by (rule four_tables)
  let ?f = fresh_huff
  have upd: "[w, x, y, z][2 := u] = [w, x, u, z]" "[w, x, y, z][3 := u] = [w, x, y, u]"
    for u w x y z :: huff_tbl by (simp_all add: eval_nat_numeral)
  have 0: "consumes v (body 0) [] () (put_tables [?f, d1, d2, d3] [?f, a1, a2, a3] 560 v)"
    using step [of 0 "[d0, d1, d2, d3]" "[a0, a1, a2, a3]" 0] put_tables_same [of v] by (simp add: d a)
  have 1: "consumes (put_tables [?f, d1, d2, d3] [?f, a1, a2, a3] 560 v) (body 1) [] ()
      (put_tables [?f, ?f, d2, d3] [?f, ?f, a2, a3] 1120 v)"
    using step [of 560 "[?f, d1, d2, d3]" "[?f, a1, a2, a3]" 1] by simp
  have 2: "consumes (put_tables [?f, ?f, d2, d3] [?f, ?f, a2, a3] 1120 v) (body 2) [] ()
      (put_tables [?f, ?f, ?f, d3] [?f, ?f, ?f, a3] 1680 v)"
    using step [of 1120 "[?f, ?f, d2, d3]" "[?f, ?f, a2, a3]" 2] by (simp add: upd)
  have 3: "consumes (put_tables [?f, ?f, ?f, d3] [?f, ?f, ?f, a3] 1680 v) (body 3) [] ()
      (put_tables [?f, ?f, ?f, ?f] [?f, ?f, ?f, ?f] 2240 v)"
    using step [of 1680 "[?f, ?f, ?f, d3]" "[?f, ?f, ?f, a3]" 3] by (simp add: upd)
  have four: "[0..<4] = [0, 1, 2, 3::nat]" by (simp add: upt_rec)
  have "consumes v (jfor [0..<4] body) [] () (put_tables [?f, ?f, ?f, ?f] [?f, ?f, ?f, ?f] 2240 v)"
    using 0 1 2 3 unfolding four list.map by (blast intro: jseq_Cons_nothing jseq_Nil)
  moreover have "[?f, ?f, ?f, ?f] = replicate 4 ?f" by (simp add: eval_nat_numeral)
  ultimately have "consumes v (jfor [0..<4] body) [] () (put_tables (replicate 4 ?f) (replicate 4 ?f) 2240 v)"
    by simp
  moreover have "consumes (put_tables (replicate 4 ?f) (replicate 4 ?f) 2240 v)
      (jmod (\<lambda>d. d\<lparr>g_huff_tbl_malloced := True\<rparr>)) [] () (malloc_view v)"
    using False by (intro consumes_eq [OF consumes_jmod]) (simp_all add: malloc_view_def)
  ultimately have "consumes v (jseq [jfor [0..<4] body, jmod (\<lambda>d. d\<lparr>g_huff_tbl_malloced := True\<rparr>)]) [] ()
      (malloc_view v)" by (blast intro: jseq_Cons_nothing jseq_Nil)
  note main = this
  have "consumes v (jget g_huff_tbl_malloced) [] False v"
    using False by (intro consumes_jget) auto
  then show ?thesis
    unfolding huff_malloc_def
    by (rule jbind_nothing) (use main in \<open>simp only: if_False body_def\<close>)
qed

lemma consumes_huff_tables_one:
  assumes t: "huff_ok t" and one: "consumes v read_huff_tbl xs (symbol_count (hbits t)) w"
  shows "consumes v (huff_tables (17 + symbol_count (hbits t))) xs () w"
  unfolding consumes_def
proof (intro allI impI, elim conjE)
  fix d rest assume "stream_ok d" "view d = v" "jstream d = xs @ rest"
  then obtain d1 where 1: "read_huff_tbl d = JOk (symbol_count (hbits t)) d1" "stream_ok d1"
    "view d1 = w" "jstream d1 = rest" by (rule consumesD [OF one])
  let ?n = "symbol_count (hbits t)"
  have "symbols t \<le> 256" using t by (simp add: huff_ok_def)
  then have n: "unat (17 + ?n) = 17 + unat ?n"
    using unat_symbol_count [OF t] by (simp add: unat_word_ariths)
  then have "17 + ?n > 0" by (metis add_gr_0 unat_gt_0 zero_less_numeral word_gt_0)
  then have "huff_tables (17 + ?n) d = huff_tables 0 d1"
    by (subst huff_tables.simps) (simp add: 1(1) n)
  also have "\<dots> = JOk () d1" by (subst huff_tables.simps) simp
  finally show "\<exists>d'. huff_tables (17 + ?n) d = JOk () d' \<and> stream_ok d' \<and> view d' = w
      \<and> jstream d' = rest" using 1 by simp
qed

text \<open>The Huffman tables of the decoder are blocks of the arena, or have not been allocated.\<close>

definition tables_allocated :: "jdec \<Rightarrow> bool" where
  "tables_allocated v \<longleftrightarrow> length (dc_huff_tbl (dcodec v)) = 4 \<and> length (ac_huff_tbl (dcodec v)) = 4
     \<and> (if g_huff_tbl_malloced v
        then \<forall>t \<in> set (dc_huff_tbl (dcodec v)) \<union> set (ac_huff_tbl (dcodec v)).
               length (hbits t) = 17 \<and> length (huffval t) = 257
        else 2240 \<le> room v)"

lemma malloc_view_allocated:
  assumes "tables_allocated v" "n < 4"
  shows "has_huff ac n (malloc_view v)"
    and "length (hbits (huff_tbls ac (dcodec (malloc_view v)) ! n)) = 17"
    and "length (huffval (huff_tbls ac (dcodec (malloc_view v)) ! n)) = 257"
  using assms
  by (auto simp: tables_allocated_def malloc_view_def huff_tbls_def fresh_huff_def split: if_splits)

definition dht_view :: "bool \<Rightarrow> nat \<Rightarrow> huff_tbl \<Rightarrow> jdec \<Rightarrow> jdec" where
  "dht_view ac n t v = (let w = malloc_view v in
     huff_view ac n (parsed_huff (huff_tbls ac (dcodec w) ! n) t)
       (using_default_huff_tab (dcodec w) \<and> is_default ac n t) w)"

lemma parse_DHT:
  assumes index: "(idx AND 0x13) AND 0x10 \<noteq> 0 \<longleftrightarrow> ac"
      "unat (if ac then (idx AND 0x13) - 0x10 else idx AND 0x13) = n" "n < 4"
    and v: "tables_allocated v"
    and t: "huff_ok t" "symbols t \<le> length (default_huffval ac n)"
  shows "consumes v (process_marker M_DHT) (be16 (19 + symbol_count (hbits t)) @ [idx]
     @ map ((!) (hbits t)) [1..<17] @ take (symbols t) (huffval t)) () (dht_view ac n t v)"
proof -
  let ?n = "symbol_count (hbits t)"
  have "unat ?n \<le> 256" using unat_symbol_count [OF t(1)] t(1) by (simp add: huff_ok_def)
  then have len: "\<not> 19 + ?n < 2" "19 + ?n - 2 = 17 + ?n"
    by (simp_all add: word_less_nat_alt unat_word_ariths)
  have malloc: "consumes v huff_malloc [] () (malloc_view v)"
    using v by (intro consumes_huff_malloc) (simp_all add: tables_allocated_def)
  have "consumes (malloc_view v) read_huff_tbl
      (idx # map ((!) (hbits t)) [1..<17] @ take (symbols t) (huffval t)) ?n (dht_view ac n t v)"
    unfolding dht_view_def Let_def
    by (rule consumes_read_huff_tbl [OF index(1,2)]) (use malloc_view_allocated [OF v index(3)] t in simp_all)
  from consumes_huff_tables_one [OF t(1) this]
  have "consumes v GetHuffTbl (be16 (19 + ?n) @ idx # map ((!) (hbits t)) [1..<17]
      @ take (symbols t) (huffval t)) () (dht_view ac n t v)"
    unfolding GetHuffTbl_def
    by (intro jthen_nothing [OF malloc] jbind_get_short_word jthen_jguard) (simp_all only: len not_False_eq_True)
  then show ?thesis by (simp add: process_marker_def marker_codes)
qed

subsection \<open>The frame header\<close>

lemma nibbles: "push_bit 4 (drop_bit 4 c AND 0x0F) OR (c AND 0x0F) = (c :: u8)"
proof (rule bit_eqI)
  fix k assume "possible_bit TYPE(u8) k"
  then have "k < 8" by simp
  have low: "(0x0F :: u8) = mask 4" by (simp add: mask_eq_exp_minus_1)
  show "bit (push_bit 4 (drop_bit 4 c AND 0x0F) OR (c AND 0x0F)) k = bit c k"
    unfolding low using \<open>k < 8\<close> by (auto simp: bit_simps)
qed

definition sof_component :: "nat \<Rightarrow> u8 \<Rightarrow> component" where
  "sof_component i hv = \<lparr>component_id = of_nat (i + 1), component_index = of_nat i,
     h_samp_factor = drop_bit 4 hv AND 0x0F, v_samp_factor = hv AND 0x0F,
     MCU_width = if i = 0 then ucast (drop_bit 4 hv AND 0x0F) else 1,
     MCU_height = if i = 0 then ucast (hv AND 0x0F) else 1\<rparr>"

lemma component_full:
  "p\<lparr>component_index := a, component_id := b, h_samp_factor := c, v_samp_factor := d,
     MCU_width := w, MCU_height := h\<rparr>
   = \<lparr>component_id = b, component_index = a, h_samp_factor = c, v_samp_factor = d,
      MCU_width = w, MCU_height = h\<rparr>"
  by (cases p) simp

definition comp_put :: "nat \<Rightarrow> component \<Rightarrow> jdec \<Rightarrow> jdec" where
  "comp_put i p v = v\<lparr>dcodec := (dcodec v)\<lparr>comp_info := (comp_info (dcodec v))[i := p]\<rparr>\<rparr>"

definition quant_id_put :: "nat \<Rightarrow> u16 \<Rightarrow> jdec \<Rightarrow> jdec" where
  "quant_id_put i q v = v\<lparr>dcodec := (dcodec v)\<lparr>tbl_map :=
     (tbl_map (dcodec v))[i := (tbl_map (dcodec v) ! i)\<lparr>quant_tbl_id := q\<rparr>]\<rparr>\<rparr>"

definition comp_view :: "nat \<Rightarrow> u8 \<Rightarrow> u8 \<Rightarrow> jdec \<Rightarrow> jdec" where
  "comp_view i hv q v = quant_id_put i (ucast q) (comp_put i (sof_component i hv) v)"

lemma consumes_set_component:
  assumes "unat ci = i" "i < length (comp_info (dcodec v))"
  shows "consumes (comp_put i p v) (set_component ci f) [] () (comp_put i (f p) v)"
  unfolding set_component_def assms(1)
  by (rule jthen_nothing, rule check_codec, use assms in \<open>simp add: comp_put_def\<close>, rule set_codec_to)
    (use assms in \<open>simp add: comp_put_def\<close>)

lemma comp_put_same: "comp_put i (comp_info (dcodec v) ! i) v = v"
  by (simp add: comp_put_def)

lemma consumes_set_quant_id:
  assumes "i < length (tbl_map (dcodec v))"
  shows "consumes v (set_tbl_map i (\<lambda>t. t\<lparr>quant_tbl_id := q\<rparr>)) [] () (quant_id_put i q v)"
  unfolding set_tbl_map_def
  by (rule jthen_nothing, rule check_codec, rule assms, rule set_codec_to) (simp add: quant_id_put_def)

lemma parse_component:
  assumes i: "i < 3" "i < length (comp_info (dcodec v))" "i < length (tbl_map (dcodec v))" and q: "q \<le> 2"
  shows "consumes v (GetSOF_component (of_nat i)) [of_nat (i + 1), hv, q] () (comp_view i hv q v)"
proof -
  let ?p = "comp_info (dcodec v) ! i"
  let ?p1 = "?p\<lparr>component_index := of_nat i, component_id := of_nat (i + 1)\<rparr>"
  from i(1) have three: "i = 0 \<or> i = 1 \<or> i = 2" by linarith
  have byte: "unat (of_nat i :: u8) = i" "unat (of_nat (i + 1) - 1 :: u8) = i"
    "\<not> (sint (of_nat (i + 1) - 1 :: u8) < 0 \<or> sint (of_nat (i + 1) - 1 :: u8) > 2)"
    "(of_nat i :: u8) = 0 \<longleftrightarrow> i = 0"
    using three by (elim disjE; simp)+
  have 1: "consumes v (set_component (of_nat i) (\<lambda>p. p\<lparr>component_index := of_nat i,
      component_id := of_nat (i + 1)\<rparr>)) [] () (comp_put i ?p1 v)"
    using consumes_set_component [OF byte(1) i(2), of ?p] by (simp add: comp_put_same)
  have 2: "consumes (comp_put i ?p1 v) (jbind get_char (\<lambda>c. set_component (of_nat i) (\<lambda>p.
         p\<lparr>h_samp_factor := drop_bit 4 c AND 0x0F, v_samp_factor := c AND 0x0F,
           MCU_width := if (of_nat i :: u8) = 0 then ucast (drop_bit 4 c AND 0x0F) else 1,
           MCU_height := if (of_nat i :: u8) = 0 then ucast (c AND 0x0F) else 1\<rparr>))) [hv] ()
      (comp_put i (sof_component i hv) v)"
    by (rule jbind_get_char, rule consumes_eq [OF consumes_set_component [OF byte(1) i(2)]])
      (simp_all add: sof_component_def byte(4) component_full)
  have 3: "consumes (comp_put i (sof_component i hv) v) (jbind get_char (\<lambda>c. jthen (jguard (\<not> c > 2))
         (set_tbl_map (unat (of_nat (i + 1) - 1 :: u8)) (\<lambda>t. t\<lparr>quant_tbl_id := ucast c\<rparr>)))) [q] ()
      (comp_view i hv q v)"
    unfolding byte(2) comp_view_def
    by (rule jbind_get_char, rule jthen_jguard, use q in simp, rule consumes_set_quant_id)
      (use i in \<open>simp add: comp_put_def\<close>)
  have "consumes v (jseq
      [set_component (of_nat i) (\<lambda>p. p\<lparr>component_index := of_nat i, component_id := of_nat (i + 1)\<rparr>),
       jguard (\<not> (sint (of_nat (i + 1) - 1 :: u8) < 0 \<or> sint (of_nat (i + 1) - 1 :: u8) > 2)),
       jbind get_char (\<lambda>c. set_component (of_nat i) (\<lambda>p.
         p\<lparr>h_samp_factor := drop_bit 4 c AND 0x0F, v_samp_factor := c AND 0x0F,
           MCU_width := if (of_nat i :: u8) = 0 then ucast (drop_bit 4 c AND 0x0F) else 1,
           MCU_height := if (of_nat i :: u8) = 0 then ucast (c AND 0x0F) else 1\<rparr>)),
       jbind get_char (\<lambda>c. jthen (jguard (\<not> c > 2))
         (set_tbl_map (unat (of_nat (i + 1) - 1 :: u8)) (\<lambda>t. t\<lparr>quant_tbl_id := ucast c\<rparr>)))])
      ([hv] @ [q] @ []) () (comp_view i hv q v)"
    by (rule jseq_Cons_nothing [OF 1], rule jseq_Cons_nothing [OF consumes_jguard [OF byte(3)]],
        rule jseq_Cons [OF 2], rule jseq_Cons [OF 3], rule jseq_Nil)
  then show ?thesis
    unfolding GetSOF_component_def Let_def by (intro jbind_get_char) simp
qed

definition sof_head_view :: "u16 \<Rightarrow> u16 \<Rightarrow> jdec \<Rightarrow> jdec" where
  "sof_head_view h w v = v\<lparr>input_progressive := False, input_height := ucast h, input_width := ucast w,
     s_used_extra_mem := s_used_extra_mem v + 48,
     dcodec := (dcodec v)\<lparr>num_components := 3, comp_info := replicate 3 zero_component\<rparr>\<rparr>"

lemma consumes_GetSOF_head:
  assumes "48 \<le> room v"
  shows "consumes v (GetSOF_head False) (be16 17 @ 8 # be16 h @ be16 w @ [3]) 3 (sof_head_view h w v)"
proof -
  let ?v1 = "v\<lparr>input_progressive := False, input_height := ucast h, input_width := ucast w\<rparr>"
  let ?v2 = "?v1\<lparr>dcodec := (dcodec ?v1)\<lparr>num_components := 3\<rparr>\<rparr>"
  let ?v3 = "?v2\<lparr>s_used_extra_mem := s_used_extra_mem ?v2 + 48\<rparr>"
  have prog: "consumes v (jmod (\<lambda>d. d\<lparr>input_progressive := False\<rparr>)) [] () (v\<lparr>input_progressive := False\<rparr>)"
    by (rule consumes_jmod) simp
  have size: "consumes (v\<lparr>input_progressive := False\<rparr>)
      (jmod (\<lambda>d. d\<lparr>input_height := ucast h, input_width := ucast w\<rparr>)) [] () ?v1"
    by (rule consumes_eq [OF consumes_jmod]) simp_all
  have num: "consumes ?v1 (set_codec (\<lambda>k. k\<lparr>num_components := 3\<rparr>)) [] () ?v2"
    by (rule set_codec_to) simp
  have "room ?v2 = room v" by (simp add: room_def)
  then have block: "consumes ?v2 (JpegDec_ExtraMemAlloc (ucast (3 :: u8) * 16)) [] (replicate 48 0) ?v3"
    using consumes_alloc [of 48 ?v2] assms by simp
  have info: "consumes ?v3 (set_codec (\<lambda>k. k\<lparr>comp_info :=
      replicate (length (replicate 48 (0 :: u8)) div 16) zero_component\<rparr>)) [] () (sof_head_view h w v)"
    by (rule set_codec_to) (simp add: sof_head_view_def)
  have len: "unat (17 :: u16) = unat (3 :: u8) * 3 + 8" "\<not> (17 :: u16) < 8" by simp_all
  show ?thesis
    unfolding GetSOF_head_def
    by (rule jthen_nothing [OF prog], rule jbind_get_short_word, rule jthen_jguard, rule len(2),
        rule jbind_get_char, rule jthen_jguard, simp, rule jbind_get_short_word,
        rule jbind_get_short_word, rule jthen_nothing [OF size], rule jbind_get_char,
        rule jthen_jguard, rule len(1), rule jthen_nothing [OF num], rule jbind_nothing [OF block],
        rule jthen_nothing [OF info], rule consumes_jret)
qed

lemma comp_view_fields [simp]:
  "comp_info (dcodec (comp_view i hv q v)) = (comp_info (dcodec v))[i := sof_component i hv]"
  "length (tbl_map (dcodec (comp_view i hv q v))) = length (tbl_map (dcodec v))"
  "num_components (dcodec (comp_view i hv q v)) = num_components (dcodec v)"
  by (simp_all add: comp_view_def comp_put_def quant_id_put_def)

definition sof_comps_view :: "u16 \<Rightarrow> u16 \<Rightarrow> (nat \<Rightarrow> u8) \<Rightarrow> (nat \<Rightarrow> u8) \<Rightarrow> jdec \<Rightarrow> jdec" where
  "sof_comps_view h w hv q v =
     comp_view 2 (hv 2) (q 2) (comp_view 1 (hv 1) (q 1) (comp_view 0 (hv 0) (q 0) (sof_head_view h w v)))"

lemma upt_3: "[0..<3] = [0, 1, 2::nat]"
  by (simp add: upt_rec)

lemma replicate_3: "replicate 3 x = [x, x, x]"
  by (simp add: eval_nat_numeral)

lemma consumes_components:
  assumes "length (tbl_map (dcodec v)) = 3" "\<forall>i < 3. q i \<le> 2"
  shows "consumes (sof_head_view h w v) (jfor [0..<3] (\<lambda>ci. GetSOF_component (of_nat ci)))
    (concat (map (\<lambda>i. [of_nat (i + 1), hv i, q i]) [0..<3])) () (sof_comps_view h w hv q v)"
proof -
  have fields: "comp_info (dcodec (sof_head_view h w v)) = replicate 3 zero_component"
    "length (tbl_map (dcodec (sof_head_view h w v))) = 3"
    using assms(1) by (simp_all add: sof_head_view_def)
  have "consumes (sof_head_view h w v) (GetSOF_component (of_nat 0)) [of_nat (0 + 1), hv 0, q 0] ()
      (comp_view 0 (hv 0) (q 0) (sof_head_view h w v))"
    by (rule parse_component) (use assms fields in simp_all)
  moreover have "consumes (comp_view 0 (hv 0) (q 0) (sof_head_view h w v)) (GetSOF_component (of_nat 1))
      [of_nat (1 + 1), hv 1, q 1] () (comp_view 1 (hv 1) (q 1) (comp_view 0 (hv 0) (q 0) (sof_head_view h w v)))"
    by (rule parse_component) (use assms fields in simp_all)
  moreover have "consumes (comp_view 1 (hv 1) (q 1) (comp_view 0 (hv 0) (q 0) (sof_head_view h w v)))
      (GetSOF_component (of_nat 2)) [of_nat (2 + 1), hv 2, q 2] () (sof_comps_view h w hv q v)"
    unfolding sof_comps_view_def by (rule parse_component) (use assms fields in simp_all)
  ultimately have "consumes (sof_head_view h w v) (jseq [GetSOF_component (of_nat 0),
      GetSOF_component (of_nat 1), GetSOF_component (of_nat 2)])
      ([of_nat (0 + 1), hv 0, q 0] @ [of_nat (1 + 1), hv 1, q 1] @ [of_nat (2 + 1), hv 2, q 2] @ [])
      () (sof_comps_view h w hv q v)"
    by (blast intro: jseq_Cons jseq_Nil)
  then show ?thesis by (simp add: upt_3 del: jseq.simps)
qed

text \<open>The sample format that belongs to the sampling byte of the first component.\<close>

definition format_of :: "u8 \<Rightarrow> u32 option" where
  "format_of hv = map_of [(0x11, JPEG_FW_YUV444), (0x21, JPEG_FW_YUV422), (0x41, JPEG_FW_YUV411),
     (0x14, JPEG_FW_YUV411_R), (0x22, JPEG_FW_YUV420), (0x12, JPEG_FW_YUV422_R)] hv"

lemma sampling_byte:
  "push_bit 4 (h_samp_factor (sof_component i hv)) OR v_samp_factor (sof_component i hv) = hv"
  unfolding sof_component_def component.simps by (rule nibbles)

lemma consumes_sampling:
  assumes "unat ci = i" "i < length (comp_info (dcodec v))" "comp_info (dcodec v) ! i = sof_component i hv"
  shows "consumes v (sampling ci) [] hv v"
proof -
  have "consumes v (get_component ci) [] (sof_component i hv) v"
    unfolding get_component_def assms(1)
    by (rule jthen_nothing [OF check_codec], rule assms)
      (use get_codec [of v "\<lambda>k. comp_info k ! i"] assms(3) in simp)
  then show ?thesis
    unfolding sampling_def
    by (rule jbind_nothing) (simp only: sampling_byte consumes_jret)
qed

definition sof_view :: "u16 \<Rightarrow> u16 \<Rightarrow> (nat \<Rightarrow> u8) \<Rightarrow> (nat \<Rightarrow> u8) \<Rightarrow> u32 \<Rightarrow> jdec \<Rightarrow> jdec" where
  "sof_view h w hv q fmt v = (sof_comps_view h w hv q v)\<lparr>mcu_info := fmt\<rparr>"

lemma consumes_set_format: "consumes v (jmod (\<lambda>d. d\<lparr>mcu_info := i\<rparr>)) [] () (v\<lparr>mcu_info := i\<rparr>)"
  by (rule consumes_jmod) simp

lemma consumes_GetSOF_format:
  assumes "format_of (hv 0) = Some fmt" "hv 1 = 0x11" "hv 2 = 0x11"
  shows "consumes (sof_comps_view h w hv q v) (GetSOF_format 3) [] () (sof_view h w hv q fmt v)"
proof -
  let ?v = "sof_comps_view h w hv q v"
  have info: "comp_info (dcodec ?v) = [sof_component 0 (hv 0), sof_component 1 (hv 1), sof_component 2 (hv 2)]"
    by (simp add: sof_comps_view_def sof_head_view_def replicate_3)
  have s0: "consumes ?v (sampling 0) [] (hv 0) ?v"
    by (rule consumes_sampling [of _ 0]) (simp_all add: info)
  have fields: "dcodec (sof_view h w hv q fmt v) = dcodec ?v"
    by (simp add: sof_view_def)
  have s1: "consumes (sof_view h w hv q fmt v) (sampling 1) [] 0x11 (sof_view h w hv q fmt v)"
    by (rule consumes_sampling [of _ 1]) (use assms in \<open>simp_all add: info fields\<close>)
  have s2: "consumes (sof_view h w hv q fmt v) (sampling 2) [] 0x11 (sof_view h w hv q fmt v)"
    by (rule consumes_sampling [of _ 2]) (use assms in \<open>simp_all add: info fields\<close>)
  let ?set = "\<lambda>i. jmod (\<lambda>d. d\<lparr>mcu_info := i\<rparr>) :: unit jreader"
  have fmt: "consumes ?v (if hv 0 = 0x11 then ?set JPEG_FW_YUV444
        else if hv 0 = 0x21 then ?set JPEG_FW_YUV422
        else if hv 0 = 0x41 then ?set JPEG_FW_YUV411
        else if hv 0 = 0x14 then ?set JPEG_FW_YUV411_R
        else if hv 0 = 0x22 then ?set JPEG_FW_YUV420
        else if hv 0 = 0x12 then ?set JPEG_FW_YUV422_R
        else jfail) [] () (sof_view h w hv q fmt v)"
    using assms(1) by (auto simp: format_of_def sof_view_def consumes_set_format split: if_splits)
  have check: "consumes (sof_view h w hv q fmt v) (jbind (sampling 1) (\<lambda>c. jguard (c = 0x11))) [] ()
      (sof_view h w hv q fmt v)"
    "consumes (sof_view h w hv q fmt v) (jbind (sampling 2) (\<lambda>c. jguard (c = 0x11))) [] ()
      (sof_view h w hv q fmt v)"
    by (rule jbind_nothing, rule s1 s2, rule consumes_jguard, simp)+
  have "\<not> (3 :: u8) = 1" "(3 :: u8) > 2" by simp_all
  then show ?thesis
    unfolding GetSOF_format_def Let_def
    by (intro jbind_nothing [OF s0]) (simp only: if_False if_True,
        blast intro: jseq_Cons_nothing jseq_Nil fmt check)
qed

lemma parse_SOF0:
  assumes "48 \<le> room v" "length (tbl_map (dcodec v)) = 3" "\<forall>i < 3. q i \<le> 2"
    and "format_of (hv 0) = Some fmt" "hv 1 = 0x11" "hv 2 = 0x11"
  shows "consumes v (process_marker M_SOF0) (be16 17 @ [8] @ be16 h @ be16 w @ [3]
     @ concat (map (\<lambda>i. [of_nat (i + 1), hv i, q i]) [0..<3])) () (sof_view h w hv q fmt v)"
proof -
  have "consumes (sof_head_view h w v) (jseq [jfor [0..<3] (\<lambda>ci. GetSOF_component (of_nat ci)),
      GetSOF_format 3]) (concat (map (\<lambda>i. [of_nat (i + 1), hv i, q i]) [0..<3]) @ []) ()
      (sof_view h w hv q fmt v)"
    by (rule jseq_Cons, rule consumes_components, rule assms, rule assms,
        rule jseq_Cons_nothing, rule consumes_GetSOF_format [OF assms(4-6)], rule jseq_Nil)
  moreover have "unat (3 :: u8) = 3" by simp
  ultimately have "consumes v (GetSOF False) ((be16 17 @ 8 # be16 h @ be16 w @ [3])
     @ concat (map (\<lambda>i. [of_nat (i + 1), hv i, q i]) [0..<3]) @ []) () (sof_view h w hv q fmt v)"
    unfolding GetSOF_def by (intro consumes_jbind [OF consumes_GetSOF_head [OF assms(1)]]) (simp only:)
  then show ?thesis by (simp add: process_marker_def marker_codes)
qed

subsection \<open>The scan header\<close>

text \<open>A frame with the components 1, 2 and 3 has been read.\<close>

definition frame_known :: "jdec \<Rightarrow> bool" where
  "frame_known v \<longleftrightarrow> num_components (dcodec v) = 3 \<and> length (tbl_map (dcodec v)) = 3
     \<and> length (comp_id_map (dcodec v)) = 3
     \<and> map component_id (comp_info (dcodec v)) = [1, 2, 3]"

definition id_put :: "nat \<Rightarrow> u8 \<Rightarrow> jdec \<Rightarrow> jdec" where
  "id_put i cc v = v\<lparr>dcodec := (dcodec v)\<lparr>comp_id_map := (comp_id_map (dcodec v))[i := cc]\<rparr>\<rparr>"

definition huff_ids_put :: "nat \<Rightarrow> u8 \<Rightarrow> jdec \<Rightarrow> jdec" where
  "huff_ids_put i x v = v\<lparr>dcodec := (dcodec v)\<lparr>tbl_map := (tbl_map (dcodec v))[i :=
     (tbl_map (dcodec v) ! i)\<lparr>dc_huff_tbl_id := drop_bit 4 x AND 0x0F, ac_huff_tbl_id := x AND 0x0F\<rparr>]\<rparr>\<rparr>"

definition sos_comp_view :: "nat \<Rightarrow> u8 \<Rightarrow> jdec \<Rightarrow> jdec" where
  "sos_comp_view i x v = id_put i (of_nat (i + 1)) (huff_ids_put i x v)"

lemma frame_known_put [simp]:
  "frame_known (id_put i cc v) = frame_known v" "frame_known (huff_ids_put i x v) = frame_known v"
  "frame_known (sos_comp_view i x v) = frame_known v"
  by (simp_all add: frame_known_def id_put_def huff_ids_put_def sos_comp_view_def)

lemma consumes_get_component:
  assumes "frame_known v" "j < 3"
  shows "consumes v (get_component (of_nat j)) [] (comp_info (dcodec v) ! j) v"
proof -
  have len: "length (comp_info (dcodec v)) = 3"
    using assms(1) by (auto simp: frame_known_def dest: arg_cong [where f = length])
  have j: "unat (of_nat j :: u8) = j"
    using assms(2) by (simp add: unsigned_of_nat take_bit_nat_eq_self)
  show ?thesis
    unfolding get_component_def j
    by (rule jthen_nothing [OF check_codec])
      (use assms(2) len get_codec [of v "\<lambda>k. comp_info k ! j"] in simp_all)
qed

lemma consumes_found:
  assumes "frame_known v" "j < 3" "component_id (comp_info (dcodec v) ! j) = cc" "i < 3"
  shows "consumes v (find_component cc i (j # js)) [] () (id_put i cc v)"
  unfolding find_component.simps
  by (rule jbind_nothing [OF consumes_get_component], rule assms, rule assms,
      simp only: assms(3) simp_thms if_True, rule jthen_nothing [OF check_codec],
      use assms in \<open>simp add: frame_known_def\<close>, rule set_codec_to)
    (simp add: id_put_def)

lemma consumes_not_found:
  assumes "frame_known v" "j < 3" "component_id (comp_info (dcodec v) ! j) \<noteq> cc"
    and "consumes v (find_component cc i js) [] () w"
  shows "consumes v (find_component cc i (j # js)) [] () w"
  unfolding find_component.simps
  by (rule jbind_nothing [OF consumes_get_component], rule assms, rule assms) (use assms(3,4) in auto)

lemma consumes_find_component:
  assumes v: "frame_known v" and i: "i < 3"
  shows "consumes v (find_component (of_nat (i + 1)) i [0..<3]) [] () (id_put i (of_nat (i + 1)) v)"
proof -
  obtain p0 p1 p2 where p: "comp_info (dcodec v) = [p0, p1, p2]" "component_id p0 = 1"
    "component_id p1 = 2" "component_id p2 = 3"
    using v by (auto simp: frame_known_def map_eq_Cons_conv)
  from i consider "i = 0" | "i = 1" | "i = 2" by linarith
  then show ?thesis
  proof cases
    case 1
    then show ?thesis unfolding upt_3 by (intro consumes_found v) (simp_all add: p)
  next
    case 2
    then show ?thesis unfolding upt_3
      by (intro consumes_not_found [of v 0] consumes_found v) (simp_all add: p)
  next
    case 3
    then show ?thesis unfolding upt_3
      by (intro consumes_not_found [of v 0] consumes_not_found [of v 1] consumes_found v) (simp_all add: p)
  qed
qed

lemma parse_scan_component:
  assumes v: "frame_known v" and i: "i < 3"
  shows "consumes v (GetSOS_component i) [of_nat (i + 1), x] () (sos_comp_view i x v)"
proof -
  have ids: "consumes v (set_tbl_map i (\<lambda>t. t\<lparr>dc_huff_tbl_id := drop_bit 4 x AND 0x0F,
      ac_huff_tbl_id := x AND 0x0F\<rparr>)) [] () (huff_ids_put i x v)"
    unfolding set_tbl_map_def
    by (rule jthen_nothing [OF check_codec], use v i in \<open>simp add: frame_known_def\<close>, rule set_codec_to)
      (simp add: huff_ids_put_def)
  have w: "frame_known (huff_ids_put i x v)" using v by simp
  have num: "consumes (huff_ids_put i x v) (jget (\<lambda>d. num_components (dcodec d))) [] 3 (huff_ids_put i x v)"
    using get_codec [of "huff_ids_put i x v" num_components] w by (simp add: frame_known_def)
  have "unat (3 :: u8) = 3" by simp
  then have find: "consumes (huff_ids_put i x v) (jbind (jget (\<lambda>d. num_components (dcodec d)))
      (\<lambda>n. find_component (of_nat (i + 1)) i [0..<unat n])) [] () (sos_comp_view i x v)"
    unfolding sos_comp_view_def
    by (intro jbind_nothing [OF num]) (simp only: consumes_find_component [OF w i])
  show ?thesis
    unfolding GetSOS_component_def
    by (intro jbind_get_char jseq_Cons_nothing [OF consumes_jguard] jseq_Cons_nothing [OF ids]
        jseq_Cons_nothing [OF find] jseq_Nil) (rule refl)
qed

lemma parse_scan_components:
  assumes "frame_known v"
  shows "consumes v (jfor [0..<3] GetSOS_component) (concat (map (\<lambda>i. [of_nat (i + 1), x i]) [0..<3])) ()
    (sos_comp_view 2 (x 2) (sos_comp_view 1 (x 1) (sos_comp_view 0 (x 0) v)))"
proof -
  have "consumes v (jfor [0..<3] GetSOS_component)
      ([of_nat (0 + 1), x 0] @ [of_nat (1 + 1), x 1] @ [of_nat (2 + 1), x 2] @ []) ()
      (sos_comp_view 2 (x 2) (sos_comp_view 1 (x 1) (sos_comp_view 0 (x 0) v)))"
    unfolding upt_3 list.map
    by (rule jseq_Cons [OF parse_scan_component], use assms in simp, simp,
        rule jseq_Cons [OF parse_scan_component], use assms in simp, simp,
        rule jseq_Cons [OF parse_scan_component], use assms in simp, simp, rule jseq_Nil)
  then show ?thesis by (simp add: upt_3 del: jseq.simps)
qed

definition sos_end :: "jdec \<Rightarrow> jdec" where
  "sos_end v = v\<lparr>dcodec := (dcodec v)\<lparr>Ss := 0, Se := 63, Ah := 0, Al := 0, next_restart_num := 0,
     input_scan_number := input_scan_number (dcodec v) + 1\<rparr>\<rparr>"

definition sos_view :: "(nat \<Rightarrow> u8) \<Rightarrow> jdec \<Rightarrow> jdec" where
  "sos_view x v = sos_end (sos_comp_view 2 (x 2) (sos_comp_view 1 (x 1) (sos_comp_view 0 (x 0)
     (v\<lparr>dcodec := (dcodec v)\<lparr>comps_in_scan := 3\<rparr>\<rparr>))))"

lemma parse_SOS:
  assumes v: "frame_known v"
  shows "consumes v GetSOS (be16 12 @ [3] @ concat (map (\<lambda>i. [of_nat (i + 1), x i]) [0..<3]) @ [0, 63, 0])
    () (sos_view x v)"
proof -
  let ?v0 = "v\<lparr>dcodec := (dcodec v)\<lparr>comps_in_scan := 3\<rparr>\<rparr>"
  let ?v3 = "sos_comp_view 2 (x 2) (sos_comp_view 1 (x 1) (sos_comp_view 0 (x 0) ?v0))"
  let ?comps = "concat (map (\<lambda>i. [of_nat (i + 1), x i]) [0..<3])"
  have "frame_known ?v0" using v by (simp add: frame_known_def)
  note loop = parse_scan_components [OF this, of x]
  have n: "unat (3 :: u8) = 3" "unat (12 - 3 :: u16) = 9" by simp_all
  let ?w1 = "?v3\<lparr>dcodec := (dcodec ?v3)\<lparr>Ss := 0, Se := 63\<rparr>\<rparr>"
  let ?w2 = "?w1\<lparr>dcodec := (dcodec ?w1)\<lparr>Ah := 0, Al := 0\<rparr>\<rparr>"
  have e1: "consumes ?v3 (jbind get_char (\<lambda>c. jbind get_char (\<lambda>cc.
      set_codec (\<lambda>k. k\<lparr>Ss := ucast c, Se := ucast cc\<rparr>)))) [0, 63] () ?w1"
    by (intro jbind_get_char set_codec_to) simp
  have e2: "consumes ?w1 (jbind get_char (\<lambda>c. set_codec (\<lambda>k.
      k\<lparr>Ah := ucast (drop_bit 4 c AND 15), Al := ucast (c AND 15)\<rparr>))) [0] () ?w2"
    by (intro jbind_get_char set_codec_to) simp
  have e3: "consumes ?w2 (set_codec (\<lambda>k. k\<lparr>next_restart_num := 0,
      input_scan_number := input_scan_number k + 1\<rparr>)) [] () (sos_view x v)"
    by (intro set_codec_to) (simp add: sos_view_def sos_end_def)
  have num: "consumes v (set_codec (\<lambda>k. k\<lparr>comps_in_scan := 3\<rparr>)) [] () ?v0"
    by (rule set_codec_to) simp
  have guard: "unat (12 - 3 :: u16) = unat (3 :: u8) * 2 + 3" by (simp only: n)
  have "consumes v (jseq
      [jguard (unat (12 - 3 :: u16) = unat (3 :: u8) * 2 + 3),
       set_codec (\<lambda>k. k\<lparr>comps_in_scan := 3\<rparr>),
       jfor [0..<unat (3 :: u8)] GetSOS_component,
       jbind get_char (\<lambda>c. jbind get_char (\<lambda>cc.
         set_codec (\<lambda>k. k\<lparr>Ss := ucast c, Se := ucast cc\<rparr>))),
       jbind get_char (\<lambda>c. set_codec (\<lambda>k.
         k\<lparr>Ah := ucast (drop_bit 4 c AND 15), Al := ucast (c AND 15)\<rparr>)),
       set_codec (\<lambda>k. k\<lparr>next_restart_num := 0, input_scan_number := input_scan_number k + 1\<rparr>)])
    (?comps @ [0, 63] @ [0] @ [])
    () (sos_view x v)"
    unfolding n(1)
    by (rule jseq_Cons_nothing [OF consumes_jguard], simp, rule jseq_Cons_nothing [OF num], rule jseq_Cons [OF loop], rule jseq_Cons [OF e1],
        rule jseq_Cons [OF e2], rule jseq_Cons_nothing [OF e3], rule jseq_Nil)
  then show ?thesis
    unfolding GetSOS_def
    by (intro jbind_get_short_word jthen_jguard) (simp_all add: jbind_get_char del: jseq.simps upt.simps)
qed

end
