(* ===== verification/JpegHeader.thy ===== *)
theory JpegHeader
  imports JpegSegments
begin

text \<open>
  The header writer and the header parser together: the round trip of a whole header, and the
  marker scan against its specification.
\<close>

subsection \<open>The whole header\<close>

text \<open>The codec records whose header the parser understands: full tables, at most twelve DC symbols,
  the quantization tables that it has a place for, and sampling factors of a known format.\<close>

definition sampling_of :: "jpeg_codec \<Rightarrow> nat \<Rightarrow> u8" where
  "sampling_of c i = push_bit 4 (h_ratio (ratio c ! i)) OR v_ratio (ratio c ! i)"

definition quant_id_of :: "jpeg_codec \<Rightarrow> nat \<Rightarrow> u8" where
  "quant_id_of c i = ucast (quant_tbl_id (tbl_map c ! i))"

definition huff_ids_of :: "jpeg_codec \<Rightarrow> nat \<Rightarrow> u8" where
  "huff_ids_of c i = push_bit 4 (dc_huff_tbl_id (tbl_map c ! i)) OR ac_huff_tbl_id (tbl_map c ! i)"

definition header_ok :: "jpeg_codec \<Rightarrow> u32 \<Rightarrow> bool" where
  "header_ok c fmt \<longleftrightarrow> tables_ok c
     \<and> symbols (dc_huff_tbl c ! 0) \<le> 12 \<and> symbols (dc_huff_tbl c ! 1) \<le> 12
     \<and> (\<forall>i < 3. quant_id_of c i \<le> 2)
     \<and> format_of (sampling_of c 0) = Some fmt \<and> sampling_of c 1 = 0x11 \<and> sampling_of c 2 = 0x11"

text \<open>A decoder that has not parsed anything and has enough memory for the tables.\<close>

definition parse_ready :: "jdec \<Rightarrow> bool" where
  "parse_ready v \<longleftrightarrow> \<not> g_huff_tbl_malloced v \<and> 2416 \<le> room v
     \<and> length (dc_huff_tbl (dcodec v)) = 4 \<and> length (ac_huff_tbl (dcodec v)) = 4
     \<and> length (quant_tbl (dcodec v)) = 3 \<and> length (tbl_map (dcodec v)) = 3
     \<and> length (comp_id_map (dcodec v)) = 3"

definition dht_views :: "jpeg_codec \<Rightarrow> jdec \<Rightarrow> jdec" where
  "dht_views c v = dht_view True 1 (ac_huff_tbl c ! 1) (dht_view False 1 (dc_huff_tbl c ! 1)
     (dht_view True 0 (ac_huff_tbl c ! 0) (dht_view False 0 (dc_huff_tbl c ! 0) v)))"

definition frame_view :: "jpeg_codec \<Rightarrow> u32 \<Rightarrow> jdec \<Rightarrow> jdec" where
  "frame_view c fmt v = sof_view (height c) (width c) (sampling_of c) (quant_id_of c) fmt
     (dqt_view 1 (quant_tbl c ! 1) (dqt_view 0 (quant_tbl c ! 0) v))"

definition dri_views :: "jpeg_codec \<Rightarrow> jdec \<Rightarrow> jdec" where
  "dri_views c v = (if restart_interval c \<noteq> 0 then dri_view (ucast (restart_interval c)) v else v)"

definition header_view :: "jpeg_codec \<Rightarrow> u32 \<Rightarrow> jdec \<Rightarrow> jdec" where
  "header_view c fmt v = sos_view (huff_ids_of c) (dri_views c (dht_views c (frame_view c fmt v)))"

lemma room_dqt_view: "64 \<le> room v \<Longrightarrow> room (dqt_view n q v) = room v - 64"
  using room_alloc [of 64 v] by (simp add: dqt_view_def)

lemma dqt_view_lengths [simp]:
  "length (quant_tbl (dcodec (dqt_view n q v))) = length (quant_tbl (dcodec v))"
  "length (tbl_map (dcodec (dqt_view n q v))) = length (tbl_map (dcodec v))"
  "length (comp_id_map (dcodec (dqt_view n q v))) = length (comp_id_map (dcodec v))"
  "g_huff_tbl_malloced (dqt_view n q v) = g_huff_tbl_malloced v"
  by (simp_all add: dqt_view_def)

lemma sof_view_fields [simp]:
  "dc_huff_tbl (dcodec (sof_view h w hv q fmt v)) = dc_huff_tbl (dcodec v)"
  "ac_huff_tbl (dcodec (sof_view h w hv q fmt v)) = ac_huff_tbl (dcodec v)"
  "length (tbl_map (dcodec (sof_view h w hv q fmt v))) = length (tbl_map (dcodec v))"
  "g_huff_tbl_malloced (sof_view h w hv q fmt v) = g_huff_tbl_malloced v"
  by (simp_all add: sof_view_def sof_comps_view_def comp_view_def comp_put_def quant_id_put_def
      sof_head_view_def)

lemma room_sof_view: "48 \<le> room v \<Longrightarrow> room (sof_view h w hv q fmt v) = room v - 48"
  using room_alloc [of 48 v]
  by (simp add: sof_view_def sof_comps_view_def comp_view_def comp_put_def quant_id_put_def
      sof_head_view_def room_def)

lemma frame_known_sof_view:
  assumes "length (tbl_map (dcodec v)) = 3" "length (comp_id_map (dcodec v)) = 3"
  shows "frame_known (sof_view h w hv q fmt v)"
  using assms
  by (simp add: frame_known_def sof_view_def sof_comps_view_def comp_view_def comp_put_def
      quant_id_put_def sof_head_view_def replicate_3 sof_component_def)

lemma frame_known_dht_view [simp]: "frame_known (dht_view ac n t v) = frame_known v"
  by (simp add: dht_view_def huff_view_def huff_put_def malloc_view_def put_tables_def frame_known_def Let_def)

lemma frame_known_dri_views [simp]: "frame_known (dri_views c v) = frame_known v"
  by (simp add: dri_views_def dri_view_def frame_known_def)

lemma tables_allocated_dht_view:
  assumes v: "tables_allocated v" and n: "n < 4" and t: "huff_ok t"
  shows "tables_allocated (dht_view ac n t v)"
proof -
  let ?w = "malloc_view v"
  let ?p = "parsed_huff (huff_tbls ac (dcodec ?w) ! n) t"
  have p: "length (hbits ?p) = 17" "length (huffval ?p) = 257"
    using malloc_view_allocated [OF v n, of ac] t by (simp_all add: parsed_huff_def huff_ok_def)
  have w: "length (dc_huff_tbl (dcodec ?w)) = 4" "length (ac_huff_tbl (dcodec ?w)) = 4"
    "g_huff_tbl_malloced ?w"
    "\<forall>t \<in> set (dc_huff_tbl (dcodec ?w)) \<union> set (ac_huff_tbl (dcodec ?w)).
       length (hbits t) = 17 \<and> length (huffval t) = 257"
    using v by (auto simp: tables_allocated_def malloc_view_def fresh_huff_def put_tables_def)
  show ?thesis
    using w p n
    by (cases ac) (auto simp: tables_allocated_def dht_view_def Let_def huff_view_def huff_put_def
        dest!: set_update_subset_insert [THEN subsetD])
qed

lemma segment_step:
  assumes "m \<in> {M_APP0, M_DQT, M_SOF0, M_DHT, M_DRI}"
    and "consumes v (process_marker m) xs () w" "consumes w ProcessTables ys c u"
    and "zs = [0xFF, m] @ xs @ ys"
  shows "consumes v ProcessTables zs c u"
  unfolding assms(4)
  by (rule ProcessTables_segment) (use assms in \<open>auto simp: marker_codes\<close>)

lemma consumes_dht_segment:
  assumes "tables_allocated v" "huff_ok t" "n < 2" "ac \<or> symbols t \<le> 12"
    and "idx = (if ac then 0x10 else 0) + of_nat n"
    and "consumes (dht_view ac n t v) ProcessTables ys c u"
  shows "consumes v ProcessTables (dht_segment idx t @ ys) c u"
proof (rule segment_step [OF _ parse_DHT assms(6)])
  from assms(3) have n: "n = 0 \<or> n = 1" by linarith
  show "(idx AND 0x13) AND 0x10 \<noteq> 0 \<longleftrightarrow> ac"
    "unat (if ac then (idx AND 0x13) - 0x10 else idx AND 0x13) = n"
    unfolding assms(5) using n by (cases ac; auto)+
  show "symbols t \<le> length (default_huffval ac n)"
    using assms(2,4) by (auto simp: default_huffval_def huff_ok_def)
  show "dht_segment idx t @ ys = [0xFF, M_DHT] @ (be16 (19 + symbol_count (hbits t)) @ [idx]
     @ map ((!) (hbits t)) [1..<17] @ take (symbols t) (huffval t)) @ ys"
    by (simp add: dht_segment_def)
qed (use assms in simp_all)

lemma consumes_dht_segments:
  assumes c: "header_ok c fmt" and v: "tables_allocated v"
    and rest: "consumes (dht_views c v) ProcessTables ys r u"
  shows "consumes v ProcessTables (dht_segments c @ ys) r u"
proof -
  have t: "huff_ok (dc_huff_tbl c ! 0)" "huff_ok (ac_huff_tbl c ! 0)" "huff_ok (dc_huff_tbl c ! 1)"
    "huff_ok (ac_huff_tbl c ! 1)" "symbols (dc_huff_tbl c ! 0) \<le> 12" "symbols (dc_huff_tbl c ! 1) \<le> 12"
    using c by (simp_all only: header_ok_def tables_ok_def)
  let ?v1 = "dht_view False 0 (dc_huff_tbl c ! 0) v"
  let ?v2 = "dht_view True 0 (ac_huff_tbl c ! 0) ?v1"
  let ?v3 = "dht_view False 1 (dc_huff_tbl c ! 1) ?v2"
  have a1: "tables_allocated ?v1" by (rule tables_allocated_dht_view [OF v _ t(1)]) simp
  have a2: "tables_allocated ?v2" by (rule tables_allocated_dht_view [OF a1 _ t(2)]) simp
  have a3: "tables_allocated ?v3" by (rule tables_allocated_dht_view [OF a2 _ t(3)]) simp
  have "consumes ?v3 ProcessTables (dht_segment 0x11 (ac_huff_tbl c ! 1) @ ys) r u"
    by (rule consumes_dht_segment [OF a3 t(4)]) (use rest in \<open>simp_all add: dht_views_def\<close>)
  then have "consumes ?v2 ProcessTables (dht_segment 0x01 (dc_huff_tbl c ! 1)
      @ dht_segment 0x11 (ac_huff_tbl c ! 1) @ ys) r u"
    by (intro consumes_dht_segment [OF a2 t(3)]) (use t(6) in simp_all)
  then have "consumes ?v1 ProcessTables (dht_segment 0x10 (ac_huff_tbl c ! 0)
      @ dht_segment 0x01 (dc_huff_tbl c ! 1) @ dht_segment 0x11 (ac_huff_tbl c ! 1) @ ys) r u"
    by (intro consumes_dht_segment [OF a1 t(2)]) simp_all
  then have "consumes v ProcessTables (dht_segment 0x00 (dc_huff_tbl c ! 0)
      @ dht_segment 0x10 (ac_huff_tbl c ! 0) @ dht_segment 0x01 (dc_huff_tbl c ! 1)
      @ dht_segment 0x11 (ac_huff_tbl c ! 1) @ ys) r u"
    by (intro consumes_dht_segment [OF v t(1)]) (use t(5) in simp_all)
  then show ?thesis by (simp add: dht_segments_def)
qed

lemma consumes_dri_segment:
  assumes "consumes (dri_views c v) ProcessTables ys r u"
  shows "consumes v ProcessTables (dri_segment c @ ys) r u"
proof (cases "restart_interval c = 0")
  case False
  have "consumes v ProcessTables ([0xFF, M_DRI] @ (be16 4 @ be16 (ucast (restart_interval c))) @ ys) r u"
    by (rule segment_step [OF _ parse_DRI _ refl]) (use assms False in \<open>simp_all add: dri_views_def\<close>)
  with False show ?thesis by (simp add: dri_segment_def)
qed (use assms in \<open>simp add: dri_segment_def dri_views_def\<close>)

lemma component_bytes:
  "sof0_component c = (\<lambda>i. [of_nat (i + 1), sampling_of c i, quant_id_of c i])"
  "sos_component c = (\<lambda>i. [of_nat (i + 1), huff_ids_of c i])"
  by (rule ext, simp add: sof0_component_def sampling_of_def quant_id_of_def sos_component_def
      huff_ids_of_def)+

lemma consumes_image_tables:
  assumes c: "header_ok c fmt" and v: "parse_ready v"
  shows "consumes v ProcessTables (dqt_segment c 0 @ dqt_segment c 1 @ sof0_segment c
    @ dht_segments c @ dri_segment c @ [0xFF, M_SOS]) M_SOS (dri_views c (dht_views c (frame_view c fmt v)))"
proof -
  let ?v1 = "dqt_view 0 (quant_tbl c ! 0) v"
  let ?v2 = "dqt_view 1 (quant_tbl c ! 1) ?v1"
  let ?v3 = "frame_view c fmt v"
  have q: "length (quant_tbl c ! 0) = 64" "length (quant_tbl c ! 1) = 64"
    using c unfolding header_ok_def tables_ok_def quant_ok_def by blast+
  have r1: "2416 \<le> room v" using v by (simp add: parse_ready_def)
  have r2: "room ?v1 = room v - 64" by (rule room_dqt_view) (use r1 in simp)
  have "room ?v2 = room ?v1 - 64" by (rule room_dqt_view) (use r1 r2 in simp)
  with r1 r2 have r: "2416 \<le> room v" "room ?v1 = room v - 64" "room ?v2 = room v - 128" by simp_all
  have alloc: "tables_allocated ?v3"
    using v r room_sof_view [of ?v2]
    by (simp add: tables_allocated_def parse_ready_def frame_view_def dqt_view_def)
  have "consumes (dri_views c (dht_views c ?v3)) ProcessTables [0xFF, M_SOS] M_SOS
      (dri_views c (dht_views c ?v3))" by (rule ProcessTables_SOS)
  note tail = consumes_dht_segments [OF c alloc consumes_dri_segment [OF this]]
  have "consumes ?v2 (process_marker M_SOF0) (be16 17 @ [8] @ be16 (height c) @ be16 (width c) @ [3]
     @ concat (map (\<lambda>i. [of_nat (i + 1), sampling_of c i, quant_id_of c i]) [0..<3])) () ?v3"
    unfolding frame_view_def
    by (rule parse_SOF0) (use c v r in \<open>simp_all add: header_ok_def parse_ready_def\<close>)
  from segment_step [OF _ this tail refl]
  have sof: "consumes ?v2 ProcessTables (sof0_segment c @ dht_segments c @ dri_segment c @ [0xFF, M_SOS])
      M_SOS (dri_views c (dht_views c ?v3))"
    by (simp add: sof0_segment_def component_bytes)
  have dqt1: "consumes ?v1 (process_marker M_DQT) (be16 67 @ [of_nat 1] @ map ((!) (quant_tbl c ! 1)) zigzag)
      () ?v2" by (rule parse_DQT) (use v q r in \<open>simp_all add: parse_ready_def\<close>)
  have dqt0: "consumes v (process_marker M_DQT) (be16 67 @ [of_nat 0] @ map ((!) (quant_tbl c ! 0)) zigzag)
      () ?v1" by (rule parse_DQT) (use v q r in \<open>simp_all add: parse_ready_def\<close>)
  from segment_step [OF _ dqt1 sof refl]
  have "consumes ?v1 ProcessTables (dqt_segment c 1 @ sof0_segment c @ dht_segments c @ dri_segment c
      @ [0xFF, M_SOS]) M_SOS (dri_views c (dht_views c ?v3))" by (simp add: dqt_segment_def)
  from segment_step [OF _ dqt0 this refl] show ?thesis by (simp add: dqt_segment_def)
qed

text \<open>An application segment in front of the tables, which the parser skips.\<close>

definition skipped :: "bytes \<Rightarrow> bool" where
  "skipped seg \<longleftrightarrow> (\<forall>v ys c u. consumes v ProcessTables ys c u \<longrightarrow> consumes v ProcessTables (seg @ ys) c u)"

lemma skipped_APP0: "skipped app0_segment"
  unfolding skipped_def
proof (intro allI impI)
  fix v u :: jdec and ys :: bytes and c :: u8
  assume "consumes v ProcessTables ys c u"
  from segment_step [OF _ parse_APP0 this refl]
  show "consumes v ProcessTables (app0_segment @ ys) c u" by (simp add: app0_segment_def)
qed

definition image_bytes :: "jpeg_codec \<Rightarrow> bytes" where
  "image_bytes c = dqt_segment c 0 @ dqt_segment c 1 @ sof0_segment c @ dht_segments c @ dri_segment c
     @ sos_segment c"

lemma parse_header_behind:
  assumes c: "header_ok c fmt" and v: "parse_ready v" and seg: "skipped seg"
  shows "consumes v ParseHead ([0xFF, M_SOI] @ seg @ image_bytes c) () (header_view c fmt v)"
proof -
  let ?w = "dri_views c (dht_views c (frame_view c fmt v))"
  have "frame_known ?w"
    using v unfolding dht_views_def frame_view_def
    by (simp add: parse_ready_def frame_known_sof_view)
  from parse_SOS [OF this, of "huff_ids_of c"]
  have sos: "consumes ?w GetSOS (drop 2 (sos_segment c)) () (header_view c fmt v)"
    by (simp add: header_view_def sos_segment_def component_bytes)
  have "consumes v ProcessTables (seg @ dqt_segment c 0 @ dqt_segment c 1 @ sof0_segment c @ dht_segments c
      @ dri_segment c @ [0xFF, M_SOS]) M_SOS ?w"
    using seg consumes_image_tables [OF c v] unfolding skipped_def by blast
  then have "consumes v (jbind ProcessTables (\<lambda>m. if m = M_SOS then GetSOS else jfail))
      ((seg @ dqt_segment c 0 @ dqt_segment c 1 @ sof0_segment c @ dht_segments c
        @ dri_segment c @ [0xFF, M_SOS]) @ drop 2 (sos_segment c)) () (header_view c fmt v)"
    by (rule consumes_jbind) (use sos in simp)
  from consumes_jthen [OF consumes_find_SOI this] show ?thesis
    by (simp add: ParseHead_def image_bytes_def sos_segment_def)
qed

lemma header_bytes_APP0: "header_bytes c = [0xFF, M_SOI] @ app0_segment @ image_bytes c"
  by (simp add: header_bytes_def image_bytes_def)

lemma parse_header:
  "header_ok c fmt \<Longrightarrow> parse_ready v \<Longrightarrow> consumes v ParseHead (header_bytes c) () (header_view c fmt v)"
  unfolding header_bytes_APP0 by (rule parse_header_behind [OF _ _ skipped_APP0])

subsection \<open>The round trip\<close>

text \<open>The counts and the symbols of a table.\<close>

definition same_huff :: "huff_tbl \<Rightarrow> huff_tbl \<Rightarrow> bool" where
  "same_huff t t' \<longleftrightarrow> (\<forall>i \<in> {1..<17}. hbits t' ! i = hbits t ! i)
     \<and> take (symbols t) (huffval t') = take (symbols t) (huffval t)"

text \<open>The decoder state \<^term>\<open>w\<close>, reached from \<^term>\<open>v\<close>, describes the image of the codec record
  \<^term>\<open>c\<close>: size and format, the tables, and for each component the tables it uses.\<close>

definition describes :: "jpeg_codec \<Rightarrow> u32 \<Rightarrow> jdec \<Rightarrow> jdec \<Rightarrow> bool" where
  "describes c fmt v w \<longleftrightarrow>
     input_width w = ucast (width c) \<and> input_height w = ucast (height c) \<and> mcu_info w = fmt
   \<and> num_components (dcodec w) = 3 \<and> comps_in_scan (dcodec w) = 3
   \<and> (\<forall>n < 2. quant_tbl (dcodec w) ! n = quant_tbl c ! n
        \<and> same_huff (dc_huff_tbl c ! n) (dc_huff_tbl (dcodec w) ! n)
        \<and> same_huff (ac_huff_tbl c ! n) (ac_huff_tbl (dcodec w) ! n))
   \<and> (using_default_huff_tab (dcodec w) \<longleftrightarrow> using_default_huff_tab (dcodec v)
        \<and> (\<forall>n < 2. is_default False n (dc_huff_tbl c ! n) \<and> is_default True n (ac_huff_tbl c ! n)))
   \<and> (\<forall>i < 3. quant_tbl_id (tbl_map (dcodec w) ! i) = ucast (quant_id_of c i)
        \<and> dc_huff_tbl_id (tbl_map (dcodec w) ! i) = drop_bit 4 (huff_ids_of c i) AND 0x0F
        \<and> ac_huff_tbl_id (tbl_map (dcodec w) ! i) = huff_ids_of c i AND 0x0F)
   \<and> restart_interval (dcodec w) = (if restart_interval c \<noteq> 0
        then ucast (ucast (restart_interval c) :: u16) else restart_interval (dcodec v))"

lemma huff_tables_after:
  "dc_huff_tbl (dcodec (dht_view False n t v)) =
      (dc_huff_tbl (dcodec (malloc_view v)))[n := parsed_huff (dc_huff_tbl (dcodec (malloc_view v)) ! n) t]"
    "ac_huff_tbl (dcodec (dht_view False n t v)) = ac_huff_tbl (dcodec (malloc_view v))"
    "ac_huff_tbl (dcodec (dht_view True n t v)) =
      (ac_huff_tbl (dcodec (malloc_view v)))[n := parsed_huff (ac_huff_tbl (dcodec (malloc_view v)) ! n) t]"
    "dc_huff_tbl (dcodec (dht_view True n t v)) = dc_huff_tbl (dcodec (malloc_view v))"
  by (simp_all add: dht_view_def Let_def huff_view_def huff_put_def huff_tbls_def)

lemma malloc_view_dht [simp]: "malloc_view (dht_view ac n t v) = dht_view ac n t v"
  by (simp add: malloc_view_def dht_view_def Let_def huff_view_def)

lemma same_huff_parsed:
  assumes "huff_ok t"
  shows "same_huff t (parsed_huff old t)"
  using assms by (auto simp: same_huff_def parsed_huff_def huff_ok_def nth_Cons' simp del: upt.simps)

lemma dht_views_tables:
  "dc_huff_tbl (dcodec (dht_views c v)) =
      (dc_huff_tbl (dcodec (malloc_view v)))[0 := parsed_huff (dc_huff_tbl (dcodec (malloc_view v)) ! 0) (dc_huff_tbl c ! 0),
        1 := parsed_huff (dc_huff_tbl (dcodec (malloc_view v)) ! 1) (dc_huff_tbl c ! 1)]"
    "ac_huff_tbl (dcodec (dht_views c v)) =
      (ac_huff_tbl (dcodec (malloc_view v)))[0 := parsed_huff (ac_huff_tbl (dcodec (malloc_view v)) ! 0) (ac_huff_tbl c ! 0),
        1 := parsed_huff (ac_huff_tbl (dcodec (malloc_view v)) ! 1) (ac_huff_tbl c ! 1)]"
  unfolding dht_views_def by (simp_all add: huff_tables_after)

lemma dht_views_fields [simp]:
  "input_width (dht_views c v) = input_width v" "input_height (dht_views c v) = input_height v"
  "mcu_info (dht_views c v) = mcu_info v" "num_components (dcodec (dht_views c v)) = num_components (dcodec v)"
  "quant_tbl (dcodec (dht_views c v)) = quant_tbl (dcodec v)"
  "tbl_map (dcodec (dht_views c v)) = tbl_map (dcodec v)"
  "restart_interval (dcodec (dht_views c v)) = restart_interval (dcodec v)"
  by (simp_all add: dht_views_def dht_view_def Let_def huff_view_def huff_put_def malloc_view_def
      put_tables_def)

lemma dht_views_default:
  "using_default_huff_tab (dcodec (dht_views c v)) \<longleftrightarrow> using_default_huff_tab (dcodec v)
     \<and> (\<forall>n < 2. is_default False n (dc_huff_tbl c ! n) \<and> is_default True n (ac_huff_tbl c ! n))"
proof -
  have one: "using_default_huff_tab (dcodec (dht_view ac n t v)) \<longleftrightarrow>
      using_default_huff_tab (dcodec v) \<and> is_default ac n t" for ac n t v
    by (simp add: dht_view_def Let_def huff_view_def huff_put_def malloc_view_def put_tables_def)
  show ?thesis by (auto simp: dht_views_def one less_2_cases_iff)
qed

lemma dri_views_fields [simp]:
  "input_width (dri_views c v) = input_width v" "input_height (dri_views c v) = input_height v"
  "mcu_info (dri_views c v) = mcu_info v" "num_components (dcodec (dri_views c v)) = num_components (dcodec v)"
  "quant_tbl (dcodec (dri_views c v)) = quant_tbl (dcodec v)"
  "tbl_map (dcodec (dri_views c v)) = tbl_map (dcodec v)"
  "dc_huff_tbl (dcodec (dri_views c v)) = dc_huff_tbl (dcodec v)"
  "ac_huff_tbl (dcodec (dri_views c v)) = ac_huff_tbl (dcodec v)"
  "using_default_huff_tab (dcodec (dri_views c v)) = using_default_huff_tab (dcodec v)"
  by (simp_all add: dri_views_def dri_view_def)

lemma sos_view_fields [simp]:
  "input_width (sos_view x v) = input_width v" "input_height (sos_view x v) = input_height v"
  "mcu_info (sos_view x v) = mcu_info v" "num_components (dcodec (sos_view x v)) = num_components (dcodec v)"
  "comps_in_scan (dcodec (sos_view x v)) = 3"
  "quant_tbl (dcodec (sos_view x v)) = quant_tbl (dcodec v)"
  "dc_huff_tbl (dcodec (sos_view x v)) = dc_huff_tbl (dcodec v)"
  "ac_huff_tbl (dcodec (sos_view x v)) = ac_huff_tbl (dcodec v)"
  "using_default_huff_tab (dcodec (sos_view x v)) = using_default_huff_tab (dcodec v)"
  "restart_interval (dcodec (sos_view x v)) = restart_interval (dcodec v)"
  by (simp_all add: sos_view_def sos_end_def sos_comp_view_def id_put_def huff_ids_put_def)

lemma frame_view_fields [simp]:
  "input_width (frame_view c fmt v) = ucast (width c)"
  "input_height (frame_view c fmt v) = ucast (height c)"
  "mcu_info (frame_view c fmt v) = fmt" "num_components (dcodec (frame_view c fmt v)) = 3"
  "quant_tbl (dcodec (frame_view c fmt v)) =
     (quant_tbl (dcodec v))[0 := quant_tbl c ! 0, 1 := quant_tbl c ! 1]"
  "using_default_huff_tab (dcodec (frame_view c fmt v)) = using_default_huff_tab (dcodec v)"
  "restart_interval (dcodec (frame_view c fmt v)) = restart_interval (dcodec v)"
  "g_huff_tbl_malloced (frame_view c fmt v) = g_huff_tbl_malloced v"
  by (simp_all add: frame_view_def sof_view_def sof_comps_view_def comp_view_def comp_put_def
      quant_id_put_def sof_head_view_def dqt_view_def)

lemma tbl_map_after:
  assumes "length (tbl_map (dcodec v)) = 3" "i < 3"
  shows "quant_tbl_id (tbl_map (dcodec (frame_view c fmt v)) ! i) = ucast (quant_id_of c i)"
    and "quant_tbl_id (tbl_map (dcodec (sos_view x v)) ! i) = quant_tbl_id (tbl_map (dcodec v) ! i)"
    and "dc_huff_tbl_id (tbl_map (dcodec (sos_view x v)) ! i) = drop_bit 4 (x i) AND 0x0F"
    and "ac_huff_tbl_id (tbl_map (dcodec (sos_view x v)) ! i) = x i AND 0x0F"
  using assms
  by (auto simp: frame_view_def sof_view_def sof_comps_view_def comp_view_def comp_put_def
      quant_id_put_def sof_head_view_def dqt_view_def sos_view_def sos_end_def sos_comp_view_def
      id_put_def huff_ids_put_def less_3)

lemma describes_header_view:
  assumes c: "header_ok c fmt" and v: "parse_ready v"
  shows "describes c fmt v (header_view c fmt v)"
proof -
  let ?f = "frame_view c fmt v"
  have f: "length (tbl_map (dcodec ?f)) = 3" "\<not> g_huff_tbl_malloced ?f"
    using v by (simp_all add: parse_ready_def frame_view_def)
  have tabs: "length (dc_huff_tbl (dcodec (malloc_view ?f))) = 4"
    "length (ac_huff_tbl (dcodec (malloc_view ?f))) = 4"
    using f(2) by (simp_all add: malloc_view_def put_tables_def)
  have ok: "huff_ok (dc_huff_tbl c ! 0)" "huff_ok (ac_huff_tbl c ! 0)" "huff_ok (dc_huff_tbl c ! 1)"
    "huff_ok (ac_huff_tbl c ! 1)"
    using c by (simp_all only: header_ok_def tables_ok_def)
  have "length (quant_tbl (dcodec v)) = 3" using v by (simp add: parse_ready_def)
  then have tables: "\<forall>n < 2. quant_tbl (dcodec (header_view c fmt v)) ! n = quant_tbl c ! n
        \<and> same_huff (dc_huff_tbl c ! n) (dc_huff_tbl (dcodec (header_view c fmt v)) ! n)
        \<and> same_huff (ac_huff_tbl c ! n) (ac_huff_tbl (dcodec (header_view c fmt v)) ! n)"
    using tabs ok
    by (auto simp: header_view_def dht_views_tables less_2_cases_iff same_huff_parsed)
  have g: "length (tbl_map (dcodec (dri_views c (dht_views c ?f)))) = 3" using f(1) by simp
  have ids: "\<forall>i < 3. quant_tbl_id (tbl_map (dcodec (header_view c fmt v)) ! i) = ucast (quant_id_of c i)
        \<and> dc_huff_tbl_id (tbl_map (dcodec (header_view c fmt v)) ! i) = drop_bit 4 (huff_ids_of c i) AND 0x0F
        \<and> ac_huff_tbl_id (tbl_map (dcodec (header_view c fmt v)) ! i) = huff_ids_of c i AND 0x0F"
    using v by (simp add: header_view_def tbl_map_after [OF g] tbl_map_after(1) parse_ready_def)
  have rst: "restart_interval (dcodec (header_view c fmt v)) = (if restart_interval c \<noteq> 0
        then ucast (ucast (restart_interval c) :: u16) else restart_interval (dcodec v))"
    by (simp add: header_view_def dri_views_def dri_view_def)
  show ?thesis
    unfolding describes_def
    using tables ids rst by (simp add: header_view_def dht_views_default)
qed

text \<open>A header written without a timeout is parsed, and the parser has the image of the record.\<close>

lemma bytes_parse:
  assumes "header_ok c fmt" "skipped seg"
    and d: "parse_ready d" "stream_ok d" "jstream d = ([0xFF, M_SOI] @ seg @ image_bytes c) @ rest"
  shows "\<exists>d'. ParseHead d = JOk () d' \<and> stream_ok d' \<and> jstream d' = rest \<and> describes c fmt d d'"
proof -
  have ready: "parse_ready (view d)" using d(1) by (simp add: parse_ready_def room_def)
  obtain d' where d': "ParseHead d = JOk () d'" "stream_ok d'" "jstream d' = rest"
    "view d' = header_view c fmt (view d)"
    using consumesD [OF parse_header_behind [OF assms(1) ready assms(2)] d(2) refl d(3)] by metis
  have "describes c fmt (view d) (view d')"
    unfolding d'(4) by (rule describes_header_view [OF assms(1) ready])
  then have "describes c fmt d d'" by (simp add: describes_def view_def)
  with d' show ?thesis by blast
qed

lemma header_parses:
  assumes "header_ok (codec e) fmt" "JPEG_HWWriteHeadForThumbnail e = JOk () e'" "out e = []"
    and d: "parse_ready d" "stream_ok d" "jstream d = out e' @ rest"
  shows "\<exists>d'. ParseHead d = JOk () d' \<and> stream_ok d' \<and> jstream d' = rest \<and> describes (codec e) fmt d d'"
proof -
  have "tables_ok (codec e)" using assms(1) by (simp only: header_ok_def)
  from writes_JOk [OF writes_header [OF this] refl assms(2)] assms(3)
  have "out e' = [0xFF, M_SOI] @ app0_segment @ image_bytes (codec e)" by (simp add: header_bytes_APP0)
  then show ?thesis using bytes_parse [OF assms(1) skipped_APP0 d(1,2)] d(3) by simp
qed

text \<open>C1: the header that the writer emits is read back by the parser.  When no status poll times
  out, \<^term>\<open>JPEG_HWWriteHeadForThumbnail\<close> succeeds; the parser, on a stream that begins with the
  bytes written, whatever pieces the stream arrives in, succeeds too, stops exactly behind them,
  and has the size, the sample format, the quantization and Huffman tables, the table numbers of
  each component and the restart interval (its low 16 bits) of the encoder's codec record; it goes
  on using its default Huffman tables exactly when all four tables are the default ones.\<close>

theorem header_roundtrip:
  assumes "header_ok (codec e) fmt" "True \<notin> set (polls e)" "out e = []"
  shows "\<exists>e'. JPEG_HWWriteHeadForThumbnail e = JOk () e' \<and>
     (\<forall>d rest. parse_ready d \<and> stream_ok d \<and> jstream d = out e' @ rest \<longrightarrow>
        (\<exists>d'. ParseHead d = JOk () d' \<and> stream_ok d' \<and> jstream d' = rest \<and> describes (codec e) fmt d d'))"
proof -
  have "tables_ok (codec e)" using assms(1) by (simp only: header_ok_def)
  from writes_ready [OF writes_header [OF this] refl assms(2)]
  obtain e' where "JPEG_HWWriteHeadForThumbnail e = JOk () e'" by blast
  with header_parses [OF assms(1) _ assms(3)] show ?thesis by metis
qed

lemma symbols_tl: "length (hbits t) = 17 \<Longrightarrow> symbols t = sum_list (map unat (tl (hbits t)))"
  by (cases "hbits t")
    (simp_all add: symbols_def sum_list_sum_nth sum.shift_bounds_Suc_ivl [of _ 0 16, simplified] atLeast0LessThan
      flip: numeral_eq_Suc)

text \<open>An encoder with the default Huffman tables, and a decoder on a stream.\<close>

definition sample_codec :: jpeg_codec where
  "sample_codec = zero_codec\<lparr>width := 640, height := 480, restart_interval := 4,
     ratio := [\<lparr>h_ratio = 2, v_ratio = 2\<rparr>, \<lparr>h_ratio = 1, v_ratio = 1\<rparr>, \<lparr>h_ratio = 1, v_ratio = 1\<rparr>],
     tbl_map := [\<lparr>dc_huff_tbl_id = 0, ac_huff_tbl_id = 0, quant_tbl_id = 0\<rparr>,
       \<lparr>dc_huff_tbl_id = 1, ac_huff_tbl_id = 1, quant_tbl_id = 1\<rparr>,
       \<lparr>dc_huff_tbl_id = 1, ac_huff_tbl_id = 1, quant_tbl_id = 1\<rparr>],
     quant_tbl := [map of_nat [1..<65], map of_nat [2..<66], []],
     dc_huff_tbl := [\<lparr>hbits = jpeg_fw_lum_dc_bits_default, huffval = jpeg_fw_lum_dc_huffvalue_default\<rparr>,
       \<lparr>hbits = jpeg_fw_chr_dc_bits_default, huffval = jpeg_fw_chr_dc_huffvalue_default\<rparr>],
     ac_huff_tbl := [\<lparr>hbits = jpeg_fw_lum_ac_bits_default, huffval = jpeg_fw_lum_ac_huffvalue_default\<rparr>,
       \<lparr>hbits = jpeg_fw_chr_ac_bits_default, huffval = jpeg_fw_chr_ac_huffvalue_default\<rparr>]\<rparr>"

definition sample_enc :: jenc where
  "sample_enc = \<lparr>codec = sample_codec, out = [], polls = [False, False]\<rparr>"

definition sample_dec :: "bytes \<Rightarrow> jdec" where
  "sample_dec bs = \<lparr>dcodec = zero_codec\<lparr>using_default_huff_tab := True, restart_interval := 0x3FFFF\<rparr>,
     s_inter_buf_bitstream = bs, s_inter_buf_pos = 0, s_jremain_byte_num = length bs,
     s_header_len = 0, s_file_offset = 0, read_script = None, s_extra_mem_bfr = 4096,
     s_extra_mem_size = 4096, s_used_extra_mem = 0, g_huff_tbl_malloced = False, input_width = 0,
     input_height = 0, mcu_info = 0, quant_level = 0, input_progressive = False\<rparr>"

lemma default_symbols:
  "symbols \<lparr>hbits = jpeg_fw_lum_dc_bits_default, huffval = v\<rparr> = 12"
  "symbols \<lparr>hbits = jpeg_fw_chr_dc_bits_default, huffval = v\<rparr> = 12"
  "symbols \<lparr>hbits = jpeg_fw_lum_ac_bits_default, huffval = v\<rparr> = 162"
  "symbols \<lparr>hbits = jpeg_fw_chr_ac_bits_default, huffval = v\<rparr> = 162"
  by (simp_all add: symbols_tl)
    (simp_all add: jpeg_fw_lum_dc_bits_default_def jpeg_fw_chr_dc_bits_default_def
      jpeg_fw_lum_ac_bits_default_def jpeg_fw_chr_ac_bits_default_def)

lemma sample_header_ok: "header_ok sample_codec JPEG_FW_YUV420"
  by (simp add: header_ok_def tables_ok_def quant_ok_def huff_ok_def sample_codec_def default_symbols
      less_3 quant_id_of_def sampling_of_def format_of_def format_codes del: upt.simps)

lemma sample_dec_stream:
  "parse_ready (sample_dec bs)" "stream_ok (sample_dec bs)" "jstream (sample_dec bs) = bs"
  by (simp_all add: sample_dec_def parse_ready_def room_def zero_codec_def stream_ok_def jstream_def)

theorem header_roundtrip_witness:
  "\<exists>e' d'. JPEG_HWWriteHeadForThumbnail sample_enc = JOk () e'
     \<and> ParseHead (sample_dec (out e' @ [1, 2, 3])) = JOk () d' \<and> jstream d' = [1, 2, 3]
     \<and> input_width d' = 640 \<and> restart_interval (dcodec d') = 4 \<and> mcu_info d' = JPEG_FW_YUV420"
proof -
  have "header_ok (codec sample_enc) JPEG_FW_YUV420" "True \<notin> set (polls sample_enc)" "out sample_enc = []"
    by (simp_all add: sample_enc_def sample_header_ok)
  from header_roundtrip [OF this] obtain e' where e': "JPEG_HWWriteHeadForThumbnail sample_enc = JOk () e'"
    and d: "\<forall>d rest. parse_ready d \<and> stream_ok d \<and> jstream d = out e' @ rest \<longrightarrow>
        (\<exists>d'. ParseHead d = JOk () d' \<and> stream_ok d' \<and> jstream d' = rest
          \<and> describes (codec sample_enc) JPEG_FW_YUV420 d d')" by blast
  from d sample_dec_stream [of "out e' @ [1, 2, 3]"]
  obtain d' where "ParseHead (sample_dec (out e' @ [1, 2, 3])) = JOk () d'" "jstream d' = [1, 2, 3]"
    "describes sample_codec JPEG_FW_YUV420 (sample_dec (out e' @ [1, 2, 3])) d'"
    by (auto simp: sample_enc_def)
  with e' show ?thesis by (auto simp: describes_def sample_codec_def)
qed

text \<open>Whatever the status polls deliver, the header writer never leaves a table of a well-formed
  codec record, does not change the record, and writes the header or a prefix of it: all of it
  exactly when it reports success, a prefix when a poll timed out and it reports failure.\<close>

theorem header_written:
  assumes "tables_ok (codec e)"
  shows "case JPEG_HWWriteHeadForThumbnail e of
      JOk _ e' \<Rightarrow> codec e' = codec e \<and> out e' = out e @ header_bytes (codec e)
    | JFail e' \<Rightarrow> codec e' = codec e \<and> True \<in> set (polls e)
        \<and> (\<exists>p q. header_bytes (codec e) = p @ q \<and> out e' = out e @ p)
    | JFault \<Rightarrow> False"
proof (cases "JPEG_HWWriteHeadForThumbnail e")
  case (JOk u e')
  from writes_JOk [OF writes_header [OF assms] refl JOk] show ?thesis by (simp add: JOk)
next
  case (JFail e')
  from writes_JFail [OF writes_header [OF assms] refl JFail] show ?thesis by (simp add: JFail)
next
  case JFault
  with writes_no_fault [OF writes_header [OF assms] refl] show ?thesis by simp
qed

theorem header_written_witness:
  "\<exists>e'. JPEG_HWWriteHeadForThumbnail (sample_enc\<lparr>polls := [False, True]\<rparr>) = JFail e'
     \<and> (\<exists>p q. header_bytes sample_codec = p @ q \<and> out e' = p)"
proof -
  let ?e = "sample_enc\<lparr>polls := [False, True]\<rparr>"
  have c: "codec ?e = sample_codec" "out ?e = []" by (simp_all add: sample_enc_def)
  have "tables_ok (codec ?e)" using sample_header_ok unfolding header_ok_def c(1) by blast
  note h = header_written [OF this]
  have "\<exists>e'. JPEG_HWWriteHeadForThumbnail ?e = JFail e'"
    by (simp add: JPEG_HWWriteHeadForThumbnail_def PutAPP0_def poll_ready_def PutMarker_def
        JPEGFW_PutC_def jstmt)
  with h show ?thesis by (auto simp: c)
qed

subsection \<open>The marker scan\<close>

text \<open>The scan as its comment describes it: the first byte after a 0xFF that is neither 0 nor
  0xFF.\<close>

fun find_marker :: "bytes \<Rightarrow> (u8 \<times> bytes) option" where
  "find_marker (a # b # xs) =
     (if a = 0xFF \<and> b \<noteq> 0 \<and> b \<noteq> 0xFF then Some (b, xs) else find_marker (b # xs))"
| "find_marker _ = None"

lemma get_char_stream:
  assumes "stream_ok d" "jstream d = c # cs"
  shows "\<exists>d'. get_char d = JOk c d' \<and> stream_ok d' \<and> view d' = view d \<and> jstream d' = cs"
  using consumesD [OF consumes_get_char assms(1) refl] assms(2) by (metis append_Cons append_Nil)

lemma get_char_end:
  assumes "stream_ok d" "jstream d = []"
  shows "\<exists>d'. get_char d = JFail d'"
proof -
  have r: "s_jremain_byte_num d = 0"
    using assms by (auto simp: stream_ok_def jstream_def chunk_def)
  show ?thesis
  proof (cases "read_script d")
    case None
    with r show ?thesis by (simp add: get_char_def read_piece_def)
  next
    case (Some rs)
    with assms have "rs = []"
      by (cases rs) (auto simp: stream_ok_def jstream_def)
    with r Some show ?thesis by (simp add: get_char_def read_piece_def)
  qed
qed

text \<open>The two inner loops on the stream.\<close>

fun after_ff :: "bytes \<Rightarrow> bytes option" where
  "after_ff [] = None"
| "after_ff (a # xs) = (if a = 0xFF then Some xs else after_ff xs)"

fun after_ffs :: "bytes \<Rightarrow> (u8 \<times> bytes) option" where
  "after_ffs [] = None"
| "after_ffs (a # xs) = (if a = 0xFF then after_ffs xs else Some (a, xs))"

lemma skip_non_ff_stream:
  assumes "stream_ok d"
  shows "case after_ff (jstream d) of
      None \<Rightarrow> \<exists>d'. skip_non_ff d = JFail d'
    | Some xs \<Rightarrow> \<exists>d'. skip_non_ff d = JOk () d' \<and> stream_ok d' \<and> view d' = view d \<and> jstream d' = xs"
  using assms
proof (induction "jstream d" arbitrary: d)
  case Nil
  then obtain d' where "get_char d = JFail d'" using get_char_end by metis
  with Nil show ?case by (simp add: skip_non_ff.simps [of d])
next
  case (Cons a xs)
  obtain d1 where d1: "get_char d = JOk a d1" "stream_ok d1" "view d1 = view d" "jstream d1 = xs"
    using get_char_stream [OF Cons.prems] Cons.hyps(2) by metis
  show ?case
  proof (cases "a = 0xFF")
    case True
    with d1 Cons.hyps(2) [symmetric] show ?thesis by (simp add: skip_non_ff.simps [of d])
  next
    case False
    have "skip_non_ff d = skip_non_ff d1" using False by (simp add: skip_non_ff.simps [of d] d1(1))
    with Cons.hyps(1) [of d1] d1 False Cons.hyps(2) [symmetric] show ?thesis
      by (simp split: option.splits)
  qed
qed

lemma skip_ff_stream:
  assumes "stream_ok d"
  shows "case after_ffs (jstream d) of
      None \<Rightarrow> \<exists>d'. skip_ff d = JFail d'
    | Some (c, xs) \<Rightarrow> \<exists>d'. skip_ff d = JOk c d' \<and> stream_ok d' \<and> view d' = view d \<and> jstream d' = xs"
  using assms
proof (induction "jstream d" arbitrary: d)
  case Nil
  then obtain d' where "get_char d = JFail d'" using get_char_end by metis
  with Nil show ?case by (simp add: skip_ff.simps [of d])
next
  case (Cons a xs)
  obtain d1 where d1: "get_char d = JOk a d1" "stream_ok d1" "view d1 = view d" "jstream d1 = xs"
    using get_char_stream [OF Cons.prems] Cons.hyps(2) by metis
  show ?case
  proof (cases "a = 0xFF")
    case True
    have "skip_ff d = skip_ff d1" using True by (simp add: skip_ff.simps [of d] d1(1))
    with Cons.hyps(1) [of d1] d1 True Cons.hyps(2) [symmetric] show ?thesis
      by (simp split: option.splits prod.splits)
  next
    case False
    with d1 Cons.hyps(2) [symmetric] show ?thesis by (simp add: skip_ff.simps [of d])
  qed
qed

lemma find_marker_loops:
  "find_marker xs = (case after_ff xs of None \<Rightarrow> None
     | Some ys \<Rightarrow> (case after_ffs ys of None \<Rightarrow> None
        | Some (c, zs) \<Rightarrow> if c = 0 then find_marker zs else Some (c, zs)))"
proof -
  have zero: "find_marker (0 # zs) = find_marker zs" for zs by (cases zs) simp_all
  have ff: "find_marker (0xFF # ys) = (case after_ffs ys of None \<Rightarrow> None
        | Some (c, zs) \<Rightarrow> if c = 0 then find_marker zs else Some (c, zs))" for ys
  proof (induction ys)
    case (Cons y ys)
    then show ?case by (cases "y = 0xFF"; cases "y = 0") (simp_all add: zero)
  qed simp
  show ?thesis
  proof (induction xs)
    case (Cons x xs)
    show ?case
    proof (cases "x = 0xFF")
      case False
      then have "find_marker (x # xs) = find_marker xs" by (cases xs) simp_all
      with Cons False show ?thesis by simp
    qed (simp add: ff)
  qed simp
qed

lemma after_ffs_shorter: "after_ffs xs = Some (c, ys) \<Longrightarrow> length ys < length xs \<and> c \<noteq> 0xFF"
  by (induction xs) (auto split: if_splits)

lemma after_ff_shorter: "after_ff xs = Some ys \<Longrightarrow> length ys < length xs"
  by (induction xs) (auto split: if_splits)

lemma GetNextMarker_stream:
  assumes "stream_ok d"
  shows "case find_marker (jstream d) of
      None \<Rightarrow> \<exists>d'. GetNextMarker d = JFail d'
    | Some (c, xs) \<Rightarrow> \<exists>d'. GetNextMarker d = JOk c d' \<and> stream_ok d' \<and> view d' = view d \<and> jstream d' = xs"
  using assms
proof (induction "length (jstream d)" arbitrary: d rule: less_induct)
  case less
  show ?case
  proof (cases "after_ff (jstream d)")
    case None
    then obtain d' where "skip_non_ff d = JFail d'" using skip_non_ff_stream [OF less.prems] by auto
    with None show ?thesis
      by (simp add: find_marker_loops [of "jstream d"] GetNextMarker.simps [of d] jstmt)
  next
    case (Some ys)
    then obtain d1 where d1: "skip_non_ff d = JOk () d1" "stream_ok d1" "view d1 = view d" "jstream d1 = ys"
      using skip_non_ff_stream [OF less.prems] by auto
    show ?thesis
    proof (cases "after_ffs ys")
      case None
      then obtain d' where "skip_ff d1 = JFail d'" using skip_ff_stream [OF d1(2)] d1(4) by auto
      with None Some d1(1) show ?thesis
        by (simp add: find_marker_loops [of "jstream d"] GetNextMarker.simps [of d] jstmt)
    next
      case (Some p)
      then obtain c zs where c: "after_ffs ys = Some (c, zs)" by (cases p) simp
      then obtain d2 where d2: "skip_ff d1 = JOk c d2" "stream_ok d2" "view d2 = view d1" "jstream d2 = zs"
        using skip_ff_stream [OF d1(2)] d1(4) by auto
      have fm: "find_marker (jstream d) = (if c = 0 then find_marker zs else Some (c, zs))"
        using \<open>after_ff (jstream d) = Some ys\<close> c by (simp add: find_marker_loops [of "jstream d"])
      have gm: "GetNextMarker d = (if c = 0 then GetNextMarker d2 else JOk c d2)"
        by (simp add: GetNextMarker.simps [of d] jstmt d1(1) d2(1))
      have "length (jstream d2) < length (jstream d)"
        using after_ff_shorter [OF \<open>after_ff (jstream d) = Some ys\<close>] after_ffs_shorter [OF c] d2(4) by simp
      from less.hyps [OF this d2(2)] show ?thesis
        using d1 d2 by (auto simp: fm gm split: option.splits prod.splits)
    qed
  qed
qed

lemma find_marker_Some:
  "find_marker xs = Some (c, ys) \<Longrightarrow> c \<noteq> 0 \<and> c \<noteq> 0xFF \<and> (\<exists>p. xs = p @ [0xFF, c] @ ys)"
proof (induction xs rule: find_marker.induct)
  case (1 a b xs)
  show ?case
  proof (cases "a = 0xFF \<and> b \<noteq> 0 \<and> b \<noteq> 0xFF")
    case True
    with "1.prems" show ?thesis by (auto intro: exI [of _ "[]"])
  next
    case False
    with "1.prems" have "find_marker (b # xs) = Some (c, ys)" by (simp split: if_splits)
    from "1.IH" [OF False this] show ?thesis by (metis append_Cons)
  qed
qed simp_all

text \<open>C33: the marker scan is what its comment says.  On any stream \<^term>\<open>GetNextMarker\<close> returns the
  first byte after a 0xFF that is neither 0 nor 0xFF, stops right behind it and changes nothing
  else; it fails when the stream has no marker.\<close>

theorem GetNextMarker_finds:
  assumes "stream_ok d"
  shows "case find_marker (jstream d) of
      None \<Rightarrow> \<exists>d'. GetNextMarker d = JFail d'
    | Some (c, xs) \<Rightarrow> c \<noteq> 0 \<and> c \<noteq> 0xFF \<and> (\<exists>p. jstream d = p @ [0xFF, c] @ xs)
        \<and> (\<exists>d'. GetNextMarker d = JOk c d' \<and> stream_ok d' \<and> view d' = view d \<and> jstream d' = xs)"
  using GetNextMarker_stream [OF assms] find_marker_Some [of "jstream d"]
  by (auto split: option.splits)

theorem GetNextMarker_finds_witness:
  "\<exists>d'. GetNextMarker (sample_dec [1, 0xFF, 0, 0xFF, 0xFF, 0xC0, 7]) = JOk 0xC0 d' \<and> jstream d' = [7]"
  using GetNextMarker_finds [OF sample_dec_stream(2) [of "[1, 0xFF, 0, 0xFF, 0xFF, 0xC0, 7]"]]
  by (auto simp: sample_dec_stream)

end
