(* ===== verification/JpegSafety.thy ===== *)
theory JpegSafety
  imports JpegHeader
begin

text \<open>
  The shape of the codec record, which the header parser keeps on any input that does not fault: the
  lengths of its tables, its table numbers and its sampling factors.  And the inputs on which it leaves its
  tables, because a check is missing, comes too late or compiles to nothing.  That it leaves them on no other is in
  \<^verbatim>\<open>JpegBounds\<close>.
\<close>

subsection \<open>The shape of the codec record\<close>

text \<open>The type of the decoder's tables: three quantization tables of at most 64 bytes, four Huffman
  tables of each class with at most 17 counts and 257 symbols, three entries of the table map and of
  the identifier map, table numbers and sampling factors in the range of the bit field that they were read
  from.  The parameters of the scan and the number of components are not bounded.\<close>

definition map_entry_ok :: "tbl_map_entry \<Rightarrow> bool" where
  "map_entry_ok t \<longleftrightarrow> quant_tbl_id t \<le> 2 \<and> dc_huff_tbl_id t \<le> 15 \<and> ac_huff_tbl_id t \<le> 15"

definition huff_fits :: "huff_tbl \<Rightarrow> bool" where
  "huff_fits t \<longleftrightarrow> length (hbits t) \<le> 17 \<and> length (huffval t) \<le> 257"

definition component_ok :: "component \<Rightarrow> bool" where
  "component_ok p \<longleftrightarrow> h_samp_factor p \<le> 15 \<and> v_samp_factor p \<le> 15"

definition codec_shape :: "jpeg_codec \<Rightarrow> bool" where
  "codec_shape k \<longleftrightarrow>
     length (quant_tbl k) = 3 \<and> (\<forall>q \<in> set (quant_tbl k). length q \<le> 64)
   \<and> length (dc_huff_tbl k) = 4 \<and> (\<forall>t \<in> set (dc_huff_tbl k). huff_fits t)
   \<and> length (ac_huff_tbl k) = 4 \<and> (\<forall>t \<in> set (ac_huff_tbl k). huff_fits t)
   \<and> length (tbl_map k) = 3 \<and> (\<forall>t \<in> set (tbl_map k). map_entry_ok t)
   \<and> length (comp_id_map k) = 3 \<and> (\<forall>p \<in> set (comp_info k). component_ok p)"

lemma codec_shape_zero: "codec_shape zero_codec"
  by (simp add: codec_shape_def zero_codec_def huff_fits_def null_huff_tbl_def map_entry_ok_def
      zero_map_entry_def)

lemma map_entry_upd [simp]:
  "map_entry_ok (t\<lparr>quant_tbl_id := q\<rparr>) \<longleftrightarrow> q \<le> 2 \<and> dc_huff_tbl_id t \<le> 15 \<and> ac_huff_tbl_id t \<le> 15"
  "map_entry_ok (t\<lparr>dc_huff_tbl_id := x, ac_huff_tbl_id := y\<rparr>) \<longleftrightarrow> quant_tbl_id t \<le> 2 \<and> x \<le> 15 \<and> y \<le> 15"
  by (simp_all add: map_entry_ok_def)

lemma u8_nibble [simp]: "(x :: u8) AND 0x0F \<le> 15"
  by (rule word_and_le1)

text \<open>The assignments that the parser makes to the record.\<close>

lemma codec_shape_upd [simp]:
  "codec_shape (k\<lparr>using_default_huff_tab := b\<rparr>) = codec_shape k"
  "codec_shape (k\<lparr>using_default_quant_tab := b\<rparr>) = codec_shape k"
  "codec_shape (k\<lparr>num_components := n\<rparr>) = codec_shape k"
  "codec_shape (k\<lparr>comps_in_scan := n\<rparr>) = codec_shape k"
  "codec_shape (k\<lparr>Ss := ss, Se := se\<rparr>) = codec_shape k"
  "codec_shape (k\<lparr>Ah := ah, Al := al\<rparr>) = codec_shape k"
  "codec_shape (k\<lparr>next_restart_num := r, input_scan_number := isn\<rparr>) = codec_shape k"
  "codec_shape (k\<lparr>restart_interval := a, restart_to_go := c, next_restart_num := r\<rparr>) = codec_shape k"
  "codec_shape (k\<lparr>using_default_huff_tab := b, using_default_quant_tab := b', restart_interval := a,
      restart_to_go := c\<rparr>) = codec_shape k"
  "codec_shape (k\<lparr>is_res_file := b\<rparr>) = codec_shape k"
  by (simp_all add: codec_shape_def)

lemma list_update_Ball:
  assumes "\<forall>x \<in> set xs. P x" "i < length xs \<Longrightarrow> P (f (xs ! i))"
  shows "\<forall>x \<in> set (xs[i := f (xs ! i)]). P x"
proof (cases "i < length xs")
  case True
  with assms show ?thesis by (auto dest!: set_update_subset_insert [THEN subsetD])
qed (simp add: assms(1) list_update_beyond)

lemma codec_shape_tables:
  assumes "codec_shape k"
  shows "length b \<le> 64 \<Longrightarrow> codec_shape (k\<lparr>quant_tbl := (quant_tbl k)[n := b]\<rparr>)"
    and "codec_shape (k\<lparr>quant_tbl := (quant_tbl k)[n := (quant_tbl k ! n)[j := c]]\<rparr>)"
    and "(\<And>t. huff_fits t \<Longrightarrow> huff_fits (f t)) \<Longrightarrow>
      codec_shape (k\<lparr>dc_huff_tbl := (dc_huff_tbl k)[n := f (dc_huff_tbl k ! n)]\<rparr>)"
    and "(\<And>t. huff_fits t \<Longrightarrow> huff_fits (f t)) \<Longrightarrow>
      codec_shape (k\<lparr>ac_huff_tbl := (ac_huff_tbl k)[n := f (ac_huff_tbl k ! n)]\<rparr>)"
    and "(\<And>t. map_entry_ok t \<Longrightarrow> map_entry_ok (g t)) \<Longrightarrow>
      codec_shape (k\<lparr>tbl_map := (tbl_map k)[n := g (tbl_map k ! n)]\<rparr>)"
    and "codec_shape (k\<lparr>comp_id_map := (comp_id_map k)[n := cc]\<rparr>)"
    and "(\<And>p. component_ok p \<Longrightarrow> component_ok (h p)) \<Longrightarrow>
      codec_shape (k\<lparr>comp_info := (comp_info k)[n := h (comp_info k ! n)]\<rparr>)"
    and "codec_shape (k\<lparr>comp_info := replicate m zero_component\<rparr>)"
proof -
  note s = assms [unfolded codec_shape_def]
  show "length b \<le> 64 \<Longrightarrow> codec_shape (k\<lparr>quant_tbl := (quant_tbl k)[n := b]\<rparr>)"
    using s list_update_Ball [of "quant_tbl k" "\<lambda>q. length q \<le> 64" n "\<lambda>_. b"] by (simp add: codec_shape_def)
  show "codec_shape (k\<lparr>quant_tbl := (quant_tbl k)[n := (quant_tbl k ! n)[j := c]]\<rparr>)"
    using s list_update_Ball [of "quant_tbl k" "\<lambda>q. length q \<le> 64" n "\<lambda>q. q[j := c]"]
    by (simp add: codec_shape_def)
  show "(\<And>t. huff_fits t \<Longrightarrow> huff_fits (f t)) \<Longrightarrow>
      codec_shape (k\<lparr>dc_huff_tbl := (dc_huff_tbl k)[n := f (dc_huff_tbl k ! n)]\<rparr>)"
    using s list_update_Ball [of "dc_huff_tbl k" huff_fits n f] by (simp add: codec_shape_def)
  show "(\<And>t. huff_fits t \<Longrightarrow> huff_fits (f t)) \<Longrightarrow>
      codec_shape (k\<lparr>ac_huff_tbl := (ac_huff_tbl k)[n := f (ac_huff_tbl k ! n)]\<rparr>)"
    using s list_update_Ball [of "ac_huff_tbl k" huff_fits n f] by (simp add: codec_shape_def)
  show "(\<And>t. map_entry_ok t \<Longrightarrow> map_entry_ok (g t)) \<Longrightarrow>
      codec_shape (k\<lparr>tbl_map := (tbl_map k)[n := g (tbl_map k ! n)]\<rparr>)"
    using s list_update_Ball [of "tbl_map k" map_entry_ok n g] by (simp add: codec_shape_def)
  show "codec_shape (k\<lparr>comp_id_map := (comp_id_map k)[n := cc]\<rparr>)"
    using s by (simp add: codec_shape_def)
  show "(\<And>p. component_ok p \<Longrightarrow> component_ok (h p)) \<Longrightarrow>
      codec_shape (k\<lparr>comp_info := (comp_info k)[n := h (comp_info k ! n)]\<rparr>)"
    using s list_update_Ball [of "comp_info k" component_ok n h] by (simp add: codec_shape_def)
  show "codec_shape (k\<lparr>comp_info := replicate m zero_component\<rparr>)"
    using s by (simp add: codec_shape_def component_ok_def zero_component_def)
qed

text \<open>A statement keeps the shape when every state that it reaches, by success or by an early
  return, has it.\<close>

definition kept :: "('a, jdec) jres \<Rightarrow> bool" where
  "kept r \<longleftrightarrow> (case r of
     JOk _ d \<Rightarrow> codec_shape (dcodec d) | JFail d \<Rightarrow> codec_shape (dcodec d) | JFault \<Rightarrow> True)"

definition keeps :: "'a jreader \<Rightarrow> bool" where
  "keeps m \<longleftrightarrow> (\<forall>d. codec_shape (dcodec d) \<longrightarrow> kept (m d))"

lemma kept_simps [simp]:
  "kept (JOk a d) = codec_shape (dcodec d)" "kept (JFail d) = codec_shape (dcodec d)" "kept JFault"
  by (simp_all add: kept_def)

named_theorems keeps_rules "statements that keep the shape of the codec record"

lemma keepsI: "(\<And>d. codec_shape (dcodec d) \<Longrightarrow> kept (m d)) \<Longrightarrow> keeps m"
  by (simp add: keeps_def)

lemma keepsD: "keeps m \<Longrightarrow> codec_shape (dcodec d) \<Longrightarrow> kept (m d)"
  by (simp add: keeps_def)

lemma keeps_jbind [keeps_rules]:
  assumes "keeps m" "\<And>a. keeps (k a)"
  shows "keeps (jbind m k)"
proof (rule keepsI)
  fix d :: jdec assume d: "codec_shape (dcodec d)"
  from keepsD [OF assms(1) d] assms(2) show "kept (jbind m k d)"
    by (cases "m d") (simp_all add: jbind_cases keepsD)
qed

lemma keeps_jthen [keeps_rules]: "keeps m \<Longrightarrow> keeps n \<Longrightarrow> keeps (jthen m n)"
  unfolding jthen_def by (rule keeps_jbind)

lemma keeps_jguard: "(b \<Longrightarrow> keeps n) \<Longrightarrow> keeps (jthen (jguard b) n)"
  by (auto simp: keeps_def jstmt)

lemma keeps_simple [keeps_rules]:
  "keeps (jret a)" "keeps jfail" "keeps (jget g)" "keeps (jcheck P)" "keeps (jguard b)"
  by (auto simp: keeps_def jstmt)

lemma keeps_jmod [keeps_rules]: "(\<And>d. dcodec (f d) = dcodec d) \<Longrightarrow> keeps (jmod f)"
  by (simp add: keeps_def jstmt)

lemma keeps_set_codec [keeps_rules]: "(\<And>k. codec_shape k \<Longrightarrow> codec_shape (f k)) \<Longrightarrow> keeps (set_codec f)"
  by (simp add: keeps_def jstmt)

lemma keeps_jseq [keeps_rules]: "(\<And>m. m \<in> set ms \<Longrightarrow> keeps m) \<Longrightarrow> keeps (jseq ms)"
  by (induction ms) (simp_all add: keeps_rules)

lemma keeps_jseq_list: "keeps (jseq [])" "keeps m \<Longrightarrow> keeps (jseq ms) \<Longrightarrow> keeps (jseq (m # ms))"
  by (simp_all add: keeps_rules)

lemma keeps_if [keeps_rules]: "(b \<Longrightarrow> keeps m) \<Longrightarrow> (\<not> b \<Longrightarrow> keeps n) \<Longrightarrow> keeps (if b then m else n)"
  by simp

lemma keeps_get_char [keeps_rules]: "keeps get_char"
  by (rule keepsI) (auto simp: get_char_def read_piece_def split: option.splits list.splits Option.bind_splits)

lemma keeps_get_short_word [keeps_rules]: "keeps get_short_word"
  unfolding get_short_word_def by (intro keeps_rules)

lemma keeps_alloc:
  assumes "\<And>b. length b \<le> unat n \<Longrightarrow> keeps (k b)"
  shows "keeps (jbind (JpegDec_ExtraMemAlloc n) k)"
  using assms by (auto intro!: keepsI simp: jstmt JpegDec_ExtraMemAlloc_def Let_def keeps_def)

lemma keeps_set_huff:
  assumes "\<And>t. huff_fits t \<Longrightarrow> huff_fits (f t)"
  shows "keeps (set_huff ac n f)"
  unfolding set_huff_def
  by (intro keeps_rules) (use assms in \<open>auto intro: codec_shape_tables\<close>)

lemma keeps_store [keeps_rules]:
  "keeps (store_bits ac n i c)" "keeps (store_huffval ac n i c)" "keeps (compare_default tbl i c)"
  "keeps (store_quant m j c)"
  unfolding store_bits_def store_huffval_def compare_default_def store_quant_def
  by (intro keeps_rules keeps_set_huff; simp add: huff_fits_def codec_shape_tables)+

lemma keeps_set_quant: "length b \<le> 64 \<Longrightarrow> keeps (set_quant n b)"
  unfolding set_quant_def by (intro keeps_rules) (simp add: codec_shape_tables)

lemma keeps_set_tbl_map: "(\<And>t. map_entry_ok t \<Longrightarrow> map_entry_ok (f t)) \<Longrightarrow> keeps (set_tbl_map i f)"
  unfolding set_tbl_map_def by (intro keeps_rules) (simp add: codec_shape_tables)

lemma keeps_set_component: "(\<And>p. component_ok p \<Longrightarrow> component_ok (f p)) \<Longrightarrow> keeps (set_component ci f)"
  unfolding set_component_def by (intro keeps_rules) (simp add: codec_shape_tables)

lemma keeps_get_component [keeps_rules]: "keeps (get_component ci)"
  unfolding get_component_def by (intro keeps_rules)

text \<open>The loops.\<close>

lemma keeps_skip_non_ff [keeps_rules]: "keeps skip_non_ff"
proof (rule keepsI)
  fix d :: jdec assume "codec_shape (dcodec d)"
  then show "kept (skip_non_ff d)"
  proof (induction d rule: skip_non_ff.induct)
    case (1 d)
    from keepsD [OF keeps_get_char "1.prems"] "1.IH" show ?case
      by (cases "get_char d") (simp_all add: skip_non_ff.simps [of d])
  qed
qed

lemma keeps_skip_ff [keeps_rules]: "keeps skip_ff"
proof (rule keepsI)
  fix d :: jdec assume "codec_shape (dcodec d)"
  then show "kept (skip_ff d)"
  proof (induction d rule: skip_ff.induct)
    case (1 d)
    from keepsD [OF keeps_get_char "1.prems"] "1.IH" show ?case
      by (cases "get_char d") (simp_all add: skip_ff.simps [of d])
  qed
qed

lemma keeps_GetNextMarker [keeps_rules]: "keeps GetNextMarker"
proof (rule keepsI)
  fix d :: jdec assume "codec_shape (dcodec d)"
  then show "kept (GetNextMarker d)"
  proof (induction d rule: GetNextMarker.induct)
    case (1 d)
    have "keeps (jbind skip_non_ff (\<lambda>_. skip_ff))" by (intro keeps_rules)
    from keepsD [OF this "1.prems"] "1.IH" show ?case
      by (cases "jbind skip_non_ff (\<lambda>_. skip_ff) d") (simp_all add: GetNextMarker.simps [of d])
  qed
qed

lemma keeps_read_bits [keeps_rules]: "keeps (read_bits ac n is count)"
  by (induction ac n "is" count rule: read_bits.induct) (auto intro!: keeps_rules)

lemma keeps_read_huff_tbl [keeps_rules]: "keeps read_huff_tbl"
  unfolding read_huff_tbl_def read_huffval_def Let_def by (auto intro!: keeps_rules simp del: jseq.simps)

lemma keeps_read_quant_tbl [keeps_rules]: "keeps read_quant_tbl"
  unfolding read_quant_tbl_def read_quant8_def read_quant16_def Let_def
  by (auto intro!: keeps_rules keeps_alloc keeps_set_quant simp del: jseq.simps)

lemma keeps_huff_tables [keeps_rules]: "keeps (huff_tables len)"
proof (rule keepsI)
  fix d :: jdec assume "codec_shape (dcodec d)"
  then show "kept (huff_tables len d)"
  proof (induction len d rule: huff_tables.induct)
    case (1 len d)
    from keepsD [OF keeps_read_huff_tbl "1.prems"] "1.IH" "1.prems" show ?case
      by (cases "read_huff_tbl d") (simp_all add: huff_tables.simps [of len d])
  qed
qed

lemma keeps_quant_tables [keeps_rules]: "keeps (quant_tables len two)"
proof (rule keepsI)
  fix d :: jdec assume "codec_shape (dcodec d)"
  then show "kept (quant_tables len two d)"
  proof (induction len two d rule: quant_tables.induct)
    case (1 len two d)
    from keepsD [OF keeps_read_quant_tbl "1.prems"] "1.IH" "1.prems" show ?case
      by (cases "read_quant_tbl d") (auto simp: quant_tables.simps [of len two d])
  qed
qed

lemma keeps_find_component [keeps_rules]: "keeps (find_component cc i cis)"
  by (induction cis) (auto intro!: keeps_rules simp: codec_shape_tables)

lemma keeps_GetSOS [keeps_rules]: "keeps GetSOS"
  unfolding GetSOS_def GetSOS_component_def
  by (auto intro!: keeps_rules keeps_set_tbl_map simp: map_entry_ok_def simp del: jseq.simps)

lemma keeps_quant_id:
  "keeps (jthen (jguard (\<not> (c :: u8) > 2)) (set_tbl_map i (\<lambda>t. t\<lparr>quant_tbl_id := ucast c\<rparr>)))"
proof (rule keeps_jguard)
  assume "\<not> c > 2"
  moreover have "unat (ucast c :: u16) = unat c"
    by (simp add: unsigned_ucast_eq take_bit_nat_eq_self_iff le_less_trans [OF unat_u8_le])
  ultimately have "ucast c \<le> (2 :: u16)" by (simp add: word_le_nat_alt word_less_nat_alt)
  then show "keeps (set_tbl_map i (\<lambda>t. t\<lparr>quant_tbl_id := ucast c\<rparr>))"
    by (intro keeps_set_tbl_map) (simp add: map_entry_ok_def)
qed

lemma keeps_GetSOF_component [keeps_rules]: "keeps (GetSOF_component ci)"
  unfolding GetSOF_component_def Let_def
  by (intro keeps_jbind keeps_get_char keeps_jseq_list keeps_set_component keeps_quant_id keeps_simple)
    (simp_all add: component_ok_def)

lemma keeps_GetSOF [keeps_rules]: "keeps (GetSOF p)"
  unfolding GetSOF_def GetSOF_head_def GetSOF_format_def sampling_def Let_def
  by (auto intro!: keeps_rules keeps_alloc simp: codec_shape_tables simp del: jseq.simps)

lemma keeps_segments [keeps_rules]:
  "keeps GetDRI" "keeps GetAPP0" "keeps SkipVariable" "keeps GetHuffTbl" "keeps GetQuantTbl"
  unfolding GetDRI_def GetAPP0_def SkipVariable_def skip_chars_def GetHuffTbl_def huff_malloc_def
    GetQuantTbl_def same_tables_def
  by (auto intro!: keeps_rules keeps_alloc keeps_set_huff simp: huff_fits_def simp del: jseq.simps)

lemma keeps_process_marker [keeps_rules]: "keeps (process_marker c)"
  unfolding process_marker_def by (auto intro: keeps_rules)

lemma keeps_ProcessTables [keeps_rules]: "keeps ProcessTables"
proof (rule keepsI)
  fix d :: jdec assume "codec_shape (dcodec d)"
  then show "kept (ProcessTables d)"
  proof (induction d rule: ProcessTables.induct)
    case (1 d)
    show ?case
    proof (cases "GetNextMarker d")
      case (JOk c d1)
      then have d1: "codec_shape (dcodec d1)" using keepsD [OF keeps_GetNextMarker "1.prems"] by simp
      from keepsD [OF keeps_process_marker d1, of c] "1.IH" [OF JOk] d1 JOk show ?thesis
        by (cases "process_marker c d1") (simp_all add: ProcessTables.simps [of d])
    next
      case (JFail d1)
      with keepsD [OF keeps_GetNextMarker "1.prems"] show ?thesis by (simp add: ProcessTables.simps [of d])
    qed (simp add: ProcessTables.simps [of d])
  qed
qed

lemma keeps_find_SOI [keeps_rules]: "keeps find_SOI"
proof (rule keepsI)
  fix d :: jdec assume "codec_shape (dcodec d)"
  then show "kept (find_SOI d)"
  proof (induction d rule: find_SOI.induct)
    case (1 d)
    from keepsD [OF keeps_GetNextMarker "1.prems"] "1.IH" show ?case
      by (cases "GetNextMarker d") (simp_all add: find_SOI.simps [of d])
  qed
qed

lemma keeps_ParseHead [keeps_rules]: "keeps ParseHead"
  unfolding ParseHead_def by (intro keeps_rules)

lemma keeps_ParseHead_Res [keeps_rules]: "keeps ParseHead_Res"
  unfolding ParseHead_Res_def
  by (auto intro!: keeps_rules keepsI [of "skip_n_byte 4"] simp: skip_n_byte_def simp del: jseq.simps)

text \<open>Statements that do not return early and leave the codec record alone.\<close>

definition quiet :: "'a jreader \<Rightarrow> bool" where
  "quiet m \<longleftrightarrow> (\<forall>d. case m d of
     JOk _ d' \<Rightarrow> dcodec d' = dcodec d | JFail _ \<Rightarrow> False | JFault \<Rightarrow> True)"

named_theorems quiet_rules "statements that leave the codec record alone"

lemma quietI:
  assumes "\<And>d. case m d of JOk _ d' \<Rightarrow> dcodec d' = dcodec d | JFail _ \<Rightarrow> False | JFault \<Rightarrow> True"
  shows "quiet m"
  unfolding quiet_def using assms by blast

lemma quietD:
  "quiet m \<Longrightarrow> m d = JOk a d' \<Longrightarrow> dcodec d' = dcodec d"
  "quiet m \<Longrightarrow> m d \<noteq> JFail d'"
  unfolding quiet_def by (erule allE [of _ d], auto)+

lemma quiet_cases:
  assumes "quiet m" "\<And>a d'. dcodec d' = dcodec d \<Longrightarrow> R (k a d')" "R JFault"
  shows "R (jbind m k d)"
proof (cases "m d")
  case (JOk a d')
  from assms(2) [OF quietD(1) [OF assms(1) JOk]] show ?thesis by (simp add: jbind_def JOk)
next
  case (JFail d')
  with quietD(2) [OF assms(1)] show ?thesis by simp
qed (simp add: jbind_def assms(3))

lemma quiet_jbind [quiet_rules]:
  assumes "quiet m" "\<And>a. quiet (k a)"
  shows "quiet (jbind m k)"
proof (rule quietI)
  fix d :: jdec
  let ?R = "\<lambda>r. case r of JOk _ d' \<Rightarrow> dcodec d' = dcodec d | JFail _ \<Rightarrow> False | JFault \<Rightarrow> True"
  show "?R (jbind m k d)"
  proof (rule quiet_cases [where R = ?R, OF assms(1)])
    fix a and d1 :: jdec assume "dcodec d1 = dcodec d"
    with quietD [OF assms(2) [of a], of d1] show "?R (k a d1)"
      by (cases "k a d1") auto
  qed simp
qed

lemma quiet_jthen [quiet_rules]: "quiet m \<Longrightarrow> quiet n \<Longrightarrow> quiet (jthen m n)"
  unfolding jthen_def by (rule quiet_jbind)

lemma quiet_simple [quiet_rules]: "quiet (jret a)" "quiet (jget g)" "quiet (peek off)"
  by (auto intro!: quietI simp: jstmt peek_def Let_def)

lemma quiet_jmod [quiet_rules]: "(\<And>d. dcodec (f d) = dcodec d) \<Longrightarrow> quiet (jmod f)"
  by (simp add: quiet_def jstmt)

lemma quiet_jseq [quiet_rules]: "(\<And>m. m \<in> set ms \<Longrightarrow> quiet m) \<Longrightarrow> quiet (jseq ms)"
  by (induction ms) (simp_all add: quiet_rules)

lemma quiet_if [quiet_rules]: "(b \<Longrightarrow> quiet m) \<Longrightarrow> (\<not> b \<Longrightarrow> quiet n) \<Longrightarrow> quiet (if b then m else n)"
  by simp

lemma quiet_InitMem [quiet_rules]: "quiet (JpegDec_InitMem buf_ptr buf_size)"
  unfolding JpegDec_InitMem_def Let_def by (intro quiet_rules) simp

lemma read_piece_dcodec: "read_piece d = Some d' \<Longrightarrow> dcodec d' = dcodec d"
  by (auto simp: read_piece_def split: option.splits list.splits Option.bind_splits)

lemma quiet_InitBitream [quiet_rules]: "quiet (JpegDec_InitBitream bitstream reads)"
  by (rule quietI)
    (auto simp: JpegDec_InitBitream_def jstmt JpegDec_ExtraMemAlloc_def Let_def
      dest!: read_piece_dcodec split: option.splits)

lemma quiet_match_id [quiet_rules]: "quiet (match_id k cs)"
  by (induction k cs rule: match_id.induct) (auto intro!: quiet_rules)

lemma quiet_get_header_len [quiet_rules]: "quiet get_header_len"
  unfolding get_header_len_def Let_def
  by (auto intro!: quiet_rules simp del: jseq.simps)

lemma jbind_assoc: "jbind (jbind m k) l = jbind m (\<lambda>a. jbind (k a) l)"
  by (rule ext) (simp add: jbind_def split: jres.split)

lemma jbind_jmod: "jbind (jmod f) k d = k () (f d)"
  by (simp add: jstmt)

lemma jbind_jret: "jbind (jret a) k d = k a d"
  by (simp add: jstmt)

text \<open>Whatever bytes, in whatever pieces, and whatever memory the parser is given, from any
  earlier state: when \<^term>\<open>JPEG_FWParseHead\<close> reports a result, success or failure, the codec record has
  its shape: no table has grown, and no table number or sampling factor is out of the range of its field.  The
  function does not return early.  Runs that leave a table are not excluded here.\<close>

theorem ParseHead_keeps_shape:
  "case JPEG_FWParseHead buf_ptr buf_size bitstream reads d of
     JOk _ d' \<Rightarrow> codec_shape (dcodec d') | JFail _ \<Rightarrow> False | JFault \<Rightarrow> True"
proof -
  define R :: "(bool \<times> u32, jdec) jres \<Rightarrow> bool" where
    "R r \<longleftrightarrow> (case r of JOk _ d' \<Rightarrow> codec_shape (dcodec d') | JFail _ \<Rightarrow> False | JFault \<Rightarrow> True)" for r
  let ?p = "\<lambda>res. if res then ParseHead_Res else ParseHead"
  have fault: "R JFault" by (simp add: R_def)
  have report: "R (jbind (if res then jret 12 else get_header_len) (\<lambda>n. jret (ok, n)) d1)"
    if "codec_shape (dcodec d1)" for res ok d1
    by (rule quiet_cases [where R = R, OF _ _ fault], intro quiet_rules) (use that in \<open>simp add: R_def jret_def\<close>)
  have parse: "kept (?p res d1)" if "codec_shape (dcodec d1)" for res d1
    using keepsD [OF keeps_ParseHead that] keepsD [OF keeps_ParseHead_Res that] by simp
  have finish: "R (case ?p res d1 of
        JOk _ d' \<Rightarrow> jbind (if res then jret 12 else get_header_len) (\<lambda>n. jret (True, n)) d'
      | JFail d' \<Rightarrow> jbind (if res then jret 12 else get_header_len) (\<lambda>n. jret (False, n)) d'
      | JFault \<Rightarrow> JFault)" if "codec_shape (dcodec d1)" for res d1
    using parse [OF that, of res] report fault by (cases "?p res d1") simp_all
  have "R (JPEG_FWParseHead buf_ptr buf_size bitstream reads d)"
    unfolding JPEG_FWParseHead_def jseq.simps jthen_def is_res_jpg_file_def set_codec_def jbind_assoc jbind_jmod
  proof (rule quiet_cases [where R = R, OF quiet_InitMem _ fault], goal_cases)
    case (1 u d1)
    then have d1: "codec_shape (dcodec d1)" by (simp add: codec_shape_zero)
    show ?case
      unfolding jbind_jmod
      by (rule quiet_cases [where R = R, OF quiet_InitBitream _ fault], unfold jbind_jret,
          rule quiet_cases [where R = R, OF quiet_match_id _ fault], rule finish)
        (use d1 in simp)
  qed
  then show ?thesis by (simp add: R_def)
qed

subsection \<open>Inputs that leave the tables\<close>

lemma jseq_append_fun: "jseq (ms @ ns) = jthen (jseq ms) (jseq ns)"
  by (rule ext) (rule jseq_append)

text \<open>A scan header with four components runs off the table map.  The number of components is
  only checked against the length of the segment, so the fourth component, announced in order,
  writes its table numbers behind the three entries of \<^verbatim>\<open>tbl_map\<close>.\<close>

theorem GetSOS_four_components:
  assumes "stream_ok d" "frame_known (view d)"
    and "jstream d = be16 14 @ [4, 1, xa, 2, xb, 3, xc, 4, xd] @ rest"
  shows "GetSOS d = JFault"
proof -
  let ?x = "\<lambda>i. [xa, xb, xc] ! i"
  let ?v = "(view d)\<lparr>dcodec := (dcodec (view d))\<lparr>comps_in_scan := 4\<rparr>\<rparr>"
  let ?w = "sos_comp_view 2 (?x 2) (sos_comp_view 1 (?x 1) (sos_comp_view 0 (?x 0) ?v))"
  have v: "frame_known ?v" using assms(2) by (simp add: frame_known_def)
  then have w: "frame_known ?w" by simp
  have fourth: "faults ?w (GetSOS_component 3) [4, xd]"
    unfolding GetSOS_component_def set_tbl_map_def
    by (rule faults_get_char, rule faults_get_char, rule faults_jseq(3) [OF consumes_jguard], simp,
        rule faults_now, rule faults_now, rule faults_jcheck)
      (use w in \<open>simp add: frame_known_def\<close>)
  have four: "[0..<4] = [0..<3] @ [3::nat]" by (simp add: upt_rec)
  have loop: "faults ?v (jfor [0..<4] GetSOS_component) (concat (map (\<lambda>i. [of_nat (i + 1), ?x i]) [0..<3])
      @ [4, xd] @ [])"
    unfolding four map_append jseq_append_fun list.map
    by (rule faults_then(2) [OF parse_scan_components [OF v]], rule faults_jseq(1), rule fourth)
  have n: "unat (4 :: u8) = 4" by simp
  have count: "consumes (view d) (set_codec (\<lambda>k. k\<lparr>comps_in_scan := 4\<rparr>)) [] () ?v"
    by (rule set_codec_to) simp
  have "faults (view d) GetSOS (be16 14 @ 4 # (concat (map (\<lambda>i. [of_nat (i + 1), ?x i]) [0..<3])
      @ [4, xd] @ []) @ [])"
    unfolding GetSOS_def
    by (rule faults_get_short_word, rule faults_jguard, simp, rule faults_get_char, unfold n,
        rule faults_jseq(3) [OF consumes_jguard], simp, rule faults_jseq(3) [OF count],
        rule faults_jseq(1) [OF loop])
  from faultsD [OF this assms(1) refl, of rest] assms(3) show ?thesis by (simp add: upt_3)
qed

theorem GetSOS_four_components_witness:
  "GetSOS ((sample_dec ([0, 14, 4, 1, 0, 2, 0x11, 3, 0x11, 4, 0x11] @ [9]))\<lparr>dcodec :=
     zero_codec\<lparr>num_components := 3, comp_info :=
       [zero_component\<lparr>component_id := 1\<rparr>, zero_component\<lparr>component_id := 2\<rparr>, zero_component\<lparr>component_id := 3\<rparr>]\<rparr>\<rparr>) = JFault"
proof -
  have "be16 14 = [0, 14]" by (simp add: be16_def hi8_def lo8_def)
  then show ?thesis
    by (intro GetSOS_four_components [where xa = 0 and xb = "0x11" and xc = "0x11" and xd = "0x11" and rest = "[9]"])
      (simp_all add: sample_dec_stream frame_known_def zero_codec_def zero_component_def)
qed

text \<open>The entries of a quantization table, when the block that was allocated for it has fewer than
  64 accessible bytes.\<close>

lemma faults_quant_entries:
  assumes "\<exists>j \<in> set js. \<not> jpeg_fw_zigzag_order ! j < length (quant_tbl (dcodec v) ! n)"
    and "length xs = length js" "n < length (quant_tbl (dcodec v))"
  shows "faults v (jfor js (\<lambda>j. jbind get_char (store_quant n (jpeg_fw_zigzag_order ! j)))) xs"
  using assms
proof (induction js arbitrary: v xs)
  case (Cons j js)
  then obtain x ys where xs: "xs = [x] @ ys" "length ys = length js" by (cases xs) auto
  let ?z = "jpeg_fw_zigzag_order ! j"
  show ?case
  proof (cases "?z < length (quant_tbl (dcodec v) ! n)")
    case False
    then have "faults v (store_quant n ?z x) []"
      unfolding store_quant_def by (intro faults_now faults_jcheck)
    then have "faults v (jbind get_char (store_quant n ?z)) [x]" by (rule faults_get_char)
    then show ?thesis unfolding list.map xs(1) by (rule faults_jseq(1))
  next
    case True
    let ?w = "v\<lparr>dcodec := (dcodec v)\<lparr>quant_tbl := (quant_tbl (dcodec v))[n := (quant_tbl (dcodec v) ! n)[?z := x]]\<rparr>\<rparr>"
    have "consumes v (store_quant n ?z x) [] () ?w"
      unfolding store_quant_def
      by (rule jthen_nothing, rule check_codec, rule True, rule set_codec_to) simp
    then have "consumes v (jbind get_char (store_quant n ?z)) [x] () ?w" by (rule jbind_get_char)
    moreover have "faults ?w (jfor js (\<lambda>j. jbind get_char (store_quant n (jpeg_fw_zigzag_order ! j)))) ys"
      using Cons.prems True xs(2) by (intro Cons.IH) auto
    ultimately show ?thesis unfolding list.map xs(1) by (rule faults_jseq(2))
  qed
qed simp

lemma consumes_alloc_short:
  assumes "room v \<le> unat n"
  shows "consumes v (JpegDec_ExtraMemAlloc n) [] (replicate (room v) 0)
    (v\<lparr>s_used_extra_mem := s_used_extra_mem v + ((n + 3) AND NOT 3)\<rparr>)"
  by (rule consumes_local)
    (use assms in \<open>auto simp: JpegDec_ExtraMemAlloc_def Let_def room_def min_absorb2\<close>)

text \<open>The arena does not refuse a request.  \<^verbatim>\<open>SCI_ASSERT\<close> is nothing in the build, so a
  quantization table that arrives when fewer than 64 bytes of the arena are left is written past its
  end.\<close>

theorem GetQuantTbl_exhausted_arena:
  assumes "stream_ok d" "room d < 64" "length (quant_tbl (dcodec d)) = 3" "n < 3" "length q = 64"
    and "jstream d = be16 67 @ [of_nat n] @ q @ rest"
  shows "GetQuantTbl d = JFault"
proof -
  let ?v = "(view d)\<lparr>dcodec := (dcodec d)\<lparr>using_default_quant_tab := False\<rparr>\<rparr>"
  let ?block = "replicate (room d) (0 :: u8)"
  let ?a = "?v\<lparr>s_used_extra_mem := s_used_extra_mem ?v + 64\<rparr>"
  let ?w = "?a\<lparr>dcodec := (dcodec ?a)\<lparr>quant_tbl := (quant_tbl (dcodec ?a))[n := ?block]\<rparr>\<rparr>"
  note byte = small_table_number [OF assms(4)]
  have room: "room ?v = room d" by (simp add: room_def)
  have alloc: "consumes ?v (JpegDec_ExtraMemAlloc 64) [] ?block ?a"
    using consumes_alloc_short [of ?v 64] assms(2) unfolding room by simp
  have put: "consumes ?a (set_quant n ?block) [] () ?w"
    unfolding set_quant_def
    by (rule jthen_nothing, rule check_codec, use assms(3,4) in simp, rule set_codec_to) simp
  have "jpeg_fw_zigzag_order ! 63 = 63" by (simp add: jpeg_fw_zigzag_order_def)
  then have "\<exists>j \<in> set [0..<64]. \<not> jpeg_fw_zigzag_order ! j < length (quant_tbl (dcodec ?w) ! n)"
    using assms(2-4) by (intro bexI [of _ 63]) simp_all
  then have entries: "faults ?w (read_quant8 n) q"
    unfolding read_quant8_def by (rule faults_quant_entries) (use assms(3-5) in simp_all)
  have "faults ?v read_quant_tbl (of_nat n # q @ [])"
    unfolding read_quant_tbl_def
    by (rule faults_get_char)
      (simp only: byte Let_def if_True simp_thms, rule faults_jguard, simp,
        rule faults_nothing [OF alloc], rule faults_then(3) [OF put], rule faults_then(1) [OF entries])
  then have table: "faults ?v (quant_tables 65 False) (of_nat n # q)"
    by (auto simp: faults_def quant_tables.simps)
  have "consumes (view d) (set_codec (\<lambda>k. k\<lparr>using_default_quant_tab := False\<rparr>)) [] () ?v"
    by (rule set_codec_to) simp
  note start = faults_then(3) [OF this]
  have "faults (view d) GetQuantTbl (be16 67 @ (of_nat n # q) @ [])"
    unfolding GetQuantTbl_def
    by (rule start, rule faults_get_short_word, rule faults_jguard, simp, rule faults_here)
      (use table in simp)
  from faultsD [OF this assms(1) refl, of rest] assms(6) show ?thesis by simp
qed

theorem GetQuantTbl_exhausted_arena_witness:
  "GetQuantTbl ((sample_dec (be16 67 @ [1] @ replicate 64 7 @ [9]))\<lparr>s_used_extra_mem := 4064\<rparr>) = JFault"
  by (rule GetQuantTbl_exhausted_arena [where n = 1 and q = "replicate 64 7" and rest = "[9]"])
    (simp_all add: sample_dec_stream room_def, simp_all add: sample_dec_def zero_codec_def)

end
