(* ===== verification/JpegBounds.thy ===== *)
theory JpegBounds
  imports JpegHeader
begin

text \<open>
  What the header parser does to its memory on any input.  Whatever bytes a segment has, its handler
  writes and reads inside the tables of the codec record, except on the inputs that four missing
  checks let through; these are said by \<open>segment_fits\<close>.  The proofs are by weakest preconditions, one rule
  for each statement.
\<close>

subsection \<open>Weakest preconditions\<close>

text \<open>Every run from the state that ends well has the property; a run that faults has none.\<close>

definition wp :: "'a jreader \<Rightarrow> ('a \<Rightarrow> jdec \<Rightarrow> bool) \<Rightarrow> jdec \<Rightarrow> bool" where
  "wp m Q d \<longleftrightarrow> (case m d of JOk a d' \<Rightarrow> stream_ok d' \<and> Q a d' | JFail _ \<Rightarrow> True | JFault \<Rightarrow> False)"

lemma wp_jbind: "wp m (\<lambda>a. wp (k a) Q) d \<Longrightarrow> wp (jbind m k) Q d"
  by (auto simp: wp_def jbind_def split: jres.splits)

lemma wp_jthen: "wp m (\<lambda>_. wp n Q) d \<Longrightarrow> wp (jthen m n) Q d"
  unfolding jthen_def by (rule wp_jbind)

lemma wp_conseq: "wp m Q d \<Longrightarrow> (\<And>a d'. stream_ok d' \<Longrightarrow> Q a d' \<Longrightarrow> R a d') \<Longrightarrow> wp m R d"
  by (auto simp: wp_def split: jres.splits)

lemma wp_values [simp]:
  "wp (jret a) Q d \<longleftrightarrow> stream_ok d \<and> Q a d" "wp jfail Q' d" "wp (jget g) Q'' d \<longleftrightarrow> stream_ok d \<and> Q'' (g d) d"
  by (simp_all add: wp_def jstmt)

lemma wp_simple [simp]:
  "wp (jguard b) Q d \<longleftrightarrow> (b \<longrightarrow> stream_ok d \<and> Q () d)"
  "wp (jcheck P) Q d \<longleftrightarrow> P d \<and> stream_ok d \<and> Q () d"
  "wp (jmod f) Q d \<longleftrightarrow> stream_ok (f d) \<and> Q () (f d)"
  "wp (set_codec h) Q d \<longleftrightarrow> stream_ok d \<and> Q () (d\<lparr>dcodec := h (dcodec d)\<rparr>)"
  by (auto simp: wp_def jstmt split: if_splits)

lemma wp_guarded: "stream_ok d \<Longrightarrow> (b \<Longrightarrow> wp n Q d) \<Longrightarrow> wp (jthen (jguard b) n) Q d"
  by (rule wp_jthen) simp

lemma wp_jseq: "wp m (\<lambda>_. wp (jseq ms) Q) d \<Longrightarrow> wp (jseq (m # ms)) Q d" "stream_ok d \<Longrightarrow> Q () d \<Longrightarrow> wp (jseq []) Q d"
  by (auto intro: wp_jthen)

lemma wp_if: "(b \<Longrightarrow> wp m Q d) \<Longrightarrow> (\<not> b \<Longrightarrow> wp n Q d) \<Longrightarrow> wp (if b then m else n) Q d"
  by simp

lemma wp_jseq_guard: "stream_ok d \<Longrightarrow> (b \<Longrightarrow> wp (jseq ms) Q d) \<Longrightarrow> wp (jseq (jguard b # ms)) Q d"
  by (rule wp_jseq) simp

lemma wp_get_char:
  assumes "stream_ok d" "\<And>c d'. stream_ok d' \<Longrightarrow> view d' = view d \<Longrightarrow> jstream d = c # jstream d' \<Longrightarrow> Q c d'"
  shows "wp get_char Q d"
proof (cases "jstream d")
  case Nil
  with get_char_end [OF assms(1)] show ?thesis by (auto simp: wp_def)
next
  case (Cons c cs)
  from get_char_stream [OF assms(1) Cons] obtain d' where
    "get_char d = JOk c d'" "stream_ok d'" "view d' = view d" "jstream d' = cs" by blast
  with assms(2) [of d' c] Cons show ?thesis by (simp add: wp_def)
qed

lemma wp_get_short_word:
  assumes "stream_ok d" "\<And>a b d'. stream_ok d' \<Longrightarrow> view d' = view d \<Longrightarrow> jstream d = a # b # jstream d' \<Longrightarrow> Q (mk16 a b) d'"
  shows "wp get_short_word Q d"
  unfolding get_short_word_def
  by (rule wp_jbind, rule wp_get_char [OF assms(1)], rule wp_jbind, rule wp_get_char, assumption)
    (auto intro!: assms(2))

lemma wp_consumes:
  assumes "consumes (view d) m [] a w" "stream_ok d"
    and "\<And>d'. stream_ok d' \<Longrightarrow> view d' = w \<Longrightarrow> jstream d' = jstream d \<Longrightarrow> Q a d'"
  shows "wp m Q d"
proof -
  from assms(1,2) obtain d' where "m d = JOk a d'" "stream_ok d'" "view d' = w" "jstream d' = jstream d"
    by (rule consumesD [where rest = "jstream d"]) simp_all
  with assms(3) show ?thesis by (simp add: wp_def)
qed

text \<open>A loop with an invariant over the number of rounds.\<close>

lemma wp_jfor:
  assumes "stream_ok d" "I 0 d"
    and "\<And>i d. i < length xs \<Longrightarrow> stream_ok d \<Longrightarrow> I i d \<Longrightarrow> wp (body (xs ! i)) (\<lambda>_. I (Suc i)) d"
  shows "wp (jfor xs body) (\<lambda>_. I (length xs)) d"
  using assms
proof (induction xs arbitrary: d I)
  case (Cons x xs)
  from Cons.prems(3) [of 0 d] Cons.prems(1,2) have "wp (body x) (\<lambda>_. I (Suc 0)) d" by simp
  then have "wp (body x) (\<lambda>_. wp (jfor xs body) (\<lambda>_. I (length (x # xs)))) d"
  proof (rule wp_conseq)
    fix d' assume d': "stream_ok d'" "I (Suc 0) d'"
    have "wp (jfor xs body) (\<lambda>_. I (Suc (length xs))) d'"
      by (rule Cons.IH [of d' "\<lambda>i. I (Suc i)", OF d']) (use Cons.prems(3) [of "Suc _"] in simp)
    then show "wp (jfor xs body) (\<lambda>_. I (length (x # xs))) d'" by simp
  qed
  then show ?case unfolding list.map by (rule wp_jseq(1))
qed simp

subsection \<open>The memory that the parser writes\<close>

text \<open>The lengths of the tables, the components and what is left of the arena.\<close>

definition dims :: "huff_tbl \<Rightarrow> nat \<times> nat" where
  "dims t = (length (hbits t), length (huffval t))"

definition memory_shape :: "jdec \<Rightarrow> nat list \<times> (nat \<times> nat) list \<times> (nat \<times> nat) list \<times> nat \<times> nat \<times> u8 \<times> nat \<times> bool \<times> nat" where
  "memory_shape d = (let k = dcodec d in (map length (quant_tbl k), map dims (dc_huff_tbl k), map dims (ac_huff_tbl k),
     length (tbl_map k), length (comp_id_map k), num_components k, length (comp_info k), g_huff_tbl_malloced d, room d))"

lemma view_same:
  assumes "view d' = view d"
  shows "dcodec d' = dcodec d" "g_huff_tbl_malloced d' = g_huff_tbl_malloced d" "room d' = room d" "memory_shape d' = memory_shape d"
proof -
  show codec: "dcodec d' = dcodec d" and malloced: "g_huff_tbl_malloced d' = g_huff_tbl_malloced d"
    using assms view_fields(1,4) by metis+
  show room: "room d' = room d" unfolding room_def using assms view_fields(2,3) by metis
  show "memory_shape d' = memory_shape d" unfolding memory_shape_def codec malloced room ..
qed

lemma memory_shape_codec:
  "memory_shape (d\<lparr>dcodec := k\<rparr>) = memory_shape d \<longleftrightarrow> map length (quant_tbl k) = map length (quant_tbl (dcodec d))
    \<and> map dims (dc_huff_tbl k) = map dims (dc_huff_tbl (dcodec d)) \<and> map dims (ac_huff_tbl k) = map dims (ac_huff_tbl (dcodec d))
    \<and> length (tbl_map k) = length (tbl_map (dcodec d)) \<and> length (comp_id_map k) = length (comp_id_map (dcodec d))
    \<and> num_components k = num_components (dcodec d) \<and> length (comp_info k) = length (comp_info (dcodec d))"
  by (auto simp: memory_shape_def Let_def)

lemma map_update_same: "f (g (xs ! n)) = f (xs ! n) \<Longrightarrow> map f (xs[n := g (xs ! n)]) = map f xs"
  by (metis list_update_id map_update)

subsection \<open>Huffman tables\<close>

lemma huff_tbls_shape:
  assumes "memory_shape d' = memory_shape d"
  shows "map dims (huff_tbls ac (dcodec d')) = map dims (huff_tbls ac (dcodec d))"
  using assms by (simp add: memory_shape_def huff_tbls_def Let_def)

definition huff_sized :: "jdec \<Rightarrow> bool" where
  "huff_sized d \<longleftrightarrow> map dims (dc_huff_tbl (dcodec d)) = replicate 4 (17, 257) \<and> map dims (ac_huff_tbl (dcodec d)) = replicate 4 (17, 257)"

lemma huff_sized_table:
  assumes "huff_sized d" "n < 4"
  shows "n < length (huff_tbls ac (dcodec d))" "length (hbits (huff_tbls ac (dcodec d) ! n)) = 17"
    "length (huffval (huff_tbls ac (dcodec d) ! n)) = 257"
proof -
  have m: "map dims (huff_tbls ac (dcodec d)) = replicate 4 (17, 257)" using assms(1) by (simp add: huff_sized_def huff_tbls_def)
  then have len: "length (huff_tbls ac (dcodec d)) = 4" by (metis length_map length_replicate)
  with assms(2) show "n < length (huff_tbls ac (dcodec d))" by simp
  have "dims (huff_tbls ac (dcodec d) ! n) = (17, 257)" using m assms(2) len by (metis nth_map nth_replicate)
  then show "length (hbits (huff_tbls ac (dcodec d) ! n)) = 17" "length (huffval (huff_tbls ac (dcodec d) ! n)) = 257"
    by (simp_all add: dims_def)
qed

lemma huff_sized_shape: "memory_shape d' = memory_shape d \<Longrightarrow> huff_sized d' = huff_sized d"
  by (simp add: memory_shape_def huff_sized_def Let_def)

lemma wp_set_huff:
  assumes "stream_ok d" "n < length (huff_tbls ac (dcodec d))" "\<And>t. dims (f t) = dims t"
    and "\<And>d'. stream_ok d' \<Longrightarrow> memory_shape d' = memory_shape d \<Longrightarrow> jstream d' = jstream d \<Longrightarrow> Q () d'"
  shows "wp (set_huff ac n f) Q d"
  unfolding set_huff_def
  by (rule wp_jthen) (use assms in \<open>auto intro!: assms(4) simp: memory_shape_codec map_update_same\<close>)

lemma wp_store_huff:
  assumes "stream_ok d" "huff_sized d" "n < 4"
    and "\<And>d'. stream_ok d' \<Longrightarrow> memory_shape d' = memory_shape d \<Longrightarrow> jstream d' = jstream d \<Longrightarrow> Q () d'"
  shows "i < 17 \<Longrightarrow> wp (store_bits ac n i c) Q d" "i < 257 \<Longrightarrow> wp (store_huffval ac n i c) Q d"
    "i < length tbl \<Longrightarrow> wp (compare_default tbl i c) Q d"
proof -
  note sized = huff_sized_table [OF assms(2,3), of ac]
  show "i < 17 \<Longrightarrow> wp (store_bits ac n i c) Q d"
    unfolding store_bits_def
    by (rule wp_jthen) (use sized assms(1) in \<open>auto intro!: wp_set_huff assms(4) simp: dims_def\<close>)
  show "i < 257 \<Longrightarrow> wp (store_huffval ac n i c) Q d"
    unfolding store_huffval_def
    by (rule wp_jthen) (use sized assms(1) in \<open>auto intro!: wp_set_huff assms(4) simp: dims_def\<close>)
  show "i < length tbl \<Longrightarrow> wp (compare_default tbl i c) Q d"
    unfolding compare_default_def
    by (rule wp_jthen) (use assms(1) in \<open>auto intro!: assms(4) simp: memory_shape_codec\<close>)
qed

lemma wp_read_bits:
  assumes "stream_ok d" "huff_sized d" "n < 4" "\<forall>i \<in> set is. i < 17"
  shows "wp (read_bits ac n is count) (\<lambda>r d'. memory_shape d' = memory_shape d \<and> length is \<le> length (jstream d)
    \<and> jstream d' = drop (length is) (jstream d) \<and> r = count + sum_list (map ucast (take (length is) (jstream d)))) d"
  using assms
proof (induction ac n "is" count arbitrary: d rule: read_bits.induct)
  case (2 ac n i "is" count)
  show ?case unfolding read_bits.simps
  proof (rule wp_jbind, rule wp_get_char, rule "2.prems"(1))
    fix c d1 assume d1: "stream_ok d1" "view d1 = view d" "jstream d = c # jstream d1"
    have s1: "huff_sized d1" using huff_sized_shape view_same(4) [OF d1(2)] "2.prems"(2) by metis
    show "wp (jthen (store_bits ac n i c) (jthen (compare_default (default_bits ac n) i c) (read_bits ac n is (count + ucast c))))
      (\<lambda>r d'. memory_shape d' = memory_shape d \<and> length (i # is) \<le> length (jstream d)
        \<and> jstream d' = drop (length (i # is)) (jstream d)
        \<and> r = count + sum_list (map ucast (take (length (i # is)) (jstream d)))) d1"
    proof (rule wp_jthen, rule wp_store_huff(1) [OF d1(1) s1 "2.prems"(3)], rule wp_jthen, goal_cases)
      case (1 d2)
      have s2: "huff_sized d2" using huff_sized_shape [OF 1(2)] s1 by simp
      show ?case
      proof (rule wp_store_huff(3) [OF 1(1) s2 "2.prems"(3)], goal_cases)
        case (1 d3)
        have s3: "huff_sized d3" using huff_sized_shape [OF 1(2)] s2 by simp
        have "\<forall>i \<in> set is. i < 17" using "2.prems"(4) by simp
        from "2.IH" [OF 1(1) s3 "2.prems"(3) this, of c] show ?case
          by (rule wp_conseq) (use \<open>memory_shape d2 = memory_shape d1\<close> \<open>jstream d2 = jstream d1\<close> 1 d1 view_same(4) [OF d1(2)] in
            \<open>auto simp: algebra_simps\<close>)
      qed (use "2.prems"(4) in simp)
    qed (use "2.prems"(4) in simp)
  qed
qed simp

lemma length_default_huffval: "length (default_huffval ac n) = (if ac then 256 else 12)"
  by (simp add: default_huffval_def jpeg_fw_lum_ac_huffvalue_default_def jpeg_fw_chr_ac_huffvalue_default_def
      jpeg_fw_lum_dc_huffvalue_default_def jpeg_fw_chr_dc_huffvalue_default_def)

lemma wp_read_huffval:
  assumes "stream_ok d" "huff_sized d" "n < 4" "count \<le> (if ac then 256 else 12)"
  shows "wp (read_huffval ac n count) (\<lambda>_ d'. memory_shape d' = memory_shape d \<and> count \<le> length (jstream d)
    \<and> jstream d' = drop count (jstream d)) d"
proof -
  let ?I = "\<lambda>i d'. memory_shape d' = memory_shape d \<and> i \<le> length (jstream d) \<and> jstream d' = drop i (jstream d)"
  have "wp (read_huffval ac n count) (\<lambda>_. ?I (length [0..<count])) d"
    unfolding read_huffval_def
  proof (rule wp_jfor [where I = ?I])
    fix i d0 assume i: "i < length [0..<count]" "stream_ok d0" "?I i d0"
    then have bounds: "[0..<count] ! i < 257" "[0..<count] ! i < length (default_huffval ac n)"
      using assms(4) by (auto simp: length_default_huffval split: if_splits)
    show "wp (jbind get_char (\<lambda>c. jthen (store_huffval ac n ([0..<count] ! i) c)
        (compare_default (default_huffval ac n) ([0..<count] ! i) c))) (\<lambda>_. ?I (Suc i)) d0"
    proof (rule wp_jbind, rule wp_get_char, rule i(2), rule wp_jthen)
      fix c d1 assume d1: "stream_ok d1" "view d1 = view d0" "jstream d0 = c # jstream d1"
      have s1: "huff_sized d1" using huff_sized_shape view_same(4) [OF d1(2)] i(3) assms(2) by metis
      have j1: "Suc i \<le> length (jstream d)" "jstream d1 = drop (Suc i) (jstream d)"
        using i(3) d1(3) by (metis length_drop length_Cons Suc_leI zero_less_diff zero_less_Suc, metis drop_Suc list.sel(3) tl_drop)
      show "wp (store_huffval ac n ([0..<count] ! i) c) (\<lambda>_. wp (compare_default (default_huffval ac n) ([0..<count] ! i) c) (\<lambda>_. ?I (Suc i))) d1"
      proof (rule wp_store_huff(2) [OF d1(1) s1 assms(3) _ bounds(1)])
        fix d2 assume d2: "stream_ok d2" "memory_shape d2 = memory_shape d1" "jstream d2 = jstream d1"
        have s2: "huff_sized d2" using huff_sized_shape [OF d2(2)] s1 by simp
        show "wp (compare_default (default_huffval ac n) ([0..<count] ! i) c) (\<lambda>_. ?I (Suc i)) d2"
          by (rule wp_store_huff(3) [OF d2(1) s2 assms(3) _ bounds(2)])
            (use d2 j1 view_same(4) [OF d1(2)] i(3) in simp)
      qed
    qed
  qed (use assms(1) in simp_all)
  then show ?thesis by simp
qed

text \<open>The number of the table: bits 0 and 1, whatever the others are.\<close>

lemma table_number_bounded:
  fixes c :: u8
  shows "unat (if (c AND 0x13) AND 0x10 \<noteq> 0 then (c AND 0x13) - 0x10 else c AND 0x13) < 4"
proof (cases "(c AND 0x13) AND 0x10 = 0")
  case True
  then have "bit ((c AND 0x13) AND 0x10) 4 \<longleftrightarrow> bit (0 :: u8) 4" by simp
  then have clear: "\<not> bit c 4" by (simp add: bit_simps)
  have "c AND 0x13 = (c AND 0x13) AND 3"
  proof (rule bit_word_eqI)
    fix n assume "n < LENGTH(8)"
    then have "n \<in> {0, 1, 2, 3, 4, 5, 6, 7}" by auto
    with clear show "bit (c AND 0x13) n \<longleftrightarrow> bit ((c AND 0x13) AND 3) n" by (auto simp: bit_simps)
  qed
  also have "\<dots> \<le> 3" by (rule word_and_le1)
  finally show ?thesis using True by (simp add: word_le_nat_alt)
next
  case False
  have "c AND 0x13 \<le> 0x13" by (rule word_and_le1)
  then have "unat (c AND 0x13) \<le> 19" by (simp add: word_le_nat_alt)
  moreover have "16 \<le> unat (c AND 0x13)"
  proof -
    have masked: "bit ((c AND 0x13) AND 0x10) n \<longleftrightarrow> bit c 4 \<and> n = 4" if "n < LENGTH(8)" for n
    proof -
      have "n \<in> {0, 1, 2, 3, 4, 5, 6, 7}" using that by auto
      then show ?thesis by (auto simp: bit_simps)
    qed
    have "bit c 4"
    proof (rule ccontr)
      assume "\<not> bit c 4"
      then have "(c AND 0x13) AND 0x10 = 0" by (intro bit_word_eqI) (simp only: masked, simp)
      with False show False by simp
    qed
    then have "(c AND 0x13) AND 0x10 = 0x10"
    proof (intro bit_word_eqI)
      fix n assume c4: "bit c 4" and n: "n < LENGTH(8)"
      then have "n \<in> {0, 1, 2, 3, 4, 5, 6, 7}" by auto
      with c4 show "bit ((c AND 0x13) AND 0x10) n \<longleftrightarrow> bit (0x10 :: u8) n"
        unfolding masked [OF n] by (auto simp: bit_simps)
    qed
    then show ?thesis using word_and_le2 [of "c AND 0x13" "0x10"] by (simp add: word_le_nat_alt)
  qed
  ultimately show ?thesis using False by (simp add: unat_sub word_le_nat_alt)
qed

lemma sum_bytes:
  fixes bs :: bytes
  assumes "length bs \<le> 16"
  shows "unat (sum_list (map ucast bs) :: u16) = sum_list (map unat bs)"
proof -
  have "sum_list (map unat bs) \<le> 255 * length bs \<and> unat (sum_list (map ucast bs) :: u16) = sum_list (map unat bs)"
    if "length bs \<le> 256" for bs :: bytes
    using that
  proof (induction bs)
    case (Cons b bs)
    then have IH: "sum_list (map unat bs) \<le> 255 * length bs" "unat (sum_list (map ucast bs) :: u16) = sum_list (map unat bs)" by simp_all
    have b: "unat (ucast b :: u16) = unat b" "unat b \<le> 255"
      using unat_u8_le [of b] by (simp_all add: unsigned_ucast_eq take_bit_nat_eq_self_iff le_less_trans [OF unat_u8_le])
    have "length bs \<le> 255" "(2 :: nat) ^ 16 = 65536" using Cons.prems by simp_all
    then have "unat b + sum_list (map unat bs) < 2 ^ 16" using b(2) IH(1) by linarith
    then show ?case using IH b add_mono [OF b(2) IH(1)] by (simp add: unat_word_ariths)
  qed simp
  with assms show ?thesis by simp
qed

text \<open>One table.  With more than 256 symbols it is refused; a DC table of more than 12 is compared with a default table of 12.\<close>

definition table_counts :: "bytes \<Rightarrow> nat" where
  "table_counts r = sum_list (map unat (take 16 r))"

definition symbol_room :: "u8 \<Rightarrow> nat" where
  "symbol_room c = (if c AND 0x10 \<noteq> 0 then 256 else 12)"

lemma wp_read_huff_tbl:
  assumes "stream_ok d" "huff_sized d"
    and fits: "\<And>c r. jstream d = c # r \<Longrightarrow> 16 \<le> length r \<Longrightarrow> table_counts r \<le> 256 \<Longrightarrow> table_counts r \<le> symbol_room c"
  shows "wp read_huff_tbl (\<lambda>count d'. memory_shape d' = memory_shape d \<and> unat count \<le> 256 \<and> (\<exists>c r. jstream d = c # r \<and> 16 + unat count \<le> length r
    \<and> unat count = table_counts r \<and> jstream d' = drop (16 + unat count) r)) d"
  unfolding read_huff_tbl_def
proof (rule wp_jbind, rule wp_get_char [OF assms(1)])
  fix c d1 assume d1: "stream_ok d1" "view d1 = view d" "jstream d = c # jstream d1"
  let ?i = "c AND 0x13"
  let ?ac = "?i AND 0x10 \<noteq> 0"
  let ?n = "unat (if ?ac then ?i - 0x10 else ?i)"
  let ?r = "jstream d1"
  have s1: "huff_sized d1" using huff_sized_shape [OF view_same(4) [OF d1(2)]] assms(2) by simp
  have n: "?n < 4" by (rule table_number_bounded)
  have ac: "?ac \<longleftrightarrow> c AND 0x10 \<noteq> 0" by (simp add: and.assoc)
  let ?Q = "\<lambda>count d'. memory_shape d' = memory_shape d \<and> unat count \<le> 256 \<and> (\<exists>c r. jstream d = c # r \<and> 16 + unat count \<le> length r
    \<and> unat count = table_counts r \<and> jstream d' = drop (16 + unat count) r)"
  show "wp (let index = ?i; ac = index AND 0x10 \<noteq> 0; n = unat (if ac then index - 0x10 else index)
     in jthen (store_bits ac n 0 0) (jbind (read_bits ac n [1..<17] 0) (\<lambda>count. jthen (jguard (\<not> count > 256))
        (jthen (read_huffval ac n (unat count)) (jret count))))) ?Q d1"
    unfolding Let_def
  proof (rule wp_jthen, rule wp_store_huff(1) [OF d1(1) s1 n], rule wp_jbind)
    fix d2 assume d2: "stream_ok d2" "memory_shape d2 = memory_shape d1" "jstream d2 = ?r"
    have s2: "huff_sized d2" using huff_sized_shape [OF d2(2)] s1 by simp
    have "wp (read_bits ?ac ?n [1..<17] 0) (\<lambda>r d'. memory_shape d' = memory_shape d2 \<and> length [1..<17] \<le> length (jstream d2)
      \<and> jstream d' = drop (length [1..<17]) (jstream d2) \<and> r = 0 + sum_list (map ucast (take (length [1..<17]) (jstream d2)))) d2"
      by (rule wp_read_bits [OF d2(1) s2 n]) simp
    then show "wp (read_bits ?ac ?n [1..<17] 0) (\<lambda>count. wp (jthen (jguard (\<not> count > 256))
        (jthen (read_huffval ?ac ?n (unat count)) (jret count))) ?Q) d2"
    proof (rule wp_conseq, elim conjE)
      fix count :: u16 and d3
      assume d3: "stream_ok d3" "memory_shape d3 = memory_shape d2" "length [1..<17] \<le> length (jstream d2)"
        "jstream d3 = drop (length [1..<17]) (jstream d2)" "count = 0 + sum_list (map ucast (take (length [1..<17]) (jstream d2)))"
      have r: "16 \<le> length ?r" "jstream d3 = drop 16 ?r" using d3(3,4) d2(3) by simp_all
      have count: "unat count = table_counts ?r" using d3(5) d2(3) sum_bytes [of "take 16 ?r"] by (simp add: table_counts_def)
      have s3: "huff_sized d3" using huff_sized_shape [OF d3(2)] s2 by simp
      show "wp (jthen (jguard (\<not> count > 256)) (jthen (read_huffval ?ac ?n (unat count)) (jret count))) ?Q d3"
      proof (rule wp_jthen, simp only: wp_simple, intro impI conjI d3(1))
        assume "\<not> 256 < count"
        then have small: "table_counts ?r \<le> 256" using count by (simp add: word_less_nat_alt)
        from fits [OF d1(3) r(1) small] have le: "unat count \<le> (if ?ac then 256 else 12)"
          unfolding count ac symbol_room_def .
        show "wp (jthen (read_huffval ?ac ?n (unat count)) (jret count)) ?Q d3"
          by (rule wp_jthen, rule wp_conseq [OF wp_read_huffval [OF d3(1) s3 n le]])
            (use small d1(3) d2 d3(2) r count view_same(4) [OF d1(2)] in \<open>auto simp: add.commute\<close>)
      qed
    qed
  qed simp
qed

text \<open>The tables of a segment, as a check of its bytes.\<close>

function symbols_fit :: "nat \<Rightarrow> bytes \<Rightarrow> bool" where
  "symbols_fit len [] = True"
| "symbols_fit len (c # r) = (len = 0 \<or> length r < 16 \<or> 256 < table_counts r
     \<or> (table_counts r \<le> symbol_room c \<and> (17 + table_counts r \<le> len \<longrightarrow>
          symbols_fit (len - (17 + table_counts r)) (drop (16 + table_counts r) r))))"
  by pat_completeness auto
termination by (relation "measure fst") auto

lemma wp_huff_tables:
  assumes "stream_ok d" "huff_sized d" "symbols_fit (unat len) (jstream d)"
  shows "wp (huff_tables len) (\<lambda>_ d'. memory_shape d' = memory_shape d) d"
  using assms
proof (induction len d rule: huff_tables.induct)
  case (1 len d)
  show ?case
  proof (cases "0 < len")
    case True
    then have "unat len \<noteq> 0" by (simp add: unat_gt_0 word_less_nat_alt)
    then have fits: "\<And>c r. jstream d = c # r \<Longrightarrow> 16 \<le> length r \<Longrightarrow> table_counts r \<le> 256 \<Longrightarrow> table_counts r \<le> symbol_room c
        \<and> (17 + table_counts r \<le> unat len \<longrightarrow> symbols_fit (unat len - (17 + table_counts r)) (drop (16 + table_counts r) r))"
      using "1.prems"(3) by auto
    from wp_read_huff_tbl [OF "1.prems"(1,2)] fits
    have table: "wp read_huff_tbl (\<lambda>count d'. memory_shape d' = memory_shape d \<and> unat count \<le> 256 \<and> (\<exists>c r. jstream d = c # r \<and> 16 + unat count \<le> length r
      \<and> unat count = table_counts r \<and> jstream d' = drop (16 + unat count) r)) d" by blast
    show ?thesis
    proof (cases "read_huff_tbl d")
      case (JOk count d1)
      with table obtain c r where d1: "stream_ok d1" "memory_shape d1 = memory_shape d" "jstream d = c # r" "16 + unat count \<le> length r"
          "unat count = table_counts r" "jstream d1 = drop (16 + unat count) r" "unat count \<le> 256"
        by (auto simp: wp_def)
      show ?thesis
      proof (cases "unat len < 1 + 16 + unat count")
        case False
        have sub: "unat (len - (1 + 16 + count)) = unat len - (17 + unat count)"
          using False unat_17_plus [OF False] by (simp add: unat_sub word_le_nat_alt)
        have small: "table_counts r \<le> 256"
          using d1(5,7) by simp
        have "symbols_fit (unat (len - (1 + 16 + count))) (jstream d1)"
          using fits [OF d1(3) _ small] d1(4-6) False unfolding sub by simp
        with "1.IH" [OF True JOk False d1(1)] huff_sized_shape [OF d1(2)] "1.prems"(2) d1(2) True False JOk
        show ?thesis by (simp add: wp_def huff_tables.simps [of len d])
      qed (use True JOk in \<open>simp add: wp_def huff_tables.simps [of len d]\<close>)
    qed (use True table in \<open>simp_all add: wp_def huff_tables.simps [of len d]\<close>)
  qed (use "1.prems"(1) in \<open>simp add: wp_def huff_tables.simps [of len d]\<close>)
qed

subsection \<open>Quantization tables\<close>

definition quant_lengths :: "jdec \<Rightarrow> nat list" where
  "quant_lengths d = map length (quant_tbl (dcodec d))"

definition rest_shape :: "jdec \<Rightarrow> (nat \<times> nat) list \<times> (nat \<times> nat) list \<times> nat \<times> nat \<times> u8 \<times> nat \<times> bool" where
  "rest_shape d = (let k = dcodec d in (map dims (dc_huff_tbl k), map dims (ac_huff_tbl k), length (tbl_map k), length (comp_id_map k),
     num_components k, length (comp_info k), g_huff_tbl_malloced d))"

lemma memory_shape_parts: "memory_shape d' = memory_shape d \<longleftrightarrow> quant_lengths d' = quant_lengths d \<and> rest_shape d' = rest_shape d \<and> room d' = room d"
  by (auto simp: memory_shape_def quant_lengths_def rest_shape_def Let_def)

lemma wp_alloc:
  assumes "stream_ok d" "unat n \<le> room d" "unat ((n + 3) AND NOT 3) \<le> room d"
    and "\<And>d'. stream_ok d' \<Longrightarrow> jstream d' = jstream d \<Longrightarrow> dcodec d' = dcodec d \<Longrightarrow> g_huff_tbl_malloced d' = g_huff_tbl_malloced d
      \<Longrightarrow> room d' = room d - unat ((n + 3) AND NOT 3) \<Longrightarrow> Q (replicate (unat n) 0) d'"
  shows "wp (JpegDec_ExtraMemAlloc n) Q d"
proof -
  have view: "room (view d) = room d" by (simp add: room_def)
  show ?thesis
  proof (rule wp_consumes [OF consumes_alloc assms(1)])
    show "unat n \<le> room (view d)" using assms(2) by (simp only: view)
    fix d' assume d': "stream_ok d'"
      "view d' = (view d)\<lparr>s_used_extra_mem := s_used_extra_mem (view d) + ((n + 3) AND NOT 3)\<rparr>" "jstream d' = jstream d"
    let ?w = "d\<lparr>s_used_extra_mem := s_used_extra_mem d + ((n + 3) AND NOT 3)\<rparr>"
    from d'(2) have same: "view d' = view ?w" by simp
    show "Q (replicate (unat n) 0) d'"
      using d'(1,3) view_same(1-3) [OF same] room_alloc [OF assms(3)] by (intro assms(4)) simp_all
  qed
qed

lemma zigzag_bound: "j < 64 \<Longrightarrow> jpeg_fw_zigzag_order ! j < 64"
proof -
  assume j: "j < 64"
  have "list_all (\<lambda>n. n < 64) jpeg_fw_zigzag_order" "length jpeg_fw_zigzag_order = 80" by (simp_all add: jpeg_fw_zigzag_order_def)
  with j show ?thesis by (simp add: list_all_length)
qed

lemma wp_store_quant:
  assumes "stream_ok d" "length (quant_tbl (dcodec d) ! n) = 64" "j < 64"
    and "\<And>d'. stream_ok d' \<Longrightarrow> memory_shape d' = memory_shape d \<Longrightarrow> jstream d' = jstream d \<Longrightarrow> Q () d'"
  shows "wp (store_quant n j c) Q d"
proof -
  have "map length ((quant_tbl (dcodec d))[n := (quant_tbl (dcodec d) ! n)[j := c]]) = map length (quant_tbl (dcodec d))"
    by (rule map_update_same [where g = "\<lambda>q. q[j := c]"]) simp
  then show ?thesis unfolding store_quant_def
    by (intro wp_jthen) (use assms(1-3) in \<open>auto intro!: assms(4) simp: memory_shape_codec\<close>)
qed

lemma quant_length_same:
  assumes "memory_shape d' = memory_shape d" "n < length (quant_tbl (dcodec d))"
  shows "length (quant_tbl (dcodec d') ! n) = length (quant_tbl (dcodec d) ! n)" "length (quant_tbl (dcodec d')) = length (quant_tbl (dcodec d))"
proof -
  have "map length (quant_tbl (dcodec d')) = map length (quant_tbl (dcodec d))"
    using assms(1) by (simp add: memory_shape_parts quant_lengths_def)
  with assms(2) show "length (quant_tbl (dcodec d') ! n) = length (quant_tbl (dcodec d) ! n)" "length (quant_tbl (dcodec d')) = length (quant_tbl (dcodec d))"
    by (metis length_map nth_map, metis length_map)
qed

lemma wp_read_quant:
  assumes "stream_ok d" "n < length (quant_tbl (dcodec d))" "length (quant_tbl (dcodec d) ! n) = 64"
  shows "wp (read_quant8 n) (\<lambda>_ d'. memory_shape d' = memory_shape d \<and> jstream d' = drop 64 (jstream d)) d"
    "wp (read_quant16 n) (\<lambda>_ d'. memory_shape d' = memory_shape d \<and> jstream d' = drop 128 (jstream d)) d"
proof -
  let ?I = "\<lambda>m i d'. memory_shape d' = memory_shape d \<and> jstream d' = drop (m * i) (jstream d)"
  have q: "length (quant_tbl (dcodec d') ! n) = 64" if "memory_shape d' = memory_shape d" for d'
    using quant_length_same(1) [OF that assms(2)] assms(3) by simp
  have after1: "jstream d2 = drop (Suc i) (jstream d)" if "jstream d0 = drop i (jstream d)" "jstream d0 = c # jstream d2" for i c d0 d2
    using that by (metis drop_Suc list.sel(3) tl_drop)
  have after2: "jstream d2 = drop (2 * Suc i) (jstream d)" if "jstream d0 = drop (2 * i) (jstream d)" "jstream d0 = a # b # jstream d2" for i a b d0 d2
  proof -
    have "drop 2 (jstream d0) = jstream d2" using that(2) by simp
    then show ?thesis using that(1) by simp
  qed
  have "wp (read_quant8 n) (\<lambda>_. ?I 1 (length [0..<64])) d"
    unfolding read_quant8_def
  proof (rule wp_jfor [where I = "?I 1"])
    fix i d0 assume i: "i < length [0..<64]" "stream_ok d0" "?I 1 i d0"
    show "wp (jbind get_char (store_quant n (jpeg_fw_zigzag_order ! ([0..<64] ! i)))) (\<lambda>_. ?I 1 (Suc i)) d0"
    proof (rule wp_jbind, rule wp_get_char [OF i(2)])
      fix c d1 assume d1: "stream_ok d1" "view d1 = view d0" "jstream d0 = c # jstream d1"
      have s1: "memory_shape d1 = memory_shape d" using view_same(4) [OF d1(2)] i(3) by simp
      have j1: "jstream d1 = drop (Suc i) (jstream d)" using i(3) d1(3) by (intro after1 [of d0 i c d1]) simp_all
      have z: "jpeg_fw_zigzag_order ! ([0..<64] ! i) < 64" using i(1) zigzag_bound [of i] by simp
      show "wp (store_quant n (jpeg_fw_zigzag_order ! ([0..<64] ! i)) c) (\<lambda>_. ?I 1 (Suc i)) d1"
        by (rule wp_store_quant [OF d1(1) q [OF s1] z]) (simp add: s1 j1)
    qed
  qed (use assms(1) in simp_all)
  then show "wp (read_quant8 n) (\<lambda>_ d'. memory_shape d' = memory_shape d \<and> jstream d' = drop 64 (jstream d)) d" by simp
  have "wp (read_quant16 n) (\<lambda>_. ?I 2 (length [0..<64])) d"
    unfolding read_quant16_def
  proof (rule wp_jfor [where I = "?I 2"])
    fix i d0 assume i: "i < length [0..<64]" "stream_ok d0" "?I 2 i d0"
    show "wp (jbind get_short_word (\<lambda>c. store_quant n (jpeg_fw_zigzag_order ! ([0..<64] ! i)) (ucast c))) (\<lambda>_. ?I 2 (Suc i)) d0"
    proof (rule wp_jbind, rule wp_get_short_word [OF i(2)])
      fix a b d1 assume d1: "stream_ok d1" "view d1 = view d0" "jstream d0 = a # b # jstream d1"
      have s1: "memory_shape d1 = memory_shape d" using view_same(4) [OF d1(2)] i(3) by simp
      have j1: "jstream d1 = drop (2 * Suc i) (jstream d)" using i(3) d1(3) by (intro after2 [of d0 i a b d1]) simp_all
      have z: "jpeg_fw_zigzag_order ! ([0..<64] ! i) < 64" using i(1) zigzag_bound [of i] by simp
      show "wp (store_quant n (jpeg_fw_zigzag_order ! ([0..<64] ! i)) (ucast (mk16 a b))) (\<lambda>_. ?I 2 (Suc i)) d1"
        by (rule wp_store_quant [OF d1(1) q [OF s1] z]) (simp only: s1 j1)
    qed
  qed (use assms(1) in simp_all)
  then show "wp (read_quant16 n) (\<lambda>_ d'. memory_shape d' = memory_shape d \<and> jstream d' = drop 128 (jstream d)) d" by simp
qed

lemma wp_read_quant_tbl:
  assumes "stream_ok d" "length (quant_tbl (dcodec d)) = 3" "64 \<le> room d"
  shows "wp read_quant_tbl (\<lambda>(prec, n) d'. rest_shape d' = rest_shape d \<and> room d' = room d - 64 \<and> \<not> n > 2
    \<and> quant_lengths d' = (quant_lengths d)[unat n := 64]
    \<and> (\<exists>b r. jstream d = b # r \<and> prec = drop_bit 4 b \<and> n = b AND 0x0F
        \<and> jstream d' = drop (if drop_bit 4 b = 0 then 64 else 128) r)) d"
  unfolding read_quant_tbl_def Let_def
proof (rule wp_jbind, rule wp_get_char [OF assms(1)], rule wp_guarded, assumption)
  fix b d1 assume d1: "stream_ok d1" "view d1 = view d" "jstream d = b # jstream d1" and n: "\<not> b AND 0x0F > 2"
  note same = view_same [OF d1(2)]
  let ?n = "unat (b AND 0x0F)"
  have n3: "?n < 3" using n by (simp add: word_less_nat_alt)
  let ?Q = "\<lambda>(prec, n) d'. rest_shape d' = rest_shape d \<and> room d' = room d - 64 \<and> \<not> n > 2
    \<and> quant_lengths d' = (quant_lengths d)[unat n := 64]
    \<and> (\<exists>b r. jstream d = b # r \<and> prec = drop_bit 4 b \<and> n = b AND 0x0F
        \<and> jstream d' = drop (if drop_bit 4 b = 0 then 64 else 128) r)"
  show "wp (jbind (JpegDec_ExtraMemAlloc 64) (\<lambda>block. jthen (set_quant ?n block)
      (jthen (if drop_bit 4 b = 0 then read_quant8 ?n else read_quant16 ?n) (jret (drop_bit 4 b, b AND 0x0F))))) ?Q d1"
  proof (rule wp_jbind, rule wp_alloc [OF d1(1)])
    fix d2 assume d2: "stream_ok d2" "jstream d2 = jstream d1" "dcodec d2 = dcodec d1"
      "g_huff_tbl_malloced d2 = g_huff_tbl_malloced d1" "room d2 = room d1 - unat ((64 + 3) AND NOT 3 :: u32)"
    let ?block = "replicate (unat (64 :: u32)) (0 :: u8)"
    let ?d3 = "d2\<lparr>dcodec := (dcodec d2)\<lparr>quant_tbl := (quant_tbl (dcodec d2))[?n := ?block]\<rparr>\<rparr>"
    have d3: "stream_ok ?d3" "?n < length (quant_tbl (dcodec ?d3))" "length (quant_tbl (dcodec ?d3) ! ?n) = 64"
      "jstream ?d3 = jstream d1" "rest_shape ?d3 = rest_shape d" "room ?d3 = room d - 64" "quant_lengths ?d3 = (quant_lengths d)[?n := 64]"
      using d2 n3 same assms(2) by (simp_all add: rest_shape_def quant_lengths_def map_update Let_def)
    have entries: "wp (if drop_bit 4 b = 0 then read_quant8 ?n else read_quant16 ?n) (\<lambda>_ d'. memory_shape d' = memory_shape ?d3
        \<and> jstream d' = drop (if drop_bit 4 b = 0 then 64 else 128) (jstream d1)) ?d3"
      using wp_read_quant [OF d3(1-3)] d3(4) by simp
    have "wp (jthen (if drop_bit 4 b = 0 then read_quant8 ?n else read_quant16 ?n) (jret (drop_bit 4 b, b AND 0x0F))) ?Q ?d3"
      by (rule wp_jthen, rule wp_conseq [OF entries]) (use n d1(3) d3(5-7) in \<open>auto simp: memory_shape_parts\<close>)
    then show "wp (jthen (set_quant ?n ?block)
        (jthen (if drop_bit 4 b = 0 then read_quant8 ?n else read_quant16 ?n) (jret (drop_bit 4 b, b AND 0x0F)))) ?Q d2"
      unfolding set_quant_def using n3 same(1) d2(1,3) assms(2) by (intro wp_jthen) simp
  qed (use assms(3) same(3) in simp_all)
qed

text \<open>The numbers of the tables of a segment.\<close>

function loaded_tables :: "nat \<Rightarrow> bytes \<Rightarrow> u8 list" where
  "loaded_tables len [] = []"
| "loaded_tables len (b # r) = (if len = 0 then []
     else (b AND 0x0F) # (if len < 65 + 64 * unat (drop_bit 4 b) then []
       else loaded_tables (len - (65 + 64 * unat (drop_bit 4 b))) (drop (if drop_bit 4 b = 0 then 64 else 128) r)))"
  by pat_completeness auto
termination by (relation "measure fst") auto

text \<open>The arena after a table.\<close>

lemma room_left:
  assumes "x + 1 \<le> (y :: nat)" "64 * (y + 1) \<le> r" "r' = r - 64"
  shows "64 * (x + 1) \<le> r'" "r' \<le> q + 64 * x \<Longrightarrow> r \<le> q + 64 * y"
  using assms by simp_all

lemma wp_quant_tables:
  assumes "stream_ok d" "length (quant_lengths d) = 3" "64 * (unat len div 65 + 1) \<le> room d"
  shows "wp (quant_tables len two) (\<lambda>two' d'. rest_shape d' = rest_shape d \<and> length (quant_lengths d') = 3
    \<and> room d \<le> room d' + 64 * (unat len div 65) \<and> (two' \<longrightarrow> two \<or> 2 \<in> set (loaded_tables (unat len) (jstream d)))
    \<and> (\<forall>n < 3. of_nat n \<in> set (loaded_tables (unat len) (jstream d)) \<or> quant_lengths d ! n = 64 \<longrightarrow> quant_lengths d' ! n = 64)) d"
  using assms
proof (induction len two d rule: quant_tables.induct)
  case (1 len two d)
  show ?case
  proof (cases "0 < len")
    case True
    then have pos: "unat len \<noteq> 0" by (simp add: unat_gt_0 word_less_nat_alt)
    have "length (quant_tbl (dcodec d)) = 3" "64 \<le> room d" using "1.prems"(2,3) by (simp_all add: quant_lengths_def)
    note table = wp_read_quant_tbl [OF "1.prems"(1) this]
    show ?thesis
    proof (cases "read_quant_tbl d")
      case (JOk pn d1)
      obtain prec n where pn: "pn = (prec, n)" by (cases pn)
      with JOk table obtain b r where d1: "stream_ok d1" "rest_shape d1 = rest_shape d" "room d1 = room d - 64" "\<not> n > 2"
          "quant_lengths d1 = (quant_lengths d)[unat n := 64]" "jstream d = b # r" "prec = drop_bit 4 b" "n = b AND 0x0F"
          "jstream d1 = drop (if drop_bit 4 b = 0 then 64 else 128) r"
        by (auto simp: wp_def)
      have n3: "unat n < 3" using d1(4) by (simp add: word_less_nat_alt)
      let ?k = "64 + 1 + 64 * unat prec"
      show ?thesis
      proof (cases "unat len < ?k")
        case False
        have k16: "?k < 65536" using False unat_u16_less [of len] by linarith
        then have k: "unat (of_nat ?k :: u16) = ?k" by (rule unat_of_nat_u16)
        then have sub: "unat (len - of_nat ?k) = unat len - ?k" using False by (simp add: unat_sub word_le_nat_alt)
        have "unat len div 65 = (unat len - 65) div 65 + 1" using False by (simp add: le_div_geq)
        moreover have "(unat len - ?k) div 65 \<le> (unat len - 65) div 65" by (rule div_le_mono) simp
        ultimately have rooms: "(unat len - ?k) div 65 + 1 \<le> unat len div 65" by simp
        have tables: "set (loaded_tables (unat len) (jstream d)) = insert n (set (loaded_tables (unat (len - of_nat ?k)) (jstream d1)))"
          unfolding sub using pos False d1(6-9) by simp
        have "64 * (unat (len - of_nat ?k) div 65 + 1) \<le> room d1"
          unfolding sub by (rule room_left(1) [OF rooms "1.prems"(3) d1(3)])
        from "1.IH" [OF True JOk [unfolded pn] refl False d1(1) _ this] d1(5) "1.prems"(2)
        have IH: "wp (quant_tables (len - of_nat ?k) (two \<or> n > 1)) (\<lambda>two' d'. rest_shape d' = rest_shape d1 \<and> length (quant_lengths d') = 3
          \<and> room d1 \<le> room d' + 64 * (unat (len - of_nat ?k) div 65)
          \<and> (two' \<longrightarrow> (two \<or> n > 1) \<or> 2 \<in> set (loaded_tables (unat (len - of_nat ?k)) (jstream d1)))
          \<and> (\<forall>n < 3. of_nat n \<in> set (loaded_tables (unat (len - of_nat ?k)) (jstream d1)) \<or> quant_lengths d1 ! n = 64 \<longrightarrow> quant_lengths d' ! n = 64)) d1"
          by simp
        have two: "n > 1 \<Longrightarrow> n = 2" using d1(4) by (simp add: word_less_nat_alt word_unat_eq_iff)
        have step: "quant_tables len two d = quant_tables (len - of_nat ?k) (two \<or> n > 1) d1"
          using True JOk pn False by (simp add: quant_tables.simps [of len two d])
        have "wp (quant_tables (len - of_nat ?k) (two \<or> n > 1)) (\<lambda>two' d'. rest_shape d' = rest_shape d \<and> length (quant_lengths d') = 3
          \<and> room d \<le> room d' + 64 * (unat len div 65) \<and> (two' \<longrightarrow> two \<or> 2 \<in> set (loaded_tables (unat len) (jstream d)))
          \<and> (\<forall>n < 3. of_nat n \<in> set (loaded_tables (unat len) (jstream d)) \<or> quant_lengths d ! n = 64 \<longrightarrow> quant_lengths d' ! n = 64)) d1"
        proof (rule wp_conseq [OF IH], elim conjE, intro conjI)
          fix two' d'
          assume a: "rest_shape d' = rest_shape d1" "length (quant_lengths d') = 3"
            "room d1 \<le> room d' + 64 * (unat (len - of_nat ?k) div 65)"
            "two' \<longrightarrow> (two \<or> n > 1) \<or> 2 \<in> set (loaded_tables (unat (len - of_nat ?k)) (jstream d1))"
            "\<forall>n < 3. of_nat n \<in> set (loaded_tables (unat (len - of_nat ?k)) (jstream d1)) \<or> quant_lengths d1 ! n = 64 \<longrightarrow> quant_lengths d' ! n = 64"
          show "rest_shape d' = rest_shape d" "length (quant_lengths d') = 3" using a(1,2) d1(2) by simp_all
          show "room d \<le> room d' + 64 * (unat len div 65)" using a(3) unfolding sub by (rule room_left(2) [OF rooms "1.prems"(3) d1(3)])
          show "two' \<longrightarrow> two \<or> 2 \<in> set (loaded_tables (unat len) (jstream d))" using a(4) two unfolding tables by auto
          show "\<forall>m < 3. of_nat m \<in> set (loaded_tables (unat len) (jstream d)) \<or> quant_lengths d ! m = 64 \<longrightarrow> quant_lengths d' ! m = 64"
          proof (intro allI impI)
            fix m :: nat
            assume m: "m < 3" "of_nat m \<in> set (loaded_tables (unat len) (jstream d)) \<or> quant_lengths d ! m = 64"
            have "of_nat m = n \<Longrightarrow> unat n = m" using m(1) by (auto simp: unsigned_of_nat take_bit_nat_eq_self)
            then have "of_nat m \<in> set (loaded_tables (unat (len - of_nat ?k)) (jstream d1)) \<or> quant_lengths d1 ! m = 64"
              using m n3 "1.prems"(2) d1(5) unfolding tables by (cases "unat n = m") auto
            with a(5) m(1) show "quant_lengths d' ! m = 64" by blast
          qed
        qed
        then show ?thesis unfolding wp_def step .
      qed (use True JOk pn in \<open>simp add: wp_def quant_tables.simps [of len two d]\<close>)
    qed (use True table in \<open>simp_all add: wp_def quant_tables.simps [of len two d]\<close>)
  next
    case False
    then have "unat len = 0" by (simp add: word_less_nat_alt)
    moreover have "loaded_tables 0 bs = []" for bs by (cases bs) simp_all
    ultimately show ?thesis using False "1.prems"(1,2) by (simp add: wp_def quant_tables.simps [of len two d])
  qed
qed

lemma wp_same_tables:
  assumes "stream_ok d" "quant_lengths d ! 1 = 64" "quant_lengths d ! 2 = 64" "length (quant_lengths d) = 3"
  shows "wp same_tables (\<lambda>_ d'. d' = d) d"
  unfolding same_tables_def
proof (rule wp_jbind, simp, intro conjI assms(1))
  let ?q = "quant_tbl (dcodec d)"
  have q: "length (?q ! 1) = 64" "length (?q ! 2) = 64" using assms(2-4) by (simp_all add: quant_lengths_def)
  have "wp (jfor [0..<64] (\<lambda>j. jthen (jcheck (\<lambda>_. j < length (?q ! 1) \<and> j < length (?q ! 2))) (jguard (?q ! 1 ! j = ?q ! 2 ! j))))
      (\<lambda>_ d'. d' = d) d"
    by (rule wp_jfor [where I = "\<lambda>_ d'. d' = d"], rule assms(1), rule refl, rule wp_jthen) (use q in simp)
  then show "wp (jfor [0..<64] (\<lambda>j. jthen (jcheck (\<lambda>_. j < length (?q ! Suc 0) \<and> j < length (?q ! 2))) (jguard (?q ! Suc 0 ! j = ?q ! 2 ! j))))
      (\<lambda>_ d'. d' = d) d" by simp
qed

text \<open>The bytes that a segment announces behind its length field.\<close>

definition announced :: "bytes \<Rightarrow> nat" where
  "announced bs = unat (mk16 (bs ! 0) (bs ! 1)) - 2"

lemma announced_read:
  assumes "bs = a # b # r" "\<not> mk16 a b < 2"
  shows "announced bs = unat (mk16 a b - 2)" "drop 2 bs = r"
  using assms by (simp_all add: announced_def unat_sub word_le_nat_alt word_less_nat_alt)

definition quants_fit :: "jdec \<Rightarrow> bool" where
  "quants_fit d \<longleftrightarrow> (let ts = set (loaded_tables (announced (jstream d)) (drop 2 (jstream d)))
     in 2 \<in> ts \<longrightarrow> 1 \<in> ts \<or> quant_lengths d ! 1 = 64)"

lemma wp_GetQuantTbl:
  assumes d: "stream_ok d" "length (quant_lengths d) = 3" "64 * (announced (jstream d) div 65 + 1) \<le> room d" "quants_fit d"
  shows "wp GetQuantTbl (\<lambda>_ d'. rest_shape d' = rest_shape d \<and> length (quant_lengths d') = 3
    \<and> room d \<le> room d' + 64 * (announced (jstream d) div 65)) d"
proof -
  let ?Q = "\<lambda>_ :: unit. \<lambda>d'. rest_shape d' = rest_shape d \<and> length (quant_lengths d') = 3
    \<and> room d \<le> room d' + 64 * (announced (jstream d) div 65)"
  have start: "wp (set_codec (\<lambda>k. k\<lparr>using_default_quant_tab := False\<rparr>)) (\<lambda>_ d'. memory_shape d' = memory_shape d \<and> jstream d' = jstream d) d"
    using d(1) by (simp add: memory_shape_codec)
  show ?thesis unfolding GetQuantTbl_def
  proof (rule wp_jthen, rule wp_conseq [OF start], elim conjE, rule wp_jbind, rule wp_get_short_word, assumption, rule wp_guarded, assumption)
    fix a b d1 d2
    assume d1: "memory_shape d1 = memory_shape d" "jstream d1 = jstream d"
      and d2: "stream_ok d2" "view d2 = view d1" "jstream d1 = a # b # jstream d2" and len: "\<not> mk16 a b < 2"
    have shape: "quant_lengths d2 = quant_lengths d" "rest_shape d2 = rest_shape d" "room d2 = room d"
      using view_same(4) [OF d2(2)] d1(1) by (simp_all add: memory_shape_parts)
    have bytes: "announced (jstream d) = unat (mk16 a b - 2)" "drop 2 (jstream d) = jstream d2"
      using announced_read [OF d2(3) len] d1(2) by simp_all
    from d shape have loaded: "wp (quant_tables (mk16 a b - 2) False) (\<lambda>two' d'. rest_shape d' = rest_shape d2 \<and> length (quant_lengths d') = 3
        \<and> room d2 \<le> room d' + 64 * (unat (mk16 a b - 2) div 65)
        \<and> (two' \<longrightarrow> False \<or> 2 \<in> set (loaded_tables (unat (mk16 a b - 2)) (jstream d2)))
        \<and> (\<forall>n < 3. of_nat n \<in> set (loaded_tables (unat (mk16 a b - 2)) (jstream d2)) \<or> quant_lengths d2 ! n = 64 \<longrightarrow> quant_lengths d' ! n = 64)) d2"
      unfolding bytes by (intro wp_quant_tables [OF d2(1)]) simp_all
    show "wp (jbind (quant_tables (mk16 a b - 2) False) (\<lambda>two. if two then same_tables else jret ())) ?Q d2"
    proof (rule wp_jbind, rule wp_conseq [OF loaded], elim conjE)
      fix two d3
      assume d3: "stream_ok d3" "rest_shape d3 = rest_shape d2" "length (quant_lengths d3) = 3"
        "room d2 \<le> room d3 + 64 * (unat (mk16 a b - 2) div 65)"
        and two: "two \<longrightarrow> False \<or> 2 \<in> set (loaded_tables (unat (mk16 a b - 2)) (jstream d2))"
        and full: "\<forall>n < 3. of_nat n \<in> set (loaded_tables (unat (mk16 a b - 2)) (jstream d2)) \<or> quant_lengths d2 ! n = 64 \<longrightarrow> quant_lengths d3 ! n = 64"
      have Q: "?Q () d3" using d3 shape bytes by simp
      show "wp (if two then same_tables else jret ()) ?Q d3"
      proof (cases two)
        case True
        have "quant_lengths d3 ! 2 = 64" using full [rule_format, of 2] two True by simp
        moreover have "quant_lengths d3 ! 1 = 64"
          using full [rule_format, of 1] two True d(4) shape(1) bytes by (simp add: quants_fit_def Let_def)
        ultimately have "wp same_tables (\<lambda>_ d'. d' = d3) d3" using wp_same_tables [OF d3(1) _ _ d3(3)] by simp
        then have "wp same_tables ?Q d3" by (rule wp_conseq) (use Q in simp)
        with True show ?thesis by simp
      qed (use Q d3(1) in simp)
    qed
  qed
qed

subsection \<open>The segment of Huffman tables\<close>

lemma huff_sized_allocated:
  "tables_allocated d \<Longrightarrow> huff_sized (malloc_view d)"
  by (auto simp: tables_allocated_def huff_sized_def malloc_view_def put_tables_def fresh_huff_def dims_def
      intro!: replicate_eqI split: if_splits)

lemma wp_GetHuffTbl:
  assumes d: "stream_ok d" "tables_allocated d" "symbols_fit (announced (jstream d)) (drop 2 (jstream d))"
  shows "wp GetHuffTbl (\<lambda>_ d'. memory_shape d' = memory_shape (malloc_view d)) d"
  unfolding GetHuffTbl_def
proof (rule wp_jthen, rule wp_consumes [OF consumes_huff_malloc d(1)])
  show "\<not> g_huff_tbl_malloced (view d) \<longrightarrow> 2240 \<le> room (view d)" "length (dc_huff_tbl (dcodec (view d))) = 4"
    "length (ac_huff_tbl (dcodec (view d))) = 4"
    using d(2) by (auto simp: tables_allocated_def room_def split: if_splits)
  fix d1 assume d1: "stream_ok d1" "view d1 = malloc_view (view d)" "jstream d1 = jstream d"
  have "malloc_view (view d) = view (malloc_view d)" by (simp add: malloc_view_def put_tables_def view_def)
  with d1(2) have shape: "memory_shape d1 = memory_shape (malloc_view d)" using view_same(4) by metis
  have sized: "huff_sized d1" using huff_sized_allocated [OF d(2)] huff_sized_shape [OF shape] by simp
  show "wp (jbind get_short_word (\<lambda>len. jthen (jguard (\<not> len < 2)) (huff_tables (len - 2))))
      (\<lambda>_ d'. memory_shape d' = memory_shape (malloc_view d)) d1"
  proof (rule wp_jbind, rule wp_get_short_word [OF d1(1)], rule wp_guarded, assumption)
    fix a b d2 assume d2: "stream_ok d2" "view d2 = view d1" "jstream d1 = a # b # jstream d2" and len: "\<not> mk16 a b < 2"
    have "announced (jstream d) = unat (mk16 a b - 2)" "drop 2 (jstream d) = jstream d2"
      using announced_read [OF d2(3) len] d1(3) by simp_all
    with d(3) have "symbols_fit (unat (mk16 a b - 2)) (jstream d2)" by simp
    then have "wp (huff_tables (mk16 a b - 2)) (\<lambda>_ d'. memory_shape d' = memory_shape d2) d2"
      using sized huff_sized_shape [OF view_same(4) [OF d2(2)]] by (intro wp_huff_tables [OF d2(1)]) simp_all
    then show "wp (huff_tables (mk16 a b - 2)) (\<lambda>_ d'. memory_shape d' = memory_shape (malloc_view d)) d2"
      by (rule wp_conseq) (use view_same(4) [OF d2(2)] shape in simp)
  qed
qed

subsection \<open>Segments without tables\<close>

text \<open>A statement that does not touch what the other segments rely on.\<close>

definition leaves :: "'a jreader \<Rightarrow> bool" where
  "leaves m \<longleftrightarrow> (\<forall>d. stream_ok d \<longrightarrow> wp m (\<lambda>_ d'. memory_shape d' = memory_shape d) d)"

named_theorems leaves_rules "statements that leave the tables where they are"

lemma leavesI: "(\<And>d. stream_ok d \<Longrightarrow> wp m (\<lambda>_ d'. memory_shape d' = memory_shape d) d) \<Longrightarrow> leaves m"
  by (simp add: leaves_def)

lemma leavesD: "leaves m \<Longrightarrow> stream_ok d \<Longrightarrow> wp m (\<lambda>_ d'. memory_shape d' = memory_shape d) d"
  by (simp add: leaves_def)

lemma leaves_jbind [leaves_rules]:
  assumes "leaves m" "\<And>a. leaves (k a)"
  shows "leaves (jbind m k)"
proof (rule leavesI, rule wp_jbind)
  fix d assume "stream_ok d"
  then show "wp m (\<lambda>a. wp (k a) (\<lambda>_ d'. memory_shape d' = memory_shape d)) d"
    by (rule wp_conseq [OF leavesD [OF assms(1)]]) (auto dest: leavesD [OF assms(2)])
qed

lemma leaves_jthen [leaves_rules]: "leaves m \<Longrightarrow> leaves n \<Longrightarrow> leaves (jthen m n)"
  unfolding jthen_def by (rule leaves_jbind)

lemma leaves_simple [leaves_rules]: "leaves (jret a)" "leaves jfail" "leaves (jget g)" "leaves (jguard b)"
  by (auto intro!: leavesI)

lemma leaves_reads [leaves_rules]: "leaves get_char" "leaves get_short_word"
  by (auto intro!: leavesI wp_get_char wp_get_short_word view_same(4))

lemma leaves_set_codec [leaves_rules]:
  assumes "\<And>k. map length (quant_tbl (h k)) = map length (quant_tbl k)
    \<and> map dims (dc_huff_tbl (h k)) = map dims (dc_huff_tbl k) \<and> map dims (ac_huff_tbl (h k)) = map dims (ac_huff_tbl k)
    \<and> length (tbl_map (h k)) = length (tbl_map k) \<and> length (comp_id_map (h k)) = length (comp_id_map k)
    \<and> num_components (h k) = num_components k \<and> length (comp_info (h k)) = length (comp_info k)"
  shows "leaves (set_codec h)"
  using assms by (intro leavesI) (simp add: memory_shape_codec)

lemma leaves_jfor [leaves_rules]:
  assumes "\<And>x. x \<in> set xs \<Longrightarrow> leaves (body x)"
  shows "leaves (jfor xs body)"
proof (rule leavesI)
  fix d assume d: "stream_ok d"
  show "wp (jfor xs body) (\<lambda>_ d'. memory_shape d' = memory_shape d) d"
  proof (rule wp_jfor [where I = "\<lambda>_ d'. memory_shape d' = memory_shape d", OF d])
    fix i d0 assume "i < length xs" "stream_ok d0" "memory_shape d0 = memory_shape d"
    then show "wp (body (xs ! i)) (\<lambda>_ d'. memory_shape d' = memory_shape d) d0"
      using leavesD [OF assms [of "xs ! i"], of d0] by simp
  qed simp
qed

lemma leaves_segments: "leaves GetDRI" "leaves GetAPP0" "leaves SkipVariable" "leaves jfail"
  unfolding GetDRI_def GetAPP0_def SkipVariable_def skip_chars_def
  by (auto intro!: leaves_rules)

subsection \<open>Scan header\<close>

text \<open>Component table, table map and identifier map have their entries.\<close>

definition components_placed :: "jdec \<Rightarrow> bool" where
  "components_placed d \<longleftrightarrow> length (tbl_map (dcodec d)) = 3 \<and> length (comp_id_map (dcodec d)) = 3
     \<and> unat (num_components (dcodec d)) \<le> length (comp_info (dcodec d))"

lemma components_placed_shape: "memory_shape d' = memory_shape d \<Longrightarrow> components_placed d' = components_placed d"
  by (simp add: memory_shape_def components_placed_def Let_def)

lemma wp_table_entry:
  assumes "stream_ok d" "i < length (tbl_map (dcodec d))" "wp n Q (d\<lparr>dcodec := (dcodec d)\<lparr>tbl_map := (tbl_map (dcodec d))[i := f (tbl_map (dcodec d) ! i)]\<rparr>\<rparr>)"
  shows "wp (jthen (set_tbl_map i f) n) Q d"
  unfolding set_tbl_map_def
  by (rule wp_jthen, rule wp_jthen) (use assms in simp)

lemma wp_find_component:
  assumes "stream_ok d" "i < length (comp_id_map (dcodec d))" "\<forall>ci \<in> set cis. ci < 256 \<and> ci < length (comp_info (dcodec d))"
  shows "wp (find_component cc i cis) (\<lambda>_ d'. memory_shape d' = memory_shape d) d"
  using assms
proof (induction cis)
  case (Cons ci cis)
  then have ci: "unat (of_nat ci :: u8) < length (comp_info (dcodec d))" by (simp add: unsigned_of_nat take_bit_nat_eq_self)
  show ?case
  proof (cases "cc = component_id (comp_info (dcodec d) ! unat (of_nat ci :: u8))")
    case True
    with ci show ?thesis unfolding find_component.simps get_component_def
      by (intro wp_jbind wp_jthen) (use Cons.prems in \<open>simp add: wp_jthen memory_shape_codec\<close>)
  next
    case False
    with ci show ?thesis unfolding find_component.simps get_component_def
      by (intro wp_jbind wp_jthen) (use Cons in simp)
  qed
qed simp

lemma wp_GetSOS_component:
  assumes d: "stream_ok d" "components_placed d" "i < 3"
  shows "wp (GetSOS_component i) (\<lambda>_ d'. memory_shape d' = memory_shape d) d"
  unfolding GetSOS_component_def
proof (rule wp_jbind, rule wp_get_char [OF d(1)], rule wp_jbind, rule wp_get_char, assumption)
  fix cc c d1 d2
  assume 1: "view d1 = view d" "stream_ok d2" "view d2 = view d1"
  have shape: "memory_shape d2 = memory_shape d" using view_same(4) 1 by metis
  have placed: "components_placed d2" using components_placed_shape [OF shape] d(2) by simp
  have byte: "ci < 256" if "ci < unat (num_components (dcodec d2))" for ci
    using that unat_u8_le [of "num_components (dcodec d2)"] by linarith
  let ?d3 = "d2\<lparr>dcodec := (dcodec d2)\<lparr>tbl_map := (tbl_map (dcodec d2))[i := (tbl_map (dcodec d2) ! i)
    \<lparr>dc_huff_tbl_id := drop_bit 4 c AND 0x0F, ac_huff_tbl_id := c AND 0x0F\<rparr>]\<rparr>\<rparr>"
  have "wp (find_component cc i [0..<unat (num_components (dcodec ?d3))]) (\<lambda>_ d'. memory_shape d' = memory_shape ?d3) ?d3"
    using 1(2) placed d(3) byte by (intro wp_find_component) (auto simp: components_placed_def)
  moreover have "memory_shape ?d3 = memory_shape d" unfolding shape [symmetric] by (simp add: memory_shape_codec)
  ultimately have find: "wp (jbind (jget (\<lambda>d. num_components (dcodec d))) (\<lambda>n. find_component cc i [0..<unat n]))
      (\<lambda>_ d'. memory_shape d' = memory_shape d) ?d3"
    using 1(2) by (intro wp_jbind) simp
  show "wp (jseq [jguard (cc = of_nat (i + 1)),
      set_tbl_map i (\<lambda>t. t\<lparr>dc_huff_tbl_id := drop_bit 4 c AND 0x0F, ac_huff_tbl_id := c AND 0x0F\<rparr>),
      jbind (jget (\<lambda>d. num_components (dcodec d))) (\<lambda>n. find_component cc i [0..<unat n])])
    (\<lambda>_ d'. memory_shape d' = memory_shape d) d2"
    unfolding jseq.simps
    by (rule wp_guarded [OF 1(2)], rule wp_table_entry [OF 1(2)], use placed d(3) in \<open>simp add: components_placed_def\<close>,
        rule wp_jthen, rule wp_conseq [OF find]) simp
qed

lemma wp_GetSOS:
  assumes d: "stream_ok d" "components_placed d" "jstream d ! 2 \<le> 3"
  shows "wp GetSOS (\<lambda>_ d'. memory_shape d' = memory_shape d) d"
  unfolding GetSOS_def
proof (rule wp_jbind, rule wp_get_short_word [OF d(1)], rule wp_guarded, assumption, rule wp_jbind, rule wp_get_char, assumption)
  fix a b d1 n d2
  assume 1: "view d1 = view d" "jstream d = a # b # jstream d1" "stream_ok d2" "view d2 = view d1" "jstream d1 = n # jstream d2"
  have shape: "memory_shape d2 = memory_shape d" using view_same(4) 1(1,4) by metis
  have n: "unat n \<le> 3" using d(3) 1(2,5) by (simp add: word_le_nat_alt)
  let ?I = "\<lambda>_. \<lambda>d'. memory_shape d' = memory_shape d"
  have parameters: "leaves (jseq [jbind get_char (\<lambda>c. jbind get_char (\<lambda>cc. set_codec (\<lambda>k. k\<lparr>Ss := ucast c, Se := ucast cc\<rparr>))),
       jbind get_char (\<lambda>c. set_codec (\<lambda>k. k\<lparr>Ah := ucast (drop_bit 4 c AND 15), Al := ucast (c AND 15)\<rparr>)),
       set_codec (\<lambda>k. k\<lparr>next_restart_num := 0, input_scan_number := input_scan_number k + 1\<rparr>)])"
    by (auto intro!: leaves_rules)
  have components: "wp (jfor [0..<unat n] GetSOS_component) (\<lambda>_. ?I (length [0..<unat n])) d3"
    if d3: "stream_ok d3" "memory_shape d3 = memory_shape d" for d3
  proof (rule wp_jfor [where I = ?I, OF d3])
    fix i d4 assume i: "i < length [0..<unat n]" "stream_ok d4" "memory_shape d4 = memory_shape d"
    have "wp (GetSOS_component ([0..<unat n] ! i)) (\<lambda>_ d'. memory_shape d' = memory_shape d4) d4"
      using i n d(2) components_placed_shape [OF i(3)] by (intro wp_GetSOS_component) simp_all
    then show "wp (GetSOS_component ([0..<unat n] ! i)) (\<lambda>_. ?I (Suc i)) d4" using i(3) by simp
  qed
  show "wp (jseq [jguard (unat (mk16 a b - 3) = unat n * 2 + 3), set_codec (\<lambda>k. k\<lparr>comps_in_scan := n\<rparr>),
      jfor [0..<unat n] GetSOS_component,
      jbind get_char (\<lambda>c. jbind get_char (\<lambda>cc. set_codec (\<lambda>k. k\<lparr>Ss := ucast c, Se := ucast cc\<rparr>))),
      jbind get_char (\<lambda>c. set_codec (\<lambda>k. k\<lparr>Ah := ucast (drop_bit 4 c AND 15), Al := ucast (c AND 15)\<rparr>)),
      set_codec (\<lambda>k. k\<lparr>next_restart_num := 0, input_scan_number := input_scan_number k + 1\<rparr>)])
    (\<lambda>_ d'. memory_shape d' = memory_shape d) d2"
  proof (rule wp_jseq, simp only: wp_simple, intro impI conjI 1(3), rule wp_jseq, simp only: wp_simple, intro conjI 1(3),
      rule wp_jseq, rule wp_conseq [OF components])
    show "stream_ok (d2\<lparr>dcodec := (dcodec d2)\<lparr>comps_in_scan := n\<rparr>\<rparr>)" using 1(3) by simp
    show "memory_shape (d2\<lparr>dcodec := (dcodec d2)\<lparr>comps_in_scan := n\<rparr>\<rparr>) = memory_shape d"
      unfolding shape [symmetric] by (simp add: memory_shape_codec)
    fix d' assume d': "stream_ok d'" "memory_shape d' = memory_shape d"
    from leavesD [OF parameters d'(1)] show "wp (jseq [jbind get_char (\<lambda>c. jbind get_char (\<lambda>cc. set_codec (\<lambda>k. k\<lparr>Ss := ucast c, Se := ucast cc\<rparr>))),
        jbind get_char (\<lambda>c. set_codec (\<lambda>k. k\<lparr>Ah := ucast (drop_bit 4 c AND 15), Al := ucast (c AND 15)\<rparr>)),
        set_codec (\<lambda>k. k\<lparr>next_restart_num := 0, input_scan_number := input_scan_number k + 1\<rparr>)])
      (\<lambda>_ d'. memory_shape d' = memory_shape d) d'"
      unfolding d'(2) .
  qed
qed

subsection \<open>Frame header\<close>

lemma wp_assign:
  "stream_ok (f d) \<Longrightarrow> wp n Q (f d) \<Longrightarrow> wp (jthen (jmod f) n) Q d"
  "stream_ok d \<Longrightarrow> wp n Q (d\<lparr>dcodec := h (dcodec d)\<rparr>) \<Longrightarrow> wp (jthen (set_codec h) n) Q d"
  by (rule wp_jthen, simp)+

lemma memory_shape_outside [simp]:
  "memory_shape (d\<lparr>input_progressive := p\<rparr>) = memory_shape d"
  "memory_shape (d\<lparr>input_height := h, input_width := w\<rparr>) = memory_shape d"
  "memory_shape (d\<lparr>mcu_info := i\<rparr>) = memory_shape d"
  by (simp_all add: memory_shape_def room_def)

text \<open>The component array of 16 bytes for each component needs no rounding.\<close>

lemma component_block:
  "unat (ucast (n :: u8) * 16 :: u32) = 16 * unat n" "unat ((ucast n * 16 + 3) AND NOT 3 :: u32) = 16 * unat n"
proof -
  have small: "unat (ucast n :: u32) = unat n" "16 * unat n < 2 ^ 32"
    by (simp_all add: unsigned_ucast_eq take_bit_nat_eq_self_iff le_less_trans [OF unat_u8_le])
  then show size: "unat (ucast (n :: u8) * 16 :: u32) = 16 * unat n" by (simp add: unat_word_ariths)
  have three: "(3 :: u32) = mask 2" by (simp add: mask_eq_exp_minus_1)
  have "ucast n * 16 + 3 = push_bit 4 (ucast n :: u32) OR 3"
  proof -
    have "push_bit 4 (ucast n :: u32) AND 3 = 0"
      unfolding three by (rule bit_word_eqI) (auto simp: bit_simps)
    then have "push_bit 4 (ucast n :: u32) + 3 = push_bit 4 (ucast n :: u32) OR 3" by (rule disjunctive_add_eq_or)
    then show ?thesis by (simp add: push_bit_eq_mult)
  qed
  moreover have "(push_bit 4 (ucast n :: u32) OR 3) AND NOT 3 = push_bit 4 (ucast n :: u32)"
    unfolding three by (rule bit_word_eqI) (auto simp: bit_simps)
  moreover have "push_bit 4 (ucast n :: u32) = ucast n * 16" by (simp add: push_bit_eq_mult)
  ultimately show "unat ((ucast n * 16 + 3) AND NOT 3 :: u32) = 16 * unat n" using size by simp
qed

definition frame_places :: "u8 \<Rightarrow> jdec \<Rightarrow> nat list \<times> (nat \<times> nat) list \<times> (nat \<times> nat) list \<times> nat \<times> nat \<times> u8 \<times> nat \<times> bool \<times> nat" where
  "frame_places n d = (let k = dcodec d in (map length (quant_tbl k), map dims (dc_huff_tbl k), map dims (ac_huff_tbl k),
     length (tbl_map k), length (comp_id_map k), n, unat n, g_huff_tbl_malloced d, room d - 16 * unat n))"

lemma frame_places_same: "memory_shape d' = memory_shape d \<Longrightarrow> frame_places n d' = frame_places n d"
  by (simp add: memory_shape_def frame_places_def Let_def)

lemma wp_GetSOF_head:
  assumes d: "stream_ok d" "16 * unat (jstream d ! 7) \<le> room d"
  shows "wp (GetSOF_head p) (\<lambda>n d'. n = jstream d ! 7 \<and> memory_shape d' = frame_places n d) d"
  unfolding GetSOF_head_def
proof (rule wp_assign, use d in simp, rule wp_jbind, rule wp_get_short_word, use d in simp, rule wp_guarded, assumption,
    rule wp_jbind, rule wp_get_char, assumption, rule wp_guarded, assumption,
    rule wp_jbind, rule wp_get_short_word, assumption, rule wp_jbind, rule wp_get_short_word, assumption,
    rule wp_assign, simp, rule wp_jbind, rule wp_get_char, simp, rule wp_guarded, assumption, rule wp_assign, simp)
  fix a b c e f g h n d1 d2 d3 d4 d5
  assume v: "view d1 = view (d\<lparr>input_progressive := p\<rparr>)" "view d2 = view d1" "view d3 = view d2" "view d4 = view d3"
      "view d5 = view (d4\<lparr>input_height := ucast (mk16 e f), input_width := ucast (mk16 g h)\<rparr>)"
    and j: "jstream (d\<lparr>input_progressive := p\<rparr>) = a # b # jstream d1" "jstream d1 = c # jstream d2"
      "jstream d2 = e # f # jstream d3" "jstream d3 = g # h # jstream d4"
      "jstream (d4\<lparr>input_height := ucast (mk16 e f), input_width := ucast (mk16 g h)\<rparr>) = n # jstream d5"
    and ok: "stream_ok d5"
  have shape: "memory_shape d5 = memory_shape d" using v [THEN view_same(4)] by simp
  then have room: "room d5 = room d" by (simp add: memory_shape_parts)
  have n: "n = jstream d ! 7" using j by simp
  let ?d6 = "d5\<lparr>dcodec := (dcodec d5)\<lparr>num_components := n\<rparr>\<rparr>"
  show "wp (jbind (JpegDec_ExtraMemAlloc (ucast n * 16)) (\<lambda>block.
      jthen (set_codec (\<lambda>k. k\<lparr>comp_info := replicate (length block div 16) zero_component\<rparr>)) (jret n)))
    (\<lambda>n d'. n = jstream d ! 7 \<and> memory_shape d' = frame_places n d) ?d6"
  proof (rule wp_jbind, rule wp_alloc, goal_cases)
    case (4 d7)
    have "frame_places n d5 = frame_places n d" by (rule frame_places_same [OF shape])
    moreover have "room d7 = room d5 - 16 * unat n" using 4(5) unfolding component_block by simp
    ultimately show ?case using 4(1-4) n room
      by (intro wp_assign) (simp_all add: component_block memory_shape_def frame_places_def Let_def)
  qed (use ok d(2) room n in \<open>simp_all only: component_block, simp_all\<close>)
qed

lemma wp_set_component:
  assumes "stream_ok d" "unat ci < length (comp_info (dcodec d))"
  shows "wp (set_component ci f) (\<lambda>_ d'. memory_shape d' = memory_shape d) d"
  unfolding set_component_def
  by (rule wp_jthen) (use assms in \<open>simp add: memory_shape_codec\<close>)

lemma component_number:
  assumes "\<not> (sint (y :: u8) < 0 \<or> sint y > 2)"
  shows "unat y < 3"
proof -
  have "sint y = 0 \<or> sint y = 1 \<or> sint y = 2" using assms by linarith
  then have "(of_int (sint y) :: u8) = 0 \<or> (of_int (sint y) :: u8) = 1 \<or> (of_int (sint y) :: u8) = 2" by (elim disjE) simp_all
  then have "y = 0 \<or> y = 1 \<or> y = 2" by simp
  then show ?thesis by auto
qed

text \<open>The state of the memory while the components are read.\<close>

definition frame_placed :: "u8 \<Rightarrow> jdec \<Rightarrow> bool" where
  "frame_placed n d \<longleftrightarrow> length (comp_info (dcodec d)) = unat n \<and> length (tbl_map (dcodec d)) = 3"

lemma frame_placed_after:
  assumes "memory_shape d' = memory_shape d" "frame_placed n d"
  shows "length (comp_info (dcodec d')) = unat n" "length (tbl_map (dcodec d')) = 3"
  using assms by (simp_all add: memory_shape_def frame_placed_def Let_def)

lemma wp_GetSOF_component:
  assumes d: "stream_ok d" "frame_placed n d" "unat ci < unat n"
  shows "wp (GetSOF_component ci) (\<lambda>_ d'. memory_shape d' = memory_shape d) d"
  unfolding GetSOF_component_def Let_def
proof (rule wp_jbind, rule wp_get_char [OF d(1)], goal_cases)
  case (1 yuv d1)
  let ?Q = "\<lambda>_ :: unit. \<lambda>d'. memory_shape d' = memory_shape d"
  have shape: "memory_shape d1 = memory_shape d" using view_same(4) [OF 1(2)] .
  have place: "unat ci < length (comp_info (dcodec d'))" "length (tbl_map (dcodec d')) = 3" if "memory_shape d' = memory_shape d" for d'
    using frame_placed_after [OF that d(2)] d(3) by simp_all
  have put: "wp (set_component ci f) ?Q d'" if "stream_ok d'" "memory_shape d' = memory_shape d" for f d'
    using wp_set_component [OF that(1) place(1) [OF that(2)]] that(2) by simp
  have factors: "wp (jbind get_char (\<lambda>c. set_component ci (f c))) ?Q d'" if "stream_ok d'" "memory_shape d' = memory_shape d" for f d'
    by (rule wp_jbind, rule wp_get_char [OF that(1)], rule put, assumption, rule trans, erule view_same(4), rule that(2))
  have table: "wp (jbind get_char (\<lambda>c. jthen (jguard (\<not> c > 2)) (set_tbl_map (unat (yuv - 1)) (f c)))) ?Q d'"
    if d': "stream_ok d'" "memory_shape d' = memory_shape d" and yuv: "unat (yuv - 1) < 3" for f d'
    unfolding set_tbl_map_def
  proof (rule wp_jbind, rule wp_get_char [OF d'(1)], rule wp_guarded, assumption, rule wp_jthen)
    fix c d2 assume d2: "stream_ok d2" "view d2 = view d'"
    have same: "memory_shape d2 = memory_shape d" using view_same(4) [OF d2(2)] d'(2) by simp
    then show "wp (jcheck (\<lambda>d. unat (yuv - 1) < length (tbl_map (dcodec d)))) (\<lambda>_. wp (set_codec (\<lambda>k. k\<lparr>tbl_map := (tbl_map k)
        [unat (yuv - 1) := f c (tbl_map k ! unat (yuv - 1))]\<rparr>)) ?Q) d2"
      using place(2) [OF same] yuv d2(1) by (simp add: memory_shape_codec flip: same)
  qed
  show ?case
    by (rule wp_jseq, rule wp_conseq [OF put [OF 1(1) shape]], rule wp_jseq_guard, assumption,
        rule wp_jseq, rule wp_conseq [OF factors], assumption, assumption, rule wp_jseq, rule wp_conseq [OF table],
        assumption, assumption, erule component_number, rule wp_jseq(2))
qed

lemma wp_sampling:
  assumes "stream_ok d" "unat ci < length (comp_info (dcodec d))"
  shows "wp (sampling ci) (\<lambda>_ d'. d' = d) d"
  unfolding sampling_def get_component_def
  by (rule wp_jbind, rule wp_jthen) (use assms in simp)

lemma leaves_format: "leaves (jmod (\<lambda>d. d\<lparr>mcu_info := i\<rparr>))"
  by (rule leavesI) simp

lemma wp_GetSOF_format:
  assumes d: "stream_ok d" "frame_placed n d" "n \<noteq> 0"
  shows "wp (GetSOF_format n) (\<lambda>_ d'. memory_shape d' = memory_shape d) d"
proof -
  let ?Q = "\<lambda>_ :: unit. \<lambda>d'. memory_shape d' = memory_shape d"
  have sampled: "wp (jbind (sampling ci) (\<lambda>c. jguard (c = 0x11))) ?Q d'"
    if "stream_ok d'" "memory_shape d' = memory_shape d" "unat ci < unat n" for ci d'
  proof -
    have "unat ci < length (comp_info (dcodec d'))" using frame_placed_after(1) [OF that(2) d(2)] that(3) by simp
    from wp_sampling [OF that(1) this] show ?thesis by (intro wp_jbind) (erule wp_conseq, use that in simp)
  qed
  have others: "wp (jseq [jbind (sampling 1) (\<lambda>c. jguard (c = 0x11)),
      if n > 2 then jbind (sampling 2) (\<lambda>c. jguard (c = 0x11)) else jret ()]) ?Q d'"
    if "stream_ok d'" "memory_shape d' = memory_shape d" "n \<noteq> 1" for d'
  proof -
    have "unat n \<noteq> 0" "unat n \<noteq> 1" using d(3) that(3) word_unat_eq_iff [of n 0] word_unat_eq_iff [of n 1] by simp_all
    then have one: "unat (1 :: u8) < unat n" by simp
    show ?thesis
    proof (rule wp_jseq, rule wp_conseq [OF sampled [OF that(1,2) one]], rule wp_jseq, goal_cases)
      case (1 _ d'')
      show ?case
      proof (cases "n > 2")
        case True
        then have "unat (2 :: u8) < unat n" by (simp add: word_less_nat_alt)
        from wp_conseq [OF sampled [OF 1 this], of "\<lambda>_. wp (jseq []) ?Q"] True show ?thesis by simp
      qed (use 1 in simp)
    qed
  qed
  show ?thesis
    unfolding GetSOF_format_def Let_def
  proof (rule wp_jbind, rule wp_conseq [OF wp_sampling [OF d(1)]])
    show "unat (0 :: u8) < length (comp_info (dcodec d))" using d(2,3) by (simp add: frame_placed_def unat_gt_0)
    fix c d' assume d': "stream_ok d'" "d' = d"
    have format: "wp (jmod (\<lambda>d. d\<lparr>mcu_info := i\<rparr>)) ?Q d'" for i using d' by simp
    then have chosen: "wp (if c = 0x11 then jmod (\<lambda>d. d\<lparr>mcu_info := JPEG_FW_YUV444\<rparr>)
        else if c = 0x21 then jmod (\<lambda>d. d\<lparr>mcu_info := JPEG_FW_YUV422\<rparr>)
        else if c = 0x41 then jmod (\<lambda>d. d\<lparr>mcu_info := JPEG_FW_YUV411\<rparr>)
        else if c = 0x14 then jmod (\<lambda>d. d\<lparr>mcu_info := JPEG_FW_YUV411_R\<rparr>)
        else if c = 0x22 then jmod (\<lambda>d. d\<lparr>mcu_info := JPEG_FW_YUV420\<rparr>)
        else if c = 0x12 then jmod (\<lambda>d. d\<lparr>mcu_info := JPEG_FW_YUV422_R\<rparr>)
        else jfail) ?Q d'" by simp
    show "wp (if n = 1 then jmod (\<lambda>d. d\<lparr>mcu_info := JPEG_FW_YUV400\<rparr>)
       else jseq
        [if c = 0x11 then jmod (\<lambda>d. d\<lparr>mcu_info := JPEG_FW_YUV444\<rparr>)
        else if c = 0x21 then jmod (\<lambda>d. d\<lparr>mcu_info := JPEG_FW_YUV422\<rparr>)
        else if c = 0x41 then jmod (\<lambda>d. d\<lparr>mcu_info := JPEG_FW_YUV411\<rparr>)
        else if c = 0x14 then jmod (\<lambda>d. d\<lparr>mcu_info := JPEG_FW_YUV411_R\<rparr>)
        else if c = 0x22 then jmod (\<lambda>d. d\<lparr>mcu_info := JPEG_FW_YUV420\<rparr>)
        else if c = 0x12 then jmod (\<lambda>d. d\<lparr>mcu_info := JPEG_FW_YUV422_R\<rparr>)
        else jfail,
        jbind (sampling 1) (\<lambda>c. jguard (c = 0x11)),
        if n > 2 then jbind (sampling 2) (\<lambda>c. jguard (c = 0x11)) else jret ()]) ?Q d'"
    proof (cases "n = 1")
      case False
      have "wp (jseq [if c = 0x11 then jmod (\<lambda>d. d\<lparr>mcu_info := JPEG_FW_YUV444\<rparr>)
        else if c = 0x21 then jmod (\<lambda>d. d\<lparr>mcu_info := JPEG_FW_YUV422\<rparr>)
        else if c = 0x41 then jmod (\<lambda>d. d\<lparr>mcu_info := JPEG_FW_YUV411\<rparr>)
        else if c = 0x14 then jmod (\<lambda>d. d\<lparr>mcu_info := JPEG_FW_YUV411_R\<rparr>)
        else if c = 0x22 then jmod (\<lambda>d. d\<lparr>mcu_info := JPEG_FW_YUV420\<rparr>)
        else if c = 0x12 then jmod (\<lambda>d. d\<lparr>mcu_info := JPEG_FW_YUV422_R\<rparr>)
        else jfail,
        jbind (sampling 1) (\<lambda>c. jguard (c = 0x11)),
        if n > 2 then jbind (sampling 2) (\<lambda>c. jguard (c = 0x11)) else jret ()]) ?Q d'"
        by (rule wp_jseq, rule wp_conseq [OF chosen], rule others [OF _ _ False])
      with False show ?thesis by (simp only: if_False)
    qed (use format in simp)
  qed
qed

lemma wp_GetSOF:
  assumes d: "stream_ok d" "length (tbl_map (dcodec d)) = 3" "jstream d ! 7 \<noteq> 0" "16 * unat (jstream d ! 7) \<le> room d"
  shows "wp (GetSOF p) (\<lambda>_ d'. memory_shape d' = frame_places (jstream d ! 7) d) d"
  unfolding GetSOF_def
proof (rule wp_jbind, rule wp_conseq [OF wp_GetSOF_head [OF d(1,4)]], elim conjE)
  fix n d1 assume d1: "stream_ok d1" "n = jstream d ! 7" "memory_shape d1 = frame_places n d"
  let ?Q = "\<lambda>_ :: unit. \<lambda>d'. memory_shape d' = frame_places (jstream d ! 7) d"
  let ?I = "\<lambda>_ :: nat. \<lambda>d'. memory_shape d' = memory_shape d1"
  have placed: "frame_placed n d1"
    using d1(3) d(2) by (simp add: memory_shape_def frame_places_def frame_placed_def Let_def)
  have components: "wp (jfor [0..<unat n] (\<lambda>ci. GetSOF_component (of_nat ci))) (\<lambda>_. ?I (length [0..<unat n])) d1"
  proof (rule wp_jfor [where I = ?I, OF d1(1) refl])
    fix i d2 assume i: "i < length [0..<unat n]" and d2: "stream_ok d2" "memory_shape d2 = memory_shape d1"
    have "frame_placed n d2" using frame_placed_after [OF d2(2) placed] by (simp add: frame_placed_def)
    moreover have "i < 256" using i le_less_trans [OF unat_u8_le, of 256 n] by (simp add: less_trans)
    then have "unat (of_nat i :: u8) < unat n" using i by (simp add: unsigned_of_nat take_bit_nat_eq_self)
    ultimately have "wp (GetSOF_component (of_nat i)) (\<lambda>_ d'. memory_shape d' = memory_shape d2) d2"
      by (rule wp_GetSOF_component [OF d2(1)])
    then show "wp (GetSOF_component (of_nat ([0..<unat n] ! i))) (\<lambda>_. ?I (Suc i)) d2" using i d2(2) by simp
  qed
  show "wp (jseq [jfor [0..<unat n] (\<lambda>ci. GetSOF_component (of_nat ci)), GetSOF_format n]) ?Q d1"
  proof (rule wp_jseq, rule wp_conseq [OF components], rule wp_jseq)
    fix d2 assume d2: "stream_ok d2" "memory_shape d2 = memory_shape d1"
    have "frame_placed n d2" using frame_placed_after [OF d2(2) placed] by (simp add: frame_placed_def)
    then have "wp (GetSOF_format n) (\<lambda>_ d'. memory_shape d' = memory_shape d2) d2"
      using d(3) d1(2) by (intro wp_GetSOF_format d2(1)) simp_all
    then show "wp (GetSOF_format n) (\<lambda>_. wp (jseq []) ?Q) d2"
      by (rule wp_conseq) (use d2(2) d1(2,3) in simp)
  qed
qed

subsection \<open>A whole segment\<close>

text \<open>The tables that the handlers rely on, which they keep: the codec record has its arrays, the
  Huffman tables are blocks of the arena or can still become some, and there are as many component
  entries as components.\<close>

definition tables_in_place :: "jdec \<Rightarrow> bool" where
  "tables_in_place d \<longleftrightarrow> length (quant_tbl (dcodec d)) = 3 \<and> components_placed d
     \<and> length (dc_huff_tbl (dcodec d)) = 4 \<and> length (ac_huff_tbl (dcodec d)) = 4
     \<and> (g_huff_tbl_malloced d \<longrightarrow> (\<forall>t \<in> set (dc_huff_tbl (dcodec d)) \<union> set (ac_huff_tbl (dcodec d)).
          length (hbits t) = 17 \<and> length (huffval t) = 257))"

text \<open>The memory of the arena that a segment can take.\<close>

definition segment_needs :: "u8 \<Rightarrow> jdec \<Rightarrow> nat" where
  "segment_needs c d =
     (if c = M_SOF0 \<or> c = M_SOF1 \<or> c = M_SOF2 then 16 * unat (jstream d ! 7)
      else if c = M_DHT then (if g_huff_tbl_malloced d then 0 else 2240)
      else if c = M_DQT then 64 * (announced (jstream d) div 65 + 1) else 0)"

text \<open>The checks that the code does not make: a frame without components, a DC table with more symbols than the
  default one it is compared with, a second chroma table without a first one, a scan of more than three components.\<close>

definition segment_fits :: "u8 \<Rightarrow> jdec \<Rightarrow> bool" where
  "segment_fits c d =
     (if c = M_SOF0 \<or> c = M_SOF1 \<or> c = M_SOF2 then jstream d ! 7 \<noteq> 0
      else if c = M_DHT then symbols_fit (announced (jstream d)) (drop 2 (jstream d))
      else if c = M_DQT then quants_fit d
      else if c = M_SOS then jstream d ! 2 \<le> 3 else True)"

lemma tables_in_place_iff:
  "tables_in_place d \<longleftrightarrow> length (quant_lengths d) = 3 \<and> components_placed d \<and> length (map dims (dc_huff_tbl (dcodec d))) = 4
     \<and> length (map dims (ac_huff_tbl (dcodec d))) = 4
     \<and> (g_huff_tbl_malloced d \<longrightarrow> set (map dims (dc_huff_tbl (dcodec d))) \<union> set (map dims (ac_huff_tbl (dcodec d))) \<subseteq> {(17, 257)})"
  by (auto simp: tables_in_place_def quant_lengths_def dims_def)

lemma tables_in_place_rest:
  assumes "tables_in_place d" "rest_shape d' = rest_shape d" "length (quant_lengths d') = 3"
  shows "tables_in_place d'"
  using assms by (simp add: tables_in_place_iff rest_shape_def components_placed_def Let_def)

lemma tables_in_place_shape:
  assumes "tables_in_place d" "memory_shape d' = memory_shape d"
  shows "tables_in_place d'"
proof -
  have "rest_shape d' = rest_shape d" "length (quant_lengths d') = 3"
    using assms by (simp_all add: memory_shape_parts tables_in_place_iff)
  then show ?thesis by (rule tables_in_place_rest [OF assms(1)])
qed

lemma tables_in_place_malloc:
  assumes "tables_in_place d" "\<not> g_huff_tbl_malloced d \<longrightarrow> 2240 \<le> room d"
  shows "tables_allocated d" "tables_in_place (malloc_view d)"
    "room (malloc_view d) = room d - (if g_huff_tbl_malloced d then 0 else 2240)"
proof -
  show "tables_allocated d" using assms by (simp add: tables_allocated_def tables_in_place_def)
  show "tables_in_place (malloc_view d)"
    using assms(1) by (simp add: tables_in_place_def malloc_view_def put_tables_def components_placed_def fresh_huff_def)
  show "room (malloc_view d) = room d - (if g_huff_tbl_malloced d then 0 else 2240)"
    using assms(2) room_put_tables [of 2240 d] by (simp add: malloc_view_def)
qed

lemma tables_in_place_frame:
  assumes "tables_in_place d" "memory_shape d' = frame_places n d" "16 * unat n \<le> room d"
  shows "tables_in_place d'" "room d \<le> room d' + 16 * unat n"
proof -
  from assms(2) have "map length (quant_tbl (dcodec d')) = map length (quant_tbl (dcodec d))"
    "map dims (dc_huff_tbl (dcodec d')) = map dims (dc_huff_tbl (dcodec d))"
    "map dims (ac_huff_tbl (dcodec d')) = map dims (ac_huff_tbl (dcodec d))"
    "length (tbl_map (dcodec d')) = length (tbl_map (dcodec d))" "length (comp_id_map (dcodec d')) = length (comp_id_map (dcodec d))"
    "num_components (dcodec d') = n" "length (comp_info (dcodec d')) = unat n"
    "g_huff_tbl_malloced d' = g_huff_tbl_malloced d" and room: "room d' = room d - 16 * unat n"
    by (simp_all add: memory_shape_def frame_places_def Let_def)
  with assms(1) show "tables_in_place d'" by (simp add: tables_in_place_iff quant_lengths_def components_placed_def)
  show "room d \<le> room d' + 16 * unat n" using room by simp
qed

text \<open>
  C31: No segment makes its handler leave the tables of the decoder, whatever its bytes are and however they come
  out of the buffer and its refills.  The frame handler, the handlers of Huffman and quantization tables, the scan
  handler and those without tables neither read nor write outside an array of the codec record, a default table or a
  block of the arena: they succeed, with every table still in its place and no more of the arena taken than
  \<open>segment_needs\<close> says, or they report failure.  The hypotheses are that the arena has that much left,
  which the code does not check, and \<open>segment_fits\<close>: the four checks of the segment that the code does not
  make either.  A fault is excluded by the statement, so that every bound that the code does check (the symbols of a Huffman table,
  the number of a quantization table, the number of a component, the length of a frame header) is needed for it.
\<close>

theorem segments_stay_inside:
  assumes "stream_ok d" "tables_in_place d" "segment_needs c d \<le> room d" "segment_fits c d"
  shows "case (if c = M_SOS then GetSOS else process_marker c) d of
      JOk _ d' \<Rightarrow> stream_ok d' \<and> tables_in_place d' \<and> room d \<le> room d' + segment_needs c d
    | JFail _ \<Rightarrow> True | JFault \<Rightarrow> False"
proof -
  let ?Q = "\<lambda>_ :: unit. \<lambda>d'. tables_in_place d' \<and> room d \<le> room d' + segment_needs c d"
  have same: "?Q () d'" if "memory_shape d' = memory_shape d" for d'
    using tables_in_place_shape [OF assms(2) that] that by (simp add: memory_shape_parts)
  have placed: "components_placed d" "length (quant_lengths d) = 3" "length (tbl_map (dcodec d)) = 3"
    using assms(2) by (simp_all add: tables_in_place_iff components_placed_def)
  have frame: "wp (GetSOF p) ?Q d" if "c = M_SOF0 \<or> c = M_SOF1 \<or> c = M_SOF2" for p
  proof -
    have needs: "segment_needs c d = 16 * unat (jstream d ! 7)" and fits: "jstream d ! 7 \<noteq> 0"
      using that assms(4) by (simp_all add: segment_needs_def segment_fits_def)
    note room = assms(3) [unfolded needs]
    show ?thesis unfolding needs
      by (rule wp_conseq [OF wp_GetSOF [OF assms(1) placed(3) fits room]]) (intro conjI tables_in_place_frame [OF assms(2) _ room])
  qed
  have huffman: "wp GetHuffTbl ?Q d" if "c = M_DHT"
  proof -
    have needs: "segment_needs c d = (if g_huff_tbl_malloced d then 0 else 2240)"
      and fits: "symbols_fit (announced (jstream d)) (drop 2 (jstream d))"
      using that assms(4) by (simp_all add: segment_needs_def segment_fits_def marker_codes)
    have "\<not> g_huff_tbl_malloced d \<longrightarrow> 2240 \<le> room d" using assms(3) by (auto simp: needs)
    note malloc = tables_in_place_malloc [OF assms(2) this]
    show ?thesis unfolding needs
      by (rule wp_conseq [OF wp_GetHuffTbl [OF assms(1) malloc(1) fits]])
        (use malloc(3) tables_in_place_shape [OF malloc(2)] in \<open>simp add: memory_shape_parts\<close>)
  qed
  have quant: "wp GetQuantTbl ?Q d" if "c = M_DQT"
  proof -
    have needs: "segment_needs c d = 64 * (announced (jstream d) div 65 + 1)" and fits: "quants_fit d"
      using that assms(4) by (simp_all add: segment_needs_def segment_fits_def marker_codes)
    note room = assms(3) [unfolded needs]
    show ?thesis unfolding needs
      by (rule wp_conseq [OF wp_GetQuantTbl [OF assms(1) placed(2) room fits]])
        (auto intro: tables_in_place_rest [OF assms(2)])
  qed
  have scan: "wp GetSOS ?Q d" if "c = M_SOS"
    by (rule wp_conseq [OF wp_GetSOS [OF assms(1) placed(1)]])
      (use that assms(4) same in \<open>simp_all add: segment_fits_def marker_codes\<close>)
  have others: "wp m ?Q d" if "leaves m" for m :: "unit jreader"
    by (rule wp_conseq [OF leavesD [OF that assms(1)]]) (rule same)
  have "wp (if c = M_SOS then GetSOS else process_marker c) ?Q d"
    unfolding process_marker_def
    by (intro wp_if scan frame huffman quant others leaves_segments) blast+
  then show ?thesis by (simp add: wp_def conj_assoc cong: jres.case_cong)
qed

theorem segments_stay_inside_witness:
  "\<exists>d'. process_marker M_DQT (sample_dec (be16 67 @ [1] @ replicate 64 7 @ [9])) = JOk () d'
     \<and> jstream d' = [9] \<and> tables_in_place d' \<and> 3968 \<le> room d'"
proof -
  let ?d = "sample_dec (be16 67 @ [1] @ replicate 64 7 @ [9])"
  have bytes: "be16 67 @ [1] @ replicate 64 7 @ [9 :: u8] = 0 # 67 # 1 # replicate 64 7 @ [9]"
    by (simp add: be16_def hi8_def lo8_def)
  have d: "stream_ok ?d" "tables_in_place ?d" "room ?d = 4096" "jstream ?d = be16 67 @ [1] @ replicate 64 7 @ [9]"
    using sample_dec_stream(2,3) [of "be16 67 @ [1] @ replicate 64 7 @ [9]"]
    by (simp_all add: sample_dec_def zero_codec_def room_def tables_in_place_def components_placed_def)
  have announced: "announced (jstream ?d) = 65" unfolding d(4) unfolding bytes by (simp add: announced_def mk16_def)
  have "loaded_tables 65 (1 # xs) = [1]" for xs
  proof -
    have "loaded_tables 0 ys = []" for ys by (cases ys) simp_all
    then show ?thesis by simp
  qed
  then have "quants_fit ?d" unfolding quants_fit_def announced d(4) unfolding bytes by simp
  then have "segment_needs M_DQT ?d \<le> room ?d" "segment_fits M_DQT ?d"
    using d(3) announced by (simp_all add: segment_needs_def segment_fits_def marker_codes)
  note inside = segments_stay_inside [OF d(1,2) this]
  have "consumes (view ?d) (process_marker M_DQT) (be16 67 @ [of_nat 1] @ map ((!) (replicate 64 7)) zigzag) ()
      (dqt_view 1 (replicate 64 7) (view ?d))"
    by (rule parse_DQT) (use d(3) in \<open>simp_all add: room_def, simp_all add: sample_dec_def zero_codec_def\<close>)
  moreover have "map ((!) (replicate 64 (7 :: u8))) zigzag = replicate 64 7"
    by (rule replicate_eqI) (auto simp: set_zigzag)
  ultimately obtain d' where d': "process_marker M_DQT ?d = JOk () d'" "jstream d' = [9]"
    using consumesD [OF _ d(1) refl, of "process_marker M_DQT" "be16 67 @ [1] @ replicate 64 7" "()" _ "[9]"] d(4)
    by (auto simp: append_assoc)
  from inside have "tables_in_place d'" "room ?d \<le> room d' + segment_needs M_DQT ?d"
    using d'(1) by (simp_all add: marker_codes split: if_splits)
  with d d' announced show ?thesis by (simp add: segment_needs_def marker_codes)
qed

end
