(* ===== verification/JpegQuant.thy ===== *)
theory JpegQuant
  imports JpegCodec
begin

text \<open>
  The quantization tables of \<^verbatim>\<open>jpegcodec_table.c\<close>: for each of the five compress levels the
  steps of luma and chroma, and for the hardware, which multiplies and shifts instead of dividing,
  the reciprocal of each step as a mantissa and a shift.
\<close>

definition jpeg_fw_lum_quant_tbl_default :: "u8 list list" where
  "jpeg_fw_lum_quant_tbl_default =
    [[20, 14, 13, 20, 30, 50, 64, 76, 15, 15, 18, 24, 33, 73, 75, 69,
      18, 16, 20, 30, 50, 71, 86, 70, 18, 21, 28, 36, 64, 109, 100, 78,
      23, 28, 46, 70, 85, 136, 129, 96, 30, 44, 69, 80, 101, 130, 141, 115,
      61, 80, 98, 109, 129, 151, 150, 126, 90, 115, 119, 123, 140, 125, 129, 124],
     [16, 11, 10, 16, 24, 40, 51, 61, 12, 12, 14, 19, 26, 58, 60, 55,
      14, 13, 16, 24, 40, 57, 69, 56, 14, 17, 22, 29, 51, 87, 80, 62,
      18, 22, 37, 56, 68, 109, 103, 77, 24, 35, 55, 64, 81, 104, 113, 92,
      49, 64, 78, 87, 103, 121, 120, 101, 72, 92, 95, 98, 112, 100, 103, 99],
     [10, 7, 6, 10, 14, 24, 31, 37, 7, 7, 8, 11, 16, 35, 36, 33,
      8, 8, 10, 14, 24, 34, 41, 34, 8, 10, 13, 17, 31, 52, 48, 37,
      11, 13, 22, 34, 41, 65, 62, 46, 14, 21, 33, 38, 49, 62, 68, 55,
      29, 38, 47, 52, 62, 73, 72, 61, 43, 55, 57, 59, 67, 60, 62, 59],
     [5, 3, 3, 5, 7, 12, 15, 18, 4, 4, 4, 6, 8, 17, 18, 17,
      4, 4, 5, 7, 12, 17, 18, 17, 4, 5, 7, 9, 15, 26, 24, 19,
      5, 7, 11, 17, 20, 33, 31, 23, 7, 11, 17, 19, 24, 31, 34, 28,
      15, 19, 23, 26, 31, 36, 36, 30, 22, 28, 29, 29, 34, 30, 31, 30],
     [2, 1, 1, 2, 2, 4, 5, 6, 1, 1, 1, 2, 3, 6, 6, 6,
      1, 1, 2, 2, 4, 6, 7, 6, 1, 2, 2, 3, 5, 9, 8, 6,
      2, 2, 4, 6, 7, 11, 10, 8, 2, 4, 6, 6, 8, 10, 11, 9,
      5, 6, 8, 9, 10, 12, 12, 10, 7, 9, 10, 10, 11, 10, 10, 10]]"

definition jpeg_fw_chr_quant_tbl_default :: "u8 list list" where
  "jpeg_fw_chr_quant_tbl_default =
    [[21, 23, 30, 59, 124, 124, 124, 124, 23, 26, 33, 83, 124, 124, 124, 124,
      30, 33, 70, 124, 124, 124, 124, 124, 59, 83, 124, 124, 124, 124, 124, 124,
      124, 124, 124, 124, 124, 124, 124, 124, 124, 124, 124, 124, 124, 124, 124, 124,
      124, 124, 124, 124, 124, 124, 124, 124, 124, 124, 124, 124, 124, 124, 124, 124],
     [17, 18, 24, 47, 99, 99, 99, 99, 18, 21, 26, 66, 99, 99, 99, 99,
      24, 26, 56, 99, 99, 99, 99, 99, 47, 66, 99, 99, 99, 99, 99, 99,
      99, 99, 99, 99, 99, 99, 99, 99, 99, 99, 99, 99, 99, 99, 99, 99,
      99, 99, 99, 99, 99, 99, 99, 99, 99, 99, 99, 99, 99, 99, 99, 99],
     [10, 11, 14, 28, 59, 59, 59, 59, 11, 13, 16, 40, 59, 59, 59, 59,
      14, 16, 34, 59, 59, 59, 59, 59, 28, 40, 59, 59, 59, 59, 59, 59,
      59, 59, 59, 59, 59, 59, 59, 59, 59, 59, 59, 59, 59, 59, 59, 59,
      59, 59, 59, 59, 59, 59, 59, 59, 59, 59, 59, 59, 59, 59, 59, 59],
     [5, 5, 7, 14, 30, 30, 30, 30, 5, 6, 8, 20, 30, 30, 30, 30,
      7, 8, 17, 30, 30, 30, 30, 30, 14, 20, 30, 30, 30, 30, 30, 30,
      30, 30, 30, 30, 30, 30, 30, 30, 30, 30, 30, 30, 30, 30, 30, 30,
      30, 30, 30, 30, 30, 30, 30, 30, 30, 30, 30, 30, 30, 30, 30, 30],
     [2, 2, 2, 5, 10, 10, 10, 10, 2, 2, 3, 7, 10, 10, 10, 10,
      2, 3, 6, 10, 10, 10, 10, 10, 5, 7, 10, 10, 10, 10, 10, 10,
      10, 10, 10, 10, 10, 10, 10, 10, 10, 10, 10, 10, 10, 10, 10, 10,
      10, 10, 10, 10, 10, 10, 10, 10, 10, 10, 10, 10, 10, 10, 10, 10]]"

definition jpeg_fw_new_lum_quant_tbl_default :: "u16 list list" where
  "jpeg_fw_new_lum_quant_tbl_default =
    [[3277, 2341, 2521, 3277, 2185, 2621, 2048, 3449, 2185, 2185, 3641, 2731, 3972, 3591, 3495, 3799,
      3641, 2048, 3277, 2185, 2621, 3692, 3048, 3745, 3641, 3121, 2341, 3641, 2048, 2405, 2621, 3361,
      2849, 2341, 2849, 3745, 3084, 3855, 4064, 2731, 2185, 2979, 3799, 3277, 2595, 4033, 3718, 2280,
      2149, 3277, 2675, 2405, 4064, 3472, 3495, 2081, 2913, 2280, 2203, 2131, 3745, 2097, 4064, 2114],
     [2048, 2979, 3277, 2048, 2731, 3277, 2570, 2149, 2731, 2731, 2341, 3449, 2521, 2260, 2185, 2383,
      2341, 2521, 2048, 2731, 3277, 2300, 3799, 2341, 2341, 3855, 2979, 2260, 2570, 3013, 3277, 2114,
      3641, 2979, 3542, 2341, 3855, 2405, 2545, 3404, 2731, 3745, 2383, 2048, 3236, 2521, 2320, 2849,
      2675, 2048, 3361, 3013, 2545, 2166, 2185, 2595, 3641, 2849, 2759, 2675, 2341, 2621, 2545, 2648],
     [3277, 2341, 2731, 3277, 2341, 2731, 2114, 3542, 2341, 2341, 2048, 2979, 2048, 3745, 3641, 3972,
      2048, 2048, 3277, 2341, 2731, 3855, 3197, 3855, 2048, 3277, 2521, 3855, 2114, 2521, 2731, 3542,
      2979, 2521, 2979, 3855, 3197, 4033, 2114, 2849, 2341, 3121, 3972, 3449, 2675, 2114, 3855, 2383,
      2260, 3449, 2789, 2521, 2114, 3591, 3641, 2149, 3048, 2383, 2300, 2222, 3913, 2185, 2114, 2222],
     [3277, 2731, 2731, 3277, 2341, 2731, 2185, 3641, 2048, 2048, 2048, 2731, 2048, 3855, 3641, 3855,
      2048, 2048, 3277, 2341, 2731, 3855, 3641, 3855, 2048, 3277, 2341, 3641, 2185, 2521, 2731, 3449,
      3277, 2341, 2979, 3855, 3277, 3972, 2114, 2849, 2341, 2979, 3855, 3449, 2731, 2114, 3855, 2341,
      2185, 3449, 2849, 2521, 2114, 3641, 3641, 2185, 2979, 2341, 2260, 2260, 3855, 2185, 2114, 2185],
     [2048, 2048, 2048, 2048, 2048, 2048, 3277, 2731, 2048, 2048, 2048, 2048, 2731, 2731, 2731, 2731,
      2048, 2048, 2048, 2048, 2048, 2731, 2341, 2731, 2048, 2048, 2048, 2731, 3277, 3641, 2048, 2731,
      2048, 2048, 2048, 2731, 2341, 2979, 3277, 2048, 2048, 2048, 2731, 2731, 2048, 3277, 2979, 3641,
      3277, 2731, 2048, 3641, 3277, 2731, 2731, 3277, 2341, 3641, 3277, 3277, 2979, 3277, 3277, 3277]]"

definition jpeg_fw_new_lum_quant_tbl_default_shift :: "u8 list list" where
  "jpeg_fw_new_lum_quant_tbl_default_shift =
    [[16, 15, 15, 16, 16, 17, 17, 18, 15, 15, 16, 16, 17, 18, 18, 18,
      16, 15, 16, 16, 17, 18, 18, 18, 16, 16, 16, 17, 17, 18, 18, 18,
      16, 16, 17, 18, 18, 19, 19, 18, 16, 17, 18, 18, 18, 19, 19, 18,
      17, 18, 18, 18, 19, 19, 19, 18, 18, 18, 18, 18, 19, 18, 19, 18],
     [15, 15, 15, 15, 16, 17, 17, 17, 15, 15, 15, 16, 16, 17, 17, 17,
      15, 15, 15, 16, 17, 17, 18, 17, 15, 16, 16, 16, 17, 18, 18, 17,
      16, 16, 17, 17, 18, 18, 18, 18, 16, 17, 17, 17, 18, 18, 18, 18,
      17, 17, 18, 18, 18, 18, 18, 18, 18, 18, 18, 18, 18, 18, 18, 18],
     [15, 14, 14, 15, 15, 16, 16, 17, 14, 14, 14, 15, 15, 17, 17, 17,
      14, 14, 15, 15, 16, 17, 17, 17, 14, 15, 15, 16, 16, 17, 17, 17,
      15, 15, 16, 17, 17, 18, 17, 17, 15, 16, 17, 17, 17, 17, 18, 17,
      16, 17, 17, 17, 17, 18, 18, 17, 17, 17, 17, 17, 18, 17, 17, 17],
     [14, 13, 13, 14, 14, 15, 15, 16, 13, 13, 13, 14, 14, 16, 16, 16,
      13, 13, 14, 14, 15, 16, 16, 16, 13, 14, 14, 15, 15, 16, 16, 16,
      14, 14, 15, 16, 16, 17, 16, 16, 14, 15, 16, 16, 16, 16, 17, 16,
      15, 16, 16, 16, 16, 17, 17, 16, 16, 16, 16, 16, 17, 16, 16, 16],
     [12, 11, 11, 12, 12, 13, 14, 14, 11, 11, 11, 12, 13, 14, 14, 14,
      11, 11, 12, 12, 13, 14, 14, 14, 11, 12, 12, 13, 14, 15, 14, 14,
      12, 12, 13, 14, 14, 15, 15, 14, 12, 13, 14, 14, 14, 15, 15, 15,
      14, 14, 14, 15, 15, 15, 15, 15, 14, 15, 15, 15, 15, 15, 15, 15]]"

definition jpeg_fw_new_chr_quant_tbl_default :: "u16 list list" where
  "jpeg_fw_new_chr_quant_tbl_default =
    [[3121, 2849, 2185, 2222, 2114, 2114, 2114, 2114, 2849, 2521, 3972, 3158, 2114, 2114, 2114, 2114,
      2185, 3972, 3745, 2114, 2114, 2114, 2114, 2114, 2222, 3158, 2114, 2114, 2114, 2114, 2114, 2114,
      2114, 2114, 2114, 2114, 2114, 2114, 2114, 2114, 2114, 2114, 2114, 2114, 2114, 2114, 2114, 2114,
      2114, 2114, 2114, 2114, 2114, 2114, 2114, 2114, 2114, 2114, 2114, 2114, 2114, 2114, 2114, 2114],
     [3855, 3641, 2731, 2789, 2648, 2648, 2648, 2648, 3641, 3121, 2521, 3972, 2648, 2648, 2648, 2648,
      2731, 2521, 2341, 2648, 2648, 2648, 2648, 2648, 2789, 3972, 2648, 2648, 2648, 2648, 2648, 2648,
      2648, 2648, 2648, 2648, 2648, 2648, 2648, 2648, 2648, 2648, 2648, 2648, 2648, 2648, 2648, 2648,
      2648, 2648, 2648, 2648, 2648, 2648, 2648, 2648, 2648, 2648, 2648, 2648, 2648, 2648, 2648, 2648],
     [3277, 2979, 2341, 2341, 2222, 2222, 2222, 2222, 2979, 2521, 2048, 3277, 2222, 2222, 2222, 2222,
      2341, 2048, 3855, 2222, 2222, 2222, 2222, 2222, 2341, 3277, 2222, 2222, 2222, 2222, 2222, 2222,
      2222, 2222, 2222, 2222, 2222, 2222, 2222, 2222, 2222, 2222, 2222, 2222, 2222, 2222, 2222, 2222,
      2222, 2222, 2222, 2222, 2222, 2222, 2222, 2222, 2222, 2222, 2222, 2222, 2222, 2222, 2222, 2222],
     [3277, 3277, 2341, 2341, 2185, 2185, 2185, 2185, 3277, 2731, 2048, 3277, 2185, 2185, 2185, 2185,
      2341, 2048, 3855, 2185, 2185, 2185, 2185, 2185, 2341, 3277, 2185, 2185, 2185, 2185, 2185, 2185,
      2185, 2185, 2185, 2185, 2185, 2185, 2185, 2185, 2185, 2185, 2185, 2185, 2185, 2185, 2185, 2185,
      2185, 2185, 2185, 2185, 2185, 2185, 2185, 2185, 2185, 2185, 2185, 2185, 2185, 2185, 2185, 2185],
     [2048, 2048, 2048, 3277, 3277, 3277, 3277, 3277, 2048, 2048, 2731, 2341, 3277, 3277, 3277, 3277,
      2048, 2731, 2731, 3277, 3277, 3277, 3277, 3277, 3277, 2341, 3277, 3277, 3277, 3277, 3277, 3277,
      3277, 3277, 3277, 3277, 3277, 3277, 3277, 3277, 3277, 3277, 3277, 3277, 3277, 3277, 3277, 3277,
      3277, 3277, 3277, 3277, 3277, 3277, 3277, 3277, 3277, 3277, 3277, 3277, 3277, 3277, 3277, 3277]]"

definition jpeg_fw_new_chr_quant_tbl_default_shift :: "u8 list list" where
  "jpeg_fw_new_chr_quant_tbl_default_shift =
    [[16, 16, 16, 17, 18, 18, 18, 18, 16, 16, 17, 18, 18, 18, 18, 18,
      16, 17, 18, 18, 18, 18, 18, 18, 17, 18, 18, 18, 18, 18, 18, 18,
      18, 18, 18, 18, 18, 18, 18, 18, 18, 18, 18, 18, 18, 18, 18, 18,
      18, 18, 18, 18, 18, 18, 18, 18, 18, 18, 18, 18, 18, 18, 18, 18],
     [16, 16, 16, 17, 18, 18, 18, 18, 16, 16, 16, 18, 18, 18, 18, 18,
      16, 16, 17, 18, 18, 18, 18, 18, 17, 18, 18, 18, 18, 18, 18, 18,
      18, 18, 18, 18, 18, 18, 18, 18, 18, 18, 18, 18, 18, 18, 18, 18,
      18, 18, 18, 18, 18, 18, 18, 18, 18, 18, 18, 18, 18, 18, 18, 18],
     [15, 15, 15, 16, 17, 17, 17, 17, 15, 15, 15, 17, 17, 17, 17, 17,
      15, 15, 17, 17, 17, 17, 17, 17, 16, 17, 17, 17, 17, 17, 17, 17,
      17, 17, 17, 17, 17, 17, 17, 17, 17, 17, 17, 17, 17, 17, 17, 17,
      17, 17, 17, 17, 17, 17, 17, 17, 17, 17, 17, 17, 17, 17, 17, 17],
     [14, 14, 14, 15, 16, 16, 16, 16, 14, 14, 14, 16, 16, 16, 16, 16,
      14, 14, 16, 16, 16, 16, 16, 16, 15, 16, 16, 16, 16, 16, 16, 16,
      16, 16, 16, 16, 16, 16, 16, 16, 16, 16, 16, 16, 16, 16, 16, 16,
      16, 16, 16, 16, 16, 16, 16, 16, 16, 16, 16, 16, 16, 16, 16, 16],
     [12, 12, 12, 14, 15, 15, 15, 15, 12, 12, 13, 14, 15, 15, 15, 15,
      12, 13, 14, 15, 15, 15, 15, 15, 14, 14, 15, 15, 15, 15, 15, 15,
      15, 15, 15, 15, 15, 15, 15, 15, 15, 15, 15, 15, 15, 15, 15, 15,
      15, 15, 15, 15, 15, 15, 15, 15, 15, 15, 15, 15, 15, 15, 15, 15]]"

lemma quant_tables_shape:
  "length jpeg_fw_lum_quant_tbl_default = 5" "\<forall>q \<in> set jpeg_fw_lum_quant_tbl_default. length q = 64"
  "length jpeg_fw_chr_quant_tbl_default = 5" "\<forall>q \<in> set jpeg_fw_chr_quant_tbl_default. length q = 64"
  by (simp_all add: jpeg_fw_lum_quant_tbl_default_def jpeg_fw_chr_quant_tbl_default_def)

text \<open>A mantissa and a shift that give the quotient by a step: the mantissa has twelve bits and is the
  nearest integer to the shifted reciprocal of the step.\<close>

definition reciprocal :: "nat \<Rightarrow> nat \<Rightarrow> nat \<Rightarrow> bool" where
  "reciprocal q m s \<longleftrightarrow> 2048 \<le> m \<and> m < 4096 \<and> 2 * (m * q) \<le> 2 * 2 ^ s + q \<and> 2 * 2 ^ s \<le> 2 * (m * q) + q"

definition reciprocals :: "u8 list \<Rightarrow> u16 list \<Rightarrow> u8 list \<Rightarrow> bool" where
  "reciprocals qs ms ss \<longleftrightarrow> length ms = length qs \<and> length ss = length qs
     \<and> (\<forall>k < length qs. reciprocal (unat (qs ! k)) (unat (ms ! k)) (unat (ss ! k)))"

fun check_reciprocals :: "nat list \<Rightarrow> nat list \<Rightarrow> nat list \<Rightarrow> bool" where
  "check_reciprocals [] [] [] = True"
| "check_reciprocals (q # qs) (m # ms) (s # ss) \<longleftrightarrow> reciprocal q m s \<and> check_reciprocals qs ms ss"
| "check_reciprocals _ _ _ = False"

lemma check_reciprocals_sound:
  "check_reciprocals (map unat qs) (map unat ms) (map unat ss) \<Longrightarrow> reciprocals qs ms ss"
proof (induction "map unat qs" "map unat ms" "map unat ss" arbitrary: qs ms ss rule: check_reciprocals.induct)
  case (2 q qs' m ms' s ss')
  then obtain q0 m0 s0 qs0 ms0 ss0 where eq: "qs = q0 # qs0" "ms = m0 # ms0" "ss = s0 # ss0"
    by (metis map_eq_Cons_conv)
  with 2 have "reciprocals qs0 ms0 ss0" "reciprocal (unat q0) (unat m0) (unat s0)" by auto
  then show ?case unfolding eq reciprocals_def by (auto simp: nth_Cons' less_Suc_eq_0_disj)
qed (auto simp: reciprocals_def)

text \<open>The two components of a level.\<close>

lemmas lum_tables = jpeg_fw_lum_quant_tbl_default_def jpeg_fw_new_lum_quant_tbl_default_def
  jpeg_fw_new_lum_quant_tbl_default_shift_def

lemmas chr_tables = jpeg_fw_chr_quant_tbl_default_def jpeg_fw_new_chr_quant_tbl_default_def
  jpeg_fw_new_chr_quant_tbl_default_shift_def

lemma check_levels:
  assumes "list_all (\<lambda>(q, m, n). check_reciprocals (map unat q) (map unat m) (map unat n)) (zip qss (zip mss sss))"
    and "level < length qss" "length mss = length qss" "length sss = length qss"
  shows "reciprocals (qss ! level) (mss ! level) (sss ! level)"
  using assms by (intro check_reciprocals_sound) (auto simp: list_all_length)

lemma table_reciprocals:
  "level < 5 \<Longrightarrow> reciprocals (jpeg_fw_lum_quant_tbl_default ! level)
     (jpeg_fw_new_lum_quant_tbl_default ! level) (jpeg_fw_new_lum_quant_tbl_default_shift ! level)"
  "level < 5 \<Longrightarrow> reciprocals (jpeg_fw_chr_quant_tbl_default ! level)
     (jpeg_fw_new_chr_quant_tbl_default ! level) (jpeg_fw_new_chr_quant_tbl_default_shift ! level)"
  by (rule check_levels; simp add: lum_tables chr_tables reciprocal_def)+

end
