(* ===== verification/JpegInit.thy ===== *)
theory JpegInit
  imports JpegQuant JpegHeader
begin

text \<open>
  How the encoder and the decoder set up their codec record: \<^verbatim>\<open>jpegenc_init.c\<close>,
  \<^verbatim>\<open>jpegenc_interface.c\<close> and \<^verbatim>\<open>jpegcodec_global.c\<close> on the encoder's side, \<^verbatim>\<open>jpegdec_init.c\<close> on
  the decoder's.  The registers of the hardware are left out, except the quantization words, which
  are the value of \<^verbatim>\<open>JpegEnc_QTableCfg\<close>; so are the buffer pointers of the two inputs.
\<close>

subsection \<open>The encoder\<close>

definition JPEG_QUALITY_MAX :: u32 where
  "JPEG_QUALITY_MAX = 5"

record enc_input =
  enc_width :: u32
  enc_height :: u32
  yuv_0_mcu_info :: u32
  yuv_1_mcu_info :: u32
  enc_quant_level :: u32
  enc_restart_interval :: u32

definition set_enc :: "(jpeg_codec \<Rightarrow> jpeg_codec) \<Rightarrow> jwriter" where
  [jstmt]: "set_enc f = jmod (\<lambda>e. e\<lparr>codec := f (codec e)\<rparr>)"

definition MAX3 :: "u8 \<Rightarrow> u8 \<Rightarrow> u8 \<Rightarrow> u8" where
  "MAX3 a b c = max a (max b c)"

definition mcu_size :: "(sample_ratio \<Rightarrow> u8) \<Rightarrow> sample_ratio list \<Rightarrow> u16" where
  "mcu_size f r = 8 * ucast (MAX3 (f (r ! 0)) (f (r ! 1)) (f (r ! 2)))"

text \<open>The number of units that cover a length, computed as an \<^verbatim>\<open>int\<close> and stored in 16 bits.\<close>

definition mcu_count :: "u16 \<Rightarrow> u16 \<Rightarrow> u16" where
  "mcu_count len unit = of_nat ((unat len + unat unit - 1) div unat unit)"

definition enc_ratios :: "u8 \<Rightarrow> sample_ratio list option" where
  "enc_ratios i =
     (if ucast i = JPEG_FW_YUV420
      then Some [\<lparr>h_ratio = 2, v_ratio = 2\<rparr>, \<lparr>h_ratio = 1, v_ratio = 1\<rparr>, \<lparr>h_ratio = 1, v_ratio = 1\<rparr>]
      else if ucast i = JPEG_FW_YUV422
      then Some [\<lparr>h_ratio = 2, v_ratio = 1\<rparr>, \<lparr>h_ratio = 1, v_ratio = 1\<rparr>, \<lparr>h_ratio = 1, v_ratio = 1\<rparr>]
      else None)"

definition enc_tables :: "jpeg_codec \<Rightarrow> jpeg_codec" where
  "enc_tables c = c\<lparr>
     dc_huff_tbl := (dc_huff_tbl c)
       [0 := \<lparr>hbits = jpeg_fw_lum_dc_bits_default, huffval = jpeg_fw_lum_dc_huffvalue_default\<rparr>,
        1 := \<lparr>hbits = jpeg_fw_chr_dc_bits_default, huffval = jpeg_fw_chr_dc_huffvalue_default\<rparr>],
     ac_huff_tbl := (ac_huff_tbl c)
       [0 := \<lparr>hbits = jpeg_fw_lum_ac_bits_default, huffval = jpeg_fw_lum_ac_huffvalue_default\<rparr>,
        1 := \<lparr>hbits = jpeg_fw_chr_ac_bits_default, huffval = jpeg_fw_chr_ac_huffvalue_default\<rparr>]\<rparr>"

definition enc_geometry :: "jpeg_codec \<Rightarrow> jpeg_codec" where
  "enc_geometry c =
     (let mcu_h = mcu_size v_ratio (ratio c); mcu_w = mcu_size h_ratio (ratio c);
          num_x = mcu_count (width c) mcu_w; num_y = mcu_count (height c) mcu_h
      in c\<lparr>mcu_height := mcu_h, mcu_width := mcu_w, mcu_num_x := num_x, mcu_num_y := num_y,
           c_width := num_x * mcu_w, c_height := num_y * mcu_h\<rparr>)"

text \<open>The level that is checked is that of the record before it is cleared, not that of the
  input.\<close>

definition JpegEnc_InitParam :: "enc_input \<Rightarrow> jwriter" where
  "JpegEnc_InitParam p = jseq
     [jguard (\<not> (yuv_0_mcu_info p \<noteq> JPEG_FW_YUV422 \<and> yuv_0_mcu_info p \<noteq> JPEG_FW_YUV420
              \<and> yuv_1_mcu_info p \<noteq> JPEG_FW_YUV422 \<and> yuv_1_mcu_info p \<noteq> JPEG_FW_YUV420)),
      jbind (jget codec) (\<lambda>c. jguard (\<not> compress_level c > JPEG_QUALITY_MAX)),
      jguard (\<not> (enc_width p < 1 \<or> enc_height p < 1)),
      set_enc (\<lambda>_. zero_codec),
      set_enc (\<lambda>c. c\<lparr>RST_Count := M_RST0, input_mcu_info := ucast (yuv_0_mcu_info p),
        width := ucast (enc_width p), height := ucast (enc_height p),
        compress_level := enc_quant_level p\<rparr>),
      set_enc enc_tables,
      set_enc (\<lambda>c. c\<lparr>restart_interval := enc_restart_interval p, restart_to_go := 0,
        next_restart_num := 0\<rparr>),
      jbind (jget codec) (\<lambda>c. case enc_ratios (input_mcu_info c) of
          None \<Rightarrow> jfail
        | Some r \<Rightarrow> set_enc (\<lambda>c. c\<lparr>ratio := r\<rparr>)),
      set_enc enc_geometry]"

definition JPEGFW_InitHuffTblWithDefaultValue :: jwriter where
  "JPEGFW_InitHuffTblWithDefaultValue = set_enc (\<lambda>c. c\<lparr>tbl_map :=
     (tbl_map c)
       [0 := (tbl_map c ! 0)\<lparr>dc_huff_tbl_id := 0, ac_huff_tbl_id := 0\<rparr>,
        1 := (tbl_map c ! 1)\<lparr>dc_huff_tbl_id := 1, ac_huff_tbl_id := 1\<rparr>,
        2 := (tbl_map c ! 2)\<lparr>dc_huff_tbl_id := 1, ac_huff_tbl_id := 1\<rparr>]\<rparr>)"

definition jpeg_fw_ASIC_DCT_Matrix :: "nat list" where
  "jpeg_fw_ASIC_DCT_Matrix =
    [0, 32, 16, 48, 8, 40, 24, 56, 4, 36, 20, 52, 12, 44, 28, 60,
     2, 34, 18, 50, 10, 42, 26, 58, 6, 38, 22, 54, 14, 46, 30, 62,
     1, 33, 17, 49, 9, 41, 25, 57, 5, 37, 21, 53, 13, 45, 29, 61,
     3, 35, 19, 51, 11, 43, 27, 59, 7, 39, 23, 55, 15, 47, 31, 63]"

text \<open>A table entry of the hardware: the mantissa over the shift minus 11, two of them in a word.\<close>

definition quant_entry :: "u16 list \<Rightarrow> u8 list \<Rightarrow> nat \<Rightarrow> u16" where
  "quant_entry quant shift index = push_bit 4 (quant ! index) OR (ucast (shift ! index) - 11)"

definition quant_words :: "u16 list \<Rightarrow> u8 list \<Rightarrow> u32 list" where
  "quant_words quant shift = map (\<lambda>i.
     push_bit 16 (ucast (quant_entry quant shift (jpeg_fw_ASIC_DCT_Matrix ! (2 * i + 1))))
     OR ucast (quant_entry quant shift (jpeg_fw_ASIC_DCT_Matrix ! (2 * i)))) [0..<32]"

definition JpegEnc_QTableCfg :: "(u32 list, jenc) jm" where
  "JpegEnc_QTableCfg = jthen (set_enc (\<lambda>c. c\<lparr>tbl_map := (tbl_map c)
       [0 := (tbl_map c ! 0)\<lparr>quant_tbl_id := 0\<rparr>, 1 := (tbl_map c ! 1)\<lparr>quant_tbl_id := 1\<rparr>,
        2 := (tbl_map c ! 2)\<lparr>quant_tbl_id := 1\<rparr>]\<rparr>))
     (jbind (jget (\<lambda>e. unat (compress_level (codec e)))) (\<lambda>level.
      jthen (jcheck (\<lambda>_. level < length jpeg_fw_lum_quant_tbl_default))
     (jthen (set_enc (\<lambda>c. c\<lparr>quant_tbl := (quant_tbl c)
         [0 := jpeg_fw_lum_quant_tbl_default ! level, 1 := jpeg_fw_chr_quant_tbl_default ! level]\<rparr>))
       (jret (quant_words (jpeg_fw_new_lum_quant_tbl_default ! level)
                (jpeg_fw_new_lum_quant_tbl_default_shift ! level)
            @ quant_words (jpeg_fw_new_chr_quant_tbl_default ! level)
                (jpeg_fw_new_chr_quant_tbl_default_shift ! level))))))"

text \<open>The initialization of an encoding; later slices keep the record.  The value is the list of
  quantization words.\<close>

definition JPEG_HWEncInit :: "bool \<Rightarrow> enc_input \<Rightarrow> (u32 list, jenc) jm" where
  "JPEG_HWEncInit is_first_slice p =
     jthen (if is_first_slice then JpegEnc_InitParam p else jret ())
    (jthen JPEGFW_InitHuffTblWithDefaultValue JpegEnc_QTableCfg)"

subsection \<open>The decoder\<close>

definition dec_ratios :: "u8 \<Rightarrow> sample_ratio list option" where
  "dec_ratios i =
    (let y = (\<lambda>h v. Some [\<lparr>h_ratio = h, v_ratio = v\<rparr>, \<lparr>h_ratio = 1, v_ratio = 1\<rparr>, \<lparr>h_ratio = 1, v_ratio = 1\<rparr>]);
         info = ucast i
     in if info = JPEG_FW_YUV420 then y 2 2
        else if info = JPEG_FW_YUV411 then y 4 1
        else if info = JPEG_FW_YUV444 then y 1 1
        else if info = JPEG_FW_YUV422 then y 2 1
        else if info = JPEG_FW_YUV400
        then Some [\<lparr>h_ratio = 1, v_ratio = 1\<rparr>, \<lparr>h_ratio = 0, v_ratio = 0\<rparr>, \<lparr>h_ratio = 0, v_ratio = 0\<rparr>]
        else if info = JPEG_FW_YUV422_R then y 1 2
        else if info = JPEG_FW_YUV411_R then y 1 4
        else None)"

definition dec_max_height :: "u8 \<Rightarrow> u16 option" where
  "dec_max_height i =
    (let info = ucast i
     in if info = JPEG_FW_YUV444 \<or> info = JPEG_FW_YUV422 \<or> info = JPEG_FW_YUV411 \<or> info = JPEG_FW_YUV400
        then Some 8192
        else if info = JPEG_FW_YUV422_R \<or> info = JPEG_FW_YUV420 then Some (8192 * 2)
        else if info = JPEG_FW_YUV411_R then Some (8192 * 4)
        else None)"

definition misc_mcu :: "jpeg_codec \<Rightarrow> jpeg_codec" where
  "misc_mcu c = c\<lparr>mcu_width := mcu_size h_ratio (ratio c), mcu_height := mcu_size v_ratio (ratio c)\<rparr>"

definition misc_num :: "jpeg_codec \<Rightarrow> jpeg_codec" where
  "misc_num c = c\<lparr>mcu_num_x := mcu_count (width c) (mcu_width c),
     mcu_num_y := mcu_count (height c) (mcu_height c)\<rparr>"

definition misc_size :: "jpeg_codec \<Rightarrow> jpeg_codec" where
  "misc_size c = c\<lparr>c_width := mcu_num_x c * mcu_width c, c_height := mcu_num_y c * mcu_height c\<rparr>"

definition misc_out :: "jpeg_codec \<Rightarrow> jpeg_codec" where
  "misc_out c = c\<lparr>out_width := drop_bit (unat (scale_factor c)) (c_width c),
     out_height := drop_bit (unat (scale_factor c)) (c_height c)\<rparr>"

definition misc_zero :: "jpeg_codec \<Rightarrow> jpeg_codec" where
  "misc_zero c = c\<lparr>dc_pred_y := 0, dc_pred_uv := 0, restart_mcu_cnt := 0, bitstream_offset := 0\<rparr>"

text \<open>The scale factor is a shift count that nobody checks; from 32 on the shift is undefined.\<close>

definition JPEGFW_UpdateMiscFields :: "unit jreader" where
  "JPEGFW_UpdateMiscFields = jseq
     [set_codec misc_mcu,
      jbind (jget dcodec) (\<lambda>c. jguard (\<not> (mcu_height c = 0 \<or> mcu_width c = 0))),
      set_codec misc_num,
      set_codec misc_size,
      jcheck (\<lambda>d. unat (scale_factor (dcodec d)) < 32),
      set_codec misc_out,
      set_codec misc_zero,
      jbind (jget dcodec) (\<lambda>c. jguard (\<not> (out_width c = 0 \<or> out_height c = 0))),
      jbind (jget dcodec) (\<lambda>c. case dec_max_height (input_mcu_info c) of
          None \<Rightarrow> jfail
        | Some max_height \<Rightarrow> jguard (\<not> (c_width c > 4096 \<or> c_height c > max_height
            \<or> unat (mcu_num_x c) * unat (mcu_num_y c) \<ge> 0x3FFFF)))]"

definition JPEG_FWInitDecInput :: "u16 \<Rightarrow> unit jreader" where
  "JPEG_FWInitDecInput scaling_down_factor = jseq
     [jbind (jget (\<lambda>d. d)) (\<lambda>d. set_codec (\<lambda>c. c\<lparr>scale_factor := ucast scaling_down_factor,
        progressive_mode := input_progressive d, width := ucast (input_width d),
        height := ucast (input_height d), input_mcu_info := ucast (mcu_info d),
        compress_level := quant_level d\<rparr>)),
      jbind (jget dcodec) (\<lambda>c. case dec_ratios (input_mcu_info c) of
          None \<Rightarrow> jfail
        | Some r \<Rightarrow> set_codec (\<lambda>c. c\<lparr>ratio := r\<rparr>)),
      JPEGFW_UpdateMiscFields]"

subsection \<open>The size of the decoded image\<close>

lemma cover_nat:
  assumes "u = 8 \<or> u = 16 \<or> u = (32 :: nat)"
  shows "(w + u - 1) div u * u \<le> w + u - 1" "w \<le> (w + u - 1) div u * u"
    and "w < 65536 \<Longrightarrow> (w + u - 1) div u < 65536"
    and "w < 65536 \<Longrightarrow> 65536 \<le> (w + u - 1) div u * u \<Longrightarrow> (w + u - 1) div u * u = 65536"
  using assms by (elim disjE; simp; presburger)+

text \<open>The units cover the length, and the 16-bit product only wraps to nothing.\<close>

lemma mcu_cover:
  assumes u: "u = 8 \<or> u = 16 \<or> u = (32 :: u16)" and p: "mcu_count len u * u \<noteq> 0"
  shows "unat len \<le> unat (mcu_count len u * u)"
    and "unat (mcu_count len u * u) < unat len + unat u"
    and "unat (mcu_count len u * u) = unat (mcu_count len u) * unat u"
proof -
  let ?k = "(unat len + unat u - 1) div unat u"
  have len: "unat len < 65536" using unat_u16_less [of len] by simp
  have un: "unat u = 8 \<or> unat u = 16 \<or> unat u = 32" using u by auto
  have k: "?k * unat u \<le> unat len + unat u - 1" "unat len \<le> ?k * unat u" "?k < 65536"
    using cover_nat [OF un, of "unat len"] len by blast+
  have c: "unat (mcu_count len u) = ?k"
    unfolding mcu_count_def by (rule unat_of_nat_u16 [OF k(3)])
  have prod: "unat (mcu_count len u * u) = ?k * unat u mod 65536"
    by (simp add: unat_word_ariths c)
  have "?k * unat u < 65536"
  proof (rule ccontr)
    assume "\<not> ?k * unat u < 65536"
    with cover_nat(4) [OF un len] have "?k * unat u = 65536" by linarith
    with prod p show False by (simp add: unat_eq_0)
  qed
  with prod c have e: "unat (mcu_count len u * u) = ?k * unat u" by simp
  show "unat (mcu_count len u * u) = unat (mcu_count len u) * unat u" using e c by simp
  show "unat len \<le> unat (mcu_count len u * u)" using e k(2) by simp
  show "unat (mcu_count len u * u) < unat len + unat u" using e k(1) un by linarith
qed

lemma dec_ratios_sizes:
  assumes "dec_ratios i = Some r"
  shows "mcu_size h_ratio r = 8 \<or> mcu_size h_ratio r = 16 \<or> mcu_size h_ratio r = 32"
    and "mcu_size v_ratio r = 8 \<or> mcu_size v_ratio r = 16 \<or> mcu_size v_ratio r = 32"
  using assms by (auto simp: dec_ratios_def Let_def mcu_size_def MAX3_def split: if_splits)

text \<open>The ways in which a statement ends normally.\<close>

named_theorems JOk_iff "when a statement ends normally"

lemma jbind_JOk [JOk_iff]: "jbind m k s = JOk a s' \<longleftrightarrow> (\<exists>b t. m s = JOk b t \<and> k b t = JOk a s')"
  by (auto simp: jbind_def split: jres.splits)

lemma jthen_JOk [JOk_iff]: "jthen m n s = JOk a s' \<longleftrightarrow> (\<exists>b t. m s = JOk b t \<and> n t = JOk a s')"
  by (simp add: jthen_def jbind_JOk)

lemma simple_JOk [JOk_iff]:
  "jret a s = JOk b s' \<longleftrightarrow> b = a \<and> s' = s" "jfail s = JOk b s' \<longleftrightarrow> False"
  "jget f s = JOk c s' \<longleftrightarrow> c = f s \<and> s' = s" "jmod g s = JOk u s' \<longleftrightarrow> s' = g s"
  "jcheck P s = JOk u s' \<longleftrightarrow> P s \<and> s' = s" "jguard x s = JOk u s' \<longleftrightarrow> x \<and> s' = s"
  by (auto simp: jstmt)

lemma set_codec_JOk [JOk_iff]: "set_codec f d = JOk u d' \<longleftrightarrow> d' = d\<lparr>dcodec := f (dcodec d)\<rparr>"
  by (auto simp: jstmt)

lemma set_enc_JOk [JOk_iff]: "set_enc f e = JOk u e' \<longleftrightarrow> e' = e\<lparr>codec := f (codec e)\<rparr>"
  by (auto simp: jstmt)

lemma unat_drop_bit: "unat (drop_bit n x) = unat x div 2 ^ n"
  by (simp only: drop_bit_eq_div [symmetric]) (simp add: unsigned_drop_bit_eq
    take_bit_nat_eq_self [OF unsigned_less])

text \<open>What the size fields of a record say about the image.\<close>

definition covered :: "u16 \<Rightarrow> u16 \<Rightarrow> u16 \<Rightarrow> u16 \<Rightarrow> bool" where
  "covered len n unit c_len \<longleftrightarrow> unat c_len = unat n * unat unit
     \<and> unat len \<le> unat c_len \<and> unat c_len < unat len + unat unit"

lemma UpdateMiscFields_ok:
  assumes "JPEGFW_UpdateMiscFields d = JOk () d'"
  obtains max_height where
    "dec_max_height (input_mcu_info (dcodec d)) = Some max_height"
    "mcu_width (dcodec d') = mcu_size h_ratio (ratio (dcodec d))"
    "mcu_height (dcodec d') = mcu_size v_ratio (ratio (dcodec d))"
    "mcu_num_x (dcodec d') = mcu_count (width (dcodec d)) (mcu_width (dcodec d'))"
    "mcu_num_y (dcodec d') = mcu_count (height (dcodec d)) (mcu_height (dcodec d'))"
    "c_width (dcodec d') = mcu_num_x (dcodec d') * mcu_width (dcodec d')"
    "c_height (dcodec d') = mcu_num_y (dcodec d') * mcu_height (dcodec d')"
    "out_width (dcodec d') = drop_bit (unat (scale_factor (dcodec d))) (c_width (dcodec d'))"
    "out_height (dcodec d') = drop_bit (unat (scale_factor (dcodec d))) (c_height (dcodec d'))"
    "width (dcodec d') = width (dcodec d)" "height (dcodec d') = height (dcodec d)"
    "scale_factor (dcodec d') = scale_factor (dcodec d)"
    "out_width (dcodec d') \<noteq> 0" "out_height (dcodec d') \<noteq> 0"
    "c_width (dcodec d') \<le> 4096" "c_height (dcodec d') \<le> max_height"
    "unat (mcu_num_x (dcodec d')) * unat (mcu_num_y (dcodec d')) < 0x3FFFF"
proof -
  let ?c = "misc_zero (misc_out (misc_size (misc_num (misc_mcu (dcodec d)))))"
  obtain max_height where m: "dec_max_height (input_mcu_info ?c) = Some max_height"
    "dcodec d' = ?c" "out_width ?c \<noteq> 0" "out_height ?c \<noteq> 0" "c_width ?c \<le> 4096"
    "c_height ?c \<le> max_height" "unat (mcu_num_x ?c) * unat (mcu_num_y ?c) < 0x3FFFF"
    using assms
    by (auto simp: JPEGFW_UpdateMiscFields_def JOk_iff not_less not_le split: option.splits)
  have f: "mcu_width ?c = mcu_size h_ratio (ratio (dcodec d))"
    "mcu_height ?c = mcu_size v_ratio (ratio (dcodec d))"
    "mcu_num_x ?c = mcu_count (width (dcodec d)) (mcu_size h_ratio (ratio (dcodec d)))"
    "mcu_num_y ?c = mcu_count (height (dcodec d)) (mcu_size v_ratio (ratio (dcodec d)))"
    "width ?c = width (dcodec d)" "height ?c = height (dcodec d)"
    "scale_factor ?c = scale_factor (dcodec d)" "input_mcu_info ?c = input_mcu_info (dcodec d)"
    by (simp_all add: misc_zero_def misc_out_def misc_size_def misc_num_def misc_mcu_def)
  have g: "c_width ?c = mcu_num_x ?c * mcu_width ?c" "c_height ?c = mcu_num_y ?c * mcu_height ?c"
    "out_width ?c = drop_bit (unat (scale_factor (dcodec d))) (c_width ?c)"
    "out_height ?c = drop_bit (unat (scale_factor (dcodec d))) (c_height ?c)"
    by (simp_all add: misc_zero_def misc_out_def misc_size_def misc_num_def misc_mcu_def)
  show thesis
    by (rule that [of max_height]) (simp_all only: m(2), use m f g in simp_all)
qed

lemma dec_max_height_le: "dec_max_height i = Some m \<Longrightarrow> unat m \<le> 32768"
  by (auto simp: dec_max_height_def Let_def split: if_splits)

text \<open>C20: when the decoder accepts the size of an image, its units cover it exactly as often as
  needed, at most 4096 samples wide and 32768 high and fewer than 0x3FFFF units, the sizes have not
  wrapped in their 16 bits, and the scaled output is not empty.\<close>

theorem InitDecInput_bounds:
  assumes "JPEG_FWInitDecInput scaling d = JOk () d'"
  shows "width (dcodec d') = ucast (input_width d) \<and> height (dcodec d') = ucast (input_height d)
    \<and> covered (width (dcodec d')) (mcu_num_x (dcodec d')) (mcu_width (dcodec d')) (c_width (dcodec d'))
    \<and> covered (height (dcodec d')) (mcu_num_y (dcodec d')) (mcu_height (dcodec d')) (c_height (dcodec d'))
    \<and> unat (c_width (dcodec d')) \<le> 4096 \<and> unat (c_height (dcodec d')) \<le> 32768
    \<and> unat (mcu_num_x (dcodec d')) * unat (mcu_num_y (dcodec d')) < 0x3FFFF
    \<and> unat (out_width (dcodec d')) = unat (c_width (dcodec d')) div 2 ^ unat (scale_factor (dcodec d'))
    \<and> unat (out_height (dcodec d')) = unat (c_height (dcodec d')) div 2 ^ unat (scale_factor (dcodec d'))
    \<and> 0 < unat (out_width (dcodec d')) \<and> 0 < unat (out_height (dcodec d'))"
proof -
  let ?c = "(dcodec d)\<lparr>scale_factor := ucast scaling,
        progressive_mode := input_progressive d, width := ucast (input_width d),
        height := ucast (input_height d), input_mcu_info := ucast (mcu_info d),
        compress_level := quant_level d\<rparr>"
  obtain r where r: "dec_ratios (ucast (mcu_info d)) = Some r"
    and upd: "JPEGFW_UpdateMiscFields (d\<lparr>dcodec := ?c\<lparr>ratio := r\<rparr>\<rparr>) = JOk () d'"
    using assms by (auto simp: JPEG_FWInitDecInput_def jstmt split: option.splits jres.splits)
  from upd obtain max_height where f: "dec_max_height (ucast (mcu_info d)) = Some max_height"
    "mcu_width (dcodec d') = mcu_size h_ratio r" "mcu_height (dcodec d') = mcu_size v_ratio r"
    "mcu_num_x (dcodec d') = mcu_count (width (dcodec d')) (mcu_width (dcodec d'))"
    "mcu_num_y (dcodec d') = mcu_count (height (dcodec d')) (mcu_height (dcodec d'))"
    "c_width (dcodec d') = mcu_num_x (dcodec d') * mcu_width (dcodec d')"
    "c_height (dcodec d') = mcu_num_y (dcodec d') * mcu_height (dcodec d')"
    "out_width (dcodec d') = drop_bit (unat (scale_factor (dcodec d'))) (c_width (dcodec d'))"
    "out_height (dcodec d') = drop_bit (unat (scale_factor (dcodec d'))) (c_height (dcodec d'))"
    "width (dcodec d') = ucast (input_width d)" "height (dcodec d') = ucast (input_height d)"
    "out_width (dcodec d') \<noteq> 0" "out_height (dcodec d') \<noteq> 0"
    "c_width (dcodec d') \<le> 4096" "c_height (dcodec d') \<le> max_height"
    "unat (mcu_num_x (dcodec d')) * unat (mcu_num_y (dcodec d')) < 0x3FFFF"
    by (rule UpdateMiscFields_ok) simp
  have nz: "c_width (dcodec d') \<noteq> 0" "c_height (dcodec d') \<noteq> 0"
    using f(8,9,12,13) by auto
  have w: "covered (width (dcodec d')) (mcu_num_x (dcodec d')) (mcu_width (dcodec d')) (c_width (dcodec d'))"
    using mcu_cover [OF dec_ratios_sizes(1) [OF r], of "width (dcodec d')"] nz(1) f(2,4,6)
    by (simp add: covered_def)
  have h: "covered (height (dcodec d')) (mcu_num_y (dcodec d')) (mcu_height (dcodec d')) (c_height (dcodec d'))"
    using mcu_cover [OF dec_ratios_sizes(2) [OF r], of "height (dcodec d')"] nz(2) f(3,5,7)
    by (simp add: covered_def)
  have "unat (c_width (dcodec d')) \<le> 4096" "unat (c_height (dcodec d')) \<le> 32768"
    using f(14,15) dec_max_height_le [OF f(1)] by (simp_all add: word_le_nat_alt)
  moreover have "0 < unat (out_width (dcodec d'))" "0 < unat (out_height (dcodec d'))"
    using f(12,13) by (simp_all only: unat_gt_0) simp_all
  moreover note w h f(10,11,16) unat_drop_bit [of "unat (scale_factor (dcodec d'))" "c_width (dcodec d')"]
    unat_drop_bit [of "unat (scale_factor (dcodec d'))" "c_height (dcodec d')"]
  ultimately show ?thesis unfolding f(8,9) by (intro conjI)
qed

theorem InitDecInput_bounds_witness:
  "\<exists>d'. JPEG_FWInitDecInput 1 (sample_dec []\<lparr>input_width := 650, input_height := 17, mcu_info := JPEG_FW_YUV420\<rparr>)
       = JOk () d'
     \<and> unat (c_width (dcodec d')) = 656 \<and> unat (c_height (dcodec d')) = 32
     \<and> 0 < unat (out_width (dcodec d')) \<and> covered 17 (mcu_num_y (dcodec d')) 16 (c_height (dcodec d'))"
proof -
  let ?d = "sample_dec []\<lparr>input_width := 650, input_height := 17, mcu_info := JPEG_FW_YUV420\<rparr>"
  have "\<exists>d'. JPEG_FWInitDecInput 1 ?d = JOk () d' \<and> unat (c_width (dcodec d')) = 656
      \<and> unat (c_height (dcodec d')) = 32 \<and> mcu_height (dcodec d') = 16"
    by (simp add: JPEG_FWInitDecInput_def JPEGFW_UpdateMiscFields_def jstmt sample_dec_def zero_codec_def
        dec_ratios_def dec_max_height_def format_codes misc_mcu_def misc_num_def misc_size_def misc_out_def
        misc_zero_def mcu_size_def MAX3_def mcu_count_def)
  then obtain d' where d': "JPEG_FWInitDecInput 1 ?d = JOk () d'" "unat (c_width (dcodec d')) = 656"
    "unat (c_height (dcodec d')) = 32" "mcu_height (dcodec d') = 16"
    by blast
  from InitDecInput_bounds [OF d'(1)] have "0 < unat (out_width (dcodec d'))"
    "covered (height (dcodec d')) (mcu_num_y (dcodec d')) (mcu_height (dcodec d')) (c_height (dcodec d'))"
    "height (dcodec d') = ucast (input_height ?d)" by blast+
  with d' show ?thesis by simp
qed

subsection \<open>The encoder's record describes the image\<close>

text \<open>The record that the initialization leaves, with the quantization tables of a level.\<close>

definition enc_start :: "enc_input \<Rightarrow> sample_ratio list \<Rightarrow> jpeg_codec" where
  "enc_start p r = (enc_tables (zero_codec\<lparr>RST_Count := M_RST0,
       input_mcu_info := ucast (yuv_0_mcu_info p), width := ucast (enc_width p),
       height := ucast (enc_height p), compress_level := enc_quant_level p\<rparr>))
     \<lparr>restart_interval := enc_restart_interval p, restart_to_go := 0, next_restart_num := 0, ratio := r\<rparr>"

definition enc_maps :: "jpeg_codec \<Rightarrow> jpeg_codec" where
  "enc_maps c = c\<lparr>
     tbl_map := [\<lparr>dc_huff_tbl_id = 0, ac_huff_tbl_id = 0, quant_tbl_id = 0\<rparr>,
       \<lparr>dc_huff_tbl_id = 1, ac_huff_tbl_id = 1, quant_tbl_id = 1\<rparr>,
       \<lparr>dc_huff_tbl_id = 1, ac_huff_tbl_id = 1, quant_tbl_id = 1\<rparr>],
     quant_tbl := (quant_tbl c)
       [0 := jpeg_fw_lum_quant_tbl_default ! unat (compress_level c),
        1 := jpeg_fw_chr_quant_tbl_default ! unat (compress_level c)]\<rparr>"

lemma enc_geometry_fields [simp]:
  "width (enc_geometry c) = width c" "height (enc_geometry c) = height c"
  "ratio (enc_geometry c) = ratio c" "tbl_map (enc_geometry c) = tbl_map c"
  "quant_tbl (enc_geometry c) = quant_tbl c" "compress_level (enc_geometry c) = compress_level c"
  "dc_huff_tbl (enc_geometry c) = dc_huff_tbl c" "ac_huff_tbl (enc_geometry c) = ac_huff_tbl c"
  "restart_interval (enc_geometry c) = restart_interval c"
  by (simp_all add: enc_geometry_def Let_def)

lemma InitParam_ok:
  fixes e e' :: jenc
  assumes "JpegEnc_InitParam p e = JOk () e'"
  obtains r where "enc_ratios (ucast (yuv_0_mcu_info p)) = Some r"
    "codec e' = enc_geometry (enc_start p r)" "out e' = out e" "polls e' = polls e"
    "enc_width p \<noteq> 0" "enc_height p \<noteq> 0"
  using assms
  by (auto simp: JpegEnc_InitParam_def JOk_iff enc_start_def enc_tables_def word_gt_0 word_less_1
      split: option.splits)

lemma HWEncInit_ok:
  fixes e e' :: jenc
  assumes "JPEG_HWEncInit True p e = JOk ws e'"
  obtains r where "enc_ratios (ucast (yuv_0_mcu_info p)) = Some r"
    "codec e' = enc_maps (enc_geometry (enc_start p r))" "out e' = out e" "polls e' = polls e"
    "unat (enc_quant_level p) < 5"
proof -
  from assms obtain t where init: "JpegEnc_InitParam p e = JOk () t"
    and rest: "jthen JPEGFW_InitHuffTblWithDefaultValue JpegEnc_QTableCfg t = JOk ws e'"
    by (auto simp: JPEG_HWEncInit_def JOk_iff)
  from init obtain r where r: "enc_ratios (ucast (yuv_0_mcu_info p)) = Some r"
    "codec t = enc_geometry (enc_start p r)" "out t = out e" "polls t = polls e"
    by (rule InitParam_ok)
  have maps: "tbl_map (codec t) = replicate 3 zero_map_entry" "compress_level (codec t) = enc_quant_level p"
    by (simp_all add: r(2) enc_start_def enc_tables_def zero_codec_def)
  have "unat (enc_quant_level p) < 5 \<and> codec e' = enc_maps (codec t) \<and> out e' = out t \<and> polls e' = polls t"
    using rest
    by (auto simp: JPEGFW_InitHuffTblWithDefaultValue_def JpegEnc_QTableCfg_def JOk_iff maps
        quant_tables_shape replicate_3 zero_map_entry_def enc_maps_def)
  with r that show thesis by metis
qed

lemma HWEncInit_words:
  fixes e e' :: jenc
  assumes "JPEG_HWEncInit True p e = JOk ws e'"
  defines "l \<equiv> unat (enc_quant_level p)"
  shows "ws = quant_words (jpeg_fw_new_lum_quant_tbl_default ! l) (jpeg_fw_new_lum_quant_tbl_default_shift ! l)
    @ quant_words (jpeg_fw_new_chr_quant_tbl_default ! l) (jpeg_fw_new_chr_quant_tbl_default_shift ! l)"
proof -
  from assms obtain t where init: "JpegEnc_InitParam p e = JOk () t"
    and rest: "jthen JPEGFW_InitHuffTblWithDefaultValue JpegEnc_QTableCfg t = JOk ws e'"
    by (auto simp: JPEG_HWEncInit_def JOk_iff)
  from init have "compress_level (codec t) = enc_quant_level p"
    by (rule InitParam_ok) (simp add: enc_start_def enc_tables_def)
  with rest show ?thesis
    by (auto simp: JPEGFW_InitHuffTblWithDefaultValue_def JpegEnc_QTableCfg_def JOk_iff l_def)
qed

lemma enc_ratios_format:
  assumes "enc_ratios i = Some r"
  shows "r ! 1 = \<lparr>h_ratio = 1, v_ratio = 1\<rparr>" "r ! 2 = \<lparr>h_ratio = 1, v_ratio = 1\<rparr>"
    "format_of (push_bit 4 (h_ratio (r ! 0)) OR v_ratio (r ! 0)) = Some (ucast i)"
  using assms by (auto simp: enc_ratios_def format_of_def format_codes split: if_splits)

text \<open>The record of an initialized encoder: its tables are the default ones.\<close>

lemma enc_record:
  assumes "enc_ratios (ucast (yuv_0_mcu_info p)) = Some r" "unat (enc_quant_level p) < 5"
  defines "c \<equiv> enc_maps (enc_geometry (enc_start p r))"
  shows "width c = ucast (enc_width p)" "height c = ucast (enc_height p)"
    "restart_interval c = enc_restart_interval p"
    "quant_tbl c ! 0 = jpeg_fw_lum_quant_tbl_default ! unat (enc_quant_level p)"
    "quant_tbl c ! 1 = jpeg_fw_chr_quant_tbl_default ! unat (enc_quant_level p)"
    "dc_huff_tbl c ! 0 = \<lparr>hbits = jpeg_fw_lum_dc_bits_default, huffval = jpeg_fw_lum_dc_huffvalue_default\<rparr>"
    "ac_huff_tbl c ! 0 = \<lparr>hbits = jpeg_fw_lum_ac_bits_default, huffval = jpeg_fw_lum_ac_huffvalue_default\<rparr>"
    "dc_huff_tbl c ! 1 = \<lparr>hbits = jpeg_fw_chr_dc_bits_default, huffval = jpeg_fw_chr_dc_huffvalue_default\<rparr>"
    "ac_huff_tbl c ! 1 = \<lparr>hbits = jpeg_fw_chr_ac_bits_default, huffval = jpeg_fw_chr_ac_huffvalue_default\<rparr>"
    "header_ok c (ucast (ucast (yuv_0_mcu_info p) :: u8))"
proof -
  show fields: "width c = ucast (enc_width p)" "height c = ucast (enc_height p)"
    "restart_interval c = enc_restart_interval p"
    "quant_tbl c ! 0 = jpeg_fw_lum_quant_tbl_default ! unat (enc_quant_level p)"
    "quant_tbl c ! 1 = jpeg_fw_chr_quant_tbl_default ! unat (enc_quant_level p)"
    "dc_huff_tbl c ! 0 = \<lparr>hbits = jpeg_fw_lum_dc_bits_default, huffval = jpeg_fw_lum_dc_huffvalue_default\<rparr>"
    "ac_huff_tbl c ! 0 = \<lparr>hbits = jpeg_fw_lum_ac_bits_default, huffval = jpeg_fw_lum_ac_huffvalue_default\<rparr>"
    "dc_huff_tbl c ! 1 = \<lparr>hbits = jpeg_fw_chr_dc_bits_default, huffval = jpeg_fw_chr_dc_huffvalue_default\<rparr>"
    "ac_huff_tbl c ! 1 = \<lparr>hbits = jpeg_fw_chr_ac_bits_default, huffval = jpeg_fw_chr_ac_huffvalue_default\<rparr>"
    by (simp_all add: c_def enc_maps_def enc_start_def enc_tables_def zero_codec_def)
  have quant: "length (jpeg_fw_lum_quant_tbl_default ! unat (enc_quant_level p)) = 64"
    "length (jpeg_fw_chr_quant_tbl_default ! unat (enc_quant_level p)) = 64"
    using quant_tables_shape assms(2) by auto
  have "tables_ok c"
    unfolding tables_ok_def fields
    by (simp add: quant_ok_def quant huff_ok_def default_symbols)
  moreover have maps: "tbl_map c = [\<lparr>dc_huff_tbl_id = 0, ac_huff_tbl_id = 0, quant_tbl_id = 0\<rparr>,
      \<lparr>dc_huff_tbl_id = 1, ac_huff_tbl_id = 1, quant_tbl_id = 1\<rparr>,
      \<lparr>dc_huff_tbl_id = 1, ac_huff_tbl_id = 1, quant_tbl_id = 1\<rparr>]" "ratio c = r"
    by (simp_all add: c_def enc_maps_def enc_start_def)
  ultimately show "header_ok c (ucast (ucast (yuv_0_mcu_info p) :: u8))"
    using enc_ratios_format [OF assms(1)]
    by (simp add: header_ok_def fields [unfolded One_nat_def] default_symbols less_3 quant_id_of_def sampling_of_def)
qed

text \<open>C5: what the encoder is told about an image reaches the decoder.  After an initialization that
  succeeds, and when no status poll times out, the header is written, and a decoder that parses it
  has the width and height (their low 16 bits), the sample format, the quantization tables of the
  chosen level and the restart interval of the encoder's input, and keeps using its default Huffman
  tables.\<close>

theorem encoder_input_reaches_decoder:
  assumes "JPEG_HWEncInit True p e = JOk ws e'" "True \<notin> set (polls e)" "out e = []"
  shows "\<exists>f. JPEG_HWWriteHeadForThumbnail e' = JOk () f \<and>
    (\<forall>d rest. parse_ready d \<and> stream_ok d \<and> jstream d = out f @ rest \<longrightarrow>
      (\<exists>d'. ParseHead d = JOk () d' \<and> stream_ok d' \<and> jstream d' = rest
         \<and> input_width d' = ucast (ucast (enc_width p) :: u16)
         \<and> input_height d' = ucast (ucast (enc_height p) :: u16)
         \<and> mcu_info d' = ucast (ucast (yuv_0_mcu_info p) :: u8)
         \<and> quant_tbl (dcodec d') ! 0 = jpeg_fw_lum_quant_tbl_default ! unat (enc_quant_level p)
         \<and> quant_tbl (dcodec d') ! 1 = jpeg_fw_chr_quant_tbl_default ! unat (enc_quant_level p)
         \<and> using_default_huff_tab (dcodec d') = using_default_huff_tab (dcodec d)
         \<and> restart_interval (dcodec d') = (if enc_restart_interval p \<noteq> 0
              then ucast (ucast (enc_restart_interval p) :: u16) else restart_interval (dcodec d))))"
proof -
  obtain r where r: "enc_ratios (ucast (yuv_0_mcu_info p)) = Some r" "unat (enc_quant_level p) < 5"
    and e': "codec e' = enc_maps (enc_geometry (enc_start p r))" "out e' = out e" "polls e' = polls e"
    using assms(1) by (rule HWEncInit_ok)
  note c = enc_record [OF r, folded e'(1)]
  have "tables_ok (codec e')" using c(10) by (simp only: header_ok_def)
  from writes_ready [OF writes_header [OF this] refl] assms(2) e'(3)
  obtain f where f: "JPEG_HWWriteHeadForThumbnail e' = JOk () f" by fastforce
  have default: "is_default False n (dc_huff_tbl (codec e') ! n) \<and> is_default True n (ac_huff_tbl (codec e') ! n)"
    if "n < 2" for n
    using that by (auto simp: less_2_cases_iff c [unfolded One_nat_def] is_default_def default_bits_def default_huffval_def)
  show ?thesis
  proof (rule exI [of _ f], intro conjI allI impI, rule f)
    fix d rest assume d: "parse_ready d \<and> stream_ok d \<and> jstream d = out f @ rest"
    with header_parses [OF c(10) f] assms(3) e'(2) obtain d' where
      d': "ParseHead d = JOk () d'" "stream_ok d'" "jstream d' = rest"
      and view: "describes (codec e') (ucast (ucast (yuv_0_mcu_info p) :: u8)) d d'"
      by auto
    have "using_default_huff_tab (dcodec d') = using_default_huff_tab (dcodec d)"
      using view default by (simp add: describes_def)
    moreover have "quant_tbl (dcodec d') ! 0 = quant_tbl (codec e') ! 0"
      "quant_tbl (dcodec d') ! 1 = quant_tbl (codec e') ! 1"
      using view by (simp_all add: describes_def)
    moreover note d' view [unfolded describes_def]
    ultimately show "\<exists>d'. ParseHead d = JOk () d' \<and> stream_ok d' \<and> jstream d' = rest
         \<and> input_width d' = ucast (ucast (enc_width p) :: u16)
         \<and> input_height d' = ucast (ucast (enc_height p) :: u16)
         \<and> mcu_info d' = ucast (ucast (yuv_0_mcu_info p) :: u8)
         \<and> quant_tbl (dcodec d') ! 0 = jpeg_fw_lum_quant_tbl_default ! unat (enc_quant_level p)
         \<and> quant_tbl (dcodec d') ! 1 = jpeg_fw_chr_quant_tbl_default ! unat (enc_quant_level p)
         \<and> using_default_huff_tab (dcodec d') = using_default_huff_tab (dcodec d)
         \<and> restart_interval (dcodec d') = (if enc_restart_interval p \<noteq> 0
              then ucast (ucast (enc_restart_interval p) :: u16) else restart_interval (dcodec d))"
      unfolding c by (intro exI [of _ d'] conjI) simp_all
  qed
qed

text \<open>The 64 entries programmed for a component, two in a word.\<close>

definition quant_half :: "u32 list \<Rightarrow> nat \<Rightarrow> u16" where
  "quant_half ws k = (if even k then ucast (ws ! (k div 2)) else ucast (drop_bit 16 (ws ! (k div 2))))"

lemma bit_below: "unat x < 2 ^ k \<Longrightarrow> bit x n \<Longrightarrow> n < k"
proof -
  assume x: "unat x < 2 ^ k" and b: "bit x n"
  from b have "bit (unat x) n" by (simp add: bit_unsigned_iff)
  then have "bit (take_bit k (unat x)) n" using x by (simp add: take_bit_nat_eq_self)
  then show "n < k" by (simp add: bit_take_bit_iff)
qed

lemma pack_halves:
  "ucast (push_bit 16 (ucast a) OR ucast b :: u32) = (b :: u16)"
  "ucast (drop_bit 16 (push_bit 16 (ucast a) OR ucast b :: u32)) = (a :: u16)"
  by (rule bit_eqI, auto simp: bit_simps dest: bit_imp_le_length)+

lemma quant_half_words:
  assumes "k < 64"
  shows "quant_half (quant_words q s) k = quant_entry q s (jpeg_fw_ASIC_DCT_Matrix ! k)"
    and "quant_half (xs @ quant_words q s) (2 * length xs + k) = quant_entry q s (jpeg_fw_ASIC_DCT_Matrix ! k)"
    and "quant_half (quant_words q s @ ys) k = quant_entry q s (jpeg_fw_ASIC_DCT_Matrix ! k)"
proof -
  have "k div 2 < 32" using assms by simp
  moreover have "2 * (k div 2) = k" if "even k" using that by simp
  moreover have "2 * (k div 2) + 1 = k" if "odd k" using that by (simp add: odd_two_times_div_two_succ)
  ultimately show "quant_half (quant_words q s) k = quant_entry q s (jpeg_fw_ASIC_DCT_Matrix ! k)"
    "quant_half (xs @ quant_words q s) (2 * length xs + k) = quant_entry q s (jpeg_fw_ASIC_DCT_Matrix ! k)"
    "quant_half (quant_words q s @ ys) k = quant_entry q s (jpeg_fw_ASIC_DCT_Matrix ! k)"
    by (auto simp: quant_half_def quant_words_def pack_halves nth_append simp del: drop_bit_or)
qed

lemma entry_unpack:
  fixes m :: u16 and s :: u8
  assumes "unat m < 4096" "11 \<le> unat s" "unat s < 27"
  shows "unat (drop_bit 4 (push_bit 4 m OR (ucast s - 11))) = unat m"
    and "unat ((push_bit 4 m OR (ucast s - 11)) AND 15) + 11 = unat s"
proof -
  let ?x = "ucast s - 11 :: u16"
  have x: "unat ?x = unat s - 11"
    using assms(2,3)
    by (subst unat_sub) (simp_all add: word_le_nat_alt unsigned_ucast_eq take_bit_nat_eq_self)
  have low: "n < 4" if "bit ?x n" for n
    using bit_below [OF _ that, of 4] x assms(3) by simp
  have high: "n < 12" if "bit m n" for n
    using bit_below [OF _ that, of 12] assms(1) by simp
  have "drop_bit 4 (push_bit 4 m OR ?x) = m"
    by (rule bit_eqI) (auto simp: bit_simps dest: low high)
  then show "unat (drop_bit 4 (push_bit 4 m OR ?x)) = unat m" by simp
  have "(push_bit 4 m OR ?x) AND 15 = ?x"
    unfolding mask_eq_exp_minus_1 [of 4, where 'a = u16, simplified, symmetric]
    by (rule bit_eqI) (auto simp: bit_simps dest: low)
  then show "unat ((push_bit 4 m OR ?x) AND 15) + 11 = unat s" using x assms(2) by simp
qed

text \<open>A reciprocal of a byte fits the entry.\<close>

lemma reciprocal_fits:
  assumes "reciprocal q m s" "q \<le> 255"
  shows "m < 4096" "11 \<le> s" "s < 27"
proof -
  have m: "2048 \<le> m" "m < 4096" and lo: "2 * (m * q) \<le> 2 * 2 ^ s + q" and hi: "2 * 2 ^ s \<le> 2 * (m * q) + q"
    using assms(1) by (simp_all add: reciprocal_def)
  show "m < 4096" by (rule m)
  have "0 < q" using hi by (cases q) simp_all
  then have "2 ^ s > (1024 :: nat)"
    using lo mult_le_mono1 [OF m(1), of q] by linarith
  then have "2 ^ 10 < (2 ^ s :: nat)" by simp
  then have "10 < s" by (rule power_less_imp_less_exp [rotated]) simp
  then show "11 \<le> s" by simp
  have "m * q \<le> 4096 * 255" using m(2) assms(2) by (intro mult_le_mono) simp_all
  then have "2 ^ s < (2 ^ 27 :: nat)" using hi assms(2) by simp
  then show "s < 27" by (rule power_less_imp_less_exp [rotated]) simp
qed

lemma entry_reciprocal:
  assumes "reciprocals qs ms ss" "k < length qs"
  shows "reciprocal (unat (qs ! k)) (unat (drop_bit 4 (quant_entry ms ss k)))
    (unat (quant_entry ms ss k AND 15) + 11)"
proof -
  have r: "reciprocal (unat (qs ! k)) (unat (ms ! k)) (unat (ss ! k))"
    using assms by (simp add: reciprocals_def)
  show ?thesis
    using r unfolding quant_entry_def by (simp only: entry_unpack [OF reciprocal_fits [OF r unat_u8_le]])
qed

text \<open>The position of an entry in the hardware's order of a block.\<close>

lemma ASIC_Matrix: "length jpeg_fw_ASIC_DCT_Matrix = 64" "k < 64 \<Longrightarrow> jpeg_fw_ASIC_DCT_Matrix ! k < 64"
proof -
  show len: "length jpeg_fw_ASIC_DCT_Matrix = 64" by (simp add: jpeg_fw_ASIC_DCT_Matrix_def)
  have "\<forall>x \<in> set jpeg_fw_ASIC_DCT_Matrix. x < 64" by (simp add: jpeg_fw_ASIC_DCT_Matrix_def)
  then show "k < 64 \<Longrightarrow> jpeg_fw_ASIC_DCT_Matrix ! k < 64" using nth_mem len by metis
qed

text \<open>C25: the hardware quantizes by the tables that the header announces.  Each of the 64 entries
  programmed for a component is the mantissa and the shift (less 11) of the nearest 12-bit
  reciprocal of the quantization step at the entry's place in the hardware's order of a block.\<close>

theorem quant_words_match_tables:
  assumes "JPEG_HWEncInit True p e = JOk ws e'"
  shows "\<forall>n < 2. \<forall>k < 64. let h = quant_half ws (64 * n + k) in
    reciprocal (unat (quant_tbl (codec e') ! n ! (jpeg_fw_ASIC_DCT_Matrix ! k)))
      (unat (drop_bit 4 h)) (unat (h AND 15) + 11)"
proof -
  let ?l = "unat (enc_quant_level p)"
  obtain r where r: "enc_ratios (ucast (yuv_0_mcu_info p)) = Some r" "?l < 5"
    and e': "codec e' = enc_maps (enc_geometry (enc_start p r))"
    using assms by (rule HWEncInit_ok)
  note c = enc_record [OF r, folded e']
  let ?lum = "quant_words (jpeg_fw_new_lum_quant_tbl_default ! ?l) (jpeg_fw_new_lum_quant_tbl_default_shift ! ?l)"
  let ?chr = "quant_words (jpeg_fw_new_chr_quant_tbl_default ! ?l) (jpeg_fw_new_chr_quant_tbl_default_shift ! ?l)"
  have ws: "ws = ?lum @ ?chr" using assms by (rule HWEncInit_words)
  have len: "64 = 2 * length ?lum" by (simp add: quant_words_def)
  have shape: "length (jpeg_fw_lum_quant_tbl_default ! ?l) = 64" "length (jpeg_fw_chr_quant_tbl_default ! ?l) = 64"
    using quant_tables_shape r(2) by auto
  have half: "quant_half ws k = quant_entry (jpeg_fw_new_lum_quant_tbl_default ! ?l)
      (jpeg_fw_new_lum_quant_tbl_default_shift ! ?l) (jpeg_fw_ASIC_DCT_Matrix ! k)"
    "quant_half ws (64 + k) = quant_entry (jpeg_fw_new_chr_quant_tbl_default ! ?l)
      (jpeg_fw_new_chr_quant_tbl_default_shift ! ?l) (jpeg_fw_ASIC_DCT_Matrix ! k)" if "k < 64" for k
    unfolding ws using quant_half_words(3) [OF that] quant_half_words(2) [OF that, of ?lum]
    by (simp_all only: len)
  show ?thesis
    using entry_reciprocal [OF table_reciprocals(1) [OF r(2)]] entry_reciprocal [OF table_reciprocals(2) [OF r(2)]]
    by (auto simp: less_2_cases_iff Let_def c(4,5) c(5) [unfolded One_nat_def] half shape ASIC_Matrix)
qed

definition sample_input :: enc_input where
  "sample_input = \<lparr>enc_width = 640, enc_height = 480, yuv_0_mcu_info = JPEG_FW_YUV420,
     yuv_1_mcu_info = JPEG_FW_YUV420, enc_quant_level = 2, enc_restart_interval = 4\<rparr>"

lemma sample_init: "\<exists>ws e'. JPEG_HWEncInit True sample_input sample_enc = JOk ws e'"
  by (simp add: JPEG_HWEncInit_def JpegEnc_InitParam_def JPEGFW_InitHuffTblWithDefaultValue_def
      JpegEnc_QTableCfg_def jstmt sample_input_def sample_enc_def sample_codec_def format_codes
      JPEG_QUALITY_MAX_def zero_codec_def enc_tables_def enc_geometry_def enc_ratios_def Let_def
      quant_tables_shape)

theorem encoder_input_reaches_decoder_witness:
  "\<exists>ws e' f d'. JPEG_HWEncInit True sample_input sample_enc = JOk ws e'
     \<and> JPEG_HWWriteHeadForThumbnail e' = JOk () f
     \<and> ParseHead (sample_dec (out f @ [7])) = JOk () d' \<and> jstream d' = [7]
     \<and> input_width d' = 640 \<and> input_height d' = 480 \<and> mcu_info d' = JPEG_FW_YUV420
     \<and> quant_tbl (dcodec d') ! 0 = jpeg_fw_lum_quant_tbl_default ! 2"
proof -
  obtain ws e' where init: "JPEG_HWEncInit True sample_input sample_enc = JOk ws e'"
    using sample_init by blast
  have "True \<notin> set (polls sample_enc)" "out sample_enc = []" by (simp_all add: sample_enc_def)
  from encoder_input_reaches_decoder [OF init this] obtain f where f: "JPEG_HWWriteHeadForThumbnail e' = JOk () f"
    and d: "\<And>d rest. parse_ready d \<and> stream_ok d \<and> jstream d = out f @ rest \<Longrightarrow>
      \<exists>d'. ParseHead d = JOk () d' \<and> jstream d' = rest
         \<and> input_width d' = ucast (ucast (enc_width sample_input) :: u16)
         \<and> input_height d' = ucast (ucast (enc_height sample_input) :: u16)
         \<and> mcu_info d' = ucast (ucast (yuv_0_mcu_info sample_input) :: u8)
         \<and> quant_tbl (dcodec d') ! 0 = jpeg_fw_lum_quant_tbl_default ! unat (enc_quant_level sample_input)"
    by blast
  from d [of "sample_dec (out f @ [7])" "[7]"] sample_dec_stream [of "out f @ [7]"]
  obtain d' where "ParseHead (sample_dec (out f @ [7])) = JOk () d'" "jstream d' = [7]"
    "input_width d' = 640" "input_height d' = 480" "mcu_info d' = JPEG_FW_YUV420"
    "quant_tbl (dcodec d') ! 0 = jpeg_fw_lum_quant_tbl_default ! 2"
    by (auto simp: sample_input_def format_codes)
  with init f show ?thesis by blast
qed

theorem quant_words_match_tables_witness:
  "\<exists>ws e'. JPEG_HWEncInit True sample_input sample_enc = JOk ws e'
     \<and> reciprocal (unat (quant_tbl (codec e') ! 1 ! 32)) (unat (drop_bit 4 (quant_half ws 65)))
         (unat (quant_half ws 65 AND 15) + 11)"
proof -
  obtain ws e' where init: "JPEG_HWEncInit True sample_input sample_enc = JOk ws e'"
    using sample_init by blast
  have "jpeg_fw_ASIC_DCT_Matrix ! 1 = 32" by (simp add: jpeg_fw_ASIC_DCT_Matrix_def)
  with quant_words_match_tables [OF init, rule_format, of 1 1] init show ?thesis
    by (auto simp: Let_def)
qed

text \<open>The quality level of the input is not checked.  An input with an acceptable format and
  size but a level beyond the five tables makes the initialization read behind them, whenever the
  level left in the record from before is acceptable.\<close>

theorem quant_level_unchecked:
  assumes "yuv_0_mcu_info p \<in> {JPEG_FW_YUV420, JPEG_FW_YUV422}" "1 \<le> enc_width p" "1 \<le> enc_height p"
    "compress_level (codec e) \<le> JPEG_QUALITY_MAX" "5 \<le> unat (enc_quant_level p)"
  shows "JPEG_HWEncInit True p e = JFault"
proof -
  have ratio: "\<exists>r. enc_ratios (ucast (yuv_0_mcu_info p)) = Some r"
    using assms(1) by (auto simp: enc_ratios_def format_codes)
  have size: "enc_width p \<noteq> 0" "enc_height p \<noteq> 0" "\<not> JPEG_QUALITY_MAX < compress_level (codec e)"
    using assms(2-4) by (auto simp: not_less)
  have "\<exists>t. JpegEnc_InitParam p e = JOk () t \<and> compress_level (codec t) = enc_quant_level p"
    using assms(1) ratio size by (auto simp: JpegEnc_InitParam_def jstmt enc_tables_def)
  then obtain t where "JpegEnc_InitParam p e = JOk () t" "compress_level (codec t) = enc_quant_level p"
    by blast
  with assms(5) show ?thesis
    by (simp add: JPEG_HWEncInit_def JPEGFW_InitHuffTblWithDefaultValue_def JpegEnc_QTableCfg_def jstmt
        quant_tables_shape)
qed

theorem quant_level_unchecked_witness:
  "JPEG_HWEncInit True (sample_input\<lparr>enc_quant_level := 5\<rparr>) sample_enc = JFault"
  by (rule quant_level_unchecked)
    (simp_all add: sample_input_def sample_enc_def sample_codec_def zero_codec_def JPEG_QUALITY_MAX_def)

end
