(* ===== verification/JpegHuffman.thy ===== *)
theory JpegHuffman
  imports JpegHeader
begin

text \<open>
  The Huffman tables of the decoder's hardware (\<^verbatim>\<open>jpegdec_vld.c\<close>): the code words of a parsed
  table, the largest code and the first symbol of each length, the table of symbols, and the
  registers of the variable length decoder; and the code words that the encoder's hardware uses
  (\<^verbatim>\<open>g_huff_tab_enc\<close>).  A write past the symbol table or past a block of the arena is undefined.
\<close>

subsection \<open>Tables of the hardware\<close>

definition jpeg_fw_vld_default_max_code :: "u32 list" where
  "jpeg_fw_vld_default_max_code =
    [0x7f807fe0, 0x7ff37ff7, 0x0, 0x0, 0x6, 0xe, 0x1e, 0x3e,
     0x7e, 0xfe, 0x1fe, 0x3fe, 0x7fc, 0xff8, 0x1ff0, 0x3fe0,
     0x7fc0, 0xff80, 0x0, 0x2, 0x6, 0xe, 0x1e, 0x3e,
     0x7e, 0xfe, 0x1fe, 0x3fe, 0x7fe, 0xffe, 0x1ffc, 0x3ff8,
     0x7ff0, 0xffe0, 0x0, 0x100, 0x402, 0xc03, 0x1c06, 0x3b09,
     0x7b0b, 0xfa0f, 0x1fa12, 0x3fa17, 0x7f91c, 0xff720, 0x1ff000, 0x3fe000,
     0x7fc024, 0xfffe25, 0x0, 0x100, 0x402, 0xb03, 0x1b05, 0x3b09,
     0x7a0d, 0xf910, 0x1fa14, 0x3fa1b, 0x7f920, 0xff724, 0x1ff000, 0x3fe028,
     0x7fc329, 0xfffe2b]"

definition jpeg_fw_vld_default_huffTab :: "u32 list" where
  "jpeg_fw_vld_default_huffTab =
    [0x1, 0x102, 0x203, 0x1000300, 0x2001104, 0x411, 0x3010505, 0x22112,
     0x33121, 0x40631, 0x51241, 0x4106, 0x5113, 0x751, 0x4066161, 0x7107,
     0x1322, 0x2271, 0x3214, 0x8132, 0x881, 0x1491, 0x42a1, 0x9108,
     0xa123, 0xb142, 0x507c1b1, 0x9c1, 0x2315, 0x3352, 0x52d1, 0xf0f0,
     0x1524, 0x6233, 0x7262, 0xd172, 0xa82, 0x1609, 0x608240a, 0x3416,
     0xe117, 0x2518, 0xf119, 0x171a, 0x1825, 0x1926, 0x1a27, 0x2628,
     0x2729, 0x282a, 0x7092934, 0x2a35, 0x3536, 0x3637, 0x3738, 0x3839,
     0x393a, 0x3a43, 0x4344, 0x4445, 0x4546, 0x4647, 0x80a4748, 0x4849,
     0x494a, 0x4a53, 0x5354, 0x5455, 0x5556, 0x5657, 0x5758, 0x5859,
     0x595a, 0x5a63, 0x90b6364, 0x6465, 0x6566, 0x6667, 0x6768, 0x6869,
     0x696a, 0x6a73, 0x7374, 0x7475, 0x7576, 0x7677, 0xa007778, 0x7879,
     0x797a, 0x7a83, 0x8284, 0x8385, 0x8486, 0x8587, 0x8688, 0x8789,
     0x888a, 0x8992, 0xb008a93, 0x9294, 0x9395, 0x9496, 0x9597, 0x9698,
     0x9799, 0x989a, 0x99a2, 0x9aa3, 0xa2a4, 0xa3a5, 0xa4a6, 0xa5a7,
     0xa6a8, 0xa7a9, 0xa8aa, 0xa9b2, 0xaab3, 0xb2b4, 0xb3b5, 0xb4b6,
     0xb5b7, 0xb6b8, 0xb7b9, 0xb8ba, 0xb9c2, 0xbac3, 0xc2c4, 0xc3c5,
     0xc4c6, 0xc5c7, 0xc6c8, 0xc7c9, 0xc8ca, 0xc9d2, 0xcad3, 0xd2d4,
     0xd3d5, 0xd4d6, 0xd5d7, 0xd6d8, 0xd7d9, 0xd8da, 0xd9e1, 0xdae2,
     0xe2e3, 0xe3e4, 0xe4e5, 0xe5e6, 0xe6e7, 0xe7e8, 0xe8e9, 0xe9ea,
     0xeaf1, 0xf2f2, 0xf3f3, 0xf4f4, 0xf5f5, 0xf6f6, 0xf7f7, 0xf8f8,
     0xf9f9, 0xfafa]"

definition g_huff_tab_enc :: "u32 list" where
  "g_huff_tab_enc =
    [0x40000000, 0x80004000, 0xa0008000, 0xc000b000, 0xc800d000, 0xe000f000, 0xf000f800, 0xfa00fd80,
     0xfd80ff82, 0xff40ff83, 0xb000c000, 0xe400d800, 0xf600f200, 0xfa80fb00, 0xfec0fec0, 0xff50ff84,
     0xff88ff85, 0xff89ff86, 0xff8aff87, 0xff8bff88, 0xd000e000, 0xf700f900, 0xfdc0fdc0, 0xff60ff40,
     0xff84ff89, 0xff8cff8a, 0xff8dff8b, 0xff8eff8c, 0xff8fff8d, 0xff90ff8e, 0xd800e800, 0xf800fb80,
     0xfe00ff50, 0xff70ff8f, 0xff91ff90, 0xff92ff91, 0xff93ff92, 0xff94ff93, 0xff95ff94, 0xff96ff95,
     0xe800ec00, 0xfb00fe00, 0xff97ff96, 0xff98ff97, 0xff99ff98, 0xff9aff99, 0xff9bff9a, 0xff9cff9b,
     0xff9dff9c, 0xff9eff9d, 0xec00f400, 0xfe40fee0, 0xff9fff9e, 0xffa0ff9f, 0xffa1ffa0, 0xffa2ffa1,
     0xffa3ffa2, 0xffa4ffa3, 0xffa5ffa4, 0xffa6ffa5, 0xf200f600, 0xfee0ff60, 0xffa7ffa6, 0xffa8ffa7,
     0xffa9ffa8, 0xffaaffa9, 0xffabffaa, 0xffacffab, 0xffadffac, 0xffaeffad, 0xf400fa00, 0xff00ff70,
     0xffafffae, 0xffb0ffaf, 0xffb1ffb0, 0xffb2ffb1, 0xffb3ffb2, 0xffb4ffb3, 0xffb5ffb4, 0xffb6ffb5,
     0xf900fc00, 0xffb7ff80, 0xffb8ffb6, 0xffb9ffb7, 0xffbaffb8, 0xffbbffb9, 0xffbcffba, 0xffbdffbb,
     0xffbeffbc, 0xffbfffbd, 0xfb80fc80, 0xffc0ffbe, 0xffc1ffbf, 0xffc2ffc0, 0xffc3ffc1, 0xffc4ffc2,
     0xffc5ffc3, 0xffc6ffc4, 0xffc7ffc5, 0xffc8ffc6, 0xfc00fd00, 0xffc9ffc7, 0xffcaffc8, 0xffcbffc9,
     0xffccffca, 0xffcdffcb, 0xffceffcc, 0xffcfffcd, 0xffd0ffce, 0xffd1ffcf, 0xfc80fe40, 0xffd2ffd0,
     0xffd3ffd1, 0xffd4ffd2, 0xffd5ffd3, 0xffd6ffd4, 0xffd7ffd5, 0xffd8ffd6, 0xffd9ffd7, 0xffdaffd8,
     0xfd00fe80, 0xffdbffd9, 0xffdcffda, 0xffddffdb, 0xffdeffdc, 0xffdfffdd, 0xffe0ffde, 0xffe1ffdf,
     0xffe2ffe0, 0xffe3ffe1, 0xff20ff00, 0xffe4ffe2, 0xffe5ffe3, 0xffe6ffe4, 0xffe7ffe5, 0xffe8ffe6,
     0xffe9ffe7, 0xffeaffe8, 0xffebffe9, 0xffecffea, 0xff80ffeb, 0xffedffec, 0xffeeffed, 0xffefffee,
     0xfff0ffef, 0xfff1fff0, 0xfff2fff1, 0xfff3fff2, 0xfff4fff3, 0xfff5fff4, 0xff86fff5, 0xfff6fff6,
     0xfff7fff7, 0xfff8fff8, 0xfff9fff9, 0xfffafffa, 0xfffbfffb, 0xfffcfffc, 0xfffdfffd, 0xfffefffe,
     0x0, 0x0]"

definition g_DC_offset :: "nat list" where
  "g_DC_offset = [0, 0, 2, 6, 14, 26, 38, 50, 62, 74, 86, 98, 110, 122, 134, 146, 158]"

subsection \<open>Code words\<close>

text \<open>The length of each symbol's code, in the order of the lengths.\<close>

definition huff_sizes :: "bytes \<Rightarrow> bytes" where
  "huff_sizes bits = concat (map (\<lambda>l. replicate (unat (bits ! l)) (of_nat l)) [1..<17])"

text \<open>The inner loop: the codes of one length, with the sizes and the code that are left.  The block
  of sizes ends with a zero; running off it would be an error.\<close>

fun codes_of_length :: "bytes \<Rightarrow> u16 \<Rightarrow> u16 \<Rightarrow> (u16 list \<times> bytes \<times> u16) option" where
  "codes_of_length [] si code = None"
| "codes_of_length (s # ss) si code =
     (if ucast s = si
      then map_option (\<lambda>(cs, rest, code'). (code # cs, rest, code')) (codes_of_length ss si (code + 1))
      else Some ([], s # ss, code))"

lemma codes_of_length_rest:
  "codes_of_length ss si code = Some (cs, rest, code') \<Longrightarrow>
     length rest \<le> length ss \<and> (ucast (hd ss) = si \<longrightarrow> length rest < length ss) \<and> rest \<noteq> []
     \<and> (rest = ss \<longrightarrow> ucast (hd ss) \<noteq> si)"
  by (induction ss si code arbitrary: cs rest code' rule: codes_of_length.induct)
    (fastforce split: if_splits)+

text \<open>The outer loop.  The length counts up, with its 16 bits, to the next length that occurs.\<close>

function gen_codes :: "bytes \<Rightarrow> u16 \<Rightarrow> u16 \<Rightarrow> u16 list option" where
  "gen_codes ss si code =
     (case ss of [] \<Rightarrow> None
      | s # _ \<Rightarrow> if s = 0 then Some [] else
          (case codes_of_length ss si code of None \<Rightarrow> None
           | Some (cs, rest, code') \<Rightarrow> map_option ((@) cs) (gen_codes rest (si + 1) (push_bit 1 code'))))"
  by pat_completeness auto

lemma distance_decreases:
  assumes "(s :: u16) \<noteq> si"
  shows "unat (s - (si + 1)) < unat (s - si)"
proof -
  have "s - si \<noteq> 0" using assms by simp
  then have "unat (s - si - 1) = unat (s - si) - 1" "0 < unat (s - si)"
    by (simp_all only: unat_minus_one unat_gt_0 not_False_eq_True)
  then have "unat (s - si - 1) < unat (s - si)" by linarith
  then show ?thesis by (simp only: diff_diff_add)
qed

lemma codes_of_length_progress:
  assumes "codes_of_length (s # ss) si code = Some (cs, rest, code')"
  shows "length rest < length (s # ss)
    \<or> rest = s # ss \<and> unat (ucast (hd rest) - (si + 1)) < unat (ucast s - si)"
proof (cases "ucast s = si")
  case True
  with codes_of_length_rest [OF assms] show ?thesis by simp
next
  case False
  then have "rest = s # ss" using assms by simp
  with distance_decreases [OF False] show ?thesis by simp
qed

termination gen_codes
  by (relation "measures [\<lambda>(ss, si, code). length ss, \<lambda>(ss, si, code). unat (ucast (hd ss) - si :: u16)]")
    (auto simp del: codes_of_length.simps dest!: codes_of_length_progress)

declare gen_codes.simps [simp del]

subsection \<open>The functions of \<^verbatim>\<open>jpegdec_vld.c\<close>\<close>

text \<open>The first symbol and the largest code of each length, for the lengths that occur.\<close>

fun decode_tbl :: "bytes \<Rightarrow> u16 \<Rightarrow> u16 list \<Rightarrow> (u8 \<times> u16) option list" where
  "decode_tbl [] p huffcode = []"
| "decode_tbl (b # bs) p huffcode =
     (if b \<noteq> 0 then Some (ucast p, huffcode ! unat (p + ucast b - 1)) # decode_tbl bs (p + ucast b) huffcode
      else None # decode_tbl bs p huffcode)"

text \<open>The word of a length, from its entry and, where no code has the length, from the entry and the
  word of the length before.\<close>

definition active_word :: "((u8 \<times> u16) option \<times> u32) option \<Rightarrow> (u8 \<times> u16) option \<Rightarrow> u32" where
  "active_word prev d =
     (case d of
        Some (base_addr, max_code) \<Rightarrow> push_bit 31 1 OR push_bit 16 (ucast base_addr) OR ucast max_code
      | None \<Rightarrow> (case prev of
            None \<Rightarrow> 0
          | Some (Some (base_addr, max_code), w) \<Rightarrow> (ucast max_code + 1) * 2
          | Some (None, w) \<Rightarrow> (w AND 0xFFFF) * 2))"

fun active_words :: "((u8 \<times> u16) option \<times> u32) option \<Rightarrow> (u8 \<times> u16) option list \<Rightarrow> u32 list" where
  "active_words prev [] = []"
| "active_words prev (d # ds) =
     (let w = active_word prev d in w # active_words (Some (d, w)) ds)"

text \<open>The four blocks come from the arena and are cleared or filled before they are used; the value is
  the new row of \<^verbatim>\<open>s_active_base_max\<close>, whose entry 0 stays.\<close>

definition JPEGFW_FixHuffTbl :: "huff_tbl \<Rightarrow> u32 list \<Rightarrow> u32 list jreader" where
  "JPEGFW_FixHuffTbl t row =
     jbind (JpegDec_ExtraMemAlloc 257) (\<lambda>huffsize.
     jbind (JpegDec_ExtraMemAlloc 514) (\<lambda>huffcode.
     jbind (JpegDec_ExtraMemAlloc 68) (\<lambda>maxcode.
     jbind (JpegDec_ExtraMemAlloc 17) (\<lambda>valptr.
     jthen (jcheck (\<lambda>_. length huffsize = 257 \<and> length huffcode = 514))
    (jthen (jcheck (\<lambda>_. 17 \<le> length (hbits t)))
       (let sizes = huff_sizes (hbits t) in
        jthen (jcheck (\<lambda>_. length sizes < 257))
          (let sizes' = sizes @ replicate (257 - length sizes) 0 in
           case gen_codes sizes' (ucast (sizes' ! 0)) 0 of
             None \<Rightarrow> (\<lambda>_. JFault)
           | Some codes \<Rightarrow>
               jthen (jcheck (\<lambda>_. length maxcode = 68
                   \<and> (\<forall>l \<in> {1..<17}. hbits t ! l \<noteq> 0 \<longrightarrow> l < length valptr)))
                 (jret (take 1 row @ active_words None
                    (decode_tbl (chunk 1 16 (hbits t)) 0 (codes @ replicate (257 - length codes) 0xFFFF)))))))))))"

text \<open>The decoder with the tables of the variable length decoder: \<^verbatim>\<open>s_active_base_max\<close>,
  \<^verbatim>\<open>g_huffTab\<close> and the writes to the registers of the module, by their offset.\<close>

record jvld =
  vdec :: jdec
  s_active_base_max :: "u32 list list"
  g_huffTab :: "u32 list"
  vld_writes :: "(nat \<times> u32) list"

definition on_dec :: "'a jreader \<Rightarrow> ('a, jvld) jm" where
  "on_dec m v = (case m (vdec v) of JOk a d \<Rightarrow> JOk a (v\<lparr>vdec := d\<rparr>) | JFail d \<Rightarrow> JFail (v\<lparr>vdec := d\<rparr>)
     | JFault \<Rightarrow> JFault)"

definition fix_row :: "nat \<Rightarrow> (jpeg_codec \<Rightarrow> huff_tbl) \<Rightarrow> (unit, jvld) jm" where
  "fix_row i tbl = jbind (jget (\<lambda>v. (tbl (dcodec (vdec v)), s_active_base_max v ! i))) (\<lambda>(t, row).
     jbind (on_dec (JPEGFW_FixHuffTbl t row)) (\<lambda>row'.
     jmod (\<lambda>v. v\<lparr>s_active_base_max := (s_active_base_max v)[i := row']\<rparr>)))"

definition JPEGFW_InitHuffTbl :: "(unit, jvld) jm" where
  "JPEGFW_InitHuffTbl = jseq
     [fix_row 0 (\<lambda>c. dc_huff_tbl c ! 0),
      fix_row 1 (\<lambda>c. ac_huff_tbl c ! 0),
      jbind (jget (\<lambda>v. num_components (dcodec (vdec v)))) (\<lambda>n.
        if n \<noteq> 1
        then jseq [fix_row 2 (\<lambda>c. dc_huff_tbl c ! 1), fix_row 3 (\<lambda>c. ac_huff_tbl c ! 1)]
        else jret ())]"

text \<open>The symbols of one length, from an address on; the value is the symbols left and the table.\<close>

fun build_length :: "nat \<Rightarrow> nat \<Rightarrow> nat \<Rightarrow> bytes \<Rightarrow> u32 list \<Rightarrow> (bytes \<times> u32 list) option" where
  "build_length shift a 0 vals tab = Some (vals, tab)"
| "build_length shift a (Suc n) [] tab = None"
| "build_length shift a (Suc n) (v # vals) tab =
     (if a < length tab
      then build_length shift (a + 1) n vals (tab[a := push_bit shift (ucast v) OR tab ! a])
      else None)"

fun build_hufftab_DC :: "nat \<Rightarrow> nat list \<Rightarrow> bytes \<Rightarrow> bytes \<Rightarrow> u32 list \<Rightarrow> u32 list option" where
  "build_hufftab_DC shift (a # as) (b # bs) vals tab =
     (case build_length shift a (unat b) vals tab of None \<Rightarrow> None
      | Some (vals', tab') \<Rightarrow> build_hufftab_DC shift as bs vals' tab')"
| "build_hufftab_DC shift _ _ vals tab = Some tab"

definition build_hufftab_AC :: "nat \<Rightarrow> bytes \<Rightarrow> u32 list \<Rightarrow> u32 list option" where
  "build_hufftab_AC shift vals tab =
     (if 162 \<le> length vals
      then Some (map2 (\<lambda>w v. w OR push_bit shift (ucast v)) tab (take 162 vals)) else None)"

definition put_DC :: "nat \<Rightarrow> nat \<Rightarrow> (unit, jvld) jm" where
  "put_DC i shift v =
     (let t = dc_huff_tbl (dcodec (vdec v)) ! i in
      if 17 \<le> length (hbits t)
      then (case build_hufftab_DC shift (tl g_DC_offset) (chunk 1 16 (hbits t)) (huffval t) (g_huffTab v) of
              None \<Rightarrow> JFault | Some tab \<Rightarrow> JOk () (v\<lparr>g_huffTab := tab\<rparr>))
      else JFault)"

definition put_AC :: "nat \<Rightarrow> nat \<Rightarrow> (unit, jvld) jm" where
  "put_AC i shift v =
     (case build_hufftab_AC shift (huffval (ac_huff_tbl (dcodec (vdec v)) ! i)) (g_huffTab v) of
        None \<Rightarrow> JFault | Some tab \<Rightarrow> JOk () (v\<lparr>g_huffTab := tab\<rparr>))"

definition JPEGFW_build_hufftab_jpegDec :: "(unit, jvld) jm" where
  "JPEGFW_build_hufftab_jpegDec = jseq
     [jmod (\<lambda>v. v\<lparr>g_huffTab := replicate 162 0\<rparr>),
      put_DC 0 16,
      put_AC 0 0,
      jbind (jget (\<lambda>v. num_components (dcodec (vdec v)))) (\<lambda>n.
        if n \<noteq> 1 then jseq [put_DC 1 24, put_AC 1 8] else jret ())]"

definition write_regs :: "nat \<Rightarrow> u32 list \<Rightarrow> (unit, jvld) jm" where
  "write_regs offset ws = jmod (\<lambda>v. v\<lparr>vld_writes := vld_writes v
     @ map (\<lambda>i. (offset + 4 * i, ws ! i)) [0..<length ws]\<rparr>)"

definition configure_maxReg_DC :: "u32 list \<Rightarrow> bool \<Rightarrow> (unit, jvld) jm" where
  "configure_maxReg_DC pMaxcode beChroma =
     write_regs (if beChroma then 0xCC else 0x8C) (map (\<lambda>i. pMaxcode ! (i + 1) AND 0xFFFF) [0..<16])"

definition configure_maxReg_AC :: "u32 list \<Rightarrow> bool \<Rightarrow> (unit, jvld) jm" where
  "configure_maxReg_AC pMaxcode beChroma =
     write_regs (if beChroma then 0x14C else 0x10C) (map (\<lambda>i.
       push_bit 8 (pMaxcode ! (i + 1) AND 0xFFFF) OR (drop_bit 16 (pMaxcode ! (i + 1)) AND 0xFF)) [0..<16])"

definition collect_valid_bits :: "u32 list \<Rightarrow> u32" where
  "collect_valid_bits row = fold (\<lambda>i valid. valid OR push_bit (15 - i) (drop_bit 31 (row ! (i + 1)))) [0..<16] 0"

definition JPEGFW_configure_validReg :: "(unit, jvld) jm" where
  "JPEGFW_configure_validReg = jbind (jget s_active_base_max) (\<lambda>m. jseq
     [write_regs 0x84 [push_bit 16 (collect_valid_bits (m ! 0)) OR collect_valid_bits (m ! 2)],
      write_regs 0x88 [push_bit 16 (collect_valid_bits (m ! 1)) OR collect_valid_bits (m ! 3)]])"

definition JPEGFW_configure_vld_reg_jpegDec :: "(unit, jvld) jm" where
  "JPEGFW_configure_vld_reg_jpegDec = jbind (jget (\<lambda>v. v)) (\<lambda>v.
     let m = s_active_base_max v in
     if \<not> using_default_huff_tab (dcodec (vdec v))
     then jseq [JPEGFW_configure_validReg,
       configure_maxReg_DC (m ! 0) False, configure_maxReg_DC (m ! 2) True,
       configure_maxReg_AC (m ! 1) False, configure_maxReg_AC (m ! 3) True]
     else jseq [write_regs 0x84 [jpeg_fw_vld_default_max_code ! 0],
       write_regs 0x88 [jpeg_fw_vld_default_max_code ! 1],
       write_regs 0x8C (drop 2 jpeg_fw_vld_default_max_code),
       jmod (\<lambda>v. v\<lparr>g_huffTab := jpeg_fw_vld_default_huffTab\<rparr>)])"

text \<open>The part of \<^verbatim>\<open>JPEG_HWDecInit\<close> for a sequential image whose record is initialized.\<close>

definition init_vld :: "(unit, jvld) jm" where
  "init_vld = jthen
     (jbind (jget (\<lambda>v. using_default_huff_tab (dcodec (vdec v)))) (\<lambda>default.
        if \<not> default then jthen JPEGFW_InitHuffTbl JPEGFW_build_hufftab_jpegDec else jret ()))
     JPEGFW_configure_vld_reg_jpegDec"

subsection \<open>Canonical codes\<close>

text \<open>The reference: a code word of length \<open>l\<close>, moved to the top of 16 bits, is the number of 16-bit
  words that the codes before it take up.\<close>

fun left_codes :: "nat \<Rightarrow> nat list \<Rightarrow> nat list" where
  "left_codes a [] = []"
| "left_codes a (l # ls) = a # left_codes (a + 2 ^ (16 - l)) ls"

definition kraft :: "nat list \<Rightarrow> nat" where
  "kraft ls = sum_list (map (\<lambda>l. 2 ^ (16 - l)) ls)"

definition lefts :: "u16 list \<Rightarrow> nat list \<Rightarrow> nat list" where
  "lefts cs ls = map2 (\<lambda>c l. unat c * 2 ^ (16 - l)) cs ls"

lemma kraft_simps [simp]:
  "kraft [] = 0" "kraft (l # ls) = 2 ^ (16 - l) + kraft ls" "kraft (ls @ ms) = kraft ls + kraft ms"
  by (simp_all add: kraft_def)

lemma kraft_pos: "ls \<noteq> [] \<Longrightarrow> 0 < kraft ls"
  by (cases ls) simp_all

lemma lefts_append: "length cs = length ls \<Longrightarrow> lefts (cs @ ds) (ls @ ms) = lefts cs ls @ lefts ds ms"
  by (simp add: lefts_def)

lemma left_codes_append: "left_codes a (ls @ ms) = left_codes a ls @ left_codes (a + kraft ls) ms"
  by (induction ls arbitrary: a) (simp_all add: add.assoc)

lemma length_left_codes [simp]: "length (left_codes a ls) = length ls"
  by (induction ls arbitrary: a) simp_all

text \<open>A code whose place is inside the 16 bits has no more bits than its length.\<close>

lemma code_small:
  assumes "unat c * 2 ^ (16 - n) < 65536" "n \<le> 16"
  shows "unat (c :: u16) < 2 ^ n"
proof -
  have "unat c * 2 ^ (16 - n) < 2 ^ n * 2 ^ (16 - n)"
    using assms by (simp flip: power_add)
  then show ?thesis by simp
qed

lemma of_nat_u16_eq: "x < 65536 \<Longrightarrow> y < 65536 \<Longrightarrow> (of_nat x :: u16) = of_nat y \<longleftrightarrow> x = y"
  by (metis unat_of_nat_u16)

lemma size_eq:
  assumes "l \<le> 16" "n \<le> 16"
  shows "(ucast (of_nat l :: u8) :: u16) = of_nat n \<longleftrightarrow> l = n"
proof -
  have "(ucast (of_nat l :: u8) :: u16) = of_nat l"
    using assms(1) by (intro word_unat_eq_iff [THEN iffD2])
      (simp add: unsigned_ucast_eq unsigned_of_nat take_bit_nat_eq_self)
  then show ?thesis using assms by (simp add: of_nat_u16_eq)
qed

lemma codes_of_length_canonical:
  assumes "0 < n" "n \<le> 16" "\<forall>l \<in> set ls. n \<le> l \<and> l \<le> 16" "sorted ls" "a + kraft ls \<le> 65536"
    and "ls \<noteq> [] \<longrightarrow> unat code * 2 ^ (16 - n) = a"
  shows "\<exists>cs ms ks code'. ls = ms @ ks \<and> (\<forall>l \<in> set ks. n < l \<and> l \<le> 16) \<and> sorted ks
     \<and> codes_of_length (map of_nat ls @ 0 # zs) (of_nat n) code = Some (cs, map of_nat ks @ 0 # zs, code')
     \<and> length cs = length ms \<and> lefts cs ms = left_codes a ms
     \<and> (ks \<noteq> [] \<longrightarrow> unat code' * 2 ^ (16 - n) = a + kraft ms)"
  using assms
proof (induction ls arbitrary: a code)
  case Nil
  then have "(0 :: u16) \<noteq> of_nat n" using size_eq [of 0 n] by simp
  then show ?case by (intro exI [of _ "[]"]) (simp add: lefts_def)
next
  case (Cons l ls)
  have code: "unat code * 2 ^ (16 - n) = a" using Cons.prems by simp
  have l: "n \<le> l" "l \<le> 16" using Cons.prems by simp_all
  have eq: "(ucast (of_nat l :: u8) = (of_nat n :: u16)) = (l = n)"
    using size_eq l Cons.prems(2) by simp
  show ?case
  proof (cases "l = n")
    case False
    with l Cons.prems(3,4) have "\<forall>m \<in> set (l # ls). n < m \<and> m \<le> 16" by fastforce
    with False Cons.prems(4) show ?thesis
      by (intro exI [of _ "[]"] exI [of _ "l # ls"] exI [of _ code]) (auto simp: eq lefts_def code)
  next
    case True
    have next_code: "unat (code + 1) * 2 ^ (16 - n) = a + 2 ^ (16 - n)" if "ls \<noteq> []"
    proof -
      have "(unat code + 1) * 2 ^ (16 - n) < 65536"
        using kraft_pos [OF that] Cons.prems(5) True code by simp
      then have "unat code + 1 < 65536"
        using mult_le_mono2 [of 1 "2 ^ (16 - n)" "unat code + 1"] by simp
      then have "unat (code + 1) = unat code + 1" by (simp add: unat_word_ariths)
      then show ?thesis using code by simp
    qed
    have "\<exists>cs ms ks code'. ls = ms @ ks \<and> (\<forall>l \<in> set ks. n < l \<and> l \<le> 16) \<and> sorted ks
      \<and> codes_of_length (map of_nat ls @ 0 # zs) (of_nat n) (code + 1) = Some (cs, map of_nat ks @ 0 # zs, code')
      \<and> length cs = length ms \<and> lefts cs ms = left_codes (a + 2 ^ (16 - n)) ms
      \<and> (ks \<noteq> [] \<longrightarrow> unat code' * 2 ^ (16 - n) = a + 2 ^ (16 - n) + kraft ms)"
      by (rule Cons.IH) (use next_code True Cons.prems in \<open>auto simp: add.assoc\<close>)
    then obtain cs ms ks code' where ih: "ls = ms @ ks" "\<forall>l \<in> set ks. n < l \<and> l \<le> 16" "sorted ks"
      "codes_of_length (map of_nat ls @ 0 # zs) (of_nat n) (code + 1) = Some (cs, map of_nat ks @ 0 # zs, code')"
      "length cs = length ms" "lefts cs ms = left_codes (a + 2 ^ (16 - n)) ms"
      "ks \<noteq> [] \<longrightarrow> unat code' * 2 ^ (16 - n) = a + 2 ^ (16 - n) + kraft ms"
      by blast
    then show ?thesis using True code
      by (intro exI [of _ "code # cs"] exI [of _ "l # ms"] exI [of _ ks] exI [of _ code'])
        (simp add: size_eq Cons.prems(2) lefts_def add.assoc)
  qed
qed

lemma gen_codes_canonical_from:
  assumes "0 < n" "n \<le> 17" "\<forall>l \<in> set ls. n \<le> l \<and> l \<le> 16" "sorted ls" "a + kraft ls \<le> 65536"
    and "ls \<noteq> [] \<longrightarrow> unat code * 2 ^ (16 - n) = a"
  shows "\<exists>cs. gen_codes (map of_nat ls @ 0 # zs) (of_nat n) code = Some cs
     \<and> length cs = length ls \<and> lefts cs ls = left_codes a ls"
  using assms
proof (induction "17 - n" arbitrary: n ls a code)
  case 0
  then have "ls = []" by (cases ls) auto
  then show ?case by (simp add: gen_codes.simps lefts_def)
next
  case (Suc k)
  have n: "0 < n" "n \<le> 16" using Suc.hyps(2) Suc.prems(1) by simp_all
  show ?case
  proof (cases "ls = []")
    case True
    then show ?thesis by (simp add: gen_codes.simps lefts_def)
  next
    case False
    obtain cs ms ks code' where split: "ls = ms @ ks" "\<forall>l \<in> set ks. n < l \<and> l \<le> 16" "sorted ks"
      and run: "codes_of_length (map of_nat ls @ 0 # zs) (of_nat n) code = Some (cs, map of_nat ks @ 0 # zs, code')"
      and cs: "length cs = length ms" "lefts cs ms = left_codes a ms"
      and code': "ks \<noteq> [] \<longrightarrow> unat code' * 2 ^ (16 - n) = a + kraft ms"
      using codes_of_length_canonical [OF n Suc.prems(3-6)] by blast
    have code'': "ks \<noteq> [] \<longrightarrow> unat (push_bit 1 code') * 2 ^ (16 - (n + 1)) = a + kraft ms"
    proof
      assume ks: "ks \<noteq> []"
      then have less: "unat code' * 2 ^ (16 - n) < 65536"
        using code' kraft_pos [OF ks] Suc.prems(5) split(1) by simp
      from ks split(2) have "n < 16" by (cases ks) auto
      then have "unat code' < 2 ^ 15"
        using code_small [OF less n(2)] power_increasing [of n 15 "2 :: nat"] by simp
      then have "unat (push_bit 1 code') = 2 * unat code'"
        by (simp add: push_bit_eq_mult unat_word_ariths)
      moreover have "(2 :: nat) ^ (16 - n) = 2 * 2 ^ (16 - (n + 1))"
        using \<open>n < 16\<close> by (simp flip: power_Suc add: Suc_diff_Suc)
      ultimately show "unat (push_bit 1 code') * 2 ^ (16 - (n + 1)) = a + kraft ms"
        using code' ks by simp
    qed
    have "\<exists>ds. gen_codes (map of_nat ks @ 0 # zs) (of_nat (n + 1)) (push_bit 1 code') = Some ds
      \<and> length ds = length ks \<and> lefts ds ks = left_codes (a + kraft ms) ks"
      by (rule Suc.hyps(1)) (use Suc.hyps(2) n split(2,3) Suc.prems(5) split(1) code'' in \<open>auto simp: add.assoc\<close>)
    then obtain ds where ds: "gen_codes (map of_nat ks @ 0 # zs) (of_nat (n + 1)) (push_bit 1 code') = Some ds"
      "length ds = length ks" "lefts ds ks = left_codes (a + kraft ms) ks"
      by blast
    obtain l ls' where ls: "ls = l # ls'" "0 < l" "l \<le> 16" using False Suc.prems(1,3) by (cases ls) auto
    then have "(of_nat l :: u8) \<noteq> 0" using size_eq [of l 0] by auto
    then have "gen_codes (map of_nat ls @ 0 # zs) (of_nat n) code = Some (cs @ ds)"
      using run ds(1) ls(1) by (subst gen_codes.simps) (simp add: add.commute)
    then show ?thesis
      using cs ds split(1) by (simp add: lefts_append left_codes_append)
  qed
qed

subsection \<open>The codes of a table\<close>

text \<open>The lengths of the codes, from the counts of each length.\<close>

fun lengths_from :: "nat \<Rightarrow> nat list \<Rightarrow> nat list" where
  "lengths_from l [] = []"
| "lengths_from l (b # bs) = replicate b l @ lengths_from (l + 1) bs"

definition counts :: "bytes \<Rightarrow> nat list" where
  "counts bits = map unat (chunk 1 16 bits)"

definition code_lengths :: "bytes \<Rightarrow> nat list" where
  "code_lengths bits = lengths_from 1 (counts bits)"

lemma lengths_from_upt: "lengths_from l (map f [l..<m]) = concat (map (\<lambda>i. replicate (f i) i) [l..<m])"
proof (induction "m - l" arbitrary: l)
  case (Suc k)
  then have "[l..<m] = l # [l + 1..<m]" by (simp add: upt_conv_Cons)
  with Suc.hyps(1) [of "l + 1"] Suc.hyps(2) show ?case by simp
qed simp

lemma chunk_nth: "17 \<le> length bits \<Longrightarrow> chunk 1 16 bits = map ((!) bits) [1..<17]"
  by (rule nth_equalityI) (auto simp: chunk_def)

lemma huff_sizes_lengths: "17 \<le> length bits \<Longrightarrow> huff_sizes bits = map of_nat (code_lengths bits)"
proof -
  assume "17 \<le> length bits"
  then have "code_lengths bits = concat (map (\<lambda>i. replicate (unat (bits ! i)) i) [1..<17])"
    using lengths_from_upt [of 1 "\<lambda>i. unat (bits ! i)" 17]
    by (simp only: code_lengths_def counts_def chunk_nth map_map comp_def)
  then show ?thesis
    by (simp only: huff_sizes_def map_concat map_map comp_def map_replicate)
qed

lemma lengths_from_range:
  "\<forall>m \<in> set (lengths_from l bs). l \<le> m \<and> m < l + length bs" "sorted (lengths_from l bs)"
  "length (lengths_from l bs) = sum_list bs"
proof (induction bs arbitrary: l)
  case (Cons b bs)
  { case 1 from Cons.IH(1) [of "l + 1"] show ?case by auto }
  { case 2 from Cons.IH(1,2) [of "l + 1"] show ?case by (fastforce simp: sorted_append) }
  { case 3 from Cons.IH(3) [of "l + 1"] show ?case by simp }
qed simp_all

lemma code_lengths_range:
  "\<forall>l \<in> set (code_lengths bits). 1 \<le> l \<and> l \<le> 16" "sorted (code_lengths bits)"
  "length (code_lengths bits) = sum_list (counts bits)"
  using lengths_from_range [of 1 "counts bits"] by (fastforce simp: code_lengths_def counts_def length_chunk)+

text \<open>A table is consistent when its codes fit: not more than all words of 16 bits.\<close>

definition consistent :: "bytes \<Rightarrow> bool" where
  "consistent bits \<longleftrightarrow> kraft (code_lengths bits) \<le> 65536"

lemma gen_codes_canonical:
  assumes "17 \<le> length bits" "consistent bits"
  shows "\<exists>cs. gen_codes (huff_sizes bits @ 0 # zs) (ucast ((huff_sizes bits @ 0 # zs) ! 0)) 0 = Some cs
    \<and> length cs = length (code_lengths bits) \<and> lefts cs (code_lengths bits) = left_codes 0 (code_lengths bits)"
proof (cases "code_lengths bits")
  case Nil
  then show ?thesis using assms(1) by (simp add: huff_sizes_lengths gen_codes.simps lefts_def)
next
  case (Cons l ls)
  have l: "0 < l" "l \<le> 16" "\<forall>m \<in> set (l # ls). l \<le> m \<and> m \<le> 16" "sorted (l # ls)"
    using code_lengths_range [of bits] Cons by auto
  have "ucast ((huff_sizes bits @ 0 # zs) ! 0) = (of_nat l :: u16)"
    using assms(1) Cons size_eq [of l l] l(2) by (simp add: huff_sizes_lengths)
  then show ?thesis
    using gen_codes_canonical_from [of l "l # ls" 0 0 zs] l assms Cons
    by (simp add: huff_sizes_lengths consistent_def del: list.simps(9))
qed

lemma lefts_nth:
  assumes "lefts cs ls = left_codes 0 ls" "length cs = length ls" "k < length ls"
  shows "unat (cs ! k) * 2 ^ (16 - ls ! k) = kraft (take k ls)"
proof -
  have left: "left_codes a ls ! k = a + kraft (take k ls)" for a
    using assms(3)
  proof (induction ls arbitrary: a k)
    case (Cons l ls)
    then show ?case by (cases k) simp_all
  qed simp
  have "lefts cs ls ! k = unat (cs ! k) * 2 ^ (16 - ls ! k)" using assms(2,3) by (simp add: lefts_def)
  with assms(1) left [of 0] show ?thesis by simp
qed

text \<open>The table that the decoder should have: for each length that occurs, the number of shorter codes
  and the last code.\<close>

fun length_tbl :: "nat \<Rightarrow> nat \<Rightarrow> nat \<Rightarrow> nat list \<Rightarrow> (nat \<times> nat) option list" where
  "length_tbl p a l [] = []"
| "length_tbl p a l (b # bs) =
     (if b = 0 then None else Some (p, (a + (b - 1) * 2 ^ (16 - l)) div 2 ^ (16 - l)))
     # length_tbl (p + b) (a + b * 2 ^ (16 - l)) (l + 1) bs"

abbreviation word_entries :: "(nat \<times> nat) option list \<Rightarrow> (u8 \<times> u16) option list" where
  "word_entries \<equiv> map (map_option (\<lambda>(p, m). (of_nat p, of_nat m)))"

lemma kraft_replicate [simp]: "kraft (replicate b l) = b * 2 ^ (16 - l)"
  by (induction b) simp_all

lemma word_nat_cast: "of_nat (unat w) = (w :: u16)"
  by simp

lemma of_nat_unat_u16: "(of_nat (unat (b :: u8)) :: u16) = ucast b"
  by (rule word_unat_eq_iff [THEN iffD2])
    (simp add: unat_of_nat_u16 less_trans [OF unat_u8_less] unsigned_ucast_eq take_bit_nat_eq_self)

lemma ucast_of_nat_u8: "(ucast (of_nat n :: u16) :: u8) = of_nat n"
  by (rule word_unat_eq_iff [THEN iffD2]) (simp add: unsigned_ucast_eq unsigned_of_nat)

lemma decode_tbl_lengths:
  assumes "lefts cs (pre @ lengths_from l (map unat bs)) = left_codes 0 (pre @ lengths_from l (map unat bs))"
    and "length cs = length (pre @ lengths_from l (map unat bs))" "length cs \<le> 256"
  shows "decode_tbl bs (of_nat (length pre)) (cs @ ffs)
    = word_entries (length_tbl (length pre) (kraft pre) l (map unat bs))"
  using assms
proof (induction bs arbitrary: pre l)
  case (Cons b bs)
  let ?pre = "pre @ replicate (unat b) l"
  have "decode_tbl bs (of_nat (length ?pre)) (cs @ ffs)
      = word_entries (length_tbl (length ?pre) (kraft ?pre) (l + 1) (map unat bs))"
    using Cons.prems by (intro Cons.IH) simp_all
  moreover have "(of_nat (length ?pre) :: u16) = of_nat (length pre) + ucast b"
    by (simp add: of_nat_unat_u16)
  ultimately have rest: "decode_tbl bs (of_nat (length pre) + ucast b) (cs @ ffs)
      = word_entries (length_tbl (length pre + unat b) (kraft pre + unat b * 2 ^ (16 - l)) (l + 1) (map unat bs))"
    by simp
  show ?case
  proof (cases "b = 0")
    case True
    with rest show ?thesis by simp
  next
    case False
    let ?k = "length pre + unat b - 1"
    have b: "0 < unat b" using False by (simp add: unat_gt_0)
    have len: "length pre + unat b \<le> length cs" using Cons.prems(2) by simp
    have idx: "unat (of_nat (length pre) + ucast b - 1 :: u16) = ?k"
    proof -
      have "(of_nat (length pre) + ucast b - 1 :: u16) = of_nat ?k"
        using b by (simp add: of_nat_diff of_nat_unat_u16)
      then show ?thesis using len Cons.prems(3) by (simp add: unat_of_nat_u16)
    qed
    have ls: "(pre @ lengths_from l (map unat (b # bs))) ! ?k = l"
      "take ?k (pre @ lengths_from l (map unat (b # bs))) = pre @ replicate (unat b - 1) l"
      using b by (auto simp add: nth_append min_def)
    have "unat (cs ! ?k) * 2 ^ (16 - l) = kraft pre + (unat b - 1) * 2 ^ (16 - l)"
      using lefts_nth [OF Cons.prems(1,2), of ?k] ls b len Cons.prems(2) by simp
    then have "unat (cs ! ?k) = (kraft pre + (unat b - 1) * 2 ^ (16 - l)) div 2 ^ (16 - l)"
      by (metis nonzero_mult_div_cancel_right power_not_zero zero_neq_numeral)
    then have "cs ! ?k = of_nat ((kraft pre + (unat b - 1) * 2 ^ (16 - l)) div 2 ^ (16 - l))"
      by (metis word_nat_cast)
    moreover have "(cs @ ffs) ! ?k = cs ! ?k" using len b by (auto simp: nth_append)
    ultimately have "(cs @ ffs) ! ?k = of_nat ((kraft pre + (unat b - 1) * 2 ^ (16 - l)) div 2 ^ (16 - l))"
      by simp
    then show ?thesis using rest False idx by (simp add: unat_eq_0 ucast_of_nat_u8)
  qed
qed simp

subsection \<open>The decoder's tables\<close>

text \<open>A table in memory whose codes are consistent: the row that its entries give.\<close>

definition table_in_memory :: "huff_tbl \<Rightarrow> bool" where
  "table_in_memory t \<longleftrightarrow> length (hbits t) = 17 \<and> length (huffval t) = 257
     \<and> sum_list (counts (hbits t)) \<le> 256"

definition row_of :: "bytes \<Rightarrow> u32 list" where
  "row_of bits = active_words None (word_entries (length_tbl 0 0 1 (counts bits)))"

definition after_fix :: "jdec \<Rightarrow> jdec" where
  "after_fix d = d\<lparr>s_used_extra_mem := s_used_extra_mem d + 864\<rparr>"

lemma rounded_sizes: "((257 + 3) AND NOT 3 :: u32) = 260" "((514 + 3) AND NOT 3 :: u32) = 516"
  "((68 + 3) AND NOT 3 :: u32) = 68" "((17 + 3) AND NOT 3 :: u32) = 20"
  by simp_all

lemma alloc_block:
  assumes "unat n \<le> room d"
  shows "JpegDec_ExtraMemAlloc n d = JOk (replicate (unat n) 0)
    (d\<lparr>s_used_extra_mem := s_used_extra_mem d + ((n + 3) AND NOT 3)\<rparr>)"
  using assms by (simp add: JpegDec_ExtraMemAlloc_def Let_def room_def min_absorb1)

lemma room_after:
  assumes "unat k \<le> room d"
  shows "room (d\<lparr>s_used_extra_mem := s_used_extra_mem d + k\<rparr>) = room d - unat k"
  using assms by (rule room_alloc)

lemma blocks:
  assumes "864 \<le> room d"
  shows "jbind (JpegDec_ExtraMemAlloc 257) (\<lambda>a. jbind (JpegDec_ExtraMemAlloc 514) (\<lambda>b.
      jbind (JpegDec_ExtraMemAlloc 68) (\<lambda>c. jbind (JpegDec_ExtraMemAlloc 17) (\<lambda>e. k a b c e)))) d
    = k (replicate 257 0) (replicate 514 0) (replicate 68 0) (replicate 17 0) (after_fix d)"
proof -
  let ?d = "\<lambda>n. d\<lparr>s_used_extra_mem := s_used_extra_mem d + n\<rparr>"
  have r: "room (?d 260) = room d - 260" "room (?d 776) = room d - 776" "room (?d 844) = room d - 844"
    using assms by (subst room_after; simp)+
  have "JpegDec_ExtraMemAlloc 257 d = JOk (replicate 257 0) (?d 260)"
    "JpegDec_ExtraMemAlloc 514 (?d 260) = JOk (replicate 514 0) (?d 776)"
    "JpegDec_ExtraMemAlloc 68 (?d 776) = JOk (replicate 68 0) (?d 844)"
    "JpegDec_ExtraMemAlloc 17 (?d 844) = JOk (replicate 17 0) (after_fix d)"
    using assms r by (subst alloc_block; simp add: after_fix_def)+
  then show ?thesis by (simp add: jbind_def)
qed

lemma FixHuffTbl_row:
  assumes "table_in_memory t" "consistent (hbits t)" "864 \<le> room d"
  shows "JPEGFW_FixHuffTbl t row d = JOk (take 1 row @ row_of (hbits t)) (after_fix d)"
proof -
  let ?bits = "hbits t" and ?n = "length (code_lengths (hbits t))"
  have bits: "17 \<le> length ?bits" "?n \<le> 256"
    using assms(1) by (simp_all add: table_in_memory_def code_lengths_range(3))
  then have n: "length (huff_sizes ?bits) = ?n" by (simp add: huff_sizes_lengths)
  have zeros: "replicate (257 - ?n) (0 :: u8) = 0 # replicate (256 - ?n) 0"
    using bits(2) by (simp add: Suc_diff_le flip: replicate_Suc)
  obtain cs where cs: "gen_codes (huff_sizes ?bits @ 0 # replicate (256 - ?n) 0)
      (ucast ((huff_sizes ?bits @ 0 # replicate (256 - ?n) 0) ! 0)) 0 = Some cs"
    "length cs = ?n" "lefts cs (code_lengths ?bits) = left_codes 0 (code_lengths ?bits)"
    using gen_codes_canonical [OF bits(1) assms(2)] by blast
  have "decode_tbl (chunk 1 16 ?bits) 0 (cs @ ffs) = word_entries (length_tbl 0 0 1 (counts ?bits))" for ffs
    using decode_tbl_lengths [of cs "[]" 1 "chunk 1 16 ?bits" ffs] cs bits(2)
    by (simp add: code_lengths_def counts_def)
  with cs n bits show ?thesis
    unfolding JPEGFW_FixHuffTbl_def blocks [OF assms(3)]
    by (simp add: jstmt Let_def zeros row_of_def)
qed

subsection \<open>The default tables\<close>

lemma default_counts:
  "counts jpeg_fw_lum_dc_bits_default = [0, 1, 5, 1, 1, 1, 1, 1, 1, 0, 0, 0, 0, 0, 0, 0]"
  "counts jpeg_fw_chr_dc_bits_default = [0, 3, 1, 1, 1, 1, 1, 1, 1, 1, 1, 0, 0, 0, 0, 0]"
  "counts jpeg_fw_lum_ac_bits_default = [0, 2, 1, 3, 3, 2, 4, 3, 5, 5, 4, 4, 0, 0, 1, 125]"
  "counts jpeg_fw_chr_ac_bits_default = [0, 2, 1, 2, 4, 4, 3, 4, 7, 5, 4, 4, 0, 1, 2, 119]"
  by (simp_all add: counts_def chunk_def jpeg_fw_lum_dc_bits_default_def jpeg_fw_chr_dc_bits_default_def
      jpeg_fw_lum_ac_bits_default_def jpeg_fw_chr_ac_bits_default_def)

lemma default_rows:
  "row_of jpeg_fw_lum_dc_bits_default = [0x0, 0x80000000, 0x80010006, 0x8006000e, 0x8007001e, 0x8008003e, 0x8009007e, 0x800a00fe, 0x800b01fe, 0x3fe, 0x7fc, 0xff8, 0x1ff0, 0x3fe0, 0x7fc0, 0xff80]"
  "row_of jpeg_fw_chr_dc_bits_default = [0x0, 0x80000002, 0x80030006, 0x8004000e, 0x8005001e, 0x8006003e, 0x8007007e, 0x800800fe, 0x800901fe, 0x800a03fe, 0x800b07fe, 0xffe, 0x1ffc, 0x3ff8, 0x7ff0, 0xffe0]"
  "row_of jpeg_fw_lum_ac_bits_default = [0x0, 0x80000001, 0x80020004, 0x8003000c, 0x8006001c, 0x8009003b, 0x800b007b, 0x800f00fa, 0x801201fa, 0x801703fa, 0x801c07f9, 0x80200ff7, 0x1ff0, 0x3fe0, 0x80247fc0, 0x8025fffe]"
  "row_of jpeg_fw_chr_ac_bits_default = [0x0, 0x80000001, 0x80020004, 0x8003000b, 0x8005001b, 0x8009003b, 0x800d007a, 0x801000f9, 0x801401fa, 0x801b03fa, 0x802007f9, 0x80240ff7, 0x1ff0, 0x80283fe0, 0x80297fc3, 0x802bfffe]"
  by (simp_all add: row_of_def default_counts active_word_def Let_def)

text \<open>The words a table's codes take up.\<close>

fun kraft_from :: "nat \<Rightarrow> nat list \<Rightarrow> nat" where
  "kraft_from l [] = 0"
| "kraft_from l (b # bs) = b * 2 ^ (16 - l) + kraft_from (l + 1) bs"

lemma kraft_lengths_from: "kraft (lengths_from l bs) = kraft_from l bs"
  by (induction bs arbitrary: l) simp_all

lemma default_consistent:
  "consistent jpeg_fw_lum_dc_bits_default" "consistent jpeg_fw_chr_dc_bits_default"
  "consistent jpeg_fw_lum_ac_bits_default" "consistent jpeg_fw_chr_ac_bits_default"
  by (simp_all add: consistent_def code_lengths_def kraft_lengths_from default_counts)
lemma same_huff_counts:
  assumes "same_huff t t'" "17 \<le> length (hbits t)" "17 \<le> length (hbits t')"
  shows "counts (hbits t') = counts (hbits t)"
  unfolding counts_def chunk_nth [OF assms(2)] chunk_nth [OF assms(3)]
  using assms(1) by (auto simp: same_huff_def)

text \<open>The tables of a decoder for an image of several components are the default ones.\<close>

definition default_table :: "bool \<Rightarrow> nat \<Rightarrow> huff_tbl" where
  "default_table ac n = \<lparr>hbits = default_bits ac n, huffval = default_huffval ac n\<rparr>"

definition default_tables :: "jpeg_codec \<Rightarrow> bool" where
  "default_tables c \<longleftrightarrow> num_components c \<noteq> 1
     \<and> (\<forall>n < 2. table_in_memory (dc_huff_tbl c ! n) \<and> same_huff (default_table False n) (dc_huff_tbl c ! n)
        \<and> table_in_memory (ac_huff_tbl c ! n) \<and> same_huff (default_table True n) (ac_huff_tbl c ! n))"

definition vld_ready :: "jvld \<Rightarrow> bool" where
  "vld_ready v \<longleftrightarrow> 3456 \<le> room (vdec v) \<and> length (s_active_base_max v) = 4
     \<and> (\<forall>r \<in> set (s_active_base_max v). length r = 17)"

text \<open>What the tables do to the state.\<close>

lemma fix_row_to:
  assumes "table_in_memory (tbl (dcodec (vdec v)))" "consistent (hbits (tbl (dcodec (vdec v))))"
    "864 \<le> room (vdec v)"
  shows "fix_row i tbl v = JOk () (v\<lparr>vdec := after_fix (vdec v), s_active_base_max := (s_active_base_max v)
     [i := take 1 (s_active_base_max v ! i) @ row_of (hbits (tbl (dcodec (vdec v))))]\<rparr>)"
  using FixHuffTbl_row [OF assms] by (simp add: fix_row_def jstmt on_dec_def)

lemma after_fix_fields [simp]: "dcodec (after_fix d) = dcodec d"
  "864 \<le> room d \<Longrightarrow> room (after_fix d) = room d - 864"
  using room_after [of 864 d] by (simp_all add: after_fix_def)

definition new_rows :: "jpeg_codec \<Rightarrow> u32 list list" where
  "new_rows c = [row_of (hbits (dc_huff_tbl c ! 0)), row_of (hbits (ac_huff_tbl c ! 0)),
     row_of (hbits (dc_huff_tbl c ! 1)), row_of (hbits (ac_huff_tbl c ! 1))]"

lemma list_of_4: "length xs = 4 \<longleftrightarrow> (\<exists>a b c d. xs = [a, b, c, d])"
  by (auto simp: eval_nat_numeral length_Suc_conv)

lemma list_of_17: "length r = 17 \<Longrightarrow> take 1 r = [hd r]"
  by (cases r) simp_all

lemma InitHuffTbl_rows:
  assumes "vld_ready v" "num_components (dcodec (vdec v)) \<noteq> 1"
    "\<forall>n < 2. table_in_memory (dc_huff_tbl (dcodec (vdec v)) ! n) \<and> consistent (hbits (dc_huff_tbl (dcodec (vdec v)) ! n))
       \<and> table_in_memory (ac_huff_tbl (dcodec (vdec v)) ! n) \<and> consistent (hbits (ac_huff_tbl (dcodec (vdec v)) ! n))"
  shows "\<exists>a b c d. JPEGFW_InitHuffTbl v = JOk ()
    (v\<lparr>vdec := after_fix (after_fix (after_fix (after_fix (vdec v)))),
       s_active_base_max := map2 (#) [a, b, c, d] (new_rows (dcodec (vdec v)))\<rparr>)"
proof -
  obtain r0 r1 r2 r3 where rows: "s_active_base_max v = [r0, r1, r2, r3]"
    and len: "length r0 = 17" "length r1 = 17" "length r2 = 17" "length r3 = 17"
    using assms(1) by (auto simp: vld_ready_def list_of_4)
  have room: "3456 \<le> room (vdec v)" using assms(1) by (simp add: vld_ready_def)
  have t: "table_in_memory (dc_huff_tbl (dcodec (vdec v)) ! 0)" "consistent (hbits (dc_huff_tbl (dcodec (vdec v)) ! 0))"
    "table_in_memory (ac_huff_tbl (dcodec (vdec v)) ! 0)" "consistent (hbits (ac_huff_tbl (dcodec (vdec v)) ! 0))"
    "table_in_memory (dc_huff_tbl (dcodec (vdec v)) ! 1)" "consistent (hbits (dc_huff_tbl (dcodec (vdec v)) ! 1))"
    "table_in_memory (ac_huff_tbl (dcodec (vdec v)) ! 1)" "consistent (hbits (ac_huff_tbl (dcodec (vdec v)) ! 1))"
    using assms(3) by auto
  show ?thesis
    unfolding JPEGFW_InitHuffTbl_def jseq.simps
    using assms(2) room
    by (intro exI) (simp add: jthen_def jbind_def jget_def jret_def fix_row_to t t [unfolded One_nat_def] rows
        list_of_17 [OF len(1), unfolded One_nat_def] list_of_17 [OF len(2), unfolded One_nat_def]
        list_of_17 [OF len(3), unfolded One_nat_def] list_of_17 [OF len(4), unfolded One_nat_def] new_rows_def)
qed

lemma build_length_numeral:
  "build_length shift a (numeral n) (v # vals) tab =
     (if a < length tab
      then build_length shift (a + 1) (pred_numeral n) vals (tab[a := push_bit shift (ucast v) OR tab ! a])
      else None)"
  by (simp add: numeral_eq_Suc)

text \<open>The default table after the first three of its four steps.\<close>

definition default_after_lum_DC :: "u32 list" where
  "default_after_lum_DC =
     [0x0, 0x0, 0x0, 0x0, 0x0, 0x0, 0x10000, 0x20000, 0x30000,
      0x40000, 0x50000, 0x0, 0x0, 0x0, 0x60000, 0x0, 0x0, 0x0,
      0x0, 0x0, 0x0, 0x0, 0x0, 0x0, 0x0, 0x0, 0x70000,
      0x0, 0x0, 0x0, 0x0, 0x0, 0x0, 0x0, 0x0, 0x0,
      0x0, 0x0, 0x80000, 0x0, 0x0, 0x0, 0x0, 0x0, 0x0,
      0x0, 0x0, 0x0, 0x0, 0x0, 0x90000, 0x0, 0x0, 0x0,
      0x0, 0x0, 0x0, 0x0, 0x0, 0x0, 0x0, 0x0, 0xa0000,
      0x0, 0x0, 0x0, 0x0, 0x0, 0x0, 0x0, 0x0, 0x0,
      0x0, 0x0, 0xb0000, 0x0, 0x0, 0x0, 0x0, 0x0, 0x0,
      0x0, 0x0, 0x0, 0x0, 0x0, 0x0, 0x0, 0x0, 0x0,
      0x0, 0x0, 0x0, 0x0, 0x0, 0x0, 0x0, 0x0, 0x0,
      0x0, 0x0, 0x0, 0x0, 0x0, 0x0, 0x0, 0x0, 0x0,
      0x0, 0x0, 0x0, 0x0, 0x0, 0x0, 0x0, 0x0, 0x0,
      0x0, 0x0, 0x0, 0x0, 0x0, 0x0, 0x0, 0x0, 0x0,
      0x0, 0x0, 0x0, 0x0, 0x0, 0x0, 0x0, 0x0, 0x0,
      0x0, 0x0, 0x0, 0x0, 0x0, 0x0, 0x0, 0x0, 0x0,
      0x0, 0x0, 0x0, 0x0, 0x0, 0x0, 0x0, 0x0, 0x0,
      0x0, 0x0, 0x0, 0x0, 0x0, 0x0, 0x0, 0x0, 0x0]"

definition default_after_lum_AC :: "u32 list" where
  "default_after_lum_AC =
     [0x1, 0x2, 0x3, 0x0, 0x4, 0x11, 0x10005, 0x20012, 0x30021,
      0x40031, 0x50041, 0x6, 0x13, 0x51, 0x60061, 0x7, 0x22, 0x71,
      0x14, 0x32, 0x81, 0x91, 0xa1, 0x8, 0x23, 0x42, 0x700b1,
      0xc1, 0x15, 0x52, 0xd1, 0xf0, 0x24, 0x33, 0x62, 0x72,
      0x82, 0x9, 0x8000a, 0x16, 0x17, 0x18, 0x19, 0x1a, 0x25,
      0x26, 0x27, 0x28, 0x29, 0x2a, 0x90034, 0x35, 0x36, 0x37,
      0x38, 0x39, 0x3a, 0x43, 0x44, 0x45, 0x46, 0x47, 0xa0048,
      0x49, 0x4a, 0x53, 0x54, 0x55, 0x56, 0x57, 0x58, 0x59,
      0x5a, 0x63, 0xb0064, 0x65, 0x66, 0x67, 0x68, 0x69, 0x6a,
      0x73, 0x74, 0x75, 0x76, 0x77, 0x78, 0x79, 0x7a, 0x83,
      0x84, 0x85, 0x86, 0x87, 0x88, 0x89, 0x8a, 0x92, 0x93,
      0x94, 0x95, 0x96, 0x97, 0x98, 0x99, 0x9a, 0xa2, 0xa3,
      0xa4, 0xa5, 0xa6, 0xa7, 0xa8, 0xa9, 0xaa, 0xb2, 0xb3,
      0xb4, 0xb5, 0xb6, 0xb7, 0xb8, 0xb9, 0xba, 0xc2, 0xc3,
      0xc4, 0xc5, 0xc6, 0xc7, 0xc8, 0xc9, 0xca, 0xd2, 0xd3,
      0xd4, 0xd5, 0xd6, 0xd7, 0xd8, 0xd9, 0xda, 0xe1, 0xe2,
      0xe3, 0xe4, 0xe5, 0xe6, 0xe7, 0xe8, 0xe9, 0xea, 0xf1,
      0xf2, 0xf3, 0xf4, 0xf5, 0xf6, 0xf7, 0xf8, 0xf9, 0xfa]"

definition default_after_chr_DC :: "u32 list" where
  "default_after_chr_DC =
     [0x1, 0x2, 0x3, 0x1000000, 0x2000004, 0x11, 0x3010005, 0x20012, 0x30021,
      0x40031, 0x50041, 0x6, 0x13, 0x51, 0x4060061, 0x7, 0x22, 0x71,
      0x14, 0x32, 0x81, 0x91, 0xa1, 0x8, 0x23, 0x42, 0x50700b1,
      0xc1, 0x15, 0x52, 0xd1, 0xf0, 0x24, 0x33, 0x62, 0x72,
      0x82, 0x9, 0x608000a, 0x16, 0x17, 0x18, 0x19, 0x1a, 0x25,
      0x26, 0x27, 0x28, 0x29, 0x2a, 0x7090034, 0x35, 0x36, 0x37,
      0x38, 0x39, 0x3a, 0x43, 0x44, 0x45, 0x46, 0x47, 0x80a0048,
      0x49, 0x4a, 0x53, 0x54, 0x55, 0x56, 0x57, 0x58, 0x59,
      0x5a, 0x63, 0x90b0064, 0x65, 0x66, 0x67, 0x68, 0x69, 0x6a,
      0x73, 0x74, 0x75, 0x76, 0x77, 0xa000078, 0x79, 0x7a, 0x83,
      0x84, 0x85, 0x86, 0x87, 0x88, 0x89, 0x8a, 0x92, 0xb000093,
      0x94, 0x95, 0x96, 0x97, 0x98, 0x99, 0x9a, 0xa2, 0xa3,
      0xa4, 0xa5, 0xa6, 0xa7, 0xa8, 0xa9, 0xaa, 0xb2, 0xb3,
      0xb4, 0xb5, 0xb6, 0xb7, 0xb8, 0xb9, 0xba, 0xc2, 0xc3,
      0xc4, 0xc5, 0xc6, 0xc7, 0xc8, 0xc9, 0xca, 0xd2, 0xd3,
      0xd4, 0xd5, 0xd6, 0xd7, 0xd8, 0xd9, 0xda, 0xe1, 0xe2,
      0xe3, 0xe4, 0xe5, 0xe6, 0xe7, 0xe8, 0xe9, 0xea, 0xf1,
      0xf2, 0xf3, 0xf4, 0xf5, 0xf6, 0xf7, 0xf8, 0xf9, 0xfa]"

lemma zero_table: "replicate 162 (0 :: u32) =
     [0x0, 0x0, 0x0, 0x0, 0x0, 0x0, 0x0, 0x0, 0x0,
      0x0, 0x0, 0x0, 0x0, 0x0, 0x0, 0x0, 0x0, 0x0,
      0x0, 0x0, 0x0, 0x0, 0x0, 0x0, 0x0, 0x0, 0x0,
      0x0, 0x0, 0x0, 0x0, 0x0, 0x0, 0x0, 0x0, 0x0,
      0x0, 0x0, 0x0, 0x0, 0x0, 0x0, 0x0, 0x0, 0x0,
      0x0, 0x0, 0x0, 0x0, 0x0, 0x0, 0x0, 0x0, 0x0,
      0x0, 0x0, 0x0, 0x0, 0x0, 0x0, 0x0, 0x0, 0x0,
      0x0, 0x0, 0x0, 0x0, 0x0, 0x0, 0x0, 0x0, 0x0,
      0x0, 0x0, 0x0, 0x0, 0x0, 0x0, 0x0, 0x0, 0x0,
      0x0, 0x0, 0x0, 0x0, 0x0, 0x0, 0x0, 0x0, 0x0,
      0x0, 0x0, 0x0, 0x0, 0x0, 0x0, 0x0, 0x0, 0x0,
      0x0, 0x0, 0x0, 0x0, 0x0, 0x0, 0x0, 0x0, 0x0,
      0x0, 0x0, 0x0, 0x0, 0x0, 0x0, 0x0, 0x0, 0x0,
      0x0, 0x0, 0x0, 0x0, 0x0, 0x0, 0x0, 0x0, 0x0,
      0x0, 0x0, 0x0, 0x0, 0x0, 0x0, 0x0, 0x0, 0x0,
      0x0, 0x0, 0x0, 0x0, 0x0, 0x0, 0x0, 0x0, 0x0,
      0x0, 0x0, 0x0, 0x0, 0x0, 0x0, 0x0, 0x0, 0x0,
      0x0, 0x0, 0x0, 0x0, 0x0, 0x0, 0x0, 0x0, 0x0]"
  by (simp add: numeral_eq_Suc)

lemma default_lum_DC:
  "build_hufftab_DC 16 (tl g_DC_offset) (map of_nat (counts jpeg_fw_lum_dc_bits_default))
     (jpeg_fw_lum_dc_huffvalue_default @ rest) (replicate 162 0) = Some default_after_lum_DC"
  by (simp only: default_counts zero_table)
    (simp add: jpeg_fw_lum_dc_huffvalue_default_def g_DC_offset_def build_length_numeral default_after_lum_DC_def)

lemma default_lum_AC: "build_hufftab_AC 0 jpeg_fw_lum_ac_huffvalue_default default_after_lum_DC
   = Some default_after_lum_AC"
  by (simp add: jpeg_fw_lum_ac_huffvalue_default_def build_hufftab_AC_def default_after_lum_DC_def
      default_after_lum_AC_def)

lemma default_chr_DC:
  "build_hufftab_DC 24 (tl g_DC_offset) (map of_nat (counts jpeg_fw_chr_dc_bits_default))
     (jpeg_fw_chr_dc_huffvalue_default @ rest) default_after_lum_AC = Some default_after_chr_DC"
  by (simp only: default_counts)
    (simp add: jpeg_fw_chr_dc_huffvalue_default_def g_DC_offset_def build_length_numeral default_after_lum_AC_def
      default_after_chr_DC_def)

lemma default_chr_AC: "build_hufftab_AC 8 jpeg_fw_chr_ac_huffvalue_default default_after_chr_DC
   = Some jpeg_fw_vld_default_huffTab"
  by (simp add: jpeg_fw_chr_ac_huffvalue_default_def build_hufftab_AC_def default_after_chr_DC_def
      jpeg_fw_vld_default_huffTab_def)

lemma same_huff_values:
  assumes "same_huff t t'" "n \<le> symbols t" "n \<le> length (huffval t)"
  shows "take n (huffval t') = take n (huffval t)"
  using assms by (metis same_huff_def take_take min.absorb1)

lemma put_DC_to:
  assumes "17 \<le> length (hbits (dc_huff_tbl (dcodec (vdec v)) ! i))"
    and "build_hufftab_DC shift (tl g_DC_offset) (map of_nat (counts (hbits (dc_huff_tbl (dcodec (vdec v)) ! i))))
      (huffval (dc_huff_tbl (dcodec (vdec v)) ! i)) (g_huffTab v) = Some tab"
  shows "put_DC i shift v = JOk () (v\<lparr>g_huffTab := tab\<rparr>)"
  using assms by (simp add: put_DC_def Let_def counts_def comp_def)

lemma put_AC_to:
  assumes "162 \<le> length (huffval (ac_huff_tbl (dcodec (vdec v)) ! i))"
    and "build_hufftab_AC shift vals (g_huffTab v) = Some tab"
    and "take 162 (huffval (ac_huff_tbl (dcodec (vdec v)) ! i)) = take 162 vals"
  shows "put_AC i shift v = JOk () (v\<lparr>g_huffTab := tab\<rparr>)"
  using assms by (auto simp: put_AC_def build_hufftab_AC_def split: if_splits)

lemma default_tables_dc:
  assumes "default_tables c" "n < 2"
  shows "17 \<le> length (hbits (dc_huff_tbl c ! n))"
    "counts (hbits (dc_huff_tbl c ! n)) = counts (default_bits False n)"
    "huffval (dc_huff_tbl c ! n) = default_huffval False n @ drop 12 (huffval (dc_huff_tbl c ! n))"
proof -
  let ?t = "dc_huff_tbl c ! n"
  have t: "table_in_memory ?t" "same_huff (default_table False n) ?t"
    using assms by (simp_all add: default_tables_def)
  show len: "17 \<le> length (hbits ?t)" using t(1) by (simp add: table_in_memory_def)
  show "counts (hbits ?t) = counts (default_bits False n)"
    using same_huff_counts [OF t(2) _ len] by (simp add: default_table_def default_bits_def)
  have "take 12 (huffval ?t) = take 12 (default_huffval False n)"
    using same_huff_values [OF t(2), of 12]
    by (simp add: default_table_def default_huffval_def default_bits_def default_symbols split: if_splits)
  then have "take 12 (huffval ?t) = default_huffval False n" by (simp add: default_huffval_def)
  then show "huffval ?t = default_huffval False n @ drop 12 (huffval ?t)"
    by (metis append_take_drop_id)
qed

lemma default_tables_ac:
  assumes "default_tables c" "n < 2"
  shows "counts (hbits (ac_huff_tbl c ! n)) = counts (default_bits True n)"
    "162 \<le> length (huffval (ac_huff_tbl c ! n))"
    "take 162 (huffval (ac_huff_tbl c ! n)) = take 162 (default_huffval True n)"
proof -
  let ?t = "ac_huff_tbl c ! n"
  have t: "table_in_memory ?t" "same_huff (default_table True n) ?t"
    using assms by (simp_all add: default_tables_def)
  show "162 \<le> length (huffval ?t)" using t(1) by (simp add: table_in_memory_def)
  show "counts (hbits ?t) = counts (default_bits True n)"
    using same_huff_counts [OF t(2)] t(1) by (simp add: default_table_def default_bits_def table_in_memory_def)
  show "take 162 (huffval ?t) = take 162 (default_huffval True n)"
    using same_huff_values [OF t(2), of 162]
    by (simp add: default_table_def default_huffval_def default_bits_def default_symbols split: if_splits)
qed

lemma default_build:
  assumes "default_tables (dcodec (vdec v))"
  shows "JPEGFW_build_hufftab_jpegDec v = JOk () (v\<lparr>g_huffTab := jpeg_fw_vld_default_huffTab\<rparr>)"
proof -
  note dc = default_tables_dc [OF assms] and ac = default_tables_ac [OF assms]
  have n: "num_components (dcodec (vdec v)) \<noteq> 1" using assms by (simp add: default_tables_def)
  let ?v = "\<lambda>t. v\<lparr>g_huffTab := t\<rparr>"
  have "put_DC 0 16 (?v (replicate 162 0)) = JOk () (?v default_after_lum_DC)"
    using put_DC_to [of "?v (replicate 162 0)" 0 16] dc [of 0]
      default_lum_DC [of "drop 12 (huffval (dc_huff_tbl (dcodec (vdec v)) ! 0))"]
    by (simp add: default_bits_def default_huffval_def)
  moreover have "put_AC 0 0 (?v default_after_lum_DC) = JOk () (?v default_after_lum_AC)"
    using put_AC_to [of "?v default_after_lum_DC" 0 0 jpeg_fw_lum_ac_huffvalue_default] ac(2,3) [of 0]
      default_lum_AC
    by (simp add: default_huffval_def)
  moreover have "put_DC 1 24 (?v default_after_lum_AC) = JOk () (?v default_after_chr_DC)"
    using put_DC_to [of "?v default_after_lum_AC" 1 24] dc [of 1]
      default_chr_DC [of "drop 12 (huffval (dc_huff_tbl (dcodec (vdec v)) ! 1))"]
    by (simp add: default_bits_def default_huffval_def)
  moreover have "put_AC 1 8 (?v default_after_chr_DC) = JOk () (?v jpeg_fw_vld_default_huffTab)"
    using put_AC_to [of "?v default_after_chr_DC" 1 8 jpeg_fw_chr_ac_huffvalue_default] ac(2,3) [of 1]
      default_chr_AC
    by (simp add: default_huffval_def)
  ultimately show ?thesis
    using n by (simp add: JPEGFW_build_hufftab_jpegDec_def jthen_def jbind_def jget_def jmod_def jret_def)
qed

definition default_writes :: "(nat \<times> u32) list" where
  "default_writes = zip (map (\<lambda>i. 0x84 + 4 * i) [0..<length jpeg_fw_vld_default_max_code])
     jpeg_fw_vld_default_max_code"

lemma configure_default:
  assumes "using_default_huff_tab (dcodec (vdec v))"
  shows "JPEGFW_configure_vld_reg_jpegDec v = JOk ()
    (v\<lparr>vld_writes := vld_writes v @ default_writes, g_huffTab := jpeg_fw_vld_default_huffTab\<rparr>)"
  using assms
  by (simp add: JPEGFW_configure_vld_reg_jpegDec_def write_regs_def jstmt default_writes_def
      jpeg_fw_vld_default_max_code_def)

lemma upt_16: "[0..<16] = [0, 1, 2, 3, 4, 5, 6, 7, 8, 9, 10, 11, 12, 13, 14, 15]"
  by (simp add: numeral_eq_Suc)

lemma configure_default_rows:
  assumes "\<not> using_default_huff_tab (dcodec (vdec v))"
    and "s_active_base_max v = [a # row_of jpeg_fw_lum_dc_bits_default, b # row_of jpeg_fw_lum_ac_bits_default,
      c # row_of jpeg_fw_chr_dc_bits_default, d # row_of jpeg_fw_chr_ac_bits_default]"
  shows "JPEGFW_configure_vld_reg_jpegDec v = JOk () (v\<lparr>vld_writes := vld_writes v @ default_writes\<rparr>)"
  using assms
  by (simp add: JPEGFW_configure_vld_reg_jpegDec_def JPEGFW_configure_validReg_def configure_maxReg_DC_def
      configure_maxReg_AC_def upt_16 collect_valid_bits_def default_rows write_regs_def jstmt default_writes_def
      jpeg_fw_vld_default_max_code_def)

definition with_default :: "bool \<Rightarrow> jvld \<Rightarrow> jvld" where
  "with_default b v = v\<lparr>vdec := (vdec v)\<lparr>dcodec := (dcodec (vdec v))\<lparr>using_default_huff_tab := b\<rparr>\<rparr>\<rparr>"

lemma default_tables_consistent:
  assumes "default_tables c" "n < 2"
  shows "consistent (hbits (dc_huff_tbl c ! n)) \<and> consistent (hbits (ac_huff_tbl c ! n))"
proof -
  have "consistent (default_bits b n)" for b
    using default_consistent by (simp add: default_bits_def)
  then show ?thesis
    using default_tables_dc(2) [OF assms] default_tables_ac(1) [OF assms]
    by (simp add: consistent_def code_lengths_def)
qed

lemma default_new_rows:
  assumes "default_tables c"
  shows "new_rows c = [row_of jpeg_fw_lum_dc_bits_default, row_of jpeg_fw_lum_ac_bits_default,
    row_of jpeg_fw_chr_dc_bits_default, row_of jpeg_fw_chr_ac_bits_default]"
  using default_tables_dc(2) [OF assms, of 0] default_tables_dc(2) [OF assms, of 1]
    default_tables_ac(1) [OF assms, of 0] default_tables_ac(1) [OF assms, of 1]
  by (simp add: new_rows_def row_of_def default_bits_def)

text \<open>C16: the decoder has a shortcut for the default Huffman tables, and it is right.  When the four
  tables in the record are the default ones, the general path, which generates the codes, packs them
  into rows and registers and fills the symbol table, ends with exactly the register writes and the
  symbol table of the path that loads the precomputed words.\<close>

theorem default_tables_agree:
  assumes "default_tables (dcodec (vdec v))" "vld_ready v"
  shows "\<exists>va vb. init_vld (with_default False v) = JOk () va \<and> init_vld (with_default True v) = JOk () vb
    \<and> vld_writes va = vld_writes vb \<and> g_huffTab va = g_huffTab vb"
proof -
  let ?w = "with_default False v"
  have tables: "default_tables (dcodec (vdec ?w))" "vld_ready ?w"
    using assms by (simp_all add: with_default_def default_tables_def vld_ready_def)
  have t: "\<forall>n < 2. table_in_memory (dc_huff_tbl (dcodec (vdec ?w)) ! n) \<and> consistent (hbits (dc_huff_tbl (dcodec (vdec ?w)) ! n))
       \<and> table_in_memory (ac_huff_tbl (dcodec (vdec ?w)) ! n) \<and> consistent (hbits (ac_huff_tbl (dcodec (vdec ?w)) ! n))"
    using tables(1) default_tables_consistent [OF tables(1)] unfolding default_tables_def by blast
  obtain a b c d where rows: "JPEGFW_InitHuffTbl ?w = JOk ()
    (?w\<lparr>vdec := after_fix (after_fix (after_fix (after_fix (vdec ?w)))),
       s_active_base_max := map2 (#) [a, b, c, d] (new_rows (dcodec (vdec ?w)))\<rparr>)" (is "_ = JOk () ?v")
    using InitHuffTbl_rows [OF tables(2) _ t] tables(1) unfolding default_tables_def by blast
  have build: "JPEGFW_build_hufftab_jpegDec ?v = JOk () (?v\<lparr>g_huffTab := jpeg_fw_vld_default_huffTab\<rparr>)"
    by (rule default_build) (use tables(1) in simp)
  have "JPEGFW_configure_vld_reg_jpegDec (?v\<lparr>g_huffTab := jpeg_fw_vld_default_huffTab\<rparr>)
      = JOk () (?v\<lparr>g_huffTab := jpeg_fw_vld_default_huffTab, vld_writes := vld_writes v @ default_writes\<rparr>)"
    using configure_default_rows [of "?v\<lparr>g_huffTab := jpeg_fw_vld_default_huffTab\<rparr>" a b c d]
      default_new_rows [OF tables(1)]
    by (simp add: with_default_def)
  with rows build have "init_vld ?w = JOk ()
      (?v\<lparr>g_huffTab := jpeg_fw_vld_default_huffTab, vld_writes := vld_writes v @ default_writes\<rparr>)"
    by (simp add: init_vld_def jthen_def jbind_def jget_def with_default_def)
  moreover have "init_vld (with_default True v) = JOk () ((with_default True v)
      \<lparr>vld_writes := vld_writes v @ default_writes, g_huffTab := jpeg_fw_vld_default_huffTab\<rparr>)"
    using configure_default [of "with_default True v"]
    by (simp add: init_vld_def jthen_def jbind_def jget_def jret_def with_default_def)
  ultimately show ?thesis by simp
qed

definition sample_vld :: jvld where
  "sample_vld = \<lparr>vdec = (sample_dec [])\<lparr>dcodec := zero_codec\<lparr>num_components := 3,
       dc_huff_tbl := map (\<lambda>n. \<lparr>hbits = default_bits False n, huffval = default_huffval False n @ replicate 245 0\<rparr>) [0, 1],
       ac_huff_tbl := map (\<lambda>n. \<lparr>hbits = default_bits True n, huffval = default_huffval True n @ [0]\<rparr>) [0, 1]\<rparr>\<rparr>,
     s_active_base_max = replicate 4 (replicate 17 0), g_huffTab = replicate 162 0, vld_writes = []\<rparr>"

lemma sample_vld_ready: "default_tables (dcodec (vdec sample_vld))" "vld_ready sample_vld"
  by (simp_all add: default_tables_def vld_ready_def sample_vld_def sample_dec_def zero_codec_def room_def
      table_in_memory_def same_huff_def default_table_def default_bits_def default_huffval_def default_symbols
      default_counts less_2_cases_iff)

theorem default_tables_agree_witness:
  "\<exists>va vb. init_vld (with_default False sample_vld) = JOk () va
     \<and> init_vld (with_default True sample_vld) = JOk () vb \<and> g_huffTab va = g_huffTab vb"
  using default_tables_agree [OF sample_vld_ready] by blast

end
