(* ===== verification/JpegCodes.thy ===== *)
theory JpegCodes
  imports JpegHuffman
begin

text \<open>
  What the Huffman tables of the hardware mean: the generated codes are the canonical prefix code of
  their table, the rows hold the first symbol and the last code of each length, the code words that
  the encoder's hardware uses are those of the tables the encoder announces, and which tables can be
  loaded without leaving the symbol table.
\<close>

subsection \<open>A prefix code\<close>

lemma kraft_take_mono:
  assumes "j < k" "k \<le> length ls"
  shows "kraft (take j ls) + 2 ^ (16 - ls ! j) \<le> kraft (take k ls)"
proof -
  have "take k ls = take j ls @ ls ! j # take (k - Suc j) (drop (Suc j) ls)"
    using assms by (metis (no_types, lifting) Cons_nth_drop_Suc diff_Suc Suc_diff_Suc add_diff_inverse_nat
      le_eq_less_or_eq less_le_trans less_imp_le_nat not_less_iff_gr_or_eq take_Suc_Cons take_add)
  then show ?thesis by simp
qed

lemma kraft_take_le: "kraft (take k ls) \<le> kraft ls"
  by (metis append_take_drop_id kraft_simps(3) le_add1)

text \<open>C24: the code words that the decoder generates are the canonical prefix code of the table.
  For a table whose codes fit into 16 bits there is one word per symbol, no word is longer than its
  length, a word shifted to the top of 16 bits is the room that the words before it take up, and no
  word is the beginning of a later one.\<close>

theorem gen_codes_prefix_free:
  assumes "17 \<le> length bits" "consistent bits"
    and ls_def: "ls = code_lengths bits" and sizes_def: "sizes = huff_sizes bits @ 0 # zs"
  shows "\<exists>cs. gen_codes sizes (ucast (sizes ! 0)) 0 = Some cs \<and> length cs = sum_list (counts bits)
    \<and> (\<forall>k < length cs. unat (cs ! k) < 2 ^ (ls ! k) \<and> unat (cs ! k) * 2 ^ (16 - ls ! k) = kraft (take k ls))
    \<and> (\<forall>k < length cs. \<forall>j < k. drop_bit (ls ! k - ls ! j) (unat (cs ! k)) \<noteq> unat (cs ! j))"
proof -
  obtain cs where cs: "gen_codes sizes (ucast (sizes ! 0)) 0 = Some cs" "length cs = length ls"
    "lefts cs ls = left_codes 0 ls"
    using gen_codes_canonical [OF assms(1,2)] unfolding ls_def sizes_def by blast
  have range: "ls ! k \<le> 16" "j \<le> k \<Longrightarrow> ls ! j \<le> ls ! k" if "k < length ls" for j k
    using code_lengths_range(1,2) [of bits] that unfolding ls_def by (simp_all add: sorted_nth_mono)
  have left: "unat (cs ! k) * 2 ^ (16 - ls ! k) = kraft (take k ls)" if "k < length ls" for k
    using lefts_nth [OF cs(3,2) that] .
  have small: "unat (cs ! k) < 2 ^ (ls ! k)" if k: "k < length ls" for k
  proof (rule code_small)
    have "kraft (take k ls) < kraft ls"
      using kraft_take_mono [of k "length ls" ls] k by simp (metis less_le_trans less_add_same_cancel1
        zero_less_numeral zero_less_power)
    then show "unat (cs ! k) * 2 ^ (16 - ls ! k) < 65536"
      using left [OF k] assms(2) unfolding consistent_def ls_def by linarith
    show "ls ! k \<le> 16" using range [OF k] by simp
  qed
  have "drop_bit (ls ! k - ls ! j) (unat (cs ! k)) \<noteq> unat (cs ! j)" if k: "k < length ls" and j: "j < k" for j k
  proof -
    have le: "ls ! j \<le> ls ! k" "ls ! k \<le> 16" using range [OF k] j by simp_all
    let ?u = "2 ^ (16 - ls ! j) :: nat" and ?v = "2 ^ (16 - ls ! k) :: nat"
    have u: "?u = 2 ^ (ls ! k - ls ! j) * ?v" using le by (simp flip: power_add)
    have "drop_bit (ls ! k - ls ! j) (unat (cs ! k)) = (unat (cs ! k) * ?v) div ?u"
      unfolding u drop_bit_eq_div by simp
    also have "\<dots> = kraft (take k ls) div ?u" using left [OF k] by simp
    also have "\<dots> \<ge> (kraft (take j ls) + ?u) div ?u"
      using kraft_take_mono [OF j, of ls] k by (intro div_le_mono) simp
    moreover have "(kraft (take j ls) + ?u) div ?u = unat (cs ! j) + 1"
      using left [of j] j k by (simp flip: left [of j])
    ultimately show ?thesis by simp
  qed
  with cs left small show ?thesis
    by (intro exI [of _ cs]) (simp add: ls_def code_lengths_range(3))
qed

theorem gen_codes_prefix_free_witness:
  "\<exists>cs. gen_codes (huff_sizes jpeg_fw_lum_dc_bits_default @ [0])
      (ucast ((huff_sizes jpeg_fw_lum_dc_bits_default @ [0]) ! 0)) 0 = Some cs \<and> length cs = 12
    \<and> drop_bit (code_lengths jpeg_fw_lum_dc_bits_default ! 6 - code_lengths jpeg_fw_lum_dc_bits_default ! 0)
        (unat (cs ! 6)) \<noteq> unat (cs ! 0)"
  using gen_codes_prefix_free [OF _ default_consistent(1) refl refl, of "[]"] by (auto simp: default_counts)

subsection \<open>The rows\<close>

lemma bit_imp_lt: "unat x < 2 ^ k \<Longrightarrow> bit x n \<Longrightarrow> n < k"
proof -
  assume x: "unat x < 2 ^ k" and b: "bit x n"
  from b have "bit (unat x) n" by (simp add: bit_unsigned_iff)
  then have "bit (take_bit k (unat x)) n" using x by (simp add: take_bit_nat_eq_self)
  then show "n < k" by (simp add: bit_take_bit_iff)
qed

lemma row_word:
  fixes base :: u8 and m :: u16
  defines "w \<equiv> push_bit 31 1 OR push_bit 16 (ucast base) OR ucast m :: u32"
  shows "bit w 31" "drop_bit 16 w AND 0xFF = ucast base" "w AND 0xFFFF = ucast m"
proof -
  have bits: "bit w n \<longleftrightarrow> n = 31 \<or> (16 \<le> n \<and> n < 24 \<and> bit base (n - 16)) \<or> (n < 16 \<and> bit m n)" for n
    unfolding w_def bit_or_iff bit_push_bit_iff bit_1_iff unsigned_ucast_eq
    by (auto simp: bit_ucast_iff dest: bit_imp_le_length)
  show "bit w 31" by (simp add: bits)
  have "drop_bit 16 w AND mask 8 = ucast base"
    by (rule bit_eqI) (auto simp: bits bit_drop_bit_eq bit_and_iff bit_mask_iff bit_ucast_iff
        dest: bit_imp_le_length)
  then show "drop_bit 16 w AND 0xFF = ucast base" by (simp add: mask_eq_exp_minus_1)
  have "w AND mask 16 = ucast m"
    by (rule bit_eqI) (auto simp: bits bit_and_iff bit_mask_iff bit_ucast_iff dest: bit_imp_le_length)
  then show "w AND 0xFFFF = ucast m" by (simp add: mask_eq_exp_minus_1)
qed

lemma length_length_tbl [simp]: "length (length_tbl p a l bs) = length bs"
  by (induction bs arbitrary: p a l) simp_all

lemma length_active_words [simp]: "length (active_words prev ds) = length ds"
  by (induction ds arbitrary: prev) (simp_all add: Let_def)

lemma length_tbl_nth:
  "i < length bs \<Longrightarrow> length_tbl p a l bs ! i =
     (if bs ! i = 0 then None
      else Some (p + sum_list (take i bs), (a + kraft (lengths_from l (take i bs)) + (bs ! i - 1) * 2 ^ (16 - (l + i)))
             div 2 ^ (16 - (l + i))))"
proof (induction bs arbitrary: p a l i)
  case (Cons b bs)
  then show ?case by (cases i) (simp_all add: add.assoc)
qed simp

lemma active_words_Some:
  assumes "i < length ds" "ds ! i = Some (base, m)"
  shows "active_words prev ds ! i = push_bit 31 1 OR push_bit 16 (ucast base) OR ucast m"
  using assms
proof (induction ds arbitrary: prev i)
  case (Cons d ds)
  then show ?case by (cases i) (simp_all add: Let_def active_word_def)
qed simp

lemma active_words_None:
  assumes "i < length ds" "ds ! i = None"
  shows "\<not> bit (active_words prev ds ! i) 31"
  using assms
proof (induction ds arbitrary: prev i)
  case (Cons d ds)
  have small: "\<not> bit x 31" if "unat x < 2 ^ 31" for x :: u32
    using that bit_imp_lt [of x 31 31] by auto
  have "unat ((w AND 0xFFFF) * 2 :: u32) < 2 ^ 31" for w :: u32
  proof -
    have "unat (w AND 0xFFFF) \<le> 0xFFFF" using word_and_le1 [of w "0xFFFF"] by (simp add: word_le_nat_alt)
    then show ?thesis by (simp add: unat_word_ariths)
  qed
  moreover have "unat ((ucast m + 1) * 2 :: u32) < 2 ^ 31" for m :: u16
  proof -
    have "unat (ucast m :: u32) = unat m"
      by (simp add: unsigned_ucast_eq take_bit_nat_eq_self less_trans [OF unat_u16_less])
    then have "unat ((ucast m + 1) * 2 :: u32) = ((unat m + 1) mod 2 ^ 32 * 2) mod 2 ^ 32"
      by (simp only: unat_word_ariths) simp
    also have "\<dots> \<le> (unat m + 1) * 2"
      by (meson le_trans mod_less_eq_dividend mult_le_mono1)
    also have "\<dots> \<le> 65536 * 2" by (intro mult_le_mono1) (simp add: Suc_le_eq)
    also have "\<dots> < (2 :: nat) ^ 31" by simp
    finally show ?thesis .
  qed
  ultimately have "\<not> bit (active_word prev None) 31"
    by (auto simp: active_word_def intro!: small split: option.splits)
  with Cons show ?case by (cases i) (simp_all add: Let_def)
qed simp

lemma lengths_from_split:
  "i < length bs \<Longrightarrow> lengths_from l bs
     = lengths_from l (take i bs) @ replicate (bs ! i) (l + i) @ lengths_from (l + i + 1) (drop (i + 1) bs)"
proof (induction bs arbitrary: l i)
  case (Cons b bs)
  then show ?case by (cases i) simp_all
qed simp

text \<open>The last code of a length, in the list of codes and in the table.\<close>

lemma last_code:
  assumes i: "i < 16" and n: "counts bits ! i = Suc n" and len: "17 \<le> length bits"
    and cs: "lefts cs (code_lengths bits) = left_codes 0 (code_lengths bits)" "length cs = length (code_lengths bits)"
  defines "first \<equiv> sum_list (take i (counts bits))"
  shows "first + n < length cs"
    and "unat (cs ! (first + n)) = (kraft (lengths_from 1 (take i (counts bits))) + n * 2 ^ (16 - (1 + i))) div 2 ^ (16 - (1 + i))"
proof -
  have i': "i < length (counts bits)" using i len by (simp add: counts_def length_chunk)
  have split: "code_lengths bits = lengths_from 1 (take i (counts bits)) @ replicate (Suc n) (1 + i)
      @ lengths_from (1 + i + 1) (drop (i + 1) (counts bits))"
    unfolding code_lengths_def by (subst lengths_from_split [OF i']) (simp add: n)
  have first: "length (lengths_from 1 (take i (counts bits))) = first"
    by (simp add: lengths_from_range(3) first_def)
  show less: "first + n < length cs" unfolding cs(2) split using first by simp
  have "code_lengths bits ! (first + n) = 1 + i"
    "take (first + n) (code_lengths bits) = lengths_from 1 (take i (counts bits)) @ replicate n (1 + i)"
    unfolding split using first by (simp_all add: nth_append del: replicate_Suc)
  with lefts_nth [OF cs, of "first + n"] less cs(2)
  have "unat (cs ! (first + n)) * 2 ^ (16 - (1 + i)) = kraft (lengths_from 1 (take i (counts bits))) + n * 2 ^ (16 - (1 + i))"
    by simp
  then show "unat (cs ! (first + n)) = (kraft (lengths_from 1 (take i (counts bits))) + n * 2 ^ (16 - (1 + i))) div 2 ^ (16 - (1 + i))"
    by (metis nonzero_mult_div_cancel_right power_not_zero zero_neq_numeral)
qed

lemma row_entry:
  assumes i: "i < 16" and len: "17 \<le> length bits" "length cs \<le> 256"
    and cs: "lefts cs (code_lengths bits) = left_codes 0 (code_lengths bits)" "length cs = length (code_lengths bits)"
  defines "first \<equiv> sum_list (take i (counts bits))" and "w \<equiv> row_of bits ! i"
  shows "if counts bits ! i = 0 then \<not> bit w 31
    else bit w 31 \<and> unat (drop_bit 16 w AND 0xFF) = first
      \<and> unat (w AND 0xFFFF) = unat (cs ! (first + counts bits ! i - 1))"
proof -
  have i': "i < length (counts bits)" using i len by (simp add: counts_def length_chunk)
  let ?ds = "word_entries (length_tbl 0 0 1 (counts bits))"
  show ?thesis
  proof (cases "counts bits ! i")
    case 0
    then have "?ds ! i = None" using i' by (simp add: length_tbl_nth)
    then have "\<not> bit w 31" unfolding w_def row_of_def using i' by (intro active_words_None) simp_all
    with 0 show ?thesis by simp
  next
    case (Suc n)
    note last = last_code [OF i Suc len(1) cs, folded first_def]
    have "cs ! (first + n) = of_nat ((kraft (lengths_from 1 (take i (counts bits))) + n * 2 ^ (16 - (1 + i)))
        div 2 ^ (16 - (1 + i)))" (is "_ = of_nat ?last")
      using last(2) by (metis word_nat_cast)
    moreover have "length_tbl 0 0 1 (counts bits) ! i = Some (first, ?last)"
      using i' Suc by (simp add: length_tbl_nth first_def)
    ultimately have "?ds ! i = Some (of_nat first, cs ! (first + n))"
      using i' by (simp only: nth_map length_length_tbl) simp
    then have "w = push_bit 31 1 OR push_bit 16 (ucast (of_nat first :: u8)) OR ucast (cs ! (first + n))"
      unfolding w_def row_of_def using i' by (intro active_words_Some) simp_all
    note row_word [of "of_nat first" "cs ! (first + n)", folded this]
    moreover have "unat (ucast (of_nat first :: u8) :: u32) = first"
      using last(1) len(2) by (simp add: unsigned_ucast_eq unsigned_of_nat take_bit_nat_eq_self)
    moreover have "unat (ucast (cs ! (first + n)) :: u32) = unat (cs ! (first + n))"
      by (simp add: unsigned_ucast_eq take_bit_nat_eq_self less_trans [OF unat_u16_less])
    ultimately show ?thesis using Suc by (simp del: mask_eq_decr_exp)
  qed
qed

text \<open>The row that the hardware reads describes the codes.  For a table in memory whose codes fit,
  \<^term>\<open>JPEGFW_FixHuffTbl\<close> ends, and its row has for each length with codes a valid bit, the number of
  shorter codes, which is the index of the length's first symbol, and the last code word of the length; for a length
  without codes the valid bit is clear.\<close>

theorem FixHuffTbl_entries:
  assumes "table_in_memory t" "consistent (hbits t)" "864 \<le> room d" "row \<noteq> []"
  shows "\<exists>row' d' cs. JPEGFW_FixHuffTbl t row d = JOk row' d' \<and> length row' = 17 \<and> room d' = room d - 864
    \<and> gen_codes (huff_sizes (hbits t) @ [0]) (ucast ((huff_sizes (hbits t) @ [0]) ! 0)) 0 = Some cs
    \<and> (\<forall>l \<in> {1..16}. let n = unat (hbits t ! l); first = sum_list (take (l - 1) (counts (hbits t)))
        in if n = 0 then \<not> bit (row' ! l) 31
           else bit (row' ! l) 31 \<and> unat (drop_bit 16 (row' ! l) AND 0xFF) = first
             \<and> unat (row' ! l AND 0xFFFF) = unat (cs ! (first + n - 1)))"
proof -
  let ?bits = "hbits t" and ?row = "take 1 row @ row_of (hbits t)"
  have mem: "17 \<le> length ?bits" "length ?bits = 17" "sum_list (counts ?bits) \<le> 256"
    using assms(1) by (simp_all add: table_in_memory_def)
  obtain cs where cs: "gen_codes (huff_sizes ?bits @ [0]) (ucast ((huff_sizes ?bits @ [0]) ! 0)) 0 = Some cs"
    "length cs = length (code_lengths ?bits)" "lefts cs (code_lengths ?bits) = left_codes 0 (code_lengths ?bits)"
    using gen_codes_canonical [OF mem(1) assms(2), of "[]"] by blast
  have row: "length ?row = 17" "\<And>l. 1 \<le> l \<Longrightarrow> ?row ! l = row_of ?bits ! (l - 1)"
    using assms(4) mem(2) by (cases row; simp add: row_of_def counts_def length_chunk nth_append)+
  have "length cs \<le> 256" using cs(2) mem(3) by (simp add: code_lengths_range(3))
  note entry = row_entry [OF _ mem(1) this cs(3,2)]
  have count: "counts ?bits ! (l - 1) = unat (?bits ! l)" if "l \<in> {1..16}" for l
    using that mem(1) by (auto simp: counts_def chunk_nth [unfolded One_nat_def])
  show ?thesis
  proof (intro exI conjI ballI, rule FixHuffTbl_row [OF assms(1-3)])
    fix l :: nat assume l: "l \<in> {1..16}"
    then have less: "l - 1 < 16" by auto
    show "let n = unat (?bits ! l); first = sum_list (take (l - 1) (counts ?bits))
        in if n = 0 then \<not> bit (?row ! l) 31
           else bit (?row ! l) 31 \<and> unat (drop_bit 16 (?row ! l) AND 0xFF) = first
             \<and> unat (?row ! l AND 0xFFFF) = unat (cs ! (first + n - 1))"
      using entry [OF less] l by (simp only: Let_def count [OF l] row(2) atLeastAtMost_iff)
  qed (use row(1) cs(1) assms(3) in simp_all)
qed

theorem FixHuffTbl_entries_witness:
  "\<exists>row' d' cs. JPEGFW_FixHuffTbl (dc_huff_tbl (dcodec (vdec sample_vld)) ! 0) [0] (vdec sample_vld) = JOk row' d'
    \<and> length row' = 17 \<and> bit (row' ! 3) 31 \<and> unat (drop_bit 16 (row' ! 3) AND 0xFF) = 1 \<and> \<not> bit (row' ! 1) 31"
proof -
  let ?t = "dc_huff_tbl (dcodec (vdec sample_vld)) ! 0"
  have t: "table_in_memory ?t" "hbits ?t = jpeg_fw_lum_dc_bits_default"
    by (simp_all add: sample_vld_def table_in_memory_def default_bits_def default_huffval_def default_counts)
  have c: "consistent (hbits ?t)" "864 \<le> room (vdec sample_vld)"
    using default_consistent sample_vld_ready by (simp_all add: t(2) vld_ready_def)
  have "[0] \<noteq> ([] :: u32 list)" by simp
  from FixHuffTbl_entries [OF t(1) c this] obtain row' d' cs where r: "JPEGFW_FixHuffTbl ?t [0] (vdec sample_vld) = JOk row' d'" "length row' = 17"
    "\<forall>l \<in> {1..16}. let n = unat (hbits ?t ! l); first = sum_list (take (l - 1) (counts (hbits ?t)))
        in if n = 0 then \<not> bit (row' ! l) 31
           else bit (row' ! l) 31 \<and> unat (drop_bit 16 (row' ! l) AND 0xFF) = first
             \<and> unat (row' ! l AND 0xFFFF) = unat ((cs :: u16 list) ! (first + n - 1))"
    by blast
  from r(3) [THEN bspec, of 3] r(3) [THEN bspec, of 1] r(1,2) show ?thesis
    by (simp add: t(2) counts_def chunk_def jpeg_fw_lum_dc_bits_default_def Let_def)
qed

subsection \<open>The code words of the encoder\<close>

text \<open>The table of the encoder's hardware has an entry for each run of zeros and size of a
  coefficient, luma below chroma, each code word at the top of its 16 bits.\<close>

definition enc_entry :: "nat \<Rightarrow> u32" where
  "enc_entry symbol = g_huff_tab_enc ! (10 * (symbol div 16) + symbol mod 16 - 1)"

definition enc_code :: "bool \<Rightarrow> nat \<Rightarrow> nat" where
  "enc_code chroma symbol =
     (if chroma then unat (drop_bit 16 (enc_entry symbol)) else unat (enc_entry symbol AND 0xFFFF))"

definition codes_agree :: "bool \<Rightarrow> nat list \<Rightarrow> nat list \<Rightarrow> bool" where
  "codes_agree chroma vals places \<longleftrightarrow>
     list_all (\<lambda>(s, a). s mod 16 \<noteq> 0 \<longrightarrow> enc_code chroma s = a) (zip vals places)"

lemma replicate_steps: "replicate (numeral n) x = x # replicate (pred_numeral n) x"
  by (simp add: numeral_eq_Suc)

lemma lum_codes_agree:
  "codes_agree False (map unat (take 162 jpeg_fw_lum_ac_huffvalue_default))
     (left_codes 0 (code_lengths jpeg_fw_lum_ac_bits_default))"
  unfolding code_lengths_def default_counts
  by (simp add: codes_agree_def jpeg_fw_lum_ac_huffvalue_default_def replicate_steps enc_code_def
      enc_entry_def g_huff_tab_enc_def)

lemma chr_codes_agree:
  "codes_agree True (map unat (take 162 jpeg_fw_chr_ac_huffvalue_default))
     (left_codes 0 (code_lengths jpeg_fw_chr_ac_bits_default))"
  unfolding code_lengths_def default_counts
  by (simp add: codes_agree_def jpeg_fw_chr_ac_huffvalue_default_def replicate_steps enc_code_def
      enc_entry_def g_huff_tab_enc_def)

lemma codes_agree_nth:
  assumes "codes_agree chroma (map unat vals) (left_codes 0 ls)" "lefts cs ls = left_codes 0 ls"
    "length cs = length ls" "length vals = length ls" "k < length ls" "unat (vals ! k) mod 16 \<noteq> 0"
  shows "enc_code chroma (unat (vals ! k)) = unat (cs ! k) * 2 ^ (16 - ls ! k)"
proof -
  have "lefts cs ls ! k = unat (cs ! k) * 2 ^ (16 - ls ! k)" using assms(3,5) by (simp add: lefts_def)
  then show ?thesis using assms by (auto simp: codes_agree_def list_all_length)
qed

text \<open>The encoder codes coefficients by the tables it announces.  The word that
  \<^verbatim>\<open>g_huff_tab_enc\<close> holds for a run and a size, for luma and for chroma, is the code word that the
  generation of codes gives that symbol of the AC table in the header, for all symbols but the end
  of block and the run of sixteen, which have no size.\<close>

theorem encoder_codes_match_header:
  fixes chroma :: bool
  defines "n \<equiv> if chroma then 1 else 0"
  shows "\<exists>cs. gen_codes (huff_sizes (default_bits True n) @ [0]) (ucast ((huff_sizes (default_bits True n) @ [0]) ! 0)) 0
      = Some cs \<and> length cs = 162
    \<and> (\<forall>k < 162. let s = unat (default_huffval True n ! k) in
         s mod 16 \<noteq> 0 \<longrightarrow> enc_code chroma s = unat (cs ! k) * 2 ^ (16 - code_lengths (default_bits True n) ! k))"
proof -
  let ?bits = "default_bits True n"
  have bits: "17 \<le> length ?bits" "consistent ?bits" "length (code_lengths ?bits) = 162"
    using default_consistent by (auto simp: n_def default_bits_def code_lengths_range(3) default_counts)
  obtain cs where cs: "gen_codes (huff_sizes ?bits @ [0]) (ucast ((huff_sizes ?bits @ [0]) ! 0)) 0 = Some cs"
    "length cs = 162" "lefts cs (code_lengths ?bits) = left_codes 0 (code_lengths ?bits)"
    using gen_codes_canonical [OF bits(1,2), of "[]"] bits(3) by auto
  have agree: "codes_agree chroma (map unat (take 162 (default_huffval True n))) (left_codes 0 (code_lengths ?bits))"
    using lum_codes_agree chr_codes_agree by (simp add: n_def default_huffval_def default_bits_def)
  have "enc_code chroma (unat (default_huffval True n ! k)) = unat (cs ! k) * 2 ^ (16 - code_lengths ?bits ! k)"
    if "k < 162" "unat (default_huffval True n ! k) mod 16 \<noteq> 0" for k
    using codes_agree_nth [OF agree cs(3), of k] cs(2) bits(3) that
    by (simp add: default_huffval_def n_def)
  with cs(1,2) show ?thesis by (auto simp: Let_def)
qed

theorem encoder_codes_match_header_witness:
  "\<exists>cs. gen_codes (huff_sizes jpeg_fw_chr_ac_bits_default @ [0])
      (ucast ((huff_sizes jpeg_fw_chr_ac_bits_default @ [0]) ! 0)) 0 = Some cs
    \<and> enc_code True 1 = unat (cs ! 1) * 2 ^ (16 - code_lengths jpeg_fw_chr_ac_bits_default ! 1)"
proof -
  have "unat (default_huffval True 1 ! 1) = 1"
    by (simp add: default_huffval_def jpeg_fw_chr_ac_huffvalue_default_def)
  moreover obtain cs where "gen_codes (huff_sizes (default_bits True 1) @ [0])
      (ucast ((huff_sizes (default_bits True 1) @ [0]) ! 0)) 0 = Some cs"
    "\<forall>k < 162. let s = unat (default_huffval True 1 ! k) in
         s mod 16 \<noteq> 0 \<longrightarrow> enc_code True s = unat (cs ! k) * 2 ^ (16 - code_lengths (default_bits True 1) ! k)"
    using encoder_codes_match_header [where chroma = True] by auto
  moreover from this(2) have "let s = unat (default_huffval True 1 ! 1) in
         s mod 16 \<noteq> 0 \<longrightarrow> enc_code True s = unat (cs ! 1) * 2 ^ (16 - code_lengths (default_bits True 1) ! 1)"
    by simp
  ultimately show ?thesis by (auto simp: Let_def default_bits_def)
qed

subsection \<open>The symbol table\<close>

lemma build_length_ok:
  "a + n \<le> length tab \<Longrightarrow> n \<le> length vals \<Longrightarrow>
     \<exists>tab'. build_length shift a n vals tab = Some (drop n vals, tab') \<and> length tab' = length tab"
proof (induction n arbitrary: a vals tab)
  case (Suc n)
  then obtain v vs where vals: "vals = v # vs" by (cases vals) auto
  obtain tab' where "build_length shift (a + 1) n vs (tab[a := push_bit shift (ucast v) OR tab ! a])
      = Some (drop n vs, tab')" "length tab' = length tab"
    using Suc.IH [of "a + 1" "tab[a := push_bit shift (ucast v) OR tab ! a]" vs] Suc.prems by (auto simp: vals)
  with Suc.prems(1) show ?case by (simp add: vals)
qed simp

lemma build_length_overrun:
  "length tab < a + n \<Longrightarrow> 0 < n \<Longrightarrow> build_length shift a n vals tab = None"
proof (induction n arbitrary: a vals tab)
  case (Suc n)
  then show ?case by (cases vals; cases n) simp_all
qed simp

lemma length_build_length:
  "build_length shift a n vals tab = Some (vals', tab') \<Longrightarrow> length tab' = length tab"
  by (induction shift a n vals tab rule: build_length.induct) (auto split: if_splits)

text \<open>The symbols of each length fit behind the place of the length.\<close>

definition dc_fits :: "bytes \<Rightarrow> bool" where
  "dc_fits bits \<longleftrightarrow> list_all2 (\<lambda>a b. a + b \<le> 162) (tl g_DC_offset) (counts bits)"

lemma build_DC_ok:
  "list_all2 (\<lambda>a b. a + b \<le> length tab) as (map unat bs) \<Longrightarrow> sum_list (map unat bs) \<le> length vals \<Longrightarrow>
     \<exists>tab'. build_hufftab_DC shift as bs vals tab = Some tab' \<and> length tab' = length tab"
proof (induction shift as bs vals tab rule: build_hufftab_DC.induct)
  case (1 shift a as b bs vals tab)
  obtain tab' where t: "build_length shift a (unat b) vals tab = Some (drop (unat b) vals, tab')" "length tab' = length tab"
    using build_length_ok [of a "unat b" tab vals shift] 1(2,3) by auto
  from 1(1) [OF t(1) refl] 1(2,3) t(2) show ?case by (auto simp: t(1))
qed auto

lemma put_DC_ok:
  assumes "table_in_memory (dc_huff_tbl (dcodec (vdec v)) ! i)" "dc_fits (hbits (dc_huff_tbl (dcodec (vdec v)) ! i))"
    and "length (g_huffTab v) = 162"
  shows "\<exists>tab. put_DC i shift v = JOk () (v\<lparr>g_huffTab := tab\<rparr>) \<and> length tab = 162"
  using build_DC_ok [of "g_huffTab v" "tl g_DC_offset" "chunk 1 16 (hbits (dc_huff_tbl (dcodec (vdec v)) ! i))"
      "huffval (dc_huff_tbl (dcodec (vdec v)) ! i)" shift] assms
  by (auto simp: put_DC_def Let_def table_in_memory_def dc_fits_def counts_def)

lemma put_AC_ok:
  assumes "table_in_memory (ac_huff_tbl (dcodec (vdec v)) ! i)" "length (g_huffTab v) = 162"
  shows "\<exists>tab. put_AC i shift v = JOk () (v\<lparr>g_huffTab := tab\<rparr>) \<and> length tab = 162"
  using assms by (auto simp: put_AC_def build_hufftab_AC_def table_in_memory_def)

text \<open>The tables of a component can be loaded.\<close>

definition loadable :: "jpeg_codec \<Rightarrow> nat \<Rightarrow> bool" where
  "loadable c n \<longleftrightarrow> table_in_memory (dc_huff_tbl c ! n) \<and> consistent (hbits (dc_huff_tbl c ! n))
     \<and> dc_fits (hbits (dc_huff_tbl c ! n))
     \<and> table_in_memory (ac_huff_tbl c ! n) \<and> consistent (hbits (ac_huff_tbl c ! n))"

lemma InitHuffTbl_ok:
  assumes "vld_ready v" "loadable (dcodec (vdec v)) 0"
    and "num_components (dcodec (vdec v)) \<noteq> 1 \<Longrightarrow> loadable (dcodec (vdec v)) 1"
  shows "\<exists>d m. JPEGFW_InitHuffTbl v = JOk () (v\<lparr>vdec := d, s_active_base_max := m\<rparr>) \<and> dcodec d = dcodec (vdec v)"
proof (cases "num_components (dcodec (vdec v)) = 1")
  case True
  have room: "3456 \<le> room (vdec v)" using assms(1) by (simp add: vld_ready_def)
  have t: "table_in_memory (dc_huff_tbl (dcodec (vdec v)) ! 0)" "consistent (hbits (dc_huff_tbl (dcodec (vdec v)) ! 0))"
    "table_in_memory (ac_huff_tbl (dcodec (vdec v)) ! 0)" "consistent (hbits (ac_huff_tbl (dcodec (vdec v)) ! 0))"
    using assms(2) by (simp_all add: loadable_def)
  show ?thesis
    unfolding JPEGFW_InitHuffTbl_def jseq.simps
    using True room by (simp add: jthen_def jbind_def jget_def jret_def fix_row_to t)
      (metis after_fix_fields(1))
next
  case False
  have "\<forall>n < 2. table_in_memory (dc_huff_tbl (dcodec (vdec v)) ! n) \<and> consistent (hbits (dc_huff_tbl (dcodec (vdec v)) ! n))
       \<and> table_in_memory (ac_huff_tbl (dcodec (vdec v)) ! n) \<and> consistent (hbits (ac_huff_tbl (dcodec (vdec v)) ! n))"
    using assms(2) assms(3) [OF False] by (auto simp: loadable_def less_2_cases_iff)
  from InitHuffTbl_rows [OF assms(1) False this] show ?thesis by auto
qed

lemma build_hufftab_ok:
  assumes "loadable (dcodec (vdec v)) 0"
    and "num_components (dcodec (vdec v)) \<noteq> 1 \<Longrightarrow> loadable (dcodec (vdec v)) 1"
  shows "\<exists>tab. JPEGFW_build_hufftab_jpegDec v = JOk () (v\<lparr>g_huffTab := tab\<rparr>) \<and> length tab = 162"
proof -
  have dc: "\<exists>tab'. put_DC i shift (v\<lparr>g_huffTab := tab\<rparr>) = JOk () (v\<lparr>g_huffTab := tab'\<rparr>) \<and> length tab' = 162"
    and ac: "\<exists>tab'. put_AC i shift (v\<lparr>g_huffTab := tab\<rparr>) = JOk () (v\<lparr>g_huffTab := tab'\<rparr>) \<and> length tab' = 162"
    if "loadable (dcodec (vdec v)) i" "length tab = 162" for i shift tab
    using put_DC_ok [of "v\<lparr>g_huffTab := tab\<rparr>" i shift] put_AC_ok [of "v\<lparr>g_huffTab := tab\<rparr>" i shift] that
    by (simp_all add: loadable_def)
  obtain ta where a: "put_DC 0 16 (v\<lparr>g_huffTab := replicate 162 0\<rparr>) = JOk () (v\<lparr>g_huffTab := ta\<rparr>)" "length ta = 162"
    using dc [OF assms(1), of "replicate 162 0"] by auto
  obtain tb where b: "put_AC 0 0 (v\<lparr>g_huffTab := ta\<rparr>) = JOk () (v\<lparr>g_huffTab := tb\<rparr>)" "length tb = 162"
    using ac [OF assms(1) a(2)] by blast
  have "\<exists>tab. (if num_components (dcodec (vdec v)) \<noteq> 1 then jseq [put_DC 1 24, put_AC 1 8] else jret ())
      (v\<lparr>g_huffTab := tb\<rparr>) = JOk () (v\<lparr>g_huffTab := tab\<rparr>) \<and> length tab = 162"
  proof (cases "num_components (dcodec (vdec v)) = 1")
    case True
    with b(2) show ?thesis by (auto simp: jret_def)
  next
    case False
    obtain tc where c: "put_DC 1 24 (v\<lparr>g_huffTab := tb\<rparr>) = JOk () (v\<lparr>g_huffTab := tc\<rparr>)" "length tc = 162"
      using dc [OF assms(2) [OF False] b(2)] by blast
    obtain te where "put_AC 1 8 (v\<lparr>g_huffTab := tc\<rparr>) = JOk () (v\<lparr>g_huffTab := te\<rparr>)" "length te = 162"
      using ac [OF assms(2) [OF False] c(2)] by blast
    with False c show ?thesis by (auto simp: jthen_def jbind_def jret_def intro!: exI [of _ te])
  qed
  with a b show ?thesis
    by (auto simp: JPEGFW_build_hufftab_jpegDec_def jthen_def jbind_def jget_def jmod_def jret_def)
qed

lemma configure_ok:
  "\<exists>v'. JPEGFW_configure_vld_reg_jpegDec v = JOk () v' \<and> length (g_huffTab v') = (if using_default_huff_tab
     (dcodec (vdec v)) then 162 else length (g_huffTab v))"
  by (simp add: JPEGFW_configure_vld_reg_jpegDec_def JPEGFW_configure_validReg_def configure_maxReg_DC_def
      configure_maxReg_AC_def write_regs_def jstmt Let_def jpeg_fw_vld_default_huffTab_def)

text \<open>Tables that fit are loaded without leaving an object.  With the arena's room for the
  blocks, tables whose codes are consistent and DC tables whose symbols stay inside the table of 162 words, the
  initialization of the variable length decoder ends normally, for one component as for several.\<close>

theorem init_vld_safe:
  assumes "vld_ready v" "\<not> using_default_huff_tab (dcodec (vdec v))" "loadable (dcodec (vdec v)) 0"
    and "num_components (dcodec (vdec v)) = 1 \<or> loadable (dcodec (vdec v)) 1"
  shows "\<exists>v'. init_vld v = JOk () v' \<and> length (g_huffTab v') = 162"
proof -
  have second: "num_components (dcodec (vdec v)) \<noteq> 1 \<Longrightarrow> loadable (dcodec (vdec v)) 1" using assms(4) by blast
  obtain d m where i: "JPEGFW_InitHuffTbl v = JOk () (v\<lparr>vdec := d, s_active_base_max := m\<rparr>)" (is "_ = JOk () ?v")
    and d: "dcodec d = dcodec (vdec v)"
    using InitHuffTbl_ok [OF assms(1,3) second] by blast
  obtain tab where b: "JPEGFW_build_hufftab_jpegDec ?v = JOk () (?v\<lparr>g_huffTab := tab\<rparr>)" "length tab = 162"
    using build_hufftab_ok [of ?v] assms(3) second d by auto
  obtain v' where "JPEGFW_configure_vld_reg_jpegDec (?v\<lparr>g_huffTab := tab\<rparr>) = JOk () v'" "length (g_huffTab v') = 162"
    using configure_ok [of "?v\<lparr>g_huffTab := tab\<rparr>"] assms(2) d b(2) by auto
  with i b(1) assms(2) show ?thesis by (simp add: init_vld_def jthen_def jbind_def jget_def)
qed

lemma sample_loadable: "n < 2 \<Longrightarrow> loadable (dcodec (vdec sample_vld)) n"
  using sample_vld_ready(1) default_tables_consistent [OF sample_vld_ready(1)]
    default_tables_dc(2) [OF sample_vld_ready(1), of n]
  by (auto simp: loadable_def default_tables_def dc_fits_def default_bits_def default_counts g_DC_offset_def)

theorem init_vld_safe_witness:
  "\<exists>v'. init_vld (with_default False sample_vld) = JOk () v' \<and> length (g_huffTab v') = 162"
proof (rule init_vld_safe)
  show "vld_ready (with_default False sample_vld)"
    using sample_vld_ready by (simp add: with_default_def vld_ready_def)
qed (use sample_loadable [of 0] sample_loadable [of 1] in \<open>simp_all add: with_default_def loadable_def\<close>)

text \<open>A DC table with more than four codes of sixteen bits makes the decoder write behind its
  symbol table: its place for those symbols starts at word 158 of 162, and nothing checks their number.\<close>

theorem DC_table_overruns:
  assumes "table_in_memory (dc_huff_tbl (dcodec (vdec v)) ! 0)" "length (hbits (dc_huff_tbl (dcodec (vdec v)) ! 0)) = 17"
    and "4 < unat (hbits (dc_huff_tbl (dcodec (vdec v)) ! 0) ! 16)"
  shows "JPEGFW_build_hufftab_jpegDec v = JFault"
proof -
  let ?t = "dc_huff_tbl (dcodec (vdec v)) ! 0"
  have overrun: "build_hufftab_DC 16 as bs vals tab = None"
    if "length as = length bs" "as \<noteq> []" "last as = 158" "4 < unat (last bs)" "length tab = 162" for as bs vals tab
    using that
  proof (induction "16 :: nat" as bs vals tab rule: build_hufftab_DC.induct)
    case (1 a as b bs vals tab)
    show ?case
    proof (cases "as = []")
      case True
      with 1(2-6) have "build_length 16 a (unat b) vals tab = None" by (intro build_length_overrun) auto
      then show ?thesis by simp
    next
      case False
      moreover from False 1(2) have "bs \<noteq> []" by auto
      ultimately show ?thesis
        using 1(1) [OF _ refl] 1(2-6) length_build_length [of 16 a "unat b" vals tab]
        by (auto split: option.splits)
    qed
  qed auto
  have "last (chunk 1 16 (hbits ?t)) = hbits ?t ! 16" "length (chunk 1 16 (hbits ?t)) = 16"
    using assms(2) by (simp_all add: chunk_def last_conv_nth)
  then have "build_hufftab_DC 16 (tl g_DC_offset) (chunk 1 16 (hbits ?t)) (huffval ?t) (replicate 162 0) = None"
    using assms(3) by (intro overrun) (simp_all add: g_DC_offset_def)
  then have "put_DC 0 16 (v\<lparr>g_huffTab := replicate 162 0\<rparr>) = JFault"
    using assms(2) by (simp add: put_DC_def Let_def)
  then show ?thesis by (simp add: JPEGFW_build_hufftab_jpegDec_def jthen_def jbind_def jmod_def)
qed

theorem DC_table_overruns_witness:
  "JPEGFW_build_hufftab_jpegDec (sample_vld\<lparr>vdec := (vdec sample_vld)\<lparr>dcodec := zero_codec\<lparr>
     dc_huff_tbl := [\<lparr>hbits = replicate 16 0 @ [5], huffval = replicate 257 0\<rparr>]\<rparr>\<rparr>\<rparr>) = JFault"
  by (rule DC_table_overruns) (simp_all add: table_in_memory_def counts_def chunk_def nth_append sum_list_replicate)

end
