(* ===== verification/ExifStream.thy ===== *)
theory ExifStream
  imports JpegCodec
begin

text \<open>
  The write stream of \<^verbatim>\<open>jpeg_stream.c\<close>, on which the EXIF data are put together: a buffer with a
  write position, and optionally a callback that takes the full buffer to a file.  The position is
  the distance of \<^verbatim>\<open>write_ptr\<close> from \<^verbatim>\<open>write_buf\<close>.  The callback is a script of the sizes that its calls
  take (a script that has run out takes nothing); its calls are recorded.  \<^verbatim>\<open>FALSE\<close> is a failing
  statement.
\<close>

record wstream =
  write_buf :: bytes
  write_ptr :: "nat option"
  write_file :: "nat list option"
  write_file_size :: u32
  file_writes :: "(u32 \<times> bytes) list"

type_synonym 'a wm = "('a, wstream) jm"

definition Jpeg_WriteStreamToFile :: "unit wm" where
  "Jpeg_WriteStreamToFile s =
     (case write_file s of
        None \<Rightarrow> JFail s
      | Some script \<Rightarrow>
          let data = take (case write_ptr s of None \<Rightarrow> 0 | Some p \<Rightarrow> p) (write_buf s);
              actual = (case script of [] \<Rightarrow> 0 | n # _ \<Rightarrow> n);
              s' = s\<lparr>write_file := Some (tl script), write_ptr := Some 0,
                     write_file_size := write_file_size s + of_nat actual,
                     file_writes := file_writes s @ [(write_file_size s, data)]\<rparr>
          in if actual = length data then JOk () s' else JFail s')"

definition Jpeg_SetWritePos :: "u32 \<Rightarrow> unit wm" where
  "Jpeg_SetWritePos offset = jbind (jget (\<lambda>s. s)) (\<lambda>s.
     let size = of_nat (length (write_buf s)) in
     if write_file s \<noteq> None
     then if offset < write_file_size s \<or> offset \<ge> write_file_size s + size
          then jthen Jpeg_WriteStreamToFile
                 (jmod (\<lambda>s. s\<lparr>write_ptr := Some 0, write_file_size := offset\<rparr>))
          else jmod (\<lambda>s. s\<lparr>write_ptr := Some (unat (offset - write_file_size s))\<rparr>)
     else if offset > size then jfail
     else jmod (\<lambda>s. s\<lparr>write_ptr := Some (unat offset)\<rparr>))"

definition Jpeg_GetWritePos :: "u32 wm" where
  "Jpeg_GetWritePos = jget (\<lambda>s.
     let pos = (case write_ptr s of None \<Rightarrow> 0
                | Some p \<Rightarrow> if p \<le> length (write_buf s) then of_nat p else 0)
     in if write_file s \<noteq> None then pos + write_file_size s else pos)"

text \<open>One byte.  The pointer that is tested and the pointer that is written through are read before
  and after the buffer may have been taken to the file.\<close>

definition Jpeg_WriteC :: "u8 \<Rightarrow> unit wm" where
  "Jpeg_WriteC c = jthen
     (jmod (\<lambda>s. if write_ptr s = None then s\<lparr>write_ptr := Some 0\<rparr> else s))
     (jbind (jget (\<lambda>s. the (write_ptr s))) (\<lambda>p.
      jthen (jbind (jget (\<lambda>s. length (write_buf s))) (\<lambda>n.
               if p \<ge> n then Jpeg_WriteStreamToFile else jret ()))
        (jbind (jget (\<lambda>s. s)) (\<lambda>s.
           let q = the (write_ptr s) in
           if p + 1 > length (write_buf s) then jfail
           else jmod (\<lambda>s. s\<lparr>write_buf := (write_buf s)[q := c], write_ptr := Some (q + 1)\<rparr>)))))"

definition Jpeg_WriteW :: "u16 \<Rightarrow> unit wm" where
  "Jpeg_WriteW w = jthen (Jpeg_WriteC (ucast (drop_bit 8 w))) (Jpeg_WriteC (ucast w))"

definition Jpeg_WriteL :: "u32 \<Rightarrow> unit wm" where
  "Jpeg_WriteL l s =
     (case write_ptr s of
        None \<Rightarrow> JFail s
      | Some p \<Rightarrow>
          if p + 4 > length (write_buf s) then JFail s
          else JOk () (s\<lparr>write_buf := (write_buf s)[p := ucast (drop_bit 24 l),
                 p + 1 := ucast (drop_bit 16 l), p + 2 := ucast (drop_bit 8 l), p + 3 := ucast l],
               write_ptr := Some (p + 4)\<rparr>))"

text \<open>A call whose result is not looked at.\<close>

definition ignoring :: "unit wm \<Rightarrow> unit wm" where
  "ignoring m s = (case m s of JFail s' \<Rightarrow> JOk () s' | r \<Rightarrow> r)"

definition Jpeg_WriteBlock :: "bytes \<Rightarrow> unit wm" where
  "Jpeg_WriteBlock block = jbind (jget write_ptr) (\<lambda>p.
     if p = None then jfail else jfor block (\<lambda>b. ignoring (Jpeg_WriteC b)))"

end
