(* ===== verification/ExifTypes.thy ===== *)
theory ExifTypes
  imports Prelude
begin

text \<open>
  The EXIF information of \<^verbatim>\<open>jpeg_exif_header.h\<close> as the camera hands it to the writer, and the
  tags of \<^verbatim>\<open>jpeg_exif_type.h\<close>.  The bit fields that say which tags are present form a record of
  their own, as in the source; a pointer that may be null is an option; arrays are lists, of the
  lengths that \<^verbatim>\<open>ExifShape\<close> states.  The signed rationals share the record of the unsigned ones,
  with their two words in two's complement: the writer treats both alike.
\<close>

subsection \<open>Types of the values\<close>

abbreviation IFD_BYTE :: u16 where "IFD_BYTE \<equiv> 1"
abbreviation IFD_ASCII :: u16 where "IFD_ASCII \<equiv> 2"
abbreviation IFD_SHORT :: u16 where "IFD_SHORT \<equiv> 3"
abbreviation IFD_LONG :: u16 where "IFD_LONG \<equiv> 4"
abbreviation IFD_RATIONAL :: u16 where "IFD_RATIONAL \<equiv> 5"
abbreviation IFD_UNDEFINED :: u16 where "IFD_UNDEFINED \<equiv> 7"
abbreviation IFD_SLONG :: u16 where "IFD_SLONG \<equiv> 9"
abbreviation IFD_SRATIONAL :: u16 where "IFD_SRATIONAL \<equiv> 10"

subsection \<open>Tags\<close>

abbreviation IFD_GPSVERSIONID :: u16 where "IFD_GPSVERSIONID \<equiv> 0x00"
abbreviation IFD_GPSLATITUDEREF :: u16 where "IFD_GPSLATITUDEREF \<equiv> 0x01"
abbreviation IFD_GPSLATITUDE :: u16 where "IFD_GPSLATITUDE \<equiv> 0x02"
abbreviation IFD_GPSLONGITUDEREF :: u16 where "IFD_GPSLONGITUDEREF \<equiv> 0x03"
abbreviation IFD_GPSLONGITUDE :: u16 where "IFD_GPSLONGITUDE \<equiv> 0x04"
abbreviation IFD_GPSALTITUDEREF :: u16 where "IFD_GPSALTITUDEREF \<equiv> 0x05"
abbreviation IFD_GPSALTITUDE :: u16 where "IFD_GPSALTITUDE \<equiv> 0x06"
abbreviation IFD_GPSTIMESTAMP :: u16 where "IFD_GPSTIMESTAMP \<equiv> 0x07"
abbreviation IFD_GPSSATELLITES :: u16 where "IFD_GPSSATELLITES \<equiv> 0x08"
abbreviation IFD_GPSSTATUS :: u16 where "IFD_GPSSTATUS \<equiv> 0x09"
abbreviation IFD_GPSMEASUREMODE :: u16 where "IFD_GPSMEASUREMODE \<equiv> 0x0a"
abbreviation IFD_GPSDOP :: u16 where "IFD_GPSDOP \<equiv> 0x0b"
abbreviation IFD_GPSSPEEDREF :: u16 where "IFD_GPSSPEEDREF \<equiv> 0x0c"
abbreviation IFD_GPSSPEED :: u16 where "IFD_GPSSPEED \<equiv> 0x0d"
abbreviation IFD_GPSTRACKREF :: u16 where "IFD_GPSTRACKREF \<equiv> 0x0e"
abbreviation IFD_GPSTRACK :: u16 where "IFD_GPSTRACK \<equiv> 0x0f"
abbreviation IFD_GPSIMGDIRECTIONREF :: u16 where "IFD_GPSIMGDIRECTIONREF \<equiv> 0x10"
abbreviation IFD_GPSIMGDIRECTION :: u16 where "IFD_GPSIMGDIRECTION \<equiv> 0x11"
abbreviation IFD_GPSMAPDATUM :: u16 where "IFD_GPSMAPDATUM \<equiv> 0x12"
abbreviation IFD_GPSDESTLATITUDEREF :: u16 where "IFD_GPSDESTLATITUDEREF \<equiv> 0x13"
abbreviation IFD_GPSDESTLATITUDE :: u16 where "IFD_GPSDESTLATITUDE \<equiv> 0x14"
abbreviation IFD_GPSDESTLONGITUDEREF :: u16 where "IFD_GPSDESTLONGITUDEREF \<equiv> 0x15"
abbreviation IFD_GPSDESTLONGITUDE :: u16 where "IFD_GPSDESTLONGITUDE \<equiv> 0x16"
abbreviation IFD_GPSDESTBEARINGREF :: u16 where "IFD_GPSDESTBEARINGREF \<equiv> 0x17"
abbreviation IFD_GPSDESTBEARING :: u16 where "IFD_GPSDESTBEARING \<equiv> 0x18"
abbreviation IFD_GPSDESTDISTANCEREF :: u16 where "IFD_GPSDESTDISTANCEREF \<equiv> 0x19"
abbreviation IFD_GPSDESTDISTANCE :: u16 where "IFD_GPSDESTDISTANCE \<equiv> 0x1a"
abbreviation IFD_GPSPROCESSINGMETHOD :: u16 where "IFD_GPSPROCESSINGMETHOD \<equiv> 0x1b"
abbreviation IFD_GPSAREAINFORMATION :: u16 where "IFD_GPSAREAINFORMATION \<equiv> 0x1c"
abbreviation IFD_GPSDATESTAMP :: u16 where "IFD_GPSDATESTAMP \<equiv> 0x1d"
abbreviation IFD_GPSDIFFERENTIAL :: u16 where "IFD_GPSDIFFERENTIAL \<equiv> 0x1e"
abbreviation IFD_IMAGEWIDTH :: u16 where "IFD_IMAGEWIDTH \<equiv> 0x100"
abbreviation IFD_IMAGELENGTH :: u16 where "IFD_IMAGELENGTH \<equiv> 0x101"
abbreviation IFD_COMPRESSION :: u16 where "IFD_COMPRESSION \<equiv> 0x103"
abbreviation IFD_IMAGEDESCRIPTION :: u16 where "IFD_IMAGEDESCRIPTION \<equiv> 0x10e"
abbreviation IFD_MAKE :: u16 where "IFD_MAKE \<equiv> 0x10f"
abbreviation IFD_MODEL :: u16 where "IFD_MODEL \<equiv> 0x110"
abbreviation IFD_ORIENTATION :: u16 where "IFD_ORIENTATION \<equiv> 0x112"
abbreviation IFD_XRESOLUTION :: u16 where "IFD_XRESOLUTION \<equiv> 0x11a"
abbreviation IFD_YRESOLUTION :: u16 where "IFD_YRESOLUTION \<equiv> 0x11b"
abbreviation IFD_RESOLUTIONUNIT :: u16 where "IFD_RESOLUTIONUNIT \<equiv> 0x128"
abbreviation IFD_TRANSFERFUNCTION :: u16 where "IFD_TRANSFERFUNCTION \<equiv> 0x12d"
abbreviation IFD_SOFTWARE :: u16 where "IFD_SOFTWARE \<equiv> 0x131"
abbreviation IFD_DATETIME :: u16 where "IFD_DATETIME \<equiv> 0x132"
abbreviation IFD_ARTIST :: u16 where "IFD_ARTIST \<equiv> 0x13b"
abbreviation IFD_WHITEPOINT :: u16 where "IFD_WHITEPOINT \<equiv> 0x13e"
abbreviation IFD_PRIMARYCHROMATICITIES :: u16 where "IFD_PRIMARYCHROMATICITIES \<equiv> 0x13f"
abbreviation IFD_JPEGINTERCHANGEFORMAT :: u16 where "IFD_JPEGINTERCHANGEFORMAT \<equiv> 0x201"
abbreviation IFD_JPEGINTERCHANGEFORMATLENGTH :: u16 where "IFD_JPEGINTERCHANGEFORMATLENGTH \<equiv> 0x202"
abbreviation IFD_YCBCRCOEFFICIENTS :: u16 where "IFD_YCBCRCOEFFICIENTS \<equiv> 0x211"
abbreviation IFD_YCBCRPOSITION :: u16 where "IFD_YCBCRPOSITION \<equiv> 0x213"
abbreviation IFD_REFERENCEBLACKWHITE :: u16 where "IFD_REFERENCEBLACKWHITE \<equiv> 0x214"
abbreviation IFD_COPYRIGHT :: u16 where "IFD_COPYRIGHT \<equiv> 0x8298"
abbreviation IFD_EXIFIFDPOINTER :: u16 where "IFD_EXIFIFDPOINTER \<equiv> 0x8769"
abbreviation IFD_GPSIFDPOINTER :: u16 where "IFD_GPSIFDPOINTER \<equiv> 0x8825"
abbreviation IFD_EXPOSURETIME :: u16 where "IFD_EXPOSURETIME \<equiv> 0x829a"
abbreviation IFD_FNUMBER :: u16 where "IFD_FNUMBER \<equiv> 0x829d"
abbreviation IFD_EXPOSUREPROGRAM :: u16 where "IFD_EXPOSUREPROGRAM \<equiv> 0x8822"
abbreviation IFD_SPECTRALSENSITIVITY :: u16 where "IFD_SPECTRALSENSITIVITY \<equiv> 0x8824"
abbreviation IFD_ISOSPEEDRATINGS :: u16 where "IFD_ISOSPEEDRATINGS \<equiv> 0x8827"
abbreviation IFD_OECF :: u16 where "IFD_OECF \<equiv> 0x8828"
abbreviation IFD_EXIFVERSION :: u16 where "IFD_EXIFVERSION \<equiv> 0x9000"
abbreviation IFD_DATETIMEORIGINAL :: u16 where "IFD_DATETIMEORIGINAL \<equiv> 0x9003"
abbreviation IFD_DATETIMEDIGITILIZED :: u16 where "IFD_DATETIMEDIGITILIZED \<equiv> 0x9004"
abbreviation IFD_COMPONENTSCONFIGURATION :: u16 where "IFD_COMPONENTSCONFIGURATION \<equiv> 0x9101"
abbreviation IFD_COMPRESSEDBITSPERPIXEL :: u16 where "IFD_COMPRESSEDBITSPERPIXEL \<equiv> 0x9102"
abbreviation IFD_SHUTTERSPEEDVALUE :: u16 where "IFD_SHUTTERSPEEDVALUE \<equiv> 0x9201"
abbreviation IFD_APERTUREVALUE :: u16 where "IFD_APERTUREVALUE \<equiv> 0x9202"
abbreviation IFD_BRIGHTNESSVALUE :: u16 where "IFD_BRIGHTNESSVALUE \<equiv> 0x9203"
abbreviation IFD_EXPOSUREBIASVALUE :: u16 where "IFD_EXPOSUREBIASVALUE \<equiv> 0x9204"
abbreviation IFD_MAXAPERTUREVALUE :: u16 where "IFD_MAXAPERTUREVALUE \<equiv> 0x9205"
abbreviation IFD_SUBJECTDISTANCE :: u16 where "IFD_SUBJECTDISTANCE \<equiv> 0x9206"
abbreviation IFD_METERINGMODE :: u16 where "IFD_METERINGMODE \<equiv> 0x9207"
abbreviation IFD_LIGHTSOURCE :: u16 where "IFD_LIGHTSOURCE \<equiv> 0x9208"
abbreviation IFD_FLASH :: u16 where "IFD_FLASH \<equiv> 0x9209"
abbreviation IFD_FOCALLENGTH :: u16 where "IFD_FOCALLENGTH \<equiv> 0x920a"
abbreviation IFD_SUBJECTAREA :: u16 where "IFD_SUBJECTAREA \<equiv> 0x9214"
abbreviation IFD_MAKERNOTE :: u16 where "IFD_MAKERNOTE \<equiv> 0x927c"
abbreviation IFD_USERCOMMENT :: u16 where "IFD_USERCOMMENT \<equiv> 0x9286"
abbreviation IFD_SUBSECTIME :: u16 where "IFD_SUBSECTIME \<equiv> 0x9290"
abbreviation IFD_SUBSECTIMEORIGINAL :: u16 where "IFD_SUBSECTIMEORIGINAL \<equiv> 0x9291"
abbreviation IFD_SUBSECTIMEDIGITILIZED :: u16 where "IFD_SUBSECTIMEDIGITILIZED \<equiv> 0x9292"
abbreviation IFD_FLASHPIXVERSION :: u16 where "IFD_FLASHPIXVERSION \<equiv> 0xa000"
abbreviation IFD_COLORSPACE :: u16 where "IFD_COLORSPACE \<equiv> 0xa001"
abbreviation IFD_PIXELXDIMENSION :: u16 where "IFD_PIXELXDIMENSION \<equiv> 0xa002"
abbreviation IFD_PIXELYDIMENSION :: u16 where "IFD_PIXELYDIMENSION \<equiv> 0xa003"
abbreviation IFD_RELATEDSOUNDFILE :: u16 where "IFD_RELATEDSOUNDFILE \<equiv> 0xa004"
abbreviation IFD_INTEROPERABILITYIFDPOINTER :: u16 where "IFD_INTEROPERABILITYIFDPOINTER \<equiv> 0xa005"
abbreviation IFD_FLASHENERGY :: u16 where "IFD_FLASHENERGY \<equiv> 0xa20b"
abbreviation IFD_SPATIALFREQUENCYRESPONSE :: u16 where "IFD_SPATIALFREQUENCYRESPONSE \<equiv> 0xa20c"
abbreviation IFD_FOCALPLANEXRESOLUTION :: u16 where "IFD_FOCALPLANEXRESOLUTION \<equiv> 0xa20e"
abbreviation IFD_FOCALPLANEYRESOLUTION :: u16 where "IFD_FOCALPLANEYRESOLUTION \<equiv> 0xa20f"
abbreviation IFD_FOCALPLANERESOLUTIONUNIT :: u16 where "IFD_FOCALPLANERESOLUTIONUNIT \<equiv> 0xa210"
abbreviation IFD_SUBJECTLOCATION :: u16 where "IFD_SUBJECTLOCATION \<equiv> 0xa214"
abbreviation IFD_EXPOSUREINDEX :: u16 where "IFD_EXPOSUREINDEX \<equiv> 0xa215"
abbreviation IFD_SENSINGMETHOD :: u16 where "IFD_SENSINGMETHOD \<equiv> 0xa217"
abbreviation IFD_FILESOURCE :: u16 where "IFD_FILESOURCE \<equiv> 0xa300"
abbreviation IFD_SCENETYPE :: u16 where "IFD_SCENETYPE \<equiv> 0xa301"
abbreviation IFD_CFAPATTERN :: u16 where "IFD_CFAPATTERN \<equiv> 0xa302"
abbreviation IFD_CUSTOMRENDERED :: u16 where "IFD_CUSTOMRENDERED \<equiv> 0xa401"
abbreviation IFD_EXPOSUREMODE :: u16 where "IFD_EXPOSUREMODE \<equiv> 0xa402"
abbreviation IFD_WHITEBALANCE :: u16 where "IFD_WHITEBALANCE \<equiv> 0xa403"
abbreviation IFD_DIGITALZOOMRATIO :: u16 where "IFD_DIGITALZOOMRATIO \<equiv> 0xa404"
abbreviation IFD_FOCALLENGTHIN35MMFILM :: u16 where "IFD_FOCALLENGTHIN35MMFILM \<equiv> 0xa405"
abbreviation IFD_SCENECAPTURETYPE :: u16 where "IFD_SCENECAPTURETYPE \<equiv> 0xa406"
abbreviation IFD_GAINCONTROL :: u16 where "IFD_GAINCONTROL \<equiv> 0xa407"
abbreviation IFD_CONTRAST :: u16 where "IFD_CONTRAST \<equiv> 0xa408"
abbreviation IFD_SATURATION :: u16 where "IFD_SATURATION \<equiv> 0xa409"
abbreviation IFD_SHARPNESS :: u16 where "IFD_SHARPNESS \<equiv> 0xa40a"
abbreviation IFD_DEVICESETTINGDESCRIPTION :: u16 where "IFD_DEVICESETTINGDESCRIPTION \<equiv> 0xa40b"
abbreviation IFD_SUBJECTDISTANCERANGE :: u16 where "IFD_SUBJECTDISTANCERANGE \<equiv> 0xa40c"
abbreviation IFD_IMAGEUNIQUEID :: u16 where "IFD_IMAGEUNIQUEID \<equiv> 0xa420"
abbreviation IFD_INTEROPERABILITYINDEX :: u16 where "IFD_INTEROPERABILITYINDEX \<equiv> 0x0001"
abbreviation IFD_INTEROPERABILITYVERSION :: u16 where "IFD_INTEROPERABILITYVERSION \<equiv> 0x0002"

subsection \<open>The structures\<close>

record exif_rational =
  numerator :: u32
  denominator :: u32

record exif_custom =
  custom_type :: u8
  custom_ptr :: bytes
  custom_count :: u32
  custom_size :: u32

record exif_pri_basic =
  YCbCrPositioning :: u16
  XResolution :: exif_rational
  YResolution :: exif_rational
  ResolutionUnit :: u16
  ImageWidth :: u32
  ImageLength :: u32

record exif_pri_data_struct_valid =
  valid_Orientation :: bool
  valid_Reserved :: bool

record exif_pri_data_struct =
  data_struct_valid :: exif_pri_data_struct_valid
  Orientation :: u16
  Reserved :: u16

record exif_pri_data_char_valid =
  valid_TransferFunction :: bool
  valid_WhitePoint :: bool
  valid_PrimaryChromaticities :: bool
  valid_YCbCrCoefficients :: bool
  valid_ReferenceBlackWhite :: bool

record exif_pri_data_char =
  data_char_valid :: exif_pri_data_char_valid
  TransferFunction :: "u16 list"
  WhitePoint :: "exif_rational list"
  PrimaryChromaticities :: "exif_rational list"
  YCbCrCoefficients :: "exif_rational list"
  ReferenceBlackWhite :: "exif_rational list"

record exif_pri_desc_valid =
  valid_DateTime :: bool
  valid_ImageDescription :: bool
  valid_Make :: bool
  valid_Model :: bool
  valid_Software :: bool
  valid_Artist :: bool
  valid_Copyright :: bool

record exif_pri_desc =
  desc_valid :: exif_pri_desc_valid
  DateTime :: bytes
  ImageDescription :: bytes
  Make :: bytes
  Model :: bytes
  Software :: bytes
  Artist :: bytes
  Copyright :: bytes

record exif_primary_info =
  pri_basic :: exif_pri_basic
  data_struct_ptr :: "exif_pri_data_struct option"
  data_char_ptr :: "exif_pri_data_char option"
  img_desc_ptr :: "exif_pri_desc option"
  pri_reserved :: u32

record exif_spec_basic =
  ColorSpace :: u16
  ComponentsConfiguration :: bytes
  PixelXDimension :: u32
  PixelYDimension :: u32

record exif_spec_version =
  ExifVersion :: bytes
  FlashpixVersion :: bytes

record exif_spec_img_config_valid =
  valid_CompressedBitsPerPixel :: bool

record exif_spec_img_config =
  img_config_valid :: exif_spec_img_config_valid
  CompressedBitsPerPixel :: exif_rational

record exif_spec_user_valid =
  valid_MakerNote :: bool
  valid_UserComment :: bool

record exif_spec_user =
  user_valid :: exif_spec_user_valid
  MakerNote :: exif_custom
  UserComment :: exif_custom

record exif_spec_related_file_valid =
  valid_RelatedSoundFile :: bool

record exif_spec_related_file =
  related_file_valid :: exif_spec_related_file_valid
  RelatedSoundFile :: bytes

record exif_spec_date_time_valid =
  valid_DateTimeOriginal :: bool
  valid_DateTimeDigitized :: bool
  valid_SubSecTime :: bool
  valid_SubSecTimeOriginal :: bool
  valid_SubSecTimeDigitized :: bool

record exif_spec_date_time =
  date_time_valid :: exif_spec_date_time_valid
  DateTimeOriginal :: bytes
  DateTimeDigitized :: bytes
  SubSecTime :: bytes
  SubSecTimeOriginal :: bytes
  SubSecTimeDigitized :: bytes

record exif_spec_pic_taking_cond_valid =
  valid_ExposureTime :: bool
  valid_FNumber :: bool
  valid_ExposureProgram :: bool
  valid_SpectralSensitivity :: bool
  valid_ISOSpeedRatings :: bool
  valid_OECF :: bool
  valid_ShutterSpeedValue :: bool
  valid_ApertureValue :: bool
  valid_BrightnessValue :: bool
  valid_ExposureBiasValue :: bool
  valid_MaxApertureValue :: bool
  valid_SubjectDistance :: bool
  valid_MeteringMode :: bool
  valid_LightSource :: bool
  valid_Flash :: bool
  valid_FocalLength :: bool
  valid_SubjectArea :: bool
  valid_FlashEnergy :: bool
  valid_SpatialFrequencyResponse :: bool
  valid_FocalPlaneXResolution :: bool
  valid_FocalPlaneYResolution :: bool
  valid_FocalPlaneResolutionUnit :: bool
  valid_SubjectLocation :: bool
  valid_ExposureIndex :: bool
  valid_SensingMethod :: bool
  valid_FileSource :: bool
  valid_SceneType :: bool
  valid_CFAPattern :: bool
  valid_CustomRendered :: bool
  valid_ExposureMode :: bool
  valid_WhiteBalance :: bool
  valid_DigitalZoomRatio :: bool
  valid_FocalLengthIn35mmFilm :: bool
  valid_SceneCaptureType :: bool
  valid_GainControl :: bool
  valid_Contrast :: bool
  valid_Saturation :: bool
  valid_Sharpness :: bool
  valid_DeviceSettingDescription :: bool
  valid_SubjectDistanceRange :: bool

record exif_spec_pic_taking_cond =
  pic_valid :: exif_spec_pic_taking_cond_valid
  ExposureTime :: exif_rational
  FNumber :: exif_rational
  ExposureProgram :: u16
  SpectralSensitivity :: bytes
  ISOSpeedRatings :: exif_custom
  OECF :: exif_custom
  ShutterSpeedValue :: exif_rational
  ApertureValue :: exif_rational
  BrightnessValue :: exif_rational
  ExposureBiasValue :: exif_rational
  MaxApertureValue :: exif_rational
  SubjectDistance :: exif_rational
  MeteringMode :: u16
  LightSource :: u16
  Flash :: u16
  FocalLength :: exif_rational
  SubjectArea :: exif_custom
  FlashEnergy :: exif_rational
  SpatialFrequencyResponse :: exif_custom
  FocalPlaneXResolution :: exif_rational
  FocalPlaneYResolution :: exif_rational
  FocalPlaneResolutionUnit :: u16
  SubjectLocation :: "u16 list"
  ExposureIndex :: exif_rational
  SensingMethod :: u16
  FileSource :: u8
  SceneType :: u8
  CFAPattern :: exif_custom
  CustomRendered :: u16
  ExposureMode :: u16
  WhiteBalance :: u16
  DigitalZoomRatio :: exif_rational
  FocalLengthIn35mmFilm :: u16
  SceneCaptureType :: u16
  GainControl :: u16
  Contrast :: u16
  Saturation :: u16
  Sharpness :: u16
  DeviceSettingDescription :: exif_custom
  SubjectDistanceRange :: u16

record exif_spec_other_valid =
  valid_ImageUniqueID :: bool

record exif_spec_other =
  other_valid :: exif_spec_other_valid
  ImageUniqueID :: bytes

record exif_specific_info =
  spec_basic :: exif_spec_basic
  version_ptr :: "exif_spec_version option"
  img_config_ptr :: "exif_spec_img_config option"
  user_ptr :: "exif_spec_user option"
  related_file_ptr :: "exif_spec_related_file option"
  date_time_ptr :: "exif_spec_date_time option"
  pic_taking_cond_ptr :: "exif_spec_pic_taking_cond option"
  other_ptr :: "exif_spec_other option"

record exif_gps_valid =
  valid_GPSVersionID :: bool
  valid_GPSLatitudeRef :: bool
  valid_GPSLatitude :: bool
  valid_GPSLongitudeRef :: bool
  valid_GPSLongitude :: bool
  valid_GPSAltitudeRef :: bool
  valid_GPSAltitude :: bool
  valid_GPSTimeStamp :: bool
  valid_GPSSatellites :: bool
  valid_GPSStatus :: bool
  valid_GPSMeasureMode :: bool
  valid_GPSDOP :: bool
  valid_GPSSpeedRef :: bool
  valid_GPSSpeed :: bool
  valid_GPSTrackRef :: bool
  valid_GPSTrack :: bool
  valid_GPSImgDirectionRef :: bool
  valid_GPSImgDirection :: bool
  valid_GPSMapDatum :: bool
  valid_GPSDestLatitudeRef :: bool
  valid_GPSDestLatitude :: bool
  valid_GPSDestLongitudeRef :: bool
  valid_GPSDestLongitude :: bool
  valid_GPSDestBearingRef :: bool
  valid_GPSDestBearing :: bool
  valid_GPSDestDistanceRef :: bool
  valid_GPSDestDistance :: bool
  valid_GPSProcessingMethod :: bool
  valid_GPSAreaInformation :: bool
  valid_GPSDateStamp :: bool
  valid_GPSDifferential :: bool

record exif_gps_info =
  gps_valid :: exif_gps_valid
  GPSVersionID :: bytes
  GPSLatitudeRef :: bytes
  GPSLatitude :: "exif_rational list"
  GPSLongitudeRef :: bytes
  GPSLongitude :: "exif_rational list"
  GPSAltitudeRef :: u8
  GPSAltitude :: exif_rational
  GPSTimeStamp :: "exif_rational list"
  GPSSatellites :: bytes
  GPSStatus :: bytes
  GPSMeasureMode :: bytes
  GPSDOP :: exif_rational
  GPSSpeedRef :: bytes
  GPSSpeed :: exif_rational
  GPSTrackRef :: bytes
  GPSTrack :: exif_rational
  GPSImgDirectionRef :: bytes
  GPSImgDirection :: exif_rational
  GPSMapDatum :: bytes
  GPSDestLatitudeRef :: bytes
  GPSDestLatitude :: "exif_rational list"
  GPSDestLongitudeRef :: bytes
  GPSDestLongitude :: "exif_rational list"
  GPSDestBearingRef :: bytes
  GPSDestBearing :: exif_rational
  GPSDestDistanceRef :: bytes
  GPSDestDistance :: exif_rational
  GPSProcessingMethod :: exif_custom
  GPSAreaInformation :: exif_custom
  GPSDateStamp :: bytes
  GPSDifferential :: u16

record exif_interoperability_valid =
  valid_InteroperabilityIndex :: bool

record exif_interoperability_info =
  inter_valid :: exif_interoperability_valid
  InteroperabilityIndex :: exif_custom

record jinf_exif_info =
  exif_primary :: exif_primary_info
  spec_ptr :: "exif_specific_info option"
  gps_ptr :: "exif_gps_info option"
  inter_ptr :: "exif_interoperability_info option"

end
