(* ===== verification/ExifFields.thy ===== *)
theory ExifFields
  imports ExifTypes
begin

text \<open>
  What \<^verbatim>\<open>exif_writer.c\<close> puts into its tables, in the order of its code.  Each of its blocks fills an
  \<^verbatim>\<open>IFD_INFO_T\<close> from the information and calls one of the four writers; here it is one entry: the
  condition of the block, the tag, the type, the count, the bytes behind \<^verbatim>\<open>value_ptr\<close> and the
  writer.
\<close>

datatype ifd_writer = ByteIFD | ShortIFD | LongIFD | RationalIFD

text \<open>The count is \<^term>\<open>None\<close> where counting it reads behind the end of a string.  The value field
  starts as the offset of the values; some blocks store a value instead.\<close>

record ifd_entry =
  e_written :: bool
  e_tag :: u16
  e_type :: u16
  e_count :: "u32 option"
  e_value :: "u16 option"
  e_ptr :: bytes
  e_writer :: ifd_writer

fun GetAsciiStringSize :: "bytes \<Rightarrow> u32 option" where
  "GetAsciiStringSize [] = None"
| "GetAsciiStringSize (c # cs) = (if c = 0 then Some 0 else map_option ((+) 1) (GetAsciiStringSize cs))"

definition field :: "bool \<Rightarrow> u16 \<Rightarrow> u16 \<Rightarrow> u32 \<Rightarrow> bytes \<Rightarrow> ifd_writer \<Rightarrow> ifd_entry" where
  "field g t ty n p w = \<lparr>e_written = g, e_tag = t, e_type = ty, e_count = Some n, e_value = None,
     e_ptr = p, e_writer = w\<rparr>"

definition value_field :: "bool \<Rightarrow> u16 \<Rightarrow> u16 \<Rightarrow> u32 \<Rightarrow> bytes \<Rightarrow> u16 \<Rightarrow> ifd_writer \<Rightarrow> ifd_entry" where
  "value_field g t ty n p v w = (field g t ty n p w)\<lparr>e_value := Some v\<rparr>"

definition text_field :: "bool \<Rightarrow> u16 \<Rightarrow> bytes \<Rightarrow> ifd_entry" where
  "text_field g t p =
     (field g t IFD_ASCII 0 p ByteIFD)\<lparr>e_count := map_option (\<lambda>n. n + 1) (GetAsciiStringSize p)\<rparr>"

definition custom_field :: "bool \<Rightarrow> u16 \<Rightarrow> u16 \<Rightarrow> exif_custom \<Rightarrow> ifd_writer \<Rightarrow> ifd_entry" where
  "custom_field g t ty c w = field (g \<and> 0 < custom_count c) t ty (custom_count c) (custom_ptr c) w"

text \<open>A block that is guarded by a pointer.\<close>

definition on :: "'a option \<Rightarrow> ('a \<Rightarrow> ifd_entry) \<Rightarrow> ifd_entry" where
  "on p e = (case p of None \<Rightarrow> field False 0 0 0 [] ByteIFD | Some x \<Rightarrow> e x)"

text \<open>The memory of a value on the little-endian host.\<close>

definition rational :: "exif_rational \<Rightarrow> bytes" where
  "rational r = le32 (numerator r) @ le32 (denominator r)"

definition rationals :: "exif_rational list \<Rightarrow> bytes" where
  "rationals rs = concat (map rational rs)"

definition shorts :: "u16 list \<Rightarrow> bytes" where
  "shorts ws = concat (map le16 ws)"

subsection \<open>The EXIF table\<close>

definition spec_exposure_fields :: "exif_specific_info \<Rightarrow> ifd_entry list" where
  "spec_exposure_fields spec = [
     on (pic_taking_cond_ptr spec) (\<lambda>p. field (valid_ExposureTime (pic_valid p)) IFD_EXPOSURETIME IFD_RATIONAL 1 (rational (ExposureTime p)) RationalIFD),
     on (pic_taking_cond_ptr spec) (\<lambda>p. field (valid_FNumber (pic_valid p)) IFD_FNUMBER IFD_RATIONAL 1 (rational (FNumber p)) RationalIFD),
     on (pic_taking_cond_ptr spec) (\<lambda>p. field (valid_ExposureProgram (pic_valid p)) IFD_EXPOSUREPROGRAM IFD_SHORT 1 (le16 (ExposureProgram p)) ShortIFD),
     on (pic_taking_cond_ptr spec) (\<lambda>p. text_field (valid_SpectralSensitivity (pic_valid p)) IFD_SPECTRALSENSITIVITY (SpectralSensitivity p)),
     on (pic_taking_cond_ptr spec) (\<lambda>p. custom_field (valid_ISOSpeedRatings (pic_valid p)) IFD_ISOSPEEDRATINGS IFD_SHORT (ISOSpeedRatings p) ShortIFD),
     on (pic_taking_cond_ptr spec) (\<lambda>p. custom_field (valid_OECF (pic_valid p)) IFD_OECF IFD_UNDEFINED (OECF p) ByteIFD),
     field True IFD_EXIFVERSION IFD_UNDEFINED 4 [0x30, 0x32, 0x32, 0x30] ByteIFD]"

definition spec_date_fields :: "exif_specific_info \<Rightarrow> ifd_entry list" where
  "spec_date_fields spec = [
     on (date_time_ptr spec) (\<lambda>p. field (valid_DateTimeOriginal (date_time_valid p)) IFD_DATETIMEORIGINAL IFD_ASCII 20 (DateTimeOriginal p) ByteIFD),
     on (date_time_ptr spec) (\<lambda>p. field (valid_DateTimeDigitized (date_time_valid p)) IFD_DATETIMEDIGITILIZED IFD_ASCII 20 (DateTimeDigitized p) ByteIFD),
     field True IFD_COMPONENTSCONFIGURATION IFD_UNDEFINED 4 (ComponentsConfiguration (spec_basic spec)) ByteIFD,
     on (img_config_ptr spec) (\<lambda>p. field (valid_CompressedBitsPerPixel (img_config_valid p)) IFD_COMPRESSEDBITSPERPIXEL IFD_RATIONAL 1 (rational (CompressedBitsPerPixel p)) RationalIFD)]"

definition spec_aperture_fields :: "exif_specific_info \<Rightarrow> ifd_entry list" where
  "spec_aperture_fields spec = [
     on (pic_taking_cond_ptr spec) (\<lambda>p. field (valid_ShutterSpeedValue (pic_valid p)) IFD_SHUTTERSPEEDVALUE IFD_SRATIONAL 1 (rational (ShutterSpeedValue p)) RationalIFD),
     on (pic_taking_cond_ptr spec) (\<lambda>p. field (valid_ApertureValue (pic_valid p)) IFD_APERTUREVALUE IFD_RATIONAL 1 (rational (ApertureValue p)) RationalIFD),
     on (pic_taking_cond_ptr spec) (\<lambda>p. field (valid_BrightnessValue (pic_valid p)) IFD_BRIGHTNESSVALUE IFD_SRATIONAL 1 (rational (BrightnessValue p)) RationalIFD),
     on (pic_taking_cond_ptr spec) (\<lambda>p. field (valid_ExposureBiasValue (pic_valid p)) IFD_EXPOSUREBIASVALUE IFD_SRATIONAL 1 (rational (ExposureBiasValue p)) RationalIFD),
     on (pic_taking_cond_ptr spec) (\<lambda>p. field (valid_MaxApertureValue (pic_valid p)) IFD_MAXAPERTUREVALUE IFD_RATIONAL 1 (rational (MaxApertureValue p)) RationalIFD),
     on (pic_taking_cond_ptr spec) (\<lambda>p. field (valid_SubjectDistance (pic_valid p)) IFD_SUBJECTDISTANCE IFD_RATIONAL 1 (rational (SubjectDistance p)) RationalIFD)]"

definition spec_lens_fields :: "exif_specific_info \<Rightarrow> ifd_entry list" where
  "spec_lens_fields spec = [
     on (pic_taking_cond_ptr spec) (\<lambda>p. field (valid_MeteringMode (pic_valid p)) IFD_METERINGMODE IFD_SHORT 1 (le16 (MeteringMode p)) ShortIFD),
     on (pic_taking_cond_ptr spec) (\<lambda>p. field (valid_LightSource (pic_valid p)) IFD_LIGHTSOURCE IFD_SHORT 1 (le16 (LightSource p)) ShortIFD),
     on (pic_taking_cond_ptr spec) (\<lambda>p. field (valid_Flash (pic_valid p)) IFD_FLASH IFD_SHORT 1 (le16 (Flash p)) ShortIFD),
     on (pic_taking_cond_ptr spec) (\<lambda>p. field (valid_FocalLength (pic_valid p)) IFD_FOCALLENGTH IFD_RATIONAL 1 (rational (FocalLength p)) RationalIFD),
     on (pic_taking_cond_ptr spec) (\<lambda>p. custom_field (valid_SubjectArea (pic_valid p)) IFD_SUBJECTAREA IFD_SHORT (SubjectArea p) RationalIFD)]"

definition spec_user_fields :: "exif_specific_info \<Rightarrow> ifd_entry list" where
  "spec_user_fields spec = [
     on (user_ptr spec) (\<lambda>p. custom_field True IFD_MAKERNOTE IFD_UNDEFINED (MakerNote p) ByteIFD),
     on (user_ptr spec) (\<lambda>p. custom_field True IFD_USERCOMMENT IFD_UNDEFINED (UserComment p) ByteIFD),
     on (date_time_ptr spec) (\<lambda>p. text_field (valid_SubSecTime (date_time_valid p)) IFD_SUBSECTIME (SubSecTime p)),
     on (date_time_ptr spec) (\<lambda>p. text_field (valid_SubSecTimeOriginal (date_time_valid p)) IFD_SUBSECTIMEORIGINAL (SubSecTimeOriginal p)),
     on (date_time_ptr spec) (\<lambda>p. text_field (valid_SubSecTimeDigitized (date_time_valid p)) IFD_SUBSECTIMEDIGITILIZED (SubSecTimeDigitized p))]"

definition spec_pixel_fields :: "exif_specific_info \<Rightarrow> ifd_entry list" where
  "spec_pixel_fields spec = [
     field True IFD_FLASHPIXVERSION IFD_UNDEFINED 4 [0x30, 0x31, 0x30, 0x30] ByteIFD,
     field True IFD_COLORSPACE IFD_SHORT 1 (le16 (ColorSpace (spec_basic spec))) ShortIFD,
     field True IFD_PIXELXDIMENSION IFD_LONG 1 (le32 (PixelXDimension (spec_basic spec))) LongIFD,
     field True IFD_PIXELYDIMENSION IFD_LONG 1 (le32 (PixelYDimension (spec_basic spec))) LongIFD,
     on (related_file_ptr spec) (\<lambda>p. field (valid_RelatedSoundFile (related_file_valid p)) IFD_RELATEDSOUNDFILE IFD_ASCII 13 (RelatedSoundFile p) ByteIFD)]"

definition spec_focal_fields :: "exif_specific_info \<Rightarrow> ifd_entry list" where
  "spec_focal_fields spec = [
     on (pic_taking_cond_ptr spec) (\<lambda>p. field (valid_FlashEnergy (pic_valid p)) IFD_FLASHENERGY IFD_RATIONAL 1 (rational (FlashEnergy p)) RationalIFD),
     on (pic_taking_cond_ptr spec) (\<lambda>p. custom_field (valid_SpatialFrequencyResponse (pic_valid p)) IFD_SPATIALFREQUENCYRESPONSE IFD_UNDEFINED (SpatialFrequencyResponse p) ByteIFD),
     on (pic_taking_cond_ptr spec) (\<lambda>p. field (valid_FocalPlaneXResolution (pic_valid p)) IFD_FOCALPLANEXRESOLUTION IFD_RATIONAL 1 (rational (FocalPlaneXResolution p)) RationalIFD),
     on (pic_taking_cond_ptr spec) (\<lambda>p. field (valid_FocalPlaneYResolution (pic_valid p)) IFD_FOCALPLANEYRESOLUTION IFD_RATIONAL 1 (rational (FocalPlaneYResolution p)) RationalIFD),
     on (pic_taking_cond_ptr spec) (\<lambda>p. field (valid_FocalPlaneResolutionUnit (pic_valid p)) IFD_FOCALPLANERESOLUTIONUNIT IFD_SHORT 1 (le16 (FocalPlaneResolutionUnit p)) ShortIFD),
     on (pic_taking_cond_ptr spec) (\<lambda>p. field (valid_SubjectLocation (pic_valid p)) IFD_SUBJECTLOCATION IFD_SHORT 2 (shorts (SubjectLocation p)) ShortIFD)]"

definition spec_sensor_fields :: "exif_specific_info \<Rightarrow> ifd_entry list" where
  "spec_sensor_fields spec = [
     on (pic_taking_cond_ptr spec) (\<lambda>p. field (valid_ExposureIndex (pic_valid p)) IFD_EXPOSUREINDEX IFD_RATIONAL 1 (rational (ExposureIndex p)) RationalIFD),
     on (pic_taking_cond_ptr spec) (\<lambda>p. field (valid_SensingMethod (pic_valid p)) IFD_SENSINGMETHOD IFD_SHORT 1 (le16 (SensingMethod p)) ShortIFD),
     on (pic_taking_cond_ptr spec) (\<lambda>p. field (valid_FileSource (pic_valid p)) IFD_FILESOURCE IFD_UNDEFINED 1 [FileSource p] ByteIFD),
     on (pic_taking_cond_ptr spec) (\<lambda>p. field (valid_SceneType (pic_valid p)) IFD_SCENETYPE IFD_UNDEFINED 1 [SceneType p] ByteIFD),
     on (pic_taking_cond_ptr spec) (\<lambda>p. custom_field (valid_CFAPattern (pic_valid p)) IFD_CFAPATTERN IFD_UNDEFINED (CFAPattern p) ByteIFD),
     on (pic_taking_cond_ptr spec) (\<lambda>p. field (valid_CustomRendered (pic_valid p)) IFD_CUSTOMRENDERED IFD_SHORT 1 (le16 (CustomRendered p)) ShortIFD),
     on (pic_taking_cond_ptr spec) (\<lambda>p. field (valid_ExposureMode (pic_valid p)) IFD_EXPOSUREMODE IFD_SHORT 1 (le16 (ExposureMode p)) ShortIFD)]"

definition spec_mode_fields :: "exif_specific_info \<Rightarrow> ifd_entry list" where
  "spec_mode_fields spec = [
     on (pic_taking_cond_ptr spec) (\<lambda>p. field (valid_WhiteBalance (pic_valid p)) IFD_WHITEBALANCE IFD_SHORT 1 (le16 (WhiteBalance p)) ShortIFD),
     on (pic_taking_cond_ptr spec) (\<lambda>p. field (valid_DigitalZoomRatio (pic_valid p)) IFD_DIGITALZOOMRATIO IFD_RATIONAL 1 (rational (DigitalZoomRatio p)) RationalIFD),
     on (pic_taking_cond_ptr spec) (\<lambda>p. field (valid_FocalLengthIn35mmFilm (pic_valid p)) IFD_FOCALLENGTHIN35MMFILM IFD_SHORT 1 (le16 (FocalLengthIn35mmFilm p)) ShortIFD),
     on (pic_taking_cond_ptr spec) (\<lambda>p. field (valid_SceneCaptureType (pic_valid p)) IFD_SCENECAPTURETYPE IFD_SHORT 1 (le16 (SceneCaptureType p)) ShortIFD),
     on (pic_taking_cond_ptr spec) (\<lambda>p. field (valid_GainControl (pic_valid p)) IFD_GAINCONTROL IFD_SHORT 1 (le16 (GainControl p)) ShortIFD),
     on (pic_taking_cond_ptr spec) (\<lambda>p. field (valid_Contrast (pic_valid p)) IFD_CONTRAST IFD_SHORT 1 (le16 (Contrast p)) ShortIFD)]"

definition spec_scene_fields :: "exif_specific_info \<Rightarrow> ifd_entry list" where
  "spec_scene_fields spec = [
     on (pic_taking_cond_ptr spec) (\<lambda>p. field (valid_Saturation (pic_valid p)) IFD_SATURATION IFD_SHORT 1 (le16 (Saturation p)) ShortIFD),
     on (pic_taking_cond_ptr spec) (\<lambda>p. field (valid_Sharpness (pic_valid p)) IFD_SHARPNESS IFD_SHORT 1 (le16 (Sharpness p)) ShortIFD),
     on (pic_taking_cond_ptr spec) (\<lambda>p. custom_field (valid_DeviceSettingDescription (pic_valid p)) IFD_DEVICESETTINGDESCRIPTION IFD_UNDEFINED (DeviceSettingDescription p) ByteIFD),
     on (pic_taking_cond_ptr spec) (\<lambda>p. field (valid_SubjectDistanceRange (pic_valid p)) IFD_SUBJECTDISTANCERANGE IFD_SHORT 1 (le16 (SubjectDistanceRange p)) ShortIFD),
     on (other_ptr spec) (\<lambda>p. field (valid_ImageUniqueID (other_valid p)) IFD_IMAGEUNIQUEID IFD_ASCII 33 (ImageUniqueID p) ByteIFD)]"

definition spec_fields_before :: "exif_specific_info \<Rightarrow> ifd_entry list" where
  "spec_fields_before spec = spec_exposure_fields spec @ spec_date_fields spec @ spec_aperture_fields spec
     @ spec_lens_fields spec @ spec_user_fields spec @ spec_pixel_fields spec"

definition spec_fields_after :: "exif_specific_info \<Rightarrow> ifd_entry list" where
  "spec_fields_after spec = spec_focal_fields spec @ spec_sensor_fields spec @ spec_mode_fields spec
     @ spec_scene_fields spec"

subsection \<open>The GPS table\<close>

definition gps_position_fields :: "exif_gps_info \<Rightarrow> ifd_entry list" where
  "gps_position_fields gps = [
     field (valid_GPSVersionID (gps_valid gps)) IFD_GPSVERSIONID IFD_BYTE 4 (GPSVersionID gps) ByteIFD,
     field (valid_GPSLatitudeRef (gps_valid gps)) IFD_GPSLATITUDEREF IFD_ASCII 2 (GPSLatitudeRef gps) ByteIFD,
     field (valid_GPSLatitude (gps_valid gps)) IFD_GPSLATITUDE IFD_RATIONAL 3 (rationals (GPSLatitude gps)) RationalIFD,
     field (valid_GPSLongitudeRef (gps_valid gps)) IFD_GPSLONGITUDEREF IFD_ASCII 2 (GPSLongitudeRef gps) ByteIFD,
     field (valid_GPSLongitude (gps_valid gps)) IFD_GPSLONGITUDE IFD_RATIONAL 3 (rationals (GPSLongitude gps)) RationalIFD,
     field (valid_GPSAltitudeRef (gps_valid gps)) IFD_GPSALTITUDEREF IFD_BYTE 1 [GPSAltitudeRef gps] ByteIFD,
     field (valid_GPSAltitude (gps_valid gps)) IFD_GPSALTITUDE IFD_RATIONAL 1 (rational (GPSAltitude gps)) RationalIFD,
     field (valid_GPSTimeStamp (gps_valid gps)) IFD_GPSTIMESTAMP IFD_RATIONAL 3 (rationals (GPSTimeStamp gps)) RationalIFD]"

definition gps_motion_fields :: "exif_gps_info \<Rightarrow> ifd_entry list" where
  "gps_motion_fields gps = [
     text_field (valid_GPSSatellites (gps_valid gps)) IFD_GPSSATELLITES (GPSSatellites gps),
     field (valid_GPSStatus (gps_valid gps)) IFD_GPSSTATUS IFD_ASCII 2 (GPSStatus gps) ByteIFD,
     field (valid_GPSMeasureMode (gps_valid gps)) IFD_GPSMEASUREMODE IFD_ASCII 2 (GPSMeasureMode gps) ByteIFD,
     field (valid_GPSDOP (gps_valid gps)) IFD_GPSDOP IFD_RATIONAL 1 (rational (GPSDOP gps)) RationalIFD,
     field (valid_GPSSpeedRef (gps_valid gps)) IFD_GPSSPEEDREF IFD_ASCII 2 (GPSSpeedRef gps) ByteIFD,
     field (valid_GPSSpeed (gps_valid gps)) IFD_GPSSPEED IFD_RATIONAL 1 (rational (GPSSpeed gps)) RationalIFD,
     field (valid_GPSTrackRef (gps_valid gps)) IFD_GPSTRACKREF IFD_ASCII 2 (GPSTrackRef gps) ByteIFD,
     field (valid_GPSTrack (gps_valid gps)) IFD_GPSTRACK IFD_RATIONAL 1 (rational (GPSTrack gps)) RationalIFD,
     field (valid_GPSImgDirectionRef (gps_valid gps)) IFD_GPSIMGDIRECTIONREF IFD_ASCII 2 (GPSImgDirectionRef gps) ByteIFD]"

definition gps_dest_fields :: "exif_gps_info \<Rightarrow> ifd_entry list" where
  "gps_dest_fields gps = [
     field (valid_GPSImgDirection (gps_valid gps)) IFD_GPSIMGDIRECTION IFD_RATIONAL 1 (rational (GPSImgDirection gps)) RationalIFD,
     text_field (valid_GPSMapDatum (gps_valid gps)) IFD_GPSMAPDATUM (GPSMapDatum gps),
     field (valid_GPSDestLatitudeRef (gps_valid gps)) IFD_GPSDESTLATITUDEREF IFD_ASCII 2 (GPSDestLatitudeRef gps) ByteIFD,
     field (valid_GPSDestLatitude (gps_valid gps)) IFD_GPSDESTLATITUDE IFD_RATIONAL 3 (rationals (GPSDestLatitude gps)) RationalIFD,
     field (valid_GPSDestLongitudeRef (gps_valid gps)) IFD_GPSDESTLONGITUDEREF IFD_ASCII 2 (GPSDestLongitudeRef gps) ByteIFD,
     field (valid_GPSDestLatitude (gps_valid gps)) IFD_GPSDESTLONGITUDE IFD_RATIONAL 3 (rationals (GPSDestLongitude gps)) RationalIFD,
     field (valid_GPSDestBearingRef (gps_valid gps)) IFD_GPSDESTBEARINGREF IFD_ASCII 2 (GPSDestBearingRef gps) ByteIFD,
     field (valid_GPSDestBearing (gps_valid gps)) IFD_GPSDESTBEARING IFD_RATIONAL 1 (rational (GPSDestBearing gps)) RationalIFD]"

definition gps_text_fields :: "exif_gps_info \<Rightarrow> ifd_entry list" where
  "gps_text_fields gps = [
     field (valid_GPSDestDistanceRef (gps_valid gps)) IFD_GPSDESTDISTANCEREF IFD_ASCII 2 (GPSDestDistanceRef gps) ByteIFD,
     field (valid_GPSDestDistance (gps_valid gps)) IFD_GPSDESTDISTANCE IFD_RATIONAL 1 (rational (GPSDestDistance gps)) RationalIFD,
     custom_field (valid_GPSProcessingMethod (gps_valid gps)) IFD_GPSPROCESSINGMETHOD IFD_UNDEFINED (GPSProcessingMethod gps) ByteIFD,
     custom_field (valid_GPSAreaInformation (gps_valid gps)) IFD_GPSAREAINFORMATION IFD_UNDEFINED (GPSAreaInformation gps) ByteIFD,
     field (valid_GPSDateStamp (gps_valid gps)) IFD_GPSDATESTAMP IFD_ASCII 11 (GPSDateStamp gps) ByteIFD,
     field (valid_GPSDifferential (gps_valid gps)) IFD_GPSDIFFERENTIAL IFD_SHORT 1 (le16 (GPSDifferential gps)) ShortIFD]"

definition gps_fields :: "exif_gps_info \<Rightarrow> ifd_entry list" where
  "gps_fields gps = gps_position_fields gps @ gps_motion_fields gps @ gps_dest_fields gps @ gps_text_fields gps"

subsection \<open>The tables of the image and of the thumbnail, and the interoperability table\<close>

definition primary_desc_fields :: "exif_primary_info \<Rightarrow> ifd_entry list" where
  "primary_desc_fields primary = [
     on (data_struct_ptr primary) (\<lambda>p. value_field (valid_Reserved (data_struct_valid p)) IFD_COMPRESSION IFD_SHORT 1 (le16 (Reserved p)) (Reserved p) ShortIFD),
     on (img_desc_ptr primary) (\<lambda>p. text_field (valid_ImageDescription (desc_valid p)) IFD_IMAGEDESCRIPTION (ImageDescription p)),
     on (img_desc_ptr primary) (\<lambda>p. text_field (valid_Make (desc_valid p)) IFD_MAKE (Make p)),
     on (img_desc_ptr primary) (\<lambda>p. text_field (valid_Model (desc_valid p)) IFD_MODEL (Model p)),
     on (data_struct_ptr primary) (\<lambda>p. value_field (valid_Orientation (data_struct_valid p)) IFD_ORIENTATION IFD_SHORT 1 (le16 (Orientation p)) (Orientation p) ShortIFD),
     field True IFD_XRESOLUTION IFD_RATIONAL 1 (rational (XResolution (pri_basic primary))) RationalIFD,
     field True IFD_YRESOLUTION IFD_RATIONAL 1 (rational (YResolution (pri_basic primary))) RationalIFD,
     value_field True IFD_RESOLUTIONUNIT IFD_SHORT 1 (le16 (ResolutionUnit (pri_basic primary))) (ResolutionUnit (pri_basic primary)) ShortIFD]"

definition primary_char_fields :: "exif_primary_info \<Rightarrow> ifd_entry list" where
  "primary_char_fields primary = [
     on (data_char_ptr primary) (\<lambda>p. field (valid_TransferFunction (data_char_valid p)) IFD_TRANSFERFUNCTION IFD_SHORT 768 (shorts (TransferFunction p)) ShortIFD),
     on (img_desc_ptr primary) (\<lambda>p. text_field (valid_Software (desc_valid p)) IFD_SOFTWARE (Software p)),
     on (img_desc_ptr primary) (\<lambda>p. field (valid_DateTime (desc_valid p)) IFD_DATETIME IFD_ASCII 20 (DateTime p) ByteIFD),
     on (img_desc_ptr primary) (\<lambda>p. text_field (valid_Artist (desc_valid p)) IFD_ARTIST (Artist p)),
     on (data_char_ptr primary) (\<lambda>p. field (valid_WhitePoint (data_char_valid p)) IFD_WHITEPOINT IFD_RATIONAL 2 (rationals (WhitePoint p)) RationalIFD),
     on (data_char_ptr primary) (\<lambda>p. field (valid_PrimaryChromaticities (data_char_valid p)) IFD_PRIMARYCHROMATICITIES IFD_RATIONAL 6 (rationals (PrimaryChromaticities p)) RationalIFD)]"

definition primary_size_fields :: "exif_primary_info \<Rightarrow> ifd_entry list" where
  "primary_size_fields primary = [
     on (data_char_ptr primary) (\<lambda>p. field (valid_YCbCrCoefficients (data_char_valid p)) IFD_YCBCRCOEFFICIENTS IFD_RATIONAL 3 (rationals (YCbCrCoefficients p)) RationalIFD),
     field True IFD_YCBCRPOSITION IFD_SHORT 1 (le16 (YCbCrPositioning (pri_basic primary))) ShortIFD,
     field True IFD_IMAGEWIDTH IFD_LONG 1 (le32 (ImageWidth (pri_basic primary))) ShortIFD,
     field True IFD_IMAGELENGTH IFD_LONG 1 (le32 (ImageLength (pri_basic primary))) ShortIFD,
     on (data_char_ptr primary) (\<lambda>p. field (valid_ReferenceBlackWhite (data_char_valid p)) IFD_REFERENCEBLACKWHITE IFD_RATIONAL 6 (rationals (ReferenceBlackWhite p)) RationalIFD),
     on (img_desc_ptr primary) (\<lambda>p. text_field (valid_Copyright (desc_valid p)) IFD_COPYRIGHT (Copyright p))]"

definition inter_fields :: "exif_interoperability_info \<Rightarrow> ifd_entry list" where
  "inter_fields interop = [
     custom_field (valid_InteroperabilityIndex (inter_valid interop)) IFD_INTEROPERABILITYINDEX IFD_ASCII (InteroperabilityIndex interop) ByteIFD]"

definition primary_fields_before :: "exif_primary_info \<Rightarrow> ifd_entry list" where
  "primary_fields_before primary = primary_desc_fields primary @ primary_char_fields primary"

end
