(* ===== verification/ExifWriter.thy ===== *)
theory ExifWriter
  imports ExifStream ExifFields
begin

text \<open>
  The writer of \<^verbatim>\<open>exif_writer.c\<close>: the four functions that write one entry of a table, the functions
  that write the tables, and the APP1 segment around them.  \<^verbatim>\<open>JPEG_FAILED\<close> and \<^verbatim>\<open>FALSE\<close> are failing
  statements, with one exception that the code makes: where a function that returns a \<^verbatim>\<open>BOOLEAN\<close>
  returns \<^verbatim>\<open>JPEG_FAILED\<close>, which is \<^verbatim>\<open>0xff\<close>, its caller sees a success.
\<close>

subsection \<open>One entry\<close>

text \<open>The value field of an entry is a union of four bytes, two shorts and a word.\<close>

record ifd_info =
  info_tag :: u16
  info_type :: u16
  info_count :: u32
  value_offset :: bytes
  value_ptr :: bytes

definition byte_value :: "nat \<Rightarrow> bytes \<Rightarrow> u32" where
  "byte_value k u = ucast (u ! k)"

definition short_at :: "nat \<Rightarrow> bytes \<Rightarrow> u16" where
  "short_at k u = mk16 (u ! (2 * k + 1)) (u ! (2 * k))"

definition long_at :: "nat \<Rightarrow> bytes \<Rightarrow> u32" where
  "long_at k u = push_bit 24 (ucast (u ! (4 * k + 3))) OR push_bit 16 (ucast (u ! (4 * k + 2)))
     OR push_bit 8 (ucast (u ! (4 * k + 1))) OR ucast (u ! (4 * k))"

definition offset_value :: "ifd_info \<Rightarrow> u32" where
  "offset_value i =
     (let u = value_offset i in
      if info_type i \<in> {IFD_BYTE, IFD_ASCII, IFD_UNDEFINED}
      then if info_count i \<le> 4
           then push_bit 24 (byte_value 0 u) OR push_bit 16 (byte_value 1 u) OR push_bit 8 (byte_value 2 u)
                  OR byte_value 3 u
           else long_at 0 u
      else if info_type i = IFD_SHORT
      then if info_count i \<le> 2 then push_bit 16 (ucast (short_at 0 u)) OR ucast (short_at 1 u)
           else long_at 0 u
      else long_at 0 u)"

definition Jpeg_WriteIFD :: "ifd_info \<Rightarrow> unit wm" where
  "Jpeg_WriteIFD i = jseq [Jpeg_WriteW (info_tag i), Jpeg_WriteW (info_type i),
     Jpeg_WriteL (info_count i), Jpeg_WriteL (offset_value i)]"

definition align4 :: "u32 \<Rightarrow> u32" where
  "align4 n = push_bit 2 (drop_bit 2 (n + 3))"

text \<open>The position of the next entry and that of the next value.\<close>

type_synonym ifd_offsets = "u32 \<times> u32"

text \<open>Reading the value is undefined where the object behind \<^verbatim>\<open>value_ptr\<close> ends.\<close>

definition readable :: "nat \<Rightarrow> ifd_info \<Rightarrow> unit wm" where
  "readable n i = jcheck (\<lambda>_. n \<le> length (value_ptr i))"

definition write_header :: "ifd_info \<Rightarrow> u32 \<Rightarrow> u32 wm" where
  "write_header i ifd_offset =
     jthen (Jpeg_SetWritePos ifd_offset) (jthen (Jpeg_WriteIFD i) Jpeg_GetWritePos)"

definition write_values :: "u32 \<Rightarrow> unit wm \<Rightarrow> u32 wm" where
  "write_values val_offset m =
     jthen (Jpeg_SetWritePos val_offset) (jthen m (jbind Jpeg_GetWritePos (\<lambda>p. jret (align4 p))))"

definition Jpeg_WriteRationalIFD :: "ifd_info \<Rightarrow> ifd_offsets \<Rightarrow> ifd_offsets wm" where
  "Jpeg_WriteRationalIFD i offs =
     jbind (write_header i (fst offs)) (\<lambda>ifd_offset.
     jbind (write_values (snd offs)
              (jfor [0..<unat (info_count i)] (\<lambda>k.
                 jseq [readable (8 * k + 8) i, Jpeg_WriteL (long_at (2 * k) (value_ptr i)),
                   Jpeg_WriteL (long_at (2 * k + 1) (value_ptr i))])))
       (\<lambda>val_offset. jret (ifd_offset, val_offset)))"

definition Jpeg_WriteLongIFD :: "ifd_info \<Rightarrow> ifd_offsets \<Rightarrow> ifd_offsets wm" where
  "Jpeg_WriteLongIFD i offs =
     (let i' = (if info_count i \<le> 1 then i\<lparr>value_offset := le32 (long_at 0 (value_ptr i))\<rparr> else i) in
      jthen (if info_count i \<le> 1 then readable 4 i else jret ())
      (jbind (write_header i' (fst offs)) (\<lambda>ifd_offset.
       if info_count i > 1
       then jbind (write_values (snd offs)
              (jfor [0..<unat (info_count i)] (\<lambda>k.
                 jseq [readable (4 * k + 4) i, Jpeg_WriteL (long_at k (value_ptr i))])))
              (\<lambda>val_offset. jret (ifd_offset, val_offset))
       else jret (ifd_offset, snd offs))))"

text \<open>A failure that the caller takes for a success: the offsets stay those of the caller.\<close>

definition failure_as_success :: "'a \<Rightarrow> 'a wm \<Rightarrow> 'a wm" where
  "failure_as_success x m s = (case m s of JFail s' \<Rightarrow> JOk x s' | r \<Rightarrow> r)"

text \<open>Setting the position may fail as it should; only the failures of the loop are turned.\<close>

definition write_units :: "ifd_offsets \<Rightarrow> u32 \<Rightarrow> unit wm \<Rightarrow> ifd_offsets wm" where
  "write_units offs ifd_offset m =
     jthen (Jpeg_SetWritePos (snd offs))
       (failure_as_success offs
          (jthen m (jbind Jpeg_GetWritePos (\<lambda>p. jret (ifd_offset, align4 p)))))"

definition Jpeg_WriteShortIFD :: "ifd_info \<Rightarrow> ifd_offsets \<Rightarrow> ifd_offsets wm" where
  "Jpeg_WriteShortIFD i offs =
     (let v = value_ptr i; n = info_count i;
          i' = (if n \<le> 2 then i\<lparr>value_offset := le16 (short_at 0 v)
                                   @ le16 (if n = 2 then short_at 1 v else 0)\<rparr> else i) in
      jthen (if n \<le> 2 then readable (if n = 2 then 4 else 2) i else jret ())
      (jbind (write_header i' (fst offs)) (\<lambda>ifd_offset.
       if n > 2
       then write_units offs ifd_offset
              (jfor [0..<unat n] (\<lambda>k. jthen (readable (2 * k + 2) i) (Jpeg_WriteW (short_at k v))))
       else jret (ifd_offset, snd offs))))"

definition Jpeg_WriteByteIFD :: "ifd_info \<Rightarrow> ifd_offsets \<Rightarrow> ifd_offsets wm" where
  "Jpeg_WriteByteIFD i offs =
     (let v = value_ptr i; n = info_count i;
          i' = (if n \<le> 4 then i\<lparr>value_offset := take (unat n) v @ drop (unat n) (value_offset i)\<rparr>
                else i) in
      jthen (if n \<le> 4 then readable (unat n) i else jret ())
      (jbind (write_header i' (fst offs)) (\<lambda>ifd_offset.
       if n > 4
       then write_units offs ifd_offset
              (jfor [0..<unat n] (\<lambda>k. jthen (readable (k + 1) i) (Jpeg_WriteC (v ! k))))
       else jret (ifd_offset, snd offs))))"

definition write_with :: "ifd_writer \<Rightarrow> ifd_info \<Rightarrow> ifd_offsets \<Rightarrow> ifd_offsets wm" where
  "write_with w = (case w of ByteIFD \<Rightarrow> Jpeg_WriteByteIFD | ShortIFD \<Rightarrow> Jpeg_WriteShortIFD
     | LongIFD \<Rightarrow> Jpeg_WriteLongIFD | RationalIFD \<Rightarrow> Jpeg_WriteRationalIFD)"

subsection \<open>The entries of a table\<close>

text \<open>The offsets of a table and the number of its entries so far.\<close>

type_synonym ifd_state = "ifd_offsets \<times> u16"

definition entry_info :: "u32 \<Rightarrow> ifd_entry \<Rightarrow> u32 \<Rightarrow> u32 \<Rightarrow> ifd_info" where
  "entry_info ifh e n val_offset = \<lparr>info_tag = e_tag e, info_type = e_type e, info_count = n,
     value_offset = (case e_value e of None \<Rightarrow> le32 (val_offset - ifh) | Some v \<Rightarrow> le16 v @ le16 0),
     value_ptr = e_ptr e\<rparr>"

definition write_entry :: "u32 \<Rightarrow> ifd_entry \<Rightarrow> ifd_state \<Rightarrow> ifd_state wm" where
  "write_entry ifh e st =
     (if e_written e
      then (case e_count e of
              None \<Rightarrow> (\<lambda>s. JFault)
            | Some n \<Rightarrow> jbind (write_with (e_writer e) (entry_info ifh e n (snd (fst st))) (fst st))
                (\<lambda>offs. jret (offs, snd st + 1)))
      else jret st)"

primrec write_entries :: "u32 \<Rightarrow> ifd_entry list \<Rightarrow> ifd_state \<Rightarrow> ifd_state wm" where
  "write_entries ifh [] st = jret st"
| "write_entries ifh (e # es) st = jbind (write_entry ifh e st) (write_entries ifh es)"

text \<open>A table begins with the number of entries it has room for, and ends with the position of the
  next table; then the number of its entries is put in front.\<close>

definition begin_ifd :: "u16 \<Rightarrow> u32 \<Rightarrow> ifd_state wm" where
  "begin_ifd max_entries begin_offset =
     jthen (ignoring (Jpeg_SetWritePos begin_offset))
     (jthen (Jpeg_WriteW max_entries)
     (jbind Jpeg_GetWritePos (\<lambda>p.
      jret ((p, align4 (p + ucast max_entries * 12 + 4)), 0))))"

definition end_ifd :: "u32 \<Rightarrow> u32 \<Rightarrow> ifd_state \<Rightarrow> u32 wm" where
  "end_ifd begin_offset next_ifd st =
     jthen (ignoring (Jpeg_SetWritePos (fst (fst st))))
     (jthen (Jpeg_WriteL next_ifd)
     (jthen (ignoring (Jpeg_SetWritePos begin_offset))
     (jthen (Jpeg_WriteW (snd st)) (jret (snd (fst st))))))"

text \<open>An entry that points to another table, which is written behind the values; the table is written
  after the entry, and the entry is counted last.\<close>

definition write_pointer :: "u32 \<Rightarrow> u16 \<Rightarrow> (u32 \<Rightarrow> u32 wm) \<Rightarrow> ifd_state \<Rightarrow> ifd_state wm" where
  "write_pointer ifh t sub st =
     (let val_offset = align4 (snd (fst st)); offset = val_offset - ifh in
      jbind (Jpeg_WriteLongIFD \<lparr>info_tag = t, info_type = IFD_LONG, info_count = 1,
               value_offset = le32 offset, value_ptr = le32 offset\<rparr> (fst (fst st), val_offset))
      (\<lambda>offs. jbind (sub (snd offs)) (\<lambda>end_offset. jret ((fst offs, end_offset), snd st + 1))))"

subsection \<open>The tables\<close>

definition Jpeg_WriteExifInteroperabilityInfo ::
    "exif_interoperability_info option \<Rightarrow> u32 \<Rightarrow> u32 \<Rightarrow> u32 wm" where
  "Jpeg_WriteExifInteroperabilityInfo inter_opt ifh begin_offset =
     (case inter_opt of
        None \<Rightarrow> jfail
      | Some interop \<Rightarrow>
          jbind (begin_ifd 1 begin_offset) (\<lambda>st.
          jbind (write_entries ifh (inter_fields interop) st) (end_ifd begin_offset 0)))"

definition Jpeg_WriteExifSpecInfo ::
    "exif_specific_info option \<Rightarrow> exif_interoperability_info option \<Rightarrow> u32 \<Rightarrow> u32 \<Rightarrow> u32 wm" where
  "Jpeg_WriteExifSpecInfo spec_opt inter_opt ifh begin_offset =
     (case spec_opt of
        None \<Rightarrow> jfail
      | Some spec \<Rightarrow>
          jbind (begin_ifd 57 begin_offset) (\<lambda>st.
          jbind (write_entries ifh (spec_fields_before spec) st) (\<lambda>st.
          jbind (if inter_opt = None then jret st
                 else write_pointer ifh IFD_INTEROPERABILITYIFDPOINTER
                        (Jpeg_WriteExifInteroperabilityInfo inter_opt ifh) st) (\<lambda>st.
          jbind (write_entries ifh (spec_fields_after spec) st) (end_ifd begin_offset 0)))))"

definition Jpeg_WriteExifGPSInfo :: "exif_gps_info option \<Rightarrow> u32 \<Rightarrow> u32 \<Rightarrow> u32 wm" where
  "Jpeg_WriteExifGPSInfo gps_opt ifh begin_offset =
     (case gps_opt of
        None \<Rightarrow> jfail
      | Some gps \<Rightarrow>
          jbind (begin_ifd 31 begin_offset) (\<lambda>st.
          jbind (write_entries ifh (gps_fields gps) st) (end_ifd begin_offset 0)))"

text \<open>The thumbnail: null, or the bytes behind \<^verbatim>\<open>stream_buf_ptr\<close>.\<close>

definition thumbnail_fields :: "bytes option \<Rightarrow> ifd_entry list" where
  "thumbnail_fields thumbnail = (case thumbnail of None \<Rightarrow> [] | Some bs \<Rightarrow>
     if bs = [] then [] else
     [field True IFD_JPEGINTERCHANGEFORMATLENGTH IFD_LONG 1 (le32 (of_nat (length bs))) LongIFD])"

text \<open>The position of the thumbnail is written as 0 before its length, and again when the thumbnail
  itself has been written behind all values.  \<^term>\<open>thumb_at\<close> is \<^verbatim>\<open>thumbnail_ifd_offset\<close>.\<close>

definition offset_field :: "u32 \<Rightarrow> ifd_entry" where
  "offset_field v = field True IFD_JPEGINTERCHANGEFORMAT IFD_LONG 1 (le32 v) LongIFD"

definition has_thumbnail :: "bytes option \<Rightarrow> bool" where
  "has_thumbnail thumbnail = (case thumbnail of None \<Rightarrow> False | Some bs \<Rightarrow> bs \<noteq> [])"

definition write_thumbnail :: "u32 \<Rightarrow> bytes \<Rightarrow> u32 \<Rightarrow> ifd_state \<Rightarrow> ifd_state wm" where
  "write_thumbnail ifh bs thumb_at st =
     jthen (ignoring (Jpeg_SetWritePos (snd (fst st))))
     (jthen (Jpeg_WriteBlock bs)
     (jbind Jpeg_GetWritePos (\<lambda>end_offset.
      jthen (ignoring (Jpeg_SetWritePos thumb_at))
     (jbind (Jpeg_WriteLongIFD \<lparr>info_tag = IFD_JPEGINTERCHANGEFORMAT, info_type = IFD_LONG,
               info_count = 1, value_offset = le32 (snd (fst st) - ifh),
               value_ptr = le32 (snd (fst st) - ifh)\<rparr> (thumb_at, end_offset))
      (\<lambda>offs. jret ((fst (fst st), snd offs), snd st))))))"

text \<open>The table of an image, with the tables it points to and its thumbnail.  \<^verbatim>\<open>primary_ptr\<close> is not null
  in the two calls; a null pointer would be dereferenced before it is tested.\<close>

definition Jpeg_WriteExifIFD :: "exif_primary_info option \<Rightarrow> exif_specific_info option \<Rightarrow>
    exif_gps_info option \<Rightarrow> exif_interoperability_info option \<Rightarrow> bytes option \<Rightarrow> bool \<Rightarrow> u32 \<Rightarrow> u32 \<Rightarrow>
    u32 wm" where
  "Jpeg_WriteExifIFD primary_opt spec_opt gps_opt inter_opt thumbnail next_exists ifh begin_offset =
     (case primary_opt of
        None \<Rightarrow> (\<lambda>s. JFault)
      | Some primary \<Rightarrow>
          jbind (begin_ifd 24 begin_offset) (\<lambda>st.
          jbind (write_entries ifh (primary_fields_before primary) st) (\<lambda>st.
          let thumb_at = fst (fst st) in
          jbind (write_entries ifh
                   (if has_thumbnail thumbnail then offset_field 0 # thumbnail_fields thumbnail else []) st)
          (\<lambda>st.
          jbind (write_entries ifh (primary_size_fields primary) st) (\<lambda>st.
          jbind (if spec_opt = None then jret st
                 else write_pointer ifh IFD_EXIFIFDPOINTER
                        (Jpeg_WriteExifSpecInfo spec_opt inter_opt ifh) st) (\<lambda>st.
          jbind (if gps_opt = None then jret st
                 else write_pointer ifh IFD_GPSIFDPOINTER (Jpeg_WriteExifGPSInfo gps_opt ifh) st) (\<lambda>st.
          jbind (if has_thumbnail thumbnail then write_thumbnail ifh (the thumbnail) thumb_at st
                 else jret st) (\<lambda>st.
          end_ifd begin_offset (if next_exists then snd (fst st) - ifh else 0) st))))))))"

subsection \<open>The segment\<close>

definition Jpeg_WriteIFH :: "u32 \<Rightarrow> u32 wm" where
  "Jpeg_WriteIFH begin_offset =
     jthen (ignoring (Jpeg_SetWritePos begin_offset))
     (jthen (jseq [Jpeg_WriteW 0x4D4D, Jpeg_WriteW 0x002a, Jpeg_WriteL 8]) Jpeg_GetWritePos)"

definition Jpeg_WriteSOIMarker :: "u32 \<Rightarrow> u32 wm" where
  "Jpeg_WriteSOIMarker begin_offset =
     jthen (ignoring (Jpeg_SetWritePos begin_offset))
     (jthen (jseq [Jpeg_WriteC 0xFF, Jpeg_WriteC 0xD8]) Jpeg_GetWritePos)"

definition Jpeg_WriteAPP1Header :: "u32 \<Rightarrow> u16 \<Rightarrow> u32 wm" where
  "Jpeg_WriteAPP1Header begin_offset app1_length =
     jthen (ignoring (Jpeg_SetWritePos begin_offset))
     (jthen (jseq [Jpeg_WriteC 0xFF, Jpeg_WriteC 0xE1, Jpeg_WriteW app1_length])
     (jthen (jfor [0x45, 0x78, 0x69, 0x66, 0, 0] Jpeg_WriteC) Jpeg_GetWritePos))"

text \<open>The second table describes the thumbnail: 72 dots per inch, upright, compressed as JPEG.\<close>

definition ifd1_primary :: exif_primary_info where
  "ifd1_primary =
     \<lparr>pri_basic = \<lparr>YCbCrPositioning = 1, XResolution = \<lparr>numerator = 72, denominator = 1\<rparr>,
        YResolution = \<lparr>numerator = 72, denominator = 1\<rparr>, ResolutionUnit = 2, ImageWidth = 0,
        ImageLength = 0\<rparr>,
      data_struct_ptr = Some \<lparr>data_struct_valid = \<lparr>valid_Orientation = True, valid_Reserved = True\<rparr>,
        Orientation = 1, Reserved = 6\<rparr>,
      data_char_ptr = None, img_desc_ptr = None, pri_reserved = 0\<rparr>"

definition app1_context :: "bytes \<Rightarrow> wstream" where
  "app1_context target = \<lparr>write_buf = target, write_ptr = Some 0, write_file = None,
     write_file_size = 0, file_writes = []\<rparr>"

text \<open>The size that is returned is computed from the 16-bit length of the segment.\<close>

definition write_app1 :: "jinf_exif_info \<Rightarrow> bytes option \<Rightarrow> u32 wm" where
  "write_app1 info thumbnail =
     jbind (Jpeg_WriteIFH 10) (\<lambda>end_offset.
     jbind (Jpeg_WriteExifIFD (Some (exif_primary info)) (spec_ptr info) (gps_ptr info) (inter_ptr info)
              None (has_thumbnail thumbnail) 10 end_offset) (\<lambda>end_offset.
     jbind (if has_thumbnail thumbnail
            then Jpeg_WriteExifIFD (Some ifd1_primary) None None None thumbnail False 10 end_offset
            else jret end_offset) (\<lambda>end_offset.
     let app1_length = ucast end_offset - 2 :: u16 in
     jbind (Jpeg_WriteAPP1Header 0 app1_length) (\<lambda>_. jret (ucast app1_length + 2)))))"

definition Jpeg_WriteAPP1 :: "bytes option \<Rightarrow> jinf_exif_info option \<Rightarrow> bytes option \<Rightarrow>
    (u32, wstream) jres" where
  "Jpeg_WriteAPP1 target_buf exif_info thumbnail =
     (case exif_info of
        None \<Rightarrow> JFail (app1_context [])
      | Some info \<Rightarrow>
          (case target_buf of
             None \<Rightarrow> JFail (app1_context [])
           | Some target \<Rightarrow>
               if length target < 10 then JFail (app1_context target)
               else write_app1 info thumbnail (app1_context target)))"

end
