(* ===== verification/ExifLayout.thy ===== *)
theory ExifLayout
  imports ExifWriter
begin

text \<open>
  What the writer leaves in its buffer, without a file behind it.  A statement that emits bytes puts
  them at the write position; an entry is a head of twelve bytes in the table and, when its value is
  longer than four bytes, the value at the value offset.  Positions are natural numbers here; the
  offsets of the code are these numbers as long as the buffer is shorter than \<^term>\<open>2 ^ 32\<close>.
\<close>

subsection \<open>Statements that emit bytes\<close>

definition mem :: "bytes \<Rightarrow> nat \<Rightarrow> wstream" where
  "mem B p = \<lparr>write_buf = B, write_ptr = Some p, write_file = None, write_file_size = 0, file_writes = []\<rparr>"

lemma mem_fields [simp]:
  "write_buf (mem B p) = B" "write_ptr (mem B p) = Some p" "write_file (mem B p) = None"
  "mem B p\<lparr>write_buf := B'\<rparr> = mem B' p" "mem B p\<lparr>write_ptr := Some q\<rparr> = mem B q"
  by (simp_all add: mem_def)

definition put :: "nat \<Rightarrow> bytes \<Rightarrow> bytes \<Rightarrow> bytes" where
  "put p bs B = take p B @ bs @ drop (p + length bs) B"

lemma length_put [simp]: "p + length bs \<le> length B \<Longrightarrow> length (put p bs B) = length B"
  by (simp add: put_def)

lemma put_Nil [simp]: "put p [] B = B"
  by (simp add: put_def)

lemma put_put:
  assumes "p + length xs + length ys \<le> length B"
  shows "put (p + length xs) ys (put p xs B) = put p (xs @ ys) B"
proof -
  have "p \<le> length B" using assms by simp
  then show ?thesis by (simp add: put_def min_absorb2 drop_drop ac_simps)
qed

lemma put_one: "p < length B \<Longrightarrow> B[p := c] = put p [c] B"
  by (simp add: put_def upd_conv_take_nth_drop)

definition emits :: "unit wm \<Rightarrow> bytes \<Rightarrow> bool" where
  "emits m bs \<longleftrightarrow> (\<forall>B p. p + length bs \<le> length B
     \<longrightarrow> m (mem B p) = JOk () (mem (put p bs B) (p + length bs)))"

named_theorems emits_intros "statements that emit bytes"

lemma emitsD: "emits m bs \<Longrightarrow> p + length bs \<le> length B \<Longrightarrow>
    m (mem B p) = JOk () (mem (put p bs B) (p + length bs))"
  by (simp add: emits_def)

lemma emits_jret [emits_intros]: "emits (jret ()) []"
  by (simp add: emits_def jstmt)

lemma emits_jthen [emits_intros]:
  assumes "emits m xs" "emits n ys"
  shows "emits (jthen m n) (xs @ ys)"
  unfolding emits_def
proof (intro allI impI)
  fix B :: bytes and p assume *: "p + length (xs @ ys) \<le> length B"
  then have 1: "p + length xs \<le> length B" by simp
  have 2: "(p + length xs) + length ys \<le> length (put p xs B)" using * 1 by simp
  show "jthen m n (mem B p) = JOk () (mem (put p (xs @ ys) B) (p + length (xs @ ys)))"
    using * by (simp add: jstmt emitsD [OF assms(1) 1] emitsD [OF assms(2) 2] put_put add.assoc)
qed

lemma emits_WriteC [emits_intros]: "emits (Jpeg_WriteC c) [c]"
  by (simp add: emits_def Jpeg_WriteC_def jstmt put_one)

lemma emits_WriteW [emits_intros]: "emits (Jpeg_WriteW w) (be16 w)"
  using emits_jthen [OF emits_WriteC emits_WriteC, of "hi8 w" "lo8 w"]
  by (simp add: Jpeg_WriteW_def be16_def hi8_def lo8_def)

lemma four_updates:
  assumes "p + 4 \<le> length B"
  shows "B[p := a, p + 1 := b, p + 2 := c, p + 3 := d] = put p [a, b, c, d] B"
proof -
  have 1: "B[p := a] = put p [a] B" using assms by (simp add: put_one)
  have 2: "(put p [a] B)[p + 1 := b] = put p [a, b] B"
    using assms put_put [of p "[a]" "[b]" B] by (simp add: put_one)
  have 3: "(put p [a, b] B)[p + 2 := c] = put p [a, b, c] B"
    using assms put_put [of p "[a, b]" "[c]" B] by (simp add: put_one)
  have 4: "(put p [a, b, c] B)[p + 3 := d] = put p [a, b, c, d] B"
    using assms put_put [of p "[a, b, c]" "[d]" B] by (simp add: put_one numeral_3_eq_3)
  show ?thesis by (simp only: 1 2 3 4)
qed

lemma emits_WriteL [emits_intros]: "emits (Jpeg_WriteL l) (be32 l)"
  unfolding emits_def
proof (intro allI impI)
  fix B :: bytes and p assume "p + length (be32 l) \<le> length B"
  then have fits: "p + 4 \<le> length B" by simp
  have "Jpeg_WriteL l (mem B p) = JOk () (mem (put p (be32 l) B) (p + 4))"
    unfolding be32_def byte_of_def four_updates [OF fits, symmetric] using fits
    by (simp add: Jpeg_WriteL_def)
  then show "Jpeg_WriteL l (mem B p) = JOk () (mem (put p (be32 l) B) (p + length (be32 l)))" by simp
qed

lemma emits_jseq_Nil [emits_intros]: "emits (jseq []) []"
  by (simp add: emits_jret)

lemma emits_jseq_Cons [emits_intros]:
  "emits m xs \<Longrightarrow> emits (jseq ms) ys \<Longrightarrow> emits (jseq (m # ms)) (xs @ ys)"
  by (simp add: emits_jthen)

lemma emits_jfor: "(\<And>x. x \<in> set xs \<Longrightarrow> emits (f x) (g x)) \<Longrightarrow> emits (jfor xs f) (concat (map g xs))"
proof (induction xs)
  case (Cons x xs)
  have "emits (jthen (f x) (jfor xs f)) (g x @ concat (map g xs))"
    by (intro emits_jthen Cons.IH Cons.prems) simp_all
  then show ?case by simp
qed (simp add: emits_jret)

lemma emits_readable [emits_intros]: "n \<le> length (value_ptr i) \<Longrightarrow> emits (readable n i) []"
  by (simp add: emits_def readable_def jstmt)

lemma emits_eq: "emits m xs \<Longrightarrow> xs = ys \<Longrightarrow> emits m ys"
  by simp

lemma emits_jbind_ret: "emits m bs \<Longrightarrow> p + length bs \<le> length B \<Longrightarrow>
    jthen m n (mem B p) = n (mem (put p bs B) (p + length bs))"
  by (simp add: jstmt emitsD)

lemma emits_ignoring: "emits m bs \<Longrightarrow> emits (ignoring m) bs"
  by (simp add: emits_def ignoring_def)

lemma emits_WriteBlock: "emits (Jpeg_WriteBlock bs) bs"
proof -
  have "emits (jfor bs (\<lambda>b. ignoring (Jpeg_WriteC b))) (concat (map (\<lambda>b. [b]) bs))"
    by (intro emits_jfor emits_ignoring emits_WriteC)
  then show ?thesis by (simp add: emits_def Jpeg_WriteBlock_def jstmt)
qed

subsection \<open>Positions\<close>

definition pad4 :: "nat \<Rightarrow> nat" where
  "pad4 n = 4 * ((n + 3) div 4)"

abbreviation small :: "bytes \<Rightarrow> bool" where
  "small B \<equiv> length B + 4 < 2 ^ 32"

lemma unat_of_nat_u32: "n < 2 ^ 32 \<Longrightarrow> unat (of_nat n :: u32) = n"
  by (simp add: unat_of_nat)

lemma unat_position: "small B \<Longrightarrow> p \<le> length B \<Longrightarrow> unat (of_nat p :: u32) = p"
  by (rule unat_of_nat_u32) linarith

lemma SetWritePos_mem:
  assumes "small B" "x \<le> length B"
  shows "Jpeg_SetWritePos (of_nat x) (mem B p) = JOk () (mem B x)"
  using assms by (simp add: Jpeg_SetWritePos_def jstmt Let_def unat_position word_less_nat_alt)

lemma GetWritePos_mem: "p \<le> length B \<Longrightarrow> Jpeg_GetWritePos (mem B p) = JOk (of_nat p) (mem B p)"
  by (simp add: Jpeg_GetWritePos_def jstmt)

lemma align4_of_nat:
  assumes "n + 3 < 2 ^ 32"
  shows "align4 (of_nat n) = of_nat (pad4 n)"
proof -
  have inverse: "of_nat (unat w) = w" for w :: u32 by simp
  have "unat (of_nat n + 3 :: u32) = n + 3"
    using unat_of_nat_u32 [OF assms] by (simp add: add.commute)
  then have "unat (drop_bit 2 (of_nat n + 3 :: u32)) = (n + 3) div 4"
    by (simp add: drop_bit_eq_div unat_div)
  then have "drop_bit 2 (of_nat n + 3 :: u32) = of_nat ((n + 3) div 4)"
    by (metis inverse)
  then show ?thesis by (simp add: align4_def pad4_def push_bit_eq_mult)
qed

lemma pad4_bounds: "n \<le> pad4 n" "pad4 n \<le> n + 3"
  by (simp_all add: pad4_def)

lemma pad4_dvd [simp]: "4 dvd pad4 n"
  by (simp add: pad4_def)

lemma pad4_of_dvd: "4 dvd n \<Longrightarrow> pad4 (n + k) = n + pad4 k"
  by (auto simp: pad4_def add.assoc elim!: dvdE)

lemma pad4_0 [simp]: "pad4 0 = 0"
  by (simp add: pad4_def)

lemma pad4_mono: "m \<le> n \<Longrightarrow> pad4 m \<le> pad4 n"
  by (simp add: pad4_def div_le_mono)

subsection \<open>What a part of the buffer holds\<close>

definition held :: "bytes \<Rightarrow> nat \<Rightarrow> bytes \<Rightarrow> bool" where
  "held B p bs \<longleftrightarrow> load p (length bs) B = Some bs"

text \<open>The second buffer differs from the first one inside a set of positions only.\<close>

definition changed :: "nat set \<Rightarrow> bytes \<Rightarrow> bytes \<Rightarrow> bool" where
  "changed R B B' \<longleftrightarrow> length B' = length B \<and> (\<forall>i < length B. i \<notin> R \<longrightarrow> B' ! i = B ! i)"

lemma changed_length: "changed R B B' \<Longrightarrow> length B' = length B"
  by (simp add: changed_def)

lemma changed_refl [simp]: "changed R B B"
  by (simp add: changed_def)

lemma changed_trans: "changed R B B' \<Longrightarrow> changed S B' B'' \<Longrightarrow> R \<union> S \<subseteq> T \<Longrightarrow> changed T B B''"
  by (fastforce simp: changed_def)

lemma changed_mono: "changed R B B' \<Longrightarrow> R \<subseteq> S \<Longrightarrow> changed S B B'"
  by (auto simp: changed_def)

lemma changed_put: "p + length bs \<le> length B \<Longrightarrow> changed {p..<p + length bs} B (put p bs B)"
  by (auto simp: changed_def put_def nth_append min_def)

lemma load_changed:
  assumes "changed R B B'" "R \<inter> {p..<p + n} = {}"
  shows "load p n B' = load p n B"
proof (cases "p + n \<le> length B")
  case True
  have "B' ! (p + i) = B ! (p + i)" if "i < n" for i
  proof -
    have "p + i \<notin> R" using assms(2) that by fastforce
    then show ?thesis using assms(1) True that by (simp add: changed_def)
  qed
  then have "chunk p n B' = chunk p n B"
    using True changed_length [OF assms(1)] by (intro nth_equalityI) (simp_all add: chunk_def)
  then show ?thesis using changed_length [OF assms(1)] by (simp add: load_def)
qed (simp add: load_def changed_length [OF assms(1)])

lemma held_changed:
  assumes "held B p bs" "changed R B B'" "R \<inter> {p..<p + length bs} = {}"
  shows "held B' p bs"
  using assms(1) load_changed [OF assms(2,3)] by (simp add: held_def)

lemma held_put: "p + length bs \<le> length B \<Longrightarrow> held (put p bs B) p bs"
  by (simp add: held_def load_def put_def chunk_def)

lemma held_Nil: "p \<le> length B \<Longrightarrow> held B p []"
  by (simp add: held_def load_def chunk_def)

subsection \<open>Entries in the buffer\<close>

definition units :: "ifd_entry \<Rightarrow> nat" where
  "units e = unat (the (e_count e))"

text \<open>The bytes of the value in the file, which is big-endian.\<close>

definition wire :: "ifd_entry \<Rightarrow> bytes" where
  "wire e =
     (case e_writer e of
        ByteIFD \<Rightarrow> take (units e) (e_ptr e)
      | ShortIFD \<Rightarrow> if e_type e = IFD_SHORT
                    then concat (map (\<lambda>k. be16 (short_at k (e_ptr e))) [0..<units e])
                    else be32 (ucast (short_at 0 (e_ptr e)))
      | LongIFD \<Rightarrow> concat (map (\<lambda>k. be32 (long_at k (e_ptr e))) [0..<units e])
      | RationalIFD \<Rightarrow>
          concat (map (\<lambda>k. be32 (long_at (2 * k) (e_ptr e)) @ be32 (long_at (2 * k + 1) (e_ptr e)))
                    [0..<units e]))"

text \<open>What the writers need: a type that goes with the writer, and all of the value in its object.\<close>

definition entry_ok :: "ifd_entry \<Rightarrow> bool" where
  "entry_ok e \<longleftrightarrow> (e_written e \<longrightarrow> e_count e \<noteq> None \<and> 0 < units e \<and>
     (case e_writer e of
        ByteIFD \<Rightarrow> e_type e \<in> {IFD_BYTE, IFD_ASCII, IFD_UNDEFINED} \<and> units e \<le> length (e_ptr e)
                     \<and> e_value e = None
      | ShortIFD \<Rightarrow> 2 * units e \<le> length (e_ptr e) \<and> (e_value e = None \<or> units e \<le> 2)
                     \<and> (e_type e = IFD_SHORT \<or> e_type e = IFD_LONG \<and> units e = 1)
      | LongIFD \<Rightarrow> e_type e \<in> {IFD_LONG, IFD_SLONG} \<and> 4 * units e \<le> length (e_ptr e) \<and> e_value e = None
      | RationalIFD \<Rightarrow> e_type e \<in> {IFD_RATIONAL, IFD_SRATIONAL} \<and> 8 * units e \<le> length (e_ptr e)
                     \<and> e_value e = None))"

definition inline :: "ifd_entry \<Rightarrow> bool" where
  "inline e \<longleftrightarrow> length (wire e) \<le> 4"

definition entry_data :: "ifd_entry \<Rightarrow> bytes" where
  "entry_data e = (if inline e then [] else wire e)"

definition entry_field :: "nat \<Rightarrow> nat \<Rightarrow> ifd_entry \<Rightarrow> bytes" where
  "entry_field ifh vo e =
     (if inline e
      then wire e @ (if e_writer e = ByteIFD then drop (units e) (le32 (of_nat (vo - ifh)))
                     else replicate (4 - length (wire e)) 0)
      else be32 (of_nat (vo - ifh)))"

definition entry_head :: "nat \<Rightarrow> nat \<Rightarrow> ifd_entry \<Rightarrow> bytes" where
  "entry_head ifh vo e =
     be16 (e_tag e) @ be16 (e_type e) @ be32 (of_nat (units e)) @ entry_field ifh vo e"

definition room :: "ifd_entry \<Rightarrow> nat" where
  "room e = (if e_written e then pad4 (length (entry_data e)) else 0)"

fun held_entries :: "bytes \<Rightarrow> nat \<Rightarrow> nat \<Rightarrow> nat \<Rightarrow> ifd_entry list \<Rightarrow> bool" where
  "held_entries B ifh io vo [] \<longleftrightarrow> True"
| "held_entries B ifh io vo (e # es) \<longleftrightarrow>
     (if e_written e
      then held B io (entry_head ifh vo e) \<and> held B vo (entry_data e)
           \<and> held_entries B ifh (io + 12) (vo + room e) es
      else held_entries B ifh io vo es)"

definition rooms :: "ifd_entry list \<Rightarrow> nat" where
  "rooms es = sum_list (map room es)"

definition count_written :: "ifd_entry list \<Rightarrow> nat" where
  "count_written es = length (filter e_written es)"

lemma rooms_simps [simp]: "rooms [] = 0" "rooms (e # es) = room e + rooms es"
  by (simp_all add: rooms_def)

lemma count_written_simps [simp]:
  "count_written [] = 0" "count_written (e # es) = (if e_written e then 1 else 0) + count_written es"
  by (simp_all add: count_written_def)

lemma length_entry_field:
  assumes "entry_ok e" "e_written e"
  shows "length (entry_field ifh vo e) = 4"
proof (cases "inline e \<and> e_writer e = ByteIFD")
  case True
  moreover from this have "length (wire e) = units e"
    using assms by (simp add: wire_def entry_ok_def)
  ultimately show ?thesis by (simp add: entry_field_def inline_def)
qed (auto simp: entry_field_def inline_def)

lemma length_entry_head: "entry_ok e \<Longrightarrow> e_written e \<Longrightarrow> length (entry_head ifh vo e) = 12"
  by (simp add: entry_head_def length_entry_field)

lemma disjoint_part: "R \<inter> {a..<b} = {} \<Longrightarrow> a \<le> a' \<Longrightarrow> b' \<le> b \<Longrightarrow> R \<inter> {a'..<b'} = {}" for a :: nat
  by (auto simp: disjoint_iff)

lemma held_entries_changed:
  assumes "held_entries B ifh io vo es" "changed R B B'" "\<forall>e\<in>set es. entry_ok e"
    and "R \<inter> {io..<io + 12 * count_written es} = {}" "R \<inter> {vo..<vo + rooms es} = {}"
  shows "held_entries B' ifh io vo es"
  using assms
proof (induction es arbitrary: io vo)
  case (Cons e es)
  show ?case
  proof (cases "e_written e")
    case True
    have len: "length (entry_head ifh vo e) = 12"
      using Cons.prems(3) True by (simp add: length_entry_head)
    have data: "length (entry_data e) \<le> room e" using True pad4_bounds by (simp add: room_def)
    have "held B' io (entry_head ifh vo e)"
      using Cons.prems(1) True
      by (intro held_changed [OF _ Cons.prems(2) disjoint_part [OF Cons.prems(4)]]) (simp_all add: len)
    moreover have "held B' vo (entry_data e)"
      using Cons.prems(1) True data
      by (intro held_changed [OF _ Cons.prems(2) disjoint_part [OF Cons.prems(5)]]) simp_all
    moreover have "held_entries B' ifh (io + 12) (vo + room e) es"
      using Cons.prems(1,3) True
      by (intro Cons.IH [OF _ Cons.prems(2) _ disjoint_part [OF Cons.prems(4)]
            disjoint_part [OF Cons.prems(5)]]) simp_all
    ultimately show ?thesis using True by simp
  qed (use Cons in \<open>simp add: room_def\<close>)
qed simp

end
