(* ===== verification/ExifTable.thy ===== *)
theory ExifTable
  imports ExifLayout
begin

text \<open>
  One entry after the other: each of the four writers leaves the head of its entry in the table and
  its value at the value offset, and moves both offsets on.
\<close>

subsection \<open>The value field\<close>

definition pack32 :: "u8 \<Rightarrow> u8 \<Rightarrow> u8 \<Rightarrow> u8 \<Rightarrow> u32" where
  "pack32 a b c d = push_bit 24 (ucast a) OR push_bit 16 (ucast b) OR push_bit 8 (ucast c) OR ucast d"

lemma bit_pack32: "bit (pack32 a b c d) n \<longleftrightarrow> n < 32 \<and>
    (if n < 8 then bit d n else if n < 16 then bit c (n - 8) else if n < 24 then bit b (n - 16)
     else bit a (n - 24))"
  by (auto simp: pack32_def bit_simps dest: bit_imp_le_length)

lemma bit_byte: "bit (byte_of k w) n \<longleftrightarrow> n < 8 \<and> bit w (n + 8 * k)"
  by (auto simp: byte_of_def bit_simps add.commute)

lemma bytes_of_pack32: "byte_of 3 (pack32 a b c d) = a" "byte_of 2 (pack32 a b c d) = b"
    "byte_of 1 (pack32 a b c d) = c" "byte_of 0 (pack32 a b c d) = d"
  by (rule bit_eqI, auto simp: bit_byte bit_pack32 bit_imp_le_length)+

lemma pack32_bytes_of: "pack32 (byte_of 3 w) (byte_of 2 w) (byte_of 1 w) (byte_of 0 w) = w"
  by (rule bit_eqI) (auto simp: bit_byte bit_pack32)

lemma be32_pack32: "be32 (pack32 a b c d) = [a, b, c, d]"
  by (simp add: be32_def bytes_of_pack32 bytes_of_pack32 [unfolded One_nat_def])

lemma long_at_le32 [simp]: "long_at 0 (le32 w) = w"
  using pack32_bytes_of [of w] by (simp add: long_at_def le32_def pack32_def)

lemma short_at_0: "short_at 0 (a # b # u) = mk16 b a"
  by (simp add: short_at_def)

lemma short_at_le16 [simp]: "short_at 0 (le16 s @ u) = s" "short_at 0 (le16 s) = s"
    "short_at 1 (le16 s @ le16 t) = t"
  by (simp_all add: short_at_def le16_def)

lemma long_at_le16 [simp]: "long_at 0 (le16 s @ le16 0) = ucast s"
  by (rule bit_eqI) (auto simp: long_at_def le16_def lo8_def hi8_def bit_simps dest: bit_imp_le_length)

lemma be32_shorts: "be32 (push_bit 16 (ucast s) OR ucast t) = be16 s @ be16 t"
proof -
  have "push_bit 16 (ucast s) OR ucast t = pack32 (hi8 s) (lo8 s) (hi8 t) (lo8 t)"
    by (rule bit_eqI)
      (auto simp: bit_pack32 bit_hi8 bit_lo8 bit_simps dest: bit_imp_le_length)
  then show ?thesis by (simp add: be32_pack32 be16_def)
qed

lemma be16_0: "be16 0 = [0, 0]"
  by (simp add: be16_def hi8_def lo8_def)

lemma four: "length u = 4 \<Longrightarrow> \<exists>a b c d. u = [a, b, c, d]"
  by (auto simp: numeral_eq_Suc length_Suc_conv)

lemma be32_offset_value_bytes:
  assumes "info_type i \<in> {IFD_BYTE, IFD_ASCII, IFD_UNDEFINED}" "info_count i \<le> 4"
    and "length (value_offset i) = 4"
  shows "be32 (offset_value i) = value_offset i"
proof -
  obtain a b c d where "value_offset i = [a, b, c, d]" using four [OF assms(3)] by blast
  then show ?thesis using assms be32_pack32 [of a b c d]
    by (simp add: offset_value_def byte_value_def pack32_def eval_nat_numeral)
qed

subsection \<open>The parts of an entry\<close>

definition info_head :: "ifd_info \<Rightarrow> bytes" where
  "info_head i = be16 (info_tag i) @ be16 (info_type i) @ be32 (info_count i) @ be32 (offset_value i)"

lemma length_info_head [simp]: "length (info_head i) = 12"
  by (simp add: info_head_def)

lemma emits_WriteIFD: "emits (Jpeg_WriteIFD i) (info_head i)"
  unfolding Jpeg_WriteIFD_def info_head_def
  by (rule emits_eq, (rule emits_intros)+) simp

lemma write_header_mem:
  assumes "small B" "io + 12 \<le> length B"
  shows "write_header i (of_nat io) (mem B p) = JOk (of_nat (io + 12)) (mem (put io (info_head i) B) (io + 12))"
  using assms emitsD [OF emits_WriteIFD [of i], where B = B and p = io]
  by (simp add: write_header_def jstmt SetWritePos_mem GetWritePos_mem)

lemma write_values_mem:
  assumes "emits m bs" "small B" "vo + length bs \<le> length B"
  shows "write_values (of_nat vo) m (mem B p)
    = JOk (of_nat (pad4 (vo + length bs))) (mem (put vo bs B) (vo + length bs))"
  using assms emitsD [OF assms(1,3)]
  by (simp add: write_values_def jstmt SetWritePos_mem GetWritePos_mem align4_of_nat
      del: of_nat_add)

lemma write_units_mem:
  assumes "emits m bs" "small B" "vo + length bs \<le> length B"
  shows "write_units (oi, of_nat vo) io' m (mem B p)
    = JOk (io', of_nat (pad4 (vo + length bs))) (mem (put vo bs B) (vo + length bs))"
  using assms emitsD [OF assms(1,3)]
  by (simp add: write_units_def failure_as_success_def jstmt SetWritePos_mem GetWritePos_mem
      align4_of_nat del: of_nat_add)

subsection \<open>The four writers\<close>

lemma info_head_eq:
  assumes "be32 (offset_value i) = entry_field ifh vo e" "info_tag i = e_tag e" "info_type i = e_type e"
    and "info_count i = of_nat (units e)"
  shows "info_head i = entry_head ifh vo e"
  using assms by (simp add: info_head_def entry_head_def)

lemma offset_diff: "ifh \<le> vo \<Longrightarrow> of_nat vo - of_nat ifh = (of_nat (vo - ifh) :: u32)"
  by (simp add: of_nat_diff)

lemma entry_info_fields [simp]:
  "info_tag (entry_info ifh e n v) = e_tag e" "info_type (entry_info ifh e n v) = e_type e"
  "info_count (entry_info ifh e n v) = n" "value_ptr (entry_info ifh e n v) = e_ptr e"
  "e_value e = None \<Longrightarrow> value_offset (entry_info ifh e n v) = le32 (v - ifh)"
  "value_offset (entry_info ifh e n v\<lparr>value_offset := u\<rparr>) = u"
  by (simp_all add: entry_info_def)

text \<open>The state after an entry.\<close>

definition after_entry :: "nat \<Rightarrow> nat \<Rightarrow> nat \<Rightarrow> ifd_entry \<Rightarrow> bytes \<Rightarrow> bytes" where
  "after_entry ifh io vo e B = put vo (entry_data e) (put io (entry_head ifh vo e) B)"

definition entry_done :: "nat \<Rightarrow> nat \<Rightarrow> nat \<Rightarrow> ifd_entry \<Rightarrow> bytes \<Rightarrow> (ifd_offsets, wstream) jres \<Rightarrow> bool" where
  "entry_done ifh io vo e B r \<longleftrightarrow>
     (\<exists>q \<le> length B. r = JOk (of_nat (io + 12), of_nat (vo + room e)) (mem (after_entry ifh io vo e B) q))"

definition entry_fits :: "nat \<Rightarrow> nat \<Rightarrow> nat \<Rightarrow> ifd_entry \<Rightarrow> bytes \<Rightarrow> bool" where
  "entry_fits ifh io vo e B \<longleftrightarrow> entry_ok e \<and> e_written e \<and> small B \<and> ifh \<le> vo \<and> 4 dvd vo
     \<and> io + 12 \<le> length B \<and> vo + length (entry_data e) \<le> length B"

lemma length_concat_map: "(\<And>x. x \<in> set xs \<Longrightarrow> length (f x) = n) \<Longrightarrow> length (concat (map f xs)) = n * length xs"
  by (induction xs) auto

lemma entry_done_inline:
  assumes "entry_fits ifh io vo e B" "inline e" "info_head i = entry_head ifh vo e"
    and "r = jbind (write_header i (of_nat io)) (\<lambda>o'. jret (o', of_nat vo)) (mem B p)"
  shows "entry_done ifh io vo e B r"
  using assms
  by (auto simp: entry_done_def entry_fits_def after_entry_def write_header_mem jstmt entry_data_def room_def)

lemma pos_after: "vo + length ws \<le> length B \<Longrightarrow> 4 dvd vo \<Longrightarrow>
    pad4 (vo + length ws) = vo + pad4 (length ws)"
  by (rule pad4_of_dvd)

lemma entry_done_values:
  assumes "entry_fits ifh io vo e B" "\<not> inline e" "info_head i = entry_head ifh vo e" "emits m (wire e)"
    and "r = jbind (write_header i (of_nat io)) (\<lambda>o'. jbind (write_values (of_nat vo) m)
               (\<lambda>v. jret (o', v))) (mem B p)"
  shows "entry_done ifh io vo e B r"
proof -
  have fits: "small B" "io + 12 \<le> length B" "4 dvd vo" "vo + length (wire e) \<le> length B"
    using assms(1,2) by (simp_all add: entry_fits_def entry_data_def)
  let ?B = "put io (info_head i) B"
  have B: "length ?B = length B" using fits by simp
  have "r = JOk (of_nat (io + 12), of_nat (vo + pad4 (length (wire e))))
      (mem (put vo (wire e) ?B) (vo + length (wire e)))"
    using write_values_mem [OF assms(4), of ?B vo "io + 12"] fits B
    by (simp add: assms(5) jstmt write_header_mem pos_after del: of_nat_add)
  then show ?thesis using assms fits
    by (auto simp: entry_done_def after_entry_def entry_data_def room_def entry_fits_def)
qed

lemma entry_done_units:
  assumes "entry_fits ifh io vo e B" "\<not> inline e" "info_head i = entry_head ifh vo e" "emits m (wire e)"
    and "r = jbind (write_header i (of_nat io)) (\<lambda>o'. write_units (oi, of_nat vo) o' m) (mem B p)"
  shows "entry_done ifh io vo e B r"
proof -
  have fits: "small B" "io + 12 \<le> length B" "4 dvd vo" "vo + length (wire e) \<le> length B"
    using assms(1,2) by (simp_all add: entry_fits_def entry_data_def)
  let ?B = "put io (info_head i) B"
  have B: "length ?B = length B" using fits by simp
  have "r = JOk (of_nat (io + 12), of_nat (vo + pad4 (length (wire e))))
      (mem (put vo (wire e) ?B) (vo + length (wire e)))"
    using write_units_mem [OF assms(4), of ?B vo oi "of_nat (io + 12)" "io + 12"] fits B
    by (simp add: assms(5) jstmt write_header_mem pos_after del: of_nat_add)
  then show ?thesis using assms fits
    by (auto simp: entry_done_def after_entry_def entry_data_def room_def entry_fits_def)
qed

lemma count_word: "e_count e = Some n \<Longrightarrow> of_nat (units e) = n \<and> unat n = units e"
  by (simp add: units_def)

lemma entry_field_outline: "\<not> inline e \<Longrightarrow> entry_field ifh vo e = be32 (of_nat (vo - ifh))"
  by (simp add: entry_field_def)

lemma skip_statements:
  "jthen (jret ()) m = m" "n \<le> length (value_ptr i) \<Longrightarrow> jthen (readable n i) m = m"
  by (rule ext, simp add: jstmt readable_def)+

lemma WriteByteIFD_done:
  assumes "entry_fits ifh io vo e B" "e_count e = Some n" "e_writer e = ByteIFD"
  shows "entry_done ifh io vo e B
    (Jpeg_WriteByteIFD (entry_info (of_nat ifh) e n (of_nat vo)) (of_nat io, of_nat vo) (mem B p))"
proof -
  have n: "of_nat (units e) = n" "unat n = units e" using count_word [OF assms(2)] by simp_all
  have ok: "e_type e \<in> {IFD_BYTE, IFD_ASCII, IFD_UNDEFINED}" "units e \<le> length (e_ptr e)"
      "e_value e = None" "ifh \<le> vo" "wire e = take (units e) (e_ptr e)"
    using assms(1,3) by (simp_all add: entry_fits_def entry_ok_def wire_def)
  have len: "length (wire e) = units e" using ok by simp
  let ?i = "entry_info (of_nat ifh) e n (of_nat vo)"
  show ?thesis
  proof (cases "inline e")
    case True
    then have small: "n \<le> 4" using len n by (simp add: inline_def word_le_nat_alt)
    let ?u = "take (units e) (e_ptr e) @ drop (units e) (value_offset ?i)"
    have u: "?u = entry_field ifh vo e"
      using ok True assms(3) by (simp add: entry_field_def)
    have "length ?u = 4" using True len ok by (simp add: inline_def)
    then have "be32 (offset_value (?i\<lparr>value_offset := ?u\<rparr>)) = ?u"
      using be32_offset_value_bytes [of "?i\<lparr>value_offset := ?u\<rparr>"] ok(1) small by simp
    then have "info_head (?i\<lparr>value_offset := ?u\<rparr>) = entry_head ifh vo e"
      using u n by (intro info_head_eq) simp_all
    then show ?thesis
    proof (rule entry_done_inline [OF assms(1) True])
      show "Jpeg_WriteByteIFD ?i (of_nat io, of_nat vo) (mem B p)
          = jbind (write_header (?i\<lparr>value_offset := ?u\<rparr>) (of_nat io)) (\<lambda>o'. jret (o', of_nat vo)) (mem B p)"
        using small n ok(2) leD [OF small] by (simp add: Jpeg_WriteByteIFD_def Let_def skip_statements)
    qed
  next
    case False
    then have large: "\<not> n \<le> 4" "n > 4" using len n by (simp_all add: inline_def word_le_nat_alt word_less_nat_alt)
    have "offset_value ?i = of_nat (vo - ifh)"
      using ok large by (auto simp: offset_value_def Let_def)
    then have head: "info_head ?i = entry_head ifh vo e"
      using False n by (intro info_head_eq) (simp_all add: entry_field_outline)
    have "emits (jfor [0..<units e] (\<lambda>k. jthen (readable (k + 1) ?i) (Jpeg_WriteC (e_ptr e ! k))))
        (concat (map (\<lambda>k. [] @ [e_ptr e ! k]) [0..<units e]))"
      using ok(2) by (intro emits_jfor emits_jthen emits_readable emits_WriteC) simp
    moreover have "concat (map (\<lambda>k. [] @ [e_ptr e ! k]) [0..<units e]) = wire e"
      using ok(2) by (simp add: ok(5)) (rule nth_equalityI, simp_all)
    ultimately have "emits (jfor [0..<unat n] (\<lambda>k. jthen (readable (k + 1) ?i) (Jpeg_WriteC (e_ptr e ! k))))
        (wire e)"
      by (simp only: n)
    then show ?thesis
    proof (rule entry_done_units [OF assms(1) False head])
      show "Jpeg_WriteByteIFD ?i (of_nat io, of_nat vo) (mem B p)
          = jbind (write_header ?i (of_nat io)) (\<lambda>o'. write_units (of_nat io, of_nat vo) o'
              (jfor [0..<unat n] (\<lambda>k. jthen (readable (k + 1) ?i) (Jpeg_WriteC (e_ptr e ! k))))) (mem B p)"
        using large by (simp add: Jpeg_WriteByteIFD_def Let_def skip_statements)
    qed
  qed
qed

lemma WriteShortIFD_done:
  assumes "entry_fits ifh io vo e B" "e_count e = Some n" "e_writer e = ShortIFD"
  shows "entry_done ifh io vo e B
    (Jpeg_WriteShortIFD (entry_info (of_nat ifh) e n (of_nat vo)) (of_nat io, of_nat vo) (mem B p))"
proof -
  have n: "of_nat (units e) = n" "unat n = units e" using count_word [OF assms(2)] by simp_all
  have ok: "2 * units e \<le> length (e_ptr e)" "0 < units e" "ifh \<le> vo"
      "e_type e = IFD_SHORT \<or> e_type e = IFD_LONG \<and> units e = 1" "e_value e = None \<or> units e \<le> 2"
    using assms(1,3) by (simp_all add: entry_fits_def entry_ok_def)
  have len: "length (wire e) = (if e_type e = IFD_SHORT then 2 * units e else 4)"
    using assms(3) by (simp add: wire_def length_concat_map)
  have inline: "inline e \<longleftrightarrow> n \<le> 2"
    using len n ok(4) by (auto simp: inline_def word_le_nat_alt)
  let ?i = "entry_info (of_nat ifh) e n (of_nat vo)" and ?v = "e_ptr e"
  show ?thesis
  proof (cases "inline e")
    case True
    then have small: "n \<le> 2" using inline by simp
    let ?u = "le16 (short_at 0 ?v) @ le16 (if n = 2 then short_at 1 ?v else 0)"
    have cases: "units e = 1 \<and> n = 1 \<or> units e = 2 \<and> n = 2"
      using small n ok(2) by (auto simp: word_le_nat_alt word_unat_eq_iff)
    have upt: "[0..<2] = [0, 1 :: nat]" and rep: "replicate 2 x = [x, x]" for x :: u8
      by (simp_all add: numeral_2_eq_2)
    have field: "entry_field ifh vo e = wire e @ replicate (4 - length (wire e)) 0"
      using True assms(3) by (simp add: entry_field_def)
    consider "e_type e = IFD_SHORT" "units e = 1" "n = 1" | "e_type e = IFD_SHORT" "units e = 2" "n = 2"
      | "e_type e = IFD_LONG" "units e = 1" "n = 1"
      using ok(4) cases by auto
    then have "be32 (offset_value (?i\<lparr>value_offset := ?u\<rparr>)) = entry_field ifh vo e"
    proof cases
      case 1
      then have "wire e = be16 (short_at 0 ?v)" using assms(3) by (simp add: wire_def)
      then show ?thesis using 1 by (simp add: field offset_value_def Let_def be32_shorts be32_shorts [of _ 0, simplified] be16_0 rep short_at_le16 [unfolded One_nat_def])
    next
      case 2
      then have "wire e = be16 (short_at 0 ?v) @ be16 (short_at 1 ?v)"
        using assms(3) upt by (simp add: wire_def)
      then show ?thesis using 2 by (simp add: field offset_value_def Let_def be32_shorts short_at_le16 [unfolded One_nat_def])
    next
      case 3
      then have "wire e = be32 (ucast (short_at 0 ?v))" using assms(3) by (simp add: wire_def)
      then show ?thesis using 3 by (simp add: field offset_value_def Let_def)
    qed
    then have "info_head (?i\<lparr>value_offset := ?u\<rparr>) = entry_head ifh vo e"
      using n by (intro info_head_eq) simp_all
    then show ?thesis
    proof (rule entry_done_inline [OF assms(1) True])
      have "(if n = 2 then 4 else 2) \<le> length (e_ptr e)" using cases ok(1) by auto
      then show "Jpeg_WriteShortIFD ?i (of_nat io, of_nat vo) (mem B p)
          = jbind (write_header (?i\<lparr>value_offset := ?u\<rparr>) (of_nat io)) (\<lambda>o'. jret (o', of_nat vo)) (mem B p)"
        using small by (simp only: Jpeg_WriteShortIFD_def Let_def skip_statements entry_info_fields
            linorder_not_less if_True if_False fst_conv snd_conv leD)
    qed
  next
    case False
    then have large: "\<not> n \<le> 2" "n > 2" and ty: "e_type e = IFD_SHORT" and none: "e_value e = None"
      using inline len n ok by (auto simp: word_le_nat_alt word_less_nat_alt)
    have "offset_value ?i = of_nat (vo - ifh)"
      using ty large none ok(3) by (simp add: offset_value_def Let_def)
    then have head: "info_head ?i = entry_head ifh vo e"
      using False n by (intro info_head_eq) (simp_all add: entry_field_outline)
    have "emits (jfor [0..<units e] (\<lambda>k. jthen (readable (2 * k + 2) ?i) (Jpeg_WriteW (short_at k ?v))))
        (concat (map (\<lambda>k. [] @ be16 (short_at k ?v)) [0..<units e]))"
      using ok(1) by (intro emits_jfor emits_jthen emits_readable emits_WriteW) simp
    moreover have "concat (map (\<lambda>k. [] @ be16 (short_at k ?v)) [0..<units e]) = wire e"
      using assms(3) ty by (simp add: wire_def)
    ultimately have "emits (jfor [0..<unat n] (\<lambda>k. jthen (readable (2 * k + 2) ?i)
        (Jpeg_WriteW (short_at k ?v)))) (wire e)"
      by (simp only: n)
    then show ?thesis
    proof (rule entry_done_units [OF assms(1) False head])
      show "Jpeg_WriteShortIFD ?i (of_nat io, of_nat vo) (mem B p)
          = jbind (write_header ?i (of_nat io)) (\<lambda>o'. write_units (of_nat io, of_nat vo) o'
              (jfor [0..<unat n] (\<lambda>k. jthen (readable (2 * k + 2) ?i) (Jpeg_WriteW (short_at k ?v))))) (mem B p)"
        using large by (simp add: Jpeg_WriteShortIFD_def Let_def skip_statements)
    qed
  qed
qed

lemma WriteLongIFD_done:
  assumes "entry_fits ifh io vo e B" "e_count e = Some n" "e_writer e = LongIFD"
  shows "entry_done ifh io vo e B
    (Jpeg_WriteLongIFD (entry_info (of_nat ifh) e n (of_nat vo)) (of_nat io, of_nat vo) (mem B p))"
proof -
  have n: "of_nat (units e) = n" "unat n = units e" using count_word [OF assms(2)] by simp_all
  have ok: "4 * units e \<le> length (e_ptr e)" "0 < units e" "ifh \<le> vo"
      "e_type e \<in> {IFD_LONG, IFD_SLONG}" "e_value e = None"
    using assms(1,3) by (simp_all add: entry_fits_def entry_ok_def)
  have len: "length (wire e) = 4 * units e"
    using assms(3) by (simp add: wire_def length_concat_map)
  have inline: "inline e \<longleftrightarrow> n \<le> 1"
    using len n by (simp add: inline_def word_le_nat_alt)
  let ?i = "entry_info (of_nat ifh) e n (of_nat vo)" and ?v = "e_ptr e"
  have ty: "offset_value j = long_at 0 (value_offset j)" if "info_type j = e_type e" for j
    using that ok(4) by (auto simp: offset_value_def Let_def)
  show ?thesis
  proof (cases "inline e")
    case True
    let ?j = "?i\<lparr>value_offset := le32 (long_at 0 ?v)\<rparr>"
    have one: "units e = 1" using True len ok(2) by (simp add: inline_def)
    have "be32 (offset_value ?j) = entry_field ifh vo e"
      using one True assms(3) by (simp add: ty entry_field_def wire_def)
    then have "info_head ?j = entry_head ifh vo e"
      using n by (intro info_head_eq) simp_all
    then show ?thesis
    proof (rule entry_done_inline [OF assms(1) True])
      show "Jpeg_WriteLongIFD ?i (of_nat io, of_nat vo) (mem B p)
          = jbind (write_header ?j (of_nat io)) (\<lambda>o'. jret (o', of_nat vo)) (mem B p)"
        using True inline ok(1) one
        by (simp add: Jpeg_WriteLongIFD_def Let_def skip_statements linorder_not_less leD)
    qed
  next
    case False
    then have large: "\<not> n \<le> 1" "n > 1" using inline by auto
    have "offset_value ?i = of_nat (vo - ifh)" using ok by (simp add: ty)
    then have head: "info_head ?i = entry_head ifh vo e"
      using False n by (intro info_head_eq) (simp_all add: entry_field_outline)
    have "emits (jfor [0..<units e] (\<lambda>k. jseq [readable (4 * k + 4) ?i, Jpeg_WriteL (long_at k ?v)]))
        (concat (map (\<lambda>k. [] @ be32 (long_at k ?v) @ []) [0..<units e]))"
      using ok(1) by (intro emits_jfor emits_jseq_Cons emits_jseq_Nil emits_readable emits_WriteL) simp
    moreover have "concat (map (\<lambda>k. [] @ be32 (long_at k ?v) @ []) [0..<units e]) = wire e"
      using assms(3) by (simp add: wire_def)
    ultimately have "emits (jfor [0..<unat n] (\<lambda>k. jseq [readable (4 * k + 4) ?i, Jpeg_WriteL (long_at k ?v)]))
        (wire e)"
      by (simp only: n)
    then show ?thesis
    proof (rule entry_done_values [OF assms(1) False head])
      show "Jpeg_WriteLongIFD ?i (of_nat io, of_nat vo) (mem B p)
          = jbind (write_header ?i (of_nat io)) (\<lambda>o'. jbind (write_values (of_nat vo)
              (jfor [0..<unat n] (\<lambda>k. jseq [readable (4 * k + 4) ?i, Jpeg_WriteL (long_at k ?v)])))
              (\<lambda>v. jret (o', v))) (mem B p)"
        using large by (simp add: Jpeg_WriteLongIFD_def Let_def skip_statements)
    qed
  qed
qed

lemma WriteRationalIFD_done:
  assumes "entry_fits ifh io vo e B" "e_count e = Some n" "e_writer e = RationalIFD"
  shows "entry_done ifh io vo e B
    (Jpeg_WriteRationalIFD (entry_info (of_nat ifh) e n (of_nat vo)) (of_nat io, of_nat vo) (mem B p))"
proof -
  have n: "of_nat (units e) = n" "unat n = units e" using count_word [OF assms(2)] by simp_all
  have ok: "8 * units e \<le> length (e_ptr e)" "0 < units e" "ifh \<le> vo"
      "e_type e \<in> {IFD_RATIONAL, IFD_SRATIONAL}" "e_value e = None"
    using assms(1,3) by (simp_all add: entry_fits_def entry_ok_def)
  have "length (wire e) = 8 * units e"
    using assms(3) by (simp add: wire_def length_concat_map)
  then have outline: "\<not> inline e" using ok(2) by (simp add: inline_def)
  let ?i = "entry_info (of_nat ifh) e n (of_nat vo)" and ?v = "e_ptr e"
  have "offset_value ?i = of_nat (vo - ifh)"
    using ok by (auto simp: offset_value_def Let_def)
  then have head: "info_head ?i = entry_head ifh vo e"
    using outline n by (intro info_head_eq) (simp_all add: entry_field_outline)
  have "emits (jfor [0..<units e] (\<lambda>k. jseq [readable (8 * k + 8) ?i, Jpeg_WriteL (long_at (2 * k) ?v),
          Jpeg_WriteL (long_at (2 * k + 1) ?v)]))
      (concat (map (\<lambda>k. [] @ be32 (long_at (2 * k) ?v) @ be32 (long_at (2 * k + 1) ?v) @ []) [0..<units e]))"
    using ok(1) by (intro emits_jfor emits_jseq_Cons emits_jseq_Nil emits_readable emits_WriteL) simp
  moreover have "concat (map (\<lambda>k. [] @ be32 (long_at (2 * k) ?v) @ be32 (long_at (2 * k + 1) ?v) @ [])
      [0..<units e]) = wire e"
    using assms(3) by (simp add: wire_def)
  ultimately have "emits (jfor [0..<unat n] (\<lambda>k. jseq [readable (8 * k + 8) ?i, Jpeg_WriteL (long_at (2 * k) ?v),
          Jpeg_WriteL (long_at (2 * k + 1) ?v)])) (wire e)"
    by (simp only: n)
  then show ?thesis
    by (rule entry_done_values [OF assms(1) outline head])
      (simp only: Jpeg_WriteRationalIFD_def entry_info_fields fst_conv snd_conv)
qed

subsection \<open>Entries one after the other\<close>

lemma write_entry_done:
  assumes "entry_fits ifh io vo e B"
  shows "\<exists>q \<le> length B. write_entry (of_nat ifh) e ((of_nat io, of_nat vo), k) (mem B p)
    = JOk ((of_nat (io + 12), of_nat (vo + room e)), k + 1) (mem (after_entry ifh io vo e B) q)"
proof -
  obtain n where n: "e_count e = Some n" and w: "e_written e"
    using assms by (auto simp: entry_fits_def entry_ok_def)
  have "entry_done ifh io vo e B
    (write_with (e_writer e) (entry_info (of_nat ifh) e n (of_nat vo)) (of_nat io, of_nat vo) (mem B p))"
    using WriteByteIFD_done WriteShortIFD_done WriteLongIFD_done WriteRationalIFD_done assms n
    by (cases "e_writer e") (simp_all add: write_with_def)
  then show ?thesis
    using w n by (auto simp: entry_done_def write_entry_def jstmt simp del: of_nat_add)
qed

lemma after_entry_held:
  assumes "entry_fits ifh io vo e B" "io + 12 \<le> vo"
  shows "length (after_entry ifh io vo e B) = length B"
    and "changed ({io..<io + 12} \<union> {vo..<vo + room e}) B (after_entry ifh io vo e B)"
    and "held (after_entry ifh io vo e B) io (entry_head ifh vo e)"
    and "held (after_entry ifh io vo e B) vo (entry_data e)"
proof -
  let ?H = "put io (entry_head ifh vo e) B" and ?A = "after_entry ifh io vo e B"
  have head: "length (entry_head ifh vo e) = 12" and io: "io + 12 \<le> length B"
    and vo: "vo + length (entry_data e) \<le> length B" and room: "length (entry_data e) \<le> room e"
    using assms(1) pad4_bounds by (simp_all add: entry_fits_def length_entry_head room_def)
  have H: "length ?H = length B" using head io by simp
  show "length ?A = length B" using H vo by (simp add: after_entry_def)
  have c1: "changed {io..<io + 12} B ?H" using changed_put [of io "entry_head ifh vo e" B] head io by simp
  have c2: "changed {vo..<vo + length (entry_data e)} ?H ?A"
    using changed_put [of vo "entry_data e" ?H] H vo by (simp add: after_entry_def)
  have "{io..<io + 12} \<union> {vo..<vo + length (entry_data e)} \<subseteq> {io..<io + 12} \<union> {vo..<vo + room e}"
    using room by auto
  then show "changed ({io..<io + 12} \<union> {vo..<vo + room e}) B ?A" by (rule changed_trans [OF c1 c2])
  have "held ?H io (entry_head ifh vo e)" using head io by (intro held_put) simp
  then show "held ?A io (entry_head ifh vo e)"
    by (rule held_changed [OF _ c2]) (use assms(2) head in auto)
  show "held ?A vo (entry_data e)" unfolding after_entry_def using H vo by (intro held_put) simp
qed

lemma room_dvd: "4 dvd room e"
  by (simp add: room_def)

lemma data_le_room: "e_written e \<Longrightarrow> length (entry_data e) \<le> room e"
  using pad4_bounds by (simp add: room_def)

text \<open>What a list of entries needs: room in the table before the values, and room for the values.\<close>

definition entries_fit :: "nat \<Rightarrow> nat \<Rightarrow> nat \<Rightarrow> ifd_entry list \<Rightarrow> bytes \<Rightarrow> bool" where
  "entries_fit ifh io vo es B \<longleftrightarrow> (\<forall>e\<in>set es. entry_ok e) \<and> small B \<and> ifh \<le> vo \<and> 4 dvd vo
     \<and> io + 12 * count_written es \<le> vo \<and> vo + rooms es \<le> length B"

lemma write_entries_held:
  assumes "entries_fit ifh io vo es B" "p \<le> length B"
  shows "\<exists>B' q. write_entries (of_nat ifh) es ((of_nat io, of_nat vo), k) (mem B p)
      = JOk ((of_nat (io + 12 * count_written es), of_nat (vo + rooms es)), k + of_nat (count_written es))
          (mem B' q)
    \<and> q \<le> length B' \<and> changed ({io..<io + 12 * count_written es} \<union> {vo..<vo + rooms es}) B B'
    \<and> held_entries B' ifh io vo es"
  using assms
proof (induction es arbitrary: io vo k B p)
  case Nil
  then show ?case by (intro exI [of _ B] exI [of _ p]) (simp add: jstmt)
next
  case (Cons e es)
  show ?case
  proof (cases "e_written e")
    case False
    then have "entries_fit ifh io vo es B" using Cons.prems(1) by (simp add: entries_fit_def room_def)
    from Cons.IH [OF this Cons.prems(2), of k] False show ?thesis
      by (simp add: write_entry_def jstmt room_def)
  next
    case True
    let ?n = "count_written es" and ?A = "after_entry ifh io vo e B"
    have fits: "entry_fits ifh io vo e B"
      using Cons.prems(1) True data_le_room [OF True] by (simp add: entries_fit_def entry_fits_def)
    have below: "io + 12 \<le> vo" using Cons.prems(1) True by (simp add: entries_fit_def)
    note A = after_entry_held [OF fits below]
    obtain q where q: "q \<le> length B" "write_entry (of_nat ifh) e ((of_nat io, of_nat vo), k) (mem B p)
        = JOk ((of_nat (io + 12), of_nat (vo + room e)), k + 1) (mem ?A q)"
      using write_entry_done [OF fits] by blast
    have "entries_fit ifh (io + 12) (vo + room e) es ?A"
      using Cons.prems(1) True A(1) room_dvd by (simp add: entries_fit_def)
    moreover have "q \<le> length ?A" using q(1) A(1) by simp
    ultimately obtain B' q' where B': "write_entries (of_nat ifh) es
          ((of_nat (io + 12), of_nat (vo + room e)), k + 1) (mem ?A q)
        = JOk ((of_nat (io + 12 + 12 * ?n), of_nat (vo + room e + rooms es)), k + 1 + of_nat ?n) (mem B' q')"
      "q' \<le> length B'"
      "changed ({io + 12..<io + 12 + 12 * ?n} \<union> {vo + room e..<vo + room e + rooms es}) ?A B'"
      "held_entries B' ifh (io + 12) (vo + room e) es"
      using Cons.IH [of "io + 12" "vo + room e" ?A q "k + 1"] by blast
    have apart: "({io + 12..<io + 12 + 12 * ?n} \<union> {vo + room e..<vo + room e + rooms es})
        \<inter> {io..<io + 12} = {}" "({io + 12..<io + 12 + 12 * ?n} \<union> {vo + room e..<vo + room e + rooms es})
        \<inter> {vo..<vo + length (entry_data e)} = {}"
      using below data_le_room [OF True] Cons.prems(1) True by (auto simp: entries_fit_def)
    have "held B' io (entry_head ifh vo e)"
      using apart(1) fits by (intro held_changed [OF A(3) B'(3)]) (simp add: length_entry_head entry_fits_def)
    moreover have "held B' vo (entry_data e)" by (rule held_changed [OF A(4) B'(3) apart(2)])
    moreover have "changed ({io..<io + 12 * count_written (e # es)} \<union> {vo..<vo + rooms (e # es)}) B B'"
      using True by (intro changed_trans [OF A(2) B'(3)]) auto
    moreover have "write_entries (of_nat ifh) (e # es) ((of_nat io, of_nat vo), k) (mem B p)
        = JOk ((of_nat (io + 12 * count_written (e # es)), of_nat (vo + rooms (e # es))),
            k + of_nat (count_written (e # es))) (mem B' q')"
      using q(2) B'(1) True by (simp add: jbind_def algebra_simps)
    ultimately show ?thesis using B'(2,4) True by auto
  qed
qed

end
