(* ===== verification/ExifReader.thy ===== *)
theory ExifReader
  imports ExifTable
begin

text \<open>
  A reader of the file format, written from the format and not from the writer: a table is its number
  of entries, the entries of twelve bytes and the position of the next table, all big-endian;
  positions count from the header at \<^term>\<open>ifh\<close>.  A value of at most four bytes is in its entry,
  any other at the position that the entry gives.  Then: what the writer leaves in the buffer is read
  back as what it was given.
\<close>

subsection \<open>The reader\<close>

type_synonym tag_value = "u16 \<times> u16 \<times> nat \<times> bytes"

definition be16_at :: "bytes \<Rightarrow> u16" where
  "be16_at bs = mk16 (bs ! 0) (bs ! 1)"

definition be32_at :: "bytes \<Rightarrow> u32" where
  "be32_at bs = pack32 (bs ! 0) (bs ! 1) (bs ! 2) (bs ! 3)"

definition type_size :: "u16 \<Rightarrow> nat" where
  "type_size t =
     (if t \<in> {IFD_BYTE, IFD_ASCII, IFD_UNDEFINED} then 1
      else if t = IFD_SHORT then 2
      else if t \<in> {IFD_LONG, IFD_SLONG} then 4
      else if t \<in> {IFD_RATIONAL, IFD_SRATIONAL} then 8
      else 0)"

definition read_value :: "bytes \<Rightarrow> nat \<Rightarrow> nat \<Rightarrow> bytes \<Rightarrow> bytes option" where
  "read_value B ifh n v =
     (if n \<le> 4 then Some (take n v) else load (ifh + unat (be32_at v)) n B)"

definition read_entry :: "bytes \<Rightarrow> nat \<Rightarrow> nat \<Rightarrow> tag_value option" where
  "read_entry B ifh p =
     do {
       h \<leftarrow> load p 12 B;
       let t = be16_at h;
       let ty = be16_at (drop 2 h);
       let n = unat (be32_at (drop 4 h));
       v \<leftarrow> read_value B ifh (type_size ty * n) (drop 8 h);
       Some (t, ty, n, v)
     }"

primrec read_entries :: "bytes \<Rightarrow> nat \<Rightarrow> nat \<Rightarrow> nat \<Rightarrow> tag_value list option" where
  "read_entries B ifh p 0 = Some []"
| "read_entries B ifh p (Suc k) =
     do { e \<leftarrow> read_entry B ifh p; es \<leftarrow> read_entries B ifh (p + 12) k; Some (e # es) }"

definition read_ifd :: "bytes \<Rightarrow> nat \<Rightarrow> nat \<Rightarrow> (tag_value list \<times> u32) option" where
  "read_ifd B ifh p =
     do {
       n \<leftarrow> load p 2 B;
       es \<leftarrow> read_entries B ifh (p + 2) (unat (be16_at n));
       next_ifd \<leftarrow> load (p + 2 + 12 * unat (be16_at n)) 4 B;
       Some (es, be32_at next_ifd)
     }"

subsection \<open>Reading what was written\<close>

definition tag_view :: "ifd_entry \<Rightarrow> tag_value" where
  "tag_view e = (e_tag e, e_type e, units e, wire e)"

definition views :: "ifd_entry list \<Rightarrow> tag_value list" where
  "views es = map tag_view (filter e_written es)"

lemma views_simps [simp]:
  "views [] = []" "views (e # es) = (if e_written e then [tag_view e] else []) @ views es"
  "views (es @ fs) = views es @ views fs"
  by (simp_all add: views_def)

lemma length_views: "length (views es) = count_written es"
  by (simp add: views_def count_written_def)

lemma be16_at_be16 [simp]: "be16_at (be16 w @ u) = w" "be16_at (be16 w) = w"
  by (simp_all add: be16_at_def be16_def)

lemma be32_at_be32 [simp]: "be32_at (be32 w @ u) = w" "be32_at (be32 w) = w"
  using pack32_bytes_of [of w] by (simp_all add: be32_at_def be32_def numeral_2_eq_2 numeral_3_eq_3)

lemma length_wire:
  assumes "entry_ok e" "e_written e"
  shows "length (wire e) = type_size (e_type e) * units e"
proof (cases "e_writer e")
  case ByteIFD
  then show ?thesis using assms by (auto simp: entry_ok_def wire_def type_size_def)
next
  case ShortIFD
  then show ?thesis using assms
    by (auto simp: entry_ok_def wire_def type_size_def length_concat_map [where n = 2])
next
  case LongIFD
  then show ?thesis using assms
    by (auto simp: entry_ok_def wire_def type_size_def length_concat_map [where n = 4])
next
  case RationalIFD
  then show ?thesis using assms
    by (auto simp: entry_ok_def wire_def type_size_def length_concat_map [where n = 8])
qed

lemma read_value_held:
  assumes "entry_ok e" "e_written e" "\<not> inline e \<longrightarrow> held B vo (wire e)" "ifh \<le> vo" "vo < 2 ^ 32"
  shows "read_value B ifh (length (wire e)) (entry_field ifh vo e) = Some (wire e)"
proof (cases "inline e")
  case True
  then show ?thesis by (simp add: read_value_def entry_field_def inline_def)
next
  case False
  have "vo - ifh < 2 ^ 32" using assms(5) by linarith
  then show ?thesis using False assms(3,4)
    by (simp add: read_value_def inline_def entry_field_def held_def unat_of_nat_u32 del: of_nat_diff)
qed

lemma read_entry_held:
  assumes "entry_ok e" "e_written e" "held B io (entry_head ifh vo e)"
    and "\<not> inline e \<longrightarrow> held B vo (wire e)" "ifh \<le> vo" "vo < 2 ^ 32"
  shows "read_entry B ifh io = Some (tag_view e)"
proof -
  have "load io 12 B = Some (entry_head ifh vo e)"
    using assms(3) length_entry_head [OF assms(1,2)] by (simp add: held_def)
  moreover have "drop 2 (entry_head ifh vo e) = be16 (e_type e) @ be32 (of_nat (units e)) @ entry_field ifh vo e"
    "drop 4 (entry_head ifh vo e) = be32 (of_nat (units e)) @ entry_field ifh vo e"
    "drop 8 (entry_head ifh vo e) = entry_field ifh vo e"
    by (simp_all add: entry_head_def)
  moreover have "be16_at (entry_head ifh vo e) = e_tag e" by (simp add: entry_head_def)
  moreover have "unat (of_nat (units e) :: u32) = units e" by (simp add: units_def)
  ultimately show ?thesis
    using read_value_held [OF assms(1,2,4-6)] length_wire [OF assms(1,2)]
    by (simp add: read_entry_def tag_view_def Let_def)
qed

lemma read_entries_slots:
  "(\<And>i. i < length vs \<Longrightarrow> read_entry B ifh (p + 12 * i) = Some (vs ! i)) \<Longrightarrow>
     read_entries B ifh p (length vs) = Some vs"
proof (induction vs arbitrary: p)
  case (Cons v vs)
  have "read_entry B ifh p = Some v" using Cons.prems [of 0] by simp
  moreover have "read_entries B ifh (p + 12) (length vs) = Some vs"
    using Cons.prems [of "Suc i" for i] by (intro Cons.IH) (simp add: add.assoc)
  ultimately show ?case by simp
qed simp

subsection \<open>Facts that later writes elsewhere keep\<close>

text \<open>Two buffers, perhaps of different lengths, with the same bytes at a set of positions.\<close>

definition agree :: "nat set \<Rightarrow> bytes \<Rightarrow> bytes \<Rightarrow> bool" where
  "agree S B B' \<longleftrightarrow> (\<forall>i\<in>S. i < length B \<and> i < length B' \<and> B' ! i = B ! i)"

lemma load_agree:
  assumes "agree S B B'" "{p..<p + n} \<subseteq> S" "0 < n"
  shows "load p n B' = load p n B"
proof -
  have same: "p + i < length B \<and> p + i < length B' \<and> B' ! (p + i) = B ! (p + i)" if "i < n" for i
  proof -
    have "p + i \<in> S" using that assms(2) by auto
    then show ?thesis using assms(1) by (simp add: agree_def)
  qed
  have "p + n \<le> length B" "p + n \<le> length B'" using same [of "n - 1"] assms(3) by linarith+
  moreover have "chunk p n B' = chunk p n B"
    using same calculation by (intro nth_equalityI) (simp_all add: chunk_def)
  ultimately show ?thesis by (simp add: load_def)
qed

lemma agree_changed:
  "changed R B B' \<Longrightarrow> R \<inter> S = {} \<Longrightarrow> S \<subseteq> {..<length B} \<Longrightarrow> agree S B B'"
  by (fastforce simp: agree_def changed_def)

lemma agree_trans: "agree S B B' \<Longrightarrow> agree S B' B'' \<Longrightarrow> agree S B B''"
  by (simp add: agree_def)

lemma agree_mono: "agree T B B' \<Longrightarrow> S \<subseteq> T \<Longrightarrow> agree S B B'"
  by (auto simp: agree_def)

text \<open>What is read from a set of positions, whatever the rest of the buffer becomes.\<close>

definition robust :: "nat set \<Rightarrow> (bytes \<Rightarrow> bool) \<Rightarrow> bytes \<Rightarrow> bool" where
  "robust S P B \<longleftrightarrow> S \<subseteq> {..<length B} \<and> (\<forall>B'. agree S B B' \<longrightarrow> P B')"

lemma robustD: "robust S P B \<Longrightarrow> agree S B B' \<Longrightarrow> P B'"
  by (simp add: robust_def)

lemma robust_changed: "robust S P B \<Longrightarrow> changed R B B' \<Longrightarrow> R \<inter> S = {} \<Longrightarrow> robust S P B'"
  unfolding robust_def using agree_changed agree_trans changed_length by metis

lemma robust_mono: "robust S P B \<Longrightarrow> S \<subseteq> T \<Longrightarrow> T \<subseteq> {..<length B} \<Longrightarrow> robust T P B"
  unfolding robust_def using agree_mono by blast

lemma robust_load:
  assumes "load p n B = Some x" "0 < n"
  shows "robust {p..<p + n} (\<lambda>B. load p n B = Some x) B"
  using assms load_agree [of "{p..<p + n}" B] by (auto simp: robust_def load_def split: if_splits)

definition slot :: "nat \<Rightarrow> nat \<Rightarrow> nat set \<Rightarrow> tag_value \<Rightarrow> bytes \<Rightarrow> bool" where
  "slot ifh p V v = robust ({p..<p + 12} \<union> V) (\<lambda>B. read_entry B ifh p = Some v)"

definition slots :: "nat \<Rightarrow> nat \<Rightarrow> nat set \<Rightarrow> tag_value list \<Rightarrow> bytes \<Rightarrow> bool" where
  "slots ifh p V vs B \<longleftrightarrow> (\<forall>i < length vs. slot ifh (p + 12 * i) V (vs ! i) B)"

lemma slots_read:
  assumes "slots ifh p V vs B" "agree ({p..<p + 12 * length vs} \<union> V) B B'"
  shows "read_entries B' ifh p (length vs) = Some vs"
proof (rule read_entries_slots)
  fix i assume i: "i < length vs"
  then have "slot ifh (p + 12 * i) V (vs ! i) B" using assms(1) by (simp add: slots_def)
  moreover have "agree ({p + 12 * i..<p + 12 * i + 12} \<union> V) B B'"
    using i by (intro agree_mono [OF assms(2)]) auto
  ultimately show "read_entry B' ifh (p + 12 * i) = Some (vs ! i)" unfolding slot_def by (rule robustD)
qed

lemma slots_changed:
  assumes "slots ifh p V vs B" "changed R B B'" "R \<inter> {p..<p + 12 * length vs} = {}" "R \<inter> V = {}"
  shows "slots ifh p V vs B'"
proof -
  have "R \<inter> ({p + 12 * i..<p + 12 * i + 12} \<union> V) = {}" if "i < length vs" for i
    using disjoint_part [OF assms(3), of "p + 12 * i" "p + 12 * i + 12"] that assms(4) by auto
  then show ?thesis using assms(1) robust_changed [OF _ assms(2)] by (simp add: slots_def slot_def)
qed

lemma slots_mono:
  assumes "slots ifh p V vs B" "V \<subseteq> W" "W \<subseteq> {..<length B}"
  shows "slots ifh p W vs B"
  unfolding slots_def slot_def
proof (intro allI impI)
  fix i assume "i < length vs"
  then have r: "robust ({p + 12 * i..<p + 12 * i + 12} \<union> V) (\<lambda>B. read_entry B ifh (p + 12 * i) = Some (vs ! i)) B"
    using assms(1) by (simp add: slots_def slot_def)
  then have "{p + 12 * i..<p + 12 * i + 12} \<subseteq> {..<length B}" by (simp add: robust_def)
  with r assms(2,3) show "robust ({p + 12 * i..<p + 12 * i + 12} \<union> W)
      (\<lambda>B. read_entry B ifh (p + 12 * i) = Some (vs ! i)) B"
    by (intro robust_mono [OF r]) auto
qed

lemma slots_append:
  "slots ifh p V vs B \<Longrightarrow> slots ifh (p + 12 * length vs) V ws B \<Longrightarrow> slots ifh p V (vs @ ws) B"
  unfolding slots_def
proof (intro allI impI)
  fix i
  assume *: "\<forall>i<length vs. slot ifh (p + 12 * i) V (vs ! i) B"
    "\<forall>i<length ws. slot ifh (p + 12 * length vs + 12 * i) V (ws ! i) B" "i < length (vs @ ws)"
  show "slot ifh (p + 12 * i) V ((vs @ ws) ! i) B"
  proof (cases "i < length vs")
    case False
    then have "i - length vs < length ws" "p + 12 * length vs + 12 * (i - length vs) = p + 12 * i"
      using *(3) by auto
    then show ?thesis using *(2) False by (metis nth_append)
  qed (use * in \<open>simp add: nth_append\<close>)
qed

text \<open>Writing one slot anew.\<close>

lemma slots_update:
  assumes "slots ifh p V vs B" "j < length vs" "changed {p + 12 * j..<p + 12 * j + 12} B B'"
    and "{p + 12 * j..<p + 12 * j + 12} \<inter> V = {}" "slot ifh (p + 12 * j) V v B'"
  shows "slots ifh p V (vs[j := v]) B'"
  unfolding slots_def
proof (intro allI impI)
  fix i assume i: "i < length (vs[j := v])"
  show "slot ifh (p + 12 * i) V (vs[j := v] ! i) B'"
  proof (cases "i = j")
    case False
    then have "{p + 12 * j..<p + 12 * j + 12} \<inter> {p + 12 * i..<p + 12 * i + 12} = {}" by auto
    then have "{p + 12 * j..<p + 12 * j + 12} \<inter> ({p + 12 * i..<p + 12 * i + 12} \<union> V) = {}"
      using assms(4) by blast
    then show ?thesis using assms(1) i False robust_changed [OF _ assms(3)]
      by (simp add: slots_def slot_def)
  qed (use assms(2,5) in simp)
qed

lemma slot_held:
  assumes "entry_ok e" "e_written e" "held B io (entry_head ifh vo e)" "held B vo (entry_data e)"
    and "ifh \<le> vo" "vo < 2 ^ 32" "{vo..<vo + length (entry_data e)} \<subseteq> V" "V \<subseteq> {..<length B}"
  shows "slot ifh io V (tag_view e) B"
  unfolding slot_def robust_def
proof (intro conjI allI impI)
  note len = length_entry_head [OF assms(1,2)]
  show "{io..<io + 12} \<union> V \<subseteq> {..<length B}"
    using assms(3,8) len by (auto simp: held_def load_def split: if_splits)
  fix B' assume a: "agree ({io..<io + 12} \<union> V) B B'"
  have "held B' io (entry_head ifh vo e)"
    using load_agree [OF a, of io 12] assms(3) len by (simp add: held_def)
  moreover have "\<not> inline e \<longrightarrow> held B' vo (wire e)"
  proof
    assume "\<not> inline e"
    then have e: "entry_data e = wire e" "0 < length (wire e)" by (auto simp: entry_data_def inline_def)
    then have "{vo..<vo + length (wire e)} \<subseteq> {io..<io + 12} \<union> V" using assms(7) by auto
    then show "held B' vo (wire e)" using load_agree [OF a _ e(2)] assms(4) e(1) by (simp add: held_def)
  qed
  ultimately show "read_entry B' ifh io = Some (tag_view e)"
    using assms by (intro read_entry_held)
qed

lemma slots_held:
  assumes "held_entries B ifh io vo es" "\<forall>e\<in>set es. entry_ok e" "ifh \<le> vo" "vo + rooms es < 2 ^ 32"
    and "{vo..<vo + rooms es} \<subseteq> V" "V \<subseteq> {..<length B}"
  shows "slots ifh io V (views es) B"
  using assms
proof (induction es arbitrary: io vo)
  case Nil
  then show ?case by (simp add: slots_def)
next
  case (Cons e es)
  show ?case
  proof (cases "e_written e")
    case True
    note room = data_le_room [OF True]
    have part: "{vo..<vo + length (entry_data e)} \<subseteq> V" "{vo + room e..<vo + room e + rooms es} \<subseteq> V"
      using Cons.prems(5) room by auto
    have "slot ifh io V (tag_view e) B"
      using Cons.prems(1-4,6) True part(1) by (intro slot_held [where vo = vo]) simp_all
    then have "slots ifh io V [tag_view e] B" by (simp add: slots_def)
    moreover have "slots ifh (io + 12) V (views es) B"
      using Cons.prems(1-4,6) True part(2) by (intro Cons.IH [of _ "vo + room e"]) simp_all
    ultimately show ?thesis using slots_append [of ifh io V "[tag_view e]" B "views es"] True by simp
  qed (use Cons in \<open>simp add: room_def\<close>)
qed

end
