(* ===== verification/ExifTables.thy ===== *)
theory ExifTables
  imports ExifReader
begin

text \<open>
  The tables of the writer.  While a table is written, the buffer holds its entries so far, and
  everything that has been written behind it (values, other tables, a thumbnail) stays as it is.
\<close>

subsection \<open>A table that is being written\<close>

text \<open>Facts about the part of the buffer between two positions.\<close>

type_synonym region_fact = "nat \<times> nat \<times> (bytes \<Rightarrow> bool)"

fun fact_within :: "nat \<Rightarrow> nat \<Rightarrow> bytes \<Rightarrow> region_fact \<Rightarrow> bool" where
  "fact_within lo hi B (p, q, P) \<longleftrightarrow> lo \<le> p \<and> q \<le> hi \<and> robust {p..<q} P B"

lemma fact_within_mono: "fact_within lo hi B f \<Longrightarrow> lo' \<le> lo \<Longrightarrow> hi \<le> hi' \<Longrightarrow> fact_within lo' hi' B f"
  by (cases f) auto

lemma fact_within_changed:
  assumes "fact_within lo hi B f" "changed R B B'" "R \<inter> {lo..<hi} = {}"
  shows "fact_within lo hi B' f"
proof (cases f)
  case (fields p q P)
  then have "lo \<le> p" "q \<le> hi" "robust {p..<q} P B" using assms(1) by auto
  then show ?thesis using fields robust_changed [OF _ assms(2) disjoint_part [OF assms(3)]] by simp
qed

text \<open>The values of a table with room for \<^term>\<open>m\<close> entries begin here.\<close>

definition values_at :: "nat \<Rightarrow> nat \<Rightarrow> nat" where
  "values_at b m = pad4 (b + 12 * m + 6)"

text \<open>\<^term>\<open>b\<close> is where the table begins, \<^term>\<open>vo\<close> the value offset reached, \<^term>\<open>vs\<close> the entries
  so far.\<close>

definition open_table :: "nat \<Rightarrow> nat \<Rightarrow> nat \<Rightarrow> bytes \<Rightarrow> nat \<Rightarrow> tag_value list \<Rightarrow> region_fact list \<Rightarrow> bytes \<Rightarrow>
    bool" where
  "open_table ifh b m B0 vo vs fs B \<longleftrightarrow>
     changed {b..<vo} B0 B \<and> small B \<and> ifh \<le> b \<and> values_at b m \<le> vo \<and> length vs \<le> m
     \<and> slots ifh (b + 2) {values_at b m..<vo} vs B
     \<and> (\<forall>f\<in>set fs. fact_within (values_at b m) vo B f)"

definition table_state :: "nat \<Rightarrow> nat \<Rightarrow> tag_value list \<Rightarrow> ifd_state" where
  "table_state b vo vs = ((of_nat (b + 2 + 12 * length vs), of_nat vo), of_nat (length vs))"

lemma values_at_bounds: "b + 12 * m + 6 \<le> values_at b m" "4 dvd values_at b m"
  using pad4_bounds by (simp_all add: values_at_def)

lemma open_table_start:
  assumes "small B" "ifh \<le> b" "b + 2 \<le> length B" "values_at b m \<le> length B" "m < 65536"
  shows "\<exists>B' q. begin_ifd (of_nat m) (of_nat b) (mem B p) = JOk (table_state b (values_at b m) []) (mem B' q)
    \<and> q \<le> length B' \<and> open_table ifh b m B (values_at b m) [] [] B'"
proof -
  let ?B = "put b (be16 (of_nat m)) B"
  have len: "length ?B = length B" using assms(3) by simp
  have c: "changed {b..<b + 2} B ?B" using changed_put [of b "be16 (of_nat m)" B] assms(3) by simp
  have m: "(ucast (of_nat m :: u16) :: u32) = of_nat m"
    using assms(5) by (simp add: word_unat_eq_iff unat_of_nat unsigned_ucast_eq take_bit_nat_eq_self)
  have "b + 12 * m + 6 + 3 < 2 ^ 32"
    using values_at_bounds [of b m] assms(1,4) by simp
  then have al: "align4 (of_nat (b + 2) + ucast (of_nat m :: u16) * 12 + 4) = of_nat (values_at b m)"
    using align4_of_nat [of "b + 12 * m + 6"] by (simp add: m values_at_def algebra_simps)
  have "begin_ifd (of_nat m) (of_nat b) (mem B p) = JOk (table_state b (values_at b m) []) (mem ?B (b + 2))"
    using assms emitsD [OF emits_WriteW [of "of_nat m"], of b B] al
    by (simp add: begin_ifd_def ignoring_def jstmt SetWritePos_mem GetWritePos_mem table_state_def)
  moreover have "open_table ifh b m B (values_at b m) [] [] ?B"
    using assms len values_at_bounds [of b m]
    by (auto simp: open_table_def slots_def intro!: changed_mono [OF c])
  ultimately show ?thesis using len assms(3) by (intro exI [of _ ?B] exI [of _ "b + 2"]) simp
qed

text \<open>Entries.\<close>

lemma open_table_entries:
  assumes "open_table ifh b m B0 vo vs fs B" "p \<le> length B" "\<forall>e\<in>set es. entry_ok e"
    and "length vs + count_written es \<le> m" "vo + rooms es \<le> length B" "4 dvd vo"
  shows "\<exists>B' q. write_entries (of_nat ifh) es (table_state b vo vs) (mem B p)
      = JOk (table_state b (vo + rooms es) (vs @ views es)) (mem B' q)
    \<and> q \<le> length B' \<and> open_table ifh b m B0 (vo + rooms es) (vs @ views es) fs B'"
proof -
  let ?io = "b + 2 + 12 * length vs" and ?V = "values_at b m"
  note open_table = assms(1) [unfolded open_table_def]
  have below: "?io + 12 * count_written es \<le> ?V"
    using values_at_bounds(1) [of b m] assms(4) by linarith
  have "entries_fit ifh ?io vo es B"
    using open_table below assms(3,5,6) values_at_bounds(1) [of b m] by (simp add: entries_fit_def)
  then obtain B' q where run: "write_entries (of_nat ifh) es ((of_nat ?io, of_nat vo), of_nat (length vs)) (mem B p)
      = JOk ((of_nat (?io + 12 * count_written es), of_nat (vo + rooms es)),
          of_nat (length vs) + of_nat (count_written es)) (mem B' q)"
    and q: "q \<le> length B'" and held: "held_entries B' ifh ?io vo es"
    and c: "changed ({?io..<?io + 12 * count_written es} \<union> {vo..<vo + rooms es}) B B'"
    using write_entries_held [OF _ assms(2)] by blast
  let ?R = "{?io..<?io + 12 * count_written es} \<union> {vo..<vo + rooms es}"
  have len: "length B' = length B" using c by (rule changed_length)
  have old: "slots ifh (b + 2) {?V..<vo} vs B'"
    by (rule slots_changed [OF _ c]) (use open_table below in auto)
  have wide: "{?V..<vo} \<subseteq> {?V..<vo + rooms es}" "{vo..<vo + rooms es} \<subseteq> {?V..<vo + rooms es}"
    using open_table by auto
  have new: "slots ifh ?io {?V..<vo + rooms es} (views es) B'"
    using open_table assms(3,5) values_at_bounds(1) [of b m] wide(2) len
    by (intro slots_held [OF held]) auto
  have "fact_within ?V (vo + rooms es) B' f" if "f \<in> set fs" for f
  proof -
    have "fact_within ?V vo B f" using open_table that by blast
    then have "fact_within ?V vo B' f" by (rule fact_within_changed [OF _ c]) (use below in auto)
    then show ?thesis by (rule fact_within_mono) simp_all
  qed
  then have "open_table ifh b m B0 (vo + rooms es) (vs @ views es) fs B'"
    unfolding open_table_def
  proof (intro conjI ballI)
    have "changed {b..<vo} B0 B" using open_table by blast
    then show "changed {b..<vo + rooms es} B0 B'"
      by (rule changed_trans [OF _ c]) (use open_table below in auto)
    show "slots ifh (b + 2) {?V..<vo + rooms es} (vs @ views es) B'"
    proof (rule slots_append [OF slots_mono [OF old wide(1)] new])
      show "{?V..<vo + rooms es} \<subseteq> {..<length B'}" using assms(5) len by auto
    qed
  qed (use open_table assms(4) len in \<open>simp_all add: length_views\<close>)
  then show ?thesis using run q
    by (intro exI [of _ B'] exI [of _ q]) (simp add: table_state_def length_views algebra_simps)
qed

text \<open>The end of a table: from then on it can be read.\<close>

definition table_fact :: "nat \<Rightarrow> nat \<Rightarrow> nat \<Rightarrow> tag_value list \<Rightarrow> u32 \<Rightarrow> region_fact" where
  "table_fact ifh b e vs nx = (b, e, \<lambda>B. read_ifd B ifh b = Some (vs, nx))"

text \<open>A statement that writes a table, and what the buffer then holds between two positions.\<close>

definition region_written :: "nat \<Rightarrow> nat \<Rightarrow> region_fact list \<Rightarrow> bytes \<Rightarrow> bytes \<Rightarrow> bool" where
  "region_written b e fs B B' \<longleftrightarrow> changed {b..<e} B B' \<and> (\<forall>f\<in>set fs. fact_within b e B' f)"

definition writes_region :: "nat \<Rightarrow> nat \<Rightarrow> region_fact list \<Rightarrow> (u32 \<Rightarrow> u32 wm) \<Rightarrow> bool" where
  "writes_region b e fs sub \<longleftrightarrow> b \<le> e \<and> 4 dvd e \<and>
     (\<forall>B p. small B \<longrightarrow> p \<le> length B \<longrightarrow> e \<le> length B \<longrightarrow>
        (\<exists>B' q. sub (of_nat b) (mem B p) = JOk (of_nat e) (mem B' q) \<and> q \<le> length B'
                  \<and> region_written b e fs B B'))"

lemma end_ifd_mem:
  assumes "small B" "io + 4 \<le> length B" "b + 2 \<le> length B"
  shows "end_ifd (of_nat b) nx ((of_nat io, v), k) (mem B p)
    = JOk v (mem (put b (be16 k) (put io (be32 nx) B)) (b + 2))"
  using assms emitsD [OF emits_WriteL [of nx], of io B] emitsD [OF emits_WriteW [of k], of b "put io (be32 nx) B"]
  by (simp add: end_ifd_def ignoring_def jstmt SetWritePos_mem)

lemma open_table_end:
  assumes "open_table ifh b m B0 vo vs fs B" "p \<le> length B" "m < 65536" "vo \<le> length B"
  shows "\<exists>B' q. end_ifd (of_nat b) nx (table_state b vo vs) (mem B p) = JOk (of_nat vo) (mem B' q)
    \<and> q \<le> length B' \<and> region_written b vo (table_fact ifh b vo vs nx # fs) B0 B'"
proof -
  let ?io = "b + 2 + 12 * length vs" and ?V = "values_at b m"
  let ?B1 = "put ?io (be32 nx) B" and ?B2 = "put b (be16 (of_nat (length vs))) (put ?io (be32 nx) B)"
  note open_table = assms(1) [unfolded open_table_def]
  have below: "?io + 4 \<le> ?V" using values_at_bounds(1) [of b m] open_table by linarith
  have io: "?io + 4 \<le> length B" and b: "b + 2 \<le> length B" "b + 2 \<le> ?io"
    using below open_table assms(4) by simp_all
  have len: "length ?B1 = length B" "length ?B2 = length B" using io b by simp_all
  have run: "end_ifd (of_nat b) nx (table_state b vo vs) (mem B p) = JOk (of_nat vo) (mem ?B2 (b + 2))"
    unfolding table_state_def by (rule end_ifd_mem [OF _ io b(1)]) (use open_table in blast)
  have c1: "changed {?io..<?io + 4} B ?B1" using changed_put [of ?io "be32 nx" B] io by simp
  have c2: "changed {b..<b + 2} ?B1 ?B2"
    using changed_put [of b "be16 (of_nat (length vs))" ?B1] b len by simp
  have c: "changed ({?io..<?io + 4} \<union> {b..<b + 2}) B ?B2" by (rule changed_trans [OF c1 c2]) simp
  have "slots ifh (b + 2) {?V..<vo} vs ?B2"
    by (rule slots_changed [OF _ c]) (use open_table below b in auto)
  moreover have "load b 2 ?B2 = Some (be16 (of_nat (length vs)))"
    using held_put [of b "be16 (of_nat (length vs))" ?B1] b len by (simp add: held_def)
  moreover have "load ?io 4 ?B1 = Some (be32 nx)"
    using held_put [of ?io "be32 nx" B] io by (simp add: held_def)
  then have "load ?io 4 ?B2 = Some (be32 nx)" using load_changed [OF c2, of ?io 4] b by auto
  moreover have "unat (of_nat (length vs) :: u16) = length vs"
    using open_table assms(3) by (simp add: unat_of_nat)
  ultimately have read: "read_ifd B' ifh b = Some (vs, nx)" if "agree {b..<vo} ?B2 B'" for B'
  proof -
    have at: "{b..<b + 2} \<subseteq> {b..<vo}" "{?io..<?io + 4} \<subseteq> {b..<vo}"
      "{b + 2..<b + 2 + 12 * length vs} \<union> {?V..<vo} \<subseteq> {b..<vo}"
      using below open_table by auto
    show ?thesis
      using load_agree [OF that at(1)] load_agree [OF that at(2)]
        slots_read [OF \<open>slots ifh (b + 2) {?V..<vo} vs ?B2\<close> agree_mono [OF that at(3)]]
        \<open>load b 2 ?B2 = Some (be16 (of_nat (length vs)))\<close> \<open>load ?io 4 ?B2 = Some (be32 nx)\<close>
        \<open>unat (of_nat (length vs) :: u16) = length vs\<close>
      by (simp add: read_ifd_def)
  qed
  have "fact_within b vo ?B2 (table_fact ifh b vo vs nx)"
    using read assms(4) len by (auto simp: table_fact_def robust_def)
  moreover have "fact_within b vo ?B2 f" if "f \<in> set fs" for f
  proof -
    have "fact_within ?V vo B f" using open_table that by blast
    then have "fact_within ?V vo ?B2 f" by (rule fact_within_changed [OF _ c]) (use below b in auto)
    then show ?thesis by (rule fact_within_mono) (use below b in auto)
  qed
  moreover have "changed {b..<vo} B0 ?B2"
    by (rule changed_trans [OF _ c]) (use open_table below b in auto)
  ultimately have "region_written b vo (table_fact ifh b vo vs nx # fs) B0 ?B2"
    by (simp add: region_written_def)
  then show ?thesis using run b len by (intro exI [of _ ?B2] exI [of _ "b + 2"]) simp
qed

text \<open>An entry that points to a table behind the values.\<close>

definition pointer_view :: "u16 \<Rightarrow> nat \<Rightarrow> tag_value" where
  "pointer_view t off = (t, IFD_LONG, 1, be32 (of_nat off))"

definition pointer_entry :: "u16 \<Rightarrow> nat \<Rightarrow> ifd_entry" where
  "pointer_entry t off = field True t IFD_LONG 1 (le32 (of_nat off)) LongIFD"

lemma pointer_entry_facts:
  "entry_ok (pointer_entry t off)" "e_written (pointer_entry t off)" "room (pointer_entry t off) = 0"
  "tag_view (pointer_entry t off) = pointer_view t off" "units (pointer_entry t off) = 1"
  by (simp_all add: pointer_entry_def field_def entry_ok_def units_def room_def entry_data_def inline_def
      wire_def tag_view_def pointer_view_def)

lemma write_entry_WriteLongIFD:
  assumes "write_entries (of_nat ifh) [pointer_entry t off] st s = JOk st' s'"
  shows "Jpeg_WriteLongIFD \<lparr>info_tag = t, info_type = IFD_LONG, info_count = 1,
      value_offset = le32 (snd (fst st) - of_nat ifh), value_ptr = le32 (of_nat off)\<rparr> (fst st) s
    = JOk (fst st') s'" "snd st' = snd st + 1"
  using assms
  by (auto simp: write_entry_def pointer_entry_def field_def write_with_def entry_info_def jstmt
      split: jres.splits)

lemma open_table_pointer:
  assumes "open_table ifh b m B0 vo vs fs B" "p \<le> length B" "length vs < m"
    and "writes_region vo e sub_facts sub" "e \<le> length B" "4 dvd vo"
  shows "\<exists>B' q. write_pointer (of_nat ifh) t sub (table_state b vo vs) (mem B p)
      = JOk (table_state b e (vs @ [pointer_view t (vo - ifh)])) (mem B' q)
    \<and> q \<le> length B' \<and> open_table ifh b m B0 e (vs @ [pointer_view t (vo - ifh)]) (fs @ sub_facts) B'"
proof -
  let ?pe = "pointer_entry t (vo - ifh)" and ?V = "values_at b m" and ?vs = "vs @ [pointer_view t (vo - ifh)]"
  note open_table = assms(1) [unfolded open_table_def]
  have vo: "vo \<le> e" "4 dvd e" "ifh \<le> vo" "vo + 3 < 2 ^ 32"
    using assms(4,5) open_table values_at_bounds(1) [of b m] by (simp_all add: writes_region_def)
  have al: "align4 (of_nat vo) = of_nat vo"
    using align4_of_nat [OF vo(4)] pad4_of_dvd [of vo 0] assms(6) by simp
  obtain B1 q1 where B1: "write_entries (of_nat ifh) [?pe] (table_state b vo vs) (mem B p)
      = JOk (table_state b vo ?vs) (mem B1 q1)" "q1 \<le> length B1" "open_table ifh b m B0 vo ?vs fs B1"
    using open_table_entries [OF assms(1,2), of "[?pe]"] assms(3,5,6) vo
    by (auto simp: pointer_entry_facts)
  note open1 = B1(3) [unfolded open_table_def]
  have len1: "length B1 = length B"
    using changed_length [of _ B0 B] changed_length [of _ B0 B1] open_table open1 by metis
  note long = write_entry_WriteLongIFD [OF B1(1)]
  obtain B2 q2 where B2: "sub (of_nat vo) (mem B1 q1) = JOk (of_nat e) (mem B2 q2)" "q2 \<le> length B2"
      "region_written vo e sub_facts B1 B2"
    using assms(4,5) B1(2) open1 len1 unfolding writes_region_def by metis
  have run: "write_pointer (of_nat ifh) t sub (table_state b vo vs) (mem B p)
      = JOk (table_state b e ?vs) (mem B2 q2)"
    using long B2(1) vo(3) al by (simp add: write_pointer_def table_state_def jstmt Let_def)
  have c: "changed {vo..<e} B1 B2" and new: "\<forall>f\<in>set sub_facts. fact_within vo e B2 f"
    using B2(3) by (simp_all add: region_written_def)
  have "open_table ifh b m B0 e ?vs (fs @ sub_facts) B2"
    unfolding open_table_def
  proof (intro conjI ballI)
    have c0: "changed {b..<vo} B0 B1" using open1 by blast
    show "changed {b..<e} B0 B2"
      by (rule changed_trans [OF c0 c]) (use vo values_at_bounds(1) [of b m] open1 in auto)
    have "slots ifh (b + 2) {?V..<vo} ?vs B2"
      by (rule slots_changed [OF _ c]) (use open1 values_at_bounds(1) [of b m] in auto)
    then show "slots ifh (b + 2) {?V..<e} ?vs B2"
      by (rule slots_mono) (use vo assms(5) len1 changed_length [OF c] in auto)
    fix f assume "f \<in> set (fs @ sub_facts)"
    then consider "f \<in> set fs" | "f \<in> set sub_facts" by auto
    then show "fact_within ?V e B2 f"
    proof cases
      case 1
      then have "fact_within ?V vo B1 f" using open1 by blast
      then have "fact_within ?V vo B2 f" by (rule fact_within_changed [OF _ c]) auto
      then show ?thesis by (rule fact_within_mono) (use vo in simp_all)
    next
      case 2
      then have "fact_within vo e B2 f" using new by blast
      then show ?thesis by (rule fact_within_mono) (use open1 in simp_all)
    qed
  qed (use open1 vo changed_length [OF c] in simp_all)
  then show ?thesis using run B2(2) by blast
qed

subsection \<open>The interoperability table, the GPS table and the EXIF table\<close>

lemma rooms_dvd: "4 dvd rooms es"
  by (induction es) (simp_all add: room_dvd)

lemma rooms_append [simp]: "rooms (es @ fs) = rooms es + rooms fs"
  by (simp add: rooms_def)

lemma count_written_append [simp]: "count_written (es @ fs) = count_written es + count_written fs"
  by (simp add: count_written_def)

lemma count_written_le: "count_written es \<le> length es"
  by (simp add: count_written_def)

lemma jbind_run: "m s = JOk a s' \<Longrightarrow> jbind m k s = k a s'"
  by (simp add: jbind_def)

lemma simple_table:
  assumes "\<forall>e\<in>set es. entry_ok e" "length es \<le> m" "m < 65536" "ifh \<le> b"
  shows "writes_region b (values_at b m + rooms es)
    [table_fact ifh b (values_at b m + rooms es) (views es) 0]
    (\<lambda>b0. jbind (begin_ifd (of_nat m) b0) (\<lambda>st.
       jbind (write_entries (of_nat ifh) es st) (end_ifd b0 0)))"
  unfolding writes_region_def
proof (intro conjI allI impI)
  let ?e = "values_at b m + rooms es"
  show "b \<le> ?e" "4 dvd ?e" using values_at_bounds [of b m] rooms_dvd by simp_all
  fix B :: bytes and p assume B: "small B" "p \<le> length B" "?e \<le> length B"
  have start: "b + 2 \<le> length B" "values_at b m \<le> length B" using B(3) values_at_bounds(1) [of b m] by simp_all
  obtain B1 q1 where 1: "begin_ifd (of_nat m) (of_nat b) (mem B p) = JOk (table_state b (values_at b m) []) (mem B1 q1)"
    "q1 \<le> length B1" "open_table ifh b m B (values_at b m) [] [] B1"
    using open_table_start [OF B(1) assms(4) start assms(3)] by blast
  have len1: "length B1 = length B" using 1(3) by (simp add: open_table_def changed_def)
  obtain B2 q2 where 2: "write_entries (of_nat ifh) es (table_state b (values_at b m) []) (mem B1 q1)
      = JOk (table_state b ?e (views es)) (mem B2 q2)" "q2 \<le> length B2" "open_table ifh b m B ?e (views es) [] B2"
    using open_table_entries [OF 1(3,2) assms(1)] le_trans [OF count_written_le assms(2)] B(3) len1
      values_at_bounds(2) by auto
  have len2: "length B2 = length B" using 2(3) by (simp add: open_table_def changed_def)
  obtain B3 q3 where "end_ifd (of_nat b) 0 (table_state b ?e (views es)) (mem B2 q2) = JOk (of_nat ?e) (mem B3 q3)"
    "q3 \<le> length B3" "region_written b ?e [table_fact ifh b ?e (views es) 0] B B3"
    using open_table_end [OF 2(3,2) assms(3), of 0] B(3) [folded len2] by blast
  then show "\<exists>B' q. jbind (begin_ifd (of_nat m) (of_nat b)) (\<lambda>st.
        jbind (write_entries (of_nat ifh) es st) (end_ifd (of_nat b) 0)) (mem B p) = JOk (of_nat ?e) (mem B' q)
      \<and> q \<le> length B' \<and> region_written b ?e [table_fact ifh b ?e (views es) 0] B B'"
    by (auto simp: jbind_run [where m = "begin_ifd (of_nat m) (of_nat b)", OF 1(1)]
        jbind_run [where m = "write_entries (of_nat ifh) es (table_state b (values_at b m) [])", OF 2(1)])
qed

definition interop_end :: "nat \<Rightarrow> exif_interoperability_info \<Rightarrow> nat" where
  "interop_end b i = values_at b 1 + rooms (inter_fields i)"

definition interop_facts :: "nat \<Rightarrow> nat \<Rightarrow> exif_interoperability_info \<Rightarrow> region_fact list" where
  "interop_facts ifh b i = [table_fact ifh b (interop_end b i) (views (inter_fields i)) 0]"

lemma writes_interop:
  assumes "\<forall>e\<in>set (inter_fields i). entry_ok e" "ifh \<le> b"
  shows "writes_region b (interop_end b i) (interop_facts ifh b i)
    (Jpeg_WriteExifInteroperabilityInfo (Some i) (of_nat ifh))"
  using simple_table [of "inter_fields i" 1 ifh b] assms
  unfolding Jpeg_WriteExifInteroperabilityInfo_def interop_end_def interop_facts_def
  by (simp add: inter_fields_def)

definition gps_end :: "nat \<Rightarrow> exif_gps_info \<Rightarrow> nat" where
  "gps_end b g = values_at b 31 + rooms (gps_fields g)"

definition gps_facts :: "nat \<Rightarrow> nat \<Rightarrow> exif_gps_info \<Rightarrow> region_fact list" where
  "gps_facts ifh b g = [table_fact ifh b (gps_end b g) (views (gps_fields g)) 0]"

lemma length_gps_fields: "length (gps_fields g) = 31"
  by (simp add: gps_fields_def gps_position_fields_def gps_motion_fields_def gps_dest_fields_def
      gps_text_fields_def)

lemma writes_gps:
  assumes "\<forall>e\<in>set (gps_fields g). entry_ok e" "ifh \<le> b"
  shows "writes_region b (gps_end b g) (gps_facts ifh b g) (Jpeg_WriteExifGPSInfo (Some g) (of_nat ifh))"
  using simple_table [of "gps_fields g" 31 ifh b] assms length_gps_fields [of g]
  unfolding Jpeg_WriteExifGPSInfo_def gps_end_def gps_facts_def by simp

text \<open>The EXIF table has room for 57 entries, and as many fields with the pointer.\<close>

lemma length_spec_fields: "length (spec_fields_before s) + length (spec_fields_after s) = 56"
  by (simp add: spec_fields_before_def spec_fields_after_def spec_exposure_fields_def
      spec_date_fields_def spec_aperture_fields_def spec_lens_fields_def spec_user_fields_def
      spec_pixel_fields_def spec_focal_fields_def spec_sensor_fields_def spec_mode_fields_def
      spec_scene_fields_def)

definition spec_pointer_at :: "nat \<Rightarrow> exif_specific_info \<Rightarrow> nat" where
  "spec_pointer_at b s = values_at b 57 + rooms (spec_fields_before s)"

definition spec_after_at :: "nat \<Rightarrow> exif_specific_info \<Rightarrow> exif_interoperability_info option \<Rightarrow> nat" where
  "spec_after_at b s io =
     (case io of None \<Rightarrow> spec_pointer_at b s | Some i \<Rightarrow> interop_end (spec_pointer_at b s) i)"

definition spec_end :: "nat \<Rightarrow> exif_specific_info \<Rightarrow> exif_interoperability_info option \<Rightarrow> nat" where
  "spec_end b s io = spec_after_at b s io + rooms (spec_fields_after s)"

definition spec_views :: "nat \<Rightarrow> nat \<Rightarrow> exif_specific_info \<Rightarrow> exif_interoperability_info option \<Rightarrow>
    tag_value list" where
  "spec_views ifh b s io = views (spec_fields_before s)
     @ (if io = None then [] else [pointer_view IFD_INTEROPERABILITYIFDPOINTER (spec_pointer_at b s - ifh)])
     @ views (spec_fields_after s)"

definition spec_facts :: "nat \<Rightarrow> nat \<Rightarrow> exif_specific_info \<Rightarrow> exif_interoperability_info option \<Rightarrow>
    region_fact list" where
  "spec_facts ifh b s io = table_fact ifh b (spec_end b s io) (spec_views ifh b s io) 0
     # (case io of None \<Rightarrow> [] | Some i \<Rightarrow> interop_facts ifh (spec_pointer_at b s) i)"

text \<open>An optional pointer.\<close>

lemma open_table_pointer_if:
  assumes "open_table ifh b m B0 vo vs fs B" "p \<le> length B" "length vs < m"
    and "c \<Longrightarrow> writes_region vo e sub_facts sub" "\<not> c \<Longrightarrow> e = vo \<and> sub_facts = []" "e \<le> length B" "4 dvd vo"
  shows "\<exists>B' q. (if \<not> c then jret (table_state b vo vs)
        else write_pointer (of_nat ifh) t sub (table_state b vo vs)) (mem B p)
      = JOk (table_state b e (vs @ (if \<not> c then [] else [pointer_view t (vo - ifh)]))) (mem B' q)
    \<and> q \<le> length B'
    \<and> open_table ifh b m B0 e (vs @ (if \<not> c then [] else [pointer_view t (vo - ifh)])) (fs @ sub_facts) B'"
proof (cases c)
  case True
  then show ?thesis using open_table_pointer [OF assms(1-3) assms(4) assms(6,7), of t] by simp
next
  case False
  then show ?thesis using assms(1,2,5) by (intro exI [of _ B] exI [of _ p]) (simp add: jstmt)
qed

lemma open_table_length: "open_table ifh b m B0 vo vs fs B \<Longrightarrow> length B = length B0"
  by (simp add: open_table_def changed_def)

lemma writes_spec:
  assumes "\<forall>e\<in>set (spec_fields_before s @ spec_fields_after s). entry_ok e" "ifh \<le> b"
    and "\<And>i. io = Some i \<Longrightarrow> \<forall>e\<in>set (inter_fields i). entry_ok e"
  shows "writes_region b (spec_end b s io) (spec_facts ifh b s io)
    (Jpeg_WriteExifSpecInfo (Some s) io (of_nat ifh))"
  unfolding writes_region_def
proof (intro conjI allI impI)
  let ?p = "spec_pointer_at b s" and ?a = "spec_after_at b s io" and ?e = "spec_end b s io"
  have ends: "values_at b 57 \<le> ?p" "?a \<le> ?e" by (simp_all add: spec_pointer_at_def spec_end_def)
  have pd: "4 dvd ?p" using values_at_bounds(2) rooms_dvd by (simp add: spec_pointer_at_def)
  have sub: "writes_region ?p ?a (interop_facts ifh ?p i)
      (Jpeg_WriteExifInteroperabilityInfo io (of_nat ifh))" if "io = Some i" for i
    using writes_interop [OF assms(3) [OF that], of ifh ?p] that assms(2) ends values_at_bounds(1) [of b 57]
    by (simp add: spec_after_at_def)
  then have pa: "?p \<le> ?a" "4 dvd ?a"
    using values_at_bounds(2) rooms_dvd
    by (cases io; simp add: writes_region_def spec_after_at_def spec_pointer_at_def)+
  show "b \<le> ?e" "4 dvd ?e"
    using ends pa rooms_dvd values_at_bounds(1) [of b 57] by (simp_all add: spec_end_def)
  fix B :: bytes and p assume B: "small B" "p \<le> length B" "?e \<le> length B"
  have start: "b + 2 \<le> length B" "values_at b 57 \<le> length B"
    using B(3) ends pa values_at_bounds(1) [of b 57] by simp_all
  let ?before = "views (spec_fields_before s)" and ?sf = "case io of None \<Rightarrow> [] | Some i \<Rightarrow> interop_facts ifh ?p i"
  have count: "length ?before + count_written (spec_fields_after s) < 57" "length ?before < 57"
    using count_written_le [of "spec_fields_before s"] count_written_le [of "spec_fields_after s"]
      length_spec_fields [of s] by (simp_all add: length_views)
  obtain B1 q1 where 1: "begin_ifd 57 (of_nat b) (mem B p) = JOk (table_state b (values_at b 57) []) (mem B1 q1)"
    "q1 \<le> length B1" "open_table ifh b 57 B (values_at b 57) [] [] B1"
    using open_table_start [OF B(1) assms(2) start, of p] by auto
  obtain B2 q2 where 2: "write_entries (of_nat ifh) (spec_fields_before s) (table_state b (values_at b 57) []) (mem B1 q1)
      = JOk (table_state b ?p ?before) (mem B2 q2)" "q2 \<le> length B2" "open_table ifh b 57 B ?p ?before [] B2"
    using open_table_entries [OF 1(3,2), of "spec_fields_before s"] assms(1) count B(3) ends pa
      open_table_length [OF 1(3)] values_at_bounds(2) by (auto simp: spec_pointer_at_def length_views)
  let ?mid = "?before @ (if \<not> io \<noteq> None then []
      else [pointer_view IFD_INTEROPERABILITYIFDPOINTER (?p - ifh)])"
  have "?a \<le> length B2" using B(3) ends open_table_length [OF 2(3)] by simp
  moreover have "io \<noteq> None \<Longrightarrow> writes_region ?p ?a ?sf (Jpeg_WriteExifInteroperabilityInfo io (of_nat ifh))"
    using sub by auto
  moreover have "\<not> io \<noteq> None \<Longrightarrow> ?a = ?p \<and> ?sf = []" by (simp add: spec_after_at_def)
  ultimately obtain B3 q3 where 3: "(if \<not> io \<noteq> None then jret (table_state b ?p ?before)
        else write_pointer (of_nat ifh) IFD_INTEROPERABILITYIFDPOINTER
          (Jpeg_WriteExifInteroperabilityInfo io (of_nat ifh)) (table_state b ?p ?before)) (mem B2 q2)
      = JOk (table_state b ?a ?mid) (mem B3 q3)" "q3 \<le> length B3" "open_table ifh b 57 B ?a ?mid ([] @ ?sf) B3"
    using open_table_pointer_if [OF 2(3,2) count(2), of "io \<noteq> None" ?a ?sf] pd by blast
  have ok: "\<forall>e\<in>set (spec_fields_after s). entry_ok e" using assms(1) by simp
  have mid: "length ?mid + count_written (spec_fields_after s) \<le> 57" using count(1) by simp
  have end_eq: "?e = ?a + rooms (spec_fields_after s)" by (simp add: spec_end_def)
  have room: "?e \<le> length B3" using B(3) open_table_length [OF 3(3)] by simp
  obtain B4 q4 where 4: "write_entries (of_nat ifh) (spec_fields_after s) (table_state b ?a ?mid) (mem B3 q3)
      = JOk (table_state b ?e (?mid @ views (spec_fields_after s))) (mem B4 q4)" "q4 \<le> length B4"
      "open_table ifh b 57 B ?e (?mid @ views (spec_fields_after s)) ([] @ ?sf) B4"
    using open_table_entries [OF 3(3,2) ok mid, folded end_eq] room pa(2) by blast
  have views: "?mid @ views (spec_fields_after s) = spec_views ifh b s io" by (simp add: spec_views_def)
  obtain B5 q5 where 5: "end_ifd (of_nat b) 0 (table_state b ?e (spec_views ifh b s io)) (mem B4 q4)
      = JOk (of_nat ?e) (mem B5 q5)" "q5 \<le> length B5" "region_written b ?e (spec_facts ifh b s io) B B5"
    using open_table_end [OF 4(3,2), of 0] B(3) open_table_length [OF 4(3)] views
    by (auto simp: spec_facts_def)
  have "Jpeg_WriteExifSpecInfo (Some s) io (of_nat ifh) (of_nat b) (mem B p) = JOk (of_nat ?e) (mem B5 q5)"
    using 1(1) 2(1) 3(1) 4(1) 5(1) views
    by (simp add: Jpeg_WriteExifSpecInfo_def jbind_def split: if_splits)
  then show "\<exists>B' q. Jpeg_WriteExifSpecInfo (Some s) io (of_nat ifh) (of_nat b) (mem B p) = JOk (of_nat ?e) (mem B' q)
      \<and> q \<le> length B' \<and> region_written b ?e (spec_facts ifh b s io) B B'"
    using 5(2,3) by blast
qed

end
