(* ===== verification/ExifImage.thy ===== *)
theory ExifImage
  imports ExifTables
begin

text \<open>
  The tables of the image and of the thumbnail, with everything they point to.
\<close>

subsection \<open>The thumbnail\<close>

lemma WriteLongIFD_pointer:
  assumes "small B" "io + 12 \<le> length B"
  shows "Jpeg_WriteLongIFD \<lparr>info_tag = t, info_type = IFD_LONG, info_count = 1, value_offset = u,
      value_ptr = le32 w\<rparr> (of_nat io, v) (mem B p)
    = JOk (of_nat (io + 12), v) (mem (put io (be16 t @ be16 IFD_LONG @ be32 1 @ be32 w) B) (io + 12))"
proof -
  let ?i = "\<lparr>info_tag = t, info_type = IFD_LONG, info_count = 1, value_offset = le32 w, value_ptr = le32 w\<rparr>"
  have "info_head ?i = be16 t @ be16 IFD_LONG @ be32 1 @ be32 w"
    by (simp add: info_head_def offset_value_def Let_def)
  then show ?thesis using write_header_mem [OF assms, of ?i p]
    by (simp add: Jpeg_WriteLongIFD_def Let_def readable_def jstmt)
qed

lemma pointer_slot:
  assumes "small B" "io + 12 \<le> length B" "ifh \<le> length B" "V \<subseteq> {..<length B}"
  shows "slot ifh io V (pointer_view t off) (put io (be16 t @ be16 IFD_LONG @ be32 1 @ be32 (of_nat off)) B)"
proof -
  let ?h = "be16 t @ be16 IFD_LONG @ be32 1 @ be32 (of_nat off)"
  let ?B = "put io ?h B"
  have head: "entry_head ifh (length B) (pointer_entry t off) = ?h"
    by (simp add: entry_head_def entry_field_def inline_def wire_def units_def pointer_entry_def field_def)
  have data: "entry_data (pointer_entry t off) = []"
    by (simp add: entry_data_def inline_def wire_def units_def pointer_entry_def field_def)
  have "held ?B io ?h" using assms(2) by (intro held_put) simp
  moreover have "held ?B (length B) []" using assms(2) by (intro held_Nil) simp
  ultimately have "slot ifh io V (tag_view (pointer_entry t off)) ?B"
    using assms head data by (intro slot_held [where vo = "length B"]) (simp_all add: pointer_entry_facts)
  then show ?thesis by (simp add: pointer_entry_facts)
qed

definition blob_fact :: "nat \<Rightarrow> bytes \<Rightarrow> region_fact" where
  "blob_fact p bs = (p, p + length bs, \<lambda>B. load p (length bs) B = Some bs)"

lemma write_thumbnail_mem:
  assumes "small B" "vo + length bs \<le> length B" "io + 12 \<le> length B" "ifh \<le> vo"
  shows "write_thumbnail (of_nat ifh) bs (of_nat io) ((x, of_nat vo), k) (mem B p)
    = JOk ((x, of_nat (vo + length bs)), k)
        (mem (put io (be16 IFD_JPEGINTERCHANGEFORMAT @ be16 IFD_LONG @ be32 1 @ be32 (of_nat (vo - ifh)))
           (put vo bs B)) (io + 12))"
proof -
  have io: "io + 12 \<le> length (put vo bs B)" and len: "length (put vo bs B) = length B"
    using assms(2,3) by simp_all
  have diff: "of_nat vo - of_nat ifh = (of_nat (vo - ifh) :: u32)" using assms(4) by simp
  show ?thesis
    using assms io len emitsD [OF emits_WriteBlock [of bs], of vo B]
      WriteLongIFD_pointer [OF _ io, of IFD_JPEGINTERCHANGEFORMAT "le32 (of_nat (vo - ifh))" "of_nat (vo - ifh)"
        "of_nat (vo + length bs)" io]
    unfolding write_thumbnail_def fst_conv snd_conv diff
    by (simp add: ignoring_def jstmt SetWritePos_mem GetWritePos_mem del: of_nat_add of_nat_diff)
qed

lemma open_table_thumbnail:
  assumes "open_table ifh b m B0 vo vs fs B" "p \<le> length B" "j < length vs" "vo + length bs \<le> length B" "bs \<noteq> []"
  shows "\<exists>B' q. write_thumbnail (of_nat ifh) bs (of_nat (b + 2 + 12 * j)) (table_state b vo vs) (mem B p)
      = JOk (table_state b (vo + length bs) (vs[j := pointer_view IFD_JPEGINTERCHANGEFORMAT (vo - ifh)])) (mem B' q)
    \<and> q \<le> length B' \<and> open_table ifh b m B0 (vo + length bs)
        (vs[j := pointer_view IFD_JPEGINTERCHANGEFORMAT (vo - ifh)]) (fs @ [blob_fact vo bs]) B'"
proof -
  let ?io = "b + 2 + 12 * j" and ?V = "values_at b m" and ?v = "pointer_view IFD_JPEGINTERCHANGEFORMAT (vo - ifh)"
  let ?h = "be16 IFD_JPEGINTERCHANGEFORMAT @ be16 IFD_LONG @ be32 1 @ be32 (of_nat (vo - ifh))"
  let ?B1 = "put vo bs B" and ?e = "vo + length bs"
  let ?B2 = "put ?io ?h ?B1"
  note open_table = assms(1) [unfolded open_table_def]
  have below: "?io + 12 \<le> ?V" using values_at_bounds(1) [of b m] open_table assms(3) by linarith
  have ifh: "ifh \<le> vo" using below open_table by linarith
  have len: "length ?B1 = length B" using assms(4) by simp
  have io: "?io + 12 \<le> length ?B1" using below open_table assms(4) len by linarith
  have len2: "length ?B2 = length B" using io len by simp
  have c1: "changed {vo..<?e} B ?B1" using assms(4) by (rule changed_put)
  have c2: "changed {?io..<?io + 12} ?B1 ?B2" using changed_put [of ?io ?h ?B1] io by simp
  have "?io + 12 \<le> length B" using io len by simp
  then have run: "write_thumbnail (of_nat ifh) bs (of_nat ?io) (table_state b vo vs) (mem B p)
      = JOk (table_state b ?e (vs[j := ?v])) (mem ?B2 (?io + 12))"
    unfolding table_state_def length_list_update
    using open_table ifh by (intro write_thumbnail_mem [OF _ assms(4)]) simp_all
  have "slots ifh (b + 2) {?V..<vo} vs ?B1"
    by (rule slots_changed [OF _ c1]) (use open_table below assms(3) values_at_bounds(1) [of b m] in auto)
  then have "slots ifh (b + 2) {?V..<?e} vs ?B1" by (rule slots_mono) (use assms(4) len in auto)
  then have new_slots: "slots ifh (b + 2) {?V..<?e} (vs[j := ?v]) ?B2"
  proof (rule slots_update [OF _ assms(3)])
    show "changed {b + 2 + 12 * j..<b + 2 + 12 * j + 12} ?B1 ?B2" by (rule c2)
    show "{b + 2 + 12 * j..<b + 2 + 12 * j + 12} \<inter> {?V..<?e} = {}" using below by auto
    show "slot ifh (b + 2 + 12 * j) {?V..<?e} ?v ?B2"
      using io len open_table ifh assms(4) by (intro pointer_slot) auto
  qed
  have old: "fact_within ?V ?e ?B2 f" if "f \<in> set fs" for f
  proof -
    have "fact_within ?V vo B f" using open_table that by blast
    then have "fact_within ?V vo ?B1 f" by (rule fact_within_changed [OF _ c1]) auto
    then have "fact_within ?V vo ?B2 f" by (rule fact_within_changed [OF _ c2]) (use below in auto)
    then show ?thesis by (rule fact_within_mono) simp_all
  qed
  have "load vo (length bs) ?B1 = Some bs" using held_put [OF assms(4)] by (simp add: held_def)
  moreover have "{?io..<?io + 12} \<inter> {vo..<vo + length bs} = {}" using below open_table by auto
  ultimately have "load vo (length bs) ?B2 = Some bs" using load_changed [OF c2] by simp
  then have "fact_within ?V ?e ?B2 (blob_fact vo bs)"
    using open_table assms(5) by (simp add: blob_fact_def robust_load)
  moreover have "changed {b..<?e} B0 ?B2"
  proof (rule changed_trans [OF _ c2])
    have "changed {b..<vo} B0 B" using open_table by blast
    then show "changed {b..<?e} B0 ?B1"
      by (rule changed_trans [OF _ c1]) (use open_table values_at_bounds(1) [of b m] in auto)
    show "{b..<?e} \<union> {?io..<?io + 12} \<subseteq> {b..<?e}" using below open_table by auto
  qed
  ultimately have "open_table ifh b m B0 ?e (vs[j := ?v]) (fs @ [blob_fact vo bs]) ?B2"
    using open_table new_slots old len2 by (auto simp: open_table_def)
  then show ?thesis using run io len len2 by (intro exI [of _ ?B2] exI [of _ "?io + 12"]) simp
qed

subsection \<open>The table of an image\<close>

definition ifd_values :: "nat \<Rightarrow> exif_primary_info \<Rightarrow> nat" where
  "ifd_values b pr = values_at b 24 + rooms (primary_fields_before pr) + rooms (primary_size_fields pr)"

definition ifd_gps_at :: "nat \<Rightarrow> exif_primary_info \<Rightarrow> exif_specific_info option \<Rightarrow>
    exif_interoperability_info option \<Rightarrow> nat" where
  "ifd_gps_at b pr so io =
     (case so of None \<Rightarrow> ifd_values b pr | Some s \<Rightarrow> spec_end (ifd_values b pr) s io)"

definition ifd_thumb_at :: "nat \<Rightarrow> exif_primary_info \<Rightarrow> exif_specific_info option \<Rightarrow>
    exif_interoperability_info option \<Rightarrow> exif_gps_info option \<Rightarrow> nat" where
  "ifd_thumb_at b pr so io go =
     (case go of None \<Rightarrow> ifd_gps_at b pr so io | Some g \<Rightarrow> gps_end (ifd_gps_at b pr so io) g)"

definition thumb_bytes :: "bytes option \<Rightarrow> bytes" where
  "thumb_bytes th = (case th of None \<Rightarrow> [] | Some bs \<Rightarrow> bs)"

text \<open>The entries of the table, with the position of the thumbnail where it is known.\<close>

definition image_views :: "exif_primary_info \<Rightarrow> bytes option \<Rightarrow> nat \<Rightarrow> tag_value list" where
  "image_views pr th off = views (primary_fields_before pr)
     @ (if has_thumbnail th
        then [pointer_view IFD_JPEGINTERCHANGEFORMAT off,
              pointer_view IFD_JPEGINTERCHANGEFORMATLENGTH (length (thumb_bytes th))]
        else [])
     @ views (primary_size_fields pr)"

definition optional_pointer :: "bool \<Rightarrow> u16 \<Rightarrow> nat \<Rightarrow> tag_value list" where
  "optional_pointer c t off = (if \<not> c then [] else [pointer_view t off])"

definition ifd_views :: "nat \<Rightarrow> nat \<Rightarrow> exif_primary_info \<Rightarrow> exif_specific_info option \<Rightarrow>
    exif_interoperability_info option \<Rightarrow> exif_gps_info option \<Rightarrow> bytes option \<Rightarrow> tag_value list" where
  "ifd_views ifh b pr so io go th = image_views pr th (ifd_thumb_at b pr so io go - ifh)
     @ optional_pointer (so \<noteq> None) IFD_EXIFIFDPOINTER (ifd_values b pr - ifh)
     @ optional_pointer (go \<noteq> None) IFD_GPSIFDPOINTER (ifd_gps_at b pr so io - ifh)"

definition sub_facts :: "nat \<Rightarrow> nat \<Rightarrow> exif_primary_info \<Rightarrow> exif_specific_info option \<Rightarrow>
    exif_interoperability_info option \<Rightarrow> exif_gps_info option \<Rightarrow> region_fact list" where
  "sub_facts ifh b pr so io go =
     (case so of None \<Rightarrow> [] | Some s \<Rightarrow> spec_facts ifh (ifd_values b pr) s io)
     @ (case go of None \<Rightarrow> [] | Some g \<Rightarrow> gps_facts ifh (ifd_gps_at b pr so io) g)"

definition ifd_end :: "nat \<Rightarrow> exif_primary_info \<Rightarrow> exif_specific_info option \<Rightarrow>
    exif_interoperability_info option \<Rightarrow> exif_gps_info option \<Rightarrow> bytes option \<Rightarrow> nat" where
  "ifd_end b pr so io go th = ifd_thumb_at b pr so io go + length (thumb_bytes th)"

text \<open>The information is well-formed when every entry that is written from it is.\<close>

definition ifd_ok :: "exif_primary_info \<Rightarrow> exif_specific_info option \<Rightarrow>
    exif_interoperability_info option \<Rightarrow> exif_gps_info option \<Rightarrow> bool" where
  "ifd_ok pr so io go \<longleftrightarrow>
     (\<forall>e\<in>set (primary_fields_before pr @ primary_size_fields pr). entry_ok e)
     \<and> (\<forall>s. so = Some s \<longrightarrow> (\<forall>e\<in>set (spec_fields_before s @ spec_fields_after s). entry_ok e)
          \<and> (\<forall>i. io = Some i \<longrightarrow> (\<forall>e\<in>set (inter_fields i). entry_ok e)))
     \<and> (\<forall>g. go = Some g \<longrightarrow> (\<forall>e\<in>set (gps_fields g). entry_ok e))"

lemma length_primary_fields:
  "length (primary_fields_before pr) + length (primary_size_fields pr) = 20"
  by (simp add: primary_fields_before_def primary_desc_fields_def primary_char_fields_def
      primary_size_fields_def)

lemma length_image_views: "length (image_views pr th off) \<le> 22"
  using count_written_le [of "primary_fields_before pr"] count_written_le [of "primary_size_fields pr"]
    length_primary_fields [of pr]
  by (simp add: image_views_def length_views)

lemma thumbnail_entries:
  "(if has_thumbnail th then offset_field 0 # thumbnail_fields th else [])
    = (if has_thumbnail th then [pointer_entry IFD_JPEGINTERCHANGEFORMAT 0,
         pointer_entry IFD_JPEGINTERCHANGEFORMATLENGTH (length (thumb_bytes th))] else [])"
  by (auto simp: has_thumbnail_def thumbnail_fields_def offset_field_def pointer_entry_def thumb_bytes_def
      split: option.splits)

lemma write_entries_append:
  "write_entries ifh (es @ fs) st s = jbind (write_entries ifh es st) (write_entries ifh fs) s"
  by (induction es arbitrary: st s) (simp_all add: jstmt split: jres.split)

text \<open>The fields of the image.\<close>

lemma open_table_image:
  assumes "open_table ifh b 24 B0 (values_at b 24) [] [] B" "p \<le> length B" "ifd_values b pr \<le> length B"
    and "\<forall>e\<in>set (primary_fields_before pr @ primary_size_fields pr). entry_ok e"
  shows "\<exists>B' q B1 q1. write_entries (of_nat ifh) (primary_fields_before pr) (table_state b (values_at b 24) [])
        (mem B p) = JOk (table_state b (values_at b 24 + rooms (primary_fields_before pr))
          (views (primary_fields_before pr))) (mem B1 q1)
    \<and> jbind (write_entries (of_nat ifh)
          (if has_thumbnail th then offset_field 0 # thumbnail_fields th else [])
          (table_state b (values_at b 24 + rooms (primary_fields_before pr)) (views (primary_fields_before pr))))
        (write_entries (of_nat ifh) (primary_size_fields pr)) (mem B1 q1)
      = JOk (table_state b (ifd_values b pr) (image_views pr th 0)) (mem B' q)
    \<and> q \<le> length B' \<and> open_table ifh b 24 B0 (ifd_values b pr) (image_views pr th 0) [] B'"
proof -
  let ?A = "primary_fields_before pr" and ?S = "primary_size_fields pr"
  let ?T = "if has_thumbnail th then offset_field 0 # thumbnail_fields th else []"
  let ?v1 = "values_at b 24 + rooms ?A"
  have T: "rooms ?T = 0" "\<forall>e\<in>set ?T. entry_ok e" "count_written ?T \<le> 2"
    by (simp_all only: thumbnail_entries) (auto simp: pointer_entry_facts)
  have viewsT: "views ?A @ views (?T @ ?S) = image_views pr th 0"
    by (simp only: thumbnail_entries) (simp add: pointer_entry_facts image_views_def)
  have counts: "count_written ?A \<le> 24" "count_written ?A + count_written (?T @ ?S) \<le> 24"
    using count_written_le [of ?A] count_written_le [of ?S] length_primary_fields [of pr] T(3) by simp_all
  have ends: "?v1 \<le> ifd_values b pr" "?v1 + rooms (?T @ ?S) = ifd_values b pr"
    by (simp_all only: rooms_append T(1)) (simp_all add: ifd_values_def)
  obtain B1 q1 where 1: "write_entries (of_nat ifh) ?A (table_state b (values_at b 24) []) (mem B p)
      = JOk (table_state b ?v1 (views ?A)) (mem B1 q1)" "q1 \<le> length B1" "open_table ifh b 24 B0 ?v1 (views ?A) [] B1"
    using open_table_entries [OF assms(1,2), of ?A] assms(3,4) counts(1) ends(1) values_at_bounds(2) by auto
  have len: "length B1 = length B" using open_table_length [OF 1(3)] open_table_length [OF assms(1)] by simp
  have ok: "\<forall>e\<in>set (?T @ ?S). entry_ok e"
    using assms(4) T(2) unfolding set_append by (intro ballI) blast
  have "length (views ?A) + count_written (?T @ ?S) \<le> 24" using counts(2) by (simp only: length_views)
  moreover have "?v1 + rooms (?T @ ?S) \<le> length B1" using ends(2) assms(3) len by (simp only:)
  moreover have "4 dvd ?v1" using values_at_bounds(2) rooms_dvd by simp
  ultimately obtain B2 q2 where 2: "write_entries (of_nat ifh) (?T @ ?S) (table_state b ?v1 (views ?A)) (mem B1 q1)
      = JOk (table_state b (ifd_values b pr) (image_views pr th 0)) (mem B2 q2)" "q2 \<le> length B2"
      "open_table ifh b 24 B0 (ifd_values b pr) (image_views pr th 0) [] B2"
    using open_table_entries [OF 1(3,2) ok] unfolding ends(2) viewsT by blast
  then show ?thesis using 1(1) unfolding write_entries_append by blast
qed

text \<open>The tables behind it.\<close>

lemma open_table_subtables:
  assumes "open_table ifh b 24 B0 (ifd_values b pr) vs [] B" "p \<le> length B" "length vs \<le> 22"
    and "ifd_thumb_at b pr so io go \<le> length B" "ifd_ok pr so io go" "ifh \<le> b"
  shows "\<exists>B' q. jbind (if so = None then jret (table_state b (ifd_values b pr) vs)
          else write_pointer (of_nat ifh) IFD_EXIFIFDPOINTER
                 (Jpeg_WriteExifSpecInfo so io (of_nat ifh)) (table_state b (ifd_values b pr) vs))
        (\<lambda>st. if go = None then jret st
          else write_pointer (of_nat ifh) IFD_GPSIFDPOINTER (Jpeg_WriteExifGPSInfo go (of_nat ifh)) st)
        (mem B p)
      = JOk (table_state b (ifd_thumb_at b pr so io go)
          (vs @ optional_pointer (so \<noteq> None) IFD_EXIFIFDPOINTER (ifd_values b pr - ifh)
             @ optional_pointer (go \<noteq> None) IFD_GPSIFDPOINTER (ifd_gps_at b pr so io - ifh))) (mem B' q)
    \<and> q \<le> length B' \<and> open_table ifh b 24 B0 (ifd_thumb_at b pr so io go)
        (vs @ optional_pointer (so \<noteq> None) IFD_EXIFIFDPOINTER (ifd_values b pr - ifh)
             @ optional_pointer (go \<noteq> None) IFD_GPSIFDPOINTER (ifd_gps_at b pr so io - ifh))
        (sub_facts ifh b pr so io go) B'"
proof -
  let ?v = "ifd_values b pr" and ?g = "ifd_gps_at b pr so io" and ?t = "ifd_thumb_at b pr so io go"
  let ?f1 = "case so of None \<Rightarrow> [] | Some s \<Rightarrow> spec_facts ifh ?v s io"
  let ?f2 = "case go of None \<Rightarrow> [] | Some g \<Rightarrow> gps_facts ifh ?g g"
  let ?vs1 = "vs @ optional_pointer (so \<noteq> None) IFD_EXIFIFDPOINTER (?v - ifh)"
  have v: "4 dvd ?v" "b \<le> ?v"
    using values_at_bounds [of b 24] rooms_dvd by (simp_all add: ifd_values_def)
  have spec: "so \<noteq> None \<Longrightarrow> writes_region ?v ?g ?f1 (Jpeg_WriteExifSpecInfo so io (of_nat ifh))"
    using writes_spec [of _ ifh ?v io] assms(5,6) v(2) by (auto simp: ifd_ok_def ifd_gps_at_def)
  then have g: "4 dvd ?g" "?v \<le> ?g"
    using v by (cases so; simp add: writes_region_def ifd_gps_at_def)+
  have gps: "go \<noteq> None \<Longrightarrow> writes_region ?g ?t ?f2 (Jpeg_WriteExifGPSInfo go (of_nat ifh))"
    using writes_gps [of _ ifh ?g] assms(5,6) v(2) g(2) by (auto simp: ifd_ok_def ifd_thumb_at_def)
  then have t: "?g \<le> ?t" by (cases go) (simp_all add: writes_region_def ifd_thumb_at_def)
  have room: "?g \<le> length B" using t assms(4) by simp
  have none1: "\<not> so \<noteq> None \<Longrightarrow> ?g = ?v \<and> ?f1 = []" by (simp add: ifd_gps_at_def)
  have none2: "\<not> go \<noteq> None \<Longrightarrow> ?t = ?g \<and> ?f2 = []" by (simp add: ifd_thumb_at_def)
  have less: "length vs < 24" "length ?vs1 < 24" using assms(3) by (simp_all add: optional_pointer_def)
  obtain B1 q1 where 1: "(if \<not> so \<noteq> None then jret (table_state b ?v vs)
        else write_pointer (of_nat ifh) IFD_EXIFIFDPOINTER (Jpeg_WriteExifSpecInfo so io (of_nat ifh))
          (table_state b ?v vs)) (mem B p) = JOk (table_state b ?g ?vs1) (mem B1 q1)"
      "q1 \<le> length B1" "open_table ifh b 24 B0 ?g ?vs1 ([] @ ?f1) B1"
    unfolding optional_pointer_def
    using open_table_pointer_if [OF assms(1,2) less(1) spec none1 room v(1)] by blast
  have room2: "?t \<le> length B1"
    using assms(4) open_table_length [OF 1(3)] open_table_length [OF assms(1)] by simp
  obtain B2 q2 where 2: "(if \<not> go \<noteq> None then jret (table_state b ?g ?vs1)
        else write_pointer (of_nat ifh) IFD_GPSIFDPOINTER (Jpeg_WriteExifGPSInfo go (of_nat ifh))
          (table_state b ?g ?vs1)) (mem B1 q1)
      = JOk (table_state b ?t (?vs1 @ optional_pointer (go \<noteq> None) IFD_GPSIFDPOINTER (?g - ifh))) (mem B2 q2)"
      "q2 \<le> length B2" "open_table ifh b 24 B0 ?t
        (?vs1 @ optional_pointer (go \<noteq> None) IFD_GPSIFDPOINTER (?g - ifh)) (([] @ ?f1) @ ?f2) B2"
    unfolding optional_pointer_def [of "go \<noteq> None"]
    using open_table_pointer_if [OF 1(3,2) less(2) gps none2 room2 g(1)] by blast
  show ?thesis
  proof (intro exI [of _ B2] exI [of _ q2] conjI)
    show "open_table ifh b 24 B0 ?t (vs @ optional_pointer (so \<noteq> None) IFD_EXIFIFDPOINTER (?v - ifh)
        @ optional_pointer (go \<noteq> None) IFD_GPSIFDPOINTER (?g - ifh)) (sub_facts ifh b pr so io go) B2"
      unfolding sub_facts_def using 2(3) by (simp only: append_assoc append_Nil)
  qed (simp_all only: jbind_def 1(1) [unfolded not_not] 2(1) [unfolded not_not] 2(2) jres.case append_assoc)
qed

text \<open>The whole table: what the buffer then holds, and how far.\<close>

definition ifd_facts :: "nat \<Rightarrow> nat \<Rightarrow> exif_primary_info \<Rightarrow> exif_specific_info option \<Rightarrow>
    exif_interoperability_info option \<Rightarrow> exif_gps_info option \<Rightarrow> bytes option \<Rightarrow> u32 \<Rightarrow>
    region_fact list" where
  "ifd_facts ifh b pr so io go th nx =
     table_fact ifh b (ifd_end b pr so io go th) (ifd_views ifh b pr so io go th) nx
     # sub_facts ifh b pr so io go
     @ (if has_thumbnail th then [blob_fact (ifd_thumb_at b pr so io go) (thumb_bytes th)] else [])"

lemma thumb_slot:
  assumes "has_thumbnail th"
  shows "(image_views pr th 0 @ ws)[length (views (primary_fields_before pr)) :=
      pointer_view IFD_JPEGINTERCHANGEFORMAT off] = image_views pr th off @ ws"
  using assms by (simp add: image_views_def list_update_append)

lemma jbind_run2: "jbind m k s = JOk a s' \<Longrightarrow> jbind m (\<lambda>x. jbind (k x) h) s = h a s'"
  by (cases "m s") (simp_all add: jbind_def)

lemma writes_ifd:
  assumes "ifd_ok pr so io go" "ifh \<le> b" "small B" "p \<le> length B" "ifd_end b pr so io go th \<le> length B"
  shows "\<exists>B' q. Jpeg_WriteExifIFD (Some pr) so go io th next_exists (of_nat ifh) (of_nat b) (mem B p)
      = JOk (of_nat (ifd_end b pr so io go th)) (mem B' q)
    \<and> q \<le> length B' \<and> region_written b (ifd_end b pr so io go th)
        (ifd_facts ifh b pr so io go th
           (if next_exists then of_nat (ifd_end b pr so io go th) - of_nat ifh else 0)) B B'"
proof -
  let ?v = "ifd_values b pr" and ?t = "ifd_thumb_at b pr so io go" and ?e = "ifd_end b pr so io go th"
  let ?nx = "if next_exists then of_nat ?e - of_nat ifh else 0 :: u32"
  let ?A = "primary_fields_before pr" and ?sub = "sub_facts ifh b pr so io go"
  let ?ptrs = "optional_pointer (so \<noteq> None) IFD_EXIFIFDPOINTER (?v - ifh)
      @ optional_pointer (go \<noteq> None) IFD_GPSIFDPOINTER (ifd_gps_at b pr so io - ifh)"
  have V: "values_at b 24 \<le> ?v" by (simp add: ifd_values_def)
  have g: "?v \<le> ifd_gps_at b pr so io"
    using writes_spec [of _ ifh ?v io] assms(1,2) V values_at_bounds(1) [of b 24]
    by (cases so) (auto simp: writes_region_def ifd_ok_def ifd_gps_at_def)
  have t: "?v \<le> ?t"
    using g values_at_bounds(1) [of "ifd_gps_at b pr so io" 31]
    by (cases go) (simp_all add: ifd_thumb_at_def gps_end_def)
  have e: "?t \<le> ?e" by (simp add: ifd_end_def)
  have start: "b + 2 \<le> length B" "values_at b 24 \<le> length B"
    using assms(5) V t e values_at_bounds(1) [of b 24] by simp_all
  obtain B1 q1 where 1: "begin_ifd 24 (of_nat b) (mem B p) = JOk (table_state b (values_at b 24) []) (mem B1 q1)"
    "q1 \<le> length B1" "open_table ifh b 24 B (values_at b 24) [] [] B1"
    using open_table_start [OF assms(3,2) start, of p] by auto
  have len1: "length B1 = length B" by (rule open_table_length [OF 1(3)])
  have ok: "\<forall>e\<in>set (?A @ primary_size_fields pr). entry_ok e" using assms(1) by (simp add: ifd_ok_def)
  have "?v \<le> length B1" using t e assms(5) len1 by simp
  from open_table_image [OF 1(3,2) this ok, of th] obtain B2 q2 B3 q3 where
    2: "write_entries (of_nat ifh) ?A (table_state b (values_at b 24) []) (mem B1 q1)
      = JOk (table_state b (values_at b 24 + rooms ?A) (views ?A)) (mem B2 q2)" and
    3: "jbind (write_entries (of_nat ifh) (if has_thumbnail th then offset_field 0 # thumbnail_fields th else [])
          (table_state b (values_at b 24 + rooms ?A) (views ?A)))
        (write_entries (of_nat ifh) (primary_size_fields pr)) (mem B2 q2)
      = JOk (table_state b ?v (image_views pr th 0)) (mem B3 q3)" "q3 \<le> length B3"
      "open_table ifh b 24 B ?v (image_views pr th 0) [] B3"
    by blast
  have "?t \<le> length B3" using e assms(5) open_table_length [OF 3(3)] by simp
  from open_table_subtables [OF 3(3,2) length_image_views this assms(1,2)] obtain B4 q4 where
    4: "jbind (if so = None then jret (table_state b ?v (image_views pr th 0))
          else write_pointer (of_nat ifh) IFD_EXIFIFDPOINTER
                 (Jpeg_WriteExifSpecInfo so io (of_nat ifh)) (table_state b ?v (image_views pr th 0)))
        (\<lambda>st. if go = None then jret st
          else write_pointer (of_nat ifh) IFD_GPSIFDPOINTER (Jpeg_WriteExifGPSInfo go (of_nat ifh)) st)
        (mem B3 q3) = JOk (table_state b ?t (image_views pr th 0 @ ?ptrs)) (mem B4 q4)" "q4 \<le> length B4"
      "open_table ifh b 24 B ?t (image_views pr th 0 @ ?ptrs) ?sub B4"
    by blast
  have len4: "length B4 = length B" by (rule open_table_length [OF 4(3)])
  let ?thumb = "if has_thumbnail th then [blob_fact ?t (thumb_bytes th)] else []"
  have state: "fst (fst (table_state b (values_at b 24 + rooms ?A) (views ?A)))
      = of_nat (b + 2 + 12 * length (views ?A))"
    by (simp add: table_state_def)
  obtain B5 q5 where 5: "(if has_thumbnail th
        then write_thumbnail (of_nat ifh) (the th) (of_nat (b + 2 + 12 * length (views ?A)))
               (table_state b ?t (image_views pr th 0 @ ?ptrs))
        else jret (table_state b ?t (image_views pr th 0 @ ?ptrs))) (mem B4 q4)
      = JOk (table_state b ?e (ifd_views ifh b pr so io go th)) (mem B5 q5)" "q5 \<le> length B5"
      "open_table ifh b 24 B ?e (ifd_views ifh b pr so io go th) (?sub @ ?thumb) B5"
  proof (cases "has_thumbnail th")
    case True
    then have th: "the th = thumb_bytes th" by (auto simp: has_thumbnail_def thumb_bytes_def split: option.splits)
    have "length (views ?A) < length (image_views pr th 0 @ ?ptrs)" using True by (simp add: image_views_def)
    moreover have "?t + length (thumb_bytes th) \<le> length B4" using assms(5) len4 by (simp add: ifd_end_def)
    moreover have "thumb_bytes th \<noteq> []"
      using True by (auto simp: has_thumbnail_def thumb_bytes_def split: option.splits)
    ultimately show thesis
      using that open_table_thumbnail [OF 4(3,2), of "length (views ?A)" "thumb_bytes th"] True
      unfolding thumb_slot [OF True] th ifd_views_def ifd_end_def by auto
  next
    case False
    then have "?e = ?t"
      by (auto simp: has_thumbnail_def thumb_bytes_def ifd_end_def split: option.splits)
    moreover have "ifd_views ifh b pr so io go th = image_views pr th 0 @ ?ptrs"
      using False by (simp add: ifd_views_def image_views_def)
    ultimately show thesis using that [of B4 q4] 4(2,3) False by (simp only: if_False append_Nil2 jret_def)
  qed
  have "?e \<le> length B5" using assms(5) open_table_length [OF 5(3)] by simp
  from open_table_end [OF 5(3,2) _ this, of ?nx] obtain B6 q6 where
    6: "end_ifd (of_nat b) ?nx (table_state b ?e (ifd_views ifh b pr so io go th)) (mem B5 q5)
      = JOk (of_nat ?e) (mem B6 q6)" "q6 \<le> length B6"
      "region_written b ?e (table_fact ifh b ?e (ifd_views ifh b pr so io go th) ?nx # ?sub @ ?thumb) B B6"
    by auto
  have pos: "snd (fst (table_state b ?e vs)) = of_nat ?e" for vs by (simp add: table_state_def)
  have last: "jbind (if has_thumbnail th
        then write_thumbnail (of_nat ifh) (the th) (of_nat (b + 2 + 12 * length (views ?A)))
               (table_state b ?t (image_views pr th 0 @ ?ptrs))
        else jret (table_state b ?t (image_views pr th 0 @ ?ptrs)))
      (\<lambda>st. end_ifd (of_nat b) (if next_exists then snd (fst st) - of_nat ifh else 0) st) (mem B4 q4)
    = JOk (of_nat ?e) (mem B6 q6)"
    by (simp only: jbind_def 5(1) jres.case pos 6(1))
  have "Jpeg_WriteExifIFD (Some pr) so go io th next_exists (of_nat ifh) (of_nat b) (mem B p)
      = JOk (of_nat ?e) (mem B6 q6)"
    unfolding Jpeg_WriteExifIFD_def option.case Let_def
    by (simp only: jbind_run [where m = "begin_ifd 24 (of_nat b)", OF 1(1)]
        jbind_run [where m = "write_entries (of_nat ifh) ?A (table_state b (values_at b 24) [])", OF 2] state
        jbind_run2 [where k = "write_entries (of_nat ifh) (primary_size_fields pr)", OF 3(1)]
        jbind_run2 [OF 4(1)]
        last)
  then show ?thesis unfolding ifd_facts_def using 6(2,3) by blast
qed

end
