(* ===== verification/ExifShape.thy ===== *)
theory ExifShape
  imports ExifImage
begin

text \<open>
  When the EXIF information is well-formed: arrays have the lengths that \<^verbatim>\<open>jpeg_exif_header.h\<close> gives
  them, the strings that are marked as present end inside their arrays, and a custom value is not
  longer than its buffer of 256 bytes.  The subject area is left out: the code writes it with the
  writer of rationals.  Then every entry is one that the writers can write, and no table needs more
  than a known room.
\<close>

definition text_ok :: "bytes \<Rightarrow> bool" where
  "text_ok s \<longleftrightarrow> length s = 256 \<and> 0 \<in> set s"

definition custom_ok :: "nat \<Rightarrow> exif_custom \<Rightarrow> bool" where
  "custom_ok k c \<longleftrightarrow> length (custom_ptr c) = 256 \<and> k * unat (custom_count c) \<le> 256"

definition gps_shape :: "exif_gps_info \<Rightarrow> bool" where
  "gps_shape x \<longleftrightarrow>
     length (GPSVersionID x) = 4 \<and> length (GPSLatitudeRef x) = 2
     \<and> length (GPSLatitude x) = 3 \<and> length (GPSLongitudeRef x) = 2
     \<and> length (GPSLongitude x) = 3 \<and> length (GPSTimeStamp x) = 3
     \<and> (valid_GPSSatellites (gps_valid x) \<longrightarrow> text_ok (GPSSatellites x))
     \<and> length (GPSStatus x) = 2 \<and> length (GPSMeasureMode x) = 2
     \<and> length (GPSSpeedRef x) = 2 \<and> length (GPSTrackRef x) = 2
     \<and> length (GPSImgDirectionRef x) = 2
     \<and> (valid_GPSMapDatum (gps_valid x) \<longrightarrow> text_ok (GPSMapDatum x))
     \<and> length (GPSDestLatitudeRef x) = 2 \<and> length (GPSDestLatitude x) = 3
     \<and> length (GPSDestLongitudeRef x) = 2 \<and> length (GPSDestLongitude x) = 3
     \<and> length (GPSDestBearingRef x) = 2 \<and> length (GPSDestDistanceRef x) = 2
     \<and> (valid_GPSProcessingMethod (gps_valid x) \<longrightarrow> custom_ok 1 (GPSProcessingMethod x))
     \<and> (valid_GPSAreaInformation (gps_valid x) \<longrightarrow> custom_ok 1 (GPSAreaInformation x))
     \<and> length (GPSDateStamp x) = 11"

definition pic_shape :: "exif_spec_pic_taking_cond \<Rightarrow> bool" where
  "pic_shape x \<longleftrightarrow>
     (valid_SpectralSensitivity (pic_valid x) \<longrightarrow> text_ok (SpectralSensitivity x))
     \<and> (valid_ISOSpeedRatings (pic_valid x) \<longrightarrow> custom_ok 2 (ISOSpeedRatings x))
     \<and> (valid_OECF (pic_valid x) \<longrightarrow> custom_ok 1 (OECF x))
     \<and> \<not> valid_SubjectArea (pic_valid x)
     \<and> (valid_SpatialFrequencyResponse (pic_valid x) \<longrightarrow> custom_ok 1 (SpatialFrequencyResponse x))
     \<and> length (SubjectLocation x) = 2
     \<and> (valid_CFAPattern (pic_valid x) \<longrightarrow> custom_ok 1 (CFAPattern x))
     \<and> (valid_DeviceSettingDescription (pic_valid x) \<longrightarrow> custom_ok 1 (DeviceSettingDescription x))"

definition date_time_shape :: "exif_spec_date_time \<Rightarrow> bool" where
  "date_time_shape x \<longleftrightarrow>
     length (DateTimeOriginal x) = 20 \<and> length (DateTimeDigitized x) = 20
     \<and> (valid_SubSecTime (date_time_valid x) \<longrightarrow> text_ok (SubSecTime x))
     \<and> (valid_SubSecTimeOriginal (date_time_valid x) \<longrightarrow> text_ok (SubSecTimeOriginal x))
     \<and> (valid_SubSecTimeDigitized (date_time_valid x) \<longrightarrow> text_ok (SubSecTimeDigitized x))"

definition user_shape :: "exif_spec_user \<Rightarrow> bool" where
  "user_shape x \<longleftrightarrow>
     custom_ok 1 (MakerNote x) \<and> custom_ok 1 (UserComment x)"

definition related_file_shape :: "exif_spec_related_file \<Rightarrow> bool" where
  "related_file_shape x \<longleftrightarrow>
     length (RelatedSoundFile x) = 13"

definition other_shape :: "exif_spec_other \<Rightarrow> bool" where
  "other_shape x \<longleftrightarrow>
     length (ImageUniqueID x) = 33"

definition interop_shape :: "exif_interoperability_info \<Rightarrow> bool" where
  "interop_shape x \<longleftrightarrow>
     (valid_InteroperabilityIndex (inter_valid x) \<longrightarrow> custom_ok 1 (InteroperabilityIndex x))"

definition data_char_shape :: "exif_pri_data_char \<Rightarrow> bool" where
  "data_char_shape x \<longleftrightarrow>
     length (TransferFunction x) = 768 \<and> length (WhitePoint x) = 2
     \<and> length (PrimaryChromaticities x) = 6 \<and> length (YCbCrCoefficients x) = 3
     \<and> length (ReferenceBlackWhite x) = 6"

definition desc_shape :: "exif_pri_desc \<Rightarrow> bool" where
  "desc_shape x \<longleftrightarrow>
     length (DateTime x) = 20
     \<and> (valid_ImageDescription (desc_valid x) \<longrightarrow> text_ok (ImageDescription x))
     \<and> (valid_Make (desc_valid x) \<longrightarrow> text_ok (Make x))
     \<and> (valid_Model (desc_valid x) \<longrightarrow> text_ok (Model x))
     \<and> (valid_Software (desc_valid x) \<longrightarrow> text_ok (Software x))
     \<and> (valid_Artist (desc_valid x) \<longrightarrow> text_ok (Artist x))
     \<and> (valid_Copyright (desc_valid x) \<longrightarrow> text_ok (Copyright x))"

definition primary_shape :: "exif_primary_info \<Rightarrow> bool" where
  "primary_shape pr \<longleftrightarrow> (\<forall>x. data_char_ptr pr = Some x \<longrightarrow> data_char_shape x)
     \<and> (\<forall>x. img_desc_ptr pr = Some x \<longrightarrow> desc_shape x)"

definition spec_shape :: "exif_specific_info \<Rightarrow> bool" where
  "spec_shape s \<longleftrightarrow> length (ComponentsConfiguration (spec_basic s)) = 4
     \<and> (\<forall>x. pic_taking_cond_ptr s = Some x \<longrightarrow> pic_shape x)
     \<and> (\<forall>x. date_time_ptr s = Some x \<longrightarrow> date_time_shape x)
     \<and> (\<forall>x. user_ptr s = Some x \<longrightarrow> user_shape x)
     \<and> (\<forall>x. related_file_ptr s = Some x \<longrightarrow> related_file_shape x)
     \<and> (\<forall>x. other_ptr s = Some x \<longrightarrow> other_shape x)"

definition info_shape :: "jinf_exif_info \<Rightarrow> bool" where
  "info_shape i \<longleftrightarrow> primary_shape (exif_primary i)
     \<and> (\<forall>s. spec_ptr i = Some s \<longrightarrow> spec_shape s)
     \<and> (\<forall>g. gps_ptr i = Some g \<longrightarrow> gps_shape g)
     \<and> (\<forall>x. inter_ptr i = Some x \<longrightarrow> interop_shape x)"

subsection \<open>Every entry can be written\<close>

text \<open>An entry that the writers can write, whose value is not longer than \<^term>\<open>n\<close> bytes and whose tag
  is none of those that point somewhere.\<close>

definition pointer_tags :: "u16 list" where
  "pointer_tags = [IFD_EXIFIFDPOINTER, IFD_GPSIFDPOINTER, IFD_INTEROPERABILITYIFDPOINTER,
     IFD_JPEGINTERCHANGEFORMAT, IFD_JPEGINTERCHANGEFORMATLENGTH]"

definition entry_good :: "nat \<Rightarrow> ifd_entry \<Rightarrow> bool" where
  "entry_good n e \<longleftrightarrow> entry_ok e \<and> (e_written e \<longrightarrow> length (e_ptr e) \<le> n) \<and> e_tag e \<notin> set pointer_tags"

lemma entry_good_on:
  "(\<And>x. p = Some x \<Longrightarrow> entry_good n (e x)) \<Longrightarrow> entry_good n (on p e)"
  by (cases p) (simp_all add: on_def entry_good_def entry_ok_def field_def pointer_tags_def)

lemma entry_good_field:
  "entry_good n (field g t ty c v w) \<longleftrightarrow> t \<notin> set pointer_tags \<and> (g \<longrightarrow> length v \<le> n \<and> 0 < unat c \<and>
     (case w of
        ByteIFD \<Rightarrow> ty \<in> {IFD_BYTE, IFD_ASCII, IFD_UNDEFINED} \<and> unat c \<le> length v
      | ShortIFD \<Rightarrow> 2 * unat c \<le> length v \<and> (ty = IFD_SHORT \<or> ty = IFD_LONG \<and> unat c = 1)
      | LongIFD \<Rightarrow> ty \<in> {IFD_LONG, IFD_SLONG} \<and> 4 * unat c \<le> length v
      | RationalIFD \<Rightarrow> ty \<in> {IFD_RATIONAL, IFD_SRATIONAL} \<and> 8 * unat c \<le> length v))"
  by (auto simp: entry_good_def entry_ok_def field_def units_def split: ifd_writer.splits)

lemma entry_good_value_field:
  "entry_good n (value_field g t IFD_SHORT 1 v x ShortIFD) \<longleftrightarrow>
     t \<notin> set pointer_tags \<and> (g \<longrightarrow> length v \<le> n \<and> 2 \<le> length v)"
  by (auto simp: entry_good_def entry_ok_def value_field_def field_def units_def)

lemma string_size:
  assumes "0 \<in> set s" "length s < 2 ^ 32"
  shows "\<exists>n. GetAsciiStringSize s = Some n \<and> unat n < length s"
  using assms
proof (induction s)
  case (Cons c s)
  show ?case
  proof (cases "c = 0")
    case False
    then obtain n where n: "GetAsciiStringSize s = Some n" "unat n < length s"
      using Cons by auto
    have "unat (1 + n) = 1 + unat n"
      using n(2) Cons.prems(2) by (subst unat_add_lem [THEN iffD1]) simp_all
    then show ?thesis using n False by simp
  qed simp
qed simp

lemma entry_good_text:
  assumes "g \<Longrightarrow> text_ok s" "t \<notin> set pointer_tags" "256 \<le> n"
  shows "entry_good n (text_field g t s)"
proof (cases g)
  case True
  then have s: "0 \<in> set s" "length s = 256" using assms(1) by (simp_all add: text_ok_def)
  obtain k where k: "GetAsciiStringSize s = Some k" "unat k < length s"
    using string_size [OF s(1)] s(2) by auto
  then have "unat (k + 1) = unat k + 1" using s(2) by (subst unat_add_lem [THEN iffD1]) simp_all
  then show ?thesis using k s assms(2,3)
    by (simp add: entry_good_def entry_ok_def text_field_def field_def units_def)
qed (use assms(2) in \<open>simp add: entry_good_def entry_ok_def text_field_def field_def\<close>)

lemma entry_good_custom:
  assumes "g \<Longrightarrow> custom_ok (if w = ShortIFD then 2 else 1) c" "t \<notin> set pointer_tags"
    and "w = ByteIFD \<and> ty \<in> {IFD_BYTE, IFD_ASCII, IFD_UNDEFINED} \<or> w = ShortIFD \<and> ty = IFD_SHORT"
    and "256 \<le> n"
  shows "entry_good n (custom_field g t ty c w)"
  using assms by (auto simp: custom_field_def entry_good_field custom_ok_def word_less_nat_alt)

lemma entry_good_absent: "\<not> g \<Longrightarrow> t \<notin> set pointer_tags \<Longrightarrow> entry_good n (custom_field g t ty c w)"
  by (simp add: custom_field_def entry_good_field)

lemma length_values [simp]:
  "length (rational r) = 8" "length (rationals rs) = 8 * length rs" "length (shorts ws) = 2 * length ws"
  by (simp_all add: rational_def rationals_def shorts_def length_concat_map [where n = 8]
      length_concat_map [where n = 2])

lemmas entry_good_rules = entry_good_absent entry_good_field entry_good_value_field entry_good_text entry_good_custom

lemma gps_fields_good:
  assumes "gps_shape g"
  shows "\<forall>e\<in>set (gps_fields g). entry_good 256 e"
  using assms
  by (simp add: gps_fields_def gps_position_fields_def gps_motion_fields_def gps_dest_fields_def
      gps_text_fields_def gps_shape_def entry_good_rules pointer_tags_def)

lemma interop_fields_good:
  assumes "interop_shape i"
  shows "\<forall>e\<in>set (inter_fields i). entry_good 256 e"
  using assms by (simp add: inter_fields_def interop_shape_def entry_good_rules pointer_tags_def)

lemma spec_fields_good:
  assumes "spec_shape s"
  shows "\<forall>e\<in>set (spec_fields_before s @ spec_fields_after s). entry_good 256 e"
  using assms
  by (simp add: spec_fields_before_def spec_fields_after_def spec_exposure_fields_def
      spec_date_fields_def spec_aperture_fields_def spec_lens_fields_def spec_user_fields_def
      spec_pixel_fields_def spec_focal_fields_def spec_sensor_fields_def spec_mode_fields_def
      spec_scene_fields_def spec_shape_def pic_shape_def date_time_shape_def user_shape_def
      related_file_shape_def other_shape_def entry_good_on entry_good_rules pointer_tags_def)

lemma primary_fields_good:
  assumes "primary_shape pr"
  shows "\<forall>e\<in>set (primary_fields_before pr @ primary_size_fields pr). entry_good 1536 e"
    and "\<forall>e\<in>set (primary_desc_fields pr @ tl (primary_char_fields pr) @ primary_size_fields pr). entry_good 256 e"
  using assms
  by (simp_all add: primary_fields_before_def primary_desc_fields_def primary_char_fields_def
      primary_size_fields_def primary_shape_def data_char_shape_def desc_shape_def
      entry_good_on entry_good_rules pointer_tags_def)

subsection \<open>Room\<close>

lemma room_bound:
  assumes "entry_good n e" "4 \<le> n"
  shows "room e \<le> pad4 n"
proof (cases "e_written e")
  case True
  then have "length (entry_data e) \<le> length (e_ptr e)"
    using assms(1) by (cases "e_writer e")
      (auto simp: entry_good_def entry_ok_def entry_data_def inline_def wire_def
        length_concat_map [where n = 2] length_concat_map [where n = 4] length_concat_map [where n = 8])
  then show ?thesis using True assms(1) by (auto simp: room_def entry_good_def intro!: pad4_mono)
qed (simp add: room_def)

lemma rooms_bound: "\<forall>e\<in>set es. entry_good 256 e \<Longrightarrow> rooms es \<le> 256 * length es"
proof (induction es)
  case (Cons e es)
  then show ?case using room_bound [of 256 e] by (simp add: pad4_def)
qed simp

lemma primary_rooms:
  assumes "primary_shape pr"
  shows "rooms (primary_fields_before pr) + rooms (primary_size_fields pr) \<le> 6400"
proof -
  let ?l = "primary_desc_fields pr @ tl (primary_char_fields pr) @ primary_size_fields pr"
  have split: "primary_char_fields pr = hd (primary_char_fields pr) # tl (primary_char_fields pr)"
    by (simp add: primary_char_fields_def)
  have "rooms ?l \<le> 256 * length ?l" by (rule rooms_bound [OF primary_fields_good(2) [OF assms]])
  moreover have "length ?l = 19"
    by (simp add: primary_desc_fields_def primary_char_fields_def primary_size_fields_def)
  moreover have "entry_good 1536 (hd (primary_char_fields pr))"
    using primary_fields_good(1) [OF assms] split unfolding primary_fields_before_def
    by (metis Un_iff list.set_intros(1) set_append)
  then have "room (hd (primary_char_fields pr)) \<le> 1536"
    using room_bound [of 1536 "hd (primary_char_fields pr)"] by (simp add: pad4_def)
  moreover have "rooms (primary_char_fields pr) = room (hd (primary_char_fields pr)) + rooms (tl (primary_char_fields pr))"
    using split by (metis rooms_simps(2))
  ultimately show ?thesis by (simp add: primary_fields_before_def)
qed

lemma values_at_le: "values_at b m \<le> b + 12 * m + 9"
  using pad4_bounds(2) [of "b + 12 * m + 6"] by (simp add: values_at_def)

lemma gps_room: "gps_shape g \<Longrightarrow> gps_end b g \<le> b + 8317"
  using rooms_bound [OF gps_fields_good, of g] length_gps_fields [of g] values_at_le [of b 31]
  by (simp add: gps_end_def)

lemma interop_room: "interop_shape i \<Longrightarrow> interop_end b i \<le> b + 277"
  using rooms_bound [OF interop_fields_good, of i] values_at_le [of b 1]
  by (simp add: interop_end_def inter_fields_def)

lemma spec_room:
  assumes "spec_shape s" "\<And>i. io = Some i \<Longrightarrow> interop_shape i"
  shows "spec_end b s io \<le> b + 15306"
proof -
  have "rooms (spec_fields_before s @ spec_fields_after s) \<le> 256 * 56"
    using rooms_bound [OF spec_fields_good [OF assms(1)]] length_spec_fields [of s] by simp
  moreover have "spec_after_at b s io \<le> spec_pointer_at b s + 277"
    using interop_room [OF assms(2)] by (cases io) (simp_all add: spec_after_at_def)
  ultimately show ?thesis
    using values_at_le [of b 57] by (simp add: spec_end_def spec_pointer_at_def)
qed

lemma good_ok: "\<forall>e\<in>set es. entry_good n e \<Longrightarrow> \<forall>e\<in>set es. entry_ok e"
  by (simp add: entry_good_def)

lemma info_ifd_ok:
  assumes "info_shape i"
  shows "ifd_ok (exif_primary i) (spec_ptr i) (inter_ptr i) (gps_ptr i)"
  using assms good_ok [OF primary_fields_good(1)] good_ok [OF spec_fields_good] good_ok [OF gps_fields_good]
    good_ok [OF interop_fields_good]
  unfolding ifd_ok_def info_shape_def by blast

text \<open>The position behind the first table and all it points to.\<close>

definition info_end :: "nat \<Rightarrow> jinf_exif_info \<Rightarrow> nat" where
  "info_end b i = ifd_end b (exif_primary i) (spec_ptr i) (inter_ptr i) (gps_ptr i) None"

lemma info_room:
  assumes "info_shape i"
  shows "info_end b i \<le> b + 30320"
proof -
  have v: "ifd_values b (exif_primary i) \<le> b + 6697"
    using primary_rooms [of "exif_primary i"] values_at_le [of b 24] assms
    by (simp add: ifd_values_def info_shape_def)
  have g: "ifd_gps_at b (exif_primary i) (spec_ptr i) (inter_ptr i) \<le> ifd_values b (exif_primary i) + 15306"
    using spec_room [of _ "inter_ptr i"] assms
    by (cases "spec_ptr i") (simp_all add: ifd_gps_at_def info_shape_def)
  have "ifd_thumb_at b (exif_primary i) (spec_ptr i) (inter_ptr i) (gps_ptr i)
      \<le> ifd_gps_at b (exif_primary i) (spec_ptr i) (inter_ptr i) + 8317"
    using gps_room assms by (cases "gps_ptr i") (simp_all add: ifd_thumb_at_def info_shape_def)
  then show ?thesis using v g by (simp add: info_end_def ifd_end_def thumb_bytes_def)
qed

end
