(* ===== verification/ExifSegment.thy ===== *)
theory ExifSegment
  imports ExifShape
begin

text \<open>
  The run of \<^verbatim>\<open>Jpeg_WriteAPP1\<close>: the header of the format, the table of the image, the table of the
  thumbnail and at last the head of the segment; what the buffer then holds, how far, and the size
  that is returned.
\<close>

subsection \<open>The segment in the buffer\<close>

lemma emits_bytes: "emits (jfor cs Jpeg_WriteC) cs"
proof -
  have "emits (jfor cs Jpeg_WriteC) (concat (map (\<lambda>c. [c]) cs))" by (intro emits_jfor emits_WriteC)
  then show ?thesis by simp
qed

definition ifh_bytes :: bytes where
  "ifh_bytes = [0x4D, 0x4D, 0x00, 0x2A, 0, 0, 0, 8]"

definition app1_head :: "u16 \<Rightarrow> bytes" where
  "app1_head n = [0xFF, 0xE1] @ be16 n @ [0x45, 0x78, 0x69, 0x66, 0, 0]"

lemma WriteIFH_mem:
  assumes "small B" "18 \<le> length B"
  shows "Jpeg_WriteIFH 10 (mem B p) = JOk 18 (mem (put 10 ifh_bytes B) 18)"
proof -
  have "emits (jseq [Jpeg_WriteW 0x4D4D, Jpeg_WriteW 0x002a, Jpeg_WriteL 8])
      (be16 0x4D4D @ be16 0x002a @ be32 8 @ [])"
    by (intro emits_jseq_Cons emits_jseq_Nil emits_WriteW emits_WriteL)
  moreover have "be16 0x4D4D @ be16 0x002a @ be32 8 @ [] = ifh_bytes"
    by (simp add: be16_def hi8_def lo8_def be32_def byte_of_def ifh_bytes_def)
  ultimately have "emits (jseq [Jpeg_WriteW 0x4D4D, Jpeg_WriteW 0x002a, Jpeg_WriteL 8]) ifh_bytes"
    by (rule emits_eq)
  from emitsD [OF this, of 10 B] show ?thesis
    using assms SetWritePos_mem [of B 10 p] GetWritePos_mem [of 18 "put 10 ifh_bytes B"]
    by (simp add: Jpeg_WriteIFH_def ignoring_def jthen_def jbind_def ifh_bytes_def)
qed

lemma WriteAPP1Header_mem:
  assumes "small B" "10 \<le> length B"
  shows "Jpeg_WriteAPP1Header 0 n (mem B p) = JOk 10 (mem (put 0 (app1_head n) B) 10)"
proof -
  have 1: "emits (jseq [Jpeg_WriteC 0xFF, Jpeg_WriteC 0xE1, Jpeg_WriteW n]) ([0xFF] @ [0xE1] @ be16 n @ [])"
    by (intro emits_jseq_Cons emits_jseq_Nil emits_WriteC emits_WriteW)
  have "emits (jthen (jseq [Jpeg_WriteC 0xFF, Jpeg_WriteC 0xE1, Jpeg_WriteW n])
      (jfor [0x45, 0x78, 0x69, 0x66, 0, 0] Jpeg_WriteC)) (app1_head n)"
    by (rule emits_eq [OF emits_jthen [OF 1 emits_bytes]]) (simp add: app1_head_def)
  from emitsD [OF this, of 0 B] show ?thesis
    using assms SetWritePos_mem [of B 0 p] GetWritePos_mem [of 10 "put 0 (app1_head n) B"]
    by (auto simp: Jpeg_WriteAPP1Header_def ignoring_def jthen_def jbind_def app1_head_def split: jres.splits)
qed

text \<open>Where the table of the thumbnail ends.\<close>

definition app1_end :: "jinf_exif_info \<Rightarrow> bytes option \<Rightarrow> nat" where
  "app1_end i th = (if has_thumbnail th then ifd_end (info_end 18 i) ifd1_primary None None None th
     else info_end 18 i)"

lemma ifd1_ok: "ifd_ok ifd1_primary None io None"
proof -
  have "primary_shape ifd1_primary" by (simp add: primary_shape_def ifd1_primary_def)
  from good_ok [OF primary_fields_good(1) [OF this]] show ?thesis by (simp add: ifd_ok_def)
qed

lemma ifd1_end: "ifd_end b ifd1_primary None None None th \<le> b + 313 + length (thumb_bytes th)"
proof -
  have "rooms (primary_fields_before ifd1_primary) + rooms (primary_size_fields ifd1_primary) = 16"
    by (simp add: primary_fields_before_def primary_desc_fields_def primary_char_fields_def
        primary_size_fields_def ifd1_primary_def on_def field_def value_field_def room_def entry_data_def
        inline_def wire_def units_def pad4_def length_concat_map [where n = 8] be16_def)
  then show ?thesis using values_at_le [of b 24]
    by (simp add: ifd_end_def ifd_thumb_at_def ifd_gps_at_def ifd_values_def)
qed

lemma app1_room:
  assumes "info_shape i"
  shows "app1_end i th \<le> 30651 + length (thumb_bytes th)"
  using info_room [OF assms, of 18] ifd1_end [of "info_end 18 i" th] by (simp add: app1_end_def)

definition info_facts :: "jinf_exif_info \<Rightarrow> bytes option \<Rightarrow> region_fact list" where
  "info_facts i th = ifd_facts 10 18 (exif_primary i) (spec_ptr i) (inter_ptr i) (gps_ptr i) None
     (if has_thumbnail th then of_nat (info_end 18 i) - 10 else 0)"

definition thumb_facts :: "jinf_exif_info \<Rightarrow> bytes option \<Rightarrow> region_fact list" where
  "thumb_facts i th = (if has_thumbnail th
     then ifd_facts 10 (info_end 18 i) ifd1_primary None None None th 0 else [])"

text \<open>What the buffer holds in the end.\<close>

definition segment_in :: "jinf_exif_info \<Rightarrow> bytes option \<Rightarrow> bytes \<Rightarrow> bool" where
  "segment_in i th B \<longleftrightarrow> load 0 10 B = Some (app1_head (of_nat (app1_end i th - 2)))
     \<and> load 10 8 B = Some ifh_bytes
     \<and> (\<forall>f\<in>set (info_facts i th @ thumb_facts i th). fact_within 18 (app1_end i th) B f)"

lemma fact_ends: "18 + 294 \<le> info_end 18 i" "info_end 18 i \<le> app1_end i th"
proof -
  let ?pr = "exif_primary i" and ?so = "spec_ptr i" and ?io = "inter_ptr i" and ?go = "gps_ptr i"
  have 1: "18 + 294 \<le> ifd_values 18 ?pr"
    using values_at_bounds(1) [of 18 24] by (simp add: ifd_values_def)
  have 2: "b \<le> spec_end b s ?io" for b s
    using values_at_bounds(1) [of b 57] values_at_bounds(1) [of "spec_pointer_at b s" 1]
    by (cases ?io) (simp_all add: spec_end_def spec_after_at_def spec_pointer_at_def interop_end_def)
  have 3: "b \<le> gps_end b g" for b g using values_at_bounds(1) [of b 31] by (simp add: gps_end_def)
  show "18 + 294 \<le> info_end 18 i"
    using 1 2 [of "ifd_values 18 ?pr" "the ?so"] 3 [of "ifd_gps_at 18 ?pr ?so ?io" "the ?go"]
    by (cases ?so; cases ?go) (simp_all add: info_end_def ifd_end_def ifd_thumb_at_def ifd_gps_at_def)
  have V: "values_at b 24 \<le> ifd_end b ifd1_primary None None None th" for b
    by (simp add: ifd_end_def ifd_thumb_at_def ifd_gps_at_def ifd_values_def)
  have "info_end 18 i \<le> ifd_end (info_end 18 i) ifd1_primary None None None th"
    using values_at_bounds(1) [of "info_end 18 i" 24] V [of "info_end 18 i"] by linarith
  then show "info_end 18 i \<le> app1_end i th" by (simp add: app1_end_def)
qed

lemma size_word:
  assumes "2 \<le> n" "n < 2 ^ 32"
  shows "ucast (ucast (of_nat n :: u32) - 2 :: u16) + 2 = (of_nat ((n - 2) mod 65536 + 2) :: u32)"
    and "ucast (of_nat n :: u32) - 2 = (of_nat (n - 2) :: u16)"
proof -
  have u: "ucast (of_nat n :: u32) = (of_nat n :: u16)"
    by (rule bit_eqI) (auto simp: bit_simps)
  then show *: "ucast (of_nat n :: u32) - 2 = (of_nat (n - 2) :: u16)"
    using assms(1) by (simp add: of_nat_diff)
  have "ucast (of_nat (n - 2) :: u16) = (of_nat ((n - 2) mod 65536) :: u32)"
    by (simp add: word_unat_eq_iff unsigned_ucast_eq unat_of_nat take_bit_eq_mod)
  then show "ucast (ucast (of_nat n :: u32) - 2 :: u16) + 2 = (of_nat ((n - 2) mod 65536 + 2) :: u32)"
    unfolding * by simp
qed

lemma facts_within_changed:
  assumes "\<forall>f\<in>set fs. fact_within lo hi B f" "changed R B B'" "R \<inter> {lo..<hi} = {}"
  shows "\<forall>f\<in>set fs. fact_within lo hi B' f"
  using assms fact_within_changed by blast

lemma facts_within_mono:
  "\<forall>f\<in>set fs. fact_within lo hi B f \<Longrightarrow> lo' \<le> lo \<Longrightarrow> hi \<le> hi' \<Longrightarrow> \<forall>f\<in>set fs. fact_within lo' hi' B f"
  using fact_within_mono by blast

text \<open>The two tables.\<close>

lemma write_tables_run:
  assumes "info_shape i" "small B" "app1_end i th \<le> length B" "p \<le> length B"
  shows "\<exists>B' q. jbind (Jpeg_WriteExifIFD (Some (exif_primary i)) (spec_ptr i) (gps_ptr i) (inter_ptr i)
        None (has_thumbnail th) 10 18)
        (\<lambda>e. if has_thumbnail th
             then Jpeg_WriteExifIFD (Some ifd1_primary) None None None th False 10 e else jret e) (mem B p)
      = JOk (of_nat (app1_end i th)) (mem B' q)
    \<and> q \<le> length B' \<and> changed {18..<app1_end i th} B B'
    \<and> (\<forall>f\<in>set (info_facts i th @ thumb_facts i th). fact_within 18 (app1_end i th) B' f)"
proof -
  let ?mid = "info_end 18 i" and ?e = "app1_end i th"
  note ends = fact_ends(1) [of i] fact_ends(2) [of i th]
  have "ifd_end 18 (exif_primary i) (spec_ptr i) (inter_ptr i) (gps_ptr i) None \<le> length B"
    using ends assms(3) by (simp add: info_end_def)
  from writes_ifd [OF info_ifd_ok [OF assms(1)] _ assms(2,4) this, of 10 "has_thumbnail th",
      folded info_end_def, unfolded of_nat_numeral, folded info_facts_def]
  have "\<exists>B' q. Jpeg_WriteExifIFD (Some (exif_primary i)) (spec_ptr i) (gps_ptr i) (inter_ptr i)
        None (has_thumbnail th) 10 18 (mem B p) = JOk (of_nat ?mid) (mem B' q) \<and> q \<le> length B'
      \<and> region_written 18 ?mid (info_facts i th) B B'"
    by simp
  then obtain B1 q1 where 1: "Jpeg_WriteExifIFD (Some (exif_primary i)) (spec_ptr i) (gps_ptr i) (inter_ptr i)
        None (has_thumbnail th) 10 18 (mem B p) = JOk (of_nat ?mid) (mem B1 q1)" "q1 \<le> length B1"
      "region_written 18 ?mid (info_facts i th) B B1"
    by blast
  have c1: "changed {18..<?mid} B B1" and f1: "\<forall>f\<in>set (info_facts i th). fact_within 18 ?mid B1 f"
    using 1(3) by (simp_all add: region_written_def)
  have len1: "length B1 = length B" by (rule changed_length [OF c1])
  show ?thesis
  proof (cases "has_thumbnail th")
    case True
    have "ifd_end ?mid ifd1_primary None None None th \<le> length B1" "small B1" "10 \<le> ?mid"
      using True assms(2,3) len1 ends by (simp_all add: app1_end_def)
    from writes_ifd [OF ifd1_ok this(3,2) 1(2) this(1), of False]
    obtain B2 q2 where 2: "Jpeg_WriteExifIFD (Some ifd1_primary) None None None th False 10 (of_nat ?mid)
        (mem B1 q1) = JOk (of_nat ?e) (mem B2 q2)" "q2 \<le> length B2"
        "region_written ?mid ?e (thumb_facts i th) B1 B2"
      using True by (auto simp: thumb_facts_def app1_end_def)
    have c2: "changed {?mid..<?e} B1 B2" and f2: "\<forall>f\<in>set (thumb_facts i th). fact_within ?mid ?e B2 f"
      using 2(3) by (simp_all add: region_written_def)
    have "\<forall>f\<in>set (info_facts i th). fact_within 18 ?mid B2 f"
      by (rule facts_within_changed [OF f1 c2]) auto
    then have "\<forall>f\<in>set (info_facts i th @ thumb_facts i th). fact_within 18 ?e B2 f"
      using facts_within_mono [OF _ _ ends(2)] facts_within_mono [OF f2, of 18 ?e] ends
      unfolding set_append by auto
    moreover have "changed {18..<?e} B B2" by (rule changed_trans [OF c1 c2]) (use ends in auto)
    ultimately show ?thesis using True 1(1) 2(1,2)
      by (intro exI [of _ B2] exI [of _ q2]) (simp add: jbind_def)
  next
    case False
    then show ?thesis using 1 f1 c1
      by (intro exI [of _ B1] exI [of _ q1]) (simp add: jbind_def app1_end_def thumb_facts_def jret_def)
  qed
qed

lemma WriteAPP1_run:
  assumes "info_shape i" "small target" "app1_end i th \<le> length target"
  shows "\<exists>B q. Jpeg_WriteAPP1 (Some target) (Some i) th
      = JOk (of_nat ((app1_end i th - 2) mod 65536 + 2)) (mem B q)
    \<and> length B = length target \<and> segment_in i th B"
proof -
  let ?e = "app1_end i th" and ?B0 = "put 10 ifh_bytes target"
  note ends = fact_ends(1) [of i] fact_ends(2) [of i th]
  have len0: "length ?B0 = length target" using ends assms(3) by (simp add: ifh_bytes_def)
  have 0: "Jpeg_WriteIFH 10 (mem target 0) = JOk 18 (mem ?B0 18)"
    using assms(2,3) ends by (intro WriteIFH_mem) simp_all
  obtain B1 q1 where 1: "jbind (Jpeg_WriteExifIFD (Some (exif_primary i)) (spec_ptr i) (gps_ptr i) (inter_ptr i)
        None (has_thumbnail th) 10 18)
        (\<lambda>e. if has_thumbnail th
             then Jpeg_WriteExifIFD (Some ifd1_primary) None None None th False 10 e else jret e) (mem ?B0 18)
      = JOk (of_nat ?e) (mem B1 q1)" "q1 \<le> length B1" "changed {18..<?e} ?B0 B1"
      "\<forall>f\<in>set (info_facts i th @ thumb_facts i th). fact_within 18 ?e B1 f"
    using write_tables_run [OF assms(1), of ?B0 th 18] assms(2,3) ends len0 by auto
  have len1: "length B1 = length target" using changed_length [OF 1(3)] len0 by simp
  let ?h = "app1_head (of_nat (?e - 2))" and ?B2 = "put 0 (app1_head (of_nat (?e - 2))) B1"
  have ifh: "length ifh_bytes = 8" by (simp add: ifh_bytes_def)
  have h: "length ?h = 10" by (simp add: app1_head_def)
  have e: "2 \<le> ?e" "?e < 2 ^ 32" using ends assms(2,3) by simp_all
  have 2: "Jpeg_WriteAPP1Header 0 (ucast (of_nat ?e :: u32) - 2) (mem B1 q1) = JOk 10 (mem ?B2 10)"
    unfolding size_word(2) [OF e] using assms(2,3) ends len1 by (intro WriteAPP1Header_mem) simp_all
  have c2: "changed {0..<10} B1 ?B2" using changed_put [of 0 ?h B1] h ends assms(3) len1 by simp
  have "load 10 8 ?B0 = Some ifh_bytes"
    using held_put [of 10 ifh_bytes target] ends assms(3) ifh by (simp add: held_def)
  then have "load 10 8 B1 = Some ifh_bytes" using load_changed [OF 1(3), of 10 8] by auto
  then have "load 10 8 ?B2 = Some ifh_bytes" using load_changed [OF c2, of 10 8] by auto
  moreover have "load 0 10 ?B2 = Some ?h"
    using held_put [of 0 ?h B1] h ends assms(3) len1 by (simp add: held_def)
  moreover have "\<forall>f\<in>set (info_facts i th @ thumb_facts i th). fact_within 18 ?e ?B2 f"
    by (rule facts_within_changed [OF 1(4) c2]) auto
  ultimately have "segment_in i th ?B2" by (simp add: segment_in_def)
  moreover have "length ?B2 = length target" using h ends assms(3) len1 by simp
  moreover have "write_app1 i th (mem target 0) = JOk (of_nat ((?e - 2) mod 65536 + 2)) (mem ?B2 10)"
    unfolding write_app1_def Let_def size_word(1) [OF e, symmetric]
    by (simp only: jbind_run [where m = "Jpeg_WriteIFH 10", OF 0]
        jbind_run2 [OF 1(1)]
        jbind_run [where m = "Jpeg_WriteAPP1Header 0 (ucast (of_nat ?e :: u32) - 2)", OF 2] jret_def)
  moreover have "app1_context target = mem target 0" by (simp add: app1_context_def mem_def)
  ultimately show ?thesis
    using ends assms(3) by (intro exI [of _ ?B2] exI [of _ 10]) (simp add: Jpeg_WriteAPP1_def)
qed

end
