(* ===== verification/ExifRoundtrip.thy ===== *)
theory ExifRoundtrip
  imports ExifSegment
begin

text \<open>
  A reader for the whole APP1 segment, and the proof that what \<^verbatim>\<open>Jpeg_WriteAPP1\<close> writes is read back
  as the information it was given.  The reader follows the pointers of the file format; the writer's
  layout does not occur in it.
\<close>

subsection \<open>The reader of a segment\<close>

text \<open>The value of an entry that holds a position or a size.\<close>

definition tag_long :: "tag_value list \<Rightarrow> u16 \<Rightarrow> nat option" where
  "tag_long vs t = map_option (\<lambda>(ty, n, v). unat (be32_at v)) (map_of vs t)"

text \<open>The table that an entry points to, where there is such an entry.\<close>

definition read_sub :: "bytes \<Rightarrow> nat \<Rightarrow> tag_value list \<Rightarrow> u16 \<Rightarrow> tag_value list option option" where
  "read_sub B ifh vs t =
     (case tag_long vs t of
        None \<Rightarrow> Some None
      | Some off \<Rightarrow> map_option (\<lambda>(ts, nx). Some ts) (read_ifd B ifh (ifh + off)))"

definition own_tags :: "tag_value list \<Rightarrow> tag_value list" where
  "own_tags vs = filter (\<lambda>v. fst v \<notin> set pointer_tags) vs"

record exif_contents =
  image_tags :: "tag_value list"
  exif_tags :: "tag_value list option"
  interop_tags :: "tag_value list option"
  gps_tags :: "tag_value list option"
  thumb_image :: "(tag_value list \<times> bytes) option"

definition read_thumb :: "bytes \<Rightarrow> nat \<Rightarrow> u32 \<Rightarrow> (tag_value list \<times> bytes) option option" where
  "read_thumb B ifh nx =
     (if nx = 0 then Some None
      else do {
        t \<leftarrow> read_ifd B ifh (ifh + unat nx);
        off \<leftarrow> tag_long (fst t) IFD_JPEGINTERCHANGEFORMAT;
        n \<leftarrow> tag_long (fst t) IFD_JPEGINTERCHANGEFORMATLENGTH;
        bs \<leftarrow> load (ifh + off) n B;
        Some (Some (own_tags (fst t), bs))
      })"

definition read_exif :: "bytes \<Rightarrow> exif_contents option" where
  "read_exif B =
     do {
       h \<leftarrow> load 0 18 B;
       if take 2 h \<noteq> [0xFF, 0xE1] \<or> take 6 (drop 4 h) \<noteq> [0x45, 0x78, 0x69, 0x66, 0, 0]
          \<or> take 4 (drop 10 h) \<noteq> [0x4D, 0x4D, 0, 0x2A]
       then None
       else do {
         t \<leftarrow> read_ifd B 10 (10 + unat (be32_at (drop 14 h)));
         so \<leftarrow> read_sub B 10 (fst t) IFD_EXIFIFDPOINTER;
         io \<leftarrow> (case so of None \<Rightarrow> Some None
                | Some vs \<Rightarrow> read_sub B 10 vs IFD_INTEROPERABILITYIFDPOINTER);
         go \<leftarrow> read_sub B 10 (fst t) IFD_GPSIFDPOINTER;
         th \<leftarrow> read_thumb B 10 (snd t);
         Some \<lparr>image_tags = own_tags (fst t), exif_tags = map_option own_tags so,
                interop_tags = map_option own_tags io, gps_tags = map_option own_tags go,
                thumb_image = th\<rparr>
       }
     }"

text \<open>What the information says, as the tables of a file.\<close>

definition contents :: "jinf_exif_info \<Rightarrow> bytes option \<Rightarrow> exif_contents" where
  "contents i th =
     \<lparr>image_tags = views (primary_fields_before (exif_primary i) @ primary_size_fields (exif_primary i)),
      exif_tags = map_option (\<lambda>s. views (spec_fields_before s @ spec_fields_after s)) (spec_ptr i),
      interop_tags = (if spec_ptr i = None then None
                      else map_option (\<lambda>x. views (inter_fields x)) (inter_ptr i)),
      gps_tags = map_option (\<lambda>g. views (gps_fields g)) (gps_ptr i),
      thumb_image = (if has_thumbnail th
        then Some (views (primary_fields_before ifd1_primary @ primary_size_fields ifd1_primary),
               thumb_bytes th)
        else None)\<rparr>"

subsection \<open>Tags of the tables\<close>

definition plain :: "ifd_entry list \<Rightarrow> bool" where
  "plain es \<longleftrightarrow> (\<forall>e\<in>set es. e_tag e \<notin> set pointer_tags)"

lemma good_plain: "\<forall>e\<in>set es. entry_good n e \<Longrightarrow> plain es"
  by (simp add: plain_def entry_good_def)

lemma plain_append [simp]: "plain (es @ fs) \<longleftrightarrow> plain es \<and> plain fs"
  by (auto simp: plain_def)

lemma fst_tag_view: "v \<in> set (views es) \<Longrightarrow> plain es \<Longrightarrow> fst v \<notin> set pointer_tags"
  by (auto simp: views_def tag_view_def plain_def)

lemma own_tags_views [simp]: "plain es \<Longrightarrow> own_tags (views es) = views es"
  unfolding own_tags_def by (rule filter_True) (use fst_tag_view in blast)

lemma own_tags_append [simp]: "own_tags (vs @ ws) = own_tags vs @ own_tags ws" "own_tags [] = []"
  by (simp_all add: own_tags_def)

lemma own_tags_Cons [simp]: "own_tags (v # vs) = (if fst v \<notin> set pointer_tags then [v] else []) @ own_tags vs"
  by (simp add: own_tags_def)

lemma fst_pointer_view [simp]: "fst (pointer_view t off) = t"
  by (simp add: pointer_view_def)

lemma own_tags_optional [simp]: "t \<in> set pointer_tags \<Longrightarrow> own_tags (optional_pointer c t off) = []"
  by (simp add: optional_pointer_def)

lemma tag_long_views [simp]:
  assumes "plain es" "t \<in> set pointer_tags"
  shows "tag_long (views es @ ws) t = tag_long ws t" "tag_long (views es) t = None"
proof -
  have "t \<notin> fst ` set (views es)" using fst_tag_view [OF _ assms(1)] assms(2) by blast
  then have "map_of (views es) t = None" by (simp add: map_of_eq_None_iff)
  then show "tag_long (views es @ ws) t = tag_long ws t" "tag_long (views es) t = None"
    by (simp_all add: tag_long_def map_add_def)
qed

lemma tag_long_pointer:
  "off < 2 ^ 32 \<Longrightarrow> tag_long (pointer_view t off # ws) t = Some off"
  "t \<noteq> t' \<Longrightarrow> tag_long (pointer_view t' off # ws) t = tag_long ws t"
  "tag_long [] t = None"
  by (simp_all add: tag_long_def pointer_view_def unat_of_nat_u32)

lemma tag_long_optional:
  "off < 2 ^ 32 \<Longrightarrow> tag_long (optional_pointer c t off @ ws) t = (if c then Some off else tag_long ws t)"
  "t \<noteq> t' \<Longrightarrow> tag_long (optional_pointer c t' off @ ws) t = tag_long ws t"
  "off < 2 ^ 32 \<Longrightarrow> tag_long (optional_pointer c t off) t = (if c then Some off else None)"
  "t \<noteq> t' \<Longrightarrow> tag_long (optional_pointer c t' off) t = None"
  by (simp_all add: optional_pointer_def tag_long_pointer)

lemma pointer_tags_simps [simp]:
  "IFD_EXIFIFDPOINTER \<in> set pointer_tags" "IFD_GPSIFDPOINTER \<in> set pointer_tags"
  "IFD_INTEROPERABILITYIFDPOINTER \<in> set pointer_tags" "IFD_JPEGINTERCHANGEFORMAT \<in> set pointer_tags"
  "IFD_JPEGINTERCHANGEFORMATLENGTH \<in> set pointer_tags"
  by (simp_all add: pointer_tags_def)

subsection \<open>Reading the tables\<close>

lemma fact_read:
  assumes "\<forall>f\<in>set fs. fact_within lo hi B f" "(p, q, P) \<in> set fs" "agree {lo..<hi} B B'"
  shows "P B'"
proof -
  have f: "fact_within lo hi B (p, q, P)" using assms(1,2) by blast
  then have "{p..<q} \<subseteq> {lo..<hi}" by auto
  from agree_mono [OF assms(3) this] f show ?thesis by (auto elim: robustD)
qed

lemma table_read:
  assumes "\<forall>f\<in>set fs. fact_within lo hi B f" "agree {lo..<hi} B B'" "table_fact ifh b e vs nx \<in> set fs"
  shows "read_ifd B' ifh b = Some (vs, nx)"
  using fact_read [OF assms(1) _ assms(2)] assms(3) unfolding table_fact_def by blast

lemma load_append:
  "load p m B = Some xs \<Longrightarrow> load (p + m) n B = Some ys \<Longrightarrow> load p (m + n) B = Some (xs @ ys)"
  by (auto simp: load_def chunk_def take_add add.commute split: if_splits)

text \<open>A buffer that still holds what the facts say: where its tables are, and what they say.\<close>

definition holds :: "region_fact list \<Rightarrow> bytes \<Rightarrow> bool" where
  "holds fs B \<longleftrightarrow> (\<forall>f\<in>set fs. fact_within 18 (length B) B f)"

lemma holds_table:
  assumes "holds fs B" "table_fact 10 b e vs nx \<in> set fs"
  shows "read_ifd B 10 b = Some (vs, nx)" "18 \<le> b" "b < length B"
proof -
  have w: "fact_within 18 (length B) B (table_fact 10 b e vs nx)" using assms unfolding holds_def by blast
  then show "18 \<le> b" by (simp add: table_fact_def)
  have "robust {b..<e} (\<lambda>B. read_ifd B 10 b = Some (vs, nx)) B" using w by (simp add: table_fact_def)
  moreover from this have "agree {b..<e} B B" by (auto simp: robust_def agree_def)
  ultimately show r: "read_ifd B 10 b = Some (vs, nx)" by (rule robustD)
  then show "b < length B" by (auto simp: read_ifd_def load_def bind_eq_Some_conv split: if_splits)
qed

lemma read_sub_at:
  assumes "holds fs B" "table_fact 10 b e ts nx \<in> set fs" "tag_long vs t = Some (b - 10)"
  shows "read_sub B 10 vs t = Some (Some ts)"
  using holds_table [OF assms(1,2)] assms(3) by (simp add: read_sub_def)

lemma read_sub_none: "tag_long vs t = None \<Longrightarrow> read_sub B ifh vs t = Some None"
  by (simp add: read_sub_def)

lemma facts_parts:
  "table_fact ifh b (ifd_end b pr so io go th) (ifd_views ifh b pr so io go th) nx
     \<in> set (ifd_facts ifh b pr so io go th nx)"
  "so = Some s \<Longrightarrow> table_fact ifh (ifd_values b pr) (spec_end (ifd_values b pr) s io)
     (spec_views ifh (ifd_values b pr) s io) 0 \<in> set (ifd_facts ifh b pr so io go th nx)"
  "so = Some s \<Longrightarrow> io = Some x \<Longrightarrow>
     table_fact ifh (spec_pointer_at (ifd_values b pr) s) (interop_end (spec_pointer_at (ifd_values b pr) s) x)
       (views (inter_fields x)) 0 \<in> set (ifd_facts ifh b pr so io go th nx)"
  "go = Some g \<Longrightarrow> table_fact ifh (ifd_gps_at b pr so io) (gps_end (ifd_gps_at b pr so io) g)
     (views (gps_fields g)) 0 \<in> set (ifd_facts ifh b pr so io go th nx)"
  "has_thumbnail th \<Longrightarrow> blob_fact (ifd_thumb_at b pr so io go) (thumb_bytes th)
     \<in> set (ifd_facts ifh b pr so io go th nx)"
  by (simp_all add: ifd_facts_def sub_facts_def spec_facts_def interop_facts_def gps_facts_def)

lemma primary_plain:
  "primary_shape pr \<Longrightarrow> plain (primary_fields_before pr @ primary_size_fields pr)"
  by (rule good_plain [OF primary_fields_good(1)])

lemma spec_plain: "spec_shape s \<Longrightarrow> plain (spec_fields_before s @ spec_fields_after s)"
  by (rule good_plain [OF spec_fields_good])

lemma ifd_views_pointers:
  assumes "primary_shape pr" "ifd_values b pr < 2 ^ 32" "ifd_gps_at b pr so io < 2 ^ 32"
    "ifd_thumb_at b pr so io go < 2 ^ 32" "length (thumb_bytes th) < 2 ^ 32"
  shows "tag_long (ifd_views ifh b pr so io go th) IFD_EXIFIFDPOINTER
      = (if so = None then None else Some (ifd_values b pr - ifh))"
    and "tag_long (ifd_views ifh b pr so io go th) IFD_GPSIFDPOINTER
      = (if go = None then None else Some (ifd_gps_at b pr so io - ifh))"
    and "has_thumbnail th \<Longrightarrow> tag_long (ifd_views ifh b pr so io go th) IFD_JPEGINTERCHANGEFORMAT
      = Some (ifd_thumb_at b pr so io go - ifh)"
    and "has_thumbnail th \<Longrightarrow> tag_long (ifd_views ifh b pr so io go th) IFD_JPEGINTERCHANGEFORMATLENGTH
      = Some (length (thumb_bytes th))"
    and "own_tags (ifd_views ifh b pr so io go th)
      = views (primary_fields_before pr @ primary_size_fields pr)"
proof -
  have less: "x - ifh < 2 ^ 32" if "x < 2 ^ 32" for x :: nat using that by linarith
  have pl: "plain (primary_fields_before pr)" "plain (primary_size_fields pr)"
    using primary_plain [OF assms(1)] by simp_all
  note simps = ifd_views_def image_views_def tag_long_pointer tag_long_optional pl
  note [simp] = less [OF assms(2), simplified] less [OF assms(3), simplified] less [OF assms(4), simplified]
  show "tag_long (ifd_views ifh b pr so io go th) IFD_EXIFIFDPOINTER
      = (if so = None then None else Some (ifd_values b pr - ifh))"
    by (simp add: simps)
  show "tag_long (ifd_views ifh b pr so io go th) IFD_GPSIFDPOINTER
      = (if go = None then None else Some (ifd_gps_at b pr so io - ifh))"
    by (simp add: simps)
  show "has_thumbnail th \<Longrightarrow> tag_long (ifd_views ifh b pr so io go th) IFD_JPEGINTERCHANGEFORMAT
      = Some (ifd_thumb_at b pr so io go - ifh)"
    by (simp add: simps)
  show "has_thumbnail th \<Longrightarrow> tag_long (ifd_views ifh b pr so io go th) IFD_JPEGINTERCHANGEFORMATLENGTH
      = Some (length (thumb_bytes th))"
    using assms(5) by (simp add: simps)
  show "own_tags (ifd_views ifh b pr so io go th)
      = views (primary_fields_before pr @ primary_size_fields pr)"
    by (simp add: ifd_views_def image_views_def pl)
qed

lemma spec_views_pointers:
  assumes "spec_shape s" "spec_pointer_at b s < 2 ^ 32"
  shows "tag_long (spec_views ifh b s io) IFD_INTEROPERABILITYIFDPOINTER
      = (if io = None then None else Some (spec_pointer_at b s - ifh))"
    and "own_tags (spec_views ifh b s io) = views (spec_fields_before s @ spec_fields_after s)"
proof -
  have "plain (spec_fields_before s)" "plain (spec_fields_after s)" using spec_plain [OF assms(1)] by simp_all
  moreover have "spec_pointer_at b s - ifh < 2 ^ 32" using assms(2) by linarith
  ultimately show "tag_long (spec_views ifh b s io) IFD_INTEROPERABILITYIFDPOINTER
      = (if io = None then None else Some (spec_pointer_at b s - ifh))"
    and "own_tags (spec_views ifh b s io) = views (spec_fields_before s @ spec_fields_after s)"
    by (simp_all add: spec_views_def tag_long_pointer)
qed

subsection \<open>Reading the segment back\<close>

lemma holds_subset: "holds fs B \<Longrightarrow> set gs \<subseteq> set fs \<Longrightarrow> holds gs B"
  unfolding holds_def by blast

lemma read_spec:
  assumes "holds (ifd_facts 10 b pr so io go th nx) B" "length B < 2 ^ 32"
    and "tag_long vs IFD_EXIFIFDPOINTER = (if so = None then None else Some (ifd_values b pr - 10))"
    and "\<And>s. so = Some s \<Longrightarrow> spec_shape s" "\<And>x. io = Some x \<Longrightarrow> interop_shape x"
  shows "\<exists>ts. read_sub B 10 vs IFD_EXIFIFDPOINTER = Some ts
    \<and> map_option own_tags ts = map_option (\<lambda>s. views (spec_fields_before s @ spec_fields_after s)) so
    \<and> (\<exists>us. (case ts of None \<Rightarrow> Some None | Some us \<Rightarrow> read_sub B 10 us IFD_INTEROPERABILITYIFDPOINTER) = Some us
          \<and> map_option own_tags us
              = (if so = None then None else map_option (\<lambda>x. views (inter_fields x)) io))"
proof (cases so)
  case None
  then show ?thesis using assms(3) by (simp add: read_sub_none)
next
  case (Some s)
  let ?v = "ifd_values b pr" and ?p = "spec_pointer_at (ifd_values b pr) s"
  have 1: "read_sub B 10 vs IFD_EXIFIFDPOINTER = Some (Some (spec_views 10 ?v s io))"
    using read_sub_at [OF assms(1) facts_parts(2) [OF Some]] assms(3) Some by simp
  have "\<exists>us. read_sub B 10 (spec_views 10 ?v s io) IFD_INTEROPERABILITYIFDPOINTER = Some us
      \<and> map_option own_tags us = map_option (\<lambda>x. views (inter_fields x)) io"
  proof (cases io)
    case None
    have "plain (spec_fields_before s)" "plain (spec_fields_after s)"
      using spec_plain [OF assms(4) [OF Some]] by simp_all
    then have "tag_long (spec_views 10 ?v s io) IFD_INTEROPERABILITYIFDPOINTER = None"
      using None by (simp add: spec_views_def)
    then show ?thesis using None by (simp add: read_sub_none)
  next
    case (Some x)
    note t = facts_parts(3) [OF \<open>so = Some s\<close> Some]
    have "?p < 2 ^ 32" using holds_table(3) [OF assms(1) t] assms(2) by linarith
    then have "tag_long (spec_views 10 ?v s io) IFD_INTEROPERABILITYIFDPOINTER = Some (?p - 10)"
      using spec_views_pointers(1) [OF assms(4) [OF \<open>so = Some s\<close>]] Some by simp
    then have "read_sub B 10 (spec_views 10 ?v s io) IFD_INTEROPERABILITYIFDPOINTER
        = Some (Some (views (inter_fields x)))"
      by (rule read_sub_at [OF assms(1) t])
    moreover have "plain (inter_fields x)" by (rule good_plain [OF interop_fields_good [OF assms(5) [OF Some]]])
    ultimately show ?thesis using Some by simp
  qed
  moreover have "own_tags (spec_views 10 ?v s io) = views (spec_fields_before s @ spec_fields_after s)"
  proof -
    have "plain (spec_fields_before s)" "plain (spec_fields_after s)"
      using spec_plain [OF assms(4) [OF Some]] by simp_all
    then show ?thesis by (simp add: spec_views_def)
  qed
  ultimately show ?thesis using 1 Some by simp
qed

lemma read_gps:
  assumes "holds (ifd_facts 10 b pr so io go th nx) B" "\<And>g. go = Some g \<Longrightarrow> gps_shape g"
    and "tag_long vs IFD_GPSIFDPOINTER = (if go = None then None else Some (ifd_gps_at b pr so io - 10))"
  shows "\<exists>ts. read_sub B 10 vs IFD_GPSIFDPOINTER = Some ts
    \<and> map_option own_tags ts = map_option (\<lambda>g. views (gps_fields g)) go"
proof (cases go)
  case None
  then show ?thesis using assms(3) by (simp add: read_sub_none)
next
  case (Some g)
  then have "read_sub B 10 vs IFD_GPSIFDPOINTER = Some (Some (views (gps_fields g)))"
    using read_sub_at [OF assms(1) facts_parts(4) [OF Some]] assms(3) by simp
  moreover have "plain (gps_fields g)" by (rule good_plain [OF gps_fields_good [OF assms(2) [OF Some]]])
  ultimately show ?thesis using Some by simp
qed

lemma read_thumb_held:
  assumes "holds (thumb_facts i th) B" "length B < 2 ^ 32"
    and "nx = (if has_thumbnail th then of_nat (info_end 18 i) - 10 else 0)"
    and "info_end 18 i + length (thumb_bytes th) \<le> length B"
  shows "read_thumb B 10 nx = Some (thumb_image (contents i th))"
proof (cases "has_thumbnail th")
  case False
  then show ?thesis using assms(3) by (simp add: read_thumb_def contents_def)
next
  case True
  let ?b = "info_end 18 i"
  note facts = assms(1) [unfolded thumb_facts_def if_P [OF True]]
  let ?vs = "ifd_views 10 ?b ifd1_primary None None None th" and ?t = "ifd_thumb_at ?b ifd1_primary None None None"
  note t = facts_parts(1) [of 10 ?b ifd1_primary None None None th 0]
  have r: "read_ifd B 10 ?b = Some (?vs, 0)" and b: "?b < length B"
    using holds_table [OF facts t] by blast+
  have ge: "18 + 294 \<le> ?b" by (rule fact_ends(1))
  have diff: "of_nat ?b - 10 = (of_nat (?b - 10) :: u32)" using ge by simp
  have small: "?b - 10 < 2 ^ 32" using b assms(2) by linarith
  have nx: "unat nx = ?b - 10" using True assms(3) unfolding diff by (simp only: if_True unat_of_nat_u32 [OF small])
  then have nx0: "nx \<noteq> 0" using ge by auto
  have w: "fact_within 18 (length B) B (blob_fact ?t (thumb_bytes th))"
    using facts facts_parts(5) [OF True] unfolding holds_def by blast
  then have rob: "robust {?t..<?t + length (thumb_bytes th)} (\<lambda>B. load ?t (length (thumb_bytes th)) B = Some (thumb_bytes th)) B"
    and tl: "18 \<le> ?t" "?t + length (thumb_bytes th) \<le> length B"
    by (simp_all add: blob_fact_def)
  have "agree {?t..<?t + length (thumb_bytes th)} B B" using tl by (auto simp: agree_def)
  with rob have ld: "load ?t (length (thumb_bytes th)) B = Some (thumb_bytes th)" by (rule robustD)
  have shape: "primary_shape ifd1_primary" by (simp add: primary_shape_def ifd1_primary_def)
  have bounds: "ifd_values ?b ifd1_primary < 2 ^ 32" "ifd_gps_at ?b ifd1_primary None None < 2 ^ 32"
    "?t < 2 ^ 32" "length (thumb_bytes th) < 2 ^ 32"
    using tl assms(2) by (simp_all add: ifd_gps_at_def ifd_thumb_at_def)
  note ptrs = ifd_views_pointers [OF shape bounds, of 10]
  show ?thesis
    using True nx nx0 r ld tl ge ptrs(3,4) [OF True] ptrs(5)
    by (simp add: read_thumb_def contents_def)
qed

lemma read_back:
  assumes "info_shape i" "holds (info_facts i th @ thumb_facts i th) B" "length B < 2 ^ 32"
    and "load 0 10 B = Some (app1_head n)" "load 10 8 B = Some ifh_bytes"
    and "info_end 18 i + length (thumb_bytes th) \<le> length B"
  shows "read_exif B = Some (contents i th)"
proof -
  let ?pr = "exif_primary i" and ?so = "spec_ptr i" and ?io = "inter_ptr i" and ?go = "gps_ptr i"
  let ?nx = "if has_thumbnail th then of_nat (info_end 18 i) - 10 else 0 :: u32"
  let ?vs = "ifd_views 10 18 ?pr ?so ?io ?go None"
  have head: "load 0 18 B = Some (app1_head n @ ifh_bytes)" using load_append [of 0 10 B _ 8] assms(4,5) by simp
  have info: "holds (ifd_facts 10 18 ?pr ?so ?io ?go None ?nx) B"
    using holds_subset [OF assms(2), of "info_facts i th"] by (simp add: info_facts_def)
  have r: "read_ifd B 10 18 = Some (?vs, ?nx)"
    by (rule holds_table(1) [OF info facts_parts(1)])
  have "info_end 18 i < 2 ^ 32" using assms(3,6) by linarith
  moreover have "ifd_gps_at 18 ?pr ?so ?io \<le> ifd_thumb_at 18 ?pr ?so ?io ?go"
    using values_at_bounds(1) [of "ifd_gps_at 18 ?pr ?so ?io" 31]
    by (cases ?go) (simp_all add: ifd_thumb_at_def gps_end_def)
  moreover have "ifd_thumb_at 18 ?pr ?so ?io ?go = info_end 18 i"
    by (simp add: info_end_def ifd_end_def thumb_bytes_def)
  moreover have "ifd_values 18 ?pr \<le> ifd_gps_at 18 ?pr ?so ?io"
  proof (cases ?so)
    case (Some s)
    then have "ifd_values 18 ?pr \<le> ifd_gps_at 18 ?pr ?so ?io"
      using writes_spec [of s 10 "ifd_values 18 ?pr" ?io] info_ifd_ok [OF assms(1)] values_at_bounds(1) [of 18 24]
      by (simp add: writes_region_def ifd_ok_def ifd_gps_at_def ifd_values_def)
    then show ?thesis .
  qed (simp add: ifd_gps_at_def)
  ultimately have bounds: "ifd_values 18 ?pr < 2 ^ 32" "ifd_gps_at 18 ?pr ?so ?io < 2 ^ 32"
    "ifd_thumb_at 18 ?pr ?so ?io ?go < 2 ^ 32" "length (thumb_bytes None) < 2 ^ 32"
    by (simp_all add: thumb_bytes_def)
  have shape: "primary_shape ?pr" "\<And>s. ?so = Some s \<Longrightarrow> spec_shape s" "\<And>x. ?io = Some x \<Longrightarrow> interop_shape x"
    "\<And>g. ?go = Some g \<Longrightarrow> gps_shape g"
    using assms(1) by (simp_all add: info_shape_def)
  note ptrs = ifd_views_pointers [OF shape(1) bounds, of 10]
  obtain ts us where spec: "read_sub B 10 ?vs IFD_EXIFIFDPOINTER = Some ts"
    "map_option own_tags ts = map_option (\<lambda>s. views (spec_fields_before s @ spec_fields_after s)) ?so"
    "(case ts of None \<Rightarrow> Some None | Some us \<Rightarrow> read_sub B 10 us IFD_INTEROPERABILITYIFDPOINTER) = Some us"
    "map_option own_tags us = (if ?so = None then None else map_option (\<lambda>x. views (inter_fields x)) ?io)"
    using read_spec [OF info assms(3) ptrs(1) shape(2,3)] by blast
  obtain gs where gps: "read_sub B 10 ?vs IFD_GPSIFDPOINTER = Some gs"
    "map_option own_tags gs = map_option (\<lambda>g. views (gps_fields g)) ?go"
    using read_gps [OF info shape(4) ptrs(2)] by blast
  have thumb: "read_thumb B 10 ?nx = Some (thumb_image (contents i th))"
    using holds_subset [OF assms(2), of "thumb_facts i th"] assms(3,6) by (intro read_thumb_held) simp_all
  have h: "take 2 (app1_head n @ ifh_bytes) = [0xFF, 0xE1]"
    "take 6 (drop 4 (app1_head n @ ifh_bytes)) = [0x45, 0x78, 0x69, 0x66, 0, 0]"
    "take 4 (drop 10 (app1_head n @ ifh_bytes)) = [0x4D, 0x4D, 0, 0x2A]"
    "10 + unat (be32_at (drop 14 (app1_head n @ ifh_bytes))) = 18"
    by (simp_all add: app1_head_def ifh_bytes_def be16_def be32_at_def pack32_def)
  show ?thesis
    unfolding read_exif_def head bind.bind_lunit
    unfolding h r bind.bind_lunit fst_conv snd_conv spec(1) spec(3) gps(1) thumb
    by (simp add: spec(2,4) gps(2) ptrs(5) contents_def)
qed

end
