(* ===== verification/ExifSafety.thy ===== *)
theory ExifSafety
  imports ExifSegment
begin

text \<open>
  The writer reads only the objects that the information gives it, whatever the buffer; and what it
  does when the bytes of a field run over the end of the buffer.
\<close>

subsection \<open>No statement reads outside its objects\<close>

definition faultless :: "'a wm \<Rightarrow> bool" where
  "faultless m \<longleftrightarrow> (\<forall>s. m s \<noteq> JFault)"

named_theorems faultless_rules "statements without undefined behaviour"

lemma faultless_stmts [faultless_rules]:
  "faultless (jret x)" "faultless jfail" "faultless (jget f)" "faultless (jmod g)"
  by (simp_all add: faultless_def jstmt)

lemma faultless_jbind [faultless_rules]: "faultless m \<Longrightarrow> (\<And>x. faultless (k x)) \<Longrightarrow> faultless (jbind m k)"
  by (simp add: faultless_def jstmt split: jres.split)

lemma faultless_jthen [faultless_rules]: "faultless m \<Longrightarrow> faultless n \<Longrightarrow> faultless (jthen m n)"
  by (simp add: faultless_def jstmt split: jres.split)

lemma faultless_jseq [faultless_rules]: "(\<And>m. m \<in> set ms \<Longrightarrow> faultless m) \<Longrightarrow> faultless (jseq ms)"
  by (induction ms) (simp_all add: faultless_rules)

lemma faultless_if [faultless_rules]:
  "(c \<Longrightarrow> faultless m) \<Longrightarrow> (\<not> c \<Longrightarrow> faultless n) \<Longrightarrow> faultless (if c then m else n)"
  by simp

lemma faultless_ignoring [faultless_rules]: "faultless m \<Longrightarrow> faultless (ignoring m)"
  by (simp add: faultless_def ignoring_def split: jres.split)

lemma faultless_as_success [faultless_rules]: "faultless m \<Longrightarrow> faultless (failure_as_success x m)"
  by (simp add: faultless_def failure_as_success_def split: jres.split)

lemma faultless_readable: "n \<le> length (value_ptr i) \<Longrightarrow> faultless (readable n i)"
  by (simp add: faultless_def readable_def jstmt)

lemma faultless_stream [faultless_rules]:
  "faultless Jpeg_WriteStreamToFile" "faultless (Jpeg_SetWritePos p)" "faultless Jpeg_GetWritePos"
  "faultless (Jpeg_WriteC c)" "faultless (Jpeg_WriteL l)"
proof -
  show flush: "faultless Jpeg_WriteStreamToFile"
    by (simp add: faultless_def Jpeg_WriteStreamToFile_def Let_def split: option.split)
  show "faultless (Jpeg_SetWritePos p)"
    unfolding Jpeg_SetWritePos_def Let_def by (intro faultless_rules flush)
  show "faultless Jpeg_GetWritePos" unfolding Jpeg_GetWritePos_def by (intro faultless_rules)
  show "faultless (Jpeg_WriteC c)" unfolding Jpeg_WriteC_def Let_def by (intro faultless_rules flush)
  show "faultless (Jpeg_WriteL l)" by (simp add: faultless_def Jpeg_WriteL_def split: option.split)
qed

lemma faultless_writes [faultless_rules]:
  "faultless (Jpeg_WriteW w)" "faultless (Jpeg_WriteBlock bs)" "faultless (Jpeg_WriteIFD i)"
  "faultless (write_header i p)"
proof -
  show w: "faultless (Jpeg_WriteW w)" for w unfolding Jpeg_WriteW_def by (intro faultless_rules)
  show "faultless (Jpeg_WriteBlock bs)"
    unfolding Jpeg_WriteBlock_def by (auto intro!: faultless_rules)
  show ifd: "faultless (Jpeg_WriteIFD i)"
    unfolding Jpeg_WriteIFD_def by (auto intro!: faultless_rules w)
  show "faultless (write_header i p)" unfolding write_header_def by (intro faultless_rules ifd)
qed

lemma faultless_values [faultless_rules]:
  "faultless m \<Longrightarrow> faultless (write_values p m)" "faultless m \<Longrightarrow> faultless (write_units offs p m)"
  unfolding write_values_def write_units_def by (intro faultless_rules | assumption)+

text \<open>The four writers, on an entry whose object is long enough.\<close>

lemma faultless_LongIFD:
  assumes "info_count i \<le> 1 \<longrightarrow> 4 \<le> length (value_ptr i)" "4 * unat (info_count i) \<le> length (value_ptr i)"
  shows "faultless (Jpeg_WriteLongIFD i offs)"
  unfolding Jpeg_WriteLongIFD_def Let_def
  using assms by (auto intro!: faultless_rules faultless_readable)

lemma faultless_RationalIFD:
  assumes "8 * unat (info_count i) \<le> length (value_ptr i)"
  shows "faultless (Jpeg_WriteRationalIFD i offs)"
  unfolding Jpeg_WriteRationalIFD_def
  using assms by (auto intro!: faultless_rules faultless_readable)

lemma faultless_ShortIFD:
  assumes "0 < info_count i" "2 * unat (info_count i) \<le> length (value_ptr i)"
  shows "faultless (Jpeg_WriteShortIFD i offs)"
proof -
  have "0 < unat (info_count i)" using assms(1) by (simp add: word_less_nat_alt)
  then have "(if info_count i = 2 then 4 else 2) \<le> length (value_ptr i)" using assms(2) by auto
  then show ?thesis
    unfolding Jpeg_WriteShortIFD_def Let_def
    using assms by (auto intro!: faultless_rules faultless_readable)
qed

lemma faultless_ByteIFD:
  assumes "unat (info_count i) \<le> length (value_ptr i)"
  shows "faultless (Jpeg_WriteByteIFD i offs)"
  unfolding Jpeg_WriteByteIFD_def Let_def
  using assms by (auto intro!: faultless_rules faultless_readable)

lemma faultless_entry:
  assumes "entry_ok e"
  shows "faultless (write_entry ifh e st)"
proof (cases "e_written e")
  case True
  then obtain n where n: "e_count e = Some n" "0 < unat n"
    using assms by (auto simp: entry_ok_def units_def)
  then have pos: "0 < n" by (simp add: word_less_nat_alt)
  have value_written: "faultless (write_with (e_writer e) (entry_info ifh e n v) offs)" for v offs
    using assms True n pos
    by (cases "e_writer e")
      (auto simp: write_with_def entry_ok_def units_def entry_info_def
        intro!: faultless_LongIFD faultless_RationalIFD faultless_ShortIFD faultless_ByteIFD)
  show ?thesis
    unfolding write_entry_def if_P [OF True] n(1) option.case by (intro faultless_rules value_written)
qed (simp add: write_entry_def faultless_rules)

lemma faultless_entries [faultless_rules]: "\<forall>e\<in>set es. entry_ok e \<Longrightarrow> faultless (write_entries ifh es st)"
  by (induction es arbitrary: st) (auto intro!: faultless_rules faultless_entry)

lemma faultless_ifd [faultless_rules]:
  "faultless (begin_ifd m b)" "faultless (end_ifd b nx st)"
  unfolding begin_ifd_def end_ifd_def by (intro faultless_rules)+

lemma faultless_pointer [faultless_rules]:
  "(\<And>b. faultless (sub b)) \<Longrightarrow> faultless (write_pointer ifh t sub st)"
  unfolding write_pointer_def Let_def by (auto intro!: faultless_rules faultless_LongIFD)

lemma faultless_tables:
  "io = None \<or> (\<forall>e\<in>set (inter_fields (the io)). entry_ok e) \<Longrightarrow>
     faultless (Jpeg_WriteExifInteroperabilityInfo io ifh b)"
  "so = None \<or> (\<forall>e\<in>set (spec_fields_before (the so) @ spec_fields_after (the so)). entry_ok e) \<Longrightarrow>
     io = None \<or> (\<forall>e\<in>set (inter_fields (the io)). entry_ok e) \<Longrightarrow>
     faultless (Jpeg_WriteExifSpecInfo so io ifh b)"
  "go = None \<or> (\<forall>e\<in>set (gps_fields (the go)). entry_ok e) \<Longrightarrow> faultless (Jpeg_WriteExifGPSInfo go ifh b)"
proof -
  show inter: "io = None \<or> (\<forall>e\<in>set (inter_fields (the io)). entry_ok e) \<Longrightarrow>
      faultless (Jpeg_WriteExifInteroperabilityInfo io ifh b)" for io b
    by (cases io) (auto simp: Jpeg_WriteExifInteroperabilityInfo_def intro!: faultless_rules)
  show "so = None \<or> (\<forall>e\<in>set (spec_fields_before (the so) @ spec_fields_after (the so)). entry_ok e) \<Longrightarrow>
      io = None \<or> (\<forall>e\<in>set (inter_fields (the io)). entry_ok e) \<Longrightarrow>
      faultless (Jpeg_WriteExifSpecInfo so io ifh b)"
    by (cases so) (auto simp: Jpeg_WriteExifSpecInfo_def intro!: faultless_rules inter)
  show "go = None \<or> (\<forall>e\<in>set (gps_fields (the go)). entry_ok e) \<Longrightarrow> faultless (Jpeg_WriteExifGPSInfo go ifh b)"
    by (cases go) (auto simp: Jpeg_WriteExifGPSInfo_def intro!: faultless_rules)
qed

lemma faultless_WriteExifIFD:
  assumes "ifd_ok pr so io go"
  shows "faultless (Jpeg_WriteExifIFD (Some pr) so go io th nx ifh b)"
proof -
  note ok = assms [unfolded ifd_ok_def]
  have spec: "faultless (Jpeg_WriteExifSpecInfo so io ifh b)" if "so \<noteq> None" for b
    using that ok by (intro faultless_tables(2)) (cases io; auto)+
  have gps: "faultless (Jpeg_WriteExifGPSInfo go ifh b)" for b
    using ok by (intro faultless_tables(3)) (cases go; auto)
  have thumb: "\<forall>e\<in>set (if has_thumbnail th then offset_field 0 # thumbnail_fields th else []). entry_ok e"
    unfolding thumbnail_entries by (auto simp: pointer_entry_facts)
  have image: "\<forall>e\<in>set (primary_fields_before pr). entry_ok e" "\<forall>e\<in>set (primary_size_fields pr). entry_ok e"
    using ok by simp_all
  have blob: "faultless (write_thumbnail ifh bs p st)" for bs p st
    unfolding write_thumbnail_def by (intro faultless_rules faultless_LongIFD) simp_all
  show ?thesis
    unfolding Jpeg_WriteExifIFD_def option.case Let_def
    by (intro faultless_rules spec gps blob image thumb) simp_all
qed

lemma faultless_write_app1:
  assumes "info_shape i"
  shows "faultless (write_app1 i th)"
  unfolding write_app1_def Let_def Jpeg_WriteIFH_def Jpeg_WriteAPP1Header_def
  by (auto intro!: faultless_rules faultless_WriteExifIFD info_ifd_ok [OF assms] ifd1_ok)

subsection \<open>A value that does not fit\<close>

lemma jthen_run:
  "m s = JOk a s' \<Longrightarrow> jthen m n s = n s'" "m s = JFail s' \<Longrightarrow> jthen m n s = JFail s'"
  by (simp_all add: jthen_def jbind_def)

lemma WriteC_full: "Jpeg_WriteC c (mem B (length B)) = JFail (mem B (length B))"
  by (simp add: Jpeg_WriteC_def jstmt Jpeg_WriteStreamToFile_def)

lemma write_bytes_overrun:
  assumes "\<forall>k\<in>set ks. k < length (value_ptr i)" "p \<le> length B" "length B < p + length ks"
  shows "\<exists>B'. jfor ks (\<lambda>k. jthen (readable (k + 1) i) (Jpeg_WriteC (value_ptr i ! k))) (mem B p)
      = JFail (mem B' (length B')) \<and> length B' = length B \<and> take p B' = take p B"
  using assms
proof (induction ks arbitrary: B p)
  case (Cons k ks)
  have r: "jthen (readable (k + 1) i) m = m" for m :: "unit wm"
    using Cons.prems(1) by (intro skip_statements) simp
  show ?case
  proof (cases "p = length B")
    case True
    then show ?thesis
      unfolding list.map jseq.simps r using jthen_run(2) [where m = "Jpeg_WriteC (value_ptr i ! k)", OF WriteC_full]
      by (intro exI [of _ B]) simp
  next
    case False
    let ?c = "value_ptr i ! k"
    have p: "p < length B" using False Cons.prems(2) by simp
    have one: "Jpeg_WriteC ?c (mem B p) = JOk () (mem (put p [?c] B) (p + 1))"
      using emitsD [OF emits_WriteC [of ?c], of p B] p by simp
    have len: "length (put p [?c] B) = length B" using p by simp
    obtain B' where B': "jfor ks (\<lambda>k. jthen (readable (k + 1) i) (Jpeg_WriteC (value_ptr i ! k)))
          (mem (put p [?c] B) (p + 1)) = JFail (mem B' (length B'))" "length B' = length B"
        "take (p + 1) B' = take (p + 1) (put p [?c] B)"
      using Cons.IH [of "p + 1" "put p [?c] B"] Cons.prems p len by auto
    have "take p (take (p + 1) B') = take p (take (p + 1) (put p [?c] B))" using B'(3) by simp
    then have "take p B' = take p B" using p by (simp add: put_def min_def)
    then show ?thesis
      unfolding list.map jseq.simps r jthen_run(1) [where m = "Jpeg_WriteC ?c", OF one]
      using B'(1,2) by (intro exI [of _ B']) simp
  qed
qed simp

lemma write_bytes_entry_overrun:
  assumes "small B" "io + 12 \<le> vo" "vo \<le> length B" "4 < info_count i"
    "unat (info_count i) \<le> length (value_ptr i)" "length B < vo + unat (info_count i)"
  shows "\<exists>B'. Jpeg_WriteByteIFD i (of_nat io, of_nat vo) (mem B p) = JOk (of_nat io, of_nat vo) (mem B' (length B'))
    \<and> length B' = length B \<and> load io 12 B' = Some (info_head i)"
proof -
  let ?B = "put io (info_head i) B"
  have io: "io + 12 \<le> length B" using assms(2,3) by simp
  have len: "length ?B = length B" using io by simp
  have head: "write_header i (of_nat io) (mem B p) = JOk (of_nat (io + 12)) (mem ?B (io + 12))"
    by (rule write_header_mem [OF assms(1) io])
  obtain B' where B': "jfor [0..<unat (info_count i)] (\<lambda>k. jthen (readable (k + 1) i) (Jpeg_WriteC (value_ptr i ! k)))
        (mem ?B vo) = JFail (mem B' (length B'))" "length B' = length ?B" "take vo B' = take vo ?B"
    using write_bytes_overrun [of "[0..<unat (info_count i)]" i vo ?B] assms(3,5,6) len by auto
  have "chunk io 12 B' = chunk io 12 (take vo B')" using assms(2) by (simp add: chunk_def drop_take)
  also have "\<dots> = chunk io 12 ?B" using B'(3) assms(2) by (simp add: chunk_def drop_take)
  also have "\<dots> = info_head i"
    using held_put [of io "info_head i" B] io by (simp add: held_def load_def split: if_splits)
  finally have "load io 12 B' = Some (info_head i)" using io len B'(2) by (simp add: load_def)
  moreover have "Jpeg_WriteByteIFD i (of_nat io, of_nat vo) (mem B p) = JOk (of_nat io, of_nat vo) (mem B' (length B'))"
  proof -
    have set: "Jpeg_SetWritePos (of_nat vo) (mem ?B q) = JOk () (mem ?B vo)" for q
      using assms(1,3) len by (intro SetWritePos_mem) simp_all
    have big: "\<not> info_count i \<le> 4" "info_count i > 4" using assms(4) by auto
    have units: "write_units (of_nat io, of_nat vo) (of_nat (io + 12))
          (jfor [0..<unat (info_count i)] (\<lambda>k. jthen (readable (k + 1) i) (Jpeg_WriteC (value_ptr i ! k))))
          (mem ?B q) = JOk (of_nat io, of_nat vo) (mem B' (length B'))" for q
      unfolding write_units_def snd_conv jthen_run(1) [where m = "Jpeg_SetWritePos (of_nat vo)", OF set]
        failure_as_success_def
        jthen_run(2) [where m = "jfor [0..<unat (info_count i)] (\<lambda>k. jthen (readable (k + 1) i)
          (Jpeg_WriteC (value_ptr i ! k)))", OF B'(1)] by simp
    show ?thesis
      unfolding Jpeg_WriteByteIFD_def Let_def if_not_P [OF big(1)] if_P [OF big(2)] fst_conv
        skip_statements(1) jbind_run [where m = "write_header i (of_nat io)", OF head] by (rule units)
  qed
  ultimately show ?thesis using B'(2) len by (intro exI [of _ B']) simp
qed

end
