(* ===== verification/ExifFile.thy ===== *)
theory ExifFile
  imports ExifRoundtrip ExifSafety
begin

text \<open>
  What the APP1 writer promises to its caller: the segment it leaves in the buffer is read back as the
  information, a buffer of 64 KB is enough, nothing is read outside the objects of the information; and
  what it does not promise: the size it returns is wrong for a segment that does not fit into 64 KB,
  and a value that does not fit into the buffer may be reported as written.
\<close>

subsection \<open>Access to the tags\<close>

definition find_tag :: "tag_value list \<Rightarrow> u16 \<Rightarrow> (u16 \<times> nat \<times> bytes) option" where
  "find_tag vs t = map_of vs t"

lemma find_tag_views:
  "find_tag (views []) t = None"
  "find_tag (views (e # es)) t
     = (if e_written e \<and> e_tag e = t then Some (e_type e, units e, wire e) else find_tag (views es) t)"
  by (simp_all add: find_tag_def tag_view_def)

definition rational_at :: "bytes \<Rightarrow> exif_rational" where
  "rational_at bs = \<lparr>numerator = be32_at bs, denominator = be32_at (drop 4 bs)\<rparr>"

definition rationals_at :: "nat \<Rightarrow> bytes \<Rightarrow> exif_rational list" where
  "rationals_at n bs = map (\<lambda>k. rational_at (drop (8 * k) bs)) [0..<n]"

text \<open>The position of the camera, from the tags of the GPS table: references and rationals.\<close>

definition read_position :: "exif_contents \<Rightarrow> (bytes \<times> exif_rational list \<times> bytes \<times> exif_rational list) option" where
  "read_position c =
     do {
       g \<leftarrow> gps_tags c;
       a \<leftarrow> find_tag g IFD_GPSLATITUDEREF;
       b \<leftarrow> find_tag g IFD_GPSLATITUDE;
       c \<leftarrow> find_tag g IFD_GPSLONGITUDEREF;
       d \<leftarrow> find_tag g IFD_GPSLONGITUDE;
       Some (snd (snd a), rationals_at (fst (snd b)) (snd (snd b)), snd (snd c),
             rationals_at (fst (snd d)) (snd (snd d)))
     }"

text \<open>The size of the image, from the tags of the first table.\<close>

definition read_size :: "exif_contents \<Rightarrow> (nat \<times> nat) option" where
  "read_size c =
     do { w \<leftarrow> tag_long (image_tags c) IFD_IMAGEWIDTH; h \<leftarrow> tag_long (image_tags c) IFD_IMAGELENGTH;
          Some (w, h) }"

lemma long_at_append [simp]:
  "long_at 0 (le32 w @ u) = w" "long_at (Suc k) (le32 w @ u) = long_at k u"
  using long_at_le32 [of w] by (simp_all add: long_at_def nth_append add.commute)

lemma long_at_rationals:
  "k < length rs \<Longrightarrow> long_at (2 * k) (rationals rs) = numerator (rs ! k)
     \<and> long_at (Suc (2 * k)) (rationals rs) = denominator (rs ! k)"
proof (induction rs arbitrary: k)
  case (Cons r rs)
  show ?case
  proof (cases k)
    case (Suc j)
    then show ?thesis using Cons.IH [of j] Cons.prems by (simp add: rationals_def rational_def)
  qed (simp add: rationals_def rational_def)
qed simp

definition be_rational :: "exif_rational \<Rightarrow> bytes" where
  "be_rational r = be32 (numerator r) @ be32 (denominator r)"

lemma wire_rationals:
  assumes "unat n = length rs"
  shows "wire (field True t ty n (rationals rs) RationalIFD) = concat (map be_rational rs)"
proof -
  have "map (\<lambda>k. be32 (long_at (2 * k) (rationals rs)) @ be32 (long_at (2 * k + 1) (rationals rs))) [0..<length rs]
      = map be_rational rs"
    by (intro nth_equalityI) (simp_all add: be_rational_def long_at_rationals)
  then show ?thesis using assms by (simp add: wire_def field_def units_def)
qed

lemma rationals_at_be: "rationals_at (length rs) (concat (map be_rational rs)) = rs"
proof -
  have "rational_at (drop (8 * k) (concat (map be_rational rs))) = rs ! k" if "k < length rs" for k
    using that
  proof (induction rs arbitrary: k)
    case (Cons r rs)
    show ?case
    proof (cases k)
      case (Suc j)
      then show ?thesis using Cons.IH [of j] Cons.prems by (simp add: be_rational_def)
    qed (simp add: rational_at_def be_rational_def)
  qed simp
  then show ?thesis unfolding rationals_at_def by (intro nth_equalityI) simp_all
qed

lemma field_view:
  "e_written (field g t ty n p w) = g" "e_tag (field g t ty n p w) = t" "e_type (field g t ty n p w) = ty"
  "units (field g t ty n p w) = unat n"
  "e_written (text_field g t p) = g" "e_tag (text_field g t p) = t"
  "e_tag (custom_field g t ty c w) = t"
  by (simp_all add: field_def units_def text_field_def custom_field_def)

lemma gps_position_tags:
  assumes "gps_shape g" "valid_GPSLatitudeRef (gps_valid g)" "valid_GPSLatitude (gps_valid g)"
    "valid_GPSLongitudeRef (gps_valid g)" "valid_GPSLongitude (gps_valid g)"
  shows "find_tag (views (gps_fields g)) IFD_GPSLATITUDEREF = Some (IFD_ASCII, 2, GPSLatitudeRef g)"
    "find_tag (views (gps_fields g)) IFD_GPSLATITUDE
      = Some (IFD_RATIONAL, 3, concat (map be_rational (GPSLatitude g)))"
    "find_tag (views (gps_fields g)) IFD_GPSLONGITUDEREF = Some (IFD_ASCII, 2, GPSLongitudeRef g)"
    "find_tag (views (gps_fields g)) IFD_GPSLONGITUDE
      = Some (IFD_RATIONAL, 3, concat (map be_rational (GPSLongitude g)))"
proof -
  have len: "length (GPSLatitudeRef g) = 2" "length (GPSLatitude g) = 3" "length (GPSLongitudeRef g) = 2"
    "length (GPSLongitude g) = 3"
    using assms(1) by (simp_all add: gps_shape_def)
  have byte: "wire (field True t ty 2 p ByteIFD) = take 2 p" for t ty p
    by (simp add: wire_def field_def units_def)
  show "find_tag (views (gps_fields g)) IFD_GPSLATITUDEREF = Some (IFD_ASCII, 2, GPSLatitudeRef g)"
    "find_tag (views (gps_fields g)) IFD_GPSLATITUDE
      = Some (IFD_RATIONAL, 3, concat (map be_rational (GPSLatitude g)))"
    "find_tag (views (gps_fields g)) IFD_GPSLONGITUDEREF = Some (IFD_ASCII, 2, GPSLongitudeRef g)"
    "find_tag (views (gps_fields g)) IFD_GPSLONGITUDE
      = Some (IFD_RATIONAL, 3, concat (map be_rational (GPSLongitude g)))"
    using assms(2-5) len
    by (simp_all add: gps_fields_def gps_position_fields_def find_tag_views field_view byte wire_rationals
        del: views_simps)
qed

lemma gps_dest_longitude_tag:
  "find_tag (views (gps_fields g)) IFD_GPSDESTLONGITUDE = None \<longleftrightarrow> \<not> valid_GPSDestLatitude (gps_valid g)"
  by (simp add: gps_fields_def gps_position_fields_def gps_motion_fields_def gps_dest_fields_def
      gps_text_fields_def find_tag_views field_view del: views_simps)

lemma find_tag_skip:
  "\<forall>e\<in>set es. e_tag e \<noteq> t \<Longrightarrow> find_tag (views (es @ fs)) t = find_tag (views fs) t"
  by (induction es) (auto simp: find_tag_def tag_view_def map_add_def)

lemma e_tag_on: "(\<And>x. e_tag (e x) \<noteq> t) \<Longrightarrow> t \<noteq> 0 \<Longrightarrow> e_tag (on p e) \<noteq> t"
  by (cases p) (simp_all add: on_def field_def)

lemma size_tags:
  "find_tag (views (primary_fields_before pr @ primary_size_fields pr)) IFD_IMAGEWIDTH
     = Some (IFD_LONG, 1, be32 (ucast (short_at 0 (le32 (ImageWidth (pri_basic pr))))))"
  "find_tag (views (primary_fields_before pr @ primary_size_fields pr)) IFD_IMAGELENGTH
     = Some (IFD_LONG, 1, be32 (ucast (short_at 0 (le32 (ImageLength (pri_basic pr))))))"
proof -
  have tag: "e_tag (value_field g t ty n p v w) = t" for g t ty n p v w
    by (simp add: value_field_def field_def)
  have skip: "\<forall>e\<in>set (primary_fields_before pr). e_tag e \<noteq> IFD_IMAGEWIDTH"
    "\<forall>e\<in>set (primary_fields_before pr). e_tag e \<noteq> IFD_IMAGELENGTH"
    by (simp_all add: primary_fields_before_def primary_desc_fields_def primary_char_fields_def e_tag_on
        field_view tag)
  have first: "e_tag (hd (primary_size_fields pr)) \<noteq> IFD_IMAGEWIDTH"
    "e_tag (hd (primary_size_fields pr)) \<noteq> IFD_IMAGELENGTH"
    by (simp_all add: primary_size_fields_def e_tag_on field_view)
  have long: "wire (field True t IFD_LONG 1 (le32 w) ShortIFD) = be32 (ucast (short_at 0 (le32 w)))" for t w
    by (simp add: wire_def field_def)
  show "find_tag (views (primary_fields_before pr @ primary_size_fields pr)) IFD_IMAGEWIDTH
     = Some (IFD_LONG, 1, be32 (ucast (short_at 0 (le32 (ImageWidth (pri_basic pr))))))"
    "find_tag (views (primary_fields_before pr @ primary_size_fields pr)) IFD_IMAGELENGTH
     = Some (IFD_LONG, 1, be32 (ucast (short_at 0 (le32 (ImageLength (pri_basic pr))))))"
    unfolding find_tag_skip [OF skip(1)] find_tag_skip [OF skip(2)] using first
    by (simp_all add: primary_size_fields_def find_tag_views field_view long del: views_simps)
qed

lemma unat_low_half: "unat (ucast (short_at 0 (le32 w)) :: u32) = unat w mod 65536"
proof -
  have "short_at 0 (le32 w) = ucast w"
    by (rule bit_eqI) (auto simp: short_at_def mk16_def le32_def byte_of_def bit_simps)
  then show ?thesis by (simp add: unsigned_ucast_eq take_bit_eq_mod unat_mod)
qed

lemma read_size_contents:
  "read_size (contents i th) = Some (unat (ImageWidth (pri_basic (exif_primary i))) mod 65536,
     unat (ImageLength (pri_basic (exif_primary i))) mod 65536)"
  using size_tags [of "exif_primary i"] unat_low_half
  by (simp add: read_size_def tag_long_def contents_def find_tag_def)

lemma read_position_contents:
  assumes "info_shape i" "gps_ptr i = Some g" "valid_GPSLatitudeRef (gps_valid g)" "valid_GPSLatitude (gps_valid g)"
    "valid_GPSLongitudeRef (gps_valid g)" "valid_GPSLongitude (gps_valid g)"
  shows "read_position (contents i th)
    = Some (GPSLatitudeRef g, GPSLatitude g, GPSLongitudeRef g, GPSLongitude g)"
proof -
  have shape: "gps_shape g" using assms(1,2) by (simp add: info_shape_def)
  then have "length (GPSLatitude g) = 3" "length (GPSLongitude g) = 3" by (simp_all add: gps_shape_def)
  then have "rationals_at 3 (concat (map be_rational (GPSLatitude g))) = GPSLatitude g"
    "rationals_at 3 (concat (map be_rational (GPSLongitude g))) = GPSLongitude g"
    by (metis rationals_at_be)+
  then show ?thesis
    using gps_position_tags [OF shape assms(3-6)] assms(2) by (simp add: read_position_def contents_def)
qed

subsection \<open>The segment in the buffer\<close>

lemma app1_end_ge: "info_end 18 i + length (thumb_bytes th) \<le> app1_end i th" "312 \<le> app1_end i th"
proof -
  have V: "values_at b 24 \<le> ifd_thumb_at b ifd1_primary None None None" for b
    by (simp add: ifd_thumb_at_def ifd_gps_at_def ifd_values_def)
  have "has_thumbnail th \<Longrightarrow>
      info_end 18 i + length (thumb_bytes th) \<le> app1_end i th \<and> 312 \<le> app1_end i th"
    using V [of "info_end 18 i"] values_at_bounds(1) [of "info_end 18 i" 24] fact_ends(1) [of i]
    by (simp add: app1_end_def ifd_end_def)
  moreover have "\<not> has_thumbnail th \<Longrightarrow>
      info_end 18 i + length (thumb_bytes th) \<le> app1_end i th \<and> 312 \<le> app1_end i th"
    using fact_ends(1) [of i] by (auto simp: app1_end_def has_thumbnail_def thumb_bytes_def split: option.splits)
  ultimately show "info_end 18 i + length (thumb_bytes th) \<le> app1_end i th" "312 \<le> app1_end i th" by blast+
qed

lemma segment_read_back:
  assumes "info_shape i" "segment_in i th B" "app1_end i th \<le> length B" "length B < 2 ^ 32"
  shows "read_exif (take (app1_end i th) B) = Some (contents i th)"
    and "load 0 4 B = Some ([0xFF, 0xE1] @ be16 (of_nat (app1_end i th - 2)))"
proof -
  let ?e = "app1_end i th" and ?B = "take (app1_end i th) B"
  have e: "312 \<le> ?e" by (rule app1_end_ge(2))
  have len: "length ?B = ?e" using assms(3) by simp
  have a: "agree {0..<?e} B ?B" using assms(3) by (auto simp: agree_def)
  note seg = assms(2) [unfolded segment_in_def]
  have "fact_within 18 (length ?B) ?B f" if "f \<in> set (info_facts i th @ thumb_facts i th)" for f
  proof (cases f)
    case (fields p q P)
    have "fact_within 18 ?e B (p, q, P)" using seg that fields by blast
    then have f: "18 \<le> p" "q \<le> ?e" "robust {p..<q} P B" by simp_all
    have "agree {p..<q} ?B B' \<Longrightarrow> agree {p..<q} B B'" for B'
      using agree_trans [OF agree_mono [OF a, of "{p..<q}"]] f(2) by auto
    then have "robust {p..<q} P ?B" using f(2,3) len unfolding robust_def by auto
    then show ?thesis using f fields len by simp
  qed
  then have h: "holds (info_facts i th @ thumb_facts i th) ?B" unfolding holds_def by blast
  have head: "load 0 10 B = Some (app1_head (of_nat (?e - 2)))" "load 10 8 B = Some ifh_bytes"
    using seg by blast+
  then have "load 0 10 ?B = Some (app1_head (of_nat (?e - 2)))" "load 10 8 ?B = Some ifh_bytes"
    using load_agree [OF a, of 0 10] load_agree [OF a, of 10 8] e by simp_all
  then show "read_exif ?B = Some (contents i th)"
    using app1_end_ge(1) [of i th] assms(4) len
    by (intro read_back [OF assms(1) h]) simp_all
  have first: "take 10 B = app1_head (of_nat (?e - 2))" "10 \<le> length B"
    using head(1) by (simp_all add: load_def chunk_def split: if_splits)
  have "take 4 B = take 4 (take 10 B)" by simp
  also have "\<dots> = [0xFF, 0xE1] @ be16 (of_nat (?e - 2))" unfolding first(1) by (simp add: app1_head_def)
  finally show "load 0 4 B = Some ([0xFF, 0xE1] @ be16 (of_nat (?e - 2)))"
    using first(2) by (simp add: load_def chunk_def)
qed

lemma app1_written:
  assumes "info_shape i" "small target" "app1_end i th \<le> length target" "app1_end i th \<le> 65537"
  shows "\<exists>n s. Jpeg_WriteAPP1 (Some target) (Some i) th = JOk n s \<and> unat n = app1_end i th
    \<and> length (write_buf s) = length target
    \<and> load 0 4 (write_buf s) = Some ([0xFF, 0xE1] @ be16 (of_nat (unat n - 2)))
    \<and> read_exif (take (unat n) (write_buf s)) = Some (contents i th)"
proof -
  let ?e = "app1_end i th"
  obtain B q where run: "Jpeg_WriteAPP1 (Some target) (Some i) th
      = JOk (of_nat ((?e - 2) mod 65536 + 2)) (mem B q)" "length B = length target" "segment_in i th B"
    using WriteAPP1_run [OF assms(1-3)] by blast
  have "312 \<le> ?e" by (rule app1_end_ge(2))
  then have size: "(?e - 2) mod 65536 + 2 = ?e" using assms(4) by simp
  have "?e < 2 ^ 32" using assms(4) by simp
  then have n: "unat (of_nat ?e :: u32) = ?e" by (rule unat_of_nat_u32)
  have "?e \<le> length B" "length B < 2 ^ 32" using run(2) assms(2,3) by simp_all
  from segment_read_back [OF assms(1) run(3) this] show ?thesis
    using run(1,2) unfolding size
    by (intro exI [of _ "of_nat ?e"] exI [of _ "mem B q"]) (simp add: n del: of_nat_diff)
qed

subsection \<open>An example\<close>

definition gps_example_valid :: exif_gps_valid where
  "gps_example_valid = \<lparr>
     valid_GPSVersionID = False, valid_GPSLatitudeRef = True, valid_GPSLatitude = True,
     valid_GPSLongitudeRef = True, valid_GPSLongitude = True, valid_GPSAltitudeRef = False,
     valid_GPSAltitude = False, valid_GPSTimeStamp = False, valid_GPSSatellites = False,
     valid_GPSStatus = False, valid_GPSMeasureMode = False, valid_GPSDOP = False,
     valid_GPSSpeedRef = False, valid_GPSSpeed = False, valid_GPSTrackRef = False, valid_GPSTrack
     = False, valid_GPSImgDirectionRef = False, valid_GPSImgDirection = False, valid_GPSMapDatum =
     False, valid_GPSDestLatitudeRef = False, valid_GPSDestLatitude = False,
     valid_GPSDestLongitudeRef = False, valid_GPSDestLongitude = True, valid_GPSDestBearingRef =
     False, valid_GPSDestBearing = False, valid_GPSDestDistanceRef = False, valid_GPSDestDistance
     = False, valid_GPSProcessingMethod = False, valid_GPSAreaInformation = False,
     valid_GPSDateStamp = True, valid_GPSDifferential = False\<rparr>"

definition gps_example :: exif_gps_info where
  "gps_example = \<lparr>
     gps_valid = gps_example_valid, GPSVersionID = replicate 4 0, GPSLatitudeRef = [0x4E, 0],
     GPSLatitude = [\<lparr>numerator = 31, denominator = 1\<rparr>, \<lparr>numerator = 13,
     denominator = 1\<rparr>, \<lparr>numerator = 4821, denominator = 100\<rparr>],
     GPSLongitudeRef = [0x45, 0], GPSLongitude = [\<lparr>numerator = 121, denominator =
     1\<rparr>, \<lparr>numerator = 28, denominator = 1\<rparr>, \<lparr>numerator = 900,
     denominator = 100\<rparr>], GPSAltitudeRef = 0, GPSAltitude = \<lparr>numerator = 0,
     denominator = 1\<rparr>, GPSTimeStamp = replicate 3 \<lparr>numerator = 0, denominator =
     1\<rparr>, GPSSatellites = replicate 256 0, GPSStatus = replicate 2 0, GPSMeasureMode =
     replicate 2 0, GPSDOP = \<lparr>numerator = 0, denominator = 1\<rparr>, GPSSpeedRef =
     replicate 2 0, GPSSpeed = \<lparr>numerator = 0, denominator = 1\<rparr>, GPSTrackRef =
     replicate 2 0, GPSTrack = \<lparr>numerator = 0, denominator = 1\<rparr>, GPSImgDirectionRef
     = replicate 2 0, GPSImgDirection = \<lparr>numerator = 0, denominator = 1\<rparr>,
     GPSMapDatum = replicate 256 0, GPSDestLatitudeRef = replicate 2 0, GPSDestLatitude =
     replicate 3 \<lparr>numerator = 0, denominator = 1\<rparr>, GPSDestLongitudeRef = replicate 2
     0, GPSDestLongitude = replicate 3 \<lparr>numerator = 0, denominator = 1\<rparr>,
     GPSDestBearingRef = replicate 2 0, GPSDestBearing = \<lparr>numerator = 0, denominator =
     1\<rparr>, GPSDestDistanceRef = replicate 2 0, GPSDestDistance = \<lparr>numerator = 0,
     denominator = 1\<rparr>, GPSProcessingMethod = \<lparr>custom_type = 0, custom_ptr =
     replicate 256 0, custom_count = 0, custom_size = 256\<rparr>, GPSAreaInformation = \<lparr>custom_type = 0,
     custom_ptr = replicate 256 0, custom_count = 0, custom_size = 256\<rparr>, GPSDateStamp = replicate 11 0,
     GPSDifferential = 0\<rparr>"

definition exif_example :: jinf_exif_info where
  "exif_example = \<lparr>
     exif_primary = ifd1_primary\<lparr>pri_basic := (pri_basic ifd1_primary)\<lparr>ImageWidth := 2592,
       ImageLength := 70000\<rparr>\<rparr>,
     spec_ptr = Some \<lparr>
       spec_basic = \<lparr>ColorSpace = 1, ComponentsConfiguration = [1, 2, 3, 0], PixelXDimension = 2592,
         PixelYDimension = 1944\<rparr>,
       version_ptr = None, img_config_ptr = None, user_ptr = None, related_file_ptr = None,
       date_time_ptr = None, pic_taking_cond_ptr = None, other_ptr = None\<rparr>,
     gps_ptr = Some gps_example,
     inter_ptr = Some \<lparr>inter_valid = \<lparr>valid_InteroperabilityIndex = True\<rparr>,
       InteroperabilityIndex = \<lparr>custom_type = 0, custom_ptr = [0x52, 0x39, 0x38] @ replicate 253 0,
         custom_count = 4, custom_size = 256\<rparr>\<rparr>\<rparr>"

lemma example_shape: "info_shape exif_example"
proof -
  have "gps_shape gps_example"
    by (simp add: gps_shape_def gps_example_def gps_example_valid_def)
  then show ?thesis
    by (simp add: info_shape_def exif_example_def primary_shape_def ifd1_primary_def spec_shape_def
        interop_shape_def custom_ok_def)
qed

lemma example_room: "app1_end exif_example th \<le> 30651 + length (thumb_bytes th)"
  by (rule app1_room [OF example_shape])

subsection \<open>What the caller gets\<close>

text \<open>
  C3: the EXIF segment is read back as the information.  For well-formed information and a buffer with
  room for it, the function succeeds; the size it returns is that of the segment, two more than the
  length in its head; and a reader of the file format finds in these bytes, following the pointers
  from table to table, every tag of the image, EXIF, interoperability, GPS and thumbnail tables with
  type, count and value, and the thumbnail itself.
\<close>

theorem app1_roundtrip:
  assumes "info_shape i" "length target + 4 < 2 ^ 32" "app1_end i th \<le> length target" "app1_end i th \<le> 65537"
  shows "\<exists>n s. Jpeg_WriteAPP1 (Some target) (Some i) th = JOk n s \<and> unat n = app1_end i th
    \<and> length (write_buf s) = length target
    \<and> load 0 4 (write_buf s) = Some ([0xFF, 0xE1] @ be16 (of_nat (unat n - 2)))
    \<and> read_exif (take (unat n) (write_buf s)) = Some (contents i th)"
  using assms by (rule app1_written)

theorem app1_roundtrip_witness:
  "\<exists>n s. Jpeg_WriteAPP1 (Some (replicate 40000 0)) (Some exif_example) (Some [0xFF, 0xD8, 0xFF, 0xD9]) = JOk n s
    \<and> unat n = app1_end exif_example (Some [0xFF, 0xD8, 0xFF, 0xD9]) \<and> length (write_buf s) = 40000
    \<and> load 0 4 (write_buf s) = Some ([0xFF, 0xE1] @ be16 (of_nat (unat n - 2)))
    \<and> read_exif (take (unat n) (write_buf s)) = Some (contents exif_example (Some [0xFF, 0xD8, 0xFF, 0xD9]))"
  using app1_roundtrip [OF example_shape, of "replicate 40000 0" "Some [0xFF, 0xD8, 0xFF, 0xD9]"]
    example_room [of "Some [0xFF, 0xD8, 0xFF, 0xD9]"]
  by (simp add: thumb_bytes_def)

text \<open>
  C28: 64 KB are always enough.  Whatever well-formed information is given and whatever thumbnail of at
  most 34886 bytes, a buffer of 30651 bytes more than the thumbnail takes the whole segment, and its
  length fits into the 16 bits of the head.
\<close>

theorem app1_fits:
  assumes "info_shape i" "length (thumb_bytes th) \<le> 34886" "30651 + length (thumb_bytes th) \<le> length target"
    "length target + 4 < 2 ^ 32"
  shows "\<exists>n s. Jpeg_WriteAPP1 (Some target) (Some i) th = JOk n s
    \<and> unat n \<le> 30651 + length (thumb_bytes th)
    \<and> read_exif (take (unat n) (write_buf s)) = Some (contents i th)"
proof -
  have "app1_end i th \<le> length target" "app1_end i th \<le> 65537" "app1_end i th \<le> 30651 + length (thumb_bytes th)"
    using app1_room [OF assms(1), of th] assms(2,3) by linarith+
  with app1_written [OF assms(1,4)] show ?thesis by metis
qed

theorem app1_fits_witness:
  "\<exists>n s. Jpeg_WriteAPP1 (Some (replicate 65537 0)) (Some exif_example) (Some (replicate 34886 1)) = JOk n s
    \<and> unat n \<le> 65537
    \<and> read_exif (take (unat n) (write_buf s)) = Some (contents exif_example (Some (replicate 34886 1)))"
  using app1_fits [OF example_shape, of "Some (replicate 34886 1)" "replicate 65537 0"]
  by (simp add: thumb_bytes_def)

text \<open>
  A segment that does not fit into 64 KB gets a wrong size.  The function still succeeds and the
  whole segment is in the buffer, but the size it returns has wrapped in 16 bits, so that the caller
  puts what follows into the middle of it.
\<close>

theorem app1_size_wraps:
  assumes "info_shape i" "length target + 4 < 2 ^ 32" "app1_end i th \<le> length target" "65537 < app1_end i th"
  shows "\<exists>n s. Jpeg_WriteAPP1 (Some target) (Some i) th = JOk n s
    \<and> unat n = (app1_end i th - 2) mod 65536 + 2 \<and> unat n < app1_end i th
    \<and> read_exif (take (app1_end i th) (write_buf s)) = Some (contents i th)"
proof -
  let ?e = "app1_end i th"
  obtain B q where run: "Jpeg_WriteAPP1 (Some target) (Some i) th
      = JOk (of_nat ((?e - 2) mod 65536 + 2)) (mem B q)" "length B = length target" "segment_in i th B"
    using WriteAPP1_run [OF assms(1-3)] by blast
  have "(?e - 2) mod 65536 < 65536" "(65536 :: nat) + 2 < 2 ^ 32" by simp_all
  then have size: "(?e - 2) mod 65536 + 2 < ?e" "(?e - 2) mod 65536 + 2 < 2 ^ 32" using assms(4) by linarith+
  have "?e \<le> length B" "length B < 2 ^ 32" using run(2) assms(2,3) by simp_all
  from segment_read_back(1) [OF assms(1) run(3) this] run(1) show ?thesis
    using unat_of_nat_u32 [OF size(2)] size(1)
    by (intro exI [of _ "of_nat ((?e - 2) mod 65536 + 2)"] exI [of _ "mem B q"]) (simp del: of_nat_add)
qed

theorem app1_size_wraps_witness:
  "\<exists>n s. Jpeg_WriteAPP1 (Some (replicate 100000 0)) (Some exif_example) (Some (replicate 65536 1)) = JOk n s
    \<and> unat n = (app1_end exif_example (Some (replicate 65536 1)) - 2) mod 65536 + 2
    \<and> unat n < app1_end exif_example (Some (replicate 65536 1))
    \<and> read_exif (take (app1_end exif_example (Some (replicate 65536 1))) (write_buf s))
        = Some (contents exif_example (Some (replicate 65536 1)))"
proof -
  let ?th = "Some (replicate 65536 1) :: bytes option"
  have "app1_end exif_example ?th \<le> 30651 + 65536" using example_room [of ?th] by (simp add: thumb_bytes_def)
  moreover have "65537 < app1_end exif_example ?th"
    using app1_end_ge(1) [of exif_example ?th] fact_ends(1) [of exif_example] by (simp add: thumb_bytes_def)
  ultimately show ?thesis
    using app1_size_wraps [OF example_shape, of "replicate 100000 0" ?th] by simp
qed

text \<open>
  The position of the camera survives.  When the four position fields are marked as present, the
  reader finds both references and the degrees, minutes and seconds as the rationals that were given.
\<close>

theorem gps_position_read_back:
  assumes "info_shape i" "length target + 4 < 2 ^ 32" "app1_end i th \<le> length target" "app1_end i th \<le> 65537"
    and "gps_ptr i = Some g" "valid_GPSLatitudeRef (gps_valid g)" "valid_GPSLatitude (gps_valid g)"
    "valid_GPSLongitudeRef (gps_valid g)" "valid_GPSLongitude (gps_valid g)"
  shows "\<exists>n s c. Jpeg_WriteAPP1 (Some target) (Some i) th = JOk n s
    \<and> read_exif (take (unat n) (write_buf s)) = Some c
    \<and> read_position c = Some (GPSLatitudeRef g, GPSLatitude g, GPSLongitudeRef g, GPSLongitude g)"
  using app1_written [OF assms(1-4)] read_position_contents [OF assms(1,5-9)] by metis

theorem gps_position_read_back_witness:
  "\<exists>n s c. Jpeg_WriteAPP1 (Some (replicate 40000 0)) (Some exif_example) None = JOk n s
    \<and> read_exif (take (unat n) (write_buf s)) = Some c
    \<and> read_position c = Some ([0x4E, 0],
        [\<lparr>numerator = 31, denominator = 1\<rparr>, \<lparr>numerator = 13, denominator = 1\<rparr>, \<lparr>numerator = 4821, denominator = 100\<rparr>],
        [0x45, 0],
        [\<lparr>numerator = 121, denominator = 1\<rparr>, \<lparr>numerator = 28, denominator = 1\<rparr>, \<lparr>numerator = 900, denominator = 100\<rparr>])"
proof -
  have "gps_ptr exif_example = Some gps_example" by (simp add: exif_example_def)
  moreover have "app1_end exif_example None \<le> 30651" using example_room [of None] by (simp add: thumb_bytes_def)
  ultimately show ?thesis
    using gps_position_read_back [OF example_shape, of "replicate 40000 0" None gps_example]
    by (simp add: gps_example_def gps_example_valid_def)
qed

text \<open>
  The size of the image is read back modulo 65536.  The two fields are long words, but the code
  writes them with the writer of shorts.
\<close>

theorem image_size_truncated:
  assumes "info_shape i" "length target + 4 < 2 ^ 32" "app1_end i th \<le> length target" "app1_end i th \<le> 65537"
  shows "\<exists>n s c. Jpeg_WriteAPP1 (Some target) (Some i) th = JOk n s
    \<and> read_exif (take (unat n) (write_buf s)) = Some c
    \<and> read_size c = Some (unat (ImageWidth (pri_basic (exif_primary i))) mod 65536,
        unat (ImageLength (pri_basic (exif_primary i))) mod 65536)"
  using app1_written [OF assms] read_size_contents by metis

theorem image_size_truncated_witness:
  "\<exists>n s c. Jpeg_WriteAPP1 (Some (replicate 40000 0)) (Some exif_example) None = JOk n s
    \<and> read_exif (take (unat n) (write_buf s)) = Some c \<and> read_size c = Some (2592, 4464)"
  using image_size_truncated [OF example_shape, of "replicate 40000 0" None] example_room [of None]
  by (simp add: thumb_bytes_def exif_example_def ifd1_primary_def)

text \<open>
  The destination longitude depends on the wrong flag.  It is in the file exactly when the
  destination latitude is marked as present, whether or not it is itself.
\<close>

theorem dest_longitude_flag:
  assumes "info_shape i" "length target + 4 < 2 ^ 32" "app1_end i th \<le> length target" "app1_end i th \<le> 65537"
    and "gps_ptr i = Some g" "valid_GPSDestLongitude (gps_valid g) \<noteq> valid_GPSDestLatitude (gps_valid g)"
  shows "\<exists>n s c ts. Jpeg_WriteAPP1 (Some target) (Some i) th = JOk n s
    \<and> read_exif (take (unat n) (write_buf s)) = Some c \<and> gps_tags c = Some ts
    \<and> (find_tag ts IFD_GPSDESTLONGITUDE = None \<longleftrightarrow> valid_GPSDestLongitude (gps_valid g))"
proof -
  have "gps_tags (contents i th) = Some (views (gps_fields g))" using assms(5) by (simp add: contents_def)
  moreover have "find_tag (views (gps_fields g)) IFD_GPSDESTLONGITUDE = None \<longleftrightarrow> valid_GPSDestLongitude (gps_valid g)"
    using gps_dest_longitude_tag [of g] assms(6) by blast
  ultimately show ?thesis using app1_written [OF assms(1-4)] by metis
qed

theorem dest_longitude_flag_witness:
  "\<exists>n s c ts. Jpeg_WriteAPP1 (Some (replicate 40000 0)) (Some exif_example) None = JOk n s
    \<and> read_exif (take (unat n) (write_buf s)) = Some c \<and> gps_tags c = Some ts
    \<and> find_tag ts IFD_GPSDESTLONGITUDE = None \<and> valid_GPSDestLongitude (gps_valid gps_example)"
proof -
  have "gps_ptr exif_example = Some gps_example" by (simp add: exif_example_def)
  moreover have "app1_end exif_example None \<le> 30651" using example_room [of None] by (simp add: thumb_bytes_def)
  moreover have "valid_GPSDestLongitude (gps_valid gps_example)" "\<not> valid_GPSDestLatitude (gps_valid gps_example)"
    by (simp_all add: gps_example_def gps_example_valid_def)
  ultimately show ?thesis
    using dest_longitude_flag [OF example_shape, of "replicate 40000 0" None gps_example] by auto
qed

text \<open>
  C32: nothing is read outside the objects of the information.  For well-formed information, any
  thumbnail and any buffer, however small, the function returns: it succeeds or reports failure.
\<close>

theorem app1_never_faults:
  assumes "info_shape i"
  shows "Jpeg_WriteAPP1 target (Some i) th \<noteq> JFault"
  using faultless_write_app1 [OF assms, of th]
  by (cases target) (simp_all add: Jpeg_WriteAPP1_def faultless_def)

theorem app1_never_faults_witness:
  "Jpeg_WriteAPP1 (Some (replicate 100 0)) (Some exif_example) (Some [1, 2, 3]) \<noteq> JFault"
  by (rule app1_never_faults [OF example_shape])

text \<open>
  A value that does not fit is reported as written.  When the bytes of a field run over the end of
  the buffer, the writer returns \<^verbatim>\<open>JPEG_FAILED\<close> from a function of truth values, where it counts as
  true: the entry is counted, its head stands in the table, but neither offset has moved, so that the
  next entry is written over it.
\<close>

theorem truncated_value_counted:
  assumes "length B + 4 < 2 ^ 32" "io + 12 \<le> vo" "vo \<le> length B" "e_written e" "e_writer e = ByteIFD"
    "e_count e = Some n" "4 < n" "unat n \<le> length (e_ptr e)" "length B < vo + unat n"
  shows "\<exists>s. write_entry ifh e ((of_nat io, of_nat vo), k) (mem B p) = JOk ((of_nat io, of_nat vo), k + 1) s
    \<and> length (write_buf s) = length B
    \<and> load io 4 (write_buf s) = Some (be16 (e_tag e) @ be16 (e_type e))"
proof -
  let ?i = "entry_info ifh e n (of_nat vo)"
  obtain B' where B': "Jpeg_WriteByteIFD ?i (of_nat io, of_nat vo) (mem B p)
      = JOk (of_nat io, of_nat vo) (mem B' (length B'))" "length B' = length B" "load io 12 B' = Some (info_head ?i)"
    using write_bytes_entry_overrun [OF assms(1-3), of ?i p] assms(7-9) by (auto simp: entry_info_def)
  have "chunk io 4 B' = take 4 (chunk io 12 B')" by (simp add: chunk_def)
  then have "load io 4 B' = Some (be16 (e_tag e) @ be16 (e_type e))"
    using B'(3) by (simp add: load_def info_head_def entry_info_def split: if_splits)
  then show ?thesis
    using assms(4-6) B'(1,2) by (intro exI [of _ "mem B' (length B')"]) (simp add: write_entry_def write_with_def jbind_def jret_def)
qed

theorem truncated_value_counted_witness:
  "\<exists>s. write_entry 10 (field True IFD_COPYRIGHT IFD_ASCII 8 [65, 66, 67, 68, 69, 70, 71, 0] ByteIFD) ((20, 50), 3)
      (mem (replicate 54 0) 0) = JOk ((20, 50), 4) s
    \<and> length (write_buf s) = 54 \<and> load 20 4 (write_buf s) = Some (be16 IFD_COPYRIGHT @ be16 IFD_ASCII)"
  using truncated_value_counted [of "replicate 54 0" 20 50
      "field True IFD_COPYRIGHT IFD_ASCII 8 [65, 66, 67, 68, 69, 70, 71, 0] ByteIFD" 8 10 3 0]
  by (simp add: field_def)

end
