(* ===== verification/ExifHeader.thy ===== *)
theory ExifHeader
  imports ExifFile JpegHeader
begin

text \<open>
  The head of a photo: \<^verbatim>\<open>PutAPP1\<close> of \<^verbatim>\<open>jpegenc_header.c\<close> has the EXIF segment put together in the
  memory behind the thumbnail and gives it to the bitstream module, and \<^verbatim>\<open>JPEG_HWWriteHead\<close> of
  \<^verbatim>\<open>jpegenc_interface.c\<close> writes it in front of the tables.
\<close>

subsection \<open>The writer\<close>

text \<open>The fields that the functions use.  A pointer is null or the memory behind it, to the end of its
  object; the temporary buffer begins behind the thumbnail.\<close>

record app1_t =
  thumbnail_len :: u32
  thumbnail_virt_addr :: "bytes option"
  stream_buf_len :: u32
  dc_exif_info_ptr :: "jinf_exif_info option"

definition MAX_APP1_SIZE :: u32 where
  "MAX_APP1_SIZE = 64 * 1024"

text \<open>The buffer must have the size that the code has checked; what is in it afterwards is not kept.
  Every failure is one: the caller tests for success only.\<close>

definition PutAPP1 :: "app1_t \<Rightarrow> jwriter" where
  "PutAPP1 a = jthen poll_ready
     (let app1_buf_size = MAX_APP1_SIZE + thumbnail_len a in
      if app1_buf_size + thumbnail_len a > stream_buf_len a then jfail
      else (case thumbnail_virt_addr a of
              None \<Rightarrow> if thumbnail_len a = 0 then jfail else (\<lambda>e. JFault)
            | Some m \<Rightarrow>
                jthen (jcheck (\<lambda>_. unat (thumbnail_len a) + unat app1_buf_size \<le> length m))
                  (case Jpeg_WriteAPP1 (Some (chunk (unat (thumbnail_len a)) (unat app1_buf_size) m))
                          (dc_exif_info_ptr a) (Some (take (unat (thumbnail_len a)) m)) of
                     JOk app1_size w \<Rightarrow> jfor [0..<unat app1_size] (put_entry (write_buf w))
                   | JFail w \<Rightarrow> jfail
                   | JFault \<Rightarrow> (\<lambda>e. JFault))))"

definition JPEG_HWWriteHead :: "app1_t \<Rightarrow> jwriter" where
  "JPEG_HWWriteHead a = jseq
     [poll_ready,
      PutMarker M_SOI,
      if dc_exif_info_ptr a \<noteq> None then PutAPP1 a else PutAPP0,
      PutQuantTbl,
      PutSOF0,
      PutHuffTbl,
      WriteDRI,
      PutSOS]"

subsection \<open>What it writes\<close>

text \<open>The room that the code asks for is enough.\<close>

definition app1_ready :: "app1_t \<Rightarrow> jinf_exif_info \<Rightarrow> bytes \<Rightarrow> bool" where
  "app1_ready a i m \<longleftrightarrow> dc_exif_info_ptr a = Some i \<and> info_shape i \<and> thumbnail_virt_addr a = Some m
     \<and> unat (thumbnail_len a) \<le> 34886 \<and> 65536 + 2 * unat (thumbnail_len a) \<le> unat (stream_buf_len a)
     \<and> unat (stream_buf_len a) \<le> length m"

text \<open>A segment whose head gives its length is skipped by the parser.\<close>

lemma skipped_segment:
  assumes "seg = [0xFF, 0xE1] @ be16 (of_nat (length seg - 2)) @ payload" "length seg \<le> 65537"
  shows "skipped seg"
  unfolding skipped_def
proof (intro allI impI)
  fix v u :: jdec and ys :: bytes and c :: u8
  assume rest: "consumes v ProcessTables ys c u"
  let ?n = "of_nat (length seg - 2) :: u16"
  have len: "length seg = length payload + 4" by (subst assms(1)) simp
  then have "length seg - 2 = length payload + 2" by simp
  then have n: "unat ?n = length payload + 2"
    using assms(2) len by (simp add: unat_of_nat del: of_nat_diff of_nat_add of_nat_Suc)
  then have "\<not> ?n < 2" "unat (?n - 2) = length payload"
    by (simp_all add: word_less_nat_alt unat_sub word_le_nat_alt)
  then have "consumes v SkipVariable (be16 ?n @ payload) () v"
    unfolding SkipVariable_def
    by (intro jbind_get_short_word jthen_jguard consumes_skip') simp_all
  then have "consumes v (process_marker 0xE1) (be16 ?n @ payload) () v"
    by (simp add: process_marker_def marker_codes unexpected_markers_def)
  from ProcessTables_segment [OF _ _ _ _ _ this rest]
  have "consumes v ProcessTables ([0xFF, 0xE1] @ (be16 ?n @ payload) @ ys) c u"
    by (simp add: marker_codes)
  then show "consumes v ProcessTables (seg @ ys) c u" by (subst assms(1)) simp
qed

lemma take_as_map: "n \<le> length xs \<Longrightarrow> map ((!) xs) [0..<n] = take n xs"
  by (intro nth_equalityI) simp_all

lemma PutAPP1_writes:
  assumes "app1_ready a i m"
  shows "\<exists>seg. writes c (PutAPP1 a) seg \<and> skipped seg \<and> length seg \<le> 65537
    \<and> seg = [0xFF, 0xE1] @ be16 (of_nat (length seg - 2)) @ drop 4 seg
    \<and> read_exif seg = Some (contents i (Some (take (unat (thumbnail_len a)) m)))"
proof -
  let ?len = "unat (thumbnail_len a)" and ?th = "Some (take (unat (thumbnail_len a)) m)"
  let ?size = "MAX_APP1_SIZE + thumbnail_len a"
  let ?target = "chunk ?len (unat ?size) m"
  have a: "dc_exif_info_ptr a = Some i" "info_shape i" "thumbnail_virt_addr a = Some m" "?len \<le> 34886"
    "65536 + 2 * ?len \<le> unat (stream_buf_len a)" "unat (stream_buf_len a) \<le> length m"
    using assms by (simp_all add: app1_ready_def)
  have size: "unat ?size = 65536 + ?len"
    using a(4) by (subst unat_add_lem [THEN iffD1]) (simp_all add: MAX_APP1_SIZE_def)
  have total: "unat (?size + thumbnail_len a) = 65536 + 2 * ?len"
    using a(4) size by (subst unat_add_lem [THEN iffD1]) simp_all
  have fits: "\<not> ?size + thumbnail_len a > stream_buf_len a"
    using a(5) total by (simp add: word_less_nat_alt not_less)
  have room: "?len + unat ?size \<le> length m" using a(5,6) size by simp
  then have target: "length ?target = 65536 + ?len" by (simp add: size chunk_def)
  have th: "length (thumb_bytes ?th) = ?len" using room by (simp add: thumb_bytes_def)
  have e: "app1_end i ?th \<le> 30651 + ?len" using app1_room [OF a(2), of ?th] th by simp
  have "length ?target + 4 < 2 ^ 32" "app1_end i ?th \<le> length ?target" "app1_end i ?th \<le> 65537"
    using target e a(4) by simp_all
  from app1_written [OF a(2) this] obtain n w where w: "Jpeg_WriteAPP1 (Some ?target) (Some i) ?th = JOk n w"
    "unat n = app1_end i ?th" "length (write_buf w) = length ?target"
    "load 0 4 (write_buf w) = Some ([0xFF, 0xE1] @ be16 (of_nat (unat n - 2)))"
    "read_exif (take (unat n) (write_buf w)) = Some (contents i ?th)" by blast
  let ?seg = "take (unat n) (write_buf w)"
  have n: "unat n \<le> length (write_buf w)" "312 \<le> unat n" "unat n \<le> 65537"
    using w(2,3) e target a(4) app1_end_ge(2) [of i ?th] by simp_all
  then have len: "length ?seg = unat n" by simp
  have "take 4 ?seg = [0xFF, 0xE1] @ be16 (of_nat (unat n - 2))"
    using w(4) n(2) by (simp add: load_def chunk_def min_def split: if_splits)
  then have seg: "?seg = [0xFF, 0xE1] @ be16 (of_nat (length ?seg - 2)) @ drop 4 ?seg"
    unfolding len by (metis append_assoc append_take_drop_id)
  then have skip: "skipped ?seg" using n(3) len by (intro skipped_segment) simp_all
  have entries: "writes c (jfor [0..<unat n] (put_entry (write_buf w))) ?seg"
    using writes_entries [of "[0..<unat n]" "write_buf w" c] n(1) by (simp add: take_as_map)
  have check: "writes c (jcheck (\<lambda>_. ?len + unat ?size \<le> length m)) []"
    by (rule writes_jcheck) (rule room)
  have "writes c (PutAPP1 a) ([] @ [] @ ?seg)"
    unfolding PutAPP1_def Let_def if_not_P [OF fits] a(1,3) option.case w(1) jres.case
    by (intro writes_jthen writes_poll check entries)
  then have "writes c (PutAPP1 a) ?seg" by simp
  with skip seg w(5) len n(3) show ?thesis by metis
qed

definition photo_bytes :: "bytes \<Rightarrow> jpeg_codec \<Rightarrow> bytes" where
  "photo_bytes seg c = [0xFF, M_SOI] @ seg @ image_bytes c"

lemma writes_photo:
  assumes "tables_ok c" "dc_exif_info_ptr a \<noteq> None" "writes c (PutAPP1 a) seg"
  shows "writes c (JPEG_HWWriteHead a) (photo_bytes seg c)"
proof -
  have "writes c PutQuantTbl (dqt_segment c 0 @ dqt_segment c 1)"
    using assms(1) unfolding tables_ok_def by (blast intro: writes_DQT)
  note segments = this writes_HuffTbl [OF assms(1)] assms(3)
  show ?thesis
    unfolding JPEG_HWWriteHead_def if_P [OF assms(2)]
    by (rule writes_eq, (rule writes_rules segments)+) (simp add: photo_bytes_def image_bytes_def)
qed

lemma WriteHead_without_exif:
  "dc_exif_info_ptr a = None \<Longrightarrow> JPEG_HWWriteHead a = JPEG_HWWriteHeadForThumbnail"
  by (simp add: JPEG_HWWriteHead_def JPEG_HWWriteHeadForThumbnail_def)

subsection \<open>The round trip\<close>

text \<open>A reader that takes the first segment of a file by its length.\<close>

definition first_segment :: "bytes \<Rightarrow> bytes" where
  "first_segment file = take (2 + unat (be16_at (drop 4 file))) (drop 2 file)"

lemma first_segment_photo:
  assumes "seg = [0xFF, 0xE1] @ be16 (of_nat (length seg - 2)) @ drop 4 seg" "length seg \<le> 65537"
  shows "first_segment (photo_bytes seg c) = seg"
proof -
  have len: "4 \<le> length seg" using arg_cong [OF assms(1), of length] by simp
  have "drop 4 (photo_bytes seg c) = be16 (of_nat (length seg - 2)) @ drop 4 seg @ image_bytes c"
    unfolding photo_bytes_def by (subst assms(1)) simp
  moreover have "unat (of_nat (length seg - 2) :: u16) = length seg - 2"
    using assms(2) by (simp add: unat_of_nat del: of_nat_diff)
  ultimately show ?thesis using len by (simp add: first_segment_def photo_bytes_def del: of_nat_diff)
qed

text \<open>
  C2: the head of a photo carries the EXIF information and the tables.  With well-formed information,
  a thumbnail of at most 34886 bytes and the memory that the code asks for, \<^verbatim>\<open>JPEG_HWWriteHead\<close> writes
  a head when no status poll times out.  Its first segment is read back as the information and the
  thumbnail; and the decoder, which skips that segment, reads the size, the sample format and the
  tables of the codec record and stops exactly behind the head.
\<close>

theorem photo_head_roundtrip:
  assumes "header_ok (codec e) fmt" "True \<notin> set (polls e)" "out e = []" "app1_ready a i m"
  shows "\<exists>e'. JPEG_HWWriteHead a e = JOk () e'
    \<and> read_exif (first_segment (out e')) = Some (contents i (Some (take (unat (thumbnail_len a)) m)))
    \<and> (\<forall>d rest. parse_ready d \<and> stream_ok d \<and> jstream d = out e' @ rest \<longrightarrow>
        (\<exists>d'. ParseHead d = JOk () d' \<and> stream_ok d' \<and> jstream d' = rest \<and> describes (codec e) fmt d d'))"
proof -
  obtain seg where seg: "writes (codec e) (PutAPP1 a) seg" "skipped seg" "length seg \<le> 65537"
    "seg = [0xFF, 0xE1] @ be16 (of_nat (length seg - 2)) @ drop 4 seg"
    "read_exif seg = Some (contents i (Some (take (unat (thumbnail_len a)) m)))"
    using PutAPP1_writes [OF assms(4)] by blast
  have "tables_ok (codec e)" "dc_exif_info_ptr a \<noteq> None"
    using assms(1,4) by (simp_all add: header_ok_def app1_ready_def)
  from writes_photo [OF this seg(1)] have w: "writes (codec e) (JPEG_HWWriteHead a) (photo_bytes seg (codec e))" .
  from writes_ready [OF w refl assms(2)] obtain e' where e': "JPEG_HWWriteHead a e = JOk () e'" by blast
  have out: "out e' = photo_bytes seg (codec e)" using writes_JOk [OF w refl e'] assms(3) by simp
  have "read_exif (first_segment (out e')) = Some (contents i (Some (take (unat (thumbnail_len a)) m)))"
    unfolding out first_segment_photo [OF seg(4,3)] by (rule seg(5))
  moreover have "\<exists>d'. ParseHead d = JOk () d' \<and> stream_ok d' \<and> jstream d' = rest \<and> describes (codec e) fmt d d'"
    if "parse_ready d" "stream_ok d" "jstream d = out e' @ rest" for d rest
    using bytes_parse [OF assms(1) seg(2) that(1,2)] that(3) by (simp add: out photo_bytes_def)
  ultimately show ?thesis using e' by blast
qed

definition sample_app1 :: app1_t where
  "sample_app1 = \<lparr>thumbnail_len = 4, thumbnail_virt_addr = Some ([0xFF, 0xD8, 0xFF, 0xD9] @ replicate 79996 0),
     stream_buf_len = 80000, dc_exif_info_ptr = Some exif_example\<rparr>"

lemma sample_app1_ready:
  "app1_ready sample_app1 exif_example ([0xFF, 0xD8, 0xFF, 0xD9] @ replicate 79996 0)"
  by (simp add: app1_ready_def sample_app1_def example_shape)

theorem photo_head_roundtrip_witness:
  "\<exists>e' c d'. JPEG_HWWriteHead sample_app1 sample_enc = JOk () e'
    \<and> read_exif (first_segment (out e')) = Some c \<and> thumb_image c \<noteq> None
    \<and> snd (the (thumb_image c)) = [0xFF, 0xD8, 0xFF, 0xD9]
    \<and> ParseHead (sample_dec (out e' @ [1, 2, 3])) = JOk () d' \<and> jstream d' = [1, 2, 3]
    \<and> input_width d' = 640 \<and> mcu_info d' = JPEG_FW_YUV420"
proof -
  have "header_ok (codec sample_enc) JPEG_FW_YUV420" "True \<notin> set (polls sample_enc)" "out sample_enc = []"
    by (simp_all add: sample_enc_def sample_header_ok)
  from photo_head_roundtrip [OF this sample_app1_ready] obtain e' where
    e': "JPEG_HWWriteHead sample_app1 sample_enc = JOk () e'"
      "read_exif (first_segment (out e')) = Some (contents exif_example (Some [0xFF, 0xD8, 0xFF, 0xD9]))"
    and d: "\<forall>d rest. parse_ready d \<and> stream_ok d \<and> jstream d = out e' @ rest \<longrightarrow>
        (\<exists>d'. ParseHead d = JOk () d' \<and> stream_ok d' \<and> jstream d' = rest
          \<and> describes (codec sample_enc) JPEG_FW_YUV420 d d')"
    by (auto simp: sample_app1_def)
  from d sample_dec_stream [of "out e' @ [1, 2, 3]"]
  obtain d' where "ParseHead (sample_dec (out e' @ [1, 2, 3])) = JOk () d'" "jstream d' = [1, 2, 3]"
    "describes sample_codec JPEG_FW_YUV420 (sample_dec (out e' @ [1, 2, 3])) d'"
    by (auto simp: sample_enc_def)
  then have "ParseHead (sample_dec (out e' @ [1, 2, 3])) = JOk () d'" "jstream d' = [1, 2, 3]"
    "input_width d' = 640" "mcu_info d' = JPEG_FW_YUV420"
    by (auto simp: describes_def sample_codec_def)
  moreover have "thumb_image (contents exif_example (Some [0xFF, 0xD8, 0xFF, 0xD9]))
      = Some (views (primary_fields_before ifd1_primary @ primary_size_fields ifd1_primary), [0xFF, 0xD8, 0xFF, 0xD9])"
    by (simp add: contents_def has_thumbnail_def thumb_bytes_def)
  ultimately show ?thesis using e' by (auto simp del: views_simps)
qed

end
