(* ===== verification/ExifMerge.thy ===== *)
theory ExifMerge
  imports ExifHeader
begin

text \<open>
  Adding EXIF data to a finished picture: \<^verbatim>\<open>IMGJPEG_WriteExif\<close> with \<^verbatim>\<open>JPEG_AddExifToMemory\<close> and
  \<^verbatim>\<open>JPEG_AddExifToFile\<close>.  They are compiled in the copies of \<^verbatim>\<open>exif_writer.c\<close> for the later chips;
  the writer below them is the same there as the one of the 8810.
\<close>

subsection \<open>The functions\<close>

text \<open>The picture lies in an object that begins at \<^term>\<open>image_base\<close>, addresses are words; the other
  buffers are objects of their own, or null.  \<^term>\<open>to_file\<close> says whether there is a callback.\<close>

record wexif_in =
  exif_info_ptr :: "jinf_exif_info option"
  src_jpeg_buf_ptr :: u32
  src_jpeg_size :: u32
  thumbnail_buf_ptr :: "bytes option"
  temp_buf_ptr :: "bytes option"
  to_file :: bool
  target_buf_ptr :: u32

text \<open>The callback is a script of its results, each with the size it says it has written; a script
  that has run out fails.  The calls are recorded.\<close>

record wexif_state =
  image_base :: u32
  image_mem :: bytes
  output_buf_ptr :: u32
  output_size :: u32
  file_script :: "(bool \<times> u32) list"
  file_calls :: "(u32 \<times> bytes) list"

type_synonym 'a xm = "('a, wexif_state) jm"

datatype jinf_ret = JINF_SUCCESS | JINF_FAILED | JINF_MEMORY_NOT_ENOUGH | JPEGE_INVALID_ARGUMENT

definition app1_in_temp :: "wexif_in \<Rightarrow> (u32 \<times> bytes) xm" where
  "app1_in_temp x =
     (case Jpeg_WriteAPP1 (temp_buf_ptr x) (exif_info_ptr x) (thumbnail_buf_ptr x) of
        JOk app1_size w \<Rightarrow> jret (app1_size, write_buf w)
      | JFail w \<Rightarrow> jfail
      | JFault \<Rightarrow> (\<lambda>s. JFault))"

definition position :: "wexif_state \<Rightarrow> u32 \<Rightarrow> nat" where
  "position s addr = unat (addr - image_base s)"

definition JPEG_AddExifToMemory :: "wexif_in \<Rightarrow> unit xm" where
  "JPEG_AddExifToMemory x = jbind (app1_in_temp x) (\<lambda>(app1_size, app1).
     if src_jpeg_buf_ptr x - target_buf_ptr x < app1_size then jfail
     else
       let target = src_jpeg_buf_ptr x - app1_size;
           data = [0xFF, M_SOI] @ take (unat app1_size) app1 in
       jthen (jmod (\<lambda>s. s\<lparr>output_buf_ptr := target, output_size := app1_size + src_jpeg_size x\<rparr>))
       (jthen (jcheck (\<lambda>s. image_base s \<le> target \<and> unat app1_size \<le> length app1
                   \<and> position s target + length data \<le> length (image_mem s)))
         (jmod (\<lambda>s. s\<lparr>image_mem := put (position s target) data (image_mem s)\<rparr>))))"

definition wrtie_file_func :: "u32 \<Rightarrow> bytes \<Rightarrow> u32 xm" where
  "wrtie_file_func offset data s =
     (let s' = s\<lparr>file_script := tl (file_script s), file_calls := file_calls s @ [(offset, data)]\<rparr> in
      case file_script s of
        [] \<Rightarrow> JFail s'
      | (ok, actual) # _ \<Rightarrow>
          if \<not> ok \<or> of_nat (length data) \<noteq> actual then JFail s' else JOk actual s')"

definition JPEG_AddExifToFile :: "wexif_in \<Rightarrow> unit xm" where
  "JPEG_AddExifToFile x = jbind (app1_in_temp x) (\<lambda>(app1_size, app1).
     jbind (wrtie_file_func 0 [0xFF, M_SOI]) (\<lambda>actual.
     jthen (jcheck (\<lambda>s. unat app1_size \<le> length app1))
     (jbind (wrtie_file_func actual (take (unat app1_size) app1)) (\<lambda>actual'.
      let size = unat (src_jpeg_size x - 2) in
      jthen (jcheck (\<lambda>s. position s (src_jpeg_buf_ptr x) + 2 + size \<le> length (image_mem s)))
      (jbind (jget (\<lambda>s. chunk (position s (src_jpeg_buf_ptr x) + 2) size (image_mem s)))
        (\<lambda>data. jbind (wrtie_file_func (actual + actual') data) (\<lambda>_. jret ())))))))"

text \<open>The arguments are refused only when all three pointers are null; each of them alone is seen
  later, or not at all.\<close>

definition status_of :: "unit xm \<Rightarrow> jinf_ret xm" where
  "status_of m s =
     (case m s of JOk _ s' \<Rightarrow> JOk JINF_SUCCESS s' | JFail s' \<Rightarrow> JOk JINF_FAILED s' | JFault \<Rightarrow> JFault)"

definition IMGJPEG_WriteExif :: "wexif_in option \<Rightarrow> jinf_ret xm" where
  "IMGJPEG_WriteExif in_param =
     (case in_param of
        None \<Rightarrow> jret JPEGE_INVALID_ARGUMENT
      | Some x \<Rightarrow>
          if exif_info_ptr x = None \<and> src_jpeg_buf_ptr x = 0 \<and> temp_buf_ptr x = None
          then jret JPEGE_INVALID_ARGUMENT
          else if to_file x then status_of (JPEG_AddExifToFile x)
          else if target_buf_ptr x = 0 then jret JPEGE_INVALID_ARGUMENT
          else if src_jpeg_buf_ptr x \<le> target_buf_ptr x then jret JINF_MEMORY_NOT_ENOUGH
          else status_of (JPEG_AddExifToMemory x))"

subsection \<open>What they leave\<close>

text \<open>Well-formed information, room for the segment in the temporary buffer, and a picture in the
  memory: its two first bytes and its body.\<close>

definition merge_ready :: "wexif_in \<Rightarrow> wexif_state \<Rightarrow> jinf_exif_info \<Rightarrow> bytes \<Rightarrow> bool" where
  "merge_ready x s i body \<longleftrightarrow>
     exif_info_ptr x = Some i \<and> info_shape i
     \<and> (\<exists>temp. temp_buf_ptr x = Some temp \<and> small temp \<and> app1_end i (thumbnail_buf_ptr x) \<le> length temp)
     \<and> app1_end i (thumbnail_buf_ptr x) \<le> 65537
     \<and> image_base s \<le> src_jpeg_buf_ptr x \<and> unat (image_base s) + length (image_mem s) < 2 ^ 32
     \<and> position s (src_jpeg_buf_ptr x) + unat (src_jpeg_size x) \<le> length (image_mem s)
     \<and> chunk (position s (src_jpeg_buf_ptr x)) (unat (src_jpeg_size x)) (image_mem s) = [0xFF, M_SOI] @ body"

text \<open>The memory in front of the picture takes the segment.\<close>

definition room_in_front :: "wexif_in \<Rightarrow> wexif_state \<Rightarrow> jinf_exif_info \<Rightarrow> bool" where
  "room_in_front x s i \<longleftrightarrow> target_buf_ptr x \<noteq> 0 \<and> image_base s \<le> target_buf_ptr x
     \<and> target_buf_ptr x < src_jpeg_buf_ptr x
     \<and> app1_end i (thumbnail_buf_ptr x) \<le> unat (src_jpeg_buf_ptr x - target_buf_ptr x)"

definition output_file :: "wexif_state \<Rightarrow> bytes" where
  "output_file s = chunk (position s (output_buf_ptr s)) (unat (output_size s)) (image_mem s)"

text \<open>The calls of the callback, put together as a file.\<close>

definition written_file :: "wexif_state \<Rightarrow> bytes" where
  "written_file s = fold (\<lambda>(offset, data) file. put (unat offset) data file) (file_calls s) []"

definition exif_segment :: "bytes \<Rightarrow> exif_contents \<Rightarrow> bool" where
  "exif_segment seg c \<longleftrightarrow> skipped seg \<and> read_exif seg = Some c \<and> 312 \<le> length seg \<and> length seg \<le> 65537
     \<and> seg = [0xFF, 0xE1] @ be16 (of_nat (length seg - 2)) @ drop 4 seg"

lemma app1_in_temp_run:
  assumes "merge_ready x s i body"
  shows "\<exists>n app1. (\<forall>s. app1_in_temp x s = JOk (n, app1) s) \<and> unat n = app1_end i (thumbnail_buf_ptr x)
    \<and> unat n \<le> length app1 \<and> exif_segment (take (unat n) app1) (contents i (thumbnail_buf_ptr x))"
proof -
  let ?th = "thumbnail_buf_ptr x"
  obtain temp where temp: "temp_buf_ptr x = Some temp" "small temp" "app1_end i ?th \<le> length temp"
    and i: "exif_info_ptr x = Some i" "info_shape i" "app1_end i ?th \<le> 65537"
    using assms by (auto simp: merge_ready_def)
  obtain n w where w: "Jpeg_WriteAPP1 (Some temp) (Some i) ?th = JOk n w" "unat n = app1_end i ?th"
    "length (write_buf w) = length temp"
    "load 0 4 (write_buf w) = Some ([0xFF, 0xE1] @ be16 (of_nat (unat n - 2)))"
    "read_exif (take (unat n) (write_buf w)) = Some (contents i ?th)"
    using app1_written [OF i(2) temp(2,3) i(3)] by blast
  let ?seg = "take (unat n) (write_buf w)"
  have n: "unat n \<le> length (write_buf w)" "312 \<le> unat n" "unat n \<le> 65537"
    using w(2,3) temp(3) i(3) app1_end_ge(2) [of i ?th] by simp_all
  then have len: "length ?seg = unat n" by simp
  have "take 4 ?seg = [0xFF, 0xE1] @ be16 (of_nat (unat n - 2))"
    using w(4) n(2) by (simp add: load_def chunk_def min_def split: if_splits)
  then have seg: "?seg = [0xFF, 0xE1] @ be16 (of_nat (length ?seg - 2)) @ drop 4 ?seg"
    unfolding len by (metis append_assoc append_take_drop_id)
  then have "skipped ?seg" using n(3) len by (intro skipped_segment) simp_all
  then have "exif_segment ?seg (contents i ?th)" using seg w(5) len n unfolding exif_segment_def by simp
  moreover have "app1_in_temp x s = JOk (n, write_buf w) s" for s
    by (simp add: app1_in_temp_def temp(1) i(1) w(1) jret_def)
  ultimately show ?thesis using w(2) n(1) by blast
qed

lemma chunk_put:
  assumes "q + length data + k \<le> length B"
  shows "chunk q (length data + k) (put q data B) = data @ chunk (q + length data) k B"
  using assms by (simp add: chunk_def put_def min_absorb2)

lemma AddExifToMemory_run:
  assumes "merge_ready x s i body" "room_in_front x s i"
  shows "\<exists>s' seg. JPEG_AddExifToMemory x s = JOk () s' \<and> output_file s' = [0xFF, M_SOI] @ seg @ body
    \<and> exif_segment seg (contents i (thumbnail_buf_ptr x)) \<and> (\<forall>s. \<exists>app1 n. app1_in_temp x s = JOk (n, app1) s
        \<and> unat n \<le> length app1 \<and> take (unat n) app1 = seg)"
proof -
  let ?src = "src_jpeg_buf_ptr x" and ?p = "position s (src_jpeg_buf_ptr x)" and ?k = "unat (src_jpeg_size x)"
  obtain n app1 where run: "\<And>s. app1_in_temp x s = JOk (n, app1) s" "unat n = app1_end i (thumbnail_buf_ptr x)"
    "unat n \<le> length app1" "exif_segment (take (unat n) app1) (contents i (thumbnail_buf_ptr x))"
    using app1_in_temp_run [OF assms(1)] by blast
  note m = assms(1) [unfolded merge_ready_def]
  have body: "chunk ?p ?k (image_mem s) = [0xFF, M_SOI] @ body" and fits: "?p + ?k \<le> length (image_mem s)"
    and base: "image_base s \<le> ?src" and mem: "unat (image_base s) + length (image_mem s) < 2 ^ 32"
    using m by blast+
  have k: "?k = length body + 2" using arg_cong [OF body, of length] fits by (simp add: chunk_def)
  have free: "unat n \<le> unat (?src - target_buf_ptr x)" and tgt: "image_base s \<le> target_buf_ptr x" "target_buf_ptr x < ?src"
    using assms(2) run(2) by (simp_all add: room_in_front_def)
  have u: "unat (?src - target_buf_ptr x) = unat ?src - unat (target_buf_ptr x)"
    using tgt(2) by (simp add: unat_sub)
  have n_src: "n \<le> ?src" using free u by (simp add: word_le_nat_alt)
  have target: "unat (?src - n) = unat ?src - unat n" using n_src by (simp add: unat_sub)
  have base_target: "image_base s \<le> ?src - n"
    using free u tgt target by (simp add: word_le_nat_alt word_less_nat_alt)
  have p: "?p = unat ?src - unat (image_base s)" using base by (simp add: position_def unat_sub)
  have q: "position s (?src - n) = ?p - unat n"
    using base_target target p by (simp add: position_def unat_sub word_le_nat_alt)
  have n_p: "unat n \<le> ?p"
    using base_target target n_src p by (simp add: word_le_nat_alt)
  let ?seg = "take (unat n) app1"
  let ?data = "[0xFF, M_SOI] @ ?seg"
  have seg: "length ?seg = unat n" using run(3) by simp
  have enough: "position s (?src - n) + length ?data \<le> length (image_mem s)" using q n_p seg fits k by simp
  let ?s' = "s\<lparr>output_buf_ptr := ?src - n, output_size := n + src_jpeg_size x,
      image_mem := put (position s (?src - n)) ?data (image_mem s)\<rparr>"
  have not_small: "\<not> ?src - target_buf_ptr x < n" using free by (simp add: word_less_nat_alt)
  have "JPEG_AddExifToMemory x s = JOk () ?s'"
    unfolding JPEG_AddExifToMemory_def
    using run(1,3) not_small base_target enough
    by (simp add: jstmt Let_def position_def)
  moreover have "output_file ?s' = [0xFF, M_SOI] @ ?seg @ body"
  proof -
    have size: "unat (n + src_jpeg_size x) = unat n + ?k"
      using n_p fits mem by (subst unat_add_lem [THEN iffD1]) simp_all
    have "output_file ?s' = chunk (?p - unat n) (length ?data + length body) (put (?p - unat n) ?data (image_mem s))"
      unfolding output_file_def using q size k seg by (simp add: position_def)
    also have "\<dots> = ?data @ chunk (?p - unat n + length ?data) (length body) (image_mem s)"
      using n_p seg fits k by (intro chunk_put) simp
    also have "?p - unat n + length ?data = ?p + 2" using n_p seg by simp
    also have "chunk (?p + 2) (length body) (image_mem s) = drop 2 (chunk ?p ?k (image_mem s))"
      using k by (simp add: chunk_def drop_take add.commute)
    finally show ?thesis unfolding body by simp
  qed
  ultimately show ?thesis using run(1,3,4) by blast
qed

lemma put_end: "n = length f \<Longrightarrow> put n d f = f @ d"
  by (simp add: put_def)

lemma wrtie_file_func_ok:
  "file_script s = (True, k) # rest \<Longrightarrow> of_nat (length data) = k \<Longrightarrow>
     wrtie_file_func offset data s
       = JOk k (s\<lparr>file_script := rest, file_calls := file_calls s @ [(offset, data)]\<rparr>)"
  by (simp add: wrtie_file_func_def Let_def)

lemma AddExifToFile_run:
  assumes "merge_ready x s i body" "file_calls s = []"
    and "file_script s = [(True, 2), (True, of_nat (app1_end i (thumbnail_buf_ptr x))), (True, src_jpeg_size x - 2)]"
  shows "\<exists>s' seg. JPEG_AddExifToFile x s = JOk () s' \<and> written_file s' = [0xFF, M_SOI] @ seg @ body
    \<and> image_mem s' = image_mem s \<and> (\<forall>s. \<exists>app1 n. app1_in_temp x s = JOk (n, app1) s
        \<and> unat n \<le> length app1 \<and> take (unat n) app1 = seg)"
proof -
  let ?p = "position s (src_jpeg_buf_ptr x)" and ?k = "unat (src_jpeg_size x)"
  obtain n app1 where run: "\<And>s. app1_in_temp x s = JOk (n, app1) s" "unat n = app1_end i (thumbnail_buf_ptr x)"
    "unat n \<le> length app1" "exif_segment (take (unat n) app1) (contents i (thumbnail_buf_ptr x))"
    using app1_in_temp_run [OF assms(1)] by blast
  have body: "chunk ?p ?k (image_mem s) = [0xFF, M_SOI] @ body" and fits: "?p + ?k \<le> length (image_mem s)"
    using assms(1) by (simp_all add: merge_ready_def)
  have k: "?k = length body + 2" using arg_cong [OF body, of length] fits by (simp add: chunk_def)
  have rest: "unat (src_jpeg_size x - 2) = length body"
    using k by (simp add: unat_sub word_le_nat_alt)
  have rest': "of_nat (length body) = src_jpeg_size x - 2" unfolding rest [symmetric] by simp
  have data: "chunk (?p + 2) (length body) (image_mem s) = body"
  proof -
    have "chunk (?p + 2) (length body) (image_mem s) = drop 2 (chunk ?p ?k (image_mem s))"
      using k by (simp add: chunk_def drop_take add.commute)
    then show ?thesis unfolding body by simp
  qed
  let ?seg = "take (unat n) app1"
  have n: "of_nat (app1_end i (thumbnail_buf_ptr x)) = n" unfolding run(2) [symmetric] by simp
  have seg: "length ?seg = unat n" using run(3) by simp
  let ?s1 = "s\<lparr>file_script := [(True, n), (True, src_jpeg_size x - 2)], file_calls := [(0, [0xFF, M_SOI])]\<rparr>"
  let ?s2 = "s\<lparr>file_script := [(True, src_jpeg_size x - 2)], file_calls := [(0, [0xFF, M_SOI]), (2, ?seg)]\<rparr>"
  let ?s3 = "s\<lparr>file_script := [], file_calls := [(0, [0xFF, M_SOI]), (2, ?seg), (2 + n, body)]\<rparr>"
  have 1: "wrtie_file_func 0 [0xFF, M_SOI] s = JOk 2 ?s1"
    using wrtie_file_func_ok [OF assms(3), of "[0xFF, M_SOI]" 0] n assms(2) by simp
  have "file_script ?s1 = (True, n) # [(True, src_jpeg_size x - 2)]" "of_nat (length ?seg) = n"
    using seg by simp_all
  from wrtie_file_func_ok [OF this, of 2] have 2: "wrtie_file_func 2 ?seg ?s1 = JOk n ?s2" by simp
  have "file_script ?s2 = (True, src_jpeg_size x - 2) # []" by simp
  from wrtie_file_func_ok [OF this rest', of "2 + n"]
  have 3: "wrtie_file_func (2 + n) body ?s2 = JOk (src_jpeg_size x - 2) ?s3" by simp
  have p2: "position ?s2 (src_jpeg_buf_ptr x) = ?p" "image_mem ?s2 = image_mem s" by (simp_all add: position_def)
  have "JPEG_AddExifToFile x s = JOk () ?s3"
    unfolding JPEG_AddExifToFile_def
    using run(1,3) 1 2 3 fits k rest data p2
    by (simp add: jstmt Let_def)
  moreover have "written_file ?s3 = [0xFF, M_SOI] @ ?seg @ body"
  proof -
    have "unat n \<le> 65537" using run(4) seg by (simp add: exif_segment_def)
    then have "unat (2 + n) = 2 + unat n" by (subst unat_add_lem [THEN iffD1]) simp_all
    then show ?thesis using seg by (simp add: written_file_def put_end)
  qed
  ultimately show ?thesis using run(1,3) by (intro exI [of _ ?s3] exI [of _ ?seg]) auto
qed

subsection \<open>What the caller gets\<close>

lemma skipped_append: "skipped a \<Longrightarrow> skipped b \<Longrightarrow> skipped (a @ b)"
  by (simp add: skipped_def)

lemma first_segment_of:
  assumes "exif_segment seg c"
  shows "first_segment ([0xFF, M_SOI] @ seg @ rest) = seg"
proof -
  have seg: "seg = [0xFF, 0xE1] @ be16 (of_nat (length seg - 2)) @ drop 4 seg" "length seg \<le> 65537" "312 \<le> length seg"
    using assms unfolding exif_segment_def by blast+
  have "drop 4 ([0xFF, M_SOI] @ seg @ rest) = be16 (of_nat (length seg - 2)) @ drop 4 seg @ rest"
    by (subst seg(1)) simp
  moreover have "unat (of_nat (length seg - 2) :: u16) = length seg - 2"
    using seg(2) by (simp add: unat_of_nat del: of_nat_diff)
  ultimately show ?thesis using seg(3) by (simp add: first_segment_def del: of_nat_diff)
qed

text \<open>
  C4: EXIF data are added to a finished picture.  With well-formed information, room for the segment in
  the temporary buffer and in front of the picture, the call succeeds; where it says the output is,
  there are the marker, a segment that is read back as the information, and the body of the picture;
  and a decoder of a picture that the header writer has begun reads its tables from the output as from
  the picture.
\<close>

theorem exif_added_in_memory:
  assumes "merge_ready x s i body" "room_in_front x s i" "\<not> to_file x"
  shows "\<exists>s'. IMGJPEG_WriteExif (Some x) s = JOk JINF_SUCCESS s'
    \<and> read_exif (first_segment (output_file s')) = Some (contents i (thumbnail_buf_ptr x))
    \<and> drop (2 + length (first_segment (output_file s'))) (output_file s') = body
    \<and> (\<forall>c fmt data d. header_ok c fmt \<and> body = app0_segment @ image_bytes c @ data
          \<and> parse_ready d \<and> stream_ok d \<and> jstream d = output_file s' \<longrightarrow>
        (\<exists>d'. ParseHead d = JOk () d' \<and> jstream d' = data \<and> describes c fmt d d'))"
proof -
  obtain s' seg where s': "JPEG_AddExifToMemory x s = JOk () s'" "output_file s' = [0xFF, M_SOI] @ seg @ body"
    "exif_segment seg (contents i (thumbnail_buf_ptr x))"
    using AddExifToMemory_run [OF assms(1,2)] by blast
  have first: "first_segment (output_file s') = seg" unfolding s'(2) by (rule first_segment_of [OF s'(3)])
  have seg: "skipped seg" "read_exif seg = Some (contents i (thumbnail_buf_ptr x))"
    using s'(3) by (simp_all add: exif_segment_def)
  have "exif_info_ptr x = Some i" "target_buf_ptr x \<noteq> 0" "\<not> src_jpeg_buf_ptr x \<le> target_buf_ptr x"
    using assms(1,2) by (auto simp: merge_ready_def room_in_front_def)
  then have run: "IMGJPEG_WriteExif (Some x) s = JOk JINF_SUCCESS s'"
    using assms(3) s'(1) by (simp add: IMGJPEG_WriteExif_def status_of_def)
  have parse: "\<exists>d'. ParseHead d = JOk () d' \<and> jstream d' = data \<and> describes c fmt d d'"
    if "header_ok c fmt" "body = app0_segment @ image_bytes c @ data" "parse_ready d" "stream_ok d"
      "jstream d = output_file s'" for c fmt data d
  proof -
    have "jstream d = ([0xFF, M_SOI] @ (seg @ app0_segment) @ image_bytes c) @ data"
      using that(2,5) s'(2) by simp
    from bytes_parse [OF that(1) skipped_append [OF seg(1) skipped_APP0] that(3,4) this] show ?thesis by blast
  qed
  have "drop (2 + length seg) (output_file s') = body" unfolding s'(2) by simp
  with run seg(2) first parse show ?thesis by (intro exI [of _ s']) simp
qed

text \<open>
  C36: the file is the memory image.  When the callback takes what it is given, the three calls of the
  variant for files put together the same bytes that the variant for memory leaves as its output, and
  do not touch the picture.
\<close>

theorem exif_file_equals_memory:
  assumes "merge_ready x s i body" "room_in_front x s i" "\<not> to_file x" "file_calls s = []"
    and "script = [(True, 2), (True, of_nat (app1_end i (thumbnail_buf_ptr x))), (True, src_jpeg_size x - 2)]"
  shows "\<exists>sm sf. IMGJPEG_WriteExif (Some x) s = JOk JINF_SUCCESS sm
    \<and> IMGJPEG_WriteExif (Some (x\<lparr>to_file := True\<rparr>)) (s\<lparr>file_script := script\<rparr>) = JOk JINF_SUCCESS sf
    \<and> written_file sf = output_file sm \<and> image_mem sf = image_mem s"
proof -
  let ?x = "x\<lparr>to_file := True\<rparr>" and ?s = "s\<lparr>file_script := script\<rparr>"
  obtain sm seg where sm: "JPEG_AddExifToMemory x s = JOk () sm" "output_file sm = [0xFF, M_SOI] @ seg @ body"
    "\<forall>s. \<exists>app1 n. app1_in_temp x s = JOk (n, app1) s \<and> unat n \<le> length app1 \<and> take (unat n) app1 = seg"
    using AddExifToMemory_run [OF assms(1,2)] by blast
  have ready: "merge_ready ?x ?s i body"
    using assms(1) by (simp add: merge_ready_def position_def)
  have "file_calls ?s = []" "file_script ?s
      = [(True, 2), (True, of_nat (app1_end i (thumbnail_buf_ptr ?x))), (True, src_jpeg_size ?x - 2)]"
    using assms(4,5) by simp_all
  from AddExifToFile_run [OF ready this] obtain sf seg' where
    sf: "JPEG_AddExifToFile ?x ?s = JOk () sf" "written_file sf = [0xFF, M_SOI] @ seg' @ body" "image_mem sf = image_mem s"
    "\<forall>s. \<exists>app1 n. app1_in_temp ?x s = JOk (n, app1) s \<and> unat n \<le> length app1 \<and> take (unat n) app1 = seg'"
    by auto
  have "app1_in_temp ?x = app1_in_temp x" by (rule ext) (simp add: app1_in_temp_def)
  then have "seg = seg'" using sm(3) sf(4) by (metis jres.inject(1) prod.inject)
  moreover have "exif_info_ptr x = Some i" "target_buf_ptr x \<noteq> 0" "\<not> src_jpeg_buf_ptr x \<le> target_buf_ptr x"
    using assms(1,2) by (auto simp: merge_ready_def room_in_front_def)
  then have "IMGJPEG_WriteExif (Some x) s = JOk JINF_SUCCESS sm" "IMGJPEG_WriteExif (Some ?x) ?s = JOk JINF_SUCCESS sf"
    using assms(3) sm(1) sf(1) by (simp_all add: IMGJPEG_WriteExif_def status_of_def)
  ultimately show ?thesis using sm(2) sf(2,3) by (intro exI [of _ sm] exI [of _ sf]) simp
qed

text \<open>A picture of 1000 bytes behind 70000 free bytes.\<close>

definition sample_picture :: bytes where
  "sample_picture = [0xFF, M_SOI] @ replicate 998 7"

definition sample_merge :: wexif_in where
  "sample_merge = \<lparr>exif_info_ptr = Some exif_example, src_jpeg_buf_ptr = 71000, src_jpeg_size = 1000,
     thumbnail_buf_ptr = None, temp_buf_ptr = Some (replicate 40000 0), to_file = False,
     target_buf_ptr = 1000\<rparr>"

definition sample_wexif :: wexif_state where
  "sample_wexif = \<lparr>image_base = 1000, image_mem = replicate 70000 0 @ sample_picture,
     output_buf_ptr = 0, output_size = 0, file_script = [], file_calls = []\<rparr>"

lemma sample_merge_ready:
  "merge_ready sample_merge sample_wexif exif_example (replicate 998 7)"
  "room_in_front sample_merge sample_wexif exif_example"
proof -
  have e: "app1_end exif_example None \<le> 30651" using example_room [of None] by (simp add: thumb_bytes_def)
  have p: "position sample_wexif 71000 = 70000" by (simp add: position_def sample_wexif_def)
  then show "merge_ready sample_merge sample_wexif exif_example (replicate 998 7)"
    using e example_shape unfolding merge_ready_def
    by (simp add: sample_merge_def sample_wexif_def chunk_def sample_picture_def position_def)
  show "room_in_front sample_merge sample_wexif exif_example"
    using e by (simp add: room_in_front_def sample_merge_def sample_wexif_def)
qed

theorem exif_added_in_memory_witness:
  "\<exists>s'. IMGJPEG_WriteExif (Some sample_merge) sample_wexif = JOk JINF_SUCCESS s'
    \<and> read_exif (first_segment (output_file s')) = Some (contents exif_example None)
    \<and> drop (2 + length (first_segment (output_file s'))) (output_file s') = replicate 998 7"
  using exif_added_in_memory [OF sample_merge_ready] by (auto simp: sample_merge_def)

theorem exif_file_equals_memory_witness:
  "\<exists>sm sf. IMGJPEG_WriteExif (Some sample_merge) sample_wexif = JOk JINF_SUCCESS sm
    \<and> IMGJPEG_WriteExif (Some (sample_merge\<lparr>to_file := True\<rparr>))
        (sample_wexif\<lparr>file_script := [(True, 2), (True, of_nat (app1_end exif_example None)), (True, 998)]\<rparr>)
      = JOk JINF_SUCCESS sf
    \<and> written_file sf = output_file sm"
proof -
  have "\<not> to_file sample_merge" "file_calls sample_wexif = []"
    "[(True, 2), (True, of_nat (app1_end exif_example None)), (True, 998)]
      = [(True, 2), (True, of_nat (app1_end exif_example (thumbnail_buf_ptr sample_merge))),
         (True, src_jpeg_size sample_merge - 2)]"
    by (simp_all add: sample_merge_def sample_wexif_def)
  from exif_file_equals_memory [OF sample_merge_ready this] show ?thesis by blast
qed

end
