(* ===== verification/ProgBits.thy ===== *)
theory ProgBits
  imports JpegCodec
begin

text \<open>
  The bit buffer of the software decoder for progressive pictures: the second half of
  \<^verbatim>\<open>jpegdec_bitstream.c\<close> and the macros of \<^verbatim>\<open>jpegdec_bitstream.h\<close>.  All copies of the firmware
  hold this decoder; the copy of the 8800g is the one that switches it on (\<^verbatim>\<open>PROGRESSIVE_SUPPORT\<close>).
  The refill loop is not always left, so statements of this part have a result or none:
  \<^term>\<open>None\<close> is a run that does not end, \<^term>\<open>JFault\<close> an access outside the stream or a shift that
  C leaves undefined.
\<close>

subsection \<open>Statements that may not end\<close>

type_synonym ('a, 's) pm = "'s \<Rightarrow> ('a, 's) jres option"

named_theorems pstmt "unfolding rules of the statement combinators"

definition plift :: "('a, 's) jm \<Rightarrow> ('a, 's) pm" where
  [pstmt]: "plift m s = Some (m s)"

definition pbind :: "('a, 's) pm \<Rightarrow> ('a \<Rightarrow> ('b, 's) pm) \<Rightarrow> ('b, 's) pm" where
  [pstmt]: "pbind m k s = (case m s of
       None \<Rightarrow> None
     | Some (JOk a s') \<Rightarrow> k a s'
     | Some (JFail s') \<Rightarrow> Some (JFail s')
     | Some JFault \<Rightarrow> Some JFault)"

definition pthen :: "('a, 's) pm \<Rightarrow> ('b, 's) pm \<Rightarrow> ('b, 's) pm" where
  [pstmt]: "pthen m n = pbind m (\<lambda>_. n)"

definition pret :: "'a \<Rightarrow> ('a, 's) pm" where
  [pstmt]: "pret a s = Some (JOk a s)"

definition pfail :: "('a, 's) pm" where
  [pstmt]: "pfail s = Some (JFail s)"

definition pfault :: "('a, 's) pm" where
  [pstmt]: "pfault s = Some JFault"

definition pget :: "('s \<Rightarrow> 'a) \<Rightarrow> ('a, 's) pm" where
  [pstmt]: "pget f s = Some (JOk (f s) s)"

definition pmod :: "('s \<Rightarrow> 's) \<Rightarrow> (unit, 's) pm" where
  [pstmt]: "pmod f s = Some (JOk () (f s))"

definition pcheck :: "('s \<Rightarrow> bool) \<Rightarrow> (unit, 's) pm" where
  [pstmt]: "pcheck P s = (if P s then Some (JOk () s) else Some JFault)"

primrec pseq :: "(unit, 's) pm list \<Rightarrow> (unit, 's) pm" where
  "pseq [] = pret ()"
| "pseq (m # ms) = pthen m (pseq ms)"

abbreviation pfor :: "'a list \<Rightarrow> ('a \<Rightarrow> (unit, 's) pm) \<Rightarrow> (unit, 's) pm" where
  "pfor xs body \<equiv> pseq (map body xs)"

lemma pbind_cases:
  "m s = Some (JOk a s') \<Longrightarrow> pbind m k s = k a s'"
  "m s = Some (JFail s') \<Longrightarrow> pbind m k s = Some (JFail s')"
  "m s = Some JFault \<Longrightarrow> pbind m k s = Some JFault"
  "m s = None \<Longrightarrow> pbind m k s = None"
  by (simp_all add: pstmt)

lemma pthen_cases:
  "m s = Some (JOk a s') \<Longrightarrow> pthen m n s = n s'"
  "m s = Some (JFail s') \<Longrightarrow> pthen m n s = Some (JFail s')"
  "m s = Some JFault \<Longrightarrow> pthen m n s = Some JFault"
  "m s = None \<Longrightarrow> pthen m n s = None"
  by (simp_all add: pstmt)

lemma pbind_pget: "pbind (pget f) k s = k (f s) s"
  by (simp add: pstmt)

lemma pbind_pret: "pbind (pret a) k = k a"
  by (rule ext) (simp add: pstmt)

lemma pthen_pmod: "pthen (pmod f) m s = m (f s)"
  by (simp add: pstmt)

subsection \<open>The bit buffer\<close>

text \<open>The globals: the stream and the place in it, the word of bits, how many of its low bits are
  still to be taken, and the count of bytes left, which the code lets wrap.\<close>

record bit_buffer =
  stream :: bytes
  stream_pos :: nat
  s_jstream_words :: u32
  s_jremain_bit_num :: u32
  s_jremain_bytes :: u32

type_synonym 'a bits = "('a, bit_buffer) pm"

text \<open>\<^verbatim>\<open>*s_inter_buf_bitstream++\<close> with the count taken down.\<close>

definition next_byte :: "bit_buffer \<Rightarrow> (u8 \<times> bit_buffer) option" where
  "next_byte b = (if stream_pos b < length (stream b)
     then Some (stream b ! stream_pos b,
                b\<lparr>stream_pos := stream_pos b + 1, s_jremain_bytes := s_jremain_bytes b - 1\<rparr>)
     else None)"

text \<open>The inner loop, which takes the first byte behind one or more escape bytes.\<close>

function skip_escapes :: "bit_buffer \<Rightarrow> (u8 \<times> bit_buffer) option" where
  "skip_escapes b = (case next_byte b of
       None \<Rightarrow> None
     | Some (tmp, b') \<Rightarrow> if tmp = 0xFF then skip_escapes b' else Some (tmp, b'))"
  by pat_completeness auto
termination
  by (relation "measure (\<lambda>b. length (stream b) - stream_pos b)")
    (auto simp: next_byte_def split: if_splits)

declare skip_escapes.simps [simp del]

definition put_byte :: "u8 \<Rightarrow> bit_buffer \<Rightarrow> bit_buffer" where
  "put_byte tmp b = b\<lparr>s_jstream_words := push_bit 8 (s_jstream_words b) OR ucast tmp,
                     s_jremain_bit_num := s_jremain_bit_num b + 8\<rparr>"

text \<open>\<^verbatim>\<open>ESC_MODE\<close> is the constant 1.  A marker other than the three that end a scan is put back, and
  the loop goes on.\<close>

definition put_back :: "bit_buffer \<Rightarrow> bit_buffer" where
  "put_back b = b\<lparr>stream_pos := stream_pos b - 2, s_jremain_bytes := s_jremain_bytes b + 2\<rparr>"

partial_function (option) JPEG_Fill_Bit_Buffer :: "unit bits" where
  "JPEG_Fill_Bit_Buffer b =
     (if s_jremain_bit_num b < 15 \<and> s_jremain_bytes b \<noteq> 0
      then (case next_byte b of
              None \<Rightarrow> Some JFault
            | Some (tmp, b1) \<Rightarrow>
                if tmp = 0xFF
                then (case skip_escapes b1 of
                        None \<Rightarrow> Some JFault
                      | Some (tmp, b2) \<Rightarrow>
                          if tmp = 0 then JPEG_Fill_Bit_Buffer (put_byte 0xFF b2)
                          else if tmp = M_SOS \<or> tmp = M_DHT \<or> tmp = M_EOI then Some (JOk () b2)
                          else JPEG_Fill_Bit_Buffer (put_back b2))
                else JPEG_Fill_Bit_Buffer (put_byte tmp b1))
      else Some (JOk () b))"

definition CHECK_BIT_BUFFER :: "u32 \<Rightarrow> unit bits" where
  "CHECK_BIT_BUFFER nbits b =
     (if s_jremain_bit_num b < nbits then JPEG_Fill_Bit_Buffer b else Some (JOk () b))"

text \<open>The shift is defined for distances below 32 only.\<close>

definition PEEK_BITS :: "u32 \<Rightarrow> u32 bits" where
  "PEEK_BITS nbits b =
     (let r = s_jremain_bit_num b - nbits in
      if unat r < 32 \<and> unat nbits < 31
      then Some (JOk (drop_bit (unat r) (s_jstream_words b) AND (push_bit (unat nbits) 1 - 1)) b)
      else Some JFault)"

definition DROP_BITS :: "u32 \<Rightarrow> unit bits" where
  "DROP_BITS nbits = pmod (\<lambda>b. b\<lparr>s_jremain_bit_num := s_jremain_bit_num b - nbits\<rparr>)"

definition JPEG_GETBITS :: "u32 \<Rightarrow> u32 bits" where
  "JPEG_GETBITS nbits = pbind (PEEK_BITS nbits) (\<lambda>v. pthen (DROP_BITS nbits) (pret v))"

text \<open>\<^verbatim>\<open>JPEG_SUCCESS\<close> is 0 and \<^verbatim>\<open>JPEG_FAILED\<close> 255; the result is an integer.\<close>

definition check_RstMarker :: "u32 bits" where
  "check_RstMarker =
     pthen (pmod (\<lambda>b. b\<lparr>s_jremain_bit_num := drop_bit 3 (s_jremain_bit_num b) * 8\<rparr>))
    (pthen (JPEG_GETBITS 8)
    (pbind (JPEG_GETBITS 8) (\<lambda>v. let ret = ucast v :: u8 in
       pret (if ret < M_RST0 \<or> M_RST7 < ret then 0xFF else 0))))"

text \<open>The place of a scan in the stream, kept between the lines of a picture.\<close>

record bitstream_info =
  src_pos :: nat
  bytes_in_buf :: u32
  jstream_words :: u32
  jremain_bit_num :: u32

definition Update_Global_Bitstrm_Info :: "bitstream_info \<Rightarrow> unit bits" where
  "Update_Global_Bitstrm_Info i = pmod (\<lambda>b. b\<lparr>stream_pos := src_pos i,
     s_jremain_bit_num := jremain_bit_num i, s_jstream_words := jstream_words i,
     s_jremain_bytes := bytes_in_buf i\<rparr>)"

definition Update_Local_Bitstrm_Info :: "bitstream_info \<Rightarrow> bit_buffer \<Rightarrow> bitstream_info" where
  "Update_Local_Bitstrm_Info i b = i\<lparr>src_pos := stream_pos b,
     jremain_bit_num := s_jremain_bit_num b, jstream_words := s_jstream_words b,
     bytes_in_buf := s_jremain_bytes b\<rparr>"

subsection \<open>What the buffer holds\<close>

text \<open>The reference: the bits of the data, most significant first, and the stuffing of escape bytes
  that an encoder does.\<close>

definition nat_bits :: "nat \<Rightarrow> nat \<Rightarrow> bool list" where
  "nat_bits n v = rev (map (bit v) [0..<n])"

definition bits_nat :: "bool list \<Rightarrow> nat" where
  "bits_nat xs = horner_sum of_bool 2 (rev xs)"

definition stuff :: "bytes \<Rightarrow> bytes" where
  "stuff raw = concat (map (\<lambda>c. if c = 0xFF then [0xFF, 0] else [c]) raw)"

definition byte_bits :: "bytes \<Rightarrow> bool list" where
  "byte_bits raw = concat (map (\<lambda>c. nat_bits 8 (unat c)) raw)"

text \<open>The buffer delivers the bits \<open>xs\<close>: those left in the word, and those of the bytes that are
  stuffed in the rest of the stream.\<close>

definition delivers :: "bit_buffer \<Rightarrow> bool list \<Rightarrow> bool" where
  "delivers b xs \<longleftrightarrow> (\<exists>raw. chunk (stream_pos b) (length (stuff raw)) (stream b) = stuff raw
     \<and> stream_pos b + length (stuff raw) \<le> length (stream b)
     \<and> unat (s_jremain_bytes b) = length (stuff raw) \<and> unat (s_jremain_bit_num b) \<le> 22
     \<and> xs = nat_bits (unat (s_jremain_bit_num b)) (unat (s_jstream_words b)) @ byte_bits raw)"

lemma length_nat_bits [simp]: "length (nat_bits n v) = n"
  by (simp add: nat_bits_def)

lemma nat_bits_0 [simp]: "nat_bits 0 v = []"
  by (simp add: nat_bits_def)

lemma nat_bits_nth: "i < n \<Longrightarrow> nat_bits n v ! i = bit v (n - Suc i)"
  by (simp add: nat_bits_def rev_nth)

lemma bits_nat_nat_bits [simp]: "bits_nat (nat_bits n v) = take_bit n v"
  by (simp add: bits_nat_def nat_bits_def horner_sum_bit_eq_take_bit)

lemma nat_bits_bits_nat: "nat_bits (length xs) (bits_nat xs) = xs"
proof (rule nth_equalityI)
  fix i assume "i < length (nat_bits (length xs) (bits_nat xs))"
  then show "nat_bits (length xs) (bits_nat xs) ! i = xs ! i"
    by (auto simp: nat_bits_nth bits_nat_def bit_horner_sum_bit_iff rev_nth)
qed simp

lemma nat_bits_append: "nat_bits (m + n) v = nat_bits m (drop_bit n v) @ nat_bits n v"
  by (rule nth_equalityI) (auto simp: nat_bits_nth nth_append bit_drop_bit_eq add.commute)

lemma nat_bits_take: "nat_bits n (take_bit n v) = nat_bits n v"
  by (rule nth_equalityI) (auto simp: nat_bits_nth bit_take_bit_iff)

lemma bits_nat_less: "bits_nat xs < 2 ^ length xs"
  using horner_sum_of_bool_2_less [of "rev xs"] by (simp add: bits_nat_def)

lemma stuff_simps [simp]:
  "stuff [] = []" "stuff (c # raw) = (if c = 0xFF then [0xFF, 0] else [c]) @ stuff raw"
  by (simp_all add: stuff_def)

lemma byte_bits_simps [simp]:
  "byte_bits [] = []" "byte_bits (c # raw) = nat_bits 8 (unat c) @ byte_bits raw"
  by (simp_all add: byte_bits_def)

lemma length_byte_bits: "length (byte_bits raw) = 8 * length raw"
  by (induction raw) simp_all

lemma byte_bits_append [simp]: "byte_bits (as @ bs) = byte_bits as @ byte_bits bs"
  by (simp add: byte_bits_def)


lemma delivers_length: "delivers b xs \<Longrightarrow> unat (s_jremain_bit_num b) \<le> length xs"
  by (auto simp: delivers_def)

lemma skip_escapes_pair:
  "next_byte b = Some (c, b') \<Longrightarrow> c \<noteq> 0xFF \<Longrightarrow> skip_escapes b = Some (c, b')"
  by (simp add: skip_escapes.simps)

lemma next_byte_chunk:
  assumes "chunk (stream_pos b) (Suc n) (stream b) = c # cs" "stream_pos b + Suc n \<le> length (stream b)"
  shows "next_byte b = Some (c, b\<lparr>stream_pos := stream_pos b + 1, s_jremain_bytes := s_jremain_bytes b - 1\<rparr>)"
    and "chunk (stream_pos b + 1) n (stream b) = cs"
proof -
  have "drop (stream_pos b) (stream b) = stream b ! stream_pos b # drop (stream_pos b + 1) (stream b)"
    using assms(2) by (simp add: Cons_nth_drop_Suc)
  then show "next_byte b = Some (c, b\<lparr>stream_pos := stream_pos b + 1, s_jremain_bytes := s_jremain_bytes b - 1\<rparr>)"
    "chunk (stream_pos b + 1) n (stream b) = cs"
    using assms by (simp_all add: next_byte_def chunk_def)
qed

text \<open>Eight bits appended to the word are the next bits of the buffer.\<close>

lemma put_byte_bits:
  assumes "unat r < 15" "w' = push_bit 8 w OR ucast (c :: u8)"
  shows "unat (r + 8 :: u32) = unat r + 8"
    and "nat_bits (unat r + 8) (unat (w' :: u32)) = nat_bits (unat r) (unat w) @ nat_bits 8 (unat c)"
proof -
  show "unat (r + 8) = unat r + 8" using assms(1) by (simp add: unat_word_ariths)
  have bits: "bit w' i \<longleftrightarrow> i < 32 \<and> (if i < 8 then bit c i else bit w (i - 8))" for i
    unfolding assms(2) by (auto simp: bit_simps dest: bit_imp_le_length)
  show "nat_bits (unat r + 8) (unat w') = nat_bits (unat r) (unat w) @ nat_bits 8 (unat c)"
  proof (rule nth_equalityI)
    fix i assume i: "i < length (nat_bits (unat r + 8) (unat w'))"
    then show "nat_bits (unat r + 8) (unat w') ! i = (nat_bits (unat r) (unat w) @ nat_bits 8 (unat c)) ! i"
      using assms(1) by (auto simp: nat_bits_nth nth_append bit_unsigned_iff bits)
  qed simp
qed

text \<open>Filling the buffer keeps the bits that it delivers, and leaves 15 bits or all that there are.\<close>

lemma Fill_delivers:
  assumes "delivers b xs"
  shows "\<exists>b'. JPEG_Fill_Bit_Buffer b = Some (JOk () b') \<and> delivers b' xs \<and> stream b' = stream b
    \<and> min 15 (length xs) \<le> unat (s_jremain_bit_num b')"
proof -
  from assms obtain raw where "chunk (stream_pos b) (length (stuff raw)) (stream b) = stuff raw"
    "stream_pos b + length (stuff raw) \<le> length (stream b)"
    "unat (s_jremain_bytes b) = length (stuff raw)" "unat (s_jremain_bit_num b) \<le> 22"
    "xs = nat_bits (unat (s_jremain_bit_num b)) (unat (s_jstream_words b)) @ byte_bits raw"
    by (auto simp: delivers_def)
  then show ?thesis
  proof (induction raw arbitrary: b)
    case Nil
    then have "s_jremain_bytes b = 0" by (simp add: unat_eq_zero)
    with Nil show ?case
      by (subst JPEG_Fill_Bit_Buffer.simps) (auto simp: delivers_def intro!: exI [of _ "[]"])
  next
    case (Cons c raw)
    show ?case
    proof (cases "s_jremain_bit_num b < 15")
      case False
      then have "15 \<le> unat (s_jremain_bit_num b)" by (simp add: word_less_nat_alt)
      with False Cons.prems show ?thesis
        by (subst JPEG_Fill_Bit_Buffer.simps) (auto simp: delivers_def intro!: exI [of _ "c # raw"])
    next
      case True
      note r = True [unfolded word_less_nat_alt, simplified]
      have more: "s_jremain_bytes b \<noteq> 0" using Cons.prems(3) by (auto split: if_splits)
      let ?k = "if c = 0xFF then 2 else 1 :: nat"
      let ?b = "b\<lparr>stream_pos := stream_pos b + ?k, s_jremain_bytes := s_jremain_bytes b - of_nat ?k\<rparr>"
      have step: "JPEG_Fill_Bit_Buffer b = JPEG_Fill_Bit_Buffer (put_byte c ?b)"
        and rest: "chunk (stream_pos ?b) (length (stuff raw)) (stream b) = stuff raw"
      proof -
        have "JPEG_Fill_Bit_Buffer b = JPEG_Fill_Bit_Buffer (put_byte c ?b)
          \<and> chunk (stream_pos ?b) (length (stuff raw)) (stream b) = stuff raw"
        proof (cases "c = 0xFF")
          case False
          with Cons.prems next_byte_chunk [of b "length (stuff raw)" c "stuff raw"] show ?thesis
            by (subst JPEG_Fill_Bit_Buffer.simps) (simp add: True more)
        next
          case ff: True
          let ?b1 = "b\<lparr>stream_pos := stream_pos b + 1, s_jremain_bytes := s_jremain_bytes b - 1\<rparr>"
          from Cons.prems ff have "chunk (stream_pos b) (Suc (Suc (length (stuff raw)))) (stream b) = 0xFF # 0 # stuff raw"
            "stream_pos b + Suc (Suc (length (stuff raw))) \<le> length (stream b)" by simp_all
          note n1 = next_byte_chunk [OF this]
          have n2: "next_byte ?b1 = Some (0, ?b1\<lparr>stream_pos := stream_pos ?b1 + 1, s_jremain_bytes := s_jremain_bytes ?b1 - 1\<rparr>)"
            "chunk (stream_pos ?b1 + 1) (length (stuff raw)) (stream ?b1) = stuff raw"
            by (rule next_byte_chunk; use n1(2) Cons.prems(2) ff in simp)+
          have "?b1\<lparr>stream_pos := stream_pos ?b1 + 1, s_jremain_bytes := s_jremain_bytes ?b1 - 1\<rparr> = ?b"
            using ff by simp
          with n1(1) n2 ff show ?thesis
            by (subst JPEG_Fill_Bit_Buffer.simps) (simp add: True more skip_escapes_pair)
        qed
        then show "JPEG_Fill_Bit_Buffer b = JPEG_Fill_Bit_Buffer (put_byte c ?b)"
          "chunk (stream_pos ?b) (length (stuff raw)) (stream b) = stuff raw" by blast+
      qed
      have count: "unat (s_jremain_bytes b - of_nat ?k) = length (stuff raw)"
        using Cons.prems(3) by (subst unat_sub) (auto simp: word_le_nat_alt)
      note bits = put_byte_bits(1) [OF r refl] put_byte_bits(2) [OF r refl, of "s_jstream_words b" c]
      have "\<exists>b'. JPEG_Fill_Bit_Buffer (put_byte c ?b) = Some (JOk () b') \<and> delivers b' xs
        \<and> stream b' = stream (put_byte c ?b) \<and> min 15 (length xs) \<le> unat (s_jremain_bit_num b')"
      proof (rule Cons.IH)
        show "xs = nat_bits (unat (s_jremain_bit_num (put_byte c ?b))) (unat (s_jstream_words (put_byte c ?b))) @ byte_bits raw"
          using Cons.prems(5) bits by (simp add: put_byte_def)
      qed (use rest count bits r Cons.prems(2) in \<open>auto simp: put_byte_def split: if_splits\<close>)
      with step show ?thesis by (simp add: put_byte_def)
    qed
  qed
qed


text \<open>The contract of a statement that takes bits: with \<open>xs\<close> in front of the buffer's bits it ends with
  the value \<open>v\<close>, and the rest is left.\<close>

definition takes :: "'a bits \<Rightarrow> bool list \<Rightarrow> 'a \<Rightarrow> bool" where
  "takes m xs v \<longleftrightarrow> (\<forall>b ys. delivers b (xs @ ys) \<longrightarrow>
     (\<exists>b'. m b = Some (JOk v b') \<and> delivers b' ys \<and> stream b' = stream b))"

lemma takesD:
  assumes "takes m xs v" "delivers b (xs @ ys)"
  obtains b' where "m b = Some (JOk v b')" "delivers b' ys" "stream b' = stream b"
  using assms unfolding takes_def by blast

lemma takes_run: "takes m xs v \<Longrightarrow> delivers b (xs @ ys) \<Longrightarrow> \<exists>b'. m b = Some (JOk v b') \<and> delivers b' ys"
  unfolding takes_def by blast

lemma takes_pret: "takes (pret v) [] v"
  by (simp add: takes_def pret_def)

lemma takes_pbind:
  assumes "takes m xs a" "takes (k a) ys c"
  shows "takes (pbind m k) (xs @ ys) c"
  unfolding takes_def
proof (intro allI impI)
  fix b zs assume "delivers b ((xs @ ys) @ zs)"
  then have "delivers b (xs @ (ys @ zs))" by simp
  from assms(1) this obtain b1 where b1: "m b = Some (JOk a b1)" "delivers b1 (ys @ zs)" "stream b1 = stream b"
    by (rule takesD)
  from assms(2) b1(2) obtain b2 where "k a b1 = Some (JOk c b2)" "delivers b2 zs" "stream b2 = stream b1"
    by (rule takesD)
  with b1 show "\<exists>b'. pbind m k b = Some (JOk c b') \<and> delivers b' zs \<and> stream b' = stream b"
    by (simp add: pbind_cases)
qed

lemma takes_pthen: "takes m xs a \<Longrightarrow> takes n ys c \<Longrightarrow> takes (pthen m n) (xs @ ys) c"
  unfolding pthen_def by (rule takes_pbind)

lemma delivers_split:
  assumes "delivers b xs" "n \<le> unat (s_jremain_bit_num b)"
  shows "take n xs = nat_bits n (drop_bit (unat (s_jremain_bit_num b) - n) (unat (s_jstream_words b)))"
    and "delivers (b\<lparr>s_jremain_bit_num := s_jremain_bit_num b - of_nat n\<rparr>) (drop n xs)"
proof -
  let ?r = "unat (s_jremain_bit_num b)" and ?w = "unat (s_jstream_words b)"
  from assms(1) obtain raw where raw: "chunk (stream_pos b) (length (stuff raw)) (stream b) = stuff raw"
    "stream_pos b + length (stuff raw) \<le> length (stream b)"
    "unat (s_jremain_bytes b) = length (stuff raw)" "?r \<le> 22" "xs = nat_bits ?r ?w @ byte_bits raw"
    by (auto simp: delivers_def)
  have split: "nat_bits ?r ?w = nat_bits n (drop_bit (?r - n) ?w) @ nat_bits (?r - n) ?w"
    using nat_bits_append [of n "?r - n" ?w] assms(2) by simp
  have left: "unat (s_jremain_bit_num b - of_nat n) = ?r - n"
    using assms(2) raw(4) by (subst unat_sub) (simp_all add: word_le_nat_alt unsigned_of_nat take_bit_nat_eq_self)
  show "take n xs = nat_bits n (drop_bit (?r - n) ?w)"
    using raw(5) by (simp add: split)
  show "delivers (b\<lparr>s_jremain_bit_num := s_jremain_bit_num b - of_nat n\<rparr>) (drop n xs)"
    unfolding delivers_def using raw assms(2) by (intro exI [of _ raw]) (simp add: left, simp add: split)
qed

lemma CHECK_delivers:
  assumes "delivers b xs" "n \<le> 15"
  obtains b' where "CHECK_BIT_BUFFER (of_nat n) b = Some (JOk () b')" "delivers b' xs" "stream b' = stream b"
    "min n (length xs) \<le> unat (s_jremain_bit_num b')"
proof (cases "s_jremain_bit_num b < of_nat n")
  case True
  with Fill_delivers [OF assms(1)] assms(2) that show ?thesis
    by (fastforce simp: CHECK_BIT_BUFFER_def min_def split: if_splits)
next
  case False
  then have "n \<le> unat (s_jremain_bit_num b)"
    using assms(2) by (simp add: word_less_nat_alt unsigned_of_nat take_bit_nat_eq_self)
  with False that assms(1) show ?thesis by (simp add: CHECK_BIT_BUFFER_def)
qed

lemma PEEK_delivers:
  assumes "delivers b xs" "n \<le> unat (s_jremain_bit_num b)" "n \<le> 22"
  shows "PEEK_BITS (of_nat n) b = Some (JOk (of_nat (bits_nat (take n xs))) b)"
proof -
  let ?r = "unat (s_jremain_bit_num b)"
  have r: "?r \<le> 22" using assms(1) by (auto simp: delivers_def)
  have n: "unat (of_nat n :: u32) = n" using assms(3) by (simp add: unsigned_of_nat take_bit_nat_eq_self)
  have left: "unat (s_jremain_bit_num b - of_nat n) = ?r - n" "?r - n < 32"
    using r assms(2) n by (simp_all add: unat_sub word_le_nat_alt)
  have "drop_bit (?r - n) (s_jstream_words b) AND mask n = of_nat (take_bit n (drop_bit (?r - n) (unat (s_jstream_words b))))"
    by (rule bit_eqI) (auto simp: bit_simps bit_unsigned_iff)
  then show ?thesis
    using r assms(3) n left by (simp add: PEEK_BITS_def Let_def delivers_split(1) [OF assms(1,2)] flip: mask_eq_exp_minus_1)
qed

lemma GETBITS_delivers:
  assumes "delivers b (xs @ ys)" "length xs \<le> unat (s_jremain_bit_num b)" "n = of_nat (length xs)"
  obtains b' where "JPEG_GETBITS n b = Some (JOk (of_nat (bits_nat xs)) b')" "delivers b' ys" "stream b' = stream b"
proof -
  have "length xs \<le> 22" using assms(1,2) by (auto simp: delivers_def)
  from PEEK_delivers [OF assms(1,2) this] delivers_split(2) [OF assms(1,2)] that show ?thesis
    unfolding assms(3) by (simp add: JPEG_GETBITS_def DROP_BITS_def pstmt)
qed

text \<open>The two statements by which the decoder takes up to 15 bits.\<close>

lemma takes_GETBITS:
  assumes "length xs \<le> 15" "n = of_nat (length xs)"
  shows "takes (pthen (CHECK_BIT_BUFFER n) (JPEG_GETBITS n)) xs (of_nat (bits_nat xs))"
  unfolding takes_def
proof (intro allI impI)
  fix b ys assume b: "delivers b (xs @ ys)"
  from b assms(1) obtain b1 where b1: "CHECK_BIT_BUFFER (of_nat (length xs)) b = Some (JOk () b1)"
    "delivers b1 (xs @ ys)" "stream b1 = stream b" "min (length xs) (length (xs @ ys)) \<le> unat (s_jremain_bit_num b1)"
    by (rule CHECK_delivers)
  then have "length xs \<le> unat (s_jremain_bit_num b1)" by simp
  from b1(2) this assms(2) obtain b2 where "JPEG_GETBITS n b1 = Some (JOk (of_nat (bits_nat xs)) b2)"
    "delivers b2 ys" "stream b2 = stream b1"
    by (rule GETBITS_delivers)
  with b1 show "\<exists>b'. pthen (CHECK_BIT_BUFFER n) (JPEG_GETBITS n) b = Some (JOk (of_nat (bits_nat xs)) b')
      \<and> delivers b' ys \<and> stream b' = stream b"
    by (simp add: pthen_cases assms(2))
qed


subsection \<open>Markers in the data\<close>

text \<open>The stream stands at a marker that does not end the scan, and the buffer asks for bits.\<close>

definition at_marker :: "bit_buffer \<Rightarrow> bool" where
  "at_marker b \<longleftrightarrow> s_jremain_bit_num b < 15 \<and> s_jremain_bytes b \<noteq> 0
     \<and> (\<exists>m. chunk (stream_pos b) 2 (stream b) = [0xFF, m] \<and> m \<notin> {0, 0xFF, M_SOS, M_DHT, M_EOI})"

lemma at_marker_step:
  assumes "at_marker b"
  obtains b1 b2 m where "next_byte b = Some (0xFF, b1)" "skip_escapes b1 = Some (m, b2)" "put_back b2 = b"
    "m \<notin> {0, 0xFF, M_SOS, M_DHT, M_EOI}"
proof -
  from assms obtain m where m: "chunk (stream_pos b) (Suc 1) (stream b) = 0xFF # [m]"
    "m \<notin> {0, 0xFF, M_SOS, M_DHT, M_EOI}"
    by (auto simp: at_marker_def numeral_2_eq_2)
  then have "length (chunk (stream_pos b) (Suc 1) (stream b)) = 2" by simp
  then have room: "stream_pos b + Suc 1 \<le> length (stream b)" by (simp add: length_chunk)
  let ?b1 = "b\<lparr>stream_pos := stream_pos b + 1, s_jremain_bytes := s_jremain_bytes b - 1\<rparr>"
  note n1 = next_byte_chunk [OF m(1) room]
  have "next_byte ?b1 = Some (m, ?b1\<lparr>stream_pos := stream_pos ?b1 + 1, s_jremain_bytes := s_jremain_bytes ?b1 - 1\<rparr>)"
    by (rule next_byte_chunk(1) [of _ 0 _ "[]"]; use n1(2) room in simp)
  then have "skip_escapes ?b1 = Some (m, ?b1\<lparr>stream_pos := stream_pos ?b1 + 1, s_jremain_bytes := s_jremain_bytes ?b1 - 1\<rparr>)"
    using m(2) by (simp add: skip_escapes_pair)
  from that [OF n1(1) this _ m(2)] show thesis by (simp add: put_back_def)
qed

text \<open>C37: the decoder hangs on a restart marker.  When fewer than 15 bits are left and the stream goes on
  with any marker but a start of scan, a Huffman table or the end of the image, which is what a picture with
  restart markers contains, the refill loop puts the marker back and finds it again for ever: the call
  does not return.  (The marker's code is neither 0 nor 255.)\<close>

theorem restart_marker_hangs:
  assumes "at_marker b"
  shows "JPEG_Fill_Bit_Buffer b = None"
proof -
  have "\<not> at_marker b" if "JPEG_Fill_Bit_Buffer b = Some r" for r
    using that
  proof (rule JPEG_Fill_Bit_Buffer.raw_induct [rotated])
    fix fill b r
    assume ih: "\<And>b r. fill b = Some r \<Longrightarrow> \<not> at_marker b"
      and run: "(if s_jremain_bit_num b < 15 \<and> s_jremain_bytes b \<noteq> 0
        then case next_byte b of None \<Rightarrow> Some JFault
          | Some (tmp, b1) \<Rightarrow> if tmp = 0xFF
              then case skip_escapes b1 of None \<Rightarrow> Some JFault
                | Some (tmp, b2) \<Rightarrow> if tmp = 0 then fill (put_byte 0xFF b2)
                    else if tmp = M_SOS \<or> tmp = M_DHT \<or> tmp = M_EOI then Some (JOk () b2)
                    else fill (put_back b2)
              else fill (put_byte tmp b1)
        else Some (JOk () b)) = Some r"
    show "\<not> at_marker b"
    proof
      assume m: "at_marker b"
      then obtain b1 b2 m where "next_byte b = Some (0xFF, b1)" "skip_escapes b1 = Some (m, b2)"
        "put_back b2 = b" "m \<notin> {0, 0xFF, M_SOS, M_DHT, M_EOI}"
        by (rule at_marker_step)
      with m run have "fill b = Some r" by (simp add: at_marker_def)
      with ih m show False by blast
    qed
  qed
  with assms show ?thesis by (cases "JPEG_Fill_Bit_Buffer b") auto
qed

theorem restart_marker_hangs_witness:
  "JPEG_Fill_Bit_Buffer \<lparr>stream = [0xFF, 0xD0, 0x12], stream_pos = 0, s_jstream_words = 0,
     s_jremain_bit_num = 3, s_jremain_bytes = 3\<rparr> = None"
  by (rule restart_marker_hangs) (simp add: at_marker_def chunk_def marker_codes)

end
