(* ===== verification/ProgHuffman.thy ===== *)
theory ProgHuffman
  imports ProgBits JpegCodes
begin

text \<open>
  The Huffman tables of the software decoder for progressive pictures, \<^verbatim>\<open>build_vld_table\<close> of
  \<^verbatim>\<open>jpegdec_pvld.c\<close>, and the two ways of decoding a symbol: by looking up the next eight bits and,
  for longer codes and at the end of the data, bit by bit (\<^verbatim>\<open>HUFF_DECODE\<close> of \<^verbatim>\<open>jpegdec_pvld.h\<close>
  and \<^verbatim>\<open>huff_DECODE_Progressive\<close> of \<^verbatim>\<open>jpegdec_bitstream.c\<close>).  Both decode every code word of the
  table to its symbol.
\<close>

subsection \<open>Building the table\<close>

text \<open>\<^verbatim>\<open>d_derived_tbl\<close>: arrays of 18, 17, 256 and 256 entries, and the copy of the public table.\<close>

record derived_tbl =
  maxcode :: "int list"
  valoffset :: "int list"
  pub_bits :: bytes
  pub_huffval :: bytes
  look_nbits :: "int list"
  look_sym :: bytes

definition tbl_shape :: "derived_tbl \<Rightarrow> bool" where
  "tbl_shape t \<longleftrightarrow> length (maxcode t) = 18 \<and> length (valoffset t) = 17
     \<and> length (look_nbits t) = 256 \<and> length (look_sym t) = 256"

text \<open>The largest code of each length, and what turns a code into the index of its symbol.\<close>

fun code_ranges :: "nat \<Rightarrow> nat \<Rightarrow> bytes \<Rightarrow> u16 list \<Rightarrow> int list \<times> int list \<Rightarrow> (int list \<times> int list) option" where
  "code_ranges l p [] huffcode t = Some t"
| "code_ranges l p (b # bs) huffcode (mc, vo) =
     (if b \<noteq> 0
      then (if p + unat b \<le> length huffcode
            then code_ranges (l + 1) (p + unat b) bs huffcode
                   (mc[l := uint (huffcode ! (p + unat b - 1))], vo[l := int p - uint (huffcode ! p)])
            else None)
      else code_ranges (l + 1) p bs huffcode (mc[l := -1], vo))"

text \<open>All sequences of eight bits that begin with one code; the index is checked against the arrays.\<close>

fun fill_run :: "nat \<Rightarrow> u16 \<Rightarrow> int \<Rightarrow> u8 \<Rightarrow> int list \<times> bytes \<Rightarrow> (int list \<times> bytes) option" where
  "fill_run 0 look_bits l v t = Some t"
| "fill_run (Suc ctr) look_bits l v (nb, sy) =
     (if unat look_bits < length nb \<and> unat look_bits < length sy
      then fill_run ctr (look_bits + 1) l v (nb[unat look_bits := l], sy[unat look_bits := v])
      else None)"

definition HUFF_FIRST_READ :: nat where
  "HUFF_FIRST_READ = 8"

text \<open>The lengths of the symbols whose codes fit into the lookup, in order.\<close>

definition look_lengths :: "bytes \<Rightarrow> nat list" where
  "look_lengths bits = concat (map (\<lambda>l. replicate (unat (bits ! l)) l) [1..<HUFF_FIRST_READ + 1])"

fun fill_lookup :: "nat \<Rightarrow> nat list \<Rightarrow> u16 list \<Rightarrow> bytes \<Rightarrow> int list \<times> bytes \<Rightarrow> (int list \<times> bytes) option" where
  "fill_lookup p [] huffcode huffvals t = Some t"
| "fill_lookup p (l # ls) huffcode huffvals t =
     (if p < length huffcode \<and> p < length huffvals
      then (case fill_run (2 ^ (HUFF_FIRST_READ - l)) (push_bit (HUFF_FIRST_READ - l) (huffcode ! p))
                   (int l) (huffvals ! p) t of
              None \<Rightarrow> None
            | Some t' \<Rightarrow> fill_lookup (p + 1) ls huffcode huffvals t')
      else None)"

text \<open>The whole function on the table's memory.  17 and 257 bytes are copied from the public table; the
  sizes, whose place 0 counts too, and their end must fit into 257 bytes; the code words that are not
  generated are all ones.\<close>

definition derive_table :: "bytes \<Rightarrow> bytes \<Rightarrow> derived_tbl \<Rightarrow> derived_tbl option" where
  "derive_table bits vals t =
     (if length bits < 17 \<or> length vals < 257 then None
      else let pub = take 17 bits; hv = take 257 vals;
               sizes = replicate (unat (pub ! 0)) 0 @ huff_sizes pub
           in if 257 \<le> length sizes then None
              else let sizes' = sizes @ replicate (257 - length sizes) 0 in
                case gen_codes sizes' (ucast (sizes' ! 0)) 0 of
                  None \<Rightarrow> None
                | Some codes \<Rightarrow>
                    let huffcode = codes @ replicate (257 - length codes) 0xFFFF in
                    (case code_ranges 1 0 (chunk 1 16 pub) huffcode (maxcode t, valoffset t) of
                       None \<Rightarrow> None
                     | Some (mc, vo) \<Rightarrow>
                         (case fill_lookup 0 (look_lengths pub) huffcode hv (look_nbits t, look_sym t) of
                            None \<Rightarrow> None
                          | Some (nb, sy) \<Rightarrow> Some (t\<lparr>maxcode := mc, valoffset := vo, pub_bits := pub,
                              pub_huffval := hv, look_nbits := nb, look_sym := sy\<rparr>))))"

subsection \<open>Decoding a symbol\<close>

text \<open>The loop of \<^verbatim>\<open>huff_DECODE_Progressive\<close>, which reads a bit at a time until the code is not larger
  than the largest one of its length.\<close>

function huff_slow :: "derived_tbl \<Rightarrow> nat \<Rightarrow> int \<Rightarrow> u8 bits" where
  "huff_slow tbl l code b =
     (if length (maxcode tbl) \<le> l then Some JFault
      else if maxcode tbl ! l < code
      then pbind (pthen (CHECK_BIT_BUFFER 1) (JPEG_GETBITS 1))
             (\<lambda>x. huff_slow tbl (l + 1) (2 * code + uint x)) b
      else if 16 < l then Some (JOk 0 b)
      else if l < length (valoffset tbl) \<and> 0 \<le> code + valoffset tbl ! l
              \<and> code + valoffset tbl ! l < int (length (pub_huffval tbl))
      then Some (JOk (pub_huffval tbl ! nat (code + valoffset tbl ! l)) b)
      else Some JFault)"
  by pat_completeness auto
termination
  by (relation "measure (\<lambda>(tbl, l, code, b). length (maxcode tbl) - l)") auto

declare huff_slow.simps [simp del]

definition huff_DECODE_Progressive :: "derived_tbl \<Rightarrow> nat \<Rightarrow> u8 bits" where
  "huff_DECODE_Progressive tbl min_bits =
     pbind (pthen (CHECK_BIT_BUFFER (of_nat min_bits)) (JPEG_GETBITS (of_nat min_bits)))
       (\<lambda>code. huff_slow tbl min_bits (uint code))"

definition HUFF_DECODE :: "derived_tbl \<Rightarrow> u8 bits" where
  "HUFF_DECODE tbl =
     pthen (\<lambda>b. if s_jremain_bit_num b < 8 then JPEG_Fill_Bit_Buffer b else Some (JOk () b))
    (pbind (pget s_jremain_bit_num) (\<lambda>r.
       if r < 8 then huff_DECODE_Progressive tbl 1
       else pbind (PEEK_BITS 8) (\<lambda>look.
         let nb = look_nbits tbl ! unat look in
         if nb \<noteq> 0 then pthen (DROP_BITS (word_of_int nb)) (pret (look_sym tbl ! unat look))
         else huff_DECODE_Progressive tbl (HUFF_FIRST_READ + 1))))"


subsection \<open>The codes of a table\<close>

text \<open>A canonical code: one word per length, the lengths in order, and the place of each word is the
  room that the words before it take up.\<close>

definition canonical :: "u16 list \<Rightarrow> nat list \<Rightarrow> bool" where
  "canonical cs ls \<longleftrightarrow> length cs = length ls \<and> sorted ls \<and> (\<forall>l \<in> set ls. 1 \<le> l \<and> l \<le> 16)
     \<and> kraft ls \<le> 65536 \<and> (\<forall>k < length ls. unat (cs ! k) * 2 ^ (16 - ls ! k) = kraft (take k ls))"

abbreviation code_bits :: "u16 list \<Rightarrow> nat list \<Rightarrow> nat \<Rightarrow> bool list" where
  "code_bits cs ls k \<equiv> nat_bits (ls ! k) (unat (cs ! k))"

lemma kraft_Suc: "k < length ls \<Longrightarrow> kraft (take (Suc k) ls) = kraft (take k ls) + 2 ^ (16 - ls ! k)"
  by (simp add: take_Suc_conv_app_nth)

lemma canonicalD:
  assumes "canonical cs ls" "k < length ls"
  shows "1 \<le> ls ! k" "ls ! k \<le> 16" "unat (cs ! k) * 2 ^ (16 - ls ! k) = kraft (take k ls)"
    and "kraft (take k ls) + 2 ^ (16 - ls ! k) \<le> 65536" "unat (cs ! k) < 2 ^ (ls ! k)"
proof -
  show range: "1 \<le> ls ! k" "ls ! k \<le> 16" and left: "unat (cs ! k) * 2 ^ (16 - ls ! k) = kraft (take k ls)"
    using assms by (auto simp: canonical_def)
  have "kraft (take (Suc k) ls) \<le> 65536" using kraft_take_le [of "Suc k" ls] assms(1) by (simp add: canonical_def)
  then show room: "kraft (take k ls) + 2 ^ (16 - ls ! k) \<le> 65536" using assms(2) by (simp add: kraft_Suc)
  have "0 < (2 :: nat) ^ (16 - ls ! k)" by simp
  with room left show "unat (cs ! k) < 2 ^ (ls ! k)"
    using code_small [of "cs ! k" "ls ! k"] range(2) by linarith
qed

lemma canonical_order: "canonical cs ls \<Longrightarrow> j \<le> k \<Longrightarrow> k < length ls \<Longrightarrow> ls ! j \<le> ls ! k"
  by (auto simp: canonical_def sorted_nth_mono)

text \<open>The beginning of a code word.\<close>

lemma code_prefix:
  assumes "canonical cs ls" "k < length ls" "l \<le> ls ! k"
  shows "drop_bit (ls ! k - l) (unat (cs ! k)) = kraft (take k ls) div 2 ^ (16 - l)"
proof -
  have le: "l \<le> ls ! k" "ls ! k \<le> 16" using canonicalD [OF assms(1,2)] assms(3) by simp_all
  have "2 ^ (16 - l) = 2 ^ (ls ! k - l) * (2 :: nat) ^ (16 - ls ! k)"
    using le by (simp flip: power_add)
  then have "(unat (cs ! k) * 2 ^ (16 - ls ! k)) div 2 ^ (16 - l) = unat (cs ! k) div 2 ^ (ls ! k - l)"
    by simp
  then show ?thesis using canonicalD(3) [OF assms(1,2)] by (simp add: drop_bit_eq_div)
qed

text \<open>A shorter or earlier word lies below the beginning of a later one.\<close>

lemma code_prefix_less:
  assumes "canonical cs ls" "j < k" "k < length ls"
  shows "unat (cs ! j) < drop_bit (ls ! k - ls ! j) (unat (cs ! k))"
proof -
  have le: "ls ! j \<le> ls ! k" "j < length ls" using canonical_order [OF assms(1), of j k] assms by simp_all
  let ?u = "2 ^ (16 - ls ! j) :: nat"
  have "(unat (cs ! j) + 1) * ?u \<le> kraft (take k ls)"
    using kraft_take_mono [OF assms(2), of ls] assms(3) canonicalD(3) [OF assms(1) le(2)] by simp
  then have "unat (cs ! j) + 1 \<le> kraft (take k ls) div ?u"
    by (metis div_le_mono nonzero_mult_div_cancel_right power_not_zero zero_neq_numeral)
  then show ?thesis using code_prefix [OF assms(1,3) le(1)] by simp
qed

text \<open>Codes of one length follow each other.\<close>

lemma code_run:
  assumes "canonical cs ls" "j \<le> k" "k < length ls" "ls ! j = ls ! k"
  shows "unat (cs ! k) = unat (cs ! j) + (k - j)"
  using assms(2-4)
proof (induction "k - j" arbitrary: k)
  case (Suc n)
  then obtain k' where k: "k = Suc k'" "j \<le> k'" "k' < length ls" by (cases k) auto
  then have "ls ! j \<le> ls ! k'" "ls ! k' \<le> ls ! k"
    using Suc.prems(2) canonical_order [OF assms(1)] by simp_all
  then have eq: "ls ! j = ls ! k'" using Suc.prems(3) by simp
  have "unat (cs ! k') = unat (cs ! j) + (k' - j)" using Suc k eq by simp
  moreover have "unat (cs ! k) * 2 ^ (16 - ls ! k) = (unat (cs ! k') + 1) * 2 ^ (16 - ls ! k)"
    using canonicalD(3) [OF assms(1) Suc.prems(2)] canonicalD(3) [OF assms(1) k(3)] eq Suc.prems(3)
    unfolding k(1) kraft_Suc [OF k(3)] by simp
  then have "unat (cs ! k) = unat (cs ! k') + 1" by (metis mult_right_cancel power_not_zero zero_neq_numeral)
  ultimately show ?case using k by simp
qed simp

subsection \<open>What a table must hold\<close>

text \<open>The meaning of the arrays for a canonical code whose symbols are \<open>vals\<close>: up to length 16 the
  largest code and the way to the symbol, and for every sequence of eight bits the symbol whose code begins
  it, or nothing.\<close>

definition decodes :: "derived_tbl \<Rightarrow> u16 list \<Rightarrow> nat list \<Rightarrow> bytes \<Rightarrow> bool" where
  "decodes t cs ls vals \<longleftrightarrow> tbl_shape t \<and> pub_huffval t = vals \<and> length ls \<le> length vals
     \<and> (\<forall>l \<in> {1..16}.
          (\<forall>k < length ls. ls ! k = l \<longrightarrow> int (unat (cs ! k)) \<le> maxcode t ! l
              \<and> int (unat (cs ! k)) + valoffset t ! l = int k)
          \<and> (maxcode t ! l = -1 \<or> (\<exists>k < length ls. ls ! k = l \<and> maxcode t ! l = int (unat (cs ! k)))))
     \<and> (\<forall>k < length ls. \<forall>x < 256. kraft (take k ls) \<le> x * 256 \<and> x * 256 < kraft (take (Suc k) ls)
          \<longrightarrow> ls ! k \<le> 8 \<longrightarrow> look_nbits t ! x = int (ls ! k) \<and> look_sym t ! x = vals ! k)
     \<and> (\<forall>x < 256. (\<forall>k < length ls. ls ! k \<le> 8 \<longrightarrow> \<not> (kraft (take k ls) \<le> x * 256 \<and> x * 256 < kraft (take (Suc k) ls)))
          \<longrightarrow> look_nbits t ! x = 0)"


subsection \<open>Decoding finds the symbol\<close>

lemma huff_slow_found:
  assumes "l < length (maxcode t)" "code \<le> maxcode t ! l" "l \<le> 16" "l < length (valoffset t)"
    and "code + valoffset t ! l = int k" "k < length (pub_huffval t)"
  shows "huff_slow t l code = pret (pub_huffval t ! k)"
  using assms by (intro ext) (simp add: huff_slow.simps pret_def)

lemma huff_slow_more:
  assumes "l < length (maxcode t)" "maxcode t ! l < code"
  shows "huff_slow t l code = pbind (pthen (CHECK_BIT_BUFFER 1) (JPEG_GETBITS 1))
    (\<lambda>x. huff_slow t (l + 1) (2 * code + uint x))"
  using assms by (intro ext) (simp add: huff_slow.simps [of t l code])

lemma drop_bit_step: "2 * drop_bit (Suc n) v + of_bool (bit v n) = drop_bit n (v :: nat)"
proof -
  have "drop_bit n v = 2 * (drop_bit n v div 2) + drop_bit n v mod 2" by simp
  then show ?thesis
    by (simp add: drop_bit_Suc bit_iff_odd_drop_bit mod_2_eq_odd flip: drop_bit_half)
qed

lemma bits_nat_single [simp]: "bits_nat [x] = of_bool x"
  by (simp add: bits_nat_def)

lemma takes_bit: "takes (pthen (CHECK_BIT_BUFFER 1) (JPEG_GETBITS 1)) [x] (of_bool x)"
  using takes_GETBITS [of "[x]" 1] by simp

lemma huff_slow_takes:
  assumes d: "decodes t cs ls vals" and c: "canonical cs ls" and k: "k < length ls"
    and m: "1 \<le> m" "m \<le> ls ! k"
  shows "takes (huff_slow t m (int (drop_bit (ls ! k - m) (unat (cs ! k)))))
    (nat_bits (ls ! k - m) (unat (cs ! k))) (vals ! k)"
  using m
proof (induction "ls ! k - m" arbitrary: m)
  case 0
  then have eq: "m = ls ! k" by simp
  with canonicalD [OF c k] have "m \<in> {1..16}" by simp
  with d k eq have "int (unat (cs ! k)) \<le> maxcode t ! m" "int (unat (cs ! k)) + valoffset t ! m = int k"
    "pub_huffval t = vals" "k < length vals" "length (maxcode t) = 18" "length (valoffset t) = 17"
    unfolding decodes_def tbl_shape_def by auto
  with huff_slow_found [of m t "int (unat (cs ! k))" k] \<open>m \<in> {1..16}\<close> eq show ?case
    using takes_pret by (simp add: nat_bits_def)
next
  case (Suc n)
  let ?c = "unat (cs ! k)"
  have n: "ls ! k - (m + 1) = n" "ls ! k - m = Suc n" using Suc.hyps(2) by simp_all
  have len: "m \<in> {1..16}" "m < length (maxcode t)"
    using Suc.prems Suc.hyps(2) canonicalD(2) [OF c k] d by (auto simp: decodes_def tbl_shape_def)
  have "maxcode t ! m < int (drop_bit (ls ! k - m) ?c)"
  proof -
    have "maxcode t ! m = -1 \<or> (\<exists>j < length ls. ls ! j = m \<and> maxcode t ! m = int (unat (cs ! j)))"
      using d len(1) unfolding decodes_def by blast
    then show ?thesis
    proof
      assume "\<exists>j < length ls. ls ! j = m \<and> maxcode t ! m = int (unat (cs ! j))"
      then obtain j where j: "j < length ls" "ls ! j = m" "maxcode t ! m = int (unat (cs ! j))" by blast
      have "j < k"
      proof (rule ccontr)
        assume "\<not> j < k"
        then have "ls ! k \<le> ls ! j" using canonical_order [OF c, of k j] j(1) by simp
        then show False using j(2) Suc.hyps(2) by simp
      qed
      from code_prefix_less [OF c this k] j(2) have "unat (cs ! j) < drop_bit (ls ! k - m) (unat (cs ! k))" by simp
      then show ?thesis by (simp only: j(3) of_nat_less_iff)
    qed simp
  qed
  note more = huff_slow_more [OF len(2) this]
  have bit: "nat_bits (Suc n) ?c = [bit ?c n] @ nat_bits n ?c"
    by (simp add: nat_bits_def)
  have code: "2 * int (drop_bit (Suc n) ?c) + uint (of_bool (bit ?c n) :: u32) = int (drop_bit n ?c)"
    using drop_bit_step [of n ?c, symmetric] by (simp only: of_nat_add of_nat_mult) simp
  have "takes (huff_slow t (m + 1) (int (drop_bit n ?c))) (nat_bits n ?c) (vals ! k)"
    using Suc.hyps(1) [of "m + 1"] n Suc.prems Suc.hyps(2) by simp
  then show ?case
    unfolding more unfolding n bit by (intro takes_pbind [OF takes_bit]) (simp add: code)
qed

lemma huff_DECODE_takes:
  assumes "decodes t cs ls vals" "canonical cs ls" "k < length ls" "1 \<le> m" "m \<le> ls ! k" "m \<le> 15"
  shows "takes (huff_DECODE_Progressive t m) (code_bits cs ls k) (vals ! k)"
proof -
  let ?c = "unat (cs ! k)"
  have split: "code_bits cs ls k = nat_bits m (drop_bit (ls ! k - m) ?c) @ nat_bits (ls ! k - m) ?c"
    using nat_bits_append [of m "ls ! k - m" ?c] assms(5) by simp
  have "drop_bit (ls ! k - m) ?c < 2 ^ m"
    using canonicalD(5) [OF assms(2,3)] assms(5)
    by (simp add: drop_bit_eq_div less_mult_imp_div_less flip: power_add)
  then have v: "take_bit m (drop_bit (ls ! k - m) ?c) = drop_bit (ls ! k - m) ?c"
    by (simp add: take_bit_nat_eq_self)
  have "drop_bit (ls ! k - m) ?c \<le> ?c" by (simp add: drop_bit_eq_div)
  then have "drop_bit (ls ! k - m) ?c < 65536" using unat_u16_less [of "cs ! k"] by linarith
  then have u: "uint (of_nat (drop_bit (ls ! k - m) ?c) :: u32) = int (drop_bit (ls ! k - m) ?c)"
    by (simp add: unsigned_of_nat take_bit_nat_eq_self)
  show ?thesis
    unfolding huff_DECODE_Progressive_def split
    by (rule takes_pbind [OF takes_GETBITS])
      (use assms huff_slow_takes [OF assms(1-5)] in \<open>simp_all add: v u\<close>)
qed


text \<open>The lookup: eight bits that begin with a short code give its length, eight bits that begin with a
  long one give nothing.\<close>

lemma lookup_short:
  assumes "decodes t cs ls vals" "canonical cs ls" "k < length ls" "ls ! k \<le> 8" "length xs = 8"
    and "take (ls ! k) xs = code_bits cs ls k"
  shows "look_nbits t ! bits_nat xs = int (ls ! k)" "look_sym t ! bits_nat xs = vals ! k"
proof -
  let ?l = "ls ! k" and ?r = "bits_nat (drop (ls ! k) xs)"
  have x: "bits_nat xs < 256" using bits_nat_less [of xs] assms(5) by simp
  have "nat_bits 8 (bits_nat xs) = xs" using nat_bits_bits_nat [of xs] assms(5) by simp
  then have "nat_bits ?l (drop_bit (8 - ?l) (bits_nat xs)) = code_bits cs ls k"
    using nat_bits_append [of ?l "8 - ?l" "bits_nat xs"] assms(4,6)
    by (metis append_eq_conv_conj le_add_diff_inverse length_nat_bits)
  then have "take_bit ?l (drop_bit (8 - ?l) (bits_nat xs)) = take_bit ?l (unat (cs ! k))"
    by (metis bits_nat_nat_bits)
  moreover have "drop_bit (8 - ?l) (bits_nat xs) < 2 ^ ?l"
    using x assms(4) by (simp add: drop_bit_eq_div less_mult_imp_div_less flip: power_add)
  ultimately have c: "bits_nat xs div 2 ^ (8 - ?l) = unat (cs ! k)"
    using canonicalD(5) [OF assms(2,3)] by (simp add: take_bit_nat_eq_self drop_bit_eq_div)
  have p: "2 ^ (16 - ?l) = 2 ^ (8 - ?l) * (256 :: nat)"
    using assms(4) power_add [of "2 :: nat" "8 - ?l" 8] by simp
  have "kraft (take k ls) \<le> bits_nat xs * 256 \<and> bits_nat xs * 256 < kraft (take (Suc k) ls)"
  proof -
    have "unat (cs ! k) * 2 ^ (8 - ?l) \<le> bits_nat xs" unfolding c [symmetric] by simp
    moreover have "bits_nat xs < unat (cs ! k) * 2 ^ (8 - ?l) + 2 ^ (8 - ?l)"
      unfolding c [symmetric] using mod_less_divisor [of "2 ^ (8 - ?l)" "bits_nat xs"]
      by (metis add.commute div_mult_mod_eq nat_add_left_cancel_less zero_less_numeral zero_less_power add_less_cancel_left)
    ultimately show ?thesis
      using canonicalD(3) [OF assms(2,3)] kraft_Suc [OF assms(3)] unfolding p
      by (metis (no_types, lifting) add_mult_distrib mult.assoc mult_le_mono1 mult_less_mono1 zero_less_numeral)
  qed
  with assms(1,3,4) x show "look_nbits t ! bits_nat xs = int (ls ! k)" "look_sym t ! bits_nat xs = vals ! k"
    unfolding decodes_def by blast+
qed

lemma lookup_long:
  assumes "decodes t cs ls vals" "canonical cs ls" "k < length ls" "8 < ls ! k" "xs = take 8 (code_bits cs ls k)"
  shows "look_nbits t ! bits_nat xs = 0"
proof -
  let ?c = "unat (cs ! k)"
  have "code_bits cs ls k = nat_bits 8 (drop_bit (ls ! k - 8) ?c) @ nat_bits (ls ! k - 8) ?c"
    using nat_bits_append [of 8 "ls ! k - 8" ?c] assms(4) by simp
  then have "xs = nat_bits 8 (drop_bit (ls ! k - 8) ?c)" using assms(5) by simp
  moreover have "drop_bit (ls ! k - 8) ?c = kraft (take k ls) div 256"
    using code_prefix [OF assms(2,3), of 8] assms(4) by simp
  moreover have "kraft (take k ls) < 256 * 256"
    using canonicalD(4) [OF assms(2,3)] zero_less_power [of "2 :: nat" "16 - ls ! k"] by linarith
  then have "kraft (take k ls) div 256 < 256" by (rule less_mult_imp_div_less)
  ultimately have x: "bits_nat xs = kraft (take k ls) div 256" "bits_nat xs < 256"
    by (simp_all add: take_bit_nat_eq_self)
  have "\<not> (kraft (take j ls) \<le> bits_nat xs * 256 \<and> bits_nat xs * 256 < kraft (take (Suc j) ls))"
    if j: "j < length ls" "ls ! j \<le> 8" for j
  proof -
    have "j < k" using canonical_order [OF assms(2), of k j] j assms(4) by (meson le_trans not_le)
    then have le: "kraft (take (Suc j) ls) \<le> kraft (take k ls)"
      using kraft_take_mono [of j k ls] kraft_Suc [OF j(1)] assms(3) by simp
    have "2 ^ (16 - ls ! j) = 2 ^ (8 - ls ! j) * (256 :: nat)"
      using j(2) power_add [of "2 :: nat" "8 - ls ! j" 8] by simp
    then have "256 dvd kraft (take (Suc j) ls)"
      using canonicalD(3) [OF assms(2) j(1)] kraft_Suc [OF j(1)]
      by (metis dvd_add dvd_triv_right dvd_mult)
    then have "kraft (take (Suc j) ls) \<le> kraft (take k ls) div 256 * 256"
      using le by (metis div_le_mono dvd_div_mult_self mult_le_mono1)
    then show ?thesis by (simp add: x)
  qed
  with assms(1) x(2) show ?thesis unfolding decodes_def by blast
qed


lemma CHECK_8: "(\<lambda>b. if s_jremain_bit_num b < 8 then JPEG_Fill_Bit_Buffer b else Some (JOk () b)) = CHECK_BIT_BUFFER 8"
  by (intro ext) (simp add: CHECK_BIT_BUFFER_def)

lemma HUFF_DECODE_takes:
  assumes d: "decodes t cs ls vals" and c: "canonical cs ls" and k: "k < length ls"
  shows "takes (HUFF_DECODE t) (code_bits cs ls k) (vals ! k)"
  unfolding takes_def
proof (intro allI impI)
  fix b ys assume b: "delivers b (code_bits cs ls k @ ys)"
  have "(8 :: nat) \<le> 15" by simp
  from b this obtain b1 where b1: "CHECK_BIT_BUFFER (of_nat 8) b = Some (JOk () b1)"
    "delivers b1 (code_bits cs ls k @ ys)" "stream b1 = stream b"
    "min 8 (length (code_bits cs ls k @ ys)) \<le> unat (s_jremain_bit_num b1)"
    by (rule CHECK_delivers)
  note l = canonicalD(1,2) [OF c k]
  let ?r = "s_jremain_bit_num b1"
  define xs where "xs = take 8 (code_bits cs ls k @ ys)"
  have run: "HUFF_DECODE t b = (if ?r < 8 then huff_DECODE_Progressive t 1 b1
     else pbind (PEEK_BITS 8) (\<lambda>look. let nb = look_nbits t ! unat look in
       if nb \<noteq> 0 then pthen (DROP_BITS (word_of_int nb)) (pret (look_sym t ! unat look))
       else huff_DECODE_Progressive t (HUFF_FIRST_READ + 1)) b1)"
    using b1(1) by (simp add: HUFF_DECODE_def CHECK_8 pthen_cases(1) [where m = "CHECK_BIT_BUFFER 8"] pbind_pget)
  have slow: "\<exists>b'. huff_DECODE_Progressive t m b1 = Some (JOk (vals ! k) b') \<and> delivers b' ys \<and> stream b' = stream b"
    if "1 \<le> m" "m \<le> ls ! k" "m \<le> 15" for m
    using huff_DECODE_takes [OF d c k that] b1(2,3) unfolding takes_def by fastforce
  show "\<exists>b'. HUFF_DECODE t b = Some (JOk (vals ! k) b') \<and> delivers b' ys \<and> stream b' = stream b"
  proof (cases "?r < 8")
    case True
    then show ?thesis using slow [of 1] l by (simp add: run)
  next
    case False
    then have r: "8 \<le> unat ?r" by (simp add: word_less_nat_alt)
    from b1(2) have "unat ?r \<le> length (code_bits cs ls k @ ys)" by (rule delivers_length)
    with r have len: "length xs = 8" by (simp add: xs_def)
    have "bits_nat xs < 2 ^ 8" using bits_nat_less [of xs] unfolding len .
    then have look: "unat (of_nat (bits_nat xs) :: u32) = bits_nat xs"
      by (simp add: unsigned_of_nat take_bit_nat_eq_self)
    have peek: "PEEK_BITS 8 b1 = Some (JOk (of_nat (bits_nat xs)) b1)"
      using PEEK_delivers [OF b1(2), of 8] r by (simp add: xs_def)
    show ?thesis
    proof (cases "ls ! k \<le> 8")
      case short: True
      then have "take (ls ! k) xs = code_bits cs ls k" by (simp add: xs_def)
      note found = lookup_short [OF d c k short len this]
      have "delivers (b1\<lparr>s_jremain_bit_num := ?r - of_nat (ls ! k)\<rparr>) ys"
        using delivers_split(2) [OF b1(2), of "ls ! k"] short r by simp
      with found short l b1(3) False show ?thesis
        by (simp add: run pbind_cases(1) [where m = "PEEK_BITS 8", OF peek] look Let_def) (simp add: pstmt DROP_BITS_def)
    next
      case long: False
      then have xs': "xs = take 8 (code_bits cs ls k)" by (simp add: xs_def)
      have "look_nbits t ! bits_nat xs = 0" by (rule lookup_long [OF d c k _ xs']) (use long in simp)
      with slow [of 9] long False show ?thesis
        by (simp add: run pbind_cases(1) [where m = "PEEK_BITS 8", OF peek] look HUFF_FIRST_READ_def)
    qed
  qed
qed

end
