(* ===== verification/ProgTable.thy ===== *)
theory ProgTable
  imports ProgHuffman
begin

text \<open>
  That \<^verbatim>\<open>build_vld_table\<close> fills the table of the software decoder with what \<^theory_text>\<open>decodes\<close> asks
  for, so that every code word of a Huffman table decodes to its symbol, and what happens to data that is
  no code word.
\<close>

lemma code_ranges_ok:
  assumes "p + sum_list (map unat bs) \<le> length hc" "l + length bs \<le> 17" "length mc = 18" "length vo = 17"
  shows "\<exists>mc' vo'. code_ranges l p bs hc (mc, vo) = Some (mc', vo') \<and> length mc' = 18 \<and> length vo' = 17
    \<and> (\<forall>m. m < l \<or> l + length bs \<le> m \<longrightarrow> mc' ! m = mc ! m \<and> vo' ! m = vo ! m)
    \<and> (\<forall>i < length bs. let first = p + sum_list (map unat (take i bs)); n = unat (bs ! i) in
         if n = 0 then mc' ! (l + i) = -1
         else mc' ! (l + i) = uint (hc ! (first + n - 1)) \<and> vo' ! (l + i) = int first - uint (hc ! first))"
  using assms
proof (induction bs arbitrary: l p mc vo)
  case (Cons b bs)
  define mc1 where "mc1 = (if b \<noteq> 0 then mc[l := uint (hc ! (p + unat b - 1))] else mc[l := -1])"
  define vo1 where "vo1 = (if b \<noteq> 0 then vo[l := int p - uint (hc ! p)] else vo)"
  have step: "code_ranges l p (b # bs) hc (mc, vo) = code_ranges (l + 1) (p + unat b) bs hc (mc1, vo1)"
    using Cons.prems(1) by (simp add: mc1_def vo1_def)
  have len: "length mc1 = 18" "length vo1 = 17" "l < length mc" "l < length vo"
    using Cons.prems by (simp_all add: mc1_def vo1_def)
  obtain mc' vo' where ih: "code_ranges (l + 1) (p + unat b) bs hc (mc1, vo1) = Some (mc', vo')"
    "length mc' = 18" "length vo' = 17"
    "\<forall>m. m < l + 1 \<or> l + 1 + length bs \<le> m \<longrightarrow> mc' ! m = mc1 ! m \<and> vo' ! m = vo1 ! m"
    "\<forall>i < length bs. let first = p + unat b + sum_list (map unat (take i bs)); n = unat (bs ! i) in
         if n = 0 then mc' ! (l + 1 + i) = -1
         else mc' ! (l + 1 + i) = uint (hc ! (first + n - 1)) \<and> vo' ! (l + 1 + i) = int first - uint (hc ! first)"
    using Cons.IH [of "p + unat b" "l + 1" mc1 vo1] Cons.prems len by auto
  have old: "mc' ! m = mc ! m \<and> vo' ! m = vo ! m" if "m < l \<or> l + length (b # bs) \<le> m" for m
    using that ih(4) by (auto simp: mc1_def vo1_def)
  have entry: "let first = p + sum_list (map unat (take i (b # bs))); n = unat ((b # bs) ! i) in
         if n = 0 then mc' ! (l + i) = -1
         else mc' ! (l + i) = uint (hc ! (first + n - 1)) \<and> vo' ! (l + i) = int first - uint (hc ! first)"
    if i: "i < length (b # bs)" for i
  proof (cases i)
    case 0
    then show ?thesis using ih(4) len by (simp add: mc1_def vo1_def unat_eq_zero)
  next
    case (Suc j)
    with i have "j < length bs" by simp
    from ih(5) [rule_format, OF this] show ?thesis by (auto simp: Suc Let_def add.assoc split: if_splits)
  qed
  show ?case
    unfolding step using ih(1-3) old entry by blast
qed simp

lemma fill_run_ok:
  assumes "a + n \<le> 256" "length nb = 256" "length sy = 256"
  shows "\<exists>nb' sy'. fill_run n (of_nat a) v s (nb, sy) = Some (nb', sy') \<and> length nb' = 256 \<and> length sy' = 256
    \<and> (\<forall>x. nb' ! x = (if a \<le> x \<and> x < a + n then v else nb ! x))
    \<and> (\<forall>x. sy' ! x = (if a \<le> x \<and> x < a + n then s else sy ! x))"
  using assms
proof (induction n arbitrary: a nb sy)
  case (Suc n)
  have a: "unat (of_nat a :: u16) = a"
    using Suc.prems(1) by (simp add: unsigned_of_nat take_bit_nat_eq_self)
  have "\<exists>nb' sy'. fill_run n (of_nat (Suc a)) v s (nb[a := v], sy[a := s]) = Some (nb', sy')
    \<and> length nb' = 256 \<and> length sy' = 256
    \<and> (\<forall>x. nb' ! x = (if Suc a \<le> x \<and> x < Suc a + n then v else nb[a := v] ! x))
    \<and> (\<forall>x. sy' ! x = (if Suc a \<le> x \<and> x < Suc a + n then s else sy[a := s] ! x))"
    using Suc.prems by (intro Suc.IH) simp_all
  then obtain nb' sy' where ih: "fill_run n (of_nat (Suc a)) v s (nb[a := v], sy[a := s]) = Some (nb', sy')"
    "length nb' = 256" "length sy' = 256"
    "\<And>x. nb' ! x = (if Suc a \<le> x \<and> x < Suc a + n then v else nb[a := v] ! x)"
    "\<And>x. sy' ! x = (if Suc a \<le> x \<and> x < Suc a + n then s else sy[a := s] ! x)"
    by blast
  have "fill_run (Suc n) (of_nat a) v s (nb, sy) = Some (nb', sy')"
    using ih(1) Suc.prems a by (simp add: add.commute)
  moreover have "nb' ! x = (if a \<le> x \<and> x < a + Suc n then v else nb ! x)" for x
    using Suc.prems unfolding ih(4) by (cases "x = a") auto
  moreover have "sy' ! x = (if a \<le> x \<and> x < a + Suc n then s else sy ! x)" for x
    using Suc.prems unfolding ih(5) by (cases "x = a") auto
  ultimately show ?case using ih(2,3) by blast
qed auto

text \<open>The lookup arrays while they are filled: the runs of the first \<open>p\<close> codes stand one behind the
  other.\<close>

definition filled :: "nat list \<Rightarrow> bytes \<Rightarrow> nat \<Rightarrow> int list \<Rightarrow> bytes \<Rightarrow> bool" where
  "filled ls vals p nb sy \<longleftrightarrow> length nb = 256 \<and> length sy = 256
     \<and> (\<forall>k < p. \<forall>x < 256. kraft (take k ls) \<le> x * 256 \<and> x * 256 < kraft (take (Suc k) ls)
          \<longrightarrow> nb ! x = int (ls ! k) \<and> sy ! x = vals ! k)
     \<and> (\<forall>x < 256. kraft (take p ls) \<le> x * 256 \<longrightarrow> nb ! x = 0)"

lemma kraft_take_le_take: "j \<le> k \<Longrightarrow> kraft (take j ls) \<le> kraft (take k ls)"
  by (metis kraft_take_le min.absorb1 take_take)

lemma filled_step:
  assumes c: "canonical cs ls" and p: "p < length ls" "ls ! p \<le> 8" and f: "filled ls vals p nb sy"
  shows "\<exists>nb' sy'. fill_run (2 ^ (8 - ls ! p)) (push_bit (8 - ls ! p) (cs ! p)) (int (ls ! p)) (vals ! p) (nb, sy)
      = Some (nb', sy') \<and> filled ls vals (Suc p) nb' sy'"
proof -
  let ?n = "2 ^ (8 - ls ! p) :: nat" and ?a = "unat (cs ! p) * 2 ^ (8 - ls ! p)"
  have pow: "2 ^ (16 - ls ! p) = ?n * 256"
    using p(2) power_add [of "2 :: nat" "8 - ls ! p" 8] by simp
  have K: "kraft (take p ls) = ?a * 256" "kraft (take (Suc p) ls) = (?a + ?n) * 256"
    using canonicalD(3) [OF c p(1)] kraft_Suc [OF p(1)] by (simp_all add: pow add_mult_distrib)
  have room: "?a + ?n \<le> 256"
    using canonicalD(4) [OF c p(1)] kraft_Suc [OF p(1)] K(2) by simp
  have word: "(push_bit (8 - ls ! p) (cs ! p) :: u16) = of_nat ?a"
    by (simp add: push_bit_eq_mult)
  from f have len: "length nb = 256" "length sy = 256" by (simp_all add: filled_def)
  obtain nb' sy' where run: "fill_run ?n (push_bit (8 - ls ! p) (cs ! p)) (int (ls ! p)) (vals ! p) (nb, sy)
      = Some (nb', sy')" "length nb' = 256" "length sy' = 256"
    "\<And>x. nb' ! x = (if ?a \<le> x \<and> x < ?a + ?n then int (ls ! p) else nb ! x)"
    "\<And>x. sy' ! x = (if ?a \<le> x \<and> x < ?a + ?n then vals ! p else sy ! x)"
    unfolding word using fill_run_ok [OF room len, of "int (ls ! p)" "vals ! p"] by blast
  have "nb' ! x = int (ls ! k) \<and> sy' ! x = vals ! k"
    if k: "k < Suc p" "x < 256" "kraft (take k ls) \<le> x * 256" "x * 256 < kraft (take (Suc k) ls)" for k x
  proof (cases "k = p")
    case True
    then have "?a \<le> x" "x < ?a + ?n" using k K by simp_all
    with True show ?thesis by (simp add: run(4,5))
  next
    case False
    then have "kraft (take (Suc k) ls) \<le> kraft (take p ls)" using k(1) by (intro kraft_take_le_take) simp
    then have "x < ?a" using k(4) K(1) by simp
    moreover from f k False have "nb ! x = int (ls ! k) \<and> sy ! x = vals ! k"
      unfolding filled_def by (metis less_antisym)
    ultimately show ?thesis by (simp add: run(4,5))
  qed
  moreover have "nb' ! x = 0" if x: "x < 256" "kraft (take (Suc p) ls) \<le> x * 256" for x
  proof -
    have "?a + ?n \<le> x" using x(2) K(2) by simp
    moreover have "kraft (take p ls) \<le> x * 256" using x(2) kraft_Suc [OF p(1)] by simp
    ultimately show ?thesis using f x(1) by (simp add: run(4) filled_def)
  qed
  ultimately show ?thesis using run(1-3) unfolding filled_def by blast
qed

lemma fill_lookup_ok:
  assumes c: "canonical cs ls" and hc: "\<And>k. k < length ls \<Longrightarrow> hc ! k = cs ! k" "length ls \<le> length hc"
    and v: "length ls \<le> length vals"
    and "es = take (length es) (drop p ls)" "\<forall>l \<in> set es. l \<le> 8" "filled ls vals p nb sy"
  shows "\<exists>nb' sy'. fill_lookup p es hc vals (nb, sy) = Some (nb', sy') \<and> filled ls vals (p + length es) nb' sy'"
  using assms(5-7)
proof (induction es arbitrary: p nb sy)
  case (Cons l es)
  from Cons.prems(1) have "drop p ls \<noteq> []" by auto
  then have p: "p < length ls" by simp
  then have "drop p ls = ls ! p # drop (Suc p) ls" by (simp add: Cons_nth_drop_Suc)
  with Cons.prems(1) have l: "l = ls ! p" "es = take (length es) (drop (Suc p) ls)" by simp_all
  have "ls ! p \<le> 8" using Cons.prems(2) l(1) by simp
  from filled_step [OF c p this Cons.prems(3)] obtain nb1 sy1 where
    "fill_run (2 ^ (8 - ls ! p)) (push_bit (8 - ls ! p) (cs ! p)) (int (ls ! p)) (vals ! p) (nb, sy) = Some (nb1, sy1)"
    and f: "filled ls vals (Suc p) nb1 sy1" by blast
  then have step: "fill_lookup p (l # es) hc vals (nb, sy) = fill_lookup (Suc p) es hc vals (nb1, sy1)"
    using p hc(1) [OF p] hc(2) v l(1) by (simp add: HUFF_FIRST_READ_def)
  show ?case
    unfolding step using Cons.IH [OF l(2) _ f] Cons.prems(2) by simp
qed simp


text \<open>Lengths up to eight come first.\<close>

lemma look_lengths_take:
  assumes "17 \<le> length bits"
  shows "look_lengths bits = lengths_from 1 (take 8 (counts bits))"
proof -
  have "take 8 (counts bits) = map (\<lambda>i. unat (bits ! i)) [1..<9]"
    using assms by (simp add: counts_def chunk_nth take_map [symmetric] flip: One_nat_def) (simp add: take_map)
  then show ?thesis
    using lengths_from_upt [of 1 "\<lambda>i. unat (bits ! i)" 9] by (simp add: look_lengths_def HUFF_FIRST_READ_def)
qed

lemma lengths_from_append: "lengths_from l (as @ bs) = lengths_from l as @ lengths_from (l + length as) bs"
  by (induction as arbitrary: l) simp_all

lemma look_lengths_code:
  assumes "17 \<le> length bits"
  shows "code_lengths bits = look_lengths bits @ lengths_from 9 (drop 8 (counts bits))"
    and "\<forall>l \<in> set (look_lengths bits). l \<le> 8" "\<forall>l \<in> set (lengths_from 9 (drop 8 (counts bits))). 8 < l"
proof -
  have len: "length (take 8 (counts bits)) = 8" using assms by (simp add: counts_def length_chunk)
  show "code_lengths bits = look_lengths bits @ lengths_from 9 (drop 8 (counts bits))"
    unfolding code_lengths_def look_lengths_take [OF assms]
    using lengths_from_append [of 1 "take 8 (counts bits)" "drop 8 (counts bits)"] len by simp
  show "\<forall>l \<in> set (look_lengths bits). l \<le> 8"
    using lengths_from_range(1) [of 1 "take 8 (counts bits)"] len by (auto simp: look_lengths_take [OF assms])
  show "\<forall>l \<in> set (lengths_from 9 (drop 8 (counts bits))). 8 < l"
    using lengths_from_range(1) [of 9 "drop 8 (counts bits)"] by auto
qed

text \<open>Eight bits below the room of the first \<open>n\<close> codes begin with one of them.\<close>

lemma kraft_covers: "n \<le> length ls \<Longrightarrow> x < kraft (take n ls) \<Longrightarrow> \<exists>k < n. kraft (take k ls) \<le> x \<and> x < kraft (take (Suc k) ls)"
proof (induction n)
  case (Suc n)
  show ?case
  proof (cases "x < kraft (take n ls)")
    case True
    with Suc show ?thesis by (auto intro: less_SucI)
  next
    case False
    with Suc.prems show ?thesis by (intro exI [of _ n]) simp
  qed
qed simp

lemma code_index:
  assumes i: "i < 16" and len: "17 \<le> length bits"
  defines "first \<equiv> sum_list (take i (counts bits))"
  shows "k < length (code_lengths bits) \<Longrightarrow> code_lengths bits ! k = i + 1 \<longleftrightarrow> first \<le> k \<and> k < first + counts bits ! i"
    and "first + counts bits ! i \<le> length (code_lengths bits)"
proof -
  have i': "i < length (counts bits)" using i len by (simp add: counts_def length_chunk)
  let ?a = "lengths_from 1 (take i (counts bits))" and ?z = "lengths_from (1 + i + 1) (drop (i + 1) (counts bits))"
  have split: "code_lengths bits = ?a @ replicate (counts bits ! i) (1 + i) @ ?z"
    unfolding code_lengths_def by (rule lengths_from_split [OF i'])
  have a: "length ?a = first" "\<And>l. l \<in> set ?a \<Longrightarrow> l < i + 1" "\<And>l. l \<in> set ?z \<Longrightarrow> i + 1 < l"
    using lengths_from_range(1) [of 1 "take i (counts bits)"] lengths_from_range(1) [of "1 + i + 1" "drop (i + 1) (counts bits)"]
    by (auto simp: lengths_from_range(3) first_def)
  show "first + counts bits ! i \<le> length (code_lengths bits)" unfolding split using a(1) by simp
  assume k: "k < length (code_lengths bits)"
  have "code_lengths bits ! k < i + 1" if "k < first"
    using that a(1) a(2) [of "?a ! k"] by (simp add: split nth_append)
  moreover have "code_lengths bits ! k = i + 1" if "first \<le> k" "k < first + counts bits ! i"
    using that a(1) less_diff_conv2 [OF that(1)] by (simp add: split nth_append add.commute)
  moreover have "i + 1 < code_lengths bits ! k" if "first + counts bits ! i \<le> k"
    using that a(1) k a(3) [of "?z ! (k - first - counts bits ! i)"] by (simp add: split nth_append)
  ultimately show "code_lengths bits ! k = i + 1 \<longleftrightarrow> first \<le> k \<and> k < first + counts bits ! i"
    by (metis leI less_irrefl)
qed


lemma ranges_meaning:
  assumes c: "canonical cs ls" and ls: "ls = code_lengths bits" and len: "17 \<le> length bits"
    and hc: "\<And>k. k < length ls \<Longrightarrow> hc ! k = cs ! k"
    and entry: "\<And>i. i < 16 \<Longrightarrow> let first = sum_list (take i (counts bits)); m = counts bits ! i in
         if m = 0 then mc ! (1 + i) = -1
         else mc ! (1 + i) = uint (hc ! (first + m - 1)) \<and> vo ! (1 + i) = int first - uint (hc ! first)"
    and l: "l \<in> {1..16}"
  shows "(\<forall>k < length ls. ls ! k = l \<longrightarrow> int (unat (cs ! k)) \<le> mc ! l \<and> int (unat (cs ! k)) + vo ! l = int k)
    \<and> (mc ! l = -1 \<or> (\<exists>k < length ls. ls ! k = l \<and> mc ! l = int (unat (cs ! k))))"
proof -
  define i where "i = l - 1"
  have i: "i < 16" "l = 1 + i" using l by (auto simp: i_def)
  define first m where "first = sum_list (take i (counts bits))" and "m = counts bits ! i"
  note index = code_index [OF i(1) len, folded first_def m_def ls]
  show ?thesis
  proof (cases "m = 0")
    case True
    with entry [OF i(1)] index(1) i(2) show ?thesis by (auto simp: Let_def m_def)
  next
    case False
    let ?z = "first + m - 1"
    have z: "?z < length ls" "first < length ls" using index(2) False by simp_all
    then have ends: "ls ! ?z = l" "ls ! first = l" using index(1) False i(2) by auto
    have mc: "mc ! l = int (unat (cs ! ?z))" "vo ! l = int first - int (unat (cs ! first))"
      using entry [OF i(1)] False hc z i(2) by (simp_all add: Let_def first_def m_def)
    have "int (unat (cs ! k)) \<le> mc ! l \<and> int (unat (cs ! k)) + vo ! l = int k" if k: "k < length ls" "ls ! k = l" for k
    proof -
      have "first \<le> k" "k < first + m" using index(1) [OF k(1)] k(2) i(2) by simp_all
      moreover from this have "k \<le> ?z" by linarith
      ultimately
      have "unat (cs ! k) = unat (cs ! first) + (k - first)" "unat (cs ! ?z) = unat (cs ! k) + (?z - k)"
        using code_run [OF c, of first k] code_run [OF c, of k ?z] k z(1) ends by simp_all
      with \<open>first \<le> k\<close> show ?thesis unfolding mc by (simp only: of_nat_le_iff) simp
    qed
    with z(1) ends(1) mc(1) show ?thesis by blast
  qed
qed

text \<open>The table that is derived decodes the code of the public table, when the lookup starts out empty,
  as memory that \<^verbatim>\<open>JpegDec_InitMem\<close> has cleared.\<close>

definition loadable_table :: "bytes \<Rightarrow> bytes \<Rightarrow> bool" where
  "loadable_table bits vals \<longleftrightarrow> 17 \<le> length bits \<and> bits ! 0 = 0 \<and> 257 \<le> length vals
     \<and> sum_list (counts bits) \<le> 256 \<and> consistent bits"

definition cleared_lookup :: "derived_tbl \<Rightarrow> bool" where
  "cleared_lookup t \<longleftrightarrow> tbl_shape t \<and> look_nbits t = replicate 256 0"

lemma counts_take: "17 \<le> length bits \<Longrightarrow> counts (take 17 bits) = counts bits"
  by (simp add: counts_def chunk_def drop_take min_def)

lemma derive_table_decodes:
  assumes "loadable_table bits vals" "cleared_lookup t"
  shows "\<exists>t' cs. derive_table bits vals t = Some t' \<and> canonical cs (code_lengths bits)
    \<and> decodes t' cs (code_lengths bits) (take 257 vals) \<and> maxcode t' ! 17 = maxcode t ! 17"
proof -
  let ?ls = "code_lengths bits" and ?pub = "take 17 bits" and ?vals = "take 257 vals"
  from assms have len: "17 \<le> length bits" "bits ! 0 = 0" "257 \<le> length vals" "sum_list (counts bits) \<le> 256"
    "consistent bits" and t: "length (maxcode t) = 18" "length (valoffset t) = 17" "length (look_sym t) = 256"
    "look_nbits t = replicate 256 0"
    by (simp_all add: loadable_table_def cleared_lookup_def tbl_shape_def)
  have pub: "counts ?pub = counts bits" "code_lengths ?pub = ?ls" "length ?pub = 17"
    using counts_take [OF len(1)] len(1) by (simp_all add: code_lengths_def)
  have n: "length ?ls \<le> 256" using code_lengths_range(3) [of bits] len(4) by simp
  have sizes: "length (huff_sizes ?pub) = length ?ls"
    using huff_sizes_lengths [of ?pub] pub by simp
  define zs :: bytes where "zs = replicate (256 - length ?ls) 0"
  have zeros: "replicate (257 - length ?ls) 0 = (0 :: u8) # zs"
    using n by (simp add: zs_def flip: replicate_Suc add: Suc_diff_le)
  obtain cs where cs: "gen_codes (huff_sizes ?pub @ 0 # zs) (ucast ((huff_sizes ?pub @ 0 # zs) ! 0)) 0 = Some cs"
    "length cs = length ?ls" "lefts cs ?ls = left_codes 0 ?ls"
    using gen_codes_canonical [of ?pub zs] pub len(1,5) by (auto simp: consistent_def)
  have canonical: "canonical cs ?ls"
    using cs(2) lefts_nth [OF cs(3,2)] code_lengths_range [of bits] len(5) by (simp add: canonical_def consistent_def)
  define hc where "hc = cs @ replicate (257 - length cs) 0xFFFF"
  have hc: "length hc = 257" "\<And>k. k < length ?ls \<Longrightarrow> hc ! k = cs ! k"
    using cs(2) n by (simp_all add: hc_def nth_append)
  have bs: "map unat (chunk 1 16 ?pub) = counts bits" "length (chunk 1 16 ?pub) = 16"
    using pub by (simp_all add: counts_def length_chunk)
  then have unat_bs: "unat (chunk 1 16 ?pub ! i) = counts bits ! i" if "i < 16" for i
    using that by (metis nth_map)
  obtain mc vo where ranges: "code_ranges 1 0 (chunk 1 16 ?pub) hc (maxcode t, valoffset t) = Some (mc, vo)"
    "length mc = 18" "length vo = 17" "mc ! 17 = maxcode t ! 17"
    and entry: "\<And>i. i < 16 \<Longrightarrow> let first = sum_list (take i (counts bits)); m = counts bits ! i in
         if m = 0 then mc ! (1 + i) = -1
         else mc ! (1 + i) = uint (hc ! (first + m - 1)) \<and> vo ! (1 + i) = int first - uint (hc ! first)"
    using code_ranges_ok [of 0 "chunk 1 16 ?pub" hc 1 "maxcode t" "valoffset t"] t bs len(4) hc(1) unat_bs
    by (auto simp: Let_def take_map [symmetric] simp del: One_nat_def)
  note look = look_lengths_code [OF len(1)]
  have "\<exists>nb sy. fill_lookup 0 (look_lengths bits) hc ?vals (look_nbits t, look_sym t) = Some (nb, sy)
      \<and> filled ?ls ?vals (0 + length (look_lengths bits)) nb sy"
    by (rule fill_lookup_ok [OF canonical hc(2) _ _ _ look(2)]) (use n hc(1) len(3) look(1) t in \<open>simp_all add: filled_def\<close>)
  then obtain nb sy where lookup: "fill_lookup 0 (look_lengths bits) hc ?vals (look_nbits t, look_sym t) = Some (nb, sy)"
    and filled: "filled ?ls ?vals (length (look_lengths bits)) nb sy"
    by auto
  let ?t = "t\<lparr>maxcode := mc, valoffset := vo, pub_bits := ?pub, pub_huffval := ?vals, look_nbits := nb, look_sym := sy\<rparr>"
  have "look_lengths ?pub = look_lengths bits"
    using look_lengths_take [of ?pub] look_lengths_take [OF len(1)] pub by simp
  then have "derive_table bits vals t = Some ?t"
    using len(1-3) n sizes zeros cs(1) ranges(1) lookup by (simp add: derive_table_def Let_def flip: hc_def)
  moreover have "decodes ?t cs ?ls ?vals"
  proof -
    have short: "k < length (look_lengths bits)" if "k < length ?ls" "?ls ! k \<le> 8" for k
    proof (rule ccontr)
      assume k: "\<not> k < length (look_lengths bits)"
      then have "?ls ! k \<in> set (lengths_from 9 (drop 8 (counts bits)))"
        using that(1) unfolding look(1) by (simp add: nth_append)
      with look(3) that(2) show False by fastforce
    qed
    have long: "kraft (take (length (look_lengths bits)) ?ls) \<le> x * 256"
      if "\<forall>k < length ?ls. ?ls ! k \<le> 8 \<longrightarrow> \<not> (kraft (take k ?ls) \<le> x * 256 \<and> x * 256 < kraft (take (Suc k) ?ls))" for x
    proof (rule ccontr)
      assume "\<not> kraft (take (length (look_lengths bits)) ?ls) \<le> x * 256"
      then obtain k where k: "k < length (look_lengths bits)" "kraft (take k ?ls) \<le> x * 256" "x * 256 < kraft (take (Suc k) ?ls)"
        using kraft_covers [of "length (look_lengths bits)" ?ls "x * 256"] by (auto simp: look(1))
      then have "k < length ?ls" "?ls ! k \<le> 8" using look(2) by (auto simp: look(1) nth_append)
      with k that show False by blast
    qed
    show ?thesis
      unfolding decodes_def
    proof (intro conjI)
      show "tbl_shape ?t" using ranges(2,3) filled by (simp add: tbl_shape_def filled_def)
      show "length ?ls \<le> length ?vals" using n len(3) by simp
      show "\<forall>l \<in> {1..16}. (\<forall>k < length ?ls. ?ls ! k = l \<longrightarrow> int (unat (cs ! k)) \<le> maxcode ?t ! l
            \<and> int (unat (cs ! k)) + valoffset ?t ! l = int k)
          \<and> (maxcode ?t ! l = -1 \<or> (\<exists>k < length ?ls. ?ls ! k = l \<and> maxcode ?t ! l = int (unat (cs ! k))))"
        using ranges_meaning [OF canonical refl len(1) hc(2) entry] by simp
    qed (use filled short long in \<open>auto simp: filled_def\<close>)
  qed
  ultimately show ?thesis using canonical ranges(4) by (intro exI [of _ ?t] exI [of _ cs]) simp
qed


subsection \<open>Every code word decodes to its symbol\<close>

text \<open>The reference: the code word of a symbol is the room that the words of the symbols before it take
  up, cut to its length.\<close>

definition table_symbols :: "bytes \<Rightarrow> bytes \<Rightarrow> u8 set" where
  "table_symbols bits vals = set (take (length (code_lengths bits)) vals)"

definition code_word :: "bytes \<Rightarrow> bytes \<Rightarrow> u8 \<Rightarrow> bool list" where
  "code_word bits vals x =
     (let ls = code_lengths bits; k = length (takeWhile (\<lambda>y. y \<noteq> x) vals)
      in nat_bits (ls ! k) (kraft (take k ls) div 2 ^ (16 - ls ! k)))"

lemma code_word_bits:
  assumes "canonical cs ls" "ls = code_lengths bits" "x \<in> table_symbols bits vals"
  obtains k where "k < length ls" "vals ! k = x" "code_word bits vals x = code_bits cs ls k"
proof -
  let ?k = "length (takeWhile (\<lambda>y. y \<noteq> x) vals)"
  obtain i where i: "i < length ls" "i < length vals" "vals ! i = x"
    using assms(2,3) by (auto simp: table_symbols_def in_set_conv_nth)
  have le: "?k \<le> i"
  proof (rule ccontr)
    assume "\<not> ?k \<le> i"
    then have "i < ?k" by simp
    then have "vals ! i \<in> set (takeWhile (\<lambda>y. y \<noteq> x) vals)" by (metis nth_mem takeWhile_nth)
    then show False using i(3) by (auto dest: set_takeWhileD)
  qed
  then have k: "?k < length ls" "?k < length vals" using i by simp_all
  have "vals ! ?k = x" using nth_length_takeWhile [OF k(2)] by simp
  moreover have "kraft (take ?k ls) div 2 ^ (16 - ls ! ?k) = unat (cs ! ?k)"
    using canonicalD(3) [OF assms(1) k(1)] by (metis nonzero_mult_div_cancel_right power_not_zero zero_neq_numeral)
  ultimately show thesis using that [OF k(1)] assms(2) by (simp add: code_word_def Let_def)
qed

lemma derived_takes:
  assumes "loadable_table bits vals" "cleared_lookup t" "derive_table bits vals t = Some t'" "x \<in> table_symbols bits vals"
  shows "takes (HUFF_DECODE t') (code_word bits vals x) x"
    and "takes (huff_DECODE_Progressive t' 1) (code_word bits vals x) x"
proof -
  obtain cs where c: "canonical cs (code_lengths bits)" and d: "decodes t' cs (code_lengths bits) (take 257 vals)"
    using derive_table_decodes [OF assms(1,2)] assms(3) by auto
  obtain k where k: "k < length (code_lengths bits)" "vals ! k = x" "code_word bits vals x = code_bits cs (code_lengths bits) k"
    using code_word_bits [OF c refl assms(4)] by blast
  have "length (code_lengths bits) \<le> 256" using assms(1) by (simp add: loadable_table_def code_lengths_range(3))
  then have "take 257 vals ! k = x" using k by simp
  then show "takes (HUFF_DECODE t') (code_word bits vals x) x" "takes (huff_DECODE_Progressive t' 1) (code_word bits vals x) x"
    using HUFF_DECODE_takes [OF d c k(1)] huff_DECODE_takes [OF d c k(1), of 1] canonicalD(1) [OF c k(1)]
    unfolding k(3) by simp_all
qed

text \<open>C15: the software decoder reads symbols.  For a Huffman table of the picture whose code fits (and whose
  unused entry 0 is 0), \<^verbatim>\<open>build_vld_table\<close> succeeds on cleared memory.  A stream, with any stuffing, whose
  next bits are the code word of one of the table's symbols, as the standard defines it, then yields this symbol
  and goes on behind the word, both with the lookup of eight bits and bit by bit.\<close>

theorem build_vld_table_decodes:
  assumes "loadable_table bits vals" "cleared_lookup t"
  shows "\<exists>t'. derive_table bits vals t = Some t'
    \<and> (\<forall>x \<in> table_symbols bits vals. \<forall>b ys. delivers b (code_word bits vals x @ ys) \<longrightarrow>
         (\<exists>b'. HUFF_DECODE t' b = Some (JOk x b') \<and> delivers b' ys)
       \<and> (\<exists>b'. huff_DECODE_Progressive t' 1 b = Some (JOk x b') \<and> delivers b' ys))"
proof -
  obtain t' where "derive_table bits vals t = Some t'"
    using derive_table_decodes [OF assms] by blast
  with derived_takes [OF assms] show ?thesis by (blast intro: takes_run)
qed

text \<open>Example data: the default table of the luminance DC values and memory that has been cleared.\<close>

definition cleared_table :: derived_tbl where
  "cleared_table = \<lparr>maxcode = replicate 18 0, valoffset = replicate 17 0, pub_bits = [], pub_huffval = [],
     look_nbits = replicate 256 0, look_sym = replicate 256 0\<rparr>"

definition dc_values :: bytes where
  "dc_values = jpeg_fw_lum_dc_huffvalue_default @ replicate 245 0"

lemma cleared_table_ok: "cleared_lookup cleared_table" "maxcode cleared_table ! 17 = 0"
  by (simp_all add: cleared_lookup_def cleared_table_def tbl_shape_def)

lemma dc_table_loadable: "loadable_table jpeg_fw_lum_dc_bits_default dc_values"
  using default_consistent(1) by (simp add: loadable_table_def counts_def chunk_def dc_values_def
    jpeg_fw_lum_dc_bits_default_def jpeg_fw_lum_dc_huffvalue_default_def)

theorem build_vld_table_decodes_witness:
  "\<exists>t'. derive_table jpeg_fw_lum_dc_bits_default dc_values cleared_table = Some t'"
  using build_vld_table_decodes [OF dc_table_loadable cleared_table_ok(1)] by blast

subsection \<open>Data that is no code word\<close>

lemma huff_slow_runs_off:
  assumes d: "decodes t cs ls vals" and c: "canonical cs ls" and "kraft ls < 65536" "maxcode t ! 17 < 131071"
    and "1 \<le> m" "m \<le> 17" "delivers b (replicate (18 - m) True @ ys)"
  shows "huff_slow t m (2 ^ m - 1) b = Some JFault"
  using assms(5-7)
proof (induction "17 - m" arbitrary: m b)
  case 0
  then have m: "m = 17" by simp
  have len: "length (maxcode t) = 18" using d by (simp add: decodes_def tbl_shape_def)
  from 0(4) m have "delivers b ([True] @ ys)" by simp
  with takes_bit [of True] obtain b1 where
    "pthen (CHECK_BIT_BUFFER 1) (JPEG_GETBITS 1) b = Some (JOk (of_bool True) b1)" by (rule takesD)
  with huff_slow_more [of 17 t "2 ^ 17 - 1"] len assms(4) m show ?case
    by (simp add: pbind_cases(1) [where m = "pthen (CHECK_BIT_BUFFER 1) (JPEG_GETBITS 1)"] huff_slow.simps [of t 18])
next
  case (Suc n)
  then have m: "m \<in> {1..16}" "m < length (maxcode t)" using d by (simp_all add: decodes_def tbl_shape_def)
  have "maxcode t ! m < 2 ^ m - 1"
  proof -
    have "maxcode t ! m = -1 \<or> (\<exists>j < length ls. ls ! j = m \<and> maxcode t ! m = int (unat (cs ! j)))"
      using d m(1) unfolding decodes_def by blast
    then show ?thesis
    proof
      assume "\<exists>j < length ls. ls ! j = m \<and> maxcode t ! m = int (unat (cs ! j))"
      then obtain j where j: "j < length ls" "ls ! j = m" "maxcode t ! m = int (unat (cs ! j))" by blast
      have "(unat (cs ! j) + 1) * 2 ^ (16 - m) < 2 ^ m * 2 ^ (16 - m)"
        using canonicalD(3) [OF c j(1)] kraft_Suc [OF j(1)] kraft_take_le [of "Suc j" ls] assms(3) j(2) m(1)
        by (simp flip: power_add)
      then have "unat (cs ! j) + 1 < 2 ^ m" using mult_less_cancel2 by blast
      then have "int (unat (cs ! j) + 1) < int (2 ^ m)" by (simp only: of_nat_less_iff)
      then show ?thesis unfolding j(3) by simp
    qed simp
  qed
  note more = huff_slow_more [OF m(2) this]
  have "18 - m = Suc (18 - (m + 1))" using Suc.hyps(2) by simp
  then have "replicate (18 - m) True = [True] @ replicate (18 - (m + 1)) True"
    by (simp only: replicate_Suc append.simps)
  then have "delivers b ([True] @ (replicate (18 - (m + 1)) True @ ys))"
    using Suc.prems(3) by (simp only: append_assoc)
  with takes_bit [of True] obtain b1 where
    b1: "pthen (CHECK_BIT_BUFFER 1) (JPEG_GETBITS 1) b = Some (JOk (of_bool True) b1)"
    "delivers b1 (replicate (18 - (m + 1)) True @ ys)" by (rule takesD)
  have "huff_slow t (m + 1) (2 ^ (m + 1) - 1) b1 = Some JFault"
    using Suc.hyps(1) [of "m + 1" b1] Suc.hyps(2) Suc.prems b1(2) by simp
  then show ?case
    using b1(1) by (simp add: more pbind_cases(1) [where m = "pthen (CHECK_BIT_BUFFER 1) (JPEG_GETBITS 1)"])
qed


lemma lookup_ones:
  assumes d: "decodes t cs ls vals" and c: "canonical cs ls" and "kraft ls < 65536"
  shows "look_nbits t ! 255 = 0"
proof -
  have "\<not> 255 * 256 < kraft (take (Suc k) ls)" if k: "k < length ls" "ls ! k \<le> 8" for k
  proof -
    have "2 ^ (16 - ls ! k) = 2 ^ (8 - ls ! k) * (256 :: nat)"
      using k(2) power_add [of "2 :: nat" "8 - ls ! k" 8] by simp
    then have "256 dvd kraft (take (Suc k) ls)"
      using canonicalD(3) [OF c k(1)] kraft_Suc [OF k(1)] by (metis dvd_add dvd_triv_right dvd_mult)
    moreover have "kraft (take (Suc k) ls) < 256 * 256" using kraft_take_le [of "Suc k" ls] assms(3) by simp
    ultimately show ?thesis by (auto elim!: dvdE)
  qed
  moreover from d have "\<forall>x < 256. (\<forall>k < length ls. ls ! k \<le> 8
      \<longrightarrow> \<not> (kraft (take k ls) \<le> x * 256 \<and> x * 256 < kraft (take (Suc k) ls))) \<longrightarrow> look_nbits t ! x = 0"
    unfolding decodes_def by blast
  ultimately show ?thesis by (auto dest: spec [of _ 255])
qed

text \<open>The table has no end.  A comment says that entry 17 of the largest codes is a sentinel which
  makes the search for a code end, but nothing sets it: in cleared memory it is 0.  A code that leaves
  the word of all ones unused, as every valid JPEG table does, then makes the decoder read past the array of
  18 entries when the data has 18 ones, instead of returning the error value 0.\<close>

theorem sentinel_missing:
  assumes "loadable_table bits vals" "cleared_lookup t" "maxcode t ! 17 = 0" "kraft (code_lengths bits) < 65536"
    and "delivers b (replicate 18 True @ ys)" "derive_table bits vals t = Some t'"
  shows "HUFF_DECODE t' b = Some JFault"
proof -
  let ?ls = "code_lengths bits"
  obtain cs where c: "canonical cs ?ls" and d: "decodes t' cs ?ls (take 257 vals)" and m: "maxcode t' ! 17 = 0"
    using derive_table_decodes [OF assms(1,2)] assms(3,6) by auto
  have "(8 :: nat) \<le> 15" by simp
  from assms(5) this obtain b1 where b1: "CHECK_BIT_BUFFER (of_nat 8) b = Some (JOk () b1)"
    "delivers b1 (replicate 18 True @ ys)" "min 8 (length (replicate 18 True @ ys)) \<le> unat (s_jremain_bit_num b1)"
    by (rule CHECK_delivers)
  then have r: "8 \<le> unat (s_jremain_bit_num b1)" "\<not> s_jremain_bit_num b1 < 8"
    by (simp_all add: word_less_nat_alt)
  have ones: "bits_nat (replicate 8 True) = 255" "bits_nat (replicate 9 True) = 511"
    by (simp_all add: bits_nat_def numeral_eq_Suc)
  have peek: "PEEK_BITS 8 b1 = Some (JOk 255 b1)"
    using PEEK_delivers [OF b1(2), of 8] r ones(1) by simp
  have more: "delivers b1 (replicate 9 True @ (replicate (18 - 9) True @ ys))"
    using b1(2) by (simp add: replicate_add [symmetric] flip: append_assoc)
  have "takes (pthen (CHECK_BIT_BUFFER 9) (JPEG_GETBITS 9)) (replicate 9 True) 511"
    using takes_GETBITS [of "replicate 9 True" 9] ones(2) by simp
  from this more obtain b2 where b2: "pthen (CHECK_BIT_BUFFER 9) (JPEG_GETBITS 9) b1 = Some (JOk 511 b2)"
    "delivers b2 (replicate (18 - 9) True @ ys)" by (rule takesD)
  have "huff_slow t' 9 (2 ^ 9 - 1) b2 = Some JFault"
    by (rule huff_slow_runs_off [OF d c assms(4) _ _ _ b2(2)]) (use m in simp_all)
  then have "huff_DECODE_Progressive t' 9 b1 = Some JFault"
    using b2(1) by (simp add: huff_DECODE_Progressive_def pbind_cases(1) [where m = "pthen (CHECK_BIT_BUFFER 9) (JPEG_GETBITS 9)"])
  then show ?thesis
    using b1(1) r peek lookup_ones [OF d c assms(4)]
    by (simp add: HUFF_DECODE_def CHECK_8 pthen_cases(1) [where m = "CHECK_BIT_BUFFER 8"] pbind_pget
      pbind_cases(1) [where m = "PEEK_BITS 8"] HUFF_FIRST_READ_def)
qed


lemma byte_of_ones: "nat_bits 8 255 = replicate 8 True"
  by code_simp

theorem sentinel_missing_witness:
  "HUFF_DECODE (the (derive_table jpeg_fw_lum_dc_bits_default dc_values cleared_table))
     \<lparr>stream = [0xFF, 0, 0xFF, 0, 0xFF, 0], stream_pos = 0, s_jstream_words = 0, s_jremain_bit_num = 0,
      s_jremain_bytes = 6\<rparr> = Some JFault"
proof -
  obtain t' where t': "derive_table jpeg_fw_lum_dc_bits_default dc_values cleared_table = Some t'"
    using derive_table_decodes [OF dc_table_loadable cleared_table_ok(1)] by blast
  have "kraft (code_lengths jpeg_fw_lum_dc_bits_default) < 65536"
    by (simp add: code_lengths_def kraft_lengths_from default_counts)
  moreover have "delivers \<lparr>stream = [0xFF, 0, 0xFF, 0, 0xFF, 0], stream_pos = 0, s_jstream_words = 0,
      s_jremain_bit_num = 0, s_jremain_bytes = 6\<rparr> (replicate 18 True @ replicate 6 True)"
    unfolding delivers_def
    by (intro exI [of _ "[0xFF, 0xFF, 0xFF]"]) (simp add: byte_of_ones flip: replicate_add)
  ultimately show ?thesis
    using sentinel_missing [OF dc_table_loadable cleared_table_ok(1,2) _ _ t'] t' by simp
qed

end
