(* ===== verification/ProgMcu.thy ===== *)
theory ProgMcu
  imports ProgTable
begin

text \<open>
  The entropy decoder for progressive pictures, \<^verbatim>\<open>jpegdec_pvld.c\<close>: the state of a scan, the four
  functions that decode a unit of a scan (first and refinement pass of the DC values and of a band of AC
  values), and the start of a scan.  Coefficients are 16-bit words in the three block lines of the picture;
  a pointer to a block is the line and the offset in it, and every access is checked against the line.
\<close>

type_synonym coef = "16 word"

subsection \<open>The state\<close>

datatype mcu_decoder = DC_first | AC_first | DC_refine | AC_refine | No_decoder

text \<open>\<^verbatim>\<open>phuff_entropy_info\<close>; the pointer to the active table is its index.\<close>

record entropy_info =
  e_restarts_to_go :: u16
  e_next_restart_num :: u16
  last_dc_value :: "u32 list"
  EOBRUN :: u32
  vld_table :: "derived_tbl list"
  ac_derived_tbl :: "nat option"
  decode_mcu :: mcu_decoder

record scan_component = component +
  dc_tbl_no :: u8
  ac_tbl_no :: u8

text \<open>\<^verbatim>\<open>JPEG_SOS_T\<close>.\<close>

record sos =
  address :: bitstream_info
  sos_comps_in_scan :: u8
  sos_comp_info :: "scan_component list"
  sos_Ss :: u16
  sos_Se :: u16
  sos_Ah :: u16
  sos_Al :: u16
  entropy :: entropy_info

text \<open>The decoder: the bit buffer, the codec record, the fields of \<^verbatim>\<open>JPEG_PROGRESSIVE_INFO_T\<close> and the
  coefficients of a line of units.  An entry of \<^verbatim>\<open>cur_comp_info\<close> points to the components of a scan, of
  which the field keeps the scan's number; \<^verbatim>\<open>blocks\<close> points to blocks.\<close>

type_synonym block_ptr = "nat \<times> nat"

record prog =
  pbits :: bit_buffer
  pcodec :: jpeg_codec
  p_Ss :: u16
  p_Se :: u16
  p_Ah :: u16
  p_Al :: u16
  p_input_scan_number :: u8
  cur_scan :: u8
  p_comps_in_scan :: u8
  MCU_per_col :: u16
  MCU_per_row :: u16
  p_comp_id_map :: bytes
  buf_storage :: "sos list"
  cur_comp_info :: "nat option list"
  block_num :: u16
  blocks_membership :: bytes
  block_line :: "coef list list"
  blocks :: "block_ptr option list"

type_synonym 'a pd = "('a, prog) pm"

definition on_bits :: "'a bits \<Rightarrow> 'a pd" where
  "on_bits m s = (case m (pbits s) of
       None \<Rightarrow> None
     | Some (JOk a b) \<Rightarrow> Some (JOk a (s\<lparr>pbits := b\<rparr>))
     | Some (JFail b) \<Rightarrow> Some (JFail (s\<lparr>pbits := b\<rparr>))
     | Some JFault \<Rightarrow> Some JFault)"

abbreviation getbits :: "nat \<Rightarrow> u32 bits" where
  "getbits n \<equiv> pthen (CHECK_BIT_BUFFER (of_nat n)) (JPEG_GETBITS (of_nat n))"

text \<open>The entropy state of the current scan.\<close>

definition get_entropy :: "entropy_info pd" where
  "get_entropy = pthen (pcheck (\<lambda>s. unat (cur_scan s) < length (buf_storage s)))
     (pget (\<lambda>s. entropy (buf_storage s ! unat (cur_scan s))))"

definition mod_entropy :: "(entropy_info \<Rightarrow> entropy_info) \<Rightarrow> unit pd" where
  "mod_entropy f = pthen (pcheck (\<lambda>s. unat (cur_scan s) < length (buf_storage s)))
     (pmod (\<lambda>s. let i = unat (cur_scan s) in
        s\<lparr>buf_storage := (buf_storage s)[i := (buf_storage s ! i)\<lparr>entropy := f (entropy (buf_storage s ! i))\<rparr>]\<rparr>))"

text \<open>An element of an array, and a pointer that must not be null.\<close>

definition elem :: "'a list \<Rightarrow> nat \<Rightarrow> ('a, 's) pm" where
  "elem xs i = (if i < length xs then pret (xs ! i) else pfault)"

definition deref :: "'a option \<Rightarrow> ('a, 's) pm" where
  "deref p = (case p of None \<Rightarrow> pfault | Some x \<Rightarrow> pret x)"

definition block_at :: "block_ptr \<Rightarrow> nat \<Rightarrow> prog \<Rightarrow> bool" where
  "block_at p i s \<longleftrightarrow> fst p < length (block_line s) \<and> snd p + i < length (block_line s ! fst p)"

definition get_coef :: "block_ptr \<Rightarrow> nat \<Rightarrow> coef pd" where
  "get_coef p i = pthen (pcheck (block_at p i)) (pget (\<lambda>s. block_line s ! fst p ! (snd p + i)))"

definition put_coef :: "block_ptr \<Rightarrow> nat \<Rightarrow> coef \<Rightarrow> unit pd" where
  "put_coef p i v = pthen (pcheck (block_at p i)) (pmod (\<lambda>s.
     s\<lparr>block_line := (block_line s)[fst p := (block_line s ! fst p)[snd p + i := v]]\<rparr>))"

text \<open>A coefficient by its place in the zigzag order, whose table has 80 entries.\<close>

definition zigzag_at :: "nat \<Rightarrow> nat pd" where
  "zigzag_at k = elem jpeg_fw_zigzag_order k"

subsection \<open>The four decoders\<close>

definition HUFF_EXTEND :: "u32 \<Rightarrow> nat \<Rightarrow> u32" where
  "HUFF_EXTEND x s = (if x < push_bit (s - 1) 1 then x + push_bit s (- 1) + 1 else x)"

text \<open>The restart at the head of each decoder.  \<^verbatim>\<open>check_RstMarker\<close> returns \<^verbatim>\<open>JPEG_SUCCESS\<close>, which is
  0, for a marker, and the decoders take 0 for a failure.\<close>

definition process_restart :: "unit pd" where
  "process_restart =
     pbind (pget (\<lambda>s. restart_interval (pcodec s))) (\<lambda>interval.
     pbind get_entropy (\<lambda>e.
       if interval \<noteq> 0 \<and> interval \<noteq> 0x3FFFF \<and> e_restarts_to_go e = 0
       then pbind (on_bits check_RstMarker) (\<lambda>ret.
         if ret = 0 then pfail
         else mod_entropy (\<lambda>e. e\<lparr>e_next_restart_num := (e_next_restart_num e + 1) AND 7,
                e_restarts_to_go := ucast (ucast interval :: u8),
                last_dc_value := (last_dc_value e)[0 := 0, 1 := 0, 2 := 0]\<rparr>))
       else pret ()))"

definition count_restart :: "unit pd" where
  "count_restart = mod_entropy (\<lambda>e. e\<lparr>e_restarts_to_go := e_restarts_to_go e - 1\<rparr>)"

text \<open>A coefficient of the value \<open>s\<close> at the bit position of the pass.\<close>

definition scaled :: "nat \<Rightarrow> u32 \<Rightarrow> coef" where
  "scaled al s = ucast (push_bit al s)"

definition decode_difference :: "derived_tbl \<Rightarrow> u32 bits" where
  "decode_difference tbl = pbind (HUFF_DECODE tbl) (\<lambda>s.
     if s \<noteq> 0 then pbind (getbits (unat s)) (\<lambda>r. pret (HUFF_EXTEND r (unat s))) else pret 0)"

definition DC_table :: "nat \<Rightarrow> (nat \<times> derived_tbl) pd" where
  "DC_table blkn =
     pbind (pget blocks_membership) (\<lambda>bm. pbind (elem bm blkn) (\<lambda>c. let ci = unat c in
     pbind (pget cur_comp_info) (\<lambda>cc. pbind (elem cc ci) (\<lambda>ptr. pbind (deref ptr) (\<lambda>scan.
     pbind (pget buf_storage) (\<lambda>bs. pbind (elem bs scan) (\<lambda>sc. pbind (elem (sos_comp_info sc) ci) (\<lambda>compptr.
     pbind get_entropy (\<lambda>e. pbind (elem (vld_table e) (unat (dc_tbl_no compptr))) (\<lambda>tbl.
       pret (ci, tbl)))))))))))"

text \<open>The difference added to the value of the block before.\<close>

definition next_dc :: "nat \<Rightarrow> u32 \<Rightarrow> u32 pd" where
  "next_dc ci diff =
     pbind get_entropy (\<lambda>e. pbind (elem (last_dc_value e) ci) (\<lambda>last_dc. let s = diff + last_dc in
       pthen (mod_entropy (\<lambda>e. e\<lparr>last_dc_value := (last_dc_value e)[ci := s]\<rparr>)) (pret s)))"

definition DC_first_block :: "block_ptr option list \<Rightarrow> nat \<Rightarrow> unit pd" where
  "DC_first_block MCU_data blkn =
     pbind (elem MCU_data blkn) (\<lambda>bp. pbind (DC_table blkn) (\<lambda>(ci, tbl).
     pbind (on_bits (decode_difference tbl)) (\<lambda>diff. pbind (next_dc ci diff) (\<lambda>s.
     pbind (deref bp) (\<lambda>block. pbind (pget p_Al) (\<lambda>al. put_coef block 0 (scaled (unat al) s)))))))"

definition decode_mcu_DC_first :: "block_ptr option list \<Rightarrow> unit pd" where
  "decode_mcu_DC_first MCU_data =
     pthen process_restart
    (pthen (pbind (pget block_num) (\<lambda>n. pfor [0..<unat n] (DC_first_block MCU_data)))
     count_restart)"

text \<open>The length of a run of bands without coefficients.\<close>

definition eob_run :: "nat \<Rightarrow> u32 bits" where
  "eob_run r = (if r \<noteq> 0 then pbind (getbits r) (\<lambda>v. pret (push_bit r 1 + v)) else pret 1)"

function AC_first_loop :: "derived_tbl \<Rightarrow> nat \<Rightarrow> nat \<Rightarrow> block_ptr \<Rightarrow> nat \<Rightarrow> u32 pd" where
  "AC_first_loop tbl se al block k st =
     (if k \<le> se
      then pbind (on_bits (HUFF_DECODE tbl)) (\<lambda>rs.
        let r = unat (drop_bit 4 rs); s = unat (rs AND 15) in
        if s \<noteq> 0
        then pbind (on_bits (getbits s)) (\<lambda>v. pbind (zigzag_at (k + r)) (\<lambda>pos.
             pthen (put_coef block pos (scaled al (HUFF_EXTEND v s)))
                   (AC_first_loop tbl se al block (k + r + 1))))
        else if r = 15 then AC_first_loop tbl se al block (k + 15 + 1)
        else pbind (on_bits (eob_run r)) (\<lambda>run. pret (run - 1))) st
      else Some (JOk 0 st))"
  by pat_completeness auto
termination
  by (relation "measure (\<lambda>(tbl, se, al, block, k, st). Suc se - k)") auto

declare AC_first_loop.simps [simp del]

definition decode_mcu_AC_first :: "block_ptr option list \<Rightarrow> unit pd" where
  "decode_mcu_AC_first MCU_data =
     pthen process_restart
    (pbind get_entropy (\<lambda>e.
     pbind (if 0 < EOBRUN e then pret (EOBRUN e - 1)
            else pbind (elem MCU_data 0) (\<lambda>bp. pbind (deref (ac_derived_tbl e)) (\<lambda>i.
                 pbind (elem (vld_table e) i) (\<lambda>tbl. pbind (deref bp) (\<lambda>block. pbind (pget p_Ss) (\<lambda>ss.
                 pbind (pget p_Se) (\<lambda>se. pbind (pget p_Al) (\<lambda>al.
                   AC_first_loop tbl (unat se) (unat al) block (unat ss)))))))))
       (\<lambda>run. pthen (mod_entropy (\<lambda>e. e\<lparr>EOBRUN := run\<rparr>)) count_restart)))"

definition DC_refine_block :: "block_ptr option list \<Rightarrow> nat \<Rightarrow> unit pd" where
  "DC_refine_block MCU_data blkn =
     pbind (elem MCU_data blkn) (\<lambda>bp. pbind (on_bits (getbits 1)) (\<lambda>v.
       if v \<noteq> 0
       then pbind (deref bp) (\<lambda>block. pbind (pget p_Al) (\<lambda>al. pbind (get_coef block 0) (\<lambda>c.
            put_coef block 0 (c OR push_bit (unat al) 1))))
       else pret ()))"

definition decode_mcu_DC_refine :: "block_ptr option list \<Rightarrow> unit pd" where
  "decode_mcu_DC_refine MCU_data =
     pthen process_restart
    (pthen (pbind (pget block_num) (\<lambda>n. pfor [0..<unat n] (DC_refine_block MCU_data)))
     count_restart)"

text \<open>The correction bit of a coefficient that is not zero.\<close>

definition corrected :: "nat \<Rightarrow> coef \<Rightarrow> coef" where
  "corrected al c = (if c AND push_bit al 1 = 0
     then (if 0 \<le> sint c then c + push_bit al 1 else c + push_bit al (- 1)) else c)"

definition correct :: "nat \<Rightarrow> block_ptr \<Rightarrow> nat \<Rightarrow> coef \<Rightarrow> unit pd" where
  "correct al block pos c = pbind (on_bits (getbits 1)) (\<lambda>v.
     if v \<noteq> 0 then put_coef block pos (corrected al c) else pret ())"

text \<open>Forward over coefficients that are not zero and \<open>r\<close> that are; the value is by how many places.\<close>

function refine_skip :: "nat \<Rightarrow> nat \<Rightarrow> block_ptr \<Rightarrow> nat \<Rightarrow> nat \<Rightarrow> nat pd" where
  "refine_skip se al block k r st =
     pbind (zigzag_at k) (\<lambda>pos. pbind (get_coef block pos) (\<lambda>c.
       if c = 0 \<and> r = 0 then pret 0
       else pthen (if c \<noteq> 0 then correct al block pos c else pret ())
              (if k + 1 \<le> se
               then pbind (refine_skip se al block (k + 1) (if c \<noteq> 0 then r else r - 1)) (\<lambda>n. pret (n + 1))
               else pret 1))) st"
  by pat_completeness auto
termination
  by (relation "measure (\<lambda>(se, al, block, k, r, st). Suc se - k)") auto

declare refine_skip.simps [simp del]

text \<open>The loop over the symbols of a band, with the number of new coefficients; the value is the place
  where the loop is left and the run of bands that end there.\<close>

function AC_refine_loop :: "derived_tbl \<Rightarrow> nat \<Rightarrow> nat \<Rightarrow> block_ptr \<Rightarrow> nat \<Rightarrow> nat \<Rightarrow> (nat \<times> u32) pd" where
  "AC_refine_loop tbl se al block num_newnz k st =
     (if k \<le> se
      then pbind (on_bits (HUFF_DECODE tbl)) (\<lambda>rs.
        let r = unat (drop_bit 4 rs); s = unat (rs AND 15) in
        if s = 0 \<and> r \<noteq> 15 then pbind (on_bits (eob_run r)) (\<lambda>run. pret (k, run))
        else pbind (if s \<noteq> 0 then on_bits (getbits 1) else pret 0) (\<lambda>sign.
             pbind (refine_skip se al block k r) (\<lambda>n.
             pthen (if s \<noteq> 0
                    then pbind (zigzag_at (k + n)) (\<lambda>pos.
                      pthen (put_coef block pos (if sign \<noteq> 0 then push_bit al 1 else push_bit al (- 1)))
                            (pcheck (\<lambda>_. num_newnz < 64)))
                    else pret ())
                  (AC_refine_loop tbl se al block (if s \<noteq> 0 then num_newnz + 1 else num_newnz) (k + n + 1))))) st
      else Some (JOk (k, 0) st))"
  by pat_completeness auto
termination
  by (relation "measure (\<lambda>(tbl, se, al, block, num_newnz, k, st). Suc se - k)") auto

declare AC_refine_loop.simps [simp del]

text \<open>The correction bits behind the end of a band.\<close>

definition refine_rest :: "nat \<Rightarrow> nat \<Rightarrow> block_ptr \<Rightarrow> nat \<Rightarrow> unit pd" where
  "refine_rest se al block k = pfor [k..<Suc se] (\<lambda>k.
     pbind (zigzag_at k) (\<lambda>pos. pbind (get_coef block pos) (\<lambda>c.
       if c \<noteq> 0 then correct al block pos c else pret ())))"

definition decode_mcu_AC_refine :: "block_ptr option list \<Rightarrow> unit pd" where
  "decode_mcu_AC_refine MCU_data =
     pthen process_restart
    (pbind get_entropy (\<lambda>e.
     pbind (elem MCU_data 0) (\<lambda>bp. pbind (deref bp) (\<lambda>block. pbind (pget p_Ss) (\<lambda>ss.
     pbind (pget p_Se) (\<lambda>se. pbind (pget p_Al) (\<lambda>al.
     pbind (if EOBRUN e = 0
            then pbind (deref (ac_derived_tbl e)) (\<lambda>i. pbind (elem (vld_table e) i) (\<lambda>tbl.
                   AC_refine_loop tbl (unat se) (unat al) block 0 (unat ss)))
            else pret (unat ss, EOBRUN e)) (\<lambda>(k, run).
     pbind (if 0 < run then pthen (refine_rest (unat se) (unat al) block k) (pret (run - 1)) else pret run)
       (\<lambda>run. pthen (mod_entropy (\<lambda>e. e\<lparr>EOBRUN := run\<rparr>)) count_restart)))))))))"

text \<open>The call through the pointer; a scan whose parameters were rejected has none.\<close>

definition call_decode_mcu :: "mcu_decoder \<Rightarrow> block_ptr option list \<Rightarrow> unit pd" where
  "call_decode_mcu d = (case d of
       DC_first \<Rightarrow> decode_mcu_DC_first
     | AC_first \<Rightarrow> decode_mcu_AC_first
     | DC_refine \<Rightarrow> decode_mcu_DC_refine
     | AC_refine \<Rightarrow> decode_mcu_AC_refine
     | No_decoder \<Rightarrow> (\<lambda>_. pfault))"

end
