(* ===== verification/ProgDecode.thy ===== *)
theory ProgDecode
  imports ProgMcu
begin

text \<open>
  What the entropy decoder for progressive pictures computes: from the bits that a reference encoder,
  written from the standard's description of the four passes, produces for a unit, each decoder gets the
  unit's values back into the coefficients and leaves everything else alone.
\<close>

subsection \<open>The reference: values as bits\<close>

text \<open>The size of a value and the bits that follow its size.\<close>

fun bit_size :: "nat \<Rightarrow> nat" where
  "bit_size n = (if n = 0 then 0 else Suc (bit_size (n div 2)))"

declare bit_size.simps [simp del]

definition val_size :: "int \<Rightarrow> nat" where
  "val_size v = bit_size (nat \<bar>v\<bar>)"

definition val_bits :: "int \<Rightarrow> bool list" where
  "val_bits v = nat_bits (val_size v) (nat (if 0 \<le> v then v else v + 2 ^ val_size v - 1))"

lemma bit_size_bounds: "n < 2 ^ bit_size n" "0 < n \<Longrightarrow> 2 ^ (bit_size n - 1) \<le> n" "bit_size n = 0 \<longleftrightarrow> n = 0"
proof -
  have "n < 2 ^ bit_size n \<and> (0 < n \<longrightarrow> 2 ^ (bit_size n - 1) \<le> n)"
  proof (induction n rule: bit_size.induct)
    case (1 n)
    show ?case
    proof (cases "n < 2")
      case True
      then have "n = 0 \<or> n = 1" by auto
      then show ?thesis by (auto simp: bit_size.simps [of 0] bit_size.simps [of "Suc 0"])
    next
      case False
      then have s: "bit_size n = Suc (bit_size (n div 2))" "0 < n div 2" by (simp_all add: bit_size.simps [of n])
      with 1 have "n div 2 < 2 ^ bit_size (n div 2)" "2 ^ (bit_size (n div 2) - 1) \<le> n div 2" by simp_all
      moreover have "bit_size (n div 2) \<noteq> 0" using s(2) by (simp add: bit_size.simps [of "n div 2"])
      then have "2 ^ bit_size (n div 2) = 2 * (2 :: nat) ^ (bit_size (n div 2) - 1)"
        by (cases "bit_size (n div 2)") simp_all
      ultimately show ?thesis unfolding s(1) by (auto; linarith)
    qed
  qed
  then show "n < 2 ^ bit_size n" "0 < n \<Longrightarrow> 2 ^ (bit_size n - 1) \<le> n" by simp_all
  show "bit_size n = 0 \<longleftrightarrow> n = 0" by (simp add: bit_size.simps [of n])
qed

lemma val_size_0 [simp]: "val_size v = 0 \<longleftrightarrow> v = 0"
  by (simp add: val_size_def bit_size_bounds(3))

lemma length_val_bits [simp]: "length (val_bits v) = val_size v"
  by (simp add: val_bits_def)

text \<open>The decoder's extension of the bits is the value.\<close>

lemma HUFF_EXTEND_val:
  assumes "v \<noteq> 0" "val_size v \<le> 15"
  shows "HUFF_EXTEND (of_nat (bits_nat (val_bits v))) (val_size v) = word_of_int v"
proof -
  define s where "s = val_size v"
  define u where "u = nat (if 0 \<le> v then v else v + 2 ^ s - 1)"
  have "val_size v \<noteq> 0" using assms(1) by simp
  then have s: "1 \<le> s" "s \<le> 15" using assms(2) unfolding s_def by linarith+
  have abs: "nat \<bar>v\<bar> < 2 ^ s" "2 ^ (s - 1) \<le> nat \<bar>v\<bar>"
    using bit_size_bounds(1,2) [of "nat \<bar>v\<bar>"] assms(1) by (simp_all add: s_def val_size_def)
  then have abs': "\<bar>v\<bar> < 2 ^ s" "2 ^ (s - 1) \<le> \<bar>v\<bar>"
    by (simp_all add: nat_less_iff le_nat_iff)
  have half: "(2 :: int) ^ s = 2 * 2 ^ (s - 1)" using s(1) by (cases s) simp_all
  have u: "int u = (if 0 \<le> v then v else v + 2 ^ s - 1)" "u < 2 ^ s" "u < 2 ^ (s - 1) \<longleftrightarrow> v < 0"
  proof -
    show i: "int u = (if 0 \<le> v then v else v + 2 ^ s - 1)"
      using abs' by (auto simp: u_def)
    have "int u < 2 ^ s" using i abs' by (cases "0 \<le> v"; simp only: if_True if_False abs_if; linarith)
    moreover have "int u < 2 ^ (s - 1)" if "v < 0"
      using i abs' half that by (simp only: abs_if if_True if_False not_le [symmetric]; linarith)
    moreover have "\<not> int u < 2 ^ (s - 1)" if "\<not> v < 0"
      using i abs' that by (simp only: abs_if if_True if_False not_less not_le; linarith)
    ultimately have "int u < 2 ^ s" "int u < 2 ^ (s - 1) \<longleftrightarrow> v < 0" by blast+
    then show "u < 2 ^ s" "u < 2 ^ (s - 1) \<longleftrightarrow> v < 0"
      using of_nat_less_iff [of u "2 ^ s", where 'a = int] of_nat_less_iff [of u "2 ^ (s - 1)", where 'a = int]
      by simp_all
  qed
  have "val_bits v = nat_bits s u" by (simp add: val_bits_def s_def u_def)
  then have bits: "bits_nat (val_bits v) = u"
    by (simp only: bits_nat_nat_bits take_bit_nat_eq_self [OF u(2)])
  have small: "u < 2 ^ 32" using u(2) power_increasing [OF s(2), of "2 :: nat"] by simp
  have p: "push_bit (s - 1) 1 = (of_nat (2 ^ (s - 1)) :: u32)" "push_bit s (- 1) = (- word_of_int (2 ^ s) :: u32)"
    by (simp_all add: push_bit_eq_mult)
  have lt: "(of_nat u :: u32) < of_nat (2 ^ (s - 1)) \<longleftrightarrow> v < 0"
  proof -
    have "(2 :: nat) ^ (s - 1) < 2 ^ 32" using s(2) by (intro power_strict_increasing) simp_all
    moreover have "s - Suc 0 < 32" using s(2) by linarith
    ultimately show ?thesis
      using small u(3) by (simp only: word_less_nat_alt unsigned_of_nat) (simp add: take_bit_nat_eq_self)
  qed
  have "(of_nat u :: u32) = word_of_int (int u)" by simp
  then show ?thesis
    unfolding bits s_def [symmetric] HUFF_EXTEND_def p lt u(1)
    by (simp del: of_int_power)
qed


subsection \<open>Statements of the decoder\<close>

text \<open>A symbol's code as the encoder writes it: a function from symbols to bits that the table decodes.\<close>

definition reads_symbols :: "derived_tbl \<Rightarrow> (u8 \<Rightarrow> bool list) \<Rightarrow> u8 set \<Rightarrow> bool" where
  "reads_symbols tbl enc S \<longleftrightarrow> (\<forall>x \<in> S. takes (HUFF_DECODE tbl) (enc x) x)"

lemma on_bits_takes:
  assumes "takes m xs v" "delivers (pbits s) (xs @ ys)"
  obtains b' where "on_bits m s = Some (JOk v (s\<lparr>pbits := b'\<rparr>))" "delivers b' ys"
proof -
  from assms obtain b' where "m (pbits s) = Some (JOk v b')" "delivers b' ys" by (rule takesD)
  with that show thesis by (simp add: on_bits_def)
qed

lemma takes_getbits:
  assumes "length xs \<le> 15"
  shows "takes (getbits (length xs)) xs (of_nat (bits_nat xs))"
  by (rule takes_GETBITS [OF assms refl])

definition write_coef :: "block_ptr \<Rightarrow> nat \<Rightarrow> coef \<Rightarrow> coef list list \<Rightarrow> coef list list" where
  "write_coef p i v L = L[fst p := (L ! fst p)[snd p + i := v]]"

definition coef_at :: "coef list list \<Rightarrow> block_ptr \<Rightarrow> nat \<Rightarrow> coef" where
  "coef_at L p i = L ! fst p ! (snd p + i)"

text \<open>The memory of a block: 64 coefficients in its line.\<close>

definition block_in :: "coef list list \<Rightarrow> block_ptr \<Rightarrow> bool" where
  "block_in L p \<longleftrightarrow> fst p < length L \<and> snd p + 64 \<le> length (L ! fst p)"

lemma block_in_write [simp]: "block_in (write_coef q i v L) p = block_in L p"
  by (cases "fst q < length L") (auto simp: block_in_def write_coef_def nth_list_update)

lemma coef_at_write:
  "block_in L p \<Longrightarrow> i < 64 \<Longrightarrow> j < 64 \<Longrightarrow>
     coef_at (write_coef p i v L) p j = (if j = i then v else coef_at L p j)"
  by (auto simp: coef_at_def write_coef_def block_in_def)

lemma put_coef_block:
  "block_in (block_line s) p \<Longrightarrow> i < 64 \<Longrightarrow>
     put_coef p i v s = Some (JOk () (s\<lparr>block_line := write_coef p i v (block_line s)\<rparr>))"
  by (simp add: put_coef_def pstmt block_at_def block_in_def write_coef_def)

lemma get_coef_block:
  "block_in (block_line s) p \<Longrightarrow> i < 64 \<Longrightarrow> get_coef p i s = Some (JOk (coef_at (block_line s) p i) s)"
  by (simp add: get_coef_def pstmt block_at_def block_in_def coef_at_def)

lemma zigzag_ok:
  assumes "k < 64"
  shows "zigzag_at k = pret (jpeg_fw_zigzag_order ! k)" "jpeg_fw_zigzag_order ! k < 64"
proof -
  show "zigzag_at k = pret (jpeg_fw_zigzag_order ! k)"
    using assms by (simp add: zigzag_at_def elem_def jpeg_fw_zigzag_order_def)
  have "\<forall>i \<in> set jpeg_fw_zigzag_order. i < 64" by (simp add: jpeg_fw_zigzag_order_def)
  moreover have "jpeg_fw_zigzag_order ! k \<in> set jpeg_fw_zigzag_order"
    using assms by (intro nth_mem) (simp add: jpeg_fw_zigzag_order_def)
  ultimately show "jpeg_fw_zigzag_order ! k < 64" by blast
qed

lemma zigzag_inj: "j < 64 \<Longrightarrow> k < 64 \<Longrightarrow> jpeg_fw_zigzag_order ! j = jpeg_fw_zigzag_order ! k \<longleftrightarrow> j = k"
proof -
  assume jk: "j < 64" "k < 64"
  have "distinct (take 64 jpeg_fw_zigzag_order)" by (simp add: jpeg_fw_zigzag_order_def)
  moreover have "length (take 64 jpeg_fw_zigzag_order) = 64" by (simp add: jpeg_fw_zigzag_order_def)
  ultimately have "take 64 jpeg_fw_zigzag_order ! j = take 64 jpeg_fw_zigzag_order ! k \<longleftrightarrow> j = k"
    using jk nth_eq_iff_index_eq [of "take 64 jpeg_fw_zigzag_order" j k] by simp
  with jk show ?thesis by simp
qed

subsection \<open>The first pass of a band\<close>

text \<open>The reference: the coefficients of a band in zigzag order, those that are zero counted (\<open>r\<close>), every
  sixteen of them a symbol, and an end of band when zeros are left at the end.\<close>

fun band_bits :: "(u8 \<Rightarrow> bool list) \<Rightarrow> nat \<Rightarrow> int list \<Rightarrow> bool list" where
  "band_bits enc r [] = (if r = 0 then [] else enc 0)"
| "band_bits enc r (v # vs) =
     (if v = 0 then band_bits enc (r + 1) vs
      else concat (replicate (r div 16) (enc 0xF0)) @ enc (of_nat (16 * (r mod 16) + val_size v)) @ val_bits v
           @ band_bits enc 0 vs)"

text \<open>The symbols that it uses.\<close>

fun band_symbols :: "nat \<Rightarrow> int list \<Rightarrow> u8 list" where
  "band_symbols r [] = (if r = 0 then [] else [0])"
| "band_symbols r (v # vs) =
     (if v = 0 then band_symbols (r + 1) vs
      else replicate (r div 16) 0xF0 @ of_nat (16 * (r mod 16) + val_size v) # band_symbols 0 vs)"

text \<open>The coefficients written.\<close>

fun put_band :: "nat \<Rightarrow> block_ptr \<Rightarrow> nat \<Rightarrow> int list \<Rightarrow> coef list list \<Rightarrow> coef list list" where
  "put_band al p k [] L = L"
| "put_band al p k (v # vs) L = put_band al p (k + 1) vs
     (if v = 0 then L else write_coef p (jpeg_fw_zigzag_order ! k) (scaled al (word_of_int v)) L)"

lemma put_band_block_in [simp]: "block_in (put_band al p k vs L) q = block_in L q"
  by (induction vs arbitrary: k L) simp_all

lemma symbol_parts:
  assumes "r < 16" "s < 16"
  shows "unat (drop_bit 4 (of_nat (16 * r + s) :: u8)) = r" "unat ((of_nat (16 * r + s) :: u8) AND 15) = s"
proof -
  have n: "unat (of_nat (16 * r + s) :: u8) = 16 * r + s"
    unfolding unsigned_of_nat using assms by (simp add: take_bit_nat_eq_self)
  show "unat (drop_bit 4 (of_nat (16 * r + s) :: u8)) = r"
    unfolding unat_drop_bit_eq n using assms by (simp add: drop_bit_eq_div)
  have "(of_nat (16 * r + s) :: u8) AND 15 = take_bit 4 (of_nat (16 * r + s))"
    by (simp add: take_bit_eq_mask mask_eq_exp_minus_1)
  then show "unat ((of_nat (16 * r + s) :: u8) AND 15) = s"
    using assms by (simp only: unsigned_take_bit_eq n) (simp add: take_bit_eq_mod)
qed


lemma AC_first_step:
  assumes "k \<le> se" "on_bits (HUFF_DECODE tbl) s = Some (JOk rs s1)"
  shows "AC_first_loop tbl se al p k s =
    (if unat (rs AND 15) \<noteq> 0
     then pbind (on_bits (getbits (unat (rs AND 15)))) (\<lambda>v. pbind (zigzag_at (k + unat (drop_bit 4 rs))) (\<lambda>pos.
          pthen (put_coef p pos (scaled al (HUFF_EXTEND v (unat (rs AND 15)))))
                (AC_first_loop tbl se al p (k + unat (drop_bit 4 rs) + 1))))
     else if unat (drop_bit 4 rs) = 15 then AC_first_loop tbl se al p (k + 15 + 1)
     else pbind (on_bits (eob_run (unat (drop_bit 4 rs)))) (\<lambda>run. pret (run - 1))) s1"
  unfolding AC_first_loop.simps [of tbl se al p k s]
  using assms by (simp add: pbind_cases(1) [where m = "on_bits (HUFF_DECODE tbl)"] Let_def)

lemma on_bits_symbol:
  assumes "reads_symbols tbl enc S" "x \<in> S" "delivers (pbits s) (enc x @ ys)"
  obtains b' where "on_bits (HUFF_DECODE tbl) s = Some (JOk x (s\<lparr>pbits := b'\<rparr>))" "delivers b' ys"
proof -
  from assms(1,2) have "takes (HUFF_DECODE tbl) (enc x) x" by (simp add: reads_symbols_def)
  from this assms(3) that show thesis by (rule on_bits_takes)
qed

text \<open>Sixteen zeros at a time.\<close>

lemma AC_first_zeros:
  assumes "reads_symbols tbl enc S" "k + 16 * n \<le> se + 1" "0 < n \<longrightarrow> 0xF0 \<in> S"
    and "delivers (pbits s) (concat (replicate n (enc 0xF0)) @ ys)"
  shows "\<exists>b'. AC_first_loop tbl se al p k s = AC_first_loop tbl se al p (k + 16 * n) (s\<lparr>pbits := b'\<rparr>)
    \<and> delivers b' ys"
  using assms(2-4)
proof (induction n arbitrary: k s)
  case 0
  then have "s\<lparr>pbits := pbits s\<rparr> = s" "delivers (pbits s) ys" by simp_all
  then show ?case by (metis add.right_neutral mult_0_right)
next
  case (Suc n)
  have "0xF0 \<in> S" using Suc.prems(2) by simp
  moreover from Suc.prems(3) have "delivers (pbits s) (enc 0xF0 @ (concat (replicate n (enc 0xF0)) @ ys))" by simp
  ultimately obtain b1 where b1: "on_bits (HUFF_DECODE tbl) s = Some (JOk 0xF0 (s\<lparr>pbits := b1\<rparr>))"
    "delivers b1 (concat (replicate n (enc 0xF0)) @ ys)"
    by (rule on_bits_symbol [OF assms(1)])
  have "k \<le> se" using Suc.prems(1) by simp
  moreover have "unat (drop_bit 4 (0xF0 :: u8)) = 15" "unat ((0xF0 :: u8) AND 15) = 0" "k + 15 + 1 = k + 16"
    using symbol_parts [of 15 0] by simp_all
  ultimately have "AC_first_loop tbl se al p k s = AC_first_loop tbl se al p (k + 16) (s\<lparr>pbits := b1\<rparr>)"
    using AC_first_step [OF _ b1(1), of k se al p] by (simp only: if_True if_False simp_thms)
  moreover obtain b' where "AC_first_loop tbl se al p (k + 16) (s\<lparr>pbits := b1\<rparr>)
      = AC_first_loop tbl se al p (k + 16 + 16 * n) (s\<lparr>pbits := b'\<rparr>)" "delivers b' ys"
    using Suc.IH [of "k + 16" "s\<lparr>pbits := b1\<rparr>"] Suc.prems(1,2) b1(2) by auto
  ultimately show ?case by (intro exI [of _ b']) (simp add: add.assoc)
qed

lemma eob_run_0: "eob_run 0 = pret 1"
  by (simp add: eob_run_def)

lemma on_bits_pret: "on_bits (pret a) = pret a"
  by (rule ext) (simp add: on_bits_def pret_def)

lemma AC_first_band:
  assumes "reads_symbols tbl enc S" "se < 64" "\<forall>v \<in> set vs. val_size v < 16" "set (band_symbols r vs) \<subseteq> S"
    and "k + r + length vs = se + 1" "block_in (block_line s) p" "delivers (pbits s) (band_bits enc r vs @ ys)"
  shows "\<exists>b'. AC_first_loop tbl se al p k s
      = Some (JOk 0 (s\<lparr>pbits := b', block_line := put_band al p (k + r) vs (block_line s)\<rparr>)) \<and> delivers b' ys"
  using assms(3-7)
proof (induction vs arbitrary: k r s)
  case Nil
  show ?case
  proof (cases "r = 0")
    case True
    with Nil show ?thesis by (intro exI [of _ "pbits s"]) (simp add: AC_first_loop.simps)
  next
    case False
    with Nil have k: "k \<le> se" by simp
    have "0 \<in> S" using Nil(2) False by simp
    moreover from Nil(5) False have "delivers (pbits s) (enc 0 @ ys)" by simp
    ultimately obtain b1 where b1: "on_bits (HUFF_DECODE tbl) s = Some (JOk 0 (s\<lparr>pbits := b1\<rparr>))" "delivers b1 ys"
      by (rule on_bits_symbol [OF assms(1)])
    then show ?thesis
      by (intro exI [of _ b1]) (simp add: AC_first_step [OF k b1(1)] eob_run_0 on_bits_pret pbind_pret, simp add: pret_def)
  qed
next
  case (Cons v vs)
  show ?case
  proof (cases "v = 0")
    case True
    then show ?thesis using Cons.IH [of "r + 1" k s] Cons.prems by simp
  next
    case False
    define n m x where "n = r div 16" and "m = r mod 16" and "x = (of_nat (16 * m + val_size v) :: u8)"
    have r: "r = 16 * n + m" "m < 16" by (simp_all add: n_def m_def)
    have sz: "val_size v < 16" "val_size v \<noteq> 0" using Cons.prems(1) False by simp_all
    have sym: "x \<in> S" "0 < n \<longrightarrow> 0xF0 \<in> S"
      using Cons.prems(2) False by (auto simp: x_def m_def n_def)
    note parts = symbol_parts [OF r(2) sz(1), folded x_def]
    have le: "k + 16 * n \<le> se" using Cons.prems(3) r(1) by simp
    have bits: "delivers (pbits s) (concat (replicate n (enc 0xF0)) @ (enc x @ (val_bits v @ (band_bits enc 0 vs @ ys))))"
      using Cons.prems(5) False by (simp add: n_def m_def x_def)
    obtain b0 where b0: "AC_first_loop tbl se al p k s = AC_first_loop tbl se al p (k + 16 * n) (s\<lparr>pbits := b0\<rparr>)"
      "delivers b0 (enc x @ (val_bits v @ (band_bits enc 0 vs @ ys)))"
      using AC_first_zeros [OF assms(1) _ sym(2) bits, of k se al p] le by auto
    have "delivers (pbits (s\<lparr>pbits := b0\<rparr>)) (enc x @ (val_bits v @ (band_bits enc 0 vs @ ys)))" using b0(2) by simp
    with sym(1) obtain b1 where b1: "on_bits (HUFF_DECODE tbl) (s\<lparr>pbits := b0\<rparr>) = Some (JOk x (s\<lparr>pbits := b0\<rparr>\<lparr>pbits := b1\<rparr>))"
      "delivers b1 (val_bits v @ (band_bits enc 0 vs @ ys))"
      by (rule on_bits_symbol [OF assms(1)])
    have "takes (getbits (val_size v)) (val_bits v) (of_nat (bits_nat (val_bits v)))"
      using takes_getbits [of "val_bits v"] sz(1) by simp
    moreover have "delivers (pbits (s\<lparr>pbits := b1\<rparr>)) (val_bits v @ (band_bits enc 0 vs @ ys))" using b1(2) by simp
    ultimately obtain b2 where b2: "on_bits (getbits (val_size v)) (s\<lparr>pbits := b1\<rparr>)
        = Some (JOk (of_nat (bits_nat (val_bits v))) (s\<lparr>pbits := b1\<rparr>\<lparr>pbits := b2\<rparr>))"
      "delivers b2 (band_bits enc 0 vs @ ys)"
      by (rule on_bits_takes)
    have pos: "k + 16 * n + m = k + r" "k + r < 64" using r(1) Cons.prems(3) assms(2) by simp_all
    let ?L = "write_coef p (jpeg_fw_zigzag_order ! (k + r)) (scaled al (word_of_int v)) (block_line s)"
    let ?s = "s\<lparr>pbits := b2, block_line := ?L\<rparr>"
    have "put_coef p (jpeg_fw_zigzag_order ! (k + r)) (scaled al (word_of_int v)) (s\<lparr>pbits := b2\<rparr>) = Some (JOk () ?s)"
      using put_coef_block [of "s\<lparr>pbits := b2\<rparr>" p "jpeg_fw_zigzag_order ! (k + r)"] Cons.prems(4) zigzag_ok(2) [OF pos(2)]
      by simp
    then have "AC_first_loop tbl se al p k s = AC_first_loop tbl se al p (k + r + 1) ?s"
      using b0(1) AC_first_step [OF le b1(1), of al p, unfolded parts pos(1)] b2(1) sz
        HUFF_EXTEND_val [OF False] zigzag_ok(1) [OF pos(2)]
      by (simp add: pbind_cases(1) [where m = "on_bits (getbits (val_size v))"] pbind_pret
        pthen_cases(1) [where m = "put_coef p (jpeg_fw_zigzag_order ! (k + r)) (scaled al (word_of_int v))"])
    moreover obtain b' where "AC_first_loop tbl se al p (k + r + 1) ?s
        = Some (JOk 0 (?s\<lparr>pbits := b', block_line := put_band al p (k + r + 1 + 0) vs (block_line ?s)\<rparr>))" "delivers b' ys"
      using Cons.IH [of 0 "k + r + 1" ?s] Cons.prems b2(2) False by auto
    ultimately show ?thesis using False by (intro exI [of _ b']) simp
  qed
qed


text \<open>The coefficients after a band has been written.\<close>

lemma put_band_coefs:
  assumes "block_in L p" "k + length vs \<le> 64"
  shows "(\<forall>i < length vs. coef_at (put_band al p k vs L) p (jpeg_fw_zigzag_order ! (k + i)) =
      (if vs ! i = 0 then coef_at L p (jpeg_fw_zigzag_order ! (k + i)) else scaled al (word_of_int (vs ! i))))
    \<and> (\<forall>q < 64. q \<notin> (\<lambda>i. jpeg_fw_zigzag_order ! (k + i)) ` {..<length vs}
      \<longrightarrow> coef_at (put_band al p k vs L) p q = coef_at L p q)"
  using assms
proof (induction vs arbitrary: k L)
  case (Cons v vs)
  let ?z = "\<lambda>i. jpeg_fw_zigzag_order ! i"
  let ?L = "if v = 0 then L else write_coef p (?z k) (scaled al (word_of_int v)) L"
  have k: "k < 64" "?z k < 64" using Cons.prems(2) zigzag_ok(2) by simp_all
  have L: "block_in ?L p" "k + 1 + length vs \<le> 64" using Cons.prems by simp_all
  have at: "coef_at ?L p q = (if v \<noteq> 0 \<and> q = ?z k then scaled al (word_of_int v) else coef_at L p q)" if "q < 64" for q
    using that k(2) by (simp add: coef_at_write [OF Cons.prems(1) k(2)])
  note ih = Cons.IH [OF L, THEN conjunct1, rule_format] Cons.IH [OF L, THEN conjunct2, rule_format]
  have new: "?z k \<notin> (\<lambda>i. ?z (k + 1 + i)) ` {..<length vs}"
    using Cons.prems(2) k(1) by (auto simp: zigzag_inj)
  show ?case
  proof (intro conjI allI impI)
    fix i assume i: "i < length (v # vs)"
    show "coef_at (put_band al p k (v # vs) L) p (?z (k + i)) =
      (if (v # vs) ! i = 0 then coef_at L p (?z (k + i)) else scaled al (word_of_int ((v # vs) ! i)))"
    proof (cases i)
      case 0
      then show ?thesis using ih(2) [OF k(2) new] at [OF k(2)] by simp
    next
      case (Suc j)
      then have j: "j < length vs" "?z (k + i) < 64" "?z (k + i) \<noteq> ?z k"
        using i Cons.prems(2) zigzag_ok(2) [of "k + i"] k(1) by (simp_all add: zigzag_inj)
      with ih(1) [OF j(1)] Suc at [OF j(2)] show ?thesis by simp
    qed
  next
    fix q assume q: "q < 64" "q \<notin> (\<lambda>i. ?z (k + i)) ` {..<length (v # vs)}"
    have "q \<noteq> ?z k" using q(2) image_eqI [of q "\<lambda>i. ?z (k + i)" 0 "{..<length (v # vs)}"] by auto
    moreover have "q \<notin> (\<lambda>i. ?z (k + 1 + i)) ` {..<length vs}"
    proof
      assume "q \<in> (\<lambda>i. ?z (k + 1 + i)) ` {..<length vs}"
      then obtain i where "i < length vs" "q = ?z (k + Suc i)" by auto
      with q(2) show False using image_eqI [of q "\<lambda>i. ?z (k + i)" "Suc i" "{..<length (v # vs)}"] by auto
    qed
    ultimately show "coef_at (put_band al p k (v # vs) L) p q = coef_at L p q"
      using ih(2) [OF q(1)] at [OF q(1)] by simp
  qed
qed simp

lemma put_band_unchanged:
  assumes "block_in L p" "k + length vs \<le> 64" "q < 64"
    and "q \<notin> (\<lambda>j. jpeg_fw_zigzag_order ! (k + j)) ` {j. j < length vs \<and> vs ! j \<noteq> 0}"
  shows "coef_at (put_band al p k vs L) p q = coef_at L p q"
proof (cases "q \<in> (\<lambda>i. jpeg_fw_zigzag_order ! (k + i)) ` {..<length vs}")
  case True
  then obtain j where j: "j < length vs" "q = jpeg_fw_zigzag_order ! (k + j)" by auto
  with assms(4) have "vs ! j = 0" by blast
  with put_band_coefs [OF assms(1,2), of al] j show ?thesis by simp
next
  case False
  with put_band_coefs [OF assms(1,2), of al] assms(3) show ?thesis by blast
qed

text \<open>Everything outside the block.\<close>

definition same_outside :: "block_ptr \<Rightarrow> coef list list \<Rightarrow> coef list list \<Rightarrow> bool" where
  "same_outside p L L' \<longleftrightarrow> length L' = length L \<and> (\<forall>l < length L. length (L' ! l) = length (L ! l)
     \<and> (\<forall>j < length (L ! l). \<not> (l = fst p \<and> snd p \<le> j \<and> j < snd p + 64) \<longrightarrow> L' ! l ! j = L ! l ! j))"

lemma same_outside_refl [simp]: "same_outside p L L"
  by (simp add: same_outside_def)

lemma same_outside_trans: "same_outside p L L' \<Longrightarrow> same_outside p L' L'' \<Longrightarrow> same_outside p L L''"
  by (simp add: same_outside_def)

lemma same_outside_write: "i < 64 \<Longrightarrow> same_outside p L (write_coef p i v L)"
  by (cases "fst p < length L") (auto simp: same_outside_def write_coef_def nth_list_update)

lemma put_band_outside: "k + length vs \<le> 64 \<Longrightarrow> same_outside p L (put_band al p k vs L)"
proof (induction vs arbitrary: k L)
  case (Cons v vs)
  have "same_outside p L (if v = 0 then L else write_coef p (jpeg_fw_zigzag_order ! k) (scaled al (word_of_int v)) L)"
    using Cons.prems same_outside_write zigzag_ok(2) by simp
  with Cons.IH Cons.prems show ?case by (auto intro: same_outside_trans)
qed simp

lemma scaled_val: "scaled al (word_of_int v) = word_of_int (v * 2 ^ al)"
proof -
  have "push_bit al (word_of_int v :: u32) = word_of_int (v * 2 ^ al)" by (simp add: push_bit_eq_mult)
  then show ?thesis unfolding scaled_def by (simp add: ucast_down_wi is_down del: of_int_mult)
qed


subsection \<open>A scan that is ready\<close>

text \<open>The current scan is one of the stored ones, and no restart is due: the picture has no restart
  interval (or the value that the header parser sets for none).\<close>

definition current :: "prog \<Rightarrow> entropy_info" where
  "current s = entropy (buf_storage s ! unat (cur_scan s))"

definition scan_ok :: "prog \<Rightarrow> bool" where
  "scan_ok s \<longleftrightarrow> unat (cur_scan s) < length (buf_storage s)
     \<and> (restart_interval (pcodec s) = 0 \<or> restart_interval (pcodec s) = 0x3FFFF)"

definition set_entropy :: "(entropy_info \<Rightarrow> entropy_info) \<Rightarrow> prog \<Rightarrow> prog" where
  "set_entropy f s = s\<lparr>buf_storage := (buf_storage s)[unat (cur_scan s) :=
     (buf_storage s ! unat (cur_scan s))\<lparr>entropy := f (current s)\<rparr>]\<rparr>"

lemma scan_ok_update [simp]:
  "scan_ok (s\<lparr>pbits := b\<rparr>) = scan_ok s" "scan_ok (s\<lparr>block_line := L\<rparr>) = scan_ok s"
  "scan_ok (set_entropy f s) = scan_ok s"
  by (simp_all add: scan_ok_def set_entropy_def)

lemma current_update [simp]:
  "current (s\<lparr>pbits := b\<rparr>) = current s" "current (s\<lparr>block_line := L\<rparr>) = current s"
  "scan_ok s \<Longrightarrow> current (set_entropy f s) = f (current s)"
  by (simp_all add: current_def set_entropy_def scan_ok_def)

lemma set_entropy_fields [simp]:
  "pbits (set_entropy f s) = pbits s" "block_line (set_entropy f s) = block_line s"
  by (simp_all add: set_entropy_def)

lemma process_restart_none: "scan_ok s \<Longrightarrow> process_restart s = Some (JOk () s)"
  by (auto simp: process_restart_def scan_ok_def get_entropy_def pstmt)

lemma get_entropy_ok: "scan_ok s \<Longrightarrow> pbind get_entropy k s = k (current s) s"
  by (simp add: get_entropy_def scan_ok_def current_def pstmt)

lemma mod_entropy_ok: "scan_ok s \<Longrightarrow> mod_entropy f s = Some (JOk () (set_entropy f s))"
  by (simp add: mod_entropy_def scan_ok_def set_entropy_def current_def pstmt Let_def)

lemma count_restart_ok: "scan_ok s \<Longrightarrow> count_restart s
    = Some (JOk () (set_entropy (\<lambda>e. e\<lparr>e_restarts_to_go := e_restarts_to_go e - 1\<rparr>) s))"
  by (simp add: count_restart_def mod_entropy_ok)

lemma elem_ok: "i < length xs \<Longrightarrow> elem xs i = pret (xs ! i)"
  by (simp add: elem_def)

lemma deref_Some [simp]: "deref (Some x) = pret x"
  by (simp add: deref_def)

lemma end_of_unit:
  assumes "scan_ok s"
  shows "pthen (mod_entropy f) count_restart s
    = Some (JOk () (set_entropy (\<lambda>e. (f e)\<lparr>e_restarts_to_go := e_restarts_to_go (f e) - 1\<rparr>) s))"
  using assms
  by (simp add: pthen_cases(1) [where m = "mod_entropy f"] mod_entropy_ok count_restart_ok)
    (simp add: set_entropy_def current_def scan_ok_def)

text \<open>The table that the scan uses, derived from a table of the picture on cleared memory.\<close>

definition uses_table :: "bytes \<Rightarrow> bytes \<Rightarrow> derived_tbl \<Rightarrow> bool" where
  "uses_table bits vals tbl \<longleftrightarrow> loadable_table bits vals
     \<and> (\<exists>t. cleared_lookup t \<and> derive_table bits vals t = Some tbl)"

lemma uses_table_reads: "uses_table bits vals tbl \<Longrightarrow> reads_symbols tbl (code_word bits vals) (table_symbols bits vals)"
  by (auto simp: uses_table_def reads_symbols_def intro: derived_takes(1))

text \<open>Example data: one block, and a scan of the coefficients 1 to 5 with the bits of 3, -1 and three zeros.\<close>

definition sample_table :: derived_tbl where
  "sample_table = the (derive_table jpeg_fw_lum_dc_bits_default dc_values cleared_table)"

definition sample_entropy :: entropy_info where
  "sample_entropy = \<lparr>e_restarts_to_go = 0, e_next_restart_num = 0, last_dc_value = replicate 4 0, EOBRUN = 0,
     vld_table = replicate 4 sample_table, ac_derived_tbl = Some 0, decode_mcu = AC_first\<rparr>"

definition sample_sos :: "entropy_info \<Rightarrow> sos" where
  "sample_sos e = \<lparr>address = \<lparr>src_pos = 0, bytes_in_buf = 0, jstream_words = 0, jremain_bit_num = 0\<rparr>,
     sos_comps_in_scan = 1, sos_comp_info = replicate 4 (component.extend zero_component \<lparr>dc_tbl_no = 0, ac_tbl_no = 0\<rparr>),
     sos_Ss = 0, sos_Se = 0, sos_Ah = 0, sos_Al = 0, entropy = e\<rparr>"

definition sample_bits :: "bytes \<Rightarrow> bit_buffer" where
  "sample_bits bs = \<lparr>stream = bs, stream_pos = 0, s_jstream_words = 0, s_jremain_bit_num = 0,
     s_jremain_bytes = of_nat (length bs)\<rparr>"

definition sample_prog :: "bytes \<Rightarrow> u16 \<Rightarrow> u16 \<Rightarrow> u16 \<Rightarrow> coef list \<Rightarrow> prog" where
  "sample_prog bs ss se al cs = \<lparr>pbits = sample_bits bs, pcodec = zero_codec, p_Ss = ss, p_Se = se, p_Ah = 0, p_Al = al,
     p_input_scan_number = 0, cur_scan = 0, p_comps_in_scan = 1, MCU_per_col = 1, MCU_per_row = 1,
     p_comp_id_map = [1, 2, 3], buf_storage = [sample_sos sample_entropy], cur_comp_info = [Some 0, Some 0, Some 0, None],
     block_num = 1, blocks_membership = replicate 6 0, block_line = [cs, [], []],
     blocks = [Some (0, 0), None, None, None, None, None]\<rparr>"

lemma sample_uses_table: "uses_table jpeg_fw_lum_dc_bits_default dc_values sample_table"
proof -
  obtain t where "derive_table jpeg_fw_lum_dc_bits_default dc_values cleared_table = Some t"
    using derive_table_decodes [OF dc_table_loadable cleared_table_ok(1)] by blast
  then show ?thesis using dc_table_loadable cleared_table_ok(1) by (auto simp: uses_table_def sample_table_def)
qed

lemma sample_prog_ok: "scan_ok (sample_prog bs ss se al cs)" "current (sample_prog bs ss se al cs) = sample_entropy"
  by (simp_all add: scan_ok_def current_def sample_prog_def sample_sos_def zero_codec_def)

lemma dc_code_lengths: "code_lengths jpeg_fw_lum_dc_bits_default = [2, 3, 3, 3, 3, 3, 4, 5, 6, 7, 8, 9]"
  by (simp add: code_lengths_def default_counts numeral_eq_Suc)

lemma dc_code_words:
  "code_word jpeg_fw_lum_dc_bits_default dc_values 0 = [False, False]"
  "code_word jpeg_fw_lum_dc_bits_default dc_values 1 = [False, True, False]"
  "code_word jpeg_fw_lum_dc_bits_default dc_values 2 = [False, True, True]"
  "code_word jpeg_fw_lum_dc_bits_default dc_values 3 = [True, False, False]"
  by (simp_all add: code_word_def dc_code_lengths dc_values_def jpeg_fw_lum_dc_huffvalue_default_def kraft_def
    nat_bits_def upt_rec bit_iff_odd)

lemma dc_table_symbols: "{0, 1, 2, 3} \<subseteq> table_symbols jpeg_fw_lum_dc_bits_default dc_values"
  by (simp add: table_symbols_def dc_code_lengths dc_values_def jpeg_fw_lum_dc_huffvalue_default_def)

lemma sample_delivers: "length bs < 100 \<Longrightarrow> 0xFF \<notin> set bs \<Longrightarrow> delivers (sample_bits bs) (byte_bits bs)"
proof -
  assume bs: "length bs < 100" "0xFF \<notin> set bs"
  then have "stuff bs = bs" by (induction bs) auto
  with bs(1) show ?thesis
    by (auto simp: delivers_def sample_bits_def unsigned_of_nat take_bit_nat_eq_self intro!: exI [of _ bs])
qed

lemma sample_bit_sizes: "bit_size 0 = 0" "bit_size (Suc 0) = 1" "bit_size 3 = 2"
proof -
  show z: "bit_size 0 = 0" by (simp add: bit_size.simps [of 0])
  then show o: "bit_size (Suc 0) = 1" by (simp add: bit_size.simps [of "Suc 0"])
  then show "bit_size 3 = 2" by (simp add: bit_size.simps [of 3])
qed

lemma sample_nat_bits: "nat_bits 1 0 = [False]" "nat_bits 2 3 = [True, True]" "nat_bits 0 n = []"
  by (simp_all add: nat_bits_def bit_iff_odd upt_rec)

lemma sample_sizes: "val_size 3 = 2" "val_size (- 1) = 1" "val_size 0 = 0" "val_bits 3 = [True, True]" "val_bits (- 1) = [False]"
proof -
  show s: "val_size 3 = 2" "val_size (- 1) = 1" "val_size 0 = 0"
    using sample_bit_sizes by (simp_all add: val_size_def)
  show "val_bits 3 = [True, True]" "val_bits (- 1) = [False]"
    using sample_nat_bits by (simp_all add: val_bits_def s)
qed

end
