(* ===== verification/ProgFirst.thy ===== *)
theory ProgFirst
  imports ProgDecode
begin

text \<open>
  The first passes of a progressive picture: the band of AC coefficients of a block, and the DC
  values of a unit.
\<close>

subsection \<open>A band\<close>

text \<open>C6: the first pass of a band decodes what was encoded.  Let the scan use a table of the picture, let
  the block lie in its line and the stream hold the code of the band \<open>vs\<close>, in zigzag order from 
  \<open>Ss\<close> to \<open>Se\<close>.  Then the decoder succeeds and takes exactly these bits; the coefficients of the band that are not zero are
  stored shifted to the bit position \<open>Al\<close>, all other coefficients and all other blocks are
  unchanged.\<close>

theorem AC_first_decodes_band:
  assumes "scan_ok s" "EOBRUN (current s) = 0" "ac_derived_tbl (current s) = Some i" "i < length (vld_table (current s))"
    and "uses_table bits vals (vld_table (current s) ! i)" "block_in (block_line s) p"
    and "unat (p_Ss s) + length vs = unat (p_Se s) + 1" "unat (p_Se s) < 64"
    and "\<forall>v \<in> set vs. val_size v < 16" "set (band_symbols 0 vs) \<subseteq> table_symbols bits vals"
    and "delivers (pbits s) (band_bits (code_word bits vals) 0 vs @ ys)"
  shows "\<exists>s'. decode_mcu_AC_first (Some p # ps) s = Some (JOk () s') \<and> delivers (pbits s') ys
    \<and> (\<forall>j < length vs. vs ! j \<noteq> 0 \<longrightarrow>
         coef_at (block_line s') p (jpeg_fw_zigzag_order ! (unat (p_Ss s) + j)) = word_of_int (vs ! j * 2 ^ unat (p_Al s)))
    \<and> (\<forall>q < 64. q \<notin> (\<lambda>j. jpeg_fw_zigzag_order ! (unat (p_Ss s) + j)) ` {j. j < length vs \<and> vs ! j \<noteq> 0}
         \<longrightarrow> coef_at (block_line s') p q = coef_at (block_line s) p q)
    \<and> same_outside p (block_line s) (block_line s') \<and> EOBRUN (current s') = 0"
proof -
  let ?ss = "unat (p_Ss s)" and ?al = "unat (p_Al s)" and ?L = "block_line s"
  let ?L' = "put_band ?al p ?ss vs ?L"
  have room: "?ss + length vs \<le> 64" using assms(7,8) by simp
  obtain b' where b': "AC_first_loop (vld_table (current s) ! i) (unat (p_Se s)) ?al p ?ss s
      = Some (JOk 0 (s\<lparr>pbits := b', block_line := ?L'\<rparr>))" "delivers b' ys"
    using AC_first_band [OF uses_table_reads [OF assms(5)] assms(8-10), of ?ss s p ys ?al] assms(6,7,11) by auto
  let ?s = "set_entropy (\<lambda>e. e\<lparr>EOBRUN := 0, e_restarts_to_go := e_restarts_to_go e - 1\<rparr>) (s\<lparr>pbits := b', block_line := ?L'\<rparr>)"
  have "decode_mcu_AC_first (Some p # ps) s = Some (JOk () ?s)"
    using assms(1-4) b'(1)
    by (simp add: decode_mcu_AC_first_def pthen_cases(1) [where m = process_restart] process_restart_none
      get_entropy_ok elem_ok pbind_pret pbind_pget) (simp add: pbind_def end_of_unit)
  moreover have "\<forall>j < length vs. vs ! j \<noteq> 0 \<longrightarrow> coef_at ?L' p (jpeg_fw_zigzag_order ! (?ss + j)) = word_of_int (vs ! j * 2 ^ ?al)"
    using put_band_coefs [OF assms(6) room, of ?al] by (simp add: scaled_val)
  moreover note put_band_unchanged [OF assms(6) room, of _ ?al]
  moreover have "same_outside p ?L ?L'" using put_band_outside [OF room] .
  ultimately show ?thesis using b'(2) assms(1) by (intro exI [of _ ?s]) simp
qed

lemma sample_stream: "byte_bits [0x7A, 0] = [False, True, True, True, True, False, True, False]
     @ [False, False, False, False, False, False, False, False]"
proof -
  have "nat_bits 8 0x7A = [False, True, True, True, True, False, True, False]" "nat_bits 8 0 = [False, False, False, False, False, False, False, False]"
    by (simp_all add: nat_bits_def bit_iff_odd upt_rec)
  then show ?thesis by simp
qed

lemma sample_prog_fields:
  "pbits (sample_prog bs ss se al cs) = sample_bits bs" "p_Ss (sample_prog bs ss se al cs) = ss"
  "p_Se (sample_prog bs ss se al cs) = se" "p_Al (sample_prog bs ss se al cs) = al"
  "block_line (sample_prog bs ss se al cs) = [cs, [], []]"
  by (simp_all add: sample_prog_def)

lemma sample_band: "band_bits (code_word jpeg_fw_lum_dc_bits_default dc_values) 0 [3, -1, 0, 0, 0] @ replicate 5 False
    = byte_bits [0x7A, 0]"
  unfolding sample_stream by (simp add: sample_sizes dc_code_words) (simp add: numeral_eq_Suc)

theorem AC_first_decodes_band_witness:
  "\<exists>s'. decode_mcu_AC_first [Some (0, 0)] (sample_prog [0x7A, 0] 1 5 1 (replicate 64 0)) = Some (JOk () s')
    \<and> coef_at (block_line s') (0, 0) 1 = 6 \<and> coef_at (block_line s') (0, 0) 8 = - 2"
proof -
  let ?s = "sample_prog [0x7A, 0] 1 5 1 (replicate 64 0)" and ?vs = "[3, -1, 0, 0, 0] :: int list"
  have "delivers (sample_bits [0x7A, 0]) (byte_bits [0x7A, 0])" by (rule sample_delivers) simp_all
  then have bits: "delivers (pbits ?s) (band_bits (code_word jpeg_fw_lum_dc_bits_default dc_values) 0 ?vs @ replicate 5 False)"
    unfolding sample_band by (simp add: sample_prog_def)
  have "\<exists>s'. decode_mcu_AC_first (Some (0, 0) # []) ?s = Some (JOk () s') \<and> delivers (pbits s') (replicate 5 False)
    \<and> (\<forall>j < length ?vs. ?vs ! j \<noteq> 0 \<longrightarrow>
         coef_at (block_line s') (0, 0) (jpeg_fw_zigzag_order ! (unat (p_Ss ?s) + j)) = word_of_int (?vs ! j * 2 ^ unat (p_Al ?s)))
    \<and> (\<forall>q < 64. q \<notin> (\<lambda>j. jpeg_fw_zigzag_order ! (unat (p_Ss ?s) + j)) ` {j. j < length ?vs \<and> ?vs ! j \<noteq> 0}
         \<longrightarrow> coef_at (block_line s') (0, 0) q = coef_at (block_line ?s) (0, 0) q)
    \<and> same_outside (0, 0) (block_line ?s) (block_line s') \<and> EOBRUN (current s') = 0"
    by (rule AC_first_decodes_band [OF _ _ _ _ _ _ _ _ _ _ bits, of 0])
      (use sample_uses_table dc_table_symbols in \<open>simp_all add: sample_prog_ok sample_prog_fields sample_entropy_def sample_sizes block_in_def\<close>)
  then obtain s' where s': "decode_mcu_AC_first [Some (0, 0)] ?s = Some (JOk () s')"
    "\<And>j. j < 5 \<Longrightarrow> ?vs ! j \<noteq> 0 \<Longrightarrow> coef_at (block_line s') (0, 0) (jpeg_fw_zigzag_order ! (1 + j)) = word_of_int (?vs ! j * 2)"
    by (auto simp: sample_prog_fields)
  from s'(2) [of 0] s'(2) [of 1] have "coef_at (block_line s') (0, 0) 1 = 6" "coef_at (block_line s') (0, 0) 8 = - 2"
    by (simp_all add: jpeg_fw_zigzag_order_def)
  with s'(1) show ?thesis by blast
qed


subsection \<open>The DC values of a unit\<close>

text \<open>The reference: the blocks of a unit in order, of every block the difference to the value of the
  component's block before; the code of the size and the bits of the difference.\<close>

fun dc_diffs :: "(nat \<Rightarrow> nat) \<Rightarrow> (nat \<Rightarrow> int) \<Rightarrow> (nat \<Rightarrow> int) \<Rightarrow> nat list \<Rightarrow> (nat \<times> int) list" where
  "dc_diffs ci v prev [] = []"
| "dc_diffs ci v prev (b # bs) =
     (ci b, v b - prev (ci b)) # dc_diffs ci v (prev(ci b := v b)) bs"

fun dc_last :: "(nat \<Rightarrow> nat) \<Rightarrow> (nat \<Rightarrow> int) \<Rightarrow> (nat \<Rightarrow> int) \<Rightarrow> nat list \<Rightarrow> nat \<Rightarrow> int" where
  "dc_last ci v prev [] = prev"
| "dc_last ci v prev (b # bs) = dc_last ci v (prev(ci b := v b)) bs"

definition dc_bits :: "(nat \<Rightarrow> u8 \<Rightarrow> bool list) \<Rightarrow> (nat \<times> int) list \<Rightarrow> bool list" where
  "dc_bits enc ds = concat (map (\<lambda>(c, d). enc c (of_nat (val_size d)) @ val_bits d) ds)"

text \<open>The values written.\<close>

fun put_dc :: "nat \<Rightarrow> (nat \<Rightarrow> block_ptr) \<Rightarrow> (nat \<Rightarrow> int) \<Rightarrow> nat list \<Rightarrow> coef list list \<Rightarrow> coef list list" where
  "put_dc al ptr v [] L = L"
| "put_dc al ptr v (b # bs) L = put_dc al ptr v bs (write_coef (ptr b) 0 (scaled al (word_of_int (v b))) L)"

text \<open>The component of a block and the table of the component in the current scan.\<close>

definition dc_ready :: "prog \<Rightarrow> nat \<Rightarrow> nat \<Rightarrow> derived_tbl \<Rightarrow> bool" where
  "dc_ready s b c tbl \<longleftrightarrow> b < length (blocks_membership s) \<and> c = unat (blocks_membership s ! b)
     \<and> c < length (last_dc_value (current s)) \<and> c < length (cur_comp_info s)
     \<and> (\<exists>n. cur_comp_info s ! c = Some n \<and> n < length (buf_storage s) \<and> c < length (sos_comp_info (buf_storage s ! n))
         \<and> unat (dc_tbl_no (sos_comp_info (buf_storage s ! n) ! c)) < length (vld_table (current s))
         \<and> tbl = vld_table (current s) ! unat (dc_tbl_no (sos_comp_info (buf_storage s ! n) ! c)))"

lemma DC_table_ready: "dc_ready s b c tbl \<Longrightarrow> scan_ok s \<Longrightarrow> DC_table b s = Some (JOk (c, tbl) s)"
  by (auto simp: DC_table_def dc_ready_def Let_def pbind_pget elem_ok pbind_pret get_entropy_ok)
    (simp add: pret_def)

abbreviation after_dc :: "bit_buffer \<Rightarrow> coef list list \<Rightarrow> u32 list \<Rightarrow> prog \<Rightarrow> prog" where
  "after_dc b L ld s \<equiv> set_entropy (\<lambda>e. e\<lparr>last_dc_value := ld\<rparr>) (s\<lparr>pbits := b, block_line := L\<rparr>)"

lemma after_dc_fields [simp]:
  "blocks_membership (after_dc b L ld s) = blocks_membership s" "cur_comp_info (after_dc b L ld s) = cur_comp_info s"
  "p_Al (set_entropy f s) = p_Al s" "length (buf_storage (after_dc b L ld s)) = length (buf_storage s)"
  "block_num (after_dc b L ld s) = block_num s"
  by (simp_all add: set_entropy_def)

lemma after_dc_components:
  "sos_comp_info (buf_storage (after_dc b L ld s) ! n) = sos_comp_info (buf_storage s ! n)"
  by (cases "n = unat (cur_scan s)"; cases "unat (cur_scan s) < length (buf_storage s)")
    (simp_all add: set_entropy_def list_update_beyond)

lemma after_dc_ready:
  "scan_ok s \<Longrightarrow> dc_ready s b c tbl \<Longrightarrow> length ld = length (last_dc_value (current s)) \<Longrightarrow> dc_ready (after_dc b' L ld s) b c tbl"
  by (auto simp: dc_ready_def after_dc_components)

lemma after_dc_twice: "scan_ok s \<Longrightarrow> after_dc b L ld (after_dc b' L' ld' s) = after_dc b L ld s"
  by (simp add: set_entropy_def current_def scan_ok_def)

text \<open>A difference from the stream.\<close>

lemma val_zero [simp]: "val_size 0 = 0" "val_bits 0 = []"
proof -
  show "val_size 0 = 0" by (rule val_size_0 [THEN iffD2]) simp
  then show "val_bits 0 = []" by (metis length_val_bits length_0_conv)
qed

lemma takes_decode_difference:
  assumes "reads_symbols tbl enc S" "val_size d < 16" "of_nat (val_size d) \<in> S"
  shows "takes (decode_difference tbl) (enc (of_nat (val_size d)) @ val_bits d) (word_of_int d)"
  unfolding decode_difference_def
proof (rule takes_pbind)
  show "takes (HUFF_DECODE tbl) (enc (of_nat (val_size d))) (of_nat (val_size d))"
    using assms(1,3) by (simp add: reads_symbols_def)
  have n: "unat (of_nat (val_size d) :: u8) = val_size d"
    unfolding unsigned_of_nat using assms(2) by (simp add: take_bit_nat_eq_self)
  show "takes (if (of_nat (val_size d) :: u8) \<noteq> 0
      then pbind (getbits (unat (of_nat (val_size d) :: u8))) (\<lambda>r. pret (HUFF_EXTEND r (unat (of_nat (val_size d) :: u8))))
      else pret 0) (val_bits d) (word_of_int d)"
  proof (cases "d = 0")
    case True
    then show ?thesis by (simp add: takes_pret)
  next
    case False
    then have nz: "(of_nat (val_size d) :: u8) \<noteq> 0" using n by (metis unsigned_0 val_size_0)
    have "takes (getbits (val_size d)) (val_bits d) (of_nat (bits_nat (val_bits d)))"
      using takes_getbits [of "val_bits d"] assms(2) by simp
    then have "takes (pbind (getbits (val_size d)) (\<lambda>r. pret (HUFF_EXTEND r (val_size d)))) (val_bits d @ [])
        (HUFF_EXTEND (of_nat (bits_nat (val_bits d))) (val_size d))"
      by (rule takes_pbind) (rule takes_pret)
    then show ?thesis using HUFF_EXTEND_val [OF False] assms(2) nz unfolding n by simp
  qed
qed

lemma next_dc_ok:
  assumes "scan_ok s" "c < length (last_dc_value (current s))"
  shows "next_dc c diff s = Some (JOk (diff + last_dc_value (current s) ! c)
    (set_entropy (\<lambda>e. e\<lparr>last_dc_value := (last_dc_value e)[c := diff + last_dc_value (current s) ! c]\<rparr>) s))"
  using assms
  by (simp add: next_dc_def get_entropy_ok elem_ok pbind_pret Let_def)
    (simp add: pthen_def pbind_def mod_entropy_ok pret_def)


lemma DC_first_block_ok:
  assumes "scan_ok s" "dc_ready s b c tbl" "b < length M" "M ! b = Some p" "block_in (block_line s) p"
    and "reads_symbols tbl enc S" "val_size d < 16" "of_nat (val_size d) \<in> S"
    and "last_dc_value (current s) ! c = word_of_int u"
    and "delivers (pbits s) ((enc (of_nat (val_size d)) @ val_bits d) @ ys)"
  shows "\<exists>b'. DC_first_block M b s = Some (JOk () (after_dc b'
      (write_coef p 0 (scaled (unat (p_Al s)) (word_of_int (d + u))) (block_line s))
      ((last_dc_value (current s))[c := word_of_int (d + u)]) s)) \<and> delivers b' ys"
proof -
  have c: "c < length (last_dc_value (current s))" using assms(2) by (simp add: dc_ready_def)
  obtain b' where b': "on_bits (decode_difference tbl) s = Some (JOk (word_of_int d) (s\<lparr>pbits := b'\<rparr>))" "delivers b' ys"
    using takes_decode_difference [OF assms(6-8)] assms(10) by (rule on_bits_takes)
  let ?ld = "(last_dc_value (current s))[c := word_of_int (d + u)]"
  have n: "next_dc c (word_of_int d) (s\<lparr>pbits := b'\<rparr>) = Some (JOk (word_of_int (d + u)) (after_dc b' (block_line s) ?ld s))"
    using next_dc_ok [of "s\<lparr>pbits := b'\<rparr>" c "word_of_int d"] c assms(1,9) by (simp add: set_entropy_def current_def)
  have put: "put_coef p 0 v (after_dc b' (block_line s) ?ld s)
      = Some (JOk () (after_dc b' (write_coef p 0 v (block_line s)) ?ld s))" for v
    using put_coef_block [of "after_dc b' (block_line s) ?ld s" p 0 v] assms(5) by (simp add: set_entropy_def current_def)
  have "DC_first_block M b s = put_coef p 0 (scaled (unat (p_Al s)) (word_of_int (d + u))) (after_dc b' (block_line s) ?ld s)"
    using assms(3,4) DC_table_ready [OF assms(2,1)] b'(1) n
    by (simp add: DC_first_block_def elem_ok pbind_pret pbind_cases(1) [where m = "DC_table b"]
      pbind_cases(1) [where m = "on_bits (decode_difference tbl)"] pbind_cases(1) [where m = "next_dc c (word_of_int d)"] pbind_pget)
  with put b'(2) show ?thesis by (intro exI [of _ b']) (simp only:)
qed

lemma DC_first_blocks:
  assumes "scan_ok s" "\<forall>b \<in> set bs. dc_ready s b (ci b) (tbl (ci b)) \<and> reads_symbols (tbl (ci b)) (enc (ci b)) (S (ci b))
      \<and> b < length M \<and> M ! b = Some (ptr b) \<and> block_in (block_line s) (ptr b)"
    and "\<forall>(c, d) \<in> set (dc_diffs ci v prev bs). val_size d < 16 \<and> of_nat (val_size d) \<in> S c"
    and "\<forall>c < length (last_dc_value (current s)). last_dc_value (current s) ! c = word_of_int (prev c)"
    and "delivers (pbits s) (dc_bits enc (dc_diffs ci v prev bs) @ ys)"
  shows "\<exists>b' ld. pfor bs (DC_first_block M) s
      = Some (JOk () (after_dc b' (put_dc (unat (p_Al s)) ptr v bs (block_line s)) ld s))
    \<and> delivers b' ys \<and> length ld = length (last_dc_value (current s))
    \<and> (\<forall>c < length ld. ld ! c = word_of_int (dc_last ci v prev bs c))"
  using assms
proof (induction bs arbitrary: s prev)
  case Nil
  have "after_dc (pbits s) (block_line s) (last_dc_value (current s)) s = s"
    by (simp add: set_entropy_def current_def)
  with Nil show ?case by (intro exI [of _ "pbits s"] exI [of _ "last_dc_value (current s)"]) (simp add: pret_def dc_bits_def)
next
  case (Cons b bs)
  let ?d = "v b - prev (ci b)" and ?al = "unat (p_Al s)"
  let ?ld = "(last_dc_value (current s))[ci b := word_of_int (v b)]"
  let ?L = "write_coef (ptr b) 0 (scaled ?al (word_of_int (v b))) (block_line s)"
  have c: "ci b < length (last_dc_value (current s))" using Cons.prems(2) by (simp add: dc_ready_def)
  have "delivers (pbits s) ((enc (ci b) (of_nat (val_size ?d)) @ val_bits ?d)
      @ (dc_bits enc (dc_diffs ci v (prev(ci b := v b)) bs) @ ys))"
    using Cons.prems(5) by (simp add: dc_bits_def)
  then obtain b1 where b1: "DC_first_block M b s = Some (JOk () (after_dc b1 ?L ?ld s))"
    "delivers b1 (dc_bits enc (dc_diffs ci v (prev(ci b := v b)) bs) @ ys)"
    using DC_first_block_ok [OF Cons.prems(1), of b "ci b" "tbl (ci b)" M "ptr b" "enc (ci b)" "S (ci b)" ?d "prev (ci b)"
        "dc_bits enc (dc_diffs ci v (prev(ci b := v b)) bs) @ ys"]
      Cons.prems(2-4) c that by (simp del: set_entropy_fields) blast
  let ?s = "after_dc b1 ?L ?ld s"
  have "\<exists>b' ld. pfor bs (DC_first_block M) ?s
      = Some (JOk () (after_dc b' (put_dc (unat (p_Al ?s)) ptr v bs (block_line ?s)) ld ?s))
    \<and> delivers b' ys \<and> length ld = length (last_dc_value (current ?s))
    \<and> (\<forall>c < length ld. ld ! c = word_of_int (dc_last ci v (prev(ci b := v b)) bs c))"
  proof (rule Cons.IH)
    show "\<forall>b \<in> set bs. dc_ready ?s b (ci b) (tbl (ci b)) \<and> reads_symbols (tbl (ci b)) (enc (ci b)) (S (ci b))
      \<and> b < length M \<and> M ! b = Some (ptr b) \<and> block_in (block_line ?s) (ptr b)"
      using Cons.prems(1,2) by (auto intro!: after_dc_ready)
    show "\<forall>(c, d) \<in> set (dc_diffs ci v (prev(ci b := v b)) bs). val_size d < 16 \<and> of_nat (val_size d) \<in> S c"
      using Cons.prems(3) by (auto simp only: dc_diffs.simps list.set ball_simps)
    show "\<forall>c < length (last_dc_value (current ?s)). last_dc_value (current ?s) ! c = word_of_int ((prev(ci b := v b)) c)"
      using Cons.prems(1,4) by (simp add: nth_list_update)
    show "delivers (pbits ?s) (dc_bits enc (dc_diffs ci v (prev(ci b := v b)) bs) @ ys)"
      using b1(2) by simp
  qed (use Cons.prems(1) in simp)
  then obtain b' ld where "pfor bs (DC_first_block M) ?s = Some (JOk () (after_dc b' (put_dc ?al ptr v bs ?L) ld s))"
    "delivers b' ys" "length ld = length (last_dc_value (current s))"
    "\<forall>c < length ld. ld ! c = word_of_int (dc_last ci v (prev(ci b := v b)) bs c)"
    using Cons.prems(1) by (auto simp: after_dc_twice)
  with b1(1) show ?case
    by (intro exI [of _ b'] exI [of _ ld]) (simp add: pthen_cases(1) [where m = "DC_first_block M b"])
qed

text \<open>The coefficients after the values have been written.\<close>

lemma put_dc_block_in [simp]: "block_in (put_dc al ptr v bs L) p = block_in L p"
  by (induction bs arbitrary: L) simp_all

lemma write_coef_elsewhere: "(l, j) \<noteq> (fst p, snd p + i) \<Longrightarrow> write_coef p i x L ! l ! j = L ! l ! j"
  by (cases "l = fst p"; cases "l < length L") (auto simp: write_coef_def list_update_beyond)

lemma put_dc_other:
  "(\<forall>b \<in> set bs. (l, j) \<noteq> ptr b) \<Longrightarrow> put_dc al ptr v bs L ! l ! j = L ! l ! j"
  by (induction bs arbitrary: L) (auto simp: write_coef_elsewhere prod_eq_iff)

lemma put_dc_coefs:
  assumes "distinct bs" "inj_on ptr (set bs)" "\<forall>b \<in> set bs. block_in L (ptr b)" "b \<in> set bs"
  shows "coef_at (put_dc al ptr v bs L) (ptr b) 0 = scaled al (word_of_int (v b))"
  using assms
proof (induction bs arbitrary: L)
  case (Cons x bs)
  show ?case
  proof (cases "b = x")
    case True
    have "\<forall>y \<in> set bs. ptr x \<noteq> ptr y" using Cons.prems(1,2) by (auto simp: inj_on_def)
    then have "\<forall>y \<in> set bs. (fst (ptr x), snd (ptr x)) \<noteq> ptr y" by simp
    then have "coef_at (put_dc al ptr v (x # bs) L) (ptr x) 0 = coef_at (write_coef (ptr x) 0 (scaled al (word_of_int (v x))) L) (ptr x) 0"
      using put_dc_other by (simp add: coef_at_def)
    with True Cons.prems(3) show ?thesis by (simp add: coef_at_write)
  next
    case False
    with Cons.prems show ?thesis by (auto intro!: Cons.IH)
  qed
qed simp


text \<open>C8: the first pass of the DC values decodes what was encoded.  Let the blocks of a unit lie in
  their lines at different places, every block have a component and a table that the scan uses, and the stream
  hold the code of the values \<open>v\<close>: of each block the difference to the value before of its component.
  Then the decoder succeeds and takes exactly these bits, the first coefficient of every block is its value
  shifted to the bit position \<open>Al\<close>, no other coefficient changes, and the values that it keeps for
  the next unit are the last ones of the components.\<close>

theorem DC_first_decodes_unit:
  assumes "scan_ok s" "n = unat (block_num s)" "\<forall>b < n. dc_ready s b (ci b) (tbl (ci b))"
    and "\<forall>b < n. uses_table (bits (ci b)) (vals (ci b)) (tbl (ci b))"
    and "n \<le> length M" "\<forall>b < n. M ! b = Some (ptr b) \<and> block_in (block_line s) (ptr b)" "inj_on ptr {..<n}"
    and "\<forall>(c, d) \<in> set (dc_diffs ci v prev [0..<n]). val_size d < 16 \<and> of_nat (val_size d) \<in> table_symbols (bits c) (vals c)"
    and "\<forall>c < length (last_dc_value (current s)). last_dc_value (current s) ! c = word_of_int (prev c)"
    and "delivers (pbits s) (dc_bits (\<lambda>c. code_word (bits c) (vals c)) (dc_diffs ci v prev [0..<n]) @ ys)"
  shows "\<exists>s'. decode_mcu_DC_first M s = Some (JOk () s') \<and> delivers (pbits s') ys
    \<and> (\<forall>b < n. coef_at (block_line s') (ptr b) 0 = word_of_int (v b * 2 ^ unat (p_Al s)))
    \<and> (\<forall>l j. (l, j) \<notin> ptr ` {..<n} \<longrightarrow> block_line s' ! l ! j = block_line s ! l ! j)
    \<and> (\<forall>c < length (last_dc_value (current s)). last_dc_value (current s') ! c = word_of_int (dc_last ci v prev [0..<n] c))"
proof -
  let ?al = "unat (p_Al s)"
  let ?L = "put_dc ?al ptr v [0..<n] (block_line s)"
  have blocks: "\<forall>b \<in> set [0..<n]. dc_ready s b (ci b) (tbl (ci b))
      \<and> reads_symbols (tbl (ci b)) (code_word (bits (ci b)) (vals (ci b))) (table_symbols (bits (ci b)) (vals (ci b)))
      \<and> b < length M \<and> M ! b = Some (ptr b) \<and> block_in (block_line s) (ptr b)"
    using assms(3-6) uses_table_reads by auto
  obtain b' ld where run: "pfor [0..<n] (DC_first_block M) s = Some (JOk () (after_dc b' ?L ld s))"
    "delivers b' ys" "length ld = length (last_dc_value (current s))"
    "\<forall>c < length ld. ld ! c = word_of_int (dc_last ci v prev [0..<n] c)"
    using DC_first_blocks [OF assms(1) blocks assms(8-10)] by blast
  let ?s = "set_entropy (\<lambda>e. e\<lparr>e_restarts_to_go := e_restarts_to_go e - 1\<rparr>) (after_dc b' ?L ld s)"
  have ok: "scan_ok (after_dc b' ?L ld s)" using assms(1) by simp
  have "pthen (pbind (pget block_num) (\<lambda>n. pfor [0..<unat n] (DC_first_block M))) count_restart s = Some (JOk () ?s)"
    by (rule trans [OF pthen_cases(1)]; use run(1) count_restart_ok [OF ok] assms(2) in \<open>simp add: pbind_pget\<close>)
  then have "decode_mcu_DC_first M s = Some (JOk () ?s)"
    using assms(1) by (simp add: decode_mcu_DC_first_def pthen_cases(1) [where m = process_restart] process_restart_none)
  moreover have "coef_at ?L (ptr b) 0 = word_of_int (v b * 2 ^ ?al)" if "b < n" for b
    using put_dc_coefs [of "[0..<n]" ptr "block_line s" b ?al v] that assms(6,7)
    by (simp add: scaled_val atLeast0LessThan)
  moreover have "?L ! l ! j = block_line s ! l ! j" if "(l, j) \<notin> ptr ` {..<n}" for l j
    by (rule put_dc_other) (use that in auto)
  ultimately show ?thesis using run(2-4) ok assms(1) by (intro exI [of _ ?s]) simp
qed

text \<open>Two blocks of one component: the values 3 and 2 behind 0.\<close>

lemma sample_unit: "dc_bits (\<lambda>_. code_word jpeg_fw_lum_dc_bits_default dc_values) [(0, 3), (0, -1)] @ replicate 7 False
    = byte_bits [0x7A, 0]"
  unfolding sample_stream by (simp add: dc_bits_def sample_sizes dc_code_words) (simp add: numeral_eq_Suc)

theorem DC_first_decodes_unit_witness:
  "\<exists>s'. decode_mcu_DC_first [Some (0, 0), Some (0, 64)] (sample_prog [0x7A, 0] 0 0 1 (replicate 128 0)\<lparr>block_num := 2\<rparr>)
      = Some (JOk () s')
    \<and> coef_at (block_line s') (0, 0) 0 = 6 \<and> coef_at (block_line s') (0, 64) 0 = 4"
proof -
  let ?s = "sample_prog [0x7A, 0] 0 0 1 (replicate 128 0)\<lparr>block_num := 2\<rparr>"
  let ?ptr = "\<lambda>b :: nat. (0 :: nat, 64 * b)" and ?v = "\<lambda>b :: nat. if b = 0 then 3 else 2 :: int"
  have diffs: "dc_diffs (\<lambda>_. 0) ?v (\<lambda>_. 0) [0..<2] = [(0, 3), (0, -1)]"
    by (simp add: upt_rec)
  have "delivers (sample_bits [0x7A, 0]) (byte_bits [0x7A, 0])" by (rule sample_delivers) simp_all
  then have bits: "delivers (pbits ?s) (dc_bits (\<lambda>_. code_word jpeg_fw_lum_dc_bits_default dc_values)
      (dc_diffs (\<lambda>_. 0) ?v (\<lambda>_. 0) [0..<2]) @ replicate 7 False)"
    unfolding diffs sample_unit by (simp add: sample_prog_fields)
  have cur: "scan_ok ?s" "current ?s = sample_entropy"
    using sample_prog_ok by (simp_all add: scan_ok_def current_def)
  have "\<exists>s'. decode_mcu_DC_first [Some (0, 0), Some (0, 64)] ?s = Some (JOk () s') \<and> delivers (pbits s') (replicate 7 False)
    \<and> (\<forall>b < 2. coef_at (block_line s') (?ptr b) 0 = word_of_int (?v b * 2 ^ unat (p_Al ?s)))
    \<and> (\<forall>l j. (l, j) \<notin> ?ptr ` {..<2} \<longrightarrow> block_line s' ! l ! j = block_line ?s ! l ! j)
    \<and> (\<forall>c < length (last_dc_value (current ?s)). last_dc_value (current s') ! c = word_of_int (dc_last (\<lambda>_. 0) ?v (\<lambda>_. 0) [0..<2] c))"
  proof (rule DC_first_decodes_unit [OF _ _ _ _ _ _ _ _ _ bits])
    show "\<forall>b < 2. dc_ready ?s b 0 sample_table"
      by (simp add: dc_ready_def cur) (simp add: sample_prog_def sample_sos_def sample_entropy_def component.extend_def)
    show "\<forall>(c, d) \<in> set (dc_diffs (\<lambda>_. 0) ?v (\<lambda>_. 0) [0..<2]). val_size d < 16
        \<and> of_nat (val_size d) \<in> table_symbols jpeg_fw_lum_dc_bits_default dc_values"
      unfolding diffs using dc_table_symbols by (simp add: sample_sizes)
    show "\<forall>b < 2. [Some (0, 0), Some (0, 64)] ! b = Some (?ptr b) \<and> block_in (block_line ?s) (?ptr b)"
      by (simp add: sample_prog_fields block_in_def All_less_Suc numeral_2_eq_2)
  qed (use sample_uses_table in \<open>simp_all add: cur sample_entropy_def inj_on_def\<close>)
  then obtain s' where s': "decode_mcu_DC_first [Some (0, 0), Some (0, 64)] ?s = Some (JOk () s')"
    "\<And>b. b < 2 \<Longrightarrow> coef_at (block_line s') (?ptr b) 0 = word_of_int (?v b * 2)"
    by (auto simp: sample_prog_fields sample_prog_def)
  from s'(2) [of 0] s'(2) [of 1] have "coef_at (block_line s') (0, 0) 0 = 6" "coef_at (block_line s') (0, 64) 0 = 4"
    by simp_all
  with s'(1) show ?thesis by blast
qed

end
