(* ===== verification/ProgRefine.thy ===== *)
theory ProgRefine
  imports ProgFirst
begin

text \<open>
  The refinement passes of a progressive picture: with the values of the pass before, the bits that a
  reference encoder writes give the values with one bit more.
\<close>

subsection \<open>Values and their history\<close>

text \<open>What the pass before has stored of a value, at the bit position of this pass: the magnitude without
  its last bit.\<close>

definition history :: "int \<Rightarrow> int" where
  "history v = sgn v * (\<bar>v\<bar> div 2) * 2"

definition small_val :: "nat \<Rightarrow> int \<Rightarrow> bool" where
  "small_val al v \<longleftrightarrow> \<bar>v\<bar> * 2 ^ al < 2 ^ 15"

lemma history_cases:
  "\<bar>v\<bar> < 2 \<Longrightarrow> history v = 0"
  "2 \<le> \<bar>v\<bar> \<Longrightarrow> even v \<Longrightarrow> history v = v"
  "2 \<le> \<bar>v\<bar> \<Longrightarrow> odd v \<Longrightarrow> history v = (if 0 \<le> v then v - 1 else v + 1)"
proof -
  show "\<bar>v\<bar> < 2 \<Longrightarrow> history v = 0" by (simp add: history_def)
  show "2 \<le> \<bar>v\<bar> \<Longrightarrow> even v \<Longrightarrow> history v = v"
    by (cases "0 \<le> v") (auto simp: history_def sgn_if)
  assume v: "2 \<le> \<bar>v\<bar>" "odd v"
  from v(2) obtain k where k: "v = 2 * k + 1" by (rule oddE)
  show "history v = (if 0 \<le> v then v - 1 else v + 1)"
  proof (cases "0 \<le> v")
    case True
    with k have "\<bar>v\<bar> div 2 = k" by simp
    with True k v(1) show ?thesis by (simp add: history_def sgn_if)
  next
    case False
    with k have "\<bar>v\<bar> = 2 * (- k - 1) + 1" by simp
    then have "\<bar>v\<bar> div 2 = - k - 1" by simp
    with False k show ?thesis by (simp add: history_def sgn_if)
  qed
qed

lemma history_abs: "\<bar>history v\<bar> \<le> \<bar>v\<bar>" "history v = 0 \<longleftrightarrow> \<bar>v\<bar> < 2" "0 \<le> v \<Longrightarrow> 0 \<le> history v" "v \<le> 0 \<Longrightarrow> history v \<le> 0"
  by (auto simp: history_def abs_mult sgn_if)

lemma sint_small: "\<bar>w\<bar> < 2 ^ 15 \<Longrightarrow> sint (word_of_int w :: coef) = w"
  by (subst signed_of_int) (auto intro!: signed_take_bit_int_eq_self)

lemma small_history: "small_val al v \<Longrightarrow> \<bar>history v * 2 ^ al\<bar> < 2 ^ 15"
proof -
  assume "small_val al v"
  moreover have "\<bar>history v * 2 ^ al\<bar> \<le> \<bar>v\<bar> * 2 ^ al"
    using mult_right_mono [OF history_abs(1) [of v], of "2 ^ al"] by (simp add: abs_mult)
  ultimately show ?thesis by (simp add: small_val_def)
qed

lemma history_word_0: "small_val al v \<Longrightarrow> (word_of_int (history v * 2 ^ al) :: coef) = 0 \<longleftrightarrow> \<bar>v\<bar> < 2"
proof -
  assume "small_val al v"
  then have s: "sint (word_of_int (history v * 2 ^ al) :: coef) = history v * 2 ^ al"
    by (rule sint_small [OF small_history])
  have "(word_of_int (history v * 2 ^ al) :: coef) = 0 \<longleftrightarrow> history v * 2 ^ al = 0"
    using s signed_0 by (metis of_int_0)
  then show ?thesis by (simp add: history_abs(2))
qed

text \<open>The correction of a value.\<close>

lemma corrected_history:
  assumes "small_val al v" "2 \<le> \<bar>v\<bar>" "odd v"
  shows "corrected al (word_of_int (history v * 2 ^ al)) = word_of_int (v * 2 ^ al)"
proof -
  let ?c = "word_of_int (history v * 2 ^ al) :: coef"
  have "history v * 2 ^ al = push_bit (Suc al) (sgn v * (\<bar>v\<bar> div 2))"
    by (simp add: history_def push_bit_eq_mult)
  then have "?c = word_of_int (push_bit (Suc al) (sgn v * (\<bar>v\<bar> div 2)))" by (simp only:)
  moreover have "word_of_int (push_bit (Suc al) h) AND push_bit al 1 = (0 :: coef)" for h
    by (rule bit_eqI) (simp add: bit_simps bit_word_of_int_iff del: push_bit_Suc)
  ultimately have clear: "?c AND push_bit al 1 = 0" by (simp only:)
  have s: "sint ?c = history v * 2 ^ al" by (rule sint_small [OF small_history [OF assms(1)]])
  have sign: "0 \<le> sint ?c \<longleftrightarrow> 0 \<le> v"
  proof (cases "0 \<le> v")
    case True
    then show ?thesis unfolding s using history_abs(3) by simp
  next
    case False
    then have "history v < 0" using history_abs(2,4) [of v] assms(2) by linarith
    with False show ?thesis unfolding s by (simp add: zero_le_mult_iff)
  qed
  have p: "push_bit al 1 = (word_of_int (2 ^ al) :: coef)" "push_bit al (- 1) = (word_of_int (- (2 ^ al)) :: coef)"
    by (simp_all add: push_bit_eq_mult)
  have "corrected al ?c = (if 0 \<le> v then ?c + push_bit al 1 else ?c + push_bit al (- 1))"
    using clear sign by (simp only: corrected_def if_True simp_thms)
  also have "\<dots> = word_of_int (v * 2 ^ al)"
    unfolding p of_int_add [symmetric] history_cases(3) [OF assms(2,3)] by (simp add: algebra_simps)
  finally show ?thesis .
qed

lemma refined_word: "odd v \<Longrightarrow>
    (word_of_int (v div 2 * 2 ^ Suc al) :: coef) OR push_bit al 1 = word_of_int (v * 2 ^ al)"
proof -
  assume v: "odd v"
  have e: "v div 2 * 2 ^ Suc al = push_bit (Suc al) (v div 2)" "v * 2 ^ al = push_bit al v"
    by (simp_all add: push_bit_eq_mult)
  have b: "bit v (n - al) \<longleftrightarrow> n = al \<or> bit (v div 2) (n - Suc al)" if "al \<le> n" for n
  proof (cases "n = al")
    case False
    with that have "n - al = Suc (n - Suc al)" by simp
    then have "bit v (n - al) \<longleftrightarrow> bit (v div 2) (n - Suc al)" by (simp only: bit_Suc)
    with False show ?thesis by blast
  qed (use v in \<open>simp add: bit_0\<close>)
  show ?thesis unfolding e
  proof (rule bit_eqI)
    fix n assume "possible_bit TYPE(coef) n"
    then show "bit (word_of_int (push_bit (Suc al) (v div 2)) OR push_bit al 1 :: coef) n
      \<longleftrightarrow> bit (word_of_int (push_bit al v) :: coef) n"
      using b [of n] by (cases "n = al") (auto simp: bit_simps bit_word_of_int_iff simp del: push_bit_Suc)
  qed
qed

subsection \<open>The refinement of a band\<close>

text \<open>The reference: zeros are counted and the correction bits of values that were not zero are kept until
  the next symbol.  A new value (of magnitude 1) writes the count, its sign and the kept bits; sixteen zeros
  with a new value behind them write their own symbol and the kept bits; what is left at the end writes an end of
  band.\<close>

fun refine_items :: "nat \<Rightarrow> bool list \<Rightarrow> int list \<Rightarrow> (u8 \<times> bool list) list" where
  "refine_items r kept [] = (if r = 0 \<and> kept = [] then [] else [(0, kept)])"
| "refine_items r kept (v # vs) =
     (if 2 \<le> \<bar>v\<bar> then refine_items r (kept @ [odd v]) vs
      else if v \<noteq> 0 then (of_nat (16 * r + 1), (0 \<le> v) # kept) # refine_items 0 [] vs
      else if r = 15 \<and> (\<exists>u \<in> set vs. \<bar>u\<bar> = 1) then (0xF0, kept) # refine_items 0 [] vs
      else refine_items (r + 1) kept vs)"

definition item_bits :: "(u8 \<Rightarrow> bool list) \<Rightarrow> (u8 \<times> bool list) list \<Rightarrow> bool list" where
  "item_bits enc xs = concat (map (\<lambda>(x, bs). enc x @ bs) xs)"

lemma item_bits_simps [simp]: "item_bits enc [] = []" "item_bits enc ((x, bs) # xs) = enc x @ bs @ item_bits enc xs"
  by (simp_all add: item_bits_def)

text \<open>The values passed since the last symbol.\<close>

definition zeros :: "int list \<Rightarrow> nat" where
  "zeros us = length (filter (\<lambda>u. u = 0) us)"

definition corrections :: "int list \<Rightarrow> bool list" where
  "corrections us = map odd (filter (\<lambda>u. 2 \<le> \<bar>u\<bar>) us)"

lemma passed_simps [simp]:
  "zeros [] = 0" "zeros (u # us) = (if u = 0 then Suc (zeros us) else zeros us)" "zeros (us @ us') = zeros us + zeros us'"
  "corrections [] = []" "corrections (u # us) = (if 2 \<le> \<bar>u\<bar> then odd u # corrections us else corrections us)"
  "corrections (us @ us') = corrections us @ corrections us'"
  by (simp_all add: zeros_def corrections_def)

lemma passed_nothing: "\<forall>u \<in> set us. \<bar>u\<bar> \<noteq> 1 \<Longrightarrow> zeros us = 0 \<Longrightarrow> corrections us = [] \<Longrightarrow> us = []"
  by (cases us) (auto split: if_splits)

text \<open>The memory holds the values of the pass before.\<close>

definition has_history :: "nat \<Rightarrow> block_ptr \<Rightarrow> nat \<Rightarrow> int list \<Rightarrow> coef list list \<Rightarrow> bool" where
  "has_history al p k vs L \<longleftrightarrow> (\<forall>j < length vs. coef_at L p (jpeg_fw_zigzag_order ! (k + j)) = word_of_int (history (vs ! j) * 2 ^ al))"

lemma has_history_Cons: "has_history al p k (v # vs) L \<longleftrightarrow>
    coef_at L p (jpeg_fw_zigzag_order ! k) = word_of_int (history v * 2 ^ al) \<and> has_history al p (k + 1) vs L"
  by (simp add: has_history_def All_less_Suc2)

lemma has_history_append: "has_history al p k (us @ vs) L \<longleftrightarrow> has_history al p k us L \<and> has_history al p (k + length us) vs L"
  by (induction us arbitrary: k) (simp_all add: has_history_Cons, simp add: has_history_def)

lemma has_history_write:
  assumes "has_history al p k vs L" "block_in L p" "i < k" "k + length vs \<le> 64"
  shows "has_history al p k vs (write_coef p (jpeg_fw_zigzag_order ! i) x L)"
  using assms by (auto simp: has_history_def coef_at_write zigzag_ok(2) zigzag_inj)

lemma has_history_put:
  assumes "has_history al p (k + length us) vs L" "block_in L p" "k + length us + length vs \<le> 64"
  shows "has_history al p (k + length us) vs (put_band al' p k us L)"
  using assms
proof (induction us arbitrary: k L)
  case (Cons u us)
  from Cons.prems have "has_history al p (k + 1 + length us) vs
      (if u = 0 then L else write_coef p (jpeg_fw_zigzag_order ! k) (scaled al' (word_of_int u)) L)"
    by (auto intro!: has_history_write)
  with Cons.IH [of "k + 1"] Cons.prems(2,3) show ?case by simp
qed simp

lemma put_band_append: "put_band al p k (us @ vs) L = put_band al p (k + length us) vs (put_band al p k us L)"
  by (induction us arbitrary: k L) simp_all

lemma write_coef_same: "block_in L p \<Longrightarrow> i < 64 \<Longrightarrow> coef_at L p i = x \<Longrightarrow> write_coef p i x L = L"
  by (auto simp: write_coef_def coef_at_def block_in_def)

lemma on_bits_bit:
  assumes "delivers (pbits s) (x # ys)"
  obtains b' where "on_bits (getbits 1) s = Some (JOk (of_bool x) (s\<lparr>pbits := b'\<rparr>))" "delivers b' ys"
proof -
  have "takes (getbits 1) [x] (of_bool x)"
    using takes_getbits [of "[x]"] by (simp add: bits_nat_def)
  moreover have "delivers (pbits s) ([x] @ ys)" using assms by simp
  ultimately show thesis by (rule on_bits_takes) (rule that)
qed

text \<open>The step over a value of the pass before.\<close>

lemma correct_ok:
  assumes "block_in (block_line s) p" "k < 64" "2 \<le> \<bar>u\<bar>" "small_val al u"
    and "coef_at (block_line s) p (jpeg_fw_zigzag_order ! k) = word_of_int (history u * 2 ^ al)"
    and "delivers (pbits s) (odd u # ys)"
  shows "\<exists>b'. correct al p (jpeg_fw_zigzag_order ! k) (word_of_int (history u * 2 ^ al)) s
      = Some (JOk () (s\<lparr>pbits := b', block_line := write_coef p (jpeg_fw_zigzag_order ! k) (scaled al (word_of_int u)) (block_line s)\<rparr>))
    \<and> delivers b' ys"
proof -
  let ?z = "jpeg_fw_zigzag_order ! k"
  have z: "?z < 64" using zigzag_ok(2) [OF assms(2)] .
  obtain b' where b': "on_bits (getbits 1) s = Some (JOk (of_bool (odd u)) (s\<lparr>pbits := b'\<rparr>))" "delivers b' ys"
    using assms(6) by (rule on_bits_bit)
  have "correct al p ?z (word_of_int (history u * 2 ^ al)) s
      = Some (JOk () (s\<lparr>pbits := b', block_line := write_coef p ?z (scaled al (word_of_int u)) (block_line s)\<rparr>))"
  proof (cases "odd u")
    case True
    then show ?thesis
      using b'(1) put_coef_block [of "s\<lparr>pbits := b'\<rparr>" p ?z] assms(1) z corrected_history [OF assms(4,3) True]
      by (simp add: correct_def pbind_def scaled_val)
  next
    case False
    then have "write_coef p ?z (scaled al (word_of_int u)) (block_line s) = block_line s"
      using write_coef_same [OF assms(1) z] assms(5) history_cases(2) [OF assms(3)] by (simp add: scaled_val)
    with False b'(1) show ?thesis
      by (simp add: correct_def pbind_def pret_def)
  qed
  with b'(2) show ?thesis by blast
qed

lemma pass_value:
  assumes "block_in (block_line s) p" "k < 64" "small_val al u" "\<bar>u\<bar> \<noteq> 1"
    and "coef_at (block_line s) p (jpeg_fw_zigzag_order ! k) = word_of_int (history u * 2 ^ al)"
    and "delivers (pbits s) (corrections [u] @ ys)"
  shows "\<exists>b'. (if coef_at (block_line s) p (jpeg_fw_zigzag_order ! k) \<noteq> 0
       then correct al p (jpeg_fw_zigzag_order ! k) (coef_at (block_line s) p (jpeg_fw_zigzag_order ! k)) else pret ()) s
      = Some (JOk () (s\<lparr>pbits := b', block_line := put_band al p k [u] (block_line s)\<rparr>)) \<and> delivers b' ys"
    and "coef_at (block_line s) p (jpeg_fw_zigzag_order ! k) \<noteq> 0 \<longleftrightarrow> u \<noteq> 0"
proof -
  show nz: "coef_at (block_line s) p (jpeg_fw_zigzag_order ! k) \<noteq> 0 \<longleftrightarrow> u \<noteq> 0"
    using assms(4) history_word_0 [OF assms(3)] unfolding assms(5) by (auto simp del: of_int_mult)
  show "\<exists>b'. (if coef_at (block_line s) p (jpeg_fw_zigzag_order ! k) \<noteq> 0
       then correct al p (jpeg_fw_zigzag_order ! k) (coef_at (block_line s) p (jpeg_fw_zigzag_order ! k)) else pret ()) s
      = Some (JOk () (s\<lparr>pbits := b', block_line := put_band al p k [u] (block_line s)\<rparr>)) \<and> delivers b' ys"
  proof (cases "u = 0")
    case True
    with assms(6) nz show ?thesis by (intro exI [of _ "pbits s"]) (simp add: pret_def)
  next
    case False
    then have u: "2 \<le> \<bar>u\<bar>" using assms(4) by linarith
    with assms(6) have "delivers (pbits s) (odd u # ys)" by simp
    from correct_ok [OF assms(1,2) u assms(3,5) this] False nz show ?thesis
      unfolding assms(5) by (simp del: of_int_mult)
  qed
qed

text \<open>Over the values since the last symbol to the place of a value that was zero.\<close>

lemma refine_skip_step:
  assumes "k < 64" "block_in (block_line s) p"
  shows "refine_skip se al p k r s = (let pos = jpeg_fw_zigzag_order ! k; c = coef_at (block_line s) p pos in
     (if c = 0 \<and> r = 0 then pret 0
       else pthen (if c \<noteq> 0 then correct al p pos c else pret ())
              (if k + 1 \<le> se
               then pbind (refine_skip se al p (k + 1) (if c \<noteq> 0 then r else r - 1)) (\<lambda>n. pret (n + 1))
               else pret 1)) s)"
  using assms zigzag_ok [OF assms(1)]
  by (subst refine_skip.simps) (simp add: Let_def pbind_pret pbind_cases(1) [where m = "get_coef p n" for n] get_coef_block)

lemma refine_skip_ok:
  assumes "k + length us \<le> se" "se < 64" "\<bar>v\<bar> < 2" "\<forall>u \<in> set us. \<bar>u\<bar> \<noteq> 1 \<and> small_val al u" "block_in (block_line s) p"
    and "has_history al p k (us @ [v]) (block_line s)" "delivers (pbits s) (corrections us @ ys)"
  shows "\<exists>b'. refine_skip se al p k (zeros us) s
      = Some (JOk (length us) (s\<lparr>pbits := b', block_line := put_band al p k us (block_line s)\<rparr>)) \<and> delivers b' ys"
  using assms(1,4-7)
proof (induction us arbitrary: k s)
  case Nil
  then have k: "k < 64" and "coef_at (block_line s) p (jpeg_fw_zigzag_order ! k) = 0"
    using assms(2,3) history_cases(1) by (simp_all add: has_history_Cons)
  with refine_skip_step [OF k Nil(3)] Nil(5) show ?case
    by (intro exI [of _ "pbits s"]) (simp add: Let_def pret_def)
next
  case (Cons u us)
  let ?z = "jpeg_fw_zigzag_order ! k" and ?L = "block_line s"
  let ?L1 = "put_band al p k [u] ?L"
  have k: "k < 64" "k + 1 \<le> se" using Cons.prems(1) assms(2) by simp_all
  have u: "small_val al u" "\<bar>u\<bar> \<noteq> 1" "coef_at ?L p ?z = word_of_int (history u * 2 ^ al)"
    "delivers (pbits s) (corrections [u] @ (corrections us @ ys))"
    using Cons.prems(2,4,5) passed_simps(6) [of "[u]" us] by (simp_all add: has_history_Cons del: passed_simps)
  note nz = pass_value(2) [OF Cons.prems(3) k(1) u]
  from pass_value(1) [OF Cons.prems(3) k(1) u] obtain b1 where b1:
    "(if coef_at ?L p ?z \<noteq> 0 then correct al p ?z (coef_at ?L p ?z) else pret ()) s = Some (JOk () (s\<lparr>pbits := b1, block_line := ?L1\<rparr>))"
    "delivers b1 (corrections us @ ys)" by blast
  let ?s1 = "s\<lparr>pbits := b1, block_line := ?L1\<rparr>"
  have "refine_skip se al p k (zeros (u # us)) s = pbind (refine_skip se al p (k + 1) (zeros us)) (\<lambda>n. pret (n + 1)) ?s1"
    using refine_skip_step [OF k(1) Cons.prems(3), of se al "zeros (u # us)"] b1(1) k(2) nz
    by (cases "u = 0") (simp_all add: Let_def pthen_cases(1) pbind_pret)
  moreover have "\<exists>b'. refine_skip se al p (k + 1) (zeros us) ?s1
      = Some (JOk (length us) (?s1\<lparr>pbits := b', block_line := put_band al p (k + 1) us (block_line ?s1)\<rparr>)) \<and> delivers b' ys"
  proof (rule Cons.IH)
    show "has_history al p (k + 1) (us @ [v]) (block_line ?s1)"
      using has_history_put [of al p k "[u]" "us @ [v]" ?L al] Cons.prems(1,3,4) assms(2) by (simp add: has_history_Cons)
  qed (use Cons.prems(1-3) b1(2) in auto)
  ultimately show ?case using put_band_append [of al p k "[u]" us ?L] by (auto simp: pbind_def pret_def)
qed

text \<open>The rest of a band behind the last symbol.\<close>

lemma refine_rest_ok:
  assumes "k + length us = se + 1" "se < 64" "\<forall>u \<in> set us. \<bar>u\<bar> \<noteq> 1 \<and> small_val al u" "block_in (block_line s) p"
    and "has_history al p k us (block_line s)" "delivers (pbits s) (corrections us @ ys)"
  shows "\<exists>b'. refine_rest se al p k s
      = Some (JOk () (s\<lparr>pbits := b', block_line := put_band al p k us (block_line s)\<rparr>)) \<and> delivers b' ys"
  using assms(1,3-6)
proof (induction us arbitrary: k s)
  case Nil
  then show ?case by (intro exI [of _ "pbits s"]) (simp add: refine_rest_def pret_def)
next
  case (Cons u us)
  let ?z = "jpeg_fw_zigzag_order ! k" and ?L = "block_line s"
  let ?L1 = "put_band al p k [u] ?L"
  have k: "k < 64" "[k..<Suc se] = k # [k + 1..<Suc se]" using Cons.prems(1) assms(2) by (simp_all add: upt_rec)
  have u: "small_val al u" "\<bar>u\<bar> \<noteq> 1" "coef_at ?L p ?z = word_of_int (history u * 2 ^ al)"
    "delivers (pbits s) (corrections [u] @ (corrections us @ ys))"
    using Cons.prems(2,4,5) passed_simps(6) [of "[u]" us] by (simp_all add: has_history_Cons del: passed_simps)
  from pass_value(1) [OF Cons.prems(3) k(1) u] obtain b1 where b1:
    "(if coef_at ?L p ?z \<noteq> 0 then correct al p ?z (coef_at ?L p ?z) else pret ()) s = Some (JOk () (s\<lparr>pbits := b1, block_line := ?L1\<rparr>))"
    "delivers b1 (corrections us @ ys)" by blast
  let ?s1 = "s\<lparr>pbits := b1, block_line := ?L1\<rparr>"
  have "refine_rest se al p k s = refine_rest se al p (k + 1) ?s1"
    unfolding refine_rest_def k(2) using b1(1) get_coef_block [OF Cons.prems(3) zigzag_ok(2) [OF k(1)]] zigzag_ok(1) [OF k(1)]
    by (simp add: pthen_def pbind_pret) (simp add: pbind_def)
  moreover have "\<exists>b'. refine_rest se al p (k + 1) ?s1
      = Some (JOk () (?s1\<lparr>pbits := b', block_line := put_band al p (k + 1) us (block_line ?s1)\<rparr>)) \<and> delivers b' ys"
  proof (rule Cons.IH)
    show "has_history al p (k + 1) us (block_line ?s1)"
      using has_history_put [of al p k "[u]" us ?L al] Cons.prems(1,3,4) assms(2) by (simp add: has_history_Cons)
  qed (use Cons.prems(1-3) b1(2) in auto)
  ultimately show ?case using put_band_append [of al p k "[u]" us ?L] by auto
qed

text \<open>What follows the loop over the symbols.\<close>

definition refine_finish :: "nat \<Rightarrow> nat \<Rightarrow> block_ptr \<Rightarrow> nat \<times> u32 \<Rightarrow> u32 pd" where
  "refine_finish se al p = (\<lambda>(k, run). if 0 < run then pthen (refine_rest se al p k) (pret (run - 1)) else pret run)"

lemma AC_refine_step:
  assumes "k \<le> se" "on_bits (HUFF_DECODE tbl) s = Some (JOk rs s1)"
    and "unat (drop_bit 4 rs) = r" "unat (rs AND 15) = sz"
  shows "AC_refine_loop tbl se al p num k s =
    (if sz = 0 \<and> r \<noteq> 15 then pbind (on_bits (eob_run r)) (\<lambda>run. pret (k, run))
     else pbind (if sz \<noteq> 0 then on_bits (getbits 1) else pret 0) (\<lambda>sign.
          pbind (refine_skip se al p k r) (\<lambda>n.
          pthen (if sz \<noteq> 0
                 then pbind (zigzag_at (k + n)) (\<lambda>pos.
                   pthen (put_coef p pos (if sign \<noteq> 0 then push_bit al 1 else push_bit al (- 1)))
                         (pcheck (\<lambda>_. num < 64)))
                 else pret ())
               (AC_refine_loop tbl se al p (if sz \<noteq> 0 then num + 1 else num) (k + n + 1))))) s1"
  unfolding AC_refine_loop.simps [of tbl se al p num k s] assms(3,4) [symmetric]
  using assms(1,2) by (simp add: pbind_cases(1) [where m = "on_bits (HUFF_DECODE tbl)"] Let_def)

text \<open>A symbol for sixteen zeros.\<close>

lemma AC_refine_zeros:
  assumes "reads_symbols tbl enc S" "0xF0 \<in> S" "zeros us = 15" "k + length us \<le> se" "se < 64"
    and "\<forall>u \<in> set us. \<bar>u\<bar> \<noteq> 1 \<and> small_val al u" "block_in (block_line s) p"
    and "has_history al p k (us @ [0]) (block_line s)" "delivers (pbits s) (enc 0xF0 @ corrections us @ ys)"
  shows "\<exists>b'. AC_refine_loop tbl se al p num k s = AC_refine_loop tbl se al p num (k + length us + 1)
      (s\<lparr>pbits := b', block_line := put_band al p k (us @ [0]) (block_line s)\<rparr>) \<and> delivers b' ys"
proof -
  obtain b1 where b1: "on_bits (HUFF_DECODE tbl) s = Some (JOk 0xF0 (s\<lparr>pbits := b1\<rparr>))" "delivers b1 (corrections us @ ys)"
    using on_bits_symbol [OF assms(1,2), of s "corrections us @ ys"] assms(9) by blast
  have parts: "unat (drop_bit 4 (0xF0 :: u8)) = 15" "unat ((0xF0 :: u8) AND 15) = 0"
    using symbol_parts [of 15 0] by simp_all
  have k: "k \<le> se" using assms(4) by simp
  obtain b' where b': "refine_skip se al p k 15 (s\<lparr>pbits := b1\<rparr>)
      = Some (JOk (length us) (s\<lparr>pbits := b', block_line := put_band al p k us (block_line s)\<rparr>))" "delivers b' ys"
    using refine_skip_ok [of k us se 0 al "s\<lparr>pbits := b1\<rparr>" p ys] assms(3-8) b1(2) by auto
  have "put_band al p k (us @ [0]) (block_line s) = put_band al p k us (block_line s)" by (simp add: put_band_append)
  with AC_refine_step [OF k b1(1) parts, of al p num] b'
  show ?thesis by (intro exI [of _ b']) (simp add: pbind_pret pbind_def, simp add: pthen_def pbind_def pret_def)
qed

text \<open>A symbol for a new value.\<close>

lemma AC_refine_new:
  assumes "reads_symbols tbl enc S" "of_nat (16 * zeros us + 1) \<in> S" "zeros us < 16" "k + length us \<le> se" "se < 64"
    and "\<forall>u \<in> set us. \<bar>u\<bar> \<noteq> 1 \<and> small_val al u" "\<bar>v\<bar> = 1" "num < 64" "block_in (block_line s) p"
    and "has_history al p k (us @ [v]) (block_line s)"
    and "delivers (pbits s) (enc (of_nat (16 * zeros us + 1)) @ (0 \<le> v) # corrections us @ ys)"
  shows "\<exists>b'. AC_refine_loop tbl se al p num k s = AC_refine_loop tbl se al p (num + 1) (k + length us + 1)
      (s\<lparr>pbits := b', block_line := put_band al p k (us @ [v]) (block_line s)\<rparr>) \<and> delivers b' ys"
proof -
  let ?x = "of_nat (16 * zeros us + 1) :: u8" and ?z = "jpeg_fw_zigzag_order ! (k + length us)"
  obtain b1 where b1: "on_bits (HUFF_DECODE tbl) s = Some (JOk ?x (s\<lparr>pbits := b1\<rparr>))"
    "delivers b1 ((0 \<le> v) # corrections us @ ys)"
    using on_bits_symbol [OF assms(1,2), of s "(0 \<le> v) # corrections us @ ys"] assms(11) by blast
  have "delivers (pbits (s\<lparr>pbits := b1\<rparr>)) ((0 \<le> v) # (corrections us @ ys))" using b1(2) by simp
  then obtain b2 where b2: "on_bits (getbits 1) (s\<lparr>pbits := b1\<rparr>) = Some (JOk (of_bool (0 \<le> v)) (s\<lparr>pbits := b1\<rparr>\<lparr>pbits := b2\<rparr>))"
    "delivers b2 (corrections us @ ys)" by (rule on_bits_bit)
  have k: "k \<le> se" "k + length us < 64" using assms(4,5) by simp_all
  let ?L = "put_band al p k us (block_line s)"
  obtain b' where b': "refine_skip se al p k (zeros us) (s\<lparr>pbits := b2\<rparr>)
      = Some (JOk (length us) (s\<lparr>pbits := b', block_line := ?L\<rparr>))" "delivers b' ys"
    using refine_skip_ok [of k us se v al "s\<lparr>pbits := b2\<rparr>" p ys] assms(4-10) b2(2) by auto
  have new: "(if of_bool (0 \<le> v) \<noteq> (0 :: u32) then push_bit al 1 else push_bit al (- 1)) = scaled al (word_of_int v)"
    using assms(7) scaled_val [of al 1] scaled_val [of al "- 1"]
    by (cases "0 \<le> v") (auto simp: abs_if push_bit_eq_mult split: if_splits)
  have put: "put_coef p ?z (scaled al (word_of_int v)) (s\<lparr>pbits := b', block_line := ?L\<rparr>)
      = Some (JOk () (s\<lparr>pbits := b', block_line := put_band al p k (us @ [v]) (block_line s)\<rparr>))"
    using put_coef_block [of "s\<lparr>pbits := b', block_line := ?L\<rparr>" p ?z] assms(7,9) zigzag_ok(2) [OF k(2)]
    by (auto simp: put_band_append)
  have "AC_refine_loop tbl se al p num k s
      = pbind (on_bits (getbits 1)) (\<lambda>sign. pbind (refine_skip se al p k (zeros us)) (\<lambda>n.
          pthen (pbind (zigzag_at (k + n)) (\<lambda>pos. pthen (put_coef p pos (if sign \<noteq> 0 then push_bit al 1 else push_bit al (- 1)))
              (pcheck (\<lambda>_. num < 64)))) (AC_refine_loop tbl se al p (num + 1) (k + n + 1)))) (s\<lparr>pbits := b1\<rparr>)"
    using AC_refine_step [OF k(1) b1(1) symbol_parts [OF assms(3), of 1], of al p num] by simp
  also have "\<dots> = pthen (pbind (zigzag_at (k + length us)) (\<lambda>pos. pthen (put_coef p pos (scaled al (word_of_int v))) (pcheck (\<lambda>_. num < 64))))
      (AC_refine_loop tbl se al p (num + 1) (k + length us + 1)) (s\<lparr>pbits := b', block_line := ?L\<rparr>)"
    using b2(1) b'(1) by (simp add: pbind_def flip: new)
  also have "\<dots> = AC_refine_loop tbl se al p (num + 1) (k + length us + 1)
      (s\<lparr>pbits := b', block_line := put_band al p k (us @ [v]) (block_line s)\<rparr>)"
    using put assms(8) by (simp add: zigzag_ok(1) [OF k(2)] pbind_pret pthen_def) (simp add: pbind_def pcheck_def)
  finally show ?thesis using b'(2) by blast
qed

text \<open>The loop over a band: \<open>us\<close> are the values since the last symbol, \<open>vs\<close> the rest.\<close>

lemma AC_refine_band:
  assumes "reads_symbols tbl enc S" "se < 64" "\<forall>v \<in> set (us @ vs). small_val al v" "\<forall>u \<in> set us. \<bar>u\<bar> \<noteq> 1"
    and "(\<exists>v \<in> set vs. \<bar>v\<bar> = 1) \<longrightarrow> zeros us < 16" "k + length us + length vs = se + 1" "num \<le> k"
    and "fst ` set (refine_items (zeros us) (corrections us) vs) \<subseteq> S" "block_in (block_line s) p"
    and "has_history al p k (us @ vs) (block_line s)"
    and "delivers (pbits s) (item_bits enc (refine_items (zeros us) (corrections us) vs) @ ys)"
  shows "\<exists>b'. pbind (AC_refine_loop tbl se al p num k) (refine_finish se al p) s
      = Some (JOk 0 (s\<lparr>pbits := b', block_line := put_band al p k (us @ vs) (block_line s)\<rparr>)) \<and> delivers b' ys"
  using assms(3-11)
proof (induction vs arbitrary: us num k s)
  case Nil
  show ?case
  proof (cases "us = []")
    case True
    with Nil show ?thesis
      by (intro exI [of _ "pbits s"]) (simp add: pbind_def AC_refine_loop.simps refine_finish_def pret_def)
  next
    case False
    then have "\<not> (zeros us = 0 \<and> corrections us = [])" using passed_nothing Nil(2) by blast
    with Nil(6,9) have "0 \<in> S" "delivers (pbits s) (enc 0 @ (corrections us @ ys))" by (auto split: if_splits)
    then obtain b1 where b1: "on_bits (HUFF_DECODE tbl) s = Some (JOk 0 (s\<lparr>pbits := b1\<rparr>))" "delivers b1 (corrections us @ ys)"
      by (rule on_bits_symbol [OF assms(1)])
    have "k \<le> se" using Nil(4) False by (cases us) simp_all
    then have "AC_refine_loop tbl se al p num k s = Some (JOk (k, 1) (s\<lparr>pbits := b1\<rparr>))"
      using AC_refine_step [OF _ b1(1), of k se 0 0 al p num]
      by (simp add: eob_run_0 on_bits_pret pbind_pret) (simp add: pret_def)
    moreover obtain b' where "refine_rest se al p k (s\<lparr>pbits := b1\<rparr>)
        = Some (JOk () (s\<lparr>pbits := b', block_line := put_band al p k us (block_line s)\<rparr>))" "delivers b' ys"
      using refine_rest_ok [of k us se al "s\<lparr>pbits := b1\<rparr>" p ys] Nil b1(2) assms(2) by auto
    ultimately show ?thesis
      by (intro exI [of _ b']) (simp add: pbind_def refine_finish_def pthen_def pret_def)
  qed
next
  case (Cons v vs)
  have k: "k + length us \<le> se" using Cons.prems(4) by simp
  have us: "\<forall>u \<in> set us. \<bar>u\<bar> \<noteq> 1 \<and> small_val al u" using Cons.prems(1,2) by simp
  have hist: "has_history al p k (us @ [v]) (block_line s)" "has_history al p (k + length (us @ [v])) vs (block_line s)"
    using Cons.prems(8) has_history_append [of al p k "us @ [v]" vs] by simp_all
  text \<open>After a symbol the rest is a band of its own.\<close>
  have next_symbol: ?case
    if step: "AC_refine_loop tbl se al p num k s = AC_refine_loop tbl se al p num' (k + length us + 1)
        (s\<lparr>pbits := b1, block_line := put_band al p k (us @ [v]) (block_line s)\<rparr>)"
      and "delivers b1 (item_bits enc (refine_items 0 [] vs) @ ys)" "num' \<le> num + 1"
      and "fst ` set (refine_items 0 [] vs) \<subseteq> S" for num' b1
  proof -
    let ?s = "s\<lparr>pbits := b1, block_line := put_band al p k (us @ [v]) (block_line s)\<rparr>"
    have h: "has_history al p (k + length us + 1) vs (put_band al p k (us @ [v]) (block_line s))"
      using has_history_put [OF hist(2) Cons.prems(7), of al] Cons.prems(4) assms(2) by simp
    have "\<exists>b'. pbind (AC_refine_loop tbl se al p num' (k + length us + 1)) (refine_finish se al p) ?s
      = Some (JOk 0 (?s\<lparr>pbits := b', block_line := put_band al p (k + length us + 1) ([] @ vs) (block_line ?s)\<rparr>)) \<and> delivers b' ys"
      by (rule Cons.IH) (use Cons.prems that h in auto)
    then show ?thesis using step put_band_append [of al p k "us @ [v]" vs "block_line s"] by (auto simp: pbind_def)
  qed
  show ?case
  proof (cases "2 \<le> \<bar>v\<bar> \<or> v = 0 \<and> \<not> (zeros us = 15 \<and> (\<exists>u \<in> set vs. \<bar>u\<bar> = 1))")
    case True
    have z: "(\<exists>v \<in> set vs. \<bar>v\<bar> = 1) \<longrightarrow> zeros (us @ [v]) < 16" using Cons.prems(3) True by auto
    have items: "refine_items (zeros us) (corrections us) (v # vs) = refine_items (zeros (us @ [v])) (corrections (us @ [v])) vs"
      using True by auto
    have app: "us @ v # vs = (us @ [v]) @ vs" by simp
    have "\<forall>u \<in> set (us @ [v]). \<bar>u\<bar> \<noteq> 1" using Cons.prems(2) True by auto
    moreover have "k + length (us @ [v]) + length vs = se + 1" using Cons.prems(4) by simp
    ultimately show ?thesis
      using Cons.prems(1) z Cons.prems(5-9) unfolding app items by (intro Cons.IH)
  next
    case symbol: False
    show ?thesis
    proof (cases "v = 0")
      case True
      with symbol have z: "zeros us = 15" "\<exists>u \<in> set vs. \<bar>u\<bar> = 1" by auto
      with True Cons.prems(6) have S: "0xF0 \<in> S" "fst ` set (refine_items 0 [] vs) \<subseteq> S" by auto
      have "delivers (pbits s) (enc 0xF0 @ corrections us @ (item_bits enc (refine_items 0 [] vs) @ ys))"
        using Cons.prems(9) True z by simp
      from AC_refine_zeros [OF assms(1) S(1) z(1) k assms(2) us Cons.prems(7) hist(1) [unfolded True] this, of num]
      show ?thesis using next_symbol [of num] S(2) True by auto
    next
      case False
      with symbol have v: "\<bar>v\<bar> = 1" "\<not> 2 \<le> \<bar>v\<bar>" by linarith+
      have z: "zeros us < 16" using Cons.prems(3) v(1) by simp
      have S: "of_nat (16 * zeros us + 1) \<in> S" "fst ` set (refine_items 0 [] vs) \<subseteq> S"
        using Cons.prems(6) v False by auto
      have "delivers (pbits s) (enc (of_nat (16 * zeros us + 1)) @ (0 \<le> v) # corrections us @ (item_bits enc (refine_items 0 [] vs) @ ys))"
        using Cons.prems(9) v False by simp
      moreover have "num < 64" using Cons.prems(4,5) assms(2) by simp
      ultimately show ?thesis
        using AC_refine_new [OF assms(1) S(1) z k assms(2) us v(1) _ Cons.prems(7) hist(1)] next_symbol [of "num + 1"] S(2) by blast
    qed
  qed
qed

text \<open>C7: the refinement pass of a band adds a bit to every value.  Let the scan use a table of the picture, let
  the block hold of every value \<open>v\<close> of the band what the pass before has stored (the magnitude
  without its last bit) and the stream hold the refinement code of the band.  Then the decoder succeeds and takes exactly
  these bits, every coefficient of the band is the value at the bit position \<open>Al\<close>, and all other
  coefficients and blocks are unchanged.\<close>

theorem AC_refine_decodes_band:
  assumes "scan_ok s" "EOBRUN (current s) = 0" "ac_derived_tbl (current s) = Some i" "i < length (vld_table (current s))"
    and "uses_table bits vals (vld_table (current s) ! i)" "block_in (block_line s) p"
    and "unat (p_Ss s) + length vs = unat (p_Se s) + 1" "unat (p_Se s) < 64"
    and "\<forall>v \<in> set vs. small_val (unat (p_Al s)) v" "has_history (unat (p_Al s)) p (unat (p_Ss s)) vs (block_line s)"
    and "fst ` set (refine_items 0 [] vs) \<subseteq> table_symbols bits vals"
    and "delivers (pbits s) (item_bits (code_word bits vals) (refine_items 0 [] vs) @ ys)"
  shows "\<exists>s'. decode_mcu_AC_refine (Some p # ps) s = Some (JOk () s') \<and> delivers (pbits s') ys
    \<and> (\<forall>j < length vs. coef_at (block_line s') p (jpeg_fw_zigzag_order ! (unat (p_Ss s) + j)) = word_of_int (vs ! j * 2 ^ unat (p_Al s)))
    \<and> (\<forall>q < 64. q \<notin> (\<lambda>j. jpeg_fw_zigzag_order ! (unat (p_Ss s) + j)) ` {j. j < length vs \<and> vs ! j \<noteq> 0}
         \<longrightarrow> coef_at (block_line s') p q = coef_at (block_line s) p q)
    \<and> same_outside p (block_line s) (block_line s') \<and> EOBRUN (current s') = 0"
proof -
  let ?ss = "unat (p_Ss s)" and ?se = "unat (p_Se s)" and ?al = "unat (p_Al s)" and ?L = "block_line s"
  let ?L' = "put_band ?al p ?ss vs ?L"
  have room: "?ss + length vs \<le> 64" using assms(7,8) by simp
  obtain b' where b': "pbind (AC_refine_loop (vld_table (current s) ! i) ?se ?al p 0 ?ss) (refine_finish ?se ?al p) s
      = Some (JOk 0 (s\<lparr>pbits := b', block_line := ?L'\<rparr>))" "delivers b' ys"
    using AC_refine_band [OF uses_table_reads [OF assms(5)] assms(8), of "[]" vs ?al ?ss 0 s p ys] assms(6,7,9-12) by auto
  let ?s1 = "s\<lparr>pbits := b', block_line := ?L'\<rparr>"
  let ?s = "set_entropy (\<lambda>e. e\<lparr>EOBRUN := 0, e_restarts_to_go := e_restarts_to_go e - 1\<rparr>) ?s1"
  have assoc: "pbind (AC_refine_loop tbl ?se ?al p 0 ?ss) (\<lambda>(k, run). pbind
      (if 0 < run then pthen (refine_rest ?se ?al p k) (pret (run - 1)) else pret run) g) s
      = pbind (pbind (AC_refine_loop tbl ?se ?al p 0 ?ss) (refine_finish ?se ?al p)) g s" for tbl and g :: "u32 \<Rightarrow> unit pd"
    by (auto simp: pbind_def refine_finish_def split: option.split jres.split prod.split)
  have "decode_mcu_AC_refine (Some p # ps) s = pthen (mod_entropy (\<lambda>e. e\<lparr>EOBRUN := 0\<rparr>)) count_restart ?s1"
    using assms(1-4) b'(1)
    by (simp add: decode_mcu_AC_refine_def pthen_cases(1) [where m = process_restart] process_restart_none
      get_entropy_ok elem_ok pbind_pret pbind_pget assoc) (simp add: pbind_def)
  then have "decode_mcu_AC_refine (Some p # ps) s = Some (JOk () ?s)" using assms(1) by (simp add: end_of_unit)
  moreover have "\<forall>j < length vs. coef_at ?L' p (jpeg_fw_zigzag_order ! (?ss + j)) = word_of_int (vs ! j * 2 ^ ?al)"
    using put_band_coefs [OF assms(6) room, of ?al] assms(10) by (auto simp: scaled_val has_history_def history_def)
  moreover note put_band_unchanged [OF assms(6) room, of _ ?al]
  moreover have "same_outside p ?L ?L'" using put_band_outside [OF room] .
  ultimately show ?thesis using b'(2) assms(1) by (intro exI [of _ ?s]) simp
qed

text \<open>The values 3, 1 and 0 behind 2, 0 and 0.\<close>

lemma refine_stream: "byte_bits [0x58, 0] = [False, True, False, True, True, False, False, False]
     @ [False, False, False, False, False, False, False, False]"
proof -
  have "nat_bits 8 0x58 = [False, True, False, True, True, False, False, False]"
    "nat_bits 8 0 = [False, False, False, False, False, False, False, False]"
    by (simp_all add: nat_bits_def bit_iff_odd upt_rec)
  then show ?thesis by simp
qed

lemma refine_sample: "item_bits (code_word jpeg_fw_lum_dc_bits_default dc_values) (refine_items 0 [] [3, 1, 0]) @ replicate 9 False
    = byte_bits [0x58, 0]"
  unfolding refine_stream by (simp add: dc_code_words) (simp add: numeral_eq_Suc)

theorem AC_refine_decodes_band_witness:
  "\<exists>s'. decode_mcu_AC_refine [Some (0, 0)] (sample_prog [0x58, 0] 1 3 0 ((replicate 64 0)[1 := 2])) = Some (JOk () s')
    \<and> coef_at (block_line s') (0, 0) 1 = 3 \<and> coef_at (block_line s') (0, 0) 8 = 1"
proof -
  let ?s = "sample_prog [0x58, 0] 1 3 0 ((replicate 64 0)[1 := 2])" and ?vs = "[3, 1, 0] :: int list"
  have "delivers (sample_bits [0x58, 0]) (byte_bits [0x58, 0])" by (rule sample_delivers) simp_all
  then have bits: "delivers (pbits ?s) (item_bits (code_word jpeg_fw_lum_dc_bits_default dc_values) (refine_items 0 [] ?vs) @ replicate 9 False)"
    unfolding refine_sample by (simp add: sample_prog_fields)
  have hist: "has_history 0 (0, 0) 1 ?vs [(replicate 64 0)[1 := 2], [], []]"
    by (simp add: has_history_Cons has_history_def [of _ _ _ "[]"] coef_at_def history_def jpeg_fw_zigzag_order_def)
  have "\<exists>s'. decode_mcu_AC_refine (Some (0, 0) # []) ?s = Some (JOk () s') \<and> delivers (pbits s') (replicate 9 False)
    \<and> (\<forall>j < length ?vs. coef_at (block_line s') (0, 0) (jpeg_fw_zigzag_order ! (unat (p_Ss ?s) + j)) = word_of_int (?vs ! j * 2 ^ unat (p_Al ?s)))
    \<and> (\<forall>q < 64. q \<notin> (\<lambda>j. jpeg_fw_zigzag_order ! (unat (p_Ss ?s) + j)) ` {j. j < length ?vs \<and> ?vs ! j \<noteq> 0}
         \<longrightarrow> coef_at (block_line s') (0, 0) q = coef_at (block_line ?s) (0, 0) q)
    \<and> same_outside (0, 0) (block_line ?s) (block_line s') \<and> EOBRUN (current s') = 0"
    by (rule AC_refine_decodes_band [OF _ _ _ _ _ _ _ _ _ _ _ bits, of 0])
      (use sample_uses_table dc_table_symbols hist in
        \<open>simp_all add: sample_prog_ok sample_prog_fields sample_entropy_def block_in_def small_val_def\<close>)
  then obtain s' where s': "decode_mcu_AC_refine [Some (0, 0)] ?s = Some (JOk () s')"
    "\<And>j. j < 3 \<Longrightarrow> coef_at (block_line s') (0, 0) (jpeg_fw_zigzag_order ! (1 + j)) = word_of_int (?vs ! j)"
    by (auto simp: sample_prog_fields)
  from s'(2) [of 0] s'(2) [of 1] have "coef_at (block_line s') (0, 0) 1 = 3" "coef_at (block_line s') (0, 0) 8 = 1"
    by (simp_all add: jpeg_fw_zigzag_order_def)
  with s'(1) show ?thesis by blast
qed

subsection \<open>The refinement of the DC values\<close>

lemma DC_refine_block_ok:
  assumes "b < length M" "M ! b = Some p" "block_in (block_line s) p"
    and "coef_at (block_line s) p 0 = word_of_int (v div 2 * 2 ^ Suc (unat (p_Al s)))" "delivers (pbits s) (odd v # ys)"
  shows "\<exists>b'. DC_refine_block M b s = Some (JOk () (s\<lparr>pbits := b',
      block_line := write_coef p 0 (scaled (unat (p_Al s)) (word_of_int v)) (block_line s)\<rparr>)) \<and> delivers b' ys"
proof -
  let ?al = "unat (p_Al s)"
  obtain b' where b': "on_bits (getbits 1) s = Some (JOk (of_bool (odd v)) (s\<lparr>pbits := b'\<rparr>))" "delivers b' ys"
    using assms(5) by (rule on_bits_bit)
  have "DC_refine_block M b s = Some (JOk () (s\<lparr>pbits := b', block_line := write_coef p 0 (scaled ?al (word_of_int v)) (block_line s)\<rparr>))"
  proof (cases "odd v")
    case True
    let ?s = "s\<lparr>pbits := b'\<rparr>"
    have "get_coef p 0 ?s = Some (JOk (word_of_int (v div 2 * 2 ^ Suc ?al)) ?s)"
      "put_coef p 0 x ?s = Some (JOk () (s\<lparr>pbits := b', block_line := write_coef p 0 x (block_line s)\<rparr>))" for x
      using get_coef_block [of ?s p 0] put_coef_block [of ?s p 0 x] assms(3,4) by simp_all
    with True b'(1) assms(1,2) refined_word [OF True, of ?al] show ?thesis
      by (simp add: DC_refine_block_def elem_ok pbind_pret scaled_val del: of_int_mult)
        (simp add: pbind_def pget_def pret_def del: of_int_mult)
  next
    case False
    then have "v div 2 * 2 ^ Suc ?al = v * 2 ^ ?al" by (auto elim: evenE)
    with assms(4) have "write_coef p 0 (scaled ?al (word_of_int v)) (block_line s) = block_line s"
      by (simp only: scaled_val) (rule write_coef_same [OF assms(3)]; simp)
    with False b'(1) assms(1,2) show ?thesis
      by (simp add: DC_refine_block_def elem_ok pbind_pret pbind_def) (simp add: pret_def)
  qed
  with b'(2) show ?thesis by blast
qed

lemma DC_refine_blocks:
  assumes "\<forall>b \<in> set bs. b < length M \<and> M ! b = Some (ptr b) \<and> block_in (block_line s) (ptr b)
      \<and> coef_at (block_line s) (ptr b) 0 = word_of_int (v b div 2 * 2 ^ Suc (unat (p_Al s)))"
    and "distinct bs" "inj_on ptr (set bs)" "delivers (pbits s) (map (\<lambda>b. odd (v b)) bs @ ys)"
  shows "\<exists>b'. pfor bs (DC_refine_block M) s
      = Some (JOk () (s\<lparr>pbits := b', block_line := put_dc (unat (p_Al s)) ptr v bs (block_line s)\<rparr>)) \<and> delivers b' ys"
  using assms
proof (induction bs arbitrary: s)
  case Nil
  then show ?case by (intro exI [of _ "pbits s"]) (simp add: pret_def)
next
  case (Cons b bs)
  let ?L = "write_coef (ptr b) 0 (scaled (unat (p_Al s)) (word_of_int (v b))) (block_line s)"
  obtain b1 where b1: "DC_refine_block M b s = Some (JOk () (s\<lparr>pbits := b1, block_line := ?L\<rparr>))"
    "delivers b1 (map (\<lambda>b. odd (v b)) bs @ ys)"
    using DC_refine_block_ok [of b M "ptr b" s "v b"] Cons.prems(1,4) by auto
  have other: "coef_at ?L (ptr c) 0 = coef_at (block_line s) (ptr c) 0" if "c \<in> set bs" for c
  proof -
    have "ptr c \<noteq> ptr b" using that Cons.prems(2,3) by (auto simp: inj_on_def)
    then show ?thesis by (simp add: coef_at_def) (rule write_coef_elsewhere; simp add: prod_eq_iff)
  qed
  let ?s = "s\<lparr>pbits := b1, block_line := ?L\<rparr>"
  have "\<exists>b'. pfor bs (DC_refine_block M) ?s
      = Some (JOk () (?s\<lparr>pbits := b', block_line := put_dc (unat (p_Al ?s)) ptr v bs (block_line ?s)\<rparr>)) \<and> delivers b' ys"
    by (rule Cons.IH) (use Cons.prems b1(2) other in auto)
  with b1(1) show ?case by (auto simp: pthen_def pbind_def)
qed

text \<open>The refinement pass of the DC values adds a bit to every value.  Let the blocks of a unit lie at
  different places and hold in their first coefficients the values without their last bit, at the bit position
  above \<open>Al\<close>, and let the stream hold the last bits in the order of the blocks.  Then the decoder succeeds and
  takes one bit of each block, the first coefficients are the values at the bit position \<open>Al\<close>, and no
  other coefficient changes.\<close>

theorem DC_refine_decodes_unit:
  assumes "scan_ok s" "n = unat (block_num s)" "n \<le> length M" "inj_on ptr {..<n}"
    and "\<forall>b < n. M ! b = Some (ptr b) \<and> block_in (block_line s) (ptr b)
      \<and> coef_at (block_line s) (ptr b) 0 = word_of_int (v b div 2 * 2 ^ Suc (unat (p_Al s)))"
    and "delivers (pbits s) (map (\<lambda>b. odd (v b)) [0..<n] @ ys)"
  shows "\<exists>s'. decode_mcu_DC_refine M s = Some (JOk () s') \<and> delivers (pbits s') ys
    \<and> (\<forall>b < n. coef_at (block_line s') (ptr b) 0 = word_of_int (v b * 2 ^ unat (p_Al s)))
    \<and> (\<forall>l j. (l, j) \<notin> ptr ` {..<n} \<longrightarrow> block_line s' ! l ! j = block_line s ! l ! j)"
proof -
  let ?al = "unat (p_Al s)"
  let ?L = "put_dc ?al ptr v [0..<n] (block_line s)"
  obtain b' where b': "pfor [0..<n] (DC_refine_block M) s = Some (JOk () (s\<lparr>pbits := b', block_line := ?L\<rparr>))" "delivers b' ys"
    using DC_refine_blocks [of "[0..<n]" M ptr s v ys] assms(3-6) by (auto simp: atLeast0LessThan)
  let ?s = "set_entropy (\<lambda>e. e\<lparr>e_restarts_to_go := e_restarts_to_go e - 1\<rparr>) (s\<lparr>pbits := b', block_line := ?L\<rparr>)"
  have ok: "scan_ok (s\<lparr>pbits := b', block_line := ?L\<rparr>)" using assms(1) by simp
  have "pthen (pbind (pget block_num) (\<lambda>n. pfor [0..<unat n] (DC_refine_block M))) count_restart s = Some (JOk () ?s)"
    by (rule trans [OF pthen_cases(1)]; use b'(1) count_restart_ok [OF ok] assms(2) in \<open>simp add: pbind_pget\<close>)
  then have "decode_mcu_DC_refine M s = Some (JOk () ?s)"
    using assms(1) by (simp add: decode_mcu_DC_refine_def pthen_cases(1) [where m = process_restart] process_restart_none)
  moreover have "coef_at ?L (ptr b) 0 = word_of_int (v b * 2 ^ ?al)" if "b < n" for b
    using put_dc_coefs [of "[0..<n]" ptr "block_line s" b ?al v] that assms(4,5)
    by (simp add: scaled_val atLeast0LessThan)
  moreover have "?L ! l ! j = block_line s ! l ! j" if "(l, j) \<notin> ptr ` {..<n}" for l j
    by (rule put_dc_other) (use that in auto)
  ultimately show ?thesis using b'(2) by (intro exI [of _ ?s]) simp
qed

theorem DC_refine_decodes_unit_witness:
  "\<exists>s'. decode_mcu_DC_refine [Some (0, 0)] (sample_prog [0x7A, 0] 0 0 1 ((replicate 64 0)[0 := 12])) = Some (JOk () s')
    \<and> coef_at (block_line s') (0, 0) 0 = 12"
proof -
  let ?s = "sample_prog [0x7A, 0] 0 0 1 ((replicate 64 0)[0 := 12])" and ?v = "\<lambda>_ :: nat. 6 :: int"
  let ?ys = "[True, True, True, True, False, True, False] @ [False, False, False, False, False, False, False, False]"
  have "delivers (sample_bits [0x7A, 0]) (byte_bits [0x7A, 0])" by (rule sample_delivers) simp_all
  then have bits: "delivers (pbits ?s) (map (\<lambda>b. odd (?v b)) [0..<1] @ ?ys)"
    unfolding sample_stream by (simp add: sample_prog_fields)
  have "\<exists>s'. decode_mcu_DC_refine [Some (0, 0)] ?s = Some (JOk () s') \<and> delivers (pbits s') ?ys
    \<and> (\<forall>b < 1. coef_at (block_line s') ((\<lambda>_. (0, 0)) b) 0 = word_of_int (?v b * 2 ^ unat (p_Al ?s)))
    \<and> (\<forall>l j. (l, j) \<notin> (\<lambda>_. (0, 0)) ` {..<1 :: nat} \<longrightarrow> block_line s' ! l ! j = block_line ?s ! l ! j)"
    by (rule DC_refine_decodes_unit [OF _ _ _ _ _ bits])
      (simp_all add: sample_prog_ok sample_prog_fields block_in_def coef_at_def inj_on_def, simp add: sample_prog_def)
  then show ?thesis by (auto simp: sample_prog_fields)
qed

subsection \<open>Restarts\<close>

text \<open>The test for a restart marker is inverted.  When a restart is due and the buffer holds two bytes behind
  the bits up to a byte boundary, the decoder fails when the second one is the code of a restart marker, and goes on
  with the values of the components reset when it is not.\<close>

theorem restart_check_inverted:
  assumes "unat (cur_scan s) < length (buf_storage s)" "restart_interval (pcodec s) \<notin> {0, 0x3FFFF}"
    and "e_restarts_to_go (current s) = 0" "16 \<le> unat (s_jremain_bit_num (pbits s))"
    and "delivers (pbits s) (pad @ nat_bits 8 (unat (x :: u8)) @ nat_bits 8 (unat (m :: u8)) @ ys)"
    and "length pad = unat (s_jremain_bit_num (pbits s)) - 16"
  shows "if 0xD0 \<le> m \<and> m \<le> 0xD7 then \<exists>s'. process_restart s = Some (JFail s')
    else \<exists>s'. process_restart s = Some (JOk () s') \<and> delivers (pbits s') ys
      \<and> last_dc_value (current s') = (last_dc_value (current s))[0 := 0, 1 := 0, 2 := 0]"
proof -
  let ?b = "pbits s"
  let ?r = "unat (s_jremain_bit_num ?b)"
  have r: "?r \<le> 22" using assms(5) by (auto simp: delivers_def)
  define b0 where "b0 = ?b\<lparr>s_jremain_bit_num := drop_bit 3 (s_jremain_bit_num ?b) * 8\<rparr>"
  have "unat (drop_bit 3 (s_jremain_bit_num ?b) * 8) = ?r div 8 * 8"
    using r by (simp add: unat_word_ariths unat_drop_bit_eq drop_bit_eq_div)
  moreover have "?r div 8 = 2" using r assms(4) by linarith
  ultimately have r0: "unat (s_jremain_bit_num b0) = 16" by (simp add: b0_def)
  have "s_jremain_bit_num ?b - of_nat (length pad) = s_jremain_bit_num b0"
  proof (rule word_unat_eq_iff [THEN iffD2])
    have "unat (of_nat (?r - 16) :: u32) = ?r - 16" using r by (simp add: unsigned_of_nat take_bit_nat_eq_self)
    then show "unat (s_jremain_bit_num ?b - of_nat (length pad)) = unat (s_jremain_bit_num b0)"
      unfolding r0 assms(6) using assms(4) by (subst unat_sub) (simp_all add: word_le_nat_alt)
  qed
  then have "delivers b0 (nat_bits 8 (unat x) @ (nat_bits 8 (unat m) @ ys))"
    using delivers_split(2) [OF assms(5), of "length pad"] assms(6) by (simp add: b0_def)
  then obtain b1 where b1: "JPEG_GETBITS 8 b0 = Some (JOk (of_nat (bits_nat (nat_bits 8 (unat x)))) b1)"
    "delivers b1 (nat_bits 8 (unat m) @ ys)"
    by (rule GETBITS_delivers) (simp_all add: r0)
  have "unat (s_jremain_bit_num b1) = 8"
    using b1(1) r0 by (auto simp: JPEG_GETBITS_def PEEK_BITS_def DROP_BITS_def pstmt Let_def unat_sub word_le_nat_alt split: if_splits)
  then obtain b2 where b2: "JPEG_GETBITS 8 b1 = Some (JOk (of_nat (bits_nat (nat_bits 8 (unat m)))) b2)" "delivers b2 ys"
    by (rule_tac GETBITS_delivers [OF b1(2)]) simp_all
  have m: "ucast (of_nat (bits_nat (nat_bits 8 (unat m))) :: u32) = m"
  proof -
    have "bits_nat (nat_bits 8 (unat m)) = unat m"
      using unsigned_less [where ?'a = nat and w = m] by (simp add: take_bit_nat_eq_self)
    then show ?thesis by (simp only:) (rule bit_eqI; auto simp: bit_simps bit_unsigned_iff)
  qed
  have check: "on_bits check_RstMarker s = Some (JOk (if 0xD0 \<le> m \<and> m \<le> 0xD7 then 0 else 0xFF) (s\<lparr>pbits := b2\<rparr>))"
    using b1(1) b2(1) m unfolding b0_def
    by (auto simp: on_bits_def check_RstMarker_def pstmt Let_def marker_codes not_less)
  have e: "get_entropy s = Some (JOk (current s) s)" using assms(1) by (simp add: get_entropy_def current_def pstmt)
  show ?thesis
    using check e assms(1-3) b2(2)
    by (simp add: process_restart_def pbind_pget pbind_cases(1) [where m = get_entropy])
       (simp add: pbind_def pfail_def mod_entropy_def current_def pstmt Let_def)
qed

theorem restart_check_inverted_witness:
  "\<exists>s'. process_restart ((sample_prog [] 0 0 0 [])\<lparr>pcodec := zero_codec\<lparr>restart_interval := 4\<rparr>,
      pbits := (sample_bits [])\<lparr>s_jremain_bit_num := 16, s_jstream_words := 0xFFD0\<rparr>\<rparr>) = Some (JFail s')"
proof -
  let ?s = "(sample_prog [] 0 0 0 [])\<lparr>pcodec := zero_codec\<lparr>restart_interval := 4\<rparr>,
      pbits := (sample_bits [])\<lparr>s_jremain_bit_num := 16, s_jstream_words := 0xFFD0\<rparr>\<rparr>"
  have "nat_bits 16 0xFFD0 = nat_bits (8 + 8) (0xFFD0 :: nat)" by simp
  also have "\<dots> = nat_bits 8 0xFF @ nat_bits 8 0xD0"
    unfolding nat_bits_append using nat_bits_take [of 8 "0xFFD0 :: nat"] by (simp add: drop_bit_eq_div take_bit_eq_mod)
  finally have "delivers (pbits ?s) ([] @ nat_bits 8 (unat (0xFF :: u8)) @ nat_bits 8 (unat (0xD0 :: u8)) @ [])"
    by (simp add: delivers_def sample_bits_def chunk_def exI [of _ "[]"])
  note bits = this
  have "current ?s = sample_entropy" using sample_prog_ok(2) by (simp add: current_def)
  then have "if 0xD0 \<le> (0xD0 :: u8) \<and> (0xD0 :: u8) \<le> 0xD7 then \<exists>s'. process_restart ?s = Some (JFail s')
    else \<exists>s'. process_restart ?s = Some (JOk () s') \<and> delivers (pbits s') []
      \<and> last_dc_value (current s') = (last_dc_value (current ?s))[0 := 0, 1 := 0, 2 := 0]"
    by (intro restart_check_inverted [OF _ _ _ _ bits]) (simp_all add: sample_entropy_def, simp add: sample_prog_def)
  then show ?thesis by simp
qed

end
