(* ===== verification/ProgIdct.thy ===== *)
theory ProgIdct
  imports JpegCodec
begin

text \<open>
  From coefficients to samples, \<^verbatim>\<open>jpegdec_dequant.c\<close>: the quantization tables of a progressive picture and
  the inverse transforms that software does for each scale of the output, with the clipping table that ends
  them.  32-bit integers are words; an index outside the clipping table, which the code does not
  check, is \<^term>\<open>None\<close>.
\<close>

type_synonym i32 = "32 word"

subsection \<open>Arithmetic\<close>

definition DESCALE :: "i32 \<Rightarrow> nat \<Rightarrow> i32" where
  "DESCALE x n = signed_drop_bit n (x + push_bit (n - 1) 1)"

definition DEQUANTIZE :: "16 word \<Rightarrow> i32 \<Rightarrow> i32" where
  "DEQUANTIZE coef quantval = scast coef * quantval"

definition LQ_MULTIPLY :: "i32 \<Rightarrow> i32 \<Rightarrow> i32" where
  "LQ_MULTIPLY var const = DESCALE (var * const) 8"

text \<open>The clipping table, whose pointer is into its middle.\<close>

definition Initialize_Clip :: bytes where
  "Initialize_Clip = map (\<lambda>k. let i = int k - 512 in if i < 0 then 0 else if i > 255 then 255 else word_of_int i) [0..<1024]"

definition s_pClip_table :: "i32 \<Rightarrow> u8 option" where
  "s_pClip_table i = (if - 512 \<le> sint i \<and> sint i < 512 then Some (Initialize_Clip ! nat (sint i + 512)) else None)"

definition clipped :: "i32 \<Rightarrow> nat \<Rightarrow> u8 option" where
  "clipped x n = s_pClip_table (DESCALE x n + 128)"

fun all_some :: "'a option list \<Rightarrow> 'a list option" where
  "all_some [] = Some []"
| "all_some (x # xs) = (case x of None \<Rightarrow> None | Some a \<Rightarrow>
     (case all_some xs of None \<Rightarrow> None | Some as \<Rightarrow> Some (a # as)))"

subsection \<open>Quantization tables\<close>

definition aanscales :: "nat list" where
  "aanscales =
    [16384, 22725, 21407, 19266, 16384, 12873, 8867, 4520,
     22725, 31521, 29692, 26722, 22725, 17855, 12299, 6270,
     21407, 29692, 27969, 25172, 21407, 16819, 11585, 5906,
     19266, 26722, 25172, 22654, 19266, 15137, 10426, 5315,
     16384, 22725, 21407, 19266, 16384, 12873, 8867, 4520,
     12873, 17855, 16819, 15137, 12873, 10114, 6967, 3552,
     8867, 12299, 11585, 10426, 8867, 6967, 4799, 2446,
     4520, 6270, 5906, 5315, 4520, 3552, 2446, 1247]"

text \<open>The table that a transform uses, from a table of the header; the second case is that of the scaled
  outputs.\<close>

definition low_quality_quant :: "bytes \<Rightarrow> i32 list" where
  "low_quality_quant quant = map (\<lambda>i. DESCALE (ucast (quant ! i) * of_nat (aanscales ! i)) 12) [0..<64]"

definition permuted_quant :: "bytes \<Rightarrow> i32 list" where
  "permuted_quant quant = foldl (\<lambda>t i. t[jpeg_fw_zigzag_order ! i := ucast (quant ! i)]) (replicate 64 0) [0..<64]"

text \<open>Of \<^verbatim>\<open>JPEGFW_AdjustQuantTbl_Dec\<close> the part for progressive pictures: one table for each of the first
  components.\<close>

definition AdjustQuantTbl_Dec :: "bool \<Rightarrow> jpeg_codec \<Rightarrow> i32 list list option" where
  "AdjustQuantTbl_Dec low_quality_idct c = all_some (map (\<lambda>tbl_id.
     if tbl_id < length (tbl_map c)
     then let yuv_id = unat (quant_tbl_id (tbl_map c ! tbl_id)) in
       if yuv_id < length (quant_tbl c) \<and> 64 \<le> length (quant_tbl c ! yuv_id)
       then Some ((if low_quality_idct then low_quality_quant else permuted_quant) (quant_tbl c ! yuv_id))
       else None
     else None) [0..<(if num_components c = 1 then 1 else 2)])"

subsection \<open>The transform at full size\<close>

text \<open>Column \<open>c\<close> of the coefficients, dequantized, as a function of the row.\<close>

definition dequantized :: "16 word list \<Rightarrow> i32 list \<Rightarrow> nat \<Rightarrow> nat \<Rightarrow> i32" where
  "dequantized coefs quant c r = DEQUANTIZE (coefs ! (8 * r + c)) (quant ! (8 * r + c))"

definition zero_terms :: "nat list \<Rightarrow> (nat \<Rightarrow> 'a :: zero) \<Rightarrow> bool" where
  "zero_terms ks x \<longleftrightarrow> list_all (\<lambda>k. x k = 0) ks"

text \<open>The eight outputs from eight inputs, the same for columns and rows.\<close>

definition lq_butterfly :: "(nat \<Rightarrow> i32) \<Rightarrow> i32 list" where
  "lq_butterfly x =
    (let tmp10 = x 0 + x 4; tmp11 = x 0 - x 4;
         tmp13 = x 2 + x 6; tmp12 = LQ_MULTIPLY (x 2 - x 6) 362 - tmp13;
         tmp0 = tmp10 + tmp13; tmp3 = tmp10 - tmp13; tmp1 = tmp11 + tmp12; tmp2 = tmp11 - tmp12;
         z13 = x 5 + x 3; z10 = x 5 - x 3; z11 = x 1 + x 7; z12 = x 1 - x 7;
         tmp7 = z11 + z13; tmp11 = LQ_MULTIPLY (z11 - z13) 362;
         z5 = LQ_MULTIPLY (z10 + z12) 473;
         tmp10 = LQ_MULTIPLY z12 277 - z5; tmp12 = LQ_MULTIPLY z10 (- 669) + z5;
         tmp6 = tmp12 - tmp7; tmp5 = tmp11 - tmp6; tmp4 = tmp10 + tmp5
     in [tmp0 + tmp7, tmp1 + tmp6, tmp2 + tmp5, tmp3 - tmp4, tmp3 + tmp4, tmp2 - tmp5, tmp1 - tmp6, tmp0 - tmp7])"

definition lq_column :: "16 word list \<Rightarrow> i32 list \<Rightarrow> nat \<Rightarrow> i32 list" where
  "lq_column coefs quant c =
    (if zero_terms [1..<8] (\<lambda>r. coefs ! (8 * r + c)) then replicate 8 (dequantized coefs quant c 0)
     else lq_butterfly (dequantized coefs quant c))"

definition lq_row :: "(nat \<Rightarrow> i32) \<Rightarrow> u8 list option" where
  "lq_row ws =
    (if zero_terms [1..<8] ws
     then (case clipped (ws 0) 5 of None \<Rightarrow> None | Some dcval \<Rightarrow> Some (replicate 8 dcval))
     else all_some (map (\<lambda>t. clipped t 5) (lq_butterfly ws)))"

text \<open>The rows of the work array, one after the other, into the output.\<close>

definition idct_rows :: "nat \<Rightarrow> ((nat \<Rightarrow> i32) \<Rightarrow> u8 list option) \<Rightarrow> (nat \<Rightarrow> i32 list) \<Rightarrow> u8 list option" where
  "idct_rows n row column = map_option concat (all_some (map (\<lambda>r. row (\<lambda>c. column c ! r)) [0..<n]))"

definition JPEG_SWIDCT_LOW_Quality :: "16 word list \<Rightarrow> i32 list \<Rightarrow> u8 list option" where
  "JPEG_SWIDCT_LOW_Quality coefs quant = idct_rows 8 lq_row (lq_column coefs quant)"

text \<open>The more precise one, whose two passes differ in the last step only.\<close>

definition hq_butterfly :: "(nat \<Rightarrow> i32) \<Rightarrow> i32 list" where
  "hq_butterfly x =
    (let z1 = (x 2 + x 6) * 4433; tmp2 = z1 + x 6 * - 15137; tmp3 = z1 + x 2 * 6270;
         tmp0 = push_bit 13 (x 0 + x 4); tmp1 = push_bit 13 (x 0 - x 4);
         tmp10 = tmp0 + tmp3; tmp13 = tmp0 - tmp3; tmp11 = tmp1 + tmp2; tmp12 = tmp1 - tmp2;
         z1 = x 7 + x 1; z2 = x 5 + x 3; z3 = x 7 + x 3; z4 = x 5 + x 1; z5 = (z3 + z4) * 9633;
         tmp0 = x 7 * 2446; tmp1 = x 5 * 16819; tmp2 = x 3 * 25172; tmp3 = x 1 * 12299;
         z1 = z1 * - 7373; z2 = z2 * - 20995; z3 = z3 * - 16069; z4 = z4 * - 3196;
         z3 = z3 + z5; z4 = z4 + z5;
         tmp0 = tmp0 + (z1 + z3); tmp1 = tmp1 + (z2 + z4); tmp2 = tmp2 + (z2 + z3); tmp3 = tmp3 + (z1 + z4)
     in [tmp10 + tmp3, tmp11 + tmp2, tmp12 + tmp1, tmp13 + tmp0, tmp13 - tmp0, tmp12 - tmp1, tmp11 - tmp2, tmp10 - tmp3])"

definition hq_column :: "16 word list \<Rightarrow> i32 list \<Rightarrow> nat \<Rightarrow> i32 list" where
  "hq_column coefs quant c =
    (if zero_terms [1..<8] (\<lambda>r. coefs ! (8 * r + c)) then replicate 8 (push_bit 2 (dequantized coefs quant c 0))
     else map (\<lambda>t. DESCALE t 11) (hq_butterfly (dequantized coefs quant c)))"

definition hq_row :: "(nat \<Rightarrow> i32) \<Rightarrow> u8 list option" where
  "hq_row ws =
    (if zero_terms [1..<8] ws
     then (case clipped (ws 0) 5 of None \<Rightarrow> None | Some dcval \<Rightarrow> Some (replicate 8 dcval))
     else all_some (map (\<lambda>t. clipped t 18) (hq_butterfly ws)))"

definition JPEG_SWIDCT_High_Quality :: "16 word list \<Rightarrow> i32 list \<Rightarrow> u8 list option" where
  "JPEG_SWIDCT_High_Quality coefs quant = idct_rows 8 hq_row (hq_column coefs quant)"

subsection \<open>The transforms at smaller sizes\<close>

text \<open>Column 4 is not computed and its place in the work array not read.\<close>

definition butterfly4 :: "(nat \<Rightarrow> i32) \<Rightarrow> i32 list" where
  "butterfly4 x =
    (let tmp0 = push_bit 14 (x 0); tmp2 = x 2 * 15137 + x 6 * - 6270;
         tmp10 = tmp0 + tmp2; tmp12 = tmp0 - tmp2;
         z1 = x 7; z2 = x 5; z3 = x 3; z4 = x 1;
         tmp0 = z1 * - 1730 + z2 * 11893 + z3 * - 17799 + z4 * 8697;
         tmp2 = z1 * - 4176 + z2 * - 4926 + z3 * 7373 + z4 * 20995
     in [tmp10 + tmp2, tmp12 + tmp0, tmp12 - tmp0, tmp10 - tmp2])"

definition column4 :: "16 word list \<Rightarrow> i32 list \<Rightarrow> nat \<Rightarrow> i32 list" where
  "column4 coefs quant c =
    (if c = 4 then []
     else if zero_terms [1, 2, 3, 5, 6, 7] (\<lambda>r. coefs ! (8 * r + c))
     then replicate 4 (push_bit 2 (dequantized coefs quant c 0))
     else map (\<lambda>t. DESCALE t 12) (butterfly4 (dequantized coefs quant c)))"

definition row4 :: "(nat \<Rightarrow> i32) \<Rightarrow> u8 list option" where
  "row4 ws =
    (if zero_terms [1, 2, 3, 5, 6, 7] ws
     then (case clipped (ws 0) 5 of None \<Rightarrow> None | Some dcval \<Rightarrow> Some (replicate 4 dcval))
     else all_some (map (\<lambda>t. clipped t 19) (butterfly4 ws)))"

definition JPEG_SWIDCT_4X4 :: "16 word list \<Rightarrow> i32 list \<Rightarrow> u8 list option" where
  "JPEG_SWIDCT_4X4 coefs quant = idct_rows 4 row4 (column4 coefs quant)"

definition butterfly2 :: "(nat \<Rightarrow> i32) \<Rightarrow> i32 list" where
  "butterfly2 x =
    (let tmp10 = push_bit 15 (x 0);
         tmp0 = x 7 * - 5906 + x 5 * 6967 + x 3 * - 10426 + x 1 * 29692
     in [tmp10 + tmp0, tmp10 - tmp0])"

definition column2 :: "16 word list \<Rightarrow> i32 list \<Rightarrow> nat \<Rightarrow> i32 list" where
  "column2 coefs quant c =
    (if c = 2 \<or> c = 4 \<or> c = 6 then []
     else if zero_terms [1, 3, 5, 7] (\<lambda>r. coefs ! (8 * r + c))
     then replicate 2 (push_bit 2 (dequantized coefs quant c 0))
     else map (\<lambda>t. DESCALE t 13) (butterfly2 (dequantized coefs quant c)))"

definition row2 :: "(nat \<Rightarrow> i32) \<Rightarrow> u8 list option" where
  "row2 ws =
    (if zero_terms [1, 3, 5, 7] ws
     then (case clipped (ws 0) 5 of None \<Rightarrow> None | Some dcval \<Rightarrow> Some (replicate 2 dcval))
     else all_some (map (\<lambda>t. clipped t 20) (butterfly2 ws)))"

definition JPEG_SWIDCT_2X2 :: "16 word list \<Rightarrow> i32 list \<Rightarrow> u8 list option" where
  "JPEG_SWIDCT_2X2 coefs quant = idct_rows 2 row2 (column2 coefs quant)"

definition JPEG_SWIDCT_1X1 :: "16 word list \<Rightarrow> i32 list \<Rightarrow> u8 list option" where
  "JPEG_SWIDCT_1X1 coefs quant = all_some [clipped (DEQUANTIZE (coefs ! 0) (quant ! 0)) 3]"

subsection \<open>The choice by the scale factor\<close>

datatype transform = Low_quality | Size_4x4 | Size_2x2 | Size_1x1

definition InitTransFun :: "u8 \<Rightarrow> transform option \<times> bool" where
  "InitTransFun scale =
    (if scale = 0 then (Some Low_quality, True)
     else if scale = 1 then (Some Size_4x4, False)
     else if scale = 2 then (Some Size_2x2, False)
     else if scale = 3 then (Some Size_1x1, False)
     else (None, False))"

definition jpeg_transform :: "transform \<Rightarrow> 16 word list \<Rightarrow> i32 list \<Rightarrow> u8 list option" where
  "jpeg_transform t = (case t of Low_quality \<Rightarrow> JPEG_SWIDCT_LOW_Quality | Size_4x4 \<Rightarrow> JPEG_SWIDCT_4X4
     | Size_2x2 \<Rightarrow> JPEG_SWIDCT_2X2 | Size_1x1 \<Rightarrow> JPEG_SWIDCT_1X1)"

subsection \<open>The shortcuts\<close>

lemma LQ_MULTIPLY_0 [simp]: "LQ_MULTIPLY 0 c = 0"
proof -
  have "signed_drop_bit 8 (128 :: i32) = 0" by code_simp
  then show ?thesis by (simp add: LQ_MULTIPLY_def DESCALE_def)
qed

lemma lq_butterfly_DC: "zero_terms [1..<8] x \<Longrightarrow> lq_butterfly x = replicate 8 (x 0)"
  by (simp add: zero_terms_def lq_butterfly_def Let_def upt_rec numeral_eq_Suc)

text \<open>The transform without its shortcuts.\<close>

definition lq_plain :: "16 word list \<Rightarrow> i32 list \<Rightarrow> u8 list option" where
  "lq_plain coefs quant = idct_rows 8 (\<lambda>ws. all_some (map (\<lambda>t. clipped t 5) (lq_butterfly ws)))
     (\<lambda>c. lq_butterfly (dequantized coefs quant c))"

text \<open>C13: the shortcuts of the full-size transform are exact.  For any coefficients and any table the transform
  gives what its general computation gives for every column and row: a column without AC terms and a row of the
  work array with one term only come out the same by the shortcut.\<close>

theorem idct_shortcuts_exact: "JPEG_SWIDCT_LOW_Quality coefs quant = lq_plain coefs quant"
proof -
  have "lq_column coefs quant c = lq_butterfly (dequantized coefs quant c)" for c
  proof (cases "zero_terms [1..<8] (\<lambda>r. coefs ! (8 * r + c))")
    case True
    then have "zero_terms [1..<8] (dequantized coefs quant c)"
      by (auto simp: zero_terms_def list_all_iff dequantized_def DEQUANTIZE_def)
    with True show ?thesis by (simp only: lq_column_def lq_butterfly_DC if_True)
  qed (simp add: lq_column_def)
  moreover have "lq_row ws = all_some (map (\<lambda>t. clipped t 5) (lq_butterfly ws))" for ws
    by (auto simp: lq_row_def lq_butterfly_DC numeral_eq_Suc split: option.split)
  ultimately show ?thesis unfolding JPEG_SWIDCT_LOW_Quality_def lq_plain_def by presburger
qed

subsection \<open>Blocks with a DC value only\<close>

lemma sint32: "- (2 ^ 31) \<le> k \<Longrightarrow> k < 2 ^ 31 \<Longrightarrow> sint (word_of_int k :: i32) = k"
  by (subst signed_of_int) (auto intro!: signed_take_bit_int_eq_self)

lemma abs_div_le: "(0 :: int) < d \<Longrightarrow> \<bar>k div d\<bar> \<le> \<bar>k\<bar>"
proof (cases "0 \<le> k")
  case True
  assume "0 < d"
  with True zdiv_mono2 [of k 1 d] show ?thesis by (simp add: pos_imp_zdiv_nonneg_iff)
next
  case False
  assume "0 < d"
  with False zdiv_mono2_neg [of k 1 d] div_nonpos_pos_le0 [of k d] show ?thesis by simp
qed

lemma DESCALE_int:
  assumes "- (2 ^ 30) \<le> k" "k < 2 ^ 30" "0 < n" "n \<le> 20"
  shows "DESCALE (word_of_int k) n = word_of_int ((k + 2 ^ (n - 1)) div 2 ^ n)"
proof (rule signed_word_eqI)
  let ?k = "k + 2 ^ (n - 1)"
  have p: "(0 :: int) < 2 ^ (n - 1)" "(2 :: int) ^ (n - 1) \<le> 2 ^ 19"
    using assms(4) by (simp, intro power_increasing) auto
  moreover have "- (2 ^ 31) < k + h \<and> k + h < 2 ^ 31" if "0 < h" "h \<le> 2 ^ 19" for h
    using that assms(1,2) by auto
  ultimately have k: "- (2 ^ 31) < ?k" "?k < 2 ^ 31" by blast+
  have q: "\<bar>?k div 2 ^ n\<bar> \<le> \<bar>?k\<bar>" by (rule abs_div_le) simp
  have "word_of_int k + push_bit (n - 1) 1 = (word_of_int ?k :: i32)" by (simp add: push_bit_eq_mult)
  then have "sint (DESCALE (word_of_int k) n) = drop_bit n ?k"
    unfolding DESCALE_def using k by (simp add: sint_signed_drop_bit_eq sint32 del: of_int_add)
  moreover have "sint (word_of_int (?k div 2 ^ n) :: i32) = ?k div 2 ^ n"
    using q k by (intro sint32) auto
  ultimately show "sint (DESCALE (word_of_int k) n) = sint (word_of_int (?k div 2 ^ n) :: i32)"
    by (simp add: drop_bit_eq_div)
qed

text \<open>The sample of a value, or none when the value is outside the table.\<close>

definition sample_of :: "int \<Rightarrow> u8 option" where
  "sample_of v = (if - 5124 \<le> v \<and> v \<le> 3067 then Some (word_of_int (max 0 (min 255 ((v + 4) div 8 + 128)))) else None)"

lemma s_pClip_table_int:
  assumes "- (2 ^ 31) \<le> i" "i < 2 ^ 31"
  shows "s_pClip_table (word_of_int i) = (if - 512 \<le> i \<and> i < 512 then Some (word_of_int (max 0 (min 255 i))) else None)"
  using sint32 [OF assms] by (auto simp: s_pClip_table_def Initialize_Clip_def Let_def max_def min_def)

lemma clipped_value:
  assumes "\<bar>v\<bar> < 2 ^ 24" "0 < n" "n \<le> 20" "k = v * 2 ^ m" "n = m + 3" "- (2 ^ 30) \<le> k" "k < 2 ^ 30"
  shows "clipped (word_of_int k) n = sample_of v"
proof -
  have "(k + 2 ^ (n - 1)) div 2 ^ n = (v + 4) div 8"
  proof -
    have "k + 2 ^ (n - 1) = (v + 4) * 2 ^ m" "(2 :: int) ^ n = 8 * 2 ^ m"
      using assms(4,5) by (simp_all add: power_add algebra_simps)
    then show ?thesis by simp
  qed
  then have d: "DESCALE (word_of_int k) n + 128 = word_of_int ((v + 4) div 8 + 128)"
    using DESCALE_int [OF assms(6,7,2,3)] by simp
  moreover have "\<bar>(v + 4) div 8\<bar> < 2 ^ 24" using assms(1) by auto
  ultimately show ?thesis
    unfolding clipped_def sample_of_def d by (subst s_pClip_table_int) auto
qed

text \<open>When every row has one term, the result is one sample throughout.\<close>

lemma all_some_replicate: "all_some (replicate n (Some a)) = Some (replicate n a)"
  "0 < n \<Longrightarrow> all_some (replicate n None) = None"
  by (induction n) auto

lemma idct_rows_DC:
  assumes "\<And>r. r < n \<Longrightarrow> row (\<lambda>c. column c ! r) = map_option (replicate m) v" "0 < n"
  shows "idct_rows n row column = map_option (replicate (n * m)) v"
proof -
  have "map (\<lambda>r. row (\<lambda>c. column c ! r)) [0..<n] = replicate n (map_option (replicate m) v)"
    using assms(1) by (intro nth_equalityI) auto
  moreover have "concat (replicate n (replicate m x)) = replicate (n * m) x" for x :: u8
    by (induction n) (simp_all add: replicate_add)
  ultimately show ?thesis using assms(2) by (cases v) (simp_all add: idct_rows_def all_some_replicate)
qed

definition dc_block :: "16 word \<Rightarrow> 16 word list" where
  "dc_block c = c # replicate 63 0"

lemma dc_block_nth: "dc_block c ! 0 = c" "0 < k \<Longrightarrow> k < 64 \<Longrightarrow> dc_block c ! k = 0"
  by (simp_all add: dc_block_def nth_Cons')

lemma dc_dequantized: "dequantized (dc_block c) q 0 0 = DEQUANTIZE c (q ! 0)"
  "0 < j \<Longrightarrow> j < 8 \<Longrightarrow> dequantized (dc_block c) q j 0 = 0"
  by (simp_all add: dequantized_def DEQUANTIZE_def dc_block_nth)

lemma dc_column_zero: "j < 8 \<Longrightarrow> set ks \<subseteq> {1..<8} \<Longrightarrow> zero_terms ks (\<lambda>r. dc_block c ! (8 * r + j))"
  by (auto simp: zero_terms_def list_all_iff intro!: dc_block_nth)

text \<open>The columns: the first one is the value, the others are zero.\<close>

lemma dc_columns:
  assumes "j < 8" "r < 8"
  shows "lq_column (dc_block c) q j ! r = (if j = 0 then DEQUANTIZE c (q ! 0) else 0)"
    "hq_column (dc_block c) q j ! r = (if j = 0 then push_bit 2 (DEQUANTIZE c (q ! 0)) else 0)"
    "r < 4 \<Longrightarrow> j \<noteq> 4 \<Longrightarrow> column4 (dc_block c) q j ! r = (if j = 0 then push_bit 2 (DEQUANTIZE c (q ! 0)) else 0)"
    "r < 2 \<Longrightarrow> j \<notin> {2, 4, 6} \<Longrightarrow> column2 (dc_block c) q j ! r = (if j = 0 then push_bit 2 (DEQUANTIZE c (q ! 0)) else 0)"
  using assms dc_column_zero [of j "[1..<8]" c] dc_column_zero [of j "[1, 2, 3, 5, 6, 7]" c] dc_column_zero [of j "[1, 3, 5, 7]" c]
  by (auto simp: lq_column_def hq_column_def column4_def column2_def dc_dequantized simp del: upt.simps replicate.simps)

lemma dc_transforms:
  "JPEG_SWIDCT_LOW_Quality (dc_block c) q = map_option (replicate 64) (clipped (DEQUANTIZE c (q ! 0)) 5)"
  "JPEG_SWIDCT_High_Quality (dc_block c) q = map_option (replicate 64) (clipped (push_bit 2 (DEQUANTIZE c (q ! 0))) 5)"
  "JPEG_SWIDCT_4X4 (dc_block c) q = map_option (replicate 16) (clipped (push_bit 2 (DEQUANTIZE c (q ! 0))) 5)"
  "JPEG_SWIDCT_2X2 (dc_block c) q = map_option (replicate 4) (clipped (push_bit 2 (DEQUANTIZE c (q ! 0))) 5)"
  "JPEG_SWIDCT_1X1 (dc_block c) q = map_option (replicate 1) (clipped (DEQUANTIZE c (q ! 0)) 3)"
proof -
  show "JPEG_SWIDCT_LOW_Quality (dc_block c) q = map_option (replicate 64) (clipped (DEQUANTIZE c (q ! 0)) 5)"
    unfolding JPEG_SWIDCT_LOW_Quality_def
    by (subst idct_rows_DC [where m = 8 and v = "clipped (DEQUANTIZE c (q ! 0)) 5"])
      (auto simp: lq_row_def zero_terms_def list_all_iff dc_columns split: option.split)
  show "JPEG_SWIDCT_High_Quality (dc_block c) q = map_option (replicate 64) (clipped (push_bit 2 (DEQUANTIZE c (q ! 0))) 5)"
    unfolding JPEG_SWIDCT_High_Quality_def
    by (subst idct_rows_DC [where m = 8 and v = "clipped (push_bit 2 (DEQUANTIZE c (q ! 0))) 5"])
      (auto simp: hq_row_def zero_terms_def list_all_iff dc_columns split: option.split)
  show "JPEG_SWIDCT_4X4 (dc_block c) q = map_option (replicate 16) (clipped (push_bit 2 (DEQUANTIZE c (q ! 0))) 5)"
    unfolding JPEG_SWIDCT_4X4_def
    by (subst idct_rows_DC [where m = 4 and v = "clipped (push_bit 2 (DEQUANTIZE c (q ! 0))) 5"])
      (auto simp: row4_def zero_terms_def dc_columns split: option.split)
  show "JPEG_SWIDCT_2X2 (dc_block c) q = map_option (replicate 4) (clipped (push_bit 2 (DEQUANTIZE c (q ! 0))) 5)"
    unfolding JPEG_SWIDCT_2X2_def
    by (subst idct_rows_DC [where m = 2 and v = "clipped (push_bit 2 (DEQUANTIZE c (q ! 0))) 5"])
      (auto simp: row2_def zero_terms_def dc_columns split: option.split)
  show "JPEG_SWIDCT_1X1 (dc_block c) q = map_option (replicate 1) (clipped (DEQUANTIZE c (q ! 0)) 3)"
    by (cases "clipped (DEQUANTIZE c (q ! 0)) 3") (simp_all add: JPEG_SWIDCT_1X1_def dc_block_nth(1))
qed

lemma permuted_quant_nth: "i < 64 \<Longrightarrow> permuted_quant quant ! (jpeg_fw_zigzag_order ! i) = ucast (quant ! i)"
proof -
  define f where "f = (\<lambda>t i. t[jpeg_fw_zigzag_order ! i := ucast (quant ! i) :: i32])"
  have z: "jpeg_fw_zigzag_order ! i < 64" if "i < 64" for i
    using that by (simp add: zigzag_nth)
  have inj: "jpeg_fw_zigzag_order ! i = jpeg_fw_zigzag_order ! j \<longleftrightarrow> i = j" if "i < 64" "j < 64" for i j
    using that by (simp add: zigzag_nth nth_eq_iff_index_eq)
  have "length (foldl f (replicate 64 0) [0..<n]) = 64
      \<and> (\<forall>i < n. foldl f (replicate 64 0) [0..<n] ! (jpeg_fw_zigzag_order ! i) = ucast (quant ! i))" if "n \<le> 64" for n
    using that
  proof (induction n)
    case (Suc n)
    then show ?case using z inj by (auto simp: f_def nth_list_update less_Suc_eq)
  qed simp
  from this [of 64] show "i < 64 \<Longrightarrow> ?thesis" by (simp add: permuted_quant_def f_def)
qed

lemma length_permuted_quant [simp]: "length (permuted_quant quant) = 64"
proof -
  have "length (foldl (\<lambda>t i. t[jpeg_fw_zigzag_order ! i := ucast (quant ! i) :: i32]) t ks) = length t" for t and ks :: "nat list"
    by (induction ks arbitrary: t) auto
  then show ?thesis by (simp add: permuted_quant_def)
qed

text \<open>C14: at every size of the output a block with a DC value only becomes one sample throughout.  With the
  table that the code uses for the size, the sample is the value times its quantization step, divided by eight
  and rounded, plus 128, clipped to a byte.  The index into the clipping table is not checked: when the product is
  not between -5124 and 3067, all of the transforms read outside the table.\<close>

theorem dc_block_samples:
  "jpeg_transform Low_quality (dc_block c) (low_quality_quant quant) = map_option (replicate 64) (sample_of (sint c * uint (quant ! 0)))
   \<and> jpeg_transform Size_4x4 (dc_block c) (permuted_quant quant) = map_option (replicate 16) (sample_of (sint c * uint (quant ! 0)))
   \<and> jpeg_transform Size_2x2 (dc_block c) (permuted_quant quant) = map_option (replicate 4) (sample_of (sint c * uint (quant ! 0)))
   \<and> jpeg_transform Size_1x1 (dc_block c) (permuted_quant quant) = map_option (replicate 1) (sample_of (sint c * uint (quant ! 0)))
   \<and> JPEG_SWIDCT_High_Quality (dc_block c) (permuted_quant quant) = map_option (replicate 64) (sample_of (sint c * uint (quant ! 0)))"
proof -
  let ?q = "uint (quant ! 0)"
  define v where "v = sint c * ?q"
  have q: "0 \<le> ?q" "?q \<le> 255" using uint_lt2p [of "quant ! 0"] by simp_all
  have c: "- 32768 \<le> sint c" "sint c \<le> 32767" using sint_ge [of c] sint_lt [of c] by simp_all
  have "\<bar>sint c\<bar> * ?q \<le> 32768 * 255" using c q by (intro mult_mono) auto
  then have v: "\<bar>v\<bar> \<le> 32768 * 255" using q by (simp add: v_def abs_mult)
  have s: "scast c = (word_of_int (sint c) :: i32)" "ucast (quant ! 0) = (word_of_int ?q :: i32)" by simp_all
  have "jpeg_fw_zigzag_order ! 0 = 0" by (simp add: jpeg_fw_zigzag_order_def)
  with permuted_quant_nth [of 0 quant] have "permuted_quant quant ! 0 = word_of_int ?q" by simp
  then have p: "DEQUANTIZE c (permuted_quant quant ! 0) = word_of_int v"
    by (simp only: DEQUANTIZE_def s(1) v_def flip: of_int_mult)
  have "aanscales ! 0 = 16384" by (simp add: aanscales_def)
  then have "low_quality_quant quant ! 0 = DESCALE (ucast (quant ! 0) * of_nat 16384) 12"
    unfolding low_quality_quant_def by (subst nth_map) (simp_all only: length_upt nth_upt, simp_all)
  also have "ucast (quant ! 0) * of_nat 16384 = (word_of_int (?q * 16384) :: i32)"
    unfolding s(2) by simp
  also have "DESCALE (word_of_int (?q * 16384)) 12 = word_of_int ((?q * 16384 + 2 ^ (12 - 1)) div 2 ^ 12)"
  proof -
    have "- (2 ^ 30) \<le> k * 16384 \<and> k * 16384 < 2 ^ 30" if "0 \<le> k" "k \<le> 255" for k :: int using that by simp
    note b = this [OF q]
    show ?thesis by (rule DESCALE_int [OF conjunct1 [OF b] conjunct2 [OF b]]) simp_all
  qed
  also have "(?q * 16384 + 2 ^ (12 - 1)) div 2 ^ 12 = 4 * ?q" by simp
  finally have "DEQUANTIZE c (low_quality_quant quant ! 0) = word_of_int (sint c * (4 * ?q))"
    by (simp only: DEQUANTIZE_def s(1) flip: of_int_mult)
  then have l: "DEQUANTIZE c (low_quality_quant quant ! 0) = word_of_int (v * 2 ^ 2)" by (simp add: v_def mult.commute mult.left_commute)
  have p4: "push_bit 2 (word_of_int v) = (word_of_int (v * 2 ^ 2) :: i32)" by (simp add: push_bit_eq_mult)
  have c5: "clipped (word_of_int (v * 2 ^ 2)) 5 = sample_of v"
    using v by (intro clipped_value [where m = 2]) auto
  have c3: "clipped (word_of_int v) 3 = sample_of v"
    using v by (intro clipped_value [where m = 0]) auto
  show ?thesis
    unfolding jpeg_transform_def transform.case dc_transforms p l p4 c5 c3 v_def [symmetric] by simp
qed

theorem dc_block_samples_witness:
  "jpeg_transform Size_4x4 (dc_block 25) (permuted_quant (replicate 64 16)) = Some (replicate 16 178)
   \<and> jpeg_transform Size_1x1 (dc_block (- 400)) (permuted_quant (replicate 64 16)) = None"
  using dc_block_samples [of 25 "replicate 64 16"] dc_block_samples [of "- 400" "replicate 64 16"]
  by (simp add: sample_of_def)

text \<open>The scaled outputs use the quantization table in the wrong order.  The header parser stores a table in
  the natural order of the coefficients.  For the smaller sizes the code permutes it once more, so that the coefficient
  at the place \<open>zigzag (i)\<close> is multiplied by the step of the coefficient \<open>i\<close>: the steps are right
  for all coefficients only in a table that the permutation does not change.\<close>

theorem scaled_quant_permuted:
  assumes "length quant = 64"
  shows "(\<forall>i < 64. permuted_quant quant ! (jpeg_fw_zigzag_order ! i) = ucast (quant ! i))
    \<and> (permuted_quant quant = map ucast quant \<longleftrightarrow> (\<forall>i < 64. quant ! (jpeg_fw_zigzag_order ! i) = quant ! i))"
proof (intro conjI)
  show perm: "\<forall>i < 64. permuted_quant quant ! (jpeg_fw_zigzag_order ! i) = ucast (quant ! i)"
    using permuted_quant_nth by blast
  have inj: "ucast a = (ucast b :: i32) \<longleftrightarrow> a = b" for a b :: u8
  proof -
    have "ucast (ucast d :: i32) = d" for d :: u8 by (rule bit_eqI) (auto simp: bit_simps)
    then show ?thesis by metis
  qed
  show "permuted_quant quant = map ucast quant \<longleftrightarrow> (\<forall>i < 64. quant ! (jpeg_fw_zigzag_order ! i) = quant ! i)"
  proof
    assume "permuted_quant quant = map ucast quant"
    with perm show "\<forall>i < 64. quant ! (jpeg_fw_zigzag_order ! i) = quant ! i"
      using assms by (simp add: zigzag_nth inj)
  next
    assume same: "\<forall>i < 64. quant ! (jpeg_fw_zigzag_order ! i) = quant ! i"
    show "permuted_quant quant = map ucast quant"
    proof (rule nth_equalityI)
      fix k assume "k < length (permuted_quant quant)"
      then have k: "k < 64" "k \<in> set zigzag" by (simp_all add: set_zigzag)
      then obtain i where i: "i < 64" "k = zigzag ! i" by (auto simp: in_set_conv_nth)
      with perm same k(1) show "permuted_quant quant ! k = map ucast quant ! k"
        using assms by (simp add: zigzag_nth)
    qed (simp add: assms)
  qed
qed

theorem scaled_quant_permuted_witness:
  "permuted_quant (map of_nat [0..<64]) \<noteq> map ucast (map of_nat [0..<64] :: bytes)"
proof -
  have "\<not> (\<forall>i < 64. (map of_nat [0..<64] :: bytes) ! (jpeg_fw_zigzag_order ! i) = map of_nat [0..<64] ! i)"
    by (intro notI) (drule spec [where x = 2], simp add: jpeg_fw_zigzag_order_def)
  then show ?thesis using scaled_quant_permuted [of "map of_nat [0..<64]"] by simp
qed

end
