(* ===== verification/ProgFrame.thy ===== *)
theory ProgFrame
  imports ProgRefine ProgIdct
begin

text \<open>
  The frame loop of the software decoder: \<^verbatim>\<open>JpedDec_Update_SOS\<close>,
  \<^verbatim>\<open>JPEG_DecodeMCULine_Progressive\<close> and \<^verbatim>\<open>START_SW_DECODE_PROGRESSIVE\<close> of \<^verbatim>\<open>jpegdec_frame.c\<close>, and
  \<^verbatim>\<open>jpegdec_out.c\<close>, which copies the samples of a unit into the frame.
\<close>

subsection \<open>The scan becomes the current one\<close>

text \<open>\<^verbatim>\<open>jpeg_div_round_up\<close>, whose arguments are not negative; a division by zero is a fault.\<close>

definition jpeg_div_round_up :: "nat \<Rightarrow> nat \<Rightarrow> (nat, 's) pm" where
  "jpeg_div_round_up a b = (if b = 0 then pfault else pret ((a + b - 1) div b))"

definition the_component :: "nat \<Rightarrow> scan_component pd" where
  "the_component ci = pbind (pget cur_comp_info) (\<lambda>cc. pbind (elem cc ci) (\<lambda>ptr. pbind (deref ptr) (\<lambda>scan.
     pbind (pget buf_storage) (\<lambda>bs. pbind (elem bs scan) (\<lambda>sc. elem (sos_comp_info sc) ci)))))"

definition JpedDec_Update_SOS :: "u8 \<Rightarrow> unit pd" where
  "JpedDec_Update_SOS scan_index =
     pthen (pmod (\<lambda>s. s\<lparr>cur_scan := scan_index\<rparr>))
    (pbind (pget buf_storage) (\<lambda>bs. pbind (elem bs (unat scan_index)) (\<lambda>scan.
     pthen (pmod (\<lambda>s. s\<lparr>p_Ss := sos_Ss scan, p_Se := sos_Se scan, p_Ah := sos_Ah scan, p_Al := sos_Al scan,
                       p_comps_in_scan := sos_comps_in_scan scan\<rparr>))
    (pthen (pfor [0..<unat (sos_comps_in_scan scan)] (\<lambda>ci.
        pthen (pcheck (\<lambda>s. ci < length (cur_comp_info s)))
              (pmod (\<lambda>s. s\<lparr>cur_comp_info := (cur_comp_info s)[ci := Some (unat scan_index)]\<rparr>))))
    (pthen (if sos_comps_in_scan scan = 1
        then pbind (the_component 0) (\<lambda>c. pbind (pget pcodec) (\<lambda>j. pbind (elem (ratio j) 0) (\<lambda>rt.
             pbind (jpeg_div_round_up (unat (width j) * unat (h_samp_factor c)) (unat (h_ratio rt) * 8)) (\<lambda>n.
               pmod (\<lambda>s. s\<lparr>MCU_per_col := ucast (v_samp_factor c), MCU_per_row := of_nat n\<rparr>)))))
        else pmod (\<lambda>s. s\<lparr>MCU_per_col := 1, MCU_per_row := mcu_num_x (pcodec s)\<rparr>))
       (on_bits (Update_Global_Bitstrm_Info (address scan))))))))"

subsection \<open>A line of units\<close>

text \<open>The blocks of a component in the unit at \<open>xoffset\<close>, row by row; the two products are 16-bit
  integers.\<close>

definition component_blocks :: "jpeg_codec \<Rightarrow> nat \<Rightarrow> nat \<Rightarrow> scan_component \<Rightarrow> (nat \<times> int) list" where
  "component_blocks j yoffset xoffset c =
    (let start_col_block = sint (word_of_int (int xoffset * sint (MCU_width c)) :: coef);
         blocksperrow = sint (of_nat (unat (mcu_num_x j) * unat (h_samp_factor c) * 64) :: coef)
     in concat (map (\<lambda>yindex. map (\<lambda>xindex.
          (unat (component_id c) - 1, (int yindex + int yoffset) * blocksperrow + start_col_block * 64 + int xindex * 64))
          [0..<nat (sint (MCU_width c))]) [0..<nat (sint (MCU_height c))]))"

text \<open>They are put one behind the other into the six block pointers.\<close>

definition place_blocks :: "nat \<Rightarrow> nat \<Rightarrow> nat \<Rightarrow> nat \<Rightarrow> nat pd" where
  "place_blocks yoffset xoffset ci block_id =
     pbind (the_component ci) (\<lambda>c. pbind (pget pcodec) (\<lambda>j. let ps = component_blocks j yoffset xoffset c in
       pthen (pcheck (\<lambda>s. block_id + length ps \<le> length (blocks s) \<and> list_all (\<lambda>p. 0 \<le> snd p) ps
                \<and> (0 < sint (MCU_height c) \<longrightarrow> component_id c \<noteq> 0 \<and> unat (component_id c) - 1 < length (block_line s))))
      (pthen (pmod (\<lambda>s. s\<lparr>blocks := take block_id (blocks s) @ map (\<lambda>p. Some (fst p, nat (snd p))) ps
                               @ drop (block_id + length ps) (blocks s)\<rparr>))
             (pret (block_id + length ps)))))"

fun place_components :: "nat \<Rightarrow> nat \<Rightarrow> nat list \<Rightarrow> nat \<Rightarrow> nat pd" where
  "place_components yoffset xoffset [] block_id = pret block_id"
| "place_components yoffset xoffset (ci # cis) block_id =
     pbind (place_blocks yoffset xoffset ci block_id) (place_components yoffset xoffset cis)"

definition decode_unit :: "nat \<Rightarrow> nat \<Rightarrow> nat \<Rightarrow> unit pd" where
  "decode_unit i yoffset xoffset =
     pbind (pget p_comps_in_scan) (\<lambda>n. pbind (place_components yoffset xoffset [0..<unat n] 0) (\<lambda>_.
     pbind (pget blocks) (\<lambda>mcu. pbind (pget buf_storage) (\<lambda>bs. pbind (elem bs i) (\<lambda>scan.
       call_decode_mcu (decode_mcu (entropy scan)) mcu)))))"

text \<open>The loop over a row of units, whose counter has eight bits.\<close>

partial_function (option) unit_loop :: "nat \<Rightarrow> nat \<Rightarrow> u8 \<Rightarrow> unit pd" where
  "unit_loop i yoffset xoffset s =
     (if unat xoffset < unat (MCU_per_row s)
      then (case decode_unit i yoffset (unat xoffset) s of
              None \<Rightarrow> None
            | Some (JOk _ s') \<Rightarrow> unit_loop i yoffset (xoffset + 1) s'
            | Some (JFail s') \<Rightarrow> Some (JFail s')
            | Some JFault \<Rightarrow> Some JFault)
      else Some (JOk () s))"

text \<open>The rows of a unit; the count comes from a byte.\<close>

definition clear_line :: "nat \<Rightarrow> nat \<Rightarrow> unit pd" where
  "clear_line l n = pthen (pcheck (\<lambda>s. l < length (block_line s) \<and> n \<le> length (block_line s ! l)))
     (pmod (\<lambda>s. s\<lparr>block_line := (block_line s)[l := replicate n 0 @ drop n (block_line s ! l)]\<rparr>))"

definition decode_scan_line :: "nat \<Rightarrow> unit pd" where
  "decode_scan_line i =
     pthen (JpedDec_Update_SOS (of_nat i))
    (pthen (pbind (pget MCU_per_col) (\<lambda>n. pfor [0..<unat n] (\<lambda>yoffset. unit_loop i yoffset 0)))
    (pthen (pcheck (\<lambda>s. i < length (buf_storage s)))
     (pmod (\<lambda>s. s\<lparr>buf_storage := (buf_storage s)[i := (buf_storage s ! i)\<lparr>address :=
        Update_Local_Bitstrm_Info (address (buf_storage s ! i)) (pbits s)\<rparr>]\<rparr>))))"

definition JPEG_DecodeMCULine_Progressive :: "unit pd" where
  "JPEG_DecodeMCULine_Progressive =
     pbind (pget pcodec) (\<lambda>j. pbind (elem (ratio j) 0) (\<lambda>rt.
       pthen (clear_line 0 (64 * unat (mcu_num_x j) * unat (h_ratio rt) * unat (v_ratio rt)))
      (pthen (clear_line 1 (64 * unat (mcu_num_x j)))
      (pthen (clear_line 2 (64 * unat (mcu_num_x j)))
      (pbind (pget p_input_scan_number) (\<lambda>n. pfor [0..<unat n] decode_scan_line))))))"

subsection \<open>Out to the frame\<close>

fun store_all :: "(nat \<times> u8) list \<Rightarrow> bytes \<Rightarrow> bytes option" where
  "store_all [] dest = Some dest"
| "store_all ((i, v) # xs) dest = (if i < length dest then store_all xs (dest[i := v]) else None)"

text \<open>\<open>rows\<close> rows of \<open>cols\<close> samples from places \<open>step\<close> apart to places \<open>dstep\<close> apart.\<close>

definition copy_block :: "nat \<Rightarrow> nat \<Rightarrow> nat \<Rightarrow> nat \<Rightarrow> nat \<Rightarrow> nat \<Rightarrow> nat \<Rightarrow> bytes \<Rightarrow> bytes \<Rightarrow> bytes option" where
  "copy_block start w rows cols dstep pitch step src dest =
    (if \<forall>i < rows. \<forall>j < cols. i * pitch + step * j < length src
     then store_all (concat (map (\<lambda>i. map (\<lambda>j. (start + i * w + dstep * j, src ! (i * pitch + step * j))) [0..<cols]) [0..<rows])) dest
     else None)"

text \<open>The decoder with what the output functions use; \<open>plane_start\<close> is where a pointer that is computed from 16-bit offsets
  points.\<close>

record sw_decoder =
  sw_prog :: prog
  sw_transform :: transform
  quant_tbl_new :: "i32 list list"
  org_blocks :: "bytes list"
  y_coeff :: bytes
  uv_coeff :: bytes

definition plane_start :: "nat \<Rightarrow> u16 \<Rightarrow> u16 \<Rightarrow> nat" where
  "plane_start w y_offset x_offset = w * unat y_offset + unat x_offset"

definition out_luma :: "nat \<Rightarrow> nat \<Rightarrow> nat \<Rightarrow> sw_decoder \<Rightarrow> sw_decoder option" where
  "out_luma start n b d =
    (if b < length (org_blocks d)
     then map_option (\<lambda>p. d\<lparr>y_coeff := p\<rparr>)
       (copy_block start (unat (out_width (pcodec (sw_prog d)))) n n 1 n 1 (org_blocks d ! b) (y_coeff d))
     else None)"

text \<open>The two chroma blocks, sample by sample beside each other.  The code writes them in turn; the places of
  the two are different ones.\<close>

definition out_chroma :: "nat \<Rightarrow> nat \<Rightarrow> nat \<Rightarrow> nat \<Rightarrow> nat \<Rightarrow> nat \<Rightarrow> sw_decoder \<Rightarrow> sw_decoder option" where
  "out_chroma start n cols step b b' d =
    (if b < length (org_blocks d) \<and> b' < length (org_blocks d)
     then (let w = unat (out_width (pcodec (sw_prog d))) in
       case copy_block start w n cols 2 n step (org_blocks d ! b) (uv_coeff d) of
         None \<Rightarrow> None
       | Some p \<Rightarrow> map_option (\<lambda>p. d\<lparr>uv_coeff := p\<rparr>) (copy_block (start + 1) w n cols 2 n step (org_blocks d ! b') p))
     else None)"

definition JPEGFW_OutMCU444 :: "u16 \<Rightarrow> u16 \<Rightarrow> nat \<Rightarrow> sw_decoder \<Rightarrow> sw_decoder option" where
  "JPEGFW_OutMCU444 x y scale d =
    (let n = 8 div 2 ^ scale; w = unat (out_width (pcodec (sw_prog d)));
         start = plane_start w (y * of_nat n) (x * of_nat n) in
     case out_luma start n 0 d of None \<Rightarrow> None | Some d \<Rightarrow> out_chroma start n (n div 2) 2 1 2 d)"

fun out_blocks :: "(nat \<Rightarrow> nat) \<Rightarrow> nat \<Rightarrow> nat list \<Rightarrow> sw_decoder \<Rightarrow> sw_decoder option" where
  "out_blocks start n [] d = Some d"
| "out_blocks start n (b # bs) d = (case out_luma (start b) n b d of None \<Rightarrow> None | Some d \<Rightarrow> out_blocks start n bs d)"

definition JPEGFW_OutMCU420 :: "u16 \<Rightarrow> u16 \<Rightarrow> nat \<Rightarrow> sw_decoder \<Rightarrow> sw_decoder option" where
  "JPEGFW_OutMCU420 x y scale d =
    (let mb = 16 div 2 ^ scale; n = 8 div 2 ^ scale; w = unat (out_width (pcodec (sw_prog d))) in
     case out_blocks (\<lambda>b. plane_start w (y * of_nat mb + of_nat (b div 2 * n)) (x * of_nat mb + of_nat (b mod 2 * n)))
            n [0, 1, 2, 3] d of
       None \<Rightarrow> None
     | Some d \<Rightarrow> out_chroma (plane_start w (y * of_nat n) (x * of_nat mb)) n n 1 4 5 d)"

text \<open>The other formats have no body.\<close>

definition JPEGFW_OutMCU400 :: "u16 \<Rightarrow> u16 \<Rightarrow> nat \<Rightarrow> sw_decoder \<Rightarrow> sw_decoder option" where
  "JPEGFW_OutMCU400 x y scale d = Some d"

definition JPEGFW_OutMCU411 :: "u16 \<Rightarrow> u16 \<Rightarrow> nat \<Rightarrow> sw_decoder \<Rightarrow> sw_decoder option" where
  "JPEGFW_OutMCU411 x y scale d = Some d"

definition JPEGFW_OutMCU422 :: "u16 \<Rightarrow> u16 \<Rightarrow> nat \<Rightarrow> sw_decoder \<Rightarrow> sw_decoder option" where
  "JPEGFW_OutMCU422 x y scale d = Some d"

subsection \<open>A slice of the picture\<close>

definition on_prog :: "'a pd \<Rightarrow> ('a, sw_decoder) pm" where
  "on_prog m d = (case m (sw_prog d) of
       None \<Rightarrow> None
     | Some (JOk a s) \<Rightarrow> Some (JOk a (d\<lparr>sw_prog := s\<rparr>))
     | Some (JFail s) \<Rightarrow> Some (JFail (d\<lparr>sw_prog := s\<rparr>))
     | Some JFault \<Rightarrow> Some JFault)"

definition on_frame :: "(sw_decoder \<Rightarrow> sw_decoder option) \<Rightarrow> (unit, sw_decoder) pm" where
  "on_frame f d = (case f d of None \<Rightarrow> Some JFault | Some d' \<Rightarrow> Some (JOk () d'))"

text \<open>A call whose result is not looked at.\<close>

definition ignoring_result :: "(unit, 's) pm \<Rightarrow> (unit, 's) pm" where
  "ignoring_result m s = (case m s of Some (JFail s') \<Rightarrow> Some (JOk () s') | r \<Rightarrow> r)"

text \<open>The format: blocks of a unit, luma blocks, and the output function.\<close>

definition mcu_layout :: "u8 \<Rightarrow> (nat \<times> nat \<times> (u16 \<Rightarrow> u16 \<Rightarrow> nat \<Rightarrow> sw_decoder \<Rightarrow> sw_decoder option)) option" where
  "mcu_layout f =
    (if f = ucast JPEG_FW_YUV444 then Some (3, 1, JPEGFW_OutMCU444)
     else if f = ucast JPEG_FW_YUV422 then Some (4, 2, JPEGFW_OutMCU422)
     else if f = ucast JPEG_FW_YUV411 then Some (6, 4, JPEGFW_OutMCU411)
     else if f = ucast JPEG_FW_YUV420 then Some (6, 4, JPEGFW_OutMCU420)
     else if f = ucast JPEG_FW_YUV400 then Some (1, 1, JPEGFW_OutMCU400)
     else None)"

text \<open>The block that is transformed for place \<open>block_id\<close> of the unit \<open>x\<close>.\<close>

definition output_block :: "jpeg_codec \<Rightarrow> nat \<Rightarrow> nat \<Rightarrow> nat \<Rightarrow> block_ptr option" where
  "output_block j luma_blk_num x block_id =
    (if block_id < luma_blk_num
     then (if ratio j = [] \<or> h_ratio (ratio j ! 0) = 0 \<or> v_ratio (ratio j ! 0) = 0 then None
       else let h = unat (h_ratio (ratio j ! 0)); v = unat (v_ratio (ratio j ! 0)) in
         Some (0, ((block_id div h * unat (mcu_num_x j) + x) * h + block_id mod v) * 64))
     else Some (block_id - luma_blk_num + 1, x * 64))"

text \<open>The transform of a block into the place for its samples.\<close>

definition transform_block :: "nat \<Rightarrow> nat \<Rightarrow> nat \<Rightarrow> sw_decoder \<Rightarrow> sw_decoder option" where
  "transform_block luma_blk_num x block_id d =
    (let s = sw_prog d; j = pcodec s in
     case output_block j luma_blk_num x block_id of
       None \<Rightarrow> None
     | Some (l, offset) \<Rightarrow>
        if l < length (block_line s) \<and> offset + 64 \<le> length (block_line s ! l)
           \<and> block_id < length (org_blocks d) \<and> block_id < length (blocks_membership s)
           \<and> unat (blocks_membership s ! block_id) < length (tbl_map j)
        then let q = unat (quant_tbl_id (tbl_map j ! unat (blocks_membership s ! block_id))) in
          if q < length (quant_tbl_new d)
          then (case jpeg_transform (sw_transform d) (chunk offset 64 (block_line s ! l)) (quant_tbl_new d ! q) of
                  None \<Rightarrow> None
                | Some px \<Rightarrow>
                   if length px \<le> length (org_blocks d ! block_id)
                   then Some (d\<lparr>org_blocks := (org_blocks d)[block_id := px @ drop (length px) (org_blocks d ! block_id)]\<rparr>)
                   else None)
          else None
        else None)"

definition output_unit :: "nat \<Rightarrow> (u16 \<Rightarrow> u16 \<Rightarrow> nat \<Rightarrow> sw_decoder \<Rightarrow> sw_decoder option) \<Rightarrow> nat \<Rightarrow> nat \<Rightarrow> (unit, sw_decoder) pm" where
  "output_unit luma_blk_num MCUToFrm y x =
     pthen (pbind (pget (\<lambda>d. block_num (sw_prog d))) (\<lambda>n. pfor [0..<unat n] (\<lambda>b. on_frame (transform_block luma_blk_num x b))))
       (on_frame (\<lambda>d. MCUToFrm (of_nat x) (of_nat y) (unat (scale_factor (pcodec (sw_prog d)))) d))"

text \<open>The rows of a slice are at most those of the picture, so the 16-bit counter does not wrap.\<close>

definition START_SW_DECODE_PROGRESSIVE :: "u32 \<Rightarrow> (unit, sw_decoder) pm" where
  "START_SW_DECODE_PROGRESSIVE num_of_rows =
     pbind (pget (\<lambda>d. pcodec (sw_prog d))) (\<lambda>j.
     case mcu_layout (input_mcu_info j) of
       None \<Rightarrow> pfail
     | Some (blk_num, luma_blk_num, MCUToFrm) \<Rightarrow>
        pthen (on_prog (pmod (\<lambda>s. s\<lparr>block_num := of_nat blk_num\<rparr>)))
       (if mcu_height j = 0 then pfault
        else pfor [0..<unat num_of_rows div unat (mcu_height j)] (\<lambda>y.
          pthen (ignoring_result (on_prog JPEG_DecodeMCULine_Progressive))
                (pfor [0..<unat (mcu_num_x j)] (output_unit luma_blk_num MCUToFrm y)))))"

subsection \<open>What a unit leaves alone\<close>

text \<open>A projection of the decoder that looks at nothing but what the decoders of a unit do not touch.\<close>

definition aside :: "(prog \<Rightarrow> 'b) \<Rightarrow> bool" where
  "aside f \<longleftrightarrow> (\<forall>s b. f (s\<lparr>pbits := b\<rparr>) = f s) \<and> (\<forall>s x. f (s\<lparr>buf_storage := x\<rparr>) = f s)
     \<and> (\<forall>s x. f (s\<lparr>block_line := x\<rparr>) = f s) \<and> (\<forall>s x. f (s\<lparr>blocks := x\<rparr>) = f s)"

definition untouched :: "(prog \<Rightarrow> 'b) \<Rightarrow> 'a pd \<Rightarrow> bool" where
  "untouched f m \<longleftrightarrow> (\<forall>s a s'. m s = Some (JOk a s') \<longrightarrow> f s' = f s)"

named_theorems keeping "statements that leave a projection alone"

lemma keeps_pbind [keeping]: "untouched f m \<Longrightarrow> (\<And>a. untouched f (k a)) \<Longrightarrow> untouched f (pbind m k)"
  unfolding untouched_def pbind_def by (fastforce split: option.splits jres.splits)

lemma keeps_pthen [keeping]: "untouched f m \<Longrightarrow> untouched f n \<Longrightarrow> untouched f (pthen m n)"
  unfolding pthen_def by (rule keeps_pbind)

lemma keeps_basic [keeping]:
  "untouched f (pret a)" "untouched f pfail" "untouched f pfault" "untouched f (pget g)" "untouched f (pcheck P)"
  "untouched f (elem xs i)" "untouched f (deref p)"
  by (auto simp: untouched_def pstmt elem_def deref_def split: if_splits option.splits)

lemma keeps_pseq [keeping]: "(\<And>m. m \<in> set ms \<Longrightarrow> untouched f m) \<Longrightarrow> untouched f (pseq ms)"
  by (induction ms) (auto intro: keeping)

lemma keeps_cond [keeping]: "untouched f m \<Longrightarrow> untouched f n \<Longrightarrow> untouched f (if b then m else n)"
  by simp

lemma keeps_cond': "(b \<Longrightarrow> untouched f m) \<Longrightarrow> (\<not> b \<Longrightarrow> untouched f n) \<Longrightarrow> untouched f (if b then m else n)"
  by simp

lemma keeps_touches [keeping]:
  assumes "aside f"
  shows "untouched f (on_bits b)" "untouched f get_entropy" "untouched f (mod_entropy g)" "untouched f count_restart"
    "untouched f (get_coef p i)" "untouched f (put_coef p i v)" "untouched f (zigzag_at k)"
  using assms
  by (auto simp: untouched_def aside_def on_bits_def get_entropy_def mod_entropy_def count_restart_def get_coef_def
    put_coef_def zigzag_at_def elem_def pstmt Let_def split: option.splits jres.splits if_splits)

lemma keeps_process_restart [keeping]: "aside f \<Longrightarrow> untouched f process_restart"
  unfolding process_restart_def by (intro keeping) (auto intro!: keeping)

lemma keeps_DC_first [keeping]: "aside f \<Longrightarrow> untouched f (decode_mcu_DC_first M)"
proof -
  assume f: "aside f"
  have "untouched f (DC_table b)" for b
    unfolding DC_table_def Let_def using f by (intro keeping) (auto intro!: keeping)
  moreover have "untouched f (next_dc c d)" for c d
    unfolding next_dc_def Let_def using f by (intro keeping) auto
  ultimately have "untouched f (DC_first_block M b)" for b
    unfolding DC_first_block_def using f by (auto intro!: keeping simp: case_prod_beta)
  then show ?thesis unfolding decode_mcu_DC_first_def using f by (auto intro!: keeping)
qed

lemma keeps_DC_refine [keeping]: "aside f \<Longrightarrow> untouched f (decode_mcu_DC_refine M)"
  unfolding decode_mcu_DC_refine_def DC_refine_block_def by (auto intro!: keeping)

lemma AC_first_loop_eq:
  "AC_first_loop tbl se al p k = (if k \<le> se
     then pbind (on_bits (HUFF_DECODE tbl)) (\<lambda>rs.
        if unat (rs AND 15) \<noteq> 0
        then pbind (on_bits (getbits (unat (rs AND 15)))) (\<lambda>v. pbind (zigzag_at (k + unat (drop_bit 4 rs))) (\<lambda>pos.
             pthen (put_coef p pos (scaled al (HUFF_EXTEND v (unat (rs AND 15)))))
                   (AC_first_loop tbl se al p (k + unat (drop_bit 4 rs) + 1))))
        else if unat (drop_bit 4 rs) = 15 then AC_first_loop tbl se al p (k + 15 + 1)
        else pbind (on_bits (eob_run (unat (drop_bit 4 rs)))) (\<lambda>run. pret (run - 1)))
     else pret 0)"
  by (rule ext) (subst AC_first_loop.simps, simp add: Let_def pret_def)

lemma keeps_AC_first_loop [keeping]:
  assumes "aside f"
  shows "untouched f (AC_first_loop tbl se al p k)"
proof (induction "Suc se - k" arbitrary: k rule: less_induct)
  case less
  then show ?case
    by (subst AC_first_loop_eq) (use assms in \<open>auto intro!: keeping\<close>)
qed

lemma keeps_AC_first [keeping]: "aside f \<Longrightarrow> untouched f (decode_mcu_AC_first M)"
  unfolding decode_mcu_AC_first_def by (auto intro!: keeping)

lemma keeps_correct [keeping]: "aside f \<Longrightarrow> untouched f (correct al p pos c)"
  unfolding correct_def by (auto intro!: keeping)

lemma refine_skip_eq:
  "refine_skip se al p k r =
     pbind (zigzag_at k) (\<lambda>pos. pbind (get_coef p pos) (\<lambda>c.
       if c = 0 \<and> r = 0 then pret 0
       else pthen (if c \<noteq> 0 then correct al p pos c else pret ())
              (if k + 1 \<le> se
               then pbind (refine_skip se al p (k + 1) (if c \<noteq> 0 then r else r - 1)) (\<lambda>n. pret (n + 1))
               else pret 1)))"
  by (rule ext) (subst refine_skip.simps, simp)

lemma keeps_refine_skip [keeping]:
  assumes "aside f"
  shows "untouched f (refine_skip se al p k r)"
proof (induction "Suc se - k" arbitrary: k r rule: less_induct)
  case less
  have "untouched f (if k + 1 \<le> se then pbind (refine_skip se al p (k + 1) r') (\<lambda>n. pret (n + 1)) else pret 1)" for r'
    by (rule keeps_cond') (use less assms in \<open>auto intro!: keeping\<close>)
  note step = this
  show ?case using assms by (subst refine_skip_eq) (rule step keeping | assumption)+
qed

lemma AC_refine_loop_eq:
  "AC_refine_loop tbl se al p num k = (if k \<le> se
     then pbind (on_bits (HUFF_DECODE tbl)) (\<lambda>rs.
        if unat (rs AND 15) = 0 \<and> unat (drop_bit 4 rs) \<noteq> 15 then pbind (on_bits (eob_run (unat (drop_bit 4 rs)))) (\<lambda>run. pret (k, run))
        else pbind (if unat (rs AND 15) \<noteq> 0 then on_bits (getbits 1) else pret 0) (\<lambda>sign.
             pbind (refine_skip se al p k (unat (drop_bit 4 rs))) (\<lambda>n.
             pthen (if unat (rs AND 15) \<noteq> 0
                    then pbind (zigzag_at (k + n)) (\<lambda>pos.
                      pthen (put_coef p pos (if sign \<noteq> 0 then push_bit al 1 else push_bit al (- 1)))
                            (pcheck (\<lambda>_. num < 64)))
                    else pret ())
                  (AC_refine_loop tbl se al p (if unat (rs AND 15) \<noteq> 0 then num + 1 else num) (k + n + 1)))))
     else pret (k, 0))"
  by (rule ext) (subst AC_refine_loop.simps, simp add: Let_def pret_def)

lemma keeps_AC_refine_loop [keeping]:
  assumes "aside f"
  shows "untouched f (AC_refine_loop tbl se al p num k)"
proof (induction "Suc se - k" arbitrary: num k rule: less_induct)
  case less
  then show ?case
    by (subst AC_refine_loop_eq) (use assms in \<open>auto intro!: keeping\<close>)
qed

lemma keeps_AC_refine [keeping]: "aside f \<Longrightarrow> untouched f (decode_mcu_AC_refine M)"
  unfolding decode_mcu_AC_refine_def refine_rest_def by (auto intro!: keeping simp: case_prod_beta)

lemma keeps_call [keeping]: "aside f \<Longrightarrow> untouched f (call_decode_mcu t M)"
  by (cases t) (auto simp: call_decode_mcu_def intro!: keeping)

lemma keeps_pmod_blocks [keeping]: "aside f \<Longrightarrow> untouched f (pmod (\<lambda>s. s\<lparr>blocks := g s\<rparr>))"
  by (simp add: untouched_def pmod_def aside_def)

lemma keeps_place [keeping]: "aside f \<Longrightarrow> untouched f (place_components yo xo cis b)"
proof (induction cis arbitrary: b)
  case (Cons ci cis)
  have "untouched f (the_component ci)" unfolding the_component_def by (intro keeping)
  then have "untouched f (place_blocks yo xo ci b)" for b
    unfolding place_blocks_def Let_def using Cons.prems by (auto intro!: keeping)
  with Cons show ?case by (auto intro!: keeping)
qed (simp add: keeping)

lemma keeps_decode_unit [keeping]: "aside f \<Longrightarrow> untouched f (decode_unit i yo xo)"
  unfolding decode_unit_def by (auto intro!: keeping)

subsection \<open>Wide pictures\<close>

text \<open>A row of more than 255 units is never finished.  The counter of the units in a row has eight bits, so for a
  row of 256 units or more (a picture of 4096 columns at 4:2:0) the loop over the row never ends with
  success: it ends when a unit fails, or not at all.\<close>

theorem wide_row_never_ends:
  assumes "256 \<le> unat (MCU_per_row s)"
  shows "unit_loop i yoffset x s \<noteq> Some (JOk () s')"
proof -
  have "256 \<le> unat (MCU_per_row s) \<longrightarrow> (\<forall>s'. r \<noteq> JOk () s')" if "unit_loop i yoffset x s = Some r" for r
    using that
  proof (rule unit_loop.raw_induct [rotated])
    fix loop :: "nat \<Rightarrow> nat \<Rightarrow> u8 \<Rightarrow> unit pd" and i yoffset x s r
    assume ih: "\<And>i yoffset x s r. loop i yoffset x s = Some r \<Longrightarrow> 256 \<le> unat (MCU_per_row s) \<longrightarrow> (\<forall>s'. r \<noteq> JOk () s')"
      and run: "(if unat x < unat (MCU_per_row s)
        then case decode_unit i yoffset (unat x) s of None \<Rightarrow> None
          | Some (JOk _ s') \<Rightarrow> loop i yoffset (x + 1) s'
          | Some (JFail s') \<Rightarrow> Some (JFail s') | Some JFault \<Rightarrow> Some JFault
        else Some (JOk () s)) = Some r"
    show "256 \<le> unat (MCU_per_row s) \<longrightarrow> (\<forall>s'. r \<noteq> JOk () s')"
    proof
      assume wide: "256 \<le> unat (MCU_per_row s)"
      moreover have "unat x < 256" by (rule unat_u8_less)
      ultimately have "unat x < unat (MCU_per_row s)" by (rule order.strict_trans2 [rotated])
      with run have "(case decode_unit i yoffset (unat x) s of None \<Rightarrow> None
          | Some (JOk _ s') \<Rightarrow> loop i yoffset (x + 1) s'
          | Some (JFail s') \<Rightarrow> Some (JFail s') | Some JFault \<Rightarrow> Some JFault) = Some r" by simp
      moreover have "MCU_per_row s' = MCU_per_row s" if "decode_unit i yoffset (unat x) s = Some (JOk u s')" for u s'
        using keeps_decode_unit [of MCU_per_row i yoffset "unat x"] that by (simp add: aside_def untouched_def)
      ultimately show "\<forall>s'. r \<noteq> JOk () s'"
        using ih wide by (auto split: option.splits jres.splits)
    qed
  qed
  with assms show ?thesis by blast
qed

theorem wide_row_never_ends_witness:
  "unit_loop 0 0 0 ((sample_prog [] 0 0 0 [])\<lparr>MCU_per_row := 256\<rparr>) \<noteq> Some (JOk () (sample_prog [] 0 0 0 []))"
  by (rule wide_row_never_ends) simp

subsection \<open>Where the blocks of a unit are\<close>

text \<open>The components of the current scan, when it holds all three at 4:2:0.\<close>

definition scan_420 :: "prog \<Rightarrow> bool" where
  "scan_420 s \<longleftrightarrow> (\<exists>cy cu cv. (\<forall>b. the_component 0 (s\<lparr>blocks := b\<rparr>) = Some (JOk cy (s\<lparr>blocks := b\<rparr>))
       \<and> the_component 1 (s\<lparr>blocks := b\<rparr>) = Some (JOk cu (s\<lparr>blocks := b\<rparr>))
       \<and> the_component 2 (s\<lparr>blocks := b\<rparr>) = Some (JOk cv (s\<lparr>blocks := b\<rparr>)))
     \<and> map component_id [cy, cu, cv] = [1, 2, 3] \<and> map h_samp_factor [cy, cu, cv] = [2, 1, 1]
     \<and> map MCU_width [cy, cu, cv] = [2, 1, 1] \<and> map MCU_height [cy, cu, cv] = [2, 1, 1])"

lemma sint_coef: "k < 2 ^ 15 \<Longrightarrow> sint (of_nat k :: coef) = int k"
  using sint_small [of "int k"] by simp

lemma place_block_ok:
  assumes "the_component ci s = Some (JOk c s)" "component_blocks (pcodec s) yo xo c = map (\<lambda>p. (fst p, int (snd p))) ps"
    and "block_id + length ps \<le> length (blocks s)" "component_id c \<noteq> 0" "unat (component_id c) - 1 < length (block_line s)"
  shows "place_blocks yo xo ci block_id s = Some (JOk (block_id + length ps)
    (s\<lparr>blocks := take block_id (blocks s) @ map Some ps @ drop (block_id + length ps) (blocks s)\<rparr>))"
  using assms
  by (simp add: place_blocks_def pbind_cases(1) [where m = "the_component ci"] pbind_pget Let_def)
    (simp add: pstmt list_all_iff comp_def)

text \<open>C12: the output reads the blocks that were decoded.  In a scan of all three components at 4:2:0 the six block
  pointers of the unit \<open>x\<close> are set to exactly the blocks from which the output later makes the samples of
  this unit, for every unit of a row of up to 255 units.\<close>

theorem unit_blocks_reach_output:
  assumes "scan_420 s" "length (blocks s) = 6" "length (block_line s) = 3" "x < unat (mcu_num_x (pcodec s))"
    and "unat (mcu_num_x (pcodec s)) < 256" "ratio (pcodec s) \<noteq> []" "h_ratio (ratio (pcodec s) ! 0) = 2" "v_ratio (ratio (pcodec s) ! 0) = 2"
  shows "place_components 0 x [0, 1, 2] 0 s = Some (JOk 6 (s\<lparr>blocks := map (output_block (pcodec s) 4 x) [0..<6]\<rparr>))"
proof -
  let ?j = "pcodec s" and ?n = "unat (mcu_num_x (pcodec s))"
  obtain cy cu cv where comp: "\<And>b. the_component 0 (s\<lparr>blocks := b\<rparr>) = Some (JOk cy (s\<lparr>blocks := b\<rparr>))"
      "\<And>b. the_component 1 (s\<lparr>blocks := b\<rparr>) = Some (JOk cu (s\<lparr>blocks := b\<rparr>))"
      "\<And>b. the_component 2 (s\<lparr>blocks := b\<rparr>) = Some (JOk cv (s\<lparr>blocks := b\<rparr>))"
    and cs: "component_id cy = 1" "component_id cu = 2" "component_id cv = 3"
      "h_samp_factor cy = 2" "h_samp_factor cu = 1" "h_samp_factor cv = 1"
      "MCU_width cy = 2" "MCU_width cu = 1" "MCU_width cv = 1"
      "MCU_height cy = 2" "MCU_height cu = 1" "MCU_height cv = 1"
    using assms(1) by (auto simp: scan_420_def)
  have small: "x < 255" "?n < 256" using assms(4,5) by simp_all
  have w: "sint (of_nat x * 2 :: coef) = int x * 2" "sint (of_nat x :: coef) = int x"
    using small sint_small [of "int x * 2"] sint_small [of "int x"] by simp_all
  have r: "sint (of_nat (?n * 2 * 64) :: coef) = int (?n * 2 * 64)" using small by (intro sint_coef) simp
  have y: "component_blocks ?j 0 x cy = map (\<lambda>p. (fst p, int (snd p)))
      [(0, (x * 2) * 64), (0, (x * 2 + 1) * 64), (0, (?n + x) * 2 * 64), (0, ((?n + x) * 2 + 1) * 64)]"
    using w r by (simp add: component_blocks_def cs Let_def upt_rec algebra_simps del: of_nat_mult)
  have u: "component_blocks ?j 0 x cu = map (\<lambda>p. (fst p, int (snd p))) [(1, x * 64)]"
    "component_blocks ?j 0 x cv = map (\<lambda>p. (fst p, int (snd p))) [(2, x * 64)]"
    using w by (simp_all add: component_blocks_def cs Let_def)
  have six: "[0..<6] = [0, 1, 2, 3, 4, 5 :: nat]" by (simp add: upt_rec)
  have target: "map (output_block ?j 4 x) [0..<6] = [Some (0, (x * 2) * 64), Some (0, (x * 2 + 1) * 64),
      Some (0, (?n + x) * 2 * 64), Some (0, ((?n + x) * 2 + 1) * 64), Some (1, x * 64), Some (2, x * 64)]"
    unfolding six using assms(6-8) by (simp add: output_block_def Let_def)
  have "s\<lparr>blocks := blocks s\<rparr> = s" by simp
  then have c0: "the_component 0 s = Some (JOk cy s)" using comp(1) [of "blocks s"] by simp
  let ?b1 = "[Some (0, (x * 2) * 64), Some (0, (x * 2 + 1) * 64), Some (0, (?n + x) * 2 * 64), Some (0, ((?n + x) * 2 + 1) * 64)]
      @ drop 4 (blocks s)"
  have suc: "Suc (Suc (Suc (Suc 0))) = 4" "Suc 4 = 5" "Suc 5 = 6" by simp_all
  have p0: "place_blocks 0 x 0 0 s = Some (JOk 4 (s\<lparr>blocks := ?b1\<rparr>))"
    by (rule trans [OF place_block_ok [OF c0 y]]) (use assms(2,3) cs in \<open>simp_all add: suc\<close>)
  let ?b2 = "take 4 ?b1 @ [Some (1, x * 64)] @ drop 5 (blocks s)"
  have p1: "place_blocks 0 x 1 4 (s\<lparr>blocks := ?b1\<rparr>) = Some (JOk 5 (s\<lparr>blocks := ?b2\<rparr>))"
    by (rule trans [OF place_block_ok [OF comp(2), where ps = "[(1, x * 64)]"]]) (use assms(2,3) cs u(1) in \<open>simp_all add: suc\<close>)
  have p2: "place_blocks 0 x 2 5 (s\<lparr>blocks := ?b2\<rparr>) = Some (JOk 6 (s\<lparr>blocks := take 5 ?b2 @ [Some (2, x * 64)]\<rparr>))"
    by (rule trans [OF place_block_ok [OF comp(3), where ps = "[(2, x * 64)]"]]) (use assms(2,3) cs u(2) in \<open>simp_all add: suc\<close>)
  show ?thesis
    unfolding target using p0 p1 p2 by (simp add: pbind_def pret_def)
qed

definition sample_420 :: prog where
  "sample_420 = (sample_prog [] 0 0 0 (replicate 768 0))\<lparr>pcodec := zero_codec\<lparr>ratio := [\<lparr>h_ratio = 2, v_ratio = 2\<rparr>], mcu_num_x := 3\<rparr>,
     buf_storage := [(sample_sos sample_entropy)\<lparr>sos_comp_info :=
       map (\<lambda>(i, n). component.extend \<lparr>component_id = i, component_index = 0, h_samp_factor = n, v_samp_factor = n,
              MCU_width = ucast n, MCU_height = ucast n\<rparr> \<lparr>dc_tbl_no = 0, ac_tbl_no = 0\<rparr>) [(1, 2), (2, 1), (3, 1)]\<rparr>]\<rparr>"

theorem unit_blocks_reach_output_witness:
  "place_components 0 2 [0, 1, 2] 0 sample_420 = Some (JOk 6 (sample_420\<lparr>blocks :=
     [Some (0, 256), Some (0, 320), Some (0, 640), Some (0, 704), Some (1, 128), Some (2, 128)]\<rparr>))"
proof -
  have "scan_420 sample_420"
    by (simp add: scan_420_def the_component_def pstmt elem_def deref_def sample_420_def sample_prog_def component.extend_def)
  then have "place_components 0 2 [0, 1, 2] 0 sample_420
      = Some (JOk 6 (sample_420\<lparr>blocks := map (output_block (pcodec sample_420) 4 2) [0..<6]\<rparr>))"
    by (intro unit_blocks_reach_output) (simp_all add: sample_420_def sample_prog_def)
  then show ?thesis by (simp add: output_block_def sample_420_def sample_prog_def Let_def upt_rec)
qed

subsection \<open>Samples into the frame\<close>

lemma store_all_ok:
  assumes "\<forall>p \<in> set xs. fst p < length dest" "distinct (map fst xs)"
  shows "\<exists>dest'. store_all xs dest = Some dest' \<and> length dest' = length dest
    \<and> (\<forall>p \<in> set xs. dest' ! fst p = snd p) \<and> (\<forall>k. k \<notin> fst ` set xs \<longrightarrow> dest' ! k = dest ! k)"
  using assms
proof (induction xs arbitrary: dest)
  case (Cons p xs)
  obtain i v where p: "p = (i, v)" by fastforce
  from Cons.IH [of "dest[i := v]"] Cons.prems obtain dest' where d: "store_all xs (dest[i := v]) = Some dest'"
    "length dest' = length dest" "\<forall>p \<in> set xs. dest' ! fst p = snd p" "\<forall>k. k \<notin> fst ` set xs \<longrightarrow> dest' ! k = dest[i := v] ! k"
    by (auto simp: p)
  moreover have "i < length dest" "i \<notin> fst ` set xs" using Cons.prems by (auto simp: p)
  ultimately show ?case by (auto simp: p)
qed simp

lemma place_div: "C < w \<Longrightarrow> (w * R + C) div w = (R :: nat)"
  by (simp add: div_mult_self3)

lemma place_inj:
  assumes "w * R + C = w * R' + C'" "C < w" "C' < (w :: nat)"
  shows "R = R' \<and> C = C'"
proof -
  have "R = R'" using place_div [OF assms(2), of R] place_div [OF assms(3), of R'] assms(1) by presburger
  with assms(1) show ?thesis by simp
qed

text \<open>A copied block, by row and column of the plane.\<close>

lemma copy_block_at:
  assumes "C0 + dstep * cols < w + dstep" "0 < dstep" "w * (R0 + rows) \<le> length dest"
    and "\<forall>i < rows. \<forall>j < cols. i * pitch + step * j < length src"
  shows "\<exists>dest'. copy_block (w * R0 + C0) w rows cols dstep pitch step src dest = Some dest' \<and> length dest' = length dest
    \<and> (\<forall>R C. C < w \<longrightarrow> dest' ! (w * R + C) =
         (if R0 \<le> R \<and> R < R0 + rows \<and> C0 \<le> C \<and> C < C0 + dstep * cols \<and> dstep dvd C - C0
          then src ! ((R - R0) * pitch + step * ((C - C0) div dstep)) else dest ! (w * R + C)))"
proof -
  let ?f = "\<lambda>(i, j). (w * R0 + C0 + i * w + dstep * j, src ! (i * pitch + step * j))"
  let ?xs = "map ?f (List.product [0..<rows] [0..<cols])"
  have xs: "concat (map (\<lambda>i. map (\<lambda>j. (w * R0 + C0 + i * w + dstep * j, src ! (i * pitch + step * j))) [0..<cols]) [0..<rows]) = ?xs"
    by (simp add: product_concat_map map_concat comp_def)
  have col: "C0 + dstep * j < w" if "j < cols" for j
  proof -
    have "dstep * (j + 1) \<le> dstep * cols" using that by (intro mult_le_mono2) simp
    then have "dstep * j + dstep \<le> dstep * cols" by simp
    with assms(1) show ?thesis by linarith
  qed
  have addr: "w * R0 + C0 + i * w + dstep * j = w * (R0 + i) + (C0 + dstep * j)" for i j by (simp add: algebra_simps)
  have inj: "inj_on (\<lambda>(i, j). w * R0 + C0 + i * w + dstep * j) ({0..<rows} \<times> {0..<cols})"
  proof (rule inj_onI, clarsimp simp only: mem_Sigma_iff atLeastLessThan_iff prod.case addr)
    fix i j i' j'
    assume "j < cols" "j' < cols" and e: "w * (R0 + i) + (C0 + dstep * j) = w * (R0 + i') + (C0 + dstep * j')"
    with place_inj [OF e col col] assms(2) show "i = i' \<and> j = j'" by simp
  qed
  have "distinct (map fst ?xs)"
    using inj by (simp add: distinct_map comp_def case_prod_unfold distinct_product)
  moreover have "\<forall>p \<in> set ?xs. fst p < length dest"
  proof clarsimp
    fix i j assume "i < rows" "j < cols"
    then have "w * (R0 + i) + (C0 + dstep * j) < w * (R0 + i) + w" "R0 + i + 1 \<le> R0 + rows"
      using col by simp_all
    moreover from this(2) have "w * (R0 + i + 1) \<le> w * (R0 + rows)" by (rule mult_le_mono2)
    ultimately have "w * (R0 + i) + (C0 + dstep * j) < length dest" using assms(3) by simp
    then show "w * R0 + C0 + i * w + dstep * j < length dest" by (simp only: addr)
  qed
  ultimately obtain dest' where d: "store_all ?xs dest = Some dest'" "length dest' = length dest"
    "\<forall>p \<in> set ?xs. dest' ! fst p = snd p" "\<forall>k. k \<notin> fst ` set ?xs \<longrightarrow> dest' ! k = dest ! k"
    using store_all_ok by blast
  have "dest' ! (w * R + C) = (if R0 \<le> R \<and> R < R0 + rows \<and> C0 \<le> C \<and> C < C0 + dstep * cols \<and> dstep dvd C - C0
          then src ! ((R - R0) * pitch + step * ((C - C0) div dstep)) else dest ! (w * R + C))" if C: "C < w" for R C
  proof (cases "R0 \<le> R \<and> R < R0 + rows \<and> C0 \<le> C \<and> C < C0 + dstep * cols \<and> dstep dvd C - C0")
    case True
    define i j where "i = R - R0" and "j = (C - C0) div dstep"
    have C': "C = C0 + dstep * j" and R': "R = R0 + i" using True by (auto simp: i_def j_def)
    have ij: "i < rows" "j < cols" using True assms(2) unfolding R' C' by simp_all
    then have "(w * R0 + C0 + i * w + dstep * j, src ! (i * pitch + step * j)) \<in> set ?xs" by force
    from d(3) [rule_format, OF this] have "dest' ! (w * R0 + C0 + i * w + dstep * j) = src ! (i * pitch + step * j)" by simp
    then have "dest' ! (w * R + C) = src ! (i * pitch + step * j)" by (simp only: addr C' R')
    with True show ?thesis by (simp add: i_def j_def)
  next
    case False
    have "w * R + C \<notin> fst ` set ?xs"
    proof clarsimp
      fix i j assume ij: "i < rows" "j < cols" and e: "w * R + C = w * R0 + C0 + i * w + dstep * j"
      then have "w * R + C = w * (R0 + i) + (C0 + dstep * j)" using addr by simp
      from place_inj [OF this C col [OF ij(2)]] ij False assms(2) show False by auto
    qed
    with d(4) False show ?thesis by auto
  qed
  with d assms(4) show ?thesis unfolding copy_block_def xs by auto
qed

lemma out_luma_at:
  assumes "unat (out_width (pcodec (sw_prog d))) = w" "C0 + 8 \<le> w" "w * (R0 + 8) \<le> length (y_coeff d)"
    and "b < length (org_blocks d)" "64 \<le> length (org_blocks d ! b)"
  shows "\<exists>p. out_luma (w * R0 + C0) 8 b d = Some (d\<lparr>y_coeff := p\<rparr>) \<and> length p = length (y_coeff d)
    \<and> (\<forall>R C. C < w \<longrightarrow> p ! (w * R + C) = (if R0 \<le> R \<and> R < R0 + 8 \<and> C0 \<le> C \<and> C < C0 + 8
         then org_blocks d ! b ! ((R - R0) * 8 + (C - C0)) else y_coeff d ! (w * R + C)))"
proof -
  have "\<forall>i < 8. \<forall>j < 8. i * 8 + 1 * j < length (org_blocks d ! b)" using assms(5) by auto
  from copy_block_at [of C0 1 8 w R0 8 "y_coeff d", OF _ _ _ this] assms
  obtain p where "copy_block (w * R0 + C0) w 8 8 1 8 1 (org_blocks d ! b) (y_coeff d) = Some p" "length p = length (y_coeff d)"
    "\<forall>R C. C < w \<longrightarrow> p ! (w * R + C) = (if R0 \<le> R \<and> R < R0 + 8 \<and> C0 \<le> C \<and> C < C0 + 8
         then org_blocks d ! b ! ((R - R0) * 8 + (C - C0)) else y_coeff d ! (w * R + C))"
    by auto
  with assms show ?thesis by (auto simp: out_luma_def)
qed

lemma out_chroma_at:
  assumes "unat (out_width (pcodec (sw_prog d))) = w" "C0 + 16 \<le> w" "w * (R0 + 8) \<le> length (uv_coeff d)"
    and "b < length (org_blocks d)" "64 \<le> length (org_blocks d ! b)" "b' < length (org_blocks d)" "64 \<le> length (org_blocks d ! b')"
  shows "\<exists>p. out_chroma (w * R0 + C0) 8 8 1 b b' d = Some (d\<lparr>uv_coeff := p\<rparr>)
    \<and> (\<forall>R C. C < w \<longrightarrow> p ! (w * R + C) = (if R0 \<le> R \<and> R < R0 + 8 \<and> C0 \<le> C \<and> C < C0 + 16
         then org_blocks d ! (if even (C - C0) then b else b') ! ((R - R0) * 8 + (C - C0) div 2) else uv_coeff d ! (w * R + C)))"
proof -
  have fits: "\<forall>i < 8. \<forall>j < 8. i * 8 + 1 * j < length (org_blocks d ! b)" "\<forall>i < 8. \<forall>j < 8. i * 8 + 1 * j < length (org_blocks d ! b')"
    using assms(5,7) by auto
  from copy_block_at [of C0 2 8 w R0 8 "uv_coeff d", OF _ _ _ fits(1)] assms
  obtain q where q: "copy_block (w * R0 + C0) w 8 8 2 8 1 (org_blocks d ! b) (uv_coeff d) = Some q" "length q = length (uv_coeff d)"
    "\<And>R C. C < w \<Longrightarrow> q ! (w * R + C) = (if R0 \<le> R \<and> R < R0 + 8 \<and> C0 \<le> C \<and> C < C0 + 16 \<and> 2 dvd C - C0
         then org_blocks d ! b ! ((R - R0) * 8 + (C - C0) div 2) else uv_coeff d ! (w * R + C))"
    by (auto cong: if_cong)
  from copy_block_at [of "C0 + 1" 2 8 w R0 8 q, OF _ _ _ fits(2)] assms q(2)
  obtain r where r: "copy_block (w * R0 + C0 + 1) w 8 8 2 8 1 (org_blocks d ! b') q = Some r"
    "\<And>R C. C < w \<Longrightarrow> r ! (w * R + C) = (if R0 \<le> R \<and> R < R0 + 8 \<and> C0 + 1 \<le> C \<and> C < C0 + 1 + 8 * 2 \<and> 2 dvd C - (C0 + 1)
         then org_blocks d ! b' ! ((R - R0) * 8 + (C - (C0 + 1)) div 2) else q ! (w * R + C))"
    by (auto cong: if_cong)
  have odd: "2 dvd C - (C0 + 1) \<longleftrightarrow> odd (C - C0)" "odd (C - C0) \<Longrightarrow> (C - (C0 + 1)) div 2 = (C - C0) div 2" if "C0 < C" for C
    using that by presburger+
  have "r ! (w * R + C) = (if R0 \<le> R \<and> R < R0 + 8 \<and> C0 \<le> C \<and> C < C0 + 16
         then org_blocks d ! (if even (C - C0) then b else b') ! ((R - R0) * 8 + (C - C0) div 2) else uv_coeff d ! (w * R + C))"
    if C: "C < w" for R C
  proof (cases "C0 < C")
    case True
    then have "odd (C - C0) \<Longrightarrow> C \<noteq> C0 + 16" by auto
    with True show ?thesis unfolding r(2) [OF C] q(3) [OF C] odd(1) [OF True] using odd(2) [OF True] by auto
  next
    case False
    then show ?thesis unfolding r(2) [OF C] q(3) [OF C] by auto
  qed
  with q(1) r(1) assms show ?thesis by (auto simp: out_chroma_def)
qed

lemma plane_start_of_nat:
  "a < 65536 \<Longrightarrow> b < 65536 \<Longrightarrow> plane_start w (of_nat a) (of_nat b) = w * a + b"
  by (simp add: plane_start_def unat_of_nat take_bit_nat_eq_self)

lemma OutMCU420_steps:
  assumes "w = unat (out_width (pcodec (sw_prog d)))" "16 * (x + 1) \<le> 65536" "16 * (y + 1) \<le> 65536"
  shows "JPEGFW_OutMCU420 (of_nat x) (of_nat y) 0 d =
    (case out_luma (w * (16 * y) + 16 * x) 8 0 d of None \<Rightarrow> None | Some d1 \<Rightarrow>
     case out_luma (w * (16 * y) + (16 * x + 8)) 8 1 d1 of None \<Rightarrow> None | Some d2 \<Rightarrow>
     case out_luma (w * (16 * y + 8) + 16 * x) 8 2 d2 of None \<Rightarrow> None | Some d3 \<Rightarrow>
     case out_luma (w * (16 * y + 8) + (16 * x + 8)) 8 3 d3 of None \<Rightarrow> None | Some d4 \<Rightarrow>
       out_chroma (w * (8 * y) + 16 * x) 8 8 1 4 5 d4)"
proof -
  have "plane_start w (of_nat y * of_nat 16 + of_nat (b div 2 * 8)) (of_nat x * of_nat 16 + of_nat (b mod 2 * 8))
      = w * (16 * y + b div 2 * 8) + (16 * x + b mod 2 * 8)" if "b < 4" for b
  proof -
    have "b div 2 \<le> 1" "b mod 2 \<le> 1" using that by auto
    then have "plane_start w (of_nat (y * 16 + b div 2 * 8)) (of_nat (x * 16 + b mod 2 * 8))
      = w * (y * 16 + b div 2 * 8) + (x * 16 + b mod 2 * 8)" using assms(2,3) by (intro plane_start_of_nat) auto
    then show ?thesis by (simp only: of_nat_add of_nat_mult mult.commute)
  qed
  from this [of 0] this [of 1] this [of 2] this [of 3]
  have luma: "plane_start w (of_nat y * 16) (of_nat x * 16) = w * (16 * y) + 16 * x"
    "plane_start w (of_nat y * 16) (of_nat x * 16 + 8) = w * (16 * y) + (16 * x + 8)"
    "plane_start w (of_nat y * 16 + 8) (of_nat x * 16) = w * (16 * y + 8) + 16 * x"
    "plane_start w (of_nat y * 16 + 8) (of_nat x * 16 + 8) = w * (16 * y + 8) + (16 * x + 8)" by simp_all
  have "plane_start w (of_nat (y * 8)) (of_nat (x * 16)) = w * (y * 8) + x * 16"
    using assms(2,3) by (intro plane_start_of_nat) auto
  then have chroma: "plane_start w (of_nat y * 8) (of_nat x * 16) = w * (8 * y) + 16 * x"
    by (simp add: mult.commute)
  show ?thesis
    by (simp add: JPEGFW_OutMCU420_def Let_def luma chroma flip: assms(1) split: option.split)
qed

lemma quarter:
  assumes "A \<le> (R :: nat)" "R < A + 16"
  shows "(R - A) div 8 = (if R < A + 8 then 0 else 1)" "(R - A) mod 8 = (if R < A + 8 then R - A else R - (A + 8))"
proof -
  define k where "k = R - A"
  have k: "R = A + k" "k < 16" using assms by (simp_all add: k_def)
  show "(R - A) div 8 = (if R < A + 8 then 0 else 1)" "(R - A) mod 8 = (if R < A + 8 then R - A else R - (A + 8))"
    using k by (auto simp: le_div_geq le_mod_geq)
qed

text \<open>
  C11: The samples of a 4:2:0 unit go where they belong: the four luma blocks side by side and below one another into the
  16 by 16 square of the unit in the luma plane, and the two chroma blocks, U and V in turn, into the 8 rows of 16 places of the
  unit in the chroma plane.  Every other sample of the frame stays as it was, and no write leaves the planes when they hold
  the rows of the unit.
\<close>

theorem OutMCU420_places_samples:
  assumes "w = unat (out_width (pcodec (sw_prog d)))" "16 * (x + 1) \<le> w" "16 * (x + 1) \<le> 65536" "16 * (y + 1) \<le> 65536"
    and "w * (16 * y + 16) \<le> length (y_coeff d)" "w * (8 * y + 8) \<le> length (uv_coeff d)"
    and "6 \<le> length (org_blocks d)" "\<forall>b < 6. 64 \<le> length (org_blocks d ! b)"
  shows "\<exists>p q. JPEGFW_OutMCU420 (of_nat x) (of_nat y) 0 d = Some (d\<lparr>y_coeff := p, uv_coeff := q\<rparr>)
    \<and> (\<forall>R C. C < w \<longrightarrow> p ! (w * R + C) =
        (if 16 * y \<le> R \<and> R < 16 * y + 16 \<and> 16 * x \<le> C \<and> C < 16 * x + 16
         then org_blocks d ! (2 * ((R - 16 * y) div 8) + (C - 16 * x) div 8) ! ((R - 16 * y) mod 8 * 8 + (C - 16 * x) mod 8)
         else y_coeff d ! (w * R + C)))
    \<and> (\<forall>R C. C < w \<longrightarrow> q ! (w * R + C) =
        (if 8 * y \<le> R \<and> R < 8 * y + 8 \<and> 16 * x \<le> C \<and> C < 16 * x + 16
         then org_blocks d ! (if even (C - 16 * x) then 4 else 5) ! ((R - 8 * y) * 8 + (C - 16 * x) div 2)
         else uv_coeff d ! (w * R + C)))"
proof -
  have top: "w * (16 * y + 8) \<le> length (y_coeff d)" by (rule le_trans [OF mult_le_mono2 assms(5)]) simp
  have full: "w * (16 + 16 * y) \<le> length (y_coeff d)" using assms(5) by (simp only: add.commute)
  have ne: "org_blocks d \<noteq> []" using assms(7) by auto
  let ?sq = "\<lambda>R0 C0 R C. R0 \<le> R \<and> R < R0 + 8 \<and> C0 \<le> C \<and> C < C0 + (8 :: nat)"
  from out_luma_at [of d w "16 * x" "16 * y" 0] assms top ne
  obtain p1 where p1: "out_luma (w * (16 * y) + 16 * x) 8 0 d = Some (d\<lparr>y_coeff := p1\<rparr>)" "length p1 = length (y_coeff d)"
    "\<And>R C. C < w \<Longrightarrow> p1 ! (w * R + C) = (if ?sq (16 * y) (16 * x) R C
      then org_blocks d ! 0 ! ((R - 16 * y) * 8 + (C - 16 * x)) else y_coeff d ! (w * R + C))" by (auto cong: if_cong)
  from out_luma_at [of "d\<lparr>y_coeff := p1\<rparr>" w "16 * x + 8" "16 * y" 1] assms top p1(2)
  obtain p2 where p2: "out_luma (w * (16 * y) + (16 * x + 8)) 8 1 (d\<lparr>y_coeff := p1\<rparr>) = Some (d\<lparr>y_coeff := p2\<rparr>)"
    "length p2 = length (y_coeff d)"
    "\<And>R C. C < w \<Longrightarrow> p2 ! (w * R + C) = (if ?sq (16 * y) (16 * x + 8) R C
      then org_blocks d ! 1 ! ((R - 16 * y) * 8 + (C - (16 * x + 8))) else p1 ! (w * R + C))" by (auto cong: if_cong)
  from out_luma_at [of "d\<lparr>y_coeff := p2\<rparr>" w "16 * x" "16 * y + 8" 2] assms full p2(2)
  obtain p3 where p3: "out_luma (w * (16 * y + 8) + 16 * x) 8 2 (d\<lparr>y_coeff := p2\<rparr>) = Some (d\<lparr>y_coeff := p3\<rparr>)"
    "length p3 = length (y_coeff d)"
    "\<And>R C. C < w \<Longrightarrow> p3 ! (w * R + C) = (if ?sq (16 * y + 8) (16 * x) R C
      then org_blocks d ! 2 ! ((R - (16 * y + 8)) * 8 + (C - 16 * x)) else p2 ! (w * R + C))" by (auto cong: if_cong)
  from out_luma_at [of "d\<lparr>y_coeff := p3\<rparr>" w "16 * x + 8" "16 * y + 8" 3] assms full p3(2)
  obtain p4 where p4: "out_luma (w * (16 * y + 8) + (16 * x + 8)) 8 3 (d\<lparr>y_coeff := p3\<rparr>) = Some (d\<lparr>y_coeff := p4\<rparr>)"
    "\<And>R C. C < w \<Longrightarrow> p4 ! (w * R + C) = (if ?sq (16 * y + 8) (16 * x + 8) R C
      then org_blocks d ! 3 ! ((R - (16 * y + 8)) * 8 + (C - (16 * x + 8))) else p3 ! (w * R + C))" by (auto cong: if_cong)
  from out_chroma_at [of "d\<lparr>y_coeff := p4\<rparr>" w "16 * x" "8 * y" 4 5] assms
  obtain q where q: "out_chroma (w * (8 * y) + 16 * x) 8 8 1 4 5 (d\<lparr>y_coeff := p4\<rparr>) = Some (d\<lparr>y_coeff := p4, uv_coeff := q\<rparr>)"
    "\<forall>R C. C < w \<longrightarrow> q ! (w * R + C) = (if 8 * y \<le> R \<and> R < 8 * y + 8 \<and> 16 * x \<le> C \<and> C < 16 * x + 16
         then org_blocks d ! (if even (C - 16 * x) then 4 else 5) ! ((R - 8 * y) * 8 + (C - 16 * x) div 2)
         else uv_coeff d ! (w * R + C))" by (auto cong: if_cong)
  have "p4 ! (w * R + C) =
        (if 16 * y \<le> R \<and> R < 16 * y + 16 \<and> 16 * x \<le> C \<and> C < 16 * x + 16
         then org_blocks d ! (2 * ((R - 16 * y) div 8) + (C - 16 * x) div 8) ! ((R - 16 * y) mod 8 * 8 + (C - 16 * x) mod 8)
         else y_coeff d ! (w * R + C))" if C: "C < w" for R C
  proof (cases "16 * y \<le> R \<and> R < 16 * y + 16 \<and> 16 * x \<le> C \<and> C < 16 * x + 16")
    case True
    then show ?thesis
      by (simp add: p1(3) [OF C] p2(3) [OF C] p3(3) [OF C] p4(2) [OF C] quarter)
  next
    case False
    then show ?thesis by (auto simp: p1(3) [OF C] p2(3) [OF C] p3(3) [OF C] p4(2) [OF C])
  qed
  moreover have "JPEGFW_OutMCU420 (of_nat x) (of_nat y) 0 d = Some (d\<lparr>y_coeff := p4, uv_coeff := q\<rparr>)"
    unfolding OutMCU420_steps [OF assms(1,3,4)] p1(1) option.case p2(1) p3(1) p4(1) by (rule q(1))
  ultimately show ?thesis using q(2) by blast
qed

definition decoder_16 :: sw_decoder where
  "decoder_16 = \<lparr>sw_prog = sample_420\<lparr>pcodec := (pcodec sample_420)\<lparr>out_width := 16\<rparr>\<rparr>, sw_transform = Low_quality, quant_tbl_new = [],
     org_blocks = map (\<lambda>b. map (\<lambda>k. of_nat (64 * b + k)) [0..<64]) [0..<6], y_coeff = replicate 256 0, uv_coeff = replicate 128 0\<rparr>"

text \<open>Sample 3 of row 2 of luma block 3, and of the chroma block V.\<close>

theorem OutMCU420_places_samples_witness:
  "\<exists>p q. JPEGFW_OutMCU420 (of_nat 0) (of_nat 0) 0 decoder_16 = Some (decoder_16\<lparr>y_coeff := p, uv_coeff := q\<rparr>)
     \<and> p ! (16 * 10 + 11) = 211 \<and> q ! (16 * 2 + 7) = 83"
proof -
  have w: "16 = unat (out_width (pcodec (sw_prog decoder_16)))" by (simp add: decoder_16_def)
  have "\<forall>b < 6. 64 \<le> length (org_blocks decoder_16 ! b)" by (simp add: decoder_16_def)
  from OutMCU420_places_samples [OF w, of 0 0, OF _ _ _ _ _ _ this]
  obtain p q where d: "JPEGFW_OutMCU420 (of_nat 0) (of_nat 0) 0 decoder_16 = Some (decoder_16\<lparr>y_coeff := p, uv_coeff := q\<rparr>)"
    and p: "\<And>R C. C < 16 \<Longrightarrow> R < 16 \<Longrightarrow> p ! (16 * R + C) = org_blocks decoder_16 ! (2 * (R div 8) + C div 8) ! (R mod 8 * 8 + C mod 8)"
    and q: "\<And>R C. C < 16 \<Longrightarrow> R < 8 \<Longrightarrow> q ! (16 * R + C) = org_blocks decoder_16 ! (if even C then 4 else 5) ! (R * 8 + C div 2)"
    by (auto simp: decoder_16_def)
  from p [of 11 10] q [of 7 2] have "p ! (16 * 10 + 11) = 211" "q ! (16 * 2 + 7) = 83"
    by (simp_all add: decoder_16_def)
  with d show ?thesis by blast
qed

end
