(* ===== verification/ProgScan.thy ===== *)
theory ProgScan
  imports ProgFrame
begin

text \<open>
  The scans of a progressive picture, the first and the last part of \<^verbatim>\<open>jpegdec_pvld.c\<close>: the decoder runs over
  the whole stream once and notes for every scan where its data are, which coefficients it holds and which
  tables it uses; the tables of a later scan may stand between two scans.  The arena that the derived tables
  are allocated from is not cleared where it has been used before, so what the memory of table \<open>i\<close> of scan \<open>k\<close>
  holds is an argument, \<open>fresh k i\<close>.
\<close>

subsection \<open>Bytes of the stream\<close>

definition char_at :: "bytes \<Rightarrow> nat \<Rightarrow> (u8, 's) pm" where
  "char_at bs p = elem bs p"

definition word_at :: "bytes \<Rightarrow> nat \<Rightarrow> (u16, 's) pm" where
  "word_at bs p = pbind (char_at bs p) (\<lambda>ret1. pbind (char_at bs (p + 1)) (\<lambda>ret2. pret (mk16 ret1 ret2)))"

subsection \<open>Tables between the scans\<close>

text \<open>One table of the segment.  The pointers of the table are read before its number is checked, so a number
  that is too large is an access outside the array.\<close>

definition read_table :: "bytes \<Rightarrow> nat \<Rightarrow> (nat, jpeg_codec) pm" where
  "read_table bs p = pbind (char_at bs p) (\<lambda>tc.
     let ac = (tc AND 0x10 \<noteq> 0); index = unat (if ac then tc - 0x10 else tc) in
     pbind (pget (huff_tbls ac)) (\<lambda>tbls. pbind (elem tbls index) (\<lambda>h.
     if 4 \<le> index then pfail
     else pthen (pcheck (\<lambda>_. p + 17 \<le> length bs \<and> 17 \<le> length (hbits h)))
      (let bits = 0 # chunk (p + 1) 16 bs @ drop 17 (hbits h);
           count = sum_list (map unat (chunk (p + 1) 16 bs));
           put = (\<lambda>t j. if ac then j\<lparr>ac_huff_tbl := (ac_huff_tbl j)[index := t]\<rparr>
                        else j\<lparr>dc_huff_tbl := (dc_huff_tbl j)[index := t]\<rparr>) in
       pthen (pmod (put (h\<lparr>hbits := bits\<rparr>)))
      (if 256 < count then pfail
       else pthen (pcheck (\<lambda>_. p + 17 + count \<le> length bs \<and> count \<le> length (huffval h)))
           (pthen (pmod (put (h\<lparr>hbits := bits, huffval := chunk (p + 17) count bs @ drop count (huffval h)\<rparr>)))
            (pret (1 + 16 + count))))))))"

text \<open>The length is a 16-bit integer and the loop ends when it is 0: a segment whose tables do not fill it
  exactly makes it wrap.\<close>

partial_function (option) table_loop :: "bytes \<Rightarrow> nat \<Rightarrow> u16 \<Rightarrow> (unit, jpeg_codec) pm" where
  "table_loop bs p len j =
     (if 0 < len
      then (case read_table bs p j of
              None \<Rightarrow> None
            | Some (JOk n j') \<Rightarrow> table_loop bs (p + n) (len - of_nat n) j'
            | Some (JFail j') \<Rightarrow> Some (JFail j')
            | Some JFault \<Rightarrow> Some JFault)
      else Some (JOk () j))"

definition on_codec :: "('a, jpeg_codec) pm \<Rightarrow> 'a pd" where
  "on_codec m s = (case m (pcodec s) of
       None \<Rightarrow> None
     | Some (JOk a j) \<Rightarrow> Some (JOk a (s\<lparr>pcodec := j\<rparr>))
     | Some (JFail j) \<Rightarrow> Some (JFail (s\<lparr>pcodec := j\<rparr>))
     | Some JFault \<Rightarrow> Some JFault)"

definition get_huff_table :: "bytes \<Rightarrow> nat \<Rightarrow> unit pd" where
  "get_huff_table bs p = pbind (word_at bs p) (\<lambda>length. on_codec (table_loop bs (p + 2) (length - 2)))"

subsection \<open>The header of a scan\<close>

fun find_id :: "u8 \<Rightarrow> nat \<Rightarrow> nat list \<Rightarrow> unit pd" where
  "find_id cc i [] = pret ()"
| "find_id cc i (ci # cis) = pbind (pget pcodec) (\<lambda>j. pbind (elem (comp_info j) ci) (\<lambda>compptr.
     if cc = component_id compptr
     then pthen (pcheck (\<lambda>s. i < length (p_comp_id_map s)))
                (pmod (\<lambda>s. s\<lparr>p_comp_id_map := (p_comp_id_map s)[i := cc]\<rparr>))
     else find_id cc i cis))"

definition scan_component_ids :: "bytes \<Rightarrow> nat \<Rightarrow> nat \<Rightarrow> unit pd" where
  "scan_component_ids bs p i = pbind (char_at bs (p + 3 + 2 * i)) (\<lambda>cc. pbind (char_at bs (p + 4 + 2 * i)) (\<lambda>c.
     pthen (pcheck (\<lambda>s. i < length (tbl_map (pcodec s))))
    (pthen (pmod (\<lambda>s. let j = pcodec s in s\<lparr>pcodec := j\<lparr>tbl_map := (tbl_map j)[i := (tbl_map j ! i)
              \<lparr>dc_huff_tbl_id := drop_bit 4 c AND 0x0F, ac_huff_tbl_id := c AND 0x0F\<rparr>]\<rparr>\<rparr>))
           (pbind (pget pcodec) (\<lambda>j. find_id cc i [0..<unat (num_components j)])))))"

text \<open>The length also goes to the caller, who reads it here himself, see \<open>scan_header\<close>.\<close>

definition get_sos :: "bytes \<Rightarrow> nat \<Rightarrow> unit pd" where
  "get_sos bs p = pbind (word_at bs p) (\<lambda>scan_len. pbind (char_at bs (p + 2)) (\<lambda>n.
     if unat (scan_len - 3) \<noteq> unat n * 2 + 3 then pfail
     else pthen (pmod (\<lambda>s. s\<lparr>p_comps_in_scan := n\<rparr>))
    (pthen (pfor [0..<unat n] (scan_component_ids bs p))
    (let q = p + 3 + 2 * unat n in
     pbind (char_at bs q) (\<lambda>ss. pbind (char_at bs (q + 1)) (\<lambda>se. pbind (char_at bs (q + 2)) (\<lambda>c.
       pmod (\<lambda>s. s\<lparr>p_Ss := ucast ss, p_Se := ucast se, p_Ah := ucast (drop_bit 4 c AND 15), p_Al := ucast (c AND 15),
                  pcodec := (pcodec s)\<lparr>next_restart_num := 0\<rparr>,
                  p_input_scan_number := p_input_scan_number s + 1\<rparr>))))))))"

definition scan_header :: "bytes \<Rightarrow> nat \<Rightarrow> nat pd" where
  "scan_header bs p = pbind (word_at bs p) (\<lambda>scan_len. pthen (ignoring_result (get_sos bs p)) (pret (unat scan_len)))"

subsection \<open>The entry of a scan\<close>

definition mod_scan :: "nat \<Rightarrow> (sos \<Rightarrow> sos) \<Rightarrow> unit pd" where
  "mod_scan k f = pthen (pcheck (\<lambda>s. k < length (buf_storage s)))
     (pmod (\<lambda>s. s\<lparr>buf_storage := (buf_storage s)[k := f (buf_storage s ! k)]\<rparr>))"

definition build_vld_table :: "bool \<Rightarrow> nat \<Rightarrow> unit pd" where
  "build_vld_table is_dc tbl_no =
     pbind get_entropy (\<lambda>e. pbind (elem (vld_table e) tbl_no) (\<lambda>t.
     pbind (pget pcodec) (\<lambda>j. pbind (elem (huff_tbls (\<not> is_dc) j) tbl_no) (\<lambda>h.
       case derive_table (hbits h) (huffval h) t of
         None \<Rightarrow> pfault
       | Some t' \<Rightarrow> mod_entropy (\<lambda>e. e\<lparr>vld_table := (vld_table e)[tbl_no := t']\<rparr>)))))"

text \<open>The parameters that the standard excludes.\<close>

definition bad_scan :: "sos \<Rightarrow> bool" where
  "bad_scan sc \<longleftrightarrow>
     (if sos_Ss sc = 0 then sos_Se sc \<noteq> 0
      else sos_Se sc < sos_Ss sc \<or> 64 \<le> sos_Se sc \<or> sos_comps_in_scan sc \<noteq> 1)
     \<or> (sos_Ah sc \<noteq> 0 \<and> int (unat (sos_Al sc)) \<noteq> int (unat (sos_Ah sc)) - 1)
     \<or> 13 < sos_Al sc"

definition select_decoder :: "sos \<Rightarrow> mcu_decoder" where
  "select_decoder sc = (if sos_Ah sc = 0 then (if sos_Ss sc = 0 then DC_first else AC_first)
     else (if sos_Ss sc = 0 then DC_refine else AC_refine))"

definition entropy_component :: "sos \<Rightarrow> nat \<Rightarrow> unit pd" where
  "entropy_component sc ci = pbind (elem (sos_comp_info sc) ci) (\<lambda>compptr.
     pthen (if sos_Ss sc = 0
            then (if sos_Ah sc = 0 then build_vld_table True (unat (dc_tbl_no compptr)) else pret ())
            else pthen (build_vld_table False (unat (ac_tbl_no compptr)))
                       (mod_entropy (\<lambda>e. e\<lparr>ac_derived_tbl := Some (unat (ac_tbl_no compptr))\<rparr>)))
    (pbind get_entropy (\<lambda>e. pthen (pcheck (\<lambda>_. ci < length (last_dc_value e)))
       (mod_entropy (\<lambda>e. e\<lparr>last_dc_value := (last_dc_value e)[ci := 0]\<rparr>)))))"

definition init_scan_entropy_info :: "(nat \<Rightarrow> derived_tbl) \<Rightarrow> unit pd" where
  "init_scan_entropy_info fresh =
     pthen (mod_entropy (\<lambda>e. e\<lparr>vld_table := map fresh [0..<4]\<rparr>))
    (pbind (pget (\<lambda>s. buf_storage s ! unat (cur_scan s))) (\<lambda>sc.
       if bad_scan sc then pfail
       else pthen (mod_entropy (\<lambda>e. e\<lparr>decode_mcu := select_decoder sc\<rparr>))
                  (pfor [0..<unat (sos_comps_in_scan sc)] (entropy_component sc))))"

definition init_scan_bitstrm_info :: "nat \<Rightarrow> u32 \<Rightarrow> bit_buffer \<Rightarrow> bitstream_info" where
  "init_scan_bitstrm_info buf_addr buf_len b = \<lparr>src_pos = buf_addr, bytes_in_buf = buf_len, jstream_words = 0,
     jremain_bit_num = s_jremain_bit_num b\<rparr>"

text \<open>A component of the frame in a scan; a scan of one component is not interleaved, which changes the
  units at 4:2:0 only.\<close>

definition scan_unit :: "jpeg_codec \<Rightarrow> u8 \<Rightarrow> component \<Rightarrow> component" where
  "scan_unit j n c = (if n = 1
     then (if input_mcu_info j = ucast JPEG_FW_YUV420 then c\<lparr>MCU_width := 1, MCU_height := 1\<rparr>
           else c\<lparr>MCU_width := ucast (h_samp_factor c), MCU_height := ucast (v_samp_factor c)\<rparr>)
     else c)"

definition init_component :: "nat \<Rightarrow> u8 \<Rightarrow> nat \<Rightarrow> unit pd" where
  "init_component k n ci =
     pbind (pget p_comp_id_map) (\<lambda>ids. pbind (elem ids ci) (\<lambda>cid.
     pbind (pget pcodec) (\<lambda>j. pbind (if cid = 0 then pfault else elem (comp_info j) (unat cid - 1)) (\<lambda>c.
     pbind (elem (tbl_map j) ci) (\<lambda>t.
     pthen (pcheck (\<lambda>s. k < length (buf_storage s) \<and> ci < length (sos_comp_info (buf_storage s ! k))))
           (mod_scan k (\<lambda>sc. sc\<lparr>sos_comp_info := (sos_comp_info sc)[ci :=
              component.extend (scan_unit j n c) \<lparr>dc_tbl_no = dc_huff_tbl_id t, ac_tbl_no = ac_huff_tbl_id t\<rparr>]\<rparr>)))))))"

text \<open>The data of the scan begin at \<open>addr\<close>, and \<open>bs_len\<close> counts the marker's first byte; the result of the
  last call is not looked at.\<close>

definition init_one_scan :: "(nat \<Rightarrow> nat \<Rightarrow> derived_tbl) \<Rightarrow> nat \<Rightarrow> nat \<Rightarrow> nat \<Rightarrow> unit pd" where
  "init_one_scan fresh k addr bs_len =
     pthen (pmod (\<lambda>s. s\<lparr>cur_scan := of_nat k\<rparr>))
    (pbind (pget (\<lambda>s. s)) (\<lambda>s.
     pthen (mod_scan k (\<lambda>sc. sc\<lparr>address := init_scan_bitstrm_info addr (of_nat bs_len - 1) (pbits s),
              sos_Ss := p_Ss s, sos_Se := p_Se s, sos_Ah := p_Ah s, sos_Al := p_Al s,
              sos_comps_in_scan := p_comps_in_scan s\<rparr>))
    (pthen (pfor [0..<unat (p_comps_in_scan s)] (init_component k (p_comps_in_scan s)))
           (ignoring_result (init_scan_entropy_info (fresh k))))))"

subsection \<open>The run over the stream\<close>

text \<open>A recursive call may stand in the continuation of a statement.\<close>

lemma pbind_mono [partial_function_mono]:
  assumes "\<And>a s. mono_option (\<lambda>f. k f a s)"
  shows "mono_option (\<lambda>f. pbind m (\<lambda>a. k f a) s)"
proof (cases "m s")
  case (Some r)
  then show ?thesis using assms by (cases r) (simp_all add: pbind_def option.const_mono)
qed (simp add: pbind_def option.const_mono)

text \<open>A table segment before the header of the next scan; the value is the count and the place behind it.\<close>

definition table_segment :: "bytes \<Rightarrow> u8 \<Rightarrow> nat \<Rightarrow> nat \<Rightarrow> (nat \<times> nat) pd" where
  "table_segment bs c p n =
     (if c = M_DHT
      then pthen (ignoring_result (get_huff_table bs (p + 1)))
          (pbind (word_at bs (p + 1)) (\<lambda>dht_len. pret (n + unat dht_len + 2, p + unat dht_len + 2)))
      else pret (n, p))"

text \<open>The inner loop; its value is the place, the two counts and the number of the scan.  When the place is
  behind a byte 0xFF, \<open>m\<close> bytes of the scan have been read, that byte included.\<close>

partial_function (option) found_scans ::
  "(nat \<Rightarrow> nat \<Rightarrow> derived_tbl) \<Rightarrow> bytes \<Rightarrow> nat \<Rightarrow> nat \<Rightarrow> nat \<Rightarrow> nat \<Rightarrow> (nat \<times> nat \<times> nat \<times> nat) pd" where
  "found_scans fresh bs p m n k s =
     pbind (char_at bs p) (\<lambda>c.
     pbind (if c = 0xFF then char_at bs (p + 1) else pret 0) (\<lambda>c' s.
       if c = 0xFF \<and> (c' = M_DHT \<or> c' = M_SOS)
       then pbind (pthen (init_one_scan fresh k (p + 1 - m) m) (table_segment bs c' (p + 1) n)) (\<lambda>np.
            pbind (scan_header bs (snd np + 1)) (\<lambda>scan_len.
              found_scans fresh bs (snd np + scan_len) 0 (fst np) (k + 1))) s
       else pret (p + 1, m, n, k) s)) s"

text \<open>The end: the end marker, or as many bytes as the stream has.\<close>

definition at_end :: "bytes \<Rightarrow> int \<Rightarrow> nat \<Rightarrow> nat \<Rightarrow> bool pd" where
  "at_end bs stream_len p n = pbind (char_at bs (p - 1)) (\<lambda>c.
     pbind (if c = 0xFF then char_at bs p else pret 0) (\<lambda>c'.
       pret ((c = 0xFF \<and> c' = M_EOI) \<or> stream_len \<le> int n)))"

text \<open>The outer loop, whose value is the number of the last scan.\<close>

partial_function (option) entry_points ::
  "(nat \<Rightarrow> nat \<Rightarrow> derived_tbl) \<Rightarrow> bytes \<Rightarrow> int \<Rightarrow> nat \<Rightarrow> nat \<Rightarrow> nat \<Rightarrow> nat \<Rightarrow> nat pd" where
  "entry_points fresh bs stream_len p m n k s =
     pbind (found_scans fresh bs p (m + 1) (n + 1) k) (\<lambda>r.
     pbind (at_end bs stream_len (fst r) (fst (snd (snd r)))) (\<lambda>ended s.
       if ended
       then pthen (init_one_scan fresh (snd (snd (snd r))) (fst r - fst (snd r)) (fst (snd r))) (pret (snd (snd (snd r)))) s
       else entry_points fresh bs stream_len (fst r) (fst (snd r)) (fst (snd (snd r))) (snd (snd (snd r))) s)) s"

definition JPEG_Generate_Entry_Point_Map_Progressive :: "(nat \<Rightarrow> nat \<Rightarrow> derived_tbl) \<Rightarrow> int \<Rightarrow> unit pd" where
  "JPEG_Generate_Entry_Point_Map_Progressive fresh decoded_stream_len =
     pbind (pget (\<lambda>s. stream (pbits s))) (\<lambda>bs. pbind (entry_points fresh bs decoded_stream_len 0 0 0 0) (\<lambda>k.
       pmod (\<lambda>s. s\<lparr>p_input_scan_number := of_nat (k + 1)\<rparr>)))"

subsection \<open>The stream that the run is made for\<close>

text \<open>The format: the data of a scan hold no marker that ends them, and the scans but the first have a table
  segment, or none, and a header before their data.\<close>

fun scan_data :: "bytes \<Rightarrow> bool" where
  "scan_data [] = True"
| "scan_data (c # cs) = ((c = 0xFF \<longrightarrow> cs \<noteq> [] \<and> hd cs \<notin> {M_DHT, M_SOS, M_EOI}) \<and> scan_data cs)"

definition segment :: "bytes \<Rightarrow> bytes" where
  "segment b = hi8 (of_nat (length b + 2)) # lo8 (of_nat (length b + 2)) # b"

type_synonym scan_part = "bytes option \<times> bytes \<times> bytes"

fun later_scans :: "scan_part list \<Rightarrow> bytes" where
  "later_scans [] = [0xFF, M_EOI]"
| "later_scans ((t, h, d) # ps) = (case t of None \<Rightarrow> [] | Some b \<Rightarrow> 0xFF # M_DHT # segment b)
     @ 0xFF # M_SOS # segment h @ d @ later_scans ps"

definition part_ok :: "scan_part \<Rightarrow> bool" where
  "part_ok pt \<longleftrightarrow> (case pt of (t, h, d) \<Rightarrow>
     (\<forall>b. t = Some b \<longrightarrow> length b + 2 < 65536) \<and> length h + 2 < 65536 \<and> h \<noteq> [] \<and> last h \<noteq> 0xFF \<and> scan_data d)"

text \<open>What has to be done for it: for every scan its entry, at the place and with the length of its data, then
  the tables and the header of the next.\<close>

fun scan_plan :: "(nat \<Rightarrow> nat \<Rightarrow> derived_tbl) \<Rightarrow> bytes \<Rightarrow> nat \<Rightarrow> nat \<Rightarrow> bytes \<Rightarrow> scan_part list \<Rightarrow> unit pd" where
  "scan_plan fresh bs p k d [] = init_one_scan fresh k p (length d + 1)"
| "scan_plan fresh bs p k d ((t, h, d') # ps) =
     pthen (init_one_scan fresh k p (length d + 1))
    (case t of
       None \<Rightarrow> pthen (ignoring_result (get_sos bs (p + length d + 2)))
         (scan_plan fresh bs (p + length d + 4 + length h) (k + 1) d' ps)
     | Some b \<Rightarrow> pthen (ignoring_result (get_huff_table bs (p + length d + 2)))
        (pthen (ignoring_result (get_sos bs (p + length d + 6 + length b)))
         (scan_plan fresh bs (p + length d + 8 + length b + length h) (k + 1) d' ps)))"

subsection \<open>Laws of statements\<close>

lemma pbind_assoc: "pbind (pbind m f) g = pbind m (\<lambda>x. pbind (f x) g)"
  by (rule ext) (simp add: pbind_def split: option.split jres.split)

lemma pthen_assoc: "pbind (pthen m n) g = pthen m (pbind n g)" "pthen (pthen m n) l = pthen m (pthen n l)"
  by (simp_all add: pthen_def pbind_assoc)

lemma pthen_pret [simp]: "pthen (pret a) m = m"
  by (simp add: pthen_def pbind_pret)

lemma char_at_ok: "p < length bs \<Longrightarrow> char_at bs p = pret (bs ! p)"
  by (simp add: char_at_def elem_def)

lemma word_at_ok: "p + 1 < length bs \<Longrightarrow> word_at bs p = pret (mk16 (bs ! p) (bs ! (p + 1)))"
  by (simp add: word_at_def char_at_ok pbind_pret)

lemma segment_word:
  assumes "bs = pre @ segment b @ post" "length b + 2 < 65536"
  shows "word_at bs (length pre) = pret (of_nat (length b + 2))" "unat (of_nat (length b + 2) :: u16) = length b + 2"
proof -
  show "word_at bs (length pre) = pret (of_nat (length b + 2))"
    using assms by (simp add: word_at_ok segment_def nth_append)
  show "unat (of_nat (length b + 2) :: u16) = length b + 2"
    unfolding unat_of_nat using assms(2) by (intro mod_less) simp
qed

lemma length_segment: "length (segment b) = length b + 2"
  by (simp add: segment_def)

subsection \<open>Steps of the run\<close>

lemma found_nothing:
  assumes "p < length bs" "bs ! p = 0xFF \<longrightarrow> p + 1 < length bs \<and> bs ! (p + 1) \<notin> {M_DHT, M_SOS}"
  shows "found_scans fresh bs p m n k = pret (p + 1, m, n, k)"
  using assms by (intro ext) (auto simp: found_scans.simps char_at_ok pbind_pret pbind_def pret_def)

lemma not_ended:
  assumes "0 < p" "p \<le> length bs" "bs ! (p - 1) = 0xFF \<longrightarrow> p < length bs \<and> bs ! p \<noteq> M_EOI" "int n < slen"
  shows "at_end bs slen p n = pret False"
  using assms by (auto simp: at_end_def char_at_ok pbind_pret)

lemma entry_step:
  assumes "p < length bs" "bs ! p = 0xFF \<longrightarrow> p + 1 < length bs \<and> bs ! (p + 1) \<notin> {M_DHT, M_SOS, M_EOI}" "int n + 1 < slen"
  shows "entry_points fresh bs slen p m n k = entry_points fresh bs slen (p + 1) (m + 1) (n + 1) k"
proof (rule ext)
  fix s
  have "at_end bs slen (p + 1) (n + 1) = pret False" using assms by (intro not_ended) auto
  with found_nothing [of p bs fresh "m + 1" "n + 1" k] assms
  show "entry_points fresh bs slen p m n k s = entry_points fresh bs slen (p + 1) (m + 1) (n + 1) k s"
    by (subst entry_points.simps) (simp add: pbind_pret)
qed

lemma entry_data:
  assumes "bs = pre @ d @ 0xFF # c # post" "scan_data d" "int (n + length d) < slen"
  shows "entry_points fresh bs slen (length pre) m n k
    = entry_points fresh bs slen (length pre + length d) (m + length d) (n + length d) k"
  using assms
proof (induction d arbitrary: pre m n)
  case (Cons x d)
  have bs: "bs = (pre @ [x]) @ d @ 0xFF # c # post" using Cons.prems(1) by simp
  have x: "length pre < length bs" "bs ! length pre = x" "length pre + 1 < length bs" "bs ! (length pre + 1) = hd (d @ [0xFF])"
    using Cons.prems(1) by (auto simp: nth_append hd_append hd_conv_nth)
  have "entry_points fresh bs slen (length pre) m n k = entry_points fresh bs slen (length pre + 1) (m + 1) (n + 1) k"
    using x Cons.prems(2,3) by (intro entry_step) auto
  also have "\<dots> = entry_points fresh bs slen (length pre + length (x # d)) (m + length (x # d)) (n + length (x # d)) k"
    using Cons.IH [OF bs, of "n + 1" "m + 1"] Cons.prems(2,3) by simp
  finally show ?case .
qed simp

text \<open>At the marker of a header: \<open>l\<close> bytes are passed over behind the marker.\<close>

lemma scan_header_ok:
  assumes "bs = pre @ segment h @ post" "length h + 2 < 65536"
  shows "scan_header bs (length pre) = pthen (ignoring_result (get_sos bs (length pre))) (pret (length h + 2))"
  by (simp only: scan_header_def segment_word [OF assms] pbind_pret)

lemma behind_header:
  assumes "bs = pre @ h @ post" "h \<noteq> []" "last h \<noteq> 0xFF"
  shows "found_scans fresh bs (length pre + length h - 1) m n k = pret (length pre + length h, m, n, k)"
    "int n < slen \<Longrightarrow> at_end bs slen (length pre + length h) n = pret False"
proof -
  have pos: "0 < length h" using assms(2) by simp
  then have "length pre + length h - 1 = length pre + (length h - 1)" by linarith
  then have "bs ! (length pre + length h - 1) = bs ! (length pre + (length h - 1))" by (rule arg_cong)
  also have "\<dots> = last h" using assms(2) pos by (simp only: assms(1) nth_append_length_plus) (simp add: nth_append last_conv_nth)
  finally have "bs ! (length pre + length h - 1) = last h" .
  then show "found_scans fresh bs (length pre + length h - 1) m n k = pret (length pre + length h, m, n, k)"
  proof -
    assume "bs ! (length pre + length h - 1) = last h"
    moreover have "length bs = length pre + length h + length post" using assms(1) by simp
    with pos have "length pre + length h - 1 < length bs" "length pre + length h - 1 + 1 = length pre + length h" by linarith+
    ultimately show ?thesis
      using found_nothing [of "length pre + length h - 1" bs fresh m n k] assms(3) by (simp del: One_nat_def)
  qed
  show "int n < slen \<Longrightarrow> at_end bs slen (length pre + length h) n = pret False"
    using \<open>bs ! (length pre + length h - 1) = last h\<close> assms pos by (intro not_ended) simp_all
qed

lemma entry_found:
  assumes "bs = pre @ [0xFF, c] @ post" "c = M_DHT \<or> c = M_SOS"
    and "\<And>s. table_segment bs c (length pre + 1) (n + 1) s = pthen tm (pret (n', p')) s"
    and "\<And>s. scan_header bs (p' + 1) s = pthen hm (pret l) s"
    and "found_scans fresh bs (p' + l) 0 n' (k + 1) = pret (p' + l + 1, 0, n', k + 1)"
    and "at_end bs slen (p' + l + 1) n' = pret False"
  shows "entry_points fresh bs slen (length pre) m n k = pthen (init_one_scan fresh k (length pre - m) (m + 1))
    (pthen tm (pthen hm (entry_points fresh bs slen (p' + l + 1) 0 n' (k + 1))))"
proof (rule ext)
  fix s
  have t: "table_segment bs c (length pre + 1) (n + 1) = pthen tm (pret (n', p'))" "scan_header bs (p' + 1) = pthen hm (pret l)"
    using assms(3,4) by (auto intro!: ext)
  have "found_scans fresh bs (length pre) (m + 1) (n + 1) k = pthen (init_one_scan fresh k (length pre - m) (m + 1))
      (pthen tm (pthen hm (pret (p' + l + 1, 0, n', k + 1))))"
    using assms(1,2,5) t
    by (intro ext, subst found_scans.simps)
      (simp add: char_at_ok nth_append pbind_pret pthen_assoc pthen_def [symmetric] cong: if_cong)
  then show "entry_points fresh bs slen (length pre) m n k s = pthen (init_one_scan fresh k (length pre - m) (m + 1))
    (pthen tm (pthen hm (entry_points fresh bs slen (p' + l + 1) 0 n' (k + 1)))) s"
    using assms(6) by (subst entry_points.simps) (simp add: pthen_assoc pbind_pret)
qed

lemma entry_header:
  assumes "bs = pre @ [0xFF, M_SOS] @ segment h @ post" "length h + 2 < 65536" "h \<noteq> []" "last h \<noteq> 0xFF" "int n + 1 < slen"
  shows "entry_points fresh bs slen (length pre) m n k = pthen (init_one_scan fresh k (length pre - m) (m + 1))
    (pthen (ignoring_result (get_sos bs (length pre + 2)))
      (entry_points fresh bs slen (length pre + 4 + length h) 0 (n + 1) (k + 1)))"
proof -
  have bs: "bs = (pre @ [0xFF, M_SOS]) @ segment h @ post"
    "bs = (pre @ [0xFF, M_SOS] @ take 2 (segment h)) @ h @ post"
    using assms(1) by (simp_all add: segment_def)
  note header = scan_header_ok [OF bs(1) assms(2)] behind_header [OF bs(2) assms(3,4)]
  have len: "length (pre @ [0xFF, M_SOS]) = length pre + 1 + 1"
    "length (pre @ [0xFF, M_SOS] @ take 2 (segment h)) + length h - 1 = length pre + 1 + (length h + 2)"
    "length (pre @ [0xFF, M_SOS] @ take 2 (segment h)) + length h = length pre + 1 + (length h + 2) + 1"
    by (simp_all add: segment_def)
  have "entry_points fresh bs slen (length pre) m n k = pthen (init_one_scan fresh k (length pre - m) (m + 1))
    (pthen (pret ()) (pthen (ignoring_result (get_sos bs (length pre + 1 + 1)))
      (entry_points fresh bs slen (length pre + 1 + (length h + 2) + 1) 0 (n + 1) (k + 1))))"
    using header assms(5) unfolding len
    by (intro entry_found [of _ _ M_SOS, OF _ disjI2]) (simp_all add: assms(1) table_segment_def marker_codes)
  moreover have "length pre + 1 + 1 = length pre + 2" "length pre + 1 + (length h + 2) + 1 = length pre + 4 + length h" by simp_all
  ultimately show ?thesis by (simp only: pthen_pret)
qed

lemma entry_table:
  assumes "bs = pre @ [0xFF, M_DHT] @ segment b @ [y, x] @ segment h @ post" "length b + 2 < 65536" "length h + 2 < 65536"
    "h \<noteq> []" "last h \<noteq> 0xFF" "int n + int (length b) + 5 < slen"
  shows "entry_points fresh bs slen (length pre) m n k = pthen (init_one_scan fresh k (length pre - m) (m + 1))
    (pthen (ignoring_result (get_huff_table bs (length pre + 2)))
    (pthen (ignoring_result (get_sos bs (length pre + 6 + length b)))
      (entry_points fresh bs slen (length pre + 8 + length b + length h) 0 (n + length b + 5) (k + 1))))"
proof -
  have bs: "bs = (pre @ [0xFF, M_DHT]) @ segment b @ ([y, x] @ segment h @ post)"
    "bs = (pre @ [0xFF, M_DHT] @ segment b @ [y, x]) @ segment h @ post"
    "bs = (pre @ [0xFF, M_DHT] @ segment b @ [y, x] @ take 2 (segment h)) @ h @ post"
    using assms(1) by (simp_all add: segment_def)
  note header = segment_word [OF bs(1) assms(2)] scan_header_ok [OF bs(2) assms(3)] behind_header [OF bs(3) assms(4,5)]
  have len: "length (pre @ [0xFF, M_DHT]) = length pre + 1 + 1"
    "length (pre @ [0xFF, M_DHT] @ segment b @ [y, x]) = length pre + length b + 5 + 1"
    "length (pre @ [0xFF, M_DHT] @ segment b @ [y, x] @ take 2 (segment h)) + length h - 1 = length pre + length b + 5 + (length h + 2)"
    "length (pre @ [0xFF, M_DHT] @ segment b @ [y, x] @ take 2 (segment h)) + length h = length pre + length b + 5 + (length h + 2) + 1"
    by (simp_all add: segment_def)
  note header = header [unfolded len]
  have *: "table_segment bs M_DHT (length pre + 1) (n + 1) = pthen (ignoring_result (get_huff_table bs (length pre + 1 + 1)))
      (pret (n + 1 + (length b + 2) + 2, length pre + 1 + (length b + 2) + 2))"
    by (simp only: table_segment_def header(1,2) pbind_pret if_True refl)
  have t: "table_segment bs M_DHT (length pre + 1) (n + 1) s = pthen (ignoring_result (get_huff_table bs (length pre + 1 + 1)))
      (pret (n + length b + 5, length pre + length b + 5)) s" for s
  proof -
    have "n + 1 + (length b + 2) + 2 = n + length b + 5" "length pre + 1 + (length b + 2) + 2 = length pre + length b + 5" by simp_all
    with * show ?thesis by (simp only:)
  qed
  have "entry_points fresh bs slen (length pre) m n k = pthen (init_one_scan fresh k (length pre - m) (m + 1))
    (pthen (ignoring_result (get_huff_table bs (length pre + 1 + 1))) (pthen (ignoring_result (get_sos bs (length pre + length b + 5 + 1)))
      (entry_points fresh bs slen (length pre + length b + 5 + (length h + 2) + 1) 0 (n + length b + 5) (k + 1))))"
    using header(3-5) t assms(6)
    by (intro entry_found [of _ _ M_DHT, OF _ disjI1]) (simp_all add: assms(1))
  moreover have "length pre + 1 + 1 = length pre + 2" "length pre + length b + 5 + 1 = length pre + 6 + length b"
    "length pre + length b + 5 + (length h + 2) + 1 = length pre + 8 + length b + length h" by simp_all
  ultimately show ?thesis by (simp only:)
qed

lemma entry_end:
  assumes "bs = pre @ [0xFF, M_EOI]" "m \<le> length pre"
  shows "entry_points fresh bs slen (length pre) m n k = pthen (init_one_scan fresh k (length pre - m) (m + 1)) (pret k)"
proof (rule ext)
  fix s
  have "found_scans fresh bs (length pre) (m + 1) (n + 1) k = pret (length pre + 1, m + 1, n + 1, k)"
    using assms(1) by (intro found_nothing) (simp_all add: nth_append marker_codes)
  moreover have "at_end bs slen (length pre + 1) (n + 1) = pret True"
    using assms(1) by (simp add: at_end_def char_at_ok nth_append pbind_pret)
  ultimately show "entry_points fresh bs slen (length pre) m n k s
    = pthen (init_one_scan fresh k (length pre - m) (m + 1)) (pret k) s"
    by (subst entry_points.simps) (simp add: pbind_pret)
qed

lemma entry_plan:
  assumes "bs = pre @ d @ later_scans ps" "scan_data d" "\<forall>pt \<in> set ps. part_ok pt"
    and "int (n + length (d @ later_scans ps)) \<le> slen"
  shows "entry_points fresh bs slen (length pre) 0 n k = pthen (scan_plan fresh bs (length pre) k d ps) (pret (k + length ps))"
  using assms
proof (induction ps arbitrary: pre d n k)
  case Nil
  have "entry_points fresh bs slen (length pre) 0 n k = entry_points fresh bs slen (length pre + length d) (0 + length d) (n + length d) k"
    using Nil.prems by (intro entry_data) auto
  then show ?case using entry_end [of bs "pre @ d" "length d"] Nil.prems(1) by simp
next
  case (Cons pt ps)
  obtain t h d' where pt: "pt = (t, h, d')" by (cases pt)
  have ok: "length h + 2 < 65536" "h \<noteq> []" "last h \<noteq> 0xFF" "scan_data d'" "\<And>b. t = Some b \<Longrightarrow> length b + 2 < 65536"
    using Cons.prems(3) by (simp_all add: part_ok_def pt)
  show ?case
  proof (cases t)
    case None
    have bs: "bs = pre @ d @ 0xFF # M_SOS # segment h @ d' @ later_scans ps"
      "bs = (pre @ d) @ [0xFF, M_SOS] @ segment h @ d' @ later_scans ps"
      "bs = (pre @ d @ [0xFF, M_SOS] @ segment h) @ d' @ later_scans ps"
      using Cons.prems(1) by (simp_all add: pt None)
    have room: "int (n + length d) + 1 < slen" "int (n + length d + 1 + length (d' @ later_scans ps)) \<le> slen"
      using Cons.prems(4) by (simp_all add: pt None length_segment)
    have "entry_points fresh bs slen (length pre) 0 n k = entry_points fresh bs slen (length pre + length d) (0 + length d) (n + length d) k"
      using room(1) by (intro entry_data [OF bs(1) Cons.prems(2)]) simp
    moreover have "length (pre @ d @ [0xFF, M_SOS] @ segment h) = length pre + length d + 4 + length h"
      by (simp add: length_segment)
    ultimately show ?thesis
      using entry_header [OF bs(2) ok(1,2,3) room(1), of fresh "length d" k] Cons.IH [OF bs(3) ok(4) _ room(2), of "k + 1"] Cons.prems(3)
      by (simp only: pt None) (simp add: pthen_assoc add.assoc)
  next
    case (Some b)
    have bs: "bs = pre @ d @ 0xFF # M_DHT # segment b @ [0xFF, M_SOS] @ segment h @ d' @ later_scans ps"
      "bs = (pre @ d) @ [0xFF, M_DHT] @ segment b @ [0xFF, M_SOS] @ segment h @ d' @ later_scans ps"
      "bs = (pre @ d @ [0xFF, M_DHT] @ segment b @ [0xFF, M_SOS] @ segment h) @ d' @ later_scans ps"
      using Cons.prems(1) by (simp_all add: pt Some)
    have room: "int (n + length d) + int (length b) + 5 < slen"
      "int (n + length d + length b + 5 + length (d' @ later_scans ps)) \<le> slen" "int (n + length d) < slen"
      using Cons.prems(4) by (simp_all add: pt Some length_segment)
    have "entry_points fresh bs slen (length pre) 0 n k = entry_points fresh bs slen (length pre + length d) (0 + length d) (n + length d) k"
      using room(3) by (intro entry_data [OF bs(1) Cons.prems(2)]) simp
    moreover have "length (pre @ d @ [0xFF, M_DHT] @ segment b @ [0xFF, M_SOS] @ segment h) = length pre + length d + 8 + length b + length h"
      by (simp add: length_segment)
    ultimately show ?thesis
      using entry_table [OF bs(2) ok(5) [OF Some] ok(1,2,3) room(1), of fresh "length d" k]
        Cons.IH [OF bs(3) ok(4) _ room(2), of "k + 1"] Cons.prems(3)
      by (simp only: pt Some) (simp add: pthen_assoc add.assoc)
  qed
qed

lemma run_is_plan:
  assumes "stream (pbits s) = d @ later_scans ps" "scan_data d" "\<forall>pt \<in> set ps. part_ok pt"
    and "int (length (stream (pbits s))) \<le> decoded_stream_len"
  shows "JPEG_Generate_Entry_Point_Map_Progressive fresh decoded_stream_len s =
    pthen (scan_plan fresh (stream (pbits s)) 0 0 d ps) (pmod (\<lambda>s. s\<lparr>p_input_scan_number := of_nat (length ps + 1)\<rparr>)) s"
  using entry_plan [of "stream (pbits s)" "[]" d ps 0 decoded_stream_len fresh 0] assms
  by (simp add: JPEG_Generate_Entry_Point_Map_Progressive_def pbind_pget pthen_assoc pbind_pret)

text \<open>
  C9: The run over a progressive picture finds the scans.  For a stream that consists of the data of a first scan and
  of further scans, each with a table segment or none, its header and its data, and that ends with the end marker, the
  run does exactly what the format asks for: one entry for each scan, in their order, with the place and the length of its
  data, before it the tables and the header that stand there, and at the end the count of the scans.
\<close>

theorem scans_found:
  assumes "stream (pbits s) = d @ later_scans ps" "scan_data d" "\<forall>pt \<in> set ps. part_ok pt"
    and "int (length (stream (pbits s))) \<le> decoded_stream_len"
  shows "JPEG_Generate_Entry_Point_Map_Progressive fresh decoded_stream_len s =
    pthen (scan_plan fresh (stream (pbits s)) 0 0 d ps) (pmod (\<lambda>s. s\<lparr>p_input_scan_number := of_nat (length ps + 1)\<rparr>)) s"
  using assms by (rule run_is_plan)

text \<open>Example data: refinements of the DC values of one component, for so many entries, and the picture of two scans.\<close>

lemmas set_up = init_one_scan_def mod_scan_def init_component_def init_scan_entropy_info_def mod_entropy_def get_entropy_def
  entropy_component_def ignoring_result_def bad_scan_def select_decoder_def scan_unit_def get_sos_def scan_component_ids_def pstmt elem_def

definition refined :: "nat \<Rightarrow> bytes \<Rightarrow> prog" where
  "refined entries bs = (sample_prog bs 0 0 0 [])\<lparr>p_Ah := 1,
     pcodec := zero_codec\<lparr>num_components := 1, comp_info := [zero_component\<lparr>component_id := 1\<rparr>],
       dc_huff_tbl := replicate 4 \<lparr>hbits = replicate 17 0, huffval = replicate 257 0\<rparr>\<rparr>,
     buf_storage := replicate entries (sample_sos (sample_entropy\<lparr>decode_mcu := No_decoder\<rparr>))\<rparr>"

abbreviation refinement :: scan_part where
  "refinement \<equiv> (None, [1, 1, 0, 0, 0, 0x10], [0x56])"

lemma stream_refined [simp]: "stream (pbits (refined entries bs)) = bs"
  by (simp add: refined_def sample_prog_def sample_bits_def)

text \<open>What the example runs keep.\<close>

definition refining :: "nat \<Rightarrow> prog \<Rightarrow> bool" where
  "refining m s \<longleftrightarrow> length (buf_storage s) = m \<and> (\<forall>e \<in> set (buf_storage s). 0 < length (last_dc_value (entropy e)) \<and> 0 < length (sos_comp_info e))
     \<and> p_Ss s = 0 \<and> p_Se s = 0 \<and> p_Ah s = 1 \<and> p_Al s = 0 \<and> p_comps_in_scan s = 1
     \<and> num_components (pcodec s) = 1 \<and> 0 < length (p_comp_id_map s) \<and> p_comp_id_map s ! 0 = 1 \<and> 0 < length (comp_info (pcodec s)) \<and> 0 < length (tbl_map (pcodec s))
     \<and> 0 < length (dc_huff_tbl (pcodec s)) \<and> length (hbits (dc_huff_tbl (pcodec s) ! 0)) = 17"

lemma refining_entry:
  assumes "refining m s" "k < m" "k < 256"
  shows "\<exists>s'. init_one_scan fresh k addr n s = Some (JOk () s') \<and> refining m s'"
proof -
  have ku: "unat (of_nat k :: u8) = k" unfolding unat_of_nat using assms(3) by (intro mod_less) simp
  have "0 < length (last_dc_value (entropy (buf_storage s ! k))) \<and> 0 < length (sos_comp_info (buf_storage s ! k))"
    using assms(1,2) by (simp add: refining_def)
  with assms(1,2) ku show ?thesis
    by (simp add: refining_def set_up) (auto dest!: set_update_subset_insert [THEN subsetD])
qed

lemma then_pmod: "m s = Some (JOk u s') \<Longrightarrow> pthen m (pmod f) s = Some (JOk () (f s'))"
  by (simp add: pthen_def pbind_def pmod_def)

lemma refining_start: "refining n (refined n bs)"
  by (auto simp: refining_def refined_def sample_prog_def sample_sos_def sample_entropy_def zero_codec_def)

lemma refining_header:
  assumes "refining m s" "take 9 (drop p bs) = [0, 8, 1, 1, 0, 0, 0, 0x10, c]"
  shows "\<exists>s'. ignoring_result (get_sos bs p) s = Some (JOk () s') \<and> refining m s'"
proof -
  have "length (take 9 (drop p bs)) = 9" using assms(2) by simp
  then have len: "p + 9 \<le> length bs" by simp
  have b: "bs ! (p + i) = [0, 8, 1, 1, 0, 0, 0, 0x10, c] ! i" if "i < 9" for i
    using that len assms(2) by (metis add_leD1 length_drop nth_drop nth_take)
  have bs: "bs ! p = 0" "bs ! (p + 1) = 8" "bs ! (p + 2) = 1" "bs ! (p + 3) = 1" "bs ! (p + 4) = 0" "bs ! (p + 5) = 0" "bs ! (p + 6) = 0" "bs ! (p + 7) = 0x10"
    using b [of 0] b [of 1] b [of 2] b [of 3] b [of 4] b [of 5] b [of 6] b [of 7] by simp_all
  have w: "word_at bs p = (pret 8 :: u16 pd)" using bs len by (simp add: word_at_ok mk16_def)
  have ch: "char_at bs (p + 2) = (pret 1 :: u8 pd)" "char_at bs (p + 3) = (pret 1 :: u8 pd)" "char_at bs (p + 4) = (pret 0 :: u8 pd)" "char_at bs (p + 5) = (pret 0 :: u8 pd)"
     "char_at bs (p + 6) = (pret 0 :: u8 pd)" "char_at bs (p + 7) = (pret 0x10 :: u8 pd)"
    using bs len by (simp_all add: char_at_ok)
  have comp: "\<exists>s'. scan_component_ids bs p 0 s1 = Some (JOk () s') \<and> refining m s'" if "refining m s1" for s1
  proof -
    have c: "char_at bs (p + 3 + 2 * 0) = (pret 1 :: u8 pd)" "char_at bs (p + 4 + 2 * 0) = (pret 0 :: u8 pd)" using ch by simp_all
    let ?j = "(pcodec s1)\<lparr>tbl_map := (tbl_map (pcodec s1))[0 := (tbl_map (pcodec s1) ! 0)\<lparr>dc_huff_tbl_id := 0, ac_huff_tbl_id := 0\<rparr>]\<rparr>"
    have "scan_component_ids bs p 0 s1 = find_id 1 0 [0] (s1\<lparr>pcodec := ?j\<rparr>)"
      unfolding scan_component_ids_def c pbind_pret using that by (simp add: refining_def pstmt Let_def del: find_id.simps)
    then show ?thesis using that
      by (cases "component_id (comp_info (pcodec s1) ! 0) = 1") (simp_all add: refining_def pstmt elem_def)
  qed
  have "refining m (s\<lparr>p_comps_in_scan := 1\<rparr>)" using assms(1) by (simp add: refining_def)
  from comp [OF this] obtain s1 where s1: "scan_component_ids bs p 0 (s\<lparr>p_comps_in_scan := 1\<rparr>) = Some (JOk () s1)" "refining m s1" by blast
  have "get_sos bs p s = Some (JOk () (s1\<lparr>p_Ss := 0, p_Se := 0, p_Ah := 1, p_Al := 0,
                  pcodec := (pcodec s1)\<lparr>next_restart_num := 0\<rparr>, p_input_scan_number := p_input_scan_number s1 + 1\<rparr>))"
    using ch ch(4-6) [unfolded add.commute [of p]] w s1(1)
    by (simp add: get_sos_def pbind_pret pthen_pmod pthen_assoc pthen_cases(1) Let_def add.assoc) (simp add: pmod_def)
  with s1(2) show ?thesis by (simp add: ignoring_result_def refining_def)
qed

lemma refined_plan:
  "\<exists>s'. scan_plan fresh ([0x12] @ later_scans [refinement]) 0 0 [0x12] [refinement] (refined 2 ([0x12] @ later_scans [refinement])) = Some (JOk () s')"
proof -
  let ?bs = "[0x12] @ later_scans [refinement]"
  obtain s1 where s1: "init_one_scan fresh 0 0 2 (refined 2 ?bs) = Some (JOk () s1)" "refining 2 s1"
    using refining_entry [where s = "refined 2 ?bs" and m = 2 and k = 0 and fresh = fresh and addr = 0 and n = 2, OF refining_start] by auto
  obtain s2 where s2: "ignoring_result (get_sos ?bs 3) s1 = Some (JOk () s2)" "refining 2 s2"
    using refining_header [where p = 3 and bs = ?bs and c = "0x56", OF s1(2)] by (auto simp: segment_def hi8_def lo8_def)
  obtain s3 where "init_one_scan fresh 1 11 2 s2 = Some (JOk () s3)" using refining_entry [OF s2(2), of 1 fresh 11 2] by auto
  with s1(1) s2(1) show ?thesis by (simp add: pthen_cases(1) numeral_2_eq_2 numeral_3_eq_3)
qed

lemma refined_run:
  "\<exists>s'. JPEG_Generate_Entry_Point_Map_Progressive (\<lambda>_ _. cleared_table) 20 (refined 2 ([0x12] @ later_scans [refinement])) = Some (JOk () s')"
proof -
  let ?s = "refined 2 ([0x12] @ later_scans [refinement])"
  have s: "stream (pbits ?s) = [0x12] @ later_scans [refinement]" by (simp only: stream_refined)
  have len: "int (length (stream (pbits ?s))) \<le> 20" unfolding s by (simp add: length_segment)
  have run: "JPEG_Generate_Entry_Point_Map_Progressive (\<lambda>_ _. cleared_table) 20 ?s =
    pthen (scan_plan (\<lambda>_ _. cleared_table) (stream (pbits ?s)) 0 0 [0x12] [refinement])
      (pmod (\<lambda>s. s\<lparr>p_input_scan_number := of_nat (length [refinement] + 1)\<rparr>)) ?s"
    by (rule run_is_plan [OF s _ _ len]) (simp_all add: part_ok_def)
  obtain s' where s': "scan_plan (\<lambda>_ _. cleared_table) (stream (pbits ?s)) 0 0 [0x12] [refinement] ?s = Some (JOk () s')"
    using refined_plan unfolding s by blast
  show ?thesis unfolding run by (rule exI, rule then_pmod, rule s')
qed

theorem scans_found_witness:
  "\<exists>s'. JPEG_Generate_Entry_Point_Map_Progressive (\<lambda>_ _. cleared_table) 20 (refined 2 ([0x12] @ later_scans [refinement])) = Some (JOk () s')"
proof -
  let ?s = "refined 2 ([0x12] @ later_scans [refinement])"
  have s: "stream (pbits ?s) = [0x12] @ later_scans [refinement]" by (simp only: stream_refined)
  have len: "int (length (stream (pbits ?s))) \<le> 20" unfolding s by (simp add: length_segment)
  obtain s' where s': "scan_plan (\<lambda>_ _. cleared_table) (stream (pbits ?s)) 0 0 [0x12] [refinement] ?s = Some (JOk () s')"
    using refined_plan unfolding s by blast
  have "JPEG_Generate_Entry_Point_Map_Progressive (\<lambda>_ _. cleared_table) 20 ?s =
    pthen (scan_plan (\<lambda>_ _. cleared_table) (stream (pbits ?s)) 0 0 [0x12] [refinement])
      (pmod (\<lambda>s. s\<lparr>p_input_scan_number := of_nat (length [refinement] + 1)\<rparr>)) ?s"
    by (rule scans_found [OF s _ _ len]) (simp_all add: part_ok_def)
  then show ?thesis by (simp only:) (rule exI, rule then_pmod, rule s')
qed

subsection \<open>Two table segments\<close>

lemma run_of_two_tables:
  assumes "stream (pbits s) = d @ [0xFF, M_DHT] @ segment b @ [0xFF, M_DHT] @ segment b' @ later_scans ps" "scan_data d"
    and "length b + 2 < 65536" "length b' + 2 < 65536" "b' \<noteq> []" "last b' \<noteq> 0xFF" "\<forall>pt \<in> set ps. part_ok pt"
    and "int (length (stream (pbits s))) \<le> decoded_stream_len"
  shows "JPEG_Generate_Entry_Point_Map_Progressive fresh decoded_stream_len s =
     pthen (init_one_scan fresh 0 0 (length d + 1))
    (pthen (ignoring_result (get_huff_table (stream (pbits s)) (length d + 2)))
    (pthen (ignoring_result (get_sos (stream (pbits s)) (length d + 6 + length b)))
    (pthen (scan_plan fresh (stream (pbits s)) (length d + 8 + length b + length b') 1 [] ps)
           (pmod (\<lambda>s. s\<lparr>p_input_scan_number := of_nat (length ps + 2)\<rparr>))))) s"
proof -
  let ?bs = "stream (pbits s)"
  have bs: "?bs = [] @ d @ 0xFF # M_DHT # segment b @ [0xFF, M_DHT] @ segment b' @ later_scans ps"
    "?bs = d @ [0xFF, M_DHT] @ segment b @ [0xFF, M_DHT] @ segment b' @ later_scans ps"
    "?bs = (d @ [0xFF, M_DHT] @ segment b @ [0xFF, M_DHT] @ segment b') @ [] @ later_scans ps"
    using assms(1) by simp_all
  have room: "int (length d) + int (length b) + 5 < decoded_stream_len"
    "int (length d + length b + 5 + length ([] @ later_scans ps)) \<le> decoded_stream_len" "int (0 + length d) < decoded_stream_len"
    using assms(8) by (simp_all add: assms(1) length_segment)
  have len: "length (d @ [0xFF, M_DHT] @ segment b @ [0xFF, M_DHT] @ segment b') = length d + 8 + length b + length b'"
    by (simp add: length_segment)
  have "entry_points fresh ?bs decoded_stream_len 0 0 0 0 = entry_points fresh ?bs decoded_stream_len (length d) (length d) (length d) 0"
    using entry_data [OF bs(1) assms(2), of 0 decoded_stream_len fresh 0 0] room(3) by simp
  also have "\<dots> = pthen (init_one_scan fresh 0 0 (length d + 1)) (pthen (ignoring_result (get_huff_table ?bs (length d + 2)))
      (pthen (ignoring_result (get_sos ?bs (length d + 6 + length b)))
        (entry_points fresh ?bs decoded_stream_len (length d + 8 + length b + length b') 0 (length d + length b + 5) 1)))"
    using entry_table [OF bs(2) assms(3-6) room(1), of fresh "length d" 0] by simp
  also have "entry_points fresh ?bs decoded_stream_len (length d + 8 + length b + length b') 0 (length d + length b + 5) 1
      = pthen (scan_plan fresh ?bs (length d + 8 + length b + length b') 1 [] ps) (pret (1 + length ps))"
    using entry_plan [OF bs(3) _ assms(7) room(2), of fresh 1] unfolding len by simp
  finally show ?thesis
    by (simp add: JPEG_Generate_Entry_Point_Map_Progressive_def pbind_pget pthen_assoc pbind_pret)
qed

text \<open>
  C39: A second table segment between two scans is lost.  The code takes whatever follows a table segment for the header
  of a scan.  When another table segment follows, as the format allows, its tables are not read, it is parsed as a scan header,
  an entry for a scan without data is made behind it, and the count of the scans is one too large.
\<close>

theorem second_table_lost:
  assumes "stream (pbits s) = d @ [0xFF, M_DHT] @ segment b @ [0xFF, M_DHT] @ segment b' @ later_scans ps" "scan_data d"
    and "length b + 2 < 65536" "length b' + 2 < 65536" "b' \<noteq> []" "last b' \<noteq> 0xFF" "\<forall>pt \<in> set ps. part_ok pt"
    and "int (length (stream (pbits s))) \<le> decoded_stream_len"
  shows "JPEG_Generate_Entry_Point_Map_Progressive fresh decoded_stream_len s =
     pthen (init_one_scan fresh 0 0 (length d + 1))
    (pthen (ignoring_result (get_huff_table (stream (pbits s)) (length d + 2)))
    (pthen (ignoring_result (get_sos (stream (pbits s)) (length d + 6 + length b)))
    (pthen (scan_plan fresh (stream (pbits s)) (length d + 8 + length b + length b') 1 [] ps)
           (pmod (\<lambda>s. s\<lparr>p_input_scan_number := of_nat (length ps + 2)\<rparr>))))) s"
  using assms by (rule run_of_two_tables)

text \<open>Two segments with an empty table each.\<close>

definition no_codes :: "u8 \<Rightarrow> bytes" where
  "no_codes i = [i, 0, 0, 0, 0, 0, 0, 0, 0, 0, 0, 0, 0, 0, 0, 0, 0]"

definition two_tables :: bytes where
  "two_tables = [0x12] @ [0xFF, M_DHT] @ segment (no_codes 0) @ [0xFF, M_DHT] @ segment (no_codes 1) @ later_scans []"

lemma two_tables_bytes: "two_tables = [0x12, 0xFF, M_DHT, 0, 19, 0, 0, 0, 0, 0, 0, 0, 0, 0, 0, 0, 0, 0, 0, 0, 0, 0,
      0xFF, M_DHT, 0, 19, 1, 0, 0, 0, 0, 0, 0, 0, 0, 0, 0, 0, 0, 0, 0, 0, 0, 0xFF, M_EOI]"
    by (simp add: two_tables_def segment_def no_codes_def hi8_def lo8_def)

lemma two_tables_parts: "two_tables ! 3 = 0" "two_tables ! 4 = 19" "two_tables ! 5 = 0" "length two_tables = 45"
    "two_tables ! 24 = 0" "two_tables ! 25 = 19" "two_tables ! 26 = 1"
    by (simp_all add: two_tables_bytes)

lemma two_tables_counts: "chunk 6 16 two_tables = replicate 16 0"
  unfolding two_tables_bytes chunk_def by (simp add: numeral_eq_Suc)

lemma empty_table_read:
  assumes "0 < length (dc_huff_tbl j) \<and> length (hbits (dc_huff_tbl j ! 0)) = 17"
  shows "read_table two_tables 5 j = Some (JOk 17 (j\<lparr>dc_huff_tbl := (dc_huff_tbl j)[0 := (dc_huff_tbl j ! 0)\<lparr>hbits := 0 # replicate 16 0\<rparr>]\<rparr>))"
proof -
  have c: "char_at two_tables 5 = (pret 0 :: (u8, jpeg_codec) pm)" using two_tables_parts by (simp add: char_at_ok)
  have e: "elem (dc_huff_tbl j) 0 = (pret (dc_huff_tbl j ! 0) :: (huff_tbl, jpeg_codec) pm)" using assms by (simp add: elem_def)
  have n: "sum_list (map unat (replicate 16 (0 :: u8))) = 0" by (simp add: sum_list_replicate)
  have z: "chunk (5 + 17) 0 two_tables = []" by (simp add: chunk_def)
  have s: "5 + 1 = (6 :: nat)" by simp
  have d: "drop 17 (hbits (dc_huff_tbl j ! 0)) = []" using assms by simp
  show ?thesis unfolding read_table_def c pbind_pret Let_def s two_tables_counts n z d
    using assms e two_tables_parts(4) by (simp add: pbind_pget huff_tbls_def pbind_pret pstmt d n z s two_tables_counts)
qed

lemma two_tables_run:
  "\<exists>s'. pthen (init_one_scan fresh 0 0 2) (pthen (ignoring_result (get_huff_table two_tables 3))
     (pthen (ignoring_result (get_sos two_tables 24)) (init_one_scan fresh 1 43 1))) (refined 2 two_tables) = Some (JOk () s')"
proof -
  have "refining 2 (refined 2 two_tables)"
    by (simp add: refining_def refined_def sample_prog_def sample_sos_def sample_entropy_def zero_codec_def)
  then obtain s1 where s1: "init_one_scan fresh 0 0 2 (refined 2 two_tables) = Some (JOk () s1)" "refining 2 s1"
    using refining_entry [of 2 "refined 2 two_tables" 0 fresh 0 2] by auto
  note seg = two_tables_parts
  define j where "j = (pcodec s1)\<lparr>dc_huff_tbl := (dc_huff_tbl (pcodec s1))[0 := (dc_huff_tbl (pcodec s1) ! 0)\<lparr>hbits := 0 # replicate 16 0\<rparr>]\<rparr>"
  have j: "read_table two_tables 5 (pcodec s1) = Some (JOk 17 j)"
    unfolding j_def using s1(2) by (intro empty_table_read) (simp add: refining_def)
  have j2: "refining 2 (s1\<lparr>pcodec := j\<rparr>)" using s1(2) by (simp add: refining_def j_def)
  have "table_loop two_tables 22 0 j = Some (JOk () j)" by (subst table_loop.simps) simp
  with j have "table_loop two_tables 5 17 (pcodec s1) = Some (JOk () j)" by (subst table_loop.simps) simp
  moreover have "word_at two_tables 3 = (pret 19 :: u16 pd)" using seg by (simp add: word_at_ok mk16_def)
  ultimately have "get_huff_table two_tables 3 s1 = Some (JOk () (s1\<lparr>pcodec := j\<rparr>))"
    by (simp add: get_huff_table_def pbind_pret on_codec_def)
  moreover have "get_sos two_tables 24 (s1\<lparr>pcodec := j\<rparr>) = Some (JFail (s1\<lparr>pcodec := j\<rparr>))"
    using seg by (simp add: get_sos_def word_at_ok char_at_ok pbind_pret mk16_def) (simp add: pfail_def)
  moreover obtain s2 where "init_one_scan fresh 1 43 1 (s1\<lparr>pcodec := j\<rparr>) = Some (JOk () s2)" using refining_entry [OF j2, of 1 fresh 43 1] by auto
  ultimately show ?thesis using s1(1) by (simp add: pthen_cases(1) ignoring_result_def)
qed

theorem second_table_lost_witness:
  "\<exists>s'. JPEG_Generate_Entry_Point_Map_Progressive (\<lambda>_ _. cleared_table) 100 (refined 2 two_tables) = Some (JOk () s')
     \<and> p_input_scan_number s' = 2"
proof -
  have s: "stream (pbits (refined 2 two_tables)) = [0x12] @ [0xFF, M_DHT] @ segment (no_codes 0) @ [0xFF, M_DHT]
      @ segment (no_codes 1) @ later_scans []"
    by (simp add: two_tables_def)
  have len: "int (length (stream (pbits (refined 2 two_tables)))) \<le> 100" unfolding s by (simp add: length_segment no_codes_def)
  have data: "scan_data [0x12]" and last: "last (no_codes 1) \<noteq> 0xFF" by (simp_all add: no_codes_def)
  have run: "JPEG_Generate_Entry_Point_Map_Progressive (\<lambda>_ _. cleared_table) 100 (refined 2 two_tables) =
     pthen (init_one_scan (\<lambda>_ _. cleared_table) 0 0 2) (pthen (ignoring_result (get_huff_table two_tables 3))
     (pthen (ignoring_result (get_sos two_tables 24)) (pthen (init_one_scan (\<lambda>_ _. cleared_table) 1 43 1)
       (pmod (\<lambda>s. s\<lparr>p_input_scan_number := 2\<rparr>))))) (refined 2 two_tables)"
    using second_table_lost [OF s data _ _ _ last _ len, of "\<lambda>_ _. cleared_table"]
    by (simp add: no_codes_def numeral_2_eq_2 numeral_3_eq_3)
  obtain s' where r: "pthen (init_one_scan (\<lambda>_ _. cleared_table) 0 0 2) (pthen (ignoring_result (get_huff_table two_tables 3))
     (pthen (ignoring_result (get_sos two_tables 24)) (init_one_scan (\<lambda>_ _. cleared_table) 1 43 1))) (refined 2 two_tables) = Some (JOk () s')"
    using two_tables_run by blast
  from then_pmod [where f = "\<lambda>s. s\<lparr>p_input_scan_number := 2\<rparr>" and m = "pthen (init_one_scan (\<lambda>_ _. cleared_table) 0 0 2)
      (pthen (ignoring_result (get_huff_table two_tables 3)) (pthen (ignoring_result (get_sos two_tables 24))
        (init_one_scan (\<lambda>_ _. cleared_table) 1 43 1)))", OF r]
  show ?thesis unfolding run pthen_assoc(2) by (intro exI conjI, assumption) simp
qed

subsection \<open>What stays as it is\<close>

text \<open>A projection that a statement leaves alone, also when it fails.\<close>

definition steady :: "('s \<Rightarrow> 'b) \<Rightarrow> ('a, 's) pm \<Rightarrow> bool" where
  "steady f m \<longleftrightarrow> (\<forall>s. (\<forall>a s'. m s = Some (JOk a s') \<longrightarrow> f s' = f s) \<and> (\<forall>s'. m s = Some (JFail s') \<longrightarrow> f s' = f s))"

named_theorems steadily "statements that leave a projection alone, whatever their result"

lemma steady_pbind [steadily]: "steady f m \<Longrightarrow> (\<And>a. steady f (k a)) \<Longrightarrow> steady f (pbind m k)"
  unfolding steady_def pbind_def by (fastforce split: option.splits jres.splits)

lemma steady_pthen [steadily]: "steady f m \<Longrightarrow> steady f n \<Longrightarrow> steady f (pthen m n)"
  unfolding pthen_def by (rule steady_pbind)

lemma steady_simple [steadily]:
  "steady f (pret a)" "steady f pfail" "steady f pfault" "steady f (pget g)" "steady f (pcheck P)"
  "steady f (elem xs i)" "steady f (char_at bs p)" "steady f (word_at bs p)"
  by (auto simp: steady_def pstmt elem_def char_at_def word_at_def split: if_splits option.splits)

lemma steady_pmod [steadily]: "(\<And>s. f (h s) = f s) \<Longrightarrow> steady f (pmod h)"
  by (simp add: steady_def pmod_def)

lemma steady_pseq [steadily]: "(\<And>m. m \<in> set ms \<Longrightarrow> steady f m) \<Longrightarrow> steady f (pseq ms)"
  by (induction ms) (auto intro: steadily)

lemma steady_if [steadily]: "steady f m \<Longrightarrow> steady f n \<Longrightarrow> steady f (if b then m else n)"
  by simp

lemma steady_ignoring [steadily]: "steady f m \<Longrightarrow> steady f (ignoring_result m)"
  by (auto simp: steady_def ignoring_result_def split: option.splits jres.splits)

lemma steady_on_codec [steadily]: "(\<And>s j. f (s\<lparr>pcodec := j\<rparr>) = f s) \<Longrightarrow> steady f (on_codec m)"
  by (auto simp: steady_def on_codec_def split: option.splits jres.splits)

lemma steadyD: "steady f m \<Longrightarrow> m s = Some (JOk a s') \<Longrightarrow> f s' = f s" "steady f m \<Longrightarrow> m s = Some (JFail s') \<Longrightarrow> f s' = f s"
  by (auto simp: steady_def)

text \<open>The entries themselves: the current one, their number, and of an entry all but the components, the predictions and the tables.\<close>

definition sos_head :: "sos \<Rightarrow> bitstream_info \<times> u16 \<times> u16 \<times> u16 \<times> u16 \<times> u8 \<times> mcu_decoder" where
  "sos_head sc = (address sc, sos_Ss sc, sos_Se sc, sos_Ah sc, sos_Al sc, sos_comps_in_scan sc, decode_mcu (entropy sc))"

definition scan_entry_head :: "nat \<Rightarrow> prog \<Rightarrow> u8 \<times> nat \<times> (bitstream_info \<times> u16 \<times> u16 \<times> u16 \<times> u16 \<times> u8 \<times> mcu_decoder)" where
  "scan_entry_head k s = (cur_scan s, length (buf_storage s), sos_head (buf_storage s ! k))"

lemma nth_update_same:
  assumes "\<And>x. g (h x) = g x"
  shows "g (xs[i := h (xs ! i)] ! k) = g (xs ! k)"
  using assms by (cases "i < length xs"; cases "i = k") (simp_all add: list_update_beyond)

lemma steady_mod_entropy:
  assumes "\<And>e. decode_mcu (f e) = decode_mcu e"
  shows "steady (scan_entry_head k) (mod_entropy f)"
proof -
  have "sos_head (xs[i := (xs ! i)\<lparr>entropy := f (entropy (xs ! i))\<rparr>] ! k) = sos_head (xs ! k)" for xs i
    by (rule nth_update_same) (simp add: sos_head_def assms)
  then show ?thesis unfolding mod_entropy_def Let_def by (intro steadily) (simp add: scan_entry_head_def)
qed

lemma steady_get_entropy [steadily]: "steady f get_entropy"
  unfolding get_entropy_def by (intro steadily)

lemma steady_entropy_component: "steady (scan_entry_head k) (entropy_component sc ci)"
proof -
  have "steady (scan_entry_head k) (build_vld_table is_dc n)" for is_dc n
    unfolding build_vld_table_def by (intro steadily) (auto intro!: steadily steady_mod_entropy split: option.split)
  then show ?thesis unfolding entropy_component_def by (intro steadily steady_mod_entropy) auto
qed

lemma steady_mod_scan:
  assumes "\<And>sc. sos_head (h sc) = sos_head sc"
  shows "steady (scan_entry_head k) (mod_scan j h)"
proof -
  have "sos_head (xs[j := h (xs ! j)] ! k) = sos_head (xs ! k)" for xs
    by (rule nth_update_same) (rule assms)
  then show ?thesis unfolding mod_scan_def by (intro steadily) (simp add: scan_entry_head_def)
qed

lemma steady_init_component: "steady (scan_entry_head k) (init_component j n ci)"
  unfolding init_component_def by (auto intro!: steadily steady_mod_scan simp: sos_head_def)

lemma pbind_OkE:
  assumes "pbind m f s = Some (JOk b s'')"
  obtains a s' where "m s = Some (JOk a s')" "f a s' = Some (JOk b s'')"
  using assms by (auto simp: pbind_def split: option.splits jres.splits)

lemma pthen_OkE:
  assumes "pthen m n s = Some (JOk b s'')"
  obtains a s' where "m s = Some (JOk a s')" "n s' = Some (JOk b s'')"
  using assms unfolding pthen_def by (rule pbind_OkE) (rule that)

lemma mod_scan_Ok: "mod_scan k h s = Some (JOk u s') \<longleftrightarrow>
    k < length (buf_storage s) \<and> s' = s\<lparr>buf_storage := (buf_storage s)[k := h (buf_storage s ! k)]\<rparr>"
  by (auto simp: mod_scan_def pstmt)

lemma mod_entropy_Ok: "mod_entropy f s = Some (JOk u s') \<longleftrightarrow> unat (cur_scan s) < length (buf_storage s)
    \<and> s' = (let i = unat (cur_scan s) in s\<lparr>buf_storage := (buf_storage s)[i := (buf_storage s ! i)\<lparr>entropy := f (entropy (buf_storage s ! i))\<rparr>]\<rparr>)"
  by (auto simp: mod_entropy_def pstmt Let_def)

lemma mod_entropy_no_fail: "mod_entropy f s \<noteq> Some (JFail s')"
  by (simp add: mod_entropy_def pstmt)

text \<open>The entropy information of the current entry.\<close>

lemma init_entropy_head:
  assumes "ignoring_result (init_scan_entropy_info fresh) s = Some (JOk u s')" "unat (cur_scan s) = k"
  shows "scan_entry_head k s' = (cur_scan s, length (buf_storage s), (let sc = buf_storage s ! k in
     (address sc, sos_Ss sc, sos_Se sc, sos_Ah sc, sos_Al sc, sos_comps_in_scan sc,
      if bad_scan sc then decode_mcu (entropy sc) else select_decoder sc)))"
proof -
  let ?m = "mod_entropy (\<lambda>e. e\<lparr>vld_table := map fresh [0..<4]\<rparr>)"
  let ?sc = "buf_storage s ! k"
  let ?sc1 = "?sc\<lparr>entropy := (entropy ?sc)\<lparr>vld_table := map fresh [0..<4]\<rparr>\<rparr>"
  let ?s1 = "s\<lparr>buf_storage := (buf_storage s)[k := ?sc1]\<rparr>"
  have k: "k < length (buf_storage s)" and m: "?m s = Some (JOk () ?s1)"
    using assms by (auto simp: ignoring_result_def init_scan_entropy_info_def mod_entropy_def pstmt Let_def split: if_splits)
  have sc: "bad_scan ?sc1 = bad_scan ?sc" "select_decoder ?sc1 = select_decoder ?sc"
    by (simp_all add: bad_scan_def select_decoder_def)
  have run: "init_scan_entropy_info fresh s = (if bad_scan ?sc then pfail
       else pthen (mod_entropy (\<lambda>e. e\<lparr>decode_mcu := select_decoder ?sc\<rparr>))
                  (pfor [0..<unat (sos_comps_in_scan ?sc)] (entropy_component ?sc1))) ?s1"
    using k assms(2) sc by (simp add: init_scan_entropy_info_def pthen_cases(1) [where m = ?m and s = s, OF m] pbind_pget)
  show ?thesis
  proof (cases "bad_scan ?sc")
    case True
    then have "s' = ?s1" using assms(1) by (simp add: ignoring_result_def run pfail_def)
    with True k show ?thesis by (simp add: scan_entry_head_def sos_head_def Let_def)
  next
    case False
    let ?s2 = "?s1\<lparr>buf_storage := (buf_storage ?s1)[k := ?sc1\<lparr>entropy := (entropy ?sc1)\<lparr>decode_mcu := select_decoder ?sc\<rparr>\<rparr>]\<rparr>"
    have "mod_entropy (\<lambda>e. e\<lparr>decode_mcu := select_decoder ?sc\<rparr>) ?s1 = Some (JOk () ?s2)"
      using k assms(2) by (simp add: mod_entropy_def pstmt Let_def)
    then have "ignoring_result (pfor [0..<unat (sos_comps_in_scan ?sc)] (entropy_component ?sc1)) ?s2 = Some (JOk u s')"
      using assms(1) False by (simp add: ignoring_result_def run pthen_cases(1))
    moreover have "steady (scan_entry_head k) (ignoring_result (pfor [0..<unat (sos_comps_in_scan ?sc)] (entropy_component ?sc1)))"
      by (auto intro!: steadily steady_entropy_component)
    ultimately have "scan_entry_head k s' = scan_entry_head k ?s2" by (rule steadyD(1) [rotated])
    with False k show ?thesis by (simp add: scan_entry_head_def sos_head_def Let_def)
  qed
qed

lemma one_scan_head:
  assumes "init_one_scan fresh k addr n s = Some (JOk u s')" "k < 256"
  shows "k < length (buf_storage s)"
    "scan_entry_head k s' = (of_nat k, length (buf_storage s), init_scan_bitstrm_info addr (of_nat n - 1) (pbits s),
       p_Ss s, p_Se s, p_Ah s, p_Al s, p_comps_in_scan s,
       if bad_scan (buf_storage s' ! k) then decode_mcu (entropy (buf_storage s ! k)) else select_decoder (buf_storage s' ! k))"
proof -
  have ku: "unat (of_nat k :: u8) = k" unfolding unat_of_nat using assms(2) by (intro mod_less) simp
  let ?s0 = "s\<lparr>cur_scan := of_nat k\<rparr>"
  from assms(1) obtain s1 s2 where s1: "k < length (buf_storage s)"
      "s1 = ?s0\<lparr>buf_storage := (buf_storage s)[k := (buf_storage s ! k)\<lparr>address := init_scan_bitstrm_info addr (of_nat n - 1) (pbits s),
        sos_Ss := p_Ss s, sos_Se := p_Se s, sos_Ah := p_Ah s, sos_Al := p_Al s, sos_comps_in_scan := p_comps_in_scan s\<rparr>]\<rparr>"
    and s2: "pfor [0..<unat (p_comps_in_scan s)] (init_component k (p_comps_in_scan s)) s1 = Some (JOk () s2)"
    and s': "ignoring_result (init_scan_entropy_info (fresh k)) s2 = Some (JOk u s')"
    by (auto simp: init_one_scan_def pthen_pmod pbind_pget mod_scan_Ok elim!: pthen_OkE)
  show "k < length (buf_storage s)" by (rule s1(1))
  have "steady (scan_entry_head k) (pfor [0..<unat (p_comps_in_scan s)] (init_component k (p_comps_in_scan s)))"
    by (auto intro!: steadily steady_init_component)
  from steadyD(1) [OF this s2] have h: "scan_entry_head k s2 = scan_entry_head k s1" .
  then have sc2: "sos_head (buf_storage s2 ! k) = sos_head (buf_storage s1 ! k)" "cur_scan s2 = of_nat k"
      "length (buf_storage s2) = length (buf_storage s)"
    by (simp_all add: scan_entry_head_def s1(2))
  from init_entropy_head [OF s'] sc2(2) ku have e: "scan_entry_head k s' = (cur_scan s2, length (buf_storage s2), (let sc = buf_storage s2 ! k in
     (address sc, sos_Ss sc, sos_Se sc, sos_Ah sc, sos_Al sc, sos_comps_in_scan sc,
      if bad_scan sc then decode_mcu (entropy sc) else select_decoder sc)))" by simp
  then have "bad_scan (buf_storage s' ! k) = bad_scan (buf_storage s2 ! k)"
    "select_decoder (buf_storage s' ! k) = select_decoder (buf_storage s2 ! k)"
    by (simp_all add: scan_entry_head_def sos_head_def Let_def bad_scan_def select_decoder_def)
  with e sc2 s1 show "scan_entry_head k s' = (of_nat k, length (buf_storage s), init_scan_bitstrm_info addr (of_nat n - 1) (pbits s),
       p_Ss s, p_Se s, p_Ah s, p_Al s, p_comps_in_scan s,
       if bad_scan (buf_storage s' ! k) then decode_mcu (entropy (buf_storage s ! k)) else select_decoder (buf_storage s' ! k))"
    by (auto simp: sos_head_def Let_def)
qed

text \<open>The scans that the standard allows: the DC values or a band of one component, and a refinement adds one bit.\<close>

definition legal_scan :: "nat \<Rightarrow> nat \<Rightarrow> nat \<Rightarrow> nat \<Rightarrow> nat \<Rightarrow> bool" where
  "legal_scan ss se ah al comps \<longleftrightarrow> (ss = 0 \<and> se = 0 \<or> 1 \<le> ss \<and> ss \<le> se \<and> se \<le> 63 \<and> comps = 1)
     \<and> (ah = 0 \<or> ah = al + 1) \<and> al \<le> 13"

lemma bad_scan_legal: "bad_scan sc \<longleftrightarrow> \<not> legal_scan (unat (sos_Ss sc)) (unat (sos_Se sc)) (unat (sos_Ah sc)) (unat (sos_Al sc))
    (unat (sos_comps_in_scan sc))"
proof -
  have eq: "w = 0 \<longleftrightarrow> unat w = 0" "v = 1 \<longleftrightarrow> unat v = 1" for w :: u16 and v :: u8
    by (simp_all add: word_unat_eq_iff)
  have below: "(int a \<noteq> int b - 1) = (b \<noteq> a + 1)" for a b :: nat by linarith
  show ?thesis unfolding bad_scan_def legal_scan_def eq below word_less_nat_alt word_le_nat_alt by auto
qed

text \<open>The components that the header of a scan names are there.\<close>

definition header_fits :: "nat \<Rightarrow> prog \<Rightarrow> bool" where
  "header_fits k s \<longleftrightarrow> (\<forall>ci < unat (p_comps_in_scan s). ci < length (p_comp_id_map s) \<and> p_comp_id_map s ! ci \<noteq> 0
     \<and> unat (p_comp_id_map s ! ci) \<le> length (comp_info (pcodec s)) \<and> ci < length (tbl_map (pcodec s))
     \<and> ci < length (sos_comp_info (buf_storage s ! k)))"

lemma init_component_fits:
  assumes "header_fits k s" "k < length (buf_storage s)" "ci < unat (p_comps_in_scan s)"
  shows "\<exists>s'. init_component k n ci s = Some (JOk () s') \<and> header_fits k s' \<and> k < length (buf_storage s')
    \<and> p_comps_in_scan s' = p_comps_in_scan s"
proof -
  have "ci < length (p_comp_id_map s) \<and> p_comp_id_map s ! ci \<noteq> 0 \<and> unat (p_comp_id_map s ! ci) \<le> length (comp_info (pcodec s))
      \<and> ci < length (tbl_map (pcodec s)) \<and> ci < length (sos_comp_info (buf_storage s ! k))"
    using assms(1,3) by (simp add: header_fits_def)
  moreover from this have "unat (p_comp_id_map s ! ci) - 1 < length (comp_info (pcodec s))"
    by (cases "unat (p_comp_id_map s ! ci)") (auto simp: unat_eq_0)
  moreover have "unat (p_comp_id_map s ! ci - 1) = unat (p_comp_id_map s ! ci) - 1"
    using calculation by (intro unat_minus_one) simp
  ultimately show ?thesis
    using assms(1,2) by (simp add: init_component_def mod_scan_def elem_def pstmt header_fits_def)
qed

lemma init_components_fit:
  assumes "header_fits k s" "k < length (buf_storage s)" "\<forall>ci \<in> set cis. ci < unat (p_comps_in_scan s)"
  shows "\<exists>s'. pfor cis (init_component k n) s = Some (JOk () s') \<and> k < length (buf_storage s')"
  using assms
proof (induction cis arbitrary: s)
  case (Cons ci cis)
  then obtain s1 where s1: "init_component k n ci s = Some (JOk () s1)" "header_fits k s1" "k < length (buf_storage s1)"
      "p_comps_in_scan s1 = p_comps_in_scan s"
    using init_component_fits [of k s ci n] by auto
  with Cons.IH [of s1] Cons.prems(3) show ?case by (simp add: pthen_cases(1))
qed (simp add: pret_def)

text \<open>The first statements of the set-up, and what it leaves in the parameters.\<close>

lemma illegal_goes_unreported:
  assumes "k < length (buf_storage s)" "k < 256" "header_fits k s"
    and "\<not> legal_scan (unat (p_Ss s)) (unat (p_Se s)) (unat (p_Ah s)) (unat (p_Al s)) (unat (p_comps_in_scan s))"
  shows "\<exists>s'. init_one_scan fresh k addr n s = Some (JOk () s')"
proof -
  have ku: "unat (of_nat k :: u8) = k" unfolding unat_of_nat using assms(2) by (intro mod_less) simp
  let ?sc = "(buf_storage s ! k)\<lparr>address := init_scan_bitstrm_info addr (of_nat n - 1) (pbits s),
        sos_Ss := p_Ss s, sos_Se := p_Se s, sos_Ah := p_Ah s, sos_Al := p_Al s, sos_comps_in_scan := p_comps_in_scan s\<rparr>"
  let ?s1 = "s\<lparr>cur_scan := of_nat k, buf_storage := (buf_storage s)[k := ?sc]\<rparr>"
  have "header_fits k ?s1" using assms(1,3) by (simp add: header_fits_def)
  then obtain s2 where s2: "pfor [0..<unat (p_comps_in_scan s)] (init_component k (p_comps_in_scan s)) ?s1 = Some (JOk () s2)"
      "k < length (buf_storage s2)"
    using init_components_fit [of k ?s1 "[0..<unat (p_comps_in_scan s)]" "p_comps_in_scan s"] assms(1) by auto
  have "steady (scan_entry_head k) (pfor [0..<unat (p_comps_in_scan s)] (init_component k (p_comps_in_scan s)))"
    by (auto intro!: steadily steady_init_component)
  from steadyD(1) [OF this s2(1)] have head: "cur_scan s2 = of_nat k" "sos_head (buf_storage s2 ! k) = sos_head ?sc"
    using assms(1) by (simp_all add: scan_entry_head_def)
  then have bad: "bad_scan (buf_storage s2 ! k)" using assms(4) by (simp add: bad_scan_legal sos_head_def)
  have bad': "bad_scan ((buf_storage s2 ! k)\<lparr>entropy := e\<rparr>)" for e using bad by (simp add: bad_scan_legal)
  have "init_scan_entropy_info (fresh k) s2 = Some (JFail (s2\<lparr>buf_storage := (buf_storage s2)[k := (buf_storage s2 ! k)
      \<lparr>entropy := (entropy (buf_storage s2 ! k))\<lparr>vld_table := map (fresh k) [0..<4]\<rparr>\<rparr>]\<rparr>))"
    using bad' s2(2) head(1) ku by (simp add: init_scan_entropy_info_def mod_entropy_def pstmt Let_def pfail_def)
  moreover have "init_one_scan fresh k addr n s = pthen (pfor [0..<unat (p_comps_in_scan s)] (init_component k (p_comps_in_scan s)))
      (ignoring_result (init_scan_entropy_info (fresh k))) ?s1"
    using assms(1) by (simp add: init_one_scan_def mod_scan_def pstmt del: upt_Suc)
  ultimately show ?thesis using s2(1) by (simp add: pthen_cases(1) ignoring_result_def)
qed

text \<open>
  C38: The entry of a scan.  Let the components of the header be there.  With parameters that the standard forbids the set-up
  returns as always, nothing is reported, and the first unit of the scan jumps through a null pointer.  Whenever the set-up
  returns, the entry holds the place of the data, one byte less than was counted, since that was the marker's, the parameters
  of the header, and, when the standard allows them, the decoder for first or refined DC values or for a first or refined
  band.  (The code also prints two bytes at the end of the data, which is not modelled.)
\<close>

theorem scan_entry_made:
  assumes "k < length (buf_storage s)" "k < 256" "decode_mcu (entropy (buf_storage s ! k)) = No_decoder" "header_fits k s"
    and "0 < n" "n < 2 ^ 32"
  shows "(\<not> legal_scan (unat (p_Ss s)) (unat (p_Se s)) (unat (p_Ah s)) (unat (p_Al s)) (unat (p_comps_in_scan s)) \<longrightarrow>
      (\<exists>s'. init_one_scan fresh k addr n s = Some (JOk () s')
        \<and> call_decode_mcu (decode_mcu (entropy (buf_storage s' ! k))) mcu t = Some JFault))
    \<and> (\<forall>s'. init_one_scan fresh k addr n s = Some (JOk () s') \<longrightarrow>
      src_pos (address (buf_storage s' ! k)) = addr \<and> unat (bytes_in_buf (address (buf_storage s' ! k))) = n - 1
      \<and> jremain_bit_num (address (buf_storage s' ! k)) = s_jremain_bit_num (pbits s)
      \<and> (sos_Ss (buf_storage s' ! k), sos_Se (buf_storage s' ! k), sos_Ah (buf_storage s' ! k), sos_Al (buf_storage s' ! k),
         sos_comps_in_scan (buf_storage s' ! k)) = (p_Ss s, p_Se s, p_Ah s, p_Al s, p_comps_in_scan s)
      \<and> (legal_scan (unat (p_Ss s)) (unat (p_Se s)) (unat (p_Ah s)) (unat (p_Al s)) (unat (p_comps_in_scan s)) \<longrightarrow>
         decode_mcu (entropy (buf_storage s' ! k)) = (if p_Ss s = 0 then (if p_Ah s = 0 then DC_first else DC_refine)
           else (if p_Ah s = 0 then AC_first else AC_refine))))"
proof -
  have n: "unat (of_nat n - 1 :: u32) = n - 1"
  proof -
    have "of_nat n - 1 = (of_nat (n - 1) :: u32)" using assms(5) by (simp add: of_nat_diff)
    then show ?thesis using assms(6) by (simp add: unsigned_of_nat take_bit_nat_eq_self)
  qed
  have head: "scan_entry_head k s' = (of_nat k, length (buf_storage s), init_scan_bitstrm_info addr (of_nat n - 1) (pbits s),
       p_Ss s, p_Se s, p_Ah s, p_Al s, p_comps_in_scan s,
       if bad_scan (buf_storage s' ! k) then No_decoder else select_decoder (buf_storage s' ! k))"
    if "init_one_scan fresh k addr n s = Some (JOk () s')" for s'
    using one_scan_head(2) [OF that assms(2)] assms(3) by simp
  show ?thesis (is "(\<not> ?legal \<longrightarrow> ?first) \<and> (\<forall>s'. ?run s' \<longrightarrow> ?entry s')")
  proof
    show "\<not> ?legal \<longrightarrow> ?first"
    proof
      assume illegal: "\<not> ?legal"
      from illegal_goes_unreported [OF assms(1,2,4) this] obtain s' where s': "?run s'" by blast
      with head [OF this] illegal show ?first
        by (intro exI [of _ s']) (auto simp: scan_entry_head_def sos_head_def bad_scan_legal call_decode_mcu_def pfault_def)
    qed
    show "\<forall>s'. ?run s' \<longrightarrow> ?entry s'"
    proof (intro allI impI)
      fix s' assume "?run s'"
      from head [OF this] n show "?entry s'"
        by (auto simp: scan_entry_head_def sos_head_def bad_scan_legal select_decoder_def init_scan_bitstrm_info_def)
    qed
  qed
qed

text \<open>A refinement that would add two bits.\<close>

theorem scan_entry_made_witness:
  "\<exists>s'. init_one_scan (\<lambda>_ _. cleared_table) 0 0 2 ((refined 2 [])\<lparr>p_Ah := 2\<rparr>) = Some (JOk () s')
     \<and> call_decode_mcu (decode_mcu (entropy (buf_storage s' ! 0))) [] (refined 2 []) = Some JFault"
proof -
  let ?s = "(refined 2 [])\<lparr>p_Ah := 2\<rparr>"
  have "0 < length (buf_storage ?s)" "decode_mcu (entropy (buf_storage ?s ! 0)) = No_decoder" "header_fits 0 ?s"
    "\<not> legal_scan (unat (p_Ss ?s)) (unat (p_Se ?s)) (unat (p_Ah ?s)) (unat (p_Al ?s)) (unat (p_comps_in_scan ?s))"
    by (simp_all add: refined_def sample_prog_def sample_sos_def header_fits_def zero_codec_def legal_scan_def)
  from scan_entry_made [OF this(1) _ this(2,3), of 2 "\<lambda>_ _. cleared_table" 0 "[]" "refined 2 []"] this(4)
  show ?thesis by simp
qed

subsection \<open>The number of scans\<close>

lemma steady_headers:
  "steady (\<lambda>s. length (buf_storage s)) (get_sos bs p)" "steady (\<lambda>s. length (buf_storage s)) (get_huff_table bs p)"
proof -
  have "steady (\<lambda>s. length (buf_storage s)) (find_id cc i cis)" for cc i cis
    by (induction cis) (auto intro!: steadily)
  then have "steady (\<lambda>s. length (buf_storage s)) (scan_component_ids bs p i)" for p i
    unfolding scan_component_ids_def by (intro steadily) (auto simp: Let_def)
  then show "steady (\<lambda>s. length (buf_storage s)) (get_sos bs p)"
    unfolding get_sos_def Let_def by (auto intro!: steadily)
  show "steady (\<lambda>s. length (buf_storage s)) (get_huff_table bs p)"
    unfolding get_huff_table_def by (intro steadily) simp
qed

lemma plan_fits:
  "scan_plan fresh bs p k d ps s = Some (JOk u s') \<Longrightarrow> length (buf_storage s) < 256 \<Longrightarrow> k < 256 \<Longrightarrow> k + length ps < length (buf_storage s)"
proof (induction ps arbitrary: p k d s)
  case Nil
  then show ?case using one_scan_head(1) by fastforce
next
  case (Cons pt ps)
  obtain t h d' where pt: "pt = (t, h, d')" by (cases pt)
  have keep: "length (buf_storage s2) = length (buf_storage s1)"
    if "ignoring_result (get_sos bs q) s1 = Some (JOk v s2) \<or> ignoring_result (get_huff_table bs q) s1 = Some (JOk v s2)" for q s1 v s2
    using that steadyD(1) [OF steady_ignoring [OF steady_headers(1)]] steadyD(1) [OF steady_ignoring [OF steady_headers(2)]] by blast
  from Cons.prems(1) obtain v s1 q s2 where s1: "init_one_scan fresh k p (length d + 1) s = Some (JOk v s1)"
    and s2: "length (buf_storage s2) = length (buf_storage s1)" "scan_plan fresh bs q (k + 1) d' ps s2 = Some (JOk u s')"
    by (auto simp: pt elim!: pthen_OkE split: option.splits) (metis keep)+
  from one_scan_head [OF s1 Cons.prems(3)] have "k < length (buf_storage s)" "length (buf_storage s1) = length (buf_storage s)"
    by (simp_all add: scan_entry_head_def)
  with Cons.IH [OF s2(2)] s2(1) Cons.prems(2,3) show ?case by auto
qed

text \<open>Statements that end and report nothing: they return or leave their memory.\<close>

definition unreporting :: "('a, 's) pm \<Rightarrow> bool" where
  "unreporting m \<longleftrightarrow> (\<forall>s. \<exists>a s'. m s = Some (JOk a s') \<or> m s = Some JFault)"

definition ending :: "('a, 's) pm \<Rightarrow> bool" where
  "ending m \<longleftrightarrow> (\<forall>s. m s \<noteq> None)"

named_theorems quietly "statements that end, or end and report nothing"

lemma unreporting_pbind [quietly]:
  assumes "unreporting m" "\<And>a. unreporting (f a)"
  shows "unreporting (pbind m f)"
  unfolding unreporting_def
proof
  fix s
  consider a s' where "m s = Some (JOk a s')" | "m s = Some JFault" using assms(1) unfolding unreporting_def by blast
  then show "\<exists>a s'. pbind m f s = Some (JOk a s') \<or> pbind m f s = Some JFault"
    using assms(2) by cases (simp_all add: pbind_def unreporting_def)
qed

lemma ending_pbind [quietly]:
  assumes "ending m" "\<And>a. ending (f a)"
  shows "ending (pbind m f)"
  using assms by (auto simp: ending_def pbind_def split: option.split jres.split)

lemma quiet_pthen [quietly]:
  "unreporting m \<Longrightarrow> unreporting n \<Longrightarrow> unreporting (pthen m n)" "ending m \<Longrightarrow> ending n \<Longrightarrow> ending (pthen m n)"
  unfolding pthen_def by (rule quietly; assumption)+

lemma quiet_statements [quietly]:
  "unreporting (pret a)" "unreporting pfault" "unreporting (pget g)" "unreporting (pcheck P)" "unreporting (pmod h)"
  "unreporting (elem xs i)" "unreporting (char_at bs p)"
  "ending (pret a)" "ending pfault" "ending pfail" "ending (pget g)" "ending (pcheck P)" "ending (pmod h)"
  "ending (elem xs i)" "ending (char_at bs p)" "ending (word_at bs p)"
  by (auto simp: unreporting_def ending_def pstmt elem_def char_at_def word_at_def split: option.split)

lemma quiet_choice [quietly]:
  "unreporting m \<Longrightarrow> unreporting n \<Longrightarrow> unreporting (if b then m else n)" "ending m \<Longrightarrow> ending n \<Longrightarrow> ending (if b then m else n)"
  by simp_all

lemma quiet_pseq [quietly]:
  "(\<And>m. m \<in> set ms \<Longrightarrow> unreporting m) \<Longrightarrow> unreporting (pseq ms)" "(\<And>m. m \<in> set ms \<Longrightarrow> ending m) \<Longrightarrow> ending (pseq ms)"
  by (induction ms) (auto intro: quietly)

lemma unreporting_ignoring [quietly]: "ending m \<Longrightarrow> unreporting (ignoring_result m)"
  unfolding unreporting_def ending_def
proof
  fix s assume "\<forall>s. m s \<noteq> None"
  then obtain r where "m s = Some r" by blast
  then show "\<exists>a s'. ignoring_result m s = Some (JOk a s') \<or> ignoring_result m s = Some JFault"
    by (cases r) (simp_all add: ignoring_result_def)
qed

lemma unreporting_ending: "unreporting m \<Longrightarrow> ending m"
  unfolding unreporting_def ending_def by (metis option.distinct(1))

text \<open>The tables of a segment: every table takes bytes of the stream.\<close>

lemma read_table_advances: "read_table bs p j = Some (JOk n j') \<Longrightarrow> 0 < n \<and> p < length bs"
  by (auto simp: read_table_def char_at_def elem_def pstmt Let_def split: if_splits)

lemma ending_read_table: "ending (read_table bs p)"
  unfolding read_table_def Let_def by (intro quietly)

lemma ending_table_loop: "ending (table_loop bs p len)"
  unfolding ending_def
proof
  fix j show "table_loop bs p len j \<noteq> None"
  proof (induction "length bs - p" arbitrary: p len j rule: less_induct)
    case less
    show ?case
    proof (cases "0 < len")
      case True
      from ending_read_table obtain r where r: "read_table bs p j = Some r" unfolding ending_def by blast
      show ?thesis
      proof (cases r)
        case (JOk n j')
        with r read_table_advances [of bs p j n j'] less [of "p + n" "len - of_nat n" j'] True show ?thesis
          by (subst table_loop.simps) auto
      qed (use r True in \<open>simp_all add: table_loop.simps [of bs p len j]\<close>)
    qed (simp add: table_loop.simps [of bs p len j])
  qed
qed

lemma ending_on_codec [quietly]: "ending m \<Longrightarrow> ending (on_codec m)"
  by (auto simp: ending_def on_codec_def split: option.splits jres.splits)

lemma ending_headers [quietly]: "ending (get_huff_table bs p)" "ending (get_sos bs p)"
proof -
  show "ending (get_huff_table bs p)" unfolding get_huff_table_def by (intro quietly ending_table_loop)
  have "ending (find_id cc i cis)" for cc i cis by (induction cis) (auto intro!: quietly)
  then have "ending (scan_component_ids bs p i)" for p i unfolding scan_component_ids_def by (intro quietly)
  then show "ending (get_sos bs p)" unfolding get_sos_def Let_def by (auto intro!: quietly)
qed

lemma quiet_entropy [quietly]: "unreporting get_entropy" "unreporting (mod_entropy f)" "unreporting (mod_scan k g)"
  "ending (mod_entropy f)"
  unfolding get_entropy_def mod_entropy_def mod_scan_def Let_def by (intro quietly)+

lemma unreporting_init_one_scan [quietly]: "unreporting (init_one_scan fresh k addr n)"
proof -
  have "unreporting (build_vld_table is_dc i)" for is_dc i
    unfolding build_vld_table_def by (intro quietly) (auto intro!: quietly split: option.split)
  then have component: "unreporting (entropy_component sc ci)" for sc ci unfolding entropy_component_def by (intro quietly)
  have "ending (init_scan_entropy_info f)" for f
    unfolding init_scan_entropy_info_def by (auto intro!: quietly unreporting_ending [OF component])
  moreover have "unreporting (init_component k m ci)" for m ci
    unfolding init_component_def by (intro quietly)
  ultimately show ?thesis unfolding init_one_scan_def by (auto intro!: quietly)
qed

lemma unreporting_plan: "unreporting (scan_plan fresh bs p k d ps)"
proof (induction ps arbitrary: p k d)
  case (Cons pt ps)
  then show ?case by (cases pt) (auto intro!: quietly split: option.split)
qed (simp add: quietly)

text \<open>
  C40: Too many scans run off the array of their entries.  The array has a fixed size, and the code does not look at it: a
  well-formed picture with more scans than entries, one of them the first, makes the run neither return nor report a failure,
  whatever the tables and headers hold; it accesses memory outside its objects.
\<close>

theorem scans_overrun:
  assumes "stream (pbits s) = d @ later_scans ps" "scan_data d" "\<forall>pt \<in> set ps. part_ok pt"
    and "int (length (stream (pbits s))) \<le> decoded_stream_len" "length (buf_storage s) < 256"
    and "length (buf_storage s) < length ps + 1"
  shows "JPEG_Generate_Entry_Point_Map_Progressive fresh decoded_stream_len s = Some JFault"
proof -
  have "scan_plan fresh (stream (pbits s)) 0 0 d ps s \<noteq> Some (JOk u s')" for u s'
    using plan_fits [of fresh "stream (pbits s)" 0 0 d ps s u s'] assms(5,6) by auto
  then have "scan_plan fresh (stream (pbits s)) 0 0 d ps s = Some JFault"
    using unreporting_plan unfolding unreporting_def by blast
  then show ?thesis unfolding run_is_plan [OF assms(1-4)] by (simp add: pthen_def pbind_def)
qed

text \<open>Two scans, with room for one; with room for two the same run returns.\<close>

theorem scans_overrun_witness:
  "JPEG_Generate_Entry_Point_Map_Progressive (\<lambda>_ _. cleared_table) 20 (refined 1 ([0x12] @ later_scans [refinement])) = Some JFault
   \<and> (\<exists>s'. JPEG_Generate_Entry_Point_Map_Progressive (\<lambda>_ _. cleared_table) 20 (refined 2 ([0x12] @ later_scans [refinement])) = Some (JOk () s'))"
proof
  show "JPEG_Generate_Entry_Point_Map_Progressive (\<lambda>_ _. cleared_table) 20 (refined 1 ([0x12] @ later_scans [refinement])) = Some JFault"
    by (rule scans_overrun [where d = "[0x12]" and ps = "[refinement]"])
      (simp_all add: part_ok_def length_segment, simp_all add: refined_def)
  show "\<exists>s'. JPEG_Generate_Entry_Point_Map_Progressive (\<lambda>_ _. cleared_table) 20 (refined 2 ([0x12] @ later_scans [refinement])) = Some (JOk () s')"
    by (rule refined_run)
qed

end
