(* ===== verification/ProgSetup.thy ===== *)
theory ProgSetup
  imports ProgScan JpegQuant
begin

text \<open>
  The set-up of a progressive picture: what \<^verbatim>\<open>JPEG_HWDecInit\<close> of \<^verbatim>\<open>jpegdec_interface.c\<close> does for such a picture after
  its header has been parsed.  It clears the record of the decoder, allocates the block lines and the blocks of a
  unit (\<^verbatim>\<open>JPEGFW_AllocMCUBuf\<close>), chooses the transform, runs over the stream for the scans and makes the
  quantization tables.  The arena is taken to be large enough and cleared.
\<close>

subsection \<open>The record\<close>

definition null_scan :: sos where
  "null_scan = \<lparr>address = \<lparr>src_pos = 0, bytes_in_buf = 0, jstream_words = 0, jremain_bit_num = 0\<rparr>, sos_comps_in_scan = 0,
     sos_comp_info = replicate 4 (component.extend zero_component \<lparr>dc_tbl_no = 0, ac_tbl_no = 0\<rparr>),
     sos_Ss = 0, sos_Se = 0, sos_Ah = 0, sos_Al = 0,
     entropy = \<lparr>e_restarts_to_go = 0, e_next_restart_num = 0, last_dc_value = replicate 4 0, EOBRUN = 0,
       vld_table = [], ac_derived_tbl = None, decode_mcu = No_decoder\<rparr>\<rparr>"

text \<open>The copies from the codec record; the transform and the tables are set later.\<close>

definition new_progressive :: "bit_buffer \<Rightarrow> jpeg_codec \<Rightarrow> sw_decoder" where
  "new_progressive b j = \<lparr>sw_prog = \<lparr>pbits = b, pcodec = j, p_Ss = Ss j, p_Se = Se j, p_Ah = Ah j, p_Al = Al j,
       p_input_scan_number = input_scan_number j, cur_scan = 0, p_comps_in_scan = comps_in_scan j, MCU_per_col = 0, MCU_per_row = 0,
       p_comp_id_map = take 3 (comp_id_map j), buf_storage = replicate 16 null_scan, cur_comp_info = replicate 4 None,
       block_num = 0, blocks_membership = replicate 6 0, block_line = [[], [], []], blocks = replicate 6 None\<rparr>,
     sw_transform = Low_quality, quant_tbl_new = [], org_blocks = replicate 6 [], y_coeff = [], uv_coeff = []\<rparr>"

subsection \<open>Memory\<close>

text \<open>The blocks of a unit go into arrays of six.\<close>

definition JPEGFW_AllocMCUBuf :: "sw_decoder \<Rightarrow> sw_decoder option" where
  "JPEGFW_AllocMCUBuf d =
    (let s = sw_prog d; j = pcodec s; n = 64 * unat (mcu_num_x j) in
     if length (ratio j) < 3 then None
     else let num = (\<lambda>c. unat (h_ratio (ratio j ! c)) * unat (v_ratio (ratio j ! c)));
              members = concat (map (\<lambda>c. replicate (num c) (of_nat c)) [0, 1, 2]) in
       if 6 < length members then None
       else Some (d\<lparr>sw_prog := s\<lparr>block_line := [replicate (n * num 0) 0, replicate n 0, replicate n 0],
                      blocks_membership := members @ drop (length members) (blocks_membership s)\<rparr>,
                    org_blocks := replicate (length members) (replicate 64 0) @ drop (length members) (org_blocks d)\<rparr>))"

definition JPEGFW_InitQuantTbl :: "nat \<Rightarrow> (unit, jpeg_codec) pm" where
  "JPEGFW_InitQuantTbl level =
     pthen (pcheck (\<lambda>c. level < length jpeg_fw_lum_quant_tbl_default \<and> 3 \<le> length (tbl_map c)))
    (pmod (\<lambda>c. c\<lparr>quant_tbl := (quant_tbl c)[0 := jpeg_fw_lum_quant_tbl_default ! level, 1 := jpeg_fw_chr_quant_tbl_default ! level],
       tbl_map := (tbl_map c)[0 := (tbl_map c ! 0)\<lparr>quant_tbl_id := 0\<rparr>, 1 := (tbl_map c ! 1)\<lparr>quant_tbl_id := 1\<rparr>,
                              2 := (tbl_map c ! 2)\<lparr>quant_tbl_id := 1\<rparr>]\<rparr>))"

subsection \<open>The set-up\<close>

text \<open>A scale factor above 3 leaves the pointer to the transform null, which is a fault when a unit is output; here it
  is one at once.\<close>

definition set_transform :: "transform option \<Rightarrow> (unit, sw_decoder) pm" where
  "set_transform tr = (case tr of None \<Rightarrow> pfault | Some t \<Rightarrow> pmod (\<lambda>d. d\<lparr>sw_transform := t\<rparr>))"

definition progressive_set_up :: "(nat \<Rightarrow> nat \<Rightarrow> derived_tbl) \<Rightarrow> int \<Rightarrow> nat \<Rightarrow> (unit, sw_decoder) pm" where
  "progressive_set_up fresh decoded_stream_len level =
     pthen (on_frame JPEGFW_AllocMCUBuf)
    (pbind (pget (\<lambda>d. InitTransFun (scale_factor (pcodec (sw_prog d))))) (\<lambda>tr.
     pthen (set_transform (fst tr))
    (pthen (on_prog (JPEG_Generate_Entry_Point_Map_Progressive fresh decoded_stream_len))
    (pthen (pbind (pget (\<lambda>d. using_default_quant_tab (pcodec (sw_prog d)))) (\<lambda>default.
        if default then on_prog (on_codec (JPEGFW_InitQuantTbl level)) else pret ()))
     (on_frame (\<lambda>d. map_option (\<lambda>q. d\<lparr>quant_tbl_new := q\<rparr>) (AdjustQuantTbl_Dec (snd tr) (pcodec (sw_prog d)))))))))"

definition JPEG_HWDecInit_progressive :: "(nat \<Rightarrow> nat \<Rightarrow> derived_tbl) \<Rightarrow> int \<Rightarrow> nat \<Rightarrow> bit_buffer \<Rightarrow> jpeg_codec
    \<Rightarrow> (unit, sw_decoder) jres option" where
  "JPEG_HWDecInit_progressive fresh decoded_stream_len level b j =
     progressive_set_up fresh decoded_stream_len level (new_progressive b j)"

subsection \<open>What the run over the stream leaves alone\<close>

text \<open>The geometry of the picture and the memory of the units.\<close>

definition geometry :: "jpeg_codec \<Rightarrow> sample_ratio list \<times> u16" where
  "geometry j = (ratio j, mcu_num_x j)"

definition memory :: "prog \<Rightarrow> (sample_ratio list \<times> u16) \<times> coef list list \<times> bytes" where
  "memory s = (geometry (pcodec s), block_line s, blocks_membership s)"

lemma steady_read_table: "steady geometry (read_table bs p)"
  unfolding read_table_def Let_def by (auto intro!: steadily simp: geometry_def)

lemma table_loop_geometry:
  assumes "table_loop bs p len j = Some r"
  shows "(\<forall>u j'. r = JOk u j' \<longrightarrow> geometry j' = geometry j) \<and> (\<forall>j'. r = JFail j' \<longrightarrow> geometry j' = geometry j)"
  using assms
proof (rule table_loop.raw_induct [rotated])
  fix loop :: "bytes \<Rightarrow> nat \<Rightarrow> u16 \<Rightarrow> (unit, jpeg_codec) pm" and bs p len j r
  assume ih: "\<And>bs p len j r. loop bs p len j = Some r \<Longrightarrow>
      (\<forall>u j'. r = JOk u j' \<longrightarrow> geometry j' = geometry j) \<and> (\<forall>j'. r = JFail j' \<longrightarrow> geometry j' = geometry j)"
    and run: "(if 0 < len then case read_table bs p j of None \<Rightarrow> None | Some (JOk n j') \<Rightarrow> loop bs (p + n) (len - of_nat n) j'
        | Some (JFail j') \<Rightarrow> Some (JFail j') | Some JFault \<Rightarrow> Some JFault else Some (JOk () j)) = Some r"
  show "(\<forall>u j'. r = JOk u j' \<longrightarrow> geometry j' = geometry j) \<and> (\<forall>j'. r = JFail j' \<longrightarrow> geometry j' = geometry j)"
    using run steady_read_table [of bs p] unfolding steady_def
    by (fastforce split: if_splits option.splits jres.splits dest: ih)
qed

lemma steady_codec: "steady geometry m \<Longrightarrow> steady memory (on_codec m)"
  by (auto simp: steady_def on_codec_def memory_def split: option.splits jres.splits)

lemma steady_plan: "steady memory (scan_plan fresh bs p k d ps)"
proof -
  have entropy: "steady memory (mod_entropy f)" for f
    unfolding mod_entropy_def Let_def by (auto intro!: steadily simp: memory_def)
  have build: "steady memory (build_vld_table is_dc n)" for is_dc n
    unfolding build_vld_table_def by (auto intro!: steadily entropy split: option.split)
  have "steady memory (entropy_component sc ci)" for sc ci
    unfolding entropy_component_def by (intro steadily build entropy)
  then have info: "steady memory (init_scan_entropy_info f)" for f
    unfolding init_scan_entropy_info_def by (auto intro!: steadily entropy)
  have one: "steady memory (init_one_scan fresh k p n)" for k p n
    unfolding init_one_scan_def init_component_def mod_scan_def
    by (auto intro!: steadily info simp: memory_def)
  have "steady memory (find_id cc i cis)" for cc i cis
    by (induction cis) (auto intro!: steadily simp: memory_def)
  then have "steady memory (scan_component_ids bs p i)" for p i
    unfolding scan_component_ids_def by (auto intro!: steadily simp: memory_def geometry_def Let_def)
  then have sos: "steady memory (get_sos bs p)" for p
    unfolding get_sos_def Let_def by (auto intro!: steadily simp: memory_def geometry_def)
  have "steady geometry (table_loop bs p len)" for p len
    unfolding steady_def using table_loop_geometry by fastforce
  then have table: "steady memory (get_huff_table bs p)" for p
    unfolding get_huff_table_def by (intro steadily steady_codec)
  show ?thesis
  proof (induction ps arbitrary: p k d)
    case Nil
    show ?case by (simp add: one)
  next
    case (Cons pt ps)
    then show ?case by (cases pt) (auto intro!: steadily one sos table split: option.split)
  qed
qed

definition unit_memory :: "sw_decoder \<Rightarrow> ((sample_ratio list \<times> u16) \<times> coef list list \<times> bytes) \<times> bytes list" where
  "unit_memory d = (memory (sw_prog d), org_blocks d)"

lemma on_prog_Ok: "on_prog m d = Some (JOk a d') \<longleftrightarrow> (\<exists>s'. m (sw_prog d) = Some (JOk a s') \<and> d' = d\<lparr>sw_prog := s'\<rparr>)"
  by (auto simp: on_prog_def split: option.splits jres.splits)

lemma on_frame_Ok: "on_frame f d = Some (JOk u d') \<longleftrightarrow> f d = Some d'"
  by (auto simp: on_frame_def split: option.splits)

lemma InitQuantTbl_memory: "steady memory (on_codec (JPEGFW_InitQuantTbl level))"
  unfolding JPEGFW_InitQuantTbl_def by (intro steady_codec steadily) (simp add: geometry_def)

lemma replicate_six: "replicate 6 x = [x, x, x, x, x, x]"
  by (simp add: numeral_eq_Suc)

lemma alloc_420:
  assumes "map (\<lambda>r. (h_ratio r, v_ratio r)) (ratio j) = [(2, 2), (1, 1), (1, 1)]"
  shows "JPEGFW_AllocMCUBuf (new_progressive b j) = Some ((new_progressive b j)\<lparr>sw_prog := (sw_prog (new_progressive b j))
     \<lparr>block_line := [replicate (64 * unat (mcu_num_x j) * 4) 0, replicate (64 * unat (mcu_num_x j)) 0,
        replicate (64 * unat (mcu_num_x j)) 0], blocks_membership := [0, 0, 0, 0, 1, 2]\<rparr>,
      org_blocks := replicate 6 (replicate 64 0)\<rparr>)"
proof -
  obtain r0 r1 r2 where r: "ratio j = [r0, r1, r2]" "h_ratio r0 = 2" "v_ratio r0 = 2" "h_ratio r1 = 1" "v_ratio r1 = 1"
    "h_ratio r2 = 1" "v_ratio r2 = 1"
    using assms(1) by (auto simp: map_eq_Cons_conv)
  have "replicate 4 (0 :: u8) = [0, 0, 0, 0]" by (simp add: numeral_eq_Suc)
  with r have "concat (map (\<lambda>c. replicate (unat (h_ratio (ratio j ! c)) * unat (v_ratio (ratio j ! c))) (of_nat c)) [0, 1, 2])
      = ([0, 0, 0, 0, 1, 2] :: bytes)"
    by simp
  then show ?thesis
    using r replicate_six [of "replicate 64 (0 :: u8)"] by (simp add: JPEGFW_AllocMCUBuf_def new_progressive_def Let_def)
qed

text \<open>The rest of the set-up leaves the memory alone.\<close>

lemma set_up_memory:
  assumes "JPEG_HWDecInit_progressive fresh slen level b j = Some (JOk u d)"
    and "stream b = dt @ later_scans ps" "scan_data dt" "\<forall>pt \<in> set ps. part_ok pt" "int (length (stream b)) \<le> slen"
    and "map (\<lambda>r. (h_ratio r, v_ratio r)) (ratio j) = [(2, 2), (1, 1), (1, 1)]"
  shows "unit_memory d = ((geometry j, [replicate (64 * unat (mcu_num_x j) * 4) 0, replicate (64 * unat (mcu_num_x j)) 0,
      replicate (64 * unat (mcu_num_x j)) 0], [0, 0, 0, 0, 1, 2]), replicate 6 (replicate 64 0))"
proof -
  let ?gen = "JPEG_Generate_Entry_Point_Map_Progressive fresh slen"
  from assms(1) obtain d1 d2 d3 d4 tr q where d1: "JPEGFW_AllocMCUBuf (new_progressive b j) = Some d1"
    and d2: "set_transform tr d1 = Some (JOk () d2)" and d3: "on_prog ?gen d2 = Some (JOk () d3)"
    and d4: "(if using_default_quant_tab (pcodec (sw_prog d3)) then on_prog (on_codec (JPEGFW_InitQuantTbl level)) else pret ()) d3 = Some (JOk () d4)"
    and d: "d = d4\<lparr>quant_tbl_new := q\<rparr>"
    by (auto simp: JPEG_HWDecInit_progressive_def progressive_set_up_def pbind_pget on_frame_Ok elim!: pthen_OkE)
  from d1 have alloc: "unit_memory d1 = ((geometry j, [replicate (64 * unat (mcu_num_x j) * 4) 0, replicate (64 * unat (mcu_num_x j)) 0,
      replicate (64 * unat (mcu_num_x j)) 0], [0, 0, 0, 0, 1, 2]), replicate 6 (replicate 64 0))" "pbits (sw_prog d1) = b"
    unfolding alloc_420 [OF assms(6)] by (auto simp: unit_memory_def memory_def new_progressive_def)
  have m2: "unit_memory d2 = unit_memory d1" "pbits (sw_prog d2) = b"
    using d2 alloc(2) by (auto simp: set_transform_def unit_memory_def pstmt split: option.splits)
  from d3 obtain s3 where s3: "?gen (sw_prog d2) = Some (JOk () s3)" "d3 = d2\<lparr>sw_prog := s3\<rparr>" by (auto simp: on_prog_Ok)
  have "steady memory (pthen (scan_plan fresh (stream b) 0 0 dt ps) (pmod (\<lambda>s. s\<lparr>p_input_scan_number := of_nat (length ps + 1)\<rparr>)))"
    by (intro steadily steady_plan) (simp add: memory_def)
  moreover have "pthen (scan_plan fresh (stream b) 0 0 dt ps) (pmod (\<lambda>s. s\<lparr>p_input_scan_number := of_nat (length ps + 1)\<rparr>)) (sw_prog d2)
      = Some (JOk () s3)"
    using scans_found [of "sw_prog d2" dt ps slen fresh] assms(2-5) m2(2) s3(1) by simp
  ultimately have "memory s3 = memory (sw_prog d2)" by (rule steadyD(1))
  then have m3: "unit_memory d3 = unit_memory d2" by (simp add: unit_memory_def s3(2))
  have "unit_memory d4 = unit_memory d3"
    using d4 steadyD(1) [OF InitQuantTbl_memory] by (auto simp: on_prog_Ok unit_memory_def pret_def split: if_splits)
  with m2 m3 alloc(1) d show ?thesis by (auto simp: unit_memory_def)
qed

text \<open>
  C10: After the set-up of a 4:2:0 picture the blocks of every unit are there.  For each of the six places of a unit in the row
  the block that is transformed for it lies inside its block line, it belongs to the component that the table of
  memberships names, and the place for its samples has 64 bytes: none of the accesses of the output to these arrays can
  leave them.
\<close>

theorem set_up_blocks_fit:
  assumes "JPEG_HWDecInit_progressive fresh slen level b j = Some (JOk u d)"
    and "stream b = dt @ later_scans ps" "scan_data dt" "\<forall>pt \<in> set ps. part_ok pt" "int (length (stream b)) \<le> slen"
    and "map (\<lambda>r. (h_ratio r, v_ratio r)) (ratio j) = [(2, 2), (1, 1), (1, 1)]" "x < unat (mcu_num_x j)" "i < 6"
  shows "\<exists>l off. output_block (pcodec (sw_prog d)) 4 x i = Some (l, off) \<and> l = unat (blocks_membership (sw_prog d) ! i)
     \<and> l < length (block_line (sw_prog d)) \<and> off + 64 \<le> length (block_line (sw_prog d) ! l)
     \<and> i < length (org_blocks d) \<and> length (org_blocks d ! i) = 64"
proof -
  let ?n = "unat (mcu_num_x j)"
  from set_up_memory [OF assms(1-6)] have m: "ratio (pcodec (sw_prog d)) = ratio j" "mcu_num_x (pcodec (sw_prog d)) = mcu_num_x j"
    "block_line (sw_prog d) = [replicate (64 * ?n * 4) 0, replicate (64 * ?n) 0, replicate (64 * ?n) 0]"
    "blocks_membership (sw_prog d) = [0, 0, 0, 0, 1, 2]" "org_blocks d = replicate 6 (replicate 64 0)"
    by (simp_all add: unit_memory_def memory_def geometry_def)
  have r: "ratio j \<noteq> []" "h_ratio (ratio j ! 0) = 2" "v_ratio (ratio j ! 0) = 2" using assms(6) by (auto simp: map_eq_Cons_conv)
  from assms(8) have "i = 0 \<or> i = 1 \<or> i = 2 \<or> i = 3 \<or> i = 4 \<or> i = 5" by auto
  then show ?thesis using assms(7) r by (elim disjE) (simp_all add: output_block_def m Let_def)
qed

text \<open>Example data: a picture of one unit and two scans that refine DC values.\<close>

definition codec_420 :: jpeg_codec where
  "codec_420 = zero_codec\<lparr>ratio := [\<lparr>h_ratio = 2, v_ratio = 2\<rparr>, \<lparr>h_ratio = 1, v_ratio = 1\<rparr>, \<lparr>h_ratio = 1, v_ratio = 1\<rparr>],
     mcu_num_x := 1, Ah := 1, comps_in_scan := 1, comp_id_map := [1, 2, 3], num_components := 1,
     comp_info := [zero_component\<lparr>component_id := 1\<rparr>], quant_tbl := [replicate 64 1, replicate 64 1, []]\<rparr>"

definition stream_420 :: bit_buffer where
  "stream_420 = sample_bits ([0x12] @ later_scans [(None, [1, 1, 0, 0, 0, 0x10], [0x56])])"

lemma scans_420: "\<exists>s'. JPEG_Generate_Entry_Point_Map_Progressive (\<lambda>_ _. cleared_table) 20
    ((sw_prog (new_progressive stream_420 codec_420))\<lparr>block_line := l, blocks_membership := m\<rparr>) = Some (JOk () s')
    \<and> \<not> using_default_quant_tab (pcodec s') \<and> (\<exists>q. AdjustQuantTbl_Dec True (pcodec s') = Some q)"
proof -
  let ?s = "(sw_prog (new_progressive stream_420 codec_420))\<lparr>block_line := l, blocks_membership := m\<rparr>"
  have s: "stream (pbits ?s) = [0x12] @ later_scans [(None, [1, 1, 0, 0, 0, 0x10], [0x56])]"
    by (simp add: new_progressive_def stream_420_def sample_bits_def)
  have "int (length (stream (pbits ?s))) \<le> 20" unfolding s by (simp add: segment_def)
  then show ?thesis
    by (subst scans_found [OF s])
      (simp_all add: part_ok_def set_up word_at_def char_at_def segment_def new_progressive_def stream_420_def codec_420_def
        null_scan_def sample_bits_def zero_codec_def zero_component_def Let_def component.extend_def mk16_def
        AdjustQuantTbl_Dec_def zero_map_entry_def)
qed

lemma set_up_420: "\<exists>d. JPEG_HWDecInit_progressive (\<lambda>_ _. cleared_table) 20 0 stream_420 codec_420 = Some (JOk () d)"
proof -
  have "map (\<lambda>r. (h_ratio r, v_ratio r)) (ratio codec_420) = [(2, 2), (1, 1), (1, 1)]" by (simp add: codec_420_def)
  from alloc_420 [OF this, of stream_420] obtain d l m where d: "JPEGFW_AllocMCUBuf (new_progressive stream_420 codec_420) = Some d"
    "sw_prog d = (sw_prog (new_progressive stream_420 codec_420))\<lparr>block_line := l, blocks_membership := m\<rparr>" by auto
  from scans_420 [where l = l and m = m] obtain s' q where s': "JPEG_Generate_Entry_Point_Map_Progressive (\<lambda>_ _. cleared_table) 20 (sw_prog d) = Some (JOk () s')"
    "\<not> using_default_quant_tab (pcodec s')" "AdjustQuantTbl_Dec True (pcodec s') = Some q" unfolding d(2) by auto
  have "scale_factor (pcodec (sw_prog d)) = 0" unfolding d(2) by (simp add: new_progressive_def codec_420_def zero_codec_def)
  with d(1) s' show ?thesis
    by (simp add: JPEG_HWDecInit_progressive_def progressive_set_up_def on_frame_def on_prog_def set_transform_def InitTransFun_def pstmt)
qed

theorem set_up_blocks_fit_witness:
  "\<exists>d l off. JPEG_HWDecInit_progressive (\<lambda>_ _. cleared_table) 20 0 stream_420 codec_420 = Some (JOk () d)
     \<and> output_block (pcodec (sw_prog d)) 4 0 5 = Some (l, off) \<and> off + 64 \<le> length (block_line (sw_prog d) ! l)"
proof -
  obtain d where d: "JPEG_HWDecInit_progressive (\<lambda>_ _. cleared_table) 20 0 stream_420 codec_420 = Some (JOk () d)"
    using set_up_420 by blast
  have s: "stream stream_420 = [0x12] @ later_scans [(None, [1, 1, 0, 0, 0, 0x10], [0x56])]"
    by (simp add: stream_420_def sample_bits_def)
  have len: "int (length (stream stream_420)) \<le> 20" unfolding s by (simp add: segment_def)
  have "\<forall>pt \<in> set [(None, [1, 1, 0, 0, 0, 0x10], [0x56])]. part_ok pt" by (simp add: part_ok_def)
  from set_up_blocks_fit [OF d s _ this len, of 0 5] d show ?thesis by (auto simp: codec_420_def)
qed

end
