(* ===== verification/EngTok.thy ===== *)
theory EngTok
  imports Prelude
begin

text \<open>
  The reader of AT lines of the engineering mode, \<^verbatim>\<open>engcs/eng_attok.c\<close>.  A position in a line is the text from
  there to the end of the string, or nothing for a null pointer; \<open>strsep\<close> ends a token by a null byte in the
  line, and what it has passed is not looked at again.  \<open>long\<close> has 32 bits, as \<open>int\<close> has.
\<close>

type_synonym cursor = "bytes option"

subsection \<open>Characters and library functions\<close>

definition isspace :: "u8 \<Rightarrow> bool" where
  "isspace c \<longleftrightarrow> c = 0x20 \<or> (0x09 \<le> c \<and> c \<le> 0x0D)"

text \<open>The value of a digit up to base 36.\<close>

definition digit_value :: "u8 \<Rightarrow> nat option" where
  "digit_value c = (if 0x30 \<le> c \<and> c \<le> 0x39 then Some (unat (c - 0x30))
     else if 0x41 \<le> c \<and> c \<le> 0x5A then Some (unat (c - 0x41) + 10)
     else if 0x61 \<le> c \<and> c \<le> 0x7A then Some (unat (c - 0x61) + 10)
     else None)"

definition is_digit :: "nat \<Rightarrow> u8 \<Rightarrow> bool" where
  "is_digit base c = (case digit_value c of None \<Rightarrow> False | Some v \<Rightarrow> v < base)"

definition digits_value :: "nat \<Rightarrow> bytes \<Rightarrow> nat" where
  "digits_value base ds = foldl (\<lambda>v c. v * base + the (digit_value c)) 0 ds"

text \<open>\<open>strtol\<close> and \<open>strtoul\<close>: space, a sign, for base 16 an optional \<open>0x\<close>, and digits; the value stays inside the
  type, and \<open>strtoul\<close> negates in it.  The second part says whether there was a number.\<close>

definition skip_0x :: "nat \<Rightarrow> bytes \<Rightarrow> bytes" where
  "skip_0x base s = (case s of c # x # d # r \<Rightarrow>
        if base = 16 \<and> c = 0x30 \<and> (x = 0x78 \<or> x = 0x58) \<and> is_digit 16 d then d # r else s
      | _ \<Rightarrow> s)"

definition strto :: "nat \<Rightarrow> bool \<Rightarrow> bytes \<Rightarrow> u32 \<times> bool" where
  "strto base uns s =
    (let s = dropWhile isspace s;
         neg = (s \<noteq> [] \<and> hd s = 0x2D);
         s = (if s \<noteq> [] \<and> (hd s = 0x2D \<or> hd s = 0x2B) then tl s else s);
         ds = takeWhile (is_digit base) (skip_0x base s);
         v = digits_value base ds
     in if ds = [] then (0, False)
        else (if uns then (if 2 ^ 32 \<le> v then - 1 else if neg then - of_nat v else of_nat v)
              else if neg then (if 2 ^ 31 \<le> v then - (2 ^ 31) else - of_nat v)
              else (if 2 ^ 31 \<le> v then 2 ^ 31 - 1 else of_nat v), True))"

definition behind :: "u8 \<Rightarrow> bytes \<Rightarrow> cursor" where
  "behind c s = (if c \<in> set s then Some (tl (dropWhile (\<lambda>x. x \<noteq> c) s)) else None)"

definition strsep :: "u8 \<Rightarrow> cursor \<Rightarrow> bytes option \<times> cursor" where
  "strsep c p = (case p of None \<Rightarrow> (None, None) | Some s \<Rightarrow> (Some (takeWhile (\<lambda>x. x \<noteq> c) s), behind c s))"

subsection \<open>\<^verbatim>\<open>eng_attok.c\<close>\<close>

text \<open>The result 0 or -1, and the position.\<close>

definition at_tok_start :: "cursor \<Rightarrow> int \<times> cursor" where
  "at_tok_start p = (case p of None \<Rightarrow> (- 1, None)
     | Some s \<Rightarrow> (case behind 0x3A s of None \<Rightarrow> (- 1, None) | Some r \<Rightarrow> (0, Some r)))"

definition skipWhiteSpace :: "cursor \<Rightarrow> cursor" where
  "skipWhiteSpace = map_option (dropWhile isspace)"

definition skipNextComma :: "cursor \<Rightarrow> cursor" where
  "skipNextComma = map_option (\<lambda>s. let r = dropWhile (\<lambda>c. c \<noteq> 0x2C) s in if r \<noteq> [] then tl r else r)"

definition nextTok :: "cursor \<Rightarrow> bytes option \<times> cursor" where
  "nextTok p = (case skipWhiteSpace p of
       None \<Rightarrow> (None, None)
     | Some s \<Rightarrow> if s \<noteq> [] \<and> hd s = 0x22
         then (case strsep 0x22 (Some (tl s)) of (ret, p) \<Rightarrow> (ret, skipNextComma p))
         else strsep 0x2C (Some s))"

text \<open>The result, what is stored, if anything, and the position.\<close>

definition at_tok_nextint_base :: "nat \<Rightarrow> bool \<Rightarrow> cursor \<Rightarrow> int \<times> u32 option \<times> cursor" where
  "at_tok_nextint_base base uns p = (case p of
       None \<Rightarrow> (- 1, None, None)
     | Some _ \<Rightarrow> (case nextTok p of
         (None, p) \<Rightarrow> (- 1, None, p)
       | (Some ret, p) \<Rightarrow> (case strto base uns ret of (l, found) \<Rightarrow> (if found then 0 else - 1, Some l, p))))"

definition at_tok_nextint :: "cursor \<Rightarrow> int \<times> u32 option \<times> cursor" where
  "at_tok_nextint = at_tok_nextint_base 10 False"

definition at_tok_nexthexint :: "cursor \<Rightarrow> int \<times> u32 option \<times> cursor" where
  "at_tok_nexthexint = at_tok_nextint_base 16 True"

definition at_tok_nextbool :: "cursor \<Rightarrow> int \<times> u8 option \<times> cursor" where
  "at_tok_nextbool p = (case at_tok_nextint p of (ret, result, p) \<Rightarrow>
     if ret < 0 then (- 1, None, p)
     else (case result of None \<Rightarrow> (- 1, None, p)
       | Some v \<Rightarrow> if v = 0 \<or> v = 1 then (ret, Some (ucast v), p) else (- 1, None, p)))"

definition at_tok_nextstr :: "cursor \<Rightarrow> int \<times> bytes option option \<times> cursor" where
  "at_tok_nextstr p = (case p of None \<Rightarrow> (- 1, None, None) | Some _ \<Rightarrow> (case nextTok p of (ret, p) \<Rightarrow> (0, Some ret, p)))"

definition at_tok_hasmore :: "cursor \<Rightarrow> bool" where
  "at_tok_hasmore p \<longleftrightarrow> \<not> (p = None \<or> p = Some [])"

subsection \<open>Lines as they are written\<close>

text \<open>A field is a text that is quoted, or one that is not; the fields stand behind a prefix with a colon and have
  commas between them.\<close>

datatype at_field = Quoted bytes | Plain bytes

fun field_text :: "at_field \<Rightarrow> bytes" where
  "field_text (Quoted t) = t"
| "field_text (Plain t) = t"

fun field_ok :: "at_field \<Rightarrow> bool" where
  "field_ok (Quoted t) = (0x22 \<notin> set t)"
| "field_ok (Plain t) = (0x2C \<notin> set t \<and> (t = [] \<or> \<not> isspace (hd t) \<and> hd t \<noteq> 0x22))"

fun field_line :: "at_field \<Rightarrow> bytes" where
  "field_line (Quoted t) = 0x22 # t @ [0x22]"
| "field_line (Plain t) = t"

text \<open>A space before a field is no part of it.\<close>

fun fields_line :: "(bytes \<times> at_field) list \<Rightarrow> bytes" where
  "fields_line [] = []"
| "fields_line [(sp, f)] = sp @ field_line f"
| "fields_line ((sp, f) # fs) = sp @ field_line f @ 0x2C # fields_line fs"

fun tokens :: "nat \<Rightarrow> cursor \<Rightarrow> bytes option list \<times> cursor" where
  "tokens 0 p = ([], p)"
| "tokens (Suc n) p = (case nextTok p of (t, p) \<Rightarrow> case tokens n p of (ts, p) \<Rightarrow> (t # ts, p))"

lemma takeWhile_to: "c \<notin> set t \<Longrightarrow> takeWhile (\<lambda>x. x \<noteq> c) (t @ c # r) = t" "c \<notin> set t \<Longrightarrow> takeWhile (\<lambda>x. x \<noteq> c) t = t"
  by (induction t) auto

lemma behind_found: "c \<notin> set t \<Longrightarrow> behind c (t @ c # r) = Some r" "c \<notin> set t \<Longrightarrow> behind c t = None"
proof -
  show "c \<notin> set t \<Longrightarrow> behind c (t @ c # r) = Some r"
    by (induction t) (auto simp: behind_def)
qed (simp add: behind_def)

lemma skip_space: "\<forall>c \<in> set sp. isspace c \<Longrightarrow> s = [] \<or> \<not> isspace (hd s) \<Longrightarrow> skipWhiteSpace (Some (sp @ s)) = Some s"
  by (induction sp) (cases s; auto simp: skipWhiteSpace_def)+

lemma comma_no_space: "\<not> isspace 0x2C" "\<not> isspace 0x22"
  by (simp_all add: isspace_def)

lemma nextTok_field:
  assumes "\<forall>c \<in> set sp. isspace c" "field_ok f"
  shows "nextTok (Some (sp @ field_line f @ 0x2C # r)) = (Some (field_text f), Some r)"
    "nextTok (Some (sp @ field_line f)) = (Some (field_text f), (case f of Quoted t \<Rightarrow> Some [] | Plain t \<Rightarrow> None))"
proof -
  have sp: "skipWhiteSpace (Some (sp @ field_line f @ 0x2C # r)) = Some (field_line f @ 0x2C # r)"
    "skipWhiteSpace (Some (sp @ field_line f)) = Some (field_line f)"
    using assms comma_no_space by (cases f; intro skip_space; auto simp: hd_append)+
  show "nextTok (Some (sp @ field_line f @ 0x2C # r)) = (Some (field_text f), Some r)"
    "nextTok (Some (sp @ field_line f)) = (Some (field_text f), (case f of Quoted t \<Rightarrow> Some [] | Plain t \<Rightarrow> None))"
  proof -
    show "nextTok (Some (sp @ field_line f @ 0x2C # r)) = (Some (field_text f), Some r)"
    proof (cases f)
      case (Quoted t)
      with sp(1) assms(2) show ?thesis
        by (simp add: nextTok_def strsep_def takeWhile_to behind_found skipNextComma_def)
    next
      case (Plain t)
      then have "hd (t @ 0x2C # r) \<noteq> 0x22" "0x2C \<notin> set t" using assms(2) by (cases t; auto)+
      with sp(1) Plain show ?thesis by (simp add: nextTok_def strsep_def takeWhile_to behind_found)
    qed
    show "nextTok (Some (sp @ field_line f)) = (Some (field_text f), (case f of Quoted t \<Rightarrow> Some [] | Plain t \<Rightarrow> None))"
    proof (cases f)
      case (Quoted t)
      with sp(2) assms(2) show ?thesis
        by (simp add: nextTok_def strsep_def takeWhile_to behind_found skipNextComma_def)
    next
      case (Plain t)
      with sp(2) assms(2) show ?thesis by (auto simp: nextTok_def strsep_def takeWhile_to behind_found)
    qed
  qed
qed

text \<open>
  C21: A line of fields is read back.  The tokens of a line are the texts of its fields, quoted or not, whatever space stands
  before them, and with commas inside the quoted ones; after the last one there is nothing more.
\<close>

theorem tokens_of_line:
  assumes "\<forall>(sp, f) \<in> set fs. (\<forall>c \<in> set sp. isspace c) \<and> field_ok f" "fs \<noteq> []" "0x3A \<notin> set prefix"
  shows "\<exists>p. at_tok_start (Some (prefix @ 0x3A # fields_line fs)) = (0, Some (fields_line fs))
    \<and> tokens (length fs) (Some (fields_line fs)) = (map (\<lambda>(sp, f). Some (field_text f)) fs, p) \<and> \<not> at_tok_hasmore p"
proof -
  have "\<exists>p. tokens (length fs) (Some (fields_line fs)) = (map (\<lambda>(sp, f). Some (field_text f)) fs, p) \<and> \<not> at_tok_hasmore p"
    using assms(1,2)
  proof (induction fs rule: fields_line.induct)
    case (2 sp f)
    then have "nextTok (Some (sp @ field_line f)) = (Some (field_text f), (case f of Quoted t \<Rightarrow> Some [] | Plain t \<Rightarrow> None))"
      by (intro nextTok_field(2)) auto
    then show ?case by (auto simp: at_tok_hasmore_def split: at_field.split)
  next
    case (3 sp f v fs)
    then obtain p where p: "tokens (length (v # fs)) (Some (fields_line (v # fs)))
        = (map (\<lambda>(sp, f). Some (field_text f)) (v # fs), p)" "\<not> at_tok_hasmore p" by auto
    have "nextTok (Some (sp @ field_line f @ 0x2C # fields_line (v # fs))) = (Some (field_text f), Some (fields_line (v # fs)))"
      using 3 by (intro nextTok_field(1)) auto
    then have "tokens (Suc (length (v # fs))) (Some (fields_line ((sp, f) # v # fs)))
        = (Some (field_text f) # map (\<lambda>(sp, f). Some (field_text f)) (v # fs), p)"
      using p(1) by (simp only: fields_line.simps tokens.simps prod.case)
    with p(2) show ?case by auto
  qed simp
  moreover have "at_tok_start (Some (prefix @ 0x3A # fields_line fs)) = (0, Some (fields_line fs))"
    using assms(3) by (simp add: at_tok_start_def behind_found)
  ultimately show ?thesis by blast
qed

text \<open>The answer \<open>+CREG: 2, "a,b"\<close>.\<close>

theorem tokens_of_line_witness:
  "\<exists>p. tokens (Suc (Suc 0)) (Some [0x32, 0x2C, 0x20, 0x22, 0x61, 0x2C, 0x62, 0x22]) = ([Some [0x32], Some [0x61, 0x2C, 0x62]], p) \<and> \<not> at_tok_hasmore p"
  using tokens_of_line [of "[([], Plain [0x32]), ([0x20], Quoted [0x61, 0x2C, 0x62])]" "[0x2B]"]
  by (simp add: isspace_def del: tokens.simps)

subsection \<open>Numbers\<close>

text \<open>A number as \<open>printf\<close> writes it with the conversion \<open>d\<close>.\<close>

fun decimal :: "nat \<Rightarrow> bytes" where
  "decimal n = (if n < 10 then [0x30 + of_nat n] else decimal (n div 10) @ [0x30 + of_nat (n mod 10)])"

declare decimal.simps [simp del]

definition print_int :: "int \<Rightarrow> bytes" where
  "print_int i = (if i < 0 then 0x2D # decimal (nat (- i)) else decimal (nat i))"

lemma digit_table: "list_all (\<lambda>n. digit_value (0x30 + of_nat n) = Some n \<and> is_digit 10 (0x30 + of_nat n) \<and> \<not> isspace (0x30 + of_nat n)
    \<and> (0x30 + of_nat n :: u8) \<notin> {0x2C, 0x22, 0x2D, 0x2B}) [0, 1, 2, 3, 4, 5, 6, 7, 8, 9]"
  by (simp add: digit_value_def is_digit_def isspace_def)

lemma dec_char:
  assumes "n < 10"
  shows "digit_value (0x30 + of_nat n) = Some n" "is_digit 10 (0x30 + of_nat n)" "\<not> isspace (0x30 + of_nat n)"
    "(0x30 + of_nat n :: u8) \<notin> {0x2C, 0x22, 0x2D, 0x2B}"
proof -
  have "n \<in> set [0, 1, 2, 3, 4, 5, 6, 7, 8, 9]" using assms by (auto simp: less_Suc_eq numeral_eq_Suc)
  with digit_table show "digit_value (0x30 + of_nat n) = Some n" "is_digit 10 (0x30 + of_nat n)" "\<not> isspace (0x30 + of_nat n)"
    "(0x30 + of_nat n :: u8) \<notin> {0x2C, 0x22, 0x2D, 0x2B}"
    unfolding list_all_iff by blast+
qed

lemma decimal_chars: "set (decimal n) \<subseteq> {0x30 + of_nat k | k. k < 10}" "decimal n \<noteq> []"
proof (induction n rule: decimal.induct)
  case (1 n)
  { case 1 show ?case using "1.IH" by (subst decimal.simps) auto }
  { case 2 show ?case by (subst decimal.simps) simp }
qed

lemma decimal_value: "digits_value 10 (decimal n) = n"
proof (induction n rule: decimal.induct)
  case (1 n)
  then show ?case
    by (subst decimal.simps) (auto simp: digits_value_def dec_char)
qed

lemma decimal_first: "\<not> isspace (hd (decimal n))" "hd (decimal n) \<notin> {0x2C, 0x22, 0x2D, 0x2B}"
proof -
  have "hd (decimal n) \<in> set (decimal n)" using decimal_chars(2) by simp
  then obtain k where c: "hd (decimal n) = 0x30 + of_nat k" "k < 10" using decimal_chars(1) by blast
  show "\<not> isspace (hd (decimal n))" "hd (decimal n) \<notin> {0x2C, 0x22, 0x2D, 0x2B}"
    unfolding c(1) using dec_char(3,4) [OF c(2)] by blast+
qed

lemma decimal_digits: "c \<in> set (decimal n) \<Longrightarrow> is_digit 10 c \<and> c \<noteq> 0x2C"
proof -
  assume "c \<in> set (decimal n)"
  then obtain k where c: "c = 0x30 + of_nat k" "k < 10" using decimal_chars(1) by blast
  from dec_char(2,4) [OF c(2)] show ?thesis unfolding c(1) by blast
qed

lemma strto_print_int:
  assumes "- (2 ^ 31) \<le> i" "i < 2 ^ 31"
  shows "strto 10 False (print_int i) = (of_int i, True)"
proof -
  have space: "dropWhile isspace (print_int i) = print_int i"
    using decimal_first(1) by (auto simp: print_int_def isspace_def intro!: dropWhile_eq_self_iff [THEN iffD2])
  have skip: "skip_0x 10 s = s" for s by (simp add: skip_0x_def split: list.split)
  have digits: "takeWhile (is_digit 10) (decimal n) = decimal n" for n
    using decimal_digits by (simp add: takeWhile_eq_all_conv)
  show ?thesis
  proof (cases "i < 0")
    case True
    then have "print_int i = 0x2D # decimal (nat (- i))" by (simp add: print_int_def)
    moreover have "nat (- i) = 2 ^ 31 \<or> nat (- i) < 2 ^ 31" using assms(1) True by (simp add: nat_less_iff, linarith)
    moreover have "- of_nat (nat (- i)) = (of_int i :: u32)" using True by simp
    ultimately show ?thesis
      using space decimal_chars(2) by (auto simp: strto_def Let_def skip digits decimal_value)
  next
    case False
    then have "print_int i = decimal (nat i)" by (simp add: print_int_def)
    moreover have "nat i < 2 ^ 31" using assms(2) False by (simp add: nat_less_iff)
    moreover have "of_nat (nat i) = (of_int i :: u32)" using False by simp
    moreover have "hd (decimal (nat i)) \<noteq> 0x2D" "hd (decimal (nat i)) \<noteq> 0x2B" using decimal_first(2) by simp_all
    ultimately show ?thesis
      using space decimal_chars(2) by (simp add: strto_def Let_def skip digits decimal_value)
  qed
qed

text \<open>
  A number is read as it was printed.  For every value of the type the text that \<open>printf\<close> makes of it is read back as
  that value, as a field in the middle of a line and as the last one.
\<close>

theorem nextint_reads_print:
  assumes "- (2 ^ 31) \<le> i" "i < 2 ^ 31"
  shows "at_tok_nextint (Some (print_int i @ 0x2C # r)) = (0, Some (of_int i), Some r)
    \<and> at_tok_nextint (Some (print_int i)) = (0, Some (of_int i), None)"
proof -
  have "0x2C \<notin> set (decimal n)" for n using decimal_digits by blast
  then have "field_ok (Plain (print_int i))"
    using decimal_first by (auto simp: print_int_def isspace_def)
  from nextTok_field [of "[]", OF _ this]
  show "at_tok_nextint (Some (print_int i @ 0x2C # r)) = (0, Some (of_int i), Some r)
    \<and> at_tok_nextint (Some (print_int i)) = (0, Some (of_int i), None)"
    using strto_print_int [OF assms] by (simp_all add: at_tok_nextint_def at_tok_nextint_base_def)
qed

theorem nextint_reads_print_witness: "at_tok_nextint (Some (print_int (- 7) @ 0x2C # [0x31])) = (0, Some (- 7), Some [0x31])"
  using nextint_reads_print [of "- 7" "[0x31]"] by simp

end
