(* ===== verification/EngDiag.thy ===== *)
theory EngDiag
  imports Packet EngTok
begin

text \<open>
  The diagnostic channel of the engineering mode: \<^verbatim>\<open>engcs/vdiag.c\<close> collects a frame from what it reads of the
  serial line, and \<^verbatim>\<open>engcs/eng_diag.c\<close> takes the frames for the audio parameters and for the factory mode out of the
  stream to the modem and answers them.  The escaping of bytes and the two conversions between bytes and digits are
  functions of the same file.  A null pointer that is read, and an access outside an object, is \<^term>\<open>None\<close>.
\<close>

subsection \<open>Escaped bytes\<close>

definition special :: "u8 \<Rightarrow> bool" where
  "special c \<longleftrightarrow> c = 0x7D \<or> c = 0x7E"

text \<open>Both work inside the buffer and move what stands behind.  The first moves with \<open>memcpy\<close> and reads one byte behind
  its data; two or more bytes that are moved by one place overlap, for which \<open>memcpy\<close> has no meaning.\<close>

function decode7d7e :: "nat \<Rightarrow> nat \<Rightarrow> bytes \<Rightarrow> bytes option" where
  "decode7d7e i len buf =
     (if i < len
      then if length buf \<le> i then None
           else if special (buf ! i)
           then if length buf \<le> len \<or> 2 \<le> len - (i + 1) then None
                else decode7d7e (i + 1) (len - 1)
                  (take i buf @ [buf ! (i + 1) XOR 0x20] @ chunk (i + 2) (len - (i + 1)) buf @ drop len buf)
           else decode7d7e (i + 1) len buf
      else Some buf)"
  by pat_completeness auto
termination
  by (relation "measure (\<lambda>(i, len, buf). len - i)") auto

definition eng_diag_decode7d7e :: "bytes \<Rightarrow> nat \<Rightarrow> bytes option" where
  "eng_diag_decode7d7e buf len = decode7d7e 0 len buf"

text \<open>The result, the new length and the count of bytes that were added.\<close>

function encode7d7e :: "nat \<Rightarrow> nat \<Rightarrow> nat \<Rightarrow> bytes \<Rightarrow> (bytes \<times> nat \<times> nat) option" where
  "encode7d7e i len extra buf =
     (if i < len
      then if length buf \<le> i then None
           else if special (buf ! i)
           then if length buf \<le> len then None
                else encode7d7e (i + 1) (len + 1) (extra + 1)
                  (take i buf @ [0x7D, buf ! i XOR 0x20] @ chunk (i + 1) (len - (i + 1)) buf @ drop (len + 1) buf)
           else encode7d7e (i + 1) len extra buf
      else Some (buf, len, extra))"
  by pat_completeness auto

lemma special_flipped: "special c \<Longrightarrow> \<not> special (c XOR 0x20)"
  by (auto simp: special_def)

lemma chunk_hd: "i < len \<Longrightarrow> i < length buf \<Longrightarrow> chunk i (len - i) buf = buf ! i # chunk (i + 1) (len - (i + 1)) buf"
  by (simp add: chunk_def Cons_nth_drop_Suc [symmetric] Suc_diff_Suc [symmetric])

lemma specials_left:
  assumes "i < len" "i < length buf" "len < length buf" "special (buf ! i)"
  shows "length (filter special (chunk (i + 1) (len + 1 - (i + 1))
      (take i buf @ [0x7D, buf ! i XOR 0x20] @ chunk (i + 1) (len - (i + 1)) buf @ drop (len + 1) buf)))
    < length (filter special (chunk i (len - i) buf))"
proof -
  have "chunk i (len - i) buf = buf ! i # chunk (i + 1) (len - (i + 1)) buf"
    using assms(1,2) by (rule chunk_hd)
  moreover have "chunk (i + 1) (len + 1 - (i + 1)) (take i buf @ [0x7D, buf ! i XOR 0x20] @ chunk (i + 1) (len - (i + 1)) buf @ drop (len + 1) buf)
      = (buf ! i XOR 0x20) # chunk (i + 1) (len - (i + 1)) buf"
    using assms(1-3) by (simp add: chunk_def min_absorb2 take_Cons')
  ultimately show ?thesis using assms(4) special_flipped by simp
qed

termination encode7d7e
proof (relation "measures [\<lambda>(i, len, extra, buf). length (filter special (chunk i (len - i) buf)), \<lambda>(i, len, extra, buf). len - i]",
    goal_cases)
  case 1
  show ?case by simp
next
  case (2 i len extra buf)
  then show ?case using specials_left [of i len buf] by simp
next
  case (3 i len extra buf)
  then show ?case using chunk_hd [of i len buf] by simp
qed

declare decode7d7e.simps [simp del] encode7d7e.simps [simp del]

definition eng_diag_encode7d7e :: "bytes \<Rightarrow> nat \<Rightarrow> nat \<Rightarrow> (bytes \<times> nat \<times> nat) option" where
  "eng_diag_encode7d7e buf len extra_len = encode7d7e 0 len extra_len buf"

lemma translate_special: "translate_body (c # d) = (if special c then [0x7D, c XOR 0x20] else [c]) @ translate_body d"
  by (simp add: special_def)

lemma chunk_at: "i = length pre \<Longrightarrow> n = length xs \<Longrightarrow> chunk i n (pre @ xs @ ys) = xs"
  by (simp add: chunk_def)

lemma encode_from:
  assumes "length (filter special d) \<le> length pad"
  shows "encode7d7e (length pre) (length pre + length d) x (pre @ d @ pad)
    = Some (pre @ translate_body d @ drop (length (filter special d)) pad, length pre + length (translate_body d), x + length (filter special d))"
  using assms
proof (induction d arbitrary: pre pad x)
  case Nil
  show ?case by (subst encode7d7e.simps) simp
next
  case (Cons c d)
  show ?case
  proof (cases "special c")
    case True
    then obtain p pad' where pad: "pad = p # pad'" using Cons.prems by (cases pad) auto
    have "chunk (length pre + 1) (length pre + length (c # d) - (length pre + 1)) (pre @ (c # d) @ pad) = d"
      using chunk_at [of _ "pre @ [c]" _ d pad] by simp
    then have "encode7d7e (length pre) (length pre + length (c # d)) x (pre @ (c # d) @ pad)
      = encode7d7e (length (pre @ [0x7D])) (length (pre @ [0x7D]) + length ((c XOR 0x20) # d)) (x + 1) ((pre @ [0x7D]) @ ((c XOR 0x20) # d) @ pad')"
      using True by (subst encode7d7e.simps) (simp add: pad)
    also have "\<dots> = encode7d7e (length (pre @ [0x7D, c XOR 0x20])) (length (pre @ [0x7D, c XOR 0x20]) + length d) (x + 1)
        ((pre @ [0x7D, c XOR 0x20]) @ d @ pad')"
      using special_flipped [OF True] by (subst encode7d7e.simps) (simp add: nth_append)
    finally show ?thesis
      using Cons.IH [of pad' "pre @ [0x7D, c XOR 0x20]" "x + 1"] Cons.prems True by (simp add: pad translate_special del: translate_body.simps(2))
  next
    case False
    then have "encode7d7e (length pre) (length pre + length (c # d)) x (pre @ (c # d) @ pad)
      = encode7d7e (length (pre @ [c])) (length (pre @ [c]) + length d) x ((pre @ [c]) @ d @ pad)"
      by (subst encode7d7e.simps) simp
    then show ?thesis
      using Cons.IH [of pad "pre @ [c]" x] Cons.prems False by (simp add: translate_special del: translate_body.simps(2))
  qed
qed

lemma length_translate_body: "length d \<le> length (translate_body d)"
  by (induction d) auto

text \<open>Decoding what was escaped: the first escape that is not the last byte of the data moves two bytes or more.\<close>

lemma decode_from:
  "\<exists>buf'. length buf' = length pre + length (translate_body d) + 1 + length post \<and> take (length pre + length d) buf' = pre @ d
     \<and> decode7d7e (length pre) (length pre + length (translate_body d)) (pre @ translate_body d @ x # post)
       = (if \<exists>c \<in> set (butlast d). special c then None else Some buf')"
proof (induction d arbitrary: pre)
  case Nil
  show ?case by (subst decode7d7e.simps) (auto intro: exI [of _ "pre @ x # post"])
next
  case (Cons c d)
  show ?case
  proof (cases "special c")
    case True
    have flip: "(c XOR 0x20) XOR 0x20 = c" by (rule bit_eqI) (auto simp: bit_xor_iff)
    have body: "translate_body (c # d) = 0x7D # (c XOR 0x20) # translate_body d"
      using True by (simp add: translate_special del: translate_body.simps(2))
    have flag: "special 0x7D" by (simp add: special_def)
    have first: "decode7d7e (length pre) (length pre + length (translate_body (c # d))) (pre @ translate_body (c # d) @ x # post)
      = (if d = [] then decode7d7e (length pre + 1) (length pre + 1) (pre @ c # x # x # post) else None)"
    proof (cases d)
      case Nil
      have "chunk (length pre + 2) 1 (pre @ 0x7D # (c XOR 0x20) # x # post) = [x]"
        using chunk_at [of _ "pre @ [0x7D, c XOR 0x20]" _ "[x]" post] by simp
      then show ?thesis using flip flag
        unfolding body by (subst decode7d7e.simps) (simp add: Nil nth_append)
    next
      case (Cons e ds)
      then have "Suc 0 \<le> length (translate_body d)" by (simp add: translate_special Suc_le_eq del: translate_body.simps(2))
      then show ?thesis using Cons flag unfolding body by (subst decode7d7e.simps) (simp del: translate_body.simps(2))
    qed
    show ?thesis
    proof (cases d)
      case Nil
      have "decode7d7e (length pre + 1) (length pre + 1) (pre @ c # x # x # post) = Some (pre @ c # x # x # post)"
        by (subst decode7d7e.simps) simp
      then show ?thesis using first unfolding body by (intro exI [of _ "pre @ c # x # x # post"]) (simp add: Nil)
    next
      case (Cons e ds)
      obtain buf' where "length buf' = length pre + length (translate_body (c # d)) + 1 + length post" "take (length pre + length (c # d)) buf' = pre @ c # d"
        using body by (intro that [of "pre @ c # d @ replicate (length (translate_body d) + 2 + length post - length d) 0"])
          (use length_translate_body [of d] in auto)
      then show ?thesis using first True Cons by auto
    qed
  next
    case False
    then have step: "decode7d7e (length pre) (length pre + length (translate_body (c # d))) (pre @ translate_body (c # d) @ x # post)
      = decode7d7e (length (pre @ [c])) (length (pre @ [c]) + length (translate_body d)) ((pre @ [c]) @ translate_body d @ x # post)"
      by (subst decode7d7e.simps) (simp add: translate_special del: translate_body.simps(2))
    have "(\<exists>b \<in> set (butlast (c # d)). special b) = (\<exists>b \<in> set (butlast d). special b)" using False by auto
    with Cons.IH [of "pre @ [c]"] False step show ?thesis by (auto simp: translate_special simp del: translate_body.simps(2))
  qed
qed

text \<open>
  C22: Escaping and its inverse.  Escaping data inside a buffer with room for it leaves the data as the other protocol of
  the phone escapes them, moves the rest of the buffer up, and returns their length and how many bytes were added.  Undoing
  it inside a buffer that is one byte longer than the escaped data gives the data back if no byte but the last had to be
  escaped; with any other escape the move overlaps, and C does not say what the call does.
\<close>

theorem encode_decode_7d7e:
  assumes "length (filter special d) \<le> length pad"
  shows "\<exists>buf buf'. eng_diag_encode7d7e (d @ pad) (length d) 0 = Some (buf, length (translate_body d), length (filter special d))
     \<and> buf = translate_body d @ drop (length (filter special d)) pad
     \<and> eng_diag_decode7d7e (translate_body d @ [x]) (length (translate_body d))
       = (if \<exists>c \<in> set (butlast d). special c then None else Some buf') \<and> take (length d) buf' = d"
  using encode_from [OF assms, of "[]" 0] decode_from [where pre = "[]" and d = d and x = x and post = "[]"]
  by (auto simp: eng_diag_encode7d7e_def eng_diag_decode7d7e_def)

theorem encode_decode_7d7e_witness:
  "(\<exists>buf. eng_diag_encode7d7e [0x01, 0x7E, 0x00] 2 0 = Some (buf, 3, 1) \<and> buf = [0x01, 0x7D, 0x5E])
   \<and> (\<exists>buf'. eng_diag_decode7d7e [0x01, 0x7D, 0x5E, 0x00] 3 = Some buf' \<and> take 2 buf' = [0x01, 0x7E])"
proof -
  have "translate_body [0x01, 0x7E] = [0x01, 0x7D, 0x5E]" "filter special [0x01, 0x7E] = [0x7E]" "\<not> special 0x01"
    by (simp_all add: special_def)
  with encode_decode_7d7e [of "[0x01, 0x7E]" "[0x00]" "0x00"] show ?thesis by (auto simp: numeral_2_eq_2 numeral_3_eq_3)
qed

subsection \<open>Bytes and digits\<close>

definition nibble_char :: "u8 \<Rightarrow> u8" where
  "nibble_char semi_octet = (if semi_octet \<le> 9 then semi_octet + 0x30 else semi_octet + 0x41 - 10)"

definition bin2ascii :: "bytes \<Rightarrow> bytes" where
  "bin2ascii src = concat (map (\<lambda>b. [nibble_char (drop_bit 4 (b AND 0xF0)), nibble_char (b AND 0x0F)]) src)"

definition digit_bits :: "u8 \<Rightarrow> u8" where
  "digit_bits c = (if 0x30 \<le> c \<and> c \<le> 0x39 then c - 0x30 else c - 0x41 + 10)"

text \<open>The bytes that are stored for \<open>size\<close> digits; an odd number reads one more.\<close>

fun ascii2bin :: "nat \<Rightarrow> bytes \<Rightarrow> bytes option" where
  "ascii2bin 0 src = Some []"
| "ascii2bin (Suc n) (a # b # src) = map_option (\<lambda>r. (push_bit 4 (digit_bits a) OR digit_bits b) # r) (ascii2bin (n - 1) src)"
| "ascii2bin (Suc n) src = None"

lemma hex_table: "list_all (\<lambda>n. digit_bits (nibble_char (of_nat n)) = of_nat n) [0, 1, 2, 3, 4, 5, 6, 7, 8, 9, 10, 11, 12, 13, 14, 15]"
  by (simp add: digit_bits_def nibble_char_def)

lemma nibble_digit:
  assumes "n < 16"
  shows "digit_bits (nibble_char n) = n"
proof -
  have "unat n < 16" using assms by (simp add: word_less_nat_alt)
  then have "unat n \<in> set [0, 1, 2, 3, 4, 5, 6, 7, 8, 9, 10, 11, 12, 13, 14, 15]" by (auto simp: less_Suc_eq numeral_eq_Suc)
  with hex_table have "digit_bits (nibble_char (of_nat (unat n))) = of_nat (unat n)" unfolding list_all_iff by blast
  then show ?thesis by simp
qed

lemma nibbles_joined: "push_bit 4 (drop_bit 4 (b AND 0xF0)) OR (b AND 0x0F) = (b :: u8)"
proof (rule bit_word_eqI)
  fix n assume "n < LENGTH(8)"
  then have "n \<in> {0, 1, 2, 3, 4, 5, 6, 7}" by auto
  then show "bit (push_bit 4 (drop_bit 4 (b AND 0xF0)) OR (b AND 0x0F)) n \<longleftrightarrow> bit b n"
    by (auto simp: bit_simps)
qed

lemma nibble_less: "drop_bit 4 (b AND 0xF0) < (16 :: u8)" "b AND 0x0F < (16 :: u8)"
proof -
  show "b AND 0x0F < (16 :: u8)" using word_and_le1 [of b "0x0F"] by (rule order.strict_trans1) simp
  have "drop_bit 4 (b AND 0xF0) = drop_bit 4 (b AND 0xF0) AND 0x0F"
    by (rule bit_word_eqI) (auto simp: bit_simps)
  then show "drop_bit 4 (b AND 0xF0) < (16 :: u8)"
    using order.strict_trans1 [OF word_and_le1 [of "drop_bit 4 (b AND 0xF0)" "0x0F"], of 16] by simp
qed

lemma ascii2bin_bin2ascii: "ascii2bin (2 * length xs) (bin2ascii xs @ rest) = Some xs"
proof (induction xs)
  case Nil
  show ?case by (simp add: bin2ascii_def)
next
  case (Cons x xs)
  have "2 * length (x # xs) = Suc (Suc (2 * length xs))" by simp
  with Cons show ?case using nibble_digit [OF nibble_less(1)] nibble_digit [OF nibble_less(2)] nibbles_joined [of x]
    by (simp add: bin2ascii_def)
qed

subsection \<open>Collecting a frame\<close>

text \<open>The buffer of 8192 bytes; the closing flag is stored and not counted.\<close>

record diag_buffer =
  ext_data_buf :: bytes
  ext_buf_len :: nat

definition DATA_EXT_DIAG_SIZE :: nat where
  "DATA_EXT_DIAG_SIZE = 4096 * 2"

definition init_user_diag_buf :: diag_buffer where
  "init_user_diag_buf = \<lparr>ext_data_buf = replicate DATA_EXT_DIAG_SIZE 0, ext_buf_len = 0\<rparr>"

fun get_user_diag_buf :: "bytes \<Rightarrow> diag_buffer \<Rightarrow> bool \<times> diag_buffer" where
  "get_user_diag_buf [] d = (False, d)"
| "get_user_diag_buf (c # cs) d =
     (let n = ext_buf_len d in
      if c = 0x7E \<and> n = 0 then get_user_diag_buf cs (d\<lparr>ext_data_buf := (ext_data_buf d)[n := c], ext_buf_len := n + 1\<rparr>)
      else if 0 < n \<and> n < DATA_EXT_DIAG_SIZE
      then (if c = 0x7E then (True, d\<lparr>ext_data_buf := (ext_data_buf d)[n := c]\<rparr>)
            else get_user_diag_buf cs (d\<lparr>ext_data_buf := (ext_data_buf d)[n := c], ext_buf_len := n + 1\<rparr>))
      else get_user_diag_buf cs d)"

text \<open>The calls for a sequence of reads, until one finds the end.\<close>

fun feed :: "bytes list \<Rightarrow> diag_buffer \<Rightarrow> bool \<times> diag_buffer" where
  "feed [] d = (False, d)"
| "feed (r # rs) d = (case get_user_diag_buf r d of (True, d) \<Rightarrow> (True, d) | (False, d) \<Rightarrow> feed rs d)"

lemma get_user_diag_buf_append:
  "get_user_diag_buf (a @ b) d = (case get_user_diag_buf a d of (True, d) \<Rightarrow> (True, d) | (False, d) \<Rightarrow> get_user_diag_buf b d)"
  by (induction a d rule: get_user_diag_buf.induct) (auto simp: Let_def)

lemma feed_concat: "feed rs d = get_user_diag_buf (concat rs) d"
  by (induction rs arbitrary: d) (auto simp: get_user_diag_buf_append split: prod.split bool.split)

lemma skip_noise: "0x7E \<notin> set noise \<Longrightarrow> ext_buf_len d = 0 \<Longrightarrow> get_user_diag_buf (noise @ r) d = get_user_diag_buf r d"
  by (induction noise) auto

lemma collect_body:
  assumes "0x7E \<notin> set body" "0 < ext_buf_len d" "ext_buf_len d + length body < DATA_EXT_DIAG_SIZE"
    "length (ext_data_buf d) = DATA_EXT_DIAG_SIZE"
  shows "\<exists>d'. get_user_diag_buf (body @ 0x7E # r) d = (True, d') \<and> ext_buf_len d' = ext_buf_len d + length body
    \<and> length (ext_data_buf d') = DATA_EXT_DIAG_SIZE
    \<and> take (ext_buf_len d + length body + 1) (ext_data_buf d') = take (ext_buf_len d) (ext_data_buf d) @ body @ [0x7E]
    \<and> drop (ext_buf_len d + length body + 1) (ext_data_buf d') = drop (ext_buf_len d + length body + 1) (ext_data_buf d)"
  using assms
proof (induction body arbitrary: d)
  case Nil
  then show ?case by (simp add: Let_def take_Suc_conv_app_nth)
next
  case (Cons c body)
  let ?d = "d\<lparr>ext_data_buf := (ext_data_buf d)[ext_buf_len d := c], ext_buf_len := ext_buf_len d + 1\<rparr>"
  have "get_user_diag_buf ((c # body) @ 0x7E # r) d = get_user_diag_buf (body @ 0x7E # r) ?d"
    using Cons.prems by (simp add: Let_def)
  moreover have "take (ext_buf_len d + 1) ((ext_data_buf d)[ext_buf_len d := c]) = take (ext_buf_len d) (ext_data_buf d) @ [c]"
    using Cons.prems by (simp add: take_Suc_conv_app_nth)
  ultimately show ?case using Cons.IH [of ?d] Cons.prems by simp
qed

text \<open>
  C23: A frame is collected however it is cut into reads.  After the buffer has been cleared, reads that bring bytes without a
  flag and then a frame of up to 8190 bytes between its flags end in the frame: the read that brings the closing flag finds
  it, and the buffer holds it from its beginning, with zeros behind it.
\<close>

theorem frame_collected:
  assumes "concat rs = noise @ 0x7E # body @ 0x7E # rest" "0x7E \<notin> set noise" "0x7E \<notin> set body" "length body + 1 < 8192"
  shows "\<exists>d. feed rs init_user_diag_buf = (True, d) \<and> ext_buf_len d = length body + 1
    \<and> ext_data_buf d = 0x7E # body @ 0x7E # replicate (8192 - (length body + 2)) 0"
proof -
  let ?d = "\<lparr>ext_data_buf = (replicate DATA_EXT_DIAG_SIZE 0)[0 := 0x7E], ext_buf_len = 1\<rparr> :: diag_buffer"
  have collected: "get_user_diag_buf (noise @ 0x7E # body @ 0x7E # rest) init_user_diag_buf = get_user_diag_buf (body @ 0x7E # rest) ?d"
    using assms(2) by (simp add: skip_noise init_user_diag_buf_def)
  obtain d where d: "get_user_diag_buf (body @ 0x7E # rest) ?d = (True, d)" "ext_buf_len d = 1 + length body"
      "take (1 + length body + 1) (ext_data_buf d) = take 1 (ext_data_buf ?d) @ body @ [0x7E]"
      "drop (1 + length body + 1) (ext_data_buf d) = drop (1 + length body + 1) (ext_data_buf ?d)"
    using collect_body [of body ?d rest] assms(3,4) by (auto simp: DATA_EXT_DIAG_SIZE_def)
  have "ext_data_buf d = take (1 + length body + 1) (ext_data_buf d) @ drop (1 + length body + 1) (ext_data_buf d)" by simp
  also have "\<dots> = 0x7E # body @ 0x7E # replicate (8192 - (length body + 2)) 0"
    unfolding d(3,4) by (simp add: DATA_EXT_DIAG_SIZE_def take_Suc hd_conv_nth)
  finally show ?thesis using d(1,2) by (simp only: feed_concat assms(1) collected) auto
qed

theorem frame_collected_witness:
  "\<exists>d. feed [[0x00, 0x7E], [0x41], [0x42, 0x7E, 0x99]] init_user_diag_buf = (True, d) \<and> ext_buf_len d = 3"
  using frame_collected [of "[[0x00, 0x7E], [0x41], [0x42, 0x7E, 0x99]]" "[0x00]" "[0x41, 0x42]" "[0x99]"] by auto

text \<open>
  A frame that is too long stops the channel for good.  Once 8192 bytes have been collected without a closing flag, every
  further byte is passed over, flags as well, and the buffer is never cleared, since only a found frame clears it.
\<close>

theorem overlong_frame_stops:
  assumes "0x7E \<notin> set body" "8191 \<le> length body"
  shows "fst (feed ((0x7E # body) # rs) init_user_diag_buf) = False"
proof -
  have full: "get_user_diag_buf cs d = (False, d)" if "ext_buf_len d = DATA_EXT_DIAG_SIZE" for cs d
    using that by (induction cs) (simp_all add: Let_def DATA_EXT_DIAG_SIZE_def)
  have filled: "\<exists>d'. get_user_diag_buf cs d = (False, d') \<and> (0 < ext_buf_len d \<longrightarrow> ext_buf_len d' = min DATA_EXT_DIAG_SIZE (ext_buf_len d + length cs))"
    if "0x7E \<notin> set cs" "ext_buf_len d \<le> DATA_EXT_DIAG_SIZE" for cs d
    using that by (induction cs d rule: get_user_diag_buf.induct) (auto simp: Let_def min_def)
  let ?d = "\<lparr>ext_data_buf = (replicate DATA_EXT_DIAG_SIZE 0)[0 := 0x7E], ext_buf_len = 1\<rparr> :: diag_buffer"
  from filled [OF assms(1), of ?d] obtain d where d: "get_user_diag_buf body ?d = (False, d)" "ext_buf_len d = DATA_EXT_DIAG_SIZE"
    using assms(2) by (auto simp: DATA_EXT_DIAG_SIZE_def min_def)
  have first: "get_user_diag_buf (0x7E # body) init_user_diag_buf = (False, d)" using d(1) by (simp add: init_user_diag_buf_def)
  have "concat ((0x7E # body) # rs) = (0x7E # body) @ concat rs" by simp
  then show ?thesis by (simp only: feed_concat get_user_diag_buf_append first full [OF d(2)] prod.case bool.case fst_conv)
qed

theorem overlong_frame_stops_witness:
  "fst (feed ((0x7E # replicate 8191 0x41) # [[0x7E, 0x41, 0x7E]]) init_user_diag_buf) = False"
  by (rule overlong_frame_stops) simp_all

end
