(* ===== verification/Spec2Isabelle.thy ===== *)
theory Spec2Isabelle
  imports ModemDownload ModemState NvRequests CmrMsg JpegSafety JpegBounds JpegInit JpegCodes ExifMerge ProgSetup EngDiag
begin

text \<open>
  A verification of native components of the device tree for the Spreadtrum phones.

  \<^bold>\<open>What is modelled.\<close>  The tree holds several programs and libraries that do not share memory; the
  ones below were chosen because they have logic of their own and not only calls of drivers.

  \<^item> The modem side, \<^verbatim>\<open>common/apps\<close>.  \<^verbatim>\<open>modem_control\<close> is a manager that watches the modem processor
    and boots it: \<^verbatim>\<open>crc16.c\<close> (theory \<^verbatim>\<open>Checksum\<close>), \<^verbatim>\<open>packet.c\<close> (\<^verbatim>\<open>Packet\<close>: the HDLC framing and the
    exchange of a message and its reply over UART and SPI; \<^verbatim>\<open>PacketLink\<close>: what that does on the line),
    the image table of \<^verbatim>\<open>modem_boot.c\<close> (\<^verbatim>\<open>ModemImages\<close>), its boot sequence (\<^verbatim>\<open>ModemBoot\<close>, with its
    theorems in \<^verbatim>\<open>ModemDownload\<close>) and the state machine of \<^verbatim>\<open>main.c\<close> (\<^verbatim>\<open>ModemState\<close>).  \<^verbatim>\<open>nvm_daemon\<close>
    keeps the non-volatile items of the modem: \<^verbatim>\<open>nvitem.c\<close> is in \<^verbatim>\<open>NvFiles\<close> (file helpers), \<^verbatim>\<open>NvItem\<close>
    (the loop that serves requests) and \<^verbatim>\<open>NvRequests\<close> (its theorems).
  \<^item> The camera's message queues, \<^verbatim>\<open>libcamera/sc8825/src/cmr_msg.c\<close>, in \<^verbatim>\<open>CmrMsg\<close>.
  \<^item> The JPEG firmware, \<^verbatim>\<open>libcamera/jpeg_fw_8810\<close>.  The state that its parts share is the codec record
    (\<^verbatim>\<open>JpegCodec\<close>) and the constant tables (\<^verbatim>\<open>JpegTables\<close>, \<^verbatim>\<open>JpegQuant\<close>).  The encoder side is the set-up
    (\<^verbatim>\<open>JpegInit\<close>) and the header writer (\<^verbatim>\<open>JpegEnc\<close>); the decoder side is the arena and byte reader
    (\<^verbatim>\<open>JpegStream\<close>), the header parser (\<^verbatim>\<open>JpegParse\<close>), and the Huffman tables of the hardware
    (\<^verbatim>\<open>JpegHuffman\<close>, \<^verbatim>\<open>JpegCodes\<close>).  \<^verbatim>\<open>JpegContract\<close>, \<^verbatim>\<open>JpegSegments\<close> and \<^verbatim>\<open>JpegHeader\<close> prove that the
    parser reads what the writer writes, \<^verbatim>\<open>JpegSafety\<close> and \<^verbatim>\<open>JpegBounds\<close> what the parser does on any input.
  \<^item> The EXIF writer of the same firmware: \<^verbatim>\<open>jpeg_stream.c\<close> (\<^verbatim>\<open>ExifStream\<close>), the information of
    \<^verbatim>\<open>jpeg_exif_header.h\<close> (\<^verbatim>\<open>ExifTypes\<close>), \<^verbatim>\<open>exif_writer.c\<close> (\<^verbatim>\<open>ExifFields\<close>: which fields are written, in the
    order of the code; \<^verbatim>\<open>ExifWriter\<close>: how), \<^verbatim>\<open>PutAPP1\<close> and \<^verbatim>\<open>JPEG_HWWriteHead\<close> (\<^verbatim>\<open>ExifHeader\<close>), and the
    functions that add EXIF data to a finished picture (\<^verbatim>\<open>ExifMerge\<close>).
  \<^item> The software decoder of progressive pictures, \<^verbatim>\<open>libcamera/jpeg_fw_8800g\<close>, which the other copies of the
    firmware leave out: the bit buffer (\<^verbatim>\<open>ProgBits\<close>, \<^verbatim>\<open>jpegdec_bitstream.c\<close>), the derived tables and the
    decoding of a symbol (\<^verbatim>\<open>ProgHuffman\<close>, \<^verbatim>\<open>ProgTable\<close>) and the four decoders of a unit (\<^verbatim>\<open>ProgMcu\<close>) of
    \<^verbatim>\<open>jpegdec_pvld.c\<close>, the inverse transforms (\<^verbatim>\<open>ProgIdct\<close>, \<^verbatim>\<open>jpegdec_dequant.c\<close>), and the loop over the
    rows, units and scans with the output into the frame (\<^verbatim>\<open>ProgFrame\<close>, \<^verbatim>\<open>jpegdec_frame.c\<close> and
    \<^verbatim>\<open>jpegdec_out.c\<close>), the run over the stream that finds the scans, their tables and headers
    (\<^verbatim>\<open>ProgScan\<close>, \<^verbatim>\<open>jpegdec_pvld.c\<close>) and the set-up (\<^verbatim>\<open>ProgSetup\<close>, \<^verbatim>\<open>jpegdec_interface.c\<close>).  \<^verbatim>\<open>ProgDecode\<close>, \<^verbatim>\<open>ProgFirst\<close> and \<^verbatim>\<open>ProgRefine\<close> hold what they decode.
  \<^item> Of the engineering mode (\<^verbatim>\<open>common/apps/engineeringmodel/engcs\<close>) the reader of AT lines (\<^verbatim>\<open>EngTok\<close>,
    \<^verbatim>\<open>eng_attok.c\<close>) and the diagnostic channel's frames, escapes and digits (\<^verbatim>\<open>EngDiag\<close>, \<^verbatim>\<open>vdiag.c\<close> and
    \<^verbatim>\<open>eng_diag.c\<close>).

  \<^bold>\<open>How the code is modelled.\<close>  Integers have their width (\<^verbatim>\<open>Prelude\<close> names the types), buffers are
  lists of bytes whose accesses are checked: an access outside is the value \<^term>\<open>None\<close> or, in the
  JPEG parts, the outcome \<^term>\<open>JFault\<close>, so that no theorem can rest on it.  The same holds for other undefined
  behaviour that the code reaches: a copy between overlapping objects (\<^verbatim>\<open>decode7d7e\<close>) and the number of packets of an
  image whose size is near the end of \<open>int\<close> (\<^verbatim>\<open>download_image\<close>).  JPEG and EXIF code is
  written with the statements of \<^verbatim>\<open>JpegCodec\<close>, whose outcomes are a value, a reported failure with the
  state at that point, and a fault.  What the code gets from outside is a script in the state, which
  is consumed as the code asks: the pieces that a read delivers, the sizes that a write takes, the
  results of a status poll, the lines of a state file.  What it sends is recorded.  A script that has
  run out stands for an end of file, a closed line, or a module that is ready; each theory says which.
  Loops that only end because the outside does are recursive on the script, so no fuel is needed
  there; the theorems say that the result is reached under the hypotheses about the script.  The
  progressive decoder has loops that need not end (the refill of the bit buffer at a marker, the row
  of a wide picture): its statements are partial functions with an outcome more, \<^term>\<open>None\<close>, for a
  call that does not return, and its theorems state the outcome, so that they include termination.

  \<^bold>\<open>What is proved, by group of lemmas.\<close>
  \<^item> Checksums: the unrolled and table-driven routines are bit-serial division (the locales
    \<^verbatim>\<open>crc_register\<close> and \<^verbatim>\<open>crc_update\<close>, interpreted for each of the three registers), and detect every
    corruption of a byte.
  \<^item> The download protocol: frames decode to the packet, which packets the receiver gives back, what
    arrives of an image; the state machine of the manager has an invariant over its reachable states
    (\<^verbatim>\<open>modemd_step\<close>, \<^verbatim>\<open>reachable\<close>) and its clients are told.
  \<^item> The item daemon: a request patches exactly its bytes, renews the checksum and keeps the copy.
  \<^item> The queue refines a bounded queue (locale \<^verbatim>\<open>bounded_queue\<close>) below the capacity that the code really
    has, one less than it says.
  \<^item> The header: every statement of the writer has a contract (\<^verbatim>\<open>writes\<close>) and every statement of the
    parser one (\<^verbatim>\<open>consumes\<close>, independent of how the stream is cut into buffers); together they give
    the round trip of a header.  On any input the weakest preconditions of the statements (\<^verbatim>\<open>wp\<close>) show that a
    handler stays inside the tables of the decoder, unless a segment is one of those that four missing checks let
    through (\<^verbatim>\<open>segment_fits\<close>) or the arena is used up (\<^verbatim>\<open>segment_needs\<close>).
  \<^item> The Huffman tables: the codes are a canonical prefix code, and the two ways of loading the
    hardware agree for the default tables.
  \<^item> EXIF: a statement that writes bytes has a contract on the buffer (\<^verbatim>\<open>emits\<close>, \<^verbatim>\<open>ExifLayout\<close>); an
    entry leaves its head and its value (\<^verbatim>\<open>ExifTable\<close>); a table that is being written is described
    by an invariant (\<^verbatim>\<open>open_table\<close>, \<^verbatim>\<open>ExifTables\<close>, \<^verbatim>\<open>ExifImage\<close>) until it can be read by a reader that is
    written from the file format alone (\<^verbatim>\<open>ExifReader\<close>).  \<^verbatim>\<open>ExifShape\<close> says when the information is
    well-formed and how much room it needs, \<^verbatim>\<open>ExifSegment\<close> and \<^verbatim>\<open>ExifRoundtrip\<close> put the tables together,
    \<^verbatim>\<open>ExifSafety\<close> shows that nothing is read outside the information, \<^verbatim>\<open>ExifFile\<close> says what the caller
    gets.  \<^verbatim>\<open>ExifHeader\<close> and \<^verbatim>\<open>ExifMerge\<close> compose this with the header parser: the EXIF data and the
    tables of a picture are read back from the same bytes.

  \<^item> Progressive pictures: the bits that a reference encoder writes for the values of a pass, cut into
    symbols by a canonical code and put into bytes with the escapes of the format, are what the decoders read
    (\<^verbatim>\<open>ProgDecode\<close> for a symbol, \<^verbatim>\<open>ProgFirst\<close> for the first passes, \<^verbatim>\<open>ProgRefine\<close> for the refinements), the
    lookup tables decode that code (\<^verbatim>\<open>ProgTable\<close>), the shortcuts of the transforms are exact and agree across
    the sizes (\<^verbatim>\<open>ProgIdct\<close>), and the samples of a unit come from the blocks of that unit and go to their places
    in the frame (\<^verbatim>\<open>ProgFrame\<close>, with the frame rule \<^verbatim>\<open>untouched\<close> for what the decoders of a unit leave alone).  The run over the
    stream equals the plan that the format asks for (\<^verbatim>\<open>scan_plan\<close>), an entry holds what its header says
    (\<^verbatim>\<open>ProgScan\<close>, with the frame rule \<^verbatim>\<open>steady\<close>), and after the set-up every block of a unit has its place (\<^verbatim>\<open>ProgSetup\<close>).
  \<^item> Engineering mode: the tokens of a line and the numbers in it are those that were written (\<^verbatim>\<open>EngTok\<close>); escaping
    is the escaping of \<^verbatim>\<open>Packet\<close> and is undone, and a frame is found however the reads cut it (\<^verbatim>\<open>EngDiag\<close>).

  \<^bold>\<open>Bounds.\<close>  The EXIF theorems take buffers shorter than \<^term>\<open>2 ^ 32\<close>, since positions are words; a
  segment has at most 30651 bytes beside the thumbnail (24, 57, 31 and 1 entries per table, at most 256
  bytes per text), so with a thumbnail of at most 34886 bytes its length fits into 16 bits.  The
  subject area is excluded from well-formed information, because the code writes it with the wrong
  writer.  The download theorem is for images whose size, rounded up to whole packets, is an \<open>int\<close>; from there on the
  code is undefined.  The queue theorems hold for one less message than the ring has nodes.

  \<^bold>\<open>Where the code does not do what it means to.\<close>  These are theorems too: a decoded escape byte is taken
  for an escape again, a full ring loses a message, the size of a large EXIF segment wraps, a value
  that does not fit is counted as written, the destination longitude depends on the flag of the
  latitude, the decoder of progressive pictures hangs at a restart marker and takes its presence for an error,
  its derived tables lack the sentinel that the declaration promises, its tables for the scaled sizes are
  permuted twice, a row of 256 units or more is never finished, a second table segment between two scans is
  lost, more scans than entries overrun their array, and a diagnostic frame that is too long closes its channel.  The theories state others as plain theorems beside the code they are about.

  \<^bold>\<open>Not modelled.\<close>  Register programming, interrupt handling and the frame loops of the codec, the camera
  HAL and the sensor tables: their effect is that of hardware which the tree does not describe.  The
  copies of the firmware for other chips, where they are the same text apart from register addresses, traces and
  small fixes.  Threads are modelled as the order of their steps where the order matters (the queue,
  the manager) and not otherwise.  Third-party code (Mali, UMP, Lua), Java code and C++ HAL modules are
  left out.  The log daemon, the rest of the engineering mode and the audio HAL pass lines between device nodes,
  sockets and mixers and take every decision on what these answer; they are not modelled.
\<close>

end
